(* ===== verification/Prelude.thy ===== *)
theory Prelude
  imports Main "HOL-Library.Word" "HOL-Library.AList"
begin

text \<open>
  Shared vocabulary of the development: the Go types that every component uses, indexing and
  slicing with Go's run-time panics written as \<open>None\<close>, the \<open>chainhash.Hash\<close> type, and the
  generic facts on lists and reversible logs that the component theories share.

  Go's \<open>int\<close> and \<open>int64\<close> counters that only ever hold slice lengths, heights and indexes are
  \<open>int\<close>; sums and differences of \<open>uint64\<close> quantities are \<open>64 word\<close>, so they wrap as in Go.
  A Go slice is a list; where the source distinguishes a nil slice from an empty one, it is a
  list option (\<open>None\<close> is nil). A \<open>chainhash.Hash\<close> is a 32-byte array compared by value:
  \<open>256 word\<close>, whose zero is the zero hash.
\<close>

named_theorems go_defs \<open>definitions of Go primitives that proofs unfold\<close>
named_theorems inv_intros \<open>preservation of the component invariants\<close>

type_synonym Hash = "256 word"
type_synonym uint64 = "64 word"

subsection \<open>Indexing and slicing\<close>

text \<open>\<open>xs[i]\<close>: \<open>None\<close> is the index-out-of-range panic.\<close>

definition go_index :: "'a list \<Rightarrow> int \<Rightarrow> 'a option" where
  "go_index xs i = (if 0 \<le> i \<and> i < int (length xs) then Some (xs ! nat i) else None)"

text \<open>\<open>xs[lo:hi]\<close> for a slice whose capacity is its length: \<open>None\<close> is the panic.\<close>

definition go_slice :: "'a list \<Rightarrow> int \<Rightarrow> int \<Rightarrow> 'a list option" where
  "go_slice xs lo hi =
     (if 0 \<le> lo \<and> lo \<le> hi \<and> hi \<le> int (length xs)
      then Some (take (nat (hi - lo)) (drop (nat lo) xs)) else None)"

lemma go_index_Some [simp]:
  "0 \<le> i \<Longrightarrow> i < int (length xs) \<Longrightarrow> go_index xs i = Some (xs ! nat i)"
  by (simp add: go_index_def)

lemma go_index_None: "go_index xs i = None \<longleftrightarrow> i < 0 \<or> int (length xs) \<le> i"
  by (auto simp: go_index_def)

lemma go_slice_Some:
  "0 \<le> lo \<Longrightarrow> lo \<le> hi \<Longrightarrow> hi \<le> int (length xs)
   \<Longrightarrow> go_slice xs lo hi = Some (take (nat (hi - lo)) (drop (nat lo) xs))"
  by (simp add: go_slice_def)

subsection \<open>Panics and fixed-width counters\<close>

text \<open>The result of a function that may panic.\<close>

datatype 'a go = Ret 'a | Panic

text \<open>The value of an \<open>int\<close> (or \<open>int64\<close>) sum or difference, which wraps at 64 bits.\<close>

definition wrap64 :: "int \<Rightarrow> int" where
  "wrap64 x = sint (word_of_int x :: 64 word)"

lemma wrap64_id: "- (2 ^ 63) \<le> x \<Longrightarrow> x < 2 ^ 63 \<Longrightarrow> wrap64 x = x"
  by (simp add: wrap64_def int_word_sint)

text \<open>The elements of a slice: a nil slice has none.\<close>

definition elems :: "'a list option \<Rightarrow> 'a list" where
  "elems s = (case s of None \<Rightarrow> [] | Some xs \<Rightarrow> xs)"

lemma elems_simps [simp]: "elems None = []" "elems (Some xs) = xs"
  by (simp_all add: elems_def)

subsection \<open>First occurrences\<close>

text \<open>The distinct elements of a list in the order of their first occurrences.\<close>

fun firsts :: "'a list \<Rightarrow> 'a list" where
  "firsts [] = []"
| "firsts (x # xs) = x # filter (\<lambda>y. y \<noteq> x) (firsts xs)"

lemma set_firsts [simp]: "set (firsts xs) = set xs"
  by (induction xs) auto

lemma distinct_firsts [simp]: "distinct (firsts xs)"
  by (induction xs) auto

lemma length_firsts: "length (firsts xs) = card (set xs)"
  by (metis distinct_card distinct_firsts set_firsts)

lemma firsts_snoc: "firsts (xs @ [x]) = (if x \<in> set xs then firsts xs else firsts xs @ [x])"
  by (induction xs) auto

lemma firsts_filter: "firsts (filter P xs) = filter P (firsts xs)"
  by (induction xs) (auto simp: conj_commute intro!: filter_cong)

lemma firsts_append: "firsts (xs @ ys) = firsts xs @ filter (\<lambda>y. y \<notin> set xs) (firsts ys)"
  by (induction xs) (auto intro!: filter_cong)

subsection \<open>Association lists and sums\<close>

lemma map_of_filter_keys:
  "map_of (filter (\<lambda>p. fst p \<notin> X) xs) y = (if y \<in> X then None else map_of xs y)"
  by (induction xs) auto

lemma delete_filter: "AList.delete x xs = filter (\<lambda>p. fst p \<noteq> x) xs"
  by (induction xs) auto

lemma member_le_sum_int: "x \<in> set xs \<Longrightarrow> (\<And>y. y \<in> set xs \<Longrightarrow> 0 \<le> y) \<Longrightarrow> (x::int) \<le> sum_list xs"
proof (induction xs)
  case Nil
  then show ?case by simp
next
  case (Cons a xs)
  have "0 \<le> a" "0 \<le> sum_list xs" using Cons.prems(2) by (auto intro: sum_list_nonneg)
  then show ?case using Cons by fastforce
qed

subsection \<open>Reversible logs\<close>

text \<open>
  A log of entries that are applied one after the other to a state. \<open>log_ok\<close> says that each
  entry may be applied to the state that the entries before it lead to.
\<close>

fun log_ok :: "('d \<Rightarrow> 's \<Rightarrow> bool) \<Rightarrow> ('d \<Rightarrow> 's \<Rightarrow> 's) \<Rightarrow> 'd list \<Rightarrow> 's \<Rightarrow> bool" where
  "log_ok ok f [] s = True"
| "log_ok ok f (d # ds) s = (ok d s \<and> log_ok ok f ds (f d s))"

lemma log_ok_append:
  "log_ok ok f (xs @ ys) s \<longleftrightarrow> log_ok ok f xs s \<and> log_ok ok f ys (fold f xs s)"
  by (induction xs arbitrary: s) auto

lemma log_ok_nth:
  "log_ok ok f ds s \<Longrightarrow> k < length ds \<Longrightarrow> ok (ds ! k) (fold f (take k ds) s)"
proof (induction ds arbitrary: s k)
  case Nil
  then show ?case by simp
next
  case (Cons d ds)
  then show ?case by (cases k) auto
qed

lemma fold_take_Suc:
  "k < length ds \<Longrightarrow> fold f (take (Suc k) ds) s = f (ds ! k) (fold f (take k ds) s)"
  by (simp add: take_Suc_conv_app_nth)

text \<open>
  The interface of a reversible log: entries that an inverse operation undoes wherever they
  could be applied. Its provider is the ticket pool, whose diffs are applied in both directions.
\<close>

locale reversible =
  fixes fwd :: "'d \<Rightarrow> 's \<Rightarrow> 's"
    and bwd :: "'d \<Rightarrow> 's \<Rightarrow> 's"
    and ok :: "'d \<Rightarrow> 's \<Rightarrow> bool"
  assumes bwd_fwd: "ok d s \<Longrightarrow> bwd d (fwd d s) = s"
begin

lemma undo_last:
  assumes "log_ok ok fwd ds s" and "k < length ds"
  shows "bwd (ds ! k) (fold fwd (take (Suc k) ds) s) = fold fwd (take k ds) s"
  using assms by (simp add: fold_take_Suc bwd_fwd log_ok_nth)

lemma undo_all: "log_ok ok fwd ds s \<Longrightarrow> fold bwd (rev ds) (fold fwd ds s) = s"
proof (induction ds arbitrary: s rule: rev_induct)
  case Nil
  then show ?case by simp
next
  case (snoc d ds)
  then have "ok d (fold fwd ds s)" and "log_ok ok fwd ds s"
    by (auto simp: log_ok_append)
  then show ?case by (simp add: bwd_fwd snoc.IH)
qed

lemma replay_inj:
  assumes "log_ok ok fwd ds s" and "log_ok ok fwd ds s'"
    and "fold fwd ds s = fold fwd ds s'"
  shows "s = s'"
  using assms by (metis undo_all)

end

text \<open>A key that a map does not have is added at its end.\<close>

lemma update_new: "map_of xs k = None \<Longrightarrow> AList.update k v xs = xs @ [(k, v)]"
  by (induction xs) (auto split: if_splits)

end
