(* ===== verification/TicketPool.thy ===== *)
theory TicketPool
  imports Prelude
begin

text \<open>
  The live ticket pool of \<open>stakedb/ticketpool.go\<close>: a list of pool diffs, one per block height
  above genesis, a cursor that points at the next unapplied diff, and the pool map, which holds
  the tickets that are live at the cursor's height. The on-disk badger database is a value of
  the parameter type \<open>'db\<close>, written by the parameter \<open>dbSet\<close>.
\<close>

subsection \<open>Data\<close>

record PoolDiff =
  In :: "Hash list"
  Out :: "Hash list"

record 'db TicketPool =
  cursor :: int
  tip :: int
  diffs :: "PoolDiff list"
  pool :: "Hash set"
  diffDB :: 'db

datatype tpError =
    NotBuildOn int int
  | NotConnected int int
  | CursorAtTip
  | AdvancePastTip
  | CursorAtGenesis
  | WrongPoolSize nat int
  | InvalidCursor int
  | DBError string
  | PanicIndex

text \<open>A method with a pointer receiver returns its error (\<open>None\<close> is nil) and the new state.\<close>

type_synonym 'db tpResult = "tpError option \<times> 'db TicketPool"
type_synonym 'db dbSet = "'db \<Rightarrow> uint64 \<Rightarrow> PoolDiff \<Rightarrow> string + 'db"

subsection \<open>Operations\<close>

definition maxCursor :: "'db TicketPool \<Rightarrow> int" where
  "maxCursor tp = (if tip tp = 0 then 0 else tip tp - 1)"

text \<open>Both loops of \<open>applyDiff\<close>; the size checks of the source only write log messages.\<close>

definition applyDiff :: "Hash list \<Rightarrow> Hash list \<Rightarrow> Hash set \<Rightarrow> Hash set" where
  "applyDiff ins outs p = fold (\<lambda>h q. q - {h}) outs (fold insert ins p)"

definition tpAppend :: "PoolDiff \<Rightarrow> 'db TicketPool \<Rightarrow> 'db TicketPool" where
  "tpAppend d tp = tp\<lparr>tip := tip tp + 1, diffs := diffs tp @ [d]\<rparr>"

definition storeDiff :: "'db dbSet \<Rightarrow> PoolDiff \<Rightarrow> int \<Rightarrow> 'db TicketPool \<Rightarrow> 'db tpResult" where
  "storeDiff dbSet d height tp =
     (case dbSet (diffDB tp) (word_of_int height) d of
        Inl e \<Rightarrow> (Some (DBError e), tp)
      | Inr db \<Rightarrow> (None, tp\<lparr>diffDB := db\<rparr>))"

definition advance :: "'db TicketPool \<Rightarrow> 'db tpResult" where
  "advance tp =
     (if cursor tp > maxCursor tp then (Some CursorAtTip, tp)
      else case go_index (diffs tp) (cursor tp) of
        None \<Rightarrow> (Some PanicIndex, tp)
      | Some d \<Rightarrow>
          let expected = int (card (pool tp)) + int (length (In d)) - int (length (Out d));
              tp' = tp\<lparr>pool := applyDiff (In d) (Out d) (pool tp), cursor := cursor tp + 1\<rparr>
          in if int (card (pool tp')) \<noteq> expected
             then (Some (WrongPoolSize (card (pool tp')) expected), tp')
             else (None, tp'))"

definition retreat :: "'db TicketPool \<Rightarrow> 'db tpResult" where
  "retreat tp =
     (if cursor tp = 0 then (Some CursorAtGenesis, tp)
      else case go_index (diffs tp) (cursor tp - 1) of
        None \<Rightarrow> (Some PanicIndex, tp)
      | Some d \<Rightarrow>
          let expected = int (card (pool tp)) - int (length (In d)) + int (length (Out d));
              tp' = tp\<lparr>pool := applyDiff (Out d) (In d) (pool tp), cursor := cursor tp - 1\<rparr>
          in if int (card (pool tp')) \<noteq> expected
             then (Some (WrongPoolSize (card (pool tp')) expected), tp')
             else (None, tp'))"

lemma advance_cursor: "advance tp = (None, tp') \<Longrightarrow> cursor tp' = cursor tp + 1"
  by (auto simp: advance_def Let_def split: if_splits option.splits)

lemma retreat_cursor: "retreat tp = (None, tp') \<Longrightarrow> cursor tp' = cursor tp - 1"
  by (auto simp: retreat_def Let_def split: if_splits option.splits)

text \<open>The loops \<open>for height > tp.cursor { tp.advance() }\<close> and \<open>for tp.cursor > height { tp.retreat() }\<close>.\<close>

function advanceLoop :: "int \<Rightarrow> 'db TicketPool \<Rightarrow> 'db tpResult" where
  "advanceLoop height tp =
     (if height > cursor tp
      then (case advance tp of (Some e, tp') \<Rightarrow> (Some e, tp') | (None, tp') \<Rightarrow> advanceLoop height tp')
      else (None, tp))"
  by pat_completeness auto
termination
  by (relation "measure (\<lambda>(height, tp). nat (height - cursor tp))") (auto dest!: advance_cursor[OF sym])

function retreatLoop :: "int \<Rightarrow> 'db TicketPool \<Rightarrow> 'db tpResult" where
  "retreatLoop height tp =
     (if cursor tp > height
      then (case retreat tp of (Some e, tp') \<Rightarrow> (Some e, tp') | (None, tp') \<Rightarrow> retreatLoop height tp')
      else (None, tp))"
  by pat_completeness auto
termination
  by (relation "measure (\<lambda>(height, tp). nat (cursor tp - height))") (auto dest!: retreat_cursor[OF sym])

declare advanceLoop.simps [simp del] retreatLoop.simps [simp del]

definition advanceTo :: "int \<Rightarrow> 'db TicketPool \<Rightarrow> 'db tpResult" where
  "advanceTo height tp =
     (if height > tip tp then (Some AdvancePastTip, tp) else advanceLoop height tp)"

definition AdvanceToTip :: "'db TicketPool \<Rightarrow> (int \<times> tpError option) \<times> 'db TicketPool" where
  "AdvanceToTip tp = (case advanceTo (tip tp) tp of (err, tp') \<Rightarrow> ((cursor tp', err), tp'))"

definition retreatTo :: "int \<Rightarrow> 'db TicketPool \<Rightarrow> 'db tpResult" where
  "retreatTo height tp =
     (if height < 0 \<or> height > tip tp then (Some (InvalidCursor height), tp)
      else retreatLoop height tp)"

text \<open>
  \<open>Trim\<close> only logs an error of \<open>retreatTo\<close>; a run-time panic in it is not caught, and ends the
  call with \<open>None\<close> as its result.
\<close>

definition Trim :: "'db TicketPool \<Rightarrow> (int \<times> PoolDiff) option \<times> 'db TicketPool" where
  "Trim tp =
     (if tip tp = 0 \<or> diffs tp = [] then (Some (tip tp, \<lparr>In = [], Out = []\<rparr>), tp)
      else
        let tp1 = tp\<lparr>tip := tip tp - 1\<rparr>;
            newMaxCursor = maxCursor tp1;
            (err, tp2) = (if cursor tp1 > newMaxCursor then retreatTo newMaxCursor tp1 else (None, tp1))
        in if err = Some PanicIndex then (None, tp2)
           else (Some (tip tp2, last (diffs tp2)), tp2\<lparr>diffs := butlast (diffs tp2)\<rparr>))"

definition Append :: "'db dbSet \<Rightarrow> PoolDiff \<Rightarrow> int \<Rightarrow> 'db TicketPool \<Rightarrow> 'db tpResult" where
  "Append dbSet d height tp =
     (if height \<noteq> tip tp + 1 then (Some (NotBuildOn height (tip tp)), tp)
      else storeDiff dbSet d height (tpAppend d tp))"

definition AppendAndAdvancePool :: "'db dbSet \<Rightarrow> PoolDiff \<Rightarrow> int \<Rightarrow> 'db TicketPool \<Rightarrow> 'db tpResult" where
  "AppendAndAdvancePool dbSet d height tp =
     (if height \<noteq> tip tp + 1 then (Some (NotBuildOn height (tip tp)), tp)
      else case storeDiff dbSet d height (tpAppend d tp) of
        (Some e, tp') \<Rightarrow> (Some e, tp')
      | (None, tp') \<Rightarrow> advance tp')"

text \<open>
  \<open>CurrentPool\<close> and \<open>Pool\<close> return the keys of the pool map in Go's unspecified map order; the
  result is modelled as the set of the keys.
\<close>

definition CurrentPool :: "'db TicketPool \<Rightarrow> Hash set \<times> int" where
  "CurrentPool tp = (pool tp, cursor tp)"

definition CurrentPoolSize :: "'db TicketPool \<Rightarrow> nat" where
  "CurrentPoolSize tp = card (pool tp)"

definition Pool :: "int \<Rightarrow> 'db TicketPool \<Rightarrow> (tpError + Hash set) \<times> 'db TicketPool" where
  "Pool height tp =
     (if height > tip tp then (Inl (NotConnected height (tip tp)), tp)
      else case advanceLoop height tp of
        (Some e, tp1) \<Rightarrow> (Inl e, tp1)
      | (None, tp1) \<Rightarrow>
          (case retreatLoop height tp1 of
             (Some e, tp2) \<Rightarrow> (Inl e, tp2)
           | (None, tp2) \<Rightarrow> (Inr (fst (CurrentPool tp2)), tp2)))"


subsection \<open>Loading the stored diffs\<close>

text \<open>
  The badger iterator yields its items in key order; an item is its key, decoded as the
  big-endian height, and the outcome of fetching and decoding its value. The loop checks that
  the heights are 1, 2, 3 and so on, and panics when they are not.
\<close>

datatype loadError = ItemError string | PanicHeight uint64 uint64 | PanicCount uint64 uint64

fun loadLoop :: "uint64 \<Rightarrow> PoolDiff list \<Rightarrow> (uint64 \<times> (string + PoolDiff)) list
    \<Rightarrow> loadError option \<times> uint64 \<times> PoolDiff list" where
  "loadLoop lastheight poolDiffs [] = (None, lastheight, poolDiffs)"
| "loadLoop lastheight poolDiffs ((height, v) # items) =
     (case v of
        Inl e \<Rightarrow> (Some (ItemError e), lastheight, poolDiffs)
      | Inr d \<Rightarrow>
          if lastheight + 1 \<noteq> height
          then (Some (PanicHeight height lastheight), lastheight, poolDiffs @ [d])
          else loadLoop height (poolDiffs @ [d]) items)"

definition LoadAllPoolDiffs :: "(uint64 \<times> (string + PoolDiff)) list \<Rightarrow> loadError option \<times> PoolDiff list" where
  "LoadAllPoolDiffs items =
     (case loadLoop 0 [] items of
        (Some e, lastheight, ds) \<Rightarrow> (Some e, ds)
      | (None, lastheight, ds) \<Rightarrow>
          let poolDiffLen = word_of_nat (length ds)
          in if poolDiffLen > 0 \<and> poolDiffLen \<noteq> lastheight
             then (Some (PanicCount lastheight poolDiffLen), ds)
             else (None, ds))"

text \<open>The value \<open>NewTicketPool\<close> returns once the diffs are loaded.\<close>

definition newTicketPool :: "PoolDiff list \<Rightarrow> 'db \<Rightarrow> 'db TicketPool" where
  "newTicketPool ds db =
     \<lparr>cursor = 0, tip = int (length ds), diffs = ds, pool = {}, diffDB = db\<rparr>"

subsection \<open>Specification\<close>

text \<open>
  A diff fits a pool when its new tickets are new, and its spent tickets are there to be
  removed. \<open>poolAt ds k\<close> is the pool after the first \<open>k\<close> diffs: the contract of the whole
  component is that the pool map is \<open>poolAt diffs cursor\<close>.
\<close>

definition diffFits :: "PoolDiff \<Rightarrow> Hash set \<Rightarrow> bool" where
  "diffFits d p \<longleftrightarrow> finite p \<and> distinct (In d) \<and> distinct (Out d) \<and>
     set (In d) \<inter> p = {} \<and> set (Out d) \<subseteq> p \<union> set (In d)"

definition stepDiff :: "PoolDiff \<Rightarrow> Hash set \<Rightarrow> Hash set" where
  "stepDiff d = applyDiff (In d) (Out d)"

definition unstepDiff :: "PoolDiff \<Rightarrow> Hash set \<Rightarrow> Hash set" where
  "unstepDiff d = applyDiff (Out d) (In d)"

definition poolAt :: "PoolDiff list \<Rightarrow> nat \<Rightarrow> Hash set" where
  "poolAt ds k = fold stepDiff (take k ds) {}"

definition validDiffs :: "PoolDiff list \<Rightarrow> bool" where
  "validDiffs ds = log_ok diffFits stepDiff ds {}"

text \<open>
  \<open>tpCore\<close> relates cursor, diffs and pool map; \<open>tpInv\<close> adds that the tip counts the diffs.
  They differ inside \<open>Trim\<close>, which lowers the tip first, then retreats, then cuts the diffs.
\<close>

definition tpCore :: "'db TicketPool \<Rightarrow> bool" where
  "tpCore tp \<longleftrightarrow> 0 \<le> cursor tp \<and> cursor tp \<le> int (length (diffs tp)) \<and>
     pool tp = poolAt (diffs tp) (nat (cursor tp)) \<and> validDiffs (diffs tp)"

definition tpInv :: "'db TicketPool \<Rightarrow> bool" where
  "tpInv tp \<longleftrightarrow> tip tp = int (length (diffs tp)) \<and> tpCore tp"

text \<open>The state that \<open>moveTo c\<close> describes: the cursor at \<open>c\<close>, and the pool of that height.\<close>

definition moveTo :: "int \<Rightarrow> 'db TicketPool \<Rightarrow> 'db TicketPool" where
  "moveTo c tp = tp\<lparr>pool := poolAt (diffs tp) (nat c), cursor := c\<rparr>"

subsection \<open>Diffs\<close>

lemma fold_insert_set: "fold insert xs p = p \<union> set xs"
  by (induction xs arbitrary: p) auto

lemma fold_remove_set: "fold (\<lambda>h q. q - {h}) xs p = p - set xs"
  by (induction xs arbitrary: p) auto

lemma applyDiff_eq [simp]: "applyDiff ins outs p = (p \<union> set ins) - set outs"
  by (simp add: applyDiff_def fold_insert_set fold_remove_set)

lemma unstep_step: "diffFits d p \<Longrightarrow> unstepDiff d (stepDiff d p) = p"
  by (auto simp: diffFits_def stepDiff_def unstepDiff_def)

interpretation pd: reversible stepDiff unstepDiff diffFits
  by unfold_locales (rule unstep_step)

lemma card_stepDiff:
  assumes "diffFits d p"
  shows "int (card (stepDiff d p)) = int (card p) + int (length (In d)) - int (length (Out d))"
proof -
  let ?u = "p \<union> set (In d)"
  have u: "card ?u = card p + length (In d)"
    using assms by (simp add: diffFits_def card_Un_disjoint Int_commute distinct_card)
  have le: "card (set (Out d)) \<le> card ?u"
    using assms by (intro card_mono) (auto simp: diffFits_def)
  have "card (?u - set (Out d)) = card ?u - card (set (Out d))"
    using assms by (intro card_Diff_subset) (auto simp: diffFits_def)
  then show ?thesis
    using u le assms by (simp add: stepDiff_def diffFits_def distinct_card)
qed

lemma card_unstepDiff:
  assumes "diffFits d p"
  shows "int (card (unstepDiff d (stepDiff d p)))
    = int (card (stepDiff d p)) - int (length (In d)) + int (length (Out d))"
  using card_stepDiff[OF assms] by (simp add: unstep_step[OF assms])

lemma poolAt_Suc: "k < length ds \<Longrightarrow> poolAt ds (Suc k) = stepDiff (ds ! k) (poolAt ds k)"
  by (simp add: poolAt_def fold_take_Suc)

lemma poolAt_0 [simp]: "poolAt ds 0 = {}"
  by (simp add: poolAt_def)

lemma poolAt_append: "k \<le> length ds \<Longrightarrow> poolAt (ds @ es) k = poolAt ds k"
  by (simp add: poolAt_def)

lemma validDiffs_fits: "validDiffs ds \<Longrightarrow> k < length ds \<Longrightarrow> diffFits (ds ! k) (poolAt ds k)"
  by (simp add: validDiffs_def poolAt_def log_ok_nth)

lemma validDiffs_snoc: "validDiffs (ds @ [d]) \<longleftrightarrow> validDiffs ds \<and> diffFits d (poolAt ds (length ds))"
  by (auto simp: validDiffs_def poolAt_def log_ok_append)

subsection \<open>Moving the cursor\<close>

lemma moveTo_simps [simp]:
  "cursor (moveTo c tp) = c" "tip (moveTo c tp) = tip tp" "diffs (moveTo c tp) = diffs tp"
  "pool (moveTo c tp) = poolAt (diffs tp) (nat c)" "diffDB (moveTo c tp) = diffDB tp"
  "moveTo c (moveTo c' tp) = moveTo c tp"
  by (simp_all add: moveTo_def)

lemma moveTo_self: "tpCore tp \<Longrightarrow> moveTo (cursor tp) tp = tp"
  by (cases tp) (simp add: moveTo_def tpCore_def)

lemma tpInv_core: "tpInv tp \<Longrightarrow> tpCore tp"
  by (simp add: tpInv_def)

lemma tpCore_moveTo [inv_intros]:
  "tpCore tp \<Longrightarrow> 0 \<le> c \<Longrightarrow> c \<le> int (length (diffs tp)) \<Longrightarrow> tpCore (moveTo c tp)"
  by (simp add: tpCore_def)

lemma tpInv_moveTo [inv_intros]: "tpInv tp \<Longrightarrow> 0 \<le> c \<Longrightarrow> c \<le> tip tp \<Longrightarrow> tpInv (moveTo c tp)"
  by (simp add: tpInv_def tpCore_moveTo)

lemma advance_ok:
  assumes "tpInv tp" and "cursor tp < tip tp"
  shows "advance tp = (None, moveTo (cursor tp + 1) tp)"
proof -
  let ?k = "nat (cursor tp)"
  have k: "?k < length (diffs tp)" and c: "0 \<le> cursor tp" "cursor tp < int (length (diffs tp))"
    using assms by (auto simp: tpInv_def tpCore_def)
  have le: "\<not> cursor tp > maxCursor tp" and p: "pool tp = poolAt (diffs tp) ?k"
    using assms by (auto simp: maxCursor_def tpInv_def tpCore_def)
  have fits: "diffFits (diffs tp ! ?k) (pool tp)"
    using assms k p by (simp add: tpInv_def tpCore_def validDiffs_fits)
  have nxt: "poolAt (diffs tp) (nat (cursor tp + 1)) = stepDiff (diffs tp ! ?k) (pool tp)"
    using k c p by (simp add: nat_add_distrib poolAt_Suc)
  show ?thesis
    using c le nxt card_stepDiff[OF fits]
    by (simp add: advance_def stepDiff_def moveTo_def Let_def)
qed

lemma retreat_ok:
  assumes "tpCore tp" and "0 < cursor tp"
  shows "retreat tp = (None, moveTo (cursor tp - 1) tp)"
proof -
  let ?k = "nat (cursor tp - 1)"
  have k: "?k < length (diffs tp)" and c: "0 \<le> cursor tp - 1" "cursor tp - 1 < int (length (diffs tp))"
    using assms by (auto simp: tpCore_def)
  have "nat (cursor tp) = Suc ?k" using assms by simp
  then have p: "pool tp = stepDiff (diffs tp ! ?k) (poolAt (diffs tp) ?k)"
    using assms k by (simp add: tpCore_def poolAt_Suc)
  have fits: "diffFits (diffs tp ! ?k) (poolAt (diffs tp) ?k)"
    using assms k by (simp add: tpCore_def validDiffs_fits)
  have und: "unstepDiff (diffs tp ! ?k) (pool tp) = poolAt (diffs tp) ?k"
    unfolding p by (rule pd.bwd_fwd[OF fits])
  have "int (card (poolAt (diffs tp) ?k)) = int (card (pool tp)) - int (length (In (diffs tp ! ?k)))
      + int (length (Out (diffs tp ! ?k)))"
    using card_unstepDiff[OF fits] und p by simp
  then show ?thesis
    using c assms(2) und by (simp add: retreat_def unstepDiff_def moveTo_def Let_def)
qed

lemma advanceLoop_ok:
  assumes "tpInv tp" and "h \<le> tip tp"
  shows "advanceLoop h tp = (None, moveTo (max h (cursor tp)) tp)"
  using assms
proof (induction h tp rule: advanceLoop.induct)
  case (1 h tp)
  show ?case
  proof (cases "h > cursor tp")
    case True
    let ?tp' = "moveTo (cursor tp + 1) tp"
    have adv: "advance tp = (None, ?tp')"
      using 1 True by (intro advance_ok) auto
    have inv: "tpInv ?tp'"
      using 1 True by (intro inv_intros) (auto simp: tpInv_def tpCore_def)
    have "advanceLoop h ?tp' = (None, moveTo (max h (cursor tp + 1)) tp)"
      using 1(1)[OF True adv[symmetric] refl] inv 1(3) by simp
    moreover have "max h (cursor tp + 1) = h" "max h (cursor tp) = h"
      using True by auto
    ultimately show ?thesis
      using True adv by (simp add: advanceLoop.simps[of h tp])
  next
    case False
    then show ?thesis
      using 1 by (simp add: advanceLoop.simps[of h tp] max_def moveTo_self tpInv_core)
  qed
qed

lemma retreatLoop_ok:
  assumes "tpCore tp" and "0 \<le> h"
  shows "retreatLoop h tp = (None, moveTo (min h (cursor tp)) tp)"
  using assms
proof (induction h tp rule: retreatLoop.induct)
  case (1 h tp)
  show ?case
  proof (cases "cursor tp > h")
    case True
    let ?tp' = "moveTo (cursor tp - 1) tp"
    have ret: "retreat tp = (None, ?tp')"
      using 1 True by (intro retreat_ok) auto
    have inv: "tpCore ?tp'"
      using 1 True by (intro inv_intros) (auto simp: tpCore_def)
    have "retreatLoop h ?tp' = (None, moveTo (min h (cursor tp - 1)) tp)"
      using 1(1)[OF True ret[symmetric] refl] inv 1(3) by simp
    moreover have "min h (cursor tp - 1) = h" "min h (cursor tp) = h"
      using True by auto
    ultimately show ?thesis
      using True ret by (simp add: retreatLoop.simps[of h tp])
  next
    case False
    then show ?thesis using 1 by (simp add: retreatLoop.simps[of h tp] min_def moveTo_self)
  qed
qed

lemma retreatLoop_genesis:
  assumes "tpCore tp" and "h < 0"
  shows "retreatLoop h tp = (Some CursorAtGenesis, moveTo 0 tp)"
  using assms
proof (induction h tp rule: retreatLoop.induct)
  case (1 h tp)
  have gt: "cursor tp > h"
    using 1 by (simp add: tpCore_def)
  show ?case
  proof (cases "cursor tp = 0")
    case True
    then have "retreat tp = (Some CursorAtGenesis, tp)" by (simp add: retreat_def)
    then show ?thesis
      using gt True moveTo_self[OF 1(2)] by (simp add: retreatLoop.simps[of h tp])
  next
    case False
    let ?tp' = "moveTo (cursor tp - 1) tp"
    have ret: "retreat tp = (None, ?tp')"
      using 1 False by (intro retreat_ok) (auto simp: tpCore_def)
    have inv: "tpCore ?tp'"
      using 1 False by (intro inv_intros) (auto simp: tpCore_def)
    show ?thesis
      using gt ret 1(1)[OF gt ret[symmetric] refl inv 1(3)]
      by (simp add: retreatLoop.simps[of h tp])
  qed
qed


subsection \<open>The operations against the specification\<close>

lemma newTicketPool_inv: "validDiffs ds \<Longrightarrow> tpInv (newTicketPool ds db)"
  by (simp add: newTicketPool_def tpInv_def tpCore_def)

lemma max_min_move: "0 \<le> c \<Longrightarrow> min h (max h c) = (h :: int)"
  by (simp add: min_def max_def)

lemma tpAppend_inv:
  assumes "tpInv tp" and "diffFits d (poolAt (diffs tp) (length (diffs tp)))"
  shows "tpInv (tpAppend d tp)"
proof -
  have "nat (cursor tp) \<le> length (diffs tp)"
    using assms(1) by (auto simp: tpInv_def tpCore_def)
  then show ?thesis
    using assms by (simp add: tpInv_def tpCore_def tpAppend_def poolAt_append validDiffs_snoc)
qed

lemma storeDiff_ok:
  "dbSet (diffDB tp) (word_of_int h) d = Inr db \<Longrightarrow> storeDiff dbSet d h tp = (None, tp\<lparr>diffDB := db\<rparr>)"
  by (simp add: storeDiff_def)

lemma tpInv_diffDB [inv_intros]: "tpInv tp \<Longrightarrow> tpInv (tp\<lparr>diffDB := db\<rparr>)"
  by (simp add: tpInv_def tpCore_def)

lemma moveTo_update_db: "(moveTo c tp)\<lparr>diffDB := db\<rparr> = moveTo c (tp\<lparr>diffDB := db\<rparr>)"
  by (simp add: moveTo_def)

lemma poolAt_butlast: "k < length ds \<Longrightarrow> poolAt (butlast ds) k = poolAt ds k"
  by (simp add: poolAt_def take_butlast)

lemma validDiffs_butlast: "validDiffs ds \<Longrightarrow> validDiffs (butlast ds)"
  by (cases ds rule: rev_cases) (auto simp: validDiffs_snoc)

text \<open>Where \<open>Trim\<close> leaves the cursor: never above one below the new tip.\<close>

definition trimCursor :: "'db TicketPool \<Rightarrow> int" where
  "trimCursor tp = min (cursor tp) (max 0 (tip tp - 2))"

definition trimmed :: "'db TicketPool \<Rightarrow> 'db TicketPool" where
  "trimmed tp = moveTo (trimCursor tp) (tp\<lparr>tip := tip tp - 1, diffs := butlast (diffs tp)\<rparr>)"

lemma tpInv_trimmed [inv_intros]: "tpInv tp \<Longrightarrow> 0 < tip tp \<Longrightarrow> tpInv (trimmed tp)"
  by (cases "diffs tp" rule: rev_cases)
    (auto simp: tpInv_def tpCore_def trimmed_def trimCursor_def validDiffs_snoc)

lemma Trim_ok:
  assumes "tpInv tp" and "0 < tip tp"
  shows "Trim tp = (Some (tip tp - 1, last (diffs tp)), trimmed tp)"
proof -
  let ?tp1 = "tp\<lparr>tip := tip tp - 1\<rparr>"
  let ?m = "maxCursor ?tp1"
  have ne: "diffs tp \<noteq> []" and core: "tpCore ?tp1"
    using assms by (auto simp: tpInv_def tpCore_def)
  have m: "0 \<le> ?m" "?m \<le> tip ?tp1" "?m = max 0 (tip tp - 2)"
    using assms(2) by (simp_all add: maxCursor_def max_def)
  have step: "(if cursor ?tp1 > ?m then retreatTo ?m ?tp1 else (None, ?tp1)) = (None, moveTo (trimCursor tp) ?tp1)"
  proof (cases "cursor ?tp1 > ?m")
    case True
    then have "trimCursor tp = ?m" unfolding trimCursor_def m(3)[symmetric] by (simp add: min_absorb2)
    then show ?thesis
      using True m retreatLoop_ok[OF core m(1)] by (simp add: retreatTo_def min_def)
  next
    case False
    then have "trimCursor tp = cursor ?tp1" unfolding trimCursor_def m(3)[symmetric] by (simp add: min_absorb1)
    then show ?thesis using False moveTo_self[OF core] by simp
  qed
  have k: "nat (trimCursor tp) < length (diffs tp)"
  proof -
    have "trimCursor tp < tip tp"
      unfolding trimCursor_def using assms(2) by linarith
    moreover have "tip tp = int (length (diffs tp))" and "0 < length (diffs tp)"
      using assms(1) ne by (simp_all add: tpInv_def)
    ultimately show ?thesis by arith
  qed
  have "(moveTo (trimCursor tp) ?tp1)\<lparr>diffs := butlast (diffs tp)\<rparr> = trimmed tp"
    using k by (simp add: trimmed_def moveTo_def poolAt_butlast)
  then show ?thesis
    using assms(2) ne step by (simp add: Trim_def Let_def)
qed

lemma loadLoop_ok:
  assumes "length ds + unat h < 2 ^ 64"
  shows "loadLoop h acc (zip (map (\<lambda>k. h + word_of_nat (Suc k)) [0..<length ds]) (map Inr ds))
    = (None, h + word_of_nat (length ds), acc @ ds)"
  using assms
proof (induction ds arbitrary: h acc)
  case Nil
  then show ?case by simp
next
  case (Cons d ds)
  have "unat (h + 1) = unat h + 1"
    using Cons.prems by (simp add: unat_word_ariths)
  then have IH: "loadLoop (h + 1) (acc @ [d])
      (zip (map (\<lambda>k. h + 1 + word_of_nat (Suc k)) [0..<length ds]) (map Inr ds))
      = (None, h + 1 + word_of_nat (length ds), (acc @ [d]) @ ds)"
    using Cons.prems by (intro Cons.IH) simp
  have idx: "map (\<lambda>k. h + word_of_nat (Suc k)) [0..<length (d # ds)]
      = (h + 1) # map (\<lambda>k. h + 1 + word_of_nat (Suc k)) [0..<length ds]"
    by (simp add: map_upt_Suc add.assoc del: upt_Suc)
  show ?case
    unfolding idx using IH by (simp add: add.assoc)
qed

lemma loadLoop_sound:
  "loadLoop h acc items = (None, l, ds) \<Longrightarrow>
     l = h + word_of_nat (length items) \<and>
     items = zip (map (\<lambda>k. h + word_of_nat (Suc k)) [0..<length items]) (map Inr (drop (length acc) ds)) \<and>
     length ds = length acc + length items \<and> take (length acc) ds = acc"
proof (induction h acc items rule: loadLoop.induct)
  case (1 lastheight poolDiffs)
  then show ?case by simp
next
  case (2 h acc k v items)
  then obtain d where v: "v = Inr d" and k: "h + 1 = k"
    and r: "loadLoop k (acc @ [d]) items = (None, l, ds)"
    by (auto split: sum.splits if_splits)
  note IH = 2(1)[OF v _ r, simplified k, simplified]
  have idx: "map (\<lambda>j. h + word_of_nat (Suc j)) [0..<length ((k, v) # items)]
      = k # map (\<lambda>j. k + word_of_nat (Suc j)) [0..<length items]"
    by (simp add: map_upt_Suc k[symmetric] add.assoc del: upt_Suc)
  have d: "drop (length acc) ds = d # drop (Suc (length acc)) ds" and t: "take (length acc) ds = acc"
  proof -
    have tk: "take (Suc (length acc)) ds = acc @ [d]" and len: "length acc < length ds"
      using IH by auto
    then have "ds ! length acc = d"
      by (metis lessI nth_append_length nth_take)
    then show "drop (length acc) ds = d # drop (Suc (length acc)) ds"
      using len by (metis Cons_nth_drop_Suc)
    show "take (length acc) ds = acc"
      using tk by (metis butlast_snoc butlast_take diff_Suc_1 len less_imp_Suc_add less_or_eq_imp_le Suc_leI)
  qed
  show ?case
    unfolding idx d using IH t v k by (auto simp: add.assoc)
qed


lemma AdvanceToTip_ok:
  assumes "tpInv tp"
  shows "AdvanceToTip tp = ((tip tp, None), moveTo (tip tp) tp)"
proof -
  have "max (tip tp) (cursor tp) = tip tp"
    using assms by (simp add: tpInv_def tpCore_def)
  then show ?thesis
    using advanceLoop_ok[OF assms, of "tip tp"] by (simp add: AdvanceToTip_def advanceTo_def)
qed

lemma Pool_ok:
  assumes "tpInv tp" and "0 \<le> h" and "h \<le> tip tp"
  shows "Pool h tp = (Inr (poolAt (diffs tp) (nat h)), moveTo h tp)"
proof -
  let ?tp1 = "moveTo (max h (cursor tp)) tp"
  have c: "0 \<le> cursor tp" "cursor tp \<le> tip tp"
    using assms(1) by (auto simp: tpInv_def tpCore_def)
  have "tpInv ?tp1"
    using assms c by (intro inv_intros) auto
  then have "retreatLoop h ?tp1 = (None, moveTo h tp)"
    using retreatLoop_ok[of ?tp1 h] assms(2) c by (simp add: tpInv_core max_min_move)
  then show ?thesis
    using advanceLoop_ok[OF assms(1,3)] assms(3) by (simp add: Pool_def CurrentPool_def)
qed

lemma Pool_negative:
  assumes "tpInv tp" and "h < 0"
  shows "Pool h tp = (Inl CursorAtGenesis, moveTo 0 tp)"
proof -
  have c: "0 \<le> cursor tp" "cursor tp \<le> tip tp"
    using assms(1) by (auto simp: tpInv_def tpCore_def)
  have "advanceLoop h tp = (None, tp)"
    using c assms(2) by (simp add: advanceLoop.simps)
  then show ?thesis
    using c assms retreatLoop_genesis[OF tpInv_core[OF assms(1)] assms(2)] by (simp add: Pool_def)
qed

lemma Pool_inv [inv_intros]:
  assumes "tpInv tp"
  shows "tpInv (snd (Pool h tp))"
proof -
  have t: "0 \<le> tip tp" using assms by (simp add: tpInv_def)
  consider "h > tip tp" | "h < 0" | "0 \<le> h" "h \<le> tip tp" by linarith
  then show ?thesis
  proof cases
    case 1
    then show ?thesis using assms by (simp add: Pool_def)
  next
    case 2
    then show ?thesis using assms t by (simp add: Pool_negative tpInv_moveTo)
  next
    case 3
    then show ?thesis using assms by (simp add: Pool_ok tpInv_moveTo)
  qed
qed

lemma storeDiff_inv: "tpInv tp \<Longrightarrow> tpInv (snd (storeDiff dbSet d h tp))"
  by (auto simp: storeDiff_def inv_intros split: sum.splits)

lemma Append_inv:
  assumes "tpInv tp" and "diffFits d (poolAt (diffs tp) (length (diffs tp)))"
  shows "tpInv (snd (Append dbSet d h tp))"
  using assms by (simp add: Append_def storeDiff_inv tpAppend_inv)

lemma AppendAndAdvance_stored:
  assumes "tpInv tp" and "diffFits d (poolAt (diffs tp) (length (diffs tp)))"
    and "dbSet (diffDB tp) (word_of_int (tip tp + 1)) d = Inr db"
  shows "AppendAndAdvancePool dbSet d (tip tp + 1) tp
    = (None, moveTo (cursor tp + 1) ((tpAppend d tp)\<lparr>diffDB := db\<rparr>))"
proof -
  let ?tp1 = "(tpAppend d tp)\<lparr>diffDB := db\<rparr>"
  have "tpInv ?tp1" using assms(1,2) by (intro inv_intros tpAppend_inv)
  moreover have "cursor ?tp1 < tip ?tp1"
    using assms(1) by (simp add: tpAppend_def tpInv_def tpCore_def)
  ultimately have "advance ?tp1 = (None, moveTo (cursor ?tp1 + 1) ?tp1)" by (rule advance_ok)
  then show ?thesis
    using assms(3) by (simp add: AppendAndAdvancePool_def storeDiff_def tpAppend_def)
qed

lemma AppendAndAdvance_inv:
  assumes "tpInv tp" and "diffFits d (poolAt (diffs tp) (length (diffs tp)))"
  shows "tpInv (snd (AppendAndAdvancePool dbSet d h tp))"
proof (cases "h = tip tp + 1")
  case False
  then show ?thesis using assms by (simp add: AppendAndAdvancePool_def)
next
  case True
  have app: "tpInv (tpAppend d tp)" using assms by (rule tpAppend_inv)
  show ?thesis
  proof (cases "dbSet (diffDB tp) (word_of_int h) d")
    case (Inl e)
    then show ?thesis
      using app True by (simp add: AppendAndAdvancePool_def storeDiff_def tpAppend_def)
  next
    case (Inr db)
    have "tpInv ((tpAppend d tp)\<lparr>diffDB := db\<rparr>)" using app by (rule inv_intros)
    then show ?thesis
      using AppendAndAdvance_stored[of tp d dbSet db] assms Inr True
      by (simp add: tpAppend_def tpInv_moveTo tpInv_def tpCore_def)
  qed
qed

text \<open>The states of a ticket pool that its exported operations reach, started from a loaded database.\<close>

inductive tpReach :: "'db dbSet \<Rightarrow> 'db TicketPool \<Rightarrow> bool" for dbSet where
  tpStart: "validDiffs ds \<Longrightarrow> tpReach dbSet (newTicketPool ds db)"
| tpPool: "tpReach dbSet tp \<Longrightarrow> tpReach dbSet (snd (Pool h tp))"
| tpTip: "tpReach dbSet tp \<Longrightarrow> tpReach dbSet (snd (AdvanceToTip tp))"
| tpTrim: "tpReach dbSet tp \<Longrightarrow> tpReach dbSet (snd (Trim tp))"
| tpApp: "tpReach dbSet tp \<Longrightarrow> diffFits d (poolAt (diffs tp) (length (diffs tp)))
    \<Longrightarrow> tpReach dbSet (snd (Append dbSet d h tp))"
| tpAppAdv: "tpReach dbSet tp \<Longrightarrow> diffFits d (poolAt (diffs tp) (length (diffs tp)))
    \<Longrightarrow> tpReach dbSet (snd (AppendAndAdvancePool dbSet d h tp))"

lemma Trim_inv [inv_intros]:
  assumes "tpInv tp"
  shows "tpInv (snd (Trim tp))"
proof (cases "tip tp = 0")
  case True
  then show ?thesis using assms by (simp add: Trim_def)
next
  case False
  then have "0 < tip tp" using assms by (simp add: tpInv_def)
  then show ?thesis using assms by (simp add: Trim_ok inv_intros)
qed

lemma tpReach_inv: "tpReach dbSet tp \<Longrightarrow> tpInv tp"
proof (induction rule: tpReach.induct)
  case (tpTip tp)
  then have "0 \<le> tip tp" by (simp add: tpInv_def)
  with tpTip show ?case by (simp add: AdvanceToTip_ok tpInv_moveTo)
qed (simp_all add: newTicketPool_inv Pool_inv Trim_inv Append_inv AppendAndAdvance_inv)


subsection \<open>Properties\<close>

text \<open>A small history for the witnesses: two tickets enter, then one leaves as a third enters.\<close>

definition exDiffs :: "PoolDiff list" where
  "exDiffs = [\<lparr>In = [1, 2], Out = []\<rparr>, \<lparr>In = [3], Out = [1]\<rparr>]"

lemma exDiffs_valid: "validDiffs exDiffs"
  by (simp add: validDiffs_def exDiffs_def diffFits_def stepDiff_def)

definition exPool :: "unit TicketPool" where
  "exPool = newTicketPool exDiffs ()"

lemma exPool_inv: "tpInv exPool"
  unfolding exPool_def by (rule newTicketPool_inv[OF exDiffs_valid])

lemma exPool_simps: "tip exPool = 2" "diffs exPool = exDiffs" "cursor exPool = 0"
  "diffDB exPool = ()" "length exDiffs = 2" "last exDiffs = \<lparr>In = [3], Out = [1]\<rparr>"
  by (simp_all add: exPool_def newTicketPool_def exDiffs_def)

lemma exPool_at: "poolAt exDiffs (Suc 0) = {1, 2}" "poolAt exDiffs 2 = {2, 3}"
  by (auto simp: poolAt_def exDiffs_def stepDiff_def)

lemma exPool_inv2: "tpInv (moveTo 2 exPool)"
  by (intro inv_intros exPool_inv) (simp_all add: exPool_simps)

text \<open>C4: every state that the exported operations of the ticket pool reach from a database of
  fitting diffs keeps the pool map equal to the replay of the diffs below the cursor: the tip
  counts the diffs, the cursor lies between genesis and the tip, and no operation, failing ones
  included, leaves the map out of step with the cursor. The diffs that are appended must fit as well
  (no ticket twice; their new tickets are not in the pool at the tip, and those they remove are in it
  or among the new ones): the code takes the diffs from the stake node and does not check this.\<close>

theorem ticketPool_consistent:
  assumes "tpReach dbSet tp"
  shows "tip tp = int (length (diffs tp)) \<and> 0 \<le> cursor tp \<and> cursor tp \<le> tip tp
    \<and> pool tp = poolAt (diffs tp) (nat (cursor tp))"
  using tpReach_inv[OF assms] by (simp add: tpInv_def tpCore_def)

theorem ticketPool_consistent_witness:
  "pool (snd (Pool 2 exPool)) = {2, 3}"
proof -
  let ?tp = "snd (Pool 2 exPool)"
  have r: "tpReach (\<lambda>db h d. Inr db) ?tp"
    unfolding exPool_def by (intro tpPool tpStart exDiffs_valid)
  have "?tp = moveTo 2 exPool"
    using Pool_ok[OF exPool_inv, of 2] by (simp add: exPool_simps)
  then have "cursor ?tp = 2" "diffs ?tp = exDiffs" by (simp_all add: exPool_simps)
  then show ?thesis
    using ticketPool_consistent[OF r] by (simp add: exPool_at)
qed

text \<open>C15: \<open>Pool(height)\<close> for a height between genesis and the tip never fails: from any cursor it
  walks forward or back to that height, returns exactly the tickets live there, leaves the cursor
  at the height and changes neither the diffs nor the tip.\<close>

theorem Pool_correct:
  assumes "tpInv tp" and "0 \<le> h" and "h \<le> tip tp"
  shows "Pool h tp = (Inr (poolAt (diffs tp) (nat h)), moveTo h tp) \<and> tpInv (moveTo h tp)"
  using Pool_ok[OF assms] assms by (simp add: tpInv_moveTo)

theorem Pool_correct_witness:
  "fst (Pool 1 (moveTo 2 exPool)) = Inr {1, 2}"
  using Pool_correct[OF exPool_inv2, of 1] by (simp add: exPool_simps exPool_at)

text \<open>below the tip, \<open>advance\<close> succeeds and a \<open>retreat\<close> right after it restores the exact
  previous state, pool map included.\<close>

theorem advance_retreat_roundtrip:
  assumes "tpInv tp" and "cursor tp < tip tp"
  shows "\<exists>tp'. advance tp = (None, tp') \<and> retreat tp' = (None, tp)"
proof -
  let ?tp' = "moveTo (cursor tp + 1) tp"
  have "tpInv ?tp'"
    using assms by (intro inv_intros) (auto simp: tpInv_def tpCore_def)
  moreover have "0 < cursor ?tp'" using assms by (simp add: tpInv_def tpCore_def)
  ultimately have "retreat ?tp' = (None, tp)"
    using retreat_ok[of ?tp'] moveTo_self[of tp] assms(1) by (simp add: tpInv_core)
  then show ?thesis using advance_ok[OF assms] by blast
qed

theorem advance_retreat_roundtrip_witness:
  "\<exists>tp'. advance exPool = (None, tp') \<and> retreat tp' = (None, exPool)"
  by (rule advance_retreat_roundtrip[OF exPool_inv]) (simp add: exPool_simps)

text \<open>\<open>Trim\<close> on a pool above genesis returns the last diff and the lowered tip, removes that
  diff only, leaves the cursor where it was or at one below the new tip, whichever is lower, and
  keeps the pool map in step.\<close>

theorem Trim_correct:
  assumes "tpInv tp" and "0 < tip tp"
  shows "Trim tp = (Some (tip tp - 1, last (diffs tp)), trimmed tp)
    \<and> diffs (trimmed tp) = butlast (diffs tp) \<and> tip (trimmed tp) = tip tp - 1
    \<and> cursor (trimmed tp) = min (cursor tp) (max 0 (tip tp - 2)) \<and> tpInv (trimmed tp)"
  using Trim_ok[OF assms] tpInv_trimmed[OF assms] by (simp add: trimmed_def trimCursor_def)

theorem Trim_correct_witness:
  "fst (Trim (moveTo 2 exPool)) = Some (1, \<lparr>In = [3], Out = [1]\<rparr>)
    \<and> pool (snd (Trim (moveTo 2 exPool))) = {}"
  using Trim_correct[OF exPool_inv2]
  by (simp add: exPool_simps trimmed_def trimCursor_def)

text \<open>\<open>AppendAndAdvancePool\<close> of a fitting diff at the next height, when the database accepts
  it, extends the diffs and the tip by one and moves the cursor one height up; a \<open>Trim\<close> after it
  gives the diff back with the diffs and tip as they were before.\<close>

theorem append_then_trim:
  assumes "tpInv tp" and "diffFits d (poolAt (diffs tp) (length (diffs tp)))"
    and "dbSet (diffDB tp) (word_of_int (tip tp + 1)) d = Inr db"
  shows "\<exists>tp'. AppendAndAdvancePool dbSet d (tip tp + 1) tp = (None, tp') \<and> tpInv tp'
    \<and> diffs tp' = diffs tp @ [d] \<and> tip tp' = tip tp + 1 \<and> cursor tp' = cursor tp + 1
    \<and> fst (Trim tp') = Some (tip tp, d)
    \<and> diffs (snd (Trim tp')) = diffs tp \<and> tip (snd (Trim tp')) = tip tp"
proof -
  let ?tp' = "moveTo (cursor tp + 1) ((tpAppend d tp)\<lparr>diffDB := db\<rparr>)"
  have run: "AppendAndAdvancePool dbSet d (tip tp + 1) tp = (None, ?tp')"
    using assms by (rule AppendAndAdvance_stored)
  have inv: "tpInv ?tp'"
    using AppendAndAdvance_inv[OF assms(1,2), of dbSet "tip tp + 1"] run by simp
  have t: "0 < tip ?tp'" using assms(1) by (simp add: tpAppend_def tpInv_def)
  show ?thesis
    using run inv Trim_ok[OF inv t] by (auto simp: tpAppend_def trimmed_def)
qed

theorem append_then_trim_witness:
  "\<exists>tp'. AppendAndAdvancePool (\<lambda>db h d. Inr db) \<lparr>In = [4], Out = [2]\<rparr> 3 exPool = (None, tp')
    \<and> fst (Trim tp') = Some (2, \<lparr>In = [4], Out = [2]\<rparr>)"
proof -
  have "diffFits \<lparr>In = [4], Out = [2]\<rparr> (poolAt (diffs exPool) (length (diffs exPool)))"
    by (simp add: diffFits_def exPool_simps exPool_at)
  from append_then_trim[OF exPool_inv this, of "\<lambda>db h d. Inr db" "()"]
  show ?thesis by (auto simp: exPool_simps)
qed

text \<open>requests that cannot be met are refused without corrupting the pool: a height above the
  tip and an append at the wrong height return their error and leave the state untouched, and a
  negative height ends at genesis with the cursor error.\<close>

theorem ticketPool_refusals:
  assumes "tpInv tp"
  shows "(h > tip tp \<longrightarrow> Pool h tp = (Inl (NotConnected h (tip tp)), tp))
    \<and> (h \<noteq> tip tp + 1 \<longrightarrow> Append dbSet d h tp = (Some (NotBuildOn h (tip tp)), tp)
        \<and> AppendAndAdvancePool dbSet d h tp = (Some (NotBuildOn h (tip tp)), tp))
    \<and> (h < 0 \<longrightarrow> Pool h tp = (Inl CursorAtGenesis, moveTo 0 tp))"
  using Pool_negative[OF assms] by (simp add: Pool_def Append_def AppendAndAdvancePool_def)

theorem ticketPool_refusals_witness:
  "Pool (-1) exPool = (Inl CursorAtGenesis, moveTo 0 exPool)"
  using ticketPool_refusals[OF exPool_inv, of "-1" "\<lambda>db h d. Inr db"] by (simp add: exPool_simps)

text \<open>loading the database succeeds exactly when the stored keys are the consecutive heights
  from 1: then all diffs are returned in height order, and a gap, a wrong start or an undecodable
  value is always reported.\<close>

theorem LoadAllPoolDiffs_iff:
  assumes "length items < 2 ^ 64"
  shows "LoadAllPoolDiffs items = (None, ds) \<longleftrightarrow>
    items = zip (map (\<lambda>k. word_of_nat (Suc k)) [0..<length ds]) (map Inr ds) \<and> length items = length ds"
proof
  assume L: "LoadAllPoolDiffs items = (None, ds)"
  then obtain l where "loadLoop 0 [] items = (None, l, ds)"
    by (auto simp: LoadAllPoolDiffs_def Let_def split: prod.splits option.splits if_splits)
  from loadLoop_sound[OF this]
  show "items = zip (map (\<lambda>k. word_of_nat (Suc k)) [0..<length ds]) (map Inr ds) \<and> length items = length ds"
    by simp
next
  assume R: "items = zip (map (\<lambda>k. word_of_nat (Suc k)) [0..<length ds]) (map Inr ds) \<and> length items = length ds"
  have "loadLoop 0 [] items = (None, word_of_nat (length ds), ds)"
    using R assms loadLoop_ok[of ds 0 "[]"] by simp
  then show "LoadAllPoolDiffs items = (None, ds)"
    by (simp add: LoadAllPoolDiffs_def Let_def)
qed

theorem LoadAllPoolDiffs_iff_witness:
  "LoadAllPoolDiffs [(1, Inr \<lparr>In = [1, 2], Out = []\<rparr>), (2, Inr \<lparr>In = [3], Out = [1]\<rparr>)] = (None, exDiffs)"
proof -
  let ?items = "[(1, Inr \<lparr>In = [1, 2], Out = []\<rparr>), (2, Inr \<lparr>In = [3], Out = [1]\<rparr>)]"
  have "length ?items < 2 ^ 64" by simp
  moreover have "?items = zip (map (\<lambda>k. word_of_nat (Suc k)) [0..<length exDiffs]) (map Inr exDiffs)"
    by (simp add: exDiffs_def upt_rec)
  ultimately show ?thesis
    using LoadAllPoolDiffs_iff[of ?items exDiffs] by (simp add: exDiffs_def)
qed

end
