(* ===== verification/DbEnums.thy ===== *)
theory DbEnums
  imports Prelude
begin

text \<open>
  The enumerations of \<open>db/dbtypes/types.go\<close> with their printers and parsers. A Go enumeration is
  an integer type with named constants; a \<open>datatype\<close> has one constructor per constant (and one
  for the integers outside the constants where the source has a default case but no constant for
  it). Strings are byte lists; \<open>strings.ToLower\<close> is modelled on ASCII letters, which is what it
  does to any ASCII string.
\<close>

subsection \<open>Lower case\<close>

definition lowerChar :: "char \<Rightarrow> char" where
  "lowerChar c = (let n = of_char c :: nat in if 65 \<le> n \<and> n \<le> 90 then char_of (n + 32) else c)"

definition toLower :: "string \<Rightarrow> string" where
  "toLower s = map lowerChar s"

subsection \<open>Tickets\<close>

datatype TicketSpendType = TicketUnspent | TicketRevoked | TicketVoted | TicketSpendOther

fun spendString :: "TicketSpendType \<Rightarrow> string" where
  "spendString TicketUnspent = ''unspent''"
| "spendString TicketRevoked = ''revoked''"
| "spendString TicketVoted = ''Voted''"
| "spendString TicketSpendOther = ''unknown''"

datatype TicketPoolStatus =
  PoolStatusLive | PoolStatusVoted | PoolStatusExpired | PoolStatusMissed | PoolStatusOther

fun poolStatusString :: "TicketPoolStatus \<Rightarrow> string" where
  "poolStatusString PoolStatusLive = ''live''"
| "poolStatusString PoolStatusVoted = ''Voted''"
| "poolStatusString PoolStatusExpired = ''expired''"
| "poolStatusString PoolStatusMissed = ''missed''"
| "poolStatusString PoolStatusOther = ''unknown''"

subsection \<open>Agendas and votes\<close>

datatype AgendaStatusType =
    InitialAgendaStatus | StartedAgendaStatus | FailedAgendaStatus | LockedInAgendaStatus
  | ActivatedAgendaStatus | UnknownStatus

fun agendaString :: "AgendaStatusType \<Rightarrow> string" where
  "agendaString InitialAgendaStatus = ''upcoming''"
| "agendaString StartedAgendaStatus = ''in progress''"
| "agendaString LockedInAgendaStatus = ''locked in''"
| "agendaString FailedAgendaStatus = ''failed''"
| "agendaString ActivatedAgendaStatus = ''finished''"
| "agendaString UnknownStatus = ''unknown''"

definition AgendaStatusFromStr :: "string \<Rightarrow> AgendaStatusType" where
  "AgendaStatusFromStr status = (let s = toLower status in
     if s = ''defined'' \<or> s = ''upcoming'' then InitialAgendaStatus
     else if s = ''started'' \<or> s = ''in progress'' then StartedAgendaStatus
     else if s = ''failed'' then FailedAgendaStatus
     else if s = ''lockedin'' \<or> s = ''locked in'' then LockedInAgendaStatus
     else if s = ''active'' \<or> s = ''finished'' then ActivatedAgendaStatus
     else UnknownStatus)"

datatype VoteChoice = Yes | Abstain | No | VoteChoiceUnknown

fun voteString :: "VoteChoice \<Rightarrow> string" where
  "voteString Abstain = ''abstain''"
| "voteString Yes = ''yes''"
| "voteString No = ''no''"
| "voteString VoteChoiceUnknown = ''unknown''"

text \<open>The second component is the error, with the unknown string.\<close>

definition ChoiceIndexFromStr :: "string \<Rightarrow> VoteChoice \<times> string option" where
  "ChoiceIndexFromStr choice =
     (if choice = ''abstain'' then (Abstain, None)
      else if choice = ''yes'' then (Yes, None)
      else if choice = ''no'' then (No, None)
      else (VoteChoiceUnknown, Some choice))"

subsection \<open>Address views and time groupings\<close>

datatype AddrTxnViewType =
    AddrTxnAll | AddrTxnCredit | AddrTxnDebit | AddrMergedTxnDebit | AddrMergedTxnCredit
  | AddrMergedTxn | AddrUnspentTxn | AddrTxnUnknown

fun viewString :: "AddrTxnViewType \<Rightarrow> string" where
  "viewString AddrTxnAll = ''all''"
| "viewString AddrTxnCredit = ''credit''"
| "viewString AddrTxnDebit = ''debit''"
| "viewString AddrMergedTxnDebit = ''merged_debit''"
| "viewString AddrMergedTxnCredit = ''merged_credit''"
| "viewString AddrMergedTxn = ''merged''"
| "viewString AddrUnspentTxn = ''unspent''"
| "viewString AddrTxnUnknown = ''unknown''"

text \<open>\<open>None\<close> is the error for an unrecognized view.\<close>

fun viewIsMerged :: "AddrTxnViewType \<Rightarrow> bool option" where
  "viewIsMerged AddrTxnAll = Some False"
| "viewIsMerged AddrTxnCredit = Some False"
| "viewIsMerged AddrTxnDebit = Some False"
| "viewIsMerged AddrUnspentTxn = Some False"
| "viewIsMerged AddrMergedTxn = Some True"
| "viewIsMerged AddrMergedTxnCredit = Some True"
| "viewIsMerged AddrMergedTxnDebit = Some True"
| "viewIsMerged AddrTxnUnknown = None"

definition AddrTxnViewTypeFromStr :: "string \<Rightarrow> AddrTxnViewType" where
  "AddrTxnViewTypeFromStr txnType = (let s = toLower txnType in
     if s = ''all'' then AddrTxnAll
     else if s = ''credit'' \<or> s = ''credits'' then AddrTxnCredit
     else if s = ''debit'' \<or> s = ''debits'' then AddrTxnDebit
     else if s = ''merged_debit'' \<or> s = ''merged debit'' then AddrMergedTxnDebit
     else if s = ''merged_credit'' \<or> s = ''merged credit'' then AddrMergedTxnCredit
     else if s = ''merged'' then AddrMergedTxn
     else if s = ''unspent'' then AddrUnspentTxn
     else AddrTxnUnknown)"

datatype TimeBasedGrouping =
  AllGrouping | YearGrouping | MonthGrouping | WeekGrouping | DayGrouping | UnknownGrouping

definition NumIntervals :: nat where
  "NumIntervals = 5"

text \<open>The integer value of a grouping, and its entry of the map \<open>TimeBasedGroupings\<close>.\<close>

fun groupingIdx :: "TimeBasedGrouping \<Rightarrow> nat" where
  "groupingIdx AllGrouping = 0"
| "groupingIdx YearGrouping = 1"
| "groupingIdx MonthGrouping = 2"
| "groupingIdx WeekGrouping = 3"
| "groupingIdx DayGrouping = 4"
| "groupingIdx UnknownGrouping = 5"

fun groupingString :: "TimeBasedGrouping \<Rightarrow> string" where
  "groupingString AllGrouping = ''all''"
| "groupingString YearGrouping = ''year''"
| "groupingString MonthGrouping = ''month''"
| "groupingString WeekGrouping = ''week''"
| "groupingString DayGrouping = ''day''"
| "groupingString UnknownGrouping = ''''"

definition TimeGroupingFromStr :: "string \<Rightarrow> TimeBasedGrouping" where
  "TimeGroupingFromStr groupings = (let s = toLower groupings in
     if s = ''all'' then AllGrouping
     else if s = ''yr'' \<or> s = ''year'' \<or> s = ''years'' then YearGrouping
     else if s = ''mo'' \<or> s = ''month'' \<or> s = ''months'' then MonthGrouping
     else if s = ''wk'' \<or> s = ''week'' \<or> s = ''weeks'' then WeekGrouping
     else if s = ''day'' \<or> s = ''days'' then DayGrouping
     else UnknownGrouping)"

datatype HistoryChart = TxsType | AmountFlow | ChartUnknown

subsection \<open>Parsing what was printed\<close>

text \<open>
  The contract of a printer and parser pair: what is printed is parsed back, and the parser does
  not look at the case of the letters. Each parser of the source that lowers its input is one.
\<close>

lemma lowerChar_idem: "lowerChar (lowerChar c) = lowerChar c"
proof (cases "65 \<le> (of_char c :: nat) \<and> (of_char c :: nat) \<le> 90")
  case True
  then have "of_char (char_of (of_char c + 32 :: nat)) = (of_char c + 32 :: nat)"
    by (simp add: of_char_of)
  then show ?thesis using True by (simp add: lowerChar_def Let_def)
next
  case False
  then have "lowerChar c = c" by (auto simp: lowerChar_def Let_def)
  then show ?thesis by simp
qed

lemma toLower_idem [simp]: "toLower (toLower s) = toLower s"
  by (simp add: toLower_def lowerChar_idem)

locale printed =
  fixes print :: "'a \<Rightarrow> string" and parse :: "string \<Rightarrow> 'a"
  assumes parse_print: "parse (print a) = a"
    and parse_lower: "parse (toLower s) = parse s"
begin

lemma print_inj: "print a = print b \<Longrightarrow> a = b"
  by (metis parse_print)

lemma parse_any_case: "toLower s = toLower (print a) \<Longrightarrow> parse s = a"
  by (metis parse_lower parse_print)

end

lemma agenda_roundtrip: "AgendaStatusFromStr (agendaString a) = a"
  by (cases a; hypsubst; code_simp)

lemma view_roundtrip: "AddrTxnViewTypeFromStr (viewString a) = a"
  by (cases a; hypsubst; code_simp)

lemma grouping_roundtrip: "TimeGroupingFromStr (groupingString a) = a"
  by (cases a; hypsubst; code_simp)

interpretation agenda: printed agendaString AgendaStatusFromStr
  by unfold_locales (rule agenda_roundtrip, simp add: AgendaStatusFromStr_def)

interpretation view: printed viewString AddrTxnViewTypeFromStr
  by unfold_locales (rule view_roundtrip, simp add: AddrTxnViewTypeFromStr_def)

interpretation grouping: printed groupingString TimeGroupingFromStr
  by unfold_locales (rule grouping_roundtrip, simp add: TimeGroupingFromStr_def)

lemma ChoiceIndex_iff: "ChoiceIndexFromStr s = (v, None) \<longleftrightarrow> v \<noteq> VoteChoiceUnknown \<and> s = voteString v"
  by (cases v) (auto simp: ChoiceIndexFromStr_def)

text \<open>the enumeration parsers invert their printers, for every constant: agenda statuses,
  address views and time groupings are parsed back whatever the case of the letters, and a vote
  choice is accepted exactly when the string is the print of one of the three known choices.\<close>

theorem enum_roundtrip:
  "(toLower s = toLower (agendaString a) \<longrightarrow> AgendaStatusFromStr s = a)
   \<and> (toLower s = toLower (viewString v) \<longrightarrow> AddrTxnViewTypeFromStr s = v)
   \<and> (toLower s = toLower (groupingString g) \<longrightarrow> TimeGroupingFromStr s = g)
   \<and> (ChoiceIndexFromStr s = (c, None) \<longleftrightarrow> c \<noteq> VoteChoiceUnknown \<and> s = voteString c)"
  by (simp add: agenda.parse_any_case view.parse_any_case grouping.parse_any_case ChoiceIndex_iff)

theorem enum_roundtrip_witness:
  "AddrTxnViewTypeFromStr ''Merged_Credit'' = AddrMergedTxnCredit"
proof -
  have "toLower ''Merged_Credit'' = toLower (viewString AddrMergedTxnCredit)" by code_simp
  then show ?thesis
    using enum_roundtrip[of "''Merged_Credit''" _ AddrMergedTxnCredit] by blast
qed

end
