(* ===== verification/AddressRows.thy ===== *)
theory AddressRows
  imports DbEnums
begin

text \<open>
  The rows of the addresses table (\<open>db/dbtypes/types.go\<close>): the three row types, the functions that
  cut a page of the credit, debit or unspent rows out of a slice, and those that merge the rows of
  one transaction into a single row. A slice of pointers to rows is a list of rows, and \<open>None\<close> where
  the slice may be nil. A \<open>TimeDef\<close> is its Unix time. \<open>chainhash.NewHashFromStr\<close> is the parameter
  \<open>nh\<close>, with \<open>None\<close> for its error, and \<open>Hash.String\<close> the parameter \<open>hs\<close>.
\<close>

subsection \<open>Rows\<close>

record AddressRow =
  arAddress :: string
  arValidMainChain :: bool
  arMatchingTxHash :: string
  arIsFunding :: bool
  arTxBlockTime :: int
  arTxHash :: string
  arTxVinVoutIndex :: "32 word"
  arValue :: uint64
  arVinVoutDbID :: uint64
  arMergedCount :: uint64
  arTxType :: int
  arAtomsCredit :: uint64
  arAtomsDebit :: uint64

record AddressRowCompact =
  acAddress :: string
  acTxBlockTime :: int
  acMatchingTxHash :: Hash
  acTxHash :: Hash
  acTxVinVoutIndex :: "32 word"
  acTxType :: int
  acValidMainChain :: bool
  acIsFunding :: bool
  acValue :: uint64

record AddressRowMerged =
  amAddress :: string
  amTxBlockTime :: int
  amTxHash :: Hash
  amAtomsCredit :: uint64
  amAtomsDebit :: uint64
  amMergedCount :: "32 word"
  amTxType :: int
  amValidMainChain :: bool

definition arIsMerged :: "AddressRow \<Rightarrow> bool" where
  "arIsMerged ar \<longleftrightarrow> arMergedCount ar > 0"

definition amIsFunding :: "AddressRowMerged \<Rightarrow> bool" where
  "amIsFunding arm \<longleftrightarrow> amAtomsCredit arm > amAtomsDebit arm"

definition amValue :: "AddressRowMerged \<Rightarrow> uint64" where
  "amValue arm = (if amAtomsCredit arm > amAtomsDebit arm then amAtomsCredit arm - amAtomsDebit arm
     else amAtomsDebit arm - amAtomsCredit arm)"

definition IsZeroHash :: "Hash \<Rightarrow> bool" where
  "IsZeroHash h \<longleftrightarrow> h = 0"

datatype rowsError =
    InvalidRange int int
  | UnrecognizedView AddrTxnViewType
  | NonMergedView AddrTxnViewType
  | MergedRowInInput

subsection \<open>Pages\<close>

text \<open>The loop with the two counters of \<open>CountCreditDebitRows\<close>, one for each branch.\<close>

fun countRows :: "('r \<Rightarrow> bool) \<Rightarrow> 'r list \<Rightarrow> int \<Rightarrow> int \<Rightarrow> int \<times> int" where
  "countRows p [] m n = (m, n)"
| "countRows p (r # rs) m n = (if p r then countRows p rs (m + 1) n else countRows p rs m (n + 1))"

definition CountCreditDebitRows :: "AddressRow list \<Rightarrow> int \<times> int" where
  "CountCreditDebitRows rows = countRows arIsFunding rows 0 0"

text \<open>The second result of the source is never assigned.\<close>

definition CountUnspentCreditRows :: "AddressRow list \<Rightarrow> int \<times> int" where
  "CountUnspentCreditRows rows =
     (fst (countRows (\<lambda>r. arIsFunding r \<and> arMatchingTxHash r = '''') rows 0 0), 0)"

text \<open>
  The loop that the paging functions share: rows that \<open>keep\<close> rejects are passed over, then
  \<open>offset\<close> rows are skipped, then rows are appended until there are \<open>N\<close>.
\<close>

fun pageLoop :: "('r \<Rightarrow> bool) \<Rightarrow> int \<Rightarrow> int \<Rightarrow> int \<Rightarrow> 'r list \<Rightarrow> 'r list \<Rightarrow> 'r list" where
  "pageLoop keep N offset skipped out [] = out"
| "pageLoop keep N offset skipped out (r # rs) =
     (if \<not> keep r then pageLoop keep N offset skipped out rs
      else if skipped < offset then pageLoop keep N offset (skipped + 1) out rs
      else if int (length (out @ [r])) = N then out @ [r]
      else pageLoop keep N offset skipped (out @ [r]) rs)"

text \<open>\<open>make([]T, 0, N)\<close> panics for a negative \<open>N\<close>; the loop follows.\<close>

definition makePage :: "('r \<Rightarrow> bool) \<Rightarrow> int \<Rightarrow> int \<Rightarrow> 'r list \<Rightarrow> 'r list option go" where
  "makePage keep N offset rows =
     (if N < 0 then Panic else Ret (Some (pageLoop keep N offset 0 [] rows)))"

text \<open>\<open>rows[offset:offset+N]\<close>, cut at the end of the slice, where the sum may wrap.\<close>

definition sliceAll :: "'r list option \<Rightarrow> int \<Rightarrow> int \<Rightarrow> 'r list option go" where
  "sliceAll rows N offset =
     (case rows of
        None \<Rightarrow> Ret None
      | Some rs \<Rightarrow>
          let numRows = int (length rs) in
          if offset \<ge> numRows then Ret (Some [])
          else
            let end0 = wrap64 (offset + N);
                end1 = (if end0 > numRows then numRows else end0)
            in if offset < end1
               then (case go_slice rs offset end1 of None \<Rightarrow> Panic | Some xs \<Rightarrow> Ret (Some xs))
               else Ret (Some []))"

definition SliceAddressRowsAll :: "AddressRow list option \<Rightarrow> int \<Rightarrow> int \<Rightarrow> AddressRow list option go" where
  "SliceAddressRowsAll rows N offset = sliceAll rows N offset"

definition SliceAddressCreditRows :: "AddressRow list option \<Rightarrow> int \<Rightarrow> int \<Rightarrow> AddressRow list option go" where
  "SliceAddressCreditRows rows N offset =
     (case rows of
        None \<Rightarrow> Ret None
      | Some rs \<Rightarrow>
          if offset \<ge> int (length rs) then Ret (Some [])
          else
            let numCreditRows = fst (CountCreditDebitRows rs);
                N' = (if numCreditRows < N then numCreditRows else N)
            in if offset \<ge> numCreditRows then Ret None
               else makePage arIsFunding N' offset rs)"

definition SliceAddressUnspentCreditRows :: "AddressRow list option \<Rightarrow> int \<Rightarrow> int \<Rightarrow> AddressRow list option go" where
  "SliceAddressUnspentCreditRows rows N offset =
     (case rows of
        None \<Rightarrow> Ret None
      | Some rs \<Rightarrow>
          if offset \<ge> int (length rs) then Ret (Some [])
          else
            let numCreditRows = fst (CountUnspentCreditRows rs);
                N' = (if numCreditRows < N then numCreditRows else N)
            in if offset \<ge> numCreditRows then Ret None
               else makePage arIsFunding N' offset rs)"

definition SliceAddressDebitRows :: "AddressRow list option \<Rightarrow> int \<Rightarrow> int \<Rightarrow> AddressRow list option go" where
  "SliceAddressDebitRows rows N offset =
     (case rows of
        None \<Rightarrow> Ret None
      | Some rs \<Rightarrow>
          if offset \<ge> int (length rs) then Ret (Some [])
          else
            let numDebitRows = snd (CountCreditDebitRows rs);
                N' = (if numDebitRows < N then numDebitRows else N)
            in if offset \<ge> numDebitRows then Ret None
               else makePage (\<lambda>r. \<not> arIsFunding r) N' offset rs)"

subsection \<open>Merging\<close>

text \<open>The function \<open>wrongDirection\<close> that the merging functions choose by the view.\<close>

fun wrongDirection :: "AddrTxnViewType \<Rightarrow> (bool \<Rightarrow> bool) option" where
  "wrongDirection AddrMergedTxn = Some (\<lambda>_. False)"
| "wrongDirection AddrMergedTxnCredit = Some (\<lambda>funding. \<not> funding)"
| "wrongDirection AddrMergedTxnDebit = Some (\<lambda>funding. funding)"
| "wrongDirection _ = None"

text \<open>
  The loops that count the distinct hashes of the rows of the right direction. The set is the Go
  map \<open>merged\<close>.
\<close>

fun countMergedLoop :: "(bool \<Rightarrow> bool) \<Rightarrow> AddressRow list \<Rightarrow> string set \<Rightarrow> int \<Rightarrow> rowsError + int" where
  "countMergedLoop wrong [] merged n = Inr n"
| "countMergedLoop wrong (r # rs) merged n =
     (if arMergedCount r \<noteq> 0 then Inl MergedRowInInput
      else if wrong (arIsFunding r) then countMergedLoop wrong rs merged n
      else if arTxHash r \<notin> merged
      then countMergedLoop wrong rs (insert (arTxHash r) merged) (n + 1)
      else countMergedLoop wrong rs merged n)"

definition CountMergedRows :: "AddressRow list \<Rightarrow> AddrTxnViewType \<Rightarrow> rowsError + int" where
  "CountMergedRows rows txnView =
     (case wrongDirection txnView of
        None \<Rightarrow> Inl (NonMergedView txnView)
      | Some wrong \<Rightarrow> countMergedLoop wrong rows {} 0)"

fun countMergedCompactLoop :: "(bool \<Rightarrow> bool) \<Rightarrow> AddressRowCompact list \<Rightarrow> Hash set \<Rightarrow> int \<Rightarrow> int" where
  "countMergedCompactLoop wrong [] merged n = n"
| "countMergedCompactLoop wrong (r # rs) merged n =
     (if wrong (acIsFunding r) then countMergedCompactLoop wrong rs merged n
      else if acTxHash r \<notin> merged
      then countMergedCompactLoop wrong rs (insert (acTxHash r) merged) (n + 1)
      else countMergedCompactLoop wrong rs merged n)"

definition CountMergedRowsCompact :: "AddressRowCompact list \<Rightarrow> AddrTxnViewType \<Rightarrow> rowsError + int" where
  "CountMergedRowsCompact rows txnView =
     (case wrongDirection txnView of
        None \<Rightarrow> Inl (NonMergedView txnView)
      | Some wrong \<Rightarrow> Inr (countMergedCompactLoop wrong rows {} 0))"

text \<open>
  A merged row is started with a count of one, and updated by each further row of the same
  hash. \<open>hashMap\<close> maps a hash to a pointer to its merged row, which is also an element of
  \<open>mergedRows\<close>: in the model, to its index there.
\<close>

definition startMerged :: "AddressRow \<Rightarrow> Hash \<Rightarrow> AddressRowMerged" where
  "startMerged r h =
     \<lparr>amAddress = arAddress r, amTxBlockTime = arTxBlockTime r, amTxHash = h,
      amAtomsCredit = (if arIsFunding r then arValue r else 0),
      amAtomsDebit = (if arIsFunding r then 0 else arValue r),
      amMergedCount = 1, amTxType = arTxType r, amValidMainChain = arValidMainChain r\<rparr>"

definition startMergedCompact :: "AddressRowCompact \<Rightarrow> AddressRowMerged" where
  "startMergedCompact r =
     \<lparr>amAddress = acAddress r, amTxBlockTime = acTxBlockTime r, amTxHash = acTxHash r,
      amAtomsCredit = (if acIsFunding r then acValue r else 0),
      amAtomsDebit = (if acIsFunding r then 0 else acValue r),
      amMergedCount = 1, amTxType = acTxType r, amValidMainChain = acValidMainChain r\<rparr>"

definition bumpMerged :: "bool \<Rightarrow> uint64 \<Rightarrow> AddressRowMerged \<Rightarrow> AddressRowMerged" where
  "bumpMerged funding v row =
     (let row1 = row\<lparr>amMergedCount := amMergedCount row + 1\<rparr>
      in if funding then row1\<lparr>amAtomsCredit := amAtomsCredit row1 + v\<rparr>
         else row1\<lparr>amAtomsDebit := amAtomsDebit row1 + v\<rparr>)"

fun mergeLoop :: "(string \<Rightarrow> Hash option) \<Rightarrow> AddressRow list \<Rightarrow> (Hash \<rightharpoonup> nat) \<Rightarrow> AddressRowMerged list
    \<Rightarrow> rowsError + AddressRowMerged list" where
  "mergeLoop nh [] hashMap mergedRows = Inr mergedRows"
| "mergeLoop nh (r # rs) hashMap mergedRows =
     (if arMergedCount r \<noteq> 0 then Inl MergedRowInInput
      else case nh (arTxHash r) of
        None \<Rightarrow> mergeLoop nh rs hashMap mergedRows
      | Some h \<Rightarrow>
         (case hashMap h of
            None \<Rightarrow> mergeLoop nh rs (hashMap(h \<mapsto> length mergedRows)) (mergedRows @ [startMerged r h])
          | Some i \<Rightarrow> mergeLoop nh rs hashMap
                (mergedRows[i := bumpMerged (arIsFunding r) (arValue r) (mergedRows ! i)])))"

definition MergeRows :: "(string \<Rightarrow> Hash option) \<Rightarrow> AddressRow list \<Rightarrow> rowsError + AddressRowMerged list" where
  "MergeRows nh rows = mergeLoop nh rows Map.empty []"

fun mergeCompactLoop :: "AddressRowCompact list \<Rightarrow> (Hash \<rightharpoonup> nat) \<Rightarrow> AddressRowMerged list \<Rightarrow> AddressRowMerged list" where
  "mergeCompactLoop [] hashMap mergedRows = mergedRows"
| "mergeCompactLoop (r # rs) hashMap mergedRows =
     (case hashMap (acTxHash r) of
        None \<Rightarrow> mergeCompactLoop rs (hashMap(acTxHash r \<mapsto> length mergedRows))
                  (mergedRows @ [startMergedCompact r])
      | Some i \<Rightarrow> mergeCompactLoop rs hashMap
            (mergedRows[i := bumpMerged (acIsFunding r) (acValue r) (mergedRows ! i)]))"

definition MergeRowsCompact :: "AddressRowCompact list \<Rightarrow> AddressRowMerged list" where
  "MergeRowsCompact rows = mergeCompactLoop rows Map.empty []"

fun mergeRangeLoop :: "(string \<Rightarrow> Hash option) \<Rightarrow> (bool \<Rightarrow> bool) \<Rightarrow> int \<Rightarrow> int \<Rightarrow> AddressRow list
    \<Rightarrow> int \<Rightarrow> Hash set \<Rightarrow> (Hash \<rightharpoonup> nat) \<Rightarrow> AddressRowMerged list \<Rightarrow> rowsError + AddressRowMerged list" where
  "mergeRangeLoop nh wrong N offset [] skipped seen hashMap mergedRows = Inr mergedRows"
| "mergeRangeLoop nh wrong N offset (r # rs) skipped seen hashMap mergedRows =
     (if wrong (arIsFunding r) then mergeRangeLoop nh wrong N offset rs skipped seen hashMap mergedRows
      else if arMergedCount r \<noteq> 0 then Inl MergedRowInInput
      else case nh (arTxHash r) of
        None \<Rightarrow> mergeRangeLoop nh wrong N offset rs skipped seen hashMap mergedRows
      | Some h \<Rightarrow>
         (case hashMap h of
            None \<Rightarrow>
              if int (length mergedRows) = N
              then mergeRangeLoop nh wrong N offset rs skipped seen hashMap mergedRows
              else if skipped < offset
              then if h \<notin> seen
                   then mergeRangeLoop nh wrong N offset rs (skipped + 1) (insert h seen) hashMap mergedRows
                   else mergeRangeLoop nh wrong N offset rs skipped seen hashMap mergedRows
              else mergeRangeLoop nh wrong N offset rs skipped seen
                     (hashMap(h \<mapsto> length mergedRows)) (mergedRows @ [startMerged r h])
          | Some i \<Rightarrow> mergeRangeLoop nh wrong N offset rs skipped seen hashMap
                (mergedRows[i := bumpMerged (arIsFunding r) (arValue r) (mergedRows ! i)])))"

definition MergeRowsRange :: "(string \<Rightarrow> Hash option) \<Rightarrow> AddressRow list \<Rightarrow> int \<Rightarrow> int \<Rightarrow> AddrTxnViewType
    \<Rightarrow> rowsError + AddressRowMerged list" where
  "MergeRowsRange nh rows N offset txnView =
     (if offset < 0 \<or> N < 0 then Inl (InvalidRange N offset)
      else case wrongDirection txnView of
        None \<Rightarrow> Inl (UnrecognizedView txnView)
      | Some wrong \<Rightarrow>
          if N = 0 \<or> rows = [] then Inr []
          else mergeRangeLoop nh wrong N offset rows 0 {} Map.empty [])"

fun mergeCompactRangeLoop :: "(bool \<Rightarrow> bool) \<Rightarrow> int \<Rightarrow> int \<Rightarrow> AddressRowCompact list
    \<Rightarrow> int \<Rightarrow> Hash set \<Rightarrow> (Hash \<rightharpoonup> nat) \<Rightarrow> AddressRowMerged list \<Rightarrow> AddressRowMerged list" where
  "mergeCompactRangeLoop wrong N offset [] skipped seen hashMap mergedRows = mergedRows"
| "mergeCompactRangeLoop wrong N offset (r # rs) skipped seen hashMap mergedRows =
     (if wrong (acIsFunding r) then mergeCompactRangeLoop wrong N offset rs skipped seen hashMap mergedRows
      else case hashMap (acTxHash r) of
        None \<Rightarrow>
          if int (length mergedRows) = N
          then mergeCompactRangeLoop wrong N offset rs skipped seen hashMap mergedRows
          else if skipped < offset
          then if acTxHash r \<notin> seen
               then mergeCompactRangeLoop wrong N offset rs (skipped + 1) (insert (acTxHash r) seen)
                      hashMap mergedRows
               else mergeCompactRangeLoop wrong N offset rs skipped seen hashMap mergedRows
          else mergeCompactRangeLoop wrong N offset rs skipped seen
                 (hashMap(acTxHash r \<mapsto> length mergedRows)) (mergedRows @ [startMergedCompact r])
      | Some i \<Rightarrow> mergeCompactRangeLoop wrong N offset rs skipped seen hashMap
            (mergedRows[i := bumpMerged (acIsFunding r) (acValue r) (mergedRows ! i)]))"

text \<open>The slice is nil when the arguments are not valid.\<close>

definition MergeRowsCompactRange :: "AddressRowCompact list \<Rightarrow> int \<Rightarrow> int \<Rightarrow> AddrTxnViewType
    \<Rightarrow> AddressRowMerged list option" where
  "MergeRowsCompactRange rows N offset txnView =
     (if offset < 0 \<or> N < 0 then None
      else case wrongDirection txnView of
        None \<Rightarrow> None
      | Some wrong \<Rightarrow>
          if N = 0 \<or> rows = [] then Some []
          else Some (mergeCompactRangeLoop wrong N offset rows 0 {} Map.empty []))"

subsection \<open>Conversions\<close>

text \<open>
  A matching hash that does not parse makes \<open>mhash\<close> a nil pointer, whose dereference panics; a
  transaction hash that does not parse gives the nil slice.
\<close>

fun compactLoop :: "(string \<Rightarrow> Hash option) \<Rightarrow> AddressRow list \<Rightarrow> AddressRowCompact list
    \<Rightarrow> AddressRowCompact list option go" where
  "compactLoop nh [] compact = Ret (Some compact)"
| "compactLoop nh (r # rs) compact =
     (case nh (arTxHash r) of
        None \<Rightarrow> Ret None
      | Some h \<Rightarrow>
         (case nh (arMatchingTxHash r) of
            None \<Rightarrow> Panic
          | Some mh \<Rightarrow> compactLoop nh rs (compact @
              [\<lparr>acAddress = arAddress r, acTxBlockTime = arTxBlockTime r, acMatchingTxHash = mh,
                acTxHash = h, acTxVinVoutIndex = arTxVinVoutIndex r, acTxType = arTxType r,
                acValidMainChain = arValidMainChain r, acIsFunding = arIsFunding r,
                acValue = arValue r\<rparr>])))"

definition CompactRows :: "(string \<Rightarrow> Hash option) \<Rightarrow> AddressRow list \<Rightarrow> AddressRowCompact list option go" where
  "CompactRows nh rows = compactLoop nh rows []"

definition UncompactRows :: "(Hash \<Rightarrow> string) \<Rightarrow> AddressRowCompact list \<Rightarrow> AddressRow list" where
  "UncompactRows hs compact = map (\<lambda>r.
     \<lparr>arAddress = acAddress r, arValidMainChain = acValidMainChain r,
      arMatchingTxHash = (if \<not> IsZeroHash (acMatchingTxHash r) then hs (acMatchingTxHash r) else ''''),
      arIsFunding = acIsFunding r, arTxBlockTime = acTxBlockTime r, arTxHash = hs (acTxHash r),
      arTxVinVoutIndex = acTxVinVoutIndex r, arValue = acValue r, arVinVoutDbID = 0,
      arMergedCount = 0, arTxType = acTxType r, arAtomsCredit = 0, arAtomsDebit = 0\<rparr>) compact"

definition UncompactMergedRows :: "(Hash \<Rightarrow> string) \<Rightarrow> AddressRowMerged list \<Rightarrow> AddressRow list" where
  "UncompactMergedRows hs merged = map (\<lambda>r.
     \<lparr>arAddress = amAddress r, arValidMainChain = amValidMainChain r, arMatchingTxHash = '''',
      arIsFunding = amIsFunding r, arTxBlockTime = amTxBlockTime r, arTxHash = hs (amTxHash r),
      arTxVinVoutIndex = 0, arValue = amValue r, arVinVoutDbID = 0,
      arMergedCount = word_of_int (sint (amMergedCount r)), arTxType = amTxType r,
      arAtomsCredit = 0, arAtomsDebit = 0\<rparr>) merged"

definition SliceAddressRows :: "(string \<Rightarrow> Hash option) \<Rightarrow> (Hash \<Rightarrow> string) \<Rightarrow> AddressRow list option
    \<Rightarrow> int \<Rightarrow> int \<Rightarrow> AddrTxnViewType \<Rightarrow> (rowsError + AddressRow list option) go" where
  "SliceAddressRows nh hs rows N offset txnView =
     (let ok = (\<lambda>r. case r of Panic \<Rightarrow> Panic | Ret s \<Rightarrow> Ret (Inr s)) in
      if offset < 0 \<or> N < 0 then Ret (Inl (InvalidRange offset N))
      else if N = 0 \<or> int (length (elems rows)) = 0 \<or> offset \<ge> int (length (elems rows))
      then Ret (Inr (Some []))
      else case txnView of
        AddrTxnAll \<Rightarrow> ok (SliceAddressRowsAll rows N offset)
      | AddrTxnCredit \<Rightarrow> ok (SliceAddressCreditRows rows N offset)
      | AddrTxnDebit \<Rightarrow> ok (SliceAddressDebitRows rows N offset)
      | AddrUnspentTxn \<Rightarrow> ok (SliceAddressUnspentCreditRows rows N offset)
      | AddrTxnUnknown \<Rightarrow> Ret (Inl (UnrecognizedView txnView))
      | _ \<Rightarrow> (case MergeRowsRange nh (elems rows) N offset txnView of
               Inl e \<Rightarrow> Ret (Inl e)
             | Inr mergedRows \<Rightarrow> Ret (Inr (Some (UncompactMergedRows hs mergedRows)))))"

subsection \<open>What the pages hold\<close>

lemma countRows_eq:
  "countRows p rs m n = (m + int (length (filter p rs)), n + int (length (filter (\<lambda>r. \<not> p r) rs)))"
  by (induction rs arbitrary: m n) auto

lemma pageLoop_eq:
  assumes "skipped \<le> offset" and "int (length out) < N"
  shows "pageLoop keep N offset skipped out rs
    = out @ take (nat N - length out) (drop (nat (offset - skipped)) (filter keep rs))"
  using assms
proof (induction rs arbitrary: skipped out)
  case Nil
  then show ?case by simp
next
  case (Cons r rs)
  show ?case
  proof (cases "keep r \<and> skipped < offset")
    case True
    then have "nat (offset - skipped) = Suc (nat (offset - (skipped + 1)))" by arith
    then show ?thesis using True Cons by simp
  next
    case skip: False
    show ?thesis
    proof (cases "keep r")
      case True
      with skip Cons.prems have eq: "offset = skipped" by simp
      have "nat N - length out = Suc (nat N - Suc (length out))" using Cons.prems by simp
      then have *: "take (nat N - length out) (r # xs) = r # take (nat N - Suc (length out)) xs" for xs
        by simp
      show ?thesis
      proof (cases "int (length (out @ [r])) = N")
        case True
        then have "nat N - Suc (length out) = 0" by simp
        then show ?thesis using True eq * \<open>keep r\<close> by simp
      next
        case False
        then show ?thesis using Cons.IH[of skipped "out @ [r]"] Cons.prems eq * \<open>keep r\<close> by simp
      qed
    next
      case False
      then show ?thesis using Cons by simp
    qed
  qed
qed

text \<open>The rows that a page function delivers, if it does not panic.\<close>

definition delivered :: "'r list option go \<Rightarrow> 'r list option" where
  "delivered g = (case g of Panic \<Rightarrow> None | Ret s \<Rightarrow> Some (elems s))"

lemma delivered_simps [simp]: "delivered Panic = None" "delivered (Ret s) = Some (elems s)"
  by (simp_all add: delivered_def)

lemma deliveredD: "delivered g = Some xs \<Longrightarrow> \<exists>s. g = Ret s \<and> elems s = xs"
  by (cases g) auto

definition pageOf :: "('r \<Rightarrow> bool) \<Rightarrow> 'r list \<Rightarrow> int \<Rightarrow> int \<Rightarrow> 'r list" where
  "pageOf keep rs N offset = take (nat N) (drop (nat offset) (filter keep rs))"

lemma pageOf_beyond: "int (length (filter keep rs)) \<le> offset \<Longrightarrow> pageOf keep rs N offset = []"
  by (simp add: pageOf_def nat_le_iff)

lemma pageOf_min:
  "0 \<le> offset \<Longrightarrow> pageOf keep rs (if int (length (filter keep rs)) < N
     then int (length (filter keep rs)) else N) offset = pageOf keep rs N offset"
  by (simp add: pageOf_def)

lemma makePage_delivered:
  "0 < N \<Longrightarrow> 0 \<le> offset \<Longrightarrow> delivered (makePage keep N offset rs) = Some (pageOf keep rs N offset)"
  by (simp add: makePage_def pageLoop_eq pageOf_def)

text \<open>The page with the guards of the paging functions, which need \<open>num\<close> to count the kept rows.\<close>

lemma guarded_page:
  assumes "0 < N" and "0 \<le> offset" and num: "num = int (length (filter keep rs))"
  shows "delivered (if offset \<ge> int (length rs) then Ret (Some [])
      else if offset \<ge> num then Ret None
      else makePage keep (if num < N then num else N) offset rs) = Some (pageOf keep rs N offset)"
proof -
  have le: "num \<le> int (length rs)" using num by simp
  show ?thesis
  proof (cases "offset < num")
    case True
    let ?N = "if num < N then num else N"
    have "delivered (makePage keep ?N offset rs) = Some (pageOf keep rs ?N offset)"
      using True assms(1,2) by (intro makePage_delivered) auto
    moreover have "\<not> int (length rs) \<le> offset" "\<not> num \<le> offset" using True le by linarith+
    moreover have "pageOf keep rs ?N offset = pageOf keep rs N offset"
      unfolding num by (rule pageOf_min[OF assms(2)])
    ultimately show ?thesis by (simp only: if_False)
  next
    case False
    then show ?thesis using num by (simp add: pageOf_beyond)
  qed
qed

locale paging =
  fixes page :: "'r list \<Rightarrow> int \<Rightarrow> int \<Rightarrow> 'r list option go" and keep :: "'r \<Rightarrow> bool"
  assumes page_delivers: "0 < N \<Longrightarrow> 0 \<le> offset \<Longrightarrow> offset + N < 2 ^ 63
    \<Longrightarrow> delivered (page rs N offset) = Some (pageOf keep rs N offset)"
begin

lemma page_returns:
  "0 < N \<Longrightarrow> 0 \<le> offset \<Longrightarrow> offset + N < 2 ^ 63
   \<Longrightarrow> \<exists>s. page rs N offset = Ret s \<and> elems s = pageOf keep rs N offset"
  by (rule deliveredD, rule page_delivers)

lemma page_kept:
  assumes "0 < N" "0 \<le> offset" "offset + N < 2 ^ 63" "page rs N offset = Ret s"
  shows "length (elems s) \<le> nat N \<and> set (elems s) \<subseteq> {r \<in> set rs. keep r}"
proof -
  have "elems s = pageOf keep rs N offset" using page_delivers[OF assms(1-3), of rs] assms(4) by simp
  moreover have "set (pageOf keep rs N offset) \<subseteq> set (filter keep rs)"
    unfolding pageOf_def by (meson set_drop_subset set_take_subset order_trans)
  ultimately show ?thesis by (auto simp: pageOf_def)
qed

lemma pages_join:
  assumes "0 < N" "0 < M" "0 \<le> offset" "offset + N + M < 2 ^ 63"
    and "page rs N offset = Ret s1" and "page rs M (offset + N) = Ret s2"
    and "page rs (N + M) offset = Ret s"
  shows "elems s = elems s1 @ elems s2"
proof -
  have "elems s1 = pageOf keep rs N offset" "elems s2 = pageOf keep rs M (offset + N)"
    "elems s = pageOf keep rs (N + M) offset"
    using page_delivers[of N offset rs] page_delivers[of M "offset + N" rs]
      page_delivers[of "N + M" offset rs] assms by simp_all
  moreover have "nat (N + M) = nat N + nat M" "nat (offset + N) = nat offset + nat N"
    using assms(1-3) by (simp_all add: nat_add_distrib)
  ultimately show ?thesis
    by (simp add: pageOf_def take_add add.commute[of "nat offset" "nat N"])
qed

end

lemma sliceAll_delivers:
  assumes "0 < N" "0 \<le> offset" "offset + N < 2 ^ 63"
  shows "delivered (sliceAll (Some rs) N offset) = Some (pageOf (\<lambda>_. True) rs N offset)"
proof -
  have w: "wrap64 (offset + N) = offset + N" using assms by (intro wrap64_id) auto
  show ?thesis using assms
    by (auto simp: sliceAll_def w Let_def go_slice_def pageOf_def nat_le_iff nat_diff_distrib)
qed

interpretation all: paging "\<lambda>rs. SliceAddressRowsAll (Some rs)" "\<lambda>_. True"
  by unfold_locales (simp add: SliceAddressRowsAll_def sliceAll_delivers)

interpretation credit: paging "\<lambda>rs. SliceAddressCreditRows (Some rs)" arIsFunding
  by unfold_locales
    (unfold SliceAddressCreditRows_def CountCreditDebitRows_def countRows_eq Let_def option.case,
      rule guarded_page, assumption, assumption, simp)

interpretation debit: paging "\<lambda>rs. SliceAddressDebitRows (Some rs)" "\<lambda>r. \<not> arIsFunding r"
  by unfold_locales
    (unfold SliceAddressDebitRows_def CountCreditDebitRows_def countRows_eq Let_def option.case,
      rule guarded_page, assumption, assumption, simp)

subsection \<open>What merging computes\<close>

text \<open>
  The specification: one row per distinct transaction hash, in the order of first occurrence,
  whose data are those of the first row of the hash, and whose amounts are the sums over the
  rows of that hash.
\<close>

definition mergedOf :: "Hash \<Rightarrow> AddressRowCompact list \<Rightarrow> AddressRowMerged" where
  "mergedOf h rows =
     (let g = filter (\<lambda>r. acTxHash r = h) rows; f = hd g in
      \<lparr>amAddress = acAddress f, amTxBlockTime = acTxBlockTime f, amTxHash = h,
       amAtomsCredit = sum_list (map acValue (filter acIsFunding g)),
       amAtomsDebit = sum_list (map acValue (filter (\<lambda>r. \<not> acIsFunding r) g)),
       amMergedCount = of_nat (length g), amTxType = acTxType f, amValidMainChain = acValidMainChain f\<rparr>)"

definition mergeAll :: "AddressRowCompact list \<Rightarrow> AddressRowMerged list" where
  "mergeAll rows = map (\<lambda>h. mergedOf h rows) (firsts (map acTxHash rows))"

text \<open>The state of the merging loops after the rows \<open>pre\<close>.\<close>

definition mergeRep :: "(Hash \<rightharpoonup> nat) \<Rightarrow> AddressRowMerged list \<Rightarrow> AddressRowCompact list \<Rightarrow> bool" where
  "mergeRep hashMap mergedRows pre \<longleftrightarrow> mergedRows = mergeAll pre \<and>
     (\<forall>h i. hashMap h = Some i \<longleftrightarrow>
        i < length (firsts (map acTxHash pre)) \<and> firsts (map acTxHash pre) ! i = h)"

lemma mergeRep_empty [simp]: "mergeRep Map.empty [] []"
  by (simp add: mergeRep_def mergeAll_def)

lemma mergeRep_rows: "mergeRep hashMap ms pre \<Longrightarrow> ms = mergeAll pre"
  by (simp add: mergeRep_def)

lemma mergeRep_None:
  assumes "mergeRep hashMap ms pre"
  shows "hashMap h = None \<longleftrightarrow> h \<notin> set (map acTxHash pre)"
proof -
  have "(\<exists>i. hashMap h = Some i) \<longleftrightarrow> h \<in> set (firsts (map acTxHash pre))"
    using assms by (auto simp: mergeRep_def in_set_conv_nth simp del: set_firsts)
  then show ?thesis by auto
qed

lemma mergedOf_other: "acTxHash r \<noteq> h \<Longrightarrow> mergedOf h (xs @ r # ys) = mergedOf h (xs @ ys)"
  by (simp add: mergedOf_def)

lemma mergedOf_new:
  assumes "acTxHash r \<notin> set (map acTxHash pre)"
  shows "mergedOf (acTxHash r) (pre @ [r]) = startMergedCompact r"
proof -
  have "filter (\<lambda>x. acTxHash x = acTxHash r) pre = []"
    using assms by (simp add: filter_empty_conv) (metis imageI)
  then show ?thesis by (simp add: mergedOf_def startMergedCompact_def)
qed

lemma mergedOf_old:
  assumes "acTxHash r \<in> set (map acTxHash pre)"
  shows "mergedOf (acTxHash r) (pre @ [r]) = bumpMerged (acIsFunding r) (acValue r) (mergedOf (acTxHash r) pre)"
proof -
  have "filter (\<lambda>x. acTxHash x = acTxHash r) pre \<noteq> []"
    using assms by (auto simp: filter_empty_conv)
  then show ?thesis by (simp add: mergedOf_def bumpMerged_def Let_def add.commute)
qed

lemma mergeRep_new:
  assumes "mergeRep hashMap ms pre" and "hashMap (acTxHash r) = None"
  shows "mergeRep (hashMap(acTxHash r \<mapsto> length ms)) (ms @ [startMergedCompact r]) (pre @ [r])"
proof -
  have new: "acTxHash r \<notin> set (map acTxHash pre)" using mergeRep_None[OF assms(1)] assms(2) by blast
  have ms: "ms = mergeAll pre" by (rule mergeRep_rows[OF assms(1)])
  have "map (\<lambda>h. mergedOf h (pre @ [r])) (firsts (map acTxHash pre)) = mergeAll pre"
    using new mergedOf_other[of r _ pre "[]"] by (auto simp: mergeAll_def)
  then have all: "mergeAll (pre @ [r]) = mergeAll pre @ [startMergedCompact r]"
    using new by (simp add: mergeAll_def firsts_snoc mergedOf_new)
  have len: "length (mergeAll pre) = length (firsts (map acTxHash pre))" by (simp add: mergeAll_def)
  have no: "firsts (map acTxHash pre) ! i \<noteq> acTxHash r" if "i < length (firsts (map acTxHash pre))" for i
    using new that by (metis nth_mem set_firsts)
  show ?thesis
    unfolding mergeRep_def all
    using assms(1) new len no by (auto simp: mergeRep_def ms firsts_snoc nth_append less_Suc_eq split: if_splits)
qed

lemma mergeRep_old:
  assumes "mergeRep hashMap ms pre" and "hashMap (acTxHash r) = Some i"
  shows "mergeRep hashMap (ms[i := bumpMerged (acIsFunding r) (acValue r) (ms ! i)]) (pre @ [r])"
proof -
  let ?fs = "firsts (map acTxHash pre)"
  have ms: "ms = mergeAll pre" by (rule mergeRep_rows[OF assms(1)])
  have i: "i < length ?fs" "?fs ! i = acTxHash r" using assms by (auto simp: mergeRep_def)
  then have old: "acTxHash r \<in> set (map acTxHash pre)" by (metis nth_mem set_firsts)
  have fs: "firsts (map acTxHash (pre @ [r])) = ?fs" using old by (simp add: firsts_snoc)
  have "mergeAll (pre @ [r]) = ms[i := bumpMerged (acIsFunding r) (acValue r) (ms ! i)]"
  proof (rule nth_equalityI)
    show "length (mergeAll (pre @ [r])) = length (ms[i := bumpMerged (acIsFunding r) (acValue r) (ms ! i)])"
      using fs by (simp add: mergeAll_def ms)
  next
    fix j assume "j < length (mergeAll (pre @ [r]))"
    then have j: "j < length ?fs" using fs by (simp add: mergeAll_def)
    show "mergeAll (pre @ [r]) ! j = ms[i := bumpMerged (acIsFunding r) (acValue r) (ms ! i)] ! j"
    proof (cases "j = i")
      case True
      then show ?thesis using i j fs mergedOf_old[OF old] by (simp add: mergeAll_def ms)
    next
      case False
      then have "?fs ! j \<noteq> acTxHash r" using i j by (metis distinct_firsts nth_eq_iff_index_eq)
      then show ?thesis using False j fs mergedOf_other[of r "?fs ! j" pre "[]"]
        by (simp add: mergeAll_def ms)
    qed
  qed
  then show ?thesis using assms(1) fs by (simp add: mergeRep_def)
qed

lemma mergeCompactLoop_eq:
  "mergeRep hashMap ms pre \<Longrightarrow> mergeCompactLoop rs hashMap ms = mergeAll (pre @ rs)"
proof (induction rs arbitrary: hashMap ms pre)
  case Nil
  then show ?case by (simp add: mergeRep_rows)
next
  case (Cons r rs)
  show ?case
  proof (cases "hashMap (acTxHash r)")
    case None
    show ?thesis using Cons.IH[OF mergeRep_new[OF Cons.prems None]] None
      by (simp del: fun_upd_apply)
  next
    case (Some i)
    show ?thesis using Cons.IH[OF mergeRep_old[OF Cons.prems Some]] Some by simp
  qed
qed

lemma MergeRowsCompact_eq: "MergeRowsCompact rows = mergeAll rows"
  using mergeCompactLoop_eq[OF mergeRep_empty, of rows] by (simp add: MergeRowsCompact_def)

text \<open>The range loop: first the rows of the wrong direction, then the skipped ones.\<close>

lemma rangeLoop_filter:
  "mergeCompactRangeLoop wrong N offset rs skipped seen hashMap ms
   = mergeCompactRangeLoop (\<lambda>_. False) N offset (filter (\<lambda>r. \<not> wrong (acIsFunding r)) rs) skipped seen hashMap ms"
  by (induction rs arbitrary: skipped seen hashMap ms) (auto split: option.splits)

lemma take_firsts_snoc:
  "length (firsts xs) = n \<Longrightarrow> take n (firsts (xs @ ys)) = firsts xs"
  by (simp add: firsts_append)

lemma rangeLoop_merge:
  assumes "offset \<le> skipped" and "int (length ms) \<le> N" and "mergeRep hashMap ms pre"
  shows "mergeCompactRangeLoop (\<lambda>_. False) N offset rs skipped seen hashMap ms = take (nat N) (mergeAll (pre @ rs))"
  using assms(2,3)
proof (induction rs arbitrary: hashMap ms pre)
  case Nil
  have "ms = mergeAll pre" using Nil.prems(2) by (rule mergeRep_rows)
  then show ?case using Nil.prems(1) by (simp add: nat_le_iff)
next
  case (Cons r rs)
  have ms: "ms = mergeAll pre" using Cons.prems(2) by (rule mergeRep_rows)
  then have len: "length ms = length (firsts (map acTxHash pre))" by (simp add: mergeAll_def)
  show ?case
  proof (cases "hashMap (acTxHash r)")
    case (Some i)
    have "int (length (ms[i := bumpMerged (acIsFunding r) (acValue r) (ms ! i)])) \<le> N"
      using Cons.prems(1) by simp
    from Cons.IH[OF this mergeRep_old[OF Cons.prems(2) Some]] show ?thesis using Some by simp
  next
    case None
    show ?thesis
    proof (cases "int (length ms) = N")
      case True
      have new: "acTxHash r \<notin> set (map acTxHash pre)" using mergeRep_None[OF Cons.prems(2)] None by blast
      have n: "nat N = length (firsts (map acTxHash pre))" using True len by simp
      have "take (nat N) (mergeAll (pre @ r # rs)) = take (nat N) (mergeAll (pre @ rs))"
        unfolding mergeAll_def take_map n map_append take_firsts_snoc[OF refl]
        using new mergedOf_other[of r _ pre rs] by auto
      then show ?thesis using Cons.IH[OF Cons.prems] None True by simp
    next
      case False
      then have "int (length (ms @ [startMergedCompact r])) \<le> N" using Cons.prems(1) by simp
      from Cons.IH[OF this mergeRep_new[OF Cons.prems(2) None]] show ?thesis
        using None False assms(1) by (simp del: fun_upd_apply)
    qed
  qed
qed

text \<open>The rows left once \<open>k\<close> hashes are skipped, as the source skips them.\<close>

fun skipHashes :: "nat \<Rightarrow> Hash set \<Rightarrow> AddressRowCompact list \<Rightarrow> AddressRowCompact list" where
  "skipHashes 0 seen rs = rs"
| "skipHashes (Suc k) seen [] = []"
| "skipHashes (Suc k) seen (r # rs) =
     (if acTxHash r \<in> seen then skipHashes (Suc k) seen rs
      else skipHashes k (insert (acTxHash r) seen) rs)"

lemma skipHashes_Nil [simp]: "skipHashes k seen [] = []"
  by (cases k) auto

lemma rangeLoop_skip:
  assumes "0 < N" and "skipped \<le> offset"
  shows "mergeCompactRangeLoop (\<lambda>_. False) N offset rs skipped seen Map.empty []
    = take (nat N) (mergeAll (skipHashes (nat (offset - skipped)) seen rs))"
  using assms(2)
proof (induction rs arbitrary: skipped seen)
  case Nil
  then show ?case by (simp add: mergeAll_def)
next
  case (Cons r rs)
  show ?case
  proof (cases "skipped < offset")
    case True
    then have k: "nat (offset - skipped) = Suc (nat (offset - (skipped + 1)))" by arith
    show ?thesis
    proof (cases "acTxHash r \<in> seen")
      case in_seen: True
      then show ?thesis using True assms(1) Cons.IH[OF Cons.prems] k by simp
    next
      case False
      then show ?thesis using True assms(1) Cons.IH[of "skipped + 1"] k by simp
    qed
  next
    case False
    then show ?thesis
      using rangeLoop_merge[of offset skipped "[]" N Map.empty "[]" "r # rs" seen] assms(1) Cons.prems by simp
  qed
qed

definition rightRows :: "(bool \<Rightarrow> bool) \<Rightarrow> AddressRowCompact list \<Rightarrow> AddressRowCompact list" where
  "rightRows wrong rows = filter (\<lambda>r. \<not> wrong (acIsFunding r)) rows"

lemma MergeRowsCompactRange_eq:
  assumes "0 < N" and "0 \<le> offset" and "wrongDirection view = Some wrong"
  shows "MergeRowsCompactRange rows N offset view
    = Some (take (nat N) (mergeAll (skipHashes (nat offset) {} (rightRows wrong rows))))"
proof (cases "rows = []")
  case True
  then show ?thesis using assms by (simp add: MergeRowsCompactRange_def mergeAll_def rightRows_def)
next
  case False
  then show ?thesis using assms rangeLoop_skip[of N 0 offset "rightRows wrong rows" "{}"]
      rangeLoop_filter[of wrong N offset rows 0 "{}" Map.empty "[]"]
    by (simp add: MergeRowsCompactRange_def rightRows_def)
qed

text \<open>
  Skipping is right when no skipped hash shows up again in the rows that are left.
\<close>

definition skipClean :: "nat \<Rightarrow> AddressRowCompact list \<Rightarrow> bool" where
  "skipClean k rs \<longleftrightarrow>
     (let rest = skipHashes k {} rs in
      set (map acTxHash (take (length rs - length rest) rs)) \<inter> set (map acTxHash rest) = {})"

lemma skipHashes_split:
  "\<exists>pre. rs = pre @ skipHashes k seen rs \<and>
     (skipHashes k seen rs = [] \<or> card (set (map acTxHash pre) - seen) = k) \<and>
     card (set (map acTxHash pre) - seen) \<le> k"
proof (induction k seen rs rule: skipHashes.induct)
  case (1 seen rs)
  then show ?case by (intro exI[of _ "[]"]) simp
next
  case (2 k seen)
  then show ?case by simp
next
  case (3 k seen r rs)
  show ?case
  proof (cases "acTxHash r \<in> seen")
    case True
    then obtain pre where "rs = pre @ skipHashes (Suc k) seen rs"
      "skipHashes (Suc k) seen rs = [] \<or> card (set (map acTxHash pre) - seen) = Suc k"
      "card (set (map acTxHash pre) - seen) \<le> Suc k" using 3(1) by blast
    then show ?thesis using True by (intro exI[of _ "r # pre"]) (simp add: insert_Diff_if)
  next
    case False
    let ?s = "insert (acTxHash r) seen"
    obtain pre where p: "rs = pre @ skipHashes k ?s rs"
      "skipHashes k ?s rs = [] \<or> card (set (map acTxHash pre) - ?s) = k"
      "card (set (map acTxHash pre) - ?s) \<le> k" using 3(2) False by blast
    have "set (map acTxHash (r # pre)) - seen = insert (acTxHash r) (set (map acTxHash pre) - ?s)"
      using False by auto
    then have "card (set (map acTxHash (r # pre)) - seen) = Suc (card (set (map acTxHash pre) - ?s))"
      by simp
    then show ?thesis using p False by (intro exI[of _ "r # pre"]) (simp del: set_map list.map)
  qed
qed

lemma mergeAll_skip:
  assumes "skipClean k rs"
  shows "mergeAll (skipHashes k {} rs) = drop k (mergeAll rs)"
proof -
  let ?rest = "skipHashes k {} rs"
  obtain pre where p: "rs = pre @ ?rest" "?rest = [] \<or> card (set (map acTxHash pre)) = k"
    "card (set (map acTxHash pre)) \<le> k" using skipHashes_split[of rs k "{}"] by auto
  have disj: "set (map acTxHash pre) \<inter> set (map acTxHash ?rest) = {}"
    using assms p(1) unfolding skipClean_def Let_def by (metis append_eq_conv_conj append_take_drop_id
      diff_diff_cancel length_append length_drop add_diff_cancel_right')
  have m: "mergedOf h (pre @ ?rest) = mergedOf h ?rest" if "h \<in> set (map acTxHash ?rest)" for h
  proof -
    have "filter (\<lambda>r. acTxHash r = h) pre = []" using disj that by (auto simp: filter_empty_conv)
    then show ?thesis by (simp add: mergedOf_def)
  qed
  have f: "firsts (map acTxHash pre @ map acTxHash ?rest) = firsts (map acTxHash pre) @ firsts (map acTxHash ?rest)"
    using disj by (auto simp: firsts_append filter_id_conv)
  have l: "length (firsts (map acTxHash pre)) = card (set (map acTxHash pre))" by (rule length_firsts)
  have "drop k (mergeAll (pre @ ?rest)) = mergeAll ?rest"
  proof (cases "?rest = []")
    case True
    then show ?thesis using p(3) l by (simp add: mergeAll_def)
  next
    case False
    then show ?thesis using p(2) l m by (simp add: mergeAll_def f drop_map)
  qed
  then show ?thesis using p(1) by simp
qed

text \<open>Sums over the merged rows are sums over the rows.\<close>

lemma sum_list_update_word:
  fixes f :: "'a \<Rightarrow> 'w::len word"
  shows "i < length xs \<Longrightarrow> sum_list (map f (xs[i := y])) = sum_list (map f xs) + (f y - f (xs ! i))"
  by (induction xs arbitrary: i) (auto simp: algebra_simps split: nat.splits)

lemma mergeCompactLoop_sums:
  assumes "\<And>h i. hashMap h = Some i \<Longrightarrow> i < length ms"
  shows "sum_list (map amAtomsCredit (mergeCompactLoop rs hashMap ms))
      = sum_list (map amAtomsCredit ms) + sum_list (map acValue (filter acIsFunding rs))
    \<and> sum_list (map amAtomsDebit (mergeCompactLoop rs hashMap ms))
      = sum_list (map amAtomsDebit ms) + sum_list (map acValue (filter (\<lambda>r. \<not> acIsFunding r) rs))
    \<and> sum_list (map amMergedCount (mergeCompactLoop rs hashMap ms))
      = sum_list (map amMergedCount ms) + of_nat (length rs)"
  using assms
proof (induction rs arbitrary: hashMap ms)
  case Nil
  then show ?case by simp
next
  case (Cons r rs)
  show ?case
  proof (cases "hashMap (acTxHash r)")
    case None
    have "(hashMap(acTxHash r \<mapsto> length ms)) h = Some i \<Longrightarrow> i < length (ms @ [startMergedCompact r])" for h i
      using Cons.prems[of h i] by (auto split: if_splits)
    from Cons.IH[OF this] show ?thesis using None
      by (simp add: startMergedCompact_def del: fun_upd_apply)
  next
    case (Some i)
    let ?ms = "ms[i := bumpMerged (acIsFunding r) (acValue r) (ms ! i)]"
    have i: "i < length ms" using Cons.prems[OF Some] .
    have "hashMap h = Some j \<Longrightarrow> j < length ?ms" for h j using Cons.prems by simp
    from Cons.IH[OF this] show ?thesis using Some i
      by (simp add: sum_list_update_word bumpMerged_def Let_def)
  qed
qed

text \<open>Counting without merging.\<close>

lemma countMergedCompactLoop_eq:
  "countMergedCompactLoop wrong rs seen n
   = n + int (card (set (map acTxHash (rightRows wrong rs)) - seen))"
proof (induction rs arbitrary: seen n)
  case Nil
  then show ?case by (simp add: rightRows_def)
next
  case (Cons r rs)
  let ?S = "set (map acTxHash (rightRows wrong rs))"
  have fin: "finite ?S" by simp
  show ?case
  proof (cases "wrong (acIsFunding r)")
    case True
    then show ?thesis using Cons by (simp add: rightRows_def)
  next
    case False
    then have S: "set (map acTxHash (rightRows wrong (r # rs))) = insert (acTxHash r) ?S"
      by (simp add: rightRows_def)
    show ?thesis
    proof (cases "acTxHash r \<in> seen")
      case True
      then show ?thesis using False Cons S by (simp add: insert_Diff_if del: set_map)
    next
      case new: False
      have "insert (acTxHash r) ?S - seen = insert (acTxHash r) (?S - insert (acTxHash r) seen)"
        using new by auto
      then show ?thesis using False new Cons S fin by (simp del: set_map)
    qed
  qed
qed

lemma length_mergeAll: "length (mergeAll rows) = card (set (map acTxHash rows))"
  by (simp add: mergeAll_def length_firsts)

text \<open>
  The functions on full rows do what those on compact rows do, once the hashes are parsed: a row
  whose hash does not parse is left out.
\<close>

definition asCompact :: "AddressRow \<Rightarrow> Hash \<Rightarrow> AddressRowCompact" where
  "asCompact r h =
     \<lparr>acAddress = arAddress r, acTxBlockTime = arTxBlockTime r, acMatchingTxHash = 0, acTxHash = h,
      acTxVinVoutIndex = arTxVinVoutIndex r, acTxType = arTxType r,
      acValidMainChain = arValidMainChain r, acIsFunding = arIsFunding r, acValue = arValue r\<rparr>"

definition parsedRows :: "(string \<Rightarrow> Hash option) \<Rightarrow> AddressRow list \<Rightarrow> AddressRowCompact list" where
  "parsedRows nh rows = List.map_filter (\<lambda>r. map_option (asCompact r) (nh (arTxHash r))) rows"

lemma parsedRows_simps [simp]:
  "parsedRows nh [] = []"
  "parsedRows nh (r # rs) = (case nh (arTxHash r) of None \<Rightarrow> parsedRows nh rs
     | Some h \<Rightarrow> asCompact r h # parsedRows nh rs)"
  by (auto simp: parsedRows_def map_filter_simps split: option.splits)

lemma startMerged_asCompact [simp]: "startMergedCompact (asCompact r h) = startMerged r h"
  by (simp add: startMergedCompact_def startMerged_def asCompact_def)

lemma asCompact_simps [simp]:
  "acTxHash (asCompact r h) = h" "acIsFunding (asCompact r h) = arIsFunding r"
  "acValue (asCompact r h) = arValue r"
  by (simp_all add: asCompact_def)

lemma mergeLoop_eq:
  "mergeLoop nh rs hashMap ms = (if \<exists>r\<in>set rs. arMergedCount r \<noteq> 0 then Inl MergedRowInInput
     else Inr (mergeCompactLoop (parsedRows nh rs) hashMap ms))"
  by (induction rs arbitrary: hashMap ms) (auto split: option.splits)

lemma mergeRangeLoop_eq:
  "mergeRangeLoop nh wrong N offset rs skipped seen hashMap ms =
     (if \<exists>r\<in>set rs. \<not> wrong (arIsFunding r) \<and> arMergedCount r \<noteq> 0 then Inl MergedRowInInput
      else Inr (mergeCompactRangeLoop wrong N offset (parsedRows nh rs) skipped seen hashMap ms))"
  by (induction rs arbitrary: skipped seen hashMap ms) (auto split: option.splits)

subsection \<open>Round trip\<close>

lemma compactLoop_uncompact:
  assumes "\<And>h. nh (hs h) = Some h" and "nh '''' = Some 0"
  shows "compactLoop nh (UncompactRows hs cs) out = Ret (Some (out @ cs))"
proof (induction cs arbitrary: out)
  case Nil
  then show ?case by (simp add: UncompactRows_def)
next
  case (Cons c cs)
  then show ?case using assms by (simp add: UncompactRows_def IsZeroHash_def)
qed

subsection \<open>Properties\<close>

text \<open>Rows and hash functions for the witnesses: a hash is printed as its 256 bits.\<close>

definition exCompact :: "Hash \<Rightarrow> bool \<Rightarrow> uint64 \<Rightarrow> AddressRowCompact" where
  "exCompact h funding v =
     \<lparr>acAddress = ''Ds'', acTxBlockTime = 0, acMatchingTxHash = 0, acTxHash = h, acTxVinVoutIndex = 0,
      acTxType = 0, acValidMainChain = True, acIsFunding = funding, acValue = v\<rparr>"

definition exRow :: "string \<Rightarrow> bool \<Rightarrow> string \<Rightarrow> AddressRow" where
  "exRow h funding spent =
     \<lparr>arAddress = ''Ds'', arValidMainChain = True, arMatchingTxHash = spent, arIsFunding = funding,
      arTxBlockTime = 0, arTxHash = h, arTxVinVoutIndex = 0, arValue = 7, arVinVoutDbID = 0,
      arMergedCount = 0, arTxType = 0, arAtomsCredit = 0, arAtomsDebit = 0\<rparr>"

definition bitString :: "Hash \<Rightarrow> string" where
  "bitString h = map (\<lambda>i. if bit h i then CHR ''1'' else CHR ''0'') [0..<256]"

definition bitHash :: "string \<Rightarrow> Hash option" where
  "bitHash s = (if s = [] then Some 0
     else Some (horner_sum of_bool 2 (map (\<lambda>c. c = CHR ''1'') s)))"

lemma bitHash_bitString: "bitHash (bitString h) = Some h"
proof -
  have "map (\<lambda>c. c = CHR ''1'') (bitString h) = map (bit h) [0..<256]"
    by (simp add: bitString_def)
  moreover have "horner_sum of_bool 2 (map (bit h) [0..<256]) = take_bit 256 h"
    by (rule horner_sum_bit_eq_take_bit)
  moreover have "take_bit 256 h = h" by (rule take_bit_word_eq_self) simp
  ultimately show ?thesis by (simp add: bitHash_def) (simp add: bitString_def)
qed

text \<open>The rows that a view of single rows shows.\<close>

fun viewRow :: "AddrTxnViewType \<Rightarrow> AddressRow \<Rightarrow> bool" where
  "viewRow AddrTxnAll r = True"
| "viewRow AddrTxnCredit r = arIsFunding r"
| "viewRow AddrTxnDebit r = (\<not> arIsFunding r)"
| "viewRow _ r = False"

text \<open>a page of a view of single rows. For a valid offset and count whose sum does not wrap,
  \<open>SliceAddressRows\<close> neither fails nor panics, and delivers exactly the \<open>N\<close> rows that follow the
  first \<open>offset\<close> rows of the view, in their order, for all, the crediting, and the debiting rows.\<close>

theorem SliceAddressRows_pages:
  assumes "0 \<le> N" and "0 \<le> offset" and "offset + N < 2 ^ 63"
    and "view \<in> {AddrTxnAll, AddrTxnCredit, AddrTxnDebit}"
  shows "\<exists>s. SliceAddressRows nh hs rows N offset view = Ret (Inr s)
    \<and> elems s = take (nat N) (drop (nat offset) (filter (viewRow view) (elems rows)))"
proof (cases "N = 0 \<or> elems rows = [] \<or> offset \<ge> int (length (elems rows))")
  case True
  moreover have "length (filter (viewRow view) (elems rows)) \<le> nat offset"
    if "int (length (elems rows)) \<le> offset"
    using length_filter_le[of "viewRow view" "elems rows"] that by linarith
  ultimately have "take (nat N) (drop (nat offset) (filter (viewRow view) (elems rows))) = []"
    by auto
  then show ?thesis using True assms(1,2) by (auto simp: SliceAddressRows_def)
next
  case False
  then obtain rs where rs: "rows = Some rs" by (cases rows) auto
  have g: "0 < N" using False assms(1) by simp
  note p = all.page_returns[OF g assms(2,3), of rs] credit.page_returns[OF g assms(2,3), of rs]
    debit.page_returns[OF g assms(2,3), of rs]
  have vr: "viewRow AddrTxnAll = (\<lambda>_. True)" "viewRow AddrTxnCredit = arIsFunding"
    "viewRow AddrTxnDebit = (\<lambda>r. \<not> arIsFunding r)" by auto
  have gr: "SliceAddressRows nh hs rows N offset view = (case view of
      AddrTxnAll \<Rightarrow> (case SliceAddressRowsAll rows N offset of Panic \<Rightarrow> Panic | Ret s \<Rightarrow> Ret (Inr s))
    | AddrTxnCredit \<Rightarrow> (case SliceAddressCreditRows rows N offset of Panic \<Rightarrow> Panic | Ret s \<Rightarrow> Ret (Inr s))
    | _ \<Rightarrow> (case SliceAddressDebitRows rows N offset of Panic \<Rightarrow> Panic | Ret s \<Rightarrow> Ret (Inr s)))"
    using False assms by (auto simp: SliceAddressRows_def Let_def)
  show ?thesis
    unfolding gr using p assms(4) rs by (auto simp: vr pageOf_def)
qed

theorem SliceAddressRows_pages_witness:
  "\<exists>s. SliceAddressRows bitHash bitString (Some [exRow ''a'' True '''', exRow ''b'' False ''x'', exRow ''c'' True ''y''])
      1 1 AddrTxnCredit = Ret (Inr s) \<and> elems s = [exRow ''c'' True ''y'']"
  using SliceAddressRows_pages[of 1 1 AddrTxnCredit bitHash bitString
      "Some [exRow ''a'' True '''', exRow ''b'' False ''x'', exRow ''c'' True ''y'']"]
  by (simp add: exRow_def)

text \<open>the page of unspent credits does not look at what is spent. While the offset is below the
  number of unspent credits, \<open>SliceAddressUnspentCreditRows\<close> delivers the credits, spent or not,
  that follow the first \<open>offset\<close> credits, and only the length of the page is bounded by the number
  of unspent ones.\<close>

theorem unspent_page_ignores_spending:
  assumes "0 < N" and "0 \<le> offset"
    and "num = int (length (filter (\<lambda>r. arIsFunding r \<and> arMatchingTxHash r = '''') rs))"
    and "offset < num"
  shows "\<exists>s. SliceAddressUnspentCreditRows (Some rs) N offset = Ret s
    \<and> elems s = take (nat (min N num)) (drop (nat offset) (filter arIsFunding rs))"
proof -
  let ?N = "if num < N then num else N"
  have "num \<le> int (length rs)" using assms(3) by simp
  then have g: "\<not> int (length rs) \<le> offset" "\<not> num \<le> offset" using assms(4) by linarith+
  have c: "fst (CountUnspentCreditRows rs) = num"
    by (simp add: CountUnspentCreditRows_def countRows_eq assms(3))
  have "delivered (SliceAddressUnspentCreditRows (Some rs) N offset)
      = delivered (makePage arIsFunding ?N offset rs)"
    unfolding SliceAddressUnspentCreditRows_def option.case Let_def c using g by (simp only: if_False)
  also have "\<dots> = Some (pageOf arIsFunding rs ?N offset)"
    using assms by (intro makePage_delivered) auto
  also have "?N = min N num" by auto
  finally show ?thesis unfolding pageOf_def by (rule deliveredD)
qed

theorem unspent_page_ignores_spending_witness:
  "\<exists>s. SliceAddressUnspentCreditRows (Some [exRow ''a'' True ''spent'', exRow ''b'' True '''']) 5 0 = Ret s
    \<and> elems s = [exRow ''a'' True ''spent'']"
  using unspent_page_ignores_spending[of 5 0 1 "[exRow ''a'' True ''spent'', exRow ''b'' True '''']"]
  by (simp add: exRow_def)

text \<open>C14: \<open>MergeRowsCompact\<close> computes one merged row for each distinct transaction hash, in the order
  in which the hashes first occur, with the credits, the debits and the number of the rows of that
  hash added up; so no hash is repeated, and the credits, debits and counts of the merged rows
  add up to those of all the rows, modulo the width of the fields.\<close>

theorem MergeRowsCompact_refines:
  "MergeRowsCompact rows = map (\<lambda>h. mergedOf h rows) (firsts (map acTxHash rows))
   \<and> distinct (map amTxHash (MergeRowsCompact rows))
   \<and> set (map amTxHash (MergeRowsCompact rows)) = set (map acTxHash rows)
   \<and> sum_list (map amAtomsCredit (MergeRowsCompact rows)) = sum_list (map acValue (filter acIsFunding rows))
   \<and> sum_list (map amAtomsDebit (MergeRowsCompact rows)) = sum_list (map acValue (filter (\<lambda>r. \<not> acIsFunding r) rows))
   \<and> sum_list (map amMergedCount (MergeRowsCompact rows)) = of_nat (length rows)"
proof -
  have h: "map amTxHash (mergeAll rows) = firsts (map acTxHash rows)"
    by (simp add: mergeAll_def mergedOf_def Let_def comp_def)
  have "distinct (map amTxHash (mergeAll rows))" unfolding h by (rule distinct_firsts)
  moreover have "set (map amTxHash (mergeAll rows)) = set (map acTxHash rows)" unfolding h by (rule set_firsts)
  ultimately show ?thesis
    using mergeCompactLoop_sums[of Map.empty "[]" rows]
    by (simp add: MergeRowsCompact_eq flip: MergeRowsCompact_def) (simp add: mergeAll_def)
qed

text \<open>a page of a merged view. When no transaction that is skipped has a further row among those
  that are left, \<open>MergeRowsCompactRange\<close> delivers the \<open>N\<close> merged rows that follow the first
  \<open>offset\<close> rows of the full merged result for the rows of the view's direction.\<close>

theorem MergeRowsCompactRange_pages:
  assumes "0 < N" and "0 \<le> offset" and "wrongDirection view = Some wrong"
    and "skipClean (nat offset) (rightRows wrong rows)"
  shows "MergeRowsCompactRange rows N offset view
    = Some (take (nat N) (drop (nat offset) (MergeRowsCompact (rightRows wrong rows))))"
  by (simp add: MergeRowsCompactRange_eq[OF assms(1-3)] mergeAll_skip[OF assms(4)] MergeRowsCompact_eq)

theorem MergeRowsCompactRange_pages_witness:
  "MergeRowsCompactRange [exCompact 1 True 5, exCompact 2 True 3, exCompact 2 False 1, exCompact 3 True 9] 1 1 AddrMergedTxn
   = Some [\<lparr>amAddress = ''Ds'', amTxBlockTime = 0, amTxHash = 2, amAtomsCredit = 3, amAtomsDebit = 1,
            amMergedCount = 2, amTxType = 0, amValidMainChain = True\<rparr>]"
proof -
  let ?rows = "[exCompact 1 True 5, exCompact 2 True 3, exCompact 2 False 1, exCompact 3 True 9]"
  have "skipClean (nat 1) (rightRows (\<lambda>_. False) ?rows)"
    by (simp add: skipClean_def rightRows_def exCompact_def numeral_eq_Suc)
  from MergeRowsCompactRange_pages[OF _ _ _ this, of 1 AddrMergedTxn]
  show ?thesis
    by (simp add: rightRows_def MergeRowsCompact_eq mergeAll_def mergedOf_def exCompact_def)
qed

text \<open>where that condition fails, pages overlap: if the first transaction has a second row, the
  page after the first merged row starts with that transaction again, as a partial merged row.\<close>

theorem merged_pages_overlap:
  assumes "0 < N" and "wrongDirection view = Some wrong" and "acTxHash r2 = acTxHash r1"
    and "\<not> wrong (acIsFunding r1)" and "\<not> wrong (acIsFunding r2)"
  shows "\<exists>m1 ms1 m2 ms2. MergeRowsCompactRange (r1 # r2 # rows) 1 0 view = Some (m1 # ms1)
    \<and> MergeRowsCompactRange (r1 # r2 # rows) N 1 view = Some (m2 # ms2)
    \<and> amTxHash m1 = acTxHash r1 \<and> amTxHash m2 = acTxHash r1"
proof -
  have n: "nat N = Suc (nat N - 1)" using assms(1) by simp
  have "\<exists>m ms. take (Suc n) (mergeAll (r # rs)) = m # ms \<and> amTxHash m = acTxHash r" for n r rs
    by (simp add: mergeAll_def mergedOf_def Let_def)
  from this[of 0 r1 "r2 # rightRows wrong rows"] this[of "nat N - 1" r2 "rightRows wrong rows"]
  show ?thesis
    using assms MergeRowsCompactRange_eq[of 1 0 view wrong "r1 # r2 # rows"]
      MergeRowsCompactRange_eq[of N 1 view wrong "r1 # r2 # rows"] n
    by (simp add: rightRows_def) metis
qed

theorem merged_pages_overlap_witness:
  "\<exists>m1 ms1 m2 ms2. MergeRowsCompactRange [exCompact 1 True 5, exCompact 1 False 2] 1 0 AddrMergedTxn = Some (m1 # ms1)
    \<and> MergeRowsCompactRange [exCompact 1 True 5, exCompact 1 False 2] 1 1 AddrMergedTxn = Some (m2 # ms2)
    \<and> amTxHash m1 = 1 \<and> amTxHash m2 = 1"
  using merged_pages_overlap[of 1 AddrMergedTxn "\<lambda>_. False" "exCompact 1 False 2" "exCompact 1 True 5" "[]"]
  by (simp add: exCompact_def)

text \<open>merging full rows is merging the compact rows they parse to: \<open>MergeRows\<close> fails exactly when
  some row is merged already, and \<open>MergeRowsRange\<close> when such a row has the view's direction, or the
  range or the view is not valid; otherwise they agree with the functions on compact rows, and
  rows whose hash does not parse are left out.\<close>

theorem MergeRows_parsed:
  "MergeRows nh rows =
     (if list_ex (\<lambda>r. arMergedCount r \<noteq> 0) rows then Inl MergedRowInInput
      else Inr (MergeRowsCompact (parsedRows nh rows)))
   \<and> MergeRowsRange nh rows N offset view =
     (if offset < 0 \<or> N < 0 then Inl (InvalidRange N offset)
      else case wrongDirection view of
        None \<Rightarrow> Inl (UnrecognizedView view)
      | Some wrong \<Rightarrow>
          if N \<noteq> 0 \<and> list_ex (\<lambda>r. \<not> wrong (arIsFunding r) \<and> arMergedCount r \<noteq> 0) rows then Inl MergedRowInInput
          else Inr (the (MergeRowsCompactRange (parsedRows nh rows) N offset view)))"
  by (auto simp: MergeRows_def mergeLoop_eq MergeRowsCompact_def MergeRowsRange_def mergeRangeLoop_eq
      MergeRowsCompactRange_def list_ex_iff split: option.splits)

text \<open>the counting functions count what merging would return: \<open>CountMergedRowsCompact\<close> is the
  number of rows of the merged result for the rows of the view's direction, and both counting and
  merging refuse a view that is not merged.\<close>

theorem CountMergedRowsCompact_length:
  "CountMergedRowsCompact rows view =
     (case wrongDirection view of
        None \<Rightarrow> Inl (NonMergedView view)
      | Some wrong \<Rightarrow> Inr (int (length (MergeRowsCompact (rightRows wrong rows)))))"
  by (auto simp: CountMergedRowsCompact_def countMergedCompactLoop_eq MergeRowsCompact_eq length_mergeAll
      split: option.splits)

text \<open>compacting rows undoes uncompacting them, for a hash printer whose output parses back and a
  parser that takes the empty string for the zero hash: no compact row is lost or changed, and
  nothing panics.\<close>

theorem CompactRows_UncompactRows:
  assumes "\<And>h. nh (hs h) = Some h" and "nh '''' = Some 0"
  shows "CompactRows nh (UncompactRows hs cs) = Ret (Some cs)"
  using compactLoop_uncompact[OF assms, where out = "[]"] by (simp add: CompactRows_def)

theorem CompactRows_UncompactRows_witness:
  "CompactRows bitHash (UncompactRows bitString [exCompact 5 True 2]) = Ret (Some [exCompact 5 True 2])"
  by (rule CompactRows_UncompactRows) (simp_all add: bitHash_bitString, simp add: bitHash_def)

end
