(* ===== verification/AddressCache.thy ===== *)
theory AddressCache
  imports AddressRows "HOL-Library.Signed_Division"
begin

text \<open>
  The address cache of \<open>db/cache/addresscache.go\<close>: the lock that lets one caller at a time update
  an address, the paging of compact and merged rows, the cache item of an address, and the cache
  itself with its capacity limits and its eviction.

  The Go map from addresses to item pointers is an association list with distinct keys. Go visits
  the keys of a map in an unspecified order: the parameter \<open>ord\<close> picks it, from the list of the
  keys, at each visit. Mutexes only serialize the operations and have no counterpart; the functions
  are the sequential operations. An item that was evicted while a method still holds a pointer to
  it is no longer reachable from the cache, and writes to it are not modelled. \<open>float64\<close> fields have
  the type parameter \<open>'f\<close>; log messages and the periodic \<open>Reporter\<close> are left out.
\<close>

subsection \<open>The cache lock\<close>

text \<open>
  A lock is held while its channel is in the map. Channels are numbered in the order of their
  creation; \<open>clClosed\<close> holds the closed ones.
\<close>

record CacheLock =
  clAddrs :: "string \<rightharpoonup> nat"
  clNext :: nat
  clClosed :: "nat set"

definition NewCacheLock :: CacheLock where
  "NewCacheLock = \<lparr>clAddrs = Map.empty, clNext = 0, clClosed = {}\<rparr>"

definition clDone :: "string \<Rightarrow> CacheLock \<Rightarrow> CacheLock" where
  "clDone addr cl = cl\<lparr>clAddrs := (clAddrs cl)(addr := None)\<rparr>"

text \<open>\<open>hold\<close> returns the new channel; the function it returns is \<open>release\<close> on that channel.\<close>

definition clHold :: "string \<Rightarrow> CacheLock \<Rightarrow> nat \<times> CacheLock" where
  "clHold addr cl =
     (clNext cl, cl\<lparr>clAddrs := (clAddrs cl)(addr \<mapsto> clNext cl), clNext := clNext cl + 1\<rparr>)"

text \<open>Closing a closed channel panics; the lock is deleted before.\<close>

definition clRelease :: "string \<Rightarrow> nat \<Rightarrow> CacheLock \<Rightarrow> unit go \<times> CacheLock" where
  "clRelease addr ch cl =
     (let cl' = clDone addr cl in
      if ch \<in> clClosed cl' then (Panic, cl')
      else (Ret (), cl'\<lparr>clClosed := insert ch (clClosed cl')\<rparr>))"

text \<open>
  The results \<open>busy\<close>, \<open>wait\<close> and \<open>done\<close>: \<open>done\<close> is the channel that the returned function releases,
  or \<open>None\<close> for the function that does nothing.
\<close>

definition TryLock :: "string \<Rightarrow> CacheLock \<Rightarrow> (bool \<times> nat option \<times> nat option) \<times> CacheLock" where
  "TryLock addr cl =
     (case clAddrs cl addr of
        Some ch \<Rightarrow> ((True, Some ch, None), cl)
      | None \<Rightarrow> (case clHold addr cl of (ch, cl') \<Rightarrow> ((False, None, Some ch), cl')))"

subsection \<open>Paging compact and merged rows\<close>

definition CountCreditDebitRowsCompact :: "AddressRowCompact list \<Rightarrow> int \<times> int" where
  "CountCreditDebitRowsCompact rows = countRows acIsFunding rows 0 0"

definition CountUnspentCreditRowsCompact :: "AddressRowCompact list \<Rightarrow> int" where
  "CountUnspentCreditRowsCompact rows =
     fst (countRows (\<lambda>r. acIsFunding r \<and> IsZeroHash (acMatchingTxHash r)) rows 0 0)"

definition CountCreditDebitRowsMerged :: "AddressRowMerged list \<Rightarrow> int \<times> int" where
  "CountCreditDebitRowsMerged rows = countRows amIsFunding rows 0 0"

definition addressRows :: "AddressRowCompact list option \<Rightarrow> int \<Rightarrow> int \<Rightarrow> AddressRowCompact list option go" where
  "addressRows rows N offset = sliceAll rows N offset"

definition addressRowsMerged :: "AddressRowMerged list option \<Rightarrow> int \<Rightarrow> int \<Rightarrow> AddressRowMerged list option go" where
  "addressRowsMerged rows N offset = sliceAll rows N offset"

definition creditAddressRows :: "AddressRowCompact list option \<Rightarrow> int \<Rightarrow> int \<Rightarrow> AddressRowCompact list option go" where
  "creditAddressRows rows N offset =
     (case rows of
        None \<Rightarrow> Ret None
      | Some rs \<Rightarrow>
          if offset \<ge> int (length rs) then Ret (Some [])
          else
            let numCreditRows = fst (CountCreditDebitRowsCompact rs);
                N' = (if numCreditRows < N then numCreditRows else N)
            in if offset \<ge> numCreditRows then Ret None
               else makePage acIsFunding N' offset rs)"

definition creditAddressRowsMerged :: "AddressRowMerged list option \<Rightarrow> int \<Rightarrow> int \<Rightarrow> AddressRowMerged list option go" where
  "creditAddressRowsMerged rows N offset =
     (case rows of
        None \<Rightarrow> Ret None
      | Some rs \<Rightarrow>
          if offset \<ge> int (length rs) then Ret (Some [])
          else
            let numCreditRows = fst (CountCreditDebitRowsMerged rs);
                N' = (if numCreditRows < N then numCreditRows else N)
            in if offset \<ge> numCreditRows then Ret None
               else makePage amIsFunding N' offset rs)"

text \<open>The debit functions do not compare the offset with the number of debits.\<close>

definition debitAddressRows :: "AddressRowCompact list option \<Rightarrow> int \<Rightarrow> int \<Rightarrow> AddressRowCompact list option go" where
  "debitAddressRows rows N offset =
     (case rows of
        None \<Rightarrow> Ret None
      | Some rs \<Rightarrow>
          if offset \<ge> int (length rs) then Ret (Some [])
          else
            let numDebitRows = snd (CountCreditDebitRowsCompact rs);
                N' = (if numDebitRows < N then numDebitRows else N)
            in makePage (\<lambda>r. \<not> acIsFunding r) N' offset rs)"

definition debitAddressRowsMerged :: "AddressRowMerged list option \<Rightarrow> int \<Rightarrow> int \<Rightarrow> AddressRowMerged list option go" where
  "debitAddressRowsMerged rows N offset =
     (case rows of
        None \<Rightarrow> Ret None
      | Some rs \<Rightarrow>
          if offset \<ge> int (length rs) then Ret (Some [])
          else
            let numDebitRows = snd (CountCreditDebitRowsMerged rs);
                N' = (if numDebitRows < N then numDebitRows else N)
            in makePage (\<lambda>r. \<not> amIsFunding r) N' offset rs)"

definition unspentCreditAddressRows :: "AddressRowCompact list option \<Rightarrow> int \<Rightarrow> int \<Rightarrow> AddressRowCompact list option go" where
  "unspentCreditAddressRows rows N offset =
     (case rows of
        None \<Rightarrow> Ret None
      | Some rs \<Rightarrow>
          if offset \<ge> int (length rs) then Ret (Some [])
          else
            let numUnspentCreditRows = CountUnspentCreditRowsCompact rs;
                N' = (if numUnspentCreditRows < N then numUnspentCreditRows else N)
            in if offset \<ge> numUnspentCreditRows then Ret None
               else makePage (\<lambda>r. acIsFunding r \<and> IsZeroHash (acMatchingTxHash r)) N' offset rs)"

text \<open>
  \<open>CreditAddressRows\<close> and \<open>DebitAddressRows\<close> take any value, and dispatch on its type: the two
  slice types, or another one, whose result is the nil interface.
\<close>

datatype anyRows =
    CompactRowsValue "AddressRowCompact list option"
  | MergedRowsValue "AddressRowMerged list option"
  | OtherValue

definition mapGo :: "('a \<Rightarrow> 'b) \<Rightarrow> 'a go \<Rightarrow> 'b go" where
  "mapGo f g = (case g of Panic \<Rightarrow> Panic | Ret x \<Rightarrow> Ret (f x))"

fun CreditAddressRows :: "anyRows \<Rightarrow> int \<Rightarrow> int \<Rightarrow> anyRows option go" where
  "CreditAddressRows (CompactRowsValue r) N offset = mapGo (Some \<circ> CompactRowsValue) (creditAddressRows r N offset)"
| "CreditAddressRows (MergedRowsValue r) N offset = mapGo (Some \<circ> MergedRowsValue) (creditAddressRowsMerged r N offset)"
| "CreditAddressRows OtherValue N offset = Ret None"

fun DebitAddressRows :: "anyRows \<Rightarrow> int \<Rightarrow> int \<Rightarrow> anyRows option go" where
  "DebitAddressRows (CompactRowsValue r) N offset = mapGo (Some \<circ> CompactRowsValue) (debitAddressRows r N offset)"
| "DebitAddressRows (MergedRowsValue r) N offset = mapGo (Some \<circ> MergedRowsValue) (debitAddressRowsMerged r N offset)"
| "DebitAddressRows OtherValue N offset = Ret None"

definition AllCreditAddressRows :: "AddressRow list \<Rightarrow> AddressRow list" where
  "AllCreditAddressRows rows =
     (if fst (CountCreditDebitRows rows) = 0 then [] else [r \<leftarrow> rows. arIsFunding r])"

text \<open>
  The slice is made with a length, not only a capacity: its nil pointers (\<open>None\<close>) stay in front of
  the appended rows.
\<close>

definition AllDebitAddressRows :: "AddressRow list \<Rightarrow> AddressRow option list" where
  "AllDebitAddressRows rows =
     (let numDebitRows = snd (CountCreditDebitRows rows);
          out = replicate (nat numDebitRows) None
      in if numDebitRows = 0 then out else out @ [Some r. r \<leftarrow> rows, \<not> arIsFunding r])"

subsection \<open>Cached data\<close>

record 'f AddressBalance =
  abAddress :: string
  abNumSpent :: int
  abNumUnspent :: int
  abTotalSpent :: int
  abTotalUnspent :: int
  abFromStake :: 'f
  abToStake :: 'f

record AddressTxnOutput =
  aoAddress :: string
  aoPkScript :: string
  aoTxHash :: Hash
  aoVout :: "32 word"
  aoHeight :: int
  aoBlockTime :: int
  aoAtoms :: int

record 'f ChartsData =
  cdDifficulty :: "'f list"
  cdTime :: "int list"
  cdSize :: "uint64 list"
  cdChainSize :: "uint64 list"
  cdCount :: "uint64 list"
  cdSizeF :: "'f list"
  cdValueF :: "'f list"
  cdUnspent :: "uint64 list"
  cdRevoked :: "uint64 list"
  cdHeight :: "uint64 list"
  cdPooled :: "uint64 list"
  cdSolo :: "uint64 list"
  cdSentRtx :: "uint64 list"
  cdReceivedRtx :: "uint64 list"
  cdTickets :: "uint64 list"
  cdVotes :: "uint64 list"
  cdRevokeTx :: "uint64 list"
  cdAmount :: "'f list"
  cdReceived :: "'f list"
  cdSent :: "'f list"
  cdNet :: "'f list"
  cdChainWork :: "uint64 list"
  cdNetHash :: "uint64 list"

text \<open>The zero value \<open>dbtypes.ChartsData{}\<close>.\<close>

definition emptyChartsData :: "'f ChartsData" where
  "emptyChartsData =
     \<lparr>cdDifficulty = [], cdTime = [], cdSize = [], cdChainSize = [], cdCount = [], cdSizeF = [],
      cdValueF = [], cdUnspent = [], cdRevoked = [], cdHeight = [], cdPooled = [], cdSolo = [],
      cdSentRtx = [], cdReceivedRtx = [], cdTickets = [], cdVotes = [], cdRevokeTx = [],
      cdAmount = [], cdReceived = [], cdSent = [], cdNet = [], cdChainWork = [], cdNetHash = []\<rparr>"

text \<open>The two arrays of \<open>NumIntervals\<close> pointers.\<close>

record 'f TxHistory =
  thTypeByInterval :: "'f ChartsData option list"
  thAmtFlowByInterval :: "'f ChartsData option list"

definition emptyTxHistory :: "'f TxHistory" where
  "emptyTxHistory = \<lparr>thTypeByInterval = replicate NumIntervals None,
     thAmtFlowByInterval = replicate NumIntervals None\<rparr>"

definition thClear :: "'f TxHistory \<Rightarrow> 'f TxHistory" where
  "thClear th = fold (\<lambda>i th. th\<lparr>thTypeByInterval := (thTypeByInterval th)[i := None],
     thAmtFlowByInterval := (thAmtFlowByInterval th)[i := None]\<rparr>) [0..<NumIntervals] th"

record BlockID =
  biHash :: Hash
  biHeight :: int

definition NewBlockID :: "Hash \<Rightarrow> int \<Rightarrow> BlockID" where
  "NewBlockID hash height = \<lparr>biHash = hash, biHeight = height\<rparr>"

record 'f AddressCacheItem =
  ciBalance :: "'f AddressBalance option"
  ciRows :: "AddressRowCompact list option"
  ciUtxos :: "AddressTxnOutput list option"
  ciHistory :: "'f TxHistory"
  ciHeight :: int
  ciHash :: Hash

text \<open>The item literal that sets only the block, as the storing functions start from.\<close>

definition freshItem :: "BlockID \<Rightarrow> 'f AddressCacheItem" where
  "freshItem block = \<lparr>ciBalance = None, ciRows = None, ciUtxos = None, ciHistory = emptyTxHistory,
     ciHeight = biHeight block, ciHash = biHash block\<rparr>"

subsection \<open>Operations of an item\<close>

definition ciBlockID :: "'f AddressCacheItem \<Rightarrow> BlockID" where
  "ciBlockID d = \<lparr>biHash = ciHash d, biHeight = ciHeight d\<rparr>"

definition BlockHash :: "'f AddressCacheItem \<Rightarrow> Hash" where
  "BlockHash d = ciHash d"

definition BlockHeight :: "'f AddressCacheItem \<Rightarrow> int" where
  "BlockHeight d = ciHeight d"

definition itemBalance :: "'f AddressCacheItem \<Rightarrow> 'f AddressBalance option \<times> BlockID option" where
  "itemBalance d = (case ciBalance d of None \<Rightarrow> (None, None) | Some b \<Rightarrow> (Some b, Some (ciBlockID d)))"

definition itemUTXOs :: "'f AddressCacheItem \<Rightarrow> AddressTxnOutput list option \<times> BlockID option" where
  "itemUTXOs d = (case ciUtxos d of None \<Rightarrow> (None, None) | Some u \<Rightarrow> (Some u, Some (ciBlockID d)))"

definition itemHistoryChart :: "'f AddressCacheItem \<Rightarrow> HistoryChart \<Rightarrow> TimeBasedGrouping
    \<Rightarrow> 'f ChartsData option \<times> BlockID option" where
  "itemHistoryChart d addrChart chartGrouping =
     (if groupingIdx chartGrouping \<ge> NumIntervals then (None, None)
      else
        let cd = (case addrChart of
             TxsType \<Rightarrow> thTypeByInterval (ciHistory d) ! groupingIdx chartGrouping
           | AmountFlow \<Rightarrow> thAmtFlowByInterval (ciHistory d) ! groupingIdx chartGrouping
           | ChartUnknown \<Rightarrow> None)
        in case cd of None \<Rightarrow> (None, None) | Some c \<Rightarrow> (Some c, Some (ciBlockID d)))"

definition itemRows :: "'f AddressCacheItem \<Rightarrow> AddressRowCompact list option \<times> BlockID option" where
  "itemRows d = (case ciRows d of None \<Rightarrow> (None, None) | Some r \<Rightarrow> (Some r, Some (ciBlockID d)))"

definition itemNumRows :: "'f AddressCacheItem \<Rightarrow> int \<times> BlockID option" where
  "itemNumRows d =
     (case ciRows d of None \<Rightarrow> (- 1, None) | Some r \<Rightarrow> (int (length r), Some (ciBlockID d)))"

datatype cacheError =
    BadOffsetOrN int int
  | UninitializedItem
  | InvalidTxnView AddrTxnViewType
  | WrongRowType

text \<open>The receiver may be a nil pointer.\<close>

definition itemTransactions :: "'f AddressCacheItem option \<Rightarrow> int \<Rightarrow> int \<Rightarrow> AddrTxnViewType
    \<Rightarrow> (cacheError + anyRows \<times> BlockID option) go" where
  "itemTransactions dp N offset txnView =
     (if offset < 0 \<or> N < 0 then Ret (Inl (BadOffsetOrN offset N))
      else case dp of
        None \<Rightarrow> Ret (Inl UninitializedItem)
      | Some d \<Rightarrow>
         (case viewIsMerged txnView of
            None \<Rightarrow> Ret (Inl (InvalidTxnView txnView))
          | Some merged \<Rightarrow>
             (case ciRows d of
                None \<Rightarrow> Ret (Inr (if merged then MergedRowsValue None else CompactRowsValue None, None))
              | Some rs \<Rightarrow>
                  let bid = Some (ciBlockID d); numRows = int (length rs) in
                  if N = 0 \<or> numRows = 0 \<or> offset \<ge> numRows
                  then Ret (Inr (if merged then MergedRowsValue (Some []) else CompactRowsValue (Some []), bid))
                  else case txnView of
                    AddrTxnAll \<Rightarrow> mapGo (\<lambda>s. Inr (CompactRowsValue s, bid)) (addressRows (Some rs) N offset)
                  | AddrTxnCredit \<Rightarrow> mapGo (\<lambda>s. Inr (CompactRowsValue s, bid)) (creditAddressRows (Some rs) N offset)
                  | AddrTxnDebit \<Rightarrow> mapGo (\<lambda>s. Inr (CompactRowsValue s, bid)) (debitAddressRows (Some rs) N offset)
                  | AddrUnspentTxn \<Rightarrow> mapGo (\<lambda>s. Inr (CompactRowsValue s, bid)) (unspentCreditAddressRows (Some rs) N offset)
                  | AddrTxnUnknown \<Rightarrow> Ret (Inl (InvalidTxnView txnView))
                  | _ \<Rightarrow> Ret (Inr (MergedRowsValue (MergeRowsCompactRange rs N offset txnView), bid)))))"

definition setBlock :: "BlockID \<Rightarrow> 'f AddressCacheItem \<Rightarrow> 'f AddressCacheItem" where
  "setBlock block d =
     (if biHash block = ciHash d then d
      else d\<lparr>ciHash := biHash block, ciHeight := biHeight block, ciUtxos := None,
             ciHistory := thClear (ciHistory d), ciBalance := None, ciRows := None\<rparr>)"

definition SetRows :: "BlockID \<Rightarrow> AddressRowCompact list option \<Rightarrow> 'f AddressCacheItem \<Rightarrow> 'f AddressCacheItem" where
  "SetRows block rows d = (setBlock block d)\<lparr>ciRows := rows\<rparr>"

definition SetUTXOs :: "BlockID \<Rightarrow> AddressTxnOutput list option \<Rightarrow> 'f AddressCacheItem \<Rightarrow> 'f AddressCacheItem" where
  "SetUTXOs block utxos d = (setBlock block d)\<lparr>ciUtxos := utxos\<rparr>"

definition SetBalance :: "BlockID \<Rightarrow> 'f AddressBalance option \<Rightarrow> 'f AddressCacheItem \<Rightarrow> 'f AddressCacheItem" where
  "SetBalance block balance d = (setBlock block d)\<lparr>ciBalance := balance\<rparr>"

subsection \<open>Metrics\<close>

record cacheCounts =
  hits :: int
  misses :: int

record cacheMetrics =
  rowMetrics :: cacheCounts
  utxoMetrics :: cacheCounts
  balanceMetrics :: cacheCounts
  historyMetrics :: cacheCounts

definition rowStats :: "cacheMetrics \<Rightarrow> int \<times> int" where
  "rowStats cm = (hits (rowMetrics cm), misses (rowMetrics cm))"

definition balanceStats :: "cacheMetrics \<Rightarrow> int \<times> int" where
  "balanceStats cm = (hits (balanceMetrics cm), misses (balanceMetrics cm))"

definition utxoStats :: "cacheMetrics \<Rightarrow> int \<times> int" where
  "utxoStats cm = (hits (utxoMetrics cm), misses (utxoMetrics cm))"

definition historyStats :: "cacheMetrics \<Rightarrow> int \<times> int" where
  "historyStats cm = (hits (historyMetrics cm), misses (historyMetrics cm))"

definition rowHit :: "cacheMetrics \<Rightarrow> cacheMetrics" where
  "rowHit cm = cm\<lparr>rowMetrics := (rowMetrics cm)\<lparr>hits := hits (rowMetrics cm) + 1\<rparr>\<rparr>"

definition rowMiss :: "cacheMetrics \<Rightarrow> cacheMetrics" where
  "rowMiss cm = cm\<lparr>rowMetrics := (rowMetrics cm)\<lparr>misses := misses (rowMetrics cm) + 1\<rparr>\<rparr>"

definition utxoHit :: "cacheMetrics \<Rightarrow> cacheMetrics" where
  "utxoHit cm = cm\<lparr>utxoMetrics := (utxoMetrics cm)\<lparr>hits := hits (utxoMetrics cm) + 1\<rparr>\<rparr>"

definition utxoMiss :: "cacheMetrics \<Rightarrow> cacheMetrics" where
  "utxoMiss cm = cm\<lparr>utxoMetrics := (utxoMetrics cm)\<lparr>misses := misses (utxoMetrics cm) + 1\<rparr>\<rparr>"

definition balanceHit :: "cacheMetrics \<Rightarrow> cacheMetrics" where
  "balanceHit cm = cm\<lparr>balanceMetrics := (balanceMetrics cm)\<lparr>hits := hits (balanceMetrics cm) + 1\<rparr>\<rparr>"

definition balanceMiss :: "cacheMetrics \<Rightarrow> cacheMetrics" where
  "balanceMiss cm = cm\<lparr>balanceMetrics := (balanceMetrics cm)\<lparr>misses := misses (balanceMetrics cm) + 1\<rparr>\<rparr>"

definition historyHit :: "cacheMetrics \<Rightarrow> cacheMetrics" where
  "historyHit cm = cm\<lparr>historyMetrics := (historyMetrics cm)\<lparr>hits := hits (historyMetrics cm) + 1\<rparr>\<rparr>"

definition historyMiss :: "cacheMetrics \<Rightarrow> cacheMetrics" where
  "historyMiss cm = cm\<lparr>historyMetrics := (historyMetrics cm)\<lparr>misses := misses (historyMetrics cm) + 1\<rparr>\<rparr>"

subsection \<open>The cache\<close>

record 'f AddressCache =
  acItems :: "(string \<times> 'f AddressCacheItem) list"
  acCap :: int
  acCapAddr :: int
  acMaxUTXOsPerAddr :: int
  acMetrics :: cacheMetrics
  acProject :: string

definition NewAddressCache :: "int \<Rightarrow> int \<Rightarrow> int \<Rightarrow> 'f AddressCache" where
  "NewAddressCache rowCapacity addressCapacity utxoCapacityBytes =
     (let maxUTXOsPerAddr = (if addressCapacity > 0
            then utxoCapacityBytes sdiv 180 sdiv addressCapacity else 0);
          zero = \<lparr>hits = 0, misses = 0\<rparr>
      in \<lparr>acItems = [], acCap = rowCapacity, acCapAddr = addressCapacity,
          acMaxUTXOsPerAddr = maxUTXOsPerAddr,
          acMetrics = \<lparr>rowMetrics = zero, utxoMetrics = zero, balanceMetrics = zero, historyMetrics = zero\<rparr>,
          acProject = ''''\<rparr>)"

definition BalanceStats :: "'f AddressCache \<Rightarrow> int \<times> int" where
  "BalanceStats ac = balanceStats (acMetrics ac)"

definition RowStats :: "'f AddressCache \<Rightarrow> int \<times> int" where
  "RowStats ac = rowStats (acMetrics ac)"

definition UtxoStats :: "'f AddressCache \<Rightarrow> int \<times> int" where
  "UtxoStats ac = utxoStats (acMetrics ac)"

definition HistoryStats :: "'f AddressCache \<Rightarrow> int \<times> int" where
  "HistoryStats ac = historyStats (acMetrics ac)"

definition addressCacheItem :: "string \<Rightarrow> 'f AddressCache \<Rightarrow> 'f AddressCacheItem option" where
  "addressCacheItem addr ac = map_of (acItems ac) addr"

definition count :: "(cacheMetrics \<Rightarrow> cacheMetrics) \<Rightarrow> 'f AddressCache \<Rightarrow> 'f AddressCache" where
  "count f ac = ac\<lparr>acMetrics := f (acMetrics ac)\<rparr>"

definition ClearAll :: "'f AddressCache \<Rightarrow> int \<times> 'f AddressCache" where
  "ClearAll ac = (int (length (acItems ac)), ac\<lparr>acItems := []\<rparr>)"

definition Clear :: "string list option \<Rightarrow> 'f AddressCache \<Rightarrow> int \<times> 'f AddressCache" where
  "Clear addrs ac =
     (case addrs of
        None \<Rightarrow> ClearAll ac
      | Some as \<Rightarrow>
          if as = [] then (0, ac)
          else fold (\<lambda>x (n, ac). (n + 1, ac\<lparr>acItems := AList.delete x (acItems ac)\<rparr>)) as (0, ac))"

definition Balance :: "string \<Rightarrow> 'f AddressCache \<Rightarrow> ('f AddressBalance option \<times> BlockID option) \<times> 'f AddressCache" where
  "Balance addr ac =
     (case addressCacheItem addr ac of
        None \<Rightarrow> ((None, None), count balanceMiss ac)
      | Some aci \<Rightarrow> (itemBalance aci, count balanceHit ac))"

definition UTXOs :: "string \<Rightarrow> 'f AddressCache \<Rightarrow> (AddressTxnOutput list option \<times> BlockID option) \<times> 'f AddressCache" where
  "UTXOs addr ac =
     (case addressCacheItem addr ac of
        None \<Rightarrow> ((None, None), count utxoMiss ac)
      | Some aci \<Rightarrow> (itemUTXOs aci, count utxoHit ac))"

definition cacheHistoryChart :: "string \<Rightarrow> HistoryChart \<Rightarrow> TimeBasedGrouping \<Rightarrow> 'f AddressCache
    \<Rightarrow> ('f ChartsData option \<times> BlockID option) \<times> 'f AddressCache" where
  "cacheHistoryChart addr addrChart chartGrouping ac =
     (case addressCacheItem addr ac of
        None \<Rightarrow> ((None, None), count historyMiss ac)
      | Some aci \<Rightarrow>
         (case itemHistoryChart aci addrChart chartGrouping of
            (Some cd, Some bid) \<Rightarrow> ((Some cd, Some bid), count historyHit ac)
          | _ \<Rightarrow> ((None, None), count historyMiss ac)))"

definition Rows :: "string \<Rightarrow> 'f AddressCache \<Rightarrow> (AddressRowCompact list option \<times> BlockID option) \<times> 'f AddressCache" where
  "Rows addr ac =
     (case addressCacheItem addr ac of
        None \<Rightarrow> ((None, None), count rowMiss ac)
      | Some aci \<Rightarrow> (itemRows aci, count rowHit ac))"

definition NumRows :: "string \<Rightarrow> 'f AddressCache \<Rightarrow> int \<times> BlockID option" where
  "NumRows addr ac =
     (case addressCacheItem addr ac of None \<Rightarrow> (- 1, None) | Some aci \<Rightarrow> itemNumRows aci)"

text \<open>The results of the three \<open>Transactions\<close> methods: rows, block, error.\<close>

definition TransactionsMerged :: "string \<Rightarrow> int \<Rightarrow> int \<Rightarrow> AddrTxnViewType \<Rightarrow> 'f AddressCache
    \<Rightarrow> (AddressRowMerged list option \<times> BlockID option \<times> cacheError option) go \<times> 'f AddressCache" where
  "TransactionsMerged addr N offset txnType ac =
     (case addressCacheItem addr ac of
        None \<Rightarrow> (Ret (None, None, None), count rowMiss ac)
      | Some aci \<Rightarrow>
         (mapGo (\<lambda>res. case res of
              Inl e \<Rightarrow> (None, None, Some e)
            | Inr (MergedRowsValue r, bid) \<Rightarrow> (r, bid, None)
            | Inr (_, bid) \<Rightarrow> (None, None, Some WrongRowType))
            (itemTransactions (Some aci) N offset txnType), count rowHit ac))"

definition TransactionsCompact :: "string \<Rightarrow> int \<Rightarrow> int \<Rightarrow> AddrTxnViewType \<Rightarrow> 'f AddressCache
    \<Rightarrow> (AddressRowCompact list option \<times> BlockID option \<times> cacheError option) go \<times> 'f AddressCache" where
  "TransactionsCompact addr N offset txnType ac =
     (case addressCacheItem addr ac of
        None \<Rightarrow> (Ret (None, None, None), count rowMiss ac)
      | Some aci \<Rightarrow>
         (mapGo (\<lambda>res. case res of
              Inl e \<Rightarrow> (None, None, Some e)
            | Inr (CompactRowsValue r, bid) \<Rightarrow> (r, bid, None)
            | Inr (_, bid) \<Rightarrow> (None, None, Some WrongRowType))
            (itemTransactions (Some aci) N offset txnType), count rowHit ac))"

definition Transactions :: "(Hash \<Rightarrow> string) \<Rightarrow> string \<Rightarrow> int \<Rightarrow> int \<Rightarrow> AddrTxnViewType \<Rightarrow> 'f AddressCache
    \<Rightarrow> (AddressRow list option \<times> BlockID option \<times> cacheError option) go \<times> 'f AddressCache" where
  "Transactions hs addr N offset txnType ac =
     (case viewIsMerged txnType of
        None \<Rightarrow> (Ret (None, None, Some (InvalidTxnView txnType)), ac)
      | Some True \<Rightarrow>
         (case TransactionsMerged addr N offset txnType ac of
            (g, ac') \<Rightarrow> (mapGo (\<lambda>(r, bid, e). (Some (UncompactMergedRows hs (elems r)), bid, e)) g, ac'))
      | Some False \<Rightarrow>
         (case TransactionsCompact addr N offset txnType ac of
            (g, ac') \<Rightarrow> (mapGo (\<lambda>(r, bid, e). (Some (UncompactRows hs (elems r)), bid, e)) g, ac')))"

definition numRowsOf :: "'f AddressCacheItem \<Rightarrow> int" where
  "numRowsOf aci = int (length (elems (ciRows aci)))"

text \<open>\<open>length\<close> of the source: the number of addresses, rows and UTXOs.\<close>

definition cacheLength :: "'f AddressCache \<Rightarrow> int \<times> int \<times> int" where
  "cacheLength ac =
     (int (length (acItems ac)),
      (\<Sum>p\<leftarrow>acItems ac. numRowsOf (snd p)),
      (\<Sum>p\<leftarrow>acItems ac. int (length (elems (ciUtxos (snd p))))))"

definition NumAddresses :: "'f AddressCache \<Rightarrow> int" where
  "NumAddresses ac = int (length (acItems ac))"

subsection \<open>Eviction\<close>

text \<open>
  One visit of the map by each of the two loops of \<open>purgeRowsToFit\<close>: it evicts an address, breaks
  out of the outer loop, or comes to its end.
\<close>

datatype visit = Evict string | BreakOuter | EndOfMap

fun visitAddrs :: "string \<Rightarrow> int \<Rightarrow> string list \<Rightarrow> visit" where
  "visitAddrs project n [] = EndOfMap"
| "visitAddrs project n (x # xs) =
     (if x = project then (if n = 1 then BreakOuter else visitAddrs project n xs)
      else Evict x)"

fun visitRows :: "string \<Rightarrow> int \<Rightarrow> (string \<Rightarrow> int) \<Rightarrow> string list \<Rightarrow> visit" where
  "visitRows project n rowsOf [] = EndOfMap"
| "visitRows project n rowsOf (x # xs) =
     (if rowsOf x = 0 then visitRows project n rowsOf xs
      else if x = project then (if n = 1 then BreakOuter else visitRows project n rowsOf xs)
      else Evict x)"

definition evict :: "string \<Rightarrow> 'f AddressCache \<Rightarrow> 'f AddressCache" where
  "evict x ac = ac\<lparr>acItems := AList.delete x (acItems ac)\<rparr>"

definition rowsAt :: "'f AddressCache \<Rightarrow> string \<Rightarrow> int" where
  "rowsAt ac x = (case addressCacheItem x ac of None \<Rightarrow> 0 | Some aci \<Rightarrow> numRowsOf aci)"

text \<open>The loops may run forever in the model: \<open>None\<close> is the loop that does not end.\<close>

partial_function (option) clearAddrs :: "(string list \<Rightarrow> string list) \<Rightarrow> 'f AddressCache \<Rightarrow> 'f AddressCache option" where
  "clearAddrs ord ac =
     (if NumAddresses ac \<ge> acCapAddr ac
      then (case visitAddrs (acProject ac) (NumAddresses ac) (ord (map fst (acItems ac))) of
              Evict x \<Rightarrow> clearAddrs ord (evict x ac)
            | BreakOuter \<Rightarrow> Some ac
            | EndOfMap \<Rightarrow> clearAddrs ord ac)
      else Some ac)"

partial_function (option) clearRows :: "(string list \<Rightarrow> string list) \<Rightarrow> int \<Rightarrow> 'f AddressCache \<Rightarrow> 'f AddressCache option" where
  "clearRows ord numRows ac =
     (let cacheSize = fst (snd (cacheLength ac)) in
      if cacheSize > 0 \<and> cacheSize + numRows > acCap ac
      then (case visitRows (acProject ac) (NumAddresses ac) (rowsAt ac) (ord (map fst (acItems ac))) of
              Evict x \<Rightarrow> clearRows ord numRows (evict x ac)
            | BreakOuter \<Rightarrow> Some ac
            | EndOfMap \<Rightarrow> clearRows ord numRows ac)
      else Some ac)"

definition purgeRowsToFit :: "(string list \<Rightarrow> string list) \<Rightarrow> int \<Rightarrow> 'f AddressCache
    \<Rightarrow> (bool \<times> 'f AddressCache) option" where
  "purgeRowsToFit ord numRows ac =
     (if acCap ac < 1 \<or> acCapAddr ac < 1 then Some (False, ac)
      else case clearAddrs ord ac of
        None \<Rightarrow> None
      | Some ac1 \<Rightarrow>
         (case clearRows ord numRows ac1 of
            None \<Rightarrow> None
          | Some ac2 \<Rightarrow>
              Some (fst (snd (cacheLength ac2)) + numRows \<le> acCap ac2 \<and> NumAddresses ac2 < acCapAddr ac2, ac2)))"

subsection \<open>Storing\<close>

definition putItem :: "string \<Rightarrow> 'f AddressCacheItem \<Rightarrow> 'f AddressCache \<Rightarrow> 'f AddressCache" where
  "putItem addr aci ac = ac\<lparr>acItems := AList.update addr aci (acItems ac)\<rparr>"

text \<open>A write through the pointer to the item of an address, which shows in the cache while the item is in it.\<close>

definition modifyItem :: "string \<Rightarrow> ('f AddressCacheItem \<Rightarrow> 'f AddressCacheItem) \<Rightarrow> 'f AddressCache \<Rightarrow> 'f AddressCache" where
  "modifyItem addr f ac =
     (case addressCacheItem addr ac of None \<Rightarrow> ac | Some aci \<Rightarrow> putItem addr (f aci) ac)"

type_synonym 'f stored = "(bool \<times> 'f AddressCache) option"

definition addCacheItem :: "(string list \<Rightarrow> string list) \<Rightarrow> string \<Rightarrow> 'f AddressCacheItem \<Rightarrow> 'f AddressCache \<Rightarrow> 'f stored" where
  "addCacheItem ord addr aci ac =
     (if acCap ac < 1 \<or> acCapAddr ac < 1 then Some (False, ac)
      else
        let alreadyStored = (case addressCacheItem addr ac of None \<Rightarrow> 0 | Some aci0 \<Rightarrow> numRowsOf aci0) in
        case purgeRowsToFit ord (numRowsOf aci - alreadyStored) ac of
          None \<Rightarrow> None
        | Some (haveSpace, ac') \<Rightarrow>
            if haveSpace then Some (True, putItem addr aci ac') else Some (False, ac'))"

definition staleOrMissing :: "string \<Rightarrow> BlockID \<Rightarrow> 'f AddressCache \<Rightarrow> bool" where
  "staleOrMissing addr block ac \<longleftrightarrow>
     (case addressCacheItem addr ac of None \<Rightarrow> True | Some aci \<Rightarrow> BlockHash aci \<noteq> biHash block)"

definition setCacheItemRows :: "(string list \<Rightarrow> string list) \<Rightarrow> string \<Rightarrow> AddressRowCompact list
    \<Rightarrow> BlockID option \<Rightarrow> 'f AddressCache \<Rightarrow> 'f stored" where
  "setCacheItemRows ord addr rows block ac =
     (case block of
        None \<Rightarrow> Some (False, ac)
      | Some b \<Rightarrow>
          if acCap ac < 1 \<or> acCapAddr ac < 1 then Some (False, ac)
          else if staleOrMissing addr b ac
          then addCacheItem ord addr ((freshItem b)\<lparr>ciRows := Some rows\<rparr>) ac
          else
            let aci = the (addressCacheItem addr ac); alreadyStored = numRowsOf aci in
            if ciRows aci \<noteq> None \<and> alreadyStored = int (length rows) then Some (True, ac)
            else case purgeRowsToFit ord (int (length rows) - alreadyStored) ac of
              None \<Rightarrow> None
            | Some (haveSpace, ac') \<Rightarrow>
                if haveSpace then Some (True, modifyItem addr (\<lambda>i. i\<lparr>ciRows := Some rows\<rparr>) ac')
                else Some (False, ac'))"

definition StoreRowsCompact :: "(string list \<Rightarrow> string list) \<Rightarrow> string \<Rightarrow> AddressRowCompact list option
    \<Rightarrow> BlockID option \<Rightarrow> 'f AddressCache \<Rightarrow> 'f stored" where
  "StoreRowsCompact ord addr rows block ac =
     (if block = None \<or> acCap ac < 1 \<or> acCapAddr ac < 1 then Some (False, ac)
      else setCacheItemRows ord addr (elems rows) block ac)"

definition StoreRows :: "(string \<Rightarrow> Hash option) \<Rightarrow> (string list \<Rightarrow> string list) \<Rightarrow> string
    \<Rightarrow> AddressRow list option \<Rightarrow> BlockID option \<Rightarrow> 'f AddressCache \<Rightarrow> 'f stored go" where
  "StoreRows nh ord addr rows block ac =
     (if block = None \<or> acCap ac < 1 \<or> acCapAddr ac < 1 then Ret (Some (False, ac))
      else mapGo (\<lambda>rowsCompact. StoreRowsCompact ord addr rowsCompact block ac)
        (case rows of None \<Rightarrow> Ret (Some []) | Some rs \<Rightarrow> CompactRows nh rs))"

text \<open>The last step of \<open>StoreHistoryChart\<close>: \<open>None\<close> for an unknown chart.\<close>

definition setHistory :: "HistoryChart \<Rightarrow> nat \<Rightarrow> 'f ChartsData \<Rightarrow> ('f AddressCacheItem \<Rightarrow> 'f AddressCacheItem) option" where
  "setHistory addrChart g cd =
     (case addrChart of
        TxsType \<Rightarrow> Some (\<lambda>i. i\<lparr>ciHistory := (ciHistory i)\<lparr>thTypeByInterval :=
            (thTypeByInterval (ciHistory i))[g := Some cd]\<rparr>\<rparr>)
      | AmountFlow \<Rightarrow> Some (\<lambda>i. i\<lparr>ciHistory := (ciHistory i)\<lparr>thAmtFlowByInterval :=
            (thAmtFlowByInterval (ciHistory i))[g := Some cd]\<rparr>\<rparr>)
      | ChartUnknown \<Rightarrow> None)"

text \<open>The item that \<open>StoreHistoryChart\<close> writes to: a new one, unless the cached one is current.\<close>

definition historyItem :: "(string list \<Rightarrow> string list) \<Rightarrow> string \<Rightarrow> BlockID \<Rightarrow> 'f AddressCache \<Rightarrow> 'f stored" where
  "historyItem ord addr b ac =
     (if staleOrMissing addr b ac then addCacheItem ord addr (freshItem b) ac else Some (True, ac))"

definition StoreHistoryChart :: "(string list \<Rightarrow> string list) \<Rightarrow> string \<Rightarrow> HistoryChart \<Rightarrow> TimeBasedGrouping
    \<Rightarrow> 'f ChartsData option \<Rightarrow> BlockID option \<Rightarrow> 'f AddressCache \<Rightarrow> 'f stored" where
  "StoreHistoryChart ord addr addrChart chartGrouping cd block ac =
     (case block of
        None \<Rightarrow> Some (False, ac)
      | Some b \<Rightarrow>
          if acCap ac < 1 \<or> acCapAddr ac < 1 then Some (False, ac)
          else if groupingIdx chartGrouping \<ge> NumIntervals then Some (False, ac)
          else
            let cd' = (case cd of None \<Rightarrow> emptyChartsData | Some c \<Rightarrow> c) in
            case historyItem ord addr b ac of
              None \<Rightarrow> None
            | Some (False, ac') \<Rightarrow> Some (False, ac')
            | Some (True, ac') \<Rightarrow>
               (case setHistory addrChart (groupingIdx chartGrouping) cd' of
                  None \<Rightarrow> Some (False, ac')
                | Some f \<Rightarrow> Some (True, modifyItem addr f ac')))"

definition StoreBalance :: "(string list \<Rightarrow> string list) \<Rightarrow> string \<Rightarrow> ('f::zero) AddressBalance option
    \<Rightarrow> BlockID option \<Rightarrow> 'f AddressCache \<Rightarrow> 'f stored" where
  "StoreBalance ord addr balance block ac =
     (case block of
        None \<Rightarrow> Some (False, ac)
      | Some b \<Rightarrow>
          if acCap ac < 1 \<or> acCapAddr ac < 1 then Some (False, ac)
          else
            let bal = (case balance of
                 None \<Rightarrow> \<lparr>abAddress = addr, abNumSpent = 0, abNumUnspent = 0, abTotalSpent = 0,
                          abTotalUnspent = 0, abFromStake = 0, abToStake = 0\<rparr>
               | Some bal \<Rightarrow> bal)
            in if staleOrMissing addr b ac
               then addCacheItem ord addr ((freshItem b)\<lparr>ciBalance := Some bal\<rparr>) ac
               else Some (True, modifyItem addr (\<lambda>i. i\<lparr>ciBalance := Some bal\<rparr>) ac))"

definition StoreUTXOs :: "(string list \<Rightarrow> string list) \<Rightarrow> string \<Rightarrow> AddressTxnOutput list option
    \<Rightarrow> BlockID option \<Rightarrow> 'f AddressCache \<Rightarrow> 'f stored" where
  "StoreUTXOs ord addr utxos block ac =
     (case block of
        None \<Rightarrow> Some (False, ac)
      | Some b \<Rightarrow>
          if acCap ac < 1 \<or> acCapAddr ac < 1 then Some (False, ac)
          else if int (length (elems utxos)) > acMaxUTXOsPerAddr ac \<and> addr \<noteq> acProject ac then Some (False, ac)
          else
            let us = elems utxos in
            if staleOrMissing addr b ac
            then addCacheItem ord addr ((freshItem b)\<lparr>ciUtxos := Some us\<rparr>) ac
            else Some (True, modifyItem addr (\<lambda>i. i\<lparr>ciUtxos := Some us\<rparr>) ac))"

definition ClearUTXOs :: "string \<Rightarrow> 'f AddressCache \<Rightarrow> 'f AddressCache" where
  "ClearUTXOs addr ac = modifyItem addr (\<lambda>i. i\<lparr>ciUtxos := None\<rparr>) ac"

definition ClearRows :: "string \<Rightarrow> 'f AddressCache \<Rightarrow> 'f AddressCache" where
  "ClearRows addr ac = modifyItem addr (\<lambda>i. i\<lparr>ciRows := None\<rparr>) ac"

subsection \<open>Paging laws\<close>

lemma unguarded_page:
  assumes "0 < N" and "0 \<le> offset" and num: "num = int (length (filter keep rs))"
  shows "delivered (if offset \<ge> int (length rs) then Ret (Some [])
      else makePage keep (if num < N then num else N) offset rs) = Some (pageOf keep rs N offset)"
proof -
  have min: "pageOf keep rs (if num < N then num else N) offset = pageOf keep rs N offset"
    unfolding num by (rule pageOf_min[OF assms(2)])
  have le: "num \<le> int (length rs)" using num by simp
  show ?thesis
  proof (cases "0 < num")
    case True
    then have "delivered (makePage keep (if num < N then num else N) offset rs) = Some (pageOf keep rs N offset)"
      using makePage_delivered[of "if num < N then num else N" offset keep rs] assms(1,2) min by simp
    moreover have "pageOf keep rs N offset = []" if "int (length rs) \<le> offset"
      using that le num by (intro pageOf_beyond) linarith
    ultimately show ?thesis by auto
  next
    case False
    then have none: "filter keep rs = []" using num by simp
    have "pageLoop keep N' offset k [] xs = []" if "filter keep xs = []" for N' k xs
      using that by (induction xs) (auto split: if_splits)
    then show ?thesis using none num assms(1) by (simp add: makePage_def pageOf_def)
  qed
qed

interpretation rowsAll: paging "\<lambda>rs. addressRows (Some rs)" "\<lambda>_. True"
  by unfold_locales (simp add: addressRows_def sliceAll_delivers)

interpretation rowsCredit: paging "\<lambda>rs. creditAddressRows (Some rs)" acIsFunding
  by unfold_locales
    (unfold creditAddressRows_def CountCreditDebitRowsCompact_def countRows_eq Let_def option.case,
      rule guarded_page, assumption, assumption, simp)

interpretation rowsDebit: paging "\<lambda>rs. debitAddressRows (Some rs)" "\<lambda>r. \<not> acIsFunding r"
  by unfold_locales
    (unfold debitAddressRows_def CountCreditDebitRowsCompact_def countRows_eq Let_def option.case,
      rule unguarded_page, assumption, assumption, simp)

interpretation rowsUnspent: paging "\<lambda>rs. unspentCreditAddressRows (Some rs)"
    "\<lambda>r. acIsFunding r \<and> IsZeroHash (acMatchingTxHash r)"
  by unfold_locales
    (unfold unspentCreditAddressRows_def CountUnspentCreditRowsCompact_def countRows_eq Let_def option.case,
      rule guarded_page, assumption, assumption, simp)

interpretation mergedAll: paging "\<lambda>rs. addressRowsMerged (Some rs)" "\<lambda>_. True"
  by unfold_locales (simp add: addressRowsMerged_def sliceAll_delivers)

interpretation mergedCredit: paging "\<lambda>rs. creditAddressRowsMerged (Some rs)" amIsFunding
  by unfold_locales
    (unfold creditAddressRowsMerged_def CountCreditDebitRowsMerged_def countRows_eq Let_def option.case,
      rule guarded_page, assumption, assumption, simp)

interpretation mergedDebit: paging "\<lambda>rs. debitAddressRowsMerged (Some rs)" "\<lambda>r. \<not> amIsFunding r"
  by unfold_locales
    (unfold debitAddressRowsMerged_def CountCreditDebitRowsMerged_def countRows_eq Let_def option.case,
      rule unguarded_page, assumption, assumption, simp)

subsection \<open>What eviction does\<close>

definition ordOk :: "(string list \<Rightarrow> string list) \<Rightarrow> bool" where
  "ordOk ord \<longleftrightarrow> (\<forall>xs. set (ord xs) = set xs)"

definition wfItems :: "'f AddressCache \<Rightarrow> bool" where
  "wfItems ac \<longleftrightarrow> distinct (map fst (acItems ac))"

definition evicts :: "string set \<Rightarrow> 'f AddressCache \<Rightarrow> 'f AddressCache" where
  "evicts X ac = ac\<lparr>acItems := filter (\<lambda>p. fst p \<notin> X) (acItems ac)\<rparr>"

definition rowTotal :: "'f AddressCache \<Rightarrow> int" where
  "rowTotal ac = (\<Sum>p\<leftarrow>acItems ac. numRowsOf (snd p))"

lemma cacheLength_rows [simp]: "fst (snd (cacheLength ac)) = rowTotal ac"
  by (simp add: cacheLength_def rowTotal_def)

lemma evicts_simps [simp]:
  "acCap (evicts X ac) = acCap ac" "acCapAddr (evicts X ac) = acCapAddr ac"
  "acProject (evicts X ac) = acProject ac" "acMetrics (evicts X ac) = acMetrics ac"
  "acMaxUTXOsPerAddr (evicts X ac) = acMaxUTXOsPerAddr ac"
  "acItems (evicts X ac) = filter (\<lambda>p. fst p \<notin> X) (acItems ac)"
  "evicts X (evicts Y ac) = evicts (X \<union> Y) ac"
  by (auto simp: evicts_def conj_commute intro!: filter_cong)

lemma evicts_none [simp]: "evicts {} ac = ac"
  by (simp add: evicts_def)

lemma evict_evicts: "evict x ac = evicts {x} ac"
  by (simp add: evict_def evicts_def delete_filter)

lemma item_evicts [simp]:
  "addressCacheItem y (evicts X ac) = (if y \<in> X then None else addressCacheItem y ac)"
  by (simp add: addressCacheItem_def map_of_filter_keys)

lemma rowsAt_evicts [simp]: "rowsAt (evicts X ac) y = (if y \<in> X then 0 else rowsAt ac y)"
  by (simp add: rowsAt_def)

lemma wfItems_evicts [simp]: "wfItems ac \<Longrightarrow> wfItems (evicts X ac)"
  by (simp add: wfItems_def distinct_map_filter)

lemma numRowsOf_ge0 [simp]: "0 \<le> numRowsOf i"
  by (simp add: numRowsOf_def)

lemma rowTotal_ge0 [simp]: "0 \<le> rowTotal ac"
  by (auto simp: rowTotal_def intro!: sum_list_nonneg)

lemma rowsAt_ge0 [simp]: "0 \<le> rowsAt ac x"
  by (simp add: rowsAt_def split: option.splits)

lemma rowsAt_le_total: "rowsAt ac x \<le> rowTotal ac"
proof -
  have "rowsAt ac x \<le> rowTotal ac" if "addressCacheItem x ac = Some i" for i
  proof -
    have "(x, i) \<in> set (acItems ac)" using that by (simp add: addressCacheItem_def map_of_SomeD)
    then have "numRowsOf i \<in> set (map (\<lambda>p. numRowsOf (snd p)) (acItems ac))" by force
    then have "numRowsOf i \<le> sum_list (map (\<lambda>p. numRowsOf (snd p)) (acItems ac))"
      by (rule member_le_sum_int) auto
    then show ?thesis using that by (simp add: rowsAt_def rowTotal_def)
  qed
  then show ?thesis by (cases "addressCacheItem x ac") (auto simp: rowsAt_def)
qed

lemma NumAddresses_wf: "wfItems ac \<Longrightarrow> NumAddresses ac = int (card (fst ` set (acItems ac)))"
  unfolding NumAddresses_def wfItems_def by (metis distinct_card length_map list.set_map)

lemma item_Some_key: "addressCacheItem x ac \<noteq> None \<longleftrightarrow> x \<in> fst ` set (acItems ac)"
  unfolding addressCacheItem_def by (simp add: map_of_eq_None_iff)

lemma NumAddresses_evict_less:
  "x \<in> fst ` set (acItems ac) \<Longrightarrow> length (acItems (evict x ac)) < length (acItems ac)"
  by (auto simp: evict_evicts intro!: length_filter_less)

lemma visitAddrs_Evict: "visitAddrs p n xs = Evict x \<Longrightarrow> x \<in> set xs \<and> x \<noteq> p"
  by (induction xs) (auto split: if_splits)

lemma visitAddrs_Break: "visitAddrs p n xs = BreakOuter \<Longrightarrow> n = 1 \<and> p \<in> set xs"
  by (induction xs) (auto split: if_splits)

lemma visitAddrs_End: "visitAddrs p n xs = EndOfMap \<Longrightarrow> set xs \<subseteq> {p} \<and> (n = 1 \<longrightarrow> xs = [])"
  by (induction xs) (auto split: if_splits)

lemma visitRows_Evict: "visitRows p n f xs = Evict x \<Longrightarrow> x \<in> set xs \<and> x \<noteq> p \<and> f x \<noteq> 0"
  by (induction xs) (auto split: if_splits)

lemma visitRows_Break: "visitRows p n f xs = BreakOuter \<Longrightarrow> n = 1 \<and> p \<in> set xs \<and> f p \<noteq> 0"
  by (induction xs) (auto split: if_splits)

lemma visitRows_End:
  "visitRows p n f xs = EndOfMap \<Longrightarrow> (\<forall>x\<in>set xs. f x = 0 \<or> x = p) \<and> (n = 1 \<longrightarrow> (\<forall>x\<in>set xs. f x = 0))"
  by (induction xs) (auto split: if_splits)

lemmas visit_facts = visitAddrs_Evict visitAddrs_Break visitAddrs_End
  visitRows_Evict visitRows_Break visitRows_End

text \<open>
  The contract of an eviction pass: some addresses other than the project's are gone, and nothing
  else has changed.
\<close>

definition evictsSome :: "'f AddressCache \<Rightarrow> 'f AddressCache \<Rightarrow> bool" where
  "evictsSome ac ac' \<longleftrightarrow> (\<exists>X. acProject ac \<notin> X \<and> ac' = evicts X ac)"

lemma evictsSome_refl [inv_intros]: "evictsSome ac ac"
  unfolding evictsSome_def by (intro exI[of _ "{}"]) simp

lemma evictsSome_trans: "evictsSome ac ac1 \<Longrightarrow> evictsSome ac1 ac2 \<Longrightarrow> evictsSome ac ac2"
  unfolding evictsSome_def by (metis UnE evicts_simps(3,7))

lemma evictsSome_evict: "x \<noteq> acProject ac \<Longrightarrow> evictsSome (evict x ac) ac' \<Longrightarrow> evictsSome ac ac'"
  by (rule evictsSome_trans[of _ "evict x ac"]) (auto simp: evictsSome_def evict_evicts)

lemma clearAddrs_evicts: "clearAddrs ord ac = Some ac' \<Longrightarrow> evictsSome ac ac'"
proof (induction rule: clearAddrs.raw_induct[rotated 1, consumes 1])
  case (1 f ord ac ac')
  then show ?case
    by (auto simp: evictsSome_refl dest!: visit_facts split: if_splits visit.splits
        intro: evictsSome_evict)
qed

lemma clearRows_evicts: "clearRows ord n ac = Some ac' \<Longrightarrow> evictsSome ac ac'"
proof (induction rule: clearRows.raw_induct[rotated 1, consumes 1])
  case (1 f ord n ac ac')
  then show ?case
    by (auto simp: evictsSome_refl Let_def dest!: visit_facts split: if_splits visit.splits
        intro: evictsSome_evict)
qed

text \<open>The first loop always ends, whatever the order of the visits.\<close>

lemma clearAddrs_returns:
  assumes "ordOk ord" and "1 \<le> acCapAddr ac" and "wfItems ac"
  shows "\<exists>ac'. clearAddrs ord ac = Some ac'"
  using assms(2,3)
proof (induction "length (acItems ac)" arbitrary: ac rule: less_induct)
  case less
  let ?v = "visitAddrs (acProject ac) (NumAddresses ac) (ord (map fst (acItems ac)))"
  have keys: "set (ord (map fst (acItems ac))) = fst ` set (acItems ac)"
    using assms(1) by (simp add: ordOk_def)
  show ?case
  proof (cases "NumAddresses ac \<ge> acCapAddr ac")
    case True
    show ?thesis
    proof (cases ?v)
      case (Evict x)
      then have "x \<in> fst ` set (acItems ac)" using keys by (auto dest: visitAddrs_Evict)
      from less.hyps[OF NumAddresses_evict_less[OF this]] less.prems
      have "\<exists>ac'. clearAddrs ord (evict x ac) = Some ac'" by (simp add: evict_evicts)
      then show ?thesis using True Evict by (simp add: clearAddrs.simps[of ord ac])
    next
      case BreakOuter
      then show ?thesis using True by (simp add: clearAddrs.simps[of ord ac])
    next
      case EndOfMap
      then have sub: "fst ` set (acItems ac) \<subseteq> {acProject ac}"
        and one: "NumAddresses ac = 1 \<longrightarrow> ord (map fst (acItems ac)) = []"
        using visitAddrs_End[OF EndOfMap] keys by auto
      have "card (fst ` set (acItems ac)) \<le> 1" using card_mono[OF _ sub] by simp
      then have n1: "NumAddresses ac = 1" using True less.prems NumAddresses_wf[OF less.prems(2)] by simp
      then have "fst ` set (acItems ac) = {}" using one keys by simp
      then show ?thesis using n1 by (simp add: NumAddresses_def)
    qed
  next
    case False
    then show ?thesis by (simp add: clearAddrs.simps[of ord ac])
  qed
qed

text \<open>
  The second loop does not end exactly when the project address alone has too many rows and there
  is another address without any: the visits then evict nothing.
\<close>

definition rowStuck :: "int \<Rightarrow> 'f AddressCache \<Rightarrow> bool" where
  "rowStuck numRows ac \<longleftrightarrow>
     0 < rowsAt ac (acProject ac) \<and> rowsAt ac (acProject ac) + numRows > acCap ac \<and>
     (\<exists>x. x \<noteq> acProject ac \<and> addressCacheItem x ac \<noteq> None \<and> rowsAt ac x = 0)"

lemma rowStuck_evict:
  "x \<noteq> acProject ac \<Longrightarrow> rowsAt ac x \<noteq> 0 \<Longrightarrow> rowStuck numRows (evict x ac) \<longleftrightarrow> rowStuck numRows ac"
  by (auto simp: rowStuck_def evict_evicts split: if_splits)

lemma rowStuck_full: "rowStuck numRows ac \<Longrightarrow> 0 < rowTotal ac \<and> rowTotal ac + numRows > acCap ac"
  using rowsAt_le_total[of ac "acProject ac"] by (auto simp: rowStuck_def)

lemma sum_only:
  assumes "\<And>p. p \<in> set xs \<Longrightarrow> f p = (0::int)"
  shows "(\<Sum>p\<leftarrow>xs. f p) = 0"
  using assms by (induction xs) auto

lemma rowTotal_zero:
  assumes "wfItems ac" and "\<And>x. addressCacheItem x ac \<noteq> None \<Longrightarrow> rowsAt ac x = 0"
  shows "rowTotal ac = 0"
  unfolding rowTotal_def
proof (rule sum_only)
  fix p assume "p \<in> set (acItems ac)"
  then have "addressCacheItem (fst p) ac = Some (snd p)"
    using assms(1) by (simp add: wfItems_def addressCacheItem_def map_of_eq_Some_iff)
  then show "numRowsOf (snd p) = 0" using assms(2)[of "fst p"] by (simp add: rowsAt_def)
qed

lemma sum_split:
  fixes f :: "'a \<Rightarrow> int"
  assumes "distinct (map fst xs)"
  shows "(\<Sum>q\<leftarrow>xs. f (snd q)) = (case map_of xs x of None \<Rightarrow> 0 | Some i \<Rightarrow> f i)
    + (\<Sum>q\<leftarrow>filter (\<lambda>q. fst q \<noteq> x) xs. f (snd q))"
  using assms
proof (induction xs)
  case Nil
  then show ?case by simp
next
  case (Cons p ps)
  then have "fst p = x \<Longrightarrow> map_of ps x = None" by (auto simp: map_of_eq_None_iff)
  then show ?case using Cons by (cases p) auto
qed

lemma rowTotal_split: "wfItems ac \<Longrightarrow> rowTotal ac = rowsAt ac x + rowTotal (evict x ac)"
  using sum_split[of "acItems ac" numRowsOf x]
  by (simp add: rowTotal_def wfItems_def rowsAt_def addressCacheItem_def evict_def delete_filter)

lemma clearRows_end:
  "clearRows ord n ac = Some ac' \<Longrightarrow> ordOk ord \<Longrightarrow> wfItems ac \<Longrightarrow> \<not> rowStuck n ac"
proof (induction rule: clearRows.raw_induct[rotated 1, consumes 1])
  case (1 f ord n ac ac')
  show ?case
  proof (cases "visitRows (acProject ac) (NumAddresses ac) (rowsAt ac) (ord (map fst (acItems ac)))")
    case (Evict x)
    note x = visitRows_Evict[OF Evict]
    show ?thesis
    proof
      assume st: "rowStuck n ac"
      then have "f ord n (evict x ac) = Some ac'"
        using 1(2) rowStuck_full[OF st] Evict by (simp add: Let_def)
      from 1(1)[OF this] 1(3,4) have "\<not> rowStuck n (evict x ac)" by (simp add: evict_evicts)
      then show False using rowStuck_evict x st by blast
    qed
  next
    case BreakOuter
    note b = visitRows_Break[OF BreakOuter]
    have "fst ` set (acItems ac) = {acProject ac}"
    proof -
      have "card (fst ` set (acItems ac)) = 1" using b NumAddresses_wf[OF 1(4)] by simp
      moreover have "acProject ac \<in> fst ` set (acItems ac)" using b 1(3) by (auto simp: ordOk_def)
      ultimately show ?thesis by (metis card_1_singletonE singletonD)
    qed
    then show ?thesis by (auto simp: rowStuck_def item_Some_key[simplified])
  next
    case EndOfMap
    show ?thesis
    proof
      assume st: "rowStuck n ac"
      then have "f ord n ac = Some ac'" using 1(2) rowStuck_full[OF st] EndOfMap by (simp add: Let_def)
      from 1(1)[OF this] 1(3,4) st show False by simp
    qed
  qed
qed

lemma EndOfMap_stuck:
  assumes "ordOk ord" and wf: "wfItems ac"
    and e: "visitRows (acProject ac) (NumAddresses ac) (rowsAt ac) (ord (map fst (acItems ac))) = EndOfMap"
    and full: "0 < rowTotal ac" "rowTotal ac + n > acCap ac"
  shows "rowStuck n ac"
proof -
  let ?p = "acProject ac"
  have keys: "set (ord (map fst (acItems ac))) = fst ` set (acItems ac)"
    using assms(1) by (simp add: ordOk_def)
  have zero: "x \<noteq> ?p \<Longrightarrow> rowsAt ac x = 0" for x
    using visitRows_End[OF e] keys item_Some_key[of x ac] by (auto simp: rowsAt_def split: option.splits)
  have rest: "rowTotal (evict ?p ac) = 0"
    using wf zero by (intro rowTotal_zero) (auto simp: evict_evicts split: if_splits)
  then have rp: "rowTotal ac = rowsAt ac ?p" using rowTotal_split[OF wf, of ?p] by simp
  have "NumAddresses ac \<noteq> 1"
  proof
    assume "NumAddresses ac = 1"
    then have "\<forall>x\<in>fst ` set (acItems ac). rowsAt ac x = 0" using visitRows_End[OF e] keys by simp
    then have "rowsAt ac ?p = 0" using item_Some_key[of ?p ac] by (auto simp: rowsAt_def split: option.splits)
    then show False using rp full(1) by simp
  qed
  then have c: "card (fst ` set (acItems ac)) \<noteq> 1" using NumAddresses_wf[OF wf] by simp
  have pin: "?p \<in> fst ` set (acItems ac)"
    using rp full(1) item_Some_key[of ?p ac] by (auto simp: rowsAt_def split: option.splits)
  have "\<exists>x \<in> fst ` set (acItems ac). x \<noteq> ?p"
  proof (rule ccontr)
    assume "\<not> ?thesis"
    then have "fst ` set (acItems ac) = {?p}" using pin by blast
    then show False using c by simp
  qed
  then show ?thesis using zero rp full item_Some_key[of _ ac] unfolding rowStuck_def by metis
qed

lemma clearRows_returns:
  assumes "ordOk ord" and "wfItems ac" and "\<not> rowStuck n ac"
  shows "\<exists>ac'. clearRows ord n ac = Some ac'"
  using assms(2,3)
proof (induction "length (acItems ac)" arbitrary: ac rule: less_induct)
  case less
  let ?v = "visitRows (acProject ac) (NumAddresses ac) (rowsAt ac) (ord (map fst (acItems ac)))"
  show ?case
  proof (cases "0 < rowTotal ac \<and> rowTotal ac + n > acCap ac")
    case True
    show ?thesis
    proof (cases ?v)
      case (Evict x)
      then have x: "x \<in> fst ` set (acItems ac)" "x \<noteq> acProject ac" "rowsAt ac x \<noteq> 0"
        using visitRows_Evict[OF Evict] assms(1) by (auto simp: ordOk_def)
      from less.hyps[OF NumAddresses_evict_less[OF x(1)]] less.prems rowStuck_evict[OF x(2,3)]
      have "\<exists>ac'. clearRows ord n (evict x ac) = Some ac'" by (simp add: evict_evicts)
      then show ?thesis using True Evict by (simp add: clearRows.simps[of ord n ac])
    next
      case BreakOuter
      then show ?thesis using True by (simp add: clearRows.simps[of ord n ac])
    next
      case EndOfMap
      then show ?thesis using EndOfMap_stuck[OF assms(1) less.prems(1) EndOfMap] True less.prems(2) by simp
    qed
  next
    case False
    then show ?thesis by (auto simp: clearRows.simps[of ord n ac])
  qed
qed

lemma evictsSome_simps:
  assumes "evictsSome ac ac'"
  shows "acCap ac' = acCap ac" "acCapAddr ac' = acCapAddr ac" "acProject ac' = acProject ac"
    "acMaxUTXOsPerAddr ac' = acMaxUTXOsPerAddr ac" "wfItems ac \<Longrightarrow> wfItems ac'"
    "addressCacheItem x ac' = addressCacheItem x ac \<or> addressCacheItem x ac' = None"
    "addressCacheItem (acProject ac) ac' = addressCacheItem (acProject ac) ac"
    "set (acItems ac') \<subseteq> set (acItems ac)"
  using assms by (auto simp: evictsSome_def split: if_splits)

lemma evictsSome_project: "evictsSome ac ac' \<Longrightarrow> rowsAt ac' (acProject ac) = rowsAt ac (acProject ac)"
  by (auto simp: evictsSome_def)

lemma evictsSome_rowStuck: "evictsSome ac ac' \<Longrightarrow> rowStuck n ac' \<Longrightarrow> rowStuck n ac"
  by (auto simp: evictsSome_def rowStuck_def split: if_splits)

lemma purge_evicts:
  assumes "purgeRowsToFit ord n ac = Some (ok, ac')"
  shows "evictsSome ac ac' \<and> (ok \<longrightarrow> rowTotal ac' + n \<le> acCap ac \<and> NumAddresses ac' < acCapAddr ac)"
proof (cases "acCap ac < 1 \<or> acCapAddr ac < 1")
  case True
  then show ?thesis using assms by (auto simp: purgeRowsToFit_def evictsSome_refl)
next
  case False
  then obtain ac1 where 1: "clearAddrs ord ac = Some ac1" and 2: "clearRows ord n ac1 = Some ac'"
    and ok: "ok \<longleftrightarrow> rowTotal ac' + n \<le> acCap ac' \<and> NumAddresses ac' < acCapAddr ac'"
    using assms by (auto simp: purgeRowsToFit_def split: option.splits if_splits)
  have "evictsSome ac ac'" by (rule evictsSome_trans[OF clearAddrs_evicts[OF 1] clearRows_evicts[OF 2]])
  then show ?thesis using ok by (simp add: evictsSome_simps)
qed

lemma purge_returns_iff:
  assumes "ordOk ord" and "wfItems ac" and "1 \<le> acCap ac" and "1 \<le> acCapAddr ac"
  shows "\<exists>ac1. clearAddrs ord ac = Some ac1 \<and> evictsSome ac ac1 \<and>
     (purgeRowsToFit ord n ac = None \<longleftrightarrow> rowStuck n ac1)"
proof -
  obtain ac1 where 1: "clearAddrs ord ac = Some ac1"
    using clearAddrs_returns[OF assms(1,4,2)] by blast
  note e = clearAddrs_evicts[OF 1]
  have wf1: "wfItems ac1" using evictsSome_simps(5)[OF e assms(2)] .
  have "clearRows ord n ac1 = None \<longleftrightarrow> rowStuck n ac1"
    using clearRows_end[OF _ assms(1) wf1] clearRows_returns[OF assms(1) wf1] by (metis not_None_eq)
  then have "purgeRowsToFit ord n ac = None \<longleftrightarrow> rowStuck n ac1"
    using 1 assms(3,4) by (cases "clearRows ord n ac1") (simp_all add: purgeRowsToFit_def)
  with 1 e show ?thesis by (intro exI[of _ ac1] conjI)
qed

subsection \<open>Putting items\<close>

lemma length_update: "length (AList.update k v xs) = (if k \<in> fst ` set xs then length xs else Suc (length xs))"
  by (induction xs) auto

lemma filter_update: "filter (\<lambda>p. fst p \<noteq> k) (AList.update k v xs) = filter (\<lambda>p. fst p \<noteq> k) xs"
  by (induction xs) auto

lemma putItem_simps [simp]:
  "acCap (putItem k i ac) = acCap ac" "acCapAddr (putItem k i ac) = acCapAddr ac"
  "acProject (putItem k i ac) = acProject ac" "acMaxUTXOsPerAddr (putItem k i ac) = acMaxUTXOsPerAddr ac"
  "addressCacheItem x (putItem k i ac) = (if x = k then Some i else addressCacheItem x ac)"
  "evict k (putItem k i ac) = evict k ac"
  by (simp_all add: putItem_def addressCacheItem_def update_conv evict_def delete_filter filter_update)

lemma wfItems_putItem [simp]: "wfItems ac \<Longrightarrow> wfItems (putItem k i ac)"
  by (simp add: wfItems_def putItem_def distinct_update)

lemma NumAddresses_putItem:
  "NumAddresses (putItem k i ac) = (if addressCacheItem k ac = None then NumAddresses ac + 1 else NumAddresses ac)"
  using item_Some_key[of k ac] by (auto simp: NumAddresses_def putItem_def length_update)

lemma rowTotal_putItem: "wfItems ac \<Longrightarrow> rowTotal (putItem k i ac) = rowTotal ac - rowsAt ac k + numRowsOf i"
  using rowTotal_split[of ac k] rowTotal_split[of "putItem k i ac" k] by (simp add: rowsAt_def)

lemma modifyItem_simps [simp]:
  "acCap (modifyItem k f ac) = acCap ac" "acCapAddr (modifyItem k f ac) = acCapAddr ac"
  "acProject (modifyItem k f ac) = acProject ac" "acMaxUTXOsPerAddr (modifyItem k f ac) = acMaxUTXOsPerAddr ac"
  "addressCacheItem x (modifyItem k f ac)
     = (if x = k then map_option f (addressCacheItem k ac) else addressCacheItem x ac)"
  "NumAddresses (modifyItem k f ac) = NumAddresses ac"
  by (auto simp: modifyItem_def NumAddresses_putItem split: option.splits)

lemma wfItems_modifyItem [simp]: "wfItems ac \<Longrightarrow> wfItems (modifyItem k f ac)"
  by (simp add: modifyItem_def split: option.splits)

text \<open>Success and failure of \<open>addCacheItem\<close>: either way, items are evicted first.\<close>

lemma addCacheItem_cases:
  assumes "addCacheItem ord addr aci ac = Some (b, ac')"
  obtains (full) "\<not> b" and "evictsSome ac ac'"
  | (added) acm where "b" and "evictsSome ac acm" and "ac' = putItem addr aci acm"
      and "rowTotal acm + numRowsOf aci - rowsAt ac addr \<le> acCap ac" and "NumAddresses acm < acCapAddr ac"
proof (cases "acCap ac < 1 \<or> acCapAddr ac < 1")
  case True
  then have "\<not> b" "ac' = ac" using assms by (auto simp: addCacheItem_def)
  then show thesis using full evictsSome_refl by blast
next
  case False
  then obtain ok acm where p: "purgeRowsToFit ord (numRowsOf aci - rowsAt ac addr) ac = Some (ok, acm)"
    and r: "(b, ac') = (if ok then (True, putItem addr aci acm) else (False, acm))"
    using assms by (auto simp: addCacheItem_def rowsAt_def Let_def split: option.splits prod.splits if_splits)
  from purge_evicts[OF p] r show thesis using full added by (cases ok) auto
qed

subsection \<open>The cache invariant\<close>

definition itemOk :: "string \<Rightarrow> int \<Rightarrow> string \<Rightarrow> 'f AddressCacheItem \<Rightarrow> bool" where
  "itemOk project maxU addr i \<longleftrightarrow>
     length (thTypeByInterval (ciHistory i)) = NumIntervals \<and>
     length (thAmtFlowByInterval (ciHistory i)) = NumIntervals \<and>
     (addr = project \<or> ciUtxos i = None \<or> int (length (the (ciUtxos i))) \<le> maxU)"

definition cacheInv :: "'f AddressCache \<Rightarrow> bool" where
  "cacheInv ac \<longleftrightarrow> wfItems ac \<and> NumAddresses ac \<le> max 0 (acCapAddr ac) \<and>
     (\<forall>x i. addressCacheItem x ac = Some i \<longrightarrow> itemOk (acProject ac) (acMaxUTXOsPerAddr ac) x i)"

lemma cacheInv_evictsSome: "evictsSome ac ac' \<Longrightarrow> cacheInv ac \<Longrightarrow> cacheInv ac'"
proof -
  assume e: "evictsSome ac ac'" and inv: "cacheInv ac"
  obtain X where X: "ac' = evicts X ac" using e by (auto simp: evictsSome_def)
  have "NumAddresses ac' \<le> NumAddresses ac" by (simp add: X NumAddresses_def)
  then show ?thesis using inv by (auto simp: cacheInv_def X split: if_splits)
qed

lemma cacheInv_modifyItem:
  assumes "cacheInv ac"
    and "\<And>i. itemOk (acProject ac) (acMaxUTXOsPerAddr ac) addr i
      \<Longrightarrow> itemOk (acProject ac) (acMaxUTXOsPerAddr ac) addr (f i)"
  shows "cacheInv (modifyItem addr f ac)"
  using assms by (auto simp: cacheInv_def)

lemma cacheInv_addCacheItem:
  assumes "addCacheItem ord addr aci ac = Some (b, ac')" and inv: "cacheInv ac"
    and "itemOk (acProject ac) (acMaxUTXOsPerAddr ac) addr aci"
  shows "cacheInv ac'"
  using assms(1)
proof (cases rule: addCacheItem_cases)
  case full
  then show ?thesis using cacheInv_evictsSome inv by blast
next
  case (added acm)
  note e = evictsSome_simps[OF added(2)]
  have "cacheInv acm" by (rule cacheInv_evictsSome[OF added(2) inv])
  then show ?thesis using added(5) assms(3) unfolding added(3)
    by (auto simp: cacheInv_def NumAddresses_putItem e)
qed

lemma itemOk_fresh [simp]: "itemOk p m x (freshItem b)" "itemOk p m x ((freshItem b)\<lparr>ciRows := r\<rparr>)"
  "itemOk p m x ((freshItem b)\<lparr>ciBalance := l\<rparr>)"
  "int (length us) \<le> m \<or> x = p \<Longrightarrow> itemOk p m x ((freshItem b)\<lparr>ciUtxos := Some us\<rparr>)"
  by (auto simp: itemOk_def freshItem_def emptyTxHistory_def)

lemma cacheInv_setCacheItemRows:
  assumes "setCacheItemRows ord addr rows block ac = Some (b, ac')" and inv: "cacheInv ac"
  shows "cacheInv ac'"
proof (cases "block = None \<or> acCap ac < 1 \<or> acCapAddr ac < 1")
  case True
  then show ?thesis using assms by (auto simp: setCacheItemRows_def split: option.splits)
next
  case False
  then obtain blk where blk: "block = Some blk" by auto
  show ?thesis
  proof (cases "staleOrMissing addr blk ac")
    case True
    then have "addCacheItem ord addr ((freshItem blk)\<lparr>ciRows := Some rows\<rparr>) ac = Some (b, ac')"
      using assms(1) blk False by (simp add: setCacheItemRows_def)
    from cacheInv_addCacheItem[OF this inv] show ?thesis by simp
  next
    case cur: False
    let ?i = "the (addressCacheItem addr ac)"
    show ?thesis
    proof (cases "ciRows ?i \<noteq> None \<and> numRowsOf ?i = int (length rows)")
      case True
      then show ?thesis using assms blk False cur by (simp add: setCacheItemRows_def Let_def)
    next
      case differ: False
      then obtain ok acm where p: "purgeRowsToFit ord (int (length rows) - numRowsOf ?i) ac = Some (ok, acm)"
        and r: "ac' = (if ok then modifyItem addr (\<lambda>i. i\<lparr>ciRows := Some rows\<rparr>) acm else acm)"
        using assms(1) blk False cur
        by (simp add: setCacheItemRows_def Let_def split: option.splits prod.splits if_splits)
      have "cacheInv acm" using purge_evicts[OF p] cacheInv_evictsSome inv by blast
      then show ?thesis using r by (auto intro!: cacheInv_modifyItem simp: itemOk_def)
    qed
  qed
qed

lemma cacheInv_StoreRowsCompact:
  "StoreRowsCompact ord addr rows block ac = Some (b, ac') \<Longrightarrow> cacheInv ac \<Longrightarrow> cacheInv ac'"
  by (auto simp: StoreRowsCompact_def split: if_splits intro: cacheInv_setCacheItemRows)

lemma cacheInv_StoreRows:
  "StoreRows nh ord addr rows block ac = Ret (Some (b, ac')) \<Longrightarrow> cacheInv ac \<Longrightarrow> cacheInv ac'"
  by (auto simp: StoreRows_def mapGo_def split: if_splits go.splits intro: cacheInv_StoreRowsCompact)

lemma itemOk_set [simp]:
  "itemOk p m x (i\<lparr>ciRows := r\<rparr>) = itemOk p m x i" "itemOk p m x (i\<lparr>ciBalance := l\<rparr>) = itemOk p m x i"
  "itemOk p m x i \<Longrightarrow> int (length us) \<le> m \<or> x = p \<Longrightarrow> itemOk p m x (i\<lparr>ciUtxos := Some us\<rparr>)"
  "itemOk p m x i \<Longrightarrow> itemOk p m x (i\<lparr>ciUtxos := None\<rparr>)"
  by (auto simp: itemOk_def)

lemma setHistory_ok: "setHistory c g cd = Some f \<Longrightarrow> itemOk p m x i \<Longrightarrow> itemOk p m x (f i)"
  by (cases c) (auto simp: setHistory_def itemOk_def)

text \<open>What every storing function does: nothing, add a fresh item, or write to the current one.\<close>

lemma cacheInv_store:
  assumes "ac' = ac \<or> addCacheItem ord addr aci ac = Some (b, ac') \<or> ac' = modifyItem addr f ac"
    and "cacheInv ac" and "itemOk (acProject ac) (acMaxUTXOsPerAddr ac) addr aci"
    and "\<And>i. itemOk (acProject ac) (acMaxUTXOsPerAddr ac) addr i
      \<Longrightarrow> itemOk (acProject ac) (acMaxUTXOsPerAddr ac) addr (f i)"
  shows "cacheInv ac'"
  using assms cacheInv_addCacheItem cacheInv_modifyItem by metis

lemma cacheInv_StoreBalance:
  assumes "StoreBalance ord addr balance block ac = Some (b, ac')" and inv: "cacheInv ac"
  shows "cacheInv ac'"
proof -
  obtain blk bal where "ac' = ac \<or> addCacheItem ord addr ((freshItem blk)\<lparr>ciBalance := Some bal\<rparr>) ac = Some (b, ac')
      \<or> ac' = modifyItem addr (\<lambda>i. i\<lparr>ciBalance := Some bal\<rparr>) ac"
    using assms(1) unfolding StoreBalance_def Let_def by (auto split: option.splits if_splits)
  then show ?thesis by (rule cacheInv_store[OF _ inv]) auto
qed

lemma cacheInv_StoreUTXOs:
  assumes "StoreUTXOs ord addr utxos block ac = Some (b, ac')" and inv: "cacheInv ac"
  shows "cacheInv ac'"
proof (cases "int (length (elems utxos)) > acMaxUTXOsPerAddr ac \<and> addr \<noteq> acProject ac")
  case True
  then show ?thesis using assms by (auto simp: StoreUTXOs_def split: option.splits if_splits)
next
  case False
  obtain blk where "ac' = ac \<or> addCacheItem ord addr ((freshItem blk)\<lparr>ciUtxos := Some (elems utxos)\<rparr>) ac = Some (b, ac')
      \<or> ac' = modifyItem addr (\<lambda>i. i\<lparr>ciUtxos := Some (elems utxos)\<rparr>) ac"
    using assms(1) unfolding StoreUTXOs_def Let_def by (auto split: option.splits if_splits)
  then show ?thesis
  proof (rule cacheInv_store[OF _ inv])
    show "itemOk (acProject ac) (acMaxUTXOsPerAddr ac) addr ((freshItem blk)\<lparr>ciUtxos := Some (elems utxos)\<rparr>)"
      using False by (intro itemOk_fresh(4)) auto
  next
    fix i assume "itemOk (acProject ac) (acMaxUTXOsPerAddr ac) addr (i :: 'a AddressCacheItem)"
    then show "itemOk (acProject ac) (acMaxUTXOsPerAddr ac) addr (i\<lparr>ciUtxos := Some (elems utxos)\<rparr>)"
      using False by (intro itemOk_set(3)) auto
  qed
qed

lemma cacheInv_StoreHistoryChart:
  assumes "StoreHistoryChart ord addr chart g cd block ac = Some (b, ac')" and inv: "cacheInv ac"
  shows "cacheInv ac'"
proof (cases "block = None \<or> acCap ac < 1 \<or> acCapAddr ac < 1 \<or> groupingIdx g \<ge> NumIntervals")
  case True
  then show ?thesis using assms by (auto simp: StoreHistoryChart_def split: option.splits if_splits)
next
  case False
  then obtain blk where blk: "block = Some blk" by auto
  obtain b1 acm where r: "historyItem ord addr blk ac = Some (b1, acm)"
    using assms(1) False blk by (auto simp: StoreHistoryChart_def split: option.splits)
  have acm: "cacheInv acm"
    using r inv cacheInv_addCacheItem[OF _ inv] by (auto simp: historyItem_def split: if_splits)
  let ?c = "case cd of None \<Rightarrow> emptyChartsData | Some c \<Rightarrow> c"
  have eq: "Some (b, ac') = (if b1 then (case setHistory chart (groupingIdx g) ?c of
      None \<Rightarrow> Some (False, acm) | Some f \<Rightarrow> Some (True, modifyItem addr f acm)) else Some (False, acm))"
    unfolding assms(1)[symmetric] StoreHistoryChart_def Let_def blk option.case r using False by simp
  show ?thesis
  proof (cases "setHistory chart (groupingIdx g) ?c")
    case None
    then have "ac' = acm" using eq by (cases b1) simp_all
    then show ?thesis using acm by simp
  next
    case (Some f)
    then have "ac' = acm \<or> ac' = modifyItem addr f acm" using eq by (cases b1) simp_all
    moreover have "cacheInv (modifyItem addr f acm)"
      by (intro cacheInv_modifyItem[OF acm] setHistory_ok[OF Some])
    ultimately show ?thesis using acm by metis
  qed
qed

text \<open>
  The states of a cache: created with some capacities, given a project address, and then used
  through its methods in any sequence, with any order of the map at each call.
\<close>

inductive acReach :: "int \<Rightarrow> int \<Rightarrow> int \<Rightarrow> ('f::zero) AddressCache \<Rightarrow> bool" for r a u where
  new: "acReach r a u ((NewAddressCache r a u)\<lparr>acProject := p\<rparr>)"
| storeRows: "acReach r a u ac \<Longrightarrow> StoreRows nh ord addr rs block ac = Ret (Some (b, ac')) \<Longrightarrow> acReach r a u ac'"
| storeRowsCompact: "acReach r a u ac \<Longrightarrow> StoreRowsCompact ord addr cs block ac = Some (b, ac') \<Longrightarrow> acReach r a u ac'"
| storeBalance: "acReach r a u ac \<Longrightarrow> StoreBalance ord addr bal block ac = Some (b, ac') \<Longrightarrow> acReach r a u ac'"
| storeUTXOs: "acReach r a u ac \<Longrightarrow> StoreUTXOs ord addr us block ac = Some (b, ac') \<Longrightarrow> acReach r a u ac'"
| storeHistory: "acReach r a u ac \<Longrightarrow> StoreHistoryChart ord addr chart g cd block ac = Some (b, ac') \<Longrightarrow> acReach r a u ac'"
| clearUTXOs: "acReach r a u ac \<Longrightarrow> acReach r a u (ClearUTXOs addr ac)"
| clearRows: "acReach r a u ac \<Longrightarrow> acReach r a u (ClearRows addr ac)"
| clear: "acReach r a u ac \<Longrightarrow> acReach r a u (snd (Clear addrs ac))"
| getBalance: "acReach r a u ac \<Longrightarrow> acReach r a u (snd (Balance addr ac))"
| getUTXOs: "acReach r a u ac \<Longrightarrow> acReach r a u (snd (UTXOs addr ac))"
| getHistory: "acReach r a u ac \<Longrightarrow> acReach r a u (snd (cacheHistoryChart addr chart g ac))"
| getRows: "acReach r a u ac \<Longrightarrow> acReach r a u (snd (Rows addr ac))"
| transactions: "acReach r a u ac \<Longrightarrow> acReach r a u (snd (Transactions hs addr N offset view ac))"

lemma cacheInv_count [simp]: "cacheInv (count f ac) = cacheInv ac"
  by (simp add: cacheInv_def count_def wfItems_def NumAddresses_def addressCacheItem_def)

lemma count_limits [simp]:
  "acCap (count f ac) = acCap ac" "acCapAddr (count f ac) = acCapAddr ac"
  "acMaxUTXOsPerAddr (count f ac) = acMaxUTXOsPerAddr ac" "acProject (count f ac) = acProject ac"
  by (simp_all add: count_def)

text \<open>A read only counts a hit or a miss.\<close>

lemma reads_count:
  "\<exists>f. snd (Balance addr ac) = count f ac" "\<exists>f. snd (UTXOs addr ac) = count f ac"
  "\<exists>f. snd (cacheHistoryChart addr chart g ac) = count f ac" "\<exists>f. snd (Rows addr ac) = count f ac"
  "\<exists>f. snd (Transactions hs addr N offset view ac) = count f ac"
proof -
  have "ac = count (\<lambda>m. m) ac" by (simp add: count_def)
  then show "\<exists>f. snd (Transactions hs addr N offset view ac) = count f ac"
    by (auto simp: Transactions_def TransactionsMerged_def TransactionsCompact_def
        split: option.splits bool.splits)
qed (auto simp: Balance_def UTXOs_def cacheHistoryChart_def Rows_def split: option.splits prod.splits)

lemma cacheInv_Clear: "cacheInv ac \<Longrightarrow> cacheInv (snd (Clear addrs ac))"
proof -
  assume inv: "cacheInv ac"
  have del: "cacheInv ac' \<Longrightarrow> cacheInv (ac'\<lparr>acItems := AList.delete x (acItems ac')\<rparr>)" for ac' :: "'a AddressCache" and x
  proof -
    assume ok: "cacheInv ac'"
    have "int (length (filter (\<lambda>p. fst p \<noteq> x) (acItems ac'))) \<le> int (length (acItems ac'))" by simp
    also have "\<dots> \<le> max 0 (acCapAddr ac')" using ok by (simp add: cacheInv_def NumAddresses_def)
    finally have "cacheInv (evicts {x} ac')"
      using ok by (auto simp: cacheInv_def NumAddresses_def split: if_splits)
    then show ?thesis using evict_evicts[of x ac'] by (simp add: evict_def)
  qed
  have "cacheInv (snd (fold (\<lambda>x (n, ac). (n + 1, ac\<lparr>acItems := AList.delete x (acItems ac)\<rparr>)) as (n, ac')))"
    if "cacheInv ac'" for as n and ac' :: "'a AddressCache"
    using that by (induction as arbitrary: n ac') (auto simp: del)
  then show ?thesis using inv
    by (auto simp: Clear_def ClearAll_def cacheInv_def wfItems_def NumAddresses_def addressCacheItem_def
        split: option.splits)
qed

subsection \<open>Mutual exclusion\<close>

text \<open>
  Callers of the lock: a caller that finds an address free becomes a holder, and calls its \<open>done\<close>
  function at most once, when it holds. The state is the lock and the set of the holders.
\<close>

inductive lockReach :: "CacheLock \<times> (string \<times> nat) set \<Rightarrow> bool" where
  init: "lockReach (NewCacheLock, {})"
| acquire: "lockReach (cl, H) \<Longrightarrow> TryLock addr cl = ((False, w, Some ch), cl') \<Longrightarrow> lockReach (cl', insert (addr, ch) H)"
| busy: "lockReach (cl, H) \<Longrightarrow> TryLock addr cl = ((True, w, d), cl') \<Longrightarrow> lockReach (cl', H)"
| release: "lockReach (cl, H) \<Longrightarrow> (addr, ch) \<in> H \<Longrightarrow> lockReach (snd (clRelease addr ch cl), H - {(addr, ch)})"

definition lockInv :: "CacheLock \<Rightarrow> (string \<times> nat) set \<Rightarrow> bool" where
  "lockInv cl H \<longleftrightarrow> (\<forall>addr ch. (addr, ch) \<in> H \<longleftrightarrow> clAddrs cl addr = Some ch) \<and>
     (\<forall>addr addr' ch. clAddrs cl addr = Some ch \<longrightarrow> clAddrs cl addr' = Some ch \<longrightarrow> addr = addr') \<and>
     (\<forall>addr ch. clAddrs cl addr = Some ch \<longrightarrow> ch < clNext cl \<and> ch \<notin> clClosed cl) \<and>
     (\<forall>ch\<in>clClosed cl. ch < clNext cl)"

lemma lockInv_acquire:
  assumes "lockInv cl H" and "clAddrs cl addr = None"
  shows "lockInv (snd (clHold addr cl)) (insert (addr, clNext cl) H)"
  using assms unfolding lockInv_def clHold_def by (auto split: if_splits) (metis less_Suc_eq less_irrefl)+

lemma lockInv_release:
  assumes "lockInv cl H" and "(addr, ch) \<in> H"
  shows "clRelease addr ch cl = (Ret (), (clDone addr cl)\<lparr>clClosed := insert ch (clClosed cl)\<rparr>)"
    and "lockInv (snd (clRelease addr ch cl)) (H - {(addr, ch)})"
proof -
  have a: "clAddrs cl addr = Some ch" and n: "ch \<notin> clClosed cl" using assms by (auto simp: lockInv_def)
  then show r: "clRelease addr ch cl = (Ret (), (clDone addr cl)\<lparr>clClosed := insert ch (clClosed cl)\<rparr>)"
    by (simp add: clRelease_def clDone_def Let_def)
  show "lockInv (snd (clRelease addr ch cl)) (H - {(addr, ch)})"
    unfolding r using assms a n by (auto simp: lockInv_def clDone_def split: if_splits)
qed

lemma lockReach_inv: "lockReach s \<Longrightarrow> lockInv (fst s) (snd s)"
proof (induction rule: lockReach.induct)
  case init
  then show ?case by (simp add: lockInv_def NewCacheLock_def)
next
  case (acquire cl H addr w ch cl')
  then have "clAddrs cl addr = None" "ch = clNext cl" "cl' = snd (clHold addr cl)"
    by (auto simp: TryLock_def clHold_def split: option.splits)
  then show ?case using lockInv_acquire[of cl H addr] acquire.IH by simp
next
  case (busy cl H addr w d cl')
  then show ?case by (auto simp: TryLock_def clHold_def split: option.splits)
next
  case (release cl H addr ch)
  then show ?case using lockInv_release(2) by simp
qed

subsection \<open>Properties\<close>

text \<open>C27: mutual exclusion of the cache lock. In every reachable state two holders never hold the same
  address, \<open>TryLock\<close> reports an address as busy exactly when some caller holds it, handing out that
  caller's channel, which is still open, and the release by a holder does not panic, frees the
  address and closes the channel that the waiting callers received.\<close>

theorem CacheLock_exclusive:
  assumes "lockReach (cl, H)"
  shows "((addr, ch) \<in> H \<longrightarrow> (addr, ch') \<in> H \<longrightarrow> ch = ch')
    \<and> (\<exists>w d. fst (TryLock addr cl) = (\<exists>c. (addr, c) \<in> H, w, d)
         \<and> (\<forall>c. w = Some c \<longrightarrow> (addr, c) \<in> H \<and> c \<notin> clClosed cl))
    \<and> ((addr, ch) \<in> H \<longrightarrow> (\<exists>cl'. clRelease addr ch cl = (Ret (), cl')
         \<and> clAddrs cl' addr = None \<and> ch \<in> clClosed cl'))"
proof -
  have inv: "lockInv cl H" using lockReach_inv[OF assms] by simp
  have "fst (TryLock addr cl) = (\<exists>c. (addr, c) \<in> H, clAddrs cl addr,
      if clAddrs cl addr = None then Some (clNext cl) else None)"
    using inv by (auto simp: TryLock_def clHold_def lockInv_def split: option.splits)
  moreover have "\<forall>c. clAddrs cl addr = Some c \<longrightarrow> (addr, c) \<in> H \<and> c \<notin> clClosed cl"
    using inv by (auto simp: lockInv_def)
  moreover have "(addr, ch) \<in> H \<longrightarrow> (\<exists>cl'. clRelease addr ch cl = (Ret (), cl')
      \<and> clAddrs cl' addr = None \<and> ch \<in> clClosed cl')"
    using lockInv_release(1)[OF inv] by (auto simp: clDone_def)
  moreover have "(addr, ch) \<in> H \<longrightarrow> (addr, ch') \<in> H \<longrightarrow> ch = ch'" using inv by (auto simp: lockInv_def)
  ultimately show ?thesis by blast
qed

text \<open>A lock held on one address.\<close>

definition exLock :: CacheLock where
  "exLock = snd (TryLock ''Ds'' NewCacheLock)"

theorem CacheLock_exclusive_witness:
  "fst (TryLock ''Ds'' exLock) = (True, Some 0, None) \<and> fst (clRelease ''Ds'' 0 exLock) = Ret ()"
proof -
  have t: "TryLock ''Ds'' NewCacheLock = ((False, None, Some 0), exLock)"
    by (simp add: exLock_def TryLock_def clHold_def NewCacheLock_def)
  have r: "lockReach (exLock, {(''Ds'', 0)})"
    using lockReach.acquire[OF lockReach.init t] by simp
  have "fst (clRelease ''Ds'' 0 exLock) = Ret ()"
    using CacheLock_exclusive[OF r, of "''Ds''" 0 0] by auto
  then show ?thesis by (simp add: exLock_def TryLock_def clHold_def NewCacheLock_def)
qed

text \<open>C13: the invariant of the cache. Whatever methods are called, and in whatever order Go visits its
  maps, an address has one item, the number of the cached addresses stays within the address
  capacity, an item other than the project's never holds more UTXOs than the limit per address,
  and the history arrays keep one place for each interval.\<close>

theorem cache_invariant:
  assumes "acReach r a u ac"
  shows "distinct (map fst (acItems ac)) \<and> NumAddresses ac \<le> max 0 (acCapAddr ac)
    \<and> (addressCacheItem addr ac = Some i \<longrightarrow>
        length (thTypeByInterval (ciHistory i)) = NumIntervals
        \<and> length (thAmtFlowByInterval (ciHistory i)) = NumIntervals
        \<and> (addr = acProject ac \<or> ciUtxos i = None \<or> int (length (the (ciUtxos i))) \<le> acMaxUTXOsPerAddr ac))"
proof -
  have "cacheInv ac" using assms
  proof (induction rule: acReach.induct)
    case (new p)
    then show ?case
      by (simp add: cacheInv_def NewAddressCache_def wfItems_def NumAddresses_def addressCacheItem_def Let_def)
  next
    case (clearUTXOs ac addr)
    then show ?case by (auto simp: ClearUTXOs_def intro!: cacheInv_modifyItem)
  next
    case (clearRows ac addr)
    then show ?case by (auto simp: ClearRows_def intro!: cacheInv_modifyItem)
  next
    case (getBalance ac addr)
    then show ?case using reads_count(1)[of addr ac] by auto
  next
    case (getUTXOs ac addr)
    then show ?case using reads_count(2)[of addr ac] by auto
  next
    case (getHistory ac addr chart g)
    then show ?case using reads_count(3)[of addr chart g ac] by auto
  next
    case (getRows ac addr)
    then show ?case using reads_count(4)[of addr ac] by auto
  next
    case (transactions ac hs addr N offset view)
    then show ?case using reads_count(5)[of hs addr N offset view ac] by auto
  qed (blast intro: cacheInv_StoreRows cacheInv_StoreRowsCompact cacheInv_StoreBalance
      cacheInv_StoreUTXOs cacheInv_StoreHistoryChart cacheInv_Clear)+
  then show ?thesis by (auto simp: cacheInv_def wfItems_def itemOk_def)
qed

text \<open>Caches for the witnesses: one item with a balance, in a cache for one address.\<close>

definition exBlock :: "Hash \<Rightarrow> BlockID" where
  "exBlock h = \<lparr>biHash = h, biHeight = 9\<rparr>"

definition exBalance :: "int AddressBalance" where
  "exBalance = \<lparr>abAddress = ''Ds'', abNumSpent = 0, abNumUnspent = 1, abTotalSpent = 0, abTotalUnspent = 7,
     abFromStake = 0, abToStake = 0\<rparr>"

definition exEmpty :: "int \<Rightarrow> int \<Rightarrow> int AddressCache" where
  "exEmpty rows addrs = (NewAddressCache rows addrs 1000)\<lparr>acProject := ''Dp''\<rparr>"

definition exCache :: "int \<Rightarrow> int \<Rightarrow> (string \<times> int AddressCacheItem) list \<Rightarrow> int AddressCache" where
  "exCache rows addrs items = (exEmpty rows addrs)\<lparr>acItems := items\<rparr>"

lemma exCache_simps [simp]:
  "acCap (exCache r a xs) = r" "acCapAddr (exCache r a xs) = a" "acProject (exCache r a xs) = ''Dp''"
  "acItems (exCache r a xs) = xs" "NumAddresses (exCache r a xs) = int (length xs)"
  "addressCacheItem x (exCache r a xs) = map_of xs x"
  "evict x (exCache r a xs) = exCache r a (AList.delete x xs)"
  "putItem x i (exCache r a xs) = exCache r a (AList.update x i xs)"
  "rowTotal (exCache r a xs) = (\<Sum>p\<leftarrow>xs. numRowsOf (snd p))"
  by (simp_all add: exCache_def exEmpty_def NewAddressCache_def NumAddresses_def addressCacheItem_def
      evict_def putItem_def rowTotal_def Let_def)

lemma exEmpty_exCache: "exEmpty r a = exCache r a []"
  by (simp add: exCache_def exEmpty_def NewAddressCache_def Let_def)

lemma exItem_simps [simp]:
  "ciRows (freshItem b) = None" "ciHash (freshItem b) = biHash b"
  "numRowsOf (freshItem b) = 0" "numRowsOf (i\<lparr>ciRows := Some rs\<rparr>) = int (length rs)"
  "numRowsOf (i\<lparr>ciBalance := l\<rparr>) = numRowsOf i" "biHash (exBlock h) = h"
  by (simp_all add: freshItem_def numRowsOf_def exBlock_def)

lemmas purge_run = purgeRowsToFit_def clearAddrs.simps clearRows.simps Let_def rowsAt_def

lemma exStoreBalance:
  "StoreBalance id ''Ds'' (Some exBalance) (Some (exBlock 1)) (exEmpty 5 1)
   = Some (True, exCache 5 1 [(''Ds'', (freshItem (exBlock 1))\<lparr>ciBalance := Some exBalance\<rparr>)])"
  by (simp add: StoreBalance_def exEmpty_exCache staleOrMissing_def addCacheItem_def purge_run)

theorem cache_invariant_witness:
  "NumAddresses (exCache 5 1 [(''Ds'', (freshItem (exBlock 1))\<lparr>ciBalance := Some exBalance\<rparr>)]) \<le> 1"
proof -
  have "acReach 5 1 1000 (exCache 5 1 [(''Ds'', (freshItem (exBlock 1))\<lparr>ciBalance := Some exBalance\<rparr>)])"
    using acReach.storeBalance[OF acReach.new[of 5 1 1000 "''Dp''"] exStoreBalance[unfolded exEmpty_def]] .
  from cache_invariant[OF this, of "''Ds''"] show ?thesis by simp
qed

text \<open>C25: when making room ends. For any order of the map the loop over the addresses ends, and
  \<open>purgeRowsToFit\<close> fails to return exactly when the project address alone exceeds what the new rows
  leave of the row capacity while some other address, without rows, is left in the cache; so it
  returns whenever the rows of the project address fit beside the new ones.\<close>

theorem purge_returns:
  assumes "ordOk ord" and "distinct (map fst (acItems ac))" and "1 \<le> acCap ac" and "1 \<le> acCapAddr ac"
  shows "(\<exists>ac1. clearAddrs ord ac = Some ac1 \<and> (purgeRowsToFit ord n ac = None \<longleftrightarrow> rowStuck n ac1))
    \<and> (rowsAt ac (acProject ac) + n \<le> acCap ac \<longrightarrow> purgeRowsToFit ord n ac \<noteq> None)"
proof -
  have wf: "wfItems ac" using assms(2) by (simp add: wfItems_def)
  obtain ac1 where 1: "clearAddrs ord ac = Some ac1" "evictsSome ac ac1"
    "purgeRowsToFit ord n ac = None \<longleftrightarrow> rowStuck n ac1"
    using purge_returns_iff[OF assms(1) wf assms(3,4)] by blast
  have "rowsAt ac (acProject ac) + n \<le> acCap ac \<longrightarrow> \<not> rowStuck n ac1"
    using evictsSome_rowStuck[OF 1(2), of n] rowStuck_def[of n ac] by linarith
  then show ?thesis using 1 by simp
qed

theorem purge_returns_witness:
  "purgeRowsToFit id 5 (exCache 6 3 [(''Dp'', (freshItem (exBlock 1))\<lparr>ciRows := Some [exCompact 1 True 5, exCompact 2 True 5]\<rparr>),
     (''Ds'', freshItem (exBlock 1))]) = None"
proof -
  let ?ac = "exCache 6 3 [(''Dp'', (freshItem (exBlock 1))\<lparr>ciRows := Some [exCompact 1 True 5, exCompact 2 True 5]\<rparr>),
     (''Ds'', freshItem (exBlock 1))]"
  have "clearAddrs id ?ac = Some ?ac" by (simp add: clearAddrs.simps)
  moreover have "rowStuck 5 ?ac" by (simp add: rowStuck_def rowsAt_def)
  ultimately show ?thesis using purge_returns[of id ?ac 5] by (simp add: ordOk_def)
qed

text \<open>what adding an item does. When \<open>addCacheItem\<close> succeeds, the item is cached, any other address
  either keeps its item or is evicted, the project address is not evicted, the addresses are within
  their capacity, and the rows exceed the row capacity by at most the rows that were cached for
  the address before, so not at all for an address that was not cached.\<close>

theorem addCacheItem_spec:
  assumes "distinct (map fst (acItems ac))" and "addCacheItem ord addr aci ac = Some (True, ac')"
  shows "addressCacheItem addr ac' = Some aci
    \<and> (x \<noteq> addr \<longrightarrow> addressCacheItem x ac' = addressCacheItem x ac \<or> addressCacheItem x ac' = None)
    \<and> (acProject ac \<noteq> addr \<longrightarrow> addressCacheItem (acProject ac) ac' = addressCacheItem (acProject ac) ac)
    \<and> NumAddresses ac' \<le> acCapAddr ac
    \<and> rowTotal ac' \<le> acCap ac + rowsAt ac addr"
  using assms(2)
proof (cases rule: addCacheItem_cases)
  case full
  then show ?thesis by simp
next
  case (added acm)
  note e = evictsSome_simps[OF added(2)]
  have wf: "wfItems acm" using assms(1) by (intro e(5)) (simp add: wfItems_def)
  have "rowTotal ac' = rowTotal acm - rowsAt acm addr + numRowsOf aci"
    unfolding added(3) by (rule rowTotal_putItem[OF wf])
  then have "rowTotal ac' \<le> acCap ac + rowsAt ac addr" using added(4) rowsAt_ge0[of acm addr] by linarith
  moreover have "NumAddresses ac' \<le> acCapAddr ac" unfolding added(3) using added(5) by (simp add: NumAddresses_putItem)
  ultimately show ?thesis using e(6)[of x] e(7) by (auto simp: added(3))
qed

theorem addCacheItem_spec_witness:
  "NumAddresses (exCache 5 1 [(''Ds'', freshItem (exBlock 1))]) \<le> 1"
  using addCacheItem_spec[of "exCache 5 1 [(''Dt'', freshItem (exBlock 1))]" id "''Ds''" "freshItem (exBlock 1)"
      "exCache 5 1 [(''Ds'', freshItem (exBlock 1))]" "''Dt''"]
  by (simp add: addCacheItem_def purge_run)

text \<open>the row capacity can be exceeded. The rows that an address had are subtracted before making
  room, but its old item may be the one that is evicted: a cache with room for three rows then
  accepts six.\<close>

theorem row_capacity_exceeded:
  "\<exists>ac'. StoreRowsCompact id ''Ds'' (Some (replicate 6 (exCompact 1 True 5))) (Some (exBlock 2))
      (exCache 3 2 [(''Ds'', (freshItem (exBlock 1))\<lparr>ciRows := Some (replicate 3 (exCompact 1 True 5))\<rparr>),
        (''Dt'', (freshItem (exBlock 1))\<lparr>ciBalance := Some exBalance\<rparr>)]) = Some (True, ac')
    \<and> acCap ac' = 3 \<and> rowTotal ac' = 6"
  by (simp add: StoreRowsCompact_def setCacheItemRows_def staleOrMissing_def BlockHash_def addCacheItem_def purge_run)

text \<open>the cache never mixes blocks. A successful store for an address whose item is missing or of
  another block leaves an item of the given block that holds the stored data only: what was cached
  at the old block, the history and the balance included, is gone.\<close>

theorem stores_replace_stale_items:
  assumes "staleOrMissing addr b ac" and "distinct (map fst (acItems ac))"
  shows "(StoreRowsCompact ord addr rows (Some b) ac = Some (True, ac1) \<longrightarrow>
        addressCacheItem addr ac1 = Some ((freshItem b)\<lparr>ciRows := Some (elems rows)\<rparr>))
    \<and> (StoreBalance ord addr (Some bal) (Some b) ac = Some (True, ac2) \<longrightarrow>
        addressCacheItem addr ac2 = Some ((freshItem b)\<lparr>ciBalance := Some bal\<rparr>))
    \<and> (StoreUTXOs ord addr utxos (Some b) ac = Some (True, ac3) \<longrightarrow>
        addressCacheItem addr ac3 = Some ((freshItem b)\<lparr>ciUtxos := Some (elems utxos)\<rparr>))"
proof -
  have add: "addCacheItem ord addr i ac = Some (True, ac') \<Longrightarrow> addressCacheItem addr ac' = Some i" for i ac'
    by (erule addCacheItem_cases) auto
  show ?thesis using assms(1) add
    by (auto simp: StoreRowsCompact_def setCacheItemRows_def StoreBalance_def StoreUTXOs_def Let_def
        split: if_splits)
qed

theorem stores_replace_stale_items_witness:
  "addressCacheItem ''Ds'' (exCache 5 2 [(''Ds'', (freshItem (exBlock 2))\<lparr>ciBalance := Some exBalance\<rparr>)])
   = Some ((freshItem (exBlock 2))\<lparr>ciBalance := Some exBalance\<rparr>)"
proof -
  let ?ac = "exCache 5 2 [(''Ds'', (freshItem (exBlock 1))\<lparr>ciRows := Some [exCompact 1 True 5]\<rparr>)]"
  have "staleOrMissing ''Ds'' (exBlock 2) ?ac" by (simp add: staleOrMissing_def BlockHash_def)
  moreover have "StoreBalance id ''Ds'' (Some exBalance) (Some (exBlock 2)) ?ac
      = Some (True, exCache 5 2 [(''Ds'', (freshItem (exBlock 2))\<lparr>ciBalance := Some exBalance\<rparr>)])"
    by (simp add: StoreBalance_def staleOrMissing_def BlockHash_def addCacheItem_def purge_run)
  ultimately show ?thesis
    using stores_replace_stale_items[of "''Ds''" "exBlock 2" ?ac id None ?ac exBalance
        "exCache 5 2 [(''Ds'', (freshItem (exBlock 2))\<lparr>ciBalance := Some exBalance\<rparr>)]" None ?ac]
    by simp
qed

text \<open>a store for an address whose item is of the given block keeps the rest of the item. The
  balance and, within the limit, the UTXOs are then stored without evicting anything, and are read
  back with the block of the item; no other address changes.\<close>

theorem stores_update_current_items:
  assumes "addressCacheItem addr ac = Some i" and "ciHash i = biHash b"
    and "1 \<le> acCap ac" and "1 \<le> acCapAddr ac"
    and "int (length (elems utxos)) \<le> acMaxUTXOsPerAddr ac \<or> addr = acProject ac"
  shows "\<exists>ac1 ac2. StoreBalance ord addr (Some bal) (Some b) ac = Some (True, ac1)
    \<and> StoreUTXOs ord addr utxos (Some b) ac1 = Some (True, ac2)
    \<and> addressCacheItem addr ac2 = Some (i\<lparr>ciBalance := Some bal, ciUtxos := Some (elems utxos)\<rparr>)
    \<and> fst (Balance addr ac2) = (Some bal, Some (ciBlockID i))
    \<and> fst (UTXOs addr ac2) = (Some (elems utxos), Some (ciBlockID i))
    \<and> (x \<noteq> addr \<longrightarrow> addressCacheItem x ac2 = addressCacheItem x ac)"
proof -
  let ?ac1 = "modifyItem addr (\<lambda>i. i\<lparr>ciBalance := Some bal\<rparr>) ac"
  let ?ac2 = "modifyItem addr (\<lambda>i. i\<lparr>ciUtxos := Some (elems utxos)\<rparr>) ?ac1"
  have "StoreBalance ord addr (Some bal) (Some b) ac = Some (True, ?ac1)"
    using assms by (simp add: StoreBalance_def staleOrMissing_def BlockHash_def Let_def)
  moreover have "StoreUTXOs ord addr utxos (Some b) ?ac1 = Some (True, ?ac2)"
    using assms by (auto simp: StoreUTXOs_def staleOrMissing_def BlockHash_def Let_def)
  moreover have it: "addressCacheItem addr ?ac2 = Some (i\<lparr>ciBalance := Some bal, ciUtxos := Some (elems utxos)\<rparr>)"
    using assms(1) by simp
  moreover have "fst (Balance addr ?ac2) = (Some bal, Some (ciBlockID i))"
    unfolding Balance_def it by (simp add: itemBalance_def ciBlockID_def)
  moreover have "fst (UTXOs addr ?ac2) = (Some (elems utxos), Some (ciBlockID i))"
    unfolding UTXOs_def it by (simp add: itemUTXOs_def ciBlockID_def)
  moreover have "x \<noteq> addr \<longrightarrow> addressCacheItem x ?ac2 = addressCacheItem x ac" by simp
  ultimately show ?thesis by (intro exI[of _ ?ac1] exI[of _ ?ac2]) (simp only: simp_thms)
qed

theorem stores_update_current_items_witness:
  "\<exists>ac1 ac2. StoreBalance id ''Ds'' (Some exBalance) (Some (exBlock 1)) (exCache 5 1 [(''Ds'', freshItem (exBlock 1))]) = Some (True, ac1)
    \<and> StoreUTXOs id ''Ds'' None (Some (exBlock 1)) ac1 = Some (True, ac2)
    \<and> fst (Balance ''Ds'' ac2) = (Some exBalance, Some (exBlock 1))"
  using stores_update_current_items[of "''Ds''" "exCache 5 1 [(''Ds'', freshItem (exBlock 1))]" "freshItem (exBlock 1)"
      "exBlock 1" None id exBalance "''Ds''"]
  by (auto simp: exCache_def exEmpty_def NewAddressCache_def Let_def ciBlockID_def freshItem_def exBlock_def
      addressCacheItem_def)

text \<open>rows may be lost while the store reports success. In a cache that is at its address capacity
  and holds a current item without rows for the only address, storing rows evicts that item, and
  writes the rows to the evicted item: the result is true, and the cache is empty.\<close>

theorem StoreRowsCompact_loses_rows:
  assumes "acItems ac = [(addr, i)]" and "acCapAddr ac = 1" and "addr \<noteq> acProject ac"
    and "ciHash i = biHash b" and "ciRows i = None" and "1 \<le> acCap ac"
    and "int (length (elems rows)) \<le> acCap ac" and "ordOk ord"
  shows "\<exists>ac'. StoreRowsCompact ord addr rows (Some b) ac = Some (True, ac') \<and> acItems ac' = []
    \<and> fst (Rows addr ac') = (None, None)"
proof -
  have it: "addressCacheItem addr ac = Some i" using assms(1) by (simp add: addressCacheItem_def)
  have "set (ord [addr]) = {addr}" using assms(8) by (simp add: ordOk_def)
  then obtain ks where ks: "ord [addr] = addr # ks" by (cases "ord [addr]") auto
  have v: "visitAddrs (acProject ac) n (ord (map fst (acItems ac))) = Evict addr" for n
    using assms(1,3) ks by simp
  let ?e = "ac\<lparr>acItems := []\<rparr>"
  have ev: "evict addr ac = ?e" using assms(1) by (simp add: evict_def)
  have e: "clearAddrs ord ?e = Some ?e" using assms(2) by (simp add: clearAddrs.simps NumAddresses_def)
  have "clearAddrs ord ac = Some ?e"
    using assms(1,2) v e ev by (simp add: clearAddrs.simps[of ord ac] NumAddresses_def)
  moreover have "clearRows ord n ?e = Some ?e" for n by (simp add: clearRows.simps rowTotal_def Let_def)
  ultimately have "purgeRowsToFit ord (int (length (elems rows))) ac = Some (True, ?e)"
    using assms(2,6,7) by (simp add: purgeRowsToFit_def rowTotal_def NumAddresses_def)
  then have "StoreRowsCompact ord addr rows (Some b) ac = Some (True, modifyItem addr (\<lambda>i. i\<lparr>ciRows := Some (elems rows)\<rparr>) ?e)"
    using assms it by (simp add: StoreRowsCompact_def setCacheItemRows_def staleOrMissing_def BlockHash_def numRowsOf_def Let_def)
  then show ?thesis by (simp add: modifyItem_def addressCacheItem_def Rows_def)
qed

theorem StoreRowsCompact_loses_rows_witness:
  "\<exists>ac'. StoreRowsCompact id ''Ds'' (Some [exCompact 1 True 5]) (Some (exBlock 1))
      (exCache 5 1 [(''Ds'', freshItem (exBlock 1))]) = Some (True, ac')
    \<and> acItems ac' = [] \<and> fst (Rows ''Ds'' ac') = (None, None)"
  by (rule StoreRowsCompact_loses_rows[where i = "freshItem (exBlock 1)"]) (simp_all add: ordOk_def)

text \<open>The compact rows that a view of single rows shows.\<close>

fun viewRowCompact :: "AddrTxnViewType \<Rightarrow> AddressRowCompact \<Rightarrow> bool" where
  "viewRowCompact AddrTxnAll r = True"
| "viewRowCompact AddrTxnCredit r = acIsFunding r"
| "viewRowCompact AddrTxnDebit r = (\<not> acIsFunding r)"
| "viewRowCompact AddrUnspentTxn r = (acIsFunding r \<and> IsZeroHash (acMatchingTxHash r))"
| "viewRowCompact _ r = False"

text \<open>the pages that a cached item serves. For rows that are cached, valid arguments and a view of
  single rows, \<open>TransactionsCompact\<close> reports a hit and the block of the item, and delivers exactly
  the \<open>N\<close> rows that follow the first \<open>offset\<close> rows of the view: all rows, the credits, the debits,
  or the credits that are not spent.\<close>
theorem TransactionsCompact_pages:
  assumes "addressCacheItem addr ac = Some i" and "ciRows i = Some rs"
    and "0 \<le> N" and "0 \<le> offset" and "offset + N < 2 ^ 63"
    and "view \<in> {AddrTxnAll, AddrTxnCredit, AddrTxnDebit, AddrUnspentTxn}"
  shows "\<exists>s. TransactionsCompact addr N offset view ac = (Ret (s, Some (ciBlockID i), None), count rowHit ac)
    \<and> elems s = take (nat N) (drop (nat offset) (filter (viewRowCompact view) rs))"
proof -
  have "\<exists>s. itemTransactions (Some i) N offset view = Ret (Inr (CompactRowsValue s, Some (ciBlockID i)))
    \<and> elems s = take (nat N) (drop (nat offset) (filter (viewRowCompact view) rs))"
  proof (cases "N = 0 \<or> rs = [] \<or> offset \<ge> int (length rs)")
    case True
    moreover have "length (filter (viewRowCompact view) rs) \<le> nat offset" if "int (length rs) \<le> offset"
      using length_filter_le[of "viewRowCompact view" rs] that by linarith
    ultimately have "take (nat N) (drop (nat offset) (filter (viewRowCompact view) rs)) = []" by auto
    moreover have "viewIsMerged view = Some False" using assms(6) by auto
    ultimately show ?thesis using True assms(2-4) by (auto simp: itemTransactions_def Let_def)
  next
    case False
    then have g: "0 < N" using assms(3) by simp
    have vr: "viewRowCompact AddrTxnAll = (\<lambda>_. True)" "viewRowCompact AddrTxnCredit = acIsFunding"
      "viewRowCompact AddrTxnDebit = (\<lambda>r. \<not> acIsFunding r)"
      "viewRowCompact AddrUnspentTxn = (\<lambda>r. acIsFunding r \<and> IsZeroHash (acMatchingTxHash r))" by auto
    have h: "itemTransactions (Some i) N offset view = mapGo (\<lambda>s. Inr (CompactRowsValue s, Some (ciBlockID i)))
        (case view of AddrTxnAll \<Rightarrow> addressRows (Some rs) N offset
         | AddrTxnCredit \<Rightarrow> creditAddressRows (Some rs) N offset
         | AddrTxnDebit \<Rightarrow> debitAddressRows (Some rs) N offset
         | _ \<Rightarrow> unspentCreditAddressRows (Some rs) N offset)"
      using False assms(2,4,6) g by (auto simp: itemTransactions_def Let_def)
    note p = rowsAll.page_returns[OF g assms(4,5), of rs] rowsCredit.page_returns[OF g assms(4,5), of rs]
      rowsDebit.page_returns[OF g assms(4,5), of rs] rowsUnspent.page_returns[OF g assms(4,5), of rs]
    show ?thesis unfolding h using p assms(6) by (auto simp: vr pageOf_def mapGo_def)
  qed
  then show ?thesis using assms(1) by (auto simp: TransactionsCompact_def mapGo_def)
qed

theorem TransactionsCompact_pages_witness:
  "\<exists>s. TransactionsCompact ''Ds'' 5 0 AddrUnspentTxn
      (exCache 5 1 [(''Ds'', (freshItem (exBlock 1))\<lparr>ciRows := Some [exCompact 1 False 5, exCompact 2 True 3]\<rparr>)])
      = (Ret (s, Some (exBlock 1), None),
         count rowHit (exCache 5 1 [(''Ds'', (freshItem (exBlock 1))\<lparr>ciRows := Some [exCompact 1 False 5, exCompact 2 True 3]\<rparr>)]))
    \<and> elems s = [exCompact 2 True 3]"
  using TransactionsCompact_pages[of "''Ds''"
      "exCache 5 1 [(''Ds'', (freshItem (exBlock 1))\<lparr>ciRows := Some [exCompact 1 False 5, exCompact 2 True 3]\<rparr>)]"
      "(freshItem (exBlock 1))\<lparr>ciRows := Some [exCompact 1 False 5, exCompact 2 True 3]\<rparr>"
      "[exCompact 1 False 5, exCompact 2 True 3]" 5 0 AddrUnspentTxn]
  by (simp add: exCompact_def IsZeroHash_def ciBlockID_def freshItem_def exBlock_def)

end
