(* ===== verification/Charts.thy ===== *)
theory Charts
  imports Prelude "HOL-Library.Signed_Division"
begin

text \<open>
  The chart data of \<open>db/cache/charts.go\<close>: the data sets per block, per day and per ticket price
  window, their validation and the derivation of the days (\<open>Lengthen\<close>), the reaction to a chain
  reorganization, the cache file, the tips, and the update loop.

  \<open>float64\<close> is the type parameter \<open>'f\<close>, with \<open>ofInt\<close> for the conversion of an integer. A nil slice
  is the empty list. Slices are never extended into their spare capacity here, so slicing is bounded
  by the length. Locks, logging and timing are left out; the updaters of a \<open>ChartData\<close>, which are
  functions on it, are kept beside it.
\<close>

subsection \<open>Data sets\<close>

type_synonym ChartUints = "uint64 list"
type_synonym 'f ChartFloats = "'f list"

text \<open>The interface \<open>lengther\<close>: a value of one of its two implementations.\<close>

datatype 'f dataset = Uints ChartUints | Floats "'f ChartFloats"

definition uintsLength :: "ChartUints \<Rightarrow> int" where
  "uintsLength data = int (length data)"

definition uintsTruncate :: "ChartUints \<Rightarrow> int \<Rightarrow> ChartUints option" where
  "uintsTruncate data l = go_slice data 0 l"

definition floatsLength :: "'f ChartFloats \<Rightarrow> int" where
  "floatsLength data = int (length data)"

definition floatsTruncate :: "'f ChartFloats \<Rightarrow> int \<Rightarrow> 'f ChartFloats option" where
  "floatsTruncate data l = go_slice data 0 l"

fun dsLength :: "'f dataset \<Rightarrow> int" where
  "dsLength (Uints d) = uintsLength d"
| "dsLength (Floats d) = floatsLength d"

fun dsTruncate :: "'f dataset \<Rightarrow> int \<Rightarrow> 'f dataset option" where
  "dsTruncate (Uints d) l = map_option Uints (uintsTruncate d l)"
| "dsTruncate (Floats d) l = map_option Floats (floatsTruncate d l)"

text \<open>\<open>snip\<close> is only called with a limit that is not negative.\<close>

definition uintsSnip :: "ChartUints \<Rightarrow> nat \<Rightarrow> ChartUints" where
  "uintsSnip data mx = take (if length data < mx then length data else mx) data"

definition floatsSnip :: "'f ChartFloats \<Rightarrow> nat \<Rightarrow> 'f ChartFloats" where
  "floatsSnip data mx = take (if length data < mx then length data else mx) data"

text \<open>\<open>None\<close> is the panic of a slice out of range.\<close>

definition uintsAvg :: "ChartUints \<Rightarrow> int \<Rightarrow> int \<Rightarrow> uint64 option" where
  "uintsAvg data s e =
     (if e \<le> s then Some 0
      else map_option (\<lambda>seg. fold (\<lambda>v sum. sum + v) seg 0 div word_of_int (e - s)) (go_slice data s e))"

definition uintsSum :: "ChartUints \<Rightarrow> int \<Rightarrow> int \<Rightarrow> uint64 option" where
  "uintsSum data s e =
     (if e \<le> s then Some 0
      else map_option (\<lambda>seg. fold (\<lambda>v sum. sum + v) seg 0) (go_slice data s e))"

definition floatsAvg :: "(int \<Rightarrow> 'f::{plus,zero,divide}) \<Rightarrow> 'f ChartFloats \<Rightarrow> int \<Rightarrow> int \<Rightarrow> 'f option" where
  "floatsAvg ofInt data s e =
     (if e \<le> s then Some 0
      else map_option (\<lambda>seg. fold (\<lambda>v sum. sum + v) seg 0 div ofInt (e - s)) (go_slice data s e))"

definition floatsSum :: "('f::{plus,zero}) ChartFloats \<Rightarrow> int \<Rightarrow> int \<Rightarrow> 'f option" where
  "floatsSum data s e =
     (if e \<le> s then Some 0
      else map_option (\<lambda>seg. fold (\<lambda>v sum. sum + v) seg 0) (go_slice data s e))"

subsection \<open>Sets of data sets\<close>

record zoomSet =
  zsCacheID :: uint64
  zsHeight :: ChartUints
  zsTime :: ChartUints
  zsPoolSize :: ChartUints
  zsPoolValue :: ChartUints
  zsBlockSize :: ChartUints
  zsTxCount :: ChartUints
  zsNewAtoms :: ChartUints
  zsChainwork :: ChartUints
  zsFees :: ChartUints
  zsTotalMixed :: ChartUints
  zsAnonymitySet :: ChartUints

record 'f windowSet =
  wsCacheID :: uint64
  wsTime :: ChartUints
  wsPowDiff :: "'f ChartFloats"
  wsTicketPrice :: ChartUints
  wsStakeCount :: ChartUints
  wsMissedVotes :: ChartUints

definition zoomSnip :: "int \<Rightarrow> zoomSet \<Rightarrow> zoomSet" where
  "zoomSnip len0 zs =
     (let len = nat (if len0 < 0 then 0 else len0) in
      zs\<lparr>zsHeight := uintsSnip (zsHeight zs) len,
          zsTime := uintsSnip (zsTime zs) len,
          zsPoolSize := uintsSnip (zsPoolSize zs) len,
          zsPoolValue := uintsSnip (zsPoolValue zs) len,
          zsBlockSize := uintsSnip (zsBlockSize zs) len,
          zsTxCount := uintsSnip (zsTxCount zs) len,
          zsNewAtoms := uintsSnip (zsNewAtoms zs) len,
          zsChainwork := uintsSnip (zsChainwork zs) len,
          zsFees := uintsSnip (zsFees zs) len,
          zsTotalMixed := uintsSnip (zsTotalMixed zs) len,
          zsAnonymitySet := uintsSnip (zsAnonymitySet zs) len\<rparr>)"

definition windowSnip :: "int \<Rightarrow> 'f windowSet \<Rightarrow> 'f windowSet" where
  "windowSnip len0 ws =
     (let len = nat (if len0 < 0 then 0 else len0) in
      ws\<lparr>wsTime := uintsSnip (wsTime ws) len,
          wsPowDiff := floatsSnip (wsPowDiff ws) len,
          wsTicketPrice := uintsSnip (wsTicketPrice ws) len,
          wsStakeCount := uintsSnip (wsStakeCount ws) len,
          wsMissedVotes := uintsSnip (wsMissedVotes ws) len\<rparr>)"

text \<open>The constructors of the source only choose capacities; the sets are empty.\<close>

definition newBlockSet :: zoomSet where
  "newBlockSet =
     \<lparr>zsCacheID = 0, zsHeight = [], zsTime = [], zsPoolSize = [], zsPoolValue = [], zsBlockSize = [],
      zsTxCount = [], zsNewAtoms = [], zsChainwork = [], zsFees = [], zsTotalMixed = [],
      zsAnonymitySet = []\<rparr>"

definition newDaySet :: zoomSet where
  "newDaySet = newBlockSet\<lparr>zsHeight := []\<rparr>"

definition newWindowSet :: "'f windowSet" where
  "newWindowSet = \<lparr>wsCacheID = 0, wsTime = [], wsPowDiff = [], wsTicketPrice = [], wsStakeCount = [],
     wsMissedVotes = []\<rparr>"

record 'f ChartGobject =
  gbHeight :: ChartUints
  gbTime :: ChartUints
  gbPoolSize :: ChartUints
  gbPoolValue :: ChartUints
  gbBlockSize :: ChartUints
  gbTxCount :: ChartUints
  gbNewAtoms :: ChartUints
  gbChainwork :: ChartUints
  gbFees :: ChartUints
  gbWindowTime :: ChartUints
  gbPowDiff :: "'f ChartFloats"
  gbTicketPrice :: ChartUints
  gbStakeCount :: ChartUints
  gbMissedVotes :: ChartUints
  gbTotalMixed :: ChartUints
  gbAnonymitySet :: ChartUints

record cachedChart =
  ccCacheID :: uint64
  ccData :: string

record 'f ChartData =
  DiffInterval :: int
  StartPOS :: int
  Blocks :: zoomSet
  Windows :: "'f windowSet"
  Days :: zoomSet
  chartCache :: "string \<rightharpoonup> cachedChart"

text \<open>The chain parameters give the window size and the stake validation height.\<close>

definition NewChartData :: "int \<Rightarrow> int \<Rightarrow> 'f ChartData" where
  "NewChartData stakeDiffWindowSize stakeValidationHeight =
     \<lparr>DiffInterval = stakeDiffWindowSize, StartPOS = stakeValidationHeight, Blocks = newBlockSet,
      Windows = newWindowSet, Days = newDaySet, chartCache = Map.empty\<rparr>"

datatype chartsError =
    ZeroLengthWindows
  | DayBinMismatch
  | CacheFileError string
  | CacheVersionError string
  | FetchError string
  | StateChanged
  | AppendError string
  | LengthenFailed chartsError

subsection \<open>Validation\<close>

fun validateLoop :: "int \<Rightarrow> int \<Rightarrow> int \<Rightarrow> 'f dataset list \<Rightarrow> int \<times> int" where
  "validateLoop firstLen shortest longest [] = (shortest, longest)"
| "validateLoop firstLen shortest longest (l # ls) =
     (let dLen = dsLength l in
      if dLen \<noteq> firstLen
      then if dLen < shortest then validateLoop firstLen dLen longest ls
           else if dLen > longest then validateLoop firstLen shortest dLen ls
           else validateLoop firstLen shortest longest ls
      else validateLoop firstLen shortest longest ls)"

text \<open>The second result says whether there is an error.\<close>

definition ValidateLengths :: "'f dataset list \<Rightarrow> int \<times> bool" where
  "ValidateLengths lens =
     (case lens of
        [] \<Rightarrow> (0, False)
      | l # ls \<Rightarrow>
          let firstLen = dsLength l; (shortest, longest) = validateLoop firstLen firstLen firstLen ls
          in if shortest \<noteq> longest then (shortest, True) else (firstLen, False))"

definition aDay :: uint64 where
  "aDay = 86400"

definition midnight :: "uint64 \<Rightarrow> uint64" where
  "midnight t = (if t > 0 then t - t mod aDay else 0)"

text \<open>The data sets of the three calls of \<open>ValidateLengths\<close>, in their order.\<close>

definition zoomLists :: "zoomSet \<Rightarrow> ChartUints list" where
  "zoomLists z = [zsHeight z, zsTime z, zsPoolSize z, zsPoolValue z, zsBlockSize z, zsTxCount z,
     zsNewAtoms z, zsChainwork z, zsFees z, zsTotalMixed z, zsAnonymitySet z]"

definition zoomData :: "zoomSet \<Rightarrow> 'f dataset list" where
  "zoomData z = map Uints (zoomLists z)"

definition windowData :: "'f windowSet \<Rightarrow> 'f dataset list" where
  "windowData w = [Uints (wsTime w), Floats (wsPowDiff w), Uints (wsTicketPrice w),
     Uints (wsStakeCount w), Uints (wsMissedVotes w)]"

subsection \<open>Lengthen\<close>

text \<open>The index of the first stamp after \<open>start\<close>, or zero.\<close>

fun offsetLoop :: "uint64 \<Rightarrow> nat \<Rightarrow> ChartUints \<Rightarrow> nat" where
  "offsetLoop start i [] = 0"
| "offsetLoop start i (t # ts) = (if t > start then i else offsetLoop start (i + 1) ts)"

text \<open>The loop that finds the days: \<open>i\<close> counts from \<open>offset\<close>.\<close>

fun dayLoop :: "uint64 \<Rightarrow> nat \<Rightarrow> nat \<Rightarrow> nat \<Rightarrow> uint64 \<Rightarrow> uint64 \<Rightarrow> ChartUints \<Rightarrow> ChartUints
    \<Rightarrow> (nat \<times> nat) list \<Rightarrow> ChartUints \<times> (nat \<times> nat) list" where
  "dayLoop end0 offset i startIdx start next0 [] dayTimes intervals = (dayTimes, intervals)"
| "dayLoop end0 offset i startIdx start next0 (t # ts) dayTimes intervals =
     (if t \<ge> next0
      then
        let intervals' = intervals @ [(startIdx + offset, i + offset)]; dayTimes' = dayTimes @ [start]
        in if t > end0 then (dayTimes', intervals')
           else dayLoop end0 offset (i + 1) i next0 (next0 + aDay) ts dayTimes' intervals'
      else dayLoop end0 offset (i + 1) startIdx start next0 ts dayTimes intervals)"

text \<open>The snapshot of one interval of blocks, appended to the days.\<close>

definition appendDay :: "zoomSet \<Rightarrow> nat \<times> nat \<Rightarrow> zoomSet \<Rightarrow> zoomSet option" where
  "appendDay blocks interval days =
     (let lo = int (fst interval); hi = int (snd interval) in
      case (uintsAvg (zsPoolSize blocks) lo hi, uintsAvg (zsPoolValue blocks) lo hi,
            uintsSum (zsBlockSize blocks) lo hi, uintsSum (zsTxCount blocks) lo hi,
            uintsSum (zsNewAtoms blocks) lo hi, go_index (zsChainwork blocks) hi,
            uintsSum (zsFees blocks) lo hi, uintsSum (zsTotalMixed blocks) lo hi,
            uintsAvg (zsAnonymitySet blocks) lo hi) of
        (Some poolSize, Some poolValue, Some blockSize, Some txCount, Some newAtoms, Some work,
         Some fees, Some mixed, Some anon) \<Rightarrow>
          Some (days\<lparr>zsHeight := zsHeight days @ [word_of_int (hi - 1)],
                     zsPoolSize := zsPoolSize days @ [poolSize],
                     zsPoolValue := zsPoolValue days @ [poolValue],
                     zsBlockSize := zsBlockSize days @ [blockSize],
                     zsTxCount := zsTxCount days @ [txCount],
                     zsNewAtoms := zsNewAtoms days @ [newAtoms],
                     zsChainwork := zsChainwork days @ [work],
                     zsFees := zsFees days @ [fees],
                     zsTotalMixed := zsTotalMixed days @ [mixed],
                     zsAnonymitySet := zsAnonymitySet days @ [anon]\<rparr>)
      | _ \<Rightarrow> None)"

fun appendDays :: "zoomSet \<Rightarrow> (nat \<times> nat) list \<Rightarrow> zoomSet \<Rightarrow> zoomSet option" where
  "appendDays blocks [] days = Some days"
| "appendDays blocks (interval # rest) days =
     (case appendDay blocks interval days of
        None \<Rightarrow> None
      | Some days' \<Rightarrow> appendDays blocks rest days')"

text \<open>The derivation of the new days from block data of equal lengths, which are not empty.\<close>

definition dayStart :: "zoomSet \<Rightarrow> zoomSet \<Rightarrow> uint64" where
  "dayStart blocks days =
     (if zsTime days \<noteq> [] then last (zsTime days) + aDay else midnight (hd (zsTime blocks)))"

definition newDays :: "zoomSet \<Rightarrow> zoomSet \<Rightarrow> ChartUints \<times> (nat \<times> nat) list" where
  "newDays blocks days =
     (let end0 = midnight (last (zsTime blocks)); start = dayStart blocks days;
          offset = offsetLoop start 0 (zsTime blocks)
      in if end0 > start + aDay
         then dayLoop end0 offset 0 0 start (start + aDay) (drop offset (zsTime blocks)) (zsTime days) []
         else (zsTime days, []))"

text \<open>The end of \<open>Lengthen\<close>, after blocks and windows are validated.\<close>

definition lengthenDays :: "'f ChartData \<Rightarrow> (chartsError option \<times> 'f ChartData) go" where
  "lengthenDays charts =
     (let (times, intervals) = newDays (Blocks charts) (Days charts) in
      case appendDays (Blocks charts) intervals ((Days charts)\<lparr>zsTime := times\<rparr>) of
        None \<Rightarrow> Panic
      | Some days \<Rightarrow>
          let charts1 = charts\<lparr>Days := days\<rparr> in
          if snd (ValidateLengths (zoomData days :: 'f dataset list)) then Ret (Some DayBinMismatch, charts1)
          else
            let days' = (if intervals \<noteq> [] then days\<lparr>zsCacheID := zsCacheID days + 1\<rparr> else days)
            in Ret (None, charts1\<lparr>Days := days',
                 Blocks := (Blocks charts)\<lparr>zsCacheID := last (zsTime (Blocks charts))\<rparr>,
                 Windows := (Windows charts)\<lparr>wsCacheID := last (wsTime (Windows charts))\<rparr>\<rparr>))"

definition Lengthen :: "'f ChartData \<Rightarrow> (chartsError option \<times> 'f ChartData) go" where
  "Lengthen charts =
     (let (shortest, err) = ValidateLengths (zoomData (Blocks charts) :: 'f dataset list);
          charts1 = (if err then charts\<lparr>Blocks := zoomSnip shortest (Blocks charts)\<rparr> else charts)
      in if shortest = 0 then Ret (None, charts1)
         else
           let (shortestW, errW) = ValidateLengths (windowData (Windows charts1));
               charts2 = (if errW then charts1\<lparr>Windows := windowSnip shortestW (Windows charts1)\<rparr> else charts1)
           in if shortestW = 0 then Ret (Some ZeroLengthWindows, charts2)
              else lengthenDays charts2)"

subsection \<open>Reorganization\<close>

text \<open>The two fields of \<open>txhelpers.ReorgData\<close> that are read: the new height and the new chain.\<close>

definition ReorgHandler :: "int \<Rightarrow> Hash list \<Rightarrow> 'f ChartData \<Rightarrow> 'f ChartData" where
  "ReorgHandler newChainHeight newChain charts =
     (let commonAncestorHeight = newChainHeight - int (length newChain);
          newHeight = commonAncestorHeight + 1;
          daysLen = int (length (zsTime (Days charts))) - 2;
          windowsLen = int (length (wsTime (Windows charts))) - 1
      in charts\<lparr>Blocks := zoomSnip newHeight (Blocks charts), Days := zoomSnip daysLen (Days charts),
           Windows := windowSnip windowsLen (Windows charts)\<rparr>)"

subsection \<open>The cache file\<close>

definition gobject :: "'f ChartData \<Rightarrow> 'f ChartGobject" where
  "gobject charts =
     (let b = Blocks charts; w = Windows charts in
      \<lparr>gbHeight = zsHeight b, gbTime = zsTime b, gbPoolSize = zsPoolSize b, gbPoolValue = zsPoolValue b,
       gbBlockSize = zsBlockSize b, gbTxCount = zsTxCount b, gbNewAtoms = zsNewAtoms b,
       gbChainwork = zsChainwork b, gbFees = zsFees b, gbWindowTime = wsTime w, gbPowDiff = wsPowDiff w,
       gbTicketPrice = wsTicketPrice w, gbStakeCount = wsStakeCount w, gbMissedVotes = wsMissedVotes w,
       gbTotalMixed = zsTotalMixed b, gbAnonymitySet = zsAnonymitySet b\<rparr>)"

definition cacheVersion :: string where
  "cacheVersion = ''6.1.1''"

text \<open>
  The value of type \<open>versionedCacheData\<close> that is encoded into the file. Opening, decoding and writing
  files is not modelled: reading starts from the decoded value, or an error.
\<close>

type_synonym 'f versionedCacheData = "string \<times> 'f ChartGobject"

definition cacheFileData :: "'f ChartData \<Rightarrow> 'f versionedCacheData" where
  "cacheFileData charts = (cacheVersion, gobject charts)"

definition readCacheFile :: "string + 'f versionedCacheData \<Rightarrow> 'f ChartData \<Rightarrow> (chartsError option \<times> 'f ChartData) go" where
  "readCacheFile file charts =
     (case file of
        Inl e \<Rightarrow> Ret (Some (CacheFileError e), charts)
      | Inr (version, g) \<Rightarrow>
          if version \<noteq> cacheVersion then Ret (Some (CacheVersionError version), charts)
          else
            let charts1 = charts\<lparr>
              Blocks := (Blocks charts)\<lparr>zsHeight := gbHeight g, zsTime := gbTime g,
                zsPoolSize := gbPoolSize g, zsPoolValue := gbPoolValue g, zsBlockSize := gbBlockSize g,
                zsTxCount := gbTxCount g, zsNewAtoms := gbNewAtoms g, zsChainwork := gbChainwork g,
                zsFees := gbFees g, zsTotalMixed := gbTotalMixed g, zsAnonymitySet := gbAnonymitySet g\<rparr>,
              Windows := (Windows charts)\<lparr>wsTime := gbWindowTime g, wsPowDiff := gbPowDiff g,
                wsTicketPrice := gbTicketPrice g, wsStakeCount := gbStakeCount g,
                wsMissedVotes := gbMissedVotes g\<rparr>\<rparr>
            in case Lengthen charts1 of
                 Panic \<Rightarrow> Panic
               | Ret (None, charts2) \<Rightarrow> Ret (None, charts2)
               | Ret (Some e, charts2) \<Rightarrow>
                   Ret (None, charts2\<lparr>Blocks := zoomSnip 0 (Blocks charts2),
                     Windows := windowSnip 0 (Windows charts2), Days := zoomSnip 0 (Days charts2)\<rparr>))"

subsection \<open>Tips and state\<close>

definition stateID :: "'f ChartData \<Rightarrow> uint64" where
  "stateID charts =
     (let timeLen = length (zsTime (Blocks charts))
      in if timeLen > 0 then zsTime (Blocks charts) ! (timeLen - 1) else 0)"

definition StateID :: "'f ChartData \<Rightarrow> uint64" where
  "StateID charts = stateID charts"

definition validState :: "'f ChartData \<Rightarrow> uint64 \<Rightarrow> bool" where
  "validState charts i \<longleftrightarrow> stateID charts = i"

definition chartsHeight :: "'f ChartData \<Rightarrow> int" where
  "chartsHeight charts = int (length (zsTime (Blocks charts))) - 1"

definition FeesTip :: "'f ChartData \<Rightarrow> int" where
  "FeesTip charts = int (length (zsFees (Blocks charts))) - 1"

definition TotalMixedTip :: "'f ChartData \<Rightarrow> int" where
  "TotalMixedTip charts = int (length (zsTotalMixed (Blocks charts))) - 1"

definition AnonymitySetTip :: "'f ChartData \<Rightarrow> int" where
  "AnonymitySetTip charts = int (length (zsAnonymitySet (Blocks charts))) - 1"

definition NewAtomsTip :: "'f ChartData \<Rightarrow> int" where
  "NewAtomsTip charts = int (length (zsNewAtoms (Blocks charts))) - 1"

definition TicketPriceTip :: "'f ChartData \<Rightarrow> int" where
  "TicketPriceTip charts = int (length (wsTicketPrice (Windows charts))) * DiffInterval charts - 1"

definition PoolSizeTip :: "'f ChartData \<Rightarrow> int" where
  "PoolSizeTip charts = int (length (zsPoolSize (Blocks charts))) - 1"

definition MissedVotesTip :: "'f ChartData \<Rightarrow> int" where
  "MissedVotesTip charts = int (length (wsMissedVotes (Windows charts))) * DiffInterval charts - 1"

subsection \<open>Updates\<close>

text \<open>
  An updater: the fetcher runs without the lock, so its result also gives the state that other
  threads may have left while it ran; the appender runs under the lock.
\<close>

record ('f, 'rows) ChartUpdater =
  Tag :: string
  Fetcher :: "'f ChartData \<Rightarrow> (string + 'rows) \<times> 'f ChartData"
  Appender :: "'f ChartData \<Rightarrow> 'rows \<Rightarrow> string option \<times> 'f ChartData"

definition AddUpdater :: "('f, 'rows) ChartUpdater \<Rightarrow> ('f, 'rows) ChartUpdater list \<Rightarrow> ('f, 'rows) ChartUpdater list" where
  "AddUpdater updater updaters = updaters @ [updater]"

definition runUpdater :: "('f, 'rows) ChartUpdater \<Rightarrow> 'f ChartData \<Rightarrow> chartsError option \<times> 'f ChartData" where
  "runUpdater updater charts =
     (let i = StateID charts in
      case Fetcher updater charts of
        (Inl e, charts1) \<Rightarrow> (Some (FetchError e), charts1)
      | (Inr rows, charts1) \<Rightarrow>
          if \<not> validState charts1 i then (Some StateChanged, charts1)
          else case Appender updater charts1 rows of
            (Some e, charts2) \<Rightarrow> (Some (AppendError e), charts2)
          | (None, charts2) \<Rightarrow> (None, charts2))"

fun runUpdaters :: "('f, 'rows) ChartUpdater list \<Rightarrow> 'f ChartData \<Rightarrow> chartsError option \<times> 'f ChartData" where
  "runUpdaters [] charts = (None, charts)"
| "runUpdaters (u # us) charts =
     (case runUpdater u charts of
        (Some e, charts1) \<Rightarrow> (Some e, charts1)
      | (None, charts1) \<Rightarrow> runUpdaters us charts1)"

definition Update :: "('f, 'rows) ChartUpdater list \<Rightarrow> 'f ChartData \<Rightarrow> (chartsError option \<times> 'f ChartData) go" where
  "Update updaters charts =
     (case runUpdaters updaters charts of
        (Some e, charts1) \<Rightarrow> Ret (Some e, charts1)
      | (None, charts1) \<Rightarrow>
         (case Lengthen charts1 of
            Panic \<Rightarrow> Panic
          | Ret (Some e, charts2) \<Rightarrow> Ret (Some (LengthenFailed e), charts2)
          | Ret (None, charts2) \<Rightarrow> Ret (None, charts2)))"

text \<open>Both errors are only logged.\<close>

definition TriggerUpdate :: "('f, 'rows) ChartUpdater list \<Rightarrow> 'f ChartData \<Rightarrow> 'f ChartData go" where
  "TriggerUpdate updaters charts =
     (case Update updaters charts of Panic \<Rightarrow> Panic | Ret (_, charts1) \<Rightarrow> Ret charts1)"

definition Load :: "('f, 'rows) ChartUpdater list \<Rightarrow> string + 'f versionedCacheData \<Rightarrow> 'f ChartData
    \<Rightarrow> (chartsError option \<times> 'f ChartData) go" where
  "Load updaters file charts =
     (case readCacheFile file charts of Panic \<Rightarrow> Panic | Ret (_, charts1) \<Rightarrow> Update updaters charts1)"

subsection \<open>The interface of a data set\<close>

text \<open>
  What the users of \<open>lengther\<close> rely on: a length that is not negative, and that truncating to a
  length within the data set succeeds and gives that length.
\<close>

locale lengther =
  fixes len :: "'d \<Rightarrow> int" and trunc :: "'d \<Rightarrow> int \<Rightarrow> 'd option"
  assumes len_nonneg: "0 \<le> len d"
    and trunc_len: "0 \<le> l \<Longrightarrow> l \<le> len d \<Longrightarrow> \<exists>d'. trunc d l = Some d' \<and> len d' = l"
begin

lemma Min_len_nonneg: "ds \<noteq> [] \<Longrightarrow> 0 \<le> Min (len ` set ds)"
  by (simp add: len_nonneg)

lemma trunc_to_shortest:
  assumes "d \<in> set ds"
  shows "\<exists>d'. trunc d (Min (len ` set ds)) = Some d' \<and> len d' = Min (len ` set ds)"
proof (rule trunc_len)
  show "0 \<le> Min (len ` set ds)" using Min_len_nonneg[of ds] assms by fastforce
  show "Min (len ` set ds) \<le> len d" using assms by simp
qed

end

lemma go_slice_len: "0 \<le> l \<Longrightarrow> l \<le> int (length xs) \<Longrightarrow> \<exists>ys. go_slice xs 0 l = Some ys \<and> int (length ys) = l"
  by (simp add: go_slice_def)

interpretation uints: lengther uintsLength uintsTruncate
  by unfold_locales (simp_all add: uintsLength_def uintsTruncate_def go_slice_len)

interpretation floats: lengther floatsLength floatsTruncate
  by unfold_locales (simp_all add: floatsLength_def floatsTruncate_def go_slice_len)

lemma dsTruncate_len:
  "0 \<le> l \<Longrightarrow> l \<le> dsLength d \<Longrightarrow> \<exists>d'. dsTruncate d l = Some d' \<and> dsLength d' = l"
  using uints.trunc_len floats.trunc_len by (cases d) (auto, fastforce+)

interpretation ds: lengther dsLength dsTruncate
proof
  show "0 \<le> dsLength d" for d :: "'f dataset" by (cases d) (simp_all add: uintsLength_def floatsLength_def)
qed (rule dsTruncate_len)

subsection \<open>Lengths\<close>

lemma Min_insert2: "finite A \<Longrightarrow> Min (insert (s::int) (insert d A)) = Min (insert (min s d) A)"
  by (cases "A = {}") (simp_all add: min.assoc)

lemma Max_insert2: "finite A \<Longrightarrow> Max (insert (s::int) (insert d A)) = Max (insert (max s d) A)"
  by (cases "A = {}") (simp_all add: max.assoc)

lemma validateLoop_eq:
  "s \<le> f \<Longrightarrow> f \<le> g \<Longrightarrow>
   validateLoop f s g ds = (Min (insert s (dsLength ` set ds)), Max (insert g (dsLength ` set ds)))"
proof (induction ds arbitrary: s g)
  case Nil
  then show ?case by simp
next
  case (Cons d ds)
  let ?d = "dsLength d"
  have "validateLoop f s g (d # ds) = validateLoop f (min s ?d) (max g ?d) ds"
    using Cons.prems by (auto simp: Let_def min_def max_def)
  also have "\<dots> = (Min (insert (min s ?d) (dsLength ` set ds)), Max (insert (max g ?d) (dsLength ` set ds)))"
    using Cons.prems by (intro Cons.IH) auto
  finally show ?case by (simp add: Min_insert2 Max_insert2 del: Min_insert Max_insert)
qed

lemma ValidateLengths_eq:
  assumes "ds \<noteq> []"
  shows "ValidateLengths ds = (Min (dsLength ` set ds), Min (dsLength ` set ds) \<noteq> Max (dsLength ` set ds))"
proof -
  obtain d ds' where ds: "ds = d # ds'" using assms by (cases ds) auto
  have v: "validateLoop (dsLength d) (dsLength d) (dsLength d) ds'
      = (Min (dsLength ` set ds), Max (dsLength ` set ds))"
    using validateLoop_eq[of "dsLength d" "dsLength d" "dsLength d" ds'] by (simp add: ds del: Min_insert Max_insert)
  have d: "Min (dsLength ` set ds) \<le> dsLength d" "dsLength d \<le> Max (dsLength ` set ds)"
    unfolding ds by (auto intro: Min_le Max_ge)
  have "Min (dsLength ` set ds) = Max (dsLength ` set ds) \<Longrightarrow> dsLength d = Min (dsLength ` set ds)"
    using d by linarith
  then show ?thesis using v by (simp add: ValidateLengths_def ds Let_def del: Min_insert Max_insert)
qed

text \<open>All the data sets of a set have \<open>n\<close> entries.\<close>

definition zoomUniform :: "nat \<Rightarrow> zoomSet \<Rightarrow> bool" where
  "zoomUniform n z \<longleftrightarrow> (\<forall>d\<in>set (zoomLists z). length d = n)"

definition windowLengths :: "'f windowSet \<Rightarrow> nat list" where
  "windowLengths w = [length (wsTime w), length (wsPowDiff w), length (wsTicketPrice w),
     length (wsStakeCount w), length (wsMissedVotes w)]"

definition windowUniform :: "nat \<Rightarrow> 'f windowSet \<Rightarrow> bool" where
  "windowUniform n w \<longleftrightarrow> (\<forall>k\<in>set (windowLengths w). k = n)"

text \<open>The length of the shortest data set.\<close>

definition zoomShortest :: "zoomSet \<Rightarrow> nat" where
  "zoomShortest z = Min (set (map length (zoomLists z)))"

definition windowShortest :: "'f windowSet \<Rightarrow> nat" where
  "windowShortest w = Min (set (windowLengths w))"

lemma snip_take [simp]: "uintsSnip d n = take n d" "floatsSnip e n = take n e"
  by (simp_all add: uintsSnip_def floatsSnip_def)

lemma zoomLists_snip [simp]: "zoomLists (zoomSnip n z) = map (take (nat n)) (zoomLists z)"
  by (simp add: zoomLists_def zoomSnip_def Let_def)

lemma windowLengths_snip [simp]: "windowLengths (windowSnip n w) = map (min (nat n)) (windowLengths w)"
  by (simp add: windowLengths_def windowSnip_def Let_def min.commute)

lemma nat_Min: "finite A \<Longrightarrow> A \<noteq> {} \<Longrightarrow> Min (int ` A) = int (Min A)"
  by (rule Min_eqI) auto

lemma Max_eq_Min: "finite A \<Longrightarrow> A \<noteq> {} \<Longrightarrow> Min A = Max A \<longleftrightarrow> (\<forall>a\<in>A. a = Min (A::int set))"
  by (metis Max_ge Max_in Min_le antisym)

lemma zoomData_lengths: "dsLength ` set (zoomData z) = int ` set (map length (zoomLists z))"
  by (auto simp: zoomData_def uintsLength_def image_image)

lemma windowData_lengths: "dsLength ` set (windowData w) = int ` set (windowLengths w)"
  by (auto simp: windowData_def windowLengths_def uintsLength_def floatsLength_def)

lemma zoomLists_nonempty [simp]: "zoomLists z \<noteq> []" "windowLengths w \<noteq> []"
  by (simp_all add: zoomLists_def windowLengths_def)

lemma validate_zoom:
  "ValidateLengths (zoomData z :: 'f dataset list)
   = (int (zoomShortest z), \<not> zoomUniform (zoomShortest z) z)"
proof -
  let ?A = "set (map length (zoomLists z))"
  have ne: "(zoomData z :: 'f dataset list) \<noteq> []" by (simp add: zoomData_def)
  have f: "finite ?A" "?A \<noteq> {}" by simp_all
  have "ValidateLengths (zoomData z :: 'f dataset list) = (Min (int ` ?A), Min (int ` ?A) \<noteq> Max (int ` ?A))"
    unfolding ValidateLengths_eq[OF ne] zoomData_lengths ..
  also have "Min (int ` ?A) = int (zoomShortest z)" unfolding zoomShortest_def by (rule nat_Min[OF f])
  also have "(int (zoomShortest z) \<noteq> Max (int ` ?A)) = (\<not> zoomUniform (zoomShortest z) z)"
    using Max_eq_Min[of "int ` ?A"] nat_Min[OF f] f by (auto simp: zoomUniform_def zoomShortest_def)
  finally show ?thesis .
qed

lemma validate_window:
  "ValidateLengths (windowData w) = (int (windowShortest w), \<not> windowUniform (windowShortest w) w)"
proof -
  let ?A = "set (windowLengths w)"
  have ne: "windowData w \<noteq> []" by (simp add: windowData_def)
  have f: "finite ?A" "?A \<noteq> {}" by simp_all
  have "ValidateLengths (windowData w) = (Min (int ` ?A), Min (int ` ?A) \<noteq> Max (int ` ?A))"
    unfolding ValidateLengths_eq[OF ne] windowData_lengths ..
  also have "Min (int ` ?A) = int (windowShortest w)" unfolding windowShortest_def by (rule nat_Min[OF f])
  also have "(int (windowShortest w) \<noteq> Max (int ` ?A)) = (\<not> windowUniform (windowShortest w) w)"
    using Max_eq_Min[of "int ` ?A"] nat_Min[OF f] f by (auto simp: windowUniform_def windowShortest_def)
  finally show ?thesis .
qed

subsection \<open>Truncation\<close>

lemma zoomUniform_snip: "zoomUniform n z \<Longrightarrow> zoomUniform (min n (nat k)) (zoomSnip k z)"
  by (auto simp: zoomUniform_def min.commute)

lemma windowUniform_snip: "windowUniform n w \<Longrightarrow> windowUniform (min n (nat k)) (windowSnip k w)"
  by (auto simp: windowUniform_def min.commute)

lemma zoomShortest_le: "d \<in> set (zoomLists z) \<Longrightarrow> zoomShortest z \<le> length d"
  by (auto simp: zoomShortest_def intro: Min_le)

lemma windowShortest_le: "k \<in> set (windowLengths w) \<Longrightarrow> windowShortest w \<le> k"
  by (auto simp: windowShortest_def intro: Min_le)

lemma zoomUniform_snip_shortest: "zoomUniform (zoomShortest z) (zoomSnip (int (zoomShortest z)) z)"
  using zoomShortest_le[of _ z] by (auto simp: zoomUniform_def)

lemma windowUniform_snip_shortest: "windowUniform (windowShortest w) (windowSnip (int (windowShortest w)) w)"
  using windowShortest_le[of _ w] by (auto simp: windowUniform_def)

lemma zoomUniform_shortest: "zoomUniform n z \<Longrightarrow> zoomShortest z = n"
  unfolding zoomShortest_def zoomUniform_def
  by (rule Min_eqI) (auto simp: zoomLists_def)

lemma windowUniform_shortest: "windowUniform n w \<Longrightarrow> windowShortest w = n"
  unfolding windowShortest_def windowUniform_def
  by (rule Min_eqI) (auto simp: windowLengths_def)

lemma zoomSnip_uniform: "zoomUniform n z \<Longrightarrow> zoomSnip (int n) z = z"
  by (cases z) (simp add: zoomUniform_def zoomLists_def zoomSnip_def)

lemma windowSnip_uniform: "windowUniform n w \<Longrightarrow> windowSnip (int n) w = w"
  by (cases w) (simp add: windowUniform_def windowLengths_def windowSnip_def)

text \<open>The block and window data once they are validated.\<close>

definition trimmed :: "'f ChartData \<Rightarrow> 'f ChartData" where
  "trimmed charts = charts\<lparr>Blocks := zoomSnip (int (zoomShortest (Blocks charts))) (Blocks charts),
     Windows := windowSnip (int (windowShortest (Windows charts))) (Windows charts)\<rparr>"

lemma Lengthen_eq:
  "Lengthen charts =
     (if zoomShortest (Blocks charts) = 0
      then Ret (None, charts\<lparr>Blocks := zoomSnip 0 (Blocks charts)\<rparr>)
      else if windowShortest (Windows charts) = 0 then Ret (Some ZeroLengthWindows, trimmed charts)
      else lengthenDays (trimmed charts))"
proof -
  have b: "(if \<not> zoomUniform (zoomShortest (Blocks charts)) (Blocks charts)
      then charts\<lparr>Blocks := zoomSnip (int (zoomShortest (Blocks charts))) (Blocks charts)\<rparr> else charts)
      = charts\<lparr>Blocks := zoomSnip (int (zoomShortest (Blocks charts))) (Blocks charts)\<rparr>"
    using zoomSnip_uniform[of _ "Blocks charts"] by auto
  have w: "(if \<not> windowUniform (windowShortest (Windows c)) (Windows c)
      then c\<lparr>Windows := windowSnip (int (windowShortest (Windows c))) (Windows c)\<rparr> else c)
      = c\<lparr>Windows := windowSnip (int (windowShortest (Windows c))) (Windows c)\<rparr>" for c :: "'a ChartData"
    using windowSnip_uniform[of _ "Windows c"] by auto
  show ?thesis
    unfolding Lengthen_def validate_zoom validate_window prod.case Let_def b w
    by (simp add: trimmed_def)
qed

subsection \<open>The days\<close>

text \<open>Intervals that follow one another, and the end of the last one.\<close>

fun contiguous :: "nat \<Rightarrow> (nat \<times> nat) list \<Rightarrow> bool" where
  "contiguous a [] = True"
| "contiguous a ((l, h) # rest) = (l = a \<and> l \<le> h \<and> contiguous h rest)"

fun lastEnd :: "nat \<Rightarrow> (nat \<times> nat) list \<Rightarrow> nat" where
  "lastEnd a [] = a"
| "lastEnd a ((l, h) # rest) = lastEnd h rest"

definition segSum :: "ChartUints \<Rightarrow> nat \<times> nat \<Rightarrow> uint64" where
  "segSum data iv = sum_list (take (snd iv - fst iv) (drop (fst iv) data))"

lemma contiguous_end: "contiguous a ivs \<Longrightarrow> a \<le> lastEnd a ivs"
proof (induction a ivs rule: contiguous.induct)
  case (2 a l h rest)
  then have "h \<le> lastEnd h rest" by simp
  then show ?case using 2(2) by simp
qed simp

lemma lastEnd_le: "\<forall>iv\<in>set ivs. snd iv < n \<Longrightarrow> x \<le> n \<Longrightarrow> lastEnd x ivs \<le> n"
  by (induction x ivs rule: lastEnd.induct) auto

lemma segSum_join: "a \<le> b \<Longrightarrow> b \<le> c \<Longrightarrow> segSum d (a, b) + segSum d (b, c) = segSum d (a, c)"
proof -
  assume "a \<le> b" "b \<le> c"
  then have "take (c - a) (drop a d) = take (b - a) (drop a d) @ take (c - b) (drop b d)"
    using take_add[of "b - a" "c - b" "drop a d"] by simp
  then show ?thesis by (simp add: segSum_def)
qed

lemma segSum_contiguous: "contiguous a ivs \<Longrightarrow> (\<Sum>iv\<leftarrow>ivs. segSum d iv) = segSum d (a, lastEnd a ivs)"
proof (induction a ivs rule: contiguous.induct)
  case (1 a)
  then show ?case by (simp add: segSum_def)
next
  case (2 a l h rest)
  then show ?case using contiguous_end[of h rest] segSum_join[of a h "lastEnd h rest" d] by simp
qed

lemma dayLoop_spec:
  assumes "startIdx \<le> i"
  shows "\<exists>ivs. dayLoop end0 offset i startIdx start (start + aDay) ts dayTimes intervals
      = (dayTimes @ map (\<lambda>k. start + of_nat k * aDay) [0..<length ivs], intervals @ ivs)
    \<and> contiguous (startIdx + offset) ivs \<and> (\<forall>iv\<in>set ivs. snd iv < i + offset + length ts)"
  using assms
proof (induction ts arbitrary: i startIdx start dayTimes intervals)
  case Nil
  show ?case by (intro exI[of _ "[]"]) simp
next
  case (Cons t ts)
  show ?case
  proof (cases "t \<ge> start + aDay")
    case True
    show ?thesis
    proof (cases "t > end0")
      case past: True
      show ?thesis using True past Cons.prems
        by (intro exI[of _ "[(startIdx + offset, i + offset)]"]) simp
    next
      case False
      let ?iv = "(startIdx + offset, i + offset)"
      obtain ivs where ivs: "dayLoop end0 offset (i + 1) i (start + aDay) (start + aDay + aDay) ts
          (dayTimes @ [start]) (intervals @ [?iv])
          = ((dayTimes @ [start]) @ map (\<lambda>k. (start + aDay) + of_nat k * aDay) [0..<length ivs], (intervals @ [?iv]) @ ivs)"
        "contiguous (i + offset) ivs" "\<forall>iv\<in>set ivs. snd iv < (i + 1) + offset + length ts"
        using Cons.IH[of i "i + 1" "start + aDay" "dayTimes @ [start]" "intervals @ [?iv]"] by auto
      have "map (\<lambda>k. start + of_nat k * aDay) [0..<length (?iv # ivs)]
          = start # map (\<lambda>k. (start + aDay) + of_nat k * aDay) [0..<length ivs]"
        by (simp add: upt_conv_Cons map_Suc_upt[symmetric] algebra_simps del: upt_Suc)
      then show ?thesis using True False ivs Cons.prems
        by (intro exI[of _ "?iv # ivs"]) (auto simp: Let_def)
    qed
  next
    case False
    obtain ivs where "dayLoop end0 offset (i + 1) startIdx start (start + aDay) ts dayTimes intervals
        = (dayTimes @ map (\<lambda>k. start + of_nat k * aDay) [0..<length ivs], intervals @ ivs)"
      "contiguous (startIdx + offset) ivs" "\<forall>iv\<in>set ivs. snd iv < (i + 1) + offset + length ts"
      using Cons.IH[of startIdx "i + 1" start dayTimes intervals] Cons.prems by auto
    then show ?thesis using False by (intro exI[of _ ivs]) auto
  qed
qed

lemma offsetLoop_le: "offsetLoop start i ts \<le> i + length ts"
  by (induction ts arbitrary: i) (auto, metis add_Suc)

lemma newDays_spec:
  "\<exists>a ivs. newDays blocks days = (zsTime days @ map (\<lambda>k. dayStart blocks days + of_nat k * aDay) [0..<length ivs], ivs)
    \<and> contiguous a ivs \<and> (\<forall>iv\<in>set ivs. snd iv < length (zsTime blocks))"
proof (cases "midnight (last (zsTime blocks)) > dayStart blocks days + aDay")
  case True
  let ?o = "offsetLoop (dayStart blocks days) 0 (zsTime blocks)"
  have "?o \<le> length (zsTime blocks)" using offsetLoop_le[of _ 0 "zsTime blocks"] by simp
  then show ?thesis
    using True dayLoop_spec[of 0 0 "midnight (last (zsTime blocks))" ?o "dayStart blocks days"
        "drop ?o (zsTime blocks)" "zsTime days" "[]"]
    by (auto simp: newDays_def Let_def)
next
  case False
  then show ?thesis by (intro exI[of _ 0] exI[of _ "[]"]) (simp add: newDays_def Let_def)
qed

lemma fold_sum: "fold (\<lambda>v sum. sum + v) xs s = s + sum_list (xs :: uint64 list)"
  by (induction xs arbitrary: s) (simp_all add: algebra_simps)

lemma nat_int_diff [simp]: "nat (int h - int l) = h - l"
  by arith

lemma uintsSum_seg:
  "l \<le> h \<Longrightarrow> h \<le> length d \<Longrightarrow> uintsSum d (int l) (int h) = Some (segSum d (l, h))"
  by (auto simp: uintsSum_def go_slice_def segSum_def fold_sum)

definition segAvg :: "ChartUints \<Rightarrow> nat \<times> nat \<Rightarrow> uint64" where
  "segAvg data iv = (if snd iv \<le> fst iv then 0 else segSum data iv div of_nat (snd iv - fst iv))"

lemma uintsAvg_seg:
  "l \<le> h \<Longrightarrow> h \<le> length d \<Longrightarrow> uintsAvg d (int l) (int h) = Some (segAvg d (l, h))"
proof -
  assume "l \<le> h" "h \<le> length d"
  moreover from this have "word_of_int (int h - int l) = (of_nat (h - l) :: uint64)"
    by (metis of_int_of_nat_eq of_nat_diff)
  ultimately show ?thesis by (auto simp: uintsAvg_def go_slice_def segAvg_def segSum_def fold_sum)
qed

lemma appendDays_eq:
  assumes "zoomUniform n blocks" and "contiguous a ivs" and "\<forall>iv\<in>set ivs. snd iv < n"
  shows "appendDays blocks ivs days = Some (days\<lparr>
     zsHeight := zsHeight days @ map (\<lambda>iv. word_of_int (int (snd iv) - 1)) ivs,
     zsPoolSize := zsPoolSize days @ map (segAvg (zsPoolSize blocks)) ivs,
     zsPoolValue := zsPoolValue days @ map (segAvg (zsPoolValue blocks)) ivs,
     zsBlockSize := zsBlockSize days @ map (segSum (zsBlockSize blocks)) ivs,
     zsTxCount := zsTxCount days @ map (segSum (zsTxCount blocks)) ivs,
     zsNewAtoms := zsNewAtoms days @ map (segSum (zsNewAtoms blocks)) ivs,
     zsChainwork := zsChainwork days @ map (\<lambda>iv. zsChainwork blocks ! snd iv) ivs,
     zsFees := zsFees days @ map (segSum (zsFees blocks)) ivs,
     zsTotalMixed := zsTotalMixed days @ map (segSum (zsTotalMixed blocks)) ivs,
     zsAnonymitySet := zsAnonymitySet days @ map (segAvg (zsAnonymitySet blocks)) ivs\<rparr>)"
  using assms(2,3)
proof (induction ivs arbitrary: a days)
  case Nil
  then show ?case by simp
next
  case (Cons iv ivs)
  obtain l h where iv: "iv = (l, h)" by (cases iv)
  have lh: "l \<le> h" "h < n" using Cons.prems by (auto simp: iv)
  have len: "length (zsPoolSize blocks) = n" "length (zsPoolValue blocks) = n" "length (zsBlockSize blocks) = n"
    "length (zsTxCount blocks) = n" "length (zsNewAtoms blocks) = n" "length (zsChainwork blocks) = n"
    "length (zsFees blocks) = n" "length (zsTotalMixed blocks) = n" "length (zsAnonymitySet blocks) = n"
    using assms(1) by (auto simp: zoomUniform_def zoomLists_def)
  have c: "contiguous h ivs" "\<forall>iv\<in>set ivs. snd iv < n" using Cons.prems by (auto simp: iv)
  show ?case
    using Cons.IH[OF c] lh len
    by (simp add: iv appendDay_def Let_def uintsSum_seg uintsAvg_seg)
qed

lemma zoomUniform_append:
  assumes "zoomUniform m days" and "k = length ivs"
  shows "zoomUniform (m + k) (days\<lparr>zsTime := zsTime days @ ts,
     zsHeight := zsHeight days @ map h ivs, zsPoolSize := zsPoolSize days @ map f1 ivs,
     zsPoolValue := zsPoolValue days @ map f2 ivs, zsBlockSize := zsBlockSize days @ map f3 ivs,
     zsTxCount := zsTxCount days @ map f4 ivs, zsNewAtoms := zsNewAtoms days @ map f5 ivs,
     zsChainwork := zsChainwork days @ map f6 ivs, zsFees := zsFees days @ map f7 ivs,
     zsTotalMixed := zsTotalMixed days @ map f8 ivs, zsAnonymitySet := zsAnonymitySet days @ map f9 ivs\<rparr>)
   \<longleftrightarrow> length ts = k"
  using assms by (auto simp: zoomUniform_def zoomLists_def)

text \<open>The days after the intervals \<open>ivs\<close>, which is the specification of the derivation.\<close>

definition extendDays :: "zoomSet \<Rightarrow> (nat \<times> nat) list \<Rightarrow> zoomSet \<Rightarrow> zoomSet" where
  "extendDays blocks ivs days = days\<lparr>
     zsTime := zsTime days @ map (\<lambda>k. dayStart blocks days + of_nat k * aDay) [0..<length ivs],
     zsHeight := zsHeight days @ map (\<lambda>iv. word_of_int (int (snd iv) - 1)) ivs,
     zsPoolSize := zsPoolSize days @ map (segAvg (zsPoolSize blocks)) ivs,
     zsPoolValue := zsPoolValue days @ map (segAvg (zsPoolValue blocks)) ivs,
     zsBlockSize := zsBlockSize days @ map (segSum (zsBlockSize blocks)) ivs,
     zsTxCount := zsTxCount days @ map (segSum (zsTxCount blocks)) ivs,
     zsNewAtoms := zsNewAtoms days @ map (segSum (zsNewAtoms blocks)) ivs,
     zsChainwork := zsChainwork days @ map (\<lambda>iv. zsChainwork blocks ! snd iv) ivs,
     zsFees := zsFees days @ map (segSum (zsFees blocks)) ivs,
     zsTotalMixed := zsTotalMixed days @ map (segSum (zsTotalMixed blocks)) ivs,
     zsAnonymitySet := zsAnonymitySet days @ map (segAvg (zsAnonymitySet blocks)) ivs\<rparr>"

lemma zoomUniform_extend: "zoomUniform m days \<Longrightarrow> zoomUniform (m + length ivs) (extendDays blocks ivs days)"
  unfolding extendDays_def by (subst zoomUniform_append) simp_all

lemma zoomUniform_cacheID [simp]: "zoomUniform n (z\<lparr>zsCacheID := i\<rparr>) = zoomUniform n z"
  by (simp add: zoomUniform_def zoomLists_def)

lemma lengthenDays_eq:
  assumes "zoomUniform n (Blocks charts)" and "zoomUniform m (Days charts)"
  obtains a ivs where "contiguous a ivs" and "\<forall>iv\<in>set ivs. snd iv < n"
    and "lengthenDays charts = Ret (None, charts\<lparr>
      Days := (extendDays (Blocks charts) ivs (Days charts))\<lparr>zsCacheID :=
        (if ivs \<noteq> [] then zsCacheID (Days charts) + 1 else zsCacheID (Days charts))\<rparr>,
      Blocks := (Blocks charts)\<lparr>zsCacheID := last (zsTime (Blocks charts))\<rparr>,
      Windows := (Windows charts)\<lparr>wsCacheID := last (wsTime (Windows charts))\<rparr>\<rparr>)"
proof -
  let ?b = "Blocks charts" and ?d = "Days charts"
  obtain a ivs where nd: "newDays ?b ?d = (zsTime ?d @ map (\<lambda>k. dayStart ?b ?d + of_nat k * aDay) [0..<length ivs], ivs)"
    and c: "contiguous a ivs" and lt: "\<forall>iv\<in>set ivs. snd iv < length (zsTime ?b)"
    using newDays_spec by blast
  have n: "length (zsTime ?b) = n" using assms(1) by (simp add: zoomUniform_def zoomLists_def)
  have app: "appendDays ?b ivs (?d\<lparr>zsTime := zsTime ?d @ map (\<lambda>k. dayStart ?b ?d + of_nat k * aDay) [0..<length ivs]\<rparr>)
      = Some (extendDays ?b ivs ?d)"
    using appendDays_eq[OF assms(1) c] lt n by (simp add: extendDays_def)
  have u: "zoomUniform (zoomShortest (extendDays ?b ivs ?d)) (extendDays ?b ivs ?d)"
    using zoomUniform_extend[OF assms(2), of ivs ?b] zoomUniform_shortest by metis
  have cid: "zsCacheID (extendDays ?b ivs ?d) = zsCacheID ?d" by (simp add: extendDays_def)
  have id: "(extendDays b vs d)\<lparr>zsCacheID := zsCacheID d\<rparr> = extendDays b vs d" for b vs d
    by (cases d) (simp add: extendDays_def)
  have "lengthenDays charts = Ret (None, charts\<lparr>
      Days := (extendDays ?b ivs ?d)\<lparr>zsCacheID := (if ivs \<noteq> [] then zsCacheID ?d + 1 else zsCacheID ?d)\<rparr>,
      Blocks := ?b\<lparr>zsCacheID := last (zsTime ?b)\<rparr>,
      Windows := (Windows charts)\<lparr>wsCacheID := last (wsTime (Windows charts))\<rparr>\<rparr>)"
    unfolding lengthenDays_def nd prod.case app option.case Let_def validate_zoom snd_conv
    using u by (simp add: cid id)
  with c lt n that show thesis by blast
qed

subsection \<open>Properties\<close>

lemma Lengthen_succeeds:
  assumes "zoomUniform m (Days charts)" and "windowShortest (Windows charts) > 0"
  obtains charts' where "Lengthen charts = Ret (None, charts')"
proof (cases "zoomShortest (Blocks charts) = 0")
  case True
  then show thesis using that by (simp add: Lengthen_eq)
next
  case False
  have "zoomUniform (zoomShortest (Blocks charts)) (Blocks (trimmed charts))" "zoomUniform m (Days (trimmed charts))"
    using assms(1) zoomUniform_snip_shortest by (simp_all add: trimmed_def)
  from lengthenDays_eq[OF this] obtain c where "lengthenDays (trimmed charts) = Ret (None, c)" by blast
  then show thesis using False assms(2) that by (simp add: Lengthen_eq)
qed

text \<open>What the days keep when days are appended to them.\<close>

lemma zoomLists_extend:
  "zoomUniform m days \<Longrightarrow> map (take m) (zoomLists (extendDays blocks ivs days)) = zoomLists days"
  by (auto simp: extendDays_def zoomLists_def zoomUniform_def)

lemma zoomLists_cacheID [simp]: "zoomLists (z\<lparr>zsCacheID := i\<rparr>) = zoomLists z"
  by (simp add: zoomLists_def)

lemma zoomLists_take_uniform: "zoomUniform m z \<Longrightarrow> map (take m) (zoomLists z) = zoomLists z"
  by (simp add: zoomUniform_def map_idI)

text \<open>C12: \<open>Lengthen\<close> repairs and validates. If the days have equal lengths, \<open>Lengthen\<close> never panics and
  never reports mismatched days. It keeps, of every block data set, the first \<open>n\<close> values, where \<open>n\<close> is
  the length of the shortest block data set, and, when \<open>n > 0\<close>, of every window data set, the first
  \<open>k\<close> values, where \<open>k\<close> is the length of the shortest window data set (without blocks it leaves the
  windows); of the days it keeps every value, and only appends. It fails exactly when there are blocks
  but no windows, and leaves the blocks, the windows (if there are blocks) and the days with equal
  lengths each.\<close>

theorem Lengthen_validates:
  assumes "zoomUniform m (Days charts)"
    and "n = zoomShortest (Blocks charts)" and "k = windowShortest (Windows charts)"
  shows "\<exists>charts' m'. Lengthen charts = Ret (if n > 0 \<and> k = 0 then Some ZeroLengthWindows else None, charts')
    \<and> zoomLists (Blocks charts') = map (take n) (zoomLists (Blocks charts))
    \<and> (n = 0 \<longrightarrow> Windows charts' = Windows charts)
    \<and> (n > 0 \<longrightarrow> wsTime (Windows charts') = take k (wsTime (Windows charts))
        \<and> wsPowDiff (Windows charts') = take k (wsPowDiff (Windows charts))
        \<and> wsTicketPrice (Windows charts') = take k (wsTicketPrice (Windows charts))
        \<and> wsStakeCount (Windows charts') = take k (wsStakeCount (Windows charts))
        \<and> wsMissedVotes (Windows charts') = take k (wsMissedVotes (Windows charts)))
    \<and> map (take m) (zoomLists (Days charts')) = zoomLists (Days charts)
    \<and> zoomUniform n (Blocks charts') \<and> m \<le> m' \<and> zoomUniform m' (Days charts')
    \<and> (n > 0 \<longrightarrow> windowUniform k (Windows charts'))"
proof -
  have n: "zoomShortest (Blocks charts) = n" and k: "windowShortest (Windows charts) = k"
    by (simp_all add: assms(2,3))
  have b: "zoomUniform n (zoomSnip (int n) (Blocks charts))"
    using zoomUniform_snip_shortest[of "Blocks charts"] by (simp add: n)
  have w: "windowUniform k (windowSnip (int k) (Windows charts))"
    using windowUniform_snip_shortest[of "Windows charts"] by (simp add: k)
  have wi: "windowUniform k (x\<lparr>wsCacheID := i\<rparr>) = windowUniform k x" for k i and x :: "'a windowSet"
    by (simp add: windowUniform_def windowLengths_def)
  consider "n = 0" | "n > 0" "k = 0" | "n > 0" "k > 0" by blast
  then show ?thesis
  proof cases
    case 1
    then show ?thesis using b assms(1) by (auto simp: Lengthen_eq n zoomLists_take_uniform)
  next
    case 2
    then show ?thesis using b w assms(1)
      by (auto simp: Lengthen_eq n k trimmed_def windowSnip_def zoomLists_take_uniform)
  next
    case 3
    let ?t = "trimmed charts"
    have bt: "zoomUniform n (Blocks ?t)" and d: "zoomUniform m (Days ?t)"
      using b assms(1) by (simp_all add: trimmed_def n)
    obtain a ivs where eq: "lengthenDays ?t = Ret (None, ?t\<lparr>
      Days := (extendDays (Blocks ?t) ivs (Days ?t))\<lparr>zsCacheID :=
        (if ivs \<noteq> [] then zsCacheID (Days ?t) + 1 else zsCacheID (Days ?t))\<rparr>,
      Blocks := (Blocks ?t)\<lparr>zsCacheID := last (zsTime (Blocks ?t))\<rparr>,
      Windows := (Windows ?t)\<lparr>wsCacheID := last (wsTime (Windows ?t))\<rparr>\<rparr>)"
      by (rule lengthenDays_eq[OF bt d]) blast
    have "Lengthen charts = lengthenDays ?t" using 3 by (simp add: Lengthen_eq n k)
    then show ?thesis
      using 3 b w eq zoomUniform_extend[OF assms(1)] zoomLists_extend[OF assms(1)]
      by (auto simp: trimmed_def n k wi windowSnip_def intro!: exI[of _ "m + length ivs"])
  qed
qed

text \<open>Chart data for the witnesses: given stamps, and the same values in every other data set.\<close>

definition exZoom :: "ChartUints \<Rightarrow> ChartUints \<Rightarrow> zoomSet" where
  "exZoom ts vs = \<lparr>zsCacheID = 0, zsHeight = vs, zsTime = ts, zsPoolSize = vs, zsPoolValue = vs,
     zsBlockSize = vs, zsTxCount = vs, zsNewAtoms = vs, zsChainwork = vs, zsFees = vs,
     zsTotalMixed = vs, zsAnonymitySet = vs\<rparr>"

definition exWindow :: "ChartUints \<Rightarrow> int windowSet" where
  "exWindow ts = \<lparr>wsCacheID = 0, wsTime = ts, wsPowDiff = map (\<lambda>_. 1) ts, wsTicketPrice = ts,
     wsStakeCount = ts, wsMissedVotes = ts\<rparr>"

definition exCharts :: "ChartUints \<Rightarrow> ChartUints \<Rightarrow> int ChartData" where
  "exCharts ts vs = \<lparr>DiffInterval = 144, StartPOS = 4096, Blocks = exZoom ts vs,
     Windows = exWindow [1], Days = newDaySet, chartCache = Map.empty\<rparr>"

lemma exZoom_shortest [simp]: "zoomShortest (exZoom ts vs) = min (length ts) (length vs)"
  by (simp add: zoomShortest_def exZoom_def zoomLists_def)

lemma exWindow_shortest [simp]: "windowShortest (exWindow ts) = length ts"
  by (simp add: windowShortest_def exWindow_def windowLengths_def)

lemma newDaySet_uniform [simp]: "zoomUniform 0 newDaySet"
  by (simp add: zoomUniform_def zoomLists_def newDaySet_def newBlockSet_def)

lemma exCharts_simps [simp]:
  "Blocks (exCharts ts vs) = exZoom ts vs" "Days (exCharts ts vs) = newDaySet"
  "Windows (exCharts ts vs) = exWindow [1]"
  by (simp_all add: exCharts_def)

theorem Lengthen_validates_witness:
  "\<exists>charts'. Lengthen (exCharts [100, 200] [5, 6, 7]) = Ret (None, charts')
    \<and> zoomLists (Blocks charts') = map (take 2) (zoomLists (exZoom [100, 200] [5, 6, 7]))"
  using Lengthen_validates[of 0 "exCharts [100, 200] [5, 6, 7]" 2 1] by (auto simp: numeral_2_eq_2)

text \<open>the days are a partition of blocks. When \<open>Lengthen\<close> succeeds on blocks, it appends days whose
  stamps are consecutive midnights after the last day, and whose intervals of blocks follow one
  another from some block \<open>lo\<close> to some block \<open>hi\<close>: so the sizes, the transactions, the new coins,
  the fees and the mixed amounts of the new days add up to those of the blocks from \<open>lo\<close> to \<open>hi\<close>,
  none counted twice and none left out; the earlier days are kept.\<close>

theorem Lengthen_days_partition:
  assumes "zoomUniform m (Days charts)" and "Lengthen charts = Ret (None, charts')"
    and "zoomShortest (Blocks charts) > 0"
  shows "\<exists>lo hi ivs. contiguous lo ivs \<and> lo \<le> hi \<and> hi \<le> zoomShortest (Blocks charts)
    \<and> zsTime (Days charts') = zsTime (Days charts)
        @ map (\<lambda>k. dayStart (Blocks charts') (Days charts) + of_nat k * aDay) [0..<length ivs]
    \<and> (\<forall>fld \<in> {zsBlockSize, zsTxCount, zsNewAtoms, zsFees, zsTotalMixed}.
        fld (Days charts') = fld (Days charts) @ map (segSum (fld (Blocks charts'))) ivs
        \<and> sum_list (map (segSum (fld (Blocks charts'))) ivs)
          = sum_list (take (hi - lo) (drop lo (fld (Blocks charts')))))"
proof -
  let ?n = "zoomShortest (Blocks charts)" and ?t = "trimmed charts"
  have w: "windowShortest (Windows charts) \<noteq> 0" using assms(2,3) by (auto simp: Lengthen_eq split: if_splits)
  have b: "zoomUniform ?n (Blocks ?t)" by (simp add: trimmed_def zoomUniform_snip_shortest)
  have d: "zoomUniform m (Days ?t)" using assms(1) by (simp add: trimmed_def)
  obtain a ivs where c: "contiguous a ivs" and lt: "\<forall>iv\<in>set ivs. snd iv < ?n"
    and eq: "lengthenDays ?t = Ret (None, ?t\<lparr>
      Days := (extendDays (Blocks ?t) ivs (Days ?t))\<lparr>zsCacheID :=
        (if ivs \<noteq> [] then zsCacheID (Days ?t) + 1 else zsCacheID (Days ?t))\<rparr>,
      Blocks := (Blocks ?t)\<lparr>zsCacheID := last (zsTime (Blocks ?t))\<rparr>,
      Windows := (Windows ?t)\<lparr>wsCacheID := last (wsTime (Windows ?t))\<rparr>\<rparr>)"
    by (rule lengthenDays_eq[OF b d]) blast
  have ch: "charts' = ?t\<lparr>
      Days := (extendDays (Blocks ?t) ivs (Days ?t))\<lparr>zsCacheID :=
        (if ivs \<noteq> [] then zsCacheID (Days ?t) + 1 else zsCacheID (Days ?t))\<rparr>,
      Blocks := (Blocks ?t)\<lparr>zsCacheID := last (zsTime (Blocks ?t))\<rparr>,
      Windows := (Windows ?t)\<lparr>wsCacheID := last (wsTime (Windows ?t))\<rparr>\<rparr>"
    using assms(2,3) w eq by (simp add: Lengthen_eq)
  define lo where "lo = (if ivs = [] then 0 else a)"
  have c': "contiguous lo ivs" using c by (simp add: lo_def)
  have seg: "sum_list (map (segSum d) ivs) = sum_list (take (lastEnd lo ivs - lo) (drop lo d))" for d
    using segSum_contiguous[OF c', of d] by (simp add: segSum_def[of _ "(lo, lastEnd lo ivs)"])
  have "lo \<le> ?n" using lt c by (cases ivs) (auto simp: lo_def)
  then have "lastEnd lo ivs \<le> ?n" by (rule lastEnd_le[OF lt])
  moreover have "lo \<le> lastEnd lo ivs" by (rule contiguous_end[OF c'])
  moreover have "dayStart (Blocks ?t\<lparr>zsCacheID := x\<rparr>) y = dayStart (Blocks ?t) y" for x y
    by (simp add: dayStart_def)
  ultimately show ?thesis
    using c' seg unfolding ch
    by (intro exI[of _ lo] exI[of _ "lastEnd lo ivs"] exI[of _ ivs])
      (auto simp: extendDays_def trimmed_def)
qed

theorem Lengthen_days_partition_witness:
  "\<exists>charts'. Lengthen (exCharts [100, 50000, 90000, 200000, 260000] [5, 6, 7, 8, 9]) = Ret (None, charts')
    \<and> (\<exists>lo hi ivs. contiguous lo ivs \<and> lo \<le> hi \<and> hi \<le> 5
        \<and> sum_list (map (segSum (zsTxCount (Blocks charts'))) ivs)
          = sum_list (take (hi - lo) (drop lo (zsTxCount (Blocks charts')))))"
proof -
  let ?c = "exCharts [100, 50000, 90000, 200000, 260000] [5, 6, 7, 8, 9]"
  obtain charts' where l: "Lengthen ?c = Ret (None, charts')"
    using Lengthen_succeeds[of 0 ?c] by auto
  have u: "zoomUniform 0 (Days ?c)" and s: "zoomShortest (Blocks ?c) > 0" by simp_all
  from Lengthen_days_partition[OF u l s] obtain lo hi ivs where "contiguous lo ivs" "lo \<le> hi" "hi \<le> 5"
    "sum_list (map (segSum (zsTxCount (Blocks charts'))) ivs) = sum_list (take (hi - lo) (drop lo (zsTxCount (Blocks charts'))))"
    by (auto simp: numeral_eq_Suc)
  with l show ?thesis by blast
qed

text \<open>a reorganization leaves consistent data. \<open>ReorgHandler\<close> keeps exactly the blocks up to the
  common ancestor and drops the last two days and the last window, without touching what it keeps,
  so data sets of equal lengths stay so, and the height is then at most that of the ancestor.\<close>

theorem ReorgHandler_truncates:
  assumes "zoomUniform n (Blocks charts)" and "zoomUniform m (Days charts)" and "windowUniform k (Windows charts)"
    and "charts' = ReorgHandler newHeight chain charts"
  shows "zoomLists (Blocks charts') = map (take (nat (newHeight - int (length chain) + 1))) (zoomLists (Blocks charts))
    \<and> zoomLists (Days charts') = map (take (m - 2)) (zoomLists (Days charts))
    \<and> zoomUniform (min n (nat (newHeight - int (length chain) + 1))) (Blocks charts')
    \<and> zoomUniform (m - 2) (Days charts') \<and> windowUniform (k - 1) (Windows charts')
    \<and> (int (length chain) \<le> newHeight + 1 \<longrightarrow> chartsHeight charts' \<le> newHeight - int (length chain))"
proof -
  have len: "length (zsTime (Days charts)) = m" "length (wsTime (Windows charts)) = k"
    using assms(2,3) by (auto simp: zoomUniform_def zoomLists_def windowUniform_def windowLengths_def)
  have b: "Blocks charts' = zoomSnip (newHeight - int (length chain) + 1) (Blocks charts)"
    and d: "Days charts' = zoomSnip (int m - 2) (Days charts)"
    and w: "Windows charts' = windowSnip (int k - 1) (Windows charts)"
    using assms(4) len by (simp_all add: ReorgHandler_def Let_def)
  have nm: "nat (int m - 2) = m - 2" "nat (int k - 1) = k - 1" by arith+
  have "zsTime (Blocks charts') = take (nat (newHeight - int (length chain) + 1)) (zsTime (Blocks charts))"
    unfolding b by (simp add: zoomSnip_def Let_def)
  then have "int (length chain) \<le> newHeight + 1 \<longrightarrow> chartsHeight charts' \<le> newHeight - int (length chain)"
    by (auto simp: chartsHeight_def)
  then show ?thesis
    using zoomUniform_snip[OF assms(1), of "newHeight - int (length chain) + 1"]
      zoomUniform_snip[OF assms(2), of "int m - 2"] windowUniform_snip[OF assms(3), of "int k - 1"]
    by (simp add: b d w nm min_absorb2)
qed

theorem ReorgHandler_truncates_witness:
  "zoomLists (Blocks (ReorgHandler 2 [11, 12] (exCharts [100, 200, 300] [5, 6, 7])))
   = map (take 1) (zoomLists (exZoom [100, 200, 300] [5, 6, 7]))"
proof -
  have "zoomUniform 3 (Blocks (exCharts [100, 200, 300] [5, 6, 7]))"
    "windowUniform 1 (Windows (exCharts [100, 200, 300] [5, 6, 7]))"
    by (simp_all add: zoomUniform_def zoomLists_def exZoom_def windowUniform_def windowLengths_def exWindow_def)
  from ReorgHandler_truncates[OF this(1) _ this(2) refl, of 0 2 "[11, 12]"] show ?thesis by simp
qed

text \<open>C26: the cache file round trip. Reading what was dumped into new chart data restores all block and
  window data sets, whatever the network parameters, if the dumped data sets have equal lengths and
  there are blocks and windows; a file of another version is refused and changes nothing.\<close>

theorem cache_file_roundtrip:
  assumes "zoomUniform n (Blocks charts)" and "0 < n" and "windowUniform k (Windows charts)" and "0 < k"
    and "zoomUniform m (Days fresh)" and "v \<noteq> cacheVersion"
  shows "(\<exists>charts'. readCacheFile (Inr (cacheFileData charts)) fresh = Ret (None, charts')
      \<and> gobject charts' = gobject charts \<and> cacheFileData charts' = cacheFileData charts)
    \<and> readCacheFile (Inr (v, g)) fresh = Ret (Some (CacheVersionError v), fresh)"
proof -
  let ?g = "gobject charts"
  let ?c = "fresh\<lparr>
    Blocks := (Blocks fresh)\<lparr>zsHeight := gbHeight ?g, zsTime := gbTime ?g,
      zsPoolSize := gbPoolSize ?g, zsPoolValue := gbPoolValue ?g, zsBlockSize := gbBlockSize ?g,
      zsTxCount := gbTxCount ?g, zsNewAtoms := gbNewAtoms ?g, zsChainwork := gbChainwork ?g,
      zsFees := gbFees ?g, zsTotalMixed := gbTotalMixed ?g, zsAnonymitySet := gbAnonymitySet ?g\<rparr>,
    Windows := (Windows fresh)\<lparr>wsTime := gbWindowTime ?g, wsPowDiff := gbPowDiff ?g,
      wsTicketPrice := gbTicketPrice ?g, wsStakeCount := gbStakeCount ?g, wsMissedVotes := gbMissedVotes ?g\<rparr>\<rparr>"
  have u: "zoomUniform n (Blocks ?c)" "windowUniform k (Windows ?c)" "zoomUniform m (Days ?c)"
    using assms(1,3,5)
    by (simp_all add: gobject_def Let_def zoomUniform_def zoomLists_def windowUniform_def windowLengths_def)
  have t: "trimmed ?c = ?c"
    using u zoomSnip_uniform[OF u(1)] windowSnip_uniform[OF u(2)]
    by (simp add: trimmed_def zoomUniform_shortest windowUniform_shortest)
  have g: "gobject (?c\<lparr>Days := d, Blocks := (Blocks ?c)\<lparr>zsCacheID := i\<rparr>, Windows := (Windows ?c)\<lparr>wsCacheID := j\<rparr>\<rparr>)
      = gobject charts" for d i j
    by (simp add: gobject_def Let_def)
  have "\<exists>charts'. Lengthen ?c = Ret (None, charts') \<and> gobject charts' = gobject charts"
    unfolding Lengthen_eq t
    using lengthenDays_eq[OF u(1) u(3)] g assms(2,4) zoomUniform_shortest[OF u(1)] windowUniform_shortest[OF u(2)]
    by (metis neq0_conv)
  then obtain charts' where "Lengthen ?c = Ret (None, charts')" "gobject charts' = gobject charts" by blast
  then show ?thesis using assms(6) by (auto simp: readCacheFile_def cacheFileData_def Let_def)
qed

theorem cache_file_roundtrip_witness:
  "\<exists>charts'. readCacheFile (Inr (cacheFileData (exCharts [100, 200] [5, 6]))) (NewChartData 144 4096) = Ret (None, charts')
    \<and> gobject charts' = gobject (exCharts [100, 200] [5, 6])"
proof -
  have "zoomUniform 2 (Blocks (exCharts [100, 200] [5, 6]))" "windowUniform 1 (Windows (exCharts [100, 200] [5, 6]))"
    by (simp_all add: zoomUniform_def zoomLists_def exZoom_def windowUniform_def windowLengths_def exWindow_def)
  moreover have "zoomUniform 0 (Days (NewChartData 144 4096 :: int ChartData))" by (simp add: NewChartData_def)
  moreover have "''0'' \<noteq> cacheVersion" by (simp add: cacheVersion_def)
  ultimately show ?thesis
    using cache_file_roundtrip[of 2 "exCharts [100, 200] [5, 6]" 1 0 "NewChartData 144 4096" "''0''"] by auto
qed

lemma runUpdaters_append:
  "runUpdaters (us @ vs) charts =
     (case runUpdaters us charts of
        (Some e, charts1) \<Rightarrow> (Some e, charts1)
      | (None, charts1) \<Rightarrow> runUpdaters vs charts1)"
  by (induction us arbitrary: charts) (auto split: prod.splits option.splits)

text \<open>an update stops at the first updater that fails. If the updaters before it succeed, its error is
  the result, and the state is the one it leaves: no later updater is run and \<open>Lengthen\<close> is not
  called; and an updater whose fetch saw the last block time change fails without appending.\<close>

theorem Update_stops:
  assumes "runUpdaters us charts = (None, charts1)" and "runUpdater u charts1 = (Some e, charts2)"
  shows "Update (us @ u # vs) charts = Ret (Some e, charts2)
    \<and> (Fetcher u charts1 = (Inr rows, charts3) \<longrightarrow> stateID charts3 \<noteq> stateID charts1 \<longrightarrow>
        e = StateChanged \<and> charts2 = charts3)"
  using assms by (auto simp: Update_def runUpdaters_append runUpdater_def StateID_def validState_def Let_def)

text \<open>An updater whose fetch is overtaken by a new block.\<close>

definition exOvertaken :: "(int, unit) ChartUpdater" where
  "exOvertaken = \<lparr>Tag = ''fees'', Fetcher = \<lambda>c. (Inr (), exCharts [100, 200] [5, 6]), Appender = \<lambda>c r. (None, c)\<rparr>"

theorem Update_stops_witness:
  "Update [exOvertaken, exOvertaken] (exCharts [100] [5]) = Ret (Some StateChanged, exCharts [100, 200] [5, 6])"
proof -
  have "runUpdater exOvertaken (exCharts [100] [5]) = (Some StateChanged, exCharts [100, 200] [5, 6])"
    by (simp add: runUpdater_def exOvertaken_def StateID_def validState_def stateID_def exZoom_def)
  from Update_stops[OF _ this, of "[]" "exCharts [100] [5]" "[exOvertaken]"] show ?thesis by simp
qed

end
