(* ===== verification/ChartMakers.thy ===== *)
theory ChartMakers
  imports Charts
begin

text \<open>
  The charts that \<open>db/cache/charts.go\<close> serves: the keys, bins and axes, the encoding of data sets of
  different lengths, the derived series (accumulated sums, block times, hash rates), one maker per
  chart, and \<open>Chart\<close> with its cache of encoded charts. \<open>json.Marshal\<close> is the parameter \<open>marshal\<close>, which
  takes the map of a response to its bytes, or to an error. A maker may panic (\<open>Panic\<close>), as it indexes
  and slices data sets and divides.
\<close>

subsection \<open>Bins and axes\<close>

text \<open>
  Both types are strings in the source, of which only these constants are produced by the parsers.
\<close>

datatype binLevel = DayBin | BlockBin | WindowBin
datatype axisType = HeightAxis | TimeAxis

fun binString :: "binLevel \<Rightarrow> string" where
  "binString DayBin = ''day''"
| "binString BlockBin = ''block''"
| "binString WindowBin = ''window''"

fun axisString :: "axisType \<Rightarrow> string" where
  "axisString HeightAxis = ''height''"
| "axisString TimeAxis = ''time''"

definition isWindowBin :: "string \<Rightarrow> bool" where
  "isWindowBin chart \<longleftrightarrow> chart = ''pow-difficulty'' \<or> chart = ''ticket-price'' \<or> chart = ''missed-votes''"

definition ParseBin :: "string \<Rightarrow> binLevel" where
  "ParseBin bin = (if bin = ''block'' then BlockBin else if bin = ''window'' then WindowBin else DayBin)"

definition ParseAxis :: "string \<Rightarrow> axisType" where
  "ParseAxis aType = (if aType = ''height'' then HeightAxis else TimeAxis)"

datatype makerError =
    UnknownChartErr
  | InvalidBinErr
  | NoDataSets
  | MarshalError string
  | NotEnoughBlocks
  | NotEnoughDays
  | TooFewDayHeights

subsection \<open>Responses\<close>

datatype 'f chartValue = VBin binLevel | VAxis axisType | VInt int | VData "'f dataset"

type_synonym 'f chartResponse = "string \<rightharpoonup> 'f chartValue"
type_synonym 'f marshaller = "'f chartResponse \<Rightarrow> string + string"
type_synonym made = "(makerError + string) go"
type_synonym 'f ChartMaker = "'f marshaller \<Rightarrow> 'f ChartData \<Rightarrow> binLevel \<Rightarrow> axisType \<Rightarrow> made"

definition binAxisSeed :: "binLevel \<Rightarrow> axisType \<Rightarrow> 'f chartResponse" where
  "binAxisSeed bin axis = [''bin'' \<mapsto> VBin bin, ''axis'' \<mapsto> VAxis axis]"

text \<open>A \<open>lengtherMap\<close> literal is the list of its entries.\<close>

fun smallerLoop :: "int \<Rightarrow> 'f dataset list \<Rightarrow> int" where
  "smallerLoop smaller [] = smaller"
| "smallerLoop smaller (d # ds) =
     (let l = dsLength d in
      if smaller = - 1 then smallerLoop l ds
      else if l < smaller then smallerLoop l ds
      else smallerLoop smaller ds)"

fun truncateLoop :: "int \<Rightarrow> (string \<times> 'f dataset) list \<Rightarrow> 'f chartResponse \<Rightarrow> 'f chartResponse option" where
  "truncateLoop smaller [] seed = Some seed"
| "truncateLoop smaller ((k, v) # sets) seed =
     (case dsTruncate v smaller of
        None \<Rightarrow> None
      | Some v' \<Rightarrow> truncateLoop smaller sets (seed(k \<mapsto> VData v')))"

definition encode :: "'f marshaller \<Rightarrow> (string \<times> 'f dataset) list \<Rightarrow> 'f chartResponse \<Rightarrow> made" where
  "encode marshal sets seed =
     (if sets = [] then Ret (Inl NoDataSets)
      else case truncateLoop (smallerLoop (- 1) (map snd sets)) sets seed of
        None \<Rightarrow> Panic
      | Some response \<Rightarrow>
         (case marshal response of
            Inl e \<Rightarrow> Ret (Inl (MarshalError e))
          | Inr bytes \<Rightarrow> Ret (Inr bytes)))"

subsection \<open>Derived series\<close>

fun accumulateLoop :: "uint64 \<Rightarrow> ChartUints \<Rightarrow> ChartUints \<Rightarrow> ChartUints" where
  "accumulateLoop accumulator d [] = d"
| "accumulateLoop accumulator d (v # vs) = accumulateLoop (accumulator + v) (d @ [accumulator + v]) vs"

definition accumulate :: "ChartUints \<Rightarrow> ChartUints" where
  "accumulate data = accumulateLoop 0 [] data"

fun blockTimesLoop :: "uint64 \<Rightarrow> ChartUints \<Rightarrow> ChartUints \<Rightarrow> ChartUints" where
  "blockTimesLoop lastTime diffs [] = diffs"
| "blockTimesLoop lastTime diffs (v # vs) =
     (let dif0 = v - lastTime; dif = (if sint dif0 < 0 then 0 else dif0)
      in blockTimesLoop v (diffs @ [dif]) vs)"

definition blockTimes :: "ChartUints \<Rightarrow> ChartUints \<times> ChartUints" where
  "blockTimes blocks =
     (if length blocks < 2 then ([], [])
      else (tl blocks, blockTimesLoop (hd blocks) [] (tl blocks)))"

fun avgLoop :: "ChartUints \<Rightarrow> ChartUints \<Rightarrow> ChartUints \<Rightarrow> nat \<Rightarrow> nat \<Rightarrow> uint64 \<Rightarrow> uint64 \<Rightarrow> nat
    \<Rightarrow> ChartUints \<Rightarrow> ChartUints \<Rightarrow> (ChartUints \<times> ChartUints) option" where
  "avgLoop ticks blocks [] i nextIdx workingOn next0 lastIdx labels avgDiffs = Some (labels, avgDiffs)"
| "avgLoop ticks blocks (t # ts) i nextIdx workingOn next0 lastIdx labels avgDiffs =
     (if t > next0
      then
        let pts = snd (blockTimes (take (i - lastIdx) (drop lastIdx blocks))) in
        case uintsAvg pts 0 (int (length pts)) of
          None \<Rightarrow> None
        | Some avg \<Rightarrow>
            if nextIdx + 1 > length ticks - 1 then Some (labels @ [workingOn], avgDiffs @ [avg])
            else avgLoop ticks blocks ts (i + 1) (nextIdx + 1) (ticks ! (nextIdx + 1)) (ticks ! (nextIdx + 1)) i
                   (labels @ [workingOn]) (avgDiffs @ [avg])
      else avgLoop ticks blocks ts (i + 1) nextIdx workingOn next0 lastIdx labels avgDiffs)"

definition avgBlockTimes :: "ChartUints \<Rightarrow> ChartUints \<Rightarrow> (ChartUints \<times> ChartUints) option" where
  "avgBlockTimes ticks blocks =
     (if length ticks < 2 then Some ([], [])
      else avgLoop ticks blocks blocks 0 1 (ticks ! 0) (ticks ! 1) 0 [] [])"

definition HashrateAvgLength :: nat where
  "HashrateAvgLength = 120"

text \<open>\<open>rotator\<close> is the array of the last works; \<open>None\<close> is an index out of range or a division by zero.\<close>

fun hashrateLoop :: "ChartUints \<Rightarrow> ChartUints \<Rightarrow> nat \<Rightarrow> ChartUints \<Rightarrow> ChartUints \<Rightarrow> ChartUints
    \<Rightarrow> (ChartUints \<times> ChartUints) option" where
  "hashrateLoop time rotator i t y [] = Some (t, y)"
| "hashrateLoop time rotator i t y (work # works) =
     (let idx = i mod HashrateAvgLength; rotator' = rotator[idx := work] in
      if i \<ge> HashrateAvgLength
      then
        let lastWork = rotator' ! ((idx + 1) mod HashrateAvgLength) in
        case (go_index time (int i - int HashrateAvgLength), go_index time (int i)) of
          (Some lastTime, Some thisTime) \<Rightarrow>
            if thisTime - lastTime = 0 then None
            else hashrateLoop time rotator' (i + 1) (t @ [thisTime])
                   (y @ [(work - lastWork) * 1000000 div (thisTime - lastTime)]) works
        | _ \<Rightarrow> None
      else hashrateLoop time rotator' (i + 1) t y works)"

definition hashrate :: "ChartUints \<Rightarrow> ChartUints \<Rightarrow> (ChartUints \<times> ChartUints) option" where
  "hashrate time chainwork =
     (if int (length chainwork) - int HashrateAvgLength \<le> 0 then Some ([], [])
      else hashrateLoop time (replicate HashrateAvgLength 0) 0 [] [] chainwork)"

fun dailyLoop :: "ChartUints \<Rightarrow> ChartUints \<Rightarrow> nat \<Rightarrow> ChartUints \<Rightarrow> ChartUints \<Rightarrow> ChartUints
    \<Rightarrow> (ChartUints \<times> ChartUints) option" where
  "dailyLoop time chainwork i stamps rates [] = Some (stamps, rates)"
| "dailyLoop time chainwork i stamps rates (t # ts) =
     (case (go_index time (int i), go_index chainwork (int i + 1), go_index chainwork (int i)) of
        (Some t0, Some w1, Some w0) \<Rightarrow>
          let tDiff0 = sint (t - t0); tDiff = (if tDiff0 \<le> 0 then uint aDay else tDiff0); workDiff = w1 - w0
          in dailyLoop time chainwork (i + 1) (stamps @ [t])
               (rates @ [workDiff * 1000000 div word_of_int tDiff]) ts
      | _ \<Rightarrow> None)"

definition dailyHashrate :: "ChartUints \<Rightarrow> ChartUints \<Rightarrow> (ChartUints \<times> ChartUints) option" where
  "dailyHashrate time chainwork =
     (if time = [] \<or> chainwork = [] then Some ([], [])
      else dailyLoop time chainwork 0 [] [] (tl time))"

text \<open>A derived series that panics makes the maker panic.\<close>

definition ifMade :: "'a option \<Rightarrow> ('a \<Rightarrow> made) \<Rightarrow> made" where
  "ifMade x f = (case x of None \<Rightarrow> Panic | Some a \<Rightarrow> f a)"

subsection \<open>Makers\<close>

definition blockSizeChart :: "'f ChartMaker" where
  "blockSizeChart marshal charts bin axis =
     (let seed = binAxisSeed bin axis in
      case bin of
        BlockBin \<Rightarrow>
         (case axis of
            HeightAxis \<Rightarrow> encode marshal [(''size'', Uints (zsBlockSize (Blocks charts)))] seed
          | TimeAxis \<Rightarrow> encode marshal [(''t'', Uints (zsTime (Blocks charts))), (''size'', Uints (zsBlockSize (Blocks charts)))] seed)
      | DayBin \<Rightarrow>
         (case axis of
            HeightAxis \<Rightarrow> encode marshal [(''h'', Uints (zsHeight (Days charts))), (''size'', Uints (zsBlockSize (Days charts)))] seed
          | TimeAxis \<Rightarrow> encode marshal [(''t'', Uints (zsTime (Days charts))), (''size'', Uints (zsBlockSize (Days charts)))] seed)
      | WindowBin \<Rightarrow> Ret (Inl InvalidBinErr))"

definition blockchainSizeChart :: "'f ChartMaker" where
  "blockchainSizeChart marshal charts bin axis =
     (let seed = binAxisSeed bin axis in
      case bin of
        BlockBin \<Rightarrow>
         (case axis of
            HeightAxis \<Rightarrow> encode marshal [(''size'', Uints (accumulate (zsBlockSize (Blocks charts))))] seed
          | TimeAxis \<Rightarrow> encode marshal [(''t'', Uints (zsTime (Blocks charts))), (''size'', Uints (accumulate (zsBlockSize (Blocks charts))))] seed)
      | DayBin \<Rightarrow>
         (case axis of
            HeightAxis \<Rightarrow> encode marshal [(''h'', Uints (zsHeight (Days charts))), (''size'', Uints (accumulate (zsBlockSize (Days charts))))] seed
          | TimeAxis \<Rightarrow> encode marshal [(''t'', Uints (zsTime (Days charts))), (''size'', Uints (accumulate (zsBlockSize (Days charts))))] seed)
      | WindowBin \<Rightarrow> Ret (Inl InvalidBinErr))"

definition chainWorkChart :: "'f ChartMaker" where
  "chainWorkChart marshal charts bin axis =
     (let seed = binAxisSeed bin axis in
      case bin of
        BlockBin \<Rightarrow>
         (case axis of
            HeightAxis \<Rightarrow> encode marshal [(''work'', Uints (zsChainwork (Blocks charts)))] seed
          | TimeAxis \<Rightarrow> encode marshal [(''t'', Uints (zsTime (Blocks charts))), (''work'', Uints (zsChainwork (Blocks charts)))] seed)
      | DayBin \<Rightarrow>
         (case axis of
            HeightAxis \<Rightarrow> encode marshal [(''h'', Uints (zsHeight (Days charts))), (''work'', Uints (zsChainwork (Days charts)))] seed
          | TimeAxis \<Rightarrow> encode marshal [(''t'', Uints (zsTime (Days charts))), (''work'', Uints (zsChainwork (Days charts)))] seed)
      | WindowBin \<Rightarrow> Ret (Inl InvalidBinErr))"

definition coinSupplyChart :: "'f ChartMaker" where
  "coinSupplyChart marshal charts bin axis =
     (let seed = binAxisSeed bin axis in
      case bin of
        BlockBin \<Rightarrow>
         (case axis of
            HeightAxis \<Rightarrow> encode marshal [(''supply'', Uints (accumulate (zsNewAtoms (Blocks charts)))), (''anonymitySet'', Uints (zsAnonymitySet (Blocks charts)))] seed
          | TimeAxis \<Rightarrow> encode marshal [(''t'', Uints (zsTime (Blocks charts))), (''supply'', Uints (accumulate (zsNewAtoms (Blocks charts)))), (''anonymitySet'', Uints (zsAnonymitySet (Blocks charts)))] seed)
      | DayBin \<Rightarrow>
         (case axis of
            HeightAxis \<Rightarrow> encode marshal [(''h'', Uints (zsHeight (Days charts))), (''supply'', Uints (accumulate (zsNewAtoms (Days charts)))), (''anonymitySet'', Uints (zsAnonymitySet (Days charts)))] seed
          | TimeAxis \<Rightarrow> encode marshal [(''t'', Uints (zsTime (Days charts))), (''supply'', Uints (accumulate (zsNewAtoms (Days charts)))), (''anonymitySet'', Uints (zsAnonymitySet (Days charts))), (''h'', Uints (zsHeight (Days charts)))] seed)
      | WindowBin \<Rightarrow> Ret (Inl InvalidBinErr))"

definition durationBTWChart :: "'f ChartMaker" where
  "durationBTWChart marshal charts bin axis =
     (let seed = binAxisSeed bin axis; b = Blocks charts; d = Days charts in
      case bin of
        BlockBin \<Rightarrow>
         (let (stamps, diffs) = blockTimes (zsTime b) in
          case axis of
            HeightAxis \<Rightarrow> encode marshal [(''duration'', Uints diffs)] seed
          | TimeAxis \<Rightarrow> encode marshal [(''t'', Uints stamps), (''duration'', Uints diffs)] seed)
      | DayBin \<Rightarrow>
         (case axis of
            HeightAxis \<Rightarrow>
              if length (zsHeight d) < 2 then Ret (Inl TooFewDayHeights)
              else ifMade (avgBlockTimes (zsTime d) (zsTime b)) (\<lambda>(_, diffs).
                encode marshal [(''h'', Uints (butlast (zsHeight d))), (''duration'', Uints diffs)] seed)
          | TimeAxis \<Rightarrow> ifMade (avgBlockTimes (zsTime d) (zsTime b)) (\<lambda>(stamps, diffs).
                encode marshal [(''t'', Uints stamps), (''duration'', Uints diffs)] seed))
      | WindowBin \<Rightarrow> Ret (Inl InvalidBinErr))"

definition hashRateChart :: "'f ChartMaker" where
  "hashRateChart marshal charts bin axis =
     (let seed = binAxisSeed bin axis; b = Blocks charts; d = Days charts in
      case bin of
        BlockBin \<Rightarrow>
          if length (zsTime b) < 2 then Ret (Inl NotEnoughBlocks)
          else
            let seed' = seed(''offset'' \<mapsto> VInt (int HashrateAvgLength)) in
            ifMade (hashrate (zsTime b) (zsChainwork b)) (\<lambda>(stamps, rates).
              case axis of
                HeightAxis \<Rightarrow> encode marshal [(''rate'', Uints rates)] seed'
              | TimeAxis \<Rightarrow> encode marshal [(''t'', Uints stamps), (''rate'', Uints rates)] seed')
      | DayBin \<Rightarrow>
          if length (zsTime d) < 2 then Ret (Inl NotEnoughDays)
          else
            let seed' = seed(''offset'' \<mapsto> VInt 1) in
            ifMade (dailyHashrate (zsTime d) (zsChainwork d)) (\<lambda>(stamps, rates).
              case axis of
                HeightAxis \<Rightarrow> ifMade (go_slice (zsHeight d) 1 (int (length (zsHeight d)))) (\<lambda>heights.
                  encode marshal [(''h'', Uints heights), (''rate'', Uints rates)] seed')
              | TimeAxis \<Rightarrow> encode marshal [(''t'', Uints stamps), (''rate'', Uints rates)] seed')
      | WindowBin \<Rightarrow> Ret (Inl InvalidBinErr))"

definition powDifficultyChart :: "'f ChartMaker" where
  "powDifficultyChart marshal charts bin axis =
     (let seed = [''window'' \<mapsto> VInt (DiffInterval charts)]; w = Windows charts in
      case axis of
        HeightAxis \<Rightarrow> encode marshal [(''diff'', Floats (wsPowDiff w))] seed
      | TimeAxis \<Rightarrow> encode marshal [(''diff'', Floats (wsPowDiff w)), (''t'', Uints (wsTime w))] seed)"

definition ticketPriceChart :: "'f ChartMaker" where
  "ticketPriceChart marshal charts bin axis =
     (let seed = [''window'' \<mapsto> VInt (DiffInterval charts)]; w = Windows charts in
      case axis of
        HeightAxis \<Rightarrow>
          encode marshal [(''price'', Uints (wsTicketPrice w)), (''count'', Uints (wsStakeCount w))] seed
      | TimeAxis \<Rightarrow>
          encode marshal [(''t'', Uints (wsTime w)), (''price'', Uints (wsTicketPrice w)),
            (''count'', Uints (wsStakeCount w))] seed)"

definition txCountChart :: "'f ChartMaker" where
  "txCountChart marshal charts bin axis =
     (let seed = binAxisSeed bin axis in
      case bin of
        BlockBin \<Rightarrow>
         (case axis of
            HeightAxis \<Rightarrow> encode marshal [(''count'', Uints (zsTxCount (Blocks charts)))] seed
          | TimeAxis \<Rightarrow> encode marshal [(''t'', Uints (zsTime (Blocks charts))), (''count'', Uints (zsTxCount (Blocks charts)))] seed)
      | DayBin \<Rightarrow>
         (case axis of
            HeightAxis \<Rightarrow> encode marshal [(''h'', Uints (zsHeight (Days charts))), (''count'', Uints (zsTxCount (Days charts)))] seed
          | TimeAxis \<Rightarrow> encode marshal [(''t'', Uints (zsTime (Days charts))), (''count'', Uints (zsTxCount (Days charts)))] seed)
      | WindowBin \<Rightarrow> Ret (Inl InvalidBinErr))"

definition feesChart :: "'f ChartMaker" where
  "feesChart marshal charts bin axis =
     (let seed = binAxisSeed bin axis in
      case bin of
        BlockBin \<Rightarrow>
         (case axis of
            HeightAxis \<Rightarrow> encode marshal [(''fees'', Uints (zsFees (Blocks charts)))] seed
          | TimeAxis \<Rightarrow> encode marshal [(''t'', Uints (zsTime (Blocks charts))), (''fees'', Uints (zsFees (Blocks charts)))] seed)
      | DayBin \<Rightarrow>
         (case axis of
            HeightAxis \<Rightarrow> encode marshal [(''h'', Uints (zsHeight (Days charts))), (''fees'', Uints (zsFees (Days charts)))] seed
          | TimeAxis \<Rightarrow> encode marshal [(''t'', Uints (zsTime (Days charts))), (''fees'', Uints (zsFees (Days charts)))] seed)
      | WindowBin \<Rightarrow> Ret (Inl InvalidBinErr))"

definition anonymitySetChart :: "'f ChartMaker" where
  "anonymitySetChart marshal charts bin axis =
     (let seed = binAxisSeed bin axis in
      case bin of
        BlockBin \<Rightarrow>
         (case axis of
            HeightAxis \<Rightarrow> encode marshal [(''h'', Uints (zsHeight (Blocks charts))), (''anonymitySet'', Uints (zsTotalMixed (Blocks charts)))] seed
          | TimeAxis \<Rightarrow> encode marshal [(''t'', Uints (zsTime (Blocks charts))), (''anonymitySet'', Uints (zsTotalMixed (Blocks charts)))] seed)
      | DayBin \<Rightarrow>
         (case axis of
            HeightAxis \<Rightarrow> encode marshal [(''h'', Uints (zsHeight (Days charts))), (''anonymitySet'', Uints (zsTotalMixed (Days charts)))] seed
          | TimeAxis \<Rightarrow> encode marshal [(''t'', Uints (zsTime (Days charts))), (''anonymitySet'', Uints (zsTotalMixed (Days charts)))] seed)
      | WindowBin \<Rightarrow> Ret (Inl InvalidBinErr))"

definition ticketPoolSizeChart :: "'f ChartMaker" where
  "ticketPoolSizeChart marshal charts bin axis =
     (let seed = binAxisSeed bin axis in
      case bin of
        BlockBin \<Rightarrow>
         (case axis of
            HeightAxis \<Rightarrow> encode marshal [(''count'', Uints (zsPoolSize (Blocks charts)))] seed
          | TimeAxis \<Rightarrow> encode marshal [(''t'', Uints (zsTime (Blocks charts))), (''count'', Uints (zsPoolSize (Blocks charts)))] seed)
      | DayBin \<Rightarrow>
         (case axis of
            HeightAxis \<Rightarrow> encode marshal [(''h'', Uints (zsHeight (Days charts))), (''count'', Uints (zsPoolSize (Days charts)))] seed
          | TimeAxis \<Rightarrow> encode marshal [(''t'', Uints (zsTime (Days charts))), (''count'', Uints (zsPoolSize (Days charts)))] seed)
      | WindowBin \<Rightarrow> Ret (Inl InvalidBinErr))"

definition poolValueChart :: "'f ChartMaker" where
  "poolValueChart marshal charts bin axis =
     (let seed = binAxisSeed bin axis in
      case bin of
        BlockBin \<Rightarrow>
         (case axis of
            HeightAxis \<Rightarrow> encode marshal [(''poolval'', Uints (zsPoolValue (Blocks charts)))] seed
          | TimeAxis \<Rightarrow> encode marshal [(''t'', Uints (zsTime (Blocks charts))), (''poolval'', Uints (zsPoolValue (Blocks charts)))] seed)
      | DayBin \<Rightarrow>
         (case axis of
            HeightAxis \<Rightarrow> encode marshal [(''h'', Uints (zsHeight (Days charts))), (''poolval'', Uints (zsPoolValue (Days charts)))] seed
          | TimeAxis \<Rightarrow> encode marshal [(''t'', Uints (zsTime (Days charts))), (''poolval'', Uints (zsPoolValue (Days charts)))] seed)
      | WindowBin \<Rightarrow> Ret (Inl InvalidBinErr))"

definition missedVotesChart :: "'f ChartMaker" where
  "missedVotesChart marshal charts bin axis =
     (if DiffInterval charts = 0 then Panic
      else
        let w = Windows charts;
            prestake0 = StartPOS charts sdiv DiffInterval charts;
            prestake = (if prestake0 \<ge> int (length (wsMissedVotes w)) \<or> prestake0 \<ge> int (length (wsTime w))
              then 0 else prestake0);
            seed = [''window'' \<mapsto> VInt (DiffInterval charts), ''offset'' \<mapsto> VInt prestake]
        in ifMade (go_slice (wsMissedVotes w) prestake (int (length (wsMissedVotes w)))) (\<lambda>missed.
          case axis of
            HeightAxis \<Rightarrow> encode marshal [(''missed'', Uints missed)] seed
          | TimeAxis \<Rightarrow> ifMade (go_slice (wsTime w) prestake (int (length (wsTime w)))) (\<lambda>stamps.
              encode marshal [(''t'', Uints stamps), (''missed'', Uints missed)] seed)))"

definition stakedCoinsChart :: "'f ChartMaker" where
  "stakedCoinsChart marshal charts bin axis =
     (let seed = binAxisSeed bin axis in
      case bin of
        BlockBin \<Rightarrow>
         (case axis of
            HeightAxis \<Rightarrow> encode marshal [(''circulation'', Uints (accumulate (zsNewAtoms (Blocks charts)))), (''poolval'', Uints (zsPoolValue (Blocks charts)))] seed
          | TimeAxis \<Rightarrow> encode marshal [(''t'', Uints (zsTime (Blocks charts))), (''circulation'', Uints (accumulate (zsNewAtoms (Blocks charts)))), (''poolval'', Uints (zsPoolValue (Blocks charts)))] seed)
      | DayBin \<Rightarrow>
         (case axis of
            HeightAxis \<Rightarrow> encode marshal [(''h'', Uints (zsHeight (Days charts))), (''circulation'', Uints (accumulate (zsNewAtoms (Days charts)))), (''poolval'', Uints (zsPoolValue (Days charts)))] seed
          | TimeAxis \<Rightarrow> encode marshal [(''t'', Uints (zsTime (Days charts))), (''circulation'', Uints (accumulate (zsNewAtoms (Days charts)))), (''poolval'', Uints (zsPoolValue (Days charts)))] seed)
      | WindowBin \<Rightarrow> Ret (Inl InvalidBinErr))"

subsection \<open>Serving charts\<close>

definition chartMakers :: "(string \<times> 'f ChartMaker) list" where
  "chartMakers =
     [(''block-size'', blockSizeChart), (''blockchain-size'', blockchainSizeChart),
      (''chainwork'', chainWorkChart), (''coin-supply'', coinSupplyChart),
      (''duration-btw-blocks'', durationBTWChart), (''hashrate'', hashRateChart),
      (''pow-difficulty'', powDifficultyChart), (''ticket-price'', ticketPriceChart),
      (''tx-count'', txCountChart), (''fees'', feesChart),
      (''privacy-participation'', anonymitySetChart), (''ticket-pool-size'', ticketPoolSizeChart),
      (''ticket-pool-value'', poolValueChart), (''missed-votes'', missedVotesChart),
      (''stake-participation'', stakedCoinsChart)]"

definition cacheKey :: "string \<Rightarrow> binLevel \<Rightarrow> axisType \<Rightarrow> string" where
  "cacheKey chartID bin axis = chartID @ ''-'' @ binString bin @ ''-'' @ axisString axis"

fun cacheID :: "'f ChartData \<Rightarrow> binLevel \<Rightarrow> uint64" where
  "cacheID charts BlockBin = zsCacheID (Blocks charts)"
| "cacheID charts DayBin = zsCacheID (Days charts)"
| "cacheID charts WindowBin = wsCacheID (Windows charts)"

text \<open>The cached chart, if found, and the current identifier.\<close>

definition getCache :: "'f ChartData \<Rightarrow> string \<Rightarrow> binLevel \<Rightarrow> axisType \<Rightarrow> cachedChart option \<times> uint64" where
  "getCache charts chartID bin axis = (chartCache charts (cacheKey chartID bin axis), cacheID charts bin)"

definition cacheChart :: "string \<Rightarrow> binLevel \<Rightarrow> axisType \<Rightarrow> string \<Rightarrow> 'f ChartData \<Rightarrow> 'f ChartData" where
  "cacheChart chartID bin axis data charts =
     charts\<lparr>chartCache := (chartCache charts)(cacheKey chartID bin axis \<mapsto>
       \<lparr>ccCacheID = cacheID charts bin, ccData = data\<rparr>)\<rparr>"

definition Chart :: "'f marshaller \<Rightarrow> string \<Rightarrow> string \<Rightarrow> string \<Rightarrow> 'f ChartData \<Rightarrow> made \<times> 'f ChartData" where
  "Chart marshal chartID binStr axisStr charts =
     (let bin = ParseBin (if isWindowBin chartID then binString WindowBin else binStr);
          axis = ParseAxis axisStr;
          make = (case map_of chartMakers chartID of
              None \<Rightarrow> (Ret (Inl UnknownChartErr), charts)
            | Some maker \<Rightarrow>
               (case maker marshal charts bin axis of
                  Panic \<Rightarrow> (Panic, charts)
                | Ret (Inl e) \<Rightarrow> (Ret (Inl e), charts)
                | Ret (Inr data) \<Rightarrow> (Ret (Inr data), cacheChart chartID bin axis data charts)))
      in case getCache charts chartID bin axis of
           (Some cached, cid) \<Rightarrow> if ccCacheID cached = cid then (Ret (Inr (ccData cached)), charts) else make
         | (None, cid) \<Rightarrow> make)"

subsection \<open>Encoding\<close>

lemma smallerLoop_eq: "0 \<le> s \<Longrightarrow> smallerLoop s ds = Min (insert s (dsLength ` set ds))"
proof (induction ds arbitrary: s)
  case Nil
  then show ?case by simp
next
  case (Cons d ds)
  have nn: "0 \<le> dsLength d" by (rule ds.len_nonneg)
  then have "smallerLoop s (d # ds) = smallerLoop (min s (dsLength d)) ds"
    using Cons.prems by (auto simp: Let_def min_def)
  also have "\<dots> = Min (insert (min s (dsLength d)) (dsLength ` set ds))"
    using Cons nn by simp
  finally show ?case by (simp add: Min_insert2 del: Min_insert)
qed

lemma smallest: "ds \<noteq> [] \<Longrightarrow> smallerLoop (- 1) ds = Min (dsLength ` set ds)"
  by (cases ds) (simp_all add: smallerLoop_eq ds.len_nonneg Let_def del: Min_insert)

lemma truncateLoop_eq:
  assumes "\<And>k d. (k, d) \<in> set sets \<Longrightarrow> 0 \<le> m \<and> m \<le> dsLength d"
  shows "\<exists>cut. list_all2 (\<lambda>(k, d) (k', d'). k' = k \<and> dsTruncate d m = Some d' \<and> dsLength d' = m) sets cut
    \<and> truncateLoop m sets seed = Some (fold (\<lambda>(k, d) s. s(k \<mapsto> VData d)) cut seed)"
  using assms
proof (induction sets arbitrary: seed)
  case Nil
  then show ?case by simp
next
  case (Cons kd sets)
  obtain k d where kd: "kd = (k, d)" by (cases kd)
  obtain d' where d': "dsTruncate d m = Some d'" "dsLength d' = m"
    using ds.trunc_len Cons.prems[of k d] kd by auto
  have "0 \<le> m \<and> m \<le> dsLength d" if "(k, d) \<in> set sets" for k d
    using that Cons.prems by auto
  from Cons.IH[OF this, of "\<lambda>k d. k" "seed(k \<mapsto> VData d')"] obtain cut
    where "list_all2 (\<lambda>(k, d) (k', d'). k' = k \<and> dsTruncate d m = Some d' \<and> dsLength d' = m) sets cut"
    "truncateLoop m sets (seed(k \<mapsto> VData d')) = Some (fold (\<lambda>(k, d) s. s(k \<mapsto> VData d)) cut (seed(k \<mapsto> VData d')))"
    by blast
  then show ?case using d' kd by (intro exI[of _ "(k, d') # cut"]) (simp del: fun_upd_apply)
qed

lemma encode_eq:
  assumes "sets \<noteq> []" and "m = Min (dsLength ` snd ` set sets)"
  shows "\<exists>cut. list_all2 (\<lambda>(k, d) (k', d'). k' = k \<and> dsTruncate d m = Some d' \<and> dsLength d' = m) sets cut
    \<and> encode marshal sets seed = (case marshal (fold (\<lambda>(k, d) s. s(k \<mapsto> VData d)) cut seed) of
        Inl e \<Rightarrow> Ret (Inl (MarshalError e)) | Inr bytes \<Rightarrow> Ret (Inr bytes))"
proof -
  have m: "smallerLoop (- 1) (map snd sets) = m" using assms by (subst smallest) simp_all
  have b: "0 \<le> m \<and> m \<le> dsLength d" if "(k, d) \<in> set sets" for k d
  proof
    have "0 \<le> Min (dsLength ` set (map snd sets))" using assms(1) by (intro ds.Min_len_nonneg) simp
    then show "0 \<le> m" using assms(2) by simp
    have "dsLength d \<in> dsLength ` snd ` set sets" using that by force
    then show "m \<le> dsLength d" using assms(2) by simp
  qed
  obtain cut where "list_all2 (\<lambda>(k, d) (k', d'). k' = k \<and> dsTruncate d m = Some d' \<and> dsLength d' = m) sets cut"
    "truncateLoop m sets seed = Some (fold (\<lambda>(k, d) s. s(k \<mapsto> VData d)) cut seed)"
    using truncateLoop_eq[of sets m seed] b by blast
  then show ?thesis using assms(1) m by (intro exI[of _ cut]) (simp add: encode_def split: sum.splits)
qed

subsection \<open>Derived series\<close>

lemma accumulateLoop_eq:
  "accumulateLoop a d vs = d @ map (\<lambda>i. a + sum_list (take (i + 1) vs)) [0..<length vs]"
proof (induction vs arbitrary: a d)
  case Nil
  then show ?case by simp
next
  case (Cons v vs)
  have "map (\<lambda>i. a + sum_list (take (i + 1) (v # vs))) [0..<length (v # vs)]
      = (a + v) # map (\<lambda>i. a + v + sum_list (take (i + 1) vs)) [0..<length vs]"
    by (simp add: upt_conv_Cons map_Suc_upt[symmetric] algebra_simps del: upt_Suc)
  then show ?case using Cons by simp
qed

lemma accumulate_eq: "accumulate vs = map (\<lambda>i. sum_list (take (i + 1) vs)) [0..<length vs]"
  by (simp add: accumulate_def accumulateLoop_eq)

text \<open>The time differences, when no clock runs backwards.\<close>

fun diffs :: "uint64 \<Rightarrow> ChartUints \<Rightarrow> ChartUints" where
  "diffs t [] = []"
| "diffs t (v # vs) = (v - t) # diffs v vs"

fun forward :: "uint64 \<Rightarrow> ChartUints \<Rightarrow> bool" where
  "forward t [] = True"
| "forward t (v # vs) = (0 \<le> sint (v - t) \<and> forward v vs)"

lemma blockTimesLoop_eq: "forward t vs \<Longrightarrow> blockTimesLoop t d vs = d @ diffs t vs"
  by (induction vs arbitrary: t d) (auto simp: Let_def)

lemma length_diffs [simp]: "length (diffs t vs) = length vs"
  by (induction vs arbitrary: t) auto

lemma accumulate_diffs: "map ((+) t) (accumulateLoop a d (diffs s vs)) = map ((+) t) d @ map (\<lambda>v. t + a + v - s) vs"
proof (induction vs arbitrary: s a d)
  case Nil
  then show ?case by simp
next
  case (Cons v vs)
  then show ?case by (simp add: algebra_simps)
qed

text \<open>The rotator holds the last 120 works.\<close>

definition rotatorHolds :: "ChartUints \<Rightarrow> nat \<Rightarrow> ChartUints \<Rightarrow> bool" where
  "rotatorHolds works i r \<longleftrightarrow> length r = 120 \<and> (\<forall>j<i. i \<le> j + 120 \<longrightarrow> r ! (j mod 120) = works ! j)"

lemma rotatorHolds_step:
  assumes "rotatorHolds works i r"
  shows "rotatorHolds works (i + 1) (r[i mod 120 := works ! i])"
  unfolding rotatorHolds_def
proof (intro conjI allI impI)
  fix j assume j: "j < i + 1" "i + 1 \<le> j + 120"
  show "r[i mod 120 := works ! i] ! (j mod 120) = works ! j"
  proof (cases "j = i")
    case True
    then show ?thesis using assms by (simp add: rotatorHolds_def)
  next
    case False
    have "j mod 120 \<noteq> i mod 120"
    proof
      assume "j mod 120 = i mod 120"
      then have "120 dvd i - j" using j False by (metis mod_eq_dvd_iff_nat less_Suc_eq less_imp_le Suc_eq_plus1)
      then show False using j False by (auto dest: dvd_imp_le)
    qed
    then show ?thesis using assms j False by (auto simp: rotatorHolds_def)
  qed
qed (use assms in \<open>simp add: rotatorHolds_def\<close>)

definition hashRateAt :: "ChartUints \<Rightarrow> ChartUints \<Rightarrow> nat \<Rightarrow> uint64" where
  "hashRateAt time works i = (works ! i - works ! (i - 119)) * 1000000 div (time ! i - time ! (i - 120))"

lemma rotator_last:
  assumes "rotatorHolds works (i + 1) r" and "120 \<le> i"
  shows "r ! ((i mod 120 + 1) mod 120) = works ! (i - 119)"
proof -
  have "(i mod 120 + 1) mod 120 = (i - 119) mod 120"
  proof -
    have "i + 1 = (i - 119) + 120" using assms(2) by simp
    then have "(i + 1) mod 120 = (i - 119) mod 120" by (metis mod_add_self2)
    then show ?thesis by (simp add: mod_Suc_eq)
  qed
  then show ?thesis using assms by (simp add: rotatorHolds_def)
qed

lemma hashrateLoop_eq:
  assumes "rotatorHolds works i r" and "length works \<le> length time"
    and "\<forall>j. 120 \<le> j \<longrightarrow> j < length works \<longrightarrow> time ! j \<noteq> time ! (j - 120)"
    and "i \<le> length works"
  shows "hashrateLoop time r i t y (drop i works) =
    Some (t @ map (\<lambda>j. time ! j) [max i 120..<length works], y @ map (hashRateAt time works) [max i 120..<length works])"
  using assms(1,4)
proof (induction "length works - i" arbitrary: i r t y)
  case 0
  then show ?case by simp
next
  case (Suc k)
  then have lt: "i < length works" by simp
  then have d: "drop i works = works ! i # drop (i + 1) works" by (simp add: Cons_nth_drop_Suc)
  note r' = rotatorHolds_step[OF Suc.prems(1)]
  show ?case
  proof (cases "120 \<le> i")
    case True
    have ne: "time ! i - time ! (i - 120) \<noteq> 0" using assms(3) True lt by simp
    have gi: "go_index time (int i) = Some (time ! i)" "go_index time (int i - 120) = Some (time ! (i - 120))"
      using lt assms(2) True by (auto simp: go_index_def nat_diff_distrib)
    have up: "[i..<length works] = i # [Suc i..<length works]" using lt by (rule upt_conv_Cons)
    show ?thesis
      using Suc.hyps(1)[of "i + 1" "r[i mod 120 := works ! i]" "t @ [time ! i]" "y @ [hashRateAt time works i]"]
        Suc.hyps(2) Suc.prems r' lt True ne gi rotator_last[OF r' True]
      by (simp add: d up HashrateAvgLength_def Let_def hashRateAt_def)
  next
    case False
    have "max (i + 1) 120 = max i 120" using False by simp
    then show ?thesis
      using Suc.hyps(1)[of "i + 1" "r[i mod 120 := works ! i]" t y] Suc.hyps(2) Suc.prems r' lt False
      by (simp add: d HashrateAvgLength_def Let_def)
  qed
qed

text \<open>The labels of the averages of block times.\<close>

lemma avgLoop_labels:
  assumes "avgLoop ticks blocks ts i k w n li labels avgs = Some (ls, as)"
    and "1 \<le> k" and "k < length ticks" and "w = (hd ticks # drop 2 ticks) ! (k - 1)"
    and "labels = take (k - 1) (hd ticks # drop 2 ticks)"
  shows "\<exists>m. ls = take m (hd ticks # drop 2 ticks)"
  using assms
proof (induction ts arbitrary: i k w n li labels avgs)
  case Nil
  then show ?case by auto
next
  case (Cons t ts)
  let ?L = "hd ticks # drop 2 ticks"
  have len: "k - 1 < length ?L" using Cons.prems(2,3) by simp
  have snoc: "labels @ [w] = take k ?L"
    using Cons.prems(2,4,5) take_Suc_conv_app_nth[OF len] by simp
  show ?case
  proof (cases "t > n")
    case True
    let ?pts = "snd (blockTimes (take (i - li) (drop li blocks)))"
    obtain avg where a: "uintsAvg ?pts 0 (int (length ?pts)) = Some avg"
      using Cons.prems(1) True by (auto simp: Let_def split: option.splits)
    show ?thesis
    proof (cases "k + 1 > length ticks - 1")
      case stop: True
      then have "ls = labels @ [w]" using Cons.prems(1) True a by (auto simp: Let_def)
      then show ?thesis using snoc by metis
    next
      case False
      then have k: "1 \<le> k + 1" "k + 1 < length ticks" using Cons.prems(3) by auto
      have nx: "ticks ! (k + 1) = ?L ! (k + 1 - 1)" using Cons.prems(2) k by (cases k) auto
      have "avgLoop ticks blocks ts (i + 1) (k + 1) (ticks ! (k + 1)) (ticks ! (k + 1)) i
          (labels @ [w]) (avgs @ [avg]) = Some (ls, as)"
        using Cons.prems(1) True a False by (simp add: Let_def)
      from Cons.IH[OF this k nx] show ?thesis using snoc by simp
    qed
  next
    case False
    then have "avgLoop ticks blocks ts (i + 1) k w n li labels avgs = Some (ls, as)"
      using Cons.prems(1) by simp
    from Cons.IH[OF this Cons.prems(2-5)] show ?thesis .
  qed
qed

subsection \<open>The cache of charts\<close>

lemma noDash: "CHR ''-'' \<notin> set (binString b)" "CHR ''-'' \<notin> set (axisString a)"
  by (cases b; simp) (cases a; simp)

lemma last_dash_unique:
  "CHR ''-'' \<notin> set s \<Longrightarrow> CHR ''-'' \<notin> set t \<Longrightarrow> x @ ''-'' @ s = y @ ''-'' @ t \<Longrightarrow> x = y \<and> s = t"
proof -
  assume s: "CHR ''-'' \<notin> set s" and t: "CHR ''-'' \<notin> set t" and eq: "x @ ''-'' @ s = y @ ''-'' @ t"
  have tw: "takeWhile (\<lambda>c. c \<noteq> CHR ''-'') (rev (z @ ''-'' @ u)) = rev u" if "CHR ''-'' \<notin> set u" for z u
    using that by (simp add: takeWhile_append)
  have "rev s = takeWhile (\<lambda>c. c \<noteq> CHR ''-'') (rev (x @ ''-'' @ s))" by (rule tw[OF s, symmetric])
  also have "\<dots> = rev t" unfolding eq by (rule tw[OF t])
  finally have "rev s = rev t" .
  then show ?thesis using eq by simp
qed

lemma binString_inj: "binString b = binString b' \<Longrightarrow> b = b'"
  by (cases b; cases b') simp_all

lemma axisString_inj: "axisString a = axisString a' \<Longrightarrow> a = a'"
  by (cases a; cases a') simp_all

lemma cacheKey_inj: "cacheKey c b a = cacheKey c' b' a' \<Longrightarrow> c = c' \<and> b = b' \<and> a = a'"
proof -
  assume "cacheKey c b a = cacheKey c' b' a'"
  then have "(c @ ''-'' @ binString b) @ ''-'' @ axisString a = (c' @ ''-'' @ binString b') @ ''-'' @ axisString a'"
    by (simp add: cacheKey_def)
  from last_dash_unique[OF noDash(2) noDash(2) this]
  have ab: "c @ ''-'' @ binString b = c' @ ''-'' @ binString b'" and "a = a'" using axisString_inj by auto
  moreover from last_dash_unique[OF noDash(1) noDash(1) ab] have "c = c' \<and> b = b'" using binString_inj by auto
  ultimately show ?thesis by simp
qed

lemma ParseBin_binString [simp]: "ParseBin (binString b) = b"
  by (cases b) (simp_all add: ParseBin_def)

lemmas maker_defs = blockSizeChart_def blockchainSizeChart_def chainWorkChart_def coinSupplyChart_def
  durationBTWChart_def hashRateChart_def powDifficultyChart_def ticketPriceChart_def txCountChart_def
  feesChart_def anonymitySetChart_def ticketPoolSizeChart_def poolValueChart_def missedVotesChart_def
  stakedCoinsChart_def

text \<open>A maker does not look at the cache.\<close>

lemma makers_ignore_cache:
  "\<forall>p\<in>set chartMakers. snd p marshal (charts\<lparr>chartCache := c\<rparr>) bin axis = snd p marshal charts bin axis"
  by (cases bin; cases axis; simp add: chartMakers_def maker_defs Let_def)

lemma maker_ignores_cache:
  "map_of chartMakers chartID = Some maker \<Longrightarrow> maker marshal (charts\<lparr>chartCache := c\<rparr>) bin axis = maker marshal charts bin axis"
  using makers_ignore_cache map_of_SomeD by fastforce

text \<open>Nor do the operations on the data look at it or change it.\<close>

lemma ReorgHandler_keeps_cache:
  "chartCache (ReorgHandler newHeight chain charts) = chartCache charts"
  "cacheID (ReorgHandler newHeight chain charts) bin = cacheID charts bin"
  by (cases bin; simp add: ReorgHandler_def Let_def zoomSnip_def windowSnip_def)+

lemma Lengthen_keeps_cache: "Lengthen charts = Ret (err, charts') \<Longrightarrow> chartCache charts' = chartCache charts"
  unfolding Lengthen_eq lengthenDays_def Let_def
  by (auto simp: trimmed_def split: if_splits option.splits prod.splits)

lemma cacheID_cache [simp]: "cacheID (charts\<lparr>chartCache := c\<rparr>) bin = cacheID charts bin"
  by (cases bin) simp_all

text \<open>
  The states of the chart data with their cache, with everything that interleaves. A call of
  \<open>Chart\<close> that misses makes the chart in one step and stores it in another one, and between them the data may change: the
  appenders of the updaters, \<open>Lengthen\<close>, \<open>ReorgHandler\<close> and the reading of the cache file change data and identifiers in any way
  but leave the cache. Next to the state are the charts that are made and not stored, with the identifier at that time, the
  keys of the entries that were stored under an identifier other than that, and the states so far.
\<close>

inductive chartRun :: "'f marshaller \<Rightarrow> 'f ChartData \<Rightarrow> (string \<times> binLevel \<times> axisType \<times> string \<times> uint64) list
    \<Rightarrow> string set \<Rightarrow> 'f ChartData list \<Rightarrow> bool" for marshal where
  run_start: "chartRun marshal (NewChartData w s) [] {} [NewChartData w s]"
| run_change: "chartRun marshal c pend late hist \<Longrightarrow> chartCache c' = chartCache c \<Longrightarrow> chartRun marshal c' pend late (c' # hist)"
| run_make: "chartRun marshal c pend late hist \<Longrightarrow> map_of chartMakers chartID = Some maker
    \<Longrightarrow> maker marshal c bin axis = Ret (Inr data)
    \<Longrightarrow> chartRun marshal c ((chartID, bin, axis, data, cacheID c bin) # pend) late hist"
| run_store: "chartRun marshal c pend late hist \<Longrightarrow> (chartID, bin, axis, data, i) \<in> set pend
    \<Longrightarrow> c' = cacheChart chartID bin axis data c \<Longrightarrow> pend' = remove1 (chartID, bin, axis, data, i) pend
    \<Longrightarrow> late' = (if i = cacheID c bin then late - {cacheKey chartID bin axis} else insert (cacheKey chartID bin axis) late)
    \<Longrightarrow> chartRun marshal c' pend' late' (c' # hist)"

text \<open>What made a chart: the maker, on one of the states so far, when the identifier of the bin was \<open>i\<close>.\<close>

definition madeOf :: "'f marshaller \<Rightarrow> 'f ChartData list \<Rightarrow> string \<Rightarrow> binLevel \<Rightarrow> axisType \<Rightarrow> string \<Rightarrow> uint64 \<Rightarrow> bool" where
  "madeOf marshal hist chartID bin axis data i \<longleftrightarrow>
     (\<exists>maker. map_of chartMakers chartID = Some maker \<and>
        (\<exists>s\<in>set hist. maker marshal s bin axis = Ret (Inr data) \<and> cacheID s bin = i))"

lemma madeOf_more: "madeOf marshal hist k b a d i \<Longrightarrow> madeOf marshal (c # hist) k b a d i"
  by (auto simp: madeOf_def)

text \<open>Every entry was made by its maker of a state so far, under its identifier unless it was stored late.\<close>

definition cacheOrigin :: "'f marshaller \<Rightarrow> 'f ChartData \<Rightarrow> (string \<times> binLevel \<times> axisType \<times> string \<times> uint64) list
    \<Rightarrow> string set \<Rightarrow> 'f ChartData list \<Rightarrow> bool" where
  "cacheOrigin marshal c pend late hist \<longleftrightarrow> c \<in> set hist \<and>
     (\<forall>(k, b, a, d, i)\<in>set pend. madeOf marshal hist k b a d i) \<and>
     (\<forall>k b a e. chartCache c (cacheKey k b a) = Some e \<longrightarrow>
        (\<exists>i. madeOf marshal hist k b a (ccData e) i \<and> (i = ccCacheID e \<or> cacheKey k b a \<in> late)))"

lemma cacheOrigin_step:
  assumes "cacheOrigin marshal c pend late hist" and "set pend' \<subseteq> set pend"
    and "\<And>k b a e. chartCache c' (cacheKey k b a) = Some e \<Longrightarrow>
      (\<exists>i. madeOf marshal hist k b a (ccData e) i \<and> (i = ccCacheID e \<or> cacheKey k b a \<in> late'))"
  shows "cacheOrigin marshal c' pend' late' (c' # hist)"
  unfolding cacheOrigin_def
proof (intro conjI allI impI)
  show "\<forall>(k, b, a, d, i)\<in>set pend'. madeOf marshal (c' # hist) k b a d i"
    using assms(1,2) unfolding cacheOrigin_def by (fastforce intro: madeOf_more)
  show "\<exists>i. madeOf marshal (c' # hist) k b a (ccData e) i \<and> (i = ccCacheID e \<or> cacheKey k b a \<in> late')"
    if "chartCache c' (cacheKey k b a) = Some e" for k b a e
    using assms(3)[OF that] madeOf_more by metis
qed simp

lemma chartRun_origin: "chartRun marshal c pend late hist \<Longrightarrow> cacheOrigin marshal c pend late hist"
proof (induction rule: chartRun.induct)
  case (run_start w s)
  then show ?case by (simp add: cacheOrigin_def NewChartData_def)
next
  case (run_change c pend late hist c')
  then show ?case by (intro cacheOrigin_step[OF run_change.IH]) (simp_all add: cacheOrigin_def)
next
  case (run_make c pend late hist chartID maker bin axis data)
  then have "madeOf marshal hist chartID bin axis data (cacheID c bin)"
    by (auto simp: madeOf_def cacheOrigin_def)
  then show ?case using run_make.IH by (simp add: cacheOrigin_def)
next
  case (run_store c pend late hist chartID bin axis data i c' pend' late')
  have made: "madeOf marshal hist chartID bin axis data i"
    using run_store.IH run_store.hyps(2) unfolding cacheOrigin_def by fastforce
  show ?case
  proof (rule cacheOrigin_step[OF run_store.IH])
    show "set pend' \<subseteq> set pend" using run_store.hyps(4) by (simp add: set_remove1_subset)
    fix k b a e
    assume e: "chartCache c' (cacheKey k b a) = Some e"
    show "\<exists>j. madeOf marshal hist k b a (ccData e) j \<and> (j = ccCacheID e \<or> cacheKey k b a \<in> late')"
    proof (cases "cacheKey k b a = cacheKey chartID bin axis")
      case True
      then have "k = chartID" "b = bin" "a = axis" using cacheKey_inj by blast+
      then show ?thesis using made e run_store.hyps(3,5)
        by (auto simp: cacheChart_def intro!: exI[of _ i])
    next
      case False
      then have "chartCache c (cacheKey k b a) = Some e" using e run_store.hyps(3) by (simp add: cacheChart_def)
      then obtain j where "madeOf marshal hist k b a (ccData e) j" "j = ccCacheID e \<or> cacheKey k b a \<in> late"
        using run_store.IH unfolding cacheOrigin_def by blast
      then show ?thesis using False run_store.hyps(5) by auto
    qed
  qed
qed

text \<open>\<open>Chart\<close> in one piece is such a run.\<close>

lemma Chart_run:
  assumes "chartRun marshal charts pend late hist" and "Chart marshal chartID binStr axisStr charts = (res, charts')"
  shows "\<exists>late' hist'. chartRun marshal charts' pend late' hist'"
proof (cases "charts' = charts")
  case False
  define b where "b = ParseBin (if isWindowBin chartID then binString WindowBin else binStr)"
  define a where "a = ParseAxis axisStr"
  obtain maker data where m: "map_of chartMakers chartID = Some maker" "maker marshal charts b a = Ret (Inr data)"
    "charts' = cacheChart chartID b a data charts"
    using assms(2) False unfolding Chart_def Let_def getCache_def b_def[symmetric] a_def[symmetric]
    by (auto split: option.splits if_splits go.splits sum.splits) (metis)+
  have "chartRun marshal charts' (remove1 (chartID, b, a, data, cacheID charts b) ((chartID, b, a, data, cacheID charts b) # pend))
      (late - {cacheKey chartID b a}) (charts' # hist)"
    by (rule run_store[OF run_make[OF assms(1) m(1,2)] _ m(3) refl]) simp_all
  then show ?thesis by auto
qed (use assms(1) in blast)

subsection \<open>Properties\<close>

text \<open>C16: what the cache of charts can return. In every state that a run of charts reaches, with updates, reorganizations and calls of
  \<open>Chart\<close> in any order, where a chart is made and stored in two steps: \<open>Chart\<close> returns the error for an unknown chart, or
  what the maker of the chart makes, for the parsed axis and the parsed bin (the window bin for a
  window chart), of the current data or of data that the charts had before. In the second case the identifier of
  the bin was then what it is now, unless the entry had been stored late, after the identifier
  had changed since it was made. So if the data have not changed under the current identifier and the
  entry was not stored late, it is the chart of the current data, whether or not it was cached. \<open>Chart\<close> leaves
  the data as they are.\<close>

theorem Chart_transparent:
  assumes "chartRun marshal charts pend late hist"
    and "Chart marshal chartID binStr axisStr charts = (res, charts')"
    and "bin = (if isWindowBin chartID then WindowBin else ParseBin binStr)" and "axis = ParseAxis axisStr"
  shows "charts' = charts\<lparr>chartCache := chartCache charts'\<rparr> \<and>
    (case map_of chartMakers chartID of
       None \<Rightarrow> res = Ret (Inl UnknownChartErr)
     | Some maker \<Rightarrow>
         (res = maker marshal charts bin axis \<or>
          (\<exists>s\<in>set hist. res = maker marshal s bin axis \<and>
             (cacheID s bin = cacheID charts bin \<or> cacheKey chartID bin axis \<in> late))) \<and>
         (cacheKey chartID bin axis \<notin> late \<and>
          (\<forall>s\<in>set hist. cacheID s bin = cacheID charts bin \<longrightarrow> s\<lparr>chartCache := Map.empty\<rparr> = charts\<lparr>chartCache := Map.empty\<rparr>)
          \<longrightarrow> res = maker marshal charts bin axis))"
proof -
  have pb: "ParseBin (if isWindowBin chartID then binString WindowBin else binStr) = bin"
    using ParseBin_binString[of WindowBin] by (simp add: assms(3))
  have same: "charts = charts\<lparr>chartCache := chartCache charts\<rparr>" by simp
  have eq: "maker marshal s bin axis = maker marshal charts bin axis"
    if "s\<lparr>chartCache := Map.empty\<rparr> = charts\<lparr>chartCache := Map.empty\<rparr>" "map_of chartMakers chartID = Some maker" for s maker
    using maker_ignores_cache[OF that(2), where marshal = marshal and charts = s and c = Map.empty and bin = bin and axis = axis]
      maker_ignores_cache[OF that(2), where marshal = marshal and charts = charts and c = Map.empty and bin = bin and axis = axis] that(1) by simp
  show ?thesis
  proof (cases "\<exists>e. chartCache charts (cacheKey chartID bin axis) = Some e \<and> ccCacheID e = cacheID charts bin")
    case True
    then obtain e where e: "chartCache charts (cacheKey chartID bin axis) = Some e" "ccCacheID e = cacheID charts bin" by blast
    then obtain i where "madeOf marshal hist chartID bin axis (ccData e) i" "i = cacheID charts bin \<or> cacheKey chartID bin axis \<in> late"
      using chartRun_origin[OF assms(1)] unfolding cacheOrigin_def by metis
    then obtain maker s where m: "map_of chartMakers chartID = Some maker" "s \<in> set hist"
      "maker marshal s bin axis = Ret (Inr (ccData e))"
      "cacheID s bin = cacheID charts bin \<or> cacheKey chartID bin axis \<in> late"
      unfolding madeOf_def by blast
    have "(res, charts') = (Ret (Inr (ccData e)), charts)"
      using assms(2) e unfolding Chart_def pb assms(4)[symmetric] Let_def getCache_def by (simp del: binString.simps)
    then have r: "res = maker marshal s bin axis" "charts' = charts" using m(3) by simp_all
    have "res = maker marshal charts bin axis"
      if "cacheKey chartID bin axis \<notin> late"
        "\<forall>s\<in>set hist. cacheID s bin = cacheID charts bin \<longrightarrow> s\<lparr>chartCache := Map.empty\<rparr> = charts\<lparr>chartCache := Map.empty\<rparr>"
      unfolding r(1) by (rule eq[OF _ m(1)]) (use that m(2,4) in blast)
    moreover have "\<exists>s\<in>set hist. res = maker marshal s bin axis \<and>
        (cacheID s bin = cacheID charts bin \<or> cacheKey chartID bin axis \<in> late)"
      using m(2,4) r(1) by blast
    ultimately show ?thesis unfolding m(1) option.case r(2) using same by blast
  next
    case False
    have c: "(res, charts') = (case map_of chartMakers chartID of
        None \<Rightarrow> (Ret (Inl UnknownChartErr), charts)
      | Some maker \<Rightarrow> (case maker marshal charts bin axis of
            Panic \<Rightarrow> (Panic, charts)
          | Ret (Inl e) \<Rightarrow> (Ret (Inl e), charts)
          | Ret (Inr data) \<Rightarrow> (Ret (Inr data), cacheChart chartID bin axis data charts)))"
      using assms(2) False unfolding Chart_def pb assms(4)[symmetric] Let_def getCache_def
      by (cases "chartCache charts (cacheKey chartID bin axis)") (simp_all del: binString.simps)
    then have ch: "charts' = charts\<lparr>chartCache := chartCache charts'\<rparr>"
      using same by (auto simp: cacheChart_def split: option.splits go.splits sum.splits)
    show ?thesis
      using c by (intro conjI ch) (simp split: option.splits go.splits sum.splits)
  qed
qed

text \<open>A reorganization leaves the identifiers: until the next \<open>Lengthen\<close>, \<open>Chart\<close> returns the chart of the blocks that were
  cut off, if it is cached.\<close>

lemma reorganized_chart_stale:
  assumes "chartCache charts (cacheKey chartID BlockBin axis) = Some \<lparr>ccCacheID = cacheID charts BlockBin, ccData = data\<rparr>"
    and "\<not> isWindowBin chartID" and "ParseBin binStr = BlockBin" and "ParseAxis axisStr = axis"
  shows "fst (Chart marshal chartID binStr axisStr (ReorgHandler newHeight chain charts)) = Ret (Inr data)"
  using assms by (simp add: Chart_def getCache_def ReorgHandler_keeps_cache del: cacheID.simps)

text \<open>A marshaller for the witnesses: the number of points of the sizes.\<close>

definition exMarshal :: "int marshaller" where
  "exMarshal response = (case response ''size'' of
     Some (VData d) \<Rightarrow> Inr (replicate (nat (dsLength d)) CHR ''x'') | _ \<Rightarrow> Inl ''no size'')"

theorem Chart_transparent_witness:
  "fst (Chart exMarshal ''block-size'' ''block'' ''height'' (NewChartData 144 4096))
   = blockSizeChart exMarshal (NewChartData 144 4096) BlockBin HeightAxis"
proof -
  obtain res charts' where r: "Chart exMarshal ''block-size'' ''block'' ''height'' (NewChartData 144 4096) = (res, charts')"
    by (cases "Chart exMarshal ''block-size'' ''block'' ''height'' (NewChartData 144 4096)")
  have "\<not> isWindowBin ''block-size''" "ParseBin ''block'' = BlockBin" "ParseAxis ''height'' = HeightAxis"
    by (simp_all add: isWindowBin_def ParseBin_def ParseAxis_def)
  with Chart_transparent[OF run_start[of exMarshal 144 4096] r refl refl] r show ?thesis by (simp add: chartMakers_def)
qed

text \<open>\<open>encode\<close> cuts every data set to the shortest one and never panics: for any data sets, the response is
  the seed updated with each of them, under its key, truncated to the smallest length among them;
  what is returned are its bytes, or the error of the marshaller.\<close>

theorem encode_truncates:
  assumes "sets \<noteq> []" and "m = Min (dsLength ` snd ` set sets)"
  shows "\<exists>cut. list_all2 (\<lambda>(k, d) (k', d'). k' = k \<and> dsTruncate d m = Some d' \<and> dsLength d' = m) sets cut
    \<and> encode marshal sets seed = (case marshal (fold (\<lambda>(k, d) s. s(k \<mapsto> VData d)) cut seed) of
        Inl e \<Rightarrow> Ret (Inl (MarshalError e)) | Inr bytes \<Rightarrow> Ret (Inr bytes))"
  using encode_eq[OF assms] .

theorem encode_truncates_witness:
  "\<exists>cut. list_all2 (\<lambda>(k, d) (k', d'). k' = k \<and> dsTruncate d 1 = Some d' \<and> dsLength d' = 1)
      [(''t'', Uints [7]), (''size'', Uints [1, 2])] cut
    \<and> encode exMarshal [(''t'', Uints [7]), (''size'', Uints [1, 2])] Map.empty =
      (case exMarshal (fold (\<lambda>(k, d) s. s(k \<mapsto> VData d)) cut Map.empty) of
        Inl e \<Rightarrow> Ret (Inl (MarshalError e)) | Inr bytes \<Rightarrow> Ret (Inr bytes))"
  by (rule encode_truncates) (simp_all add: uintsLength_def)

text \<open>block times and accumulation are inverse. \<open>accumulate\<close> maps each point to the sum of the points
  up to it; for stamps that never run backwards, \<open>blockTimes\<close> returns the stamps but the first and
  as many differences, and the first stamp plus the accumulated differences gives the stamps back.\<close>

theorem accumulate_blockTimes:
  assumes "forward t vs" and "vs \<noteq> []"
  shows "accumulate ds = map (\<lambda>i. sum_list (take (i + 1) ds)) [0..<length ds]
    \<and> (case blockTimes (t # vs) of (stamps, difs) \<Rightarrow>
        stamps = vs \<and> length difs = length vs \<and> map ((+) t) (accumulate difs) = vs)"
proof -
  have "blockTimes (t # vs) = (vs, diffs t vs)"
    using assms blockTimesLoop_eq[of t vs "[]"] by (cases vs) (simp_all add: blockTimes_def)
  moreover have "map ((+) t) (accumulate (diffs t vs)) = vs"
    using accumulate_diffs[of t 0 "[]" t vs] by (simp add: accumulate_def)
  ultimately show ?thesis by (simp add: accumulate_eq)
qed

theorem accumulate_blockTimes_witness:
  "blockTimes [100, 130, 190] = ([130, 190], snd (blockTimes [100, 130, 190]))
   \<and> map ((+) 100) (accumulate (snd (blockTimes [100, 130, 190]))) = [130, 190]"
  using accumulate_blockTimes[of 100 "[130, 190]" "[]"] by (auto split: prod.splits)

text \<open>the network hash rate. For more than 120 works with a stamp each, where no stamp equals the one
  120 blocks before, \<open>hashrate\<close> returns without panicking one rate for each block after the first
  120, with its stamp; but the work of a rate is that of the last 119 blocks, while its time is that of the
  last 120.\<close>

theorem hashrate_spec:
  assumes "120 < length works" and "length works \<le> length time"
    and "\<forall>j. 120 \<le> j \<longrightarrow> j < length works \<longrightarrow> time ! j \<noteq> time ! (j - 120)"
  shows "hashrate time works = Some (map (\<lambda>i. time ! i) [120..<length works],
    map (\<lambda>i. (works ! i - works ! (i - 119)) * 1000000 div (time ! i - time ! (i - 120))) [120..<length works])"
proof -
  have "rotatorHolds works 0 (replicate 120 0)" by (simp add: rotatorHolds_def)
  from hashrateLoop_eq[OF this assms(2,3), of "[]" "[]"] assms(1) show ?thesis
    by (simp add: hashrate_def HashrateAvgLength_def hashRateAt_def[abs_def])
qed

theorem hashrate_spec_witness:
  "hashrate (map of_nat [0..<121]) (replicate 121 5) = Some ([120], [0])"
proof -
  have b: "time ! j \<noteq> time ! (j - 120)" if "120 \<le> j" "j < 121" "time = map (of_nat :: nat \<Rightarrow> uint64) [0..<121]" for j time
  proof -
    have "j = 120" using that by simp
    then show ?thesis using that(3) by simp
  qed
  have u: "[120..<121] = [120::nat]" by (simp add: upt_rec)
  show ?thesis
    using hashrate_spec[of "replicate 121 (5::uint64)" "map of_nat [0..<121]"] b by (simp add: u)
qed

text \<open>the labels of the average block times leave out the second tick. Whatever the blocks, the labels
  that \<open>avgBlockTimes\<close> returns are a prefix of the ticks without the second one, so from the second
  average on they do not name the tick at which the averaged interval starts.\<close>

theorem avgBlockTimes_labels:
  assumes "avgBlockTimes ticks blocks = Some (labels, avgs)"
  shows "\<exists>n. labels = take n (hd ticks # drop 2 ticks)"
proof (cases "length ticks < 2")
  case True
  then show ?thesis using assms by (intro exI[of _ 0]) (simp add: avgBlockTimes_def)
next
  case False
  then have l: "avgLoop ticks blocks blocks 0 1 (ticks ! 0) (ticks ! 1) 0 [] [] = Some (labels, avgs)"
    using assms by (simp add: avgBlockTimes_def)
  show ?thesis using False by (intro avgLoop_labels[OF l]) (cases ticks; simp)+
qed

theorem avgBlockTimes_labels_witness:
  "avgBlockTimes [0, 10, 20] [1, 5, 11, 15, 21] = Some ([0, 20], [4, 4])
   \<and> (\<exists>n. [0, 20] = take n [0, 20::uint64])"
proof -
  have e: "avgBlockTimes [0, 10, 20] [1, 5, 11, 15, 21] = Some ([0, 20], [4, 4])"
    by (simp add: avgBlockTimes_def blockTimes_def uintsAvg_def go_slice_def Let_def)
  from avgBlockTimes_labels[OF e] e show ?thesis by simp
qed

end
