(* ===== verification/BlockQueue.thy ===== *)
theory BlockQueue
  imports Prelude "HOL-Library.Signed_Division" "HOL-Library.Multiset"
begin

text \<open>
  The priority queue of the API block cache (\<open>api/types/apicache.go\<close>): the cached block, the
  comparators, and \<open>BlockPriorityQueue\<close>, a heap of blocks in a slice that \<open>container/heap\<close> of the
  standard library keeps in order through the methods \<open>Len\<close>, \<open>Less\<close>, \<open>Swap\<close>, \<open>Push\<close> and \<open>Pop\<close>.

  The blocks of a queue are created by the queue and never leave it, so a slice of pointers to them is
  a list of blocks, and a pointer into the queue is a position. Each reading of the clock
  (\<open>time.Now()\<close>, in nanoseconds) that an operation makes is an element of the parameter \<open>clk\<close>. Block
  and stake data are not changed once they are passed to the cache; \<open>'f\<close> is \<open>float64\<close>, and \<open>'x\<close> the
  part of \<open>chainjson.FeeInfoBlock\<close> that the cache does not look at.
\<close>

subsection \<open>Block data\<close>

record 'f TicketPoolInfo =
  tpiHeight :: "32 word"
  tpiSize :: "32 word"
  tpiValue :: 'f
  tpiValAvg :: 'f
  tpiWinners :: "string list"

record 'f BlockDataBasic =
  bdHeight :: "32 word"
  bdSize :: "32 word"
  bdHash :: string
  bdDifficulty :: 'f
  bdStakeDiff :: 'f
  bdTime :: int
  bdNumTx :: "32 word"
  bdMiningFee :: "int option"
  bdTotalSent :: "int option"
  bdPoolInfo :: "'f TicketPoolInfo option"

record 'x FeeInfoBlock =
  fiHeight :: "32 word"
  fiRest :: 'x

record ('f, 'x) StakeInfoExtended =
  siHash :: string
  siFeeinfo :: "'x FeeInfoBlock"
  siStakeDiff :: 'f
  siPriceWindowNum :: int
  siIdxBlockInWindow :: int
  siPoolInfo :: "'f TicketPoolInfo option"

record ('f, 'x) CachedBlock =
  cbHeight :: "32 word"
  cbHash :: string
  cbSummary :: "'f BlockDataBasic option"
  cbStakeInfo :: "('f, 'x) StakeInfoExtended option"
  cbAccesses :: int
  cbAccessTime :: int
  cbHeapIdx :: int

text \<open>The height and the hash of block data, and whether its parts disagree; \<open>None\<close> is a nil dereference.\<close>

definition checkBlockHeightHash ::
    "'f BlockDataBasic option \<Rightarrow> ('f, 'x) StakeInfoExtended option \<Rightarrow> (32 word \<times> string \<times> bool) option" where
  "checkBlockHeightHash summary stakeInfo =
     (case summary of
        None \<Rightarrow> (case stakeInfo of
            None \<Rightarrow> None
          | Some si \<Rightarrow> Some (fiHeight (siFeeinfo si), siHash si, False))
      | Some s \<Rightarrow> (case stakeInfo of
            None \<Rightarrow> Some (bdHeight s, bdHash s, False)
          | Some si \<Rightarrow>
              if bdHeight s \<noteq> fiHeight (siFeeinfo si) then Some (bdHeight s, bdHash s, True)
              else if bdHash s \<noteq> siHash si then Some (bdHeight s, bdHash s, True)
              else Some (bdHeight s, bdHash s, False)))"

definition newCachedBlock ::
    "'f BlockDataBasic option \<Rightarrow> ('f, 'x) StakeInfoExtended option \<Rightarrow> ('f, 'x) CachedBlock option" where
  "newCachedBlock summary stakeInfo =
     (if summary = None \<and> stakeInfo = None then None
      else case checkBlockHeightHash summary stakeInfo of
        None \<Rightarrow> None
      | Some (height, hash, mismatch) \<Rightarrow>
          if mismatch then None
          else Some \<lparr>cbHeight = height, cbHash = hash, cbSummary = summary, cbStakeInfo = stakeInfo,
            cbAccesses = 0, cbAccessTime = 0, cbHeapIdx = -1\<rparr>)"

definition Access :: "int \<Rightarrow> ('f, 'x) CachedBlock \<Rightarrow> ('f, 'x) CachedBlock" where
  "Access now b = b\<lparr>cbAccesses := cbAccesses b + 1, cbAccessTime := now\<rparr>"

subsection \<open>Comparators\<close>

type_synonym ('f, 'x) lessFn = "('f, 'x) CachedBlock \<Rightarrow> ('f, 'x) CachedBlock \<Rightarrow> bool"

definition LessByHeight :: "('f, 'x) lessFn" where
  "LessByHeight bi bj = (cbHeight bi < cbHeight bj)"

definition LessByAccessCount :: "('f, 'x) lessFn" where
  "LessByAccessCount bi bj = (cbAccesses bi < cbAccesses bj)"

definition LessByAccessTime :: "('f, 'x) lessFn" where
  "LessByAccessTime bi bj = (cbAccessTime bi < cbAccessTime bj)"

definition LessByAccessCountThenHeight :: "('f, 'x) lessFn" where
  "LessByAccessCountThenHeight bi bj =
     (if cbAccesses bi = cbAccesses bj then LessByHeight bi bj else LessByAccessCount bi bj)"

text \<open>The threshold is in nanoseconds; the division truncates, and panics for a zero threshold.\<close>

definition MakeLessByAccessTimeThenCount :: "int \<Rightarrow> ('f, 'x) lessFn" where
  "MakeLessByAccessTimeThenCount millisecondsBinned bi bj =
     (let millisecondThreshold = millisecondsBinned * 1000000;
          epochDiff = (cbAccessTime bi - cbAccessTime bj) sdiv millisecondThreshold
      in if epochDiff = 0 then LessByAccessCount bi bj else LessByAccessTime bi bj)"

subsection \<open>The heap\<close>

definition pqSwap :: "nat \<Rightarrow> nat \<Rightarrow> ('f, 'x) CachedBlock list \<Rightarrow> ('f, 'x) CachedBlock list" where
  "pqSwap i j bh =
     (let bh1 = bh[i := bh ! j, j := bh ! i];
          bh2 = bh1[i := (bh1 ! i)\<lparr>cbHeapIdx := int i\<rparr>]
      in bh2[j := (bh2 ! j)\<lparr>cbHeapIdx := int j\<rparr>])"

text \<open>The functions of \<open>container/heap\<close>; \<open>heapDown\<close> also returns where the block came to rest.\<close>

function heapUp :: "('f, 'x) lessFn \<Rightarrow> ('f, 'x) CachedBlock list \<Rightarrow> nat \<Rightarrow> ('f, 'x) CachedBlock list" where
  "heapUp lt bh j =
     (let i = (j - 1) div 2 in
      if i = j \<or> \<not> lt (bh ! j) (bh ! i) then bh else heapUp lt (pqSwap i j bh) i)"
  by pat_completeness auto
termination by (relation "measure (\<lambda>(_, _, j). j)") auto

definition lesserChild :: "('f, 'x) lessFn \<Rightarrow> nat \<Rightarrow> ('f, 'x) CachedBlock list \<Rightarrow> nat \<Rightarrow> nat" where
  "lesserChild lt n bh i =
     (let j1 = 2 * i + 1; j2 = j1 + 1 in if j2 < n \<and> lt (bh ! j2) (bh ! j1) then j2 else j1)"

function heapDown ::
    "('f, 'x) lessFn \<Rightarrow> nat \<Rightarrow> ('f, 'x) CachedBlock list \<Rightarrow> nat \<Rightarrow> ('f, 'x) CachedBlock list \<times> nat" where
  "heapDown lt n bh i =
     (if 2 * i + 1 \<ge> n \<or> \<not> lt (bh ! lesserChild lt n bh i) (bh ! i) then (bh, i)
      else heapDown lt n (pqSwap i (lesserChild lt n bh i) bh) (lesserChild lt n bh i))"
  by pat_completeness auto
termination
  by (relation "measure (\<lambda>(_, n, _, i). n - i)") (auto simp: lesserChild_def Let_def)

declare heapUp.simps [simp del] heapDown.simps [simp del]

definition heapInit :: "('f, 'x) lessFn \<Rightarrow> ('f, 'x) CachedBlock list \<Rightarrow> ('f, 'x) CachedBlock list" where
  "heapInit lt bh =
     fold (\<lambda>i h. fst (heapDown lt (length bh) h i)) (rev [0..<length bh div 2]) bh"

definition heapSettle ::
    "('f, 'x) lessFn \<Rightarrow> nat \<Rightarrow> ('f, 'x) CachedBlock list \<Rightarrow> nat \<Rightarrow> ('f, 'x) CachedBlock list" where
  "heapSettle lt n bh i = (let (bh', k) = heapDown lt n bh i in if k > i then bh' else heapUp lt bh' i)"

definition heapFix :: "('f, 'x) lessFn \<Rightarrow> ('f, 'x) CachedBlock list \<Rightarrow> nat \<Rightarrow> ('f, 'x) CachedBlock list" where
  "heapFix lt bh i = heapSettle lt (length bh) bh i"

definition pqPop :: "('f, 'x) CachedBlock list \<Rightarrow> ('f, 'x) CachedBlock \<times> ('f, 'x) CachedBlock list" where
  "pqPop bh = ((last bh)\<lparr>cbHeapIdx := -1\<rparr>, butlast bh)"

definition heapRemove ::
    "('f, 'x) lessFn \<Rightarrow> ('f, 'x) CachedBlock list \<Rightarrow> nat \<Rightarrow> ('f, 'x) CachedBlock \<times> ('f, 'x) CachedBlock list" where
  "heapRemove lt bh i =
     (let n = length bh - 1 in
      pqPop (if n \<noteq> i then heapSettle lt n (pqSwap i n bh) i else bh))"

subsection \<open>The queue\<close>

record ('f, 'x) BlockPriorityQueue =
  pqBh :: "('f, 'x) CachedBlock list"
  pqCapacity :: "32 word"
  pqNeedsReheap :: bool
  pqMinHeight :: int
  pqMaxHeight :: int
  pqLessFn :: "('f, 'x) lessFn"
  pqLastAccess :: int

definition NewBlockPriorityQueue :: "32 word \<Rightarrow> ('f, 'x) BlockPriorityQueue" where
  "NewBlockPriorityQueue capacity =
     \<lparr>pqBh = [], pqCapacity = capacity, pqNeedsReheap = False, pqMinHeight = 2 ^ 32 - 1,
      pqMaxHeight = -1, pqLessFn = MakeLessByAccessTimeThenCount 1, pqLastAccess = 0\<rparr>"

definition SetLessFn :: "('f, 'x) lessFn \<Rightarrow> ('f, 'x) BlockPriorityQueue \<Rightarrow> ('f, 'x) BlockPriorityQueue" where
  "SetLessFn lessFn pq = pq\<lparr>pqLessFn := lessFn\<rparr>"

definition updateMinMax :: "32 word \<Rightarrow> ('f, 'x) BlockPriorityQueue \<Rightarrow> ('f, 'x) BlockPriorityQueue" where
  "updateMinMax h pq =
     (let pq1 = (if uint h > pqMaxHeight pq then pq\<lparr>pqMaxHeight := uint h\<rparr> else pq)
      in if uint h < pqMinHeight pq1 then pq1\<lparr>pqMinHeight := uint h\<rparr> else pq1)"

definition RescanMinMax :: "('f, 'x) BlockPriorityQueue \<Rightarrow> ('f, 'x) BlockPriorityQueue" where
  "RescanMinMax pq = fold (\<lambda>b. updateMinMax (cbHeight b)) (pqBh pq) pq"

definition RescanMinMaxForRemove :: "32 word \<Rightarrow> ('f, 'x) BlockPriorityQueue \<Rightarrow> ('f, 'x) BlockPriorityQueue" where
  "RescanMinMaxForRemove height pq =
     (if uint height = pqMinHeight pq \<or> uint height = pqMaxHeight pq then RescanMinMax pq else pq)"

definition RescanMinMaxForUpdate ::
    "32 word \<Rightarrow> 32 word \<Rightarrow> ('f, 'x) BlockPriorityQueue \<Rightarrow> ('f, 'x) BlockPriorityQueue" where
  "RescanMinMaxForUpdate heightAdd heightRemove pq =
     (let pq1 = (if (uint heightRemove = pqMinHeight pq \<and> heightAdd \<ge> heightRemove) \<or>
                    (uint heightRemove = pqMaxHeight pq \<and> heightAdd \<le> heightRemove)
                 then RescanMinMax pq else pq)
      in updateMinMax heightAdd pq1)"

definition setAccessTime :: "int \<Rightarrow> ('f, 'x) BlockPriorityQueue \<Rightarrow> ('f, 'x) BlockPriorityQueue" where
  "setAccessTime t pq = pq\<lparr>pqLastAccess := t\<rparr>"

definition setNeedsReheap :: "bool \<Rightarrow> ('f, 'x) BlockPriorityQueue \<Rightarrow> ('f, 'x) BlockPriorityQueue" where
  "setNeedsReheap needReheap pq = pq\<lparr>pqNeedsReheap := needReheap\<rparr>"

definition doesNeedReheap :: "int \<Rightarrow> ('f, 'x) BlockPriorityQueue \<Rightarrow> bool" where
  "doesNeedReheap now pq \<longleftrightarrow> pqNeedsReheap pq \<and> now - pqLastAccess pq > 7 * 1000000000"

definition Reheap :: "('f, 'x) BlockPriorityQueue \<Rightarrow> ('f, 'x) BlockPriorityQueue" where
  "Reheap pq = pq\<lparr>pqNeedsReheap := False, pqBh := heapInit (pqLessFn pq) (pqBh pq)\<rparr>"

text \<open>One tick of \<open>WatchPriorityQueue\<close>.\<close>

definition WatchPriorityQueue :: "int \<Rightarrow> ('f, 'x) BlockPriorityQueue \<Rightarrow> ('f, 'x) BlockPriorityQueue" where
  "WatchPriorityQueue now bpq = (if doesNeedReheap now bpq then Reheap bpq else bpq)"

text \<open>\<open>Push\<close>, which panics for data that make no block, and \<open>heap.Push\<close>.\<close>

definition pqPush ::
    "int \<Rightarrow> 'f BlockDataBasic option \<Rightarrow> ('f, 'x) StakeInfoExtended option \<Rightarrow> ('f, 'x) BlockPriorityQueue
     \<Rightarrow> ('f, 'x) BlockPriorityQueue go" where
  "pqPush now summary stakeInfo pq =
     (case newCachedBlock summary stakeInfo of
        None \<Rightarrow> Panic
      | Some b0 \<Rightarrow>
          let b = (Access now b0)\<lparr>cbHeapIdx := int (length (pqBh pq))\<rparr>;
              pq1 = updateMinMax (cbHeight b) pq
          in Ret (pq1\<lparr>pqBh := pqBh pq1 @ [b], pqLastAccess := cbAccessTime b\<rparr>))"

definition heapPush ::
    "int \<Rightarrow> 'f BlockDataBasic option \<Rightarrow> ('f, 'x) StakeInfoExtended option \<Rightarrow> ('f, 'x) BlockPriorityQueue
     \<Rightarrow> ('f, 'x) BlockPriorityQueue go" where
  "heapPush now summary stakeInfo pq =
     (case pqPush now summary stakeInfo pq of
        Panic \<Rightarrow> Panic
      | Ret pq1 \<Rightarrow> Ret (pq1\<lparr>pqBh := heapUp (pqLessFn pq1) (pqBh pq1) (length (pqBh pq1) - 1)\<rparr>))"

text \<open>\<open>resetBlocks\<close> is the loop of \<open>ResetHeap\<close> over the given slice.\<close>

definition resetBlocks :: "int \<Rightarrow> ('f, 'x) CachedBlock list \<Rightarrow> ('f, 'x) CachedBlock list" where
  "resetBlocks now bh =
     map (\<lambda>(i, b). b\<lparr>cbHeapIdx := int i, cbAccesses := 1, cbAccessTime := now\<rparr>) (enumerate 0 bh)"

definition ResetHeap ::
    "int \<Rightarrow> ('f, 'x) CachedBlock list \<Rightarrow> ('f, 'x) BlockPriorityQueue \<Rightarrow> ('f, 'x) BlockPriorityQueue" where
  "ResetHeap now bh pq =
     (let pq1 = pq\<lparr>pqMaxHeight := -1, pqMinHeight := 2 ^ 32 - 1\<rparr>;
          pq2 = fold (\<lambda>b. updateMinMax (cbHeight b)) bh pq1;
          bh1 = resetBlocks now bh
      in pq2\<lparr>pqBh := heapInit (pqLessFn pq2) bh1, pqNeedsReheap := False\<rparr>)"

text \<open>\<open>UpdateBlock\<close> for the block at a position of the queue.\<close>

definition UpdateBlock ::
    "int \<Rightarrow> nat \<Rightarrow> 'f BlockDataBasic option \<Rightarrow> ('f, 'x) StakeInfoExtended option
     \<Rightarrow> ('f, 'x) BlockPriorityQueue \<Rightarrow> ('f, 'x) BlockPriorityQueue go" where
  "UpdateBlock now pos summary stakeInfo pq =
     (case checkBlockHeightHash summary stakeInfo of
        None \<Rightarrow> Panic
      | Some (heightAdded, hash, mismatch) \<Rightarrow>
          if mismatch then Ret pq
          else let
            b = pqBh pq ! pos;
            heightRemoved = cbHeight b;
            b' = Access now (b\<lparr>cbHeight := heightAdded, cbHash := hash, cbSummary := summary,
                   cbStakeInfo := stakeInfo, cbAccesses := 0\<rparr>);
            pq1 = pq\<lparr>pqBh := heapFix (pqLessFn pq) ((pqBh pq)[pos := b']) (nat (cbHeapIdx b'))\<rparr>;
            pq2 = RescanMinMaxForUpdate heightAdded heightRemoved pq1
          in Ret (pq2\<lparr>pqLastAccess := cbAccessTime b'\<rparr>))"

definition Insert ::
    "(string \<Rightarrow> Hash option) \<Rightarrow> (nat \<Rightarrow> int) \<Rightarrow> 'f BlockDataBasic option \<Rightarrow> ('f, 'x) StakeInfoExtended option
     \<Rightarrow> ('f, 'x) BlockPriorityQueue \<Rightarrow> ((bool \<times> Hash option \<times> int) \<times> ('f, 'x) BlockPriorityQueue) go" where
  "Insert nh clk summary stakeInfo pq =
     (if pqCapacity pq = 0 then Ret ((False, None, -1), pq)
      else if summary = None \<and> stakeInfo = None then Ret ((False, None, -1), pq)
      else if uint (pqCapacity pq) \<le> int (length (pqBh pq)) then
        (case newCachedBlock summary stakeInfo of
           None \<Rightarrow> Panic
         | Some b0 \<Rightarrow>
             let cachedBlock = (Access (clk 0) b0)\<lparr>cbHeapIdx := 0\<rparr>; front = pqBh pq ! 0 in
             if pqLessFn pq front cachedBlock then
               let removedBlockHash = nh (cbHash front); removedBlockHeight = cbHeight front in
               (case UpdateBlock (clk 1) 0 summary stakeInfo pq of
                  Panic \<Rightarrow> Panic
                | Ret pq1 \<Rightarrow>
                    Ret ((True, removedBlockHash, uint removedBlockHeight),
                         if removedBlockHash \<noteq> None then pq1\<lparr>pqLastAccess := clk 2\<rparr> else pq1))
             else Ret ((False, None, -1), pq))
      else case checkBlockHeightHash summary stakeInfo of
        None \<Rightarrow> Panic
      | Some (height, hash, mismatch) \<Rightarrow>
          if mismatch then Ret ((False, None, -1), pq)
          else case heapPush (clk 0) summary stakeInfo pq of
            Panic \<Rightarrow> Panic
          | Ret pq1 \<Rightarrow> Ret ((True, None, -1), (updateMinMax height pq1)\<lparr>pqLastAccess := clk 1\<rparr>))"

definition RemoveIndex :: "nat \<Rightarrow> ('f, 'x) BlockPriorityQueue \<Rightarrow> ('f, 'x) BlockPriorityQueue" where
  "RemoveIndex idx pq =
     (let removedHeight = cbHeight (pqBh pq ! idx);
          pq1 = pq\<lparr>pqBh := snd (heapRemove (pqLessFn pq) (pqBh pq) idx)\<rparr>
      in RescanMinMaxForRemove removedHeight pq1)"

definition RemoveBlock ::
    "('f, 'x) CachedBlock option \<Rightarrow> ('f, 'x) BlockPriorityQueue \<Rightarrow> ('f, 'x) BlockPriorityQueue" where
  "RemoveBlock b pq =
     (case b of None \<Rightarrow> pq
      | Some b \<Rightarrow>
          if cbHeapIdx b > 0 \<and> cbHeapIdx b < int (length (pqBh pq)) then
            if cbHash (pqBh pq ! nat (cbHeapIdx b)) = cbHash b then RemoveIndex (nat (cbHeapIdx b)) pq
            else pq
          else pq)"

subsection \<open>Swapping\<close>

text \<open>A block without its position, which is what the queue keeps when it reorders its blocks.\<close>

definition unplaced :: "('f, 'x) CachedBlock \<Rightarrow> ('f, 'x) CachedBlock" where
  "unplaced b = b\<lparr>cbHeapIdx := 0\<rparr>"

definition placed :: "('f, 'x) CachedBlock list \<Rightarrow> bool" where
  "placed bh \<longleftrightarrow> (\<forall>i < length bh. cbHeapIdx (bh ! i) = int i)"

text \<open>The blocks of a queue in any order.\<close>

definition contents :: "('f, 'x) CachedBlock list \<Rightarrow> ('f, 'x) CachedBlock multiset" where
  "contents bh = mset (map unplaced bh)"

lemma unplaced_idx [simp]: "unplaced (b\<lparr>cbHeapIdx := i\<rparr>) = unplaced b"
  by (simp add: unplaced_def)

lemma unplaced_sel [simp]:
  "cbHeight (unplaced b) = cbHeight b" "cbHash (unplaced b) = cbHash b"
  "cbAccesses (unplaced b) = cbAccesses b" "cbAccessTime (unplaced b) = cbAccessTime b"
  by (simp_all add: unplaced_def)

lemma length_pqSwap [simp]: "length (pqSwap i j bh) = length bh"
  by (simp add: pqSwap_def Let_def)

lemma nth_pqSwap:
  "i < length bh \<Longrightarrow> j < length bh \<Longrightarrow> k < length bh \<Longrightarrow> unplaced (pqSwap i j bh ! k) =
     unplaced (bh ! (if k = i then j else if k = j then i else k))"
  by (simp add: pqSwap_def Let_def nth_list_update)

lemma pqSwap_placed [simp]:
  "i < length bh \<Longrightarrow> j < length bh \<Longrightarrow> placed bh \<Longrightarrow> placed (pqSwap i j bh)"
  by (simp add: placed_def pqSwap_def Let_def nth_list_update)

lemma map_pqSwap:
  "i < length bh \<Longrightarrow> j < length bh \<Longrightarrow> map unplaced (pqSwap i j bh) =
     (map unplaced bh)[i := map unplaced bh ! j, j := map unplaced bh ! i]"
  by (simp add: pqSwap_def Let_def map_update nth_list_update list_update_swap)

lemma contents_pqSwap [simp]:
  "i < length bh \<Longrightarrow> j < length bh \<Longrightarrow> contents (pqSwap i j bh) = contents bh"
  unfolding contents_def by (subst map_pqSwap) (simp_all only: length_map mset_swap)

lemma heapUp_facts:
  assumes "j < length bh"
  shows "length (heapUp lt bh j) = length bh"
    and "contents (heapUp lt bh j) = contents bh"
    and "placed bh \<Longrightarrow> placed (heapUp lt bh j)"
  using assms
proof (induction lt bh j rule: heapUp.induct)
  case (1 lt bh j)
  {
    case 1
    then show ?case using "1.IH"(1) by (subst heapUp.simps) (auto simp: Let_def)
  next
    case 2
    then show ?case using "1.IH"(2) by (subst heapUp.simps) (auto simp: Let_def)
  next
    case 3
    then show ?case using "1.IH"(3) by (subst heapUp.simps) (auto simp: Let_def)
  }
qed

lemma pqSwap_drop: "i < n \<Longrightarrow> j < n \<Longrightarrow> drop n (pqSwap i j bh) = drop n bh"
  by (simp add: pqSwap_def Let_def)

lemma heapUp_drop: "j < n \<Longrightarrow> n \<le> length bh \<Longrightarrow> drop n (heapUp lt bh j) = drop n bh"
proof (induction lt bh j rule: heapUp.induct)
  case (1 lt bh j)
  then show ?case by (subst heapUp.simps) (auto simp: Let_def pqSwap_drop)
qed

lemma lesserChild_bounds:
  "2 * i + 1 < n \<Longrightarrow> i < lesserChild lt n bh i \<and> lesserChild lt n bh i < n"
  by (simp add: lesserChild_def Let_def)

lemma heapDown_facts:
  assumes "heapDown lt n bh i = (bh', k)" and "n \<le> length bh"
  shows "length bh' = length bh" and "contents bh' = contents bh" and "placed bh \<Longrightarrow> placed bh'"
    and "i \<le> k" and "k = i \<Longrightarrow> bh' = bh" and "drop n bh' = drop n bh"
proof -
  have "length bh' = length bh \<and> contents bh' = contents bh \<and> (placed bh \<longrightarrow> placed bh') \<and> i \<le> k \<and>
     (k = i \<longrightarrow> bh' = bh) \<and> drop n bh' = drop n bh"
    using assms
  proof (induction lt n bh i arbitrary: bh' k rule: heapDown.induct)
    case (1 lt n bh i)
    let ?j = "lesserChild lt n bh i"
    show ?case
    proof (cases "2 * i + 1 \<ge> n \<or> \<not> lt (bh ! ?j) (bh ! i)")
      case True
      then show ?thesis using "1.prems"(1) by (subst (asm) heapDown.simps) auto
    next
      case False
      then have step: "heapDown lt n (pqSwap i ?j bh) ?j = (bh', k)"
        using "1.prems"(1) by (subst (asm) heapDown.simps) simp
      have j: "i < ?j" "?j < n" using False lesserChild_bounds[of i n lt bh] by simp_all
      then show ?thesis
        using "1.IH"[OF False step] "1.prems"(2) pqSwap_drop[of i n ?j bh] by auto
    qed
  qed
  then show "length bh' = length bh" "contents bh' = contents bh" "placed bh \<Longrightarrow> placed bh'"
    "i \<le> k" "k = i \<Longrightarrow> bh' = bh" "drop n bh' = drop n bh"
    by auto
qed

lemma heapDown_length: "n \<le> length bh \<Longrightarrow> length (fst (heapDown lt n bh i)) = length bh"
  using heapDown_facts(1)[of lt n bh i "fst (heapDown lt n bh i)" "snd (heapDown lt n bh i)"] by simp

lemma heapSettle_facts:
  assumes "i < n" and "n \<le> length bh"
  shows "length (heapSettle lt n bh i) = length bh" and "contents (heapSettle lt n bh i) = contents bh"
    and "placed bh \<Longrightarrow> placed (heapSettle lt n bh i)" and "drop n (heapSettle lt n bh i) = drop n bh"
proof -
  obtain bh' k where d: "heapDown lt n bh i = (bh', k)" by fastforce
  note D = heapDown_facts[OF d assms(2)]
  have i: "i < length bh'" using D(1) assms by simp
  note U = heapUp_facts[OF i, of lt]
  have "drop n (heapUp lt bh' i) = drop n bh'"
    using assms D(1) by (intro heapUp_drop) auto
  then show "length (heapSettle lt n bh i) = length bh" "contents (heapSettle lt n bh i) = contents bh"
    "placed bh \<Longrightarrow> placed (heapSettle lt n bh i)" "drop n (heapSettle lt n bh i) = drop n bh"
    using D U d by (auto simp: heapSettle_def)
qed

lemma heapInit_facts:
  shows "length (heapInit lt bh) = length bh" and "contents (heapInit lt bh) = contents bh"
    and "placed bh \<Longrightarrow> placed (heapInit lt bh)"
proof -
  let ?I = "\<lambda>h. length h = length bh \<and> contents h = contents bh \<and> (placed bh \<longrightarrow> placed h)"
  have "?I (heapInit lt bh)"
    unfolding heapInit_def
  proof (rule fold_invariant[where P = ?I and Q = "\<lambda>_. True"])
    fix i h assume h: "?I h"
    obtain bh' k where d: "heapDown lt (length bh) h i = (bh', k)" by fastforce
    show "?I (fst (heapDown lt (length bh) h i))"
      using heapDown_facts(1-3)[OF d] h d by auto
  qed simp_all
  then show "length (heapInit lt bh) = length bh" "contents (heapInit lt bh) = contents bh"
    "placed bh \<Longrightarrow> placed (heapInit lt bh)"
    by auto
qed

lemma contents_snoc [simp]: "contents (bh @ [b]) = add_mset (unplaced b) (contents bh)"
  by (simp add: contents_def)

lemma set_contents: "set_mset (contents bh) = unplaced ` set bh"
  by (simp add: contents_def)

lemma placed_butlast: "placed bh \<Longrightarrow> placed (butlast bh)"
  by (simp add: placed_def nth_butlast)

lemma placed_snoc [simp]: "placed (bh @ [b]) \<longleftrightarrow> placed bh \<and> cbHeapIdx b = int (length bh)"
  by (auto simp: placed_def nth_append less_Suc_eq)

lemma contents_butlast:
  assumes "n < length bh" "length bh = Suc n"
  shows "contents (butlast bh) = contents bh - {#unplaced (bh ! n)#}"
proof -
  have "bh = butlast bh @ [bh ! n]"
    using assms by (metis append_butlast_last_id diff_Suc_1 last_conv_nth length_0_conv nat.simps(3))
  then have "contents bh = add_mset (unplaced (bh ! n)) (contents (butlast bh))"
    by (metis contents_snoc)
  then show ?thesis by simp
qed

lemma heapRemove_facts:
  assumes "i < length bh"
  shows "length (snd (heapRemove lt bh i)) = length bh - 1"
    and "contents (snd (heapRemove lt bh i)) = contents bh - {#unplaced (bh ! i)#}"
    and "placed bh \<Longrightarrow> placed (snd (heapRemove lt bh i))"
proof -
  define n where "n = length bh - 1"
  have n: "length bh = Suc n" "n < length bh" using assms by (simp_all add: n_def)
  define X where "X = (if n \<noteq> i then heapSettle lt n (pqSwap i n bh) i else bh)"
  have r: "snd (heapRemove lt bh i) = butlast X"
    by (simp add: heapRemove_def pqPop_def n_def X_def Let_def)
  have X: "length X = length bh" "contents X = contents bh" "placed bh \<Longrightarrow> placed X"
    "unplaced (X ! n) = unplaced (bh ! i)"
  proof -
    have "unplaced (X ! n) = unplaced (bh ! i) \<and> length X = length bh \<and> contents X = contents bh \<and>
        (placed bh \<longrightarrow> placed X)"
    proof (cases "n = i")
      case False
      then have i: "i < n" using assms n by simp
      have "n \<le> length (pqSwap i n bh)" using n by simp
      note S = heapSettle_facts[OF i this, of lt]
      have "heapSettle lt n (pqSwap i n bh) i ! n = pqSwap i n bh ! n"
        using S(1,4) n by (metis Cons_nth_drop_Suc length_pqSwap list.inject)
      then show ?thesis using S n assms False by (simp add: X_def nth_pqSwap)
    qed (simp add: X_def)
    then show "length X = length bh" "contents X = contents bh" "placed bh \<Longrightarrow> placed X"
      "unplaced (X ! n) = unplaced (bh ! i)" by auto
  qed
  show "length (snd (heapRemove lt bh i)) = length bh - 1" using X(1) by (simp add: r)
  show "contents (snd (heapRemove lt bh i)) = contents bh - {#unplaced (bh ! i)#}"
    using contents_butlast[of n X] X n by (simp add: r)
  show "placed bh \<Longrightarrow> placed (snd (heapRemove lt bh i))" using X(3) by (simp add: r placed_butlast)
qed

subsection \<open>The order of the heap\<close>

text \<open>Each block from position 1 on is not below its parent, as far as the parent is at \<open>lo\<close> or later.\<close>

definition inOrder :: "('f, 'x) lessFn \<Rightarrow> ('f, 'x) CachedBlock list \<Rightarrow> nat \<Rightarrow> bool" where
  "inOrder lt bh j \<longleftrightarrow> \<not> lt (bh ! j) (bh ! ((j - 1) div 2))"

definition heapFrom :: "('f, 'x) lessFn \<Rightarrow> nat \<Rightarrow> nat \<Rightarrow> ('f, 'x) CachedBlock list \<Rightarrow> bool" where
  "heapFrom lt lo n bh \<longleftrightarrow> (\<forall>j. 0 < j \<and> j < n \<and> lo \<le> (j - 1) div 2 \<longrightarrow> inOrder lt bh j)"

definition heapOrdered :: "('f, 'x) lessFn \<Rightarrow> ('f, 'x) CachedBlock list \<Rightarrow> bool" where
  "heapOrdered lt bh \<longleftrightarrow> (\<forall>j. 0 < j \<and> j < length bh \<longrightarrow> \<not> lt (bh ! j) (bh ! ((j - 1) div 2)))"

lemma heapOrdered_from: "heapOrdered lt bh \<longleftrightarrow> heapFrom lt 0 (length bh) bh"
  by (simp add: heapOrdered_def heapFrom_def inOrder_def)

definition swapped :: "nat \<Rightarrow> nat \<Rightarrow> nat \<Rightarrow> nat" where
  "swapped i j k = (if k = i then j else if k = j then i else k)"

text \<open>
  The contract of a comparator: a strict weak order that does not look at positions. Its providers
  are the comparators of the source.
\<close>

locale block_order =
  fixes lt :: "('f, 'x) lessFn"
  assumes asym: "lt a b \<Longrightarrow> \<not> lt b a"
    and not_trans: "\<not> lt b a \<Longrightarrow> \<not> lt c b \<Longrightarrow> \<not> lt c a"
    and unplaced_lt: "lt (unplaced a) (unplaced b) \<longleftrightarrow> lt a b"
begin

lemma lt_pqSwap:
  assumes "i < length bh" "j < length bh" "k < length bh" "l < length bh"
  shows "lt (pqSwap i j bh ! k) (pqSwap i j bh ! l) \<longleftrightarrow> lt (bh ! swapped i j k) (bh ! swapped i j l)"
proof -
  have "lt (pqSwap i j bh ! k) (pqSwap i j bh ! l) \<longleftrightarrow>
      lt (unplaced (pqSwap i j bh ! k)) (unplaced (pqSwap i j bh ! l))"
    by (simp add: unplaced_lt)
  also have "\<dots> \<longleftrightarrow> lt (unplaced (bh ! swapped i j k)) (unplaced (bh ! swapped i j l))"
    using assms by (simp add: nth_pqSwap swapped_def)
  finally show ?thesis by (simp add: unplaced_lt)
qed

lemma heapUp_order:
  assumes "j < n" and "n \<le> length bh"
    and "\<And>c. 0 < c \<Longrightarrow> c < n \<Longrightarrow> c \<noteq> j \<Longrightarrow> inOrder lt bh c"
    and "\<And>c. 0 < c \<Longrightarrow> c < n \<Longrightarrow> (c - 1) div 2 = j \<Longrightarrow> 0 < j \<Longrightarrow> \<not> lt (bh ! c) (bh ! ((j - 1) div 2))"
  shows "heapFrom lt 0 n (heapUp lt bh j)"
  using assms
proof (induction j arbitrary: bh rule: less_induct)
  case (less j)
  let ?i = "(j - 1) div 2"
  have JL: "j < length bh" using less.prems(1,2) by simp
  have up: "heapUp lt bh j = (if ?i = j \<or> \<not> lt (bh ! j) (bh ! ?i) then bh else heapUp lt (pqSwap ?i j bh) ?i)"
    by (subst heapUp.simps) (simp add: Let_def)
  show ?case
  proof (cases "?i = j \<or> \<not> lt (bh ! j) (bh ! ?i)")
    case True
    then have "inOrder lt bh c" if "0 < c" "c < n" for c
      using less.prems(3)[OF that] that by (cases "c = j") (auto simp: inOrder_def)
    then show ?thesis using True up by (simp add: heapFrom_def)
  next
    case False
    then have ij: "?i < j" "0 < j" and lt_ji: "lt (bh ! j) (bh ! ?i)" by linarith+
    note sw = lt_pqSwap[of ?i bh j]
    have il: "?i < length bh" "?i < n" using ij JL less.prems(1) by linarith+
    have cl: "c < length bh" if "c < n" for c using that less.prems(2) by simp
    have A: "inOrder lt (pqSwap ?i j bh) c" if c: "0 < c" "c < n" "c \<noteq> ?i" for c
    proof -
      have pl: "(c - 1) div 2 < length bh" using c less.prems(2) by linarith
      note c = c cl[OF c(2)]
      consider (j) "c = j" | (child) "c \<noteq> j" "(c - 1) div 2 = j" | (sibling) "c \<noteq> j" "(c - 1) div 2 = ?i"
        | (other) "c \<noteq> j" "(c - 1) div 2 \<noteq> j" "(c - 1) div 2 \<noteq> ?i" by blast
      then show ?thesis
      proof cases
        case j
        then show ?thesis using sw[of j ?i] il JL ij asym[OF lt_ji]
          by (simp add: inOrder_def swapped_def)
      next
        case child
        have "\<not> lt (bh ! c) (bh ! ?i)" using less.prems(4)[OF c(1,2) child(2) ij(2)] .
        then show ?thesis using sw[of c j] il JL c child ij
          by (simp add: inOrder_def swapped_def)
      next
        case sibling
        have "\<not> lt (bh ! c) (bh ! ?i)"
          using less.prems(3)[OF c(1,2)] sibling by (auto simp: inOrder_def)
        then have "\<not> lt (bh ! c) (bh ! j)" using not_trans[OF asym[OF lt_ji]] by blast
        then show ?thesis using sw[of c ?i] il JL c sibling ij
          by (simp add: inOrder_def swapped_def)
      next
        case other
        then show ?thesis using sw[of c "(c - 1) div 2"] il JL less.prems(3) c pl
          by (simp add: inOrder_def swapped_def)
      qed
    qed
    have B: "\<not> lt (pqSwap ?i j bh ! c) (pqSwap ?i j bh ! ((?i - 1) div 2))"
      if c: "0 < c" "c < n" "(c - 1) div 2 = ?i" "0 < ?i" for c
    proof -
      let ?p = "(?i - 1) div 2"
      have p: "?p < ?i" "?p < length bh" "?p \<noteq> j" using c(4) il ij by linarith+
      have pi: "\<not> lt (bh ! ?i) (bh ! ?p)"
        using less.prems(3)[of ?i] c(4) il ij by (simp add: inOrder_def)
      show ?thesis
      proof (cases "c = j")
        case True
        have "swapped ?i j j = ?i" using ij unfolding swapped_def by argo
        moreover have "swapped ?i j ?p = ?p"
          using p(3) less_imp_neq[OF p(1)] by (simp_all only: swapped_def if_False)
        ultimately show ?thesis using sw[OF il(1) JL JL p(2)] pi True by argo
      next
        case False
        have "c \<noteq> ?i" using c by linarith
        have "\<not> lt (bh ! c) (bh ! ?i)"
          using less.prems(3)[OF c(1,2) False] c(3) by (simp add: inOrder_def)
        then have "\<not> lt (bh ! c) (bh ! ?p)" using not_trans[OF pi] by blast
        moreover have "swapped ?i j c = c" "swapped ?i j ?p = ?p"
          using False \<open>c \<noteq> ?i\<close> p(3) less_imp_neq[OF p(1)] by (simp_all only: swapped_def if_False)
        ultimately show ?thesis using sw[OF il(1) JL cl[OF c(2)] p(2)] by argo
      qed
    qed
    have "heapUp lt bh j = heapUp lt (pqSwap ?i j bh) ?i" using up False by argo
    moreover have "heapFrom lt 0 n (heapUp lt (pqSwap ?i j bh) ?i)"
      by (rule less.IH[OF ij(1), of "pqSwap ?i j bh", unfolded length_pqSwap, OF il(2) less.prems(2) A B])
    ultimately show ?thesis by argo
  qed
qed

lemma lesserChild_least:
  assumes "0 < c" "c < n" "(c - 1) div 2 = i"
  shows "\<not> lt (bh ! c) (bh ! lesserChild lt n bh i)"
proof -
  have irrefl: "\<not> lt a a" for a using asym by blast
  have "c = 2 * i + 1 \<or> c = 2 * i + 2" using assms by linarith
  then show ?thesis
  proof
    assume c: "c = 2 * i + 1"
    show ?thesis using irrefl asym unfolding lesserChild_def Let_def c by (cases "2 * i + 1 + 1 < n \<and> lt (bh ! (2 * i + 1 + 1)) (bh ! (2 * i + 1))") auto
  next
    assume c: "c = 2 * i + 2"
    show ?thesis using irrefl assms(2) unfolding lesserChild_def Let_def c by (cases "lt (bh ! (2 * i + 1 + 1)) (bh ! (2 * i + 1))") auto
  qed
qed

lemma heapDown_order:
  assumes "heapDown lt n bh i = (bh', k)" and "n \<le> length bh" and "0 < c" "c < n" "lo \<le> (c - 1) div 2"
    and "\<And>c. 0 < c \<Longrightarrow> c < n \<Longrightarrow> lo \<le> (c - 1) div 2 \<Longrightarrow> c \<noteq> i \<Longrightarrow> (c - 1) div 2 \<noteq> i \<Longrightarrow> inOrder lt bh c"
    and "\<And>c. 0 < c \<Longrightarrow> c < n \<Longrightarrow> (c - 1) div 2 = i \<Longrightarrow> 0 < i \<Longrightarrow> lo \<le> (i - 1) div 2
        \<Longrightarrow> \<not> lt (bh ! c) (bh ! ((i - 1) div 2))"
    and "c = i \<Longrightarrow> i < k \<or> inOrder lt bh c"
  shows "inOrder lt bh' c"
  using assms
proof (induction "n - i" arbitrary: bh i c rule: less_induct)
  case (less i bh c)
  let ?j = "lesserChild lt n bh i"
  note dn = heapDown.simps[of lt n bh i]
  have jc: "?j = 2 * i + 1 \<or> ?j = 2 * i + 2" by (auto simp: lesserChild_def Let_def)
  show ?case
  proof (cases "2 * i + 1 \<ge> n \<or> \<not> lt (bh ! ?j) (bh ! i)")
    case True
    then have "heapDown lt n bh i = (bh, i)" using dn by argo
    then have eq: "bh' = bh" "k = i" using less.prems(1) by simp_all
    show ?thesis
    proof (cases "(c - 1) div 2 = i")
      case True': True
      have "2 * i + 1 < n" using True' less.prems(3,4) by linarith
      then have "\<not> lt (bh ! ?j) (bh ! i)" using True by simp
      then have "\<not> lt (bh ! c) (bh ! i)"
        using not_trans lesserChild_least[OF less.prems(3,4) True'] by blast
      then show ?thesis using eq True' by (simp add: inOrder_def)
    next
      case False
      then show ?thesis using eq less.prems by blast
    qed
  next
    case False
    then have "heapDown lt n bh i = heapDown lt n (pqSwap i ?j bh) ?j"
      by (subst dn) (simp only: if_False)
    then have step: "heapDown lt n (pqSwap i ?j bh) ?j = (bh', k)" using less.prems(1) by simp
    have in1: "2 * i + 1 < n" and lt_ji: "lt (bh ! ?j) (bh ! i)" using False by simp_all
    have j: "i < ?j" "?j < n" "(?j - 1) div 2 = i" "0 < ?j"
      using lesserChild_bounds[OF in1, of lt bh] jc by auto
    have len: "i < length bh" "?j < length bh" using j less.prems(2) by linarith+
    note sw = lt_pqSwap[OF len]
    have in_range: "(x - 1) div 2 < length bh" "x < length bh" if "x < n" for x
      using that less.prems(2) by linarith+
    have A: "inOrder lt (pqSwap i ?j bh) x"
      if x: "0 < x" "x < n" "lo \<le> (x - 1) div 2" "x \<noteq> ?j" "(x - 1) div 2 \<noteq> ?j" for x
    proof -
      note r = in_range[OF x(2)]
      consider (self) "x = i" | (sibling) "x \<noteq> i" "(x - 1) div 2 = i" | (other) "x \<noteq> i" "(x - 1) div 2 \<noteq> i"
        by blast
      then have "\<not> lt (bh ! swapped i ?j x) (bh ! swapped i ?j ((x - 1) div 2))"
      proof cases
        case self
        then have "(x - 1) div 2 \<noteq> i" using x(1) by linarith
        then show ?thesis using less.prems(7)[OF j(4,2,3)] self x by (simp add: swapped_def)
      next
        case sibling
        then show ?thesis using lesserChild_least[OF x(1,2) sibling(2)] x by (simp add: swapped_def)
      next
        case other
        then show ?thesis using less.prems(6)[OF x(1,2,3)] x by (simp add: swapped_def inOrder_def)
      qed
      then show ?thesis using sw[OF r(2,1)] by (simp add: inOrder_def)
    qed
    have B: "\<not> lt (pqSwap i ?j bh ! x) (pqSwap i ?j bh ! ((?j - 1) div 2))"
      if x: "0 < x" "x < n" "(x - 1) div 2 = ?j" "0 < ?j" "lo \<le> (?j - 1) div 2" for x
    proof -
      have ne: "x \<noteq> i" "x \<noteq> ?j" "?j \<noteq> i" "lo \<le> (x - 1) div 2" using x j by linarith+
      then have "\<not> lt (bh ! x) (bh ! ?j)" using less.prems(6)[OF x(1,2) ne(4,1)] x(3) by (simp add: inOrder_def)
      then show ?thesis using sw[OF in_range(2)[OF x(2)] len(1)] ne j(3) by (simp add: swapped_def)
    qed
    have C: "inOrder lt (pqSwap i ?j bh) ?j"
      using sw[OF len(2,1)] asym[OF lt_ji] j by (simp add: inOrder_def swapped_def)
    have D: "n - ?j < n - i" "n \<le> length (pqSwap i ?j bh)" using j less.prems(2) by simp_all
    show ?thesis
      by (rule less.hyps[OF D(1) step D(2) less.prems(3,4,5) A B]) (use C in auto)
  qed
qed

lemma heapSettle_order:
  assumes "i < n" and "n \<le> length bh"
    and "\<And>c. 0 < c \<Longrightarrow> c < n \<Longrightarrow> c \<noteq> i \<Longrightarrow> (c - 1) div 2 \<noteq> i \<Longrightarrow> inOrder lt bh c"
    and "\<And>c. 0 < c \<Longrightarrow> c < n \<Longrightarrow> (c - 1) div 2 = i \<Longrightarrow> 0 < i \<Longrightarrow> \<not> lt (bh ! c) (bh ! ((i - 1) div 2))"
  shows "heapFrom lt 0 n (heapSettle lt n bh i)"
proof -
  obtain bh' k where d: "heapDown lt n bh i = (bh', k)" by fastforce
  have ord: "inOrder lt bh' c" if "0 < c" "c < n" "c = i \<Longrightarrow> i < k" for c
    by (rule heapDown_order[OF d assms(2) that(1,2), where lo = 0]) (use assms(3,4) that(3) in auto)
  show ?thesis
  proof (cases "i < k")
    case True
    then show ?thesis using ord d by (simp add: heapSettle_def heapFrom_def)
  next
    case False
    then have "bh' = bh" using heapDown_facts(4,5)[OF d assms(2)] by simp
    then have "heapFrom lt 0 n (heapUp lt bh' i)"
      using ord assms by (intro heapUp_order) auto
    then show ?thesis using False d by (simp add: heapSettle_def)
  qed
qed

lemma heapOrdered_least:
  assumes "heapOrdered lt bh" and "k < length bh"
  shows "\<not> lt (bh ! k) (bh ! 0)"
  using assms(2)
proof (induction k rule: less_induct)
  case (less k)
  show ?case
  proof (cases k)
    case 0
    then show ?thesis using asym by blast
  next
    case (Suc m)
    then have "(k - 1) div 2 < k" by simp
    then have "\<not> lt (bh ! ((k - 1) div 2)) (bh ! 0)" using less by simp
    moreover have "\<not> lt (bh ! k) (bh ! ((k - 1) div 2))"
      using assms(1)[unfolded heapOrdered_def] less.prems Suc by blast
    ultimately show ?thesis using not_trans by blast
  qed
qed

lemma heapInit_from:
  assumes "m \<le> length bh div 2"
  shows "heapFrom lt (length bh div 2 - m) (length bh)
           (fold (\<lambda>i h. fst (heapDown lt (length bh) h i)) (take m (rev [0..<length bh div 2])) bh)"
  using assms
proof (induction m)
  case 0
  then show ?case by (auto simp: heapFrom_def)
next
  case (Suc m)
  let ?n = "length bh"
  let ?is = "rev [0..<?n div 2]"
  define h where "h = fold (\<lambda>i h. fst (heapDown lt ?n h i)) (take m ?is) bh"
  define i where "i = ?n div 2 - Suc m"
  have i: "?is ! m = i" "m < length ?is" using Suc.prems by (simp_all add: i_def rev_nth)
  have lo: "?n div 2 - m = Suc i" "?n div 2 - Suc m = i" using Suc.prems by (simp_all add: i_def)
  have "length h = ?n"
    unfolding h_def by (rule fold_invariant[where Q = "\<lambda>_. True"]) (auto simp: heapDown_length)
  obtain bh' k where d: "heapDown lt ?n h i = (bh', k)" by fastforce
  have IH: "heapFrom lt (Suc i) ?n h" using Suc.IH Suc.prems unfolding h_def lo(1) by linarith
  have "heapFrom lt i ?n bh'"
    unfolding heapFrom_def
  proof (intro allI impI)
    fix c assume c: "0 < c \<and> c < ?n \<and> i \<le> (c - 1) div 2"
    show "inOrder lt bh' c"
      by (rule heapDown_order[OF d, where lo = i]) (use IH c \<open>length h = ?n\<close> in \<open>auto simp: heapFrom_def\<close>)
  qed
  moreover have "fold (\<lambda>i h. fst (heapDown lt ?n h i)) (take (Suc m) ?is) bh = bh'"
    using fold_take_Suc[OF i(2), of "\<lambda>i h. fst (heapDown lt ?n h i)" bh] i(1) d by (simp add: h_def)
  ultimately show ?case unfolding lo(2) by simp
qed

lemma heapInit_order: "heapOrdered lt (heapInit lt bh)"
  using heapInit_from[of "length bh div 2" bh] by (simp add: heapOrdered_from heapInit_def heapInit_facts(1)[unfolded heapInit_def])

lemma heapPush_order:
  assumes "heapOrdered lt bh"
  shows "heapOrdered lt (heapUp lt (bh @ [b]) (length bh))"
proof -
  have "heapFrom lt 0 (Suc (length bh)) (heapUp lt (bh @ [b]) (length bh))"
  proof (rule heapUp_order)
    fix c assume c: "0 < c" "c < Suc (length bh)" "c \<noteq> length bh"
    then have "(c - 1) div 2 < length bh" by linarith
    then show "inOrder lt (bh @ [b]) c"
      using assms c by (simp add: heapOrdered_def inOrder_def nth_append)
  next
    fix c assume "0 < c" "c < Suc (length bh)" "(c - 1) div 2 = length bh"
    then have False by linarith
    then show "\<not> lt ((bh @ [b]) ! c) ((bh @ [b]) ! ((length bh - 1) div 2))" ..
  qed simp_all
  then show ?thesis by (simp add: heapOrdered_from heapUp_facts(1))
qed

lemma heapFix_front_order:
  assumes "heapOrdered lt bh" and "bh \<noteq> []"
  shows "heapOrdered lt (heapFix lt (bh[0 := b]) 0)"
proof -
  let ?bh = "bh[0 := b]"
  have "heapFrom lt 0 (length bh) (heapSettle lt (length bh) ?bh 0)"
  proof (rule heapSettle_order)
    fix c assume c: "0 < c" "c < length bh" "c \<noteq> 0" "(c - 1) div 2 \<noteq> 0"
    then show "inOrder lt ?bh c"
      using assms(1)[unfolded heapOrdered_def] by (auto simp: inOrder_def)
  qed (use assms(2) in simp_all)
  then show ?thesis
    using heapSettle_facts(1)[of 0 "length bh" ?bh lt] assms(2) by (simp add: heapOrdered_from heapFix_def)
qed

lemma heapRemove_order:
  assumes "heapOrdered lt bh" and "i < length bh"
  shows "heapOrdered lt (snd (heapRemove lt bh i))"
proof -
  define n where "n = length bh - 1"
  have n: "length bh = Suc n" using assms(2) by (simp add: n_def)
  define X where "X = (if n \<noteq> i then heapSettle lt n (pqSwap i n bh) i else bh)"
  have r: "snd (heapRemove lt bh i) = butlast X"
    by (simp add: heapRemove_def pqPop_def n_def X_def Let_def)
  have old: "\<not> lt (bh ! c) (bh ! ((c - 1) div 2))" if "0 < c" "c \<le> n" for c
    using assms(1)[unfolded heapOrdered_def] that n by simp
  have "length X = length bh \<and> heapFrom lt 0 n X"
  proof (cases "n = i")
    case True
    then show ?thesis using old by (simp add: X_def heapFrom_def inOrder_def)
  next
    case False
    then have i: "i < n" using assms(2) n by simp
    then have il: "i < length bh" "n < length bh" using n by simp_all
    have same: "lt (pqSwap i n bh ! c) (pqSwap i n bh ! d) \<longleftrightarrow> lt (bh ! c) (bh ! d)"
      if "c < n" "d < n" "c \<noteq> i" "d \<noteq> i" for c d
      using lt_pqSwap[OF il, of c d] that n by (simp add: swapped_def)
    have "heapFrom lt 0 n (heapSettle lt n (pqSwap i n bh) i)"
    proof (rule heapSettle_order[OF i])
      show "n \<le> length (pqSwap i n bh)" using n by simp
      fix c assume c: "0 < c" "c < n"
      then have p: "(c - 1) div 2 < n" by linarith
      { assume "c \<noteq> i" "(c - 1) div 2 \<noteq> i"
        then show "inOrder lt (pqSwap i n bh) c"
          unfolding inOrder_def using same[OF c(2) p] old[OF c(1) less_imp_le[OF c(2)]] by blast }
      { assume ch: "(c - 1) div 2 = i" "0 < i"
        then have ne: "c \<noteq> i" "(i - 1) div 2 \<noteq> i" "(i - 1) div 2 < n" using c i by linarith+
        have "\<not> lt (bh ! c) (bh ! i)" using old[OF c(1) less_imp_le[OF c(2)]] ch(1) by simp
        moreover have "\<not> lt (bh ! i) (bh ! ((i - 1) div 2))" using old[OF ch(2) less_imp_le[OF i]] .
        ultimately have "\<not> lt (bh ! c) (bh ! ((i - 1) div 2))" using not_trans by blast
        then show "\<not> lt (pqSwap i n bh ! c) (pqSwap i n bh ! ((i - 1) div 2))"
          using same[OF c(2) ne(3,1,2)] by blast }
    qed
    then show ?thesis using False heapSettle_facts(1)[OF i, of "pqSwap i n bh" lt] n by (simp add: X_def)
  qed
  then have X: "length X = Suc n" "heapFrom lt 0 n X" using n by simp_all
  have "\<not> lt (butlast X ! j) (butlast X ! ((j - 1) div 2))" if j: "0 < j" "j < n" for j
  proof -
    have "(j - 1) div 2 < n" using j by linarith
    then show ?thesis using X j by (simp add: nth_butlast heapFrom_def inOrder_def)
  qed
  then show ?thesis using X(1) by (simp add: r heapOrdered_def)
qed

end

interpretation byHeight: block_order LessByHeight
  by unfold_locales (auto simp: LessByHeight_def)

interpretation byAccessCount: block_order LessByAccessCount
  by unfold_locales (auto simp: LessByAccessCount_def)

interpretation byAccessTime: block_order LessByAccessTime
  by unfold_locales (auto simp: LessByAccessTime_def)

interpretation byCountThenHeight: block_order LessByAccessCountThenHeight
  by unfold_locales
    (auto simp: LessByAccessCountThenHeight_def LessByAccessCount_def LessByHeight_def split: if_splits)

subsection \<open>The invariant of the queue\<close>

definition withinBounds :: "('f, 'x) BlockPriorityQueue \<Rightarrow> bool" where
  "withinBounds pq \<longleftrightarrow> (\<forall>b \<in> set (pqBh pq).
     pqMinHeight pq \<le> uint (cbHeight b) \<and> uint (cbHeight b) \<le> pqMaxHeight pq)"

definition queueOK :: "('f, 'x) BlockPriorityQueue \<Rightarrow> bool" where
  "queueOK pq \<longleftrightarrow> placed (pqBh pq) \<and> int (length (pqBh pq)) \<le> uint (pqCapacity pq) \<and> withinBounds pq"

lemma updateMinMax_sel [simp]:
  "pqBh (updateMinMax h pq) = pqBh pq" "pqCapacity (updateMinMax h pq) = pqCapacity pq"
  "pqLessFn (updateMinMax h pq) = pqLessFn pq" "pqNeedsReheap (updateMinMax h pq) = pqNeedsReheap pq"
  "pqMinHeight (updateMinMax h pq) = min (pqMinHeight pq) (uint h)"
  "pqMaxHeight (updateMinMax h pq) = max (pqMaxHeight pq) (uint h)"
  "pqLastAccess (updateMinMax h pq) = pqLastAccess pq"
  by (auto simp: updateMinMax_def Let_def)

lemma updateMinMax_id:
  "pqMinHeight pq \<le> uint h \<Longrightarrow> uint h \<le> pqMaxHeight pq \<Longrightarrow> updateMinMax h pq = pq"
  by (simp add: updateMinMax_def Let_def)

lemma fold_updateMinMax_sel [simp]:
  "pqBh (fold (\<lambda>b. updateMinMax (cbHeight b)) bs pq) = pqBh pq"
  "pqCapacity (fold (\<lambda>b. updateMinMax (cbHeight b)) bs pq) = pqCapacity pq"
  "pqLessFn (fold (\<lambda>b. updateMinMax (cbHeight b)) bs pq) = pqLessFn pq"
  "pqLastAccess (fold (\<lambda>b. updateMinMax (cbHeight b)) bs pq) = pqLastAccess pq"
  by (induction bs arbitrary: pq) simp_all

lemma fold_updateMinMax_bounds:
  "pqMinHeight (fold (\<lambda>b. updateMinMax (cbHeight b)) bs pq) \<le> pqMinHeight pq \<and>
   pqMaxHeight pq \<le> pqMaxHeight (fold (\<lambda>b. updateMinMax (cbHeight b)) bs pq) \<and>
   (\<forall>b \<in> set bs. pqMinHeight (fold (\<lambda>b. updateMinMax (cbHeight b)) bs pq) \<le> uint (cbHeight b) \<and>
      uint (cbHeight b) \<le> pqMaxHeight (fold (\<lambda>b. updateMinMax (cbHeight b)) bs pq))"
proof (induction bs arbitrary: pq)
  case Nil
  then show ?case by simp
next
  case (Cons b bs)
  show ?case using Cons[of "updateMinMax (cbHeight b) pq"] by fastforce
qed

text \<open>Rescanning never changes bounds that hold, which is the case in every queue.\<close>

lemma RescanMinMax_id: "withinBounds pq \<Longrightarrow> RescanMinMax pq = pq"
proof -
  have "(\<forall>b \<in> set bs. pqMinHeight pq \<le> uint (cbHeight b) \<and> uint (cbHeight b) \<le> pqMaxHeight pq) \<Longrightarrow>
      fold (\<lambda>b. updateMinMax (cbHeight b)) bs pq = pq" for bs
    by (induction bs) (simp_all add: updateMinMax_id)
  then show "withinBounds pq \<Longrightarrow> RescanMinMax pq = pq"
    by (simp add: withinBounds_def RescanMinMax_def)
qed

lemma RescanMinMax_sel [simp]:
  "pqBh (RescanMinMax pq) = pqBh pq" "pqCapacity (RescanMinMax pq) = pqCapacity pq"
  "pqLessFn (RescanMinMax pq) = pqLessFn pq"
  by (simp_all add: RescanMinMax_def)

lemma RescanMinMax_bounds: "withinBounds (RescanMinMax pq)"
  using fold_updateMinMax_bounds[of "pqBh pq" pq] by (auto simp: withinBounds_def RescanMinMax_def)

lemma heights_of_contents: "cbHeight ` set bh = cbHeight ` set_mset (contents bh)"
  by (simp add: contents_def image_image)

lemma withinBounds_contents:
  "withinBounds pq \<longleftrightarrow> (\<forall>h \<in> cbHeight ` set_mset (contents (pqBh pq)).
     pqMinHeight pq \<le> uint h \<and> uint h \<le> pqMaxHeight pq)"
  by (auto simp: withinBounds_def heights_of_contents[symmetric])

text \<open>A reordering of the blocks keeps the bounds; so does removing some.\<close>

lemma withinBounds_subset:
  assumes "withinBounds pq" and "set_mset (contents (pqBh pq')) \<subseteq> set_mset (contents (pqBh pq))"
    and "pqMinHeight pq' = pqMinHeight pq" "pqMaxHeight pq' = pqMaxHeight pq"
  shows "withinBounds pq'"
  using assms unfolding withinBounds_contents by auto

lemma Reheap_OK [inv_intros]: "queueOK pq \<Longrightarrow> queueOK (Reheap pq)"
  by (auto simp: queueOK_def Reheap_def heapInit_facts intro: withinBounds_subset)

lemma RemoveIndex_facts:
  assumes "queueOK pq" and "i < length (pqBh pq)"
  shows "RemoveIndex i pq = pq\<lparr>pqBh := snd (heapRemove (pqLessFn pq) (pqBh pq) i)\<rparr>"
    and "queueOK (RemoveIndex i pq)"
proof -
  let ?pq = "pq\<lparr>pqBh := snd (heapRemove (pqLessFn pq) (pqBh pq) i)\<rparr>"
  note R = heapRemove_facts[OF assms(2), of "pqLessFn pq"]
  have "set_mset (contents (pqBh ?pq)) \<subseteq> set_mset (contents (pqBh pq))"
    using R(2) by (auto dest: in_diffD)
  then have b: "withinBounds ?pq"
    using assms(1) withinBounds_subset[of pq ?pq] by (simp add: queueOK_def)
  then show eq: "RemoveIndex i pq = ?pq"
    by (simp add: RemoveIndex_def RescanMinMaxForRemove_def RescanMinMax_id Let_def)
  show "queueOK (RemoveIndex i pq)"
    unfolding eq using assms R b by (simp add: queueOK_def)
qed

lemma RemoveBlock_OK [inv_intros]: "queueOK pq \<Longrightarrow> queueOK (RemoveBlock b pq)"
  by (auto simp: RemoveBlock_def intro!: RemoveIndex_facts(2) split: option.split)

lemma resetBlocks_nth:
  "i < length bh \<Longrightarrow> resetBlocks now bh ! i = (bh ! i)\<lparr>cbHeapIdx := int i, cbAccesses := 1, cbAccessTime := now\<rparr>"
  by (simp add: resetBlocks_def nth_enumerate_eq)

lemma length_resetBlocks [simp]: "length (resetBlocks now bh) = length bh"
  by (simp add: resetBlocks_def)

lemma heights_resetBlocks: "cbHeight ` set (resetBlocks now bh) = cbHeight ` set bh"
proof -
  have "map cbHeight (resetBlocks now bh) = map cbHeight bh"
    by (rule nth_equalityI) (simp_all add: resetBlocks_nth)
  then show ?thesis by (metis list.set_map)
qed

lemma ResetHeap_OK [inv_intros]:
  assumes "int (length bh) \<le> uint (pqCapacity pq)"
  shows "queueOK (ResetHeap now bh pq)"
proof -
  let ?pq1 = "pq\<lparr>pqMaxHeight := -1, pqMinHeight := 2 ^ 32 - 1\<rparr>"
  let ?pq2 = "fold (\<lambda>b. updateMinMax (cbHeight b)) bh ?pq1"
  let ?r = "ResetHeap now bh pq"
  have "placed (resetBlocks now bh)" by (simp add: placed_def resetBlocks_nth)
  then have "placed (pqBh ?r)" by (simp add: ResetHeap_def Let_def heapInit_facts)
  moreover have "withinBounds ?r"
  proof -
    have "cbHeight ` set_mset (contents (pqBh ?r)) = cbHeight ` set bh"
      by (simp add: ResetHeap_def Let_def heapInit_facts(2) heights_of_contents[symmetric] heights_resetBlocks)
    then show ?thesis
      using fold_updateMinMax_bounds[of bh ?pq1]
      unfolding withinBounds_contents by (auto simp: ResetHeap_def Let_def)
  qed
  ultimately show ?thesis using assms by (simp add: queueOK_def ResetHeap_def Let_def heapInit_facts)
qed

lemma settings_OK [inv_intros]:
  "queueOK pq \<Longrightarrow> queueOK (SetLessFn f pq)" "queueOK pq \<Longrightarrow> queueOK (setAccessTime t pq)"
  "queueOK pq \<Longrightarrow> queueOK (setNeedsReheap r pq)"
  by (simp_all add: queueOK_def withinBounds_def SetLessFn_def setAccessTime_def setNeedsReheap_def)

lemma WatchPriorityQueue_OK [inv_intros]: "queueOK pq \<Longrightarrow> queueOK (WatchPriorityQueue now pq)"
  by (simp add: WatchPriorityQueue_def inv_intros)

lemma NewBlockPriorityQueue_OK [inv_intros]: "queueOK (NewBlockPriorityQueue capacity)"
  by (simp add: queueOK_def NewBlockPriorityQueue_def placed_def withinBounds_def)

subsection \<open>Inserting\<close>

lemma newCachedBlock_Some:
  assumes "newCachedBlock summary stakeInfo = Some b"
  shows "checkBlockHeightHash summary stakeInfo = Some (cbHeight b, cbHash b, False)"
    and "b = \<lparr>cbHeight = cbHeight b, cbHash = cbHash b, cbSummary = summary, cbStakeInfo = stakeInfo,
           cbAccesses = 0, cbAccessTime = 0, cbHeapIdx = -1\<rparr>"
    and "\<not> (summary = None \<and> stakeInfo = None)"
  using assms by (auto simp: newCachedBlock_def split: if_splits option.splits)

lemma withinBounds_grow:
  assumes "withinBounds pq" and "pqBh pq' = pqBh pq"
    and "pqMinHeight pq' \<le> pqMinHeight pq" "pqMaxHeight pq \<le> pqMaxHeight pq'"
  shows "withinBounds pq'"
  using assms unfolding withinBounds_def by (metis order_trans)

lemma RescanMinMaxForUpdate_bounds:
  assumes "\<And>x. x \<in> set (pqBh pq) \<Longrightarrow>
    cbHeight x = h \<or> pqMinHeight pq \<le> uint (cbHeight x) \<and> uint (cbHeight x) \<le> pqMaxHeight pq"
  shows "withinBounds (RescanMinMaxForUpdate h r pq)"
proof -
  have 1: "withinBounds (updateMinMax h (RescanMinMax pq))"
    by (rule withinBounds_grow[OF RescanMinMax_bounds[of pq]]) simp_all
  have 2: "withinBounds (updateMinMax h pq)"
    unfolding withinBounds_def using assms by (fastforce simp: min_le_iff_disj le_max_iff_disj)
  show ?thesis
    unfolding RescanMinMaxForUpdate_def Let_def using 1 2 by simp
qed

lemma RescanMinMaxForUpdate_sel [simp]:
  "pqBh (RescanMinMaxForUpdate h r pq) = pqBh pq"
  "pqCapacity (RescanMinMaxForUpdate h r pq) = pqCapacity pq"
  "pqLessFn (RescanMinMaxForUpdate h r pq) = pqLessFn pq"
  by (simp_all add: RescanMinMaxForUpdate_def Let_def)

text \<open>What \<open>UpdateBlock\<close> puts in front.\<close>

definition freshBlock :: "int \<Rightarrow> ('f, 'x) CachedBlock \<Rightarrow> ('f, 'x) CachedBlock" where
  "freshBlock now b = (Access now b)\<lparr>cbHeapIdx := 0\<rparr>"

lemma freshBlock_unplaced [simp]: "unplaced (freshBlock now b) = freshBlock now b"
  by (simp add: freshBlock_def unplaced_def)

lemma freshBlock_sel [simp]:
  "cbHeight (freshBlock now b) = cbHeight b" "cbHash (freshBlock now b) = cbHash b"
  "cbHeapIdx (freshBlock now b) = 0" "unplaced (Access now b) = freshBlock now b"
  by (simp_all add: freshBlock_def Access_def unplaced_def)

lemma placed_update: "placed bh \<Longrightarrow> cbHeapIdx b = int i \<Longrightarrow> placed (bh[i := b])"
  unfolding placed_def by (metis length_list_update nth_list_update_eq nth_list_update_neq)

lemma contents_update:
  "i < length bh \<Longrightarrow> contents (bh[i := b]) = add_mset (unplaced b) (contents bh - {#unplaced (bh ! i)#})"
  by (simp add: contents_def mset_update map_update)

lemma UpdateBlock_front:
  assumes "queueOK pq" and "pqBh pq \<noteq> []" and "newCachedBlock summary stakeInfo = Some b"
  shows "\<exists>pq'. UpdateBlock now 0 summary stakeInfo pq = Ret pq' \<and> queueOK pq' \<and>
    contents (pqBh pq') = add_mset (freshBlock now b) (contents (pqBh pq) - {#unplaced (pqBh pq ! 0)#}) \<and>
    pqBh pq' = heapFix (pqLessFn pq) ((pqBh pq)[0 := freshBlock now b]) 0 \<and>
    length (pqBh pq') = length (pqBh pq) \<and> pqLessFn pq' = pqLessFn pq \<and> pqCapacity pq' = pqCapacity pq"
proof -
  let ?bh = "pqBh pq"
  let ?bh' = "heapFix (pqLessFn pq) (?bh[0 := freshBlock now b]) 0"
  let ?pq1 = "pq\<lparr>pqBh := ?bh'\<rparr>"
  let ?pq2 = "(RescanMinMaxForUpdate (cbHeight b) (cbHeight (?bh ! 0)) ?pq1)\<lparr>pqLastAccess := now\<rparr>"
  have idx: "cbHeapIdx (?bh ! 0) = 0" using assms(1,2) by (simp add: queueOK_def placed_def)
  note nb = newCachedBlock_Some[OF assms(3)]
  have put: "Access now ((?bh ! 0)\<lparr>cbHeight := cbHeight b, cbHash := cbHash b, cbSummary := summary,
      cbStakeInfo := stakeInfo, cbAccesses := 0\<rparr>) = freshBlock now b"
    using nb(2) idx by (cases b; cases "?bh ! 0") (simp add: Access_def freshBlock_def)
  have U: "UpdateBlock now 0 summary stakeInfo pq = Ret ?pq2"
    unfolding UpdateBlock_def nb(1) by (simp add: put Let_def) (simp add: freshBlock_def Access_def)
  have l0: "0 < length (?bh[0 := freshBlock now b])" using assms(2) by simp
  note S = heapSettle_facts[OF l0 order_refl, of "pqLessFn pq", folded heapFix_def]
  have len: "length ?bh' = length ?bh" using S(1) by simp
  have C: "contents ?bh' = add_mset (freshBlock now b) (contents ?bh - {#unplaced (?bh ! 0)#})"
    using S(2) assms(2) by (simp add: contents_update)
  have "placed (?bh[0 := freshBlock now b])"
    using assms(1) by (simp add: queueOK_def placed_update)
  then have P: "placed ?bh'" by (rule S(3))
  have W: "withinBounds ?pq2"
  proof -
    have "withinBounds (RescanMinMaxForUpdate (cbHeight b) (cbHeight (?bh ! 0)) ?pq1)"
    proof (rule RescanMinMaxForUpdate_bounds)
      fix x assume "x \<in> set (pqBh ?pq1)"
      then have "unplaced x \<in># contents ?bh'" by (simp add: set_contents)
      then have "unplaced x = freshBlock now b \<or> unplaced x \<in># contents ?bh"
        unfolding C by (auto dest: in_diffD)
      then have "cbHeight x = cbHeight b \<or> cbHeight x \<in> cbHeight ` set_mset (contents ?bh)"
        by (metis freshBlock_sel(1) image_eqI unplaced_sel(1))
      then show "cbHeight x = cbHeight b \<or>
          pqMinHeight ?pq1 \<le> uint (cbHeight x) \<and> uint (cbHeight x) \<le> pqMaxHeight ?pq1"
        using assms(1) by (auto simp: queueOK_def withinBounds_contents)
    qed
    then show ?thesis by (simp add: withinBounds_def)
  qed
  show ?thesis
    by (rule exI[of _ ?pq2]) (use U C P W len assms(1) in \<open>simp add: queueOK_def\<close>)
qed

lemma heapPush_facts:
  assumes "queueOK pq" and "int (length (pqBh pq)) < uint (pqCapacity pq)"
    and "newCachedBlock summary stakeInfo = Some b"
  shows "\<exists>pq'. heapPush now summary stakeInfo pq = Ret pq' \<and> queueOK pq' \<and>
    contents (pqBh pq') = add_mset (freshBlock now b) (contents (pqBh pq)) \<and>
    (\<exists>b'. pqBh pq' = heapUp (pqLessFn pq) (pqBh pq @ [b']) (length (pqBh pq))) \<and>
    cbHeight b \<in> cbHeight ` set (pqBh pq') \<and>
    length (pqBh pq') = Suc (length (pqBh pq)) \<and> pqLessFn pq' = pqLessFn pq \<and> pqCapacity pq' = pqCapacity pq"
proof -
  let ?n = "length (pqBh pq)"
  let ?b = "(Access now b)\<lparr>cbHeapIdx := int ?n\<rparr>"
  let ?bh = "heapUp (pqLessFn pq) (pqBh pq @ [?b]) ?n"
  let ?pq = "(updateMinMax (cbHeight b) pq)\<lparr>pqBh := ?bh, pqLastAccess := now\<rparr>"
  have H: "heapPush now summary stakeInfo pq = Ret ?pq"
    unfolding heapPush_def pqPush_def assms(3) by (simp add: Let_def Access_def)
  have n: "?n < length (pqBh pq @ [?b])" by simp
  note U = heapUp_facts[OF n, of "pqLessFn pq"]
  have C: "contents ?bh = add_mset (freshBlock now b) (contents (pqBh pq))" using U(2) by simp
  have P: "placed ?bh" using U(3) assms(1) by (simp add: queueOK_def)
  have W: "withinBounds ?pq"
    using assms(1) by (auto simp: queueOK_def withinBounds_contents C min_le_iff_disj le_max_iff_disj)
  have "cbHeight b \<in> cbHeight ` set ?bh" by (simp add: heights_of_contents C)
  then show ?thesis
    by (intro exI[of _ ?pq]) (use H C P W U(1) assms(1,2) in \<open>auto simp: queueOK_def\<close>)
qed

lemma Insert_room:
  assumes "queueOK pq" and "int (length (pqBh pq)) < uint (pqCapacity pq)"
    and "newCachedBlock summary stakeInfo = Some b"
  shows "\<exists>pq'. Insert nh clk summary stakeInfo pq = Ret ((True, None, -1), pq') \<and> queueOK pq' \<and>
    contents (pqBh pq') = add_mset (freshBlock (clk 0) b) (contents (pqBh pq)) \<and>
    (\<exists>b'. pqBh pq' = heapUp (pqLessFn pq) (pqBh pq @ [b']) (length (pqBh pq))) \<and>
    pqLessFn pq' = pqLessFn pq \<and> pqCapacity pq' = pqCapacity pq"
proof -
  obtain pq' where H: "heapPush (clk 0) summary stakeInfo pq = Ret pq'" and ok: "queueOK pq'"
    and C: "contents (pqBh pq') = add_mset (freshBlock (clk 0) b) (contents (pqBh pq))"
    and B: "\<exists>b'. pqBh pq' = heapUp (pqLessFn pq) (pqBh pq @ [b']) (length (pqBh pq))"
    and h: "cbHeight b \<in> cbHeight ` set (pqBh pq')"
    and sel: "pqLessFn pq' = pqLessFn pq" "pqCapacity pq' = pqCapacity pq"
    using heapPush_facts[OF assms, of "clk 0"] by blast
  have "updateMinMax (cbHeight b) pq' = pq'"
    using ok h by (intro updateMinMax_id) (auto simp: queueOK_def withinBounds_def)
  moreover have "pqCapacity pq \<noteq> 0" using assms(2) by auto
  moreover have "\<not> uint (pqCapacity pq) \<le> int (length (pqBh pq))" using assms(2) by simp
  ultimately have I: "Insert nh clk summary stakeInfo pq = Ret ((True, None, -1), pq'\<lparr>pqLastAccess := clk 1\<rparr>)"
    unfolding Insert_def newCachedBlock_Some(1)[OF assms(3)]
    using newCachedBlock_Some(3)[OF assms(3)] H by simp
  show ?thesis
    by (intro exI[of _ "pq'\<lparr>pqLastAccess := clk 1\<rparr>"])
      (use I ok C B sel in \<open>simp add: queueOK_def withinBounds_def\<close>)
qed

lemma Insert_full:
  assumes "queueOK pq" and "int (length (pqBh pq)) = uint (pqCapacity pq)" and "pqCapacity pq \<noteq> 0"
    and "newCachedBlock summary stakeInfo = Some b"
  shows "if pqLessFn pq (pqBh pq ! 0) (freshBlock (clk 0) b)
    then \<exists>pq'. Insert nh clk summary stakeInfo pq =
        Ret ((True, nh (cbHash (pqBh pq ! 0)), uint (cbHeight (pqBh pq ! 0))), pq') \<and> queueOK pq' \<and>
      contents (pqBh pq') = add_mset (freshBlock (clk 1) b) (contents (pqBh pq) - {#unplaced (pqBh pq ! 0)#}) \<and>
      pqBh pq' = heapFix (pqLessFn pq) ((pqBh pq)[0 := freshBlock (clk 1) b]) 0 \<and>
      pqLessFn pq' = pqLessFn pq \<and> pqCapacity pq' = pqCapacity pq
    else Insert nh clk summary stakeInfo pq = Ret ((False, None, -1), pq)"
proof -
  have ne: "pqBh pq \<noteq> []" using assms(2,3) by (auto simp: uint_0_iff)
  obtain pq' where U: "UpdateBlock (clk 1) 0 summary stakeInfo pq = Ret pq'" "queueOK pq'"
    "contents (pqBh pq') = add_mset (freshBlock (clk 1) b) (contents (pqBh pq) - {#unplaced (pqBh pq ! 0)#})"
    "pqBh pq' = heapFix (pqLessFn pq) ((pqBh pq)[0 := freshBlock (clk 1) b]) 0"
    "pqLessFn pq' = pqLessFn pq" "pqCapacity pq' = pqCapacity pq"
    using UpdateBlock_front[OF assms(1) ne assms(4), of "clk 1"] by blast
  note I = Insert_def[of nh clk summary stakeInfo pq] newCachedBlock_Some(3)[OF assms(4)] assms(2,3,4)
  show ?thesis
  proof (cases "pqLessFn pq (pqBh pq ! 0) (freshBlock (clk 0) b)")
    case True
    let ?q = "if nh (cbHash (pqBh pq ! 0)) \<noteq> None then pq'\<lparr>pqLastAccess := clk 2\<rparr> else pq'"
    have "Insert nh clk summary stakeInfo pq =
        Ret ((True, nh (cbHash (pqBh pq ! 0)), uint (cbHeight (pqBh pq ! 0))), ?q)"
      using I True U(1) by (simp add: Let_def freshBlock_def)
    then show ?thesis
      using True U(2-) by (auto simp: queueOK_def withinBounds_def)
  next
    case False
    then show ?thesis using I by (simp add: Let_def freshBlock_def)
  qed
qed

lemma newCachedBlock_None:
  "newCachedBlock summary stakeInfo = None \<Longrightarrow> \<not> (summary = None \<and> stakeInfo = None) \<Longrightarrow>
   \<exists>h s. checkBlockHeightHash summary stakeInfo = Some (h, s, True)"
  by (auto simp: newCachedBlock_def checkBlockHeightHash_def split: option.splits if_splits)

lemma Insert_cases:
  assumes "queueOK pq" and "Insert nh clk summary stakeInfo pq = Ret (r, pq')"
  obtains (unchanged) "pq' = pq"
  | (pushed) b b' where "newCachedBlock summary stakeInfo = Some b"
      "int (length (pqBh pq)) < uint (pqCapacity pq)"
      "pqBh pq' = heapUp (pqLessFn pq) (pqBh pq @ [b']) (length (pqBh pq))"
      "queueOK pq'" "pqLessFn pq' = pqLessFn pq" "pqCapacity pq' = pqCapacity pq"
  | (replaced) b b' where "newCachedBlock summary stakeInfo = Some b" "pqBh pq \<noteq> []"
      "pqBh pq' = heapFix (pqLessFn pq) ((pqBh pq)[0 := b']) 0"
      "queueOK pq'" "pqLessFn pq' = pqLessFn pq" "pqCapacity pq' = pqCapacity pq"
proof -
  consider (no) "pqCapacity pq = 0 \<or> summary = None \<and> stakeInfo = None"
    | (bad) "pqCapacity pq \<noteq> 0" "\<not> (summary = None \<and> stakeInfo = None)" "newCachedBlock summary stakeInfo = None"
    | (room) b where "newCachedBlock summary stakeInfo = Some b" "int (length (pqBh pq)) < uint (pqCapacity pq)"
    | (full) b where "newCachedBlock summary stakeInfo = Some b" "pqCapacity pq \<noteq> 0"
        "int (length (pqBh pq)) = uint (pqCapacity pq)"
    using assms(1) unfolding queueOK_def by fastforce
  then show thesis
  proof cases
    case no
    then show ?thesis using assms(2) unchanged by (auto simp: Insert_def split: if_splits)
  next
    case bad
    obtain h s where "checkBlockHeightHash summary stakeInfo = Some (h, s, True)"
      using newCachedBlock_None[OF bad(3,2)] by blast
    then show ?thesis using assms(2) bad unchanged by (auto simp: Insert_def split: if_splits)
  next
    case room
    obtain q b' where "Insert nh clk summary stakeInfo pq = Ret ((True, None, -1), q)" "queueOK q"
      "pqBh q = heapUp (pqLessFn pq) (pqBh pq @ [b']) (length (pqBh pq))"
      "pqLessFn q = pqLessFn pq" "pqCapacity q = pqCapacity pq"
      using Insert_room[OF assms(1) room(2,1), of nh clk] by blast
    then show ?thesis using pushed[OF room] assms(2) by simp
  next
    case full
    have ne: "pqBh pq \<noteq> []" using full by (auto simp: uint_0_iff)
    note F = Insert_full[OF assms(1) full(3,2,1), of clk nh]
    show ?thesis
    proof (cases "pqLessFn pq (pqBh pq ! 0) (freshBlock (clk 0) b)")
      case True
      obtain q where
        "Insert nh clk summary stakeInfo pq = Ret ((True, nh (cbHash (pqBh pq ! 0)), uint (cbHeight (pqBh pq ! 0))), q)"
        "queueOK q" "pqBh q = heapFix (pqLessFn pq) ((pqBh pq)[0 := freshBlock (clk 1) b]) 0"
        "pqLessFn q = pqLessFn pq" "pqCapacity q = pqCapacity pq"
        using F unfolding if_P[OF True] by blast
      then show ?thesis using replaced[OF full(1) ne] assms(2) by simp
    next
      case False
      then have "Insert nh clk summary stakeInfo pq = Ret ((False, None, -1), pq)" using F by simp
      then show ?thesis using assms(2) unchanged by simp
    qed
  qed
qed

lemma Insert_OK [inv_intros]:
  assumes "queueOK pq" and "Insert nh clk summary stakeInfo pq = Ret (r, pq')"
  shows "queueOK pq'"
  using Insert_cases[OF assms] assms(1) by metis

lemma Insert_no_panic:
  assumes "queueOK pq" and "newCachedBlock summary stakeInfo = Some b"
  shows "Insert nh clk summary stakeInfo pq \<noteq> Panic"
proof (cases "pqCapacity pq = 0")
  case True
  then show ?thesis by (simp add: Insert_def)
next
  case False
  consider "int (length (pqBh pq)) < uint (pqCapacity pq)" | "int (length (pqBh pq)) = uint (pqCapacity pq)"
    using assms(1) by (fastforce simp: queueOK_def)
  then show ?thesis
    using Insert_room[OF assms(1) _ assms(2), of nh clk] Insert_full[OF assms(1) _ False assms(2), of clk nh]
    by cases (auto split: if_splits)
qed

subsection \<open>Reachable queues\<close>

text \<open>
  The states of a queue with comparator \<open>lt\<close>. \<open>ResetHeap\<close> does not look at the capacity: a slice that
  exceeds it is not a step here.
\<close>

inductive pqReach :: "('f, 'x) lessFn \<Rightarrow> ('f, 'x) BlockPriorityQueue \<Rightarrow> bool" for lt where
  New: "pqReach lt (SetLessFn lt (NewBlockPriorityQueue capacity))"
| Inserted: "pqReach lt pq \<Longrightarrow> Insert nh clk summary stakeInfo pq = Ret (r, pq') \<Longrightarrow> pqReach lt pq'"
| Removed: "pqReach lt pq \<Longrightarrow> pqReach lt (RemoveBlock b pq)"
| Reset: "pqReach lt pq \<Longrightarrow> int (length bh) \<le> uint (pqCapacity pq) \<Longrightarrow> pqReach lt (ResetHeap now bh pq)"
| Reheaped: "pqReach lt pq \<Longrightarrow> pqReach lt (Reheap pq)"
| Watched: "pqReach lt pq \<Longrightarrow> pqReach lt (WatchPriorityQueue now pq)"
| Noted: "pqReach lt pq \<Longrightarrow> pqReach lt (setNeedsReheap needReheap (setAccessTime t pq))"

context block_order
begin

lemma RemoveBlock_order:
  assumes "pqLessFn pq = lt" and "heapOrdered lt (pqBh pq)" and "queueOK pq"
  shows "pqLessFn (RemoveBlock b pq) = lt" and "heapOrdered lt (pqBh (RemoveBlock b pq))"
proof -
  have "pqLessFn (RemoveIndex i pq) = lt \<and> heapOrdered lt (pqBh (RemoveIndex i pq))" if "i < length (pqBh pq)" for i
    using RemoveIndex_facts(1)[OF assms(3) that] heapRemove_order[OF assms(2) that] assms(1) by simp
  then show "pqLessFn (RemoveBlock b pq) = lt" "heapOrdered lt (pqBh (RemoveBlock b pq))"
    using assms by (auto simp: RemoveBlock_def split: option.split)
qed

lemma reach_ordered:
  "pqReach lt pq \<Longrightarrow> queueOK pq \<and> pqLessFn pq = lt \<and> heapOrdered lt (pqBh pq)"
proof (induction rule: pqReach.induct)
  case (New capacity)
  then show ?case
    by (simp add: inv_intros) (simp add: SetLessFn_def NewBlockPriorityQueue_def heapOrdered_def)
next
  case (Inserted pq nh clk summary stakeInfo r pq')
  then have ok: "queueOK pq" and lf: "pqLessFn pq = lt" and ho: "heapOrdered lt (pqBh pq)" by simp_all
  show ?case
    using ok Inserted.hyps(2)
  proof (cases rule: Insert_cases)
    case unchanged
    then show ?thesis using ok lf ho by simp
  next
    case pushed
    then show ?thesis using lf ho by (simp add: heapPush_order)
  next
    case replaced
    then show ?thesis using lf ho by (simp add: heapFix_front_order)
  qed
next
  case (Removed pq b)
  then show ?case using RemoveBlock_order[of pq b] by (simp add: inv_intros)
next
  case (Reset pq bh now)
  then show ?case by (simp add: inv_intros) (simp add: ResetHeap_def Let_def heapInit_order)
next
  case (Reheaped pq)
  then show ?case by (simp add: inv_intros) (simp add: Reheap_def heapInit_order)
next
  case (Watched pq now)
  then show ?case by (simp add: inv_intros) (simp add: WatchPriorityQueue_def Reheap_def heapInit_order)
next
  case (Noted pq needReheap t)
  then show ?case by (simp add: inv_intros) (simp add: setNeedsReheap_def setAccessTime_def)
qed

end

text \<open>
  The default comparator is not an order: accesses that are less than the threshold apart are
  compared by their counts, so three blocks can form a cycle.
\<close>

lemma default_comparator_cycle:
  assumes "0 < m" and "cbAccessTime y = cbAccessTime x + d" and "cbAccessTime z = cbAccessTime y + d"
    and "d < m * 1000000" and "m * 1000000 \<le> 2 * d"
    and "cbAccesses z < cbAccesses y" and "cbAccesses y < cbAccesses x"
  shows "MakeLessByAccessTimeThenCount m y x" and "MakeLessByAccessTimeThenCount m z y"
    and "MakeLessByAccessTimeThenCount m x z"
proof -
  have d: "0 < d" using assms(1,5) by simp
  have near: "(- d) sdiv (m * 1000000) = 0" "d sdiv (m * 1000000) = 0"
    using d assms(1,4) by (auto simp: signed_divide_int_def sgn_mult div_pos_pos_trivial)
  have "1 \<le> (2 * d) div (m * 1000000)"
    using assms(1,5) by (simp add: pos_imp_zdiv_pos_iff int_one_le_iff_zero_less)
  then have far: "(- (2 * d)) sdiv (m * 1000000) \<noteq> 0"
    using d assms(1) by (auto simp: signed_divide_int_def sgn_mult)
  have eqs: "cbAccessTime y - cbAccessTime x = d" "cbAccessTime z - cbAccessTime y = d"
    "cbAccessTime x - cbAccessTime z = - (2 * d)"
    using assms(2,3) by simp_all
  show "MakeLessByAccessTimeThenCount m y x" "MakeLessByAccessTimeThenCount m z y"
    using near assms(6,7) by (simp_all add: MakeLessByAccessTimeThenCount_def Let_def eqs LessByAccessCount_def)
  show "MakeLessByAccessTimeThenCount m x z"
    using far assms(2,3) d by (simp add: MakeLessByAccessTimeThenCount_def Let_def eqs LessByAccessTime_def)
qed

subsection \<open>Properties\<close>

text \<open>The comparators of the source that are orders, all but the default one.\<close>

definition orderComparators :: "('f, 'x) lessFn set" where
  "orderComparators = {LessByHeight, LessByAccessCount, LessByAccessTime, LessByAccessCountThenHeight}"

lemma orderComparators_order: "lt \<in> orderComparators \<Longrightarrow> block_order lt"
  using byHeight.block_order_axioms byAccessCount.block_order_axioms byAccessTime.block_order_axioms
    byCountThenHeight.block_order_axioms
  by (auto simp: orderComparators_def)

text \<open>Example data: block summaries without fees.\<close>

definition exSummary :: "32 word \<Rightarrow> string \<Rightarrow> int BlockDataBasic" where
  "exSummary h s = \<lparr>bdHeight = h, bdSize = 1, bdHash = s, bdDifficulty = 0, bdStakeDiff = 0, bdTime = 0,
     bdNumTx = 1, bdMiningFee = None, bdTotalSent = None, bdPoolInfo = None\<rparr>"

definition exBlock :: "32 word \<Rightarrow> string \<Rightarrow> (int, unit) CachedBlock" where
  "exBlock h s = \<lparr>cbHeight = h, cbHash = s, cbSummary = Some (exSummary h s), cbStakeInfo = None,
     cbAccesses = 0, cbAccessTime = 0, cbHeapIdx = -1\<rparr>"

text \<open>C18: The queue is a heap. In every state that a queue with one of the comparators by height, access
  count or access time reaches by inserting, removing, resetting within its capacity and rebuilding,
  no block is below its parent, each block knows its position, the capacity is respected, and all
  heights lie within the recorded bounds, so that a rescan of the bounds never changes anything.\<close>

theorem queue_invariant:
  assumes "lt \<in> orderComparators" and "pqReach lt pq"
  shows "(\<forall>j. 0 < j \<and> j < length (pqBh pq) \<longrightarrow> \<not> lt (pqBh pq ! j) (pqBh pq ! ((j - 1) div 2))) \<and>
    (\<forall>i < length (pqBh pq). cbHeapIdx (pqBh pq ! i) = int i) \<and>
    int (length (pqBh pq)) \<le> uint (pqCapacity pq) \<and>
    (\<forall>b \<in> set (pqBh pq). pqMinHeight pq \<le> uint (cbHeight b) \<and> uint (cbHeight b) \<le> pqMaxHeight pq) \<and>
    RescanMinMax pq = pq"
  using block_order.reach_ordered[OF orderComparators_order[OF assms(1)] assms(2)] RescanMinMax_id[of pq]
  unfolding queueOK_def heapOrdered_def placed_def withinBounds_def by blast

definition exQueue :: "(int, unit) BlockPriorityQueue" where
  "exQueue = ResetHeap 5 [exBlock 7 ''b'', exBlock 3 ''a''] (SetLessFn LessByHeight (NewBlockPriorityQueue 2))"

lemma exQueue_reach: "pqReach LessByHeight exQueue"
  unfolding exQueue_def by (intro pqReach.Reset pqReach.New) (simp add: SetLessFn_def NewBlockPriorityQueue_def)

lemma exQueue_front: "map cbHash (pqBh exQueue) = [''a'', ''b'']" "pqLessFn exQueue = LessByHeight"
    "pqCapacity exQueue = 2"
  by (simp_all add: exQueue_def ResetHeap_def Let_def SetLessFn_def NewBlockPriorityQueue_def heapInit_def
      resetBlocks_def enumerate_eq_zip upt_rec heapDown.simps lesserChild_def exBlock_def LessByHeight_def
      pqSwap_def updateMinMax_def)

theorem queue_invariant_witness:
  "length (pqBh exQueue) = 2 \<and> cbHeapIdx (pqBh exQueue ! 1) = 1 \<and> \<not> LessByHeight (pqBh exQueue ! 1) (pqBh exQueue ! 0)"
proof -
  have l: "length (pqBh exQueue) = 2" using exQueue_front(1) by (metis length_map length_Cons list.size(3) numeral_2_eq_2)
  have "LessByHeight \<in> orderComparators" by (simp add: orderComparators_def)
  note Q = queue_invariant[OF this exQueue_reach]
  show ?thesis using Q l by (metis One_nat_def Suc_1 diff_self_eq_0 div_0 lessI of_nat_1 zero_less_one)
qed

text \<open>Inserting keeps the blocks of the highest priority. In a reachable queue with such a comparator, a
  block for which there is room is added. At capacity, the new block replaces the block in front,
  below which no other block of the queue is, if that one is below the new block; its hash and height
  are returned. Otherwise the queue is unchanged, and no block of it is below the new one.\<close>

theorem Insert_keeps_highest:
  assumes "lt \<in> orderComparators" and "pqReach lt pq" and "newCachedBlock summary stakeInfo = Some b"
    and "pqCapacity pq \<noteq> 0"
  shows "if int (length (pqBh pq)) < uint (pqCapacity pq)
    then \<exists>pq'. Insert nh clk summary stakeInfo pq = Ret ((True, None, -1), pq') \<and>
        contents (pqBh pq') = add_mset (freshBlock (clk 0) b) (contents (pqBh pq))
    else (\<forall>x \<in> set (pqBh pq). \<not> lt x (pqBh pq ! 0)) \<and>
      (if lt (pqBh pq ! 0) (freshBlock (clk 0) b)
       then \<exists>pq'. Insert nh clk summary stakeInfo pq =
            Ret ((True, nh (cbHash (pqBh pq ! 0)), uint (cbHeight (pqBh pq ! 0))), pq') \<and>
          contents (pqBh pq') =
            add_mset (freshBlock (clk 1) b) (contents (pqBh pq) - {#unplaced (pqBh pq ! 0)#})
       else (\<forall>x \<in> set (pqBh pq). \<not> lt x (freshBlock (clk 0) b)) \<and>
         Insert nh clk summary stakeInfo pq = Ret ((False, None, -1), pq))"
proof (cases "int (length (pqBh pq)) < uint (pqCapacity pq)")
  case True
  have "queueOK pq" using block_order.reach_ordered[OF orderComparators_order[OF assms(1)] assms(2)] by simp
  then show ?thesis using Insert_room[OF _ True assms(3), of nh clk] True by auto
next
  case False
  note O = block_order.reach_ordered[OF orderComparators_order[OF assms(1)] assms(2)]
  have full: "int (length (pqBh pq)) = uint (pqCapacity pq)" and lf: "pqLessFn pq = lt"
    using O False by (simp_all add: queueOK_def)
  have low: "\<forall>x \<in> set (pqBh pq). \<not> lt x (pqBh pq ! 0)"
    using block_order.heapOrdered_least[OF orderComparators_order[OF assms(1)]] O by (metis in_set_conv_nth)
  have rest: "\<forall>x \<in> set (pqBh pq). \<not> lt x (freshBlock (clk 0) b)" if "\<not> lt (pqBh pq ! 0) (freshBlock (clk 0) b)"
    using block_order.not_trans[OF orderComparators_order[OF assms(1)] that] low by blast
  note F = Insert_full[OF conjunct1[OF O] full assms(4,3), of clk nh, unfolded lf]
  show ?thesis
  proof (cases "lt (pqBh pq ! 0) (freshBlock (clk 0) b)")
    case True
    then show ?thesis using F low \<open>\<not> int (length (pqBh pq)) < uint (pqCapacity pq)\<close> by auto
  next
    case False': False
    then show ?thesis using F low rest \<open>\<not> int (length (pqBh pq)) < uint (pqCapacity pq)\<close> by auto
  qed
qed

theorem Insert_keeps_highest_witness:
  "(\<exists>pq'. Insert (\<lambda>_. None) (\<lambda>i. int i) (Some (exSummary 5 ''c'')) None exQueue = Ret ((True, None, 3), pq') \<and>
     contents (pqBh pq') = add_mset (freshBlock 1 (exBlock 5 ''c''))
       (contents (pqBh exQueue) - {#unplaced (pqBh exQueue ! 0)#})) \<and>
   Insert (\<lambda>_. None) (\<lambda>i. int i) (Some (exSummary 2 ''d'')) None exQueue = Ret ((False, None, -1), exQueue)"
proof -
  have lt: "(LessByHeight :: (int, unit) lessFn) \<in> orderComparators" by (simp add: orderComparators_def)
  have nb: "newCachedBlock (Some (exSummary h s)) (None :: (int, unit) StakeInfoExtended option) = Some (exBlock h s)" for h s
    by (simp add: newCachedBlock_def checkBlockHeightHash_def exSummary_def exBlock_def)
  have full: "int (length (pqBh exQueue)) = 2" and front: "cbHeight (pqBh exQueue ! 0) = 3"
    by (simp_all add: exQueue_def ResetHeap_def Let_def SetLessFn_def NewBlockPriorityQueue_def heapInit_def
      resetBlocks_def enumerate_eq_zip upt_rec heapDown.simps lesserChild_def exBlock_def LessByHeight_def
      pqSwap_def updateMinMax_def)
  note K = Insert_keeps_highest[OF lt exQueue_reach nb, where nh = "\<lambda>_. None" and clk = "\<lambda>i. int i"]
  have "LessByHeight (pqBh exQueue ! 0) (freshBlock 0 (exBlock 5 ''c''))"
    "\<not> LessByHeight (pqBh exQueue ! 0) (freshBlock 0 (exBlock 2 ''d''))"
    using front by (simp_all add: LessByHeight_def exBlock_def)
  then show ?thesis using K[of 5 "''c''"] K[of 2 "''d''"] full front exQueue_front(3) by simp
qed

end
