(* ===== verification/ApiCache.thy ===== *)
theory ApiCache
  imports BlockQueue
begin

text \<open>
  The block cache of the API (\<open>APICache\<close> of \<open>api/types/apicache.go\<close>): a map from block hashes to
  cached blocks, a map from main chain heights to hashes, and the priority queue that decides which
  block makes room for a new one. The map of blocks is an association list with distinct keys.

  The cache and its queue hold different \<open>CachedBlock\<close> objects for the same block: \<open>Insert\<close> makes its
  own. The queue never gives out its objects, so both sides are values. \<open>clk\<close> lists the readings of the
  clock that an operation makes, \<open>nh\<close> and \<open>hs\<close> parse and print hashes. The errors that the Store
  methods return are always nil and left out.
\<close>

subsection \<open>The cache\<close>

record ('f, 'x) APICache =
  apiIsEnabled :: "bool option"
  apiCapacity :: "32 word"
  apiBlockCache :: "(Hash \<times> ('f, 'x) CachedBlock) list"
  apiMainchainBlocks :: "int \<rightharpoonup> Hash"
  apiExpireQueue :: "('f, 'x) BlockPriorityQueue"
  apiHits :: uint64
  apiMisses :: uint64

definition NewAPICache :: "32 word \<Rightarrow> ('f, 'x) APICache" where
  "NewAPICache capacity =
     \<lparr>apiIsEnabled = None, apiCapacity = capacity, apiBlockCache = [], apiMainchainBlocks = (\<lambda>_. None),
      apiExpireQueue = NewBlockPriorityQueue capacity, apiHits = 0, apiMisses = 0\<rparr>"

definition apiSetLessFn :: "('f, 'x) lessFn \<Rightarrow> ('f, 'x) APICache \<Rightarrow> ('f, 'x) APICache" where
  "apiSetLessFn lessFn apic = apic\<lparr>apiExpireQueue := SetLessFn lessFn (apiExpireQueue apic)\<rparr>"

definition UtilizationBlocks :: "('f, 'x) APICache \<Rightarrow> int" where
  "UtilizationBlocks apic = int (length (apiBlockCache apic))"

definition Utilization :: "(int \<Rightarrow> 'g) \<Rightarrow> ('f, 'x) APICache \<Rightarrow> 'g::{times, inverse}" where
  "Utilization ofInt apic =
     ofInt 100 * ofInt (int (length (apiBlockCache apic))) / ofInt (uint (apiCapacity apic))"

definition Enable :: "('f, 'x) APICache \<Rightarrow> ('f, 'x) APICache" where
  "Enable apic = apic\<lparr>apiIsEnabled := Some True\<rparr>"

definition Disable :: "('f, 'x) APICache \<Rightarrow> ('f, 'x) APICache" where
  "Disable apic = apic\<lparr>apiIsEnabled := Some False\<rparr>"

definition IsEnabled :: "('f, 'x) APICache \<Rightarrow> bool" where
  "IsEnabled apic = (case apiIsEnabled apic of None \<Rightarrow> False | Some enabled \<Rightarrow> enabled)"

subsection \<open>Storing\<close>

text \<open>The part that both Store methods share: insert into the queue, drop what it removed, add the block.\<close>

definition insertCachedBlock ::
    "(string \<Rightarrow> Hash option) \<Rightarrow> (nat \<Rightarrow> int) \<Rightarrow> Hash \<Rightarrow> 32 word \<Rightarrow> ('f, 'x) CachedBlock
     \<Rightarrow> 'f BlockDataBasic option \<Rightarrow> ('f, 'x) StakeInfoExtended option \<Rightarrow> ('f, 'x) APICache
     \<Rightarrow> ('f, 'x) APICache go" where
  "insertCachedBlock nh clk hash height cachedBlock summary stakeInfo apic =
     (case Insert nh clk summary stakeInfo (apiExpireQueue apic) of
        Panic \<Rightarrow> Panic
      | Ret ((wasAdded, removedBlock, removedHeight), pq) \<Rightarrow>
          let apic1 = apic\<lparr>apiExpireQueue := pq\<rparr>;
              apic2 = (case removedBlock of
                  None \<Rightarrow> apic1
                | Some h \<Rightarrow> apic1\<lparr>apiBlockCache := AList.delete h (apiBlockCache apic1),
                    apiMainchainBlocks := (apiMainchainBlocks apic1)(removedHeight := None)\<rparr>)
          in Ret (if wasAdded
                  then apic2\<lparr>apiBlockCache := AList.update hash cachedBlock (apiBlockCache apic2),
                    apiMainchainBlocks := (apiMainchainBlocks apic2)(uint height \<mapsto> hash)\<rparr>
                  else apic2))"

definition StoreBlockSummary ::
    "(string \<Rightarrow> Hash option) \<Rightarrow> (nat \<Rightarrow> int) \<Rightarrow> 'f BlockDataBasic \<Rightarrow> ('f, 'x) APICache \<Rightarrow> ('f, 'x) APICache go" where
  "StoreBlockSummary nh clk blockSummary apic =
     (if \<not> IsEnabled apic then Ret apic
      else case nh (bdHash blockSummary) of
        None \<Rightarrow> Panic
      | Some hash \<Rightarrow>
          (case map_of (apiBlockCache apic) hash of
             Some b \<Rightarrow>
               if cbSummary b \<noteq> None then Ret apic
               else Ret (apic\<lparr>apiBlockCache :=
                 AList.update hash (b\<lparr>cbSummary := Some blockSummary\<rparr>) (apiBlockCache apic)\<rparr>)
           | None \<Rightarrow>
               (case newCachedBlock (Some blockSummary) None of
                  None \<Rightarrow> Panic
                | Some b \<Rightarrow>
                    insertCachedBlock nh (\<lambda>i. clk (Suc i)) hash (bdHeight blockSummary) (Access (clk 0) b)
                      (Some blockSummary) None apic)))"

definition StoreStakeInfo ::
    "(string \<Rightarrow> Hash option) \<Rightarrow> (nat \<Rightarrow> int) \<Rightarrow> ('f, 'x) StakeInfoExtended \<Rightarrow> ('f, 'x) APICache
     \<Rightarrow> ('f, 'x) APICache go" where
  "StoreStakeInfo nh clk stakeInfo apic =
     (if \<not> IsEnabled apic then Ret apic
      else case nh (siHash stakeInfo) of
        None \<Rightarrow> Panic
      | Some hash \<Rightarrow>
          (case map_of (apiBlockCache apic) hash of
             Some b \<Rightarrow>
               if cbStakeInfo b = None
               then Ret (apic\<lparr>apiBlockCache :=
                 AList.update hash (b\<lparr>cbStakeInfo := Some stakeInfo\<rparr>) (apiBlockCache apic)\<rparr>)
               else Ret apic
           | None \<Rightarrow>
               (case newCachedBlock None (Some stakeInfo) of
                  None \<Rightarrow> Panic
                | Some b \<Rightarrow>
                    insertCachedBlock nh (\<lambda>i. clk (Suc i)) hash (fiHeight (siFeeinfo stakeInfo))
                      (Access (clk 0) b) None (Some stakeInfo) apic)))"

subsection \<open>Reading\<close>

definition getCachedBlockByHash ::
    "(nat \<Rightarrow> int) \<Rightarrow> Hash \<Rightarrow> ('f, 'x) APICache \<Rightarrow> ('f, 'x) CachedBlock option \<times> ('f, 'x) APICache" where
  "getCachedBlockByHash clk hash apic =
     (case map_of (apiBlockCache apic) hash of
        Some b \<Rightarrow>
          let cachedBlock = Access (clk 0) b in
          (Some cachedBlock,
           apic\<lparr>apiBlockCache := AList.update hash cachedBlock (apiBlockCache apic),
             apiExpireQueue := setAccessTime (clk 1) (setNeedsReheap True (apiExpireQueue apic)),
             apiHits := apiHits apic + 1\<rparr>)
      | None \<Rightarrow> (None, apic\<lparr>apiMisses := apiMisses apic + 1\<rparr>))"

definition GetCachedBlockByHeight ::
    "(nat \<Rightarrow> int) \<Rightarrow> int \<Rightarrow> ('f, 'x) APICache \<Rightarrow> ('f, 'x) CachedBlock option \<times> ('f, 'x) APICache" where
  "GetCachedBlockByHeight clk height apic =
     (case apiMainchainBlocks apic height of
        None \<Rightarrow> (None, apic)
      | Some hash \<Rightarrow> getCachedBlockByHash clk hash apic)"

definition GetCachedBlockByHashStr ::
    "(string \<Rightarrow> Hash option) \<Rightarrow> (nat \<Rightarrow> int) \<Rightarrow> string \<Rightarrow> ('f, 'x) APICache
     \<Rightarrow> ('f, 'x) CachedBlock option \<times> ('f, 'x) APICache" where
  "GetCachedBlockByHashStr nh clk hashStr apic =
     (case nh hashStr of
        None \<Rightarrow> (None, apic)
      | Some hash \<Rightarrow> getCachedBlockByHash clk hash apic)"

definition GetCachedBlockByHash ::
    "(string \<Rightarrow> Hash option) \<Rightarrow> (Hash \<Rightarrow> string) \<Rightarrow> (nat \<Rightarrow> int) \<Rightarrow> Hash \<Rightarrow> ('f, 'x) APICache
     \<Rightarrow> ('f, 'x) CachedBlock option \<times> ('f, 'x) APICache" where
  "GetCachedBlockByHash nh hs clk hash apic =
     (case nh (hs hash) of
        None \<Rightarrow> (None, apic)
      | Some _ \<Rightarrow> getCachedBlockByHash clk hash apic)"

definition blockHash :: "int \<Rightarrow> ('f, 'x) APICache \<Rightarrow> Hash option" where
  "blockHash height apic = apiMainchainBlocks apic height"

definition GetBlockHash :: "(Hash \<Rightarrow> string) \<Rightarrow> int \<Rightarrow> ('f, 'x) APICache \<Rightarrow> string" where
  "GetBlockHash hs height apic =
     (if \<not> IsEnabled apic then []
      else case blockHash height apic of None \<Rightarrow> [] | Some hash \<Rightarrow> hs hash)"

definition GetBlockSize :: "(nat \<Rightarrow> int) \<Rightarrow> int \<Rightarrow> ('f, 'x) APICache \<Rightarrow> int \<times> ('f, 'x) APICache" where
  "GetBlockSize clk height apic =
     (if \<not> IsEnabled apic then (-1, apic)
      else case GetCachedBlockByHeight clk height apic of
        (Some b, apic1) \<Rightarrow>
          (case cbSummary b of None \<Rightarrow> (-1, apic1) | Some s \<Rightarrow> (sint (bdSize s), apic1))
      | (None, apic1) \<Rightarrow> (-1, apic1))"

definition GetBlockSummary ::
    "(nat \<Rightarrow> int) \<Rightarrow> int \<Rightarrow> ('f, 'x) APICache \<Rightarrow> 'f BlockDataBasic option \<times> ('f, 'x) APICache" where
  "GetBlockSummary clk height apic =
     (if \<not> IsEnabled apic then (None, apic)
      else case GetCachedBlockByHeight clk height apic of
        (Some b, apic1) \<Rightarrow> (cbSummary b, apic1)
      | (None, apic1) \<Rightarrow> (None, apic1))"

definition GetStakeInfo ::
    "(nat \<Rightarrow> int) \<Rightarrow> int \<Rightarrow> ('f, 'x) APICache \<Rightarrow> ('f, 'x) StakeInfoExtended option \<times> ('f, 'x) APICache" where
  "GetStakeInfo clk height apic =
     (if \<not> IsEnabled apic then (None, apic)
      else case GetCachedBlockByHeight clk height apic of
        (Some b, apic1) \<Rightarrow> (cbStakeInfo b, apic1)
      | (None, apic1) \<Rightarrow> (None, apic1))"

definition GetStakeInfoByHash ::
    "(string \<Rightarrow> Hash option) \<Rightarrow> (nat \<Rightarrow> int) \<Rightarrow> string \<Rightarrow> ('f, 'x) APICache
     \<Rightarrow> ('f, 'x) StakeInfoExtended option \<times> ('f, 'x) APICache" where
  "GetStakeInfoByHash nh clk hash apic =
     (if \<not> IsEnabled apic then (None, apic)
      else case GetCachedBlockByHashStr nh clk hash apic of
        (Some b, apic1) \<Rightarrow> (cbStakeInfo b, apic1)
      | (None, apic1) \<Rightarrow> (None, apic1))"

definition GetBlockSummaryByHash ::
    "(string \<Rightarrow> Hash option) \<Rightarrow> (nat \<Rightarrow> int) \<Rightarrow> string \<Rightarrow> ('f, 'x) APICache
     \<Rightarrow> 'f BlockDataBasic option \<times> ('f, 'x) APICache" where
  "GetBlockSummaryByHash nh clk hash apic =
     (if \<not> IsEnabled apic then (None, apic)
      else case GetCachedBlockByHashStr nh clk hash apic of
        (Some b, apic1) \<Rightarrow> (cbSummary b, apic1)
      | (None, apic1) \<Rightarrow> (None, apic1))"

subsection \<open>Removing\<close>

text \<open>Where the hash does not parse, the nil hash that came with the error is dereferenced.\<close>

definition removeCachedBlock ::
    "(string \<Rightarrow> Hash option) \<Rightarrow> ('f, 'x) CachedBlock option \<Rightarrow> ('f, 'x) APICache \<Rightarrow> ('f, 'x) APICache go" where
  "removeCachedBlock nh cachedBlock apic =
     (case cachedBlock of
        None \<Rightarrow> Ret apic
      | Some b \<Rightarrow>
          let apic1 = apic\<lparr>apiExpireQueue := RemoveBlock (Some b) (apiExpireQueue apic)\<rparr> in
          (case nh (cbHash b) of
             None \<Rightarrow> Panic
           | Some _ \<Rightarrow>
               Ret (apic1\<lparr>apiMainchainBlocks := (apiMainchainBlocks apic1)(uint (cbHeight b) := None)\<rparr>)))"

definition RemoveCachedBlockByHeight ::
    "(string \<Rightarrow> Hash option) \<Rightarrow> (nat \<Rightarrow> int) \<Rightarrow> int \<Rightarrow> ('f, 'x) APICache \<Rightarrow> ('f, 'x) APICache go" where
  "RemoveCachedBlockByHeight nh clk height apic =
     (case apiMainchainBlocks apic height of
        None \<Rightarrow> Ret apic
      | Some hash \<Rightarrow> (let (cb, apic1) = getCachedBlockByHash clk hash apic in removeCachedBlock nh cb apic1))"

text \<open>A tick of the goroutine that watches the queue.\<close>

definition watchTick :: "int \<Rightarrow> ('f, 'x) APICache \<Rightarrow> ('f, 'x) APICache" where
  "watchTick now apic = apic\<lparr>apiExpireQueue := WatchPriorityQueue now (apiExpireQueue apic)\<rparr>"

subsection \<open>The invariant\<close>

text \<open>
  The queue and the map hold the same blocks: the hashes and heights agree, with multiplicity. The
  blocks of the map are never in the heap, so their heap index is that of a new block.
\<close>

definition queueKey :: "(string \<Rightarrow> Hash option) \<Rightarrow> ('f, 'x) CachedBlock \<Rightarrow> Hash option \<times> 32 word" where
  "queueKey nh b = (nh (cbHash b), cbHeight b)"

definition mapKey :: "Hash \<times> ('f, 'x) CachedBlock \<Rightarrow> Hash option \<times> 32 word" where
  "mapKey p = (Some (fst p), cbHeight (snd p))"

definition entryOK :: "(string \<Rightarrow> Hash option) \<Rightarrow> Hash \<Rightarrow> ('f, 'x) CachedBlock \<Rightarrow> bool" where
  "entryOK nh h b \<longleftrightarrow> nh (cbHash b) = Some h \<and> cbHeapIdx b = -1 \<and>
     (case cbSummary b of None \<Rightarrow> True | Some s \<Rightarrow> nh (bdHash s) = Some h) \<and>
     (case cbStakeInfo b of None \<Rightarrow> True | Some si \<Rightarrow> nh (siHash si) = Some h) \<and>
     (cbSummary b \<noteq> None \<or> cbStakeInfo b \<noteq> None)"

definition apiOK :: "(string \<Rightarrow> Hash option) \<Rightarrow> ('f, 'x) APICache \<Rightarrow> bool" where
  "apiOK nh apic \<longleftrightarrow>
     distinct (map fst (apiBlockCache apic)) \<and>
     queueOK (apiExpireQueue apic) \<and> pqCapacity (apiExpireQueue apic) = apiCapacity apic \<and>
     image_mset (queueKey nh) (contents (pqBh (apiExpireQueue apic))) = mset (map mapKey (apiBlockCache apic)) \<and>
     (\<forall>(h, b) \<in> set (apiBlockCache apic). entryOK nh h b) \<and>
     (\<forall>height h. apiMainchainBlocks apic height = Some h \<longrightarrow>
        (\<exists>b. map_of (apiBlockCache apic) h = Some b \<and> uint (cbHeight b) = height)) \<and>
     (\<forall>b \<in># contents (pqBh (apiExpireQueue apic)). cbAccesses b = 1)"

lemma mapKey_update:
  "map_of xs h = Some b \<Longrightarrow> cbHeight b' = cbHeight b \<Longrightarrow>
   map mapKey (AList.update h b' xs) = map mapKey xs"
  by (induction xs) (auto simp: mapKey_def split: if_splits)

lemma mapKey_delete:
  "distinct (map fst xs) \<Longrightarrow> map_of xs h = Some b \<Longrightarrow>
   mset (map mapKey (AList.delete h xs)) = mset (map mapKey xs) - {#mapKey (h, b)#}"
proof (induction xs)
  case Nil
  then show ?case by simp
next
  case (Cons p xs)
  show ?case
  proof (cases "fst p = h")
    case True
    then have "h \<notin> fst ` set xs" using Cons.prems(1) by auto
    then have "AList.delete h xs = xs" by (simp add: delete_id)
    then show ?thesis using True Cons.prems(2) by (cases p) simp
  next
    case False
    have m: "map_of xs h = Some b" using False Cons.prems(2) by (cases p) simp
    then have "mapKey (h, b) \<in># mset (map mapKey xs)" by (force dest: map_of_SomeD)
    then show ?thesis using False Cons m by (cases p) simp
  qed
qed

text \<open>
  The parts of the invariant that each group of operations touches.
\<close>

lemma apiOK_D:
  assumes "apiOK nh apic"
  shows "distinct (map fst (apiBlockCache apic))" and "queueOK (apiExpireQueue apic)"
    and "pqCapacity (apiExpireQueue apic) = apiCapacity apic"
    and "image_mset (queueKey nh) (contents (pqBh (apiExpireQueue apic))) = mset (map mapKey (apiBlockCache apic))"
    and "map_of (apiBlockCache apic) h = Some b \<Longrightarrow> entryOK nh h b"
    and "apiMainchainBlocks apic height = Some h \<Longrightarrow>
       \<exists>b. map_of (apiBlockCache apic) h = Some b \<and> uint (cbHeight b) = height"
    and "x \<in># contents (pqBh (apiExpireQueue apic)) \<Longrightarrow> cbAccesses x = 1"
  using assms by (auto simp: apiOK_def dest: map_of_SomeD)

lemma apiOK_I:
  assumes "distinct (map fst (apiBlockCache apic))" and "queueOK (apiExpireQueue apic)"
    and "pqCapacity (apiExpireQueue apic) = apiCapacity apic"
    and "image_mset (queueKey nh) (contents (pqBh (apiExpireQueue apic))) = mset (map mapKey (apiBlockCache apic))"
    and "\<And>h b. map_of (apiBlockCache apic) h = Some b \<Longrightarrow> entryOK nh h b"
    and "\<And>height h. apiMainchainBlocks apic height = Some h \<Longrightarrow>
       \<exists>b. map_of (apiBlockCache apic) h = Some b \<and> uint (cbHeight b) = height"
    and "\<And>x. x \<in># contents (pqBh (apiExpireQueue apic)) \<Longrightarrow> cbAccesses x = 1"
  shows "apiOK nh apic"
  unfolding apiOK_def using assms by auto

text \<open>Replacing a cached block by one with the same hash and height.\<close>

lemma replace_OK:
  assumes "apiOK nh apic" and "map_of (apiBlockCache apic) h = Some b" and "cbHeight b' = cbHeight b"
    and "entryOK nh h b'" and "queueOK pq" and "pqBh pq = pqBh (apiExpireQueue apic)"
    and "pqCapacity pq = pqCapacity (apiExpireQueue apic)"
  shows "apiOK nh (apic\<lparr>apiBlockCache := AList.update h b' (apiBlockCache apic), apiExpireQueue := pq\<rparr>)"
proof (rule apiOK_I)
  note D = apiOK_D[OF assms(1)]
  fix height k
  assume "apiMainchainBlocks (apic\<lparr>apiBlockCache := AList.update h b' (apiBlockCache apic), apiExpireQueue := pq\<rparr>) height = Some k"
  then obtain c where "map_of (apiBlockCache apic) k = Some c" "uint (cbHeight c) = height"
    using D(6) by fastforce
  then show "\<exists>c. map_of (apiBlockCache (apic\<lparr>apiBlockCache := AList.update h b' (apiBlockCache apic), apiExpireQueue := pq\<rparr>)) k = Some c \<and>
      uint (cbHeight c) = height"
    using assms(2,3) by (auto simp: update_conv')
next
  note D = apiOK_D[OF assms(1)]
  show "image_mset (queueKey nh)
      (contents (pqBh (apiExpireQueue (apic\<lparr>apiBlockCache := AList.update h b' (apiBlockCache apic), apiExpireQueue := pq\<rparr>)))) =
    mset (map mapKey (apiBlockCache (apic\<lparr>apiBlockCache := AList.update h b' (apiBlockCache apic), apiExpireQueue := pq\<rparr>)))"
    using D(4) assms(6) mapKey_update[OF assms(2,3)] by simp
qed (use assms apiOK_D[OF assms(1)] in \<open>auto simp: update_conv' distinct_update split: if_splits\<close>)

text \<open>Operations that touch neither the blocks nor the queue's blocks.\<close>

lemma outside_OK:
  assumes "apiOK nh apic" and "apiBlockCache apic' = apiBlockCache apic"
    and "apiMainchainBlocks apic' \<subseteq>\<^sub>m apiMainchainBlocks apic" and "apiCapacity apic' = apiCapacity apic"
    and "queueOK (apiExpireQueue apic')" and "pqCapacity (apiExpireQueue apic') = pqCapacity (apiExpireQueue apic)"
    and "contents (pqBh (apiExpireQueue apic')) = contents (pqBh (apiExpireQueue apic))"
  shows "apiOK nh apic'"
proof (rule apiOK_I)
  fix height h assume "apiMainchainBlocks apic' height = Some h"
  then have "apiMainchainBlocks apic height = Some h" using assms(3) by (auto simp: map_le_def dom_def)
  then show "\<exists>b. map_of (apiBlockCache apic') h = Some b \<and> uint (cbHeight b) = height"
    using apiOK_D(6)[OF assms(1)] assms(2) by simp
qed (use assms apiOK_D[OF assms(1)] in simp_all)

lemma queueKey_unplaced [simp]: "queueKey nh (unplaced b) = queueKey nh b"
  by (simp add: queueKey_def)

lemma queueKey_fresh [simp]: "queueKey nh (freshBlock now b) = queueKey nh b"
  by (simp add: queueKey_def)

lemma front_cached:
  assumes "apiOK nh apic" and "pqBh (apiExpireQueue apic) \<noteq> []"
  obtains h b where "nh (cbHash (pqBh (apiExpireQueue apic) ! 0)) = Some h"
    and "map_of (apiBlockCache apic) h = Some b" and "cbHeight b = cbHeight (pqBh (apiExpireQueue apic) ! 0)"
proof -
  let ?x = "pqBh (apiExpireQueue apic) ! 0"
  have "unplaced ?x \<in># contents (pqBh (apiExpireQueue apic))" using assms(2) by (simp add: set_contents)
  then have "queueKey nh (unplaced ?x) \<in># image_mset (queueKey nh) (contents (pqBh (apiExpireQueue apic)))"
    by (simp del: queueKey_unplaced)
  then obtain h b where hb: "(h, b) \<in> set (apiBlockCache apic)" "queueKey nh ?x = mapKey (h, b)"
    unfolding apiOK_D(4)[OF assms(1)] by auto
  then have "map_of (apiBlockCache apic) h = Some b" using apiOK_D(1)[OF assms(1)] by simp
  then show thesis using hb(2) that by (auto simp: queueKey_def mapKey_def)
qed

text \<open>Whether the queue takes a new block.\<close>

definition takesBlock :: "(nat \<Rightarrow> int) \<Rightarrow> ('f, 'x) CachedBlock \<Rightarrow> ('f, 'x) BlockPriorityQueue \<Rightarrow> bool" where
  "takesBlock clk b pq \<longleftrightarrow> pqCapacity pq \<noteq> 0 \<and>
     (int (length (pqBh pq)) < uint (pqCapacity pq) \<or> pqLessFn pq (pqBh pq ! 0) (freshBlock (clk 0) b))"

lemma insertCachedBlock_OK:
  assumes "apiOK nh apic" and "newCachedBlock summary stakeInfo = Some b"
    and "map_of (apiBlockCache apic) hash = None" and "entryOK nh hash (Access now b)"
  shows "\<exists>apic'. insertCachedBlock nh clk hash (cbHeight b) (Access now b) summary stakeInfo apic = Ret apic' \<and>
    apiOK nh apic' \<and> apiIsEnabled apic' = apiIsEnabled apic \<and>
    (if takesBlock clk b (apiExpireQueue apic)
     then map_of (apiBlockCache apic') hash = Some (Access now b) \<and>
       apiMainchainBlocks apic' (uint (cbHeight b)) = Some hash
     else apic' = apic)"
proof -
  let ?q = "apiExpireQueue apic"
  let ?c = "Access now b"
  note D = apiOK_D[OF assms(1)]
  have key: "queueKey nh b = mapKey (hash, ?c)"
    using assms(4) by (simp add: queueKey_def mapKey_def entryOK_def Access_def)
  have acc: "cbAccesses (freshBlock t b) = 1" for t
    using newCachedBlock_Some(2)[OF assms(2)] by (simp add: freshBlock_def Access_def) (metis CachedBlock.select_convs(5))
  consider (none) "pqCapacity ?q = 0" | (room) "int (length (pqBh ?q)) < uint (pqCapacity ?q)"
    | (full) "pqCapacity ?q \<noteq> 0" "int (length (pqBh ?q)) = uint (pqCapacity ?q)"
    using D(2) by (fastforce simp: queueOK_def)
  then show ?thesis
  proof cases
    case none
    then show ?thesis using assms(1) by (simp add: insertCachedBlock_def Insert_def takesBlock_def)
  next
    case room
    obtain q where I: "Insert nh clk summary stakeInfo ?q = Ret ((True, None, -1), q)" and q: "queueOK q"
      "contents (pqBh q) = add_mset (freshBlock (clk 0) b) (contents (pqBh ?q))" "pqCapacity q = pqCapacity ?q"
      using Insert_room[OF D(2) room assms(2), of nh clk] by blast
    let ?a = "apic\<lparr>apiExpireQueue := q, apiBlockCache := AList.update hash ?c (apiBlockCache apic),
      apiMainchainBlocks := (apiMainchainBlocks apic)(uint (cbHeight b) \<mapsto> hash)\<rparr>"
    have R: "insertCachedBlock nh clk hash (cbHeight b) ?c summary stakeInfo apic = Ret ?a"
      by (simp add: insertCachedBlock_def I)
    have "apiOK nh ?a"
    proof (rule apiOK_I)
      show "image_mset (queueKey nh) (contents (pqBh (apiExpireQueue ?a))) = mset (map mapKey (apiBlockCache ?a))"
        using D(4) key q(2) assms(3) by (simp add: update_new)
      fix height h assume m: "apiMainchainBlocks ?a height = Some h"
      show "\<exists>x. map_of (apiBlockCache ?a) h = Some x \<and> uint (cbHeight x) = height"
      proof (cases "height = uint (cbHeight b)")
        case True
        then show ?thesis using m by (simp add: update_conv' Access_def)
      next
        case False
        then obtain x where "map_of (apiBlockCache apic) h = Some x" "uint (cbHeight x) = height"
          using m D(6) by fastforce
        then show ?thesis using assms(3) by (auto simp: update_conv')
      qed
    qed (use q D assms(3,4) acc in \<open>auto simp: update_conv' distinct_update split: if_splits\<close>)
    moreover have "takesBlock clk b ?q" using room by (auto simp: takesBlock_def)
    ultimately show ?thesis using R by (auto simp: update_conv')
  next
    case full
    then have ne: "pqBh ?q \<noteq> []" by (auto simp: uint_0_iff)
    note F = Insert_full[OF D(2) full(2,1) assms(2), of clk nh]
    show ?thesis
    proof (cases "pqLessFn ?q (pqBh ?q ! 0) (freshBlock (clk 0) b)")
      case False
      then have "Insert nh clk summary stakeInfo ?q = Ret ((False, None, -1), ?q)" using F by simp
      then show ?thesis using False assms(1) full by (simp add: insertCachedBlock_def takesBlock_def)
    next
      case True
      obtain k x where k: "nh (cbHash (pqBh ?q ! 0)) = Some k" "map_of (apiBlockCache apic) k = Some x"
        "cbHeight x = cbHeight (pqBh ?q ! 0)"
        using front_cached[OF assms(1) ne] .
      obtain q where I: "Insert nh clk summary stakeInfo ?q =
          Ret ((True, nh (cbHash (pqBh ?q ! 0)), uint (cbHeight (pqBh ?q ! 0))), q)" and q: "queueOK q"
        "contents (pqBh q) = add_mset (freshBlock (clk 1) b) (contents (pqBh ?q) - {#unplaced (pqBh ?q ! 0)#})"
        "pqCapacity q = pqCapacity ?q"
        using F unfolding if_P[OF True] by blast
      let ?bl = "AList.delete k (apiBlockCache apic)"
      let ?m = "(apiMainchainBlocks apic)(uint (cbHeight x) := None)"
      let ?a = "apic\<lparr>apiExpireQueue := q, apiBlockCache := AList.update hash ?c ?bl,
        apiMainchainBlocks := ?m(uint (cbHeight b) \<mapsto> hash)\<rparr>"
      have R: "insertCachedBlock nh clk hash (cbHeight b) ?c summary stakeInfo apic = Ret ?a"
        by (simp add: insertCachedBlock_def I k)
      have kh: "k \<noteq> hash" using k(2) assms(3) by auto
      have new: "map_of ?bl hash = None" using assms(3) by (simp add: delete_conv')
      have sub: "unplaced (pqBh ?q ! 0) \<in># contents (pqBh ?q)" using ne by (simp add: set_contents)
      have "apiOK nh ?a"
      proof (rule apiOK_I)
        have "image_mset (queueKey nh) (contents (pqBh ?q) - {#unplaced (pqBh ?q ! 0)#}) =
            mset (map mapKey (apiBlockCache apic)) - {#queueKey nh (pqBh ?q ! 0)#}"
          using sub D(4) by (simp add: image_mset_Diff)
        also have "\<dots> = mset (map mapKey ?bl)"
          using mapKey_delete[OF D(1) k(2)] k by (simp add: queueKey_def mapKey_def)
        finally show "image_mset (queueKey nh) (contents (pqBh (apiExpireQueue ?a))) = mset (map mapKey (apiBlockCache ?a))"
          using key q(2) update_new[OF new] by simp
        fix height h assume m: "apiMainchainBlocks ?a height = Some h"
        show "\<exists>y. map_of (apiBlockCache ?a) h = Some y \<and> uint (cbHeight y) = height"
        proof (cases "height = uint (cbHeight b)")
          case True
          then show ?thesis using m by (simp add: update_conv' Access_def)
        next
          case False
          then have m': "apiMainchainBlocks apic height = Some h" "height \<noteq> uint (cbHeight x)"
            using m by (auto split: if_splits)
          then obtain y where y: "map_of (apiBlockCache apic) h = Some y" "uint (cbHeight y) = height"
            using D(6) by blast
          then have "h \<noteq> k" using k(2) m'(2) by auto
          then show ?thesis using y assms(3) by (auto simp: update_conv' delete_conv')
        qed
      qed (use q D assms(3,4) acc in \<open>auto simp: update_conv' delete_conv' distinct_update distinct_delete
          split: if_splits dest: in_diffD\<close>)
      moreover have "takesBlock clk b ?q" using full True by (simp add: takesBlock_def)
      ultimately show ?thesis using R by (auto simp: update_conv')
    qed
  qed
qed

subsection \<open>Every operation keeps the invariant\<close>

lemma Access_sel [simp]:
  "cbHeight (Access now b) = cbHeight b" "cbHash (Access now b) = cbHash b"
  "cbSummary (Access now b) = cbSummary b" "cbStakeInfo (Access now b) = cbStakeInfo b"
  "cbHeapIdx (Access now b) = cbHeapIdx b"
  by (simp_all add: Access_def)

lemma entryOK_Access [simp]: "entryOK nh h (Access now b) \<longleftrightarrow> entryOK nh h b"
  by (simp add: entryOK_def)

lemma newCachedBlock_summary: "\<exists>b. newCachedBlock (Some s) None = Some b \<and> cbHeight b = bdHeight s \<and>
    cbSummary b = Some s \<and> (nh (bdHash s) = Some h \<longrightarrow> entryOK nh h b)"
  by (simp add: newCachedBlock_def checkBlockHeightHash_def entryOK_def)

lemma newCachedBlock_stake: "\<exists>b. newCachedBlock None (Some si) = Some b \<and>
    cbHeight b = fiHeight (siFeeinfo si) \<and> cbStakeInfo b = Some si \<and> (nh (siHash si) = Some h \<longrightarrow> entryOK nh h b)"
  by (simp add: newCachedBlock_def checkBlockHeightHash_def entryOK_def)

lemma addPart_OK:
  assumes "apiOK nh apic" and "map_of (apiBlockCache apic) h = Some b" and "cbHeight b' = cbHeight b"
    and "entryOK nh h b'"
  shows "apiOK nh (apic\<lparr>apiBlockCache := AList.update h b' (apiBlockCache apic)\<rparr>)"
  using replace_OK[OF assms apiOK_D(2)[OF assms(1)] refl refl] by simp

lemma StoreBlockSummary_OK [inv_intros]:
  fixes apic :: "('f, 'x) APICache"
  assumes "apiOK nh apic" and "StoreBlockSummary nh clk s apic = Ret apic'"
  shows "apiOK nh apic'"
proof -
  consider (off) "\<not> IsEnabled apic" | (on) h where "IsEnabled apic" "nh (bdHash s) = Some h"
    using assms(2) by (auto simp: StoreBlockSummary_def split: if_splits option.splits)
  then show ?thesis
  proof cases
    case off
    then show ?thesis using assms by (simp add: StoreBlockSummary_def)
  next
    case on
    show ?thesis
    proof (cases "map_of (apiBlockCache apic) h")
      case None
      obtain b :: "('f, 'x) CachedBlock" where b: "newCachedBlock (Some s) None = Some b" "cbHeight b = bdHeight s" "entryOK nh h b"
        using newCachedBlock_summary[of s nh h] on(2) by blast
      then show ?thesis
        using insertCachedBlock_OK[OF assms(1) b(1) None, of "clk 0" "\<lambda>i. clk (Suc i)"] None assms(2) on
        by (auto simp: StoreBlockSummary_def)
    next
      case (Some b)
      then have "entryOK nh h (b\<lparr>cbSummary := Some s\<rparr>)"
        using apiOK_D(5)[OF assms(1) Some] on(2) by (simp add: entryOK_def)
      then show ?thesis
        using addPart_OK[OF assms(1) Some, of "b\<lparr>cbSummary := Some s\<rparr>"] assms on Some
        by (auto simp: StoreBlockSummary_def split: if_splits)
    qed
  qed
qed

lemma StoreStakeInfo_OK [inv_intros]:
  fixes apic :: "('f, 'x) APICache"
  assumes "apiOK nh apic" and "StoreStakeInfo nh clk si apic = Ret apic'"
  shows "apiOK nh apic'"
proof -
  consider (off) "\<not> IsEnabled apic" | (on) h where "IsEnabled apic" "nh (siHash si) = Some h"
    using assms(2) by (auto simp: StoreStakeInfo_def split: if_splits option.splits)
  then show ?thesis
  proof cases
    case off
    then show ?thesis using assms by (simp add: StoreStakeInfo_def)
  next
    case on
    show ?thesis
    proof (cases "map_of (apiBlockCache apic) h")
      case None
      obtain b :: "('f, 'x) CachedBlock" where b: "newCachedBlock None (Some si) = Some b" "cbHeight b = fiHeight (siFeeinfo si)" "entryOK nh h b"
        using newCachedBlock_stake[of si nh h] on(2) by blast
      then show ?thesis
        using insertCachedBlock_OK[OF assms(1) b(1) None, of "clk 0" "\<lambda>i. clk (Suc i)"] None assms(2) on
        by (auto simp: StoreStakeInfo_def)
    next
      case (Some b)
      then have "entryOK nh h (b\<lparr>cbStakeInfo := Some si\<rparr>)"
        using apiOK_D(5)[OF assms(1) Some] on(2) by (simp add: entryOK_def)
      then show ?thesis
        using addPart_OK[OF assms(1) Some, of "b\<lparr>cbStakeInfo := Some si\<rparr>"] assms on Some
        by (auto simp: StoreStakeInfo_def split: if_splits)
    qed
  qed
qed

lemma apiOK_hits: "apiOK nh (apic\<lparr>apiHits := n\<rparr>) \<longleftrightarrow> apiOK nh apic"
  by (simp add: apiOK_def)

lemma getCachedBlockByHash_facts:
  assumes "apiOK nh apic"
  shows "apiOK nh (snd (getCachedBlockByHash clk h apic))"
    and "fst (getCachedBlockByHash clk h apic) = map_option (Access (clk 0)) (map_of (apiBlockCache apic) h)"
    and "pqBh (apiExpireQueue (snd (getCachedBlockByHash clk h apic))) = pqBh (apiExpireQueue apic)"
    and "apiMainchainBlocks (snd (getCachedBlockByHash clk h apic)) = apiMainchainBlocks apic"
    and "map fst (apiBlockCache (snd (getCachedBlockByHash clk h apic))) = map fst (apiBlockCache apic)"
proof -
  let ?r = "snd (getCachedBlockByHash clk h apic)"
  note D = apiOK_D[OF assms]
  have keys: "map_of xs h = Some b \<Longrightarrow> map fst (AList.update h b' xs) = map fst xs" for xs b b'
    by (induction xs) auto
  show "fst (getCachedBlockByHash clk h apic) = map_option (Access (clk 0)) (map_of (apiBlockCache apic) h)"
    by (simp add: getCachedBlockByHash_def Let_def split: option.split)
  show "pqBh (apiExpireQueue ?r) = pqBh (apiExpireQueue apic)"
    by (simp add: getCachedBlockByHash_def Let_def setAccessTime_def setNeedsReheap_def split: option.split)
  show "apiMainchainBlocks ?r = apiMainchainBlocks apic"
    by (simp add: getCachedBlockByHash_def Let_def split: option.split)
  show "map fst (apiBlockCache ?r) = map fst (apiBlockCache apic)"
    by (simp add: getCachedBlockByHash_def Let_def keys split: option.split)
  show "apiOK nh ?r"
  proof (cases "map_of (apiBlockCache apic) h")
    case None
    then show ?thesis
      using D(2,3) by (intro outside_OK[OF assms]) (simp_all add: getCachedBlockByHash_def)
  next
    case (Some b)
    let ?q = "setAccessTime (clk 1) (setNeedsReheap True (apiExpireQueue apic))"
    have "apiOK nh (apic\<lparr>apiBlockCache := AList.update h (Access (clk 0) b) (apiBlockCache apic), apiExpireQueue := ?q\<rparr>)"
      using D(2,5) Some by (intro replace_OK[OF assms Some])
        (simp_all add: inv_intros setAccessTime_def setNeedsReheap_def queueOK_def withinBounds_def)
    then show ?thesis using Some by (simp add: getCachedBlockByHash_def Let_def apiOK_hits)
  qed
qed

text \<open>A block of the cache is not in the heap, so nothing is removed from the queue.\<close>

lemma RemoveBlock_cached: "cbHeapIdx b = -1 \<Longrightarrow> RemoveBlock (Some b) pq = pq"
  by (simp add: RemoveBlock_def)

lemma removeCachedBlock_eq:
  "cbHeapIdx b = -1 \<Longrightarrow> removeCachedBlock nh (Some b) apic =
     (if nh (cbHash b) = None then Panic
      else Ret (apic\<lparr>apiMainchainBlocks := (apiMainchainBlocks apic)(uint (cbHeight b) := None)\<rparr>))"
  by (auto simp: removeCachedBlock_def RemoveBlock_cached Let_def split: option.split)

lemma forget_OK [inv_intros]:
  "apiOK nh apic \<Longrightarrow> apiOK nh (apic\<lparr>apiMainchainBlocks := (apiMainchainBlocks apic)(height := None)\<rparr>)"
  by (rule outside_OK) (auto simp: map_le_def apiOK_D)

lemma settings_api_OK [inv_intros]:
  assumes "apiOK nh apic"
  shows "apiOK nh (apiSetLessFn f apic)" and "apiOK nh (Enable apic)" and "apiOK nh (Disable apic)"
    and "apiOK nh (watchTick now apic)"
proof -
  note D = apiOK_D[OF assms]
  show "apiOK nh (apiSetLessFn f apic)"
    using D(2,3) by (intro outside_OK[OF assms]) (simp_all add: apiSetLessFn_def inv_intros, simp_all add: SetLessFn_def)
  show "apiOK nh (Enable apic)" "apiOK nh (Disable apic)"
    using D(2,3) by (auto intro!: outside_OK[OF assms] simp: Enable_def Disable_def)
  show "apiOK nh (watchTick now apic)"
    using D(2,3)
    by (intro outside_OK[OF assms]) (simp_all add: watchTick_def inv_intros,
      simp_all add: WatchPriorityQueue_def Reheap_def heapInit_facts)
qed

text \<open>
  The states of a cache. Every reading method is a lookup of a hash, or leaves the state alone. The
  blocks that are removed are blocks that the cache gave out, which are not in the heap; they need not
  be cached any more.
\<close>

inductive apicReach :: "(string \<Rightarrow> Hash option) \<Rightarrow> ('f, 'x) APICache \<Rightarrow> bool" for nh where
  New: "apicReach nh (NewAPICache capacity)"
| LessSet: "apicReach nh apic \<Longrightarrow> apicReach nh (apiSetLessFn f apic)"
| Enabled: "apicReach nh apic \<Longrightarrow> apicReach nh (Enable apic)"
| Disabled: "apicReach nh apic \<Longrightarrow> apicReach nh (Disable apic)"
| Summary: "apicReach nh apic \<Longrightarrow> StoreBlockSummary nh clk s apic = Ret apic' \<Longrightarrow> apicReach nh apic'"
| Stake: "apicReach nh apic \<Longrightarrow> StoreStakeInfo nh clk si apic = Ret apic' \<Longrightarrow> apicReach nh apic'"
| Looked: "apicReach nh apic \<Longrightarrow> apicReach nh (snd (getCachedBlockByHash clk h apic))"
| Removed: "apicReach nh apic \<Longrightarrow> cbHeapIdx b = -1 \<Longrightarrow> removeCachedBlock nh (Some b) apic = Ret apic' \<Longrightarrow>
    apicReach nh apic'"
| RemovedByHeight: "apicReach nh apic \<Longrightarrow> RemoveCachedBlockByHeight nh clk height apic = Ret apic' \<Longrightarrow>
    apicReach nh apic'"
| Ticked: "apicReach nh apic \<Longrightarrow> apicReach nh (watchTick now apic)"

lemma reads_reach:
  assumes "apicReach nh apic"
  shows "apicReach nh (snd (GetCachedBlockByHeight clk height apic))"
    and "apicReach nh (snd (GetCachedBlockByHashStr nh clk hash apic))"
    and "apicReach nh (snd (GetCachedBlockByHash nh hs clk h apic))"
    and "apicReach nh (snd (GetBlockSize clk height apic))"
    and "apicReach nh (snd (GetBlockSummary clk height apic))"
    and "apicReach nh (snd (GetStakeInfo clk height apic))"
    and "apicReach nh (snd (GetStakeInfoByHash nh clk hash apic))"
    and "apicReach nh (snd (GetBlockSummaryByHash nh clk hash apic))"
proof -
  have look: "snd (case x of (Some b, a) \<Rightarrow> (f b, a) | (None, a) \<Rightarrow> (g, a)) = snd x" for x :: "'c option \<times> 'd" and f g
    by (cases x; cases "fst x") auto
  show H: "apicReach nh (snd (GetCachedBlockByHeight clk height apic))"
    using assms apicReach.Looked by (auto simp: GetCachedBlockByHeight_def split: option.split)
  show S: "apicReach nh (snd (GetCachedBlockByHashStr nh clk hash apic))"
    using assms apicReach.Looked by (auto simp: GetCachedBlockByHashStr_def split: option.split)
  show "apicReach nh (snd (GetCachedBlockByHash nh hs clk h apic))"
    using assms apicReach.Looked by (auto simp: GetCachedBlockByHash_def split: option.split)
  show "apicReach nh (snd (GetBlockSummary clk height apic))" "apicReach nh (snd (GetStakeInfo clk height apic))"
    using assms H by (simp_all add: GetBlockSummary_def GetStakeInfo_def look)
  show "apicReach nh (snd (GetStakeInfoByHash nh clk hash apic))" "apicReach nh (snd (GetBlockSummaryByHash nh clk hash apic))"
    using assms S by (simp_all add: GetStakeInfoByHash_def GetBlockSummaryByHash_def look)
  show "apicReach nh (snd (GetBlockSize clk height apic))"
    using assms H unfolding GetBlockSize_def
    by (cases "GetCachedBlockByHeight clk height apic"; cases "fst (GetCachedBlockByHeight clk height apic)")
      (auto split: option.split)
qed

lemma RemoveByHeight_eq:
  assumes "apiOK nh apic" and "apiMainchainBlocks apic height = Some h"
  shows "RemoveCachedBlockByHeight nh clk height apic =
    (let apic1 = snd (getCachedBlockByHash clk h apic)
     in Ret (apic1\<lparr>apiMainchainBlocks := (apiMainchainBlocks apic)(height := None)\<rparr>))"
proof -
  obtain b where b: "map_of (apiBlockCache apic) h = Some b" "uint (cbHeight b) = height"
    using apiOK_D(6)[OF assms] by blast
  note E = apiOK_D(5)[OF assms(1) b(1)]
  have g: "getCachedBlockByHash clk h apic = (Some (Access (clk 0) b), snd (getCachedBlockByHash clk h apic))"
    using getCachedBlockByHash_facts(2)[OF assms(1), of clk h] b(1) by (metis option.map(2) prod.collapse)
  have "RemoveCachedBlockByHeight nh clk height apic =
      removeCachedBlock nh (Some (Access (clk 0) b)) (snd (getCachedBlockByHash clk h apic))"
    unfolding RemoveCachedBlockByHeight_def assms(2) option.case by (subst g) simp
  then show ?thesis
    using E b(2) getCachedBlockByHash_facts(4)[OF assms(1), of clk h]
    by (simp add: removeCachedBlock_eq entryOK_def Let_def)
qed

lemma apicReach_OK: "apicReach nh apic \<Longrightarrow> apiOK nh apic"
proof (induction rule: apicReach.induct)
  case (New capacity)
  have "queueOK (NewBlockPriorityQueue capacity)" by (rule NewBlockPriorityQueue_OK)
  then show ?case by (simp add: apiOK_def NewAPICache_def contents_def) (simp add: NewBlockPriorityQueue_def)
next
  case (Removed apic b apic')
  have "apic' = apic\<lparr>apiMainchainBlocks := (apiMainchainBlocks apic)(uint (cbHeight b) := None)\<rparr>"
    using Removed.hyps(3) unfolding removeCachedBlock_eq[OF Removed.hyps(2)] by (simp split: if_splits)
  then show ?case using forget_OK[OF Removed.IH] by simp
next
  case (RemovedByHeight apic clk height apic')
  show ?case
  proof (cases "apiMainchainBlocks apic height")
    case None
    then show ?thesis using RemovedByHeight by (simp add: RemoveCachedBlockByHeight_def)
  next
    case (Some h)
    have "apiOK nh (snd (getCachedBlockByHash clk h apic))" by (rule getCachedBlockByHash_facts(1)[OF RemovedByHeight.IH])
    then have "apiOK nh ((snd (getCachedBlockByHash clk h apic))\<lparr>apiMainchainBlocks :=
        (apiMainchainBlocks (snd (getCachedBlockByHash clk h apic)))(height := None)\<rparr>)"
      by (rule forget_OK)
    then show ?thesis
      using RemovedByHeight.hyps(2) RemoveByHeight_eq[OF RemovedByHeight.IH Some, of clk]
        getCachedBlockByHash_facts(4)[OF RemovedByHeight.IH, of clk h]
      by (simp add: Let_def)
  qed
next
  case (Summary apic clk s apic')
  then show ?case using StoreBlockSummary_OK by blast
next
  case (Stake apic clk si apic')
  then show ?case using StoreStakeInfo_OK by blast
qed (rule settings_api_OK getCachedBlockByHash_facts(1), assumption)+

lemma mapKey_eq: "(\<lambda>(h, b). (Some h, cbHeight b)) = mapKey"
  by (auto simp: mapKey_def)

subsection \<open>Properties\<close>

text \<open>Example data: a parser that reads a string of \<open>0\<close> and \<open>1\<close>, and a cache that holds one block.\<close>

definition exParse :: "string \<Rightarrow> Hash option" where
  "exParse s = (if s = ''a'' then Some 1 else if s = ''b'' then Some 2 else if s = ''c'' then Some 3 else None)"

definition exClock :: "nat \<Rightarrow> int" where
  "exClock i = int i"

definition exStart :: "(int, unit) APICache" where
  "exStart = Enable (apiSetLessFn LessByAccessCount (NewAPICache 1))"

lemma exStart_reach: "apicReach exParse exStart"
  unfolding exStart_def by (intro apicReach.Enabled apicReach.LessSet apicReach.New)

text \<open>C17: The cache and its queue agree. In every state that a cache reaches, whatever comparators are set
  on the way, the blocks of the map are those of the queue, with the same hashes and heights, each once;
  so there are never more than the capacity. A main chain height leads to a cached block of that height,
  and each part of a cached block has the block's hash.\<close>

theorem cache_matches_queue:
  assumes "apicReach nh apic"
  shows "distinct (map fst (apiBlockCache apic)) \<and>
    image_mset (\<lambda>b. (nh (cbHash b), cbHeight b)) (mset (pqBh (apiExpireQueue apic))) =
      image_mset (\<lambda>(h, b). (Some h, cbHeight b)) (mset (apiBlockCache apic)) \<and>
    UtilizationBlocks apic = int (length (pqBh (apiExpireQueue apic))) \<and>
    UtilizationBlocks apic \<le> uint (apiCapacity apic) \<and>
    (\<forall>height h. apiMainchainBlocks apic height = Some h \<longrightarrow>
      (\<exists>b. map_of (apiBlockCache apic) h = Some b \<and> uint (cbHeight b) = height)) \<and>
    (\<forall>(h, b) \<in> set (apiBlockCache apic). nh (cbHash b) = Some h \<and>
      (\<forall>s. cbSummary b = Some s \<longrightarrow> nh (bdHash s) = Some h) \<and>
      (\<forall>si. cbStakeInfo b = Some si \<longrightarrow> nh (siHash si) = Some h))"
proof -
  note A = apicReach_OK[OF assms]
  note D = apiOK_D[OF A]
  have M: "image_mset (\<lambda>b. (nh (cbHash b), cbHeight b)) (mset (pqBh (apiExpireQueue apic))) =
      image_mset (\<lambda>(h, b). (Some h, cbHeight b)) (mset (apiBlockCache apic))"
    using D(4) unfolding mapKey_eq contents_def mset_map multiset.map_comp o_def queueKey_unplaced
    unfolding queueKey_def .
  have L: "length (apiBlockCache apic) = length (pqBh (apiExpireQueue apic))"
    using arg_cong[OF M, of size] by simp
  have E: "entryOK nh h b" if "(h, b) \<in> set (apiBlockCache apic)" for h b
    using that D(1) by (intro D(5)) simp
  have P: "\<forall>(h, b) \<in> set (apiBlockCache apic). nh (cbHash b) = Some h \<and>
      (\<forall>s. cbSummary b = Some s \<longrightarrow> nh (bdHash s) = Some h) \<and>
      (\<forall>si. cbStakeInfo b = Some si \<longrightarrow> nh (siHash si) = Some h)"
    by (auto dest!: E simp: entryOK_def)
  have U: "UtilizationBlocks apic = int (length (pqBh (apiExpireQueue apic)))"
    "UtilizationBlocks apic \<le> uint (apiCapacity apic)"
    using L D(2,3) by (simp_all add: UtilizationBlocks_def queueOK_def)
  show ?thesis
    by (intro conjI allI impI D(1) M U P D(6))
qed

theorem cache_matches_queue_witness:
  "\<exists>apic. StoreBlockSummary exParse exClock (exSummary 5 ''a'') exStart = Ret apic \<and> UtilizationBlocks apic = 1 \<and>
     UtilizationBlocks apic \<le> uint (apiCapacity apic)"
proof -
  obtain apic where S: "StoreBlockSummary exParse exClock (exSummary 5 ''a'') exStart = Ret apic"
    and U: "UtilizationBlocks apic = 1"
    by (simp add: StoreBlockSummary_def exStart_def Enable_def IsEnabled_def exParse_def exSummary_def apiSetLessFn_def
        SetLessFn_def NewAPICache_def NewBlockPriorityQueue_def newCachedBlock_def checkBlockHeightHash_def
        insertCachedBlock_def Insert_def heapPush_def pqPush_def Let_def UtilizationBlocks_def)
  have "apicReach exParse apic" by (rule apicReach.Summary[OF exStart_reach S])
  then show ?thesis using cache_matches_queue[of exParse apic] S U by blast
qed

text \<open>What is stored is read back. Storing the summary of a block that is not cached never panics if its
  hash parses. If the queue takes the block, the summary is found by hash and by height, the height gives
  the hash, and a block that makes room is gone from queue and map alike; if the queue does not take it,
  nothing changes.\<close>

theorem summary_read_back:
  fixes apic :: "('f, 'x) APICache"
  assumes "apicReach nh apic" and "IsEnabled apic" and "nh (bdHash s) = Some h"
    and "map_of (apiBlockCache apic) h = None"
  shows "\<exists>apic' b. StoreBlockSummary nh clk s apic = Ret apic' \<and> apicReach nh apic' \<and>
    newCachedBlock (Some s) None = Some b \<and>
    (if takesBlock (\<lambda>i. clk (Suc i)) b (apiExpireQueue apic)
     then fst (GetBlockSummaryByHash nh clk' (bdHash s) apic') = Some s \<and>
       fst (GetBlockSummary clk' (uint (bdHeight s)) apic') = Some s \<and>
       GetBlockHash hs (uint (bdHeight s)) apic' = hs h
     else apic' = apic)"
proof -
  note A = apicReach_OK[OF assms(1)]
  obtain b :: "('f, 'x) CachedBlock" where b: "newCachedBlock (Some s) None = Some b" "cbHeight b = bdHeight s" "cbSummary b = Some s"
    "entryOK nh h b"
    using newCachedBlock_summary[of s nh h] assms(3) by blast
  obtain apic' where I: "insertCachedBlock nh (\<lambda>i. clk (Suc i)) h (bdHeight s) (Access (clk 0) b) (Some s) None apic = Ret apic'"
    and en: "apiIsEnabled apic' = apiIsEnabled apic"
    and R: "if takesBlock (\<lambda>i. clk (Suc i)) b (apiExpireQueue apic)
       then map_of (apiBlockCache apic') h = Some (Access (clk 0) b) \<and>
         apiMainchainBlocks apic' (uint (bdHeight s)) = Some h
       else apic' = apic"
    using insertCachedBlock_OK[OF A b(1) assms(4), of "clk 0" "\<lambda>i. clk (Suc i)", unfolded b(2)] b(4)
    unfolding entryOK_Access by blast
  have S: "StoreBlockSummary nh clk s apic = Ret apic'"
    using assms(2-4) b(1) I by (simp add: StoreBlockSummary_def)
  have E: "IsEnabled apic'" using assms(2) en by (simp add: IsEnabled_def)
  have "apicReach nh apic'" by (rule apicReach.Summary[OF assms(1) S])
  then show ?thesis
    using S R E b assms(3)
    by (intro exI[of _ apic'] exI[of _ b])
      (auto simp: GetBlockSummaryByHash_def GetBlockSummary_def GetBlockHash_def blockHash_def
        GetCachedBlockByHashStr_def GetCachedBlockByHeight_def getCachedBlockByHash_def Let_def)
qed

theorem summary_read_back_witness:
  "\<exists>apic'. StoreBlockSummary exParse exClock (exSummary 5 ''a'') exStart = Ret apic' \<and>
     fst (GetBlockSummary exClock 5 apic') = Some (exSummary 5 ''a'')"
proof -
  have hyps: "IsEnabled exStart" "exParse (bdHash (exSummary 5 ''a'')) = Some 1" "map_of (apiBlockCache exStart) 1 = None"
    and t: "takesBlock clk b (apiExpireQueue exStart)" for clk b
    by (simp_all add: exStart_def Enable_def IsEnabled_def exParse_def exSummary_def apiSetLessFn_def SetLessFn_def
        NewAPICache_def NewBlockPriorityQueue_def takesBlock_def)
  show ?thesis
    using summary_read_back[OF exStart_reach hyps, of exClock exClock "\<lambda>_. []"] t by (auto simp: exSummary_def)
qed

text \<open>Removing a block removes its height only. After \<open>RemoveCachedBlockByHeight\<close> for a main chain height,
  the height is not found any more, but the block is still in the map, under its hash, and in the
  queue, so it keeps its place in the capacity.\<close>

theorem removal_keeps_block:
  assumes "apicReach nh apic" and "apiMainchainBlocks apic height = Some h"
  shows "\<exists>apic' b. RemoveCachedBlockByHeight nh clk height apic = Ret apic' \<and>
    blockHash height apic' = None \<and> map fst (apiBlockCache apic') = map fst (apiBlockCache apic) \<and>
    pqBh (apiExpireQueue apic') = pqBh (apiExpireQueue apic) \<and>
    fst (getCachedBlockByHash clk' h apic') = Some b \<and> uint (cbHeight b) = height"
proof -
  note A = apicReach_OK[OF assms(1)]
  let ?l = "snd (getCachedBlockByHash clk h apic)"
  let ?r = "?l\<lparr>apiMainchainBlocks := (apiMainchainBlocks apic)(height := None)\<rparr>"
  note F = getCachedBlockByHash_facts[OF A, of clk h]
  obtain b0 where b0: "map_of (apiBlockCache apic) h = Some b0" "uint (cbHeight b0) = height"
    using apiOK_D(6)[OF A assms(2)] by blast
  have l: "map_of (apiBlockCache ?l) h = Some (Access (clk 0) b0)"
    using b0(1) by (simp add: getCachedBlockByHash_def Let_def update_conv')
  show ?thesis
    by (intro exI[of _ ?r] exI[of _ "Access (clk' 0) (Access (clk 0) b0)"])
      (use RemoveByHeight_eq[OF A assms(2), of clk] F l b0(2) in
        \<open>simp add: Let_def blockHash_def getCachedBlockByHash_def\<close>)
qed

definition exFull :: "(int, unit) APICache" where
  "exFull = (case StoreBlockSummary exParse exClock (exSummary 5 ''a'') exStart of Ret apic \<Rightarrow> apic | Panic \<Rightarrow> exStart)"

lemma exFull_facts: "apicReach exParse exFull" "apiMainchainBlocks exFull 5 = Some 1" "IsEnabled exFull"
    "map_of (apiBlockCache exFull) 2 = None" "pqLessFn (apiExpireQueue exFull) = LessByAccessCount"
    "UtilizationBlocks exFull = uint (apiCapacity exFull)"
proof -
  have "\<exists>a. StoreBlockSummary exParse exClock (exSummary 5 ''a'') exStart = Ret a \<and> apiMainchainBlocks a 5 = Some 1 \<and>
      IsEnabled a \<and> map_of (apiBlockCache a) 2 = None \<and> pqLessFn (apiExpireQueue a) = LessByAccessCount \<and>
      UtilizationBlocks a = uint (apiCapacity a)"
    by (simp add: StoreBlockSummary_def exStart_def Enable_def IsEnabled_def exParse_def exSummary_def apiSetLessFn_def
        SetLessFn_def NewAPICache_def NewBlockPriorityQueue_def newCachedBlock_def checkBlockHeightHash_def
        insertCachedBlock_def Insert_def heapPush_def pqPush_def Let_def UtilizationBlocks_def)
  then obtain a where a: "StoreBlockSummary exParse exClock (exSummary 5 ''a'') exStart = Ret a" "apiMainchainBlocks a 5 = Some 1"
      "IsEnabled a" "map_of (apiBlockCache a) 2 = None" "pqLessFn (apiExpireQueue a) = LessByAccessCount"
      "UtilizationBlocks a = uint (apiCapacity a)"
    by blast
  moreover have "exFull = a" by (simp add: exFull_def a(1))
  ultimately show "apicReach exParse exFull" "apiMainchainBlocks exFull 5 = Some 1" "IsEnabled exFull"
    "map_of (apiBlockCache exFull) 2 = None" "pqLessFn (apiExpireQueue exFull) = LessByAccessCount"
    "UtilizationBlocks exFull = uint (apiCapacity exFull)"
    using apicReach.Summary[OF exStart_reach a(1)] by simp_all
qed

theorem removal_keeps_block_witness:
  "\<exists>apic' b. RemoveCachedBlockByHeight exParse exClock 5 exFull = Ret apic' \<and> blockHash 5 apic' = None \<and>
     fst (getCachedBlockByHash exClock 1 apic') = Some b"
  using removal_keeps_block[OF exFull_facts(1,2), of exClock exClock] by blast

text \<open>Reading does not raise the priority of a block. The queue counts the accesses of its own copies, and
  no lookup changes them: each block of the queue has one access. So a cache whose comparator is the
  access count never replaces a block once it is full, however its blocks are read: every new block is
  refused without any change.\<close>

theorem full_cache_is_frozen:
  fixes apic :: "('f, 'x) APICache"
  assumes "apicReach nh apic" and "pqLessFn (apiExpireQueue apic) = LessByAccessCount"
    and "UtilizationBlocks apic = uint (apiCapacity apic)" and "IsEnabled apic"
    and "nh (bdHash s) = Some h" and "map_of (apiBlockCache apic) h = None"
  shows "(\<forall>b \<in> set (pqBh (apiExpireQueue apic)). cbAccesses b = 1) \<and> StoreBlockSummary nh clk s apic = Ret apic"
proof -
  note A = apicReach_OK[OF assms(1)]
  note D = apiOK_D[OF A]
  let ?q = "apiExpireQueue apic"
  have one: "cbAccesses b = 1" if "b \<in> set (pqBh ?q)" for b
  proof -
    have "unplaced b \<in># contents (pqBh ?q)" using that by (simp add: set_contents)
    then have "cbAccesses (unplaced b) = 1" by (rule D(7))
    then show ?thesis by simp
  qed
  have "size (contents (pqBh ?q)) = length (apiBlockCache apic)"
    using D(4) by (metis length_map size_image_mset size_mset)
  then have len: "int (length (pqBh ?q)) = uint (pqCapacity ?q)"
    using assms(3) D(3) by (simp add: contents_def UtilizationBlocks_def)
  obtain b :: "('f, 'x) CachedBlock" where b: "newCachedBlock (Some s) None = Some b" "cbHeight b = bdHeight s" "entryOK nh h b"
    using newCachedBlock_summary[of s nh h] assms(5) by blast
  have fresh: "cbAccesses (freshBlock t b) = 1" for t
    using b(1) by (auto simp: newCachedBlock_def checkBlockHeightHash_def freshBlock_def Access_def)
  have "\<not> takesBlock (\<lambda>i. clk (Suc i)) b ?q"
  proof (cases "pqCapacity ?q = 0")
    case False
    then have "pqBh ?q \<noteq> []" using len by (auto simp: uint_0_iff)
    then have "cbAccesses (pqBh ?q ! 0) = 1" by (intro one) simp
    then show ?thesis using len assms(2) fresh by (simp add: takesBlock_def LessByAccessCount_def)
  qed (simp add: takesBlock_def)
  then have "insertCachedBlock nh (\<lambda>i. clk (Suc i)) h (bdHeight s) (Access (clk 0) b) (Some s) None apic = Ret apic"
    using insertCachedBlock_OK[OF A b(1) assms(6), of "clk 0" "\<lambda>i. clk (Suc i)"] b(2,3) by auto
  then show ?thesis using one assms(4-6) b(1) by (simp add: StoreBlockSummary_def)
qed

theorem full_cache_is_frozen_witness:
  "StoreBlockSummary exParse exClock (exSummary 9 ''b'') exFull = Ret exFull"
  using full_cache_is_frozen[OF exFull_facts(1,5,6,3), of "exSummary 9 ''b''" 2 exClock] exFull_facts(4)
  by (simp add: exParse_def exSummary_def)

end
