(* ===== verification/ChainRpc.thy ===== *)
theory ChainRpc
  imports Prelude
begin

text \<open>
  The functions of \<open>rpcutils/rpcclient.go\<close> that walk along the chains of a node: the common ancestor of
  two tips, the full side chain of a tip, and the number of orphaned blocks of a database.

  The node is a parameter, the record of the functions of the interface \<open>BlockFetcher\<close>
  (\<open>rpcutils/prefetcher.go\<close>), with \<open>Inl\<close> for an error. A block (\<open>wire.MsgBlock\<close>) is a record of what the
  source reads of it: the height and the previous hash of its header, and the hash that \<open>BlockHash\<close>
  returns; \<open>'y\<close> is the rest. Of a verbose header the fields that the source reads are kept. Error
  texts are the strings of the node, wrapped in the constructors of the callers.
\<close>

subsection \<open>The node\<close>

record 'y MsgBlock =
  mbHeight :: "32 word"
  mbPrevBlock :: Hash
  mbBlockHash :: Hash
  mbRest :: 'y

record HeaderVerbose =
  hvHash :: string
  hvHeight :: "32 word"
  hvConfirmations :: int
  hvPreviousHash :: string
  hvNextHash :: string
  hvChainWork :: string

record 'y BlockFetcher =
  fGetBestBlock :: "string + Hash \<times> int"
  fGetBlock :: "Hash \<Rightarrow> string + 'y MsgBlock"
  fGetBlockHash :: "int \<Rightarrow> string + Hash"
  fGetBlockHeaderVerbose :: "Hash \<Rightarrow> string + HeaderVerbose"

text \<open>\<open>txhelpers.ReorgData\<close>; the wait group is not used by the source.\<close>

record ReorgData =
  rdCommonAncestor :: Hash
  rdOldChainHead :: Hash
  rdOldChainHeight :: int
  rdOldChain :: "Hash list"
  rdNewChainHead :: Hash
  rdNewChainHeight :: int
  rdNewChain :: "Hash list"

datatype rpcError =
    NilClient
  | GetBlockFailed Hash string
  | GetBlockHashFailed int string
  | AncestorMaxChainLength
  | AncestorAtGenesis
  | HeaderFailed string
  | NotSideChain
  | DbBlockFailed int string
  | NodeBlockFailed int string
  | NoCommonAncestor

definition GetBlock :: "int \<Rightarrow> 'y BlockFetcher \<Rightarrow> rpcError + 'y MsgBlock \<times> Hash" where
  "GetBlock ind client =
     (case fGetBlockHash client ind of
        Inl e \<Rightarrow> Inl (GetBlockHashFailed ind e)
      | Inr blockhash \<Rightarrow>
          (case fGetBlock client blockhash of
             Inl e \<Rightarrow> Inl (GetBlockFailed blockhash e)
           | Inr msgBlock \<Rightarrow> Inr (msgBlock, blockhash)))"

definition GetBlockByHash :: "Hash \<Rightarrow> 'y BlockFetcher \<Rightarrow> rpcError + 'y MsgBlock" where
  "GetBlockByHash blockhash client =
     (case fGetBlock client blockhash of
        Inl e \<Rightarrow> Inl (GetBlockFailed blockhash e)
      | Inr msgBlock \<Rightarrow> Inr msgBlock)"

definition GetBlockHeaderVerbose :: "'y BlockFetcher \<Rightarrow> int \<Rightarrow> HeaderVerbose option" where
  "GetBlockHeaderVerbose client idx =
     (case fGetBlockHash client idx of
        Inl _ \<Rightarrow> None
      | Inr blockhash \<Rightarrow>
          (case fGetBlockHeaderVerbose client blockhash of Inl _ \<Rightarrow> None | Inr h \<Rightarrow> Some h))"

definition GetBlockHeaderVerboseByString ::
    "(string \<Rightarrow> Hash option) \<Rightarrow> 'y BlockFetcher \<Rightarrow> string \<Rightarrow> HeaderVerbose option" where
  "GetBlockHeaderVerboseByString nh client hash =
     (case nh hash of
        None \<Rightarrow> None
      | Some blockhash \<Rightarrow>
          (case fGetBlockHeaderVerbose client blockhash of Inl _ \<Rightarrow> None | Inr h \<Rightarrow> Some h))"

definition GetChainWork :: "'y BlockFetcher \<Rightarrow> Hash \<Rightarrow> string + string" where
  "GetChainWork client hash =
     (case fGetBlockHeaderVerbose client hash of Inl e \<Rightarrow> Inl e | Inr header \<Rightarrow> Inr (hvChainWork header))"

subsection \<open>Side chains\<close>

text \<open>A chain tip of \<open>getchaintips\<close>, with the field that is tested.\<close>

record 'z ChainTip =
  ctStatus :: string
  ctRest :: 'z

fun sideChainTips :: "'z ChainTip list \<Rightarrow> 'z ChainTip list" where
  "sideChainTips [] = []"
| "sideChainTips (t # ts) =
     (if ctStatus t = ''valid-headers'' \<or> ctStatus t = ''valid-fork'' then t # sideChainTips ts
      else sideChainTips ts)"

text \<open>The swaps of \<open>reverseStringSlice\<close>, for \<open>i\<close> from 0 to \<open>N/2 - 1\<close>.\<close>

definition reverseStringSlice :: "string list \<Rightarrow> string list" where
  "reverseStringSlice s =
     (let N = length s in
      fold (\<lambda>i s. let j = N - 1 - i in s[i := s ! j, j := s ! i]) [0..<N div 2] s)"

text \<open>\<open>None\<close> is a walk that never ends.\<close>

partial_function (option) sideChainLoop ::
    "(string \<Rightarrow> Hash option) \<Rightarrow> 'y BlockFetcher \<Rightarrow> string \<Rightarrow> string list \<Rightarrow> string
     \<Rightarrow> (rpcError + string list) option" where
  "sideChainLoop nh client tipHash sideChain hash =
     (case GetBlockHeaderVerboseByString nh client hash of
        None \<Rightarrow> Some (Inl (HeaderFailed hash))
      | Some header \<Rightarrow>
          if hvConfirmations header \<noteq> -1 then
            (if hash = tipHash then Some (Inl NotSideChain) else Some (Inr sideChain))
          else sideChainLoop nh client tipHash (sideChain @ [hash]) (hvPreviousHash header))"

definition SideChainFull ::
    "(string \<Rightarrow> Hash option) \<Rightarrow> 'y BlockFetcher \<Rightarrow> string \<Rightarrow> (rpcError + string list) option" where
  "SideChainFull nh client tipHash =
     (case sideChainLoop nh client tipHash [] tipHash of
        None \<Rightarrow> None
      | Some (Inl e) \<Rightarrow> Some (Inl e)
      | Some (Inr sideChain) \<Rightarrow> Some (Inr (reverseStringSlice sideChain)))"

subsection \<open>Common ancestors\<close>

definition maxAncestorChainLength :: nat where
  "maxAncestorChainLength = 8192"

text \<open>The results are the ancestor (nil is \<open>None\<close>), the two chains (nil is the empty list), and the error.\<close>

type_synonym ancestry = "Hash option \<times> Hash list \<times> Hash list \<times> rpcError option"

function ancestorLoop ::
    "'y BlockFetcher \<Rightarrow> nat \<Rightarrow> Hash list \<Rightarrow> Hash list \<Rightarrow> Hash \<Rightarrow> Hash \<Rightarrow> ancestry" where
  "ancestorLoop client len chainA chainB hashA hashB =
     (if len \<ge> maxAncestorChainLength then (None, [], [], Some AncestorMaxChainLength)
      else case fGetBlock client hashA of
        Inl e \<Rightarrow> (None, [], [], Some (GetBlockFailed hashA e))
      | Inr blockA \<Rightarrow>
          (case fGetBlock client hashB of
             Inl e \<Rightarrow> (None, [], [], Some (GetBlockFailed hashB e))
           | Inr blockB \<Rightarrow>
               if mbHeight blockA > mbHeight blockB
               then ancestorLoop client (len + 1) (hashA # chainA) chainB (mbPrevBlock blockA) hashB
               else if mbHeight blockB > mbHeight blockA
               then ancestorLoop client (len + 1) chainA (hashB # chainB) hashA (mbPrevBlock blockB)
               else if mbPrevBlock blockA = 0
               then (None, hashA # chainA, hashB # chainB, Some AncestorAtGenesis)
               else if mbPrevBlock blockA = mbPrevBlock blockB
               then (Some (mbPrevBlock blockA), hashA # chainA, hashB # chainB, None)
               else ancestorLoop client (len + 1) (hashA # chainA) (hashB # chainB)
                      (mbPrevBlock blockA) (mbPrevBlock blockB)))"
  by pat_completeness auto
termination
  by (relation "measure (\<lambda>(_, len, _). maxAncestorChainLength - len)") auto

declare ancestorLoop.simps [simp del]

definition CommonAncestor :: "'y BlockFetcher option \<Rightarrow> Hash \<Rightarrow> Hash \<Rightarrow> ancestry" where
  "CommonAncestor client hashA hashB =
     (case client of
        None \<Rightarrow> (None, [], [], Some NilClient)
      | Some c \<Rightarrow> ancestorLoop c 0 [] [] hashA hashB)"

subsection \<open>Orphaned blocks\<close>

text \<open>\<open>cancelled h\<close> says whether the context is done when height \<open>h\<close> is about to be compared.\<close>

function orphanLoop ::
    "(Hash \<Rightarrow> string) \<Rightarrow> (int \<Rightarrow> bool) \<Rightarrow> 'y BlockFetcher \<Rightarrow> (int \<Rightarrow> string + string) \<Rightarrow> int \<Rightarrow> int
     \<Rightarrow> int \<times> rpcError option" where
  "orphanLoop hs cancelled client hashFunc tipHeight commonHeight =
     (if cancelled commonHeight then (0, None)
      else case hashFunc commonHeight of
        Inl e \<Rightarrow> (-1, Some (DbBlockFailed commonHeight e))
      | Inr dbHash \<Rightarrow>
          (case fGetBlockHash client commonHeight of
             Inl e \<Rightarrow> (-1, Some (NodeBlockFailed commonHeight e))
           | Inr dcrdHash \<Rightarrow>
               if hs dcrdHash = dbHash then (tipHeight - commonHeight, None)
               else if commonHeight - 1 < 0 then (-1, Some NoCommonAncestor)
               else orphanLoop hs cancelled client hashFunc tipHeight (commonHeight - 1)))"
  by pat_completeness auto
termination
  by (relation "measure (\<lambda>(_, _, _, _, _, h). nat h)") auto

declare orphanLoop.simps [simp del]

definition OrphanedTipLength ::
    "(Hash \<Rightarrow> string) \<Rightarrow> (int \<Rightarrow> bool) \<Rightarrow> 'y BlockFetcher \<Rightarrow> int \<Rightarrow> (int \<Rightarrow> string + string)
     \<Rightarrow> int \<times> rpcError option" where
  "OrphanedTipLength hs cancelled client tipHeight hashFunc =
     orphanLoop hs cancelled client hashFunc tipHeight tipHeight"

subsection \<open>Reversing a slice\<close>

lemma reverse_prefix:
  assumes "m \<le> length s div 2"
  shows "length (fold (\<lambda>i t. t[i := t ! (length s - 1 - i), length s - 1 - i := t ! i]) [0..<m] s) = length s \<and>
    (\<forall>k < length s. fold (\<lambda>i t. t[i := t ! (length s - 1 - i), length s - 1 - i := t ! i]) [0..<m] s ! k =
      (if k < m \<or> length s - m \<le> k then s ! (length s - 1 - k) else s ! k))"
  using assms
proof (induction m)
  case 0
  then show ?case by simp
next
  case (Suc m)
  let ?n = "length s"
  let ?f = "\<lambda>i t. t[i := t ! (?n - 1 - i), ?n - 1 - i := t ! i]"
  define t where "t = fold ?f [0..<m] s"
  have t: "length t = ?n" and nth: "\<And>k. k < ?n \<Longrightarrow> t ! k = (if k < m \<or> ?n - m \<le> k then s ! (?n - 1 - k) else s ! k)"
    using Suc.IH Suc.prems by (auto simp: t_def)
  have m: "m < ?n - 1 - m" "?n - 1 - m < ?n - m" using Suc.prems by linarith+
  have f: "fold ?f [0..<Suc m] s = ?f m t" by (simp add: t_def)
  have tm: "t ! m = s ! m" "t ! (?n - 1 - m) = s ! (?n - 1 - m)" using m nth by simp_all
  show ?case
  proof (intro conjI allI impI)
    show "length (fold ?f [0..<Suc m] s) = ?n" unfolding f using t by simp
    fix k assume k: "k < ?n"
    consider "k = m" | "k = ?n - 1 - m" | "k \<noteq> m" "k \<noteq> ?n - 1 - m" by blast
    then show "fold ?f [0..<Suc m] s ! k = (if k < Suc m \<or> ?n - Suc m \<le> k then s ! (?n - 1 - k) else s ! k)"
    proof cases
      case 1
      then show ?thesis unfolding f using t m tm by simp
    next
      case 2
      then have "?n - 1 - k = m" "?n - Suc m \<le> k" using m by linarith+
      then show ?thesis unfolding f using t m tm 2 by simp
    next
      case 3
      then have "(k < Suc m \<or> ?n - Suc m \<le> k) = (k < m \<or> ?n - m \<le> k)" using m by linarith
      then show ?thesis unfolding f using 3 nth[OF k] by simp
    qed
  qed
qed

lemma reverseStringSlice_rev: "reverseStringSlice s = rev s"
proof (rule nth_equalityI)
  note R = reverse_prefix[of "length s div 2" s, OF order_refl]
  show "length (reverseStringSlice s) = length (rev s)"
    using R by (simp add: reverseStringSlice_def Let_def)
  fix k assume "k < length (reverseStringSlice s)"
  then have k: "k < length s" using R by (simp add: reverseStringSlice_def Let_def)
  have "reverseStringSlice s ! k =
      (if k < length s div 2 \<or> length s - length s div 2 \<le> k then s ! (length s - 1 - k) else s ! k)"
    using R k by (simp add: reverseStringSlice_def Let_def)
  also have "\<dots> = s ! (length s - 1 - k)"
  proof -
    have "\<not> (k < length s div 2 \<or> length s - length s div 2 \<le> k) \<Longrightarrow> length s - 1 - k = k"
      by linarith
    then show ?thesis by metis
  qed
  finally show "reverseStringSlice s ! k = rev s ! k" using k by (simp add: rev_nth)
qed

subsection \<open>Chains of a node\<close>

definition parentOf :: "'y BlockFetcher \<Rightarrow> Hash \<Rightarrow> Hash option" where
  "parentOf client h = (case fGetBlock client h of Inl _ \<Rightarrow> None | Inr b \<Rightarrow> Some (mbPrevBlock b))"

definition heightOf :: "'y BlockFetcher \<Rightarrow> Hash \<Rightarrow> nat" where
  "heightOf client h = (case fGetBlock client h of Inl _ \<Rightarrow> 0 | Inr b \<Rightarrow> unat (mbHeight b))"

text \<open>The list is a chain on top of \<open>a\<close>, lowest block first.\<close>

fun linked :: "'y BlockFetcher \<Rightarrow> Hash \<Rightarrow> Hash list \<Rightarrow> bool" where
  "linked client a [] = True"
| "linked client a (c # cs) = (parentOf client c = Some a \<and> linked client c cs)"

text \<open>
  What a node guarantees: no block has the zero hash, and a block that is not a first block has a
  known parent, one below it.
\<close>

definition consistentNode :: "'y BlockFetcher \<Rightarrow> bool" where
  "consistentNode client \<longleftrightarrow> parentOf client 0 = None \<and>
     (\<forall>h p. parentOf client h = Some p \<longrightarrow> p \<noteq> 0 \<longrightarrow>
        parentOf client p \<noteq> None \<and> heightOf client h = heightOf client p + 1)"

lemma linked_snoc:
  "linked client a (cs @ [c]) \<longleftrightarrow> linked client a cs \<and> parentOf client c = Some (last (a # cs))"
  by (induction cs arbitrary: a) auto

lemma consistentNodeD:
  assumes "consistentNode client"
  shows "parentOf client 0 = None" and "parentOf client h = Some p \<Longrightarrow> p \<noteq> 0 \<Longrightarrow> \<exists>q. parentOf client p = Some q"
    and "parentOf client h = Some p \<Longrightarrow> p \<noteq> 0 \<Longrightarrow> heightOf client h = heightOf client p + 1"
  using assms by (auto simp: consistentNode_def)

lemma linked_height:
  assumes "consistentNode client" and "linked client a cs" and "a \<noteq> 0"
  shows "heightOf client (last (a # cs)) = heightOf client a + length cs" and "0 \<notin> set cs"
proof -
  have "heightOf client (last (a # cs)) = heightOf client a + length cs \<and> 0 \<notin> set cs"
    using assms(2,3)
  proof (induction cs arbitrary: a)
    case (Cons c cs)
    then have p: "parentOf client c = Some a" and l: "linked client c cs" by simp_all
    then have "c \<noteq> 0" using consistentNodeD(1)[OF assms(1)] by auto
    then show ?case
      using Cons.IH[OF l] consistentNodeD(3)[OF assms(1) p] Cons.prems(2) by simp
  qed simp
  then show "heightOf client (last (a # cs)) = heightOf client a + length cs" "0 \<notin> set cs" by simp_all
qed

text \<open>One round of the loop, in terms of parents and heights.\<close>

lemma ancestorLoop_step:
  assumes "len < maxAncestorChainLength" and "parentOf client hA = Some pA" and "parentOf client hB = Some pB"
  shows "ancestorLoop client len cA cB hA hB =
    (if heightOf client hA > heightOf client hB then ancestorLoop client (len + 1) (hA # cA) cB pA hB
     else if heightOf client hB > heightOf client hA then ancestorLoop client (len + 1) cA (hB # cB) hA pB
     else if pA = 0 then (None, hA # cA, hB # cB, Some AncestorAtGenesis)
     else if pA = pB then (Some pA, hA # cA, hB # cB, None)
     else ancestorLoop client (len + 1) (hA # cA) (hB # cB) pA pB)"
proof -
  obtain bA where A: "fGetBlock client hA = Inr bA" "mbPrevBlock bA = pA"
    using assms(2) by (auto simp: parentOf_def split: sum.splits)
  obtain bB where B: "fGetBlock client hB = Inr bB" "mbPrevBlock bB = pB"
    using assms(3) by (auto simp: parentOf_def split: sum.splits)
  have h: "heightOf client hA = unat (mbHeight bA)" "heightOf client hB = unat (mbHeight bB)"
    using A B by (simp_all add: heightOf_def)
  show ?thesis
    using assms(1) A B by (subst ancestorLoop.simps) (simp add: h word_less_nat_alt)
qed

text \<open>
  A fork: two nonempty chains on top of a block, which differ at each height at which both go on.
\<close>

definition forkOf :: "'y BlockFetcher \<Rightarrow> Hash \<Rightarrow> Hash list \<Rightarrow> Hash list \<Rightarrow> bool" where
  "forkOf client a as bs \<longleftrightarrow> a \<noteq> 0 \<and> as \<noteq> [] \<and> bs \<noteq> [] \<and> linked client a as \<and> linked client a bs \<and>
     (\<forall>i. Suc i < length as \<and> Suc i < length bs \<longrightarrow> as ! i \<noteq> bs ! i)"

lemma forkOf_shorter:
  assumes "forkOf client a (as @ [c]) bs" and "as \<noteq> []"
  shows "forkOf client a as bs"
  using assms by (auto simp: forkOf_def linked_snoc nth_append)

lemma forkOf_shorter':
  assumes "forkOf client a as (bs @ [c])" and "bs \<noteq> []"
  shows "forkOf client a as bs"
  using assms by (auto simp: forkOf_def linked_snoc nth_append)

lemma ancestorLoop_finds:
  assumes "consistentNode client" and "forkOf client a as bs"
    and "len + max (length as) (length bs) \<le> maxAncestorChainLength"
  shows "ancestorLoop client len cA cB (last as) (last bs) = (Some a, as @ cA, bs @ cB, None)"
  using assms(2,3)
proof (induction "length as + length bs" arbitrary: as bs len cA cB rule: less_induct)
  case less
  obtain as' x where as: "as = as' @ [x]" using less.prems(1) by (auto simp: forkOf_def intro: rev_cases)
  obtain bs' y where bs: "bs = bs' @ [y]" using less.prems(1) by (auto simp: forkOf_def intro: rev_cases)
  have a0: "a \<noteq> 0" using less.prems(1) by (simp add: forkOf_def)
  have LA: "linked client a as'" "parentOf client x = Some (last (a # as'))"
    using less.prems(1) as by (simp_all add: forkOf_def linked_snoc)
  have LB: "linked client a bs'" "parentOf client y = Some (last (a # bs'))"
    using less.prems(1) bs by (simp_all add: forkOf_def linked_snoc)
  have H: "heightOf client x = heightOf client a + length as" "heightOf client y = heightOf client a + length bs"
    using linked_height(1)[OF assms(1) _ a0] less.prems(1) as bs by (force simp: forkOf_def)+
  have len: "len < maxAncestorChainLength" using less.prems(2) as by simp
  have Z: "last (a # as') \<noteq> 0" "last (a # bs') \<noteq> 0"
    using linked_height(2)[OF assms(1) LA(1) a0] linked_height(2)[OF assms(1) LB(1) a0] a0
    by (auto split: if_splits dest: last_in_set)
  note step = ancestorLoop_step[OF len LA(2) LB(2), of cA cB]
  consider (A) "length as > length bs" | (B) "length bs > length as" | (eq) "length as = length bs" by linarith
  then show ?case
  proof cases
    case A
    then have ne: "as' \<noteq> []" using as bs by auto
    then have F: "forkOf client a as' bs" using forkOf_shorter less.prems(1) as by blast
    have "ancestorLoop client (len + 1) (x # cA) cB (last as') (last bs) = (Some a, as' @ x # cA, bs @ cB, None)"
      by (rule less.hyps[OF _ F]) (use A as less.prems(2) in auto)
    then show ?thesis using step A H ne as bs by simp
  next
    case B
    then have ne: "bs' \<noteq> []" using as bs by auto
    then have F: "forkOf client a as bs'" using forkOf_shorter' less.prems(1) bs by blast
    have "ancestorLoop client (len + 1) cA (y # cB) (last as) (last bs') = (Some a, as @ cA, bs' @ y # cB, None)"
      by (rule less.hyps[OF _ F]) (use B bs less.prems(2) in auto)
    then show ?thesis using step B H ne as bs by simp
  next
    case eq
    show ?thesis
    proof (cases "as' = []")
      case True
      then have "bs' = []" using eq as bs by simp
      then show ?thesis using step True H eq as bs a0 by simp
    next
      case False
      then have ne: "bs' \<noteq> []" and le: "length as' = length bs'" using eq as bs by auto
      have "\<forall>i. Suc i < length as \<and> Suc i < length bs \<longrightarrow> as ! i \<noteq> bs ! i"
        using less.prems(1) by (simp add: forkOf_def)
      moreover have "Suc (length as' - 1) < length as" "Suc (length as' - 1) < length bs"
        using False ne as bs le by simp_all
      ultimately have "as ! (length as' - 1) \<noteq> bs ! (length as' - 1)" by blast
      then have neq: "last as' \<noteq> last bs'" using False ne le as bs by (simp add: last_conv_nth nth_append)
      have F: "forkOf client a as' bs'"
        using forkOf_shorter'[OF forkOf_shorter[OF less.prems(1)[unfolded as bs] False] ne] .
      have "ancestorLoop client (len + 1) (x # cA) (y # cB) (last as') (last bs') =
          (Some a, as' @ x # cA, bs' @ y # cB, None)"
        by (rule less.hyps[OF _ F]) (use as bs less.prems(2) in auto)
      then show ?thesis using step H eq as bs False ne neq Z by simp
    qed
  qed
qed

lemma ancestorLoop_fails:
  "len \<ge> maxAncestorChainLength \<or> parentOf client hA = None \<or> parentOf client hB = None \<Longrightarrow>
   fst (ancestorLoop client len cA cB hA hB) = None"
  by (subst ancestorLoop.simps) (auto simp: parentOf_def split: sum.splits)

lemma forkOf_snoc:
  assumes "forkOf client a as bs" and "length as \<ge> length bs" and "parentOf client c = Some (last as)"
  shows "forkOf client a (as @ [c]) bs"
  using assms by (auto simp: forkOf_def linked_snoc nth_append)

lemma forkOf_snoc':
  assumes "forkOf client a as bs" and "length bs \<ge> length as" and "parentOf client c = Some (last bs)"
  shows "forkOf client a as (bs @ [c])"
  using assms by (auto simp: forkOf_def linked_snoc nth_append)

lemma forkOf_snoc2:
  assumes "forkOf client a as bs" and "length as = length bs" and "last as \<noteq> last bs"
    and "parentOf client c = Some (last as)" and "parentOf client d = Some (last bs)"
  shows "forkOf client a (as @ [c]) (bs @ [d])"
proof -
  have ne: "as \<noteq> []" "bs \<noteq> []" using assms(1) by (simp_all add: forkOf_def)
  have "as ! i \<noteq> bs ! i" if "i < length as" for i
  proof (cases "Suc i < length as")
    case True
    then show ?thesis using assms(1,2) by (simp add: forkOf_def)
  next
    case False
    then have "i = length as - 1" using that by simp
    then show ?thesis using assms(2,3) ne by (simp add: last_conv_nth)
  qed
  then show ?thesis using assms ne by (auto simp: forkOf_def linked_snoc nth_append)
qed

lemma forkOf_heights:
  assumes "consistentNode client" and "forkOf client a as bs"
  shows "heightOf client (last as) = heightOf client a + length as"
    and "heightOf client (last bs) = heightOf client a + length bs"
  using linked_height(1)[OF assms(1), of a as] linked_height(1)[OF assms(1), of a bs] assms(2)
  by (auto simp: forkOf_def)

lemma ancestorLoop_sound:
  assumes "consistentNode client" and "ancestorLoop client len cA cB hA hB = (Some a, A, B, e)"
  shows "\<exists>as bs. A = as @ cA \<and> B = bs @ cB \<and> e = None \<and> forkOf client a as bs \<and> last as = hA \<and> last bs = hB \<and>
    len + max (length as) (length bs) \<le> maxAncestorChainLength"
  using assms(2)
proof (induction "maxAncestorChainLength - len" arbitrary: len cA cB hA hB rule: less_induct)
  case less
  obtain pA pB where k: "len < maxAncestorChainLength" "parentOf client hA = Some pA" "parentOf client hB = Some pB"
    using ancestorLoop_fails[of len client hA hB cA cB] less.prems by fastforce
  note step = ancestorLoop_step[OF k, of cA cB]
  have dec: "maxAncestorChainLength - (len + 1) < maxAncestorChainLength - len" using k(1) by simp
  have up: "heightOf client h = heightOf client p + 1" if "parentOf client h = Some p" "parentOf client p \<noteq> None" for h p
    using consistentNodeD(1,3)[OF assms(1)] that by metis
  have known: "parentOf client (last as) \<noteq> None" "parentOf client (last bs) \<noteq> None" if "forkOf client a as bs" for as bs
    using that by (cases as rule: rev_cases; cases bs rule: rev_cases; simp add: forkOf_def linked_snoc)+
  consider (A) "heightOf client hA > heightOf client hB" | (B) "heightOf client hB > heightOf client hA"
    | (eq) "heightOf client hA = heightOf client hB" by linarith
  then show ?case
  proof cases
    case A
    then obtain as bs where r: "A = as @ hA # cA" "B = bs @ cB" "e = None" "forkOf client a as bs" "last as = pA" "last bs = hB"
      "len + 1 + max (length as) (length bs) \<le> maxAncestorChainLength"
      using less.hyps[OF dec, of "hA # cA" cB pA hB] less.prems step by auto
    have "length as \<ge> length bs"
      using forkOf_heights[OF assms(1) r(4)] A up[OF k(2)] known[OF r(4)] r(5,6) by simp
    then have "forkOf client a (as @ [hA]) bs" using forkOf_snoc[OF r(4)] k(2) r(5) by simp
    then show ?thesis using r by (intro exI[of _ "as @ [hA]"] exI[of _ bs]) auto
  next
    case B
    then obtain as bs where r: "A = as @ cA" "B = bs @ hB # cB" "e = None" "forkOf client a as bs" "last as = hA" "last bs = pB"
      "len + 1 + max (length as) (length bs) \<le> maxAncestorChainLength"
      using less.hyps[OF dec, of cA "hB # cB" hA pB] less.prems step by auto
    have "length bs \<ge> length as"
      using forkOf_heights[OF assms(1) r(4)] B up[OF k(3)] known[OF r(4)] r(5,6) by simp
    then have "forkOf client a as (bs @ [hB])" using forkOf_snoc'[OF r(4)] k(3) r(6) by simp
    then show ?thesis using r by (intro exI[of _ as] exI[of _ "bs @ [hB]"]) auto
  next
    case eq
    show ?thesis
    proof (cases "pA = 0 \<or> pA = pB")
      case True
      then have "pA \<noteq> 0" "pA = pB" "a = pA" "A = hA # cA" "B = hB # cB" "e = None"
        using step eq less.prems by (auto split: if_splits)
      then show ?thesis
        using k by (intro exI[of _ "[hA]"] exI[of _ "[hB]"]) (auto simp: forkOf_def)
    next
      case False
      then obtain as bs where r: "A = as @ hA # cA" "B = bs @ hB # cB" "e = None" "forkOf client a as bs"
        "last as = pA" "last bs = pB" "len + 1 + max (length as) (length bs) \<le> maxAncestorChainLength"
        using less.hyps[OF dec, of "hA # cA" "hB # cB" pA pB] less.prems step eq by auto
      have "length as = length bs"
        using forkOf_heights[OF assms(1) r(4)] eq up[OF k(2)] up[OF k(3)] known[OF r(4)] r(5,6) by simp
      then have "forkOf client a (as @ [hA]) (bs @ [hB])"
        using forkOf_snoc2[OF r(4)] k r(5,6) False by simp
      then show ?thesis using r by (intro exI[of _ "as @ [hA]"] exI[of _ "bs @ [hB]"]) auto
    qed
  qed
qed

lemma CommonAncestor_forks:
  assumes "consistentNode client" and "CommonAncestor (Some client) hA hB = (Some a, A, B, e)"
  shows "a \<noteq> 0" and "A \<noteq> []" and "B \<noteq> []" and "linked client a A" and "linked client a B"
    and "last A = hA" and "last B = hB"
  using ancestorLoop_sound[OF assms(1), of 0 "[]" "[]" hA hB a A B e] assms(2)
  by (auto simp: CommonAncestor_def forkOf_def)

subsection \<open>Side chains and orphans\<close>

text \<open>The list is a side chain on top of the block \<open>base\<close>, lowest block first.\<close>

fun sideLinked :: "(string \<Rightarrow> Hash option) \<Rightarrow> 'y BlockFetcher \<Rightarrow> string \<Rightarrow> string list \<Rightarrow> bool" where
  "sideLinked nh client base [] = True"
| "sideLinked nh client base (c # cs) =
     ((case GetBlockHeaderVerboseByString nh client c of
         None \<Rightarrow> False
       | Some h \<Rightarrow> hvConfirmations h = -1 \<and> hvPreviousHash h = base) \<and> sideLinked nh client c cs)"

lemma sideLinked_snoc:
  "sideLinked nh client base (cs @ [c]) \<longleftrightarrow> sideLinked nh client base cs \<and>
     (case GetBlockHeaderVerboseByString nh client c of
        None \<Rightarrow> False
      | Some h \<Rightarrow> hvConfirmations h = -1 \<and> hvPreviousHash h = last (base # cs))"
proof (induction cs arbitrary: base)
  case Nil
  show ?case by (cases "GetBlockHeaderVerboseByString nh client c") simp_all
next
  case (Cons d cs)
  have l: "last (base # d # cs) = last (d # cs)" by simp
  show ?case unfolding append_Cons sideLinked.simps Cons.IH l by (rule conj_assoc[symmetric])
qed

lemma sideChainLoop_walks:
  assumes "sideLinked nh client base cs" and "GetBlockHeaderVerboseByString nh client base = Some h"
    and "hvConfirmations h \<noteq> -1" and "tip \<noteq> base"
  shows "sideChainLoop nh client tip acc (last (base # cs)) = Some (Inr (acc @ rev cs))"
  using assms(1)
proof (induction cs arbitrary: acc rule: rev_induct)
  case Nil
  then show ?case using assms(2-4) by (subst sideChainLoop.simps) simp
next
  case (snoc c cs)
  then obtain hc where hc: "GetBlockHeaderVerboseByString nh client c = Some hc" "hvConfirmations hc = -1"
    "hvPreviousHash hc = last (base # cs)" and l: "sideLinked nh client base cs"
    by (auto simp: sideLinked_snoc split: option.splits)
  show ?case using snoc.IH[OF l, of "acc @ [c]"] hc by (subst sideChainLoop.simps) simp
qed

text \<open>Whether database and node have the same block at a height.\<close>

definition sameBlock :: "(Hash \<Rightarrow> string) \<Rightarrow> 'y BlockFetcher \<Rightarrow> (int \<Rightarrow> string + string) \<Rightarrow> int \<Rightarrow> bool" where
  "sameBlock hs client hashFunc h =
     (case hashFunc h of Inl _ \<Rightarrow> False
      | Inr d \<Rightarrow> (case fGetBlockHash client h of Inl _ \<Rightarrow> False | Inr n \<Rightarrow> hs n = d))"

definition bothKnown :: "'y BlockFetcher \<Rightarrow> (int \<Rightarrow> string + string) \<Rightarrow> int \<Rightarrow> bool" where
  "bothKnown client hashFunc h \<longleftrightarrow> \<not> isl (hashFunc h) \<and> \<not> isl (fGetBlockHash client h)"

lemma orphanLoop_spec:
  assumes "\<And>h. 0 \<le> h \<Longrightarrow> h \<le> c \<Longrightarrow> bothKnown client hashFunc h \<and> \<not> cancelled h" and "0 \<le> c"
  shows "orphanLoop hs cancelled client hashFunc tip c = (n, e) \<longleftrightarrow>
    (if \<exists>h. 0 \<le> h \<and> h \<le> c \<and> sameBlock hs client hashFunc h
     then e = None \<and> 0 \<le> tip - n \<and> tip - n \<le> c \<and> sameBlock hs client hashFunc (tip - n) \<and>
       (\<forall>h. tip - n < h \<and> h \<le> c \<longrightarrow> \<not> sameBlock hs client hashFunc h)
     else e = Some NoCommonAncestor \<and> n = -1)"
  using assms
proof (induction "nat c" arbitrary: c rule: less_induct)
  case less
  have c: "bothKnown client hashFunc c" "\<not> cancelled c" using less.prems by auto
  then obtain d b where db: "hashFunc c = Inr d" "fGetBlockHash client c = Inr b"
    by (auto simp: bothKnown_def isl_def split: sum.splits) (metis sum.exhaust)
  have same: "sameBlock hs client hashFunc c \<longleftrightarrow> hs b = d" using db by (simp add: sameBlock_def)
  note step = orphanLoop.simps[of hs cancelled client hashFunc tip c]
  show ?case
  proof (cases "hs b = d")
    case True
    then have r: "orphanLoop hs cancelled client hashFunc tip c = (tip - c, None)" using step db c by simp
    have ex: "\<exists>h. 0 \<le> h \<and> h \<le> c \<and> sameBlock hs client hashFunc h" using less.prems(2) same True by blast
    have "e = None \<and> n = tip - c" if "tip - n \<le> c" "\<forall>h. tip - n < h \<and> h \<le> c \<longrightarrow> \<not> sameBlock hs client hashFunc h" "e = None"
      using that same True by (cases "tip - n < c") auto
    then show ?thesis unfolding r if_P[OF ex] using same True less.prems(2) by auto
  next
    case False
    note ns = False[folded same]
    show ?thesis
    proof (cases "c = 0")
      case True
      then have r: "orphanLoop hs cancelled client hashFunc tip c = (-1, Some NoCommonAncestor)"
        using step db c False by simp
      have nex: "\<not> (\<exists>h. 0 \<le> h \<and> h \<le> c \<and> sameBlock hs client hashFunc h)" using ns True by (auto dest: order_antisym)
      show ?thesis unfolding r if_not_P[OF nex] by auto
    next
      case False': False
      then have c1: "0 \<le> c - 1" "nat (c - 1) < nat c" using less.prems(2) by simp_all
      have r: "orphanLoop hs cancelled client hashFunc tip c = orphanLoop hs cancelled client hashFunc tip (c - 1)"
        using step db c False c1 by simp
      have range: "h \<le> c \<longleftrightarrow> h \<le> c - 1 \<or> h = c" for h by linarith
      have IH: "orphanLoop hs cancelled client hashFunc tip (c - 1) = (n, e) \<longleftrightarrow>
        (if \<exists>h. 0 \<le> h \<and> h \<le> c - 1 \<and> sameBlock hs client hashFunc h
         then e = None \<and> 0 \<le> tip - n \<and> tip - n \<le> c - 1 \<and> sameBlock hs client hashFunc (tip - n) \<and>
           (\<forall>h. tip - n < h \<and> h \<le> c - 1 \<longrightarrow> \<not> sameBlock hs client hashFunc h)
         else e = Some NoCommonAncestor \<and> n = -1)"
        by (rule less.hyps[OF c1(2) _ c1(1)]) (use less.prems(1) in auto)
      show ?thesis unfolding r IH range using ns by auto
    qed
  qed
qed

text \<open>A cancelled scan reports no error and no orphans, whatever the chains are.\<close>

lemma OrphanedTipLength_cancelled:
  "cancelled tip \<Longrightarrow> OrphanedTipLength hs cancelled client tip hashFunc = (0, None)"
  by (simp add: OrphanedTipLength_def orphanLoop.simps)

subsection \<open>Properties\<close>

text \<open>
  Example data: a node with the blocks 1 (below which nothing is known), 2 on 1, then 3 and 4 on 2, and
  5 on 4; a hash prints as that many letters.
\<close>

definition exParent :: "Hash \<Rightarrow> Hash option" where
  "exParent h = (if h = 1 then Some 0 else if h = 2 then Some 1 else if h = 3 then Some 2 else if h = 4 then Some 2
     else if h = 5 then Some 4 else None)"

definition exHeight :: "Hash \<Rightarrow> 32 word" where
  "exHeight h = (if h = 1 then 0 else if h = 2 then 1 else if h = 3 then 2 else if h = 4 then 2 else 3)"

definition exPrint :: "Hash \<Rightarrow> string" where
  "exPrint h = replicate (unat h) (CHR ''a'')"

definition exParseHash :: "string \<Rightarrow> Hash option" where
  "exParseHash s = Some (of_nat (length s))"

definition exNode :: "unit BlockFetcher" where
  "exNode = \<lparr>fGetBestBlock = Inr (5, 3),
     fGetBlock = (\<lambda>h. case exParent h of None \<Rightarrow> Inl ''unknown''
       | Some p \<Rightarrow> Inr \<lparr>mbHeight = exHeight h, mbPrevBlock = p, mbBlockHash = h, mbRest = ()\<rparr>),
     fGetBlockHash = (\<lambda>i. if i = 0 then Inr 1 else if i = 1 then Inr 2 else if i = 2 then Inr 4
       else if i = 3 then Inr 5 else Inl ''out of range''),
     fGetBlockHeaderVerbose = (\<lambda>h. case exParent h of None \<Rightarrow> Inl ''unknown''
       | Some p \<Rightarrow> Inr \<lparr>hvHash = exPrint h, hvHeight = exHeight h, hvConfirmations = (if h = 3 then -1 else 1),
           hvPreviousHash = exPrint p, hvNextHash = [], hvChainWork = []\<rparr>)\<rparr>"

lemma exNode_parent: "parentOf exNode h = exParent h"
  by (simp add: parentOf_def exNode_def split: option.split)

lemma exNode_consistent: "consistentNode exNode"
  unfolding consistentNode_def exNode_parent
  by (auto simp: exParent_def heightOf_def exNode_def exHeight_def split: if_splits)

text \<open>C20: CommonAncestor finds the fork of two tips. On a node whose blocks have their parents, it returns a
  block and two chains exactly if the chains lead from that block to the two tips, neither is empty, they
  differ at each height at which both go on, and neither is longer than the limit; it then returns no
  error. So for two branches without a common block it returns the branches and the block below them.\<close>

theorem CommonAncestor_iff:
  assumes "consistentNode client"
  shows "CommonAncestor (Some client) hashA hashB = (Some a, chainA, chainB, None) \<longleftrightarrow>
    a \<noteq> 0 \<and> chainA \<noteq> [] \<and> chainB \<noteq> [] \<and> last chainA = hashA \<and> last chainB = hashB \<and>
    linked client a chainA \<and> linked client a chainB \<and>
    (\<forall>i. Suc i < length chainA \<and> Suc i < length chainB \<longrightarrow> chainA ! i \<noteq> chainB ! i) \<and>
    length chainA \<le> 8192 \<and> length chainB \<le> 8192"
  using ancestorLoop_sound[OF assms, of 0 "[]" "[]" hashA hashB a chainA chainB None]
    ancestorLoop_finds[OF assms, of a chainA chainB 0 "[]" "[]"]
  unfolding CommonAncestor_def option.case forkOf_def maxAncestorChainLength_def
  by (auto simp: max_def split: if_splits)

theorem CommonAncestor_iff_witness:
  "CommonAncestor (Some exNode) 3 5 = (Some 2, [3], [4, 5], None)"
  using CommonAncestor_iff[OF exNode_consistent, of 3 5 2 "[3]" "[4, 5]"]
  by (simp add: exNode_parent exParent_def)

text \<open>The number of orphaned blocks. If database and node know all heights up to the tip and the scan is not
  cancelled, OrphanedTipLength returns the number of blocks above the highest one that both agree on,
  and the error exactly if they agree on none.\<close>

theorem OrphanedTipLength_spec:
  assumes "\<forall>h. 0 \<le> h \<and> h \<le> tip \<longrightarrow> bothKnown client hashFunc h \<and> \<not> cancelled h" and "0 \<le> tip"
  shows "OrphanedTipLength hs cancelled client tip hashFunc = (n, e) \<longleftrightarrow>
    (if \<exists>h. 0 \<le> h \<and> h \<le> tip \<and> sameBlock hs client hashFunc h
     then e = None \<and> 0 \<le> tip - n \<and> 0 \<le> n \<and> sameBlock hs client hashFunc (tip - n) \<and>
       (\<forall>h. tip - n < h \<and> h \<le> tip \<longrightarrow> \<not> sameBlock hs client hashFunc h)
     else e = Some NoCommonAncestor \<and> n = -1)"
  using orphanLoop_spec[of tip client hashFunc cancelled hs tip n e] assms unfolding OrphanedTipLength_def by auto

theorem OrphanedTipLength_spec_witness:
  "OrphanedTipLength exPrint (\<lambda>_. False) exNode 2
     (\<lambda>h. if h = 2 then Inr (exPrint 3) else if h = 1 then Inr (exPrint 2) else Inr (exPrint 1)) = (1, None)"
proof -
  let ?db = "\<lambda>h::int. if h = 2 then Inr (exPrint 3) else if h = 1 then Inr (exPrint 2) else (Inr (exPrint 1) :: string + string)"
  have k: "\<forall>h. 0 \<le> h \<and> h \<le> 2 \<longrightarrow> bothKnown exNode ?db h \<and> \<not> (\<lambda>_. False) h"
    by (auto simp: bothKnown_def exNode_def)
  have s: "sameBlock exPrint exNode ?db 1" "\<not> sameBlock exPrint exNode ?db 2"
    by (simp_all add: sameBlock_def exNode_def exPrint_def replicate_eq_replicate)
  have "(\<forall>h. 1 < h \<and> h \<le> (2::int) \<longrightarrow> \<not> sameBlock exPrint exNode ?db h)"
  proof (intro allI impI)
    fix h :: int assume "1 < h \<and> h \<le> 2"
    then have "h = 2" by simp
    then show "\<not> sameBlock exPrint exNode ?db h" using s(2) by simp
  qed
  moreover have "\<exists>h. 0 \<le> h \<and> h \<le> 2 \<and> sameBlock exPrint exNode ?db h" using s(1) by (intro exI[of _ 1]) simp
  ultimately show ?thesis
    using OrphanedTipLength_spec[OF k, of exPrint 1 None] s(1) by simp
qed

text \<open>SideChainFull ends and returns the whole side chain. If the tip ends a chain of blocks off the main
  chain on top of a main chain block, the walk back ends there and returns exactly that chain, lowest
  block first; a tip on the main chain is refused.\<close>

theorem SideChainFull_spec:
  assumes "sideLinked nh client base chain" and "GetBlockHeaderVerboseByString nh client base = Some h"
    and "hvConfirmations h \<noteq> -1"
  shows "SideChainFull nh client (last (base # chain)) =
    Some (if chain = [] then Inl NotSideChain else Inr chain)"
proof (cases "chain = []")
  case True
  then show ?thesis using assms(2,3) by (simp add: SideChainFull_def sideChainLoop.simps)
next
  case False
  obtain cs c where c: "chain = cs @ [c]" using False by (metis rev_exhaust)
  then have "last (base # chain) \<noteq> base"
    using assms by (auto simp: sideLinked_snoc split: option.splits)
  then show ?thesis
    using sideChainLoop_walks[OF assms, of "last (base # chain)" "[]"] False
    by (simp add: SideChainFull_def reverseStringSlice_rev)
qed

theorem SideChainFull_spec_witness:
  "SideChainFull exParseHash exNode (exPrint 3) = Some (Inr [exPrint 3])"
proof -
  have h: "\<exists>h. GetBlockHeaderVerboseByString exParseHash exNode (exPrint 2) = Some h \<and> hvConfirmations h \<noteq> -1"
    and l: "sideLinked exParseHash exNode (exPrint 2) [exPrint 3]"
    by (simp_all add: GetBlockHeaderVerboseByString_def exParseHash_def exPrint_def exNode_def exParent_def)
  then show ?thesis using SideChainFull_spec[OF l] by auto
qed

end
