(* ===== verification/Notifier.thy ===== *)
theory Notifier
  imports ChainRpc
begin

text \<open>
  The notifier of \<open>notification/notifier.go\<close>: a queue of the blocks, reorganizations and transactions
  that the node reports, and the goroutine \<open>superQueue\<close> that hands them one after the other to groups of
  registered handlers.

  A handler is an opaque name; what it does is not modelled, but each call is recorded in \<open>ntCalls\<close>, in
  the order in which the calls are made. The handlers of a group run at the same time, so the order
  inside a group is that of their start. Whether all handlers of a group are done before the deadline
  is the parameter \<open>finishes\<close>, of the message and the number of the group. A handler's error is only
  logged. The header bytes are parsed by the parameter \<open>fromBytes\<close>. The registration of notifications
  with the node in \<open>Listen\<close> is a network call; the node is kept in the state.
\<close>

subsection \<open>The notifier\<close>

record BranchTips =
  btOldChainHead :: Hash
  btOldChainHeight :: int
  btNewChainHead :: Hash
  btNewChainHeight :: int

record 'z TxRaw =
  txTime :: int
  txRest :: 'z

datatype ('y, 'z) message =
    NewBlock "'y MsgBlock"
  | Reorganized BranchTips
  | NewTx "'z TxRaw"

text \<open>A \<open>Lite\<close> handler is a handler that was translated by \<open>RegisterBlockHandlerLiteGroup\<close>.\<close>

datatype 'h blockHandler = Full 'h | Lite 'h

datatype ('h, 'y, 'z) call =
    BlockCall 'h "'y MsgBlock"
  | LiteCall 'h "32 word" string
  | ReorgCall 'h ReorgData
  | TxCall 'h "'z TxRaw"

record ('h, 'y, 'z) Notifier =
  ntNode :: "'y BlockFetcher"
  ntAnyQ :: "('y, 'z) message list"
  ntTx :: "'h list list"
  ntBlock :: "'h blockHandler list list"
  ntReorg :: "'h list list"
  ntPreviousHash :: Hash
  ntPreviousHeight :: "32 word"
  ntCalls :: "('h, 'y, 'z) call list"

definition NewNotifier :: "'y BlockFetcher \<Rightarrow> ('h, 'y, 'z) Notifier" where
  "NewNotifier node =
     \<lparr>ntNode = node, ntAnyQ = [], ntTx = [], ntBlock = [], ntReorg = [], ntPreviousHash = 0,
      ntPreviousHeight = 0, ntCalls = []\<rparr>"

definition RegisterTxHandlerGroup :: "'h list \<Rightarrow> ('h, 'y, 'z) Notifier \<Rightarrow> ('h, 'y, 'z) Notifier" where
  "RegisterTxHandlerGroup handlers nt = nt\<lparr>ntTx := ntTx nt @ [handlers]\<rparr>"

definition RegisterBlockHandlerGroup ::
    "'h blockHandler list \<Rightarrow> ('h, 'y, 'z) Notifier \<Rightarrow> ('h, 'y, 'z) Notifier" where
  "RegisterBlockHandlerGroup handlers nt = nt\<lparr>ntBlock := ntBlock nt @ [handlers]\<rparr>"

definition RegisterBlockHandlerLiteGroup :: "'h list \<Rightarrow> ('h, 'y, 'z) Notifier \<Rightarrow> ('h, 'y, 'z) Notifier" where
  "RegisterBlockHandlerLiteGroup handlers nt = RegisterBlockHandlerGroup (map Lite handlers) nt"

definition RegisterReorgHandlerGroup :: "'h list \<Rightarrow> ('h, 'y, 'z) Notifier \<Rightarrow> ('h, 'y, 'z) Notifier" where
  "RegisterReorgHandlerGroup handlers nt = nt\<lparr>ntReorg := ntReorg nt @ [handlers]\<rparr>"

definition SetPreviousBlock :: "Hash \<Rightarrow> 32 word \<Rightarrow> ('h, 'y, 'z) Notifier \<Rightarrow> ('h, 'y, 'z) Notifier" where
  "SetPreviousBlock prevHash prevHeight nt = nt\<lparr>ntPreviousHash := prevHash, ntPreviousHeight := prevHeight\<rparr>"

subsection \<open>Receiving\<close>

text \<open>Sending on the channel, whose buffer has 1024 places: \<open>None\<close> if the sender has to wait.\<close>

definition send :: "('y, 'z) message \<Rightarrow> ('h, 'y, 'z) Notifier \<Rightarrow> ('h, 'y, 'z) Notifier option" where
  "send msg nt = (if length (ntAnyQ nt) < 1024 then Some (nt\<lparr>ntAnyQ := ntAnyQ nt @ [msg]\<rparr>) else None)"

definition onBlockConnected ::
    "('b \<Rightarrow> 'y MsgBlock option) \<Rightarrow> 'b \<Rightarrow> ('h, 'y, 'z) Notifier \<Rightarrow> ('h, 'y, 'z) Notifier option" where
  "onBlockConnected fromBytes blockHeaderSerialized nt =
     (case fromBytes blockHeaderSerialized of
        None \<Rightarrow> Some nt
      | Some blockHeader \<Rightarrow> send (NewBlock blockHeader) nt)"

definition onReorganization ::
    "Hash \<Rightarrow> int \<Rightarrow> Hash \<Rightarrow> int \<Rightarrow> ('h, 'y, 'z) Notifier \<Rightarrow> ('h, 'y, 'z) Notifier option" where
  "onReorganization oldHash oldHeight newHash newHeight nt =
     send (Reorganized \<lparr>btOldChainHead = oldHash, btOldChainHeight = oldHeight, btNewChainHead = newHash,
       btNewChainHeight = newHeight\<rparr>) nt"

definition onTxAcceptedVerbose :: "int \<Rightarrow> 'z TxRaw \<Rightarrow> ('h, 'y, 'z) Notifier \<Rightarrow> ('h, 'y, 'z) Notifier option" where
  "onTxAcceptedVerbose now tx nt = send (NewTx (tx\<lparr>txTime := now\<rparr>)) nt"

subsection \<open>Processing\<close>

text \<open>
  The loop over the groups: each group is started, and the next one only if the group is done before
  the deadline. The result has the handlers that were started and whether all groups were done.
\<close>

fun runGroups :: "(nat \<Rightarrow> bool) \<Rightarrow> nat \<Rightarrow> 'a list list \<Rightarrow> 'a list \<times> bool" where
  "runGroups done i [] = ([], True)"
| "runGroups done i (handlers # groups) =
     (if done i then (let (started, ok) = runGroups done (i + 1) groups in (handlers @ started, ok))
      else (handlers, False))"

fun callBlock :: "(Hash \<Rightarrow> string) \<Rightarrow> 'y MsgBlock \<Rightarrow> 'h blockHandler \<Rightarrow> ('h, 'y, 'z) call" where
  "callBlock hs bh (Full h) = BlockCall h bh"
| "callBlock hs bh (Lite h) = LiteCall h (mbHeight bh) (hs (mbBlockHash bh))"

definition processBlock ::
    "(Hash \<Rightarrow> string) \<Rightarrow> (nat \<Rightarrow> bool) \<Rightarrow> 'y MsgBlock \<Rightarrow> ('h, 'y, 'z) Notifier \<Rightarrow> ('h, 'y, 'z) Notifier" where
  "processBlock hs done bh nt =
     (if mbPrevBlock bh \<noteq> ntPreviousHash nt then nt
      else let (started, ok) = runGroups done 0 (ntBlock nt);
               nt1 = nt\<lparr>ntCalls := ntCalls nt @ map (callBlock hs bh) started\<rparr>
           in if ok then SetPreviousBlock (mbBlockHash bh) (mbHeight bh) nt1 else nt1)"

definition processTx ::
    "(nat \<Rightarrow> bool) \<Rightarrow> 'z TxRaw \<Rightarrow> ('h, 'y, 'z) Notifier \<Rightarrow> ('h, 'y, 'z) Notifier" where
  "processTx done tx nt =
     (let (started, ok) = runGroups done 0 (ntTx nt)
      in nt\<lparr>ntCalls := ntCalls nt @ map (\<lambda>h. TxCall h tx) started\<rparr>)"

definition signalReorg ::
    "(nat \<Rightarrow> bool) \<Rightarrow> BranchTips \<Rightarrow> ('h, 'y, 'z) Notifier \<Rightarrow> ('h, 'y, 'z) Notifier" where
  "signalReorg done d nt =
     (case CommonAncestor (Some (ntNode nt)) (btNewChainHead d) (btOldChainHead d) of
        (Some ancestor, newChain, oldChain, None) \<Rightarrow>
          let reorg = \<lparr>rdCommonAncestor = ancestor, rdOldChainHead = btOldChainHead d,
                rdOldChainHeight = btOldChainHeight d, rdOldChain = oldChain, rdNewChainHead = btNewChainHead d,
                rdNewChainHeight = btNewChainHeight d, rdNewChain = newChain\<rparr>;
              (started, ok) = runGroups done 0 (ntReorg nt);
              nt1 = nt\<lparr>ntCalls := ntCalls nt @ map (\<lambda>h. ReorgCall h reorg) started\<rparr>
          in if ok then SetPreviousBlock (btNewChainHead d) (word_of_int (btNewChainHeight d)) nt1 else nt1
      | _ \<Rightarrow> nt)"

definition handle ::
    "(Hash \<Rightarrow> string) \<Rightarrow> (('y, 'z) message \<Rightarrow> nat \<Rightarrow> bool) \<Rightarrow> ('y, 'z) message
     \<Rightarrow> ('h, 'y, 'z) Notifier \<Rightarrow> ('h, 'y, 'z) Notifier" where
  "handle hs finishes msg nt =
     (case msg of
        NewBlock bh \<Rightarrow> processBlock hs (finishes msg) bh nt
      | Reorganized d \<Rightarrow> signalReorg (finishes msg) d nt
      | NewTx tx \<Rightarrow> processTx (finishes msg) tx nt)"

text \<open>\<open>superQueue\<close> until the queue is empty, where it waits for the next message.\<close>

function superQueue ::
    "(Hash \<Rightarrow> string) \<Rightarrow> (('y, 'z) message \<Rightarrow> nat \<Rightarrow> bool) \<Rightarrow> ('h, 'y, 'z) Notifier \<Rightarrow> ('h, 'y, 'z) Notifier" where
  "superQueue hs finishes nt =
     (case ntAnyQ nt of
        [] \<Rightarrow> nt
      | msg # msgs \<Rightarrow> superQueue hs finishes (handle hs finishes msg (nt\<lparr>ntAnyQ := msgs\<rparr>)))"
  by pat_completeness auto

lemma SetPreviousBlock_sel [simp]:
  "ntAnyQ (SetPreviousBlock h k nt) = ntAnyQ nt" "ntNode (SetPreviousBlock h k nt) = ntNode nt"
  "ntBlock (SetPreviousBlock h k nt) = ntBlock nt" "ntReorg (SetPreviousBlock h k nt) = ntReorg nt"
  "ntTx (SetPreviousBlock h k nt) = ntTx nt" "ntCalls (SetPreviousBlock h k nt) = ntCalls nt"
  "ntPreviousHash (SetPreviousBlock h k nt) = h"
  by (simp_all add: SetPreviousBlock_def)

lemma handle_sel [simp]:
  "ntAnyQ (handle hs finishes msg nt) = ntAnyQ nt" "ntNode (handle hs finishes msg nt) = ntNode nt"
  "ntBlock (handle hs finishes msg nt) = ntBlock nt" "ntReorg (handle hs finishes msg nt) = ntReorg nt"
  "ntTx (handle hs finishes msg nt) = ntTx nt"
  by (auto simp: handle_def processBlock_def processTx_def signalReorg_def Let_def
      split: message.split prod.split option.split)

termination superQueue
  by (relation "measure (\<lambda>(_, _, nt). length (ntAnyQ nt))") auto

declare superQueue.simps [simp del]

subsection \<open>The queue in order\<close>

lemma handle_requeue: "handle hs finishes msg (nt\<lparr>ntAnyQ := q\<rparr>) = (handle hs finishes msg nt)\<lparr>ntAnyQ := q\<rparr>"
  by (auto simp: handle_def processBlock_def processTx_def signalReorg_def SetPreviousBlock_def Let_def
      split: message.split prod.split option.split)

text \<open>Messages are handled in the order in which they were sent.\<close>

lemma superQueue_fold:
  "superQueue hs finishes nt = (fold (handle hs finishes) (ntAnyQ nt) nt)\<lparr>ntAnyQ := []\<rparr>"
proof (induction hs finishes nt rule: superQueue.induct)
  case (1 hs finishes nt)
  show ?case
  proof (cases "ntAnyQ nt")
    case Nil
    then show ?thesis by (subst superQueue.simps) simp
  next
    case (Cons msg msgs)
    have fold_requeue: "fold (handle hs finishes) ms (x\<lparr>ntAnyQ := q\<rparr>) = (fold (handle hs finishes) ms x)\<lparr>ntAnyQ := q\<rparr>" for ms x q
      by (induction ms arbitrary: x) (simp_all add: handle_requeue)
    have "superQueue hs finishes nt = superQueue hs finishes (handle hs finishes msg (nt\<lparr>ntAnyQ := msgs\<rparr>))"
      using Cons by (subst superQueue.simps) simp
    also have "\<dots> = (fold (handle hs finishes) msgs (handle hs finishes msg (nt\<lparr>ntAnyQ := msgs\<rparr>)))\<lparr>ntAnyQ := []\<rparr>"
      using "1.IH"[OF Cons] by simp
    also have "\<dots> = (fold (handle hs finishes) (ntAnyQ nt) nt)\<lparr>ntAnyQ := []\<rparr>"
      by (simp add: Cons handle_requeue fold_requeue)
    finally show ?thesis .
  qed
qed

lemma runGroups_done: "(\<And>i. done i) \<Longrightarrow> runGroups done i groups = (concat groups, True)"
  by (induction groups arbitrary: i) simp_all

lemma runGroups_prefix: "\<exists>k. fst (runGroups done i groups) = concat (take k groups)"
proof (induction groups arbitrary: i)
  case Nil
  show ?case by simp
next
  case (Cons g gs)
  show ?case
  proof (cases "done i")
    case True
    obtain k where "fst (runGroups done (i + 1) gs) = concat (take k gs)" using Cons by blast
    then have "fst (runGroups done i (g # gs)) = concat (take (Suc k) (g # gs))"
      using True by (simp add: case_prod_beta)
    then show ?thesis by blast
  next
    case False
    then have "fst (runGroups done i (g # gs)) = concat (take 1 (g # gs))" by simp
    then show ?thesis by blast
  qed
qed

subsection \<open>Following the notifications\<close>

text \<open>
  A consumer that keeps its view of the chain on top of a block \<open>base\<close>: it adds each block that it is
  handed, and on a reorganization goes back to the ancestor and adds the new chain.
\<close>

definition cutAt :: "Hash \<Rightarrow> Hash \<Rightarrow> Hash list \<Rightarrow> Hash list" where
  "cutAt base a view = (if a = base then [] else takeWhile (\<lambda>h. h \<noteq> a) view @ [a])"

fun follow1 :: "'h \<Rightarrow> Hash \<Rightarrow> ('h, 'y, 'z) call \<Rightarrow> Hash list \<Rightarrow> Hash list" where
  "follow1 c base (BlockCall h b) view = (if h = c then view @ [mbBlockHash b] else view)"
| "follow1 c base (ReorgCall h r) view =
     (if h = c then cutAt base (rdCommonAncestor r) view @ rdNewChain r else view)"
| "follow1 c base _ view = view"

definition follow :: "'h \<Rightarrow> Hash \<Rightarrow> ('h, 'y, 'z) call list \<Rightarrow> Hash list \<Rightarrow> Hash list" where
  "follow c base calls view = fold (follow1 c base) calls view"

text \<open>
  What a node sends, given the best block \<open>p\<close> of the notifier: blocks that it knows, and reorganizations
  away from the best block that do not go below \<open>base\<close>. A block may still not connect to \<open>p\<close>.
\<close>

fun nodeSends :: "'y BlockFetcher \<Rightarrow> Hash \<Rightarrow> Hash \<Rightarrow> ('y, 'z) message list \<Rightarrow> bool" where
  "nodeSends client base p [] = True"
| "nodeSends client base p (NewBlock b # msgs) =
     (parentOf client (mbBlockHash b) = Some (mbPrevBlock b) \<and>
      nodeSends client base (if mbPrevBlock b = p then mbBlockHash b else p) msgs)"
| "nodeSends client base p (Reorganized d # msgs) =
     (btOldChainHead d = p \<and>
      (case CommonAncestor (Some client) (btNewChainHead d) (btOldChainHead d) of
         (Some a, _, _, None) \<Rightarrow> heightOf client base \<le> heightOf client a \<and>
           nodeSends client base (btNewChainHead d) msgs
       | _ \<Rightarrow> nodeSends client base p msgs))"
| "nodeSends client base p (NewTx tx # msgs) = nodeSends client base p msgs"

lemma linked_append: "linked client a (xs @ ys) \<longleftrightarrow> linked client a xs \<and> linked client (last (a # xs)) ys"
  by (induction xs arbitrary: a) auto

text \<open>Two chains that end in the same block: the shorter one is the end of the longer one.\<close>

lemma linked_same_end:
  assumes "linked client a as" and "linked client b bs" and "last (a # as) = last (b # bs)"
    and "length bs \<le> length as"
  shows "b \<in> set (a # as)"
  using assms
proof (induction bs arbitrary: as rule: rev_induct)
  case Nil
  then show ?case by (metis last.simps last_in_set list.distinct(1))
next
  case (snoc y bs)
  have "as \<noteq> []" using snoc.prems(4) by auto
  then obtain as' x where as: "as = as' @ [x]" by (metis rev_exhaust)
  have "x = y" using snoc.prems(3) as by simp
  then have "last (a # as') = last (b # bs)" using snoc.prems(1,2) as by (auto simp: linked_snoc)
  then have "b \<in> set (a # as')"
    using snoc.IH[of as'] snoc.prems(1,2,4) as by (simp add: linked_snoc)
  then show ?case using as by auto
qed

lemma cutAt_linked:
  assumes "linked client base view" and "a \<in> set (base # view)"
  shows "linked client base (cutAt base a view)" and "last (base # cutAt base a view) = a"
proof -
  have "linked client base (cutAt base a view) \<and> last (base # cutAt base a view) = a"
  proof (cases "a = base")
    case True
    then show ?thesis by (simp add: cutAt_def)
  next
    case False
    then have "a \<in> set view" using assms(2) by simp
    then obtain ys zs where v: "view = ys @ a # zs" "a \<notin> set ys" by (metis split_list_first)
    then have "takeWhile (\<lambda>h. h \<noteq> a) view = ys" unfolding v(1) by (subst takeWhile_append2) auto
    then show ?thesis using False v assms(1) by (auto simp: cutAt_def linked_append)
  qed
  then show "linked client base (cutAt base a view)" "last (base # cutAt base a view) = a" by simp_all
qed

lemma follow_append: "follow c base (xs @ ys) view = follow c base ys (follow c base xs view)"
  by (simp add: follow_def)

text \<open>The consumer \<open>c\<close> occurs once in the groups, so that it is called once for each message.\<close>

lemma follow_blocks:
  "filter (\<lambda>h. h = Full c) hs' = [Full c] \<Longrightarrow>
   follow c base (map (callBlock hs b) hs') view = view @ [mbBlockHash b]"
proof (induction hs' arbitrary: view)
  case Nil
  then show ?case by simp
next
  case (Cons h hs')
  have none: "filter (\<lambda>h. h = Full c) xs = [] \<Longrightarrow> follow c base (map (callBlock hs b) xs) v = v" for xs v
  proof (induction xs arbitrary: v)
    case Nil
    then show ?case by (simp add: follow_def)
  next
    case (Cons x xs)
    then have "x \<noteq> Full c" "filter (\<lambda>h. h = Full c) xs = []" by (simp_all split: if_splits)
    then show ?case using Cons.IH by (cases x) (auto simp: follow_def)
  qed
  show ?case
  proof (cases "h = Full c")
    case True
    then show ?thesis using Cons.prems none by (simp add: follow_def)
  next
    case False
    then show ?thesis using Cons by (cases h) (auto simp: follow_def)
  qed
qed

lemma follow_reorgs:
  "filter (\<lambda>h. h = c) hs' = [c] \<Longrightarrow>
   follow c base (map (\<lambda>h. ReorgCall h r) hs') view = cutAt base (rdCommonAncestor r) view @ rdNewChain r"
proof (induction hs' arbitrary: view)
  case Nil
  then show ?case by simp
next
  case (Cons h hs')
  have none: "filter (\<lambda>h. h = c) xs = [] \<Longrightarrow> follow c base (map (\<lambda>h. ReorgCall h r) xs) v = v" for xs v
    by (induction xs arbitrary: v) (auto simp: follow_def split: if_splits)
  show ?case using Cons none by (cases "h = c") (auto simp: follow_def)
qed

lemma follow_txs: "follow c base (map (\<lambda>h. TxCall h tx) hs') view = view"
  by (induction hs' arbitrary: view) (simp_all add: follow_def)

text \<open>One message: the calls that it adds keep the consumer on a chain that ends in the best block.\<close>

definition inStep :: "'h \<Rightarrow> Hash \<Rightarrow> Hash list \<Rightarrow> ('h, 'y, 'z) Notifier \<Rightarrow> bool" where
  "inStep c base view nt \<longleftrightarrow>
     (let v = follow c base (ntCalls nt) view
      in linked (ntNode nt) base v \<and> last (base # v) = ntPreviousHash nt)"

definition listens :: "'h \<Rightarrow> ('h, 'y, 'z) Notifier \<Rightarrow> bool" where
  "listens c nt \<longleftrightarrow> filter (\<lambda>h. h = Full c) (concat (ntBlock nt)) = [Full c] \<and>
     filter (\<lambda>h. h = c) (concat (ntReorg nt)) = [c]"

lemma handle_inStep:
  fixes nt :: "('h, 'y, 'z) Notifier"
  assumes "consistentNode (ntNode nt)" and "base \<noteq> 0" and "listens c nt" and "inStep c base view nt"
    and "\<And>m i. finishes m i" and "nodeSends (ntNode nt) base (ntPreviousHash nt) (msg # msgs)"
  shows "inStep c base view (handle hs finishes msg nt) \<and>
    nodeSends (ntNode nt) base (ntPreviousHash (handle hs finishes msg nt)) msgs"
proof -
  let ?v = "follow c base (ntCalls nt) view"
  have v: "linked (ntNode nt) base ?v" "last (base # ?v) = ntPreviousHash nt"
    using assms(4) by (simp_all add: inStep_def Let_def)
  note fin = runGroups_done[of "finishes msg" 0, OF assms(5)]
  show ?thesis
  proof (cases msg)
    case (NewBlock b)
    show ?thesis
    proof (cases "mbPrevBlock b = ntPreviousHash nt")
      case True
      have P: "parentOf (ntNode nt) (mbBlockHash b) = Some (mbPrevBlock b)"
        using assms(6) NewBlock by simp
      let ?calls = "map (callBlock hs b) (concat (ntBlock nt)) :: ('h, 'y, 'z) call list"
      have H: "handle hs finishes msg nt =
          SetPreviousBlock (mbBlockHash b) (mbHeight b) (nt\<lparr>ntCalls := ntCalls nt @ ?calls\<rparr>)"
        using True NewBlock fin[of "ntBlock nt"] by (simp add: handle_def processBlock_def Let_def)
      have "follow c base (ntCalls nt @ ?calls) view = ?v @ [mbBlockHash b]"
        using follow_blocks[of c "concat (ntBlock nt)" base hs b ?v] assms(3)
        by (simp add: follow_append listens_def)
      then show ?thesis
        using v P True assms(6) NewBlock unfolding H by (simp add: inStep_def linked_snoc)
    next
      case False
      then show ?thesis using assms(4,6) NewBlock by (simp add: handle_def processBlock_def)
    qed
  next
    case (NewTx tx)
    then show ?thesis
      using assms(4,6) fin[of "ntTx nt"] by (simp add: handle_def processTx_def inStep_def follow_append follow_txs)
  next
    case (Reorganized d)
    obtain anc new old e where C: "CommonAncestor (Some (ntNode nt)) (btNewChainHead d) (btOldChainHead d) = (anc, new, old, e)"
      by (metis prod_cases4)
    show ?thesis
    proof (cases "\<exists>a. anc = Some a \<and> e = None")
      case False
      then show ?thesis
        using assms(4,6) Reorganized C by (auto simp: handle_def signalReorg_def split: option.splits)
    next
      case True
      then obtain a where a: "anc = Some a" "e = None" by blast
      note F = CommonAncestor_forks[OF assms(1) C[unfolded a]]
      have S: "btOldChainHead d = ntPreviousHash nt" "heightOf (ntNode nt) base \<le> heightOf (ntNode nt) a"
        "nodeSends (ntNode nt) base (btNewChainHead d) msgs"
        using assms(6) Reorganized C a by simp_all
      have e: "last (base # ?v) = last (a # old)" using v(2) S(1) F(3,7) by simp
      have "heightOf (ntNode nt) base + length ?v = heightOf (ntNode nt) a + length old"
        using linked_height(1)[OF assms(1) v(1) assms(2)] linked_height(1)[OF assms(1) F(5,1)] e by simp
      then have "length old \<le> length ?v" using S(2) by simp
      then have "a \<in> set (base # ?v)" using linked_same_end[OF v(1) F(5) e] by simp
      note cut = cutAt_linked[OF v(1) this]
      let ?r = "\<lparr>rdCommonAncestor = a, rdOldChainHead = btOldChainHead d, rdOldChainHeight = btOldChainHeight d,
        rdOldChain = old, rdNewChainHead = btNewChainHead d, rdNewChainHeight = btNewChainHeight d, rdNewChain = new\<rparr>"
      let ?calls = "map (\<lambda>h. ReorgCall h ?r) (concat (ntReorg nt)) :: ('h, 'y, 'z) call list"
      have H: "handle hs finishes msg nt =
          SetPreviousBlock (btNewChainHead d) (word_of_int (btNewChainHeight d)) (nt\<lparr>ntCalls := ntCalls nt @ ?calls\<rparr>)"
        using Reorganized fin[of "ntReorg nt"] C a by (simp add: handle_def signalReorg_def Let_def)
      have "follow c base (ntCalls nt @ ?calls) view = cutAt base a ?v @ new"
        using follow_reorgs[of c "concat (ntReorg nt)" base ?r ?v] assms(3)
        by (simp add: follow_append listens_def)
      then show ?thesis
        using cut F S(3) unfolding H by (simp add: inStep_def linked_append)
    qed
  qed
qed

lemma handle_all_inStep:
  assumes "consistentNode (ntNode nt)" and "base \<noteq> 0" and "listens c nt" and "inStep c base view nt"
    and "\<And>m i. finishes m i" and "nodeSends (ntNode nt) base (ntPreviousHash nt) msgs"
  shows "inStep c base view (fold (handle hs finishes) msgs nt)"
  using assms
proof (induction msgs arbitrary: nt)
  case Nil
  then show ?case by simp
next
  case (Cons msg msgs)
  note H = handle_inStep[OF Cons.prems(1-4) assms(5) Cons.prems(6), of hs]
  have "inStep c base view (fold (handle hs finishes) msgs (handle hs finishes msg nt))"
  proof (rule Cons.IH)
    show "listens c (handle hs finishes msg nt)" using Cons.prems(3) by (simp add: listens_def)
    show "consistentNode (ntNode (handle hs finishes msg nt))" using Cons.prems(1) by simp
    show "nodeSends (ntNode (handle hs finishes msg nt)) base (ntPreviousHash (handle hs finishes msg nt)) msgs"
      unfolding handle_sel by (rule H[THEN conjunct2])
  qed (rule Cons.prems(2) H[THEN conjunct1] assms(5))+
  then show ?case by (simp only: fold_simps)
qed

lemma fold_handle_node [simp]:
  "ntNode (fold (handle hs finishes) ms nt) = ntNode nt"
  by (induction ms arbitrary: nt) simp_all

text \<open>Blocks that do not connect are skipped, and leave no trace.\<close>

lemma skip_blocks:
  "\<forall>b \<in> set bs. mbPrevBlock b \<noteq> ntPreviousHash nt \<Longrightarrow>
   fold (handle hs finishes) (map NewBlock bs) nt = nt"
  by (induction bs) (simp_all add: handle_def processBlock_def)

definition knownBlock :: "'y BlockFetcher \<Rightarrow> 'y MsgBlock \<Rightarrow> bool" where
  "knownBlock client b \<longleftrightarrow> parentOf client (mbBlockHash b) = Some (mbPrevBlock b)"

lemma linked_above:
  assumes "consistentNode client" and "linked client a cs" and "a \<noteq> 0" and "x \<in> set cs"
  shows "heightOf client a < heightOf client x"
proof -
  obtain ys zs where cs: "cs = ys @ x # zs" using assms(4) by (meson split_list)
  then have "linked client a (ys @ [x])" using assms(2) by (simp add: linked_append)
  from linked_height(1)[OF assms(1) this assms(3)] show ?thesis by simp
qed

lemma linked_prevs:
  "linked client a (map mbBlockHash bs) \<Longrightarrow> \<forall>b \<in> set bs. knownBlock client b \<Longrightarrow>
   b \<in> set bs \<Longrightarrow> mbPrevBlock b \<in> set (a # map mbBlockHash bs)"
  by (induction bs arbitrary: a) (auto simp: knownBlock_def)

subsection \<open>Properties\<close>

text \<open>Example data: a notifier on top of block 3 of the example node, with one consumer in the second group.\<close>

definition exNotifier :: "(unit, unit) message list \<Rightarrow> (nat, unit, unit) Notifier" where
  "exNotifier msgs =
     (SetPreviousBlock 3 2 (RegisterReorgHandlerGroup [9] (RegisterReorgHandlerGroup [7]
       (RegisterBlockHandlerGroup [Full 7] (RegisterBlockHandlerLiteGroup [8] (NewNotifier exNode))))))
     \<lparr>ntAnyQ := msgs\<rparr>"

definition exBlock :: "Hash \<Rightarrow> unit MsgBlock" where
  "exBlock h = \<lparr>mbHeight = exHeight h, mbPrevBlock = the (exParent h), mbBlockHash = h, mbRest = ()\<rparr>"

definition exTips :: BranchTips where
  "exTips = \<lparr>btOldChainHead = 3, btOldChainHeight = 2, btNewChainHead = 4, btNewChainHeight = 2\<rparr>"

lemma exNotifier_sel:
  "ntNode (exNotifier q) = exNode" "ntCalls (exNotifier q) = []" "ntAnyQ (exNotifier q) = q"
  "ntPreviousHash (exNotifier q) = 3" "listens 7 (exNotifier q)"
  by (simp_all add: exNotifier_def NewNotifier_def listens_def RegisterReorgHandlerGroup_def
      RegisterBlockHandlerGroup_def RegisterBlockHandlerLiteGroup_def)

lemma exNode_fork: "CommonAncestor (Some exNode) 4 3 = (Some 2, [4], [3], None)"
  unfolding CommonAncestor_def option.case
  by (subst ancestorLoop.simps) (simp add: maxAncestorChainLength_def exNode_def exParent_def exHeight_def)

text \<open>C19: A consumer that follows the notifications is always in step with the notifier. Let a consumer be
  registered once for blocks and once for reorganizations, hold the chain from some block \<open>base\<close> up to
  the best block, add each block that it is handed, and on a reorganization go back to the common
  ancestor and add the new chain. Whatever sequence of blocks, reorganizations and transactions a
  consistent node sends (reorganizations being away from the best block and not below \<open>base\<close>), once the
  queue is handled the consumer holds an unbroken chain from \<open>base\<close> to the notifier's best block.
  Premise: every handler of every group finishes before the deadline of its group. Otherwise
  the groups behind the one that timed out are told nothing and the best block is not set, while the
  consumers of the groups before have already been told.\<close>

theorem notifications_in_step:
  assumes "consistentNode (ntNode nt)" and "base \<noteq> 0" and "listens c nt" and "ntCalls nt = []"
    and "linked (ntNode nt) base view" and "last (base # view) = ntPreviousHash nt"
    and "\<forall>m i. finishes m i" and "nodeSends (ntNode nt) base (ntPreviousHash nt) (ntAnyQ nt)"
  shows "linked (ntNode nt) base (follow c base (ntCalls (superQueue hs finishes nt)) view) \<and>
    last (base # follow c base (ntCalls (superQueue hs finishes nt)) view) =
      ntPreviousHash (superQueue hs finishes nt)"
proof -
  have "inStep c base view nt" using assms(4-6) by (simp add: inStep_def follow_def)
  from handle_all_inStep[OF assms(1-3) this _ assms(8), of finishes hs] assms(7)
  have "inStep c base view (fold (handle hs finishes) (ntAnyQ nt) nt)" by blast
  then show ?thesis by (simp add: superQueue_fold inStep_def Let_def)
qed

theorem notifications_in_step_witness:
  "let nt = superQueue exPrint (\<lambda>_ _. True) (exNotifier [NewBlock (exBlock 4), Reorganized exTips, NewBlock (exBlock 5)])
   in linked exNode 1 (follow 7 1 (ntCalls nt) [2, 3]) \<and> last (1 # follow 7 1 (ntCalls nt) [2, 3]) = ntPreviousHash nt"
proof -
  let ?nt = "exNotifier [NewBlock (exBlock 4), Reorganized exTips, NewBlock (exBlock 5)]"
  have sends: "nodeSends (ntNode ?nt) 1 (ntPreviousHash ?nt) (ntAnyQ ?nt)"
    unfolding exNotifier_sel
    by (simp add: exNode_fork exTips_def exNode_parent exBlock_def exParent_def)
      (simp add: heightOf_def exNode_def exParent_def exHeight_def)
  have l: "linked (ntNode ?nt) 1 [2, 3]" "last (1 # [2, 3]) = ntPreviousHash ?nt"
    by (simp_all add: exNotifier_sel exNode_parent exParent_def)
  show ?thesis
    using notifications_in_step[OF _ _ exNotifier_sel(5,2) l _ sends, of "\<lambda>_ _. True" exPrint] exNode_consistent
    by (simp add: exNotifier_sel Let_def)
qed

text \<open>Blocks that arrive in order are delivered. If each group is done before its deadline, a queue of
  blocks each on top of the one before and the first on top of the best block is handed completely,
  in this order, to all handlers of all groups; the last block is then the best block.\<close>

theorem chain_delivered:
  assumes "ntAnyQ nt = map NewBlock bs" and "\<forall>m i. finishes m i"
    and "linked client (ntPreviousHash nt) (map mbBlockHash bs)" and "\<forall>b \<in> set bs. knownBlock client b"
  shows "ntCalls (superQueue hs finishes nt) =
      ntCalls nt @ concat (map (\<lambda>b. map (callBlock hs b) (concat (ntBlock nt))) bs) \<and>
    ntPreviousHash (superQueue hs finishes nt) = last (ntPreviousHash nt # map mbBlockHash bs)"
proof -
  have "ntCalls (fold (handle hs finishes) (map NewBlock bs) nt) =
      ntCalls nt @ concat (map (\<lambda>b. map (callBlock hs b) (concat (ntBlock nt))) bs) \<and>
    ntPreviousHash (fold (handle hs finishes) (map NewBlock bs) nt) = last (ntPreviousHash nt # map mbBlockHash bs)"
    using assms(3,4)
  proof (induction bs arbitrary: nt)
    case Nil
    then show ?case by simp
  next
    case (Cons b bs)
    have "runGroups (finishes (NewBlock b)) 0 (ntBlock nt) = (concat (ntBlock nt), True)"
      using assms(2) by (simp add: runGroups_done)
    then have h: "handle hs finishes (NewBlock b) nt = SetPreviousBlock (mbBlockHash b) (mbHeight b)
        (nt\<lparr>ntCalls := ntCalls nt @ map (callBlock hs b) (concat (ntBlock nt))\<rparr>)"
      using Cons.prems by (simp add: handle_def processBlock_def knownBlock_def Let_def)
    show ?case
      using Cons.IH[of "handle hs finishes (NewBlock b) nt"] Cons.prems unfolding list.map fold_simps h by simp
  qed
  then show ?thesis by (simp add: superQueue_fold assms(1))
qed

theorem chain_delivered_witness:
  "ntPreviousHash (superQueue exPrint (\<lambda>_ _. True)
     ((exNotifier (map NewBlock [exBlock 4, exBlock 5]))\<lparr>ntPreviousHash := 2\<rparr>)) = 5"
  using chain_delivered[of "(exNotifier (map NewBlock [exBlock 4, exBlock 5]))\<lparr>ntPreviousHash := 2\<rparr>"
      "[exBlock 4, exBlock 5]" "\<lambda>_ _. True" exNode exPrint]
  by (simp add: exNotifier_sel exNode_parent exBlock_def exParent_def knownBlock_def)

text \<open>A missed deadline stops the notifier. If a group of block handlers is not done in time, the best block
  is not moved, so none of the following blocks of the chain is handed to any handler, however long the
  chain is and however fast the handlers are from then on.\<close>

theorem deadline_stalls:
  assumes "consistentNode client" and "ntPreviousHash nt \<noteq> 0" and "ntAnyQ nt = map NewBlock (b # bs)"
    and "linked client (ntPreviousHash nt) (map mbBlockHash (b # bs))"
    and "\<forall>x \<in> set (b # bs). knownBlock client x"
    and "\<not> snd (runGroups (finishes (NewBlock b)) 0 (ntBlock nt))"
  shows "ntCalls (superQueue hs finishes nt) =
      ntCalls nt @ map (callBlock hs b) (fst (runGroups (finishes (NewBlock b)) 0 (ntBlock nt))) \<and>
    ntPreviousHash (superQueue hs finishes nt) = ntPreviousHash nt"
proof -
  let ?nt1 = "handle hs finishes (NewBlock b) nt"
  have h: "?nt1 = nt\<lparr>ntCalls := ntCalls nt @ map (callBlock hs b) (fst (runGroups (finishes (NewBlock b)) 0 (ntBlock nt)))\<rparr>"
    using assms(4-6) by (cases "runGroups (finishes (NewBlock b)) 0 (ntBlock nt)")
      (simp add: handle_def processBlock_def knownBlock_def Let_def)
  have "mbPrevBlock x \<noteq> ntPreviousHash nt" if "x \<in> set bs" for x
  proof -
    have "linked client (mbBlockHash b) (map mbBlockHash bs)" using assms(4) by simp
    from linked_prevs[OF this _ that] assms(5)
    have "mbPrevBlock x \<in> set (map mbBlockHash (b # bs))" by simp
    from linked_above[OF assms(1,4,2) this] show ?thesis by auto
  qed
  then have "fold (handle hs finishes) (map NewBlock bs) ?nt1 = ?nt1"
    by (intro skip_blocks) (simp add: h)
  then show ?thesis by (simp add: superQueue_fold assms(3)) (simp add: h)
qed

theorem deadline_stalls_witness:
  "ntPreviousHash (superQueue exPrint (\<lambda>m i. m \<noteq> NewBlock (exBlock 4) \<or> i \<noteq> 1)
     ((exNotifier (map NewBlock (exBlock 4 # [exBlock 5])))\<lparr>ntPreviousHash := 2\<rparr>)) = 2"
  using deadline_stalls[OF exNode_consistent, of "(exNotifier (map NewBlock (exBlock 4 # [exBlock 5])))\<lparr>ntPreviousHash := 2\<rparr>"
      "exBlock 4" "[exBlock 5]" "\<lambda>m i. m \<noteq> NewBlock (exBlock 4) \<or> i \<noteq> 1" exPrint]
  by (simp add: exNotifier_sel exNode_parent exBlock_def exParent_def knownBlock_def)
    (simp add: exNotifier_def NewNotifier_def RegisterReorgHandlerGroup_def
      RegisterBlockHandlerGroup_def RegisterBlockHandlerLiteGroup_def)

end
