(* ===== verification/WaitingRoom.thy ===== *)
theory WaitingRoom
  imports Prelude
begin

text \<open>
  Waiting for a height or a hash, as the block gate of \<open>rpcutils/blockgate.go\<close> and the stake database
  of \<open>stakedb/stakedb.go\<close> offer it: channels with room for one value are registered under a key, and
  signalled when something becomes available for the key. The locale \<open>waiting_room\<close> is the contract;
  its lemmas show that a channel is never lost and is sent to once.
\<close>

text \<open>A missing entry of a Go map reads as the empty slice.\<close>

definition waitersAt :: "('k \<rightharpoonup> nat list) \<Rightarrow> 'k \<Rightarrow> nat list" where
  "waitersAt m k = (case m k of None \<Rightarrow> [] | Some cs \<Rightarrow> cs)"

subsection \<open>Waiting rooms\<close>

text \<open>
  What all kinds of waiting have in common: \<open>wt g k\<close> are the channels that wait
  for \<open>k\<close>, \<open>sn g\<close> what was sent, \<open>nx g\<close> the number of the next channel. Registering adds a new
  channel, signalling sends to all that wait.
\<close>

locale waiting_room =
  fixes wt :: "'g \<Rightarrow> 'k \<Rightarrow> nat list"
    and sn :: "'g \<Rightarrow> (nat \<times> 'k \<times> 'v) list"
    and nx :: "'g \<Rightarrow> nat"
    and signal :: "'k \<Rightarrow> 'v \<Rightarrow> 'g \<Rightarrow> 'g"
    and register :: "'k \<Rightarrow> 'g \<Rightarrow> 'g"
  assumes wt_signal: "wt (signal k v g) = (wt g)(k := [])"
    and sn_signal: "sn (signal k v g) = sn g @ map (\<lambda>c. (c, k, v)) (wt g k)"
    and nx_signal: "nx (signal k v g) = nx g"
    and wt_register: "wt (register k g) = (wt g)(k := wt g k @ [nx g])"
    and sn_register: "sn (register k g) = sn g"
    and nx_register: "nx (register k g) = nx g + 1"
begin

text \<open>Each channel is in one place at most, and was made before.\<close>

definition orderly :: "'g \<Rightarrow> bool" where
  "orderly g \<longleftrightarrow> (\<forall>k. distinct (wt g k)) \<and> (\<forall>k k' c. c \<in> set (wt g k) \<longrightarrow> c \<in> set (wt g k') \<longrightarrow> k = k') \<and>
     distinct (map fst (sn g)) \<and> (\<forall>k. \<forall>c \<in> set (wt g k). c \<notin> fst ` set (sn g) \<and> c < nx g) \<and>
     (\<forall>c \<in> fst ` set (sn g). c < nx g)"

lemma orderlyI:
  assumes "\<And>k. distinct (wt g k)" and "\<And>k k' c. c \<in> set (wt g k) \<Longrightarrow> c \<in> set (wt g k') \<Longrightarrow> k = k'"
    and "distinct (map fst (sn g))" and "\<And>k c. c \<in> set (wt g k) \<Longrightarrow> c \<notin> fst ` set (sn g)"
    and "\<And>k c. c \<in> set (wt g k) \<Longrightarrow> c < nx g" and "\<And>c. c \<in> fst ` set (sn g) \<Longrightarrow> c < nx g"
  shows "orderly g"
  using assms unfolding orderly_def by blast

lemma orderlyD:
  assumes "orderly g"
  shows "distinct (wt g k)" and "c \<in> set (wt g k) \<Longrightarrow> c \<in> set (wt g k') \<Longrightarrow> k = k'"
    and "distinct (map fst (sn g))" and "c \<in> set (wt g k) \<Longrightarrow> c \<notin> fst ` set (sn g)"
    and "c \<in> set (wt g k) \<Longrightarrow> c < nx g" and "c \<in> fst ` set (sn g) \<Longrightarrow> c < nx g"
  using assms unfolding orderly_def by blast+

lemma orderly_signal:
  assumes "orderly g"
  shows "orderly (signal k v g)"
proof -
  note D = orderlyD[OF assms]
  have f: "fst ` set (sn (signal k v g)) = fst ` set (sn g) \<union> set (wt g k)"
    by (force simp: sn_signal)
  have w: "c \<in> set (wt (signal k v g) k') \<longleftrightarrow> k' \<noteq> k \<and> c \<in> set (wt g k')" for c k'
    by (simp add: wt_signal)
  show ?thesis
  proof (rule orderlyI)
    show "distinct (wt (signal k v g) k')" for k' using D(1) by (simp add: wt_signal)
    have "map fst (sn (signal k v g)) = map fst (sn g) @ wt g k" by (simp add: sn_signal comp_def)
    then show "distinct (map fst (sn (signal k v g)))" using D(1,3,4) by auto
  qed (use D(2,4-6) in \<open>unfold w f nx_signal, blast+\<close>)
qed

lemma orderly_register:
  assumes "orderly g"
  shows "orderly (register k g)"
proof -
  note D = orderlyD[OF assms]
  have w: "c \<in> set (wt (register k g) k') \<longleftrightarrow> c \<in> set (wt g k') \<or> (k' = k \<and> c = nx g)" for c k'
    by (auto simp: wt_register)
  have n: "nx g \<notin> set (wt g k')" "nx g \<notin> fst ` set (sn g)" for k' using D(5,6) by blast+
  show ?thesis
  proof (rule orderlyI)
    show "distinct (wt (register k g) k')" for k' using D(1) n by (simp add: wt_register)
    show "distinct (map fst (sn (register k g)))" using D(3) by (simp add: sn_register)
    show "c < nx (register k g)" if "c \<in> set (wt (register k g) k')" for c k'
      using that D(5) unfolding w nx_register by fastforce
    show "c < nx (register k g)" if "c \<in> fst ` set (sn (register k g))" for c
      using that D(6) unfolding sn_register nx_register by fastforce
    show "k1 = k2" if "c \<in> set (wt (register k g) k1)" "c \<in> set (wt (register k g) k2)" for k1 k2 c
      using that D(2)[of c k1 k2] n(1)[of k1] n(1)[of k2] unfolding w by auto
    show "c \<notin> fst ` set (sn (register k g))" if "c \<in> set (wt (register k g) k')" for c k'
      using that D(4)[of c k'] n(2) unfolding w sn_register by metis
  qed
qed

lemma orderly_more:
  assumes "orderly g" and "wt g' = wt g" and "sn g' = sn g" and "nx g \<le> nx g'"
  shows "orderly g'"
proof (rule orderlyI)
  note D = orderlyD[OF assms(1)]
  show "c < nx g'" if "c \<in> set (wt g' k)" for c k
    using D(5)[of c k] that assms(4) unfolding assms(2) by simp
  show "c < nx g'" if "c \<in> fst ` set (sn g')" for c
    using D(6)[of c] that assms(4) unfolding assms(3) by simp
qed (use orderlyD(1-4)[OF assms(1)] in \<open>unfold assms(2,3), blast+\<close>)

lemma orderly_frame:
  "orderly g \<Longrightarrow> wt g' = wt g \<Longrightarrow> sn g' = sn g \<Longrightarrow> nx g' = nx g \<Longrightarrow> orderly g'"
  by (erule orderly_more) simp_all

text \<open>The channel waits for \<open>k\<close>, or exactly one value was sent to it, for \<open>k\<close>.\<close>

definition answered :: "nat \<Rightarrow> 'k \<Rightarrow> 'g \<Rightarrow> bool" where
  "answered c k g \<longleftrightarrow> (\<exists>v. filter (\<lambda>s. fst s = c) (sn g) = [(c, k, v)])"

definition kept :: "nat \<Rightarrow> 'k \<Rightarrow> 'g \<Rightarrow> bool" where
  "kept c k g \<longleftrightarrow> c \<in> set (wt g k) \<or> answered c k g"

lemma sent_once:
  assumes "orderly g" and "(c, k, v) \<in> set (sn g)"
  shows "answered c k g"
proof -
  obtain ys zs where s: "sn g = ys @ (c, k, v) # zs" using assms(2) by (meson split_list)
  have "c \<notin> fst ` set ys" "c \<notin> fst ` set zs"
    using assms(1) unfolding orderly_def s by auto
  then have "filter (\<lambda>s. fst s = c) ys = []" "filter (\<lambda>s. fst s = c) zs = []"
    by (auto simp: filter_empty_conv)
  then show ?thesis unfolding answered_def s by simp
qed

lemma answered_sent: "answered c k g \<Longrightarrow> \<exists>v. (c, k, v) \<in> set (sn g)"
  proof -
  assume "answered c k g"
  then obtain v where "filter (\<lambda>s. fst s = c) (sn g) = [(c, k, v)]" by (auto simp: answered_def)
  then have "(c, k, v) \<in> set (filter (\<lambda>s. fst s = c) (sn g))" by simp
  then show ?thesis by auto
qed

lemma signal_answers:
  assumes "orderly g" and "c \<in> set (wt g k)"
  shows "answered c k (signal k v g)"
  using sent_once[OF orderly_signal[OF assms(1)], of c k v k v] assms(2) by (simp add: sn_signal)

lemma kept_signal:
  assumes "orderly g" and "kept c k g"
  shows "kept c k (signal k' v g)"
proof (cases "c \<in> set (wt g k)")
  case True
  then show ?thesis using signal_answers[OF assms(1) True] by (auto simp: kept_def wt_signal)
next
  case False
  then obtain w where "(c, k, w) \<in> set (sn g)" using assms(2) answered_sent unfolding kept_def by blast
  then have "(c, k, w) \<in> set (sn (signal k' v g))" by (simp add: sn_signal)
  then show ?thesis using sent_once[OF orderly_signal[OF assms(1)]] by (auto simp: kept_def)
qed

lemma answered_signal:
  assumes "orderly g" and "answered c k g"
  shows "answered c k (signal k' v g)"
proof -
  obtain w where "(c, k, w) \<in> set (sn g)" using assms(2) answered_sent by blast
  then have "(c, k, w) \<in> set (sn (signal k' v g))" by (simp add: sn_signal)
  then show ?thesis using sent_once[OF orderly_signal[OF assms(1)]] by blast
qed

lemma kept_register: "kept c k g \<Longrightarrow> kept c k (register k' g)"
  by (auto simp: kept_def answered_def wt_register sn_register)

lemma answered_register: "answered c k g \<Longrightarrow> answered c k (register k' g)"
  by (simp add: answered_def sn_register)

lemma kept_frame: "kept c k g \<Longrightarrow> wt g' = wt g \<Longrightarrow> sn g' = sn g \<Longrightarrow> kept c k g'"
  by (simp add: kept_def answered_def)

lemma signal_once:
  "orderly (signal k v g) \<Longrightarrow> kept c k (signal k v g) \<Longrightarrow> answered c k (signal k v g)"
  by (simp add: kept_def wt_signal)

lemma register_kept: "kept (nx g) k (register k g)"
  by (simp add: kept_def wt_register)

end

lemma waitersAt_simps [simp]:
  "waitersAt (m(k := None)) = (waitersAt m)(k := [])"
  "waitersAt (m(k \<mapsto> cs)) = (waitersAt m)(k := cs)"
  by (auto simp: waitersAt_def)

end
