(* ===== verification/BlockGate.thy ===== *)
theory BlockGate
  imports ChainRpc WaitingRoom
begin

text \<open>
  The block gate of \<open>rpcutils/blockgate.go\<close>: a small cache of the latest blocks, from which callers get
  the block of a hash, and where they wait for a height or a hash to become available.

  The node may answer differently at each call, so the client is an argument of each operation. A
  channel is the number under which it was made. The goroutines that send to the waiters are modelled
  by what they send, \<open>bgHashSent\<close> and \<open>bgHeightSent\<close>, with the height or the hash for which they send;
  each channel has room for one value, and a second one would be a panic. The cached
  \<open>dcrutil.Block\<close> is the \<open>MsgBlock\<close> that it wraps.
\<close>

subsection \<open>The gate\<close>

type_synonym heightHashPair = "int \<times> Hash"

record 'y BlockGate =
  bgHeight :: int
  bgFetchToHeight :: int
  bgHashAtHeight :: "int \<rightharpoonup> Hash"
  bgBlockWithHash :: "Hash \<rightharpoonup> 'y MsgBlock"
  bgHeightWaiters :: "int \<rightharpoonup> nat list"
  bgHashWaiters :: "Hash \<rightharpoonup> nat list"
  bgQueue :: "heightHashPair list"
  bgCap :: int
  bgChans :: nat
  bgHashSent :: "(nat \<times> int \<times> Hash) list"
  bgHeightSent :: "(nat \<times> Hash \<times> int) list"

datatype gateError =
    GateRpc rpcError
  | GateBestBlock string
  | WrongHeight int int
  | WrongHash Hash Hash
  | NoBestHash int
  | NoBestBlock Hash int
  | NotCached Hash

fun hashInQueue :: "heightHashPair list \<Rightarrow> Hash \<Rightarrow> bool" where
  "hashInQueue [] hash = False"
| "hashInQueue (p # q) hash = (if snd p = hash then True else hashInQueue q hash)"

fun heightInQueue :: "heightHashPair list \<Rightarrow> int \<Rightarrow> bool" where
  "heightInQueue [] height = False"
| "heightInQueue (p # q) height = (if fst p = height then True else heightInQueue q height)"

definition NewBlockGate :: "int \<Rightarrow> 'y BlockGate" where
  "NewBlockGate capacity =
     \<lparr>bgHeight = -1, bgFetchToHeight = -1, bgHashAtHeight = Map.empty, bgBlockWithHash = Map.empty,
      bgHeightWaiters = Map.empty, bgHashWaiters = Map.empty, bgQueue = [], bgCap = capacity,
      bgChans = 0, bgHashSent = [], bgHeightSent = []\<rparr>"

definition SetFetchToHeight :: "int \<Rightarrow> 'y BlockGate \<Rightarrow> 'y BlockGate" where
  "SetFetchToHeight height g = g\<lparr>bgFetchToHeight := height\<rparr>"

definition NodeHeight :: "'y BlockFetcher \<Rightarrow> string + int" where
  "NodeHeight client = (case fGetBestBlock client of Inl e \<Rightarrow> Inl e | Inr (_, height) \<Rightarrow> Inr height)"

definition BestBlockHeight :: "'y BlockGate \<Rightarrow> int" where
  "BestBlockHeight g = bgHeight g"

text \<open>A missing hash is returned as the zero hash, with the error.\<close>

definition BestBlockHash :: "'y BlockGate \<Rightarrow> Hash \<times> int \<times> gateError option" where
  "BestBlockHash g =
     (case bgHashAtHeight g (bgHeight g) of
        None \<Rightarrow> (0, bgHeight g, Some (NoBestHash (bgHeight g)))
      | Some hash \<Rightarrow> (hash, bgHeight g, None))"

definition BestBlock :: "'y BlockGate \<Rightarrow> 'y MsgBlock option \<times> gateError option" where
  "BestBlock g =
     (let (hash, _, err) = BestBlockHash g in
      case bgBlockWithHash g hash of
        None \<Rightarrow> (None, Some (NoBestBlock hash (bgHeight g)))
      | Some block \<Rightarrow> (Some block, err))"

definition CachedBlock :: "Hash \<Rightarrow> 'y BlockGate \<Rightarrow> gateError + 'y MsgBlock" where
  "CachedBlock hash g =
     (case bgBlockWithHash g hash of None \<Rightarrow> Inl (NotCached hash) | Some block \<Rightarrow> Inr block)"

definition Block :: "'y BlockFetcher \<Rightarrow> Hash \<Rightarrow> 'y BlockGate \<Rightarrow> gateError + 'y MsgBlock" where
  "Block client hash g =
     (case CachedBlock hash g of
        Inr block \<Rightarrow> Inr block
      | Inl _ \<Rightarrow>
          (case GetBlockByHash hash client of Inl e \<Rightarrow> Inl (GateRpc e) | Inr block \<Rightarrow> Inr block))"

subsection \<open>Updates\<close>

definition rotateIn :: "int \<Rightarrow> Hash \<Rightarrow> 'y BlockGate \<Rightarrow> 'y BlockGate" where
  "rotateIn height hash g =
     (let g1 = g\<lparr>bgQueue := bgQueue g @ [(height, hash)]\<rparr> in
      if int (length (bgQueue g1)) > bgCap g1 then
        (let oldest = hd (bgQueue g1);
             g2 = g1\<lparr>bgQueue := tl (bgQueue g1)\<rparr>;
             g3 = (if \<not> hashInQueue (bgQueue g2) (snd oldest)
                   then g2\<lparr>bgBlockWithHash := (bgBlockWithHash g2)(snd oldest := None)\<rparr> else g2)
         in if \<not> heightInQueue (bgQueue g3) (fst oldest)
            then g3\<lparr>bgHashAtHeight := (bgHashAtHeight g3)(fst oldest := None)\<rparr> else g3)
      else g1)"

definition signalHash :: "Hash \<Rightarrow> int \<Rightarrow> 'y BlockGate \<Rightarrow> 'y BlockGate" where
  "signalHash hash height g =
     (case bgHashWaiters g hash of
        None \<Rightarrow> g
      | Some waitChans \<Rightarrow>
          let g1 = g\<lparr>bgHashWaiters := (bgHashWaiters g)(hash := None)\<rparr> in
          if waitChans = [] then g1
          else g1\<lparr>bgHeightSent := bgHeightSent g1 @ map (\<lambda>c. (c, hash, height)) waitChans\<rparr>)"

definition signalHeight :: "int \<Rightarrow> Hash \<Rightarrow> 'y BlockGate \<Rightarrow> 'y BlockGate" where
  "signalHeight height hash g =
     (case bgHeightWaiters g height of
        None \<Rightarrow> g
      | Some waitChans \<Rightarrow>
          let g1 = g\<lparr>bgHeightWaiters := (bgHeightWaiters g)(height := None)\<rparr> in
          if waitChans = [] then g1
          else g1\<lparr>bgHashSent := bgHashSent g1 @ map (\<lambda>c. (c, height, hash)) waitChans\<rparr>)"

definition updateToBlock ::
    "'y BlockFetcher \<Rightarrow> int \<Rightarrow> 'y BlockGate \<Rightarrow> (gateError + 'y MsgBlock) \<times> 'y BlockGate" where
  "updateToBlock client height g =
     (case GetBlock height client of
        Inl e \<Rightarrow> (Inl (GateRpc e), g)
      | Inr (block, hash) \<Rightarrow>
          if uint (mbHeight block) \<noteq> height then (Inl (WrongHeight height (uint (mbHeight block))), g)
          else if hash \<noteq> mbBlockHash block then (Inl (WrongHash hash (mbBlockHash block)), g)
          else
            let g1 = g\<lparr>bgHeight := height, bgHashAtHeight := (bgHashAtHeight g)(height \<mapsto> hash),
                  bgBlockWithHash := (bgBlockWithHash g)(hash \<mapsto> block)\<rparr>;
                g2 = rotateIn height hash g1
            in (Inr block, signalHash hash height (signalHeight height hash g2)))"

definition UpdateToBlock ::
    "'y BlockFetcher \<Rightarrow> int \<Rightarrow> 'y BlockGate \<Rightarrow> (gateError + 'y MsgBlock) \<times> 'y BlockGate" where
  "UpdateToBlock client height g = updateToBlock client height g"

definition UpdateToBestBlock ::
    "'y BlockFetcher \<Rightarrow> 'y BlockGate \<Rightarrow> (gateError + 'y MsgBlock) \<times> 'y BlockGate" where
  "UpdateToBestBlock client g =
     (case fGetBestBlock client of
        Inl e \<Rightarrow> (Inl (GateBestBlock e), g)
      | Inr (_, height) \<Rightarrow> UpdateToBlock client height g)"

definition UpdateToNextBlock ::
    "'y BlockFetcher \<Rightarrow> 'y BlockGate \<Rightarrow> (gateError + 'y MsgBlock) \<times> 'y BlockGate" where
  "UpdateToNextBlock client g = UpdateToBlock client (bgHeight g + 1) g"

subsection \<open>Waiting\<close>

text \<open>Making a channel and appending it to the waiters.\<close>

definition addHeightWaiter :: "int \<Rightarrow> 'y BlockGate \<Rightarrow> 'y BlockGate" where
  "addHeightWaiter height g =
     g\<lparr>bgChans := bgChans g + 1,
       bgHeightWaiters := (bgHeightWaiters g)(height \<mapsto> waitersAt (bgHeightWaiters g) height @ [bgChans g])\<rparr>"

definition addHashWaiter :: "Hash \<Rightarrow> 'y BlockGate \<Rightarrow> 'y BlockGate" where
  "addHashWaiter hash g =
     g\<lparr>bgChans := bgChans g + 1,
       bgHashWaiters := (bgHashWaiters g)(hash \<mapsto> waitersAt (bgHashWaiters g) hash @ [bgChans g])\<rparr>"

definition WaitForHeight :: "'y BlockFetcher \<Rightarrow> int \<Rightarrow> 'y BlockGate \<Rightarrow> nat option \<times> 'y BlockGate" where
  "WaitForHeight client height g =
     (if height < 0 then (None, g)
      else
        let waitChan = bgChans g; g1 = addHeightWaiter height g in
        case bgHashAtHeight g1 height of
          Some hash \<Rightarrow> (Some waitChan, signalHeight height hash g1)
        | None \<Rightarrow>
            if height \<le> bgFetchToHeight g1 then
              (case updateToBlock client height g1 of
                 (Inl _, g2) \<Rightarrow> (None, g2)
               | (Inr _, g2) \<Rightarrow> (Some waitChan, g2))
            else (Some waitChan, g1))"

definition WaitForHash :: "Hash \<Rightarrow> 'y BlockGate \<Rightarrow> nat \<times> 'y BlockGate" where
  "WaitForHash hash g =
     (let waitChan = bgChans g; g1 = addHashWaiter hash g in
      case bgBlockWithHash g1 hash of
        Some block \<Rightarrow> (waitChan, signalHash hash (uint (mbHeight block)) g1)
      | None \<Rightarrow> (waitChan, g1))"

text \<open>The operations that change the gate, and a run of them.\<close>

datatype 'y gateOp =
    OpFetchTo int
  | OpUpdate "'y BlockFetcher" int
  | OpUpdateBest "'y BlockFetcher"
  | OpUpdateNext "'y BlockFetcher"
  | OpWaitHeight "'y BlockFetcher" int
  | OpWaitHash Hash

fun gateStep :: "'y gateOp \<Rightarrow> 'y BlockGate \<Rightarrow> 'y BlockGate" where
  "gateStep (OpFetchTo height) g = SetFetchToHeight height g"
| "gateStep (OpUpdate client height) g = snd (UpdateToBlock client height g)"
| "gateStep (OpUpdateBest client) g = snd (UpdateToBestBlock client g)"
| "gateStep (OpUpdateNext client) g = snd (UpdateToNextBlock client g)"
| "gateStep (OpWaitHeight client height) g = snd (WaitForHeight client height g)"
| "gateStep (OpWaitHash hash) g = snd (WaitForHash hash g)"

definition runGate :: "'y gateOp list \<Rightarrow> 'y BlockGate \<Rightarrow> 'y BlockGate" where
  "runGate ops g = fold gateStep ops g"

subsection \<open>The two waiting rooms\<close>

lemma signalHeight_sel:
  "waitersAt (bgHeightWaiters (signalHeight k v g)) = (waitersAt (bgHeightWaiters g))(k := [])"
  "bgHashSent (signalHeight k v g) = bgHashSent g @ map (\<lambda>c. (c, k, v)) (waitersAt (bgHeightWaiters g) k)"
  by (auto simp: signalHeight_def waitersAt_def Let_def split: option.split)

lemma signalHash_sel:
  "waitersAt (bgHashWaiters (signalHash k v g)) = (waitersAt (bgHashWaiters g))(k := [])"
  "bgHeightSent (signalHash k v g) = bgHeightSent g @ map (\<lambda>c. (c, k, v)) (waitersAt (bgHashWaiters g) k)"
  by (auto simp: signalHash_def waitersAt_def Let_def split: option.split)

lemma signalHeight_frame [simp]:
  "bgChans (signalHeight k v g) = bgChans g" "bgHashWaiters (signalHeight k v g) = bgHashWaiters g"
  "bgHeightSent (signalHeight k v g) = bgHeightSent g" "bgHeight (signalHeight k v g) = bgHeight g"
  "bgHashAtHeight (signalHeight k v g) = bgHashAtHeight g" "bgBlockWithHash (signalHeight k v g) = bgBlockWithHash g"
  "bgQueue (signalHeight k v g) = bgQueue g" "bgCap (signalHeight k v g) = bgCap g"
  by (simp_all add: signalHeight_def Let_def split: option.split)

lemma signalHash_frame [simp]:
  "bgChans (signalHash k v g) = bgChans g" "bgHeightWaiters (signalHash k v g) = bgHeightWaiters g"
  "bgHashSent (signalHash k v g) = bgHashSent g" "bgHeight (signalHash k v g) = bgHeight g"
  "bgHashAtHeight (signalHash k v g) = bgHashAtHeight g" "bgBlockWithHash (signalHash k v g) = bgBlockWithHash g"
  "bgQueue (signalHash k v g) = bgQueue g" "bgCap (signalHash k v g) = bgCap g"
  by (simp_all add: signalHash_def Let_def split: option.split)

interpretation hr: waiting_room "\<lambda>g. waitersAt (bgHeightWaiters g)" bgHashSent bgChans signalHeight addHeightWaiter
  by unfold_locales (simp_all add: signalHeight_sel addHeightWaiter_def)

interpretation xr: waiting_room "\<lambda>g. waitersAt (bgHashWaiters g)" bgHeightSent bgChans signalHash addHashWaiter
  by unfold_locales (simp_all add: signalHash_sel addHashWaiter_def)

subsection \<open>Channels over a run\<close>

definition sameRooms :: "'y BlockGate \<Rightarrow> 'y BlockGate \<Rightarrow> bool" where
  "sameRooms g g' \<longleftrightarrow> bgHeightWaiters g' = bgHeightWaiters g \<and> bgHashWaiters g' = bgHashWaiters g \<and>
     bgHashSent g' = bgHashSent g \<and> bgHeightSent g' = bgHeightSent g \<and> bgChans g' = bgChans g"

lemma rotateIn_rooms: "sameRooms g (rotateIn k h g)"
  by (simp add: sameRooms_def rotateIn_def Let_def)

text \<open>What an update does: nothing if it fails; else the cache changes, then both kinds of waiters are signalled.\<close>

lemma updateToBlock_cases:
  obtains e where "updateToBlock client k g = (Inl e, g)"
  | b where "updateToBlock client k g = (Inr b, signalHash (mbBlockHash b) k (signalHeight k (mbBlockHash b)
        (rotateIn k (mbBlockHash b) (g\<lparr>bgHeight := k, bgHashAtHeight := (bgHashAtHeight g)(k \<mapsto> mbBlockHash b),
          bgBlockWithHash := (bgBlockWithHash g)(mbBlockHash b \<mapsto> b)\<rparr>))))"
      "uint (mbHeight b) = k" "GetBlock k client = Inr (b, mbBlockHash b)"
proof (cases "GetBlock k client")
  case (Inl e)
  then show ?thesis using that(1) by (simp add: updateToBlock_def)
next
  case (Inr bh)
  obtain b h where bh: "bh = (b, h)" by (cases bh)
  show ?thesis
  proof (cases "uint (mbHeight b) = k \<and> h = mbBlockHash b")
    case True
    then show ?thesis using that(2)[of b] Inr bh by (simp add: updateToBlock_def Let_def)
  next
    case False
    then have "\<exists>e. updateToBlock client k g = (Inl e, g)"
      using Inr bh by (cases "uint (mbHeight b) = k") (simp_all add: updateToBlock_def)
    then show ?thesis using that(1) by blast
  qed
qed

text \<open>A property of the channels that the primitive steps keep is kept by every operation.\<close>

lemma gateStep_keeps:
  assumes frame: "\<And>g g'. P g \<Longrightarrow> sameRooms g g' \<Longrightarrow> P g'"
    and sh: "\<And>g k v. P g \<Longrightarrow> P (signalHeight k v g)" and sx: "\<And>g k v. P g \<Longrightarrow> P (signalHash k v g)"
    and rh: "\<And>g k. P g \<Longrightarrow> P (addHeightWaiter k g)" and rx: "\<And>g k. P g \<Longrightarrow> P (addHashWaiter k g)"
    and "P g"
  shows "P (gateStep op g)"
proof -
  have up: "P (snd (updateToBlock client k g))" if "P g" for client k g
  proof (cases rule: updateToBlock_cases[of client k g])
    case (1 e)
    then show ?thesis using that by simp
  next
    case (2 b)
    let ?g1 = "g\<lparr>bgHeight := k, bgHashAtHeight := (bgHashAtHeight g)(k \<mapsto> mbBlockHash b),
      bgBlockWithHash := (bgBlockWithHash g)(mbBlockHash b \<mapsto> b)\<rparr>"
    have "P ?g1" by (rule frame[OF that]) (simp add: sameRooms_def)
    then have "P (rotateIn k (mbBlockHash b) ?g1)" by (rule frame[OF _ rotateIn_rooms])
    then show ?thesis unfolding 2(1) snd_conv by (intro sh sx)
  qed
  show ?thesis
  proof (cases op)
    case (OpFetchTo k)
    show ?thesis unfolding OpFetchTo gateStep.simps
      by (rule frame[OF assms(6)]) (simp add: SetFetchToHeight_def sameRooms_def)
  next
    case (OpWaitHeight client k)
    have "P (addHeightWaiter k g)" by (rule rh[OF assms(6)])
    then show ?thesis
      unfolding OpWaitHeight gateStep.simps WaitForHeight_def Let_def
      using assms(6) up[of "addHeightWaiter k g" client k] sh
      by (auto split: option.split prod.split sum.split)
  next
    case (OpWaitHash x)
    have "P (addHashWaiter x g)" by (rule rx[OF assms(6)])
    then show ?thesis
      unfolding OpWaitHash gateStep.simps WaitForHash_def Let_def using sx by (simp split: option.split)
  qed (use assms(6) up in \<open>auto simp: UpdateToBlock_def UpdateToBestBlock_def UpdateToNextBlock_def split: sum.split\<close>)
qed

lemma gateStep_orderly:
  assumes "hr.orderly g" and "xr.orderly g"
  shows "hr.orderly (gateStep op g)" and "xr.orderly (gateStep op g)"
proof -
  have "hr.orderly (gateStep op g) \<and> xr.orderly (gateStep op g)"
  proof (rule gateStep_keeps[of "\<lambda>g. hr.orderly g \<and> xr.orderly g"])
    show "hr.orderly g' \<and> xr.orderly g'" if "hr.orderly g \<and> xr.orderly g" "sameRooms g g'" for g g'
      using hr.orderly_frame[of g g'] xr.orderly_frame[of g g'] that by (simp add: sameRooms_def)
    show "hr.orderly (signalHeight k v g) \<and> xr.orderly (signalHeight k v g)" if "hr.orderly g \<and> xr.orderly g" for g k v
      using hr.orderly_signal[of g k v] xr.orderly_frame[of g "signalHeight k v g"] that by simp
    show "hr.orderly (signalHash k v g) \<and> xr.orderly (signalHash k v g)" if "hr.orderly g \<and> xr.orderly g" for g k v
      using xr.orderly_signal[of g k v] hr.orderly_frame[of g "signalHash k v g"] that by simp
    show "hr.orderly (addHeightWaiter k g) \<and> xr.orderly (addHeightWaiter k g)" if "hr.orderly g \<and> xr.orderly g" for g k
      using hr.orderly_register[of g k] xr.orderly_more[of g "addHeightWaiter k g"] that by (simp add: addHeightWaiter_def)
    show "hr.orderly (addHashWaiter k g) \<and> xr.orderly (addHashWaiter k g)" if "hr.orderly g \<and> xr.orderly g" for g k
      using xr.orderly_register[of g k] hr.orderly_more[of g "addHashWaiter k g"] that by (simp add: addHashWaiter_def)
  qed (use assms in simp)
  then show "hr.orderly (gateStep op g)" "xr.orderly (gateStep op g)" by simp_all
qed

text \<open>A channel that waits for a height keeps waiting for it or is answered, and an answer stays.\<close>

lemma gateStep_kept:
  assumes "hr.orderly g" and "xr.orderly g" and "hr.kept c k g"
  shows "hr.kept c k (gateStep op g)"
proof -
  have "hr.orderly (gateStep op g) \<and> hr.kept c k (gateStep op g)"
  proof (rule gateStep_keeps[of "\<lambda>g. hr.orderly g \<and> hr.kept c k g"])
    show "hr.orderly g' \<and> hr.kept c k g'" if "hr.orderly g \<and> hr.kept c k g" "sameRooms g g'" for g g'
      using hr.orderly_frame[of g g'] hr.kept_frame[of c k g g'] that by (simp add: sameRooms_def)
    show "hr.orderly (signalHeight k' v g) \<and> hr.kept c k (signalHeight k' v g)" if "hr.orderly g \<and> hr.kept c k g" for g k' v
      using hr.orderly_signal hr.kept_signal that by blast
    show "hr.orderly (signalHash k' v g) \<and> hr.kept c k (signalHash k' v g)" if "hr.orderly g \<and> hr.kept c k g" for g k' v
      using hr.orderly_frame[of g "signalHash k' v g"] hr.kept_frame[of c k g "signalHash k' v g"] that by simp
    show "hr.orderly (addHeightWaiter k' g) \<and> hr.kept c k (addHeightWaiter k' g)" if "hr.orderly g \<and> hr.kept c k g" for g k'
      using hr.orderly_register hr.kept_register that by blast
    show "hr.orderly (addHashWaiter k' g) \<and> hr.kept c k (addHashWaiter k' g)" if "hr.orderly g \<and> hr.kept c k g" for g k'
      using hr.orderly_more[of g "addHashWaiter k' g"] hr.kept_frame[of c k g "addHashWaiter k' g"] that
      by (simp add: addHashWaiter_def)
  qed (use assms in simp)
  then show ?thesis by simp
qed

lemma gateStep_sent: "set (bgHashSent g) \<subseteq> set (bgHashSent (gateStep op g))"
proof (rule gateStep_keeps[of "\<lambda>g'. set (bgHashSent g) \<subseteq> set (bgHashSent g')"])
  fix g' :: "'a BlockGate" and k v
  assume "set (bgHashSent g) \<subseteq> set (bgHashSent g')"
  then show "set (bgHashSent g) \<subseteq> set (bgHashSent (signalHeight k v g'))" by (auto simp: signalHeight_sel)
qed (simp_all add: sameRooms_def addHeightWaiter_def addHashWaiter_def)

text \<open>The same for a channel that waits for a hash.\<close>

lemma gateStep_kept_hash:
  assumes "hr.orderly g" and "xr.orderly g" and "xr.kept c k g"
  shows "xr.kept c k (gateStep op g)"
proof -
  have "xr.orderly (gateStep op g) \<and> xr.kept c k (gateStep op g)"
  proof (rule gateStep_keeps[of "\<lambda>g. xr.orderly g \<and> xr.kept c k g"])
    show "xr.orderly g' \<and> xr.kept c k g'" if "xr.orderly g \<and> xr.kept c k g" "sameRooms g g'" for g g'
      using xr.orderly_frame[of g g'] xr.kept_frame[of c k g g'] that by (simp add: sameRooms_def)
    show "xr.orderly (signalHash k' v g) \<and> xr.kept c k (signalHash k' v g)" if "xr.orderly g \<and> xr.kept c k g" for g k' v
      using xr.orderly_signal xr.kept_signal that by blast
    show "xr.orderly (signalHeight k' v g) \<and> xr.kept c k (signalHeight k' v g)" if "xr.orderly g \<and> xr.kept c k g" for g k' v
      using xr.orderly_frame[of g "signalHeight k' v g"] xr.kept_frame[of c k g "signalHeight k' v g"] that by simp
    show "xr.orderly (addHashWaiter k' g) \<and> xr.kept c k (addHashWaiter k' g)" if "xr.orderly g \<and> xr.kept c k g" for g k'
      using xr.orderly_register xr.kept_register that by blast
    show "xr.orderly (addHeightWaiter k' g) \<and> xr.kept c k (addHeightWaiter k' g)" if "xr.orderly g \<and> xr.kept c k g" for g k'
      using xr.orderly_more[of g "addHeightWaiter k' g"] xr.kept_frame[of c k g "addHeightWaiter k' g"] that
      by (simp add: addHeightWaiter_def)
  qed (use assms in simp)
  then show ?thesis by simp
qed

lemma gateStep_sent_hash: "set (bgHeightSent g) \<subseteq> set (bgHeightSent (gateStep op g))"
proof (rule gateStep_keeps[of "\<lambda>g'. set (bgHeightSent g) \<subseteq> set (bgHeightSent g')"])
  fix g' :: "'a BlockGate" and k v
  assume "set (bgHeightSent g) \<subseteq> set (bgHeightSent g')"
  then show "set (bgHeightSent g) \<subseteq> set (bgHeightSent (signalHash k v g'))" by (auto simp: signalHash_sel)
qed (simp_all add: sameRooms_def addHeightWaiter_def addHashWaiter_def)

lemma runGate_simps [simp]:
  "runGate [] g = g" "runGate (op # ops) g = runGate ops (gateStep op g)"
  "runGate (ops @ ops') g = runGate ops' (runGate ops g)"
  by (simp_all add: runGate_def)

lemma runGate_orderly:
  "hr.orderly g \<Longrightarrow> xr.orderly g \<Longrightarrow> hr.orderly (runGate ops g) \<and> xr.orderly (runGate ops g)"
  by (induction ops arbitrary: g) (simp_all add: gateStep_orderly)

lemma runGate_kept:
  assumes "hr.orderly g" and "xr.orderly g"
  shows "hr.kept c k g \<Longrightarrow> hr.kept c k (runGate ops g)" and "xr.kept c x g \<Longrightarrow> xr.kept c x (runGate ops g)"
    and "set (bgHashSent g) \<subseteq> set (bgHashSent (runGate ops g))"
    and "set (bgHeightSent g) \<subseteq> set (bgHeightSent (runGate ops g))"
  using assms
proof (induction ops arbitrary: g)
  case (Cons op ops)
  { case 1 then show ?case using Cons.IH(1)[of "gateStep op g"] by (simp add: gateStep_orderly gateStep_kept) }
  { case 2 then show ?case using Cons.IH(2)[of "gateStep op g"] by (simp add: gateStep_orderly gateStep_kept_hash) }
  { case 3 then show ?case
      using Cons.IH(3)[of "gateStep op g"] gateStep_sent[of g op] by (auto simp: gateStep_orderly) }
  { case 4 then show ?case
      using Cons.IH(4)[of "gateStep op g"] gateStep_sent_hash[of g op] by (auto simp: gateStep_orderly) }
qed simp_all

text \<open>A channel that was answered stays answered, with one value.\<close>

lemma runGate_answered:
  assumes "hr.orderly g" and "xr.orderly g"
  shows "hr.answered c k g \<Longrightarrow> hr.answered c k (runGate ops g)"
    and "xr.answered c x g \<Longrightarrow> xr.answered c x (runGate ops g)"
  using hr.answered_sent[of c k g] hr.sent_once[of "runGate ops g" c k] xr.answered_sent[of c x g]
    xr.sent_once[of "runGate ops g" c x] runGate_kept(3,4)[OF assms, of ops] runGate_orderly[OF assms, of ops]
  by blast+

lemma WaitForHeight_kept:
  assumes "WaitForHeight client k g = (Some c, g')" and "hr.orderly g" and "xr.orderly g"
  shows "hr.kept c k g'"
proof -
  let ?g1 = "addHeightWaiter k g"
  have c: "c = bgChans g"
    using assms(1) by (auto simp: WaitForHeight_def Let_def split: if_splits option.splits prod.splits sum.splits)
  have k1: "hr.kept c k ?g1" using hr.register_kept[of g k] c by simp
  have o1: "hr.orderly ?g1" "xr.orderly ?g1"
    using hr.orderly_register[OF assms(2)] xr.orderly_more[OF assms(3), of ?g1] by (simp_all add: addHeightWaiter_def)
  have "hr.kept c k (signalHeight k h ?g1)" for h by (rule hr.kept_signal[OF o1(1) k1])
  moreover have "hr.kept c k (snd (updateToBlock client k ?g1))"
    using gateStep_kept[OF o1 k1, of "OpUpdate client k"] by (simp add: UpdateToBlock_def)
  ultimately show ?thesis
    using assms(1) k1 by (auto simp: WaitForHeight_def Let_def split: if_splits option.splits prod.splits sum.splits)
qed

lemma WaitForHash_kept:
  assumes "WaitForHash x g = (c, g')" and "xr.orderly g"
  shows "xr.kept c x g'"
proof -
  have c: "c = bgChans g" using assms(1) by (auto simp: WaitForHash_def Let_def split: option.splits)
  have k1: "xr.kept c x (addHashWaiter x g)" using xr.register_kept[of g x] c by simp
  have "xr.kept c x (signalHash x h (addHashWaiter x g))" for h
    by (rule xr.kept_signal[OF xr.orderly_register[OF assms(2)] k1])
  then show ?thesis using assms(1) k1 by (auto simp: WaitForHash_def Let_def split: option.splits)
qed

lemma UpdateToBlock_answers:
  assumes "UpdateToBlock client k g = (Inr b, g')" and "hr.orderly g" and "xr.orderly g"
  shows "hr.kept c k g \<Longrightarrow> hr.answered c k g'" and "xr.kept d (mbBlockHash b) g \<Longrightarrow> xr.answered d (mbBlockHash b) g'"
proof -
  have g': "gateStep (OpUpdate client k) g = g'" using assms(1) by simp
  note O = gateStep_orderly[OF assms(2,3), of "OpUpdate client k", unfolded g']
  have w: "waitersAt (bgHeightWaiters g') k = [] \<and> waitersAt (bgHashWaiters g') (mbBlockHash b) = []"
    using assms(1)
    by (cases rule: updateToBlock_cases[of client k g]) (auto simp: UpdateToBlock_def signalHeight_sel signalHash_sel)
  show "hr.answered c k g'" if "hr.kept c k g"
    using gateStep_kept[OF assms(2,3) that, of "OpUpdate client k", unfolded g'] w by (simp add: hr.kept_def)
  show "xr.answered d (mbBlockHash b) g'" if "xr.kept d (mbBlockHash b) g"
    using gateStep_kept_hash[OF assms(2,3) that, of "OpUpdate client k", unfolded g'] w by (simp add: xr.kept_def)
qed

subsection \<open>The cache\<close>

text \<open>
  The maps are the latest entries of the queue, the queue is within the capacity, the best height is
  that of the last entry, and no one waits for what is cached.
\<close>

definition cacheOK :: "'y BlockGate \<Rightarrow> bool" where
  "cacheOK g \<longleftrightarrow>
     bgHashAtHeight g = map_of (rev (bgQueue g)) \<and>
     (\<lambda>x. map_option (\<lambda>b. uint (mbHeight b)) (bgBlockWithHash g x)) = map_of (rev (map prod.swap (bgQueue g))) \<and>
     (\<forall>x b. bgBlockWithHash g x = Some b \<longrightarrow> mbBlockHash b = x) \<and>
     int (length (bgQueue g)) \<le> max 0 (bgCap g) \<and>
     (bgCap g > 0 \<longrightarrow> (if bgQueue g = [] then bgHeight g = -1 else bgHeight g = fst (last (bgQueue g))))"

definition noneWaits :: "'y BlockGate \<Rightarrow> bool" where
  "noneWaits g \<longleftrightarrow> (\<forall>k \<in> dom (bgHashAtHeight g). waitersAt (bgHeightWaiters g) k = []) \<and>
     (\<forall>x \<in> dom (bgBlockWithHash g). waitersAt (bgHashWaiters g) x = [])"

lemma inQueue_iff: "hashInQueue q x \<longleftrightarrow> x \<in> snd ` set q" "heightInQueue q k \<longleftrightarrow> k \<in> fst ` set q"
  by (induction q) auto

text \<open>Dropping the oldest entry of a queue, in the map of its latest entries.\<close>

lemma map_of_rev_None: "map_of (rev q) k = None \<longleftrightarrow> k \<notin> fst ` set q"
  by (simp add: map_of_eq_None_iff)

lemma map_of_rev_forget:
  "(if fst p \<in> fst ` set q then map_of (rev (p # q)) else (map_of (rev (p # q)))(fst p := None)) = map_of (rev q)"
proof
  fix k
  show "(if fst p \<in> fst ` set q then map_of (rev (p # q)) else (map_of (rev (p # q)))(fst p := None)) k =
      map_of (rev q) k"
  proof (cases "map_of (rev q) k")
    case None
    then have "k \<notin> fst ` set q" by (metis map_of_rev_None)
    then show ?thesis using None by (cases p) (auto simp: map_add_def)
  next
    case (Some v)
    then have "k \<in> fst ` set q" using map_of_rev_None[of q k] by auto
    then show ?thesis using Some by (cases "k = fst p") (simp_all add: map_add_def)
  qed
qed

lemma rotateIn_frame [simp]:
  "bgHeight (rotateIn k h g) = bgHeight g" "bgCap (rotateIn k h g) = bgCap g"
  "bgHeightWaiters (rotateIn k h g) = bgHeightWaiters g" "bgHashWaiters (rotateIn k h g) = bgHashWaiters g"
  by (simp_all add: rotateIn_def Let_def)

definition blockHeights :: "'y BlockGate \<Rightarrow> Hash \<rightharpoonup> int" where
  "blockHeights g = (\<lambda>x. map_option (\<lambda>b. uint (mbHeight b)) (bgBlockWithHash g x))"

lemma rotateIn_cacheOK:
  assumes h: "bgHashAtHeight g = map_of (rev (bgQueue g @ [(k, h)]))"
    and b: "blockHeights g = map_of (rev (map prod.swap (bgQueue g @ [(k, h)])))"
    and w: "\<forall>x b. bgBlockWithHash g x = Some b \<longrightarrow> mbBlockHash b = x"
    and l: "int (length (bgQueue g)) \<le> max 0 (bgCap g)" and "bgHeight g = k"
  shows "cacheOK (rotateIn k h g)"
proof -
  obtain p r where Q: "bgQueue g @ [(k, h)] = p # r" by (cases "bgQueue g @ [(k, h)]") auto
  let ?g' = "rotateIn k h g"
  show ?thesis
  proof (cases "int (length (p # r)) > bgCap g")
    case False
    then have "?g' = g\<lparr>bgQueue := p # r\<rparr>" by (simp add: rotateIn_def Let_def Q)
    moreover have "last (p # r) = (k, h)" using Q[symmetric] by simp
    ultimately show ?thesis
      using False h b w assms(5) unfolding cacheOK_def Q blockHeights_def by simp
  next
    case True
    have q': "bgQueue ?g' = r" using True by (simp add: rotateIn_def Let_def Q)
    have h': "bgHashAtHeight ?g' = map_of (rev r)"
      using True map_of_rev_forget[of p r] h unfolding Q
      by (simp add: rotateIn_def Let_def Q inQueue_iff split: if_splits)
    have bw: "bgBlockWithHash ?g' = (if snd p \<in> snd ` set r then bgBlockWithHash g else (bgBlockWithHash g)(snd p := None))"
      using True by (simp add: rotateIn_def Let_def Q inQueue_iff)
    have "blockHeights ?g' = (if snd p \<in> snd ` set r then blockHeights g else (blockHeights g)(snd p := None))"
      by (auto simp: blockHeights_def bw fun_eq_iff)
    also have "\<dots> = map_of (rev (map prod.swap r))"
    proof -
      have "snd p \<in> snd ` set r \<longleftrightarrow> fst (prod.swap p) \<in> fst ` set (map prod.swap r)" by (simp add: image_image)
      then show ?thesis
        using map_of_rev_forget[of "prod.swap p" "map prod.swap r"] unfolding b Q list.map by (simp only: fst_swap)
    qed
    finally have b': "blockHeights ?g' = map_of (rev (map prod.swap r))" .
    have w': "mbBlockHash b = x" if "bgBlockWithHash ?g' x = Some b" for x b
      using that w unfolding bw by (auto split: if_splits)
    have len: "length r = length (bgQueue g)" using arg_cong[OF Q, of length] by simp
    have last: "fst (last r) = k" if "r \<noteq> []" using arg_cong[OF Q, of last] that by (metis fst_conv last_ConsR last_snoc)
    show ?thesis
      unfolding cacheOK_def q' rotateIn_frame assms(5) h' using b' w' l len last True
      by (auto simp: blockHeights_def)
  qed
qed

lemma cacheOK_frame:
  assumes "cacheOK g" and "bgHashAtHeight g' = bgHashAtHeight g" and "bgBlockWithHash g' = bgBlockWithHash g"
    and "bgQueue g' = bgQueue g" and "bgCap g' = bgCap g" and "bgHeight g' = bgHeight g"
  shows "cacheOK g'"
  using assms(1) unfolding cacheOK_def assms(2-6) .

lemma updateToBlock_cacheOK:
  assumes "cacheOK g"
  shows "cacheOK (snd (updateToBlock client k g))"
proof (cases rule: updateToBlock_cases[of client k g])
  case (1 e)
  then show ?thesis using assms by simp
next
  case (2 b)
  let ?x = "mbBlockHash b"
  let ?g1 = "g\<lparr>bgHeight := k, bgHashAtHeight := (bgHashAtHeight g)(k \<mapsto> ?x), bgBlockWithHash := (bgBlockWithHash g)(?x \<mapsto> b)\<rparr>"
  have C: "bgHashAtHeight g = map_of (rev (bgQueue g))" "blockHeights g = map_of (rev (map prod.swap (bgQueue g)))"
    "\<forall>x b. bgBlockWithHash g x = Some b \<longrightarrow> mbBlockHash b = x" "int (length (bgQueue g)) \<le> max 0 (bgCap g)"
    using assms by (simp_all add: cacheOK_def blockHeights_def)
  have "blockHeights ?g1 = (blockHeights g)(?x \<mapsto> k)" using 2(2) by (auto simp: blockHeights_def fun_eq_iff)
  then have b1: "blockHeights ?g1 = map_of (rev (map prod.swap (bgQueue ?g1 @ [(k, ?x)])))"
    unfolding C(2) by simp
  have h1: "bgHashAtHeight ?g1 = map_of (rev (bgQueue ?g1 @ [(k, ?x)]))" using C(1) by simp
  have w1: "\<forall>x b. bgBlockWithHash ?g1 x = Some b \<longrightarrow> mbBlockHash b = x" using C(3) by simp
  have "cacheOK (rotateIn k ?x ?g1)" by (rule rotateIn_cacheOK[OF h1 b1 w1]) (use C(4) in simp_all)
  then show ?thesis unfolding 2(1) snd_conv by (rule cacheOK_frame) simp_all
qed

lemma noneWaitsI:
  assumes "\<And>k. bgHashAtHeight g k \<noteq> None \<Longrightarrow> waitersAt (bgHeightWaiters g) k = []"
    and "\<And>x. bgBlockWithHash g x \<noteq> None \<Longrightarrow> waitersAt (bgHashWaiters g) x = []"
  shows "noneWaits g"
  using assms unfolding noneWaits_def by (auto simp: domIff)

lemma noneWaitsD:
  assumes "noneWaits g"
  shows "bgHashAtHeight g k \<noteq> None \<Longrightarrow> waitersAt (bgHeightWaiters g) k = []"
    and "bgBlockWithHash g x \<noteq> None \<Longrightarrow> waitersAt (bgHashWaiters g) x = []"
  using assms unfolding noneWaits_def by (auto simp: domIff)

lemma rotateIn_shrinks:
  "bgHashAtHeight (rotateIn k h g) j \<noteq> None \<Longrightarrow> bgHashAtHeight g j \<noteq> None"
  "bgBlockWithHash (rotateIn k h g) x \<noteq> None \<Longrightarrow> bgBlockWithHash g x \<noteq> None"
  by (auto simp: rotateIn_def Let_def split: if_splits)

text \<open>For the update it is enough that no one waits for what is cached, except for the updated height itself.\<close>

lemma updateToBlock_noneWaits:
  assumes "\<And>j. bgHashAtHeight g j \<noteq> None \<Longrightarrow> waitersAt (bgHeightWaiters g) j = []"
    and "\<And>x. bgBlockWithHash g x \<noteq> None \<Longrightarrow> waitersAt (bgHashWaiters g) x = []"
  shows "noneWaits (snd (updateToBlock client k g))"
proof (cases rule: updateToBlock_cases[of client k g])
  case (1 e)
  show ?thesis unfolding 1 snd_conv by (rule noneWaitsI) (rule assms, assumption)+
next
  case (2 b)
  show ?thesis unfolding 2(1) snd_conv
  proof (rule noneWaitsI, goal_cases)
    case (1 j)
    from rotateIn_shrinks(1)[OF 1[unfolded signalHash_frame signalHeight_frame]] show ?case
      using assms(1) by (cases "j = k") (simp_all add: signalHeight_sel)
  next
    case (2 x)
    from rotateIn_shrinks(2)[OF 2[unfolded signalHash_frame signalHeight_frame]] show ?case
      using assms(2) by (cases "x = mbBlockHash b") (simp_all add: signalHash_sel)
  qed
qed

lemma WaitForHeight_snd:
  "snd (WaitForHeight client k g) =
     (if k < 0 then g
      else case bgHashAtHeight g k of
        Some h \<Rightarrow> signalHeight k h (addHeightWaiter k g)
      | None \<Rightarrow> if k \<le> bgFetchToHeight g then snd (updateToBlock client k (addHeightWaiter k g))
          else addHeightWaiter k g)"
  by (auto simp: WaitForHeight_def Let_def addHeightWaiter_def split: option.split prod.split sum.split)

lemma gateStep_noneWaits:
  assumes "noneWaits g"
  shows "noneWaits (gateStep op g)"
proof -
  note D = noneWaitsD[OF assms]
  have up: "noneWaits (snd (UpdateToBlock client k g))" for client k
    unfolding UpdateToBlock_def using D by (rule updateToBlock_noneWaits)
  show ?thesis
  proof (cases op)
    case (OpFetchTo k)
    then show ?thesis using assms by (simp add: SetFetchToHeight_def noneWaits_def)
  next
    case (OpWaitHeight client k)
    let ?g1 = "addHeightWaiter k g"
    have f: "bgHashAtHeight ?g1 = bgHashAtHeight g" "bgBlockWithHash ?g1 = bgBlockWithHash g"
      "bgHashWaiters ?g1 = bgHashWaiters g"
      "waitersAt (bgHeightWaiters ?g1) = (waitersAt (bgHeightWaiters g))(k := waitersAt (bgHeightWaiters g) k @ [bgChans g])"
      by (simp_all add: addHeightWaiter_def)
    have s: "noneWaits (signalHeight k h ?g1)" for h
      by (rule noneWaitsI) (use D in \<open>simp_all add: signalHeight_sel f\<close>)
    have n: "noneWaits ?g1 \<and> noneWaits (snd (updateToBlock client k ?g1))" if "bgHashAtHeight g k = None"
    proof -
      have a: "waitersAt (bgHeightWaiters ?g1) j = []" if "bgHashAtHeight ?g1 j \<noteq> None" for j
        using that \<open>bgHashAtHeight g k = None\<close> D(1)[of j] unfolding f by (cases "j = k") auto
      have b: "waitersAt (bgHashWaiters ?g1) x = []" if "bgBlockWithHash ?g1 x \<noteq> None" for x
        using that D(2) unfolding f by simp
      show ?thesis using noneWaitsI[OF a b] updateToBlock_noneWaits[OF a b] by simp
    qed
    show ?thesis
      unfolding OpWaitHeight gateStep.simps WaitForHeight_snd using s n assms by (simp split: option.split)
  next
    case (OpWaitHash x)
    let ?g1 = "addHashWaiter x g"
    have f: "bgHashAtHeight ?g1 = bgHashAtHeight g" "bgBlockWithHash ?g1 = bgBlockWithHash g"
      "bgHeightWaiters ?g1 = bgHeightWaiters g"
      "waitersAt (bgHashWaiters ?g1) = (waitersAt (bgHashWaiters g))(x := waitersAt (bgHashWaiters g) x @ [bgChans g])"
      by (simp_all add: addHashWaiter_def)
    have s: "noneWaits (signalHash x h ?g1)" for h
      by (rule noneWaitsI) (use D in \<open>simp_all add: signalHash_sel f\<close>)
    have n: "noneWaits ?g1" if "bgBlockWithHash g x = None"
    proof (rule noneWaitsI)
      show "waitersAt (bgHashWaiters ?g1) y = []" if "bgBlockWithHash ?g1 y \<noteq> None" for y
        using that \<open>bgBlockWithHash g x = None\<close> D(2)[of y] unfolding f by (cases "y = x") auto
      show "waitersAt (bgHeightWaiters ?g1) j = []" if "bgHashAtHeight ?g1 j \<noteq> None" for j
        using that D(1) unfolding f by simp
    qed
    show ?thesis
      unfolding OpWaitHash gateStep.simps WaitForHash_def Let_def f
      using s n by (auto split: option.split)
  qed (use assms up in \<open>auto simp: UpdateToBestBlock_def UpdateToNextBlock_def split: sum.split\<close>)
qed

lemma gateStep_cacheOK:
  assumes "cacheOK g"
  shows "cacheOK (gateStep op g)"
proof -
  have r: "cacheOK (addHeightWaiter k g)" "cacheOK (addHashWaiter x g)" for k x
    by (rule cacheOK_frame[OF assms]; simp add: addHeightWaiter_def addHashWaiter_def)+
  have s: "cacheOK (signalHeight k h g')" "cacheOK (signalHash h k g')" if "cacheOK g'" for k h and g' :: "'a BlockGate"
    by (rule cacheOK_frame[OF that]; simp)+
  note u = updateToBlock_cacheOK[OF assms] updateToBlock_cacheOK[OF r(1)]
  have "cacheOK (SetFetchToHeight k g)" for k
    by (rule cacheOK_frame[OF assms]) (simp_all add: SetFetchToHeight_def)
  then show ?thesis using assms u r s
    by (cases op) (auto simp: UpdateToBlock_def UpdateToBestBlock_def UpdateToNextBlock_def WaitForHeight_snd
        WaitForHash_def Let_def split: sum.split option.split)
qed

lemma NewBlockGate_OK:
  "cacheOK (NewBlockGate cap)" "noneWaits (NewBlockGate cap)" "hr.orderly (NewBlockGate cap)" "xr.orderly (NewBlockGate cap)"
  by (simp_all add: cacheOK_def noneWaits_def NewBlockGate_def hr.orderly_def xr.orderly_def waitersAt_def)

lemma runGate_OK:
  "cacheOK g \<Longrightarrow> noneWaits g \<Longrightarrow> cacheOK (runGate ops g) \<and> noneWaits (runGate ops g)"
  by (induction ops arbitrary: g) (simp_all add: gateStep_cacheOK gateStep_noneWaits)

lemma runGate_cap: "bgCap (runGate ops g) = bgCap g"
proof -
  have r: "bgCap (addHeightWaiter k g) = bgCap g" "bgCap (addHashWaiter x g) = bgCap g" for k x and g :: "'a BlockGate"
    by (simp_all add: addHeightWaiter_def addHashWaiter_def)
  have u: "bgCap (snd (updateToBlock client k g)) = bgCap g" for client k and g :: "'a BlockGate"
    by (cases rule: updateToBlock_cases[of client k g]) simp_all
  have "bgCap (gateStep op g) = bgCap g" for op and g :: "'a BlockGate"
    using u[of _ _ g] u[of _ _ "addHeightWaiter _ g"]
    by (cases op) (auto simp: UpdateToBlock_def UpdateToBestBlock_def UpdateToNextBlock_def WaitForHeight_snd
        WaitForHash_def SetFetchToHeight_def Let_def r split: sum.split option.split)
  then show ?thesis by (induction ops arbitrary: g) simp_all
qed

lemma run_new:
  "cacheOK (runGate ops (NewBlockGate cap))" "noneWaits (runGate ops (NewBlockGate cap))"
  "hr.orderly (runGate ops (NewBlockGate cap))" "xr.orderly (runGate ops (NewBlockGate cap))"
  "bgCap (runGate ops (NewBlockGate cap)) = cap"
  by (rule runGate_OK[OF NewBlockGate_OK(1,2), THEN conjunct1] runGate_OK[OF NewBlockGate_OK(1,2), THEN conjunct2]
      runGate_orderly[OF NewBlockGate_OK(3,4), THEN conjunct1] runGate_orderly[OF NewBlockGate_OK(3,4), THEN conjunct2])+
    (simp add: runGate_cap, simp add: NewBlockGate_def)

lemma blockHeights_dom: "blockHeights g x = None \<longleftrightarrow> bgBlockWithHash g x = None"
  by (simp add: blockHeights_def)

lemma cacheOK_entry:
  assumes "cacheOK g" and "bgBlockWithHash g x = Some b"
  shows "mbBlockHash b = x" and "(uint (mbHeight b), x) \<in> set (bgQueue g)"
proof -
  have B: "blockHeights g = map_of (rev (map prod.swap (bgQueue g)))"
    using assms(1) by (simp add: cacheOK_def blockHeights_def)
  show "mbBlockHash b = x" using assms by (simp add: cacheOK_def)
  have "blockHeights g x = Some (uint (mbHeight b))" using assms(2) by (simp add: blockHeights_def)
  then have "(x, uint (mbHeight b)) \<in> set (map prod.swap (bgQueue g))"
    unfolding B by (metis map_of_SomeD set_rev)
  then show "(uint (mbHeight b), x) \<in> set (bgQueue g)" by force
qed

lemma cacheOK_dom:
  assumes "cacheOK g"
  shows "dom (bgBlockWithHash g) = snd ` set (bgQueue g)"
proof -
  have B: "blockHeights g = map_of (rev (map prod.swap (bgQueue g)))"
    using assms by (simp add: cacheOK_def blockHeights_def)
  have "dom (bgBlockWithHash g) = dom (blockHeights g)" by (auto simp: blockHeights_def)
  also have "\<dots> = snd ` set (bgQueue g)" unfolding B dom_map_of_conv_image_fst by (auto simp: image_image)
  finally show ?thesis .
qed

subsection \<open>Properties\<close>

text \<open>Example data: a gate with room for two blocks on the example node.\<close>

definition exOps :: "unit gateOp list" where
  "exOps = [OpUpdate exNode 1, OpWaitHeight exNode 2, OpUpdate exNode 2, OpUpdateNext exNode, OpWaitHash 4]"

definition exB :: "Hash \<Rightarrow> unit MsgBlock" where
  "exB h = \<lparr>mbHeight = exHeight h, mbPrevBlock = the (exParent h), mbBlockHash = h, mbRest = ()\<rparr>"

text \<open>C23: The gate stays consistent. Whatever operations have run on a new gate, and whatever the node answered:
  the hash at a height is that of the latest queued block of this height, a cached block has the hash
  under which it is cached and is in the queue with its height, exactly the queued hashes have a block,
  the queue is within the capacity, no one waits for a height or a hash that is cached, and no channel
  was sent to twice (which would be a panic).\<close>

theorem gate_invariant:
  assumes "g = runGate ops (NewBlockGate cap)"
  shows "bgHashAtHeight g = map_of (rev (bgQueue g)) \<and>
    (\<forall>x b. bgBlockWithHash g x = Some b \<longrightarrow> mbBlockHash b = x \<and> (uint (mbHeight b), x) \<in> set (bgQueue g)) \<and>
    dom (bgBlockWithHash g) = snd ` set (bgQueue g) \<and>
    int (length (bgQueue g)) \<le> max 0 cap \<and>
    (\<forall>k \<in> dom (bgHashAtHeight g). waitersAt (bgHeightWaiters g) k = []) \<and>
    (\<forall>x \<in> dom (bgBlockWithHash g). waitersAt (bgHashWaiters g) x = []) \<and>
    distinct (map fst (bgHashSent g)) \<and> distinct (map fst (bgHeightSent g))"
proof -
  note R = run_new[of ops cap, folded assms]
  show ?thesis
    using R(1,5) cacheOK_entry[OF R(1)] cacheOK_dom[OF R(1)] R(2) hr.orderlyD(3)[OF R(3)] xr.orderlyD(3)[OF R(4)]
    by (simp add: cacheOK_def noneWaits_def)
qed

theorem gate_invariant_witness:
  "int (length (bgQueue (runGate exOps (NewBlockGate 2)))) \<le> 2 \<and>
   distinct (map fst (bgHashSent (runGate exOps (NewBlockGate 2))))"
  using gate_invariant[OF refl, of exOps 2] by simp

text \<open>C22: Whoever waits is signalled, once. If WaitForHeight returns a channel, and at any later time the gate is
  updated to this height, then exactly one value is ever sent on the channel, and it is sent for this
  height; it does not matter what happens before, in between and afterwards. The same holds for
  WaitForHash and an update to a block with this hash. The two halves are independent: neither needs
  that the other method was called.\<close>

theorem waiters_signalled:
  shows "(WaitForHeight client k (runGate ops0 (NewBlockGate cap)) = (Some c, g1)
      \<and> UpdateToBlock client' k (runGate ops1 g1) = (Inr b, g2)
      \<longrightarrow> (\<exists>h. filter (\<lambda>s. fst s = c) (bgHashSent (runGate ops2 g2)) = [(c, k, h)]))
    \<and> (WaitForHash x (runGate ops0 (NewBlockGate cap)) = (d, g1)
      \<and> UpdateToBlock client' k (runGate ops1 g1) = (Inr b, g2) \<and> mbBlockHash b = x
      \<longrightarrow> (\<exists>j. filter (\<lambda>s. fst s = d) (bgHeightSent (runGate ops2 g2)) = [(d, x, j)]))"
  (is "(?waitHeight \<and> ?update \<longrightarrow> ?height) \<and> (?waitHash \<and> ?update \<and> ?same \<longrightarrow> ?hash)")
proof (intro conjI impI; elim conjE)
  note o0 = run_new(3,4)[of ops0 cap]
  { assume w: ?waitHeight and u: ?update
    have g1: "g1 = gateStep (OpWaitHeight client k) (runGate ops0 (NewBlockGate cap))" using w by simp
    have g2: "g2 = gateStep (OpUpdate client' k) (runGate ops1 g1)" using u by simp
    note o1 = gateStep_orderly[OF o0, of "OpWaitHeight client k", folded g1]
    note o1' = runGate_orderly[OF o1, of ops1]
    note o2 = gateStep_orderly[OF o1'[THEN conjunct1] o1'[THEN conjunct2], of "OpUpdate client' k", folded g2]
    have "hr.kept c k (runGate ops1 g1)"
      by (rule runGate_kept(1)[OF o1 WaitForHeight_kept[OF w o0]])
    from UpdateToBlock_answers(1)[OF u o1'[THEN conjunct1] o1'[THEN conjunct2] this]
    show ?height using runGate_answered(1)[OF o2, of c k ops2] by (simp add: hr.answered_def) }
  { assume w: ?waitHash and u: ?update and x: ?same
    have g1: "g1 = gateStep (OpWaitHash x) (runGate ops0 (NewBlockGate cap))" using w by simp
    have g2: "g2 = gateStep (OpUpdate client' k) (runGate ops1 g1)" using u by simp
    note o1 = gateStep_orderly[OF o0, of "OpWaitHash x", folded g1]
    note o1' = runGate_orderly[OF o1, of ops1]
    note o2 = gateStep_orderly[OF o1'[THEN conjunct1] o1'[THEN conjunct2], of "OpUpdate client' k", folded g2]
    have "xr.kept d x (runGate ops1 g1)"
      by (rule runGate_kept(2)[OF o1 WaitForHash_kept[OF w o0(2)]])
    from UpdateToBlock_answers(2)[OF u o1'[THEN conjunct1] o1'[THEN conjunct2], unfolded x, OF this]
    show ?hash using runGate_answered(2)[OF o2, of d x ops2] by (simp add: xr.answered_def) }
qed

lemma exGate_update:
  "UpdateToBlock exNode 2 g = (Inr (exB 4), snd (UpdateToBlock exNode 2 g))"
  by (simp add: UpdateToBlock_def updateToBlock_def GetBlock_def exNode_def exB_def exParent_def exHeight_def Let_def)

theorem waiters_signalled_witness:
  "(\<exists>h. filter (\<lambda>s. fst s = 0) (bgHashSent (runGate exOps (snd (UpdateToBlock exNode 2
      (snd (WaitForHash 4 (snd (WaitForHeight exNode 2 (NewBlockGate 2))))))))) = [(0, 2, h)])
   \<and> (\<exists>j. filter (\<lambda>s. fst s = 0) (bgHeightSent (runGate exOps (snd (UpdateToBlock exNode 2
      (snd (WaitForHash 4 (NewBlockGate 2))))))) = [(0, 4, j)])"
proof -
  let ?g0 = "NewBlockGate 2"
  let ?g1 = "snd (WaitForHeight exNode 2 ?g0)"
  let ?x1 = "snd (WaitForHash 4 ?g0)"
  have w: "WaitForHeight exNode 2 (runGate [] ?g0) = (Some 0, ?g1)"
    by (simp add: WaitForHeight_def NewBlockGate_def addHeightWaiter_def Let_def)
  have u: "UpdateToBlock exNode 2 (runGate [OpWaitHash 4] ?g1)
      = (Inr (exB 4), snd (UpdateToBlock exNode 2 (snd (WaitForHash 4 ?g1))))"
    using exGate_update by simp
  have x: "WaitForHash 4 (runGate [] ?g0) = (0, ?x1)"
    by (rule prod_eqI) (simp_all add: WaitForHash_def NewBlockGate_def Let_def split: option.split)
  have v: "UpdateToBlock exNode 2 (runGate [] ?x1) = (Inr (exB 4), snd (UpdateToBlock exNode 2 ?x1))"
    using exGate_update by simp
  show ?thesis
    using waiters_signalled[THEN conjunct1, THEN mp, OF conjI, OF w u, of exOps]
      waiters_signalled[THEN conjunct2, THEN mp, OF conjI, OF x conjI, OF v, of exOps]
    by (simp add: exB_def)
qed

text \<open>The best block is served from the cache. On a gate with room for a block that was updated at least once,
  BestBlockHash and BestBlock succeed, and return the hash and the block of the height to which the
  gate was updated last; Block returns it for this hash without asking the node.\<close>

theorem best_block_cached:
  assumes "g = runGate ops (NewBlockGate cap)" and "0 < cap" and "0 \<le> bgHeight g"
  shows "\<exists>b. BestBlockHash g = (mbBlockHash b, bgHeight g, None) \<and> BestBlock g = (Some b, None) \<and>
    uint (mbHeight b) = bgHeight g \<and> (\<forall>client. Block client (mbBlockHash b) g = Inr b)"
proof -
  note R = run_new[of ops cap, folded assms(1)]
  have "bgQueue g \<noteq> []" and h: "bgHeight g = fst (last (bgQueue g))"
    using R(1,5) assms(2,3) unfolding cacheOK_def by (auto split: if_splits)
  then obtain q p where q: "bgQueue g = q @ [p]" by (metis rev_exhaust)
  have a: "bgHashAtHeight g (bgHeight g) = Some (snd p)"
    using R(1) h q unfolding cacheOK_def by simp
  have "blockHeights g (snd p) = Some (fst p)"
    using R(1) q unfolding cacheOK_def blockHeights_def[symmetric] by (cases p) simp
  then obtain b where b: "bgBlockWithHash g (snd p) = Some b" "uint (mbHeight b) = fst p"
    by (auto simp: blockHeights_def)
  moreover have "mbBlockHash b = snd p" by (rule cacheOK_entry(1)[OF R(1) b(1)])
  ultimately show ?thesis
    using a h q by (intro exI[of _ b]) (simp add: BestBlockHash_def BestBlock_def Block_def CachedBlock_def)
qed

theorem best_block_cached_witness:
  "\<exists>b. BestBlock (runGate [OpUpdate exNode 2] (NewBlockGate 1)) = (Some b, None)"
proof -
  have "0 \<le> bgHeight (runGate [OpUpdate exNode 2] (NewBlockGate 1))"
    by (simp add: UpdateToBlock_def updateToBlock_def GetBlock_def exNode_def exParent_def exHeight_def Let_def)
  from best_block_cached[OF refl _ this] show ?thesis by auto
qed

end
