(* ===== verification/Prefetcher.thy ===== *)
theory Prefetcher
  imports ChainRpc
begin

text \<open>
  The prefetching client of \<open>rpcutils/prefetcher.go\<close>: a \<open>BlockFetcher\<close> that keeps two blocks and fetches
  the block after the one that was asked for.

  Three kinds of goroutines work on the client: callers, the goroutine that a caller starts and leaves
  the mutex to, and the fetcher. The state has the fields of the Go struct, the holder of the mutex
  between two steps (\<open>pfLock\<close>: free, or the goroutine that is to retarget to a hash), and the hash that
  the fetcher has received and not yet worked on (\<open>pfHand\<close>). What is done between locking and unlocking
  is one step, except that the retargeting goroutine waits while the channel, which has 10 places, is
  full. A nil pointer is \<open>None\<close>. The hit counters wrap.
\<close>

subsection \<open>The client\<close>

record 'y blockData =
  bdHeight :: "32 word"
  bdHash :: Hash
  bdMsgBlock :: "'y MsgBlock option"
  bdHeaderResult :: "HeaderVerbose option"

datatype lockState = Unlocked | Retargeting string

record 'y BlockPrefetchClient =
  pfCurrent :: "'y blockData"
  pfNext :: "'y blockData"
  pfHits :: uint64
  pfMisses :: uint64
  pfRetargetChan :: "Hash list"
  pfClosed :: bool
  pfLock :: lockState
  pfHand :: "Hash option"

definition newBlockData :: "'y blockData" where
  "newBlockData = \<lparr>bdHeight = 0, bdHash = 0, bdMsgBlock = None, bdHeaderResult = None\<rparr>"

definition NewBlockPrefetchClient :: "'y BlockPrefetchClient" where
  "NewBlockPrefetchClient =
     \<lparr>pfCurrent = newBlockData, pfNext = newBlockData, pfHits = 0, pfMisses = 0, pfRetargetChan = [],
      pfClosed = False, pfLock = Unlocked, pfHand = None\<rparr>"

definition Stop :: "'y BlockPrefetchClient \<Rightarrow> 'y BlockPrefetchClient go" where
  "Stop p = (if pfClosed p then Panic else Ret (p\<lparr>pfClosed := True\<rparr>))"

definition Hits :: "'y BlockPrefetchClient \<Rightarrow> uint64" where
  "Hits p = pfHits p"

definition Misses :: "'y BlockPrefetchClient \<Rightarrow> uint64" where
  "Misses p = pfMisses p"

definition retrieveBlockAndHeaderResult ::
    "'y BlockFetcher \<Rightarrow> Hash \<Rightarrow> string + 'y MsgBlock \<times> HeaderVerbose" where
  "retrieveBlockAndHeaderResult f hash =
     (case fGetBlock f hash of
        Inl e \<Rightarrow> Inl e
      | Inr msgBlock \<Rightarrow>
          (case fGetBlockHeaderVerbose f hash of Inl e \<Rightarrow> Inl e | Inr headerResult \<Rightarrow> Inr (msgBlock, headerResult)))"

text \<open>The result of a request, which may have nil pointers and no error.\<close>

type_synonym 'y fetched = "string + 'y MsgBlock option \<times> HeaderVerbose option"

definition GetBlockData ::
    "'y BlockFetcher \<Rightarrow> Hash \<Rightarrow> 'y BlockPrefetchClient \<Rightarrow> 'y fetched go \<times> 'y BlockPrefetchClient" where
  "GetBlockData f hash p =
     (if bdHash (pfCurrent p) = hash then
        (Ret (Inr (bdMsgBlock (pfCurrent p), bdHeaderResult (pfCurrent p))), p\<lparr>pfHits := pfHits p + 1\<rparr>)
      else if bdHash (pfNext p) = hash then
        (case bdHeaderResult (pfNext p) of
           None \<Rightarrow> (Panic, p)
         | Some header \<Rightarrow>
             (Ret (Inr (bdMsgBlock (pfNext p), Some header)),
              p\<lparr>pfLock := Retargeting (hvNextHash header), pfHits := pfHits p + 1\<rparr>))
      else
        let p1 = p\<lparr>pfMisses := pfMisses p + 1\<rparr> in
        case retrieveBlockAndHeaderResult f hash of
          Inl e \<Rightarrow> (Ret (Inl e), p1)
        | Inr (msgBlock, headerResult) \<Rightarrow>
            (Ret (Inr (Some msgBlock, Some headerResult)), p1\<lparr>pfLock := Retargeting (hvNextHash headerResult)\<rparr>))"

definition pfGetBlock ::
    "'y BlockFetcher \<Rightarrow> Hash \<Rightarrow> 'y BlockPrefetchClient \<Rightarrow> (string + 'y MsgBlock option) go \<times> 'y BlockPrefetchClient" where
  "pfGetBlock f hash p =
     (case GetBlockData f hash p of
        (Panic, p1) \<Rightarrow> (Panic, p1)
      | (Ret (Inl e), p1) \<Rightarrow> (Ret (Inl e), p1)
      | (Ret (Inr (msgBlock, _)), p1) \<Rightarrow> (Ret (Inr msgBlock), p1))"

definition pfGetBlockHeaderVerbose ::
    "'y BlockFetcher \<Rightarrow> Hash \<Rightarrow> 'y BlockPrefetchClient \<Rightarrow> (string + HeaderVerbose option) go \<times> 'y BlockPrefetchClient" where
  "pfGetBlockHeaderVerbose f hash p =
     (case GetBlockData f hash p of
        (Panic, p1) \<Rightarrow> (Panic, p1)
      | (Ret (Inl e), p1) \<Rightarrow> (Ret (Inl e), p1)
      | (Ret (Inr (_, headerResult)), p1) \<Rightarrow> (Ret (Inr headerResult), p1))"

definition storeNext ::
    "'y MsgBlock \<Rightarrow> HeaderVerbose \<Rightarrow> 'y BlockPrefetchClient \<Rightarrow> 'y BlockPrefetchClient" where
  "storeNext msgBlock headerResult p =
     p\<lparr>pfCurrent := pfNext p,
       pfNext := \<lparr>bdHeight = mbHeight msgBlock, bdHash = mbBlockHash msgBlock, bdMsgBlock = Some msgBlock,
         bdHeaderResult = Some headerResult\<rparr>\<rparr>"

definition haveBlockHeight :: "32 word \<Rightarrow> 'y BlockPrefetchClient \<Rightarrow> bool" where
  "haveBlockHeight height p \<longleftrightarrow> bdHeight (pfNext p) = height \<or> bdHeight (pfCurrent p) = height"

definition haveBlockHash :: "Hash \<Rightarrow> 'y BlockPrefetchClient \<Rightarrow> bool" where
  "haveBlockHash hash p \<longleftrightarrow> bdHash (pfNext p) = hash \<or> bdHash (pfCurrent p) = hash"

definition RetrieveAndStoreNext ::
    "'y BlockFetcher \<Rightarrow> Hash \<Rightarrow> 'y BlockPrefetchClient \<Rightarrow> 'y BlockPrefetchClient" where
  "RetrieveAndStoreNext f nextHash p =
     (if haveBlockHash nextHash p then p
      else case retrieveBlockAndHeaderResult f nextHash of
        Inl _ \<Rightarrow> p
      | Inr (msgBlock, headerResult) \<Rightarrow> storeNext msgBlock headerResult p)"

text \<open>The hash that \<open>retarget\<close> sends, if it sends one; then \<open>retarget\<close>, where \<open>None\<close> is that it has to wait.\<close>

definition retargetHash ::
    "(string \<Rightarrow> Hash option) \<Rightarrow> string \<Rightarrow> 'y BlockPrefetchClient \<Rightarrow> Hash option" where
  "retargetHash nh hash p =
     (if hash = [] then None
      else if (case bdHeaderResult (pfNext p) of None \<Rightarrow> False | Some hv \<Rightarrow> hash = hvHash hv) then None
      else if (case bdHeaderResult (pfCurrent p) of None \<Rightarrow> False | Some hv \<Rightarrow> hash = hvHash hv) then None
      else nh hash)"

definition retarget ::
    "(string \<Rightarrow> Hash option) \<Rightarrow> string \<Rightarrow> 'y BlockPrefetchClient \<Rightarrow> 'y BlockPrefetchClient go option" where
  "retarget nh hash p =
     (case retargetHash nh hash p of
        None \<Rightarrow> Some (Ret p)
      | Some h \<Rightarrow>
          if pfClosed p then Some Panic
          else if length (pfRetargetChan p) < 10 then Some (Ret (p\<lparr>pfRetargetChan := pfRetargetChan p @ [h]\<rparr>))
          else None)"

subsection \<open>The goroutines\<close>

inductive pfStep ::
    "'y BlockFetcher \<Rightarrow> (string \<Rightarrow> Hash option) \<Rightarrow> 'y BlockPrefetchClient \<Rightarrow> 'y BlockPrefetchClient \<Rightarrow> bool"
  for f :: "'y BlockFetcher" and nh :: "string \<Rightarrow> Hash option" where
  request: "pfLock p = Unlocked \<Longrightarrow> GetBlockData f hash p = (r, p') \<Longrightarrow> pfStep f nh p p'"
| stop: "pfLock p = Unlocked \<Longrightarrow> Stop p = Ret p' \<Longrightarrow> pfStep f nh p p'"
| store: "pfLock p = Unlocked \<Longrightarrow> pfStep f nh p (RetrieveAndStoreNext f hash p)"
| retargets: "pfLock p = Retargeting s \<Longrightarrow> retarget nh s p = Some (Ret p') \<Longrightarrow>
    pfStep f nh p (p'\<lparr>pfLock := Unlocked\<rparr>)"
| receive: "pfHand p = None \<Longrightarrow> pfRetargetChan p = h # hs \<Longrightarrow>
    pfStep f nh p (p\<lparr>pfHand := Some h, pfRetargetChan := hs\<rparr>)"
| fetcher: "pfHand p = Some h \<Longrightarrow> pfLock p = Unlocked \<Longrightarrow>
    pfStep f nh p ((RetrieveAndStoreNext f h p)\<lparr>pfHand := None\<rparr>)"

inductive_cases pfStepE: "pfStep f nh p p'"

text \<open>The reachable states. The node is not the same at every step: its answers change with the chain, and
  header fields such as the confirmations and the next hash with every block. \<open>S\<close> holds the node as it is at the steps
  of a run.\<close>

inductive pfReach ::
    "'y BlockFetcher set \<Rightarrow> (string \<Rightarrow> Hash option) \<Rightarrow> 'y BlockPrefetchClient \<Rightarrow> bool"
  for S :: "'y BlockFetcher set" and nh :: "string \<Rightarrow> Hash option" where
  start: "pfReach S nh NewBlockPrefetchClient"
| step: "pfReach S nh p \<Longrightarrow> pfStep f nh p p' \<Longrightarrow> f \<in> S \<Longrightarrow> pfReach S nh p'"

subsection \<open>What is kept\<close>

text \<open>A node that knows a block under its hash only, and none under the zero hash.\<close>

definition honestNode :: "'y BlockFetcher \<Rightarrow> bool" where
  "honestNode f \<longleftrightarrow> (\<forall>h b. fGetBlock f h = Inr b \<longrightarrow> mbBlockHash b = h \<and> h \<noteq> 0)"

text \<open>A stored block is one that the node had under its hash.\<close>

definition fromNode :: "'y BlockFetcher set \<Rightarrow> 'y blockData \<Rightarrow> bool" where
  "fromNode S d \<longleftrightarrow> (\<exists>b hv. bdMsgBlock d = Some b \<and> bdHeaderResult d = Some hv \<and> bdHeight d = mbHeight b \<and>
     (\<exists>f\<in>S. retrieveBlockAndHeaderResult f (bdHash d) = Inr (b, hv)) \<and> bdHash d \<noteq> 0)"

definition keptOK :: "'y BlockFetcher set \<Rightarrow> 'y BlockPrefetchClient \<Rightarrow> bool" where
  "keptOK S p \<longleftrightarrow> (fromNode S (pfCurrent p) \<or> pfCurrent p = newBlockData) \<and>
     (fromNode S (pfNext p) \<or> pfNext p = newBlockData \<and> pfCurrent p = newBlockData) \<and>
     length (pfRetargetChan p) \<le> 10"

lemma GetBlockData_kept:
  "GetBlockData f hash p = (r, p') \<Longrightarrow> pfCurrent p' = pfCurrent p \<and> pfNext p' = pfNext p \<and>
     pfRetargetChan p' = pfRetargetChan p \<and> pfHand p' = pfHand p \<and> pfClosed p' = pfClosed p"
  by (auto simp: GetBlockData_def Let_def split: if_splits option.splits sum.splits prod.splits)

lemma RetrieveAndStoreNext_keptOK:
  assumes "honestNode f" and "keptOK S p" and "f \<in> S"
  shows "keptOK S (RetrieveAndStoreNext f h p)"
proof (cases "haveBlockHash h p \<or> isl (retrieveBlockAndHeaderResult f h)")
  case True
  then have "RetrieveAndStoreNext f h p = p" by (auto simp: RetrieveAndStoreNext_def isl_def)
  then show ?thesis using assms by simp
next
  case False
  then obtain b hv where r: "retrieveBlockAndHeaderResult f h = Inr (b, hv)"
    by (cases "retrieveBlockAndHeaderResult f h") auto
  then have "fGetBlock f h = Inr b" by (auto simp: retrieveBlockAndHeaderResult_def split: sum.splits)
  then have b: "mbBlockHash b = h" "h \<noteq> 0" using assms(1) by (auto simp: honestNode_def)
  have n: "RetrieveAndStoreNext f h p = storeNext b hv p"
    using False r by (simp add: RetrieveAndStoreNext_def)
  have "fromNode S (pfNext (storeNext b hv p))" using r b assms(3) by (auto simp: fromNode_def storeNext_def)
  then show ?thesis using assms(2) unfolding n keptOK_def by (auto simp: storeNext_def)
qed

lemma keptOK_frame:
  "keptOK S p \<Longrightarrow> pfCurrent p' = pfCurrent p \<Longrightarrow> pfNext p' = pfNext p \<Longrightarrow> length (pfRetargetChan p') \<le> 10 \<Longrightarrow> keptOK S p'"
  by (simp add: keptOK_def)

lemma pfStep_keptOK:
  assumes "pfStep f nh p p'" and "honestNode f" and "keptOK S p" and "f \<in> S"
  shows "keptOK S p'"
  using assms(1)
proof cases
  case (request hash r)
  then show ?thesis using GetBlockData_kept[of f hash p r p'] assms(3) by (simp add: keptOK_def)
next
  case stop
  then show ?thesis using assms(3) by (auto simp: Stop_def keptOK_def split: if_splits)
next
  case (store hash)
  then show ?thesis using RetrieveAndStoreNext_keptOK assms(2-4) by blast
next
  case (retargets s q)
  then show ?thesis
    using assms(3) by (auto simp: retarget_def keptOK_def split: option.splits if_splits)
next
  case (receive h hs)
  then show ?thesis using assms(3) by (simp add: keptOK_def)
next
  case (fetcher h)
  then show ?thesis
    using keptOK_frame[OF RetrieveAndStoreNext_keptOK[OF assms(2-4), of h]]
      RetrieveAndStoreNext_keptOK[OF assms(2-4), of h] by (simp add: keptOK_def)
qed

lemma pfReach_keptOK: "pfReach S nh p \<Longrightarrow> \<forall>f\<in>S. honestNode f \<Longrightarrow> keptOK S p"
  by (induction rule: pfReach.induct)
    (auto simp: keptOK_def NewBlockPrefetchClient_def dest: pfStep_keptOK)

subsection \<open>When nothing can go on\<close>

lemma pfStep_request: "pfLock p = Unlocked \<Longrightarrow> pfStep f nh p (snd (GetBlockData f h p))"
  by (rule pfStep.request[OF _ surjective_pairing])

lemma pfStep_blocked:
  assumes "\<not> pfClosed p"
  shows "(\<nexists>p'. pfStep f nh p p') \<longleftrightarrow>
    (\<exists>s h. pfLock p = Retargeting s \<and> retargetHash nh s p = Some h \<and> 10 \<le> length (pfRetargetChan p) \<and> pfHand p \<noteq> None)"
proof (cases "pfLock p")
  case Unlocked
  have "pfStep f nh p (snd (GetBlockData f 0 p))" by (rule pfStep_request[OF Unlocked])
  then show ?thesis using Unlocked by auto
next
  case (Retargeting s)
  show ?thesis
  proof (cases "retarget nh s p")
    case (Some r)
    obtain q where q: "r = Ret q"
      using Some assms by (auto simp: retarget_def split: option.splits if_splits)
    have "\<not> (\<exists>h. retargetHash nh s p = Some h \<and> 10 \<le> length (pfRetargetChan p))"
      using Some assms by (auto simp: retarget_def)
    then show ?thesis using pfStep.retargets[OF Retargeting Some[unfolded q]] Retargeting by auto
  next
    case None
    then obtain h where h: "retargetHash nh s p = Some h" "10 \<le> length (pfRetargetChan p)"
      using assms by (auto simp: retarget_def split: option.splits if_splits)
    show ?thesis
    proof (cases "pfHand p")
      case None': None
      obtain x xs where "pfRetargetChan p = x # xs" using h(2) by (cases "pfRetargetChan p") auto
      from pfStep.receive[OF None' this] show ?thesis using None' by blast
    next
      case (Some y)
      have "\<not> pfStep f nh p p'" for p'
        using Retargeting Some None by (auto elim!: pfStepE)
      then show ?thesis using h Some Retargeting by blast
    qed
  qed
qed

text \<open>The state after requests for one block, none of which the fetcher has worked on.\<close>

lemma pfReach_pending:
  assumes r: "retrieveBlockAndHeaderResult f h = Inr (b, hv)" and "h \<noteq> 0" and n: "hvNextHash hv \<noteq> []" "nh (hvNextHash hv) = Some x"
    and "k \<le> 10"
  shows "\<exists>p. pfReach {f} nh p \<and> pfCurrent p = newBlockData \<and> pfNext p = newBlockData \<and> \<not> pfClosed p \<and>
    pfLock p = Unlocked \<and> pfHand p = Some x \<and> length (pfRetargetChan p) = k"
proof -
  have ask: "\<exists>p'. pfReach {f} nh p' \<and> pfCurrent p' = newBlockData \<and> pfNext p' = newBlockData \<and> \<not> pfClosed p' \<and>
      pfLock p' = Unlocked \<and> pfHand p' = pfHand p \<and> pfRetargetChan p' = pfRetargetChan p @ [x]"
    if p: "pfReach {f} nh p" "pfCurrent p = newBlockData" "pfNext p = newBlockData" "\<not> pfClosed p"
      "pfLock p = Unlocked" "length (pfRetargetChan p) < 10" for p
  proof -
    let ?q = "snd (GetBlockData f h p)"
    have q: "?q = p\<lparr>pfMisses := pfMisses p + 1, pfLock := Retargeting (hvNextHash hv)\<rparr>"
      using p(2,3) assms(2) r by (simp add: GetBlockData_def newBlockData_def Let_def)
    have "pfReach {f} nh ?q" by (rule pfReach.step[OF p(1) pfStep_request[OF p(5)] singletonI])
    moreover have "retarget nh (hvNextHash hv) ?q = Some (Ret (?q\<lparr>pfRetargetChan := pfRetargetChan p @ [x]\<rparr>))"
      unfolding q using p n by (simp add: retarget_def retargetHash_def newBlockData_def)
    moreover have "pfLock ?q = Retargeting (hvNextHash hv)" by (simp add: q)
    ultimately have "pfReach {f} nh (?q\<lparr>pfRetargetChan := pfRetargetChan p @ [x], pfLock := Unlocked\<rparr>)"
      using pfReach.step[OF _ pfStep.retargets, where S = "{f}" and f = f and p = ?q] by blast
    then show ?thesis using p unfolding q by (intro exI conjI) (assumption, simp_all)
  qed
  show ?thesis using assms(5)
  proof (induction k)
    case 0
    obtain p where p: "pfReach {f} nh p" "pfCurrent p = newBlockData" "pfNext p = newBlockData" "\<not> pfClosed p"
      "pfLock p = Unlocked" "pfHand p = None" "pfRetargetChan p = [x]"
      using ask[OF pfReach.start] by (auto simp: NewBlockPrefetchClient_def)
    from pfReach.step[OF p(1) pfStep.receive[OF p(6,7)] singletonI] show ?case
      using p by (intro exI conjI) (assumption, simp_all)
  next
    case (Suc k)
    then obtain p where p: "pfReach {f} nh p" "pfCurrent p = newBlockData" "pfNext p = newBlockData" "\<not> pfClosed p"
      "pfLock p = Unlocked" "pfHand p = Some x" "length (pfRetargetChan p) = k" by auto
    from ask[OF p(1-5)] show ?case using p Suc.prems by fastforce
  qed
qed

lemma prefetch_can_deadlock:
  assumes "retrieveBlockAndHeaderResult f h = Inr (b, hv)" and "h \<noteq> 0"
    and "hvNextHash hv \<noteq> []" and "nh (hvNextHash hv) = Some x"
  shows "\<exists>p. pfReach {f} nh p \<and> \<not> pfClosed p \<and> (\<nexists>p'. pfStep f nh p p')"
proof -
  obtain p where p: "pfReach {f} nh p" "pfCurrent p = newBlockData" "pfNext p = newBlockData" "\<not> pfClosed p"
    "pfLock p = Unlocked" "pfHand p = Some x" "length (pfRetargetChan p) = 10"
    using pfReach_pending[where k = 10 and nh = nh, OF assms(1-3) assms(4)] by auto
  let ?q = "snd (GetBlockData f h p)"
  have q: "?q = p\<lparr>pfMisses := pfMisses p + 1, pfLock := Retargeting (hvNextHash hv)\<rparr>"
    using p(2,3) assms(1,2) by (simp add: GetBlockData_def newBlockData_def Let_def)
  have "pfReach {f} nh ?q" by (rule pfReach.step[OF p(1) pfStep_request[OF p(5)] singletonI])
  moreover have "\<not> pfClosed ?q" "retargetHash nh (hvNextHash hv) ?q = Some x"
    unfolding q using p assms by (simp_all add: retargetHash_def newBlockData_def)
  moreover have "\<nexists>p'. pfStep f nh ?q p'"
    unfolding pfStep_blocked[OF calculation(2)] using calculation(3) p q by auto
  ultimately show ?thesis by blast
qed

text \<open>A new client answers a request for the zero hash with nil pointers and no error.\<close>

lemma zero_hash_hit: "fst (GetBlockData f 0 NewBlockPrefetchClient) = Ret (Inr (None, None))"
  by (simp add: GetBlockData_def NewBlockPrefetchClient_def newBlockData_def)

subsection \<open>Properties\<close>

text \<open>Example data: the example node, with block 4 after block 2.\<close>

definition exNext :: "unit BlockFetcher" where
  "exNext = exNode\<lparr>fGetBlockHeaderVerbose := (\<lambda>h. Inr \<lparr>hvHash = exPrint h, hvHeight = exHeight h,
     hvConfirmations = 1, hvPreviousHash = [], hvNextHash = exPrint 4, hvChainWork = []\<rparr>)\<rparr>"

lemma exNext_retrieve:
  "retrieveBlockAndHeaderResult exNext 2 = Inr (\<lparr>mbHeight = 1, mbPrevBlock = 1, mbBlockHash = 2, mbRest = ()\<rparr>,
     \<lparr>hvHash = exPrint 2, hvHeight = 1, hvConfirmations = 1, hvPreviousHash = [], hvNextHash = exPrint 4, hvChainWork = []\<rparr>)"
  by (simp add: retrieveBlockAndHeaderResult_def exNext_def exNode_def exParent_def exHeight_def)

text \<open>C24: What the prefetcher answers. The node may answer differently at different times (the confirmations and the next hash
  in a header change while the prefetcher holds it); let it always have each block under its hash and none
  under the zero hash. Whatever requests, retargetings and fetches have run before in whatever order, a request
  for a hash never panics; an error is the node's present one; and a block with its header is what the node
  gives now or gave, for this hash, when it was fetched, so the block has the hash. If the node's answer for this hash has not
  changed during the run, the request gives exactly what the node gives: the prefetcher is transparent.\<close>

theorem prefetch_transparent:
  assumes "\<forall>g\<in>S. honestNode g" and "pfReach S nh p" and "f \<in> S" and "hash \<noteq> 0"
  shows "\<exists>r. fst (GetBlockData f hash p) = Ret r \<and>
    (\<forall>e. r = Inl e \<longrightarrow> retrieveBlockAndHeaderResult f hash = Inl e) \<and>
    (\<forall>b hv. r = Inr (b, hv) \<longrightarrow> (\<exists>g\<in>S. \<exists>msgBlock header. b = Some msgBlock \<and> hv = Some header \<and>
       retrieveBlockAndHeaderResult g hash = Inr (msgBlock, header) \<and> mbBlockHash msgBlock = hash)) \<and>
    ((\<forall>g\<in>S. retrieveBlockAndHeaderResult g hash = retrieveBlockAndHeaderResult f hash) \<longrightarrow>
       r = (case retrieveBlockAndHeaderResult f hash of
         Inl e \<Rightarrow> Inl e | Inr (msgBlock, headerResult) \<Rightarrow> Inr (Some msgBlock, Some headerResult)))"
proof -
  have K: "keptOK S p" by (rule pfReach_keptOK[OF assms(2,1)])
  have new: "d \<noteq> newBlockData" if "bdHash d = hash" for d :: "'a blockData"
    using that assms(4) by (auto simp: newBlockData_def)
  have own: "mbBlockHash b = hash" if "g \<in> S" "retrieveBlockAndHeaderResult g hash = Inr (b, hv)" for g b hv
    using assms(1) that by (auto simp: honestNode_def retrieveBlockAndHeaderResult_def split: sum.splits)
  show ?thesis
  proof (cases "bdHash (pfCurrent p) = hash \<or> bdHash (pfNext p) = hash")
    case False
    then have "fst (GetBlockData f hash p) = Ret (case retrieveBlockAndHeaderResult f hash of
        Inl e \<Rightarrow> Inl e | Inr (msgBlock, headerResult) \<Rightarrow> Inr (Some msgBlock, Some headerResult))"
      by (auto simp: GetBlockData_def Let_def split: sum.split)
    then show ?thesis using own[OF assms(3)] assms(3)
      by (cases "retrieveBlockAndHeaderResult f hash") auto
  next
    case True
    then obtain d where d: "d = (if bdHash (pfCurrent p) = hash then pfCurrent p else pfNext p)" "bdHash d = hash"
      by auto
    then have "fromNode S d" using K new[of "pfCurrent p"] new[of "pfNext p"] by (auto simp: keptOK_def split: if_splits)
    then obtain b hv g where g: "bdMsgBlock d = Some b" "bdHeaderResult d = Some hv" "g \<in> S"
      "retrieveBlockAndHeaderResult g hash = Inr (b, hv)" using d(2) by (auto simp: fromNode_def)
    moreover have "fst (GetBlockData f hash p) = Ret (Inr (Some b, Some hv))"
      using d True g(1,2) by (auto simp: GetBlockData_def split: if_splits)
    ultimately show ?thesis using own[OF g(3,4)] by auto
  qed
qed

theorem prefetch_transparent_witness:
  "fst (GetBlockData exNext 2 (RetrieveAndStoreNext exNext 2 NewBlockPrefetchClient)) =
    Ret (Inr (Some \<lparr>mbHeight = 1, mbPrevBlock = 1, mbBlockHash = 2, mbRest = ()\<rparr>,
      Some \<lparr>hvHash = exPrint 2, hvHeight = 1, hvConfirmations = 1, hvPreviousHash = [],
        hvNextHash = exPrint 4, hvChainWork = []\<rparr>))"
proof -
  have h: "honestNode exNext"
    by (auto simp: honestNode_def exNext_def exNode_def exParent_def split: if_splits)
  have "pfReach {exNext} exParseHash (RetrieveAndStoreNext exNext 2 NewBlockPrefetchClient)"
    by (rule pfReach.step[OF pfReach.start _ singletonI], rule pfStep.store) (simp add: NewBlockPrefetchClient_def)
  from prefetch_transparent[OF _ this singletonI, of 2] h show ?thesis by (simp add: exNext_retrieve)
qed

text \<open>When the prefetcher stops. As long as it is not closed, some goroutine can go on in every state, with
  one exception: the goroutine that holds the mutex has a hash to send, the channel is full, and the
  fetcher, which would empty it, has a hash in hand and waits for the mutex. The example shows that this
  state is reached by repeated requests for one block that come before the fetcher gets the mutex.\<close>

theorem prefetch_progress:
  assumes "\<not> pfClosed p"
  shows "(\<exists>p'. pfStep f nh p p') \<longleftrightarrow>
    \<not> (\<exists>s h. pfLock p = Retargeting s \<and> retargetHash nh s p = Some h \<and> length (pfRetargetChan p) \<ge> 10 \<and> pfHand p \<noteq> None)"
  using pfStep_blocked[OF assms, of f nh] by blast

theorem prefetch_progress_witness:
  "\<exists>p. pfReach {exNext} exParseHash p \<and> (\<nexists>p'. pfStep exNext exParseHash p p') \<and> pfHand p \<noteq> None"
proof -
  have "exPrint 4 \<noteq> []" by (simp add: exPrint_def)
  then obtain p where p: "pfReach {exNext} exParseHash p" "\<not> pfClosed p" "\<nexists>p'. pfStep exNext exParseHash p p'"
    using prefetch_can_deadlock[OF exNext_retrieve, of exParseHash] by (auto simp: exParseHash_def)
  then show ?thesis using prefetch_progress[OF p(2)] by blast
qed

end
