(* ===== verification/TxHelpers.thy ===== *)
theory TxHelpers
  imports Prelude
begin

text \<open>
  Helpers on transactions and blocks of \<open>txhelpers/txhelpers.go\<close> and \<open>txhelpers/staketree.go\<close>: search in
  slices, the tickets of a block, and the outpoints of an address that a transaction creates or
  spends; also \<open>UnconfirmedTxnsForAddress\<close> of \<open>rpcutils/rpcclient.go\<close>, which puts them together.

  A transaction (\<open>wire.MsgTx\<close>) is a record of what the source reads of it. What code outside the
  repository computes of a transaction is a field: the hash (\<open>TxHash\<close>), the type (\<open>stake.DetermineTxType\<close>)
  and the size (\<open>SerializeSize\<close>); \<open>'x\<close> is the rest. Further parameters are \<open>extract\<close>, the addresses of
  a script (\<open>txscript.ExtractPkScriptAddrs\<close>, \<open>None\<close> for its error), \<open>fromHex\<close>, the transaction of a hex
  string (the deserializer behind \<open>MsgTxFromHex\<close>), and the node, a function from hashes. Amounts are words of
  64 bits, which wrap. A panic of the source is \<open>Panic\<close>.
\<close>

subsection \<open>Transactions and blocks\<close>

record OutPoint =
  opHash :: Hash
  opIndex :: "32 word"
  opTree :: int

record TxIn =
  tiPrevOut :: OutPoint
  tiValueIn :: "64 word"

record TxOut =
  toValue :: "64 word"
  toVersion :: "16 word"
  toPkScript :: "8 word list"

datatype TxType = TxTypeRegular | TxTypeSStx | TxTypeSSGen | TxTypeSSRtx

record 'x MsgTx =
  mtTxIn :: "TxIn list"
  mtTxOut :: "TxOut list"
  mtHash :: Hash
  mtType :: TxType
  mtSize :: int
  mtRest :: 'x

text \<open>A \<open>dcrutil.Tx\<close> has its place in the block; a block has regular and stake transactions.\<close>

record 'x Tx =
  txMsg :: "'x MsgTx"
  txIndex :: int
  txTree :: int

record 'x TxBlock =
  blTransactions :: "'x Tx list"
  blSTransactions :: "'x Tx list"

subsection \<open>Slices\<close>

fun HashInSlice :: "Hash \<Rightarrow> Hash list \<Rightarrow> bool" where
  "HashInSlice h [] = False"
| "HashInSlice h (hash # list) = (if h = hash then True else HashInSlice h list)"

fun TxhashInSlice :: "'x Tx list \<Rightarrow> Hash \<Rightarrow> 'x Tx option" where
  "TxhashInSlice [] txHash = None"
| "TxhashInSlice (minedTx # txs) txHash =
     (if mtHash (txMsg minedTx) = txHash then Some minedTx else TxhashInSlice txs txHash)"

definition IncludesStakeTx :: "Hash \<Rightarrow> 'x TxBlock \<Rightarrow> int \<times> int" where
  "IncludesStakeTx txHash block =
     (case TxhashInSlice (blSTransactions block) txHash of
        Some tx \<Rightarrow> (txIndex tx, txTree tx)
      | None \<Rightarrow> (-1, -1))"

definition IncludesTx :: "Hash \<Rightarrow> 'x TxBlock \<Rightarrow> int \<times> int" where
  "IncludesTx txHash block =
     (case TxhashInSlice (blTransactions block) txHash of
        Some tx \<Rightarrow> (txIndex tx, txTree tx)
      | None \<Rightarrow> (-1, -1))"

text \<open>
  \<open>FilterHashSlice\<close> appends to \<open>s[:0]\<close>, so it writes into the array that it reads. The loop has the array,
  the position \<open>i\<close> that is read and the length \<open>k\<close> of the result; the results are the slice and the
  array, which the caller still sees through \<open>s\<close>.
\<close>

function filterLoop :: "(Hash \<Rightarrow> bool) \<Rightarrow> nat \<Rightarrow> nat \<Rightarrow> Hash list \<Rightarrow> nat \<times> Hash list" where
  "filterLoop doRemove i k s =
     (if i < length s then
        let h = s ! i in
        if \<not> doRemove h then filterLoop doRemove (i + 1) (k + 1) (s[k := h])
        else filterLoop doRemove (i + 1) k s
      else (k, s))"
  by pat_completeness auto
termination
  by (relation "measure (\<lambda>(_, i, _, s). length s - i)") auto

declare filterLoop.simps [simp del]

definition FilterHashSlice :: "Hash list \<Rightarrow> (Hash \<Rightarrow> bool) \<Rightarrow> Hash list \<times> Hash list" where
  "FilterHashSlice s doRemove = (let (k, arr) = filterLoop doRemove 0 0 s in (take k arr, arr))"

subsection \<open>Stake transactions of a block\<close>

fun ticketsLoop :: "'x Tx list \<Rightarrow> Hash list \<times> 'x Tx list" where
  "ticketsLoop [] = ([], [])"
| "ticketsLoop (stx # stxs) =
     (let (tickets, ticketTxns) = ticketsLoop stxs in
      if mtType (txMsg stx) = TxTypeSStx then (mtHash (txMsg stx) # tickets, stx # ticketTxns)
      else (tickets, ticketTxns))"

definition TicketTxnsInBlock :: "'x TxBlock \<Rightarrow> Hash list \<times> 'x Tx list" where
  "TicketTxnsInBlock bl = ticketsLoop (blSTransactions bl)"

definition TicketsInBlock :: "'x TxBlock \<Rightarrow> Hash list \<times> 'x MsgTx list" where
  "TicketsInBlock bl = (let (tickets, txns) = ticketsLoop (blSTransactions bl) in (tickets, map txMsg txns))"

definition SSTXInBlock :: "'x TxBlock \<Rightarrow> 'x Tx list" where
  "SSTXInBlock block = snd (TicketTxnsInBlock block)"

text \<open>The hash of the outpoint that input \<open>i\<close> spends, for each transaction of a type.\<close>

fun spentLoop :: "TxType \<Rightarrow> nat \<Rightarrow> 'x Tx list \<Rightarrow> Hash list go" where
  "spentLoop ty i [] = Ret []"
| "spentLoop ty i (stx # stxs) =
     (if mtType (txMsg stx) = ty then
        (if i < length (mtTxIn (txMsg stx)) then
           (case spentLoop ty i stxs of
              Panic \<Rightarrow> Panic
            | Ret tickets \<Rightarrow> Ret (opHash (tiPrevOut (mtTxIn (txMsg stx) ! i)) # tickets))
         else Panic)
      else spentLoop ty i stxs)"

definition TicketsSpentInBlock :: "'x TxBlock \<Rightarrow> Hash list go" where
  "TicketsSpentInBlock bl = spentLoop TxTypeSSGen 1 (blSTransactions bl)"

definition RevokedTicketsInBlock :: "'x TxBlock \<Rightarrow> Hash list go" where
  "RevokedTicketsInBlock bl = spentLoop TxTypeSSRtx 0 (blSTransactions bl)"

fun votesLoop :: "'x Tx list \<Rightarrow> Hash list" where
  "votesLoop [] = []"
| "votesLoop (stx # stxs) =
     (if mtType (txMsg stx) = TxTypeSSGen then mtHash (txMsg stx) # votesLoop stxs else votesLoop stxs)"

definition VotesInBlock :: "'x TxBlock \<Rightarrow> Hash list" where
  "VotesInBlock bl = votesLoop (blSTransactions bl)"

subsection \<open>Types\<close>

definition DetermineTxTypeString :: "'x MsgTx \<Rightarrow> string" where
  "DetermineTxTypeString msgTx =
     (case mtType msgTx of
        TxTypeSSGen \<Rightarrow> ''Vote''
      | TxTypeSStx \<Rightarrow> ''Ticket''
      | TxTypeSSRtx \<Rightarrow> ''Revocation''
      | _ \<Rightarrow> ''Regular'')"

text \<open>The functions on numbers take the values \<open>code\<close> of the constants of package \<open>stake\<close>.\<close>

definition TxTypeToString :: "(TxType \<Rightarrow> int) \<Rightarrow> int \<Rightarrow> string" where
  "TxTypeToString code txType =
     (if txType = code TxTypeSSGen then ''Vote''
      else if txType = code TxTypeSStx then ''Ticket''
      else if txType = code TxTypeSSRtx then ''Revocation''
      else ''Regular'')"

definition TxIsTicket :: "(TxType \<Rightarrow> int) \<Rightarrow> int \<Rightarrow> bool" where
  "TxIsTicket code txType \<longleftrightarrow> txType = code TxTypeSStx"

definition TxIsVote :: "(TxType \<Rightarrow> int) \<Rightarrow> int \<Rightarrow> bool" where
  "TxIsVote code txType \<longleftrightarrow> txType = code TxTypeSSGen"

definition TxIsRevoke :: "(TxType \<Rightarrow> int) \<Rightarrow> int \<Rightarrow> bool" where
  "TxIsRevoke code txType \<longleftrightarrow> txType = code TxTypeSSRtx"

definition TxIsRegular :: "(TxType \<Rightarrow> int) \<Rightarrow> int \<Rightarrow> bool" where
  "TxIsRegular code txType \<longleftrightarrow> txType = code TxTypeRegular"

definition IsStakeTx :: "'x MsgTx \<Rightarrow> bool" where
  "IsStakeTx msgTx \<longleftrightarrow>
     (case mtType msgTx of TxTypeSSGen \<Rightarrow> True | TxTypeSStx \<Rightarrow> True | TxTypeSSRtx \<Rightarrow> True | _ \<Rightarrow> False)"

definition TxTree :: "'x MsgTx \<Rightarrow> int" where
  "TxTree msgTx = (if IsStakeTx msgTx then 1 else 0)"

subsection \<open>Address stores\<close>

record PrevOut =
  poTxSpending :: Hash
  poInputIndex :: int
  poPreviousOutpoint :: OutPoint

record 'x TxWithBlockData =
  twTx :: "'x MsgTx"
  twBlockHeight :: int
  twBlockHash :: string
  twMemPoolTime :: int

definition twHash :: "'x TxWithBlockData \<Rightarrow> Hash" where
  "twHash t = mtHash (twTx t)"

text \<open>\<open>MaxHashStringSize\<close> is twice the 32 bytes of a hash.\<close>

definition Confirmed :: "'x TxWithBlockData \<Rightarrow> bool" where
  "Confirmed t \<longleftrightarrow> twBlockHeight t > 0 \<and> length (twBlockHash t) \<le> 64"

text \<open>A nil map is \<open>None\<close>; writing to it is a panic.\<close>

type_synonym 'x TxnsStore = "Hash \<rightharpoonup> 'x TxWithBlockData"

record 'x AddressOutpoints =
  aoAddress :: string
  aoOutpoints :: "OutPoint list"
  aoPrevOuts :: "PrevOut list"
  aoTxnsStore :: "'x TxnsStore option"

type_synonym 'x MempoolAddressStore = "string \<rightharpoonup> 'x AddressOutpoints"

definition NewAddressOutpoints :: "string \<Rightarrow> 'x AddressOutpoints" where
  "NewAddressOutpoints address =
     \<lparr>aoAddress = address, aoOutpoints = [], aoPrevOuts = [], aoTxnsStore = Some Map.empty\<rparr>"

fun storeTxns :: "'x TxWithBlockData list \<Rightarrow> 'x TxnsStore option \<Rightarrow> 'x TxnsStore option go" where
  "storeTxns [] st = Ret st"
| "storeTxns (t # txns) None = Panic"
| "storeTxns (t # txns) (Some st) = storeTxns txns (Some (st(twHash t \<mapsto> t)))"

definition aoUpdate ::
    "'x TxWithBlockData list \<Rightarrow> OutPoint list \<Rightarrow> PrevOut list \<Rightarrow> 'x AddressOutpoints \<Rightarrow> 'x AddressOutpoints go" where
  "aoUpdate txns outpoints prevOutpoint a =
     (case storeTxns txns (aoTxnsStore a) of
        Panic \<Rightarrow> Panic
      | Ret st \<Rightarrow> Ret (a\<lparr>aoOutpoints := aoOutpoints a @ outpoints, aoPrevOuts := aoPrevOuts a @ prevOutpoint,
          aoTxnsStore := st\<rparr>))"

text \<open>Ranging over a nil map does nothing; over a map with entries, it writes each of them.\<close>

definition aoMerge :: "'x AddressOutpoints \<Rightarrow> 'x AddressOutpoints \<Rightarrow> 'x AddressOutpoints go" where
  "aoMerge ao a =
     (let a1 = a\<lparr>aoOutpoints := aoOutpoints a @ aoOutpoints ao, aoPrevOuts := aoPrevOuts a @ aoPrevOuts ao\<rparr> in
      case aoTxnsStore ao of
        None \<Rightarrow> Ret a1
      | Some st \<Rightarrow>
          (case aoTxnsStore a1 of
             Some sa \<Rightarrow> Ret (a1\<lparr>aoTxnsStore := Some (sa ++ st)\<rparr>)
           | None \<Rightarrow> if st = Map.empty then Ret a1 else Panic))"

subsection \<open>Outputs that pay to an address\<close>

type_synonym extractor = "16 word \<Rightarrow> 8 word list \<Rightarrow> string list option"

definition newOutPoint :: "'x MsgTx \<Rightarrow> nat \<Rightarrow> OutPoint" where
  "newOutPoint msgTx outIndex = \<lparr>opHash = mtHash msgTx, opIndex = of_nat outIndex, opTree = TxTree msgTx\<rparr>"

fun payLoop :: "extractor \<Rightarrow> 'x MsgTx \<Rightarrow> string \<Rightarrow> nat \<Rightarrow> TxOut list \<Rightarrow> OutPoint list" where
  "payLoop extract msgTx addr outIndex [] = []"
| "payLoop extract msgTx addr outIndex (txOut # txOuts) =
     (case extract (toVersion txOut) (toPkScript txOut) of
        None \<Rightarrow> payLoop extract msgTx addr (outIndex + 1) txOuts
      | Some txOutAddrs \<Rightarrow>
          map (\<lambda>_. newOutPoint msgTx outIndex) (filter (\<lambda>addrstr. addr = addrstr) txOutAddrs)
          @ payLoop extract msgTx addr (outIndex + 1) txOuts)"

definition TxPaysToAddress :: "extractor \<Rightarrow> 'x MsgTx \<Rightarrow> string \<Rightarrow> OutPoint list" where
  "TxPaysToAddress extract msgTx addr = payLoop extract msgTx addr 0 (mtTxOut msgTx)"

text \<open>The inner loop of \<open>TxOutpointsByAddr\<close>: the addresses of one output.\<close>

fun outAddrsLoop ::
    "OutPoint \<Rightarrow> string list \<Rightarrow> 'x MempoolAddressStore \<Rightarrow> (string \<rightharpoonup> bool) \<Rightarrow> 'x MempoolAddressStore \<times> (string \<rightharpoonup> bool)" where
  "outAddrsLoop op [] store addrs = (store, addrs)"
| "outAddrsLoop op (addr # rest) store addrs =
     (case store addr of
        None \<Rightarrow>
          outAddrsLoop op rest
            (store(addr \<mapsto> \<lparr>aoAddress = addr, aoOutpoints = [op], aoPrevOuts = [], aoTxnsStore = None\<rparr>))
            (addrs(addr \<mapsto> True))
      | Some addrOuts \<Rightarrow>
          outAddrsLoop op rest
            (store(addr \<mapsto> addrOuts\<lparr>aoOutpoints := aoOutpoints addrOuts @ [op]\<rparr>))
            (if addrs addr = None then addrs(addr \<mapsto> False) else addrs))"

fun outsLoop ::
    "extractor \<Rightarrow> 'x MsgTx \<Rightarrow> nat \<Rightarrow> TxOut list \<Rightarrow> int \<Rightarrow> 'x MempoolAddressStore \<Rightarrow> (string \<rightharpoonup> bool)
     \<Rightarrow> int \<times> (string \<rightharpoonup> bool) \<times> 'x MempoolAddressStore" where
  "outsLoop extract msgTx outIndex [] newOuts store addrs = (newOuts, addrs, store)"
| "outsLoop extract msgTx outIndex (txOut # txOuts) newOuts store addrs =
     (case extract (toVersion txOut) (toPkScript txOut) of
        None \<Rightarrow> outsLoop extract msgTx (outIndex + 1) txOuts newOuts store addrs
      | Some txOutAddrs \<Rightarrow>
          if txOutAddrs = [] then outsLoop extract msgTx (outIndex + 1) txOuts newOuts store addrs
          else (let (store1, addrs1) = outAddrsLoop (newOutPoint msgTx outIndex) txOutAddrs store addrs
                in outsLoop extract msgTx (outIndex + 1) txOuts (newOuts + 1) store1 addrs1))"

definition TxOutpointsByAddr ::
    "extractor \<Rightarrow> 'x MempoolAddressStore option \<Rightarrow> 'x MsgTx \<Rightarrow> (int \<times> (string \<rightharpoonup> bool) \<times> 'x MempoolAddressStore) go" where
  "TxOutpointsByAddr extract txAddrOuts msgTx =
     (case txAddrOuts of
        None \<Rightarrow> Panic
      | Some store \<Rightarrow> Ret (outsLoop extract msgTx 0 (mtTxOut msgTx) 0 store Map.empty))"

subsection \<open>Inputs that spend from an address\<close>

text \<open>The result of the verbose request, of which the source reads these fields.\<close>

record TxRawResult =
  trTxid :: string
  trHex :: string
  trBlockHeight :: int
  trBlockHash :: string

type_synonym verboseGetter = "Hash \<Rightarrow> TxRawResult option"

text \<open>The inputs for which a request is sent, with their index: neither coinbase nor stakebase.\<close>

fun promises :: "nat \<Rightarrow> TxIn list \<Rightarrow> (nat \<times> OutPoint) list" where
  "promises inIdx [] = []"
| "promises inIdx (txIn # txIns) =
     (if opHash (tiPrevOut txIn) = 0 then promises (inIdx + 1) txIns
      else (inIdx, tiPrevOut txIn) # promises (inIdx + 1) txIns)"

definition prevOutOf :: "'x MsgTx \<Rightarrow> nat \<Rightarrow> OutPoint \<Rightarrow> 'x MsgTx \<Rightarrow> PrevOut" where
  "prevOutOf msgTx inIdx prevOut prevTx =
     \<lparr>poTxSpending = mtHash msgTx, poInputIndex = int inIdx,
      poPreviousOutpoint = \<lparr>opHash = opHash prevOut, opIndex = opIndex prevOut, opTree = TxTree prevTx\<rparr>\<rparr>"

definition withBlockData :: "TxRawResult \<Rightarrow> 'x MsgTx \<Rightarrow> 'x TxWithBlockData" where
  "withBlockData prevTxRaw prevTx =
     \<lparr>twTx = prevTx, twBlockHeight = trBlockHeight prevTxRaw, twBlockHash = trBlockHash prevTxRaw, twMemPoolTime = 0\<rparr>"

fun consumeLoop ::
    "(Hash \<Rightarrow> string) \<Rightarrow> (string \<Rightarrow> 'x MsgTx option) \<Rightarrow> extractor \<Rightarrow> verboseGetter \<Rightarrow> 'x MsgTx \<Rightarrow> string
     \<Rightarrow> (nat \<times> OutPoint) list \<Rightarrow> PrevOut list \<Rightarrow> 'x TxWithBlockData list
     \<Rightarrow> (PrevOut list \<times> 'x TxWithBlockData list) go" where
  "consumeLoop hs fromHex extract c msgTx addr [] prevOuts prevTxs = Ret (prevOuts, prevTxs)"
| "consumeLoop hs fromHex extract c msgTx addr ((inIdx, prevOut) # ps) prevOuts prevTxs =
     (case c (opHash prevOut) of
        None \<Rightarrow> Ret ([], [])
      | Some prevTxRaw \<Rightarrow>
          if trTxid prevTxRaw \<noteq> hs (opHash prevOut) then Ret ([], [])
          else case fromHex (trHex prevTxRaw) of
            None \<Rightarrow> consumeLoop hs fromHex extract c msgTx addr ps prevOuts prevTxs
          | Some prevTx \<Rightarrow>
              if unat (opIndex prevOut) \<ge> length (mtTxOut prevTx) then Panic
              else
                let txOut = mtTxOut prevTx ! unat (opIndex prevOut) in
                case extract (toVersion txOut) (toPkScript txOut) of
                  None \<Rightarrow> consumeLoop hs fromHex extract c msgTx addr ps prevOuts prevTxs
                | Some txAddrs \<Rightarrow>
                    let hits = filter (\<lambda>addrstr. addr = addrstr) txAddrs in
                    consumeLoop hs fromHex extract c msgTx addr ps
                      (prevOuts @ map (\<lambda>_. prevOutOf msgTx inIdx prevOut prevTx) hits)
                      (prevTxs @ map (\<lambda>_. withBlockData prevTxRaw prevTx) hits))"

definition TxConsumesOutpointWithAddress ::
    "(Hash \<Rightarrow> string) \<Rightarrow> (string \<Rightarrow> 'x MsgTx option) \<Rightarrow> extractor \<Rightarrow> verboseGetter \<Rightarrow> 'x MsgTx \<Rightarrow> string
     \<Rightarrow> (PrevOut list \<times> 'x TxWithBlockData list) go" where
  "TxConsumesOutpointWithAddress hs fromHex extract c msgTx addr =
     consumeLoop hs fromHex extract c msgTx addr (promises 0 (mtTxIn msgTx)) [] []"

definition TxInvolvesAddress ::
    "(Hash \<Rightarrow> string) \<Rightarrow> (string \<Rightarrow> 'x MsgTx option) \<Rightarrow> extractor \<Rightarrow> verboseGetter \<Rightarrow> 'x MsgTx \<Rightarrow> string
     \<Rightarrow> (OutPoint list \<times> PrevOut list \<times> 'x TxWithBlockData list) go" where
  "TxInvolvesAddress hs fromHex extract c msgTx addr =
     (case TxConsumesOutpointWithAddress hs fromHex extract c msgTx addr of
        Panic \<Rightarrow> Panic
      | Ret (prevOuts, prevTxs) \<Rightarrow> Ret (TxPaysToAddress extract msgTx addr, prevOuts, prevTxs))"

text \<open>The inner loop of \<open>TxPrevOutsByAddr\<close>: the addresses of one previous outpoint.\<close>

fun prevAddrsLoop ::
    "PrevOut \<Rightarrow> string list \<Rightarrow> 'x MempoolAddressStore \<Rightarrow> (string \<rightharpoonup> bool) \<Rightarrow> 'x MempoolAddressStore \<times> (string \<rightharpoonup> bool)" where
  "prevAddrsLoop po [] store addrs = (store, addrs)"
| "prevAddrsLoop po (addr # rest) store addrs =
     (case store addr of
        None \<Rightarrow>
          prevAddrsLoop po rest
            (store(addr \<mapsto> \<lparr>aoAddress = addr, aoOutpoints = [], aoPrevOuts = [po], aoTxnsStore = None\<rparr>))
            (addrs(addr \<mapsto> True))
      | Some addrOuts \<Rightarrow>
          prevAddrsLoop po rest
            (store(addr \<mapsto> addrOuts\<lparr>aoPrevOuts := aoPrevOuts addrOuts @ [po]\<rparr>))
            (if addrs addr = None then addrs(addr \<mapsto> False) else addrs))"

record 'x prevOutsState =
  psNew :: int
  psAddrs :: "string \<rightharpoonup> bool"
  psValsIn :: "64 word list"
  psStore :: "'x MempoolAddressStore"
  psTxns :: "'x TxnsStore"

text \<open>An error of the node ends the loop with what was found until then.\<close>

fun prevOutsLoop ::
    "(Hash \<Rightarrow> string) \<Rightarrow> (string \<Rightarrow> 'x MsgTx option) \<Rightarrow> extractor \<Rightarrow> verboseGetter \<Rightarrow> 'x MsgTx
     \<Rightarrow> (nat \<times> OutPoint) list \<Rightarrow> 'x prevOutsState \<Rightarrow> 'x prevOutsState go" where
  "prevOutsLoop hs fromHex extract c msgTx [] st = Ret st"
| "prevOutsLoop hs fromHex extract c msgTx ((inIdx, prevOut) # ps) st =
     (case c (opHash prevOut) of
        None \<Rightarrow> Ret st
      | Some prevTxRaw \<Rightarrow>
          if trTxid prevTxRaw \<noteq> hs (opHash prevOut) then prevOutsLoop hs fromHex extract c msgTx ps st
          else case fromHex (trHex prevTxRaw) of
            None \<Rightarrow> prevOutsLoop hs fromHex extract c msgTx ps st
          | Some prevTx \<Rightarrow>
              if unat (opIndex prevOut) \<ge> length (mtTxOut prevTx) then Panic
              else
                let txOut = mtTxOut prevTx ! unat (opIndex prevOut);
                    st1 = st\<lparr>psValsIn := (psValsIn st)[inIdx := toValue txOut]\<rparr>
                in
                case extract (toVersion txOut) (toPkScript txOut) of
                  None \<Rightarrow> prevOutsLoop hs fromHex extract c msgTx ps st1
                | Some txAddrs \<Rightarrow>
                    if txAddrs = [] then prevOutsLoop hs fromHex extract c msgTx ps st1
                    else
                      let (store, addrs) = prevAddrsLoop (prevOutOf msgTx inIdx prevOut prevTx) txAddrs
                            (psStore st1) (psAddrs st1)
                      in prevOutsLoop hs fromHex extract c msgTx ps
                           (st1\<lparr>psNew := psNew st1 + 1, psAddrs := addrs, psStore := store,
                              psTxns := (psTxns st1)(opHash prevOut \<mapsto> withBlockData prevTxRaw prevTx)\<rparr>))"

definition TxPrevOutsByAddr ::
    "(Hash \<Rightarrow> string) \<Rightarrow> (string \<Rightarrow> 'x MsgTx option) \<Rightarrow> extractor \<Rightarrow> 'x MempoolAddressStore option \<Rightarrow> 'x TxnsStore option
     \<Rightarrow> 'x MsgTx \<Rightarrow> verboseGetter \<Rightarrow> 'x prevOutsState go" where
  "TxPrevOutsByAddr hs fromHex extract txAddrOuts txnsStore msgTx c =
     (case txAddrOuts of
        None \<Rightarrow> Panic
      | Some store \<Rightarrow>
          (case txnsStore of
             None \<Rightarrow> Panic
           | Some txns \<Rightarrow>
               prevOutsLoop hs fromHex extract c msgTx (promises 0 (mtTxIn msgTx))
                 \<lparr>psNew = 0, psAddrs = Map.empty, psValsIn = replicate (length (mtTxIn msgTx)) 0,
                  psStore = store, psTxns = txns\<rparr>))"

subsection \<open>Blocks and addresses\<close>

text \<open>The addresses that are watched are the keys of a map; the actions are not read.\<close>

definition addTx :: "string \<Rightarrow> 'x Tx \<Rightarrow> (string \<rightharpoonup> 'x Tx list) \<Rightarrow> (string \<rightharpoonup> 'x Tx list)" where
  "addTx addr tx addrMap = addrMap(addr \<mapsto> (case addrMap addr of None \<Rightarrow> [] | Some txs \<Rightarrow> txs) @ [tx])"

text \<open>For each output of the list, \<open>tx\<close> is added once for each watched address of its script.\<close>

fun watchOuts ::
    "extractor \<Rightarrow> (string \<Rightarrow> bool) \<Rightarrow> 'x Tx \<Rightarrow> TxOut list \<Rightarrow> (string \<rightharpoonup> 'x Tx list) \<Rightarrow> (string \<rightharpoonup> 'x Tx list)" where
  "watchOuts extract watched tx [] addrMap = addrMap"
| "watchOuts extract watched tx (txOut # txOuts) addrMap =
     (case extract (toVersion txOut) (toPkScript txOut) of
        None \<Rightarrow> watchOuts extract watched tx txOuts addrMap
      | Some txAddrs \<Rightarrow>
          watchOuts extract watched tx txOuts
            (fold (\<lambda>addr m. if watched addr then addTx addr tx m else m) txAddrs addrMap))"

fun receiveLoop ::
    "extractor \<Rightarrow> (string \<Rightarrow> bool) \<Rightarrow> 'x Tx list \<Rightarrow> (string \<rightharpoonup> 'x Tx list) \<Rightarrow> (string \<rightharpoonup> 'x Tx list)" where
  "receiveLoop extract watched [] addrMap = addrMap"
| "receiveLoop extract watched (tx # txs) addrMap =
     receiveLoop extract watched txs (watchOuts extract watched tx (mtTxOut (txMsg tx)) addrMap)"

definition BlockReceivesToAddresses ::
    "extractor \<Rightarrow> 'x TxBlock \<Rightarrow> (string \<Rightarrow> bool) \<Rightarrow> (string \<rightharpoonup> 'x Tx list)" where
  "BlockReceivesToAddresses extract block watched =
     receiveLoop extract watched (blSTransactions block)
       (receiveLoop extract watched (blTransactions block) Map.empty)"

text \<open>All outputs of the previous transaction are checked, and the previous transaction is added.\<close>

fun spendInputs ::
    "extractor \<Rightarrow> (Hash \<Rightarrow> 'x Tx option) \<Rightarrow> (string \<Rightarrow> bool) \<Rightarrow> TxIn list \<Rightarrow> (string \<rightharpoonup> 'x Tx list) \<Rightarrow> (string \<rightharpoonup> 'x Tx list)" where
  "spendInputs extract c watched [] addrMap = addrMap"
| "spendInputs extract c watched (txIn # txIns) addrMap =
     (if opHash (tiPrevOut txIn) = 0 then spendInputs extract c watched txIns addrMap
      else case c (opHash (tiPrevOut txIn)) of
        None \<Rightarrow> spendInputs extract c watched txIns addrMap
      | Some prevTx \<Rightarrow>
          spendInputs extract c watched txIns (watchOuts extract watched prevTx (mtTxOut (txMsg prevTx)) addrMap))"

fun spendLoop ::
    "extractor \<Rightarrow> (Hash \<Rightarrow> 'x Tx option) \<Rightarrow> (string \<Rightarrow> bool) \<Rightarrow> 'x Tx list \<Rightarrow> (string \<rightharpoonup> 'x Tx list) \<Rightarrow> (string \<rightharpoonup> 'x Tx list)" where
  "spendLoop extract c watched [] addrMap = addrMap"
| "spendLoop extract c watched (tx # txs) addrMap =
     spendLoop extract c watched txs (spendInputs extract c watched (mtTxIn (txMsg tx)) addrMap)"

definition BlockConsumesOutpointWithAddresses ::
    "extractor \<Rightarrow> 'x TxBlock \<Rightarrow> (string \<Rightarrow> bool) \<Rightarrow> (Hash \<Rightarrow> 'x Tx option) \<Rightarrow> (string \<rightharpoonup> 'x Tx list)" where
  "BlockConsumesOutpointWithAddresses extract block watched c =
     spendLoop extract c watched (blSTransactions block)
       (spendLoop extract c watched (blTransactions block) Map.empty)"

datatype outPointError = NoRawTransaction Hash | IndexBeyond "32 word" nat | ExtractFailed | InvalidHash string

definition OutPointAddresses ::
    "extractor \<Rightarrow> OutPoint \<Rightarrow> (Hash \<Rightarrow> 'x Tx option) \<Rightarrow> outPointError + string list \<times> 64 word" where
  "OutPointAddresses extract outPoint c =
     (case c (opHash outPoint) of
        None \<Rightarrow> Inl (NoRawTransaction (opHash outPoint))
      | Some prevTx \<Rightarrow>
          let txOuts = mtTxOut (txMsg prevTx) in
          if length txOuts \<le> unat (opIndex outPoint) then Inl (IndexBeyond (opIndex outPoint) (length txOuts))
          else
            let txOut = txOuts ! unat (opIndex outPoint) in
            case extract (toVersion txOut) (toPkScript txOut) of
              None \<Rightarrow> Inl ExtractFailed
            | Some txAddrs \<Rightarrow> Inr (txAddrs, toValue txOut))"

definition OutPointAddressesFromString ::
    "(string \<Rightarrow> Hash option) \<Rightarrow> extractor \<Rightarrow> string \<Rightarrow> 32 word \<Rightarrow> int \<Rightarrow> (Hash \<Rightarrow> 'x Tx option)
     \<Rightarrow> outPointError + string list \<times> 64 word" where
  "OutPointAddressesFromString nh extract txid index tree c =
     (case nh txid of
        None \<Rightarrow> Inl (InvalidHash txid)
      | Some hash \<Rightarrow> OutPointAddresses extract \<lparr>opHash = hash, opIndex = index, opTree = tree\<rparr> c)"

subsection \<open>Unconfirmed transactions of an address\<close>

text \<open>
  The mempool is the list of its transactions with their times, in the order in which Go ranges over
  the map. The results are the outpoints, their number, and the error; an error of one transaction is
  kept and the loop goes on, unless the hash does not parse.
\<close>

datatype unconfirmedError = BadHash string | GetRawFailed string

fun unconfirmedLoop ::
    "(string \<Rightarrow> Hash option) \<Rightarrow> (Hash \<Rightarrow> string) \<Rightarrow> (string \<Rightarrow> 'x MsgTx option) \<Rightarrow> extractor \<Rightarrow> (Hash \<Rightarrow> 'x Tx option)
     \<Rightarrow> verboseGetter \<Rightarrow> string \<Rightarrow> (string \<times> int) list \<Rightarrow> 'x AddressOutpoints \<Rightarrow> int \<Rightarrow> unconfirmedError option
     \<Rightarrow> ('x AddressOutpoints \<times> int \<times> unconfirmedError option) go" where
  "unconfirmedLoop nh hs fromHex extract c cv address [] ao num err = Ret (ao, num, err)"
| "unconfirmedLoop nh hs fromHex extract c cv address ((hash, time) # txns) ao num err =
     (case nh hash of
        None \<Rightarrow> Ret (ao, 0, Some (BadHash hash))
      | Some txhash \<Rightarrow>
          (case c txhash of
             None \<Rightarrow> unconfirmedLoop nh hs fromHex extract c cv address txns ao num (Some (GetRawFailed hash))
           | Some tx \<Rightarrow>
               (case TxInvolvesAddress hs fromHex extract cv (txMsg tx) address of
                  Panic \<Rightarrow> Panic
                | Ret (outpoints, prevouts, prevTxns) \<Rightarrow>
                    if outpoints = [] \<and> prevouts = []
                    then unconfirmedLoop nh hs fromHex extract c cv address txns ao num err
                    else
                      let prevTxns1 = map (\<lambda>t. t\<lparr>twMemPoolTime := time\<rparr>) prevTxns;
                          this = \<lparr>twTx = txMsg tx, twBlockHeight = 0, twBlockHash = [], twMemPoolTime = time\<rparr>
                      in (case aoUpdate (prevTxns1 @ [this]) outpoints prevouts ao of
                            Panic \<Rightarrow> Panic
                          | Ret ao1 \<Rightarrow> unconfirmedLoop nh hs fromHex extract c cv address txns ao1 (num + 1) err))))"

definition UnconfirmedTxnsForAddress ::
    "(string \<Rightarrow> Hash option) \<Rightarrow> (Hash \<Rightarrow> string) \<Rightarrow> (string \<Rightarrow> 'x MsgTx option) \<Rightarrow> extractor \<Rightarrow> (Hash \<Rightarrow> 'x Tx option)
     \<Rightarrow> verboseGetter \<Rightarrow> (string + (string \<times> int) list) \<Rightarrow> string
     \<Rightarrow> (string + 'x AddressOutpoints \<times> int \<times> unconfirmedError option) go" where
  "UnconfirmedTxnsForAddress nh hs fromHex extract c cv mempool address =
     (case mempool of
        Inl e \<Rightarrow> Ret (Inl e)
      | Inr mempoolTxns \<Rightarrow>
          (case unconfirmedLoop nh hs fromHex extract c cv address mempoolTxns (NewAddressOutpoints address) 0 None of
             Panic \<Rightarrow> Panic
           | Ret r \<Rightarrow> Ret (Inr r)))"

subsection \<open>Lemmas on slices\<close>

lemma HashInSlice_iff [simp]: "HashInSlice h list \<longleftrightarrow> h \<in> set list"
  by (induction list) auto

lemma TxhashInSlice_find: "TxhashInSlice txs h = List.find (\<lambda>tx. mtHash (txMsg tx) = h) txs"
  by (induction txs) auto

text \<open>The part of the array from the read position on is the original one.\<close>

lemma filterLoop_spec:
  assumes "k \<le> i" and "i \<le> length s"
  shows "filterLoop doRemove i k s =
    (let r = filter (\<lambda>h. \<not> doRemove h) (drop i s) in (k + length r, take k s @ r @ drop (k + length r) s))"
  using assms
proof (induction doRemove i k s rule: filterLoop.induct)
  case (1 doRemove i k s)
  show ?case
  proof (cases "i < length s")
    case False
    then show ?thesis using 1(3,4) by (subst filterLoop.simps) simp
  next
    case True
    have d: "drop i s = s ! i # drop (Suc i) s" using True by (simp add: Cons_nth_drop_Suc)
    show ?thesis
    proof (cases "doRemove (s ! i)")
      case remove: True
      then have "filterLoop doRemove i k s = filterLoop doRemove (i + 1) k s"
        using True by (subst filterLoop.simps) (simp add: Let_def)
      then show ?thesis using 1(2)[OF True refl] remove True 1(3) d by (simp add: Let_def)
    next
      case keep: False
      let ?s = "s[k := s ! i]"
      have "filterLoop doRemove i k s = filterLoop doRemove (i + 1) (k + 1) ?s"
        using True keep by (subst filterLoop.simps) (simp add: Let_def)
      moreover have "drop (i + 1) ?s = drop (Suc i) s" using 1(3) by simp
      moreover have "take (k + 1) ?s = take k s @ [s ! i]"
        using 1(3) True by (simp add: take_Suc_conv_app_nth)
      moreover have "drop (Suc k + n) ?s = drop (Suc k + n) s" for n by simp
      ultimately show ?thesis
        using 1(1)[OF True refl keep] 1(3) True keep d by (simp add: Let_def)
    qed
  qed
qed

subsection \<open>Lemmas on the address stores\<close>

definition outsOf :: "'x MempoolAddressStore \<Rightarrow> string \<Rightarrow> OutPoint list" where
  "outsOf store a = (case store a of None \<Rightarrow> [] | Some ao \<Rightarrow> aoOutpoints ao)"

definition prevsOf :: "'x MempoolAddressStore \<Rightarrow> string \<Rightarrow> PrevOut list" where
  "prevsOf store a = (case store a of None \<Rightarrow> [] | Some ao \<Rightarrow> aoPrevOuts ao)"

text \<open>
  What both loops do to the report \<open>addrs\<close> of a run that began with the store \<open>store0\<close>: an address that
  is in the report is in the store, and is marked as new exactly if it was not in \<open>store0\<close>.
\<close>

definition reports ::
    "'x MempoolAddressStore \<Rightarrow> 'x MempoolAddressStore \<Rightarrow> (string \<rightharpoonup> bool) \<Rightarrow> bool" where
  "reports store0 store addrs \<longleftrightarrow>
     (\<forall>a. store a \<noteq> None \<longleftrightarrow> store0 a \<noteq> None \<or> addrs a \<noteq> None) \<and>
     (\<forall>a new. addrs a = Some new \<longrightarrow> new = (store0 a = None))"

lemma ex_Not_bool [simp]: "Ex Not"
  by blast

lemma outAddrsLoop_spec:
  assumes "outAddrsLoop op as store addrs = (store', addrs')" and "reports store0 store addrs"
  shows "outsOf store' a = outsOf store a @ map (\<lambda>_. op) (filter (\<lambda>x. a = x) as)"
    and "prevsOf store' a = prevsOf store a"
    and "addrs' a \<noteq> None \<longleftrightarrow> addrs a \<noteq> None \<or> a \<in> set as" and "reports store0 store' addrs'"
proof -
  have "outsOf store' a = outsOf store a @ map (\<lambda>_. op) (filter (\<lambda>x. a = x) as) \<and> prevsOf store' a = prevsOf store a \<and>
      (addrs' a \<noteq> None \<longleftrightarrow> addrs a \<noteq> None \<or> a \<in> set as) \<and> reports store0 store' addrs'"
    using assms
  proof (induction as arbitrary: store addrs)
    case (Cons x as)
    show ?case
    proof (cases "store x")
      case None
      let ?s = "store(x \<mapsto> \<lparr>aoAddress = x, aoOutpoints = [op], aoPrevOuts = [], aoTxnsStore = None\<rparr>)"
      have "store0 x = None" using Cons.prems(2) None by (metis reports_def)
      then have r: "reports store0 ?s (addrs(x \<mapsto> True))" using Cons.prems(2) by (auto simp: reports_def)
      have e: "outAddrsLoop op as ?s (addrs(x \<mapsto> True)) = (store', addrs')" using Cons.prems(1) None by simp
      show ?thesis using Cons.IH[OF e r] None by (cases "a = x") (simp_all add: outsOf_def prevsOf_def)
    next
      case (Some ao)
      let ?s = "store(x \<mapsto> ao\<lparr>aoOutpoints := aoOutpoints ao @ [op]\<rparr>)"
      let ?a = "if addrs x = None then addrs(x \<mapsto> False) else addrs"
      have r: "reports store0 ?s ?a" using Cons.prems(2) Some by (auto simp: reports_def)
      have e: "outAddrsLoop op as ?s ?a = (store', addrs')" using Cons.prems(1) Some by simp
      show ?thesis using Cons.IH[OF e r] Some by (cases "a = x") (simp_all add: outsOf_def prevsOf_def split: if_splits)
    qed
  qed simp
  then show "outsOf store' a = outsOf store a @ map (\<lambda>_. op) (filter (\<lambda>x. a = x) as)" "prevsOf store' a = prevsOf store a"
    "addrs' a \<noteq> None \<longleftrightarrow> addrs a \<noteq> None \<or> a \<in> set as" "reports store0 store' addrs'" by blast+
qed

lemma outsLoop_spec:
  assumes "outsLoop extract msgTx i txOuts n store addrs = (n', addrs', store')" and "reports store0 store addrs"
  shows "outsOf store' a = outsOf store a @ payLoop extract msgTx a i txOuts \<and> prevsOf store' a = prevsOf store a \<and>
    (addrs' a \<noteq> None \<longleftrightarrow> addrs a \<noteq> None \<or> payLoop extract msgTx a i txOuts \<noteq> []) \<and> reports store0 store' addrs'"
  using assms
proof (induction txOuts arbitrary: i n store addrs)
  case (Cons t txOuts)
  show ?case
  proof (cases "extract (toVersion t) (toPkScript t)")
    case None
    then show ?thesis using Cons by simp
  next
    case (Some as)
    show ?thesis
    proof (cases "as = []")
      case True
      then show ?thesis using Cons Some by simp
    next
      case False
      obtain s1 a1 where o: "outAddrsLoop (newOutPoint msgTx i) as store addrs = (s1, a1)" by fastforce
      note O = outAddrsLoop_spec[OF o Cons.prems(2)]
      have "outsLoop extract msgTx (i + 1) txOuts (n + 1) s1 a1 = (n', addrs', store')"
        using Cons.prems(1) Some False o by simp
      from Cons.IH[OF this O(4)] show ?thesis
        using O(1-3)[of a] Some by (auto simp: filter_empty_conv)
    qed
  qed
qed simp

lemma prevAddrsLoop_spec:
  assumes "prevAddrsLoop po as store addrs = (store', addrs')" and "reports store0 store addrs"
  shows "prevsOf store' a = prevsOf store a @ map (\<lambda>_. po) (filter (\<lambda>x. a = x) as)"
    and "outsOf store' a = outsOf store a"
    and "addrs' a \<noteq> None \<longleftrightarrow> addrs a \<noteq> None \<or> a \<in> set as" and "reports store0 store' addrs'"
proof -
  have "prevsOf store' a = prevsOf store a @ map (\<lambda>_. po) (filter (\<lambda>x. a = x) as) \<and> outsOf store' a = outsOf store a \<and>
      (addrs' a \<noteq> None \<longleftrightarrow> addrs a \<noteq> None \<or> a \<in> set as) \<and> reports store0 store' addrs'"
    using assms
  proof (induction as arbitrary: store addrs)
    case (Cons x as)
    show ?case
    proof (cases "store x")
      case None
      let ?s = "store(x \<mapsto> \<lparr>aoAddress = x, aoOutpoints = [], aoPrevOuts = [po], aoTxnsStore = None\<rparr>)"
      have "store0 x = None" using Cons.prems(2) None by (metis reports_def)
      then have r: "reports store0 ?s (addrs(x \<mapsto> True))" using Cons.prems(2) by (auto simp: reports_def)
      have e: "prevAddrsLoop po as ?s (addrs(x \<mapsto> True)) = (store', addrs')" using Cons.prems(1) None by simp
      show ?thesis using Cons.IH[OF e r] None by (cases "a = x") (simp_all add: outsOf_def prevsOf_def)
    next
      case (Some ao)
      let ?s = "store(x \<mapsto> ao\<lparr>aoPrevOuts := aoPrevOuts ao @ [po]\<rparr>)"
      let ?a = "if addrs x = None then addrs(x \<mapsto> False) else addrs"
      have r: "reports store0 ?s ?a" using Cons.prems(2) Some by (auto simp: reports_def)
      have e: "prevAddrsLoop po as ?s ?a = (store', addrs')" using Cons.prems(1) Some by simp
      show ?thesis using Cons.IH[OF e r] Some by (cases "a = x") (simp_all add: outsOf_def prevsOf_def split: if_splits)
    qed
  qed simp
  then show "prevsOf store' a = prevsOf store a @ map (\<lambda>_. po) (filter (\<lambda>x. a = x) as)" "outsOf store' a = outsOf store a"
    "addrs' a \<noteq> None \<longleftrightarrow> addrs a \<noteq> None \<or> a \<in> set as" "reports store0 store' addrs'" by blast+
qed

text \<open>The node answers each request, with the transaction that was asked for.\<close>

definition allFetched :: "(Hash \<Rightarrow> string) \<Rightarrow> verboseGetter \<Rightarrow> OutPoint list \<Rightarrow> bool" where
  "allFetched hs c ops \<longleftrightarrow> (\<forall>op \<in> set ops. \<exists>raw. c (opHash op) = Some raw \<and> trTxid raw = hs (opHash op))"

lemma prevOutsLoop_consume:
  assumes "allFetched hs c (map snd ps)" and "reports store0 (psStore st) (psAddrs st)"
  shows "(case prevOutsLoop hs fromHex extract c msgTx ps st of
      Panic \<Rightarrow> consumeLoop hs fromHex extract c msgTx a ps pos txs = Panic
    | Ret st' \<Rightarrow> \<exists>new txs'. consumeLoop hs fromHex extract c msgTx a ps pos txs = Ret (pos @ new, txs') \<and>
        prevsOf (psStore st') a = prevsOf (psStore st) a @ new \<and> outsOf (psStore st') a = outsOf (psStore st) a \<and>
        (psAddrs st' a \<noteq> None \<longleftrightarrow> psAddrs st a \<noteq> None \<or> new \<noteq> []) \<and> reports store0 (psStore st') (psAddrs st'))"
  using assms
proof (induction ps arbitrary: st pos txs)
  case Nil
  then show ?case by simp
next
  case (Cons p ps)
  obtain i op where p: "p = (i, op)" by (cases p)
  obtain raw where raw: "c (opHash op) = Some raw" "trTxid raw = hs (opHash op)"
    using Cons.prems(1) p by (auto simp: allFetched_def)
  have f: "allFetched hs c (map snd ps)" using Cons.prems(1) by (simp add: allFetched_def)
  show ?case
  proof (cases "fromHex (trHex raw)")
    case None
    have l: "prevOutsLoop hs fromHex extract c msgTx (p # ps) st = prevOutsLoop hs fromHex extract c msgTx ps st"
      "consumeLoop hs fromHex extract c msgTx a (p # ps) pos txs = consumeLoop hs fromHex extract c msgTx a ps pos txs"
      using raw p None by (simp_all add: Let_def)
    show ?thesis using Cons.IH[OF f Cons.prems(2), of pos txs] unfolding l by simp
  next
    case (Some prevTx)
    show ?thesis
    proof (cases "unat (opIndex op) \<ge> length (mtTxOut prevTx)")
      case True
      then show ?thesis using raw Some p by simp
    next
      case False
      let ?out = "mtTxOut prevTx ! unat (opIndex op)"
      let ?st1 = "st\<lparr>psValsIn := (psValsIn st)[i := toValue ?out]\<rparr>"
      have st1: "psStore ?st1 = psStore st" "psAddrs ?st1 = psAddrs st" by simp_all
      have r1: "reports store0 (psStore ?st1) (psAddrs ?st1)" using Cons.prems(2) by simp
      show ?thesis
      proof (cases "extract (toVersion ?out) (toPkScript ?out)")
        case None
        have l: "prevOutsLoop hs fromHex extract c msgTx (p # ps) st = prevOutsLoop hs fromHex extract c msgTx ps ?st1"
      "consumeLoop hs fromHex extract c msgTx a (p # ps) pos txs = consumeLoop hs fromHex extract c msgTx a ps pos txs"
      using raw Some False p None by (simp_all add: Let_def)
    show ?thesis using Cons.IH[OF f r1, of pos txs] unfolding l st1 .
      next
        case as: (Some as)
        show ?thesis
        proof (cases "as = []")
          case True
          have l: "prevOutsLoop hs fromHex extract c msgTx (p # ps) st = prevOutsLoop hs fromHex extract c msgTx ps ?st1"
      "consumeLoop hs fromHex extract c msgTx a (p # ps) pos txs = consumeLoop hs fromHex extract c msgTx a ps pos txs"
      using raw Some False p as True by (simp_all add: Let_def)
    show ?thesis using Cons.IH[OF f r1, of pos txs] unfolding l st1 .
        next
          case ne: False
          let ?po = "prevOutOf msgTx i op prevTx"
          let ?hits = "filter (\<lambda>x. a = x) as"
          obtain s1 a1 where o: "prevAddrsLoop ?po as (psStore st) (psAddrs st) = (s1, a1)" by fastforce
          note O = prevAddrsLoop_spec[OF o Cons.prems(2)]
          let ?st2 = "?st1\<lparr>psNew := psNew st + 1, psAddrs := a1, psStore := s1,
            psTxns := (psTxns st)(opHash op \<mapsto> withBlockData raw prevTx)\<rparr>"
          have st2: "psStore ?st2 = s1" "psAddrs ?st2 = a1" by simp_all
          have l: "prevOutsLoop hs fromHex extract c msgTx (p # ps) st = prevOutsLoop hs fromHex extract c msgTx ps ?st2"
            using raw Some False as ne o p by (simp add: Let_def)
          have cl: "consumeLoop hs fromHex extract c msgTx a (p # ps) pos txs =
              consumeLoop hs fromHex extract c msgTx a ps (pos @ map (\<lambda>_. ?po) ?hits)
                (txs @ map (\<lambda>_. withBlockData raw prevTx) ?hits)"
            using raw Some False as p by (simp add: Let_def)
          have r2: "reports store0 (psStore ?st2) (psAddrs ?st2)" unfolding st2 by (rule O(4))
          note I = Cons.IH[OF f r2, of "pos @ map (\<lambda>_. ?po) ?hits" "txs @ map (\<lambda>_. withBlockData raw prevTx) ?hits"]
          have h: "a \<in> set as \<longleftrightarrow> map (\<lambda>_. ?po) ?hits \<noteq> []" by (auto simp: filter_empty_conv)
          show ?thesis
          proof (cases "prevOutsLoop hs fromHex extract c msgTx ps ?st2")
            case Panic
            then show ?thesis using I unfolding l cl by simp
          next
            case (Ret st')
            then obtain new txs' where N: "consumeLoop hs fromHex extract c msgTx a ps (pos @ map (\<lambda>_. ?po) ?hits)
                (txs @ map (\<lambda>_. withBlockData raw prevTx) ?hits) = Ret ((pos @ map (\<lambda>_. ?po) ?hits) @ new, txs')"
              "prevsOf (psStore st') a = prevsOf s1 a @ new" "outsOf (psStore st') a = outsOf s1 a"
              "psAddrs st' a \<noteq> None \<longleftrightarrow> a1 a \<noteq> None \<or> new \<noteq> []" "reports store0 (psStore st') (psAddrs st')"
              using I unfolding st2 by auto
            have "psAddrs st' a \<noteq> None \<longleftrightarrow> psAddrs st a \<noteq> None \<or> map (\<lambda>_. ?po) ?hits @ new \<noteq> []"
              unfolding N(4) O(3)[of a] h by blast
            then show ?thesis
              using N(1-3,5) O(1,2)[of a] unfolding l cl Ret
              by (intro go.case(1)[THEN iffD2] exI[of _ "map (\<lambda>_. ?po) ?hits @ new"] exI[of _ txs']) simp
          qed
        qed
      qed
    qed
  qed
qed

lemma reports_start: "reports store store Map.empty"
  by (simp add: reports_def)

lemma reports_value:
  assumes "reports store0 store addrs" and "addrs a \<noteq> None \<longleftrightarrow> xs \<noteq> []"
  shows "addrs a = (if xs = [] then None else Some (store0 a = None))"
proof (cases "xs = []")
  case True
  then show ?thesis using assms(2) by simp
next
  case False
  then obtain new where "addrs a = Some new" using assms(2) by auto
  then show ?thesis using False assms(1) by (simp add: reports_def)
qed

lemma promises_set: "snd ` set (promises i txIns) \<subseteq> {op \<in> tiPrevOut ` set txIns. opHash op \<noteq> 0}"
  by (induction txIns arbitrary: i) (auto split: if_splits)

text \<open>The tickets spent by votes, and by revocations, if these have the inputs that they must have.\<close>

lemma spentLoop_spec:
  "\<forall>stx \<in> set stxs. mtType (txMsg stx) = ty \<longrightarrow> i < length (mtTxIn (txMsg stx)) \<Longrightarrow>
   spentLoop ty i stxs =
     Ret (map (\<lambda>stx. opHash (tiPrevOut (mtTxIn (txMsg stx) ! i))) (filter (\<lambda>stx. mtType (txMsg stx) = ty) stxs))"
  by (induction stxs) auto

lemma ticketsLoop_spec:
  "ticketsLoop stxs = (let ts = filter (\<lambda>stx. mtType (txMsg stx) = TxTypeSStx) stxs
     in (map (\<lambda>stx. mtHash (txMsg stx)) ts, ts))"
  by (induction stxs) (simp_all add: Let_def)

subsection \<open>Properties\<close>

text \<open>Example data: a transaction with two outputs, one of them to two addresses, that spends an output of another.\<close>

definition exExtract :: extractor where
  "exExtract v script = (if script = [1] then Some [''a''] else if script = [2] then Some [''a'', ''b''] else None)"

definition exPrev :: "unit MsgTx" where
  "exPrev = \<lparr>mtTxIn = [], mtTxOut = [\<lparr>toValue = 5, toVersion = 0, toPkScript = [1]\<rparr>], mtHash = 7,
     mtType = TxTypeRegular, mtSize = 100, mtRest = ()\<rparr>"

definition exTx :: "unit MsgTx" where
  "exTx = \<lparr>mtTxIn = [\<lparr>tiPrevOut = \<lparr>opHash = 7, opIndex = 0, opTree = 0\<rparr>, tiValueIn = 5\<rparr>],
     mtTxOut = [\<lparr>toValue = 1, toVersion = 0, toPkScript = [2]\<rparr>, \<lparr>toValue = 3, toVersion = 0, toPkScript = [1]\<rparr>],
     mtHash = 9, mtType = TxTypeRegular, mtSize = 100, mtRest = ()\<rparr>"

definition exGetter :: verboseGetter where
  "exGetter h = (if h = 7 then Some \<lparr>trTxid = ''seven'', trHex = ''00'', trBlockHeight = 3, trBlockHash = []\<rparr> else None)"

text \<open>FilterHashSlice filters although it overwrites the array that it reads. The result has the hashes that
  are not to be removed, in their order, and the caller's array starts with the result and is otherwise
  as it was.\<close>

theorem FilterHashSlice_filters:
  "FilterHashSlice s doRemove =
    (let r = filter (\<lambda>h. \<not> doRemove h) s in (r, r @ drop (length r) s))"
  using filterLoop_spec[of 0 0 s doRemove] by (simp add: FilterHashSlice_def Let_def)

text \<open>The store that TxOutpointsByAddr fills agrees with TxPaysToAddress. For every address, exactly the
  outpoints that TxPaysToAddress finds are appended, in its order, the previous outpoints of the
  address stay, and the report has the addresses that the transaction pays to, marked as new exactly if
  they were not in the store before.\<close>

theorem TxOutpointsByAddr_agrees:
  "\<exists>n addrs store'. TxOutpointsByAddr extract (Some store) msgTx = Ret (n, addrs, store') \<and>
    (\<forall>a. outsOf store' a = outsOf store a @ TxPaysToAddress extract msgTx a \<and>
      prevsOf store' a = prevsOf store a \<and>
      addrs a = (if TxPaysToAddress extract msgTx a = [] then None else Some (store a = None)))"
proof -
  obtain n addrs store' where l: "outsLoop extract msgTx 0 (mtTxOut msgTx) 0 store Map.empty = (n, addrs, store')"
    by (metis prod_cases3)
  note S = outsLoop_spec[OF l reports_start]
  have "addrs a = (if TxPaysToAddress extract msgTx a = [] then None else Some (store a = None))" for a
    by (rule reports_value[of store store']) (use S[of a] in \<open>simp_all add: TxPaysToAddress_def\<close>)
  then show ?thesis
    using l S by (intro exI[of _ n] exI[of _ addrs] exI[of _ store']) (simp add: TxOutpointsByAddr_def TxPaysToAddress_def)
qed

text \<open>The store that TxPrevOutsByAddr fills agrees with TxConsumesOutpointWithAddress. If the node answers for
  all inputs with the transaction that was asked for, both panic for the same transactions (an input
  whose index is beyond the outputs of the previous transaction); otherwise, for every address, exactly
  the previous outpoints that TxConsumesOutpointWithAddress finds are appended, and the report has the
  addresses that the transaction spends from, with the new ones marked.\<close>

theorem TxPrevOutsByAddr_agrees:
  assumes "\<forall>txIn \<in> set (mtTxIn msgTx). opHash (tiPrevOut txIn) \<noteq> 0 \<longrightarrow>
    (\<exists>raw. c (opHash (tiPrevOut txIn)) = Some raw \<and> trTxid raw = hs (opHash (tiPrevOut txIn)))"
  shows "case TxPrevOutsByAddr hs fromHex extract (Some store) (Some txns) msgTx c of
      Panic \<Rightarrow> TxConsumesOutpointWithAddress hs fromHex extract c msgTx a = Panic
    | Ret st \<Rightarrow> \<exists>new txs. TxConsumesOutpointWithAddress hs fromHex extract c msgTx a = Ret (new, txs) \<and>
        prevsOf (psStore st) a = prevsOf store a @ new \<and> outsOf (psStore st) a = outsOf store a \<and>
        psAddrs st a = (if new = [] then None else Some (store a = None))"
proof -
  let ?ps = "promises 0 (mtTxIn msgTx)"
  let ?st = "\<lparr>psNew = 0, psAddrs = Map.empty, psValsIn = replicate (length (mtTxIn msgTx)) 0, psStore = store, psTxns = txns\<rparr>"
  have f: "allFetched hs c (map snd ?ps)" unfolding allFetched_def
  proof
    fix op assume "op \<in> set (map snd ?ps)"
    then have "op \<in> snd ` set ?ps" by simp
    with promises_set[of 0 "mtTxIn msgTx"] have "op \<in> tiPrevOut ` set (mtTxIn msgTx)" "opHash op \<noteq> 0" by blast+
    then show "\<exists>raw. c (opHash op) = Some raw \<and> trTxid raw = hs (opHash op)" using assms by auto
  qed
  have r: "reports store (psStore ?st) (psAddrs ?st)" by (simp add: reports_start)
  note L = prevOutsLoop_consume[OF f r, of fromHex "extract" msgTx a "[]" "[]"]
  have p: "TxPrevOutsByAddr hs fromHex extract (Some store) (Some txns) msgTx c = prevOutsLoop hs fromHex extract c msgTx ?ps ?st"
    by (simp add: TxPrevOutsByAddr_def)
  show ?thesis
  proof (cases "prevOutsLoop hs fromHex extract c msgTx ?ps ?st")
    case Panic
    then show ?thesis using L unfolding p by (simp add: TxConsumesOutpointWithAddress_def)
  next
    case (Ret st')
    then obtain new txs where N: "consumeLoop hs fromHex extract c msgTx a ?ps [] [] = Ret (new, txs)"
      "prevsOf (psStore st') a = prevsOf store a @ new" "outsOf (psStore st') a = outsOf store a"
      "psAddrs st' a \<noteq> None \<longleftrightarrow> new \<noteq> []" "reports store (psStore st') (psAddrs st')"
      using L by auto
    show ?thesis
      using N(1-3) reports_value[OF N(5,4)] unfolding p Ret by (simp add: TxConsumesOutpointWithAddress_def)
  qed
qed

theorem TxPrevOutsByAddr_agrees_witness:
  "case TxPrevOutsByAddr (\<lambda>_. ''seven'') (\<lambda>_. Some exPrev) exExtract (Some Map.empty) (Some Map.empty) exTx exGetter of
     Panic \<Rightarrow> False | Ret st \<Rightarrow> prevsOf (psStore st) ''a'' = [prevOutOf exTx 0 \<lparr>opHash = 7, opIndex = 0, opTree = 0\<rparr> exPrev]"
proof -
  have f: "\<forall>txIn \<in> set (mtTxIn exTx). opHash (tiPrevOut txIn) \<noteq> 0 \<longrightarrow>
    (\<exists>raw. exGetter (opHash (tiPrevOut txIn)) = Some raw \<and> trTxid raw = (\<lambda>_. ''seven'') (opHash (tiPrevOut txIn)))"
    by (simp add: exTx_def exGetter_def)
  have c: "TxConsumesOutpointWithAddress (\<lambda>_. ''seven'') (\<lambda>_. Some exPrev) exExtract exGetter exTx ''a'' =
      Ret ([prevOutOf exTx 0 \<lparr>opHash = 7, opIndex = 0, opTree = 0\<rparr> exPrev],
        [withBlockData \<lparr>trTxid = ''seven'', trHex = ''00'', trBlockHeight = 3, trBlockHash = []\<rparr> exPrev])"
    by (simp add: TxConsumesOutpointWithAddress_def exTx_def exGetter_def exPrev_def exExtract_def Let_def)
  show ?thesis
    using TxPrevOutsByAddr_agrees[OF f, where a = "''a''" and fromHex = "\<lambda>_. Some exPrev"
        and store = Map.empty and txns = Map.empty, of exExtract]
    unfolding c by (simp add: prevsOf_def split: go.splits)
qed

end
