(* ===== verification/TxAmounts.thy ===== *)
theory TxAmounts
  imports TxHelpers "HOL-Library.Multiset" "HOL-Library.Signed_Division"
begin

text \<open>
  Amounts, mixes, votes and subsidies of \<open>txhelpers\<close> (\<open>txhelpers.go\<close>, \<open>cspp.go\<close>, \<open>subsidy.go\<close>).

  Amounts are \<open>int64\<close> values as words, read with \<open>sint\<close> where they are compared or divided. The
  order in which Go ranges over a map is the parameter \<open>ord\<close>. Functions of the packages \<open>stake\<close>,
  \<open>txrules\<close>, \<open>txsizes\<close>, \<open>standalone\<close> and \<open>dcrutil\<close> are parameters.
\<close>

subsection \<open>Fees\<close>

text \<open>The division of \<open>int64\<close> values, which rounds towards zero.\<close>

definition go_div64 :: "64 word \<Rightarrow> 64 word \<Rightarrow> 64 word" where
  "go_div64 a b = word_of_int (sint a sdiv sint b)"

definition amountIn :: "'x MsgTx \<Rightarrow> 64 word" where
  "amountIn msgTx = foldl (\<lambda>amtIn txIn. amtIn + tiValueIn txIn) 0 (mtTxIn msgTx)"

definition TotalOutFromMsgTx :: "'x MsgTx \<Rightarrow> 64 word" where
  "TotalOutFromMsgTx msgTx = foldl (\<lambda>amtOut v. amtOut + toValue v) 0 (mtTxOut msgTx)"

definition TxFee :: "'x MsgTx \<Rightarrow> 64 word" where
  "TxFee msgTx = amountIn msgTx - TotalOutFromMsgTx msgTx"

definition FeeRate :: "64 word \<Rightarrow> 64 word \<Rightarrow> 64 word \<Rightarrow> 64 word" where
  "FeeRate amtIn amtOut sizeBytes =
     (if sizeBytes = 0 then -1 else go_div64 (1000 * (amtIn - amtOut)) sizeBytes)"

definition TxFeeRate :: "'x MsgTx \<Rightarrow> 64 word \<times> 64 word" where
  "TxFeeRate msgTx =
     (let amtIn = amountIn msgTx; amtOut = TotalOutFromMsgTx msgTx
      in (amtIn - amtOut, FeeRate amtIn amtOut (word_of_int (mtSize msgTx))))"

text \<open>The slice is sorted in place; the second result is what it is afterwards.\<close>

definition MedianAmount :: "64 word list \<Rightarrow> 64 word \<times> 64 word list" where
  "MedianAmount s =
     (if s = [] then (0, s)
      else
        let s1 = sort_key sint s; middle = length s1 div 2 in
        if length s1 mod 2 \<noteq> 0 then (s1 ! middle, s1)
        else (go_div64 (s1 ! middle + s1 ! (middle - 1)) 2, s1))"

subsection \<open>Mixes\<close>

definition splitPoints :: "64 word list" where
  "splitPoints = [2 ^ 36, 2 ^ 34, 2 ^ 32, 2 ^ 30, 2 ^ 28, 2 ^ 26, 2 ^ 24, 2 ^ 22, 2 ^ 20, 2 ^ 18]"

text \<open>The entries of the map \<open>mixedOuts\<close>.\<close>

fun mixedOuts :: "TxOut list \<Rightarrow> (64 word \<times> 32 word) list \<Rightarrow> (64 word \<times> 32 word) list" where
  "mixedOuts [] m = m"
| "mixedOuts (out # outs) m =
     (let val = toValue out in
      if val \<in> set splitPoints
      then mixedOuts outs (AList.update val ((case map_of m val of None \<Rightarrow> 0 | Some n \<Rightarrow> n) + 1) m)
      else mixedOuts outs m)"

fun mixLoop :: "(64 word \<times> 32 word) list \<Rightarrow> 64 word \<Rightarrow> 32 word \<Rightarrow> 64 word \<times> 32 word" where
  "mixLoop [] mixDenom mixCount = (mixDenom, mixCount)"
| "mixLoop ((val, cnt) # entries) mixDenom mixCount =
     (if cnt < 3 then mixLoop entries mixDenom mixCount
      else if sint val > sint mixDenom then mixLoop entries val cnt
      else mixLoop entries mixDenom mixCount)"

definition IsMixTx ::
    "((64 word \<times> 32 word) list \<Rightarrow> (64 word \<times> 32 word) list) \<Rightarrow> 'x MsgTx \<Rightarrow> bool \<times> 64 word \<times> 32 word" where
  "IsMixTx ord tx =
     (if length (mtTxOut tx) < 3 \<or> length (mtTxIn tx) < 3 then (False, 0, 0)
      else
        let (mixDenom, mixCount) = mixLoop (ord (mixedOuts (mtTxOut tx) [])) 0 0
        in (mixCount \<ge> of_nat (length (mtTxOut tx) div 2), mixDenom, mixCount))"

definition calcSoloTicketTxSize :: "(int list \<Rightarrow> int list \<Rightarrow> int \<Rightarrow> int) \<Rightarrow> int \<Rightarrow> int \<Rightarrow> int \<Rightarrow> int" where
  "calcSoloTicketTxSize estimate redeemP2PKHSigScriptSize p2PKHPkScriptSize ticketCommitmentScriptSize =
     (let inSizes = [redeemP2PKHSigScriptSize];
          outSizes = [p2PKHPkScriptSize + 1, ticketCommitmentScriptSize, p2PKHPkScriptSize + 1]
      in estimate inSizes outSizes 0)"

text \<open>The loop counts the outputs of the ticket amount and the others.\<close>

fun ticketOutLoop :: "64 word \<Rightarrow> TxOut list \<Rightarrow> 32 word \<Rightarrow> 32 word \<Rightarrow> 32 word \<times> 32 word" where
  "ticketOutLoop ticketOutAmt [] numTickets numOtherOut = (numTickets, numOtherOut)"
| "ticketOutLoop ticketOutAmt (out # outs) numTickets numOtherOut =
     (if toValue out = ticketOutAmt then ticketOutLoop ticketOutAmt outs (numTickets + 1) numOtherOut
      else ticketOutLoop ticketOutAmt outs numTickets (numOtherOut + 1))"

definition IsMixedSplitTx ::
    "(64 word \<Rightarrow> int \<Rightarrow> 64 word) \<Rightarrow> 64 word \<Rightarrow> int \<Rightarrow> 'x MsgTx \<Rightarrow> 64 word \<Rightarrow> 64 word \<Rightarrow> bool \<times> 64 word \<times> 32 word" where
  "IsMixedSplitTx feeForSerializeSize defaultRelayFeePerKb soloTicketTxSize tx relayFeeRate ticketPrice =
     (if length (mtTxOut tx) < 6 \<or> length (mtTxIn tx) < 3 then (False, 0, 0)
      else
        let ticketTxFee = (if relayFeeRate \<noteq> defaultRelayFeePerKb
              then feeForSerializeSize relayFeeRate soloTicketTxSize
              else feeForSerializeSize defaultRelayFeePerKb soloTicketTxSize);
            ticketOutAmt = ticketPrice + ticketTxFee;
            (numTickets, numOtherOut) = ticketOutLoop ticketOutAmt (mtTxOut tx) 0 0
        in if numTickets < 3 \<or> numOtherOut < 3 then (False, 0, 0) else (True, ticketOutAmt, numTickets))"

subsection \<open>Votes\<close>

record BlockValidation =
  bvHash :: Hash
  bvHeight :: int
  bvValidity :: bool

text \<open>What package \<open>stake\<close> reads of a vote, and the test of the block valid bit.\<close>

record 'x voteReader =
  vrIsSSGen :: "'x MsgTx \<Rightarrow> bool"
  vrVoteBits :: "'x MsgTx \<Rightarrow> 16 word"
  vrBlockVotedOn :: "'x MsgTx \<Rightarrow> Hash \<times> 32 word"
  vrVersion :: "'x MsgTx \<Rightarrow> 32 word"
  vrBlockValid :: "16 word \<Rightarrow> bool"

definition noBlockValidation :: BlockValidation where
  "noBlockValidation = \<lparr>bvHash = 0, bvHeight = 0, bvValidity = False\<rparr>"

definition SSGenVoteBlockValid :: "'x voteReader \<Rightarrow> 'x MsgTx \<Rightarrow> (BlockValidation \<times> 16 word) option" where
  "SSGenVoteBlockValid vr msgTx =
     (if \<not> vrIsSSGen vr msgTx then None
      else
        let ssGenVoteBits = vrVoteBits vr msgTx;
            (blockHash, blockHeight) = vrBlockVotedOn vr msgTx
        in Some (\<lparr>bvHash = blockHash, bvHeight = uint blockHeight, bvValidity = vrBlockValid vr ssGenVoteBits\<rparr>,
             ssGenVoteBits))"

text \<open>The vote version and vote bits of each vote.\<close>

fun voteBitsLoop :: "'x voteReader \<Rightarrow> 'x Tx list \<Rightarrow> (32 word \<times> 16 word) list" where
  "voteBitsLoop vr [] = []"
| "voteBitsLoop vr (stx # stxs) =
     (if \<not> vrIsSSGen vr (txMsg stx) then voteBitsLoop vr stxs
      else (vrVersion vr (txMsg stx), vrVoteBits vr (txMsg stx)) # voteBitsLoop vr stxs)"

definition VoteBitsInBlock :: "'x voteReader \<Rightarrow> 'x TxBlock \<Rightarrow> (32 word \<times> 16 word) list" where
  "VoteBitsInBlock vr block = voteBitsLoop vr (blSTransactions block)"

text \<open>Little endian numbers.\<close>

fun littleEndian :: "8 word list \<Rightarrow> int" where
  "littleEndian [] = 0"
| "littleEndian (b # bs) = uint b + 256 * littleEndian bs"

definition SSGenVoteBits :: "'x MsgTx \<Rightarrow> string + 16 word" where
  "SSGenVoteBits tx =
     (if length (mtTxOut tx) < 2 then Inl ''not a ssgen''
      else
        let pkScript = toPkScript (mtTxOut tx ! 1) in
        if length pkScript < 8 then Inl ''vote consensus version absent''
        else Inr (word_of_int (littleEndian (take 2 (drop 2 pkScript)))))"

definition VoteVersion :: "32 word \<Rightarrow> 8 word list \<Rightarrow> 32 word" where
  "VoteVersion voteConsensusVersionAbsent pkScript =
     (if length pkScript < 8 then voteConsensusVersionAbsent
      else word_of_int (littleEndian (take 4 (drop 4 pkScript))))"

text \<open>An agenda of \<open>chaincfg\<close>; \<open>dpVoteIndex\<close> is its method \<open>VoteIndex\<close>.\<close>

record 'c Deployment =
  dpId :: string
  dpDescription :: string
  dpMask :: "16 word"
  dpChoices :: "'c list"
  dpVoteIndex :: "16 word \<Rightarrow> int"

record 'c VoteChoice =
  vcID :: string
  vcDescription :: string
  vcMask :: "16 word"
  vcVoteVersion :: "32 word"
  vcVoteIndex :: int
  vcChoiceIdx :: int
  vcChoice :: 'c

fun choicesLoop :: "32 word \<Rightarrow> 16 word \<Rightarrow> int \<Rightarrow> 'c Deployment list \<Rightarrow> 'c VoteChoice list go" where
  "choicesLoop voteVersion voteBits d [] = Ret []"
| "choicesLoop voteVersion voteBits d (voteAgenda # deployments) =
     (let choiceIndex = dpVoteIndex voteAgenda voteBits in
      case go_index (dpChoices voteAgenda) choiceIndex of
        None \<Rightarrow> Panic
      | Some choice \<Rightarrow>
          (case choicesLoop voteVersion voteBits (d + 1) deployments of
             Panic \<Rightarrow> Panic
           | Ret choices \<Rightarrow>
               Ret (\<lparr>vcID = dpId voteAgenda, vcDescription = dpDescription voteAgenda, vcMask = dpMask voteAgenda,
                 vcVoteVersion = voteVersion, vcVoteIndex = d, vcChoiceIdx = choiceIndex, vcChoice = choice\<rparr> # choices)))"

definition SSGenVoteChoices ::
    "'x voteReader \<Rightarrow> (32 word \<Rightarrow> 'c Deployment list) \<Rightarrow> 'x MsgTx
     \<Rightarrow> (BlockValidation \<times> 32 word \<times> 16 word \<times> 'c VoteChoice list) option go" where
  "SSGenVoteChoices vr deploymentsOf tx =
     (case SSGenVoteBlockValid vr tx of
        None \<Rightarrow> Ret None
      | Some (validBlock, voteBits) \<Rightarrow>
          let voteVersion = vrVersion vr tx in
          case choicesLoop voteVersion voteBits 0 (deploymentsOf voteVersion) of
            Panic \<Rightarrow> Panic
          | Ret choices \<Rightarrow> Ret (Some (validBlock, voteVersion, voteBits, choices)))"

subsection \<open>Subsidies\<close>

text \<open>The subsidy functions of package \<open>standalone\<close> and the parameters of the network.\<close>

record subsidyParams =
  spVotesPerBlock :: "16 word"
  spStakeValidationHeight :: int
  spReductionInterval :: int
  spBlockOneSubsidy :: "64 word"
  spCalcWorkSubsidy :: "int \<Rightarrow> 16 word \<Rightarrow> 64 word"
  spCalcStakeVoteSubsidy :: "int \<Rightarrow> 64 word"
  spCalcTreasurySubsidy :: "int \<Rightarrow> 16 word \<Rightarrow> 64 word"

definition subsidySum :: "subsidyParams \<Rightarrow> int \<Rightarrow> 64 word" where
  "subsidySum sp height =
     (let work = spCalcWorkSubsidy sp height (spVotesPerBlock sp);
          vote = spCalcStakeVoteSubsidy sp height * ucast (spVotesPerBlock sp);
          treasury = spCalcTreasurySubsidy sp height (spVotesPerBlock sp)
      in work + vote + treasury)"

partial_function (option) ultimateLoop :: "subsidyParams \<Rightarrow> int \<Rightarrow> 64 word \<Rightarrow> 64 word option" where
  "ultimateLoop sp i totalSubsidy =
     (if i = 0 then
        ultimateLoop sp (i + 1)
          (totalSubsidy + subsidySum sp 2 * word_of_int (spStakeValidationHeight sp - 2)
           + subsidySum sp (spStakeValidationHeight sp)
             * word_of_int (spReductionInterval sp - spStakeValidationHeight sp))
      else
        let sum = subsidySum sp (i * spReductionInterval sp) in
        if sum = 0 then Some totalSubsidy
        else ultimateLoop sp (i + 1) (totalSubsidy + sum * word_of_int (spReductionInterval sp)))"

text \<open>The store of computed values is a map from the networks \<open>'p\<close>.\<close>

definition UltimateSubsidy ::
    "('p \<Rightarrow> subsidyParams) \<Rightarrow> 'p \<Rightarrow> ('p \<rightharpoonup> 64 word) \<Rightarrow> (64 word \<times> ('p \<rightharpoonup> 64 word)) option" where
  "UltimateSubsidy paramsOf params ultimateSubsidies =
     (case ultimateSubsidies params of
        Some result \<Rightarrow> Some (result, ultimateSubsidies)
      | None \<Rightarrow>
          (case ultimateLoop (paramsOf params) 0 (spBlockOneSubsidy (paramsOf params)) of
             None \<Rightarrow> None
           | Some totalSubsidy \<Rightarrow> Some (totalSubsidy, ultimateSubsidies(params \<mapsto> totalSubsidy))))"

definition RewardsAtBlock :: "subsidyParams \<Rightarrow> int \<Rightarrow> 16 word \<Rightarrow> 64 word \<times> 64 word \<times> 64 word" where
  "RewardsAtBlock sp blockIdx votes =
     (spCalcWorkSubsidy sp blockIdx votes, spCalcStakeVoteSubsidy sp blockIdx, spCalcTreasurySubsidy sp blockIdx votes)"

subsection \<open>Addresses\<close>

datatype AddressError =
  AddressErrorNoError | AddressErrorZeroAddress | AddressErrorWrongNet | AddressErrorDecodeFailed
  | AddressErrorUnknown | AddressErrorUnsupported

datatype AddressType = AddressTypeP2PK | AddressTypeP2PKH | AddressTypeP2SH | AddressTypeOther | AddressTypeUnknown

record 'n netParams =
  npPubKeyAddrID :: 'n
  npPubKeyHashAddrID :: 'n
  npScriptHashAddrID :: 'n
  npPKHEdwardsAddrID :: 'n
  npPKHSchnorrAddrID :: 'n
  npZeroAddress :: "string option"

text \<open>\<open>npZeroAddress\<close> is the address of the zero public key hash, which \<open>NewAddressPubKeyHash\<close> computes or refuses.\<close>

definition IsZeroHashP2PHKAddress :: "'n netParams \<Rightarrow> string \<Rightarrow> bool" where
  "IsZeroHashP2PHKAddress params checkAddressString =
     (case npZeroAddress params of None \<Rightarrow> False | Some zeroAddress \<Rightarrow> checkAddressString = zeroAddress)"

definition AddressValidation ::
    "(string \<Rightarrow> 'a option) \<Rightarrow> (string \<Rightarrow> 'n) \<Rightarrow> 'n netParams \<Rightarrow> string \<Rightarrow> 'a option \<times> AddressType \<times> AddressError" where
  "AddressValidation decode netIDOf params address =
     (case decode address of
        None \<Rightarrow> (None, AddressTypeUnknown, AddressErrorDecodeFailed)
      | Some addr \<Rightarrow>
          let netID = netIDOf address;
              addrType =
                (if netID = npPubKeyAddrID params then AddressTypeP2PK
                 else if netID = npPubKeyHashAddrID params then AddressTypeP2PKH
                 else if netID = npScriptHashAddrID params then AddressTypeP2SH
                 else if netID = npPKHEdwardsAddrID params \<or> netID = npPKHSchnorrAddrID params then AddressTypeOther
                 else AddressTypeUnknown)
          in if IsZeroHashP2PHKAddress params address then (Some addr, addrType, AddressErrorZeroAddress)
             else (Some addr, addrType, AddressErrorNoError))"

subsection \<open>Lemmas on mixes\<close>

definition countOut :: "64 word \<Rightarrow> TxOut list \<Rightarrow> nat" where
  "countOut v outs = length (filter (\<lambda>out. toValue out = v) outs)"

lemma mixedOuts_distinct: "distinct (map fst m) \<Longrightarrow> distinct (map fst (mixedOuts outs m))"
  by (induction outs arbitrary: m) (simp_all add: Let_def distinct_update)

lemma mixedOuts_map:
  "map_of (mixedOuts outs m) v =
     (if v \<in> set splitPoints \<and> 0 < countOut v outs
      then Some ((case map_of m v of None \<Rightarrow> 0 | Some n \<Rightarrow> n) + of_nat (countOut v outs)) else map_of m v)"
proof (induction outs arbitrary: m)
  case Nil
  show ?case by (simp add: countOut_def)
next
  case (Cons out outs)
  show ?case
  proof (cases "toValue out \<in> set splitPoints")
    case False
    then have "v \<in> set splitPoints \<Longrightarrow> countOut v (out # outs) = countOut v outs" by (auto simp: countOut_def)
    then show ?thesis using Cons False by (auto simp: Let_def)
  next
    case True
    have c: "countOut v (out # outs) = (if v = toValue out then countOut v outs + 1 else countOut v outs)"
      by (auto simp: countOut_def)
    show ?thesis
      using Cons True unfolding c by (auto simp: Let_def update_conv' split: option.split)
  qed
qed

lemma mixLoop_spec:
  "mixLoop entries d c = (d', c') \<Longrightarrow>
     ((d', c') = (d, c) \<or> (d', c') \<in> set entries \<and> 3 \<le> c' \<and> sint d < sint d') \<and> sint d \<le> sint d' \<and>
     (\<forall>(v, n) \<in> set entries. 3 \<le> n \<longrightarrow> sint v \<le> sint d')"
proof (induction entries arbitrary: d c)
  case Nil
  then show ?case by simp
next
  case (Cons e entries)
  obtain v n where e: "e = (v, n)" by (cases e)
  show ?case
  proof (cases "n < 3 \<or> \<not> sint d < sint v")
    case True
    then have "mixLoop entries d c = (d', c')" using Cons.prems e by (auto split: if_splits)
    from Cons.IH[OF this] show ?thesis using True e by auto
  next
    case False
    then have "mixLoop entries v n = (d', c')" using Cons.prems e by simp
    from Cons.IH[OF this] show ?thesis using False e by auto
  qed
qed

lemma splitPoints_pos: "v \<in> set splitPoints \<Longrightarrow> 0 < sint v"
  by (auto simp: splitPoints_def)

lemma of_nat_word_le:
  "a < 2 ^ LENGTH('w::len) \<Longrightarrow> b < 2 ^ LENGTH('w) \<Longrightarrow> (of_nat a :: 'w word) \<le> of_nat b \<longleftrightarrow> a \<le> b"
  by (simp add: word_le_nat_alt unat_of_nat take_bit_nat_eq_self)

subsection \<open>Lemmas on the median\<close>

lemma length_filter_sorted:
  assumes "sorted (map f s)" and "k < length s"
  shows "k + 1 \<le> length (filter (\<lambda>x. f x \<le> f (s ! k)) s)" and "length s - k \<le> length (filter (\<lambda>x. f (s ! k) \<le> f x) s)"
proof -
  have le: "f (s ! i) \<le> f (s ! j)" if "i \<le> j" "j < length s" for i j
    using sorted_nth_mono[OF assms(1), of i j] that by simp
  have "length (filter (\<lambda>x. f x \<le> f (s ! k)) (take (Suc k) s)) = Suc k"
    using assms(2) le by (subst filter_True) (auto simp: in_set_conv_nth)
  moreover have "length (filter (\<lambda>x. f x \<le> f (s ! k)) s) =
      length (filter (\<lambda>x. f x \<le> f (s ! k)) (take (Suc k) s)) + length (filter (\<lambda>x. f x \<le> f (s ! k)) (drop (Suc k) s))"
    by (metis append_take_drop_id filter_append length_append)
  ultimately show "k + 1 \<le> length (filter (\<lambda>x. f x \<le> f (s ! k)) s)" by simp
  have "length (filter (\<lambda>x. f (s ! k) \<le> f x) (drop k s)) = length s - k"
    using le by (subst filter_True) (auto simp: in_set_conv_nth)
  moreover have "length (filter (\<lambda>x. f (s ! k) \<le> f x) s) =
      length (filter (\<lambda>x. f (s ! k) \<le> f x) (take k s)) + length (filter (\<lambda>x. f (s ! k) \<le> f x) (drop k s))"
    by (metis append_take_drop_id filter_append length_append)
  ultimately show "length s - k \<le> length (filter (\<lambda>x. f (s ! k) \<le> f x) s)" by simp
qed

lemma length_filter_mono:
  "(\<And>x. P x \<Longrightarrow> Q x) \<Longrightarrow> length (filter P xs) \<le> length (filter Q xs)"
  by (induction xs) auto

lemma length_filter_mset: "mset xs = mset ys \<Longrightarrow> length (filter P xs) = length (filter P ys)"
  by (metis mset_filter size_mset)

lemma sdiv2_between:
  fixes a b :: int
  assumes "a \<le> b"
  shows "a \<le> (a + b) sdiv 2" and "(a + b) sdiv 2 \<le> b"
proof -
  show "a \<le> (a + b) sdiv 2" using assms
    by (cases "a + b = 0") (auto simp: signed_divide_int_def sgn_if)
  show "(a + b) sdiv 2 \<le> b" using assms
    by (cases "a + b = 0") (auto simp: signed_divide_int_def sgn_if)
qed

text \<open>The average of two amounts that are not too large lies between them.\<close>

lemma go_average:
  fixes a b :: "64 word"
  assumes "sint a \<le> sint b" and "\<bar>sint a\<bar> < 2 ^ 62" and "\<bar>sint b\<bar> < 2 ^ 62"
  shows "sint a \<le> sint (go_div64 (a + b) 2)" and "sint (go_div64 (a + b) 2) \<le> sint b"
proof -
  have s: "sint (a + b) = sint a + sint b"
    using assms(2,3) by (subst sint_word_ariths) (simp add: signed_take_bit_int_eq_self)
  note B = sdiv2_between[OF assms(1)]
  have "sint (go_div64 (a + b) 2) = (sint a + sint b) sdiv 2"
    using B assms(2,3) wrap64_id[of "(sint a + sint b) sdiv 2"] by (simp add: go_div64_def s wrap64_def)
  then show "sint a \<le> sint (go_div64 (a + b) 2)" "sint (go_div64 (a + b) 2) \<le> sint b" using B by simp_all
qed

subsection \<open>Lemmas on subsidies\<close>

lemma sum_interval_split:
  fixes f :: "int \<Rightarrow> 'b::comm_monoid_add"
  assumes "a \<le> b" and "b \<le> c"
  shows "(\<Sum>h \<in> {a..<c}. f h) = (\<Sum>h \<in> {a..<b}. f h) + (\<Sum>h \<in> {b..<c}. f h)"
proof -
  have "{a..<c} = {a..<b} \<union> {b..<c}" using assms by auto
  then show ?thesis by (simp add: sum.union_disjoint)
qed

lemma sum_interval_const:
  fixes v :: "'w::len word"
  assumes "\<And>h. a \<le> h \<Longrightarrow> h < b \<Longrightarrow> f h = v" and "a \<le> b"
  shows "(\<Sum>h \<in> {a..<b}. f h) = v * word_of_int (b - a)"
proof -
  have "(\<Sum>h \<in> {a..<b}. f h) = (\<Sum>h \<in> {a..<b}. v)" by (rule sum.cong) (use assms(1) in auto)
  also have "\<dots> = of_nat (nat (b - a)) * v" by simp
  also have "(of_nat (nat (b - a)) :: 'w word) = word_of_int (b - a)"
    using assms(2) by (metis diff_ge_0_iff_ge int_nat_eq of_int_of_nat_eq)
  also have "word_of_int (b - a) * v = v * word_of_int (b - a)" by (rule mult.commute)
  finally show ?thesis .
qed

text \<open>A network whose subsidies change only at the start of an interval, and end with the interval \<open>n\<close>.\<close>

definition steppedSubsidy :: "subsidyParams \<Rightarrow> int \<Rightarrow> bool" where
  "steppedSubsidy sp n \<longleftrightarrow>
     (let r = spReductionInterval sp; v = spStakeValidationHeight sp in
      2 \<le> v \<and> v \<le> r \<and> 1 \<le> n \<and>
      (\<forall>h. 2 \<le> h \<and> h < v \<longrightarrow> subsidySum sp h = subsidySum sp 2) \<and>
      (\<forall>h. v \<le> h \<and> h < r \<longrightarrow> subsidySum sp h = subsidySum sp v) \<and>
      (\<forall>i h. 1 \<le> i \<and> i < n \<and> i * r \<le> h \<and> h < (i + 1) * r \<longrightarrow> subsidySum sp h = subsidySum sp (i * r)) \<and>
      (\<forall>i. 1 \<le> i \<and> i < n \<longrightarrow> subsidySum sp (i * r) \<noteq> 0) \<and> subsidySum sp (n * r) = 0)"

lemma ultimateLoop_rest:
  assumes "steppedSubsidy sp n" and "1 \<le> i" and "i \<le> n"
  shows "ultimateLoop sp i acc =
    Some (acc + (\<Sum>h \<in> {i * spReductionInterval sp..<n * spReductionInterval sp}. subsidySum sp h))"
  using assms(2,3)
proof (induction "nat (n - i)" arbitrary: i acc)
  case 0
  then have "i = n" by simp
  then show ?case using assms by (subst ultimateLoop.simps) (simp add: steppedSubsidy_def Let_def)
next
  case (Suc k)
  let ?r = "spReductionInterval sp"
  have i: "1 \<le> i" "i < n" using Suc.prems Suc.hyps(2) by simp_all
  have r: "0 \<le> ?r" using assms(1) by (simp add: steppedSubsidy_def Let_def)
  have S: "subsidySum sp (i * ?r) \<noteq> 0"
    and c: "\<And>h. i * ?r \<le> h \<Longrightarrow> h < (i + 1) * ?r \<Longrightarrow> subsidySum sp h = subsidySum sp (i * ?r)"
    using assms(1) i unfolding steppedSubsidy_def Let_def by blast+
  have le: "i * ?r \<le> (i + 1) * ?r" "(i + 1) * ?r \<le> n * ?r" using r i by (auto intro: mult_right_mono)
  have seg: "(\<Sum>h \<in> {i * ?r..<(i + 1) * ?r}. subsidySum sp h) = subsidySum sp (i * ?r) * word_of_int ?r"
    using sum_interval_const[OF c le(1)] by (simp add: distrib_right)
  have "ultimateLoop sp i acc = ultimateLoop sp (i + 1) (acc + subsidySum sp (i * ?r) * word_of_int ?r)"
    using S i by (subst ultimateLoop.simps) (simp add: Let_def)
  also have "\<dots> = Some (acc + subsidySum sp (i * ?r) * word_of_int ?r + (\<Sum>h \<in> {(i + 1) * ?r..<n * ?r}. subsidySum sp h))"
    by (rule Suc.hyps(1)) (use Suc.hyps(2) i in simp_all)
  also have "\<dots> = Some (acc + (\<Sum>h \<in> {i * ?r..<n * ?r}. subsidySum sp h))"
    unfolding sum_interval_split[OF le] seg by (simp add: add.assoc)
  finally show ?case .
qed

subsection \<open>Properties\<close>

text \<open>Example data: a mix of three equal outputs, and a network with two intervals of ten blocks.\<close>

definition exOut :: "64 word \<Rightarrow> TxOut" where
  "exOut v = \<lparr>toValue = v, toVersion = 0, toPkScript = []\<rparr>"

definition exMix :: "unit MsgTx" where
  "exMix = \<lparr>mtTxIn = replicate 3 \<lparr>tiPrevOut = \<lparr>opHash = 1, opIndex = 0, opTree = 0\<rparr>, tiValueIn = 0\<rparr>,
     mtTxOut = [exOut (2 ^ 18), exOut (2 ^ 18), exOut 5, exOut (2 ^ 18)], mtHash = 2,
     mtType = TxTypeRegular, mtSize = 300, mtRest = ()\<rparr>"

definition exSubsidy :: subsidyParams where
  "exSubsidy = \<lparr>spVotesPerBlock = 5, spStakeValidationHeight = 4, spReductionInterval = 10, spBlockOneSubsidy = 100,
     spCalcWorkSubsidy = (\<lambda>h _. if h < 10 then 6 else if h < 20 then 3 else 0),
     spCalcStakeVoteSubsidy = (\<lambda>h. if h < 4 then 0 else if h < 20 then 1 else 0),
     spCalcTreasurySubsidy = (\<lambda>h _. 0)\<rparr>"

text \<open>IsMixTx finds the largest mixed denomination. For any order of the map, a transaction with at least three
  inputs and outputs is judged by the denominations of which it has three outputs or more: without one
  it is no mix; otherwise the result has the largest one, the number of its outputs, and is a mix
  exactly if these are at least half of the outputs.\<close>

theorem IsMixTx_spec:
  assumes "\<forall>m. set (ord m) = set m" and "length (mtTxOut tx) < 2 ^ 32"
    and "3 \<le> length (mtTxOut tx)" and "3 \<le> length (mtTxIn tx)"
  shows "if \<forall>v \<in> set splitPoints. countOut v (mtTxOut tx) < 3 then IsMixTx ord tx = (False, 0, 0)
    else \<exists>v \<in> set splitPoints. 3 \<le> countOut v (mtTxOut tx) \<and>
      (\<forall>w \<in> set splitPoints. 3 \<le> countOut w (mtTxOut tx) \<longrightarrow> sint w \<le> sint v) \<and>
      IsMixTx ord tx =
        (length (mtTxOut tx) div 2 \<le> countOut v (mtTxOut tx), v, of_nat (countOut v (mtTxOut tx)))"
proof -
  let ?outs = "mtTxOut tx"
  let ?m = "mixedOuts ?outs []"
  let ?n = "\<lambda>v. countOut v ?outs"
  have small: "?n v < 2 ^ 32" for v
    using assms(2) length_filter_le[of "\<lambda>out. toValue out = v" ?outs] unfolding countOut_def by linarith
  have d: "distinct (map fst ?m)" by (rule mixedOuts_distinct) simp
  have entry: "(v, c) \<in> set ?m \<longleftrightarrow> v \<in> set splitPoints \<and> 0 < ?n v \<and> c = of_nat (?n v)" for v c
  proof -
    have "map_of ?m v = (if v \<in> set splitPoints \<and> 0 < ?n v then Some (of_nat (?n v)) else None)"
      using mixedOuts_map[of ?outs "[]" v] by simp
    then show ?thesis unfolding map_of_eq_Some_iff[OF d, symmetric] by auto
  qed
  have three: "3 \<le> (of_nat (?n v) :: 32 word) \<longleftrightarrow> 3 \<le> ?n v" for v
    using of_nat_word_le[where 'w = 32, of 3 "?n v"] small by simp
  obtain v c where r: "mixLoop (ord ?m) 0 0 = (v, c)" by fastforce
  have R: "(v, c) = (0, 0) \<or> (v, c) \<in> set ?m \<and> 3 \<le> c \<and> 0 < sint v"
    "\<And>w k. (w, k) \<in> set ?m \<Longrightarrow> 3 \<le> k \<Longrightarrow> sint w \<le> sint v"
    using mixLoop_spec[OF r] assms(1) by auto
  have i: "IsMixTx ord tx = (of_nat (length ?outs div 2) \<le> c, v, c)"
    using assms(3,4) r by (simp add: IsMixTx_def)
  have half: "of_nat (length ?outs div 2) \<le> (of_nat k :: 32 word) \<longleftrightarrow> length ?outs div 2 \<le> k" if "k < 2 ^ 32" for k
    using of_nat_word_le[where 'w = 32, of "length ?outs div 2" k] assms(2) that by simp
  show ?thesis
  proof (cases "\<forall>v \<in> set splitPoints. ?n v < 3")
    case True
    then have "(v, c) = (0, 0)" using R(1) entry three by (metis not_le)
    then show ?thesis using True i half[of 0] assms(3) by auto
  next
    case False
    then obtain w where w: "w \<in> set splitPoints" "3 \<le> ?n w" by (auto simp: not_less)
    then have "(w, of_nat (?n w)) \<in> set ?m" using entry by simp
    then have "sint w \<le> sint v" using R(2) w three by blast
    then have "v \<noteq> 0" using splitPoints_pos[OF w(1)] by auto
    then have "(v, c) \<in> set ?m" "3 \<le> c" using R(1) by auto
    then have v: "v \<in> set splitPoints" "c = of_nat (?n v)" "3 \<le> ?n v" using entry three by auto
    have "sint w \<le> sint v" if "w \<in> set splitPoints" "3 \<le> ?n w" for w
      using R(2)[of w "of_nat (?n w)"] that entry three by simp
    then show ?thesis
      using v i half[OF small] unfolding if_not_P[OF False] by (intro bexI[of _ v]) auto
  qed
qed

theorem IsMixTx_spec_witness: "IsMixTx rev exMix = (True, 2 ^ 18, 3)"
proof -
  have c: "countOut v (mtTxOut exMix) = (if v = 2 ^ 18 then 3 else if v = 5 then 1 else 0)" for v
    by (simp add: countOut_def exMix_def exOut_def)
  have "(2 ^ 18 :: 64 word) \<in> set splitPoints" by (simp add: splitPoints_def)
  then have "\<not> (\<forall>v \<in> set splitPoints. countOut v (mtTxOut exMix) < 3)" unfolding c by (auto intro!: bexI[of _ "2 ^ 18"])
  moreover have "length (mtTxOut exMix) = 4" "length (mtTxIn exMix) = 3" by (simp_all add: exMix_def)
  ultimately show ?thesis
    using IsMixTx_spec[of rev exMix] unfolding c by (auto split: if_splits)
qed

text \<open>MedianAmount is a median and does not depend on the order. If no amount reaches 2^62, at least half of the
  amounts are not above the result and at least half are not below it, and a slice with the same
  amounts in another order has the same median.\<close>

theorem MedianAmount_median:
  assumes "s \<noteq> []" and "\<forall>x \<in> set s. \<bar>sint x\<bar> < 2 ^ 62" and "mset t = mset s"
  shows "length s \<le> 2 * length (filter (\<lambda>x. sint x \<le> sint (fst (MedianAmount s))) s) \<and>
    length s \<le> 2 * length (filter (\<lambda>x. sint (fst (MedianAmount s)) \<le> sint x) s) \<and>
    fst (MedianAmount t) = fst (MedianAmount s)"
proof -
  let ?s = "sort_key sint s" and ?m = "fst (MedianAmount s)" and ?n = "length s"
  have sorted: "sorted (map sint ?s)" by simp
  have len: "length ?s = ?n" by simp
  have P: "length (filter P ?s) = length (filter P s)" for P by (rule length_filter_mset) simp
  have "sort_key sint t = ?s"
  proof (rule properties_for_sort_key)
    show "mset ?s = mset t" using assms(3) by simp
    show "filter (\<lambda>x. sint k = sint x) ?s = filter (\<lambda>x. sint k = sint x) t" for k :: "64 word"
    proof -
      have "(\<lambda>x. sint k = sint x) = (=) k" by (rule ext) (metis word_eq_iff_signed)
      then have f: "filter (\<lambda>x. sint k = sint x) xs = replicate (count (mset xs) k) k" for xs :: "64 word list"
        by (metis replicate_count_mset_eq_filter_eq)
      show ?thesis using assms(3) unfolding f by simp
    qed
  qed simp
  then have same: "fst (MedianAmount t) = ?m"
    using assms(1,3) by (auto simp: MedianAmount_def Let_def)
  have "?n \<le> 2 * length (filter (\<lambda>x. sint x \<le> sint ?m) ?s) \<and> ?n \<le> 2 * length (filter (\<lambda>x. sint ?m \<le> sint x) ?s)"
  proof (cases "?n mod 2 = 0")
    case False
    then have m: "?m = ?s ! (?n div 2)" using assms(1) by (simp add: MedianAmount_def Let_def)
    have k: "?n div 2 < length ?s" using assms(1) by simp
    show ?thesis using length_filter_sorted[OF sorted k, folded m] False by simp presburger
  next
    case True
    let ?k = "?n div 2"
    have k: "?k < length ?s" "?k - 1 < length ?s" "0 < ?k" using assms(1) True by (cases s; auto)+
    let ?a = "?s ! (?k - 1)" and ?b = "?s ! ?k"
    have m: "?m = go_div64 (?b + ?a) 2" using assms(1) True by (simp add: MedianAmount_def Let_def)
    have ab: "sint ?a \<le> sint ?b" using sorted_nth_mono[OF sorted, of "?k - 1" ?k] k by simp
    have "?a \<in> set s" "?b \<in> set s" using nth_mem[OF k(2)] nth_mem[OF k(1)] by simp_all
    then have small: "\<bar>sint ?a\<bar> < 2 ^ 62" "\<bar>sint ?b\<bar> < 2 ^ 62" using assms(2) by blast+
    have am: "sint ?a \<le> sint ?m" and mb: "sint ?m \<le> sint ?b"
      using go_average[OF ab small] unfolding m by (simp_all add: add.commute)
    have "?k - 1 + 1 \<le> length (filter (\<lambda>x. sint x \<le> sint ?a) ?s)" by (rule length_filter_sorted(1)[OF sorted k(2)])
    also have "\<dots> \<le> length (filter (\<lambda>x. sint x \<le> sint ?m) ?s)" by (rule length_filter_mono) (use am in simp)
    finally have low: "?k \<le> length (filter (\<lambda>x. sint x \<le> sint ?m) ?s)" using k(3) by simp
    have "length ?s - ?k \<le> length (filter (\<lambda>x. sint ?b \<le> sint x) ?s)" by (rule length_filter_sorted(2)[OF sorted k(1)])
    also have "\<dots> \<le> length (filter (\<lambda>x. sint ?m \<le> sint x) ?s)" by (rule length_filter_mono) (use mb in simp)
    finally show ?thesis using low True by simp presburger
  qed
  then show ?thesis unfolding P using same by simp
qed

theorem MedianAmount_median_witness:
  "fst (MedianAmount [4, 1, 3]) = fst (MedianAmount [1, 3, 4 :: 64 word])"
  using MedianAmount_median[of "[1, 3, 4]" "[4, 1, 3]"] by simp

text \<open>UltimateSubsidy ends and sums up all subsidies. On a network whose block subsidy changes only where voting
  starts and at the start of a reduction interval, and is zero from some interval on, the first call
  returns the subsidy of block one plus those of all blocks from block 2 to the last one with a
  subsidy, and stores it; a second call returns the same.\<close>

theorem UltimateSubsidy_sum:
  assumes "steppedSubsidy (paramsOf p) n" and "store p = None"
  shows "\<exists>total. total = spBlockOneSubsidy (paramsOf p) +
      (\<Sum>h \<in> {2..<n * spReductionInterval (paramsOf p)}. subsidySum (paramsOf p) h) \<and>
    UltimateSubsidy paramsOf p store = Some (total, store(p \<mapsto> total)) \<and>
    UltimateSubsidy paramsOf p (store(p \<mapsto> total)) = Some (total, store(p \<mapsto> total))"
proof -
  let ?sp = "paramsOf p"
  let ?r = "spReductionInterval ?sp" and ?v = "spStakeValidationHeight ?sp"
  let ?S = "subsidySum ?sp"
  have H: "2 \<le> ?v" "?v \<le> ?r" "1 \<le> n" "\<And>h. 2 \<le> h \<Longrightarrow> h < ?v \<Longrightarrow> ?S h = ?S 2"
    "\<And>h. ?v \<le> h \<Longrightarrow> h < ?r \<Longrightarrow> ?S h = ?S ?v"
    using assms(1) unfolding steppedSubsidy_def Let_def by blast+
  have "1 * ?r \<le> n * ?r" using H(1-3) by (intro mult_right_mono) simp_all
  then have le: "2 \<le> ?r" "?r \<le> n * ?r" using H(1,2) by simp_all
  have "ultimateLoop ?sp 0 (spBlockOneSubsidy ?sp) =
      Some (spBlockOneSubsidy ?sp + ?S 2 * word_of_int (?v - 2) + ?S ?v * word_of_int (?r - ?v) + (\<Sum>h \<in> {?r..<n * ?r}. ?S h))"
    using ultimateLoop_rest[OF assms(1), of 1] H(3) by (subst ultimateLoop.simps) simp
  also have "?S 2 * word_of_int (?v - 2) = (\<Sum>h \<in> {2..<?v}. ?S h)"
    by (rule sum_interval_const[OF H(4) H(1), symmetric])
  also have "?S ?v * word_of_int (?r - ?v) = (\<Sum>h \<in> {?v..<?r}. ?S h)"
    by (rule sum_interval_const[OF H(5) H(2), symmetric])
  also have "Some (spBlockOneSubsidy ?sp + (\<Sum>h \<in> {2..<?v}. ?S h) + (\<Sum>h \<in> {?v..<?r}. ?S h) + (\<Sum>h \<in> {?r..<n * ?r}. ?S h)) =
      Some (spBlockOneSubsidy ?sp + (\<Sum>h \<in> {2..<n * ?r}. ?S h))"
    unfolding sum_interval_split[OF le, of ?S] sum_interval_split[OF H(1,2), of ?S] by (simp only: add.assoc)
  finally show ?thesis by (simp add: UltimateSubsidy_def assms(2))
qed

theorem UltimateSubsidy_sum_witness:
  "\<exists>total. UltimateSubsidy (\<lambda>_::unit. exSubsidy) () Map.empty = Some (total, [() \<mapsto> total])"
proof -
  have i: "i = 1" if "1 \<le> i \<and> i < 2" for i :: int using that by simp
  have "steppedSubsidy exSubsidy 2"
    unfolding steppedSubsidy_def Let_def
    by (auto simp: exSubsidy_def subsidySum_def dest!: i)
  from UltimateSubsidy_sum[of "\<lambda>_. exSubsidy" "()" 2 Map.empty, OF this] show ?thesis by auto
qed

end
