(* ===== verification/StakeDb.thy ===== *)
theory StakeDb
  imports TicketPool TxHelpers WaitingRoom BlockQueue
begin

text \<open>
  The stake database of \<open>stakedb/stakedb.go\<close>: the best stake node, the cache of the live tickets with
  their values and the pool value, the pool information cache, the ticket pool of \<open>TicketPool.thy\<close>, and the
  waiters for heights. Blocks are connected and disconnected at the tip.

  The packages \<open>stake\<close> and \<open>database\<close> of the node and the RPC client are a parameter, the record
  \<open>stakeEnv\<close>: \<open>'n\<close> is a stake node, \<open>'d\<close> the stake database file, \<open>'b\<close> the database of the ticket pool. An
  error is its text. The database is open, so that there is a best node. Each method is one step: the
  mutexes are not modelled, nor is the moment between reading the height and registering in
  \<open>WaitForHeight\<close>. A panic of the source is \<open>Panic\<close>.
\<close>

subsection \<open>The pool information cache\<close>

record 'p PoolInfoCache =
  piPoolInfo :: "Hash \<rightharpoonup> 'p"
  piExpireQueue :: "Hash list"
  piMaxSize :: int

definition NewPoolInfoCache :: "int \<Rightarrow> string + 'p PoolInfoCache" where
  "NewPoolInfoCache capacity =
     (if capacity < 2 then Inl ''size is less than 2''
      else Inr \<lparr>piPoolInfo = Map.empty, piExpireQueue = [], piMaxSize = capacity\<rparr>)"

definition piGet :: "Hash \<Rightarrow> 'p PoolInfoCache \<Rightarrow> 'p option" where
  "piGet hash c = piPoolInfo c hash"

definition piSet :: "Hash \<Rightarrow> 'p \<Rightarrow> 'p PoolInfoCache \<Rightarrow> 'p PoolInfoCache go" where
  "piSet hash p c =
     (let c1 = c\<lparr>piPoolInfo := (piPoolInfo c)(hash \<mapsto> p)\<rparr> in
      if int (length (piExpireQueue c1)) + 1 \<ge> piMaxSize c1 then
        (case piExpireQueue c1 of
           [] \<Rightarrow> Panic
         | expireHash # q \<Rightarrow>
             Ret (c1\<lparr>piExpireQueue := q @ [hash], piPoolInfo := (piPoolInfo c1)(expireHash := None)\<rparr>))
      else Ret (c1\<lparr>piExpireQueue := piExpireQueue c1 @ [hash]\<rparr>))"

fun expireLoop :: "int \<Rightarrow> Hash list \<Rightarrow> (Hash \<rightharpoonup> 'p) \<Rightarrow> Hash list \<times> (Hash \<rightharpoonup> 'p)" where
  "expireLoop capacity [] m = ([], m)"
| "expireLoop capacity (expireHash # q) m =
     (if int (length (expireHash # q)) \<ge> capacity then expireLoop capacity q (m(expireHash := None))
      else (expireHash # q, m))"

text \<open>The loop ends before the queue is empty, since the size is at least 2.\<close>

definition SetCapacity :: "int \<Rightarrow> 'p PoolInfoCache \<Rightarrow> string option \<times> 'p PoolInfoCache" where
  "SetCapacity capacity c =
     (if capacity < 2 then (Some ''size is less than 2'', c)
      else
        let (q, m) = expireLoop capacity (piExpireQueue c) (piPoolInfo c)
        in (None, c\<lparr>piMaxSize := capacity, piExpireQueue := q, piPoolInfo := m\<rparr>))"

subsection \<open>The environment and the database\<close>

record 'x StakeBlock =
  sbHash :: Hash
  sbHeight :: int
  sbTxs :: "'x TxBlock"

record ('x, 'n, 'd, 'b, 'f) stakeEnv =
  seMaturity :: int
  seGetBlock :: "Hash \<Rightarrow> string + 'x StakeBlock"
  seBlockAt :: "int \<Rightarrow> string + 'x StakeBlock"
  seGetTx :: "Hash \<Rightarrow> string + 'x MsgTx"
  sePrevBlock :: "Hash \<Rightarrow> string + Hash"
  seHeaderHeight :: "Hash \<Rightarrow> string + 32 word"
  seHeight :: "'n \<Rightarrow> 32 word"
  seWinners :: "'n \<Rightarrow> Hash list"
  seExpiredByBlock :: "'n \<Rightarrow> Hash list"
  sePoolSize :: "'n \<Rightarrow> int"
  seLiveTickets :: "'n \<Rightarrow> Hash list"
  seConnectNode :: "'n \<Rightarrow> 'x StakeBlock \<Rightarrow> Hash list \<Rightarrow> Hash list \<Rightarrow> Hash list \<Rightarrow> string + 'n option"
  seDisconnectNode :: "'n \<Rightarrow> 'x StakeBlock \<Rightarrow> 'd \<Rightarrow> string + 'n option"
  seWriteConnected :: "'n \<Rightarrow> Hash \<Rightarrow> 'd \<Rightarrow> string option \<times> 'd"
  seWriteDisconnected :: "'n \<Rightarrow> Hash \<Rightarrow> 'n \<Rightarrow> 'd \<Rightarrow> string option \<times> 'd"
  seDbState :: "'d \<Rightarrow> string + 32 word \<times> Hash"
  seDbSet :: "'b dbSet"
  seToCoin :: "64 word \<Rightarrow> 'f"
  seAverage :: "'f \<Rightarrow> int \<Rightarrow> 'f"
  seZero :: 'f
  sePrint :: "Hash \<Rightarrow> string"

record ('x, 'n, 'd, 'b, 'f) StakeDatabase =
  sdBestNode :: 'n
  sdStakeDB :: 'd
  sdBlockCache :: "int \<rightharpoonup> 'x StakeBlock"
  sdLiveTicketCache :: "Hash \<rightharpoonup> 64 word"
  sdPoolValue :: "64 word"
  sdPoolInfo :: "'f TicketPoolInfo PoolInfoCache"
  sdPoolDB :: "'b TicketPool"
  sdHeightWaiters :: "int \<rightharpoonup> nat list"
  sdChans :: nat
  sdSent :: "(nat \<times> int \<times> Hash option) list"

datatype stakeError =
    RpcFailed string
  | CannotConnect int int
  | ConnectFailed string
  | NoConnectNode
  | StakeDbFailed string
  | PoolDbFailed tpError
  | DisconnectFailed string
  | NoDisconnectNode
  | HeightMismatch int int

text \<open>A method may panic; otherwise it has an error (\<open>None\<close> is nil) and the new state.\<close>

type_synonym ('x, 'n, 'd, 'b, 'f) sdResult = "(stakeError option \<times> ('x, 'n, 'd, 'b, 'f) StakeDatabase) go"

definition sdHeight :: "('x, 'n, 'd, 'b, 'f) stakeEnv \<Rightarrow> ('x, 'n, 'd, 'b, 'f) StakeDatabase \<Rightarrow> int" where
  "sdHeight env db = uint (seHeight env (sdBestNode db))"

subsection \<open>Live tickets\<close>

text \<open>The value of a ticket is that of its first output; \<open>GetRawTransaction\<close> may fail, the index may panic.\<close>

definition ticketValue :: "('x, 'n, 'd, 'b, 'f) stakeEnv \<Rightarrow> Hash \<Rightarrow> (string + 64 word) go" where
  "ticketValue env hash =
     (case seGetTx env hash of
        Inl e \<Rightarrow> Ret (Inl e)
      | Inr tx \<Rightarrow> (case mtTxOut tx of [] \<Rightarrow> Panic | out # _ \<Rightarrow> Ret (Inr (toValue out))))"

type_synonym liveTickets = "(Hash \<rightharpoonup> 64 word) \<times> 64 word"

fun addTickets ::
    "('x, 'n, 'd, 'b, 'f) stakeEnv \<Rightarrow> Hash list \<Rightarrow> liveTickets \<Rightarrow> liveTickets go" where
  "addTickets env [] lt = Ret lt"
| "addTickets env (hash # hashes) (live, poolValue) =
     (if live hash \<noteq> None then addTickets env hashes (live, poolValue)
      else case ticketValue env hash of
        Panic \<Rightarrow> Panic
      | Ret (Inl _) \<Rightarrow> addTickets env hashes (live, poolValue)
      | Ret (Inr val) \<Rightarrow> addTickets env hashes (live(hash \<mapsto> val), poolValue + val))"

fun removeTickets :: "Hash list \<Rightarrow> liveTickets \<Rightarrow> liveTickets" where
  "removeTickets [] lt = lt"
| "removeTickets (h # hashes) (live, poolValue) =
     (case live h of
        None \<Rightarrow> removeTickets hashes (live, poolValue)
      | Some valOut \<Rightarrow> removeTickets hashes (live(h := None), poolValue - valOut))"

definition sdApplyDiff ::
    "('x, 'n, 'd, 'b, 'f) stakeEnv \<Rightarrow> PoolDiff \<Rightarrow> ('x, 'n, 'd, 'b, 'f) StakeDatabase
     \<Rightarrow> ('x, 'n, 'd, 'b, 'f) StakeDatabase go" where
  "sdApplyDiff env poolDiff db =
     (case addTickets env (In poolDiff) (sdLiveTicketCache db, sdPoolValue db) of
        Panic \<Rightarrow> Panic
      | Ret lt \<Rightarrow>
          let (live, poolValue) = removeTickets (Out poolDiff) lt
          in Ret (db\<lparr>sdLiveTicketCache := live, sdPoolValue := poolValue\<rparr>))"

definition undoDiff ::
    "('x, 'n, 'd, 'b, 'f) stakeEnv \<Rightarrow> PoolDiff \<Rightarrow> ('x, 'n, 'd, 'b, 'f) StakeDatabase
     \<Rightarrow> ('x, 'n, 'd, 'b, 'f) StakeDatabase go" where
  "undoDiff env poolDiff db = sdApplyDiff env \<lparr>In = Out poolDiff, Out = In poolDiff\<rparr> db"

text \<open>
  The loop of \<open>PopulateLiveTicketCache\<close> over the answers; the error is that of the last failure. The
  check that the node sent the transaction that was asked for may panic.
\<close>

fun populateLoop ::
    "('x, 'n, 'd, 'b, 'f) stakeEnv \<Rightarrow> Hash list \<Rightarrow> liveTickets \<Rightarrow> string option \<Rightarrow> (string option \<times> liveTickets) go" where
  "populateLoop env [] lt err = Ret (err, lt)"
| "populateLoop env (ticket # tickets) (live, poolValue) err =
     (case seGetTx env ticket of
        Inl e \<Rightarrow> populateLoop env tickets (live, poolValue) (Some e)
      | Inr tx \<Rightarrow>
          if mtHash tx \<noteq> ticket then Panic
          else case mtTxOut tx of
            [] \<Rightarrow> Panic
          | out # _ \<Rightarrow> populateLoop env tickets (live(ticket \<mapsto> toValue out), poolValue + toValue out) err)"

definition PopulateLiveTicketCache ::
    "('x, 'n, 'd, 'b, 'f) stakeEnv \<Rightarrow> ('x, 'n, 'd, 'b, 'f) StakeDatabase \<Rightarrow> ('x, 'n, 'd, 'b, 'f) sdResult" where
  "PopulateLiveTicketCache env db =
     (case populateLoop env (seLiveTickets env (sdBestNode db)) (Map.empty, 0) None of
        Panic \<Rightarrow> Panic
      | Ret (err, live, poolValue) \<Rightarrow>
          Ret (map_option RpcFailed err, db\<lparr>sdLiveTicketCache := live, sdPoolValue := poolValue\<rparr>))"

subsection \<open>Blocks and waiters\<close>

definition BlockCached :: "int \<Rightarrow> ('x, 'n, 'd, 'b, 'f) StakeDatabase \<Rightarrow> 'x StakeBlock option" where
  "BlockCached ind db = sdBlockCache db ind"

text \<open>The block, if there is one, and whether it was cached.\<close>

definition sdBlock ::
    "('x, 'n, 'd, 'b, 'f) stakeEnv \<Rightarrow> int \<Rightarrow> ('x, 'n, 'd, 'b, 'f) StakeDatabase \<Rightarrow> 'x StakeBlock option \<times> bool" where
  "sdBlock env ind db =
     (case BlockCached ind db of
        Some block \<Rightarrow> (Some block, True)
      | None \<Rightarrow> (case seBlockAt env ind of Inl _ \<Rightarrow> (None, False) | Inr block \<Rightarrow> (Some block, False)))"

definition ForgetBlock :: "int \<Rightarrow> ('x, 'n, 'd, 'b, 'f) StakeDatabase \<Rightarrow> ('x, 'n, 'd, 'b, 'f) StakeDatabase" where
  "ForgetBlock ind db = db\<lparr>sdBlockCache := (sdBlockCache db)(ind := None)\<rparr>"

definition signalWaiters ::
    "int \<Rightarrow> Hash option \<Rightarrow> ('x, 'n, 'd, 'b, 'f) StakeDatabase \<Rightarrow> ('x, 'n, 'd, 'b, 'f) StakeDatabase" where
  "signalWaiters height blockhash db =
     db\<lparr>sdSent := sdSent db @ map (\<lambda>c. (c, height, blockhash)) (waitersAt (sdHeightWaiters db) height),
        sdHeightWaiters := (sdHeightWaiters db)(height := None)\<rparr>"

definition addWaiter :: "int \<Rightarrow> ('x, 'n, 'd, 'b, 'f) StakeDatabase \<Rightarrow> ('x, 'n, 'd, 'b, 'f) StakeDatabase" where
  "addWaiter height db =
     db\<lparr>sdChans := sdChans db + 1,
        sdHeightWaiters := (sdHeightWaiters db)(height \<mapsto> waitersAt (sdHeightWaiters db) height @ [sdChans db])\<rparr>"

definition sdWaitForHeight ::
    "('x, 'n, 'd, 'b, 'f) stakeEnv \<Rightarrow> int \<Rightarrow> ('x, 'n, 'd, 'b, 'f) StakeDatabase
     \<Rightarrow> (nat \<times> ('x, 'n, 'd, 'b, 'f) StakeDatabase) go" where
  "sdWaitForHeight env height db =
     (let dbHeight = sdHeight env db; waitChan = sdChans db in
      if dbHeight > height then
        Ret (waitChan, db\<lparr>sdChans := sdChans db + 1, sdSent := sdSent db @ [(waitChan, height, None)]\<rparr>)
      else if dbHeight = height then
        (case fst (sdBlock env height db) of
           None \<Rightarrow> Panic
         | Some block \<Rightarrow> Ret (waitChan, signalWaiters height (Some (sbHash block)) (addWaiter height db)))
      else Ret (waitChan, addWaiter height db))"

subsection \<open>Connecting\<close>

definition makePoolInfo ::
    "('x, 'n, 'd, 'b, 'f) stakeEnv \<Rightarrow> 64 word \<Rightarrow> int \<Rightarrow> Hash list \<Rightarrow> 32 word \<Rightarrow> 'f TicketPoolInfo" where
  "makePoolInfo env poolValue poolSize winningTickets height =
     (let poolCoin = seToCoin env poolValue;
          valAvg = (if poolSize > 0 then seAverage env poolCoin poolSize else seZero env)
      in \<lparr>tpiHeight = height, tpiSize = word_of_int poolSize, tpiValue = poolCoin, tpiValAvg = valAvg,
          tpiWinners = map (sePrint env) winningTickets\<rparr>)"

definition PoolInfoBest ::
    "('x, 'n, 'd, 'b, 'f) stakeEnv \<Rightarrow> ('x, 'n, 'd, 'b, 'f) StakeDatabase \<Rightarrow> 'f TicketPoolInfo" where
  "PoolInfoBest env db =
     makePoolInfo env (sdPoolValue db) (sePoolSize env (sdBestNode db)) (seWinners env (sdBestNode db))
       (seHeight env (sdBestNode db))"

definition connectBlock ::
    "('x, 'n, 'd, 'b, 'f) stakeEnv \<Rightarrow> 'x StakeBlock \<Rightarrow> Hash list \<Rightarrow> Hash list \<Rightarrow> Hash list
     \<Rightarrow> ('x, 'n, 'd, 'b, 'f) StakeDatabase \<Rightarrow> stakeError option \<times> ('x, 'n, 'd, 'b, 'f) StakeDatabase" where
  "connectBlock env block spent revoked maturing db =
     (case seConnectNode env (sdBestNode db) block spent revoked maturing of
        Inl e \<Rightarrow> (Some (ConnectFailed e), db)
      | Inr None \<Rightarrow> (Some NoConnectNode, db)
      | Inr (Some bestNode) \<Rightarrow>
          (case seWriteConnected env bestNode (sbHash block) (sdStakeDB db) of
             (err, d) \<Rightarrow> (map_option StakeDbFailed err, db\<lparr>sdBestNode := bestNode, sdStakeDB := d\<rparr>)))"

text \<open>The tickets that mature with the block: those of the block \<open>TicketMaturity\<close> before it.\<close>

definition maturingTickets ::
    "('x, 'n, 'd, 'b, 'f) stakeEnv \<Rightarrow> int \<Rightarrow> ('x, 'n, 'd, 'b, 'f) StakeDatabase
     \<Rightarrow> (Hash list \<times> ('x, 'n, 'd, 'b, 'f) StakeDatabase) go" where
  "maturingTickets env height db =
     (let maturingHeight = height - seMaturity env in
      if maturingHeight \<ge> 0 then
        (let (maturingBlock, wasCached) = sdBlock env maturingHeight db;
             db1 = (if wasCached then ForgetBlock maturingHeight db else db)
         in case maturingBlock of
              None \<Rightarrow> Panic
            | Some bl \<Rightarrow> Ret (fst (TicketsInBlock (sbTxs bl)), db1))
      else Ret ([], db))"

text \<open>
  The waiters are signalled when the function returns after the node was connected, by a goroutine that the
  model runs at once.
\<close>

definition ConnectBlock ::
    "('x, 'n, 'd, 'b, 'f) stakeEnv \<Rightarrow> 'x StakeBlock \<Rightarrow> ('x, 'n, 'd, 'b, 'f) StakeDatabase
     \<Rightarrow> ('x, 'n, 'd, 'b, 'f) sdResult" where
  "ConnectBlock env block db =
     (let height = sbHeight block in
      case maturingTickets env height db of
        Panic \<Rightarrow> Panic
      | Ret (maturing, db1) \<Rightarrow>
          let db2 = db1\<lparr>sdBlockCache := (sdBlockCache db1)(height \<mapsto> block)\<rparr> in
          case (RevokedTicketsInBlock (sbTxs block), TicketsSpentInBlock (sbTxs block)) of
            (Ret revokedTickets, Ret votedTickets) \<Rightarrow>
              let bestNodeHeight = sdHeight env db2 in
              if height \<le> bestNodeHeight then Ret (Some (CannotConnect height bestNodeHeight), db2)
              else
                let winners = seWinners env (sdBestNode db2) in
                (case connectBlock env block votedTickets revokedTickets maturing db2 of
                   (Some e, db3) \<Rightarrow> Ret (Some e, db3)
                 | (None, db3) \<Rightarrow>
                     let liveOut = winners @ seExpiredByBlock env (sdBestNode db3);
                         poolDiff = \<lparr>In = maturing, Out = liveOut\<rparr>
                     in case sdApplyDiff env poolDiff db3 of
                          Panic \<Rightarrow> Panic
                        | Ret db4 \<Rightarrow>
                            let pib = makePoolInfo env (sdPoolValue db4) (sePoolSize env (sdBestNode db4))
                                  (seWinners env (sdBestNode db4)) (word_of_int height)
                            in case piSet (sbHash block) pib (sdPoolInfo db4) of
                                 Panic \<Rightarrow> Panic
                               | Ret c \<Rightarrow>
                                   (case Append (seDbSet env) poolDiff (bestNodeHeight + 1) (sdPoolDB db4) of
                                      (err, tp) \<Rightarrow>
                                        Ret (map_option PoolDbFailed err,
                                          signalWaiters height (Some (sbHash block))
                                            (db4\<lparr>sdPoolInfo := c, sdPoolDB := tp\<rparr>))))
          | _ \<Rightarrow> Panic)"

text \<open>Here the block is a result too, nil if it could not be fetched.\<close>

definition ConnectBlockHash ::
    "('x, 'n, 'd, 'b, 'f) stakeEnv \<Rightarrow> Hash \<Rightarrow> ('x, 'n, 'd, 'b, 'f) StakeDatabase
     \<Rightarrow> ('x StakeBlock option \<times> stakeError option \<times> ('x, 'n, 'd, 'b, 'f) StakeDatabase) go" where
  "ConnectBlockHash env hash db =
     (case seGetBlock env hash of
        Inl e \<Rightarrow> Ret (None, Some (RpcFailed e), db)
      | Inr block \<Rightarrow>
          (case ConnectBlock env block db of Panic \<Rightarrow> Panic | Ret r \<Rightarrow> Ret (Some block, r)))"

subsection \<open>Disconnecting\<close>

definition dbState ::
    "('x, 'n, 'd, 'b, 'f) stakeEnv \<Rightarrow> ('x, 'n, 'd, 'b, 'f) StakeDatabase \<Rightarrow> string + 32 word \<times> Hash" where
  "dbState env db = seDbState env (sdStakeDB db)"

definition dbPrevBlock ::
    "('x, 'n, 'd, 'b, 'f) stakeEnv \<Rightarrow> ('x, 'n, 'd, 'b, 'f) StakeDatabase \<Rightarrow> stakeError + 'x StakeBlock" where
  "dbPrevBlock env db =
     (case dbState env db of
        Inl e \<Rightarrow> Inl (StakeDbFailed e)
      | Inr (_, hash) \<Rightarrow>
          (case sePrevBlock env hash of
             Inl e \<Rightarrow> Inl (RpcFailed e)
           | Inr prevBlock \<Rightarrow>
               (case seGetBlock env prevBlock of Inl e \<Rightarrow> Inl (RpcFailed e) | Inr block \<Rightarrow> Inr block)))"

text \<open>The loop that trims the ticket pool; it panics when the tip does not go down, so it ends.\<close>

function trimLoop :: "int \<Rightarrow> int \<Rightarrow> 'b TicketPool \<Rightarrow> PoolDiff list \<Rightarrow> (PoolDiff list \<times> 'b TicketPool) go" where
  "trimLoop parentHeight poolDBTip tp undoDiffs =
     (if poolDBTip > parentHeight
      then case Trim tp of
        (None, _) \<Rightarrow> Panic
      | (Some (newTip, d), tp') \<Rightarrow>
          if newTip \<ge> poolDBTip then Panic
          else trimLoop parentHeight newTip tp' (undoDiffs @ [d])
      else Ret (undoDiffs, tp))"
  by pat_completeness auto
termination
  by (relation "measure (\<lambda>(parentHeight, poolDBTip, tp, undoDiffs). nat (poolDBTip - parentHeight))") auto

declare trimLoop.simps [simp del]

fun undoLoop ::
    "('x, 'n, 'd, 'b, 'f) stakeEnv \<Rightarrow> PoolDiff list \<Rightarrow> ('x, 'n, 'd, 'b, 'f) StakeDatabase
     \<Rightarrow> ('x, 'n, 'd, 'b, 'f) StakeDatabase go" where
  "undoLoop env [] db = Ret db"
| "undoLoop env (d # ds) db = (case undoDiff env d db of Panic \<Rightarrow> Panic | Ret db' \<Rightarrow> undoLoop env ds db')"

text \<open>The error of serializing the header of the parent is one of \<open>seDisconnectNode\<close>.\<close>

definition disconnectBlock ::
    "('x, 'n, 'd, 'b, 'f) stakeEnv \<Rightarrow> bool \<Rightarrow> ('x, 'n, 'd, 'b, 'f) StakeDatabase \<Rightarrow> ('x, 'n, 'd, 'b, 'f) sdResult" where
  "disconnectBlock env neglectCache db =
     (let childHeight = sdHeight env db in
      case dbPrevBlock env db of
        Inl e \<Rightarrow> Ret (Some e, db)
      | Inr parentBlock \<Rightarrow>
          if sbHeight parentBlock \<noteq> childHeight - 1 then Panic
          else case trimLoop (sbHeight parentBlock) (tip (sdPoolDB db)) (sdPoolDB db) [] of
            Panic \<Rightarrow> Panic
          | Ret (undoDiffs, tp) \<Rightarrow>
              let db1 = db\<lparr>sdPoolDB := tp\<rparr> in
              case (if neglectCache then Ret db1 else undoLoop env undoDiffs db1) of
                Panic \<Rightarrow> Panic
              | Ret db2 \<Rightarrow>
                  (case seDisconnectNode env (sdBestNode db2) parentBlock (sdStakeDB db2) of
                     Inl e \<Rightarrow> Ret (Some (DisconnectFailed e), db2)
                   | Inr None \<Rightarrow> Ret (Some NoDisconnectNode, db2)
                   | Inr (Some parentStakeNode) \<Rightarrow>
                       (case seWriteDisconnected env parentStakeNode (sbHash parentBlock) (sdBestNode db2)
                               (sdStakeDB db2) of
                          (err, d) \<Rightarrow>
                            Ret (map_option StakeDbFailed err,
                              db2\<lparr>sdBestNode := parentStakeNode, sdStakeDB := d\<rparr>))))"

definition DisconnectBlock ::
    "('x, 'n, 'd, 'b, 'f) stakeEnv \<Rightarrow> bool \<Rightarrow> ('x, 'n, 'd, 'b, 'f) StakeDatabase \<Rightarrow> ('x, 'n, 'd, 'b, 'f) sdResult" where
  "DisconnectBlock env neglectCache db = disconnectBlock env neglectCache db"

text \<open>\<open>DisconnectBlocks\<close> with a negative count does nothing; the count is a \<open>nat\<close> here.\<close>

fun disconnectLoop ::
    "('x, 'n, 'd, 'b, 'f) stakeEnv \<Rightarrow> nat \<Rightarrow> ('x, 'n, 'd, 'b, 'f) StakeDatabase \<Rightarrow> ('x, 'n, 'd, 'b, 'f) sdResult" where
  "disconnectLoop env 0 db = Ret (None, db)"
| "disconnectLoop env (Suc n) db =
     (case disconnectBlock env False db of
        Panic \<Rightarrow> Panic
      | Ret (Some e, db') \<Rightarrow> Ret (Some e, db')
      | Ret (None, db') \<Rightarrow> disconnectLoop env n db')"

definition DisconnectBlocks ::
    "('x, 'n, 'd, 'b, 'f) stakeEnv \<Rightarrow> int \<Rightarrow> ('x, 'n, 'd, 'b, 'f) StakeDatabase \<Rightarrow> ('x, 'n, 'd, 'b, 'f) sdResult" where
  "DisconnectBlocks env numBlocks db = disconnectLoop env (nat numBlocks) db"

text \<open>A disconnected block leaves the ticket pool below the height the node had, whatever the environment does.\<close>

lemma Trim_tip: "Trim tp = (Some (t, d), tp') \<Longrightarrow> tip tp' = t"
  by (auto simp: Trim_def Let_def split: if_splits prod.splits)

lemma trimLoop_tip: "trimLoop h t tp ds = Ret (us, tp') \<Longrightarrow> t = tip tp \<Longrightarrow> tip tp' \<le> h"
proof (induction h t tp ds rule: trimLoop.induct)
  case (1 h t tp ds)
  show ?case
  proof (cases "t > h")
    case False
    with 1(2,3) show ?thesis by (subst (asm) trimLoop.simps) auto
  next
    case True
    with 1(2) obtain t' d tp1 where *: "Trim tp = (Some (t', d), tp1)" "\<not> t' \<ge> t"
      "trimLoop h t' tp1 (ds @ [d]) = Ret (us, tp')"
      by (auto simp: trimLoop.simps[of h t tp ds] split: prod.splits option.splits if_splits)
    show ?thesis
      by (rule 1(1)[OF True *(1)[symmetric] refl refl *(2,3)]) (simp add: Trim_tip[OF *(1)])
  qed
qed

lemma sdApplyDiff_pool: "sdApplyDiff env d db = Ret db' \<Longrightarrow>
  sdPoolDB db' = sdPoolDB db \<and> sdBestNode db' = sdBestNode db \<and> sdStakeDB db' = sdStakeDB db"
  by (auto simp: sdApplyDiff_def Let_def split: go.splits prod.splits)

lemma undoLoop_pool: "undoLoop env ds db = Ret db' \<Longrightarrow>
  sdPoolDB db' = sdPoolDB db \<and> sdBestNode db' = sdBestNode db \<and> sdStakeDB db' = sdStakeDB db"
  by (induction env ds db rule: undoLoop.induct) (auto simp: undoDiff_def split: go.splits dest: sdApplyDiff_pool)

lemma disconnectBlock_tip:
  assumes "disconnectBlock env n db = Ret (None, db')"
  shows "tip (sdPoolDB db') \<le> sdHeight env db - 1"
  using assms unfolding disconnectBlock_def Let_def
  by (auto split: sum.splits go.splits prod.splits option.splits if_splits dest!: trimLoop_tip undoLoop_pool)

text \<open>Therefore the loop of \<open>Rewind\<close>, which also checks that the two heights agree, ends.\<close>

function Rewind ::
    "('x, 'n, 'd, 'b, 'f) stakeEnv \<Rightarrow> int \<Rightarrow> bool \<Rightarrow> ('x, 'n, 'd, 'b, 'f) StakeDatabase \<Rightarrow> ('x, 'n, 'd, 'b, 'f) sdResult" where
  "Rewind env to neglectCache db =
     (if to < sdHeight env db
      then case DisconnectBlock env neglectCache db of
        Panic \<Rightarrow> Panic
      | Ret (Some e, db') \<Rightarrow> Ret (Some e, db')
      | Ret (None, db') \<Rightarrow>
          if tip (sdPoolDB db') \<noteq> sdHeight env db'
          then Ret (Some (HeightMismatch (sdHeight env db') (tip (sdPoolDB db'))), db')
          else Rewind env to neglectCache db'
      else Ret (None, db))"
  by pat_completeness auto
termination
  by (relation "measure (\<lambda>(env, to, neglectCache, db). nat (sdHeight env db - to))")
    (auto simp: DisconnectBlock_def dest!: disconnectBlock_tip)

declare Rewind.simps [simp del]

subsection \<open>Reading\<close>

definition SetPoolInfo ::
    "Hash \<Rightarrow> 'f TicketPoolInfo \<Rightarrow> ('x, 'n, 'd, 'b, 'f) StakeDatabase \<Rightarrow> ('x, 'n, 'd, 'b, 'f) StakeDatabase go" where
  "SetPoolInfo blockHash tpi db =
     (case piSet blockHash tpi (sdPoolInfo db) of Panic \<Rightarrow> Panic | Ret c \<Rightarrow> Ret (db\<lparr>sdPoolInfo := c\<rparr>))"

definition SetPoolCacheCapacity ::
    "int \<Rightarrow> ('x, 'n, 'd, 'b, 'f) StakeDatabase \<Rightarrow> string option \<times> ('x, 'n, 'd, 'b, 'f) StakeDatabase" where
  "SetPoolCacheCapacity capacity db =
     (case SetCapacity capacity (sdPoolInfo db) of (err, c) \<Rightarrow> (err, db\<lparr>sdPoolInfo := c\<rparr>))"

definition PoolInfo :: "Hash \<Rightarrow> ('x, 'n, 'd, 'b, 'f) StakeDatabase \<Rightarrow> 'f TicketPoolInfo option" where
  "PoolInfo hash db = piGet hash (sdPoolInfo db)"

definition PoolSize :: "('x, 'n, 'd, 'b, 'f) stakeEnv \<Rightarrow> ('x, 'n, 'd, 'b, 'f) StakeDatabase \<Rightarrow> int" where
  "PoolSize env db = sePoolSize env (sdBestNode db)"

definition PoolAtHeight ::
    "int \<Rightarrow> ('x, 'n, 'd, 'b, 'f) StakeDatabase \<Rightarrow> (tpError + Hash set) \<times> ('x, 'n, 'd, 'b, 'f) StakeDatabase" where
  "PoolAtHeight height db = (case Pool height (sdPoolDB db) of (r, tp) \<Rightarrow> (r, db\<lparr>sdPoolDB := tp\<rparr>))"

definition PoolAtHash ::
    "('x, 'n, 'd, 'b, 'f) stakeEnv \<Rightarrow> Hash \<Rightarrow> ('x, 'n, 'd, 'b, 'f) StakeDatabase
     \<Rightarrow> (stakeError + Hash set) \<times> ('x, 'n, 'd, 'b, 'f) StakeDatabase" where
  "PoolAtHash env hash db =
     (case seHeaderHeight env hash of
        Inl e \<Rightarrow> (Inl (RpcFailed e), db)
      | Inr height \<Rightarrow>
          (case PoolAtHeight (uint height) db of
             (Inl e, db') \<Rightarrow> (Inl (PoolDbFailed e), db')
           | (Inr tickets, db') \<Rightarrow> (Inr tickets, db')))"

definition DBTipBlock ::
    "('x, 'n, 'd, 'b, 'f) stakeEnv \<Rightarrow> ('x, 'n, 'd, 'b, 'f) StakeDatabase \<Rightarrow> stakeError + 'x StakeBlock" where
  "DBTipBlock env db =
     (case dbState env db of
        Inl e \<Rightarrow> Inl (StakeDbFailed e)
      | Inr (_, hash) \<Rightarrow> (case seGetBlock env hash of Inl e \<Rightarrow> Inl (RpcFailed e) | Inr block \<Rightarrow> Inr block))"

text \<open>The loop of \<open>calcPoolInfo\<close>, which also caches the values it had to fetch.\<close>

fun calcLoop ::
    "('x, 'n, 'd, 'b, 'f) stakeEnv \<Rightarrow> Hash list \<Rightarrow> liveTickets \<Rightarrow> liveTickets go" where
  "calcLoop env [] lt = Ret lt"
| "calcLoop env (hash # hashes) (live, poolValue) =
     (case live hash of
        Some val \<Rightarrow> calcLoop env hashes (live, poolValue + val)
      | None \<Rightarrow>
          (case ticketValue env hash of
             Panic \<Rightarrow> Panic
           | Ret (Inl _) \<Rightarrow> calcLoop env hashes (live, poolValue)
           | Ret (Inr val) \<Rightarrow> calcLoop env hashes (live(hash \<mapsto> val), poolValue + val)))"

definition calcPoolInfo ::
    "('x, 'n, 'd, 'b, 'f) stakeEnv \<Rightarrow> Hash list \<Rightarrow> Hash list \<Rightarrow> 32 word \<Rightarrow> ('x, 'n, 'd, 'b, 'f) StakeDatabase
     \<Rightarrow> ('f TicketPoolInfo \<times> ('x, 'n, 'd, 'b, 'f) StakeDatabase) go" where
  "calcPoolInfo env liveTickets winningTickets height db =
     (case calcLoop env liveTickets (sdLiveTicketCache db, 0) of
        Panic \<Rightarrow> Panic
      | Ret (live, poolValue) \<Rightarrow>
          Ret (makePoolInfo env poolValue (int (length liveTickets)) winningTickets height,
            db\<lparr>sdLiveTicketCache := live\<rparr>))"

subsection \<open>Recovery\<close>

text \<open>
  The value that both constructors make once \<open>Open\<close> has given a best node and a file, with the genesis
  block in the pool information cache.
\<close>

definition openedDatabase ::
    "('x, 'n, 'd, 'b, 'f) stakeEnv \<Rightarrow> Hash \<Rightarrow> 'n \<Rightarrow> 'd \<Rightarrow> 'b TicketPool \<Rightarrow> ('x, 'n, 'd, 'b, 'f) StakeDatabase" where
  "openedDatabase env genesisHash bestNode d poolDB =
     \<lparr>sdBestNode = bestNode, sdStakeDB = d, sdBlockCache = Map.empty, sdLiveTicketCache = Map.empty,
      sdPoolValue = 0,
      sdPoolInfo = \<lparr>piPoolInfo = [genesisHash \<mapsto>
          \<lparr>tpiHeight = 0, tpiSize = 0, tpiValue = seZero env, tpiValAvg = seZero env, tpiWinners = []\<rparr>],
        piExpireQueue = [genesisHash], piMaxSize = 513\<rparr>,
      sdPoolDB = poolDB, sdHeightWaiters = Map.empty, sdChans = 0, sdSent = []\<rparr>"

text \<open>The loop that rolls the stake database back to the ticket pool; it ends only if the node's height falls.\<close>

partial_function (option) rollBack ::
    "('x, 'n, 'd, 'b, 'f) stakeEnv \<Rightarrow> int \<Rightarrow> int \<Rightarrow> ('x, 'n, 'd, 'b, 'f) StakeDatabase
     \<Rightarrow> (stakeError option \<times> int \<times> ('x, 'n, 'd, 'b, 'f) StakeDatabase) go option" where
  "rollBack env heightStakeDB heightTicketPool db =
     (if heightStakeDB > heightTicketPool
      then case DisconnectBlock env True db of
        Panic \<Rightarrow> Some Panic
      | Ret (err, db') \<Rightarrow>
          (case err of
             Some e \<Rightarrow> Some (Ret (Some e, heightTicketPool, db'))
           | None \<Rightarrow> rollBack env (sdHeight env db') (tip (sdPoolDB db')) db')
      else Some (Ret (None, heightTicketPool, db)))"

text \<open>The loop that trims the ticket pool to the stake database; it does not look at what \<open>Trim\<close> did.\<close>

partial_function (option) trimDown ::
    "int \<Rightarrow> int \<Rightarrow> 'b TicketPool \<Rightarrow> (int \<times> 'b TicketPool) go option" where
  "trimDown heightStakeDB heightTicketPool tp =
     (if heightTicketPool > heightStakeDB
      then case Trim tp of (r, tp') \<Rightarrow>
        (case r of None \<Rightarrow> Some Panic | Some td \<Rightarrow> trimDown heightStakeDB (fst td) tp')
      else Some (Ret (heightTicketPool, tp)))"

text \<open>The steps that both constructors share: an error has the height of the ticket pool with it.\<close>

definition alignHeights ::
    "('x, 'n, 'd, 'b, 'f) stakeEnv \<Rightarrow> ('x, 'n, 'd, 'b, 'f) StakeDatabase
     \<Rightarrow> (stakeError option \<times> int \<times> ('x, 'n, 'd, 'b, 'f) StakeDatabase) go option" where
  "alignHeights env db =
     (case rollBack env (sdHeight env db) (tip (sdPoolDB db)) db of
        None \<Rightarrow> None
      | Some Panic \<Rightarrow> Some Panic
      | Some (Ret (Some e, heightTicketPool, db1)) \<Rightarrow> Some (Ret (Some e, heightTicketPool, db1))
      | Some (Ret (None, heightTicketPool, db1)) \<Rightarrow>
          let heightStakeDB = sdHeight env db1 in
          (case trimDown heightStakeDB heightTicketPool (sdPoolDB db1) of
             None \<Rightarrow> None
           | Some Panic \<Rightarrow> Some Panic
           | Some (Ret (h, tp)) \<Rightarrow>
               let db2 = db1\<lparr>sdPoolDB := tp\<rparr> in
               if h \<noteq> heightStakeDB
               then Some (Ret (Some (HeightMismatch heightStakeDB h), if h > heightStakeDB then heightStakeDB else - 1, db2))
               else Some (Ret (None, h, db2))))"

text \<open>
  \<open>LoadAndRecover\<close> after \<open>Open\<close>. Its loop that rewinds to the height is that of \<open>Rewind\<close>. A failed
  \<open>AdvanceToTip\<close> is answered by rewinding one block more; a run-time panic in it is not caught. The
  database is returned unless a step before the last one failed.
\<close>

definition LoadAndRecover ::
    "('x, 'n, 'd, 'b, 'f) stakeEnv \<Rightarrow> int \<Rightarrow> ('x, 'n, 'd, 'b, 'f) StakeDatabase
     \<Rightarrow> (stakeError option \<times> ('x, 'n, 'd, 'b, 'f) StakeDatabase option) go option" where
  "LoadAndRecover env toHeight0 db =
     (let toHeight1 = (if toHeight0 < 0 then 0 else toHeight0);
          heightStakeDB = sdHeight env db;
          heightTicketPool = tip (sdPoolDB db);
          toHeight2 = (if toHeight1 > heightStakeDB then heightStakeDB else toHeight1);
          toHeight = (if toHeight2 > heightTicketPool then heightTicketPool else toHeight2)
      in case alignHeights env db of
           None \<Rightarrow> None
         | Some Panic \<Rightarrow> Some Panic
         | Some (Ret (Some e, _, _)) \<Rightarrow> Some (Ret (Some e, None))
         | Some (Ret (None, _, db2)) \<Rightarrow>
             (case Rewind env toHeight True db2 of
                Panic \<Rightarrow> Some Panic
              | Ret (Some e, _) \<Rightarrow> Some (Ret (Some e, None))
              | Ret (None, db3) \<Rightarrow>
                  (case AdvanceToTip (sdPoolDB db3) of
                     ((_, Some PanicIndex), _) \<Rightarrow> Some Panic
                   | ((stopHeight, err), tp) \<Rightarrow>
                       let db4 = db3\<lparr>sdPoolDB := tp\<rparr> in
                       (case (if err = None then Ret (None, db4) else Rewind env (stopHeight - 1) True db4) of
                          Panic \<Rightarrow> Some Panic
                        | Ret (Some e, _) \<Rightarrow> Some (Ret (Some e, None))
                        | Ret (None, db5) \<Rightarrow>
                            (case PopulateLiveTicketCache env db5 of
                               Panic \<Rightarrow> Some Panic
                             | Ret (err', db6) \<Rightarrow> Some (Ret (err', Some db6)))))))"

definition NewStakeDatabase ::
    "('x, 'n, 'd, 'b, 'f) stakeEnv \<Rightarrow> ('x, 'n, 'd, 'b, 'f) StakeDatabase
     \<Rightarrow> (stakeError option \<times> int \<times> ('x, 'n, 'd, 'b, 'f) StakeDatabase option) go option" where
  "NewStakeDatabase env db =
     (case alignHeights env db of
        None \<Rightarrow> None
      | Some Panic \<Rightarrow> Some Panic
      | Some (Ret (Some e, height, _)) \<Rightarrow> Some (Ret (Some e, height, None))
      | Some (Ret (None, _, db2)) \<Rightarrow>
          (case AdvanceToTip (sdPoolDB db2) of
             ((_, Some PanicIndex), _) \<Rightarrow> Some Panic
           | ((height, Some e), _) \<Rightarrow> Some (Ret (Some (PoolDbFailed e), height, None))
           | ((height, None), tp) \<Rightarrow>
               (case PopulateLiveTicketCache env (db2\<lparr>sdPoolDB := tp\<rparr>) of
                  Panic \<Rightarrow> Some Panic
                | Ret (err, db3) \<Rightarrow> Some (Ret (err, height, Some db3)))))"

end
