(* ===== verification/StakeChain.thy ===== *)
theory StakeChain
  imports StakeDb ChainRpc
begin

text \<open>
  The chain monitor of \<open>stakedb/chainmonitor.go\<close>, which connects blocks to the stake database and switches
  it to another chain, and the correctness of the stake database against a chain of blocks.

  The specification is \<open>represents\<close>: the database stands for a chain when its node, its file, its pool
  diffs, its live tickets and their value are those of the chain. What the node and the packages \<open>stake\<close>
  and \<open>database\<close> do with the blocks of a chain is stated by \<open>connectable\<close> and \<open>disconnectable\<close>.
\<close>

subsection \<open>The chain monitor\<close>

datatype monitorError =
    NoSideChain
  | StakeFailed stakeError
  | ConnectingBlock Hash

text \<open>The conversion to \<open>int32\<close>.\<close>

definition int32 :: "int \<Rightarrow> int" where
  "int32 h = sint (word_of_int h :: 32 word)"

definition monitorConnectBlock ::
    "('x, 'n, 'd, 'b, 'f) stakeEnv \<Rightarrow> Hash \<Rightarrow> ('x, 'n, 'd, 'b, 'f) StakeDatabase \<Rightarrow> ('x, 'n, 'd, 'b, 'f) sdResult" where
  "monitorConnectBlock env hash db =
     (case ConnectBlockHash env hash db of Panic \<Rightarrow> Panic | Ret (_, err, db') \<Rightarrow> Ret (err, db'))"

text \<open>The handler of the hashes that arrive on the channel: an error is logged.\<close>

fun BlockConnectedHandler ::
    "('x, 'n, 'd, 'b, 'f) stakeEnv \<Rightarrow> Hash list \<Rightarrow> ('x, 'n, 'd, 'b, 'f) StakeDatabase
     \<Rightarrow> ('x, 'n, 'd, 'b, 'f) StakeDatabase go" where
  "BlockConnectedHandler env [] db = Ret db"
| "BlockConnectedHandler env (hash # hashes) db =
     (case ConnectBlockHash env hash db of
        Panic \<Rightarrow> Panic
      | Ret (_, _, db') \<Rightarrow> BlockConnectedHandler env hashes db')"

text \<open>
  The loop over the new chain. It ends with the height and the hash of the last block, or with the best
  block of the database and the error; the header of the best block may be nil, which panics.
\<close>

fun connectLoop ::
    "('x, 'n, 'd, 'b, 'f) stakeEnv \<Rightarrow> Hash list \<Rightarrow> int \<Rightarrow> Hash option \<Rightarrow> ('x, 'n, 'd, 'b, 'f) StakeDatabase
     \<Rightarrow> (int \<times> Hash option \<times> monitorError option \<times> ('x, 'n, 'd, 'b, 'f) StakeDatabase) go" where
  "connectLoop env [] tipHeight tipHash db = Ret (tipHeight, tipHash, None, db)"
| "connectLoop env (hash # newChain) tipHeight tipHash db =
     (case ConnectBlockHash env hash db of
        Panic \<Rightarrow> Panic
      | Ret (_, Some e, db') \<Rightarrow>
          (case dbState env db' of
             Inl _ \<Rightarrow> Panic
           | Inr (_, currentBlockHash) \<Rightarrow>
               (case seHeaderHeight env currentBlockHash of
                  Inl _ \<Rightarrow> Panic
                | Inr _ \<Rightarrow>
                    Ret (int32 (sdHeight env db'), Some currentBlockHash, Some (ConnectingBlock hash), db')))
      | Ret (None, None, db') \<Rightarrow> Panic
      | Ret (Some block, None, db') \<Rightarrow> connectLoop env newChain (sbHeight block) (Some (sbHash block)) db')"

text \<open>The argument is not nil, since the only caller has read its fields.\<close>

definition switchToSideChain ::
    "('x, 'n, 'd, 'b, 'f) stakeEnv \<Rightarrow> ReorgData \<Rightarrow> ('x, 'n, 'd, 'b, 'f) StakeDatabase
     \<Rightarrow> (int \<times> Hash option \<times> monitorError option \<times> ('x, 'n, 'd, 'b, 'f) StakeDatabase) go" where
  "switchToSideChain env reorgData db =
     (let newChain = rdNewChain reorgData in
      if newChain = [] then Ret (0, None, Some NoSideChain, db)
      else
        let commonAncestorHeight = rdNewChainHeight reorgData - int (length newChain);
            mainTip = sdHeight env db
        in case DisconnectBlocks env (mainTip - commonAncestorHeight) db of
             Panic \<Rightarrow> Panic
           | Ret (Some e, db1) \<Rightarrow> Ret (0, None, Some (StakeFailed e), db1)
           | Ret (None, db1) \<Rightarrow>
               if sdHeight env db1 \<noteq> commonAncestorHeight then Panic
               else case connectLoop env newChain 0 None db1 of
                 Panic \<Rightarrow> Panic
               | Ret (h, hash, Some e, db2) \<Rightarrow> Ret (h, hash, Some e, db2)
               | Ret (tipHeight, tipHash, None, db2) \<Rightarrow>
                   if sdHeight env db2 \<noteq> tipHeight then Panic
                   else Ret (int32 (sdHeight env db2), tipHash, None, db2))"

text \<open>The handler dereferences the hash of the tip to compare it, also after an error.\<close>

definition monitorReorgHandler ::
    "('x, 'n, 'd, 'b, 'f) stakeEnv \<Rightarrow> ReorgData \<Rightarrow> ('x, 'n, 'd, 'b, 'f) StakeDatabase
     \<Rightarrow> (monitorError option \<times> ('x, 'n, 'd, 'b, 'f) StakeDatabase) go" where
  "monitorReorgHandler env reorg db =
     (case switchToSideChain env reorg db of
        Panic \<Rightarrow> Panic
      | Ret (stakeDBTipHeight, stakeDBTipHash, err, db') \<Rightarrow>
          (case stakeDBTipHash of None \<Rightarrow> Panic | Some _ \<Rightarrow> Ret (err, db')))"

subsection \<open>Chains of blocks\<close>

text \<open>
  A chain is the list of its blocks, from genesis on. \<open>nodeOf\<close> and \<open>fileOf\<close> give the stake node and the
  stake database file of a chain.
\<close>

definition maturingAt :: "('x, 'n, 'd, 'b, 'f) stakeEnv \<Rightarrow> 'x StakeBlock list \<Rightarrow> nat \<Rightarrow> Hash list" where
  "maturingAt env chain k =
     (let m = int k - seMaturity env
      in if m \<ge> 0 then fst (TicketsInBlock (sbTxs (chain ! nat m))) else [])"

definition liveDiff ::
    "('x, 'n, 'd, 'b, 'f) stakeEnv \<Rightarrow> ('x StakeBlock list \<Rightarrow> 'n) \<Rightarrow> 'x StakeBlock list \<Rightarrow> nat \<Rightarrow> PoolDiff" where
  "liveDiff env nodeOf chain k =
     \<lparr>In = maturingAt env chain k,
      Out = seWinners env (nodeOf (take k chain)) @ seExpiredByBlock env (nodeOf (take (Suc k) chain))\<rparr>"

definition chainDiffs ::
    "('x, 'n, 'd, 'b, 'f) stakeEnv \<Rightarrow> ('x StakeBlock list \<Rightarrow> 'n) \<Rightarrow> 'x StakeBlock list \<Rightarrow> PoolDiff list" where
  "chainDiffs env nodeOf chain = map (liveDiff env nodeOf chain) [1..<length chain]"

definition fetchable :: "('x, 'n, 'd, 'b, 'f) stakeEnv \<Rightarrow> Hash \<Rightarrow> bool" where
  "fetchable env h \<longleftrightarrow> (case ticketValue env h of Ret (Inr _) \<Rightarrow> True | _ \<Rightarrow> False)"

definition valueOf :: "('x, 'n, 'd, 'b, 'f) stakeEnv \<Rightarrow> Hash \<Rightarrow> 64 word" where
  "valueOf env h = (case ticketValue env h of Ret (Inr v) \<Rightarrow> v | _ \<Rightarrow> 0)"

text \<open>The live ticket cache and the pool value of a set of tickets.\<close>

definition liveOf :: "('x, 'n, 'd, 'b, 'f) stakeEnv \<Rightarrow> Hash set \<Rightarrow> liveTickets" where
  "liveOf env P = ((\<lambda>h. if h \<in> P then Some (valueOf env h) else None), (\<Sum>h\<in>P. valueOf env h))"

definition diffFetchable :: "('x, 'n, 'd, 'b, 'f) stakeEnv \<Rightarrow> PoolDiff \<Rightarrow> bool" where
  "diffFetchable env d \<longleftrightarrow> (\<forall>h \<in> set (In d) \<union> set (Out d). fetchable env h)"

definition represents ::
    "('x, 'n, 'd, 'b, 'f) stakeEnv \<Rightarrow> ('x StakeBlock list \<Rightarrow> 'n) \<Rightarrow> ('x StakeBlock list \<Rightarrow> 'd)
     \<Rightarrow> 'x StakeBlock list \<Rightarrow> ('x, 'n, 'd, 'b, 'f) StakeDatabase \<Rightarrow> bool" where
  "represents env nodeOf fileOf chain db \<longleftrightarrow>
     chain \<noteq> [] \<and> sdBestNode db = nodeOf chain \<and> sdStakeDB db = fileOf chain \<and>
     uint (seHeight env (nodeOf chain)) = int (length chain) - 1 \<and>
     tpInv (sdPoolDB db) \<and> diffs (sdPoolDB db) = chainDiffs env nodeOf chain \<and>
     (sdLiveTicketCache db, sdPoolValue db) = liveOf env (poolAt (chainDiffs env nodeOf chain) (length chain - 1)) \<and>
     (\<forall>h b. h < length chain \<longrightarrow> sdBlockCache db (int h) = Some b \<longrightarrow> b = chain ! h) \<and>
     2 \<le> piMaxSize (sdPoolInfo db)"

text \<open>What is assumed when a block is connected to a chain, and when it is disconnected.\<close>

definition connectable ::
    "('x, 'n, 'd, 'b, 'f) stakeEnv \<Rightarrow> ('x StakeBlock list \<Rightarrow> 'n) \<Rightarrow> ('x StakeBlock list \<Rightarrow> 'd)
     \<Rightarrow> 'x StakeBlock list \<Rightarrow> 'x StakeBlock \<Rightarrow> bool" where
  "connectable env nodeOf fileOf c b \<longleftrightarrow>
     (let k = length c; d = liveDiff env nodeOf (c @ [b]) k; m = int k - seMaturity env in
      0 < seMaturity env \<and> sbHeight b = int k \<and> seGetBlock env (sbHash b) = Inr b \<and>
      uint (seHeight env (nodeOf (c @ [b]))) = int k \<and>
      (0 \<le> m \<longrightarrow> seBlockAt env m = Inr (c ! nat m)) \<and>
      (case (TicketsSpentInBlock (sbTxs b), RevokedTicketsInBlock (sbTxs b)) of
         (Ret spent, Ret revoked) \<Rightarrow>
           seConnectNode env (nodeOf c) b spent revoked (In d) = Inr (Some (nodeOf (c @ [b])))
       | _ \<Rightarrow> False) \<and>
      seWriteConnected env (nodeOf (c @ [b])) (sbHash b) (fileOf c) = (None, fileOf (c @ [b])) \<and>
      diffFits d (poolAt (chainDiffs env nodeOf c) (k - 1)) \<and> diffFetchable env d \<and>
      (\<forall>db. \<exists>db'. seDbSet env db (word_of_int (int k)) d = Inr db'))"

definition disconnectable ::
    "('x, 'n, 'd, 'b, 'f) stakeEnv \<Rightarrow> ('x StakeBlock list \<Rightarrow> 'n) \<Rightarrow> ('x StakeBlock list \<Rightarrow> 'd)
     \<Rightarrow> 'x StakeBlock list \<Rightarrow> 'x StakeBlock \<Rightarrow> bool" where
  "disconnectable env nodeOf fileOf c b \<longleftrightarrow>
     (let k = length c; d = liveDiff env nodeOf (c @ [b]) k; prev = last c in
      0 < seMaturity env \<and> map_sum (\<lambda>e. e) snd (seDbState env (fileOf (c @ [b]))) = Inr (sbHash b) \<and>
      sePrevBlock env (sbHash b) = Inr (sbHash prev) \<and> seGetBlock env (sbHash prev) = Inr prev \<and>
      sbHeight prev = int k - 1 \<and> uint (seHeight env (nodeOf c)) = int k - 1 \<and>
      seDisconnectNode env (nodeOf (c @ [b])) prev (fileOf (c @ [b])) = Inr (Some (nodeOf c)) \<and>
      seWriteDisconnected env (nodeOf c) (sbHash prev) (nodeOf (c @ [b])) (fileOf (c @ [b])) = (None, fileOf c) \<and>
      diffFetchable env d)"

subsection \<open>Waiters\<close>

text \<open>The channels that wait for a height, what was sent to channels, and the number of channels made.\<close>

definition waitersOf ::
    "('x, 'n, 'd, 'b, 'f) StakeDatabase \<Rightarrow> (int \<rightharpoonup> nat list) \<times> (nat \<times> int \<times> Hash option) list \<times> nat" where
  "waitersOf db = (sdHeightWaiters db, sdSent db, sdChans db)"

definition sdWaiting :: "('x, 'n, 'd, 'b, 'f) StakeDatabase \<Rightarrow> int \<Rightarrow> nat list" where
  "sdWaiting db = waitersAt (sdHeightWaiters db)"

interpretation sw: waiting_room sdWaiting sdSent sdChans signalWaiters addWaiter
  by unfold_locales (simp_all add: sdWaiting_def signalWaiters_def addWaiter_def)

lemma waitersOf_same:
  assumes "waitersOf db' = waitersOf db"
  shows "sw.orderly db' = sw.orderly db" and "sw.kept c k db' = sw.kept c k db"
    and "sw.answered c k db' = sw.answered c k db" and "sdWaiting db' = sdWaiting db" and "sdSent db' = sdSent db"
  using assms by (simp_all add: waitersOf_def sw.orderly_def sw.kept_def sw.answered_def sdWaiting_def)

subsection \<open>Live tickets\<close>

lemma addTickets_live:
  "\<forall>h \<in> set hs. fetchable env h \<Longrightarrow> finite P \<Longrightarrow>
   addTickets env hs (liveOf env P) = Ret (liveOf env (P \<union> set hs))"
proof (induction hs arbitrary: P)
  case Nil
  then show ?case by simp
next
  case (Cons h hs)
  obtain v where v: "ticketValue env h = Ret (Inr v)" "valueOf env h = v"
    using Cons.prems(1) by (auto simp: fetchable_def valueOf_def split: go.splits sum.splits)
  have IH: "addTickets env hs (liveOf env (insert h P)) = Ret (liveOf env (insert h P \<union> set hs))"
    using Cons.prems by (intro Cons.IH) auto
  show ?case
  proof (cases "h \<in> P")
    case True
    then show ?thesis using IH by (simp add: liveOf_def insert_absorb)
  next
    case False
    then have "((fst (liveOf env P))(h \<mapsto> v), snd (liveOf env P) + v) = liveOf env (insert h P)"
      using v Cons.prems(2) by (auto simp: liveOf_def)
    moreover have "addTickets env (h # hs) (liveOf env P)
        = addTickets env hs ((fst (liveOf env P))(h \<mapsto> v), snd (liveOf env P) + v)"
      using False v by (simp add: liveOf_def)
    ultimately show ?thesis using IH by simp
  qed
qed

lemma removeTickets_live: "finite P \<Longrightarrow> removeTickets hs (liveOf env P) = liveOf env (P - set hs)"
proof (induction hs arbitrary: P)
  case Nil
  then show ?case by simp
next
  case (Cons h hs)
  have IH: "removeTickets hs (liveOf env (P - {h})) = liveOf env (P - {h} - set hs)"
    using Cons.prems by (intro Cons.IH) auto
  have P: "P - set (h # hs) = P - {h} - set hs" by auto
  show ?case
  proof (cases "h \<in> P")
    case True
    then have "((fst (liveOf env P))(h := None), snd (liveOf env P) - valueOf env h) = liveOf env (P - {h})"
      using Cons.prems by (auto simp: liveOf_def sum_diff1)
    then show ?thesis using IH True unfolding P by (simp add: liveOf_def)
  next
    case False
    then have "P - {h} = P" by auto
    then show ?thesis using IH False unfolding P by (simp add: liveOf_def)
  qed
qed

lemma sdApplyDiff_live:
  assumes "(sdLiveTicketCache db, sdPoolValue db) = liveOf env P" and "finite P" and "\<forall>h \<in> set (In d). fetchable env h"
  shows "sdApplyDiff env d db =
    Ret (db\<lparr>sdLiveTicketCache := fst (liveOf env (applyDiff (In d) (Out d) P)),
      sdPoolValue := snd (liveOf env (applyDiff (In d) (Out d) P))\<rparr>)"
  using assms addTickets_live[OF assms(3,2)] removeTickets_live[of "P \<union> set (In d)" "Out d" env]
  by (simp add: sdApplyDiff_def case_prod_unfold Let_def)

lemma undo_live:
  assumes "(sdLiveTicketCache db, sdPoolValue db) = liveOf env (stepDiff d P)" and "diffFits d P"
    and "diffFetchable env d"
  shows "undoDiff env d db =
    Ret (db\<lparr>sdLiveTicketCache := fst (liveOf env P), sdPoolValue := snd (liveOf env P)\<rparr>)"
proof -
  have "finite (stepDiff d P)" using assms(2) by (simp add: stepDiff_def diffFits_def)
  moreover have "\<forall>h \<in> set (Out d). fetchable env h" using assms(3) by (simp add: diffFetchable_def)
  moreover have "applyDiff (Out d) (In d) (stepDiff d P) = P"
    using unstep_step[OF assms(2)] by (simp only: unstepDiff_def)
  ultimately show ?thesis
    using sdApplyDiff_live[OF assms(1), of "\<lparr>In = Out d, Out = In d\<rparr>"] by (simp add: undoDiff_def)
qed

subsection \<open>Connecting\<close>

lemma maturingAt_snoc:
  "0 < seMaturity env \<Longrightarrow> k < length c \<Longrightarrow> maturingAt env (c @ [b]) k = maturingAt env c k"
  by (auto simp: maturingAt_def Let_def nth_append)

lemma chainDiffs_snoc:
  assumes "0 < seMaturity env" and "c \<noteq> []"
  shows "chainDiffs env nodeOf (c @ [b]) = chainDiffs env nodeOf c @ [liveDiff env nodeOf (c @ [b]) (length c)]"
proof -
  have "map (liveDiff env nodeOf (c @ [b])) [1..<length c] = map (liveDiff env nodeOf c) [1..<length c]"
    by (simp add: liveDiff_def maturingAt_snoc[OF assms(1)])
  moreover have "[1..<length (c @ [b])] = [1..<length c] @ [length c]"
    using assms(2) by (simp add: Suc_le_eq)
  ultimately show ?thesis by (simp only: chainDiffs_def map_append list.map)
qed

lemma length_chainDiffs [simp]: "length (chainDiffs env nodeOf c) = length c - 1"
  by (simp add: chainDiffs_def)

lemma poolAt_chain_snoc:
  assumes "0 < seMaturity env" and "c \<noteq> []"
  shows "poolAt (chainDiffs env nodeOf (c @ [b])) (length c) =
    stepDiff (liveDiff env nodeOf (c @ [b]) (length c)) (poolAt (chainDiffs env nodeOf c) (length c - 1))"
  using poolAt_Suc[of "length c - 1" "chainDiffs env nodeOf (c @ [b])"] assms(2)
  by (simp add: chainDiffs_snoc[OF assms] nth_append poolAt_append)

lemma maturingTickets_ok:
  assumes "\<forall>h b. h < length c \<longrightarrow> sdBlockCache db (int h) = Some b \<longrightarrow> b = c ! h"
    and "0 < seMaturity env"
    and "0 \<le> int (length c) - seMaturity env \<longrightarrow>
      seBlockAt env (int (length c) - seMaturity env) = Inr (c ! nat (int (length c) - seMaturity env))"
  shows "\<exists>f. maturingTickets env (int (length c)) db
      = Ret (maturingAt env (c @ [b]) (length c), db\<lparr>sdBlockCache := f\<rparr>) \<and>
    (\<forall>h b. h < length c \<longrightarrow> f (int h) = Some b \<longrightarrow> b = c ! h)"
proof (cases "0 \<le> int (length c) - seMaturity env")
  case False
  then show ?thesis
    using assms(1) by (intro exI[of _ "sdBlockCache db"]) (simp add: maturingTickets_def maturingAt_def)
next
  case True
  define m where "m = nat (int (length c) - seMaturity env)"
  have m: "int (length c) - seMaturity env = int m" "m < length c" using True assms(2) by (auto simp: m_def)
  have at: "maturingAt env (c @ [b]) (length c) = fst (TicketsInBlock (sbTxs (c ! m)))"
    using m by (simp add: maturingAt_def nth_append)
  show ?thesis
  proof (cases "sdBlockCache db (int m)")
    case None
    then show ?thesis
      using assms(1,3) m at
      by (intro exI[of _ "sdBlockCache db"]) (simp add: maturingTickets_def sdBlock_def BlockCached_def)
  next
    case (Some x)
    then have "x = c ! m" using assms(1) m by blast
    then show ?thesis
      using assms(1) m at Some
      by (intro exI[of _ "(sdBlockCache db)(int m := None)"])
        (simp add: maturingTickets_def sdBlock_def BlockCached_def ForgetBlock_def)
  qed
qed

lemma piSet_ok: "2 \<le> piMaxSize c \<Longrightarrow> \<exists>c'. piSet h p c = Ret c' \<and> piMaxSize c' = piMaxSize c"
  by (cases "piExpireQueue c") (auto simp: piSet_def Let_def)

lemma representsD:
  assumes "represents env nodeOf fileOf c db"
  shows "c \<noteq> []" and "sdBestNode db = nodeOf c" and "sdStakeDB db = fileOf c"
    and "uint (seHeight env (nodeOf c)) = int (length c) - 1" and "tpInv (sdPoolDB db)"
    and "diffs (sdPoolDB db) = chainDiffs env nodeOf c"
    and "(sdLiveTicketCache db, sdPoolValue db) = liveOf env (poolAt (chainDiffs env nodeOf c) (length c - 1))"
    and "\<forall>h b. h < length c \<longrightarrow> sdBlockCache db (int h) = Some b \<longrightarrow> b = c ! h"
    and "2 \<le> piMaxSize (sdPoolInfo db)" and "tip (sdPoolDB db) = int (length c) - 1"
    and "sdHeight env db = int (length c) - 1"
  using assms unfolding represents_def
  by (simp_all add: tpInv_def sdHeight_def of_nat_diff Suc_le_eq)

lemma connectableD:
  assumes "connectable env nodeOf fileOf c b"
  defines "d \<equiv> liveDiff env nodeOf (c @ [b]) (length c)"
  shows "0 < seMaturity env" and "sbHeight b = int (length c)" and "seGetBlock env (sbHash b) = Inr b"
    and "uint (seHeight env (nodeOf (c @ [b]))) = int (length c)"
    and "0 \<le> int (length c) - seMaturity env \<longrightarrow>
      seBlockAt env (int (length c) - seMaturity env) = Inr (c ! nat (int (length c) - seMaturity env))"
    and "\<exists>spent revoked. TicketsSpentInBlock (sbTxs b) = Ret spent \<and> RevokedTicketsInBlock (sbTxs b) = Ret revoked \<and>
      seConnectNode env (nodeOf c) b spent revoked (In d) = Inr (Some (nodeOf (c @ [b])))"
    and "seWriteConnected env (nodeOf (c @ [b])) (sbHash b) (fileOf c) = (None, fileOf (c @ [b]))"
    and "diffFits d (poolAt (chainDiffs env nodeOf c) (length c - 1))" and "diffFetchable env d"
    and "\<exists>db'. seDbSet env fd (word_of_int (int (length c))) d = Inr db'"
  using assms(1) unfolding connectable_def Let_def d_def by (auto split: go.splits)

lemma ConnectBlock_ok:
  assumes db: "represents env nodeOf fileOf c db" and con: "connectable env nodeOf fileOf c b"
  shows "\<exists>db'. ConnectBlock env b db = Ret (None, db') \<and> represents env nodeOf fileOf (c @ [b]) db' \<and>
    waitersOf db' = waitersOf (signalWaiters (int (length c)) (Some (sbHash b)) db)"
proof -
  let ?k = "length c" and ?d = "liveDiff env nodeOf (c @ [b]) (length c)"
  note D = representsD[OF db] and C = connectableD[OF con]
  have k: "0 < ?k" using D(1) by simp
  obtain f where f: "maturingTickets env (int ?k) db = Ret (In ?d, db\<lparr>sdBlockCache := f\<rparr>)"
    "\<forall>h b. h < ?k \<longrightarrow> f (int h) = Some b \<longrightarrow> b = c ! h"
    using maturingTickets_ok[OF D(8) C(1,5), of b] by (auto simp: liveDiff_def)
  obtain spent revoked where sr: "TicketsSpentInBlock (sbTxs b) = Ret spent" "RevokedTicketsInBlock (sbTxs b) = Ret revoked"
    "seConnectNode env (nodeOf c) b spent revoked (In ?d) = Inr (Some (nodeOf (c @ [b])))"
    using C(6) by auto
  let ?P = "poolAt (chainDiffs env nodeOf c) (?k - 1)"
  let ?db3 = "db\<lparr>sdBlockCache := f(int ?k \<mapsto> b), sdBestNode := nodeOf (c @ [b]), sdStakeDB := fileOf (c @ [b])\<rparr>"
  have d: "\<forall>h \<in> set (In ?d). fetchable env h" using C(9) by (simp add: diffFetchable_def)
  have "finite ?P" using C(8) by (simp add: diffFits_def)
  then have app: "sdApplyDiff env ?d ?db3 = Ret (?db3\<lparr>sdLiveTicketCache := fst (liveOf env (stepDiff ?d ?P)),
      sdPoolValue := snd (liveOf env (stepDiff ?d ?P))\<rparr>)"
    using sdApplyDiff_live[of ?db3 env ?P ?d] D(7) d unfolding stepDiff_def by simp
  let ?db4 = "?db3\<lparr>sdLiveTicketCache := fst (liveOf env (stepDiff ?d ?P)),
      sdPoolValue := snd (liveOf env (stepDiff ?d ?P))\<rparr>"
  let ?pib = "makePoolInfo env (snd (liveOf env (stepDiff ?d ?P))) (sePoolSize env (nodeOf (c @ [b])))
      (seWinners env (nodeOf (c @ [b]))) (word_of_int (int ?k))"
  obtain ca where ca: "piSet (sbHash b) ?pib (sdPoolInfo db) = Ret ca" "piMaxSize ca = piMaxSize (sdPoolInfo db)"
    using piSet_ok[OF D(9)] by metis
  obtain fd where "seDbSet env (diffDB (sdPoolDB db)) (word_of_int (int ?k)) ?d = Inr fd" using C(10) by metis
  then have ap: "Append (seDbSet env) ?d (int ?k) (sdPoolDB db) = (None, (tpAppend ?d (sdPoolDB db))\<lparr>diffDB := fd\<rparr>)"
    using D(10) by (simp add: Append_def storeDiff_def tpAppend_def)
  let ?tp = "(tpAppend ?d (sdPoolDB db))\<lparr>diffDB := fd\<rparr>"
  note snoc = chainDiffs_snoc[OF C(1) D(1), of nodeOf b]
  have "tpInv (tpAppend ?d (sdPoolDB db))" using D(5,6) C(8) by (intro tpAppend_inv) simp_all
  then have tp: "tpInv ?tp" "diffs ?tp = chainDiffs env nodeOf (c @ [b])"
    using D(6) snoc by (simp_all add: tpInv_diffDB, simp add: tpAppend_def)
  have live: "poolAt (chainDiffs env nodeOf (c @ [b])) ?k = stepDiff ?d ?P"
    by (rule poolAt_chain_snoc[OF C(1) D(1)])
  let ?db5 = "signalWaiters (int ?k) (Some (sbHash b)) (?db4\<lparr>sdPoolInfo := ca, sdPoolDB := ?tp\<rparr>)"
  have e: "seWinners env (nodeOf c) @ seExpiredByBlock env (nodeOf (c @ [b])) = Out ?d"
    by (simp add: liveDiff_def)
  have r: "\<lparr>In = In ?d, Out = Out ?d\<rparr> = ?d" by simp
  have "ConnectBlock env b db = Ret (None, ?db5)"
    unfolding ConnectBlock_def connectBlock_def C(2) Let_def f(1) sr(1,2) go.case prod.case
    by (simp add: sdHeight_def D(2,3,4) sr(3) C(7) e r app[simplified] ca(1)[simplified] ap)
  moreover have "represents env nodeOf fileOf (c @ [b]) ?db5"
    unfolding represents_def signalWaiters_def
    using C(4) tp live f(2) ca(2) D(9) by (auto simp: nth_append less_Suc_eq)
  moreover have "waitersOf ?db5 = waitersOf (signalWaiters (int ?k) (Some (sbHash b)) db)"
    by (simp add: waitersOf_def signalWaiters_def)
  ultimately show ?thesis by blast
qed

text \<open>A block that is refused because of its height stays in the block cache.\<close>

lemma refused_block_is_cached:
  assumes "maturingTickets env (sbHeight b) db = Ret (maturing, db1)" and "sbHeight b \<le> sdHeight env db1"
    and "RevokedTicketsInBlock (sbTxs b) = Ret revoked" and "TicketsSpentInBlock (sbTxs b) = Ret spent"
  shows "\<exists>db'. ConnectBlock env b db = Ret (Some (CannotConnect (sbHeight b) (sdHeight env db1)), db') \<and>
    sdBlockCache db' (sbHeight b) = Some b"
  using assms by (simp add: ConnectBlock_def Let_def sdHeight_def)

subsection \<open>Disconnecting\<close>

lemma disconnectableD:
  assumes "disconnectable env nodeOf fileOf c b"
  shows "0 < seMaturity env" and "\<exists>h. seDbState env (fileOf (c @ [b])) = Inr (h, sbHash b)"
    and "sePrevBlock env (sbHash b) = Inr (sbHash (last c))" and "seGetBlock env (sbHash (last c)) = Inr (last c)"
    and "sbHeight (last c) = int (length c) - 1" and "uint (seHeight env (nodeOf c)) = int (length c) - 1"
    and "seDisconnectNode env (nodeOf (c @ [b])) (last c) (fileOf (c @ [b])) = Inr (Some (nodeOf c))"
    and "seWriteDisconnected env (nodeOf c) (sbHash (last c)) (nodeOf (c @ [b])) (fileOf (c @ [b]))
      = (None, fileOf c)"
    and "diffFetchable env (liveDiff env nodeOf (c @ [b]) (length c))"
  using assms unfolding disconnectable_def Let_def
  by (auto simp: map_sum.id[unfolded id_def] split: sum.splits dest: sym)
    (cases "seDbState env (fileOf (c @ [b]))"; auto)

lemma trimLoop_one:
  assumes "tpInv tp" and "0 < tip tp"
  shows "trimLoop (tip tp - 1) (tip tp) tp [] = Ret ([last (diffs tp)], trimmed tp)"
  using Trim_ok[OF assms] by (simp add: trimLoop.simps)

lemma disconnectBlock_ok:
  assumes db: "represents env nodeOf fileOf (c @ [b]) db" and dis: "disconnectable env nodeOf fileOf c b"
    and c: "c \<noteq> []"
  shows "\<exists>db'. disconnectBlock env False db = Ret (None, db') \<and> represents env nodeOf fileOf c db'"
proof -
  let ?k = "length c" and ?d = "liveDiff env nodeOf (c @ [b]) (length c)"
  let ?P = "poolAt (chainDiffs env nodeOf c) (?k - 1)"
  note D = representsD[OF db] and C = disconnectableD[OF dis]
  note snoc = chainDiffs_snoc[OF C(1) c, of nodeOf b]
  have k: "0 < ?k" using c by simp
  obtain h where h: "seDbState env (fileOf (c @ [b])) = Inr (h, sbHash b)" using C(2) by metis
  have prev: "dbPrevBlock env db = Inr (last c)"
    by (simp add: dbPrevBlock_def dbState_def D(3) h C(3,4))
  have t: "tip (sdPoolDB db) = int ?k" using D(10) by simp
  have trim: "trimLoop (int ?k - 1) (tip (sdPoolDB db)) (sdPoolDB db) [] = Ret ([?d], trimmed (sdPoolDB db))"
    using trimLoop_one[OF D(5)] t k D(6) snoc by simp
  have fits: "diffFits ?d ?P"
    using D(5,6) snoc by (simp add: tpInv_def tpCore_def validDiffs_snoc)
  let ?db1 = "db\<lparr>sdPoolDB := trimmed (sdPoolDB db)\<rparr>"
  let ?db2 = "?db1\<lparr>sdLiveTicketCache := fst (liveOf env ?P), sdPoolValue := snd (liveOf env ?P)\<rparr>"
  have undo: "undoDiff env ?d ?db1 = Ret ?db2"
    using D(7) by (intro undo_live[OF _ fits C(9)]) (simp add: poolAt_chain_snoc[OF C(1) c])
  let ?db3 = "?db2\<lparr>sdBestNode := nodeOf c, sdStakeDB := fileOf c\<rparr>"
  have "disconnectBlock env False db = Ret (None, ?db3)"
    unfolding disconnectBlock_def Let_def prev sum.case C(5) D(11)
    using trim undo by (simp add: D(2,3) C(7,8))
  moreover have "tpInv (trimmed (sdPoolDB db))" using D(5) t k by (intro tpInv_trimmed) simp_all
  moreover have "diffs (trimmed (sdPoolDB db)) = chainDiffs env nodeOf c"
    by (simp add: trimmed_def D(6) snoc)
  moreover have "sdBlockCache db (int j) = Some x \<Longrightarrow> j < ?k \<Longrightarrow> x = c ! j" for j x
    using D(8)[rule_format, of j x] by (simp add: nth_append)
  ultimately show ?thesis
    using c C(6) D(9) by (intro exI[of _ ?db3]) (simp add: represents_def)
qed

text \<open>A chain all of whose steps above a height can be undone, or done.\<close>

definition undoable ::
    "('x, 'n, 'd, 'b, 'f) stakeEnv \<Rightarrow> ('x StakeBlock list \<Rightarrow> 'n) \<Rightarrow> ('x StakeBlock list \<Rightarrow> 'd)
     \<Rightarrow> 'x StakeBlock list \<Rightarrow> 'x StakeBlock list \<Rightarrow> bool" where
  "undoable env nodeOf fileOf c bs \<longleftrightarrow>
     (\<forall>j < length bs. disconnectable env nodeOf fileOf (c @ take j bs) (bs ! j))"

fun extendable ::
    "('x, 'n, 'd, 'b, 'f) stakeEnv \<Rightarrow> ('x StakeBlock list \<Rightarrow> 'n) \<Rightarrow> ('x StakeBlock list \<Rightarrow> 'd)
     \<Rightarrow> 'x StakeBlock list \<Rightarrow> 'x StakeBlock list \<Rightarrow> bool" where
  "extendable env nodeOf fileOf c [] = True"
| "extendable env nodeOf fileOf c (b # bs) =
     (connectable env nodeOf fileOf c b \<and> extendable env nodeOf fileOf (c @ [b]) bs)"

lemma undoable_snoc:
  "undoable env nodeOf fileOf c (bs @ [b]) \<longleftrightarrow>
     undoable env nodeOf fileOf c bs \<and> disconnectable env nodeOf fileOf (c @ bs) b"
  by (auto simp: undoable_def nth_append less_Suc_eq)

lemma disconnectLoop_ok:
  "represents env nodeOf fileOf (c @ bs) db \<Longrightarrow> undoable env nodeOf fileOf c bs \<Longrightarrow> c \<noteq> [] \<Longrightarrow>
   \<exists>db'. disconnectLoop env (length bs) db = Ret (None, db') \<and> represents env nodeOf fileOf c db'"
proof (induction bs arbitrary: db rule: rev_induct)
  case Nil
  then show ?case by simp
next
  case (snoc b bs)
  then obtain db1 where "disconnectBlock env False db = Ret (None, db1)" "represents env nodeOf fileOf (c @ bs) db1"
    using disconnectBlock_ok[of env nodeOf fileOf "c @ bs" b db] by (auto simp: undoable_snoc)
  then show ?case using snoc.IH[of db1] snoc.prems by (simp add: undoable_snoc)
qed

lemma connectLoop_ok:
  "represents env nodeOf fileOf c db \<Longrightarrow> extendable env nodeOf fileOf c bs \<Longrightarrow>
   \<exists>db'. connectLoop env (map sbHash bs) h t db =
      Ret (if bs = [] then h else sbHeight (last bs), if bs = [] then t else Some (sbHash (last bs)), None, db') \<and>
     represents env nodeOf fileOf (c @ bs) db'"
proof (induction bs arbitrary: c db h t)
  case Nil
  then show ?case by simp
next
  case (Cons b bs)
  then have con: "connectable env nodeOf fileOf c b" by simp
  then obtain db1 where 1: "ConnectBlock env b db = Ret (None, db1)" "represents env nodeOf fileOf (c @ [b]) db1"
    using ConnectBlock_ok Cons.prems(1) by blast
  have "ConnectBlockHash env (sbHash b) db = Ret (Some b, None, db1)"
    using 1 connectableD(3)[OF con] by (simp add: ConnectBlockHash_def)
  then show ?case
    using Cons.IH[OF 1(2), of "sbHeight b" "Some (sbHash b)"] Cons.prems(2) by auto
qed

lemma extendable_height:
  "extendable env nodeOf fileOf c bs \<Longrightarrow> bs \<noteq> [] \<Longrightarrow> sbHeight (last bs) = int (length c + length bs) - 1"
proof (induction bs arbitrary: c)
  case Nil
  then show ?case by simp
next
  case (Cons b bs)
  then show ?case using Cons.IH[of "c @ [b]"] connectableD(2) by (cases "bs = []") auto
qed

lemma switch_ok:
  assumes db: "represents env nodeOf fileOf (c @ old) db" and c: "c \<noteq> []" "new \<noteq> []"
    and old: "undoable env nodeOf fileOf c old" and new: "extendable env nodeOf fileOf c new"
    and r: "rdNewChain r = map sbHash new" "rdNewChainHeight r = int (length c + length new) - 1"
  shows "\<exists>h db'. switchToSideChain env r db = Ret (h, Some (sbHash (last new)), None, db') \<and>
    represents env nodeOf fileOf (c @ new) db'"
proof -
  obtain db1 where 1: "disconnectLoop env (length old) db = Ret (None, db1)" "represents env nodeOf fileOf c db1"
    using disconnectLoop_ok[OF db old c(1)] by blast
  obtain db2 where 2: "connectLoop env (map sbHash new) 0 None db1
      = Ret (sbHeight (last new), Some (sbHash (last new)), None, db2)" "represents env nodeOf fileOf (c @ new) db2"
    using connectLoop_ok[OF 1(2) new, of 0 None] c(2) by auto
  have n: "nat (sdHeight env db - (rdNewChainHeight r - int (length (rdNewChain r)))) = length old"
    using representsD(11)[OF db] r by simp
  show ?thesis
    using c(2) 1(1) 2 n representsD(11)[OF 1(2)] representsD(11)[OF 2(2)] extendable_height[OF new c(2)] r
    by (simp add: switchToSideChain_def DisconnectBlocks_def Let_def)
qed

subsection \<open>Recovery\<close>

text \<open>A database whose node stands at height \<open>S\<close> of a chain, and a ticket pool with the first \<open>T\<close> diffs of it.\<close>

definition atHeight ::
    "('x StakeBlock list \<Rightarrow> 'n) \<Rightarrow> ('x StakeBlock list \<Rightarrow> 'd) \<Rightarrow> 'x StakeBlock list
     \<Rightarrow> ('x, 'n, 'd, 'b, 'f) StakeDatabase \<Rightarrow> nat \<Rightarrow> 'b TicketPool \<Rightarrow> ('x, 'n, 'd, 'b, 'f) StakeDatabase" where
  "atHeight nodeOf fileOf ch db S tp =
     db\<lparr>sdPoolDB := tp, sdBestNode := nodeOf (take (Suc S) ch), sdStakeDB := fileOf (take (Suc S) ch)\<rparr>"

definition pooled ::
    "('x, 'n, 'd, 'b, 'f) stakeEnv \<Rightarrow> ('x StakeBlock list \<Rightarrow> 'n) \<Rightarrow> 'x StakeBlock list \<Rightarrow> nat \<Rightarrow> 'b TicketPool \<Rightarrow> bool" where
  "pooled env nodeOf ch T tp \<longleftrightarrow> tpInv tp \<and> diffs tp = take T (chainDiffs env nodeOf ch) \<and> T < length ch"

text \<open>The blocks of a chain up to a height can be disconnected, and the node knows each height.\<close>

definition rewindable ::
    "('x, 'n, 'd, 'b, 'f) stakeEnv \<Rightarrow> ('x StakeBlock list \<Rightarrow> 'n) \<Rightarrow> ('x StakeBlock list \<Rightarrow> 'd)
     \<Rightarrow> 'x StakeBlock list \<Rightarrow> nat \<Rightarrow> bool" where
  "rewindable env nodeOf fileOf ch S \<longleftrightarrow>
     0 < seMaturity env \<and> S < length ch \<and> uint (seHeight env (nodeOf (take (Suc S) ch))) = int S \<and>
     (\<forall>k < S. disconnectable env nodeOf fileOf (take (Suc k) ch) (ch ! Suc k))"

lemma pooled_tip: "pooled env nodeOf ch T tp \<Longrightarrow> tip tp = int T"
  by (auto simp: pooled_def tpInv_def)

lemma atHeight_simps [simp]:
  "sdPoolDB (atHeight nodeOf fileOf ch db S tp) = tp"
  "sdBestNode (atHeight nodeOf fileOf ch db S tp) = nodeOf (take (Suc S) ch)"
  "sdStakeDB (atHeight nodeOf fileOf ch db S tp) = fileOf (take (Suc S) ch)"
  "(atHeight nodeOf fileOf ch db S tp)\<lparr>sdPoolDB := tp'\<rparr> = atHeight nodeOf fileOf ch db S tp'"
  by (simp_all add: atHeight_def)

lemma rewindable_height:
  "rewindable env nodeOf fileOf ch S \<Longrightarrow> k \<le> S \<Longrightarrow> sdHeight env (atHeight nodeOf fileOf ch db k tp) = int k"
proof (cases "k = S")
  case False
  assume "rewindable env nodeOf fileOf ch S" "k \<le> S"
  then have "disconnectable env nodeOf fileOf (take (Suc k) ch) (ch ! Suc k)" "Suc k < length ch"
    using False by (auto simp: rewindable_def)
  then show ?thesis using disconnectableD(6) by (force simp: sdHeight_def)
qed (simp add: rewindable_def sdHeight_def)

lemma rewindable_Suc: "rewindable env nodeOf fileOf ch (Suc S) \<Longrightarrow> rewindable env nodeOf fileOf ch S"
  using rewindable_height[of env nodeOf fileOf ch "Suc S" S undefined undefined]
  by (simp add: rewindable_def sdHeight_def)

lemma pooled_trimmed:
  assumes "pooled env nodeOf ch (Suc T) tp"
  shows "Trim tp = (Some (int T, last (diffs tp)), trimmed tp)" "pooled env nodeOf ch T (trimmed tp)"
proof -
  have tp: "tpInv tp" "0 < tip tp" using assms pooled_tip[OF assms] by (simp_all add: pooled_def)
  show "Trim tp = (Some (int T, last (diffs tp)), trimmed tp)"
    using Trim_ok[OF tp] pooled_tip[OF assms] by simp
  have "Suc T \<le> length (chainDiffs env nodeOf ch)" using assms by (auto simp: pooled_def)
  then have "butlast (take (Suc T) (chainDiffs env nodeOf ch)) = take T (chainDiffs env nodeOf ch)"
    by (simp add: butlast_take)
  then show "pooled env nodeOf ch T (trimmed tp)"
    using tpInv_trimmed[OF tp] assms by (simp add: pooled_def) (simp add: trimmed_def)
qed

lemma disconnect_neglecting:
  assumes r: "rewindable env nodeOf fileOf ch (Suc S)" and p: "pooled env nodeOf ch T tp" and T: "T \<le> Suc S"
  shows "\<exists>tp'. DisconnectBlock env True (atHeight nodeOf fileOf ch db (Suc S) tp)
      = Ret (None, atHeight nodeOf fileOf ch db S tp') \<and> pooled env nodeOf ch (min T S) tp'"
proof -
  let ?c = "take (Suc S) ch" and ?b = "ch ! Suc S"
  have len: "Suc S < length ch" using r by (simp add: rewindable_def)
  then have t: "take (Suc (Suc S)) ch = ?c @ [?b]" by (simp add: take_Suc_conv_app_nth)
  have "disconnectable env nodeOf fileOf ?c ?b" using r by (simp add: rewindable_def)
  note C = disconnectableD[OF this]
  obtain h where h: "seDbState env (fileOf (?c @ [?b])) = Inr (h, sbHash ?b)" using C(2) by metis
  let ?db = "atHeight nodeOf fileOf ch db (Suc S) tp"
  have prev: "dbPrevBlock env ?db = Inr (last ?c)"
    by (simp add: dbPrevBlock_def dbState_def t h C(3,4))
  have hS: "sdHeight env ?db = int (Suc S)" using rewindable_height[OF r le_refl] .
  have par: "sbHeight (last ?c) = int S" using C(5) len by simp
  obtain us tp' where trim: "trimLoop (int S) (int T) tp [] = Ret (us, tp')" "pooled env nodeOf ch (min T S) tp'"
  proof (cases "T = Suc S")
    case True
    then show ?thesis
      using that[of "[last (diffs tp)]" "trimmed tp"] pooled_trimmed[of env nodeOf ch S tp] p
      by (simp add: trimLoop.simps)
  next
    case False
    then show ?thesis using that[of "[]" tp] p T by (simp add: trimLoop.simps min_absorb1)
  qed
  have "DisconnectBlock env True ?db = Ret (None, atHeight nodeOf fileOf ch db S tp')"
    unfolding DisconnectBlock_def disconnectBlock_def Let_def prev sum.case par hS
    using trim(1) by (simp add: pooled_tip[OF p] t C(7,8)) (simp add: atHeight_def)
  with trim(2) show ?thesis by blast
qed

lemma rollBack_ok:
  assumes "rewindable env nodeOf fileOf ch S" and "pooled env nodeOf ch T tp"
  shows "\<exists>tp'. rollBack env (int S) (int T) (atHeight nodeOf fileOf ch db S tp)
      = Some (Ret (None, int T, atHeight nodeOf fileOf ch db (min S T) tp')) \<and> pooled env nodeOf ch T tp'"
  using assms
proof (induction S arbitrary: tp)
  case 0
  then show ?case by (subst rollBack.simps) auto
next
  case (Suc S)
  show ?case
  proof (cases "T < Suc S")
    case True
    obtain tp' where d: "DisconnectBlock env True (atHeight nodeOf fileOf ch db (Suc S) tp)
        = Ret (None, atHeight nodeOf fileOf ch db S tp')" "pooled env nodeOf ch T tp'"
      using disconnect_neglecting[OF Suc.prems, of db] True by (auto simp: min_def)
    obtain tp2 where i: "rollBack env (int S) (int T) (atHeight nodeOf fileOf ch db S tp')
        = Some (Ret (None, int T, atHeight nodeOf fileOf ch db (min S T) tp2))" "pooled env nodeOf ch T tp2"
      using Suc.IH[OF rewindable_Suc[OF Suc.prems(1)] d(2)] by blast
    have "sdHeight env (atHeight nodeOf fileOf ch db S tp') = int S" and "min (Suc S) T = min S T"
      using rewindable_height[OF Suc.prems(1)] True by simp_all
    then show ?thesis
      using i True d(1) pooled_tip[OF d(2)] by (intro exI[of _ tp2]) (subst rollBack.simps, simp)
  next
    case False
    then show ?thesis using Suc.prems by (subst rollBack.simps) (auto simp: min_def)
  qed
qed

lemma trimDown_ok:
  assumes "pooled env nodeOf ch T tp" and "S \<le> T"
  shows "\<exists>tp'. trimDown (int S) (int T) tp = Some (Ret (int S, tp')) \<and> pooled env nodeOf ch S tp'"
  using assms
proof (induction T arbitrary: tp)
  case 0
  then show ?case by (subst trimDown.simps) auto
next
  case (Suc T)
  show ?case
  proof (cases "S = Suc T")
    case True
    then show ?thesis using Suc.prems by (subst trimDown.simps) auto
  next
    case False
    then show ?thesis
      using Suc.IH[OF pooled_trimmed(2)[OF Suc.prems(1)]] Suc.prems pooled_trimmed(1)[OF Suc.prems(1)]
      by (subst trimDown.simps) auto
  qed
qed

lemma alignHeights_ok:
  assumes "rewindable env nodeOf fileOf ch S" and "pooled env nodeOf ch T tp"
  shows "\<exists>tp'. alignHeights env (atHeight nodeOf fileOf ch db S tp)
      = Some (Ret (None, int (min S T), atHeight nodeOf fileOf ch db (min S T) tp')) \<and>
    pooled env nodeOf ch (min S T) tp'"
proof -
  obtain tp1 where 1: "rollBack env (int S) (int T) (atHeight nodeOf fileOf ch db S tp)
      = Some (Ret (None, int T, atHeight nodeOf fileOf ch db (min S T) tp1))" "pooled env nodeOf ch T tp1"
    using rollBack_ok[OF assms] by blast
  obtain tp2 where 2: "trimDown (int (min S T)) (int T) tp1 = Some (Ret (int (min S T), tp2))"
    "pooled env nodeOf ch (min S T) tp2"
    using trimDown_ok[OF 1(2), of "min S T"] by auto
  have "sdHeight env (atHeight nodeOf fileOf ch db (min S T) tp1) = int (min S T)"
    "sdHeight env (atHeight nodeOf fileOf ch db S tp) = int S"
    by (rule rewindable_height[OF assms(1)]; simp)+
  then show ?thesis
    using 1(1) 2 pooled_tip[OF assms(2)]
    by (intro exI[of _ tp2]) (simp add: alignHeights_def Let_def del: of_nat_min)
qed

lemma Rewind_neglecting:
  assumes "rewindable env nodeOf fileOf ch S" and "pooled env nodeOf ch S tp"
  shows "\<exists>tp'. Rewind env (int m) True (atHeight nodeOf fileOf ch db S tp)
      = Ret (None, atHeight nodeOf fileOf ch db (min S m) tp') \<and> pooled env nodeOf ch (min S m) tp'"
  using assms
proof (induction S arbitrary: tp)
  case 0
  then show ?case using rewindable_height[OF 0(1), of 0 db tp] by (subst Rewind.simps) auto
next
  case (Suc S)
  have h: "sdHeight env (atHeight nodeOf fileOf ch db (Suc S) tp) = int (Suc S)"
    using rewindable_height[OF Suc.prems(1)] by simp
  show ?case
  proof (cases "m < Suc S")
    case True
    obtain tp' where d: "DisconnectBlock env True (atHeight nodeOf fileOf ch db (Suc S) tp)
        = Ret (None, atHeight nodeOf fileOf ch db S tp')" "pooled env nodeOf ch S tp'"
      using disconnect_neglecting[OF Suc.prems, of db] by auto
    obtain tp2 where i: "Rewind env (int m) True (atHeight nodeOf fileOf ch db S tp')
        = Ret (None, atHeight nodeOf fileOf ch db (min S m) tp2)" "pooled env nodeOf ch (min S m) tp2"
      using Suc.IH[OF rewindable_Suc[OF Suc.prems(1)] d(2)] by blast
    have "sdHeight env (atHeight nodeOf fileOf ch db S tp') = int S" and "min (Suc S) m = min S m"
      using rewindable_height[OF Suc.prems(1)] True by simp_all
    then show ?thesis
      using i True d(1) pooled_tip[OF d(2)] h by (intro exI[of _ tp2]) (subst Rewind.simps, simp)
  next
    case False
    then show ?thesis using Suc.prems h by (subst Rewind.simps) (auto simp: min_def)
  qed
qed

lemma populateLoop_live:
  "\<forall>t \<in> set ts. fetchable env t \<and> (\<forall>tx. seGetTx env t = Inr tx \<longrightarrow> mtHash tx = t) \<Longrightarrow> finite P \<Longrightarrow>
   distinct ts \<Longrightarrow> set ts \<inter> P = {} \<Longrightarrow>
   populateLoop env ts (liveOf env P) e = Ret (e, liveOf env (P \<union> set ts))"
proof (induction ts arbitrary: P)
  case Nil
  then show ?case by simp
next
  case (Cons t ts)
  obtain tx out outs where tx: "seGetTx env t = Inr tx" "mtHash tx = t" "mtTxOut tx = out # outs"
    "valueOf env t = toValue out"
    using Cons.prems(1) by (force simp: fetchable_def valueOf_def ticketValue_def split: sum.splits list.splits)
  have IH: "populateLoop env ts (liveOf env (insert t P)) e = Ret (e, liveOf env (insert t P \<union> set ts))"
    using Cons.prems by (intro Cons.IH) auto
  have "((fst (liveOf env P))(t \<mapsto> toValue out), snd (liveOf env P) + toValue out) = liveOf env (insert t P)"
    using tx(4) Cons.prems(2,4) by (auto simp: liveOf_def)
  moreover have "populateLoop env (t # ts) (liveOf env P) e
      = populateLoop env ts ((fst (liveOf env P))(t \<mapsto> toValue out), snd (liveOf env P) + toValue out) e"
    using tx(1-3) by (simp add: liveOf_def)
  ultimately show ?case using IH by simp
qed

lemma liveOf_empty: "liveOf env {} = (Map.empty, 0)"
  by (auto simp: liveOf_def)

text \<open>The live tickets that the node reports at a height of the chain, and their transactions.\<close>

definition reportsLive ::
    "('x, 'n, 'd, 'b, 'f) stakeEnv \<Rightarrow> ('x StakeBlock list \<Rightarrow> 'n) \<Rightarrow> 'x StakeBlock list \<Rightarrow> nat \<Rightarrow> bool" where
  "reportsLive env nodeOf ch m \<longleftrightarrow>
     (let ts = seLiveTickets env (nodeOf (take (Suc m) ch)) in
      distinct ts \<and> set ts = poolAt (chainDiffs env nodeOf ch) m \<and>
      (\<forall>t \<in> set ts. fetchable env t \<and> (case seGetTx env t of Inl _ \<Rightarrow> True | Inr tx \<Rightarrow> mtHash tx = t)))"

lemma maturingAt_take:
  "0 < seMaturity env \<Longrightarrow> k \<le> m \<Longrightarrow> maturingAt env (take (Suc m) ch) k = maturingAt env ch k"
  by (auto simp: maturingAt_def Let_def)

lemma chainDiffs_take:
  assumes "0 < seMaturity env" and "m < length ch"
  shows "chainDiffs env nodeOf (take (Suc m) ch) = take m (chainDiffs env nodeOf ch)"
proof (rule nth_equalityI)
  show "length (chainDiffs env nodeOf (take (Suc m) ch)) = length (take m (chainDiffs env nodeOf ch))"
    using assms(2) by simp
  fix i
  assume "i < length (chainDiffs env nodeOf (take (Suc m) ch))"
  then have "i < m" "i < length ch - 1" using assms(2) by auto
  then show "chainDiffs env nodeOf (take (Suc m) ch) ! i = take m (chainDiffs env nodeOf ch) ! i"
    using assms by (simp add: chainDiffs_def liveDiff_def maturingAt_take min_def)
qed

lemma Populate_represents:
  assumes r: "rewindable env nodeOf fileOf ch S" and m: "m \<le> S" and p: "pooled env nodeOf ch m tp"
    and live: "reportsLive env nodeOf ch m"
    and cached: "\<forall>h. sdBlockCache db h = None" and cap: "2 \<le> piMaxSize (sdPoolInfo db)"
  shows "\<exists>db'. PopulateLiveTicketCache env (atHeight nodeOf fileOf ch db m tp) = Ret (None, db') \<and>
    represents env nodeOf fileOf (take (Suc m) ch) db'"
proof -
  let ?ts = "seLiveTickets env (nodeOf (take (Suc m) ch))"
  have L: "distinct ?ts" "set ?ts = poolAt (chainDiffs env nodeOf ch) m"
    "\<forall>t \<in> set ?ts. fetchable env t \<and> (\<forall>tx. seGetTx env t = Inr tx \<longrightarrow> mtHash tx = t)"
    using live by (auto simp: reportsLive_def Let_def split: sum.splits)
  have pop: "populateLoop env ?ts (Map.empty, 0) None = Ret (None, liveOf env (set ?ts))"
    using populateLoop_live[OF L(3) finite.emptyI L(1), of None] by (simp add: liveOf_empty)
  have S: "0 < seMaturity env" "m < length ch" using r m by (auto simp: rewindable_def)
  have "poolAt (take m (chainDiffs env nodeOf ch)) m = poolAt (chainDiffs env nodeOf ch) m"
    by (simp add: poolAt_def)
  moreover have "length (take (Suc m) ch) = Suc m" using S(2) by simp
  moreover have "take (Suc m) ch \<noteq> []" using S(2) by auto
  ultimately show ?thesis
    using pop L(2) p cached cap rewindable_height[OF r m, of db tp]
    unfolding represents_def PopulateLiveTicketCache_def
    by (auto simp del: length_take simp: pooled_def chainDiffs_take[OF S] sdHeight_def atHeight_def split: prod.splits)
qed

lemma LoadAndRecover_ok:
  assumes r: "rewindable env nodeOf fileOf ch S" and p: "pooled env nodeOf ch T tp"
    and m: "m = min (min S T) (nat to)" and live: "reportsLive env nodeOf ch m"
    and cached: "\<forall>h. sdBlockCache db h = None" and cap: "2 \<le> piMaxSize (sdPoolInfo db)"
  shows "\<exists>db'. LoadAndRecover env to (atHeight nodeOf fileOf ch db S tp) = Some (Ret (None, Some db')) \<and>
    represents env nodeOf fileOf (take (Suc m) ch) db'"
proof -
  obtain tp1 where 1: "alignHeights env (atHeight nodeOf fileOf ch db S tp)
      = Some (Ret (None, int (min S T), atHeight nodeOf fileOf ch db (min S T) tp1))"
    "pooled env nodeOf ch (min S T) tp1"
    using alignHeights_ok[OF r p] by blast
  have rm: "rewindable env nodeOf fileOf ch (min S T)"
    using r rewindable_height[OF r, of "min S T" db tp] by (auto simp: rewindable_def sdHeight_def)
  obtain tp2 where 2: "Rewind env (int m) True (atHeight nodeOf fileOf ch db (min S T) tp1)
      = Ret (None, atHeight nodeOf fileOf ch db m tp2)" "pooled env nodeOf ch m tp2"
  proof -
    have "min (min S T) m = m" unfolding m by simp
    then show ?thesis using that Rewind_neglecting[OF rm 1(2), of m db] by auto
  qed
  have mS: "m \<le> S" unfolding m by simp
  let ?tp3 = "moveTo (int m) tp2"
  have 3: "AdvanceToTip tp2 = ((int m, None), ?tp3)"
    using AdvanceToTip_ok[of tp2] 2(2) pooled_tip[OF 2(2)] by (simp add: pooled_def)
  have 4: "pooled env nodeOf ch m ?tp3"
    using 2(2) pooled_tip[OF 2(2)] by (simp add: pooled_def tpInv_moveTo)
  obtain db' where 5: "PopulateLiveTicketCache env (atHeight nodeOf fileOf ch db m ?tp3) = Ret (None, db')"
    "represents env nodeOf fileOf (take (Suc m) ch) db'"
    using Populate_represents[OF r mS 4 live cached cap] by blast
  have h: "sdHeight env (atHeight nodeOf fileOf ch db S tp) = int S"
    using rewindable_height[OF r] by simp
  define t where "t = (if to < 0 then 0 else to)"
  have t: "(if (if t > int S then int S else t) > int T then int T else if t > int S then int S else t) = int m"
    unfolding t_def m by (auto simp: min_def)
  show ?thesis
    using 5(2)
    by (intro exI[of _ db'])
      (simp add: LoadAndRecover_def Let_def h pooled_tip[OF p] 1(1) t_def[symmetric] t 2(1) 3 5(1))
qed

subsection \<open>Waiting for blocks\<close>

text \<open>Every channel is in one place, and nothing was sent to a channel twice.\<close>

definition sdOrderly :: "('x, 'n, 'd, 'b, 'f) StakeDatabase \<Rightarrow> bool" where
  "sdOrderly db \<longleftrightarrow> sw.orderly db"

lemma handler_ok:
  "represents env nodeOf fileOf c db \<Longrightarrow> extendable env nodeOf fileOf c bs \<Longrightarrow> sw.orderly db \<Longrightarrow>
   h < length (c @ bs) \<Longrightarrow> s = (w, int h, Some (sbHash ((c @ bs) ! h))) \<Longrightarrow>
   s \<in> set (sdSent db) \<or> length c \<le> h \<and> w \<in> set (sdWaiting db (int h)) \<Longrightarrow>
   \<exists>db'. BlockConnectedHandler env (map sbHash bs) db = Ret db' \<and> represents env nodeOf fileOf (c @ bs) db' \<and>
     sw.orderly db' \<and> s \<in> set (sdSent db')"
proof (induction bs arbitrary: c db)
  case Nil
  then show ?case by auto
next
  case (Cons b bs)
  have con: "connectable env nodeOf fileOf c b" using Cons.prems(2) by simp
  let ?db = "signalWaiters (int (length c)) (Some (sbHash b)) db"
  obtain db1 where 1: "ConnectBlock env b db = Ret (None, db1)" "represents env nodeOf fileOf (c @ [b]) db1"
    "waitersOf db1 = waitersOf ?db"
    using ConnectBlock_ok[OF Cons.prems(1) con] by blast
  note W = waitersOf_same[OF 1(3)]
  have "s \<in> set (sdSent db1) \<or> length (c @ [b]) \<le> h \<and> w \<in> set (sdWaiting db1 (int h))"
    using Cons.prems(5,6) unfolding W sw.sn_signal sw.wt_signal by (cases "h = length c") auto
  moreover have "sw.orderly db1" using sw.orderly_signal[OF Cons.prems(3)] unfolding W by blast
  ultimately obtain db' where "BlockConnectedHandler env (map sbHash bs) db1 = Ret db'"
    "represents env nodeOf fileOf (c @ b # bs) db'" "sw.orderly db'" "s \<in> set (sdSent db')"
    using Cons.IH[OF 1(2)] Cons.prems(2,4,5) by auto
  then show ?case using 1(1) connectableD(3)[OF con] by (simp add: ConnectBlockHash_def)
qed

lemma represents_addWaiter:
  "represents env nodeOf fileOf c db \<Longrightarrow> represents env nodeOf fileOf c (addWaiter h db)"
  by (simp add: represents_def addWaiter_def)

subsection \<open>The pool information cache\<close>

inductive piReach :: "'p PoolInfoCache \<Rightarrow> bool" where
  piNew: "NewPoolInfoCache n = Inr c \<Longrightarrow> piReach c"
| piStore: "piReach c \<Longrightarrow> piSet h p c = Ret c' \<Longrightarrow> piReach c'"
| piCapacity: "piReach c \<Longrightarrow> SetCapacity n c = (None, c') \<Longrightarrow> piReach c'"

definition piOk :: "'p PoolInfoCache \<Rightarrow> bool" where
  "piOk c \<longleftrightarrow> 2 \<le> piMaxSize c \<and> int (length (piExpireQueue c)) < piMaxSize c \<and>
     (\<forall>k. k \<in> set (piExpireQueue c) \<or> piPoolInfo c k = None)"

lemma expireLoop_ok:
  "expireLoop n q m = (q', m') \<Longrightarrow> \<forall>k. k \<in> set q \<or> m k = None \<Longrightarrow> 1 \<le> n \<Longrightarrow>
   int (length q') < n \<and> (\<forall>k. k \<in> set q' \<or> m' k = None)"
proof (induction n q m rule: expireLoop.induct)
  case (1 n m)
  then show ?case by auto
next
  case (2 n e q m)
  show ?case
  proof (cases "int (length (e # q)) \<ge> n")
    case True
    have d: "\<forall>k. k \<in> set q \<or> (m(e := None)) k = None" using 2(3) by auto
    have r: "expireLoop n q (m(e := None)) = (q', m')" using 2(2) True by simp
    show ?thesis by (rule 2(1)[OF True r d 2(4)])
  next
    case False
    then show ?thesis using 2(2,3) by auto
  qed
qed

lemma piSet_ok': "piOk c \<Longrightarrow> piSet h p c = Ret c' \<Longrightarrow> piOk c'"
  by (cases "piExpireQueue c") (auto simp: piSet_def Let_def piOk_def split: if_splits)

lemma piReach_ok: "piReach c \<Longrightarrow> piOk c"
proof (induction rule: piReach.induct)
  case (piNew n c)
  then show ?case by (auto simp: NewPoolInfoCache_def piOk_def split: if_splits)
next
  case (piStore c h p c')
  then show ?case by (blast intro: piSet_ok')
next
  case (piCapacity c n c')
  obtain q m where e: "expireLoop n (piExpireQueue c) (piPoolInfo c) = (q, m)" by (cases "expireLoop n (piExpireQueue c) (piPoolInfo c)")
  with piCapacity have n: "2 \<le> n" "c' = c\<lparr>piMaxSize := n, piExpireQueue := q, piPoolInfo := m\<rparr>"
    by (auto simp: SetCapacity_def split: if_splits)
  then show ?case using expireLoop_ok[OF e] piCapacity(3) by (simp add: piOk_def)
qed

lemma piSet_get:
  assumes "piOk c"
  shows "\<exists>c'. piSet h p c = Ret c' \<and> (\<forall>k. piGet k c' =
    (if int (length (piExpireQueue c)) + 1 \<ge> piMaxSize c \<and> piExpireQueue c ! 0 = k then None
     else if k = h then Some p else piGet k c))"
  using assms by (cases "piExpireQueue c") (auto simp: piSet_def Let_def piOk_def piGet_def)

lemma piOk_card:
  assumes "piOk c"
  shows "finite (dom (piPoolInfo c)) \<and> int (card (dom (piPoolInfo c))) < piMaxSize c"
proof -
  have d: "dom (piPoolInfo c) \<subseteq> set (piExpireQueue c)" using assms by (force simp: piOk_def)
  then have "card (dom (piPoolInfo c)) \<le> length (piExpireQueue c)"
    using card_mono[OF finite_set d] card_length[of "piExpireQueue c"] by linarith
  then show ?thesis using assms finite_subset[OF d] by (simp add: piOk_def)
qed

subsection \<open>A small chain\<close>

text \<open>Two chains over a genesis block with a ticket: one more block, or two.\<close>

definition exTicket :: "Hash \<Rightarrow> unit MsgTx" where
  "exTicket h = \<lparr>mtTxIn = [], mtTxOut = [\<lparr>toValue = 100, toVersion = 0, toPkScript = []\<rparr>], mtHash = h,
     mtType = TxTypeSStx, mtSize = 0, mtRest = ()\<rparr>"

definition exBlock :: "Hash \<Rightarrow> int \<Rightarrow> Hash list \<Rightarrow> unit StakeBlock" where
  "exBlock h k tickets = \<lparr>sbHash = h, sbHeight = k,
     sbTxs = \<lparr>blTransactions = [], blSTransactions = map (\<lambda>t. \<lparr>txMsg = exTicket t, txIndex = 0, txTree = 1\<rparr>) tickets\<rparr>\<rparr>"

abbreviation "exG \<equiv> exBlock 1 0 [10]"
abbreviation "exA \<equiv> exBlock 2 1 [11]"
abbreviation "exB \<equiv> exBlock 3 1 [12]"
abbreviation "exC \<equiv> exBlock 4 2 []"

definition exEnv :: "(unit, nat, Hash list, unit, int) stakeEnv" where
  "exEnv = \<lparr>seMaturity = 1,
     seGetBlock = (\<lambda>h. if h = 1 then Inr exG else if h = 2 then Inr exA else if h = 3 then Inr exB
       else if h = 4 then Inr exC else Inl []),
     seBlockAt = (\<lambda>i. if i = 0 then Inr exG else if i = 1 then Inr exB else Inl []),
     seGetTx = (\<lambda>h. Inr (exTicket h)),
     sePrevBlock = (\<lambda>h. if h = 4 then Inr 3 else if h = 2 \<or> h = 3 then Inr 1 else Inl []),
     seHeaderHeight = (\<lambda>h. Inr 0), seHeight = (\<lambda>n. word_of_nat (n - 1)),
     seWinners = (\<lambda>n. if n = 2 then [10] else []), seExpiredByBlock = (\<lambda>n. []), sePoolSize = int,
     seLiveTickets = (\<lambda>n. if n = 2 then [10] else if n = 3 then [12] else []),
     seConnectNode = (\<lambda>n b s r m. Inr (Some (n + 1))), seDisconnectNode = (\<lambda>n b d. Inr (Some (n - 1))),
     seWriteConnected = (\<lambda>n h d. (None, d @ [h])), seWriteDisconnected = (\<lambda>n h n' d. (None, butlast d)),
     seDbState = (\<lambda>d. if d = [] then Inl [] else Inr (word_of_nat (length d - 1), last d)),
     seDbSet = (\<lambda>db h d. Inr ()), seToCoin = (\<lambda>v. uint v), seAverage = (\<lambda>v n. v div n), seZero = 0,
     sePrint = (\<lambda>h. [])\<rparr>"

definition exDb :: "(unit, nat, Hash list, unit, int) StakeDatabase" where
  "exDb = (openedDatabase exEnv 1 2 [1, 2] (newTicketPool [\<lparr>In = [10], Out = []\<rparr>] ()))
     \<lparr>sdLiveTicketCache := [10 \<mapsto> 100], sdPoolValue := 100\<rparr>"

lemmas ex_defs = exEnv_def exBlock_def exTicket_def TicketsInBlock_def TicketsSpentInBlock_def
  RevokedTicketsInBlock_def ticketValue_def

lemma ex_diffs:
  "chainDiffs exEnv length [exG, exA] = [\<lparr>In = [10], Out = []\<rparr>]"
  "chainDiffs exEnv length [exG, exB] = [\<lparr>In = [10], Out = []\<rparr>]"
  "chainDiffs exEnv length [exG, exB, exC] = [\<lparr>In = [10], Out = []\<rparr>, \<lparr>In = [12], Out = [10]\<rparr>]"
  "chainDiffs exEnv length [exG] = []"
  by (simp_all add: chainDiffs_def upt_rec liveDiff_def maturingAt_def ex_defs)

lemma ex_live: "fetchable exEnv h" "valueOf exEnv h = 100"
  by (simp_all add: fetchable_def valueOf_def ex_defs)

lemma ex_fields:
  "seMaturity exEnv = 1" "seHeight exEnv n = word_of_nat (n - 1)" "sbHash (exBlock h k ts) = h"
  "sbHeight (exBlock h k ts) = k"
  by (simp_all add: exEnv_def exBlock_def)

lemma exDb_fields:
  "sdBestNode exDb = 2" "sdStakeDB exDb = [1, 2]" "sdBlockCache exDb = Map.empty" "sdPoolValue exDb = 100"
  "sdLiveTicketCache exDb = [10 \<mapsto> 100]" "piMaxSize (sdPoolInfo exDb) = 513"
  "sdPoolDB exDb = newTicketPool [\<lparr>In = [10], Out = []\<rparr>] ()"
  "sdHeightWaiters exDb = Map.empty" "sdSent exDb = []" "sdChans exDb = 0"
  by (simp_all add: exDb_def openedDatabase_def)

lemma exDb_represents: "represents exEnv length (map sbHash) [exG, exA] exDb"
proof -
  have "liveOf exEnv {10} = ([10 \<mapsto> 100], 100)" by (auto simp: liveOf_def ex_live)
  moreover have "tpInv (newTicketPool [\<lparr>In = [10], Out = []\<rparr>] ())"
    by (rule newTicketPool_inv) (simp add: validDiffs_def diffFits_def)
  moreover have "diffs (newTicketPool [\<lparr>In = [10], Out = []\<rparr>] ()) = [\<lparr>In = [10], Out = []\<rparr>]"
    by (simp add: newTicketPool_def)
  ultimately show ?thesis
    by (simp add: represents_def ex_diffs exDb_fields ex_fields poolAt_def stepDiff_def)
qed

lemma ex_ConnectBlock:
  "extendable exEnv length (map sbHash) [exG] [exB, exC]"
  "undoable exEnv length (map sbHash) [exG] [exA]" "connectable exEnv length (map sbHash) [exG] exB"
  "undoable exEnv length (map sbHash) [exG] [exB, exC]"
proof -
  have B: "liveDiff exEnv length [exG, exB] 1 = \<lparr>In = [10], Out = []\<rparr>"
    "liveDiff exEnv length [exG, exA] 1 = \<lparr>In = [10], Out = []\<rparr>"
    "liveDiff exEnv length [exG, exB, exC] 2 = \<lparr>In = [12], Out = [10]\<rparr>"
    by (simp_all add: liveDiff_def maturingAt_def ex_defs)
  have P: "poolAt [\<lparr>In = [10], Out = []\<rparr>] 1 = {10}" by (simp add: poolAt_def stepDiff_def)
  show 1: "connectable exEnv length (map sbHash) [exG] exB"
    by (simp add: connectable_def B[simplified] ex_diffs diffFits_def diffFetchable_def ex_live) (simp add: ex_defs)
  have 2: "connectable exEnv length (map sbHash) [exG, exB] exC"
    by (simp add: connectable_def B[simplified] numeral_2_eq_2[symmetric] ex_diffs diffFits_def diffFetchable_def
        ex_live P[simplified]) (simp add: ex_defs)
  show "extendable exEnv length (map sbHash) [exG] [exB, exC]" using 1 2 by simp
  have D: "disconnectable exEnv length (map sbHash) [exG] exA" "disconnectable exEnv length (map sbHash) [exG] exB"
    "disconnectable exEnv length (map sbHash) [exG, exB] exC"
    by (simp_all add: disconnectable_def diffFetchable_def ex_live) (simp_all add: ex_defs)
  then show "undoable exEnv length (map sbHash) [exG] [exA]" "undoable exEnv length (map sbHash) [exG] [exB, exC]"
    by (auto simp: undoable_def less_Suc_eq)
qed

subsection \<open>Properties\<close>

text \<open>C2: a chain reorganization of the stake database implements the switch of the chain: a database that
  represents a chain represents, after the handler returned without an error, the chain with the blocks
  above the common ancestor replaced by those of the new chain, with its node, its pool diffs, its live
  tickets and their total value. Premises: the steps of the old blocks can be undone (\<open>undoable\<close>) and
  those of the new blocks done (\<open>extendable\<close>). That is, the node returns the blocks, the stake library
  connects and disconnects them, the diffs fit, the databases store and load what they are given, and
  the transactions of the tickets whose values are added or subtracted can all be fetched: a ticket
  that cannot be fetched is only logged, and the total value is then wrong without an error.\<close>

theorem ReorgHandler_switches:
  assumes "represents env nodeOf fileOf (c @ old) db" and "c \<noteq> []" and "new \<noteq> []"
    and "undoable env nodeOf fileOf c old" and "extendable env nodeOf fileOf c new"
    and "rdNewChain r = map sbHash new" and "rdNewChainHeight r = int (length c + length new) - 1"
  shows "\<exists>db'. monitorReorgHandler env r db = Ret (None, db') \<and> represents env nodeOf fileOf (c @ new) db'"
proof -
  obtain h db' where "switchToSideChain env r db = Ret (h, Some (sbHash (last new)), None, db')"
    "represents env nodeOf fileOf (c @ new) db'"
    using switch_ok[OF assms] by blast
  then show ?thesis by (simp add: monitorReorgHandler_def)
qed

definition exReorg :: ReorgData where
  "exReorg = \<lparr>rdCommonAncestor = 1, rdOldChainHead = 2, rdOldChainHeight = 1, rdOldChain = [2],
     rdNewChainHead = 4, rdNewChainHeight = 2, rdNewChain = [3, 4]\<rparr>"

theorem ReorgHandler_switches_witness:
  "\<exists>db'. monitorReorgHandler exEnv exReorg exDb = Ret (None, db') \<and>
    represents exEnv length (map sbHash) [exG, exB, exC] db'"
  using ReorgHandler_switches[of exEnv length "map sbHash" "[exG]" "[exA]" exDb "[exB, exC]" exReorg]
    exDb_represents ex_ConnectBlock
  by (simp add: exReorg_def ex_fields)

text \<open>C3: recovery at the start ends, and makes a database that represents a prefix of the chain, wherever
  the stake database and the ticket pool stood: at the lowest of the two heights and the height that was
  asked for.\<close>

theorem LoadAndRecover_recovers:
  assumes "rewindable env nodeOf fileOf ch S" and "pooled env nodeOf ch T tp"
    and "m = min (min S T) (nat to)" and "reportsLive env nodeOf ch m"
    and "db = openedDatabase env gen (nodeOf (take (Suc S) ch)) (fileOf (take (Suc S) ch)) tp"
  shows "\<exists>db'. LoadAndRecover env to db = Some (Ret (None, Some db')) \<and>
    represents env nodeOf fileOf (take (Suc m) ch) db'"
proof -
  have db: "atHeight nodeOf fileOf ch db S tp = db" by (simp add: atHeight_def assms(5) openedDatabase_def)
  show ?thesis
    using LoadAndRecover_ok[OF assms(1-4), of db, unfolded db]
    by (simp add: assms(5) openedDatabase_def)
qed

theorem LoadAndRecover_recovers_witness:
  "\<exists>db'. LoadAndRecover exEnv 5 (openedDatabase exEnv 1 3 [1, 3, 4] (newTicketPool [\<lparr>In = [10], Out = []\<rparr>] ()))
      = Some (Ret (None, Some db')) \<and> represents exEnv length (map sbHash) [exG, exB] db'"
proof -
  let ?ch = "[exG, exB, exC]" and ?tp = "newTicketPool [\<lparr>In = [10], Out = []\<rparr>] ()"
  have "\<forall>k < 2. disconnectable exEnv length (map sbHash) (take (Suc k) ?ch) (?ch ! Suc k)"
    using ex_ConnectBlock(4) by (auto simp: undoable_def less_Suc_eq numeral_2_eq_2)
  then have r: "rewindable exEnv length (map sbHash) ?ch 2" by (simp add: rewindable_def ex_fields)
  have "tpInv ?tp" by (rule newTicketPool_inv) (simp add: validDiffs_def diffFits_def)
  then have p: "pooled exEnv length ?ch 1 ?tp" by (simp add: pooled_def ex_diffs newTicketPool_def)
  have l: "reportsLive exEnv length ?ch 1"
    by (simp add: reportsLive_def ex_diffs ex_live poolAt_def stepDiff_def) (simp add: ex_defs)
  show ?thesis
    using LoadAndRecover_recovers[OF r p _ l, of 5 _ 1] by (simp add: ex_fields numeral_3_eq_3)
qed

text \<open>whoever waits for a height above the best block gets the hash of the block that the chain monitor
  connects at that height, and nothing else, whatever is connected before and after it.\<close>

theorem waiting_for_height:
  assumes "represents env nodeOf fileOf c db" and "extendable env nodeOf fileOf c bs" and "sdOrderly db"
    and "length c \<le> h" and "h < length c + length bs"
  shows "\<exists>w db1 db'. sdWaitForHeight env (int h) db = Ret (w, db1) \<and>
    BlockConnectedHandler env (map sbHash bs) db1 = Ret db' \<and>
    filter (\<lambda>s. fst s = w) (sdSent db') = [(w, int h, Some (sbHash ((c @ bs) ! h)))]"
proof -
  let ?db1 = "addWaiter (int h) db" and ?s = "(sdChans db, int h, Some (sbHash ((c @ bs) ! h)))"
  have w: "sdWaitForHeight env (int h) db = Ret (sdChans db, ?db1)"
    using representsD(11)[OF assms(1)] assms(4) by (simp add: sdWaitForHeight_def Let_def)
  have "sdChans db \<in> set (sdWaiting ?db1 (int h))" by (simp add: sw.wt_register)
  moreover have "sw.orderly ?db1" using assms(3) sw.orderly_register unfolding sdOrderly_def by blast
  ultimately obtain db' where db': "BlockConnectedHandler env (map sbHash bs) ?db1 = Ret db'" "sw.orderly db'"
    "?s \<in> set (sdSent db')"
    using handler_ok[OF represents_addWaiter[OF assms(1)] assms(2), of "int h" h ?s "sdChans db"] assms(4,5) by auto
  obtain v where v: "filter (\<lambda>s. fst s = sdChans db) (sdSent db') = [(sdChans db, int h, v)]"
    using sw.sent_once[OF db'(2,3)] unfolding sw.answered_def by blast
  have "?s \<in> set (filter (\<lambda>s. fst s = sdChans db) (sdSent db'))" using db'(3) by simp
  then have "v = Some (sbHash ((c @ bs) ! h))" unfolding v by simp
  then show ?thesis using w db'(1) v by blast
qed

theorem waiting_for_height_witness:
  "\<exists>w db1 db'. sdWaitForHeight exEnv 2 (exDb\<lparr>sdBestNode := 1, sdStakeDB := [1], sdPoolDB := newTicketPool [] (),
      sdLiveTicketCache := Map.empty, sdPoolValue := 0\<rparr>) = Ret (w, db1) \<and>
    BlockConnectedHandler exEnv [3, 4] db1 = Ret db' \<and> filter (\<lambda>s. fst s = w) (sdSent db') = [(w, 2, Some 4)]"
proof -
  let ?db = "exDb\<lparr>sdBestNode := 1, sdStakeDB := [1], sdPoolDB := newTicketPool [] (),
      sdLiveTicketCache := Map.empty, sdPoolValue := 0\<rparr>"
  have "tpInv (newTicketPool [] ())" by (rule newTicketPool_inv) (simp add: validDiffs_def)
  then have "represents exEnv length (map sbHash) [exG] ?db"
    by (simp add: represents_def ex_diffs exDb_fields ex_fields liveOf_empty) (simp add: newTicketPool_def)
  moreover have "sdOrderly ?db"
    unfolding sdOrderly_def by (rule sw.orderlyI) (simp_all add: sdWaiting_def waitersAt_def exDb_fields)
  ultimately show ?thesis
    using waiting_for_height[of exEnv length "map sbHash" "[exG]" ?db "[exB, exC]" 2] ex_ConnectBlock(1)
    by (simp add: ex_fields)
qed

text \<open>C21: connecting a block and disconnecting it again gives back the node, the pool diffs, the live
  tickets and the pool value.\<close>

theorem connect_disconnect:
  assumes "represents env nodeOf fileOf c db" and "connectable env nodeOf fileOf c b"
    and "disconnectable env nodeOf fileOf c b"
  shows "\<exists>db1 db2. ConnectBlock env b db = Ret (None, db1) \<and> DisconnectBlock env False db1 = Ret (None, db2) \<and>
    sdHeight env db1 = sdHeight env db + 1 \<and> sdBestNode db2 = sdBestNode db \<and> sdStakeDB db2 = sdStakeDB db \<and>
    sdLiveTicketCache db2 = sdLiveTicketCache db \<and> sdPoolValue db2 = sdPoolValue db \<and>
    diffs (sdPoolDB db2) = diffs (sdPoolDB db) \<and> tip (sdPoolDB db2) = tip (sdPoolDB db)"
proof -
  obtain db1 where 1: "ConnectBlock env b db = Ret (None, db1)" "represents env nodeOf fileOf (c @ [b]) db1"
    using ConnectBlock_ok[OF assms(1,2)] by blast
  obtain db2 where 2: "disconnectBlock env False db1 = Ret (None, db2)" "represents env nodeOf fileOf c db2"
    using disconnectBlock_ok[OF 1(2) assms(3)] representsD(1)[OF assms(1)] by blast
  note D = representsD[OF assms(1)] and E = representsD[OF 2(2)]
  have "sdLiveTicketCache db2 = sdLiveTicketCache db \<and> sdPoolValue db2 = sdPoolValue db"
    using D(7) E(7) by (metis Pair_inject)
  then show ?thesis
    using 1(1) 2(1) D(2,3,6,10,11) E(2,3,6,10) representsD(11)[OF 1(2)] by (simp add: DisconnectBlock_def)
qed

theorem connect_disconnect_witness:
  "\<exists>db1 db2. ConnectBlock exEnv exC (exDb\<lparr>sdStakeDB := [1, 3]\<rparr>) = Ret (None, db1) \<and>
    DisconnectBlock exEnv False db1 = Ret (None, db2) \<and> sdPoolValue db2 = 100"
proof -
  have "represents exEnv length (map sbHash) [exG, exB] (exDb\<lparr>sdStakeDB := [1, 3]\<rparr>)"
    using exDb_represents by (simp add: represents_def ex_diffs ex_fields exDb_fields less_Suc_eq)
  moreover have "connectable exEnv length (map sbHash) [exG, exB] exC" using ex_ConnectBlock(1) by simp
  moreover have "disconnectable exEnv length (map sbHash) [exG, exB] exC"
    using ex_ConnectBlock(4) by (force simp: undoable_def)
  ultimately show ?thesis
    using connect_disconnect[of exEnv length "map sbHash" "[exG, exB]" "exDb\<lparr>sdStakeDB := [1, 3]\<rparr>" exC]
    by (auto simp: exDb_fields)
qed

text \<open>C28: when the switch to the side chain fails before a block was connected (the reorganization has no
  blocks, or the parent of the best block cannot be read), the handler does not return the error: it
  panics.\<close>

theorem failed_reorg_panics:
  assumes "rdNewChain r = [] \<or>
    rdNewChainHeight r - int (length (rdNewChain r)) < sdHeight env db \<and> (\<exists>e. dbPrevBlock env db = Inl e)"
  shows "(\<exists>h err. switchToSideChain env r db = Ret (h, None, Some err, db)) \<and> monitorReorgHandler env r db = Panic"
proof (cases "rdNewChain r = []")
  case True
  then show ?thesis by (simp add: monitorReorgHandler_def switchToSideChain_def)
next
  case False
  then obtain e n where e: "dbPrevBlock env db = Inl e"
    and n: "nat (sdHeight env db - (rdNewChainHeight r - int (length (rdNewChain r)))) = Suc n"
    using assms by (metis diff_gt_0_iff_gt gr0_implies_Suc zero_less_nat_eq)
  have "DisconnectBlocks env (sdHeight env db - (rdNewChainHeight r - int (length (rdNewChain r)))) db = Ret (Some e, db)"
    unfolding DisconnectBlocks_def n using e by (simp add: disconnectBlock_def Let_def)
  then show ?thesis using False by (simp add: monitorReorgHandler_def switchToSideChain_def Let_def)
qed

theorem failed_reorg_panics_witness:
  "monitorReorgHandler exEnv (exReorg\<lparr>rdNewChain := []\<rparr>) exDb = Panic"
  using failed_reorg_panics[of "exReorg\<lparr>rdNewChain := []\<rparr>" exEnv exDb] by simp

text \<open>the pool information cache never has as many entries as its size, storing never panics, and a
  stored entry is found unless the queue was full and the same hash was the first in it.\<close>

theorem pool_info_cache_bounded:
  assumes "piReach c"
  shows "finite (dom (piPoolInfo c)) \<and> int (card (dom (piPoolInfo c))) < piMaxSize c \<and>
    (\<exists>c'. piSet h p c = Ret c' \<and> (\<forall>k. piGet k c' =
      (if int (length (piExpireQueue c)) + 1 \<ge> piMaxSize c \<and> piExpireQueue c ! 0 = k then None
       else if k = h then Some p else piGet k c)))"
  using piOk_card[OF piReach_ok[OF assms]] piSet_get[OF piReach_ok[OF assms]] by blast

theorem pool_info_cache_bounded_witness:
  "\<exists>c'. piSet 5 () \<lparr>piPoolInfo = [5 \<mapsto> ()], piExpireQueue = [5], piMaxSize = 2\<rparr> = Ret c' \<and> piGet 5 c' = None"
proof -
  let ?e = "\<lparr>piPoolInfo = Map.empty, piExpireQueue = [], piMaxSize = 3\<rparr> :: unit PoolInfoCache"
  let ?f = "\<lparr>piPoolInfo = [5 \<mapsto> ()], piExpireQueue = [5], piMaxSize = 3\<rparr> :: unit PoolInfoCache"
  let ?c = "\<lparr>piPoolInfo = [5 \<mapsto> ()], piExpireQueue = [5], piMaxSize = 2\<rparr> :: unit PoolInfoCache"
  have "piReach ?e" by (rule piNew[of 3]) (simp add: NewPoolInfoCache_def)
  then have "piReach ?f" by (rule piStore[of _ 5 "()"]) (simp add: piSet_def)
  then have "piReach (?c)" by (rule piCapacity[of _ 2]) (simp add: SetCapacity_def)
  from pool_info_cache_bounded[OF this, of 5 "()"] show ?thesis by auto
qed

end
