(* ===== verification/Decimal.thy ===== *)
theory Decimal
  imports Prelude
begin

text \<open>
  The decimal formatting and parsing of Go's \<open>strconv\<close> and \<open>fmt\<close> packages, as far as the program
  uses them: \<open>AppendUint\<close> (and the verb \<open>%d\<close>) in base 10, \<open>ParseUint(s, 10, 64)\<close> and \<open>Atoi\<close>.
  Byte strings are lists of characters.
\<close>

subsection \<open>Digits\<close>

definition digitChar :: "nat \<Rightarrow> char" where
  "digitChar n = char_of (48 + n)"

definition digitVal :: "char \<Rightarrow> nat option" where
  "digitVal c = (let n = of_char c :: nat in if 48 \<le> n \<and> n \<le> 57 then Some (n - 48) else None)"

definition isDigit :: "char \<Rightarrow> bool" where
  "isDigit c = (digitVal c \<noteq> None)"

lemma of_char_digitChar: "n < 10 \<Longrightarrow> (of_char (digitChar n) :: nat) = 48 + n"
  by (simp add: digitChar_def)

lemma digitVal_digitChar [simp]: "n < 10 \<Longrightarrow> digitVal (digitChar n) = Some n"
  by (simp add: digitVal_def of_char_digitChar)

lemma isDigit_digitChar [simp]: "n < 10 \<Longrightarrow> isDigit (digitChar n)"
  by (simp add: isDigit_def)

subsection \<open>Formatting\<close>

fun showNat :: "nat \<Rightarrow> string" where
  "showNat n = (if n < 10 then [digitChar n] else showNat (n div 10) @ [digitChar (n mod 10)])"

declare showNat.simps [simp del]

definition showInt :: "int \<Rightarrow> string" where
  "showInt i = (if i < 0 then CHR ''-'' # showNat (nat (- i)) else showNat (nat i))"

text \<open>The verb \<open>%9d\<close>: padded with blanks on the left to nine characters.\<close>

definition padLeft :: "nat \<Rightarrow> string \<Rightarrow> string" where
  "padLeft w s = replicate (w - length s) CHR '' '' @ s"

lemma showNat_digits: "c \<in> set (showNat n) \<Longrightarrow> isDigit c"
proof (induction n rule: showNat.induct)
  case (1 n)
  show ?case
  proof (cases "n < 10")
    case True
    then show ?thesis using 1 by (simp add: showNat.simps)
  next
    case False
    then have "c \<in> set (showNat (n div 10)) \<or> c = digitChar (n mod 10)"
      using 1(2) by (subst (asm) showNat.simps) auto
    then show ?thesis using 1(1)[OF False] by auto
  qed
qed

lemma showNat_not_Nil [simp]: "showNat n \<noteq> []"
  by (subst showNat.simps) simp

subsection \<open>Parsing\<close>

text \<open>The two kinds of \<open>strconv.NumError\<close>.\<close>

datatype numError = ErrSyntax | ErrRange

definition maxUint64 :: nat where
  "maxUint64 = 18446744073709551615"

text \<open>
  The loop of \<open>ParseUint\<close>: it stops at the first character that is no digit, and at the first
  digit with which the value exceeds the range.
\<close>

fun parseDigits :: "nat \<Rightarrow> string \<Rightarrow> numError + nat" where
  "parseDigits n [] = Inr n"
| "parseDigits n (c # s) = (case digitVal c of
     None \<Rightarrow> Inl ErrSyntax
   | Some d \<Rightarrow> if maxUint64 < n * 10 + d then Inl ErrRange else parseDigits (n * 10 + d) s)"

definition ParseUint :: "string \<Rightarrow> numError + nat" where
  "ParseUint s = (if s = [] then Inl ErrSyntax else parseDigits 0 s)"

text \<open>\<open>Atoi\<close> (a 64-bit \<open>int\<close>): an optional sign, then \<open>ParseUint\<close>.\<close>

definition Atoi :: "string \<Rightarrow> numError + int" where
  "Atoi s = (let neg = (case s of c # _ \<Rightarrow> c = CHR ''-'' | [] \<Rightarrow> False);
                 signed = (case s of c # _ \<Rightarrow> c = CHR ''-'' \<or> c = CHR ''+'' | [] \<Rightarrow> False)
             in case ParseUint (if signed then tl s else s) of
                  Inl e \<Rightarrow> Inl e
                | Inr n \<Rightarrow> if neg then (if 2 ^ 63 < n then Inl ErrRange else Inr (- int n))
                           else (if 2 ^ 63 \<le> n then Inl ErrRange else Inr (int n)))"

text \<open>The value of a list of digits, whatever its size.\<close>

definition digitsVal :: "nat \<Rightarrow> string \<Rightarrow> nat" where
  "digitsVal n s = foldl (\<lambda>n c. n * 10 + the (digitVal c)) n s"

lemma digitsVal_simps [simp]:
  "digitsVal n [] = n" "digitsVal n (c # s) = digitsVal (n * 10 + the (digitVal c)) s"
  "digitsVal n (s @ [c]) = digitsVal n s * 10 + the (digitVal c)"
  by (simp_all add: digitsVal_def)

lemma digitsVal_ge: "n \<le> digitsVal n s"
proof (induction s arbitrary: n)
  case (Cons c s)
  have "n \<le> n * 10 + the (digitVal c)" by simp
  also have "\<dots> \<le> digitsVal (n * 10 + the (digitVal c)) s" by (rule Cons)
  finally show ?case by simp
qed simp

lemma digitsVal_showNat: "digitsVal 0 (showNat n) = n"
proof (induction n rule: showNat.induct)
  case (1 n)
  show ?case
  proof (cases "n < 10")
    case True
    then show ?thesis by (simp add: showNat.simps)
  next
    case False
    then show ?thesis using 1[OF False] by (subst showNat.simps) simp
  qed
qed

lemma parseDigits_digits:
  "\<forall>c\<in>set s. isDigit c \<Longrightarrow>
   parseDigits n s = (if s = [] \<or> digitsVal n s \<le> maxUint64 then Inr (digitsVal n s) else Inl ErrRange)"
proof (induction s arbitrary: n)
  case Nil
  then show ?case by simp
next
  case (Cons c s)
  then obtain d where d: "digitVal c = Some d" by (auto simp: isDigit_def)
  have "n * 10 + d \<le> digitsVal (n * 10 + d) s" by (rule digitsVal_ge)
  then show ?case using Cons d by auto
qed

lemma ParseUint_digits:
  assumes "\<forall>c\<in>set s. isDigit c" and "s \<noteq> []"
  shows "ParseUint s = (if digitsVal 0 s \<le> maxUint64 then Inr (digitsVal 0 s) else Inl ErrRange)"
  using assms by (simp add: ParseUint_def parseDigits_digits)

lemma ParseUint_showNat [simp]: "n \<le> maxUint64 \<Longrightarrow> ParseUint (showNat n) = Inr n"
  using showNat_digits by (subst ParseUint_digits) (auto simp: digitsVal_showNat)

lemma isDigit_not_sign: "isDigit c \<Longrightarrow> c \<noteq> CHR ''-'' \<and> c \<noteq> CHR ''+''"
  by (auto simp: isDigit_def digitVal_def)

lemma Atoi_digits:
  assumes "\<forall>c\<in>set s. isDigit c" and "s \<noteq> []"
  shows "Atoi s = (if digitsVal 0 s < 2 ^ 63 then Inr (int (digitsVal 0 s)) else Inl ErrRange)"
proof -
  obtain c r where s: "s = c # r" using assms(2) by (cases s) auto
  have c: "c \<noteq> CHR ''-'' \<and> c \<noteq> CHR ''+''" using assms(1) s isDigit_not_sign[of c] by simp
  have P: "ParseUint s = (if digitsVal 0 s \<le> maxUint64 then Inr (digitsVal 0 s) else Inl ErrRange)"
    by (rule ParseUint_digits[OF assms])
  have "Atoi s = (case ParseUint s of Inl e \<Rightarrow> Inl e
     | Inr n \<Rightarrow> if 2 ^ 63 \<le> n then Inl ErrRange else Inr (int n))"
    using c by (simp add: Atoi_def s Let_def split: sum.splits)
  then show ?thesis using P by (simp add: maxUint64_def)
qed

lemma Atoi_showNat: "n < 2 ^ 63 \<Longrightarrow> Atoi (showNat n) = Inr (int n)"
  using showNat_digits by (subst Atoi_digits) (auto simp: digitsVal_showNat)

end
