(* ===== verification/Semver.thy ===== *)
theory Semver
  imports Decimal
begin

text \<open>
  Semantic versions (\<open>semver/semver.go\<close>): the order of compatible versions, the printer and the
  parser. The components are \<open>uint32\<close>, so words of 32 bits; the regular expression of the parser
  is matched by hand, left to right, each part as long as possible, and \<open>matchVersion_iff\<close> shows
  that this finds every match.
\<close>

record Semver =
  major :: "32 word"
  minor :: "32 word"
  patch :: "32 word"

definition NewSemver :: "32 word \<Rightarrow> 32 word \<Rightarrow> 32 word \<Rightarrow> Semver" where
  "NewSemver v m p = \<lparr>major = v, minor = m, patch = p\<rparr>"

subsection \<open>Compatibility\<close>

definition Compatible :: "Semver \<Rightarrow> Semver \<Rightarrow> bool" where
  "Compatible required actual =
     (if major required \<noteq> major actual then False
      else if minor required > minor actual then False
      else if minor required = minor actual \<and> patch required > patch actual then False
      else True)"

fun AnyCompatible :: "Semver list \<Rightarrow> Semver \<Rightarrow> bool" where
  "AnyCompatible [] actual = False"
| "AnyCompatible (v # vs) actual = (if Compatible v actual then True else AnyCompatible vs actual)"

definition Split :: "Semver \<Rightarrow> 32 word \<times> 32 word \<times> 32 word" where
  "Split s = (major s, minor s, patch s)"

subsection \<open>Printing and parsing\<close>

definition showSemver :: "Semver \<Rightarrow> string" where
  "showSemver s = showNat (unat (major s)) @ ''.'' @ showNat (unat (minor s)) @ ''.''
                  @ showNat (unat (patch s))"

definition dropDot :: "string \<Rightarrow> string" where
  "dropDot s = (case s of c # r \<Rightarrow> if c = CHR ''.'' then r else s | [] \<Rightarrow> [])"

text \<open>The three submatches of \<open>^v?(\d+)\.?(\d*)\.?(\d*)$\<close>.\<close>

definition matchVersion :: "string \<Rightarrow> (string \<times> string \<times> string) option" where
  "matchVersion ver = (let s0 = (case ver of c # r \<Rightarrow> if c = CHR ''v'' then r else ver | [] \<Rightarrow> []);
       d1 = takeWhile isDigit s0; s1 = dropDot (dropWhile isDigit s0);
       d2 = takeWhile isDigit s1; s2 = dropDot (dropWhile isDigit s1);
       d3 = takeWhile isDigit s2; s3 = dropWhile isDigit s2
     in if d1 \<noteq> [] \<and> s3 = [] then Some (d1, d2, d3) else None)"

datatype semverError = InvalidVersion | BadNumber numError

text \<open>An empty submatch is the number 0; otherwise \<open>Atoi\<close> reads it.\<close>

definition partValue :: "string \<Rightarrow> numError + int" where
  "partValue s = (if s = [] then Inr 0 else Atoi s)"

definition ParseVersionStr :: "string \<Rightarrow> semverError + Semver" where
  "ParseVersionStr ver = (case matchVersion ver of
     None \<Rightarrow> Inl InvalidVersion
   | Some (d1, d2, d3) \<Rightarrow> (case partValue d3 of
       Inl e \<Rightarrow> Inl (BadNumber e)
     | Inr p \<Rightarrow> (case partValue d2 of
         Inl e \<Rightarrow> Inl (BadNumber e)
       | Inr m \<Rightarrow> (case partValue d1 of
           Inl e \<Rightarrow> Inl (BadNumber e)
         | Inr v \<Rightarrow> Inr (NewSemver (word_of_int v) (word_of_int m) (word_of_int p))))))"

subsection \<open>Compatibility is a partial order within a major version\<close>

lemma Compatible_iff:
  "Compatible r a \<longleftrightarrow> major r = major a \<and>
     (minor r < minor a \<or> minor r = minor a \<and> patch r \<le> patch a)"
  by (auto simp: Compatible_def)

lemma AnyCompatible_iff: "AnyCompatible vs a \<longleftrightarrow> (\<exists>v\<in>set vs. Compatible v a)"
  by (induction vs) auto

lemma Compatible_refl: "Compatible s s"
  by (simp add: Compatible_iff)

lemma Compatible_trans: "Compatible r s \<Longrightarrow> Compatible s t \<Longrightarrow> Compatible r t"
  by (auto simp: Compatible_iff)

lemma Compatible_antisym: "Compatible r s \<Longrightarrow> Compatible s r \<Longrightarrow> r = s"
  by (auto simp: Compatible_iff intro!: Semver.equality)

subsection \<open>The regular expression\<close>

lemma isDigit_dot [simp]: "\<not> isDigit CHR ''.''"
  by code_simp

lemma isDigit_v [simp]: "\<not> isDigit CHR ''v''"
  by code_simp

lemma takeWhile_digits:
  "\<forall>c\<in>set d. isDigit c \<Longrightarrow> takeWhile isDigit (d @ s) = d @ takeWhile isDigit s"
  "\<forall>c\<in>set d. isDigit c \<Longrightarrow> dropWhile isDigit (d @ s) = dropWhile isDigit s"
  by (simp_all add: takeWhile_append2 dropWhile_append2)

lemma dropDot_simps [simp]:
  "dropDot [] = []" "dropDot (CHR ''.'' # s) = s"
  by (simp_all add: dropDot_def)

lemma dropDot_cases: "s = dropDot s \<or> s = CHR ''.'' # dropDot s"
  by (cases s) (auto simp: dropDot_def)

lemma digits_all [simp]:
  "\<forall>c\<in>set d. isDigit c \<Longrightarrow> takeWhile isDigit d = d"
  "\<forall>c\<in>set d. isDigit c \<Longrightarrow> dropWhile isDigit d = []"
  by (auto simp: takeWhile_eq_all_conv)

lemma digits_then:
  assumes "d = takeWhile isDigit s" and "t = dropDot (dropWhile isDigit s)"
  shows "s = d @ t \<or> s = d @ ''.'' @ t"
proof -
  define q where "q = dropWhile isDigit s"
  have s: "s = d @ q" unfolding assms(1) q_def by simp
  have "q = t \<or> q = CHR ''.'' # t" using dropDot_cases[of q] assms(2) unfolding q_def by simp
  then show ?thesis using s by auto
qed

lemma matchVersion_sound:
  assumes "matchVersion ver = Some (d1, d2, d3)"
  shows "\<exists>v x y. ver = v @ d1 @ x @ d2 @ y @ d3 \<and> v \<in> {'''', ''v''} \<and> x \<in> {'''', ''.''}
    \<and> y \<in> {'''', ''.''} \<and> d1 \<noteq> [] \<and> (\<forall>c\<in>set (d1 @ d2 @ d3). isDigit c)"
proof -
  define s0 where "s0 = (case ver of c # r \<Rightarrow> if c = CHR ''v'' then r else ver | [] \<Rightarrow> [])"
  define s1 where "s1 = dropDot (dropWhile isDigit s0)"
  define s2 where "s2 = dropDot (dropWhile isDigit s1)"
  have d: "d1 = takeWhile isDigit s0" "d2 = takeWhile isDigit s1" "d3 = takeWhile isDigit s2"
    "d1 \<noteq> []" "dropWhile isDigit s2 = []"
    using assms unfolding matchVersion_def Let_def s0_def[symmetric] s1_def[symmetric]
      s2_def[symmetric] by (simp_all split: if_splits)
  have ver: "ver = s0 \<or> ver = ''v'' @ s0"
    unfolding s0_def by (cases ver) simp_all
  have s0: "s0 = d1 @ s1 \<or> s0 = d1 @ ''.'' @ s1"
    by (rule digits_then[OF d(1) s1_def])
  have s1: "s1 = d2 @ s2 \<or> s1 = d2 @ ''.'' @ s2"
    by (rule digits_then[OF d(2) s2_def])
  have s2: "s2 = d3"
    using takeWhile_dropWhile_id[of isDigit s2] d(3,5) by simp
  have digits: "\<forall>c\<in>set (d1 @ d2 @ d3). isDigit c"
    unfolding d(1-3) by (auto dest: set_takeWhileD)
  obtain v where v: "ver = v @ s0" "v \<in> {'''', ''v''}" using ver by auto
  obtain x where x: "s0 = d1 @ x @ s1" "x \<in> {'''', ''.''}" using s0 by auto
  obtain y where y: "s1 = d2 @ y @ s2" "y \<in> {'''', ''.''}" using s1 by auto
  show ?thesis using v x y s2 d(4) digits by blast
qed

lemma matchVersion_v:
  assumes "v \<in> {'''', ''v''}" and "d1 \<noteq> []" and "\<forall>c\<in>set d1. isDigit c"
  shows "matchVersion (v @ d1 @ s) = matchVersion (d1 @ s)"
proof -
  obtain c r where d1: "d1 = c # r" using assms(2) by (cases d1) auto
  have c: "c \<noteq> CHR ''v''" using assms(3) d1 by auto
  show ?thesis using assms(1) c by (auto simp: matchVersion_def d1)
qed

lemma matchVersion_digits:
  assumes "d1 \<noteq> []" and "\<forall>c\<in>set d1. isDigit c"
  shows "matchVersion (d1 @ s) = (let s1 = dropDot (dropWhile isDigit s);
       d2 = takeWhile isDigit s1; s2 = dropDot (dropWhile isDigit s1)
     in if dropWhile isDigit s2 = [] then Some (d1 @ takeWhile isDigit s, d2, takeWhile isDigit s2)
        else None)"
proof -
  obtain c r where d1: "d1 = c # r" using assms(1) by (cases d1) auto
  have c: "c \<noteq> CHR ''v''" using assms(2) d1 by auto
  have s0: "(case d1 @ s of c # r \<Rightarrow> if c = CHR ''v'' then r else d1 @ s | [] \<Rightarrow> []) = d1 @ s"
    using c by (simp add: d1)
  show ?thesis
    unfolding matchVersion_def s0 Let_def takeWhile_digits[OF assms(2)] using assms(1) by simp
qed

lemma matchVersion_dotted:
  assumes "v \<in> {'''', ''v''}" and "d1 \<noteq> []" and "\<forall>c\<in>set (d1 @ d2 @ d3). isDigit c"
  shows "matchVersion (v @ d1 @ ''.'' @ d2 @ ''.'' @ d3) = Some (d1, d2, d3)"
proof -
  have all: "\<forall>c\<in>set d1. isDigit c" "\<forall>c\<in>set d2. isDigit c" "\<forall>c\<in>set d3. isDigit c"
    using assms(3) by auto
  show ?thesis
    by (simp add: matchVersion_v[OF assms(1,2) all(1)] matchVersion_digits[OF assms(2) all(1)]
      Let_def takeWhile_digits[OF all(2)] all(3))
qed

lemma matchVersion_complete:
  assumes "v \<in> {'''', ''v''}" and "x \<in> {'''', ''.''}" and "y \<in> {'''', ''.''}"
    and "d1 \<noteq> []" and "\<forall>c\<in>set (d1 @ d2 @ d3). isDigit c"
  shows "matchVersion (v @ d1 @ x @ d2 @ y @ d3) \<noteq> None"
proof -
  have all: "\<forall>c\<in>set d1. isDigit c" "\<forall>c\<in>set d2. isDigit c" "\<forall>c\<in>set d3. isDigit c"
    using assms(5) by auto
  consider "x = ''.''" "y = ''.''" | "x = ''.''" "y = ''''" | "x = ''''" "y = ''.''" | "x = ''''" "y = ''''"
    using assms(2,3) by blast
  then show ?thesis
    by cases (simp_all add: matchVersion_v[OF assms(1,4) all(1)]
      matchVersion_digits[OF assms(4) all(1)] Let_def takeWhile_digits[OF all(2)]
      digits_all[OF all(2)] all(3))
qed

text \<open>The hand-written matcher finds a match exactly for the strings of the regular expression.\<close>

lemma matchVersion_iff:
  "matchVersion ver \<noteq> None \<longleftrightarrow>
     (\<exists>v d1 x d2 y d3. ver = v @ d1 @ x @ d2 @ y @ d3 \<and> v \<in> {'''', ''v''} \<and> x \<in> {'''', ''.''}
        \<and> y \<in> {'''', ''.''} \<and> d1 \<noteq> [] \<and> (\<forall>c\<in>set (d1 @ d2 @ d3). isDigit c))" (is "?L = ?R")
proof
  assume ?L
  then obtain d1 d2 d3 where "matchVersion ver = Some (d1, d2, d3)" by auto
  from matchVersion_sound[OF this] show ?R by blast
next
  assume ?R
  then show ?L using matchVersion_complete by blast
qed

subsection \<open>Printed versions are parsed back\<close>

lemma partValue_showNat: "n < 2 ^ 63 \<Longrightarrow> partValue (showNat n) = Inr (int n)"
  by (simp add: partValue_def Atoi_showNat)

lemma unat32_lt [simp]: "unat (w :: 32 word) < 2 ^ 63"
proof -
  have "unat w < 2 ^ 32" using unsigned_less[where 'a = nat, of w] by simp
  then show ?thesis by simp
qed

lemma Parse_show: "v \<in> {'''', ''v''} \<Longrightarrow> ParseVersionStr (v @ showSemver s) = Inr s"
proof -
  assume v: "v \<in> {'''', ''v''}"
  have d: "\<forall>c\<in>set (showNat (unat (major s)) @ showNat (unat (minor s)) @ showNat (unat (patch s))). isDigit c"
    using showNat_digits by auto
  have "matchVersion (v @ showSemver s)
      = Some (showNat (unat (major s)), showNat (unat (minor s)), showNat (unat (patch s)))"
    unfolding showSemver_def using matchVersion_dotted[OF v _ d] by simp
  then show ?thesis
    by (simp add: ParseVersionStr_def partValue_showNat[OF unat32_lt] NewSemver_def)
qed

text \<open>a printed version is parsed back, with and without the prefix \<open>v\<close>. A version string that
  is parsed is a match of the documented expression, so nothing else is accepted.\<close>

theorem semver_roundtrip:
  "ParseVersionStr (showSemver s) = Inr s \<and> ParseVersionStr (''v'' @ showSemver s) = Inr s
   \<and> (ParseVersionStr ver = Inr t \<longrightarrow>
       (\<exists>v d1 x d2 y d3. ver = v @ d1 @ x @ d2 @ y @ d3 \<and> v \<in> {'''', ''v''} \<and> x \<in> {'''', ''.''}
        \<and> y \<in> {'''', ''.''} \<and> d1 \<noteq> [] \<and> (\<forall>c\<in>set (d1 @ d2 @ d3). isDigit c)))"
proof (intro conjI impI)
  show "ParseVersionStr (showSemver s) = Inr s"
    using Parse_show[of "''''" s] unfolding append_Nil by blast
  show "ParseVersionStr (''v'' @ showSemver s) = Inr s"
    using Parse_show[of "''v''" s] by blast
next
  assume "ParseVersionStr ver = Inr t"
  then have "matchVersion ver \<noteq> None" by (auto simp: ParseVersionStr_def split: option.splits)
  then show "\<exists>v d1 x d2 y d3. ver = v @ d1 @ x @ d2 @ y @ d3 \<and> v \<in> {'''', ''v''}
      \<and> x \<in> {'''', ''.''} \<and> y \<in> {'''', ''.''} \<and> d1 \<noteq> [] \<and> (\<forall>c\<in>set (d1 @ d2 @ d3). isDigit c)"
    unfolding matchVersion_iff .
qed

theorem semver_roundtrip_witness:
  "\<exists>v d1 x d2 y d3. ''v7.3'' = v @ d1 @ x @ d2 @ y @ d3 \<and> v \<in> {'''', ''v''} \<and> x \<in> {'''', ''.''}
        \<and> y \<in> {'''', ''.''} \<and> d1 \<noteq> [] \<and> (\<forall>c\<in>set (d1 @ d2 @ d3). isDigit c)"
proof -
  have "ParseVersionStr ''v7.3'' = Inr (NewSemver 7 3 0)"
    by (simp add: ParseVersionStr_def matchVersion_def dropDot_def isDigit_def partValue_def
      Atoi_def ParseUint_def digitVal_def maxUint64_def Let_def NewSemver_def)
  then show ?thesis using semver_roundtrip by blast
qed

text \<open>The accepted versions are an upper set: compatibility is a partial order, and a version that
  is compatible with an accepted one is accepted.\<close>

theorem Compatible_order:
  "Compatible s s \<and> (Compatible r s \<and> Compatible s t \<longrightarrow> Compatible r t)
   \<and> (Compatible r s \<and> Compatible s r \<longrightarrow> r = s)
   \<and> (AnyCompatible vs s \<and> Compatible s t \<longrightarrow> AnyCompatible vs t)"
  unfolding AnyCompatible_iff using Compatible_refl Compatible_trans Compatible_antisym by blast

text \<open>
  \<open>Atoi\<close> reads 64-bit numbers, and the conversion to \<open>uint32\<close> drops their upper half: a version
  whose major part is 4294967296 is parsed as major version 0 instead of being refused.
\<close>

lemma parse_truncates: "ParseVersionStr ''4294967296.1'' = Inr (NewSemver 0 1 0)"
  by (simp add: ParseVersionStr_def matchVersion_def dropDot_def isDigit_def partValue_def
      Atoi_def ParseUint_def digitVal_def maxUint64_def Let_def NewSemver_def)

end
