(* ===== verification/SqlArrays.thy ===== *)
theory SqlArrays
  imports Decimal "HOL-Library.Sublist"
begin

text \<open>
  The arrays of PostgreSQL in text format: the parser of \<open>db/dbtypes/internal/arrays.go\<close> and the
  type \<open>UInt64Array\<close> of \<open>db/dbtypes/types.go\<close> with its \<open>Scan\<close> and \<open>Value\<close> methods, and the totals
  of the rows deleted with a block. The parser is one function over the unread input, with the
  offset of the input read so far; its three labels are \<open>Element\<close>, the loop after it, and
  \<open>Close\<close>. It could loop forever on an empty delimiter, so it is a \<open>partial_function\<close>, and the
  index and the divisions that Go checks at run time are branches that panic.
\<close>

subsection \<open>The parser\<close>

abbreviation "cOpen \<equiv> CHR ''{''"
abbreviation "cClose \<equiv> CHR ''}''"
abbreviation "cQuote \<equiv> CHR 0x22"
abbreviation "cEsc \<equiv> CHR 0x5C"

datatype arrayError =
    ExpectedOpen
  | Unexpected char nat
  | ExpectedClose nat
  | DimensionMismatch
  | NotLinear "nat list" string
  | BadElement nat numError
  | CannotConvert

text \<open>The loop \<open>Open\<close>: the number of opening braces, the input after them, and whether it stopped
  at a closing brace, which is the empty array.\<close>

fun openLoop :: "nat \<Rightarrow> string \<Rightarrow> nat \<times> string \<times> bool" where
  "openLoop i [] = (i, [], False)"
| "openLoop i (c # s) =
     (if c = cOpen then openLoop (i + 1) s else if c = cClose then (i, c # s, True)
      else (i, c # s, False))"

text \<open>The characters of a quoted element; \<open>None\<close> when the input ends before the closing quote.\<close>

fun scanQuoted :: "bool \<Rightarrow> string \<Rightarrow> nat \<Rightarrow> string \<Rightarrow> string option \<times> string \<times> nat" where
  "scanQuoted escape el i [] = (None, [], i)"
| "scanQuoted escape el i (c # s) =
     (if escape then scanQuoted False (el @ [c]) (i + 1) s
      else if c = cEsc then scanQuoted True el (i + 1) s
      else if c = cQuote then (Some el, s, i + 1)
      else scanQuoted False (el @ [c]) (i + 1) s)"

text \<open>The characters of an unquoted element, up to a delimiter or a closing brace.\<close>

fun scanPlain :: "string \<Rightarrow> string \<Rightarrow> nat \<Rightarrow> string \<Rightarrow> string option \<times> string \<times> nat" where
  "scanPlain del el i [] = (None, [], i)"
| "scanPlain del el i (c # s) =
     (if prefix del (c # s) \<or> c = cClose then (Some el, c # s, i)
      else scanPlain del (el @ [c]) (i + 1) s)"

text \<open>The loop \<open>Close\<close>, and the check that every dimension divides the number of elements.\<close>

fun closeLoop :: "nat \<Rightarrow> nat \<Rightarrow> string \<Rightarrow> arrayError + nat \<times> nat" where
  "closeLoop depth i [] = Inr (depth, i)"
| "closeLoop depth i (c # s) =
     (if c = cClose \<and> 0 < depth then closeLoop (depth - 1) (i + 1) s else Inl (Unexpected c i))"

fun checkDims :: "nat \<Rightarrow> nat list \<Rightarrow> arrayError option \<Rightarrow> arrayError option go" where
  "checkDims n [] err = Ret err"
| "checkDims n (d # ds) err =
     (if d = 0 then Panic
      else checkDims n ds (if n mod d \<noteq> 0 then Some DimensionMismatch else err))"

text \<open>An element is \<open>None\<close> for \<open>NULL\<close>.\<close>

type_synonym arrayOut = "(arrayError + nat list \<times> string option list) go"

definition finishArray :: "nat list \<Rightarrow> string option list \<Rightarrow> nat \<Rightarrow> nat \<Rightarrow> string \<Rightarrow> arrayOut" where
  "finishArray dims els depth i rest = (case closeLoop depth i rest of
     Inl e \<Rightarrow> Ret (Inl e)
   | Inr (depth', i') \<Rightarrow>
       if 0 < depth' then Ret (Inl (ExpectedClose i'))
       else (case checkDims (length els) dims None of
               Panic \<Rightarrow> Panic
             | Ret (Some e) \<Rightarrow> Ret (Inl e)
             | Ret None \<Rightarrow> Ret (Inr (dims, els))))"

datatype label = AtElement | AtRest

text \<open>\<open>dims[depth-1]++\<close>.\<close>

definition bumpDim :: "nat list \<Rightarrow> nat \<Rightarrow> nat list option" where
  "bumpDim dims depth =
     (if depth - 1 < length dims then Some (dims[depth - 1 := dims ! (depth - 1) + 1]) else None)"

partial_function (option) arrayLoop ::
  "string \<Rightarrow> label \<Rightarrow> nat \<Rightarrow> string \<Rightarrow> nat \<Rightarrow> nat list \<Rightarrow> string option list \<Rightarrow> arrayOut option" where
  "arrayLoop del l i rest depth dims els = (case l of
     AtElement \<Rightarrow> (case rest of
         [] \<Rightarrow> Some (finishArray dims els depth i [])
       | c # s \<Rightarrow>
           if c = cOpen then
             (if depth = length dims then arrayLoop del AtRest i rest depth dims els
              else if depth < length dims
              then arrayLoop del AtElement (i + 1) s (depth + 1) (dims[depth := 0]) els
              else Some Panic)
           else if c = cQuote then
             (case scanQuoted False [] (i + 1) s of
                (None, s', i') \<Rightarrow> arrayLoop del AtElement i' s' depth dims els
              | (Some el, s', i') \<Rightarrow> arrayLoop del AtRest i' s' depth dims (els @ [Some el]))
           else
             (case scanPlain del [] i rest of
                (None, s', i') \<Rightarrow> arrayLoop del AtElement i' s' depth dims els
              | (Some el, s', i') \<Rightarrow>
                  if el = [] then Some (Ret (Inl (Unexpected c i')))
                  else arrayLoop del AtRest i' s' depth dims
                         (els @ [if el = ''NULL'' then None else Some el])))
   | AtRest \<Rightarrow> (case rest of
         [] \<Rightarrow> Some (finishArray dims els depth i [])
       | c # s \<Rightarrow>
           if prefix del rest \<and> 0 < depth then
             (case bumpDim dims depth of
                None \<Rightarrow> Some Panic
              | Some dims' \<Rightarrow>
                  arrayLoop del AtElement (i + length del) (drop (length del) rest) depth dims' els)
           else if c = cClose \<and> 0 < depth then
             (case bumpDim dims depth of
                None \<Rightarrow> Some Panic
              | Some dims' \<Rightarrow> arrayLoop del AtRest (i + 1) s (depth - 1) dims' els)
           else Some (Ret (Inl (Unexpected c i)))))"

definition parseArray :: "string \<Rightarrow> string \<Rightarrow> arrayOut option" where
  "parseArray src del =
     (if src = [] \<or> hd src \<noteq> cOpen then Some (Ret (Inl ExpectedOpen))
      else (case openLoop 0 src of
          (n, rest, True) \<Rightarrow> Some (finishArray [] [] n n rest)
        | (n, rest, False) \<Rightarrow> arrayLoop del AtElement n rest n (replicate n 0) []))"

definition ScanLinearArray ::
  "string \<Rightarrow> string \<Rightarrow> string \<Rightarrow> (arrayError + string option list) go option" where
  "ScanLinearArray src del ty = (case parseArray src del of
     None \<Rightarrow> None
   | Some Panic \<Rightarrow> Some Panic
   | Some (Ret (Inl e)) \<Rightarrow> Some (Ret (Inl e))
   | Some (Ret (Inr (dims, els))) \<Rightarrow>
       if 1 < length dims then Some (Ret (Inl (NotLinear dims ty))) else Some (Ret (Inr els)))"

subsection \<open>Arrays of unsigned integers\<close>

text \<open>The values that a database driver passes to \<open>Scan\<close> and gets from \<open>Value\<close>.\<close>

datatype sqlValue = SqlBytes string | SqlString string | SqlNil | SqlOther

text \<open>A \<open>UInt64Array\<close>: \<open>None\<close> is the nil slice.\<close>

type_synonym UInt64Array = "64 word list option"

fun parseElems :: "nat \<Rightarrow> string option list \<Rightarrow> arrayError + 64 word list" where
  "parseElems i [] = Inr []"
| "parseElems i (v # vs) = (case ParseUint (case v of None \<Rightarrow> [] | Some s \<Rightarrow> s) of
     Inl e \<Rightarrow> Inl (BadElement i e)
   | Inr n \<Rightarrow> (case parseElems (i + 1) vs of Inl e \<Rightarrow> Inl e | Inr ws \<Rightarrow> Inr (of_nat n # ws)))"

text \<open>The receiver after the call, with the error; the receiver is only assigned on success.\<close>

definition scanBytes :: "UInt64Array \<Rightarrow> string \<Rightarrow> (UInt64Array \<times> arrayError option) go option" where
  "scanBytes a src = (case ScanLinearArray src '','' ''UInt64Array'' of
     None \<Rightarrow> None
   | Some Panic \<Rightarrow> Some Panic
   | Some (Ret (Inl e)) \<Rightarrow> Some (Ret (a, Some e))
   | Some (Ret (Inr els)) \<Rightarrow>
       if a \<noteq> None \<and> els = [] then Some (Ret (Some [], None))
       else (case parseElems 0 els of
               Inl e \<Rightarrow> Some (Ret (a, Some e))
             | Inr b \<Rightarrow> Some (Ret (Some b, None))))"

definition Scan :: "UInt64Array \<Rightarrow> sqlValue \<Rightarrow> (UInt64Array \<times> arrayError option) go option" where
  "Scan a src = (case src of
     SqlBytes s \<Rightarrow> scanBytes a s
   | SqlString s \<Rightarrow> scanBytes a s
   | SqlNil \<Rightarrow> Some (Ret (None, None))
   | SqlOther \<Rightarrow> Some (Ret (a, Some CannotConvert)))"

definition AppendUint :: "string \<Rightarrow> 64 word \<Rightarrow> string" where
  "AppendUint b w = b @ showNat (unat w)"

definition ValueOf :: "UInt64Array \<Rightarrow> sqlValue" where
  "ValueOf a = (case a of
     None \<Rightarrow> SqlNil
   | Some [] \<Rightarrow> SqlString ''{}''
   | Some (w # ws) \<Rightarrow>
       SqlString (foldl (\<lambda>b w. AppendUint (b @ '','') w) (AppendUint ''{'' w) ws @ ''}''))"

subsection \<open>Totals of deleted rows\<close>

record DeletionSummary =
  dsBlocks :: "64 word"
  dsVins :: "64 word"
  dsVouts :: "64 word"
  dsAddresses :: "64 word"
  dsTransactions :: "64 word"
  dsTickets :: "64 word"
  dsVotes :: "64 word"
  dsMisses :: "64 word"

definition zeroSummary :: DeletionSummary where
  "zeroSummary = \<lparr>dsBlocks = 0, dsVins = 0, dsVouts = 0, dsAddresses = 0, dsTransactions = 0,
     dsTickets = 0, dsVotes = 0, dsMisses = 0\<rparr>"

definition addSummary :: "DeletionSummary \<Rightarrow> DeletionSummary \<Rightarrow> DeletionSummary" where
  "addSummary s d = \<lparr>dsBlocks = dsBlocks s + dsBlocks d, dsVins = dsVins s + dsVins d,
     dsVouts = dsVouts s + dsVouts d, dsAddresses = dsAddresses s + dsAddresses d,
     dsTransactions = dsTransactions s + dsTransactions d, dsTickets = dsTickets s + dsTickets d,
     dsVotes = dsVotes s + dsVotes d, dsMisses = dsMisses s + dsMisses d\<rparr>"

definition Reduce :: "DeletionSummary list \<Rightarrow> DeletionSummary" where
  "Reduce ds = foldl addSummary zeroSummary ds"

definition summaryLine :: "64 word \<Rightarrow> string \<Rightarrow> string" where
  "summaryLine n what = padLeft 9 (showInt (sint n)) @ '' '' @ what @ '' purged''"

definition summaryString :: "DeletionSummary \<Rightarrow> string" where
  "summaryString s = summaryLine (dsBlocks s) ''Blocks'' @ [CHR 0x0A]
     @ summaryLine (dsVins s) ''Vins'' @ [CHR 0x0A] @ summaryLine (dsVouts s) ''Vouts'' @ [CHR 0x0A]
     @ summaryLine (dsAddresses s) ''Addresses'' @ [CHR 0x0A]
     @ summaryLine (dsTransactions s) ''Transactions'' @ [CHR 0x0A]
     @ summaryLine (dsTickets s) ''Tickets'' @ [CHR 0x0A]
     @ summaryLine (dsVotes s) ''Votes'' @ [CHR 0x0A] @ summaryLine (dsMisses s) ''Misses''"

subsection \<open>The parser returns, and never divides by zero\<close>

text \<open>
  The dimensions that are closed are positive: those from the current depth on have been counted
  at least once since they were reset.
\<close>

definition dimsInv :: "nat list \<Rightarrow> nat \<Rightarrow> bool" where
  "dimsInv dims depth \<longleftrightarrow>
     depth \<le> length dims \<and> (\<forall>k. depth \<le> k \<longrightarrow> k < length dims \<longrightarrow> 0 < dims ! k)"

definition okArray :: "arrayOut \<Rightarrow> bool" where
  "okArray out \<longleftrightarrow> out \<noteq> Panic \<and> (\<forall>dims els. out = Ret (Inr (dims, els)) \<longrightarrow>
     (\<forall>d\<in>set dims. 0 < d \<and> d dvd length els))"

lemma checkDims_pos:
  "\<forall>d\<in>set dims. 0 < d \<Longrightarrow> checkDims n dims err =
     Ret (if \<forall>d\<in>set dims. d dvd n then err else Some DimensionMismatch)"
  by (induction dims arbitrary: err) (auto simp: dvd_eq_mod_eq_0)

lemma finishArray_ok:
  assumes "dimsInv dims depth"
  shows "okArray (finishArray dims els depth i [])"
proof (cases "depth = 0")
  case True
  then have "\<forall>d\<in>set dims. 0 < d" using assms by (auto simp: dimsInv_def in_set_conv_nth)
  then show ?thesis using True by (simp add: finishArray_def checkDims_pos okArray_def)
next
  case False
  then show ?thesis by (simp add: finishArray_def okArray_def)
qed

lemma scanQuoted_length:
  "scanQuoted escape el i s = (r, s', i') \<Longrightarrow> length s' \<le> length s \<and> (r = None \<longrightarrow> s' = [])"
proof (induction escape el i s rule: scanQuoted.induct)
  case (2 escape el i c s)
  then show ?case by (auto split: if_splits)
qed simp

lemma scanPlain_length:
  "scanPlain del el i s = (r, s', i') \<Longrightarrow>
     (r = None \<longrightarrow> s' = []) \<and> (\<forall>w. r = Some w \<longrightarrow> length s' + length w = length s + length el)"
proof (induction del el i s rule: scanPlain.induct)
  case (2 del el i c s)
  show ?case
  proof (cases "prefix del (c # s) \<or> c = cClose")
    case True
    then show ?thesis using 2(2) by auto
  next
    case False
    then show ?thesis using 2(1)[OF False] 2(2) by simp
  qed
qed simp

lemma bumpDim_inv:
  assumes "dimsInv dims depth" and "0 < depth"
  obtains dims' where "bumpDim dims depth = Some dims'" "dimsInv dims' depth"
    "dimsInv dims' (depth - 1)"
proof -
  have len: "depth - 1 < length dims" using assms unfolding dimsInv_def by linarith
  let ?d = "dims[depth - 1 := dims ! (depth - 1) + 1]"
  have "dimsInv ?d depth" "dimsInv ?d (depth - 1)"
    using assms len by (auto simp: dimsInv_def nth_list_update)
  then show thesis using that len by (simp add: bumpDim_def)
qed

definition loopMeasure :: "label \<Rightarrow> string \<Rightarrow> nat" where
  "loopMeasure l rest = 2 * length rest + (if l = AtElement then 1 else 0)"

lemma arrayLoop_ok:
  assumes "del \<noteq> []" and "dimsInv dims depth"
  shows "\<exists>out. arrayLoop del l i rest depth dims els = Some out \<and> okArray out"
  using assms(2)
proof (induction "loopMeasure l rest" arbitrary: l i rest depth dims els rule: less_induct)
  case less
  note IH = less(1)[unfolded loopMeasure_def] and inv = less(2)
  have err: "okArray (Ret (Inl e))" for e by (simp add: okArray_def)
  show ?case
  proof (cases rest)
    case Nil
    then show ?thesis using finishArray_ok[OF inv]
      by (subst arrayLoop.simps) (cases l; simp)
  next
    case (Cons c s)
    show ?thesis
    proof (cases l)
      case AtRest
      show ?thesis
      proof (cases "0 < depth \<and> (prefix del rest \<or> c = cClose)")
        case False
        then show ?thesis using AtRest Cons err by (subst arrayLoop.simps) auto
      next
        case True
        then obtain dims' where d: "bumpDim dims depth = Some dims'" "dimsInv dims' depth"
          "dimsInv dims' (depth - 1)" using bumpDim_inv[OF inv] by blast
        show ?thesis
        proof (cases "prefix del rest")
          case prefix: True
          have l1: "length (drop (length del) rest) < length rest"
            using Cons assms(1) by (cases del) auto
          have "\<exists>out. arrayLoop del AtElement (i + length del) (drop (length del) rest) depth dims' els
                  = Some out \<and> okArray out"
            using l1 AtRest by (intro IH d(2)) simp
          then show ?thesis using True prefix d(1) AtRest Cons by (subst arrayLoop.simps) simp
        next
          case noprefix: False
          have "\<exists>out. arrayLoop del AtRest (i + 1) s (depth - 1) dims' els = Some out \<and> okArray out"
            using AtRest Cons by (intro IH d(3)) simp
          then show ?thesis using True noprefix d(1) AtRest Cons by (subst arrayLoop.simps) simp
        qed
      qed
    next
      case AtElement
      consider (brace) "c = cOpen" | (quoted) "c \<noteq> cOpen" "c = cQuote"
        | (plain) "c \<noteq> cOpen" "c \<noteq> cQuote" by blast
      then show ?thesis
      proof cases
        case brace
        show ?thesis
        proof (cases "depth = length dims")
          case True
          have "\<exists>out. arrayLoop del AtRest i rest depth dims els = Some out \<and> okArray out"
            using AtElement by (intro IH inv) simp
          then show ?thesis using True brace AtElement Cons
            by (subst arrayLoop.simps) simp
        next
          case False
          then have lt: "depth < length dims" using inv by (simp add: dimsInv_def)
          have "dimsInv (dims[depth := 0]) (depth + 1)"
            using inv lt by (auto simp: dimsInv_def nth_list_update)
          then have "\<exists>out. arrayLoop del AtElement (i + 1) s (depth + 1) (dims[depth := 0]) els
              = Some out \<and> okArray out"
            using AtElement Cons by (intro IH) simp_all
          then show ?thesis using False lt brace AtElement Cons
            by (subst arrayLoop.simps) simp
        qed
      next
        case quoted
        obtain r s' i' where q: "scanQuoted False [] (i + 1) s = (r, s', i')"
          by (metis prod_cases3)
        have len: "length s' \<le> length s" using scanQuoted_length[OF q] by blast
        have "\<exists>out. arrayLoop del l' i' s' depth dims els' = Some out \<and> okArray out" for l' els'
          using len AtElement Cons by (intro IH inv) simp
        then show ?thesis using quoted AtElement Cons q
          by (subst arrayLoop.simps) (simp split: option.splits)
      next
        case plain
        obtain r s' i' where q: "scanPlain del [] i rest = (r, s', i')"
          by (metis prod_cases3)
        note len = scanPlain_length[OF q]
        show ?thesis
        proof (cases r)
          case None
          have "\<exists>out. arrayLoop del AtElement i' s' depth dims els = Some out \<and> okArray out"
            using len None AtElement Cons by (intro IH inv) simp
          then show ?thesis using plain AtElement Cons q None by (subst arrayLoop.simps) simp
        next
          case (Some w)
          have "\<exists>out. arrayLoop del AtRest i' s' depth dims els' = Some out \<and> okArray out"
            if "w \<noteq> []" for els'
            using len Some AtElement Cons that by (intro IH inv) simp
          then show ?thesis using plain AtElement Cons q Some err
            by (subst arrayLoop.simps) (cases "w = []"; simp)
        qed
      qed
    qed
  qed
qed

lemma closeLoop_nil_dims: "okArray (finishArray [] [] depth i rest)"
  by (auto simp: finishArray_def okArray_def split: sum.splits)

lemma parseArray_ok:
  assumes "del \<noteq> []"
  shows "\<exists>out. parseArray src del = Some out \<and> okArray out"
proof (cases "src = [] \<or> hd src \<noteq> cOpen")
  case True
  then show ?thesis by (simp add: parseArray_def okArray_def)
next
  case False
  obtain n rest b where o: "openLoop 0 src = (n, rest, b)" by (metis prod_cases3)
  have "\<exists>out. arrayLoop del AtElement n rest n (replicate n 0) [] = Some out \<and> okArray out"
    by (rule arrayLoop_ok[OF assms]) (simp add: dimsInv_def)
  then show ?thesis using False o closeLoop_nil_dims
    by (cases b) (simp_all add: parseArray_def)
qed

text \<open>with a delimiter that is not empty the array parser returns on every input and never
  panics (its divisions by the dimensions are safe, its indexes in range); when it succeeds every
  dimension is positive and divides the number of elements, so \<open>ScanLinearArray\<close> yields an error
  or a list of elements, and \<open>Scan\<close> of a \<open>UInt64Array\<close> always returns, leaving the receiver as it
  was when it reports an error.\<close>

theorem parseArray_total:
  "(del \<noteq> [] \<longrightarrow> (\<exists>r. parseArray src del = Some (Ret r) \<and>
       (\<forall>dims els. r = Inr (dims, els) \<longrightarrow> (\<forall>d\<in>set dims. 0 < d \<and> d dvd length els))))
   \<and> (\<exists>a' err. Scan a v = Some (Ret (a', err)) \<and> (err \<noteq> None \<longrightarrow> a' = a))"
proof
  show "del \<noteq> [] \<longrightarrow> (\<exists>r. parseArray src del = Some (Ret r) \<and>
       (\<forall>dims els. r = Inr (dims, els) \<longrightarrow> (\<forall>d\<in>set dims. 0 < d \<and> d dvd length els)))"
  proof
    assume "del \<noteq> []"
    from parseArray_ok[OF this] obtain out where out: "parseArray src del = Some out" "okArray out"
      by blast
    then obtain r where "out = Ret r" by (cases out) (auto simp: okArray_def)
    then show "\<exists>r. parseArray src del = Some (Ret r) \<and>
       (\<forall>dims els. r = Inr (dims, els) \<longrightarrow> (\<forall>d\<in>set dims. 0 < d \<and> d dvd length els))"
      using out by (auto simp: okArray_def)
  qed
next
  have "\<exists>a' err. scanBytes a s = Some (Ret (a', err)) \<and> (err \<noteq> None \<longrightarrow> a' = a)" for s
  proof -
    obtain out where "parseArray s '','' = Some out" "out \<noteq> Panic"
      using parseArray_ok[of "'',''" s] by (auto simp: okArray_def)
    then show ?thesis
      by (cases out) (auto simp: scanBytes_def ScanLinearArray_def split: sum.splits)
  qed
  then show "\<exists>a' err. Scan a v = Some (Ret (a', err)) \<and> (err \<noteq> None \<longrightarrow> a' = a)"
    by (cases v) (auto simp: Scan_def)
qed

theorem parseArray_total_witness:
  "\<exists>r. parseArray ''{{1},{2,3}}'' '','' = Some (Ret r)"
  using parseArray_total[of "'',''" "''{{1},{2,3}}''"] by blast

subsection \<open>Reading back what was written\<close>

text \<open>
  A text reads as an element if the parser, at that text followed by a delimiter or by the
  closing brace of a one-dimensional array, appends the element and goes on after the text.
\<close>

definition readsAs :: "char \<Rightarrow> string \<Rightarrow> string option \<Rightarrow> bool" where
  "readsAs d t x \<longleftrightarrow> (\<forall>i c s n els. c = d \<or> c = cClose \<longrightarrow>
     arrayLoop [d] AtElement i (t @ c # s) 1 [n] els
     = arrayLoop [d] AtRest (i + length t) (c # s) 1 [n] (els @ [x]))"

fun joinWith :: "char \<Rightarrow> string list \<Rightarrow> string" where
  "joinWith d [] = []"
| "joinWith d [t] = t"
| "joinWith d (t # u # ts) = t @ d # joinWith d (u # ts)"

lemma arrayLoop_next:
  "arrayLoop [d] AtRest i (d # s) 1 [n] els = arrayLoop [d] AtElement (i + 1) s 1 [n + 1] els"
  by (subst arrayLoop.simps) (simp add: bumpDim_def)

lemma arrayLoop_end:
  assumes "d \<noteq> cClose" and "n + 1 = length els"
  shows "arrayLoop [d] AtRest i [cClose] 1 [n] els = Some (Ret (Inr ([n + 1], els)))"
proof -
  have "arrayLoop [d] AtRest i [cClose] 1 [n] els = arrayLoop [d] AtRest (i + 1) [] 0 [n + 1] els"
    using assms(1) by (subst arrayLoop.simps) (simp add: bumpDim_def)
  also have "\<dots> = Some (finishArray [n + 1] els 0 (i + 1) [])"
    by (subst arrayLoop.simps) simp
  finally show ?thesis using assms(2) by (simp add: finishArray_def)
qed

lemma arrayLoop_join:
  assumes "d \<noteq> cClose" and "list_all2 (readsAs d) ts xs" and "ts \<noteq> []"
  shows "arrayLoop [d] AtElement i (joinWith d ts @ [cClose]) 1 [length els] els
       = Some (Ret (Inr ([length els + length ts], els @ xs)))"
  using assms(2,3)
proof (induction ts arbitrary: xs i els)
  case Nil
  then show ?case by simp
next
  case (Cons t ts)
  then obtain x xs' where xs: "xs = x # xs'" and r: "readsAs d t x"
    and rs: "list_all2 (readsAs d) ts xs'" by (auto simp: list_all2_Cons1)
  have step: "arrayLoop [d] AtElement i (t @ c # s) 1 [length els] els
      = arrayLoop [d] AtRest (i + length t) (c # s) 1 [length els] (els @ [x])"
    if "c = d \<or> c = cClose" for c s
    using r that unfolding readsAs_def by blast
  show ?case
  proof (cases ts)
    case Nil
    then have "xs' = []" using rs by simp
    then show ?thesis using step[of cClose "[]"] arrayLoop_end[OF assms(1), of _ "els @ [x]"] xs Nil
      by simp
  next
    case (Cons u us)
    let ?rest = "joinWith d ts @ [cClose]"
    have "arrayLoop [d] AtElement i (joinWith d (t # ts) @ [cClose]) 1 [length els] els
        = arrayLoop [d] AtRest (i + length t) (d # ?rest) 1 [length els] (els @ [x])"
      using step[of d ?rest] Cons by simp
    also have "\<dots> = arrayLoop [d] AtElement (i + length t + 1) ?rest 1 [length (els @ [x])] (els @ [x])"
      using arrayLoop_next[of d "i + length t" ?rest "length els" "els @ [x]"] by simp
    also have "\<dots> = Some (Ret (Inr ([length (els @ [x]) + length ts], (els @ [x]) @ xs')))"
      by (rule Cons.IH[OF rs]) (simp add: Cons)
    finally show ?thesis using xs by simp
  qed
qed

text \<open>An unquoted text without a delimiter or a brace at its start reads as itself.\<close>

lemma scanPlain_stop:
  "\<forall>x\<in>set t. x \<noteq> d \<and> x \<noteq> cClose \<Longrightarrow> c = d \<or> c = cClose
   \<Longrightarrow> scanPlain [d] el i (t @ c # s) = (Some (el @ t), c # s, i + length t)"
  by (induction t arbitrary: el i) auto

lemma readsAs_plain:
  assumes "\<forall>x\<in>set t. x \<noteq> d \<and> x \<noteq> cClose" and "t \<noteq> []" and "hd t \<noteq> cOpen" and "hd t \<noteq> cQuote"
  shows "readsAs d t (if t = ''NULL'' then None else Some t)"
  unfolding readsAs_def
proof (intro allI impI)
  fix i c s n and els :: "string option list"
  assume c: "c = d \<or> c = cClose"
  obtain a r where t: "t = a # r" using assms(2) by (cases t) auto
  have "scanPlain [d] [] i (a # r @ c # s) = (Some t, c # s, i + length t)"
    using scanPlain_stop[OF assms(1) c, of "[]" i s] t by simp
  then show "arrayLoop [d] AtElement i (t @ c # s) 1 [n] els
      = arrayLoop [d] AtRest (i + length t) (c # s) 1 [n]
          (els @ [if t = ''NULL'' then None else Some t])"
    using assms(2-4) t by (subst arrayLoop.simps) simp
qed

text \<open>The quoting that PostgreSQL applies to elements, which any element may be written in.\<close>

definition quoteElem :: "string \<Rightarrow> string" where
  "quoteElem e = cQuote # concat (map (\<lambda>c. if c = cQuote \<or> c = cEsc then [cEsc, c] else [c]) e)
                 @ [cQuote]"

definition elemText :: "string option \<Rightarrow> string" where
  "elemText v = (case v of None \<Rightarrow> ''NULL'' | Some e \<Rightarrow> quoteElem e)"

definition arrayText :: "char \<Rightarrow> string option list \<Rightarrow> string" where
  "arrayText d vs = cOpen # joinWith d (map elemText vs) @ [cClose]"

lemma scanQuoted_quoted:
  "scanQuoted False el i (concat (map (\<lambda>c. if c = cQuote \<or> c = cEsc then [cEsc, c] else [c]) e)
       @ cQuote # s) = (Some (el @ e), s,
      i + length (concat (map (\<lambda>c. if c = cQuote \<or> c = cEsc then [cEsc, c] else [c]) e)) + 1)"
  by (induction e arbitrary: el i) auto

lemma readsAs_quoted: "readsAs d (quoteElem e) (Some e)"
  unfolding readsAs_def quoteElem_def append_Cons append_assoc
  by (subst arrayLoop.simps) (simp add: scanQuoted_quoted)

lemma readsAs_elemText:
  assumes "d \<notin> set ''NUL}''"
  shows "readsAs d (elemText v) v"
proof (cases v)
  case None
  have "readsAs d ''NULL'' (if ''NULL'' = ''NULL'' then None else Some ''NULL'')"
    using assms by (intro readsAs_plain) auto
  then show ?thesis using None by (simp add: elemText_def)
next
  case (Some e)
  then show ?thesis by (simp add: elemText_def readsAs_quoted)
qed

lemma parseArray_joined:
  assumes "d \<noteq> cClose" and "list_all2 (readsAs d) ts xs" and "ts \<noteq> []"
    and "\<forall>t\<in>set ts. t \<noteq> [] \<and> hd t \<noteq> cOpen \<and> hd t \<noteq> cClose"
  shows "parseArray (cOpen # joinWith d ts @ [cClose]) [d] = Some (Ret (Inr ([length xs], xs)))"
proof -
  obtain c s where j: "joinWith d ts @ [cClose] = c # s" "c \<noteq> cOpen" "c \<noteq> cClose"
  proof -
    obtain t us where ts: "ts = t # us" using assms(3) by (cases ts) auto
    moreover obtain c r where "t = c # r" using assms(4) ts by (cases t) auto
    ultimately show thesis using assms(4) that by (cases us) auto
  qed
  have "openLoop 0 (cOpen # joinWith d ts @ [cClose]) = (1, joinWith d ts @ [cClose], False)"
    using j by simp
  then have "parseArray (cOpen # joinWith d ts @ [cClose]) [d]
      = arrayLoop [d] AtElement 1 (joinWith d ts @ [cClose]) 1 [0] []"
    by (simp add: parseArray_def)
  then show ?thesis
    using arrayLoop_join[OF assms(1-3), of 1 "[]"] list_all2_lengthD[OF assms(2)] by simp
qed

lemma Scan_arrayText:
  assumes "d \<notin> set ''NUL}''"
  shows "ScanLinearArray (arrayText d vs) [d] ty = Some (Ret (Inr vs))"
proof (cases "vs = []")
  case True
  then show ?thesis
    by (simp add: arrayText_def ScanLinearArray_def parseArray_def finishArray_def)
next
  case False
  have "list_all2 (readsAs d) (map elemText vs) vs"
    by (simp add: list_all2_conv_all_nth readsAs_elemText[OF assms])
  moreover have "\<forall>t\<in>set (map elemText vs). t \<noteq> [] \<and> hd t \<noteq> cOpen \<and> hd t \<noteq> cClose"
    by (auto simp: elemText_def quoteElem_def split: option.splits)
  ultimately have "parseArray (arrayText d vs) [d] = Some (Ret (Inr ([length vs], vs)))"
    using assms False unfolding arrayText_def by (intro parseArray_joined) auto
  then show ?thesis by (simp add: ScanLinearArray_def)
qed

subsection \<open>A \<open>UInt64Array\<close> is read back\<close>

lemma Value_text:
  "ValueOf (Some (w # ws)) = SqlString (cOpen # joinWith CHR '','' (map (\<lambda>w. showNat (unat w)) (w # ws)) @ [cClose])"
proof -
  have "foldl (\<lambda>b w. AppendUint (b @ '','') w) (b @ showNat (unat w)) ws
      = b @ joinWith CHR '','' (map (\<lambda>w. showNat (unat w)) (w # ws))" for b w
  proof (induction ws arbitrary: b w)
    case (Cons v vs)
    show ?case using Cons[of "b @ showNat (unat w) @ '',''" v] by (simp add: AppendUint_def)
  qed simp
  from this[of "''{''"] show ?thesis by (simp add: ValueOf_def AppendUint_def[abs_def])
qed

lemma showNat_plain: "\<forall>x\<in>set (showNat n). x \<noteq> CHR '','' \<and> x \<noteq> cClose \<and> x \<noteq> cOpen \<and> x \<noteq> cQuote \<and> x \<noteq> CHR ''N''"
proof
  fix x assume "x \<in> set (showNat n)"
  then have "isDigit x" by (rule showNat_digits)
  then show "x \<noteq> CHR '','' \<and> x \<noteq> cClose \<and> x \<noteq> cOpen \<and> x \<noteq> cQuote \<and> x \<noteq> CHR ''N''"
    by (auto simp: isDigit_def digitVal_def)
qed

lemma showNat_hd: "hd (showNat n) \<noteq> cOpen \<and> hd (showNat n) \<noteq> cClose \<and> hd (showNat n) \<noteq> cQuote"
  using bspec[OF showNat_plain, OF hd_in_set[OF showNat_not_Nil]] by blast

lemma readsAs_showNat: "readsAs CHR '','' (showNat n) (Some (showNat n))"
proof -
  have "showNat n \<noteq> ''NULL''"
  proof
    assume "showNat n = ''NULL''"
    then have "hd (showNat n) = CHR ''N''" by simp
    then show False using bspec[OF showNat_plain, OF hd_in_set[OF showNat_not_Nil], of n] by simp
  qed
  moreover have "readsAs CHR '','' (showNat n)
      (if showNat n = ''NULL'' then None else Some (showNat n))"
  proof (rule readsAs_plain)
    show "\<forall>x\<in>set (showNat n). x \<noteq> CHR '','' \<and> x \<noteq> cClose"
      by (rule ballI, drule bspec[OF showNat_plain]) blast
  qed (rule showNat_not_Nil, simp_all only: showNat_hd not_False_eq_True)
  ultimately show ?thesis by simp
qed

lemma parseElems_showNat:
  "parseElems i (map (\<lambda>w. Some (showNat (unat w))) ws) = Inr ws"
proof (induction ws arbitrary: i)
  case (Cons w ws)
  have "unat w < 2 ^ 64" using unsigned_less[where 'a = nat, of w] by simp
  then have "unat w \<le> maxUint64" by (simp add: maxUint64_def)
  then show ?case using Cons by simp
qed simp

lemma Scan_Value: "Scan a (ValueOf v) = Some (Ret (v, None))"
proof (cases v)
  case None
  then show ?thesis by (simp add: ValueOf_def Scan_def)
next
  case (Some ws)
  show ?thesis
  proof (cases ws)
    case Nil
    have "parseArray ''{}'' '','' = Some (Ret (Inr ([], [])))"
      by (simp add: parseArray_def finishArray_def)
    then show ?thesis using Some Nil
      by (simp add: ValueOf_def Scan_def scanBytes_def ScanLinearArray_def)
  next
    case (Cons w vs)
    let ?ts = "map (\<lambda>w. showNat (unat w)) ws" and ?xs = "map (\<lambda>w. Some (showNat (unat w))) ws"
    have "parseArray (cOpen # joinWith CHR '','' ?ts @ [cClose]) '','' = Some (Ret (Inr ([length ?xs], ?xs)))"
    proof (rule parseArray_joined)
      show "list_all2 (readsAs CHR '','') ?ts ?xs"
        by (simp add: list_all2_conv_all_nth readsAs_showNat)
      show "\<forall>t\<in>set ?ts. t \<noteq> [] \<and> hd t \<noteq> cOpen \<and> hd t \<noteq> cClose"
        using showNat_hd by simp
    qed (use Cons in simp_all)
    then show ?thesis using Some Cons parseElems_showNat[of 0 ws]
      by (simp add: Value_text Scan_def scanBytes_def ScanLinearArray_def)
  qed
qed

text \<open>C31: what \<open>UInt64Array.Value\<close> writes, \<open>Scan\<close> reads back: the nil slice, the empty one and every
  list of numbers, whatever the receiver held. The array parser also reads back every list of
  elements and NULLs in the quoted format of the server, for any delimiter byte outside \<open>NULL}\<close>.\<close>

theorem UInt64Array_roundtrip:
  "Scan a (ValueOf v) = Some (Ret (v, None))
   \<and> (d \<notin> set ''NUL}'' \<longrightarrow> ScanLinearArray (arrayText d vs) [d] ty = Some (Ret (Inr vs)))"
  using Scan_Value Scan_arrayText by blast

theorem UInt64Array_roundtrip_witness:
  "ScanLinearArray (arrayText CHR '';'' [Some [CHR 0x22, CHR '','', CHR 0x5C], None, Some []]) '';'' ''T''
   = Some (Ret (Inr [Some [CHR 0x22, CHR '','', CHR 0x5C], None, Some []]))"
  using UInt64Array_roundtrip[of None None "CHR '';''"
      "[Some [CHR 0x22, CHR '','', CHR 0x5C], None, Some []]" "''T''"] by simp

subsection \<open>Totals\<close>

lemma addSummary_assoc: "addSummary (addSummary a b) c = addSummary a (addSummary b c)"
  by (simp add: addSummary_def add.assoc)

lemma addSummary_zero: "addSummary zeroSummary a = a" "addSummary a zeroSummary = a"
  by (simp_all add: addSummary_def zeroSummary_def)

lemma Reduce_append: "Reduce (xs @ ys) = addSummary (Reduce xs) (Reduce ys)"
proof -
  have "foldl addSummary (addSummary a b) ys = addSummary a (foldl addSummary b ys)" for a b
    by (induction ys arbitrary: b) (simp_all add: addSummary_assoc)
  from this[of "Reduce xs" zeroSummary] show ?thesis
    by (simp add: Reduce_def addSummary_zero)
qed

end
