(* ===== verification/AgendaTracker.thy ===== *)
theory AgendaTracker
  imports Complex_Main DbEnums "HOL-Library.Signed_Division"
begin

text \<open>
  The agendas package: the vote tracker (\<open>gov/agendas/tracker.go\<close>) and the agenda database
  (\<open>gov/agendas/deployments.go\<close>). The node is a record of functions, and so is the storm database;
  \<open>float32\<close> is the type \<open>'f\<close> with its operations, \<open>ofInt\<close> and \<open>toUint\<close> being the conversions.
  Integers that wrap in the source are words; heights and the ring index are \<open>int\<close>. Log messages
  are left out. The loops over vote versions ask the node for one version after the other with no
  bound, so they are \<open>partial_function\<close>s.
\<close>

subsection \<open>What the node and the parameters provide\<close>

record choice =
  chID :: string
  chIsNo :: bool
  chIsAbstain :: bool
  chCount :: "32 word"

record agenda =
  agID :: string
  agDescription :: string
  agMask :: "16 word"
  agStartTime :: "64 word"
  agExpireTime :: "64 word"
  agStatus :: string
  agChoices :: "choice list"

record voteInfoResult =
  viCurrentHeight :: int
  viStartHeight :: int
  viEndHeight :: int
  viHash :: string
  viVoteVersion :: "32 word"
  viAgendas :: "agenda list"

record stakeVersions =
  svBlockVersion :: "32 word"
  svStakeVersion :: "32 word"

record versionInterval =
  ivStartHeight :: int
  ivVoteVersions :: "(32 word \<times> 32 word) list"

text \<open>An error of the node: with the code for an invalid parameter, or any other.\<close>

datatype rpcError = InvalidParameter | OtherError string

record voteDataSource =
  GetVoteInfo :: "32 word \<Rightarrow> rpcError + voteInfoResult"
  GetStakeVersions :: "string \<Rightarrow> int \<Rightarrow> rpcError + stakeVersions list"
  GetStakeVersionInfo :: "int \<Rightarrow> rpcError + versionInterval list"

text \<open>The counts for yes, abstain and no.\<close>

type_synonym voteCounter = "string \<Rightarrow> string + 32 word \<times> 32 word \<times> 32 word"

record trackerParams =
  BlockUpgradeNumToCheck :: nat
  BlockRejectNumRequired :: nat
  RuleChangeActivationMultiplier :: "32 word"
  RuleChangeActivationDivisor :: "32 word"
  RuleChangeActivationInterval :: "32 word"
  RuleChangeActivationQuorum :: "32 word"
  StakeVersionInterval :: int
  TargetSecondsPerBlock :: int
  TicketsPerBlock :: "32 word"

record 'f float32Env =
  ofInt :: "int \<Rightarrow> 'f"
  toUint :: "'f \<Rightarrow> 32 word"

definition ofUint :: "'f float32Env \<Rightarrow> 32 word \<Rightarrow> 'f" where
  "ofUint E w = ofInt E (uint w)"

definition wrap32 :: "int \<Rightarrow> int" where
  "wrap32 x = sint (word_of_int x :: 32 word)"

lemma wrap32_id: "- (2 ^ 31) \<le> x \<Longrightarrow> x < 2 ^ 31 \<Longrightarrow> wrap32 x = x"
  by (simp add: wrap32_def int_word_sint)

subsection \<open>The tracker\<close>

record voteCount =
  vcYes :: "32 word"
  vcNo :: "32 word"
  vcAbstain :: "32 word"

record 'f AgendaSummary =
  asDescription :: string
  asID :: string
  asQuorum :: "32 word"
  asQuorumProgress :: 'f
  asQuorumAchieved :: bool
  asAye :: "32 word"
  asNay :: "32 word"
  asAbstain :: "32 word"
  asAbstainRate :: 'f
  asVoteCount :: "32 word"
  asPassThreshold :: 'f
  asFailThreshold :: 'f
  asApproval :: 'f
  asLockCount :: "32 word"
  asIsWinning :: bool
  asIsLosing :: bool
  asIsVoting :: bool
  asIsDefined :: bool
  asVotingTriggered :: bool
  asIsLocked :: bool
  asIsFailed :: bool
  asIsActive :: bool

record 'f VoteSummary =
  vsVersion :: "32 word"
  vsHeight :: int
  vsHash :: string
  vsVoteVersion :: "32 word"
  vsAgendas :: "'f AgendaSummary list"
  vsOldVoters :: "32 word"
  vsNewVoters :: "32 word"
  vsVoterCount :: "32 word"
  vsVoterThreshold :: 'f
  vsVoterProgress :: 'f
  vsOldMiners :: "32 word"
  vsNewMiners :: "32 word"
  vsMinerCount :: "32 word"
  vsMinerThreshold :: 'f
  vsMinerProgress :: 'f
  vsRCIBlocks :: "32 word"
  vsRCIMined :: "32 word"
  vsRCIProgress :: 'f
  vsSVIBlocks :: "32 word"
  vsSVIMined :: "32 word"
  vsSVIProgress :: 'f
  vsTilNextRCI :: int
  vsNextRCIHeight :: "32 word"
  vsNetworkUpgraded :: bool
  vsVotingTriggered :: bool

record 'f VoteTracker =
  countCache :: "string \<rightharpoonup> voteCount"
  vtVersion :: "32 word"
  blockVersion :: "32 word"
  stakeVersion :: "32 word"
  stakeInfo :: "versionInterval list"
  voteInfo :: "voteInfoResult option"
  summary :: "'f VoteSummary"
  ringIndex :: int
  ringHeight :: int
  blockRing :: "32 word list"
  minerThreshold :: 'f
  voterThreshold :: 'f
  sviBlocks :: "32 word"
  rciBlocks :: "32 word"
  blockTime :: int
  passThreshold :: 'f
  rciVotes :: "32 word"

datatype trackerError =
    NodeError rpcError
  | VoteInfoNotFound
  | UnexpectedCount int int
  | NoStakeVersions

subsection \<open>Asking for vote versions\<close>

text \<open>The loop of \<open>refreshRCI\<close>: the first version that the node does not know, and the vote
  information of the last one before it.\<close>

partial_function (option) rciLoop ::
  "(32 word \<Rightarrow> rpcError + voteInfoResult) \<Rightarrow> 32 word \<Rightarrow> voteInfoResult option
   \<Rightarrow> (32 word \<times> voteInfoResult option) option" where
  "rciLoop get v vi = (case get v of
     Inl e \<Rightarrow> Some (v, vi)
   | Inr x \<Rightarrow> rciLoop get (v + 1) (Some x))"

text \<open>The tracker, and an error, no vote information, or the vote information.\<close>

definition refreshRCI ::
  "voteDataSource \<Rightarrow> 'f VoteTracker
   \<Rightarrow> ('f VoteTracker \<times> (trackerError + voteInfoResult option)) option" where
  "refreshRCI node t = (let oldVersion = vtVersion t in
     case rciLoop (GetVoteInfo node) oldVersion None of
       None \<Rightarrow> None
     | Some (v, None) \<Rightarrow>
         Some (if oldVersion = 0 then (t, Inr None) else (t, Inl VoteInfoNotFound))
     | Some (v, Some vi) \<Rightarrow>
         Some (if oldVersion + 1 < v then (t\<lparr>vtVersion := v\<rparr>, Inr (Some vi)) else (t, Inr (Some vi))))"

text \<open>The two loops of \<open>listStakeVersions\<close>; \<open>None\<close> inside is the nil slice.\<close>

fun firstVersion :: "(32 word \<Rightarrow> rpcError + voteInfoResult) \<Rightarrow> nat \<Rightarrow> 32 word
    \<Rightarrow> rpcError + 32 word option" where
  "firstVersion get 0 v = Inr None"
| "firstVersion get (Suc n) v = (case get v of
     Inr x \<Rightarrow> Inr (Some v)
   | Inl InvalidParameter \<Rightarrow> firstVersion get n (v + 1)
   | Inl e \<Rightarrow> Inl e)"

partial_function (option) moreVersions ::
  "(32 word \<Rightarrow> rpcError + voteInfoResult) \<Rightarrow> 32 word \<Rightarrow> 32 word list
   \<Rightarrow> (rpcError + 32 word list) option" where
  "moreVersions get i versions = (case get i of
     Inr x \<Rightarrow> moreVersions get (i + 1) (versions @ [i])
   | Inl InvalidParameter \<Rightarrow> Some (Inr versions)
   | Inl (OtherError e) \<Rightarrow> Some (Inl (OtherError e)))"

definition listStakeVersions ::
  "(32 word \<Rightarrow> rpcError + voteInfoResult) \<Rightarrow> (rpcError + 32 word list option) option" where
  "listStakeVersions get = (case firstVersion get 10 0 of
     Inl e \<Rightarrow> Some (Inl e)
   | Inr None \<Rightarrow> Some (Inr None)
   | Inr (Some firstVer) \<Rightarrow> (case moreVersions get (firstVer + 1) [firstVer] of
       None \<Rightarrow> None
     | Some (Inl e) \<Rightarrow> Some (Inl e)
     | Some (Inr vs) \<Rightarrow> Some (Inr (Some vs))))"

subsection \<open>Fetching the block versions and the stake version intervals\<close>

definition blocksToRequest :: "trackerParams \<Rightarrow> 'f VoteTracker \<Rightarrow> voteInfoResult \<Rightarrow> int" where
  "blocksToRequest P t vi =
     (if viCurrentHeight vi < 0 \<or> viCurrentHeight vi \<noteq> ringHeight t + 1
      then int (BlockUpgradeNumToCheck P) else 1)"

text \<open>The block versions, oldest first, and the stake version of the last of them.\<close>

definition fetchBlocks :: "voteDataSource \<Rightarrow> trackerParams \<Rightarrow> 'f VoteTracker \<Rightarrow> voteInfoResult
    \<Rightarrow> trackerError + 32 word list \<times> 32 word" where
  "fetchBlocks node P t vi = (let n = blocksToRequest P t vi in
     case GetStakeVersions node (viHash vi) (wrap32 n) of
       Inl e \<Rightarrow> Inl (NodeError e)
     | Inr r \<Rightarrow>
         if int (length r) \<noteq> n then Inl (UnexpectedCount n (int (length r)))
         else Inr (map svBlockVersion (rev r), if r = [] then 0 else svStakeVersion (hd r)))"

definition rciBlocksOf :: "voteInfoResult \<Rightarrow> int" where
  "rciBlocksOf vi = viCurrentHeight vi - viStartHeight vi + 1"

text \<open>A panic is the division by a zero interval.\<close>

definition refreshSVIs :: "voteDataSource \<Rightarrow> trackerParams \<Rightarrow> voteInfoResult
    \<Rightarrow> (trackerError + versionInterval list) go" where
  "refreshSVIs node P vi =
     (if StakeVersionInterval P = 0 then Panic
      else let n = rciBlocksOf vi;
               svis = wrap32 (n sdiv StakeVersionInterval P);
               svis' = (if 0 < n smod StakeVersionInterval P then wrap32 (svis + 1) else svis)
           in Ret (case GetStakeVersionInfo node svis' of
                     Inl e \<Rightarrow> Inl (NodeError e) | Inr si \<Rightarrow> Inr si))"

subsection \<open>The summary\<close>

fun countChoices :: "choice list \<Rightarrow> 32 word \<times> 32 word \<times> 32 word \<Rightarrow> 32 word \<times> 32 word \<times> 32 word" where
  "countChoices [] (aye, nay, ab) = (aye, nay, ab)"
| "countChoices (c # cs) (aye, nay, ab) = countChoices cs
     (if chIsNo c then (aye, chCount c, ab) else if chIsAbstain c then (aye, nay, chCount c)
      else (chCount c, nay, ab))"

definition agendaSummaryOf ::
  "('f::{plus,minus,times,inverse,zero,one,ord}) float32Env \<Rightarrow> trackerParams \<Rightarrow> 'f VoteTracker
   \<Rightarrow> bool \<Rightarrow> 32 word \<Rightarrow> agenda \<Rightarrow> 'f AgendaSummary" where
  "agendaSummaryOf E P t upgraded rciMined ag =
     (let (aye, nay, ab) = countChoices (agChoices ag) (0, 0, 0);
          voteCount = aye + nay;
          quorum = RuleChangeActivationQuorum P;
          approval = (if 0 < voteCount then ofUint E aye / ofUint E voteCount else 0);
          progress = ofUint E voteCount / ofUint E quorum;
          missed = rciMined * TicketsPerBlock P - voteCount - ab;
          lockCount = toUint E (ofUint E (rciVotes t - missed) * passThreshold t);
          isDefined = (agStatus ag = ''defined'')
      in \<lparr>asDescription = agDescription ag, asID = agID ag, asQuorum = quorum,
          asQuorumProgress = (if 1 \<le> progress then 1 else progress),
          asQuorumAchieved = (1 \<le> progress \<or> quorum < voteCount),
          asAye = aye, asNay = nay, asAbstain = ab,
          asAbstainRate = (if 0 < voteCount + ab then ofUint E ab / ofUint E (voteCount + ab) else 0),
          asVoteCount = voteCount,
          asPassThreshold = passThreshold t, asFailThreshold = 1 - passThreshold t,
          asApproval = approval, asLockCount = lockCount,
          asIsWinning = (passThreshold t \<le> approval),
          asIsLosing = (approval < 1 - passThreshold t),
          asIsVoting = (agStatus ag = ''started''), asIsDefined = isDefined,
          asVotingTriggered = (isDefined \<and> upgraded),
          asIsLocked = (agStatus ag = ''lockedin'' \<or> lockCount \<le> aye),
          asIsFailed = (agStatus ag = ''failed''), asIsActive = (agStatus ag = ''active'')\<rparr>)"

text \<open>The new and the old voters of the first interval, and the blocks mined in it.\<close>

fun countVersions :: "32 word \<Rightarrow> (32 word \<times> 32 word) list \<Rightarrow> 32 word \<times> 32 word \<Rightarrow> 32 word \<times> 32 word" where
  "countVersions v [] (new, old) = (new, old)"
| "countVersions v ((x, n) # xs) (new, old) =
     countVersions v xs (if x = v then (n, old) else (new, old + n))"

text \<open>The miners of the ring that vote with the current version, and the others.\<close>

fun countMiners :: "32 word \<Rightarrow> 32 word list \<Rightarrow> 32 word \<times> 32 word \<Rightarrow> 32 word \<times> 32 word" where
  "countMiners v [] (new, old) = (new, old)"
| "countMiners v (x # xs) (new, old) =
     countMiners v xs (if x = v then (new + 1, old) else (new, old + 1))"

definition newVoteSummary ::
  "('f::{plus,minus,times,inverse,zero,one,ord}) float32Env \<Rightarrow> trackerParams \<Rightarrow> 'f VoteTracker
   \<Rightarrow> voteInfoResult \<Rightarrow> 'f VoteSummary" where
  "newVoteSummary E P t vi =
     (let rciMined = word_of_int (viCurrentHeight vi - viStartHeight vi + 1);
          upgraded = (blockVersion t = vtVersion t \<and> stakeVersion t = vtVersion t);
          ags = map (agendaSummaryOf E P t upgraded rciMined) (viAgendas vi);
          (newV, oldV, sviMined) = (case stakeInfo t of
              [] \<Rightarrow> (0, 0, 0)
            | iv # _ \<Rightarrow> (let (new, old) = countVersions (vtVersion t) (ivVoteVersions iv) (0, 0)
                        in (new, old, word_of_int (viCurrentHeight vi - ivStartHeight iv + 1))));
          (newM, oldM) = countMiners (vtVersion t) (blockRing t) (0, 0)
      in \<lparr>vsVersion = vtVersion t, vsHeight = viCurrentHeight vi, vsHash = viHash vi,
          vsVoteVersion = vtVersion t, vsAgendas = ags,
          vsOldVoters = oldV, vsNewVoters = newV, vsVoterCount = oldV + newV,
          vsVoterThreshold = voterThreshold t,
          vsVoterProgress = ofUint E newV / ofUint E (oldV + newV),
          vsOldMiners = oldM, vsNewMiners = newM, vsMinerCount = newM + oldM,
          vsMinerThreshold = minerThreshold t,
          vsMinerProgress = ofUint E newM / ofUint E (newM + oldM),
          vsRCIBlocks = rciBlocks t, vsRCIMined = rciMined,
          vsRCIProgress = ofUint E rciMined / ofUint E (rciBlocks t),
          vsSVIBlocks = sviBlocks t, vsSVIMined = sviMined,
          vsSVIProgress = ofUint E sviMined / ofUint E (sviBlocks t),
          vsTilNextRCI = wrap64 (uint (rciBlocks t - rciMined) * blockTime t),
          vsNextRCIHeight = word_of_int (viEndHeight vi + 1),
          vsNetworkUpgraded = upgraded,
          vsVotingTriggered = list_ex asVotingTriggered ags\<rparr>)"

definition zeroVoteSummary :: "('f::zero) VoteSummary" where
  "zeroVoteSummary = \<lparr>vsVersion = 0, vsHeight = 0, vsHash = [], vsVoteVersion = 0,
     vsAgendas = [], vsOldVoters = 0, vsNewVoters = 0, vsVoterCount = 0, vsVoterThreshold = 0,
     vsVoterProgress = 0, vsOldMiners = 0, vsNewMiners = 0, vsMinerCount = 0, vsMinerThreshold = 0,
     vsMinerProgress = 0, vsRCIBlocks = 0, vsRCIMined = 0, vsRCIProgress = 0, vsSVIBlocks = 0,
     vsSVIMined = 0, vsSVIProgress = 0, vsTilNextRCI = 0, vsNextRCIHeight = 0,
     vsNetworkUpgraded = False, vsVotingTriggered = False\<rparr>"

subsection \<open>Updating and refreshing\<close>

text \<open>The counts of a completed vote, from the cache or from the counter; \<open>None\<close> when it fails.\<close>

definition votesFor :: "voteCounter \<Rightarrow> (string \<rightharpoonup> voteCount) \<Rightarrow> string
    \<Rightarrow> (string \<rightharpoonup> voteCount) \<times> voteCount option" where
  "votesFor counter cache ident = (case cache ident of
     Some vc \<Rightarrow> (cache, Some vc)
   | None \<Rightarrow> (case counter ident of
       Inl e \<Rightarrow> (cache, None)
     | Inr (y, a, n) \<Rightarrow>
         (let vc = \<lparr>vcYes = y, vcNo = n, vcAbstain = a\<rparr> in (cache(ident \<mapsto> vc), Some vc))))"

definition setCount :: "voteCount \<Rightarrow> choice \<Rightarrow> choice" where
  "setCount vc c = c\<lparr>chCount := (if chID c = ''yes'' then vcYes vc
                                 else if chID c = ''no'' then vcNo vc else vcAbstain vc)\<rparr>"

fun updateAgendas :: "voteCounter \<Rightarrow> (string \<rightharpoonup> voteCount) \<Rightarrow> agenda list
    \<Rightarrow> (string \<rightharpoonup> voteCount) \<times> agenda list" where
  "updateAgendas counter cache [] = (cache, [])"
| "updateAgendas counter cache (ag # ags) =
     (if agStatus ag \<noteq> ''defined'' \<and> agStatus ag \<noteq> ''started'' then
        (let (cache', vc) = votesFor counter cache (agID ag);
             ag' = (case vc of None \<Rightarrow> ag
                     | Some c \<Rightarrow> ag\<lparr>agChoices := map (setCount c) (agChoices ag)\<rparr>);
             (cache'', ags') = updateAgendas counter cache' ags
         in (cache'', ag' # ags'))
      else (let (cache', ags') = updateAgendas counter cache ags in (cache', ag # ags')))"

text \<open>Writing block versions to the ring, and the version at its index; the ring must not be empty.\<close>

fun writeRing :: "nat \<Rightarrow> int \<times> 32 word list \<Rightarrow> 32 word list \<Rightarrow> (int \<times> 32 word list) go" where
  "writeRing ringLen (i, ring) [] = Ret (i, ring)"
| "writeRing ringLen (i, ring) (b # bs) =
     (if ringLen = 0 then Panic
      else let i' = (i + 1) smod int ringLen in
        if 0 \<le> i' \<and> i' < int (length ring) then writeRing ringLen (i', ring[nat i' := b]) bs
        else Panic)"

definition update ::
  "('f::{plus,minus,times,inverse,zero,one,ord}) float32Env \<Rightarrow> trackerParams \<Rightarrow> voteCounter
   \<Rightarrow> 'f VoteTracker \<Rightarrow> voteInfoResult \<Rightarrow> 32 word list \<Rightarrow> versionInterval list \<Rightarrow> 32 word
   \<Rightarrow> 'f VoteTracker go" where
  "update E P counter t vi blocks si sv =
     (let (cache, ags) = updateAgendas counter (countCache t) (viAgendas vi);
          vi' = vi\<lparr>viAgendas := ags\<rparr>
      in case writeRing (BlockUpgradeNumToCheck P) (ringIndex t, blockRing t) blocks of
           Panic \<Rightarrow> Panic
         | Ret (i, ring) \<Rightarrow> (case go_index ring i of
             None \<Rightarrow> Panic
           | Some bv \<Rightarrow>
               (let t' = t\<lparr>countCache := cache, voteInfo := Some vi', stakeInfo := si,
                           ringIndex := i, blockRing := ring, blockVersion := bv,
                           stakeVersion := sv, ringHeight := viCurrentHeight vi\<rparr>
                in Ret (t'\<lparr>summary := newVoteSummary E P t' vi'\<rparr>))))"

text \<open>
  One refresh: the tracker with the error that the source logs. The vote version may change even
  if a later step fails.
\<close>

definition refreshWith ::
  "('f::{plus,minus,times,inverse,zero,one,ord}) float32Env \<Rightarrow> trackerParams \<Rightarrow> voteCounter
   \<Rightarrow> voteDataSource \<Rightarrow> 'f VoteTracker \<Rightarrow> voteInfoResult \<Rightarrow> ('f VoteTracker \<times> trackerError option) go" where
  "refreshWith E P counter node t vi = (case fetchBlocks node P t vi of
     Inl e \<Rightarrow> Ret (t, Some e)
   | Inr (blocks, sv) \<Rightarrow> (case refreshSVIs node P vi of
       Panic \<Rightarrow> Panic
     | Ret (Inl e) \<Rightarrow> Ret (t, Some e)
     | Ret (Inr si) \<Rightarrow> (case update E P counter t vi blocks si sv of
         Panic \<Rightarrow> Panic
       | Ret t' \<Rightarrow> Ret (t', None))))"

definition Refresh ::
  "('f::{plus,minus,times,inverse,zero,one,ord}) float32Env \<Rightarrow> trackerParams \<Rightarrow> voteCounter
   \<Rightarrow> voteDataSource \<Rightarrow> 'f VoteTracker \<Rightarrow> ('f VoteTracker \<times> trackerError option) go option" where
  "Refresh E P counter node t = (case refreshRCI node t of
     None \<Rightarrow> None
   | Some (t', Inl e) \<Rightarrow> Some (Ret (t', Some e))
   | Some (t', Inr None) \<Rightarrow> Some (Ret (t', None))
   | Some (t', Inr (Some vi)) \<Rightarrow> Some (refreshWith E P counter node t' vi))"

definition initTracker ::
  "('f::{plus,minus,times,inverse,zero,one,ord}) float32Env \<Rightarrow> trackerParams \<Rightarrow> 32 word
   \<Rightarrow> 'f VoteTracker" where
  "initTracker E P v = (let threshold = ofUint E (RuleChangeActivationMultiplier P)
                                        / ofUint E (RuleChangeActivationDivisor P)
     in \<lparr>countCache = Map.empty, vtVersion = v, blockVersion = 0, stakeVersion = 0,
         stakeInfo = [], voteInfo = None, summary = zeroVoteSummary, ringIndex = -1, ringHeight = 0,
         blockRing = replicate (BlockUpgradeNumToCheck P) 0,
         minerThreshold = ofInt E (int (BlockRejectNumRequired P))
                          / ofInt E (int (BlockUpgradeNumToCheck P)),
         voterThreshold = threshold, sviBlocks = word_of_int (StakeVersionInterval P),
         rciBlocks = RuleChangeActivationInterval P, blockTime = TargetSecondsPerBlock P,
         passThreshold = threshold,
         rciVotes = TicketsPerBlock P * RuleChangeActivationInterval P\<rparr>)"

definition NewVoteTracker ::
  "('f::{plus,minus,times,inverse,zero,one,ord}) float32Env \<Rightarrow> trackerParams \<Rightarrow> voteCounter
   \<Rightarrow> voteDataSource \<Rightarrow> (trackerError + 'f VoteTracker) go option" where
  "NewVoteTracker E P counter node = (case listStakeVersions (GetVoteInfo node) of
     None \<Rightarrow> None
   | Some (Inl e) \<Rightarrow> Some (Ret (Inl (NodeError e)))
   | Some (Inr vs) \<Rightarrow>
       if elems vs = [] then Some (Ret (Inl NoStakeVersions))
       else (case Refresh E P counter node (initTracker E P (last (elems vs))) of
               None \<Rightarrow> None
             | Some Panic \<Rightarrow> Some Panic
             | Some (Ret (t, Some e)) \<Rightarrow> Some (Ret (Inl e))
             | Some (Ret (t, None)) \<Rightarrow> Some (Ret (Inr t))))"

subsection \<open>The agenda database\<close>

record AgendaTagged =
  atID :: string
  atDescription :: string
  atMask :: "16 word"
  atStartTime :: "64 word"
  atExpireTime :: "64 word"
  atStatus :: AgendaStatusType
  atChoices :: "choice list"
  atVoteVersion :: "32 word"

text \<open>The storm database that holds the agendas, with the order in which it returns all of them.\<close>

record ('db, 'e) stormDB =
  sdbSave :: "'db \<Rightarrow> AgendaTagged \<Rightarrow> 'e + 'db"
  sdbOne :: "'db \<Rightarrow> string \<Rightarrow> 'e + AgendaTagged"
  sdbAll :: "'db \<Rightarrow> AgendaTagged list \<times> 'e option"

record 'db AgendaDB =
  adbStore :: 'db
  adbStakeVersions :: "32 word list option"

definition tagAgenda :: "32 word \<Rightarrow> agenda \<Rightarrow> AgendaTagged" where
  "tagAgenda v ag = \<lparr>atID = agID ag, atDescription = agDescription ag, atMask = agMask ag,
     atStartTime = agStartTime ag, atExpireTime = agExpireTime ag,
     atStatus = AgendaStatusFromStr (agStatus ag), atChoices = agChoices ag, atVoteVersion = v\<rparr>"

definition agendasForVoteVersion ::
  "(32 word \<Rightarrow> rpcError + voteInfoResult) \<Rightarrow> 32 word \<Rightarrow> rpcError + AgendaTagged list" where
  "agendasForVoteVersion get ver = (case get ver of
     Inl e \<Rightarrow> Inl e
   | Inr vi \<Rightarrow> Inr (map (tagAgenda (viVoteVersion vi)) (viAgendas vi)))"

datatype 'e agendaError =
  RetrievalFailed "32 word" "rpcError option" | NotSaved string 'e | NoDeployments | LoadFailed 'e

fun collectAgendas :: "(32 word \<Rightarrow> rpcError + voteInfoResult) \<Rightarrow> 32 word list \<Rightarrow> AgendaTagged list
    \<Rightarrow> 'e agendaError + AgendaTagged list" where
  "collectAgendas get [] acc = Inr acc"
| "collectAgendas get (v # vs) acc = (case agendasForVoteVersion get v of
     Inl e \<Rightarrow> Inl (RetrievalFailed v (Some e))
   | Inr ags \<Rightarrow> if ags = [] then Inl (RetrievalFailed v None)
               else collectAgendas get vs (acc @ ags))"

text \<open>The database after the agendas are stored one by one, up to the first failure.\<close>

fun storeAgendas :: "('db, 'e) stormDB \<Rightarrow> 'db \<Rightarrow> AgendaTagged list \<Rightarrow> 'db \<times> 'e agendaError option" where
  "storeAgendas S db [] = (db, None)"
| "storeAgendas S db (ag # ags) = (case sdbSave S db ag of
     Inl e \<Rightarrow> (db, Some (NotSaved (atDescription ag) e))
   | Inr db' \<Rightarrow> storeAgendas S db' ags)"

definition updateDB :: "('db, 'e) stormDB \<Rightarrow> (32 word \<Rightarrow> rpcError + voteInfoResult) \<Rightarrow> 'db AgendaDB
    \<Rightarrow> 'db AgendaDB \<times> ('e agendaError + int)" where
  "updateDB S get d = (case collectAgendas get (elems (adbStakeVersions d)) [] of
     Inl e \<Rightarrow> (d, Inl e)
   | Inr ags \<Rightarrow> (case storeAgendas S (adbStore d) ags of
       (db, Some e) \<Rightarrow> (d\<lparr>adbStore := db\<rparr>, Inl e)
     | (db, None) \<Rightarrow> (d\<lparr>adbStore := db\<rparr>, Inr (int (length ags)))))"

definition UpdateAgendas :: "('db, 'e) stormDB \<Rightarrow> (32 word \<Rightarrow> rpcError + voteInfoResult)
    \<Rightarrow> 'db AgendaDB \<Rightarrow> 'db AgendaDB \<times> 'e agendaError option" where
  "UpdateAgendas S get d = (if adbStakeVersions d = None then (d, None)
     else (case updateDB S get d of
             (d', Inl e) \<Rightarrow> (d', Some e)
           | (d', Inr n) \<Rightarrow> (d', None)))"

definition AgendaInfo :: "('db, 'e) stormDB \<Rightarrow> 'db AgendaDB \<Rightarrow> string \<Rightarrow> 'e agendaError + AgendaTagged" where
  "AgendaInfo S d ident = (if adbStakeVersions d = None then Inl NoDeployments
     else (case sdbOne S (adbStore d) ident of Inl e \<Rightarrow> Inl (LoadFailed e) | Inr a \<Rightarrow> Inr a))"

definition AllAgendas :: "('db, 'e) stormDB \<Rightarrow> 'db AgendaDB \<Rightarrow> AgendaTagged list \<times> 'e option" where
  "AllAgendas S d = (if adbStakeVersions d = None then ([], None) else sdbAll S (adbStore d))"

subsection \<open>The ring of block versions\<close>

text \<open>The versions of the last \<open>n\<close> blocks up to a height, oldest first.\<close>

definition window :: "(int \<Rightarrow> 32 word) \<Rightarrow> nat \<Rightarrow> int \<Rightarrow> 32 word list" where
  "window ver n h = map (\<lambda>k. ver (h - int n + 1 + int k)) [0..<n]"

lemma length_window [simp]: "length (window ver n h) = n"
  by (simp add: window_def)

lemma window_next: "0 < n \<Longrightarrow> tl (window ver n h) @ [ver (h + 1)] = window ver n (h + 1)"
  by (rule nth_equalityI) (auto simp: window_def nth_append nth_tl algebra_simps intro!: arg_cong[where f = ver])

text \<open>The ring read from the entry after its index: the entries in the order they were written.\<close>

definition ringOrder :: "int \<Rightarrow> 'a list \<Rightarrow> 'a list" where
  "ringOrder i ring = rotate (nat (i + 1)) ring"

definition ringOK :: "nat \<Rightarrow> int \<Rightarrow> 'a list \<Rightarrow> bool" where
  "ringOK n i ring \<longleftrightarrow> length ring = n \<and> -1 \<le> i \<and> i < int n"

lemma smod_nonneg: "0 \<le> i \<Longrightarrow> 0 < n \<Longrightarrow> i smod int n = i mod int n"
  by (simp add: signed_modulo_int_def signed_divide_int_def sgn_if minus_mult_div_eq_mod)

lemma rotate_write:
  assumes "j < length xs"
  shows "rotate (Suc j) (xs[j := b]) = tl (rotate j xs) @ [b]"
proof -
  have r: "rotate j xs = drop j xs @ take j xs" "rotate j (xs[j := b]) = drop j (xs[j := b]) @ take j (xs[j := b])"
    using assms by (simp_all add: rotate_drop_take)
  have d: "drop j (xs[j := b]) = b # drop (Suc j) xs" "drop j xs = xs ! j # drop (Suc j) xs"
    using assms by (simp_all add: Cons_nth_drop_Suc[symmetric])
  have "rotate (Suc j) (xs[j := b]) = rotate1 (rotate j (xs[j := b]))" by simp
  then show ?thesis using r d by simp
qed

lemma writeRing_one:
  assumes "ringOK n i ring" and "0 < n"
  obtains i' ring' where "writeRing n (i, ring) (b # bs) = writeRing n (i', ring') bs"
    "ringOK n i' ring'" "0 \<le> i'" "ringOrder i' ring' = tl (ringOrder i ring) @ [b]"
proof -
  define i' where "i' = (i + 1) smod int n"
  have i': "i' = (i + 1) mod int n"
    unfolding i'_def using assms by (intro smod_nonneg) (auto simp: ringOK_def)
  have bounds: "0 \<le> i'" "i' < int n" using i' assms(2) by simp_all
  have len: "length ring = n" using assms(1) by (simp add: ringOK_def)
  let ?ring = "ring[nat i' := b]"
  have "writeRing n (i, ring) (b # bs) = writeRing n (i', ?ring) bs"
    using bounds len assms(2) by (simp add: Let_def i'_def)
  moreover have "ringOK n i' ?ring" using bounds len by (simp add: ringOK_def)
  moreover have "ringOrder i' ?ring = tl (ringOrder i ring) @ [b]"
  proof -
    have "nat (i' + 1) = Suc (nat i')" using bounds by simp
    then have "ringOrder i' ?ring = tl (rotate (nat i') ring) @ [b]"
      using rotate_write[of "nat i'" ring b] bounds len by (simp add: ringOrder_def)
    moreover have "nat i' = nat (i + 1) mod n"
      using i' assms(1) by (simp add: ringOK_def nat_mod_distrib)
    then have "rotate (nat i') ring = ringOrder i ring"
      unfolding ringOrder_def using len by (metis rotate_conv_mod)
    ultimately show ?thesis by simp
  qed
  ultimately show thesis using that bounds(1) by blast
qed

lemma writeRing_order:
  assumes "ringOK n i ring" and "0 < n"
  shows "\<exists>i' ring'. writeRing n (i, ring) bs = Ret (i', ring') \<and> ringOK n i' ring'
      \<and> (0 \<le> i' \<or> bs = [] \<and> i' = i) \<and> ringOrder i' ring' = drop (length bs) (ringOrder i ring @ bs)"
  using assms(1)
proof (induction bs arbitrary: i ring)
  case Nil
  then show ?case by simp
next
  case (Cons b bs)
  obtain i1 ring1 where one: "writeRing n (i, ring) (b # bs) = writeRing n (i1, ring1) bs"
    "ringOK n i1 ring1" "0 \<le> i1" "ringOrder i1 ring1 = tl (ringOrder i ring) @ [b]"
    using writeRing_one[OF Cons.prems assms(2)] by blast
  have "ringOrder i ring \<noteq> []"
    using Cons.prems assms(2) by (auto simp: ringOK_def ringOrder_def)
  then have "ringOrder i1 ring1 @ bs = tl (ringOrder i ring @ b # bs)" using one(4) by simp
  then have "drop (length bs) (ringOrder i1 ring1 @ bs)
      = drop (length (b # bs)) (ringOrder i ring @ b # bs)"
    by (metis drop_Suc length_Cons)
  then show ?case using Cons.IH[OF one(2)] one(1,3) by auto
qed

lemma countMiners_iff:
  "countMiners v xs (new, old) =
     (new + of_nat (count_list xs v), old + of_nat (length xs - count_list xs v))"
proof (induction xs arbitrary: new old)
  case (Cons x xs)
  have "count_list xs v \<le> length xs" by (rule count_le_length)
  then show ?case by (simp add: Cons Suc_diff_le add.assoc)
qed simp

lemma count_list_rotate: "count_list (rotate k xs) v = count_list xs v"
proof (induction k)
  case (Suc k)
  have "count_list (rotate1 ys) v = count_list ys v" for ys :: "'a list"
    by (cases ys) (simp_all add: count_list_append)
  then show ?case using Suc by simp
qed simp

subsection \<open>The tracker follows the chain\<close>

text \<open>
  A node that serves the chain with block versions \<open>ver\<close>, at whatever height it has reached: asked
  for \<open>k\<close> blocks (up to \<open>n\<close>) back from a block it reports, it fails or returns versions of that chain,
  newest first, and not more of them than the chain has blocks.
\<close>

definition servesChain :: "(int \<Rightarrow> 32 word) \<Rightarrow> nat \<Rightarrow> voteDataSource \<Rightarrow> bool" where
  "servesChain ver n node \<longleftrightarrow> (\<forall>v vi. GetVoteInfo node v = Inr vi \<longrightarrow>
     0 \<le> viCurrentHeight vi \<and> (\<forall>k r. 0 < k \<longrightarrow> k \<le> n \<longrightarrow>
       GetStakeVersions node (viHash vi) (int k) = Inr r \<longrightarrow>
         int (length r) \<le> viCurrentHeight vi + 1
         \<and> map svBlockVersion (rev r) = window ver (length r) (viCurrentHeight vi)))"

text \<open>
  A tracker that was started before the first block was mined fetches block 1 alone, because its
  \<open>ringHeight\<close> is 0 (\<open>fetchBlocks\<close> of \<open>gov/agendas/tracker.go\<close>). From then on its ring is that of the
  chain in which the genesis block, and the entries below it, have the version 0.
\<close>

definition fromZero :: "(int \<Rightarrow> 32 word) \<Rightarrow> int \<Rightarrow> 32 word" where
  "fromZero ver k = (if 0 < k then ver k else 0)"

lemma window_fromZero: "int n \<le> h \<Longrightarrow> window (fromZero ver) n h = window ver n h"
  by (simp add: window_def fromZero_def)

lemma rotate_replicate: "rotate k (replicate n x) = replicate n x"
proof (induction k)
  case (Suc k)
  have "rotate1 (replicate n x) = replicate n x" by (cases n) (simp_all add: replicate_append_same)
  then show ?case using Suc by simp
qed simp

lemma window_fromZero_0: "window (fromZero ver) n 0 = replicate n 0"
  by (rule nth_equalityI) (simp_all add: window_def fromZero_def)

definition synced :: "(int \<Rightarrow> 32 word) \<Rightarrow> trackerParams \<Rightarrow> 'f VoteTracker \<Rightarrow> bool" where
  "synced ver P t \<longleftrightarrow> (let n = BlockUpgradeNumToCheck P; w = window ver n (ringHeight t) in
     0 < ringHeight t \<and> ringOrder (ringIndex t) (blockRing t) = w
     \<and> blockVersion t = ver (ringHeight t)
     \<and> vsHeight (summary t) = ringHeight t
     \<and> vsNewMiners (summary t) = of_nat (count_list w (vsVersion (summary t)))
     \<and> vsOldMiners (summary t) = of_nat (n - count_list w (vsVersion (summary t))))"

definition trackerInv :: "(int \<Rightarrow> 32 word) \<Rightarrow> trackerParams \<Rightarrow> 'f VoteTracker \<Rightarrow> bool" where
  "trackerInv ver P t \<longleftrightarrow> ringOK (BlockUpgradeNumToCheck P) (ringIndex t) (blockRing t)
     \<and> (if voteInfo t = None
        then ringHeight t = 0 \<and> blockRing t = replicate (BlockUpgradeNumToCheck P) 0
        else synced ver P t \<or> synced (fromZero ver) P t)"

lemma synced_ring:
  assumes "synced f P t"
  shows "0 < ringHeight t" "ringOrder (ringIndex t) (blockRing t) = window f (BlockUpgradeNumToCheck P) (ringHeight t)"
    "blockVersion t = f (ringHeight t)" "vsHeight (summary t) = ringHeight t"
    "vsNewMiners (summary t)
       = of_nat (count_list (ringOrder (ringIndex t) (blockRing t)) (vsVersion (summary t)))"
    "vsNewMiners (summary t) + vsOldMiners (summary t) = of_nat (BlockUpgradeNumToCheck P)"
proof -
  let ?n = "BlockUpgradeNumToCheck P"
  have le: "count_list (window f ?n h) v \<le> ?n" for h v
    using count_le_length[of "window f ?n h" v] by simp
  have "(of_nat (count_list (window f ?n h) v) + of_nat (?n - count_list (window f ?n h) v) :: 32 word)
      = of_nat ?n" for h v
    using le[of h v] by (metis le_add_diff_inverse of_nat_add)
  then show "0 < ringHeight t" "ringOrder (ringIndex t) (blockRing t) = window f ?n (ringHeight t)"
    "blockVersion t = f (ringHeight t)" "vsHeight (summary t) = ringHeight t"
    "vsNewMiners (summary t)
       = of_nat (count_list (ringOrder (ringIndex t) (blockRing t)) (vsVersion (summary t)))"
    "vsNewMiners (summary t) + vsOldMiners (summary t) = of_nat ?n"
    using assms by (simp_all add: synced_def Let_def)
qed

lemma newVoteSummary_miners:
  assumes "ringOrder (ringIndex t) (blockRing t) = w"
  shows "vsNewMiners (newVoteSummary E P t vi) = of_nat (count_list w (vtVersion t))"
    and "vsOldMiners (newVoteSummary E P t vi) = of_nat (length w - count_list w (vtVersion t))"
    and "vsVersion (newVoteSummary E P t vi) = vtVersion t"
    and "vsHeight (newVoteSummary E P t vi) = viCurrentHeight vi"
proof -
  have w: "count_list w v = count_list (blockRing t) v" "length w = length (blockRing t)" for v
    using assms count_list_rotate[of "nat (ringIndex t + 1)" "blockRing t" v]
    by (auto simp: ringOrder_def)
  show "vsNewMiners (newVoteSummary E P t vi) = of_nat (count_list w (vtVersion t))"
    "vsOldMiners (newVoteSummary E P t vi) = of_nat (length w - count_list w (vtVersion t))"
    "vsVersion (newVoteSummary E P t vi) = vtVersion t"
    "vsHeight (newVoteSummary E P t vi) = viCurrentHeight vi"
    by (simp_all add: newVoteSummary_def Let_def countMiners_iff w split: prod.split list.split)
qed

lemma newest_version:
  assumes "ringOK n i ring" and "0 \<le> i" and "ringOrder i ring = window ver n h" and "0 < n"
  shows "go_index ring i = Some (ver h)"
proof -
  have b: "nat i < length ring" "length ring = n" using assms by (auto simp: ringOK_def)
  have "last (ringOrder i ring) = ring ! nat i"
  proof -
    have ne: "rotate (nat i) ring \<noteq> []" using b by auto
    have "nat (i + 1) = Suc (nat i)" using assms(2) by simp
    then have "ringOrder i ring = tl (rotate (nat i) ring) @ [hd (rotate (nat i) ring)]"
      using ne by (simp add: ringOrder_def rotate1_hd_tl)
    then show ?thesis using b ne hd_rotate_conv_nth[of ring "nat i"] by auto
  qed
  moreover have "last (window ver n h) = ver h"
    using assms(4) by (simp add: window_def last_map algebra_simps)
  ultimately show ?thesis using assms(2,3) b by (simp add: go_index_def)
qed

lemma update_synced:
  assumes "ringOK n (ringIndex t) (blockRing t)" and "n = BlockUpgradeNumToCheck P" and "0 < n"
    and "drop (length bs) (ringOrder (ringIndex t) (blockRing t) @ bs) = window ver n (viCurrentHeight vi)"
    and "bs \<noteq> []" and "0 < viCurrentHeight vi"
  shows "\<exists>t'. update E P counter t vi bs si sv = Ret t'
           \<and> ringOK n (ringIndex t') (blockRing t') \<and> synced ver P t'
           \<and> ringHeight t' = viCurrentHeight vi \<and> voteInfo t' \<noteq> None"
proof -
  obtain i ring where w: "writeRing n (ringIndex t, blockRing t) bs = Ret (i, ring)"
    "ringOK n i ring" "0 \<le> i" "ringOrder i ring = window ver n (viCurrentHeight vi)"
    using writeRing_order[OF assms(1,3), of bs] assms(4,5) by auto
  obtain cache ags where u: "updateAgendas counter (countCache t) (viAgendas vi) = (cache, ags)"
    by fastforce
  define vi' where "vi' = vi\<lparr>viAgendas := ags\<rparr>"
  define t1 where "t1 = t\<lparr>countCache := cache, voteInfo := Some vi', stakeInfo := si,
      ringIndex := i, blockRing := ring, blockVersion := ver (viCurrentHeight vi),
      stakeVersion := sv, ringHeight := viCurrentHeight vi\<rparr>"
  have t1: "ringOrder (ringIndex t1) (blockRing t1) = window ver n (viCurrentHeight vi)"
    using w(4) by (simp add: t1_def)
  have upd: "update E P counter t vi bs si sv = Ret (t1\<lparr>summary := newVoteSummary E P t1 vi'\<rparr>)"
    using w(1) newest_version[OF w(2,3,4) assms(3)] assms(2)
    by (simp add: update_def u vi'_def t1_def Let_def)
  have "synced ver P (t1\<lparr>summary := newVoteSummary E P t1 vi'\<rparr>)"
    using newVoteSummary_miners[OF t1, of E P vi'] w(4) assms(2,6)
    by (simp add: synced_def Let_def t1_def vi'_def)
  then show ?thesis using upd w(2) by (simp add: t1_def)
qed

lemma refreshRCI_fields:
  assumes "refreshRCI node t = Some (t', r)"
  shows "\<exists>v. t' = t\<lparr>vtVersion := v\<rparr>"
proof -
  have self: "\<exists>v. s = s\<lparr>vtVersion := v\<rparr>" for s :: "'f VoteTracker"
    by (rule exI[of _ "vtVersion s"]) simp
  obtain v vi where l: "rciLoop (GetVoteInfo node) (vtVersion t) None = Some (v, vi)"
    using assms by (auto simp: refreshRCI_def Let_def split: option.splits)
  have "t' = t \<or> t' = t\<lparr>vtVersion := v\<rparr>"
    using assms l by (cases vi) (auto simp: refreshRCI_def Let_def split: if_splits)
  then show ?thesis using self[of t] by blast
qed

lemma rciLoop_Some:
  "rciLoop get v vi = Some y \<Longrightarrow> snd y = vi \<or> (\<exists>u x. get u = Inr x \<and> snd y = Some x)"
proof (induction rule: rciLoop.raw_induct[rotated 1, consumes 1])
  case (1 rciLoop get v vi y)
  show ?case
  proof (cases "get v")
    case (Inl e)
    then show ?thesis using 1(2) by auto
  next
    case (Inr x)
    then have "rciLoop get (v + 1) (Some x) = Some y" using 1(2) by simp
    then have "snd y = Some x \<or> (\<exists>u x. get u = Inr x \<and> snd y = Some x)" by (rule 1(1))
    then show ?thesis using Inr by blast
  qed
qed

lemma refreshRCI_info:
  assumes "refreshRCI node t = Some (t', Inr (Some vi))"
  shows "\<exists>u. GetVoteInfo node u = Inr vi"
  using assms rciLoop_Some[of "GetVoteInfo node" "vtVersion t" None]
  by (auto simp: refreshRCI_def Let_def split: option.splits if_splits)

lemma trackerInv_version: "trackerInv ver P (t\<lparr>vtVersion := v\<rparr>) = trackerInv ver P t"
  by (simp add: trackerInv_def synced_def)


lemma fetchBlocks_window:
  assumes "fetchBlocks node P t vi = Inr (bs, sv)" and "servesChain ver n node"
    and "GetVoteInfo node u = Inr vi" and "n = BlockUpgradeNumToCheck P" and "0 < n" and "n < 2 ^ 31"
  shows "\<exists>k. 0 < k \<and> k \<le> n \<and> length bs = k \<and> bs = window ver k (viCurrentHeight vi)
    \<and> (k = n \<or> k = 1 \<and> viCurrentHeight vi = ringHeight t + 1) \<and> int k \<le> viCurrentHeight vi + 1"
proof -
  define k where "k = nat (blocksToRequest P t vi)"
  have k: "0 < k" "k \<le> n" "blocksToRequest P t vi = int k"
    "k = n \<or> k = 1 \<and> viCurrentHeight vi = ringHeight t + 1"
    using assms(4,5) by (auto simp: k_def blocksToRequest_def)
  have "int k < 2 ^ 31" using k(2) assms(6) by simp
  then have wrap: "wrap32 (int k) = int k"
    by (intro wrap32_id) simp_all
  obtain r where r: "GetStakeVersions node (viHash vi) (int k) = Inr r" "length r = k"
    "bs = map svBlockVersion (rev r)"
    using assms(1) k(3) wrap by (auto simp: fetchBlocks_def Let_def split: sum.splits if_splits)
  have "map svBlockVersion (rev r) = window ver (length r) (viCurrentHeight vi)
    \<and> int (length r) \<le> viCurrentHeight vi + 1"
    using assms(2,3) k(1,2) r(1) unfolding servesChain_def by blast
  then show ?thesis using k r by (intro exI[of _ k]) auto
qed

text \<open>Whether one block was fetched or all of them: what the ring holds afterwards.\<close>

lemma ring_extended:
  assumes "trackerInv ver P t" and "n = BlockUpgradeNumToCheck P" and "0 < n"
    and "length bs = k" and "bs = window ver k h" and "k = n \<or> k = 1 \<and> h = ringHeight t + 1"
  shows "\<exists>f. (f = ver \<or> f = fromZero ver)
    \<and> drop (length bs) (ringOrder (ringIndex t) (blockRing t) @ bs) = window f n h"
proof -
  have len: "length (ringOrder (ringIndex t) (blockRing t)) = n"
    using assms(1,2) by (simp add: trackerInv_def ringOrder_def ringOK_def)
  show ?thesis
  proof (cases "k = n")
    case True
    then show ?thesis using assms(4,5) len by auto
  next
    case False
    then have next1: "k = 1" "h = ringHeight t + 1" using assms(6) by auto
    obtain f where f: "f = ver \<or> f = fromZero ver"
      "ringOrder (ringIndex t) (blockRing t) = window f n (ringHeight t)" "0 \<le> ringHeight t"
    proof (cases "voteInfo t = None")
      case True
      then have "ringOrder (ringIndex t) (blockRing t) = window (fromZero ver) n (ringHeight t)"
        "ringHeight t = 0"
        using assms(1,2) by (simp_all add: trackerInv_def ringOrder_def window_fromZero_0 rotate_replicate)
      then show ?thesis using that[of "fromZero ver"] by simp
    next
      case False
      then have "synced ver P t \<or> synced (fromZero ver) P t"
        using assms(1) by (simp add: trackerInv_def)
      then show ?thesis using that[of ver] that[of "fromZero ver"] assms(2) by (auto simp: synced_def Let_def)
    qed
    have "f h = ver h" using f(1,3) next1(2) by (auto simp: fromZero_def)
    then have bs: "bs = [f (ringHeight t + 1)]" using assms(5) next1 by (simp add: window_def)
    have "window f n (ringHeight t) \<noteq> []" using assms(3) by (metis length_window length_greater_0_conv)
    then have "drop (length bs) (ringOrder (ringIndex t) (blockRing t) @ bs) = window f n h"
      using window_next[OF assms(3), of f "ringHeight t"] bs next1(2) assms(3) by (simp add: f(2) drop_Suc)
    then show ?thesis using f(1) by blast
  qed
qed

lemma refreshWith_synced:
  assumes "trackerInv ver P t" and "servesChain ver n node" and "GetVoteInfo node u = Inr vi"
    and "n = BlockUpgradeNumToCheck P" and "1 < n" and "n < 2 ^ 31" and "StakeVersionInterval P \<noteq> 0"
  shows "\<exists>t' err. refreshWith E P counter node t vi = Ret (t', err) \<and> trackerInv ver P t'
    \<and> (err = None \<longrightarrow> ringHeight t' = viCurrentHeight vi \<and> voteInfo t' \<noteq> None)
    \<and> (err \<noteq> None \<longrightarrow> t' = t)"
proof (cases "fetchBlocks node P t vi")
  case (Inl e)
  then show ?thesis using assms(1) by (simp add: refreshWith_def)
next
  case (Inr p)
  obtain bs sv where p: "p = (bs, sv)" by force
  have n0: "0 < n" using assms(5) by simp
  obtain k where k: "0 < k" "k \<le> n" "length bs = k" "bs = window ver k (viCurrentHeight vi)"
    "k = n \<or> k = 1 \<and> viCurrentHeight vi = ringHeight t + 1" "int k \<le> viCurrentHeight vi + 1"
    using fetchBlocks_window[OF Inr[unfolded p] assms(2,3,4) _ assms(6)] n0 by blast
  have ring: "ringOK n (ringIndex t) (blockRing t)" using assms(1,4) by (simp add: trackerInv_def)
  have "0 \<le> ringHeight t"
    using assms(1) by (auto simp: trackerInv_def synced_def Let_def split: if_splits)
  then have pos: "0 < viCurrentHeight vi" using k(5,6) assms(5) by auto
  obtain f where f: "f = ver \<or> f = fromZero ver"
    "drop (length bs) (ringOrder (ringIndex t) (blockRing t) @ bs) = window f n (viCurrentHeight vi)"
    using ring_extended[OF assms(1) assms(4) n0 k(3,4,5)] by blast
  have "bs \<noteq> []" using k(1,3) by auto
  then have upd: "\<exists>t'. update E P counter t vi bs si sv = Ret t' \<and> trackerInv ver P t'
           \<and> ringHeight t' = viCurrentHeight vi" for si
    using update_synced[OF ring assms(4) n0 f(2) _ pos, of E counter si sv] f(1) assms(4)
    by (auto simp: trackerInv_def)
  have "refreshSVIs node P vi \<noteq> Panic" using assms(7) by (simp add: refreshSVIs_def Let_def)
  then obtain r where r: "refreshSVIs node P vi = Ret r" by (cases "refreshSVIs node P vi") auto
  show ?thesis
  proof (cases r)
    case (Inl e)
    then show ?thesis using assms(1) Inr r p by (simp add: refreshWith_def)
  next
    case (Inr si)
    obtain t' where t': "update E P counter t vi bs si sv = Ret t'" "trackerInv ver P t'"
      "ringHeight t' = viCurrentHeight vi" using upd by blast
    have "voteInfo t' \<noteq> None" using t'(2,3) pos by (auto simp: trackerInv_def split: if_splits)
    then show ?thesis using t' Inr r p \<open>fetchBlocks node P t vi = Inr p\<close>
      by (simp add: refreshWith_def)
  qed
qed

lemma Refresh_inv:
  assumes "trackerInv ver P t" and "servesChain ver (BlockUpgradeNumToCheck P) node"
    and "1 < BlockUpgradeNumToCheck P" and "BlockUpgradeNumToCheck P < 2 ^ 31"
    and "StakeVersionInterval P \<noteq> 0" and "Refresh E P counter node t = Some out"
  shows "\<exists>t' err. out = Ret (t', err) \<and> trackerInv ver P t'"
proof -
  obtain t1 r where r: "refreshRCI node t = Some (t1, r)"
    using assms(6) by (auto simp: Refresh_def split: option.splits)
  obtain v where t1: "t1 = t\<lparr>vtVersion := v\<rparr>" using refreshRCI_fields[OF r] by blast
  then have inv: "trackerInv ver P t1" using assms(1) by (simp add: trackerInv_version)
  show ?thesis
  proof (cases "\<exists>vi. r = Inr (Some vi)")
    case True
    then obtain vi where vi: "r = Inr (Some vi)" by blast
    obtain u where u: "GetVoteInfo node u = Inr vi" using refreshRCI_info[OF r[unfolded vi]] by blast
    show ?thesis
      using refreshWith_synced[OF inv assms(2) u refl assms(3-5), of E counter] assms(6) r vi
      by (auto simp: Refresh_def)
  next
    case False
    then show ?thesis using assms(6) r inv
      by (cases r) (auto simp: Refresh_def split: option.splits)
  qed
qed

text \<open>
  The trackers that a start and any number of refreshes lead to, while the node serves one chain:
  its answers may change from call to call, with the height it has reached.
\<close>

inductive trackerReach ::
  "(int \<Rightarrow> 32 word) \<Rightarrow> ('f::{plus,minus,times,inverse,zero,one,ord}) float32Env \<Rightarrow> trackerParams
   \<Rightarrow> 'f VoteTracker \<Rightarrow> bool" for ver E P where
  start: "servesChain ver (BlockUpgradeNumToCheck P) node
     \<Longrightarrow> NewVoteTracker E P counter node = Some (Ret (Inr t)) \<Longrightarrow> trackerReach ver E P t"
| refresh: "trackerReach ver E P t \<Longrightarrow> servesChain ver (BlockUpgradeNumToCheck P) node
     \<Longrightarrow> Refresh E P counter node t = Some (Ret (t', err)) \<Longrightarrow> trackerReach ver E P t'"

lemma initTracker_inv: "0 < BlockUpgradeNumToCheck P \<Longrightarrow> trackerInv ver P (initTracker E P v)"
  by (simp add: trackerInv_def initTracker_def Let_def ringOK_def)

lemma reach_inv:
  assumes "trackerReach ver E P t" and "1 < BlockUpgradeNumToCheck P"
    and "BlockUpgradeNumToCheck P < 2 ^ 31" and "StakeVersionInterval P \<noteq> 0"
  shows "trackerInv ver P t"
  using assms(1)
proof induction
  case (start node counter t)
  from start(2) obtain v where
    "Refresh E P counter node (initTracker E P v) = Some (Ret (t, None))"
    by (auto simp: NewVoteTracker_def split: option.splits sum.splits if_splits go.splits)
  then show ?case
    using Refresh_inv[OF initTracker_inv start(1) assms(2-4)] assms(2) by fastforce
next
  case (refresh t node counter t' err)
  then show ?case using Refresh_inv[OF refresh(4) refresh(2) assms(2-4) refresh(3)] by blast
qed

subsection \<open>Which vote version the tracker follows\<close>

text \<open>The node knows exactly the versions from \<open>a\<close> to \<open>b\<close>.\<close>

definition knows :: "(32 word \<Rightarrow> rpcError + voteInfoResult) \<Rightarrow> nat \<Rightarrow> nat \<Rightarrow> bool" where
  "knows get a b \<longleftrightarrow> a \<le> b \<and> b + 1 < 2 ^ 32 \<and>
     (\<forall>k. k < 2 ^ 32 \<longrightarrow> (if a \<le> k \<and> k \<le> b then \<exists>x. get (of_nat k) = Inr x
                       else get (of_nat k) = Inl InvalidParameter))"

lemma knowsD:
  assumes "knows get a b"
  shows "a \<le> k \<Longrightarrow> k \<le> b \<Longrightarrow> \<exists>x. get (of_nat k) = Inr x"
    and "k < a \<Longrightarrow> get (of_nat k) = Inl InvalidParameter"
    and "get (of_nat (Suc b)) = Inl InvalidParameter" and "a \<le> b" and "Suc b < 2 ^ 32"
proof -
  have R: "a \<le> b" "b + 1 < 2 ^ 32" "\<And>k. k < 2 ^ 32 \<Longrightarrow> (if a \<le> k \<and> k \<le> b
     then \<exists>x. get (of_nat k) = Inr x else get (of_nat k) = Inl InvalidParameter)"
    using assms unfolding knows_def by blast+
  show "a \<le> k \<Longrightarrow> k \<le> b \<Longrightarrow> \<exists>x. get (of_nat k) = Inr x" using R(2) R(3)[of k] by simp
  show "k < a \<Longrightarrow> get (of_nat k) = Inl InvalidParameter" using R(1,2) R(3)[of k] by simp
  show "get (of_nat (Suc b)) = Inl InvalidParameter" "a \<le> b" "Suc b < 2 ^ 32"
    using R(1,2) R(3)[of "Suc b"] by simp_all
qed

lemma rciLoop_knows:
  assumes "knows get a b" and "a \<le> v" and "v \<le> Suc b"
  shows "\<exists>r. rciLoop get (of_nat v) vi = Some (of_nat (Suc b), r)
           \<and> (v \<le> b \<longrightarrow> (\<exists>x. get (of_nat b) = Inr x \<and> r = Some x)) \<and> (v = Suc b \<longrightarrow> r = vi)"
  using assms(2,3)
proof (induction "Suc b - v" arbitrary: v vi)
  case 0
  then have v: "v = Suc b" by simp
  show ?case unfolding v using knowsD(3)[OF assms(1)]
    by (subst rciLoop.simps) simp
next
  case (Suc n)
  have vb: "v \<le> b" using Suc.hyps(2) by linarith
  obtain x where x: "get (of_nat v) = Inr x"
    using knowsD(1)[OF assms(1) Suc.prems(1) vb] by auto
  have loop: "rciLoop get (of_nat v) vi = rciLoop get (of_nat (Suc v)) (Some x)"
    by (subst rciLoop.simps) (simp add: x add.commute)
  have "n = Suc b - Suc v" "a \<le> Suc v" "Suc v \<le> Suc b" using Suc by auto
  from Suc.hyps(1)[OF this, of "Some x"] obtain r where
    r: "rciLoop get (of_nat (Suc v)) (Some x) = Some (of_nat (Suc b), r)"
      "Suc v \<le> b \<longrightarrow> (\<exists>x. get (of_nat b) = Inr x \<and> r = Some x)" "Suc v = Suc b \<longrightarrow> r = Some x"
    by blast
  have "v = b \<or> Suc v \<le> b" using Suc.hyps(2) by linarith
  then show ?case using loop r x by (intro exI[of _ r]) auto
qed

lemma moreVersions_knows:
  assumes "knows get a b" and "a \<le> v" and "v \<le> b"
  shows "moreVersions get (of_nat (Suc v)) (map of_nat [a..<Suc v])
       = Some (Inr (map of_nat [a..<Suc b]))"
  using assms(2,3)
proof (induction "b - v" arbitrary: v)
  case 0
  then have v: "v = b" by simp
  show ?case unfolding v by (subst moreVersions.simps) (simp only: knowsD(3)[OF assms(1)] sum.case rpcError.case)
next
  case (Suc n)
  have vb: "a \<le> Suc v" "Suc v \<le> b" using Suc.hyps(2) Suc.prems(1) by linarith+
  obtain x where x: "get (of_nat (Suc v)) = Inr x"
    using knowsD(1)[OF assms(1) vb] by auto
  have "moreVersions get (of_nat (Suc v)) (map of_nat [a..<Suc v])
      = moreVersions get (of_nat (Suc (Suc v))) (map of_nat [a..<Suc (Suc v)])"
    using x Suc.prems by (subst moreVersions.simps) (simp add: add.commute)
  then show ?case using Suc.hyps(1)[of "Suc v"] Suc.hyps(2) Suc.prems by simp
qed

lemma firstVersion_knows:
  assumes "knows get a b" and "v \<le> a" and "a < v + n"
  shows "firstVersion get n (of_nat v) = Inr (Some (of_nat a))"
  using assms(2,3)
proof (induction n arbitrary: v)
  case (Suc n)
  show ?case
  proof (cases "v = a")
    case True
    then show ?thesis using knowsD(1)[OF assms(1), of a] knowsD(4)[OF assms(1)] by auto
  next
    case False
    then have "get (of_nat v) = Inl InvalidParameter" using knowsD(2)[OF assms(1)] Suc.prems by simp
    moreover have "firstVersion get n (of_nat (Suc v)) = Inr (Some (of_nat a))"
      by (rule Suc.IH) (use False Suc.prems in simp_all)
    ultimately show ?thesis by (simp add: add.commute)
  qed
qed simp

lemma listStakeVersions_knows:
  assumes "knows get a b" and "a < 10"
  shows "listStakeVersions get = Some (Inr (Some (map of_nat [a..<Suc b])))"
proof -
  have "firstVersion get 10 0 = Inr (Some (of_nat a))"
    using firstVersion_knows[OF assms(1), of 0 10] assms(2) by simp
  moreover have "moreVersions get (of_nat a + 1) [of_nat a] = Some (Inr (map of_nat [a..<Suc b]))"
    using moreVersions_knows[OF assms(1), of a] knowsD(4)[OF assms(1)] by (simp add: add.commute)
  ultimately show ?thesis by (simp add: listStakeVersions_def)
qed

lemma of_nat_less32: "a < 2 ^ 32 \<Longrightarrow> b < 2 ^ 32 \<Longrightarrow> (of_nat a < (of_nat b :: 32 word)) = (a < b)"
  by (simp add: word_less_nat_alt unat_of_nat take_bit_nat_eq_self)

lemma refreshRCI_knows:
  assumes "knows (GetVoteInfo node) a b" and "a \<le> v" and "v \<le> b" and "vtVersion t = of_nat v"
  shows "\<exists>x. GetVoteInfo node (of_nat b) = Inr x \<and> refreshRCI node t
     = Some (t\<lparr>vtVersion := of_nat (if v = b then b else Suc b)\<rparr>, Inr (Some x))"
proof -
  obtain x where x: "GetVoteInfo node (of_nat b) = Inr x"
    "rciLoop (GetVoteInfo node) (of_nat v) None = Some (of_nat (Suc b), Some x)"
    using rciLoop_knows[OF assms(1,2), of None] assms(3) by auto
  have eq: "(of_nat v + 1 :: 32 word) = of_nat (Suc v)" by (simp add: add.commute)
  have "((of_nat v + 1 :: 32 word) < of_nat (Suc b)) = (Suc v < Suc b)"
    unfolding eq using knowsD(5)[OF assms(1)] assms(3) by (intro of_nat_less32) simp_all
  then have "((of_nat v + 1 :: 32 word) < of_nat (Suc b)) = (v \<noteq> b)" using assms(3) by auto
  then show ?thesis using x assms(4) by (simp add: refreshRCI_def Let_def)
qed

lemma refreshRCI_lost:
  assumes "knows (GetVoteInfo node) a b" and "vtVersion t = of_nat (Suc b)"
  shows "refreshRCI node t = Some (t, Inl VoteInfoNotFound)"
proof -
  have "rciLoop (GetVoteInfo node) (of_nat (Suc b)) None = Some (of_nat (Suc b), None)"
    using rciLoop_knows[OF assms(1), of "Suc b" None] knowsD(4)[OF assms(1)] by simp
  moreover have "(of_nat (Suc b) :: 32 word) \<noteq> 0"
    using of_nat_less32[of 0 "Suc b"] knowsD(5)[OF assms(1)] by auto
  ultimately show ?thesis using assms(2) by (simp add: refreshRCI_def Let_def)
qed

text \<open>the vote version. While the node knows the versions \<open>a\<close> to \<open>b\<close>, a start finds them all and
  follows version \<open>b\<close>, and a refresh of a tracker at version \<open>b\<close> keeps it. But a tracker at an older
  version is not moved to \<open>b\<close>: the loop leaves the first version that the node does not know, so
  the tracker ends at \<open>b + 1\<close>, and from then on every refresh fails and changes nothing.\<close>

theorem refresh_version:
  assumes "knows (GetVoteInfo node) a b" and "a \<le> v" and "v \<le> b"
    and "vtVersion t = of_nat v" and "Refresh E P counter node t = Some (Ret (t', err))"
  shows "(a < 10 \<longrightarrow> listStakeVersions (GetVoteInfo node) = Some (Inr (Some (map of_nat [a..<Suc b]))))
     \<and> vtVersion t' = (if v = b then of_nat b else of_nat (Suc b))
     \<and> (v \<noteq> b \<longrightarrow> Refresh E P counter node t' = Some (Ret (t', Some VoteInfoNotFound)))"
proof -
  obtain x where x: "refreshRCI node t
      = Some (t\<lparr>vtVersion := of_nat (if v = b then b else Suc b)\<rparr>, Inr (Some x))"
    using refreshRCI_knows[OF assms(1-4)] by blast
  have version: "vtVersion t2 = vtVersion t1" if "refreshWith E P counter node t1 x = Ret (t2, err')"
    for t1 t2 err'
    using that by (auto simp: refreshWith_def update_def Let_def split: sum.splits go.splits
      option.splits prod.splits)
  have v': "vtVersion t' = of_nat (if v = b then b else Suc b)"
    using version[of "t\<lparr>vtVersion := of_nat (if v = b then b else Suc b)\<rparr>" t' err] assms(5) x
    by (simp add: Refresh_def)
  have "Refresh E P counter node t' = Some (Ret (t', Some VoteInfoNotFound))" if "v \<noteq> b"
    using refreshRCI_lost[OF assms(1), of t'] v' that by (simp add: Refresh_def)
  then show ?thesis using v' listStakeVersions_knows[OF assms(1)] by simp
qed

text \<open>A node, parameters and a float type to apply the properties to.\<close>

definition exEnv :: "rat float32Env" where
  "exEnv = \<lparr>ofInt = of_int, toUint = (\<lambda>x. word_of_int \<lfloor>x\<rfloor>)\<rparr>"

definition exParams :: trackerParams where
  "exParams = \<lparr>BlockUpgradeNumToCheck = 2, BlockRejectNumRequired = 1,
     RuleChangeActivationMultiplier = 3, RuleChangeActivationDivisor = 4,
     RuleChangeActivationInterval = 8, RuleChangeActivationQuorum = 4, StakeVersionInterval = 4,
     TargetSecondsPerBlock = 300, TicketsPerBlock = 5\<rparr>"

definition exInfo :: voteInfoResult where
  "exInfo = \<lparr>viCurrentHeight = 9, viStartHeight = 8, viEndHeight = 15, viHash = ''h'',
     viVoteVersion = 6, viAgendas = []\<rparr>"

definition exNode :: "nat \<Rightarrow> voteDataSource" where
  "exNode b = \<lparr>GetVoteInfo = (\<lambda>v. if v = 5 \<or> (b = 6 \<and> v = 6) then Inr exInfo else Inl InvalidParameter),
     GetStakeVersions = (\<lambda>h n. Inr (replicate (nat n) \<lparr>svBlockVersion = 5, svStakeVersion = 5\<rparr>)),
     GetStakeVersionInfo = (\<lambda>n. Inr [])\<rparr>"

lemma exParams_ok: "1 < BlockUpgradeNumToCheck exParams" "BlockUpgradeNumToCheck exParams < 2 ^ 31"
  "StakeVersionInterval exParams \<noteq> 0" "BlockUpgradeNumToCheck exParams = 2"
  by (simp_all add: exParams_def)

lemma of_nat_eq32: "a < 2 ^ 32 \<Longrightarrow> b < 2 ^ 32 \<Longrightarrow> (of_nat a = (of_nat b :: 32 word)) = (a = b)"
  using of_nat_less32[of a b] of_nat_less32[of b a] by (metis less_irrefl linorder_neqE_nat)

lemma exNode_knows: "knows (GetVoteInfo (exNode 5)) 5 5" "knows (GetVoteInfo (exNode 6)) 5 6"
proof -
  have "k < 2 ^ 32 \<Longrightarrow> (of_nat k = (5 :: 32 word)) = (k = 5)" 
    "k < 2 ^ 32 \<Longrightarrow> (of_nat k = (6 :: 32 word)) = (k = 6)" for k
    using of_nat_eq32[of k 5] of_nat_eq32[of k 6] by simp_all
  then show "knows (GetVoteInfo (exNode 5)) 5 5" "knows (GetVoteInfo (exNode 6)) 5 6"
    by (auto simp: knows_def exNode_def)
qed

theorem refresh_version_witness:
  "\<exists>t'. vtVersion t' = 7
     \<and> Refresh exEnv exParams (\<lambda>_. Inl []) (exNode 6) t' = Some (Ret (t', Some VoteInfoNotFound))"
proof -
  let ?t = "initTracker exEnv exParams 5"
  have "trackerInv (\<lambda>_. 5) exParams ?t" by (rule initTracker_inv) (simp add: exParams_def)
  moreover have serves: "servesChain (\<lambda>_. 5) (BlockUpgradeNumToCheck exParams) (exNode 6)"
    by (auto simp: servesChain_def exNode_def exInfo_def exParams_def window_def map_replicate_const
        split: if_splits)
  moreover obtain out where out: "Refresh exEnv exParams (\<lambda>_. Inl []) (exNode 6) ?t = Some out"
    using refreshRCI_knows[OF exNode_knows(2), of 5 ?t]
    by (auto simp: Refresh_def initTracker_def Let_def)
  ultimately obtain t' err where "out = Ret (t', err)"
    using Refresh_inv[OF _ serves exParams_ok(1-3)] by blast
  moreover have "vtVersion ?t = of_nat 5" by (simp add: initTracker_def Let_def)
  ultimately have "vtVersion t' = 7
     \<and> Refresh exEnv exParams (\<lambda>_. Inl []) (exNode 6) t' = Some (Ret (t', Some VoteInfoNotFound))"
    using refresh_version[OF exNode_knows(2) _ _ _ out[unfolded \<open>out = Ret (t', err)\<close>], of 5] by simp
  then show ?thesis by blast
qed

text \<open>C30: the vote tracker follows the chain. While the node serves one chain, at whatever height it is at
  each call, no refresh panics, and after every start and refresh that got as far as fetching the
  blocks, \<open>ringHeight\<close> is the height of the block that was reported, above 0, and the summary counts
  the miners over exactly what the ring holds: the versions of the last \<open>BlockUpgradeNumToCheck\<close>
  blocks in order, once the chain has that many blocks above the genesis block. Below that height the
  ring may instead hold the versions of the blocks mined so far, after entries of 0 for blocks that do
  not exist, since a tracker started at height 1 fetches a single block; it is never anything else.
  This holds although a refresh at the next height fetches a single block. (The parameters are those
  of a network: \<open>BlockUpgradeNumToCheck\<close> above 1 and below \<open>2 ^ 31\<close>, a stake version interval other than 0.
  A chain that is reorganized is not one chain: see \<open>ring_misses_reorg\<close>.)\<close>

theorem tracker_window:
  assumes "trackerReach ver E P t" and "1 < BlockUpgradeNumToCheck P"
    and "BlockUpgradeNumToCheck P < 2 ^ 31" and "StakeVersionInterval P \<noteq> 0"
  shows "(voteInfo t \<noteq> None \<longrightarrow>
       (let n = BlockUpgradeNumToCheck P; h = ringHeight t; ring = ringOrder (ringIndex t) (blockRing t)
        in 0 < h
         \<and> (ring = window ver n h \<or> h < int n \<and> ring = window (\<lambda>k. if 0 < k then ver k else 0) n h)
         \<and> blockVersion t = ver h
         \<and> vsHeight (summary t) = h
         \<and> vsNewMiners (summary t) = of_nat (count_list ring (vsVersion (summary t)))
         \<and> vsNewMiners (summary t) + vsOldMiners (summary t) = of_nat n))
     \<and> (servesChain ver (BlockUpgradeNumToCheck P) node \<longrightarrow>
        Refresh E P counter node t \<noteq> Some Panic)"
proof -
  have inv: "trackerInv ver P t" by (rule reach_inv[OF assms])
  have z: "fromZero ver = (\<lambda>k. if 0 < k then ver k else 0)" by (rule ext) (simp add: fromZero_def)
  have "synced ver P t \<or> synced (fromZero ver) P t" if "voteInfo t \<noteq> None"
    using inv that by (simp add: trackerInv_def)
  moreover have "Refresh E P counter node t \<noteq> Some Panic"
    if "servesChain ver (BlockUpgradeNumToCheck P) node"
    using Refresh_inv[OF inv that assms(2-4)] by fastforce
  ultimately show ?thesis
    using synced_ring[of ver P t] synced_ring[of "fromZero ver" P t]
      window_fromZero[of "BlockUpgradeNumToCheck P" "ringHeight t" ver]
    unfolding z[symmetric] Let_def by (metis fromZero_def linorder_not_less)
qed

theorem tracker_window_witness:
  "\<exists>t. voteInfo t \<noteq> None \<and> trackerReach (\<lambda>_. 5) exEnv exParams t
     \<and> vsNewMiners (summary t) + vsOldMiners (summary t) = 2"
proof -
  let ?t = "initTracker exEnv exParams 5"
  let ?u = "?t\<lparr>vtVersion := 5\<rparr>"
  have l: "listStakeVersions (GetVoteInfo (exNode 5)) = Some (Inr (Some [5]))"
    using listStakeVersions_knows[OF exNode_knows(1)] by simp
  have r: "refreshRCI (exNode 5) ?t = Some (?u, Inr (Some exInfo))"
    using refreshRCI_knows[OF exNode_knows(1), of 5 ?t] by (simp add: exNode_def initTracker_def Let_def)
  have u: "trackerInv (\<lambda>_. 5) exParams ?u"
    unfolding trackerInv_version by (rule initTracker_inv) (simp add: exParams_def)
  have s: "servesChain (\<lambda>_. 5) (BlockUpgradeNumToCheck exParams) (exNode 5)"
    by (auto simp: servesChain_def exNode_def exInfo_def exParams_def window_def map_replicate_const)
  have g: "GetVoteInfo (exNode 5) 5 = Inr exInfo" by (simp add: exNode_def)
  obtain t err where t: "refreshWith exEnv exParams (\<lambda>_. Inl []) (exNode 5) ?u exInfo = Ret (t, err)"
    "err = None \<longrightarrow> voteInfo t \<noteq> None"
    using refreshWith_synced[OF u s g refl, of exEnv "\<lambda>_. Inl []"] by (auto simp: exParams_def)
  have "fetchBlocks (exNode 5) exParams ?u exInfo = Inr ([5, 5], 5)"
    by (simp add: fetchBlocks_def blocksToRequest_def exNode_def exParams_def exInfo_def
        initTracker_def Let_def wrap32_id numeral_2_eq_2)
  moreover have "refreshSVIs (exNode 5) exParams exInfo = Ret (Inr [])"
    by (simp add: refreshSVIs_def exNode_def exParams_def exInfo_def Let_def)
  ultimately have "err = None" using t(1)
    by (auto simp: refreshWith_def split: go.splits)
  then have "NewVoteTracker exEnv exParams (\<lambda>_. Inl []) (exNode 5) = Some (Ret (Inr t))"
    using l r t(1) by (simp add: NewVoteTracker_def Refresh_def)
  then have reach: "trackerReach (\<lambda>_. 5) exEnv exParams t" by (rule trackerReach.start[OF s])
  moreover have "voteInfo t \<noteq> None" using t(2) \<open>err = None\<close> by blast
  ultimately show ?thesis
    using tracker_window[OF reach exParams_ok(1-3)] unfolding exParams_ok(4) of_nat_numeral Let_def
    by blast
qed

text \<open>
  Whether the new block builds upon the last one is judged by its height alone: after a
  reorganization that ends one block higher, only the tip is fetched, and the ring keeps the
  version of the block that was replaced.
\<close>

lemma ring_misses_reorg:
  assumes "viCurrentHeight vi = ringHeight t + 1" and "0 \<le> viCurrentHeight vi"
  shows "blocksToRequest P t vi = 1"
  using assms by (simp add: blocksToRequest_def)

text \<open>
  A tracker that is new when the node is at height 1 takes the one block that it fetches for the next
  one: all other entries of its ring are the zeros it was made with, and they are counted as blocks of
  miners that have not upgraded.
\<close>

lemma started_at_height_one:
  assumes "refreshWith E P counter node (initTracker E P v) vi = Ret (t, None)"
    and "servesChain ver n node" and "GetVoteInfo node u = Inr vi" and "viCurrentHeight vi = 1"
    and "n = BlockUpgradeNumToCheck P" and "1 < n" and "n < 2 ^ 31"
  shows "ringOrder (ringIndex t) (blockRing t) = replicate (n - 1) 0 @ [ver 1]"
proof -
  let ?t = "initTracker E P v"
  have t0: "ringHeight ?t = 0" "ringIndex ?t = -1" "blockRing ?t = replicate n 0"
    using assms(5) by (simp_all add: initTracker_def Let_def)
  obtain bs sv si where f: "fetchBlocks node P ?t vi = Inr (bs, sv)" "update E P counter ?t vi bs si sv = Ret t"
    using assms(1) by (auto simp: refreshWith_def split: sum.splits go.splits)
  have "blocksToRequest P ?t vi = 1" using assms(4) t0(1) by (simp add: ring_misses_reorg)
  then have "length bs = 1"
    using f(1) by (auto simp: fetchBlocks_def wrap32_id Let_def split: sum.splits if_splits)
  then have bs: "bs = [ver 1]"
    using fetchBlocks_window[OF f(1) assms(2,3,5) _ assms(7)] assms(4,6) by (auto simp: window_def)
  have ok: "ringOK n (ringIndex ?t) (blockRing ?t)" using t0 assms(6) by (simp add: ringOK_def)
  obtain i ring where w: "writeRing n (ringIndex ?t, blockRing ?t) bs = Ret (i, ring)"
    "ringOrder i ring = drop (length bs) (ringOrder (ringIndex ?t) (blockRing ?t) @ bs)"
    using writeRing_order[OF ok, of bs] assms(6) by auto
  have "ringIndex t = i" "blockRing t = ring"
    using f(2) w(1) assms(5) by (auto simp: update_def Let_def split: prod.splits option.splits)
  then show ?thesis
    using w(2) bs t0 assms(6) by (simp add: ringOrder_def drop_Suc)
qed

subsection \<open>Agendas are found under their names\<close>

lemma storeAgendas_One:
  assumes laws: "\<And>db a db' i. sdbSave S db a = Inr db' \<Longrightarrow>
      sdbOne S db' i = (if i = atID a then Inr a else sdbOne S db i)"
    and "storeAgendas S db ags = (db', None)"
  shows "sdbOne S db' i = (case map_of (rev (map (\<lambda>a. (atID a, a)) ags)) i of
      None \<Rightarrow> sdbOne S db i | Some a \<Rightarrow> Inr a)"
  using assms(2)
proof (induction ags arbitrary: db)
  case Nil
  then show ?case by simp
next
  case (Cons a ags)
  then obtain db1 where db1: "sdbSave S db a = Inr db1" "storeAgendas S db1 ags = (db', None)"
    by (auto split: sum.splits)
  show ?case using Cons.IH[OF db1(2)] laws[OF db1(1)]
    by (auto simp: map_add_def split: option.splits)
qed

end
