(* ===== verification/MempoolTypes.thy ===== *)
theory MempoolTypes
  imports Prelude "HOL-Library.Multiset"
begin

text \<open>
  The mempool part of \<open>explorer/types/explorertypes.go\<close>: votes on blocks and their tally, the
  indexes of tickets, the inventory of the mempool and its trimmed form.

  \<open>'f\<close> is \<open>float64\<close>, \<open>'c\<close> a vote choice, which is only passed on. The functions of \<open>dcrutil\<close> and
  \<open>humanize\<close> are the record \<open>amountEnv\<close>; an amount is an \<open>int64\<close>, so a word. A set of strings is the
  Go map with values that are always \<open>true\<close> or \<open>struct{}{}\<close>. A \<open>*VoteInfo\<close> is the value it points to:
  the functions that set fields of one return it changed, and each transaction has a pointer of its
  own, as the functions that make transactions allocate it. The strings that format a time or a
  size for display are kept where they are results of the modelled functions.
\<close>

subsection \<open>Votes\<close>

record BlockValidation =
  valHash :: string
  valHeight :: int
  valValidity :: bool

record 'c VoteInfo =
  viValidation :: BlockValidation
  viVersion :: "32 word"
  viBits :: "16 word"
  viChoices :: "'c list"
  viTicketSpent :: string
  viMempoolTicketIndex :: int
  viForLastBlock :: bool

definition ForBlock :: "BlockValidation \<Rightarrow> string \<Rightarrow> bool" where
  "ForBlock v blockHash \<longleftrightarrow> blockHash \<noteq> [] \<and> blockHash = valHash v"

definition VotesOnBlock :: "'c VoteInfo \<Rightarrow> string \<Rightarrow> bool" where
  "VotesOnBlock vi blockHash = ForBlock (viValidation vi) blockHash"

text \<open>A \<open>TicketIndex\<close> is the list of its entries, of which the source reads the number.\<close>

type_synonym TicketIndex = "(string \<times> int) list"
type_synonym BlockValidatorIndex = "string \<rightharpoonup> TicketIndex"

definition SetTicketIndex :: "'c VoteInfo \<Rightarrow> BlockValidatorIndex \<Rightarrow> 'c VoteInfo \<times> BlockValidatorIndex" where
  "SetTicketIndex vi ticketSpendInds = (let hash = valHash (viValidation vi) in
     case ticketSpendInds hash of
       Some idxs \<Rightarrow> (case map_of idxs (viTicketSpent vi) of
           Some idx \<Rightarrow> (vi\<lparr>viMempoolTicketIndex := idx\<rparr>, ticketSpendInds)
         | None \<Rightarrow> (let idx = int (length idxs) + 1 in
             (vi\<lparr>viMempoolTicketIndex := idx\<rparr>,
              ticketSpendInds(hash \<mapsto> (viTicketSpent vi, idx) # idxs))))
     | None \<Rightarrow> (vi\<lparr>viMempoolTicketIndex := 1\<rparr>, ticketSpendInds(hash \<mapsto> [(viTicketSpent vi, 1)])))"

subsection \<open>Tallies\<close>

definition VoteReject :: int where "VoteReject = - 1"
definition VoteAffirm :: int where "VoteAffirm = 1"
definition VoteMissing :: int where "VoteMissing = 0"

record VoteTally =
  tyTicketsPerBlock :: int
  tyMarks :: "bool list"

record VotingInfo =
  vgTicketsVoted :: "16 word"
  vgMaxVotesPerBlock :: "16 word"
  vgVotedTickets :: "string set"
  vgVoteTallys :: "string \<rightharpoonup> VoteTally"

definition NewVotingInfo :: "16 word \<Rightarrow> VotingInfo" where
  "NewVotingInfo votesPerBlock = \<lparr>vgTicketsVoted = 0, vgMaxVotesPerBlock = votesPerBlock,
     vgVotedTickets = {}, vgVoteTallys = Map.empty\<rparr>"

definition Mark :: "VoteTally \<Rightarrow> bool \<Rightarrow> VoteTally" where
  "Mark tally vote = tally\<lparr>tyMarks := tyMarks tally @ [vote]\<rparr>"

definition Tally :: "VotingInfo \<Rightarrow> 'c VoteInfo \<Rightarrow> VotingInfo" where
  "Tally vi vinfo = (let hash = valHash (viValidation vinfo); vote = valValidity (viValidation vinfo) in
     case vgVoteTallys vi hash of
       Some tally \<Rightarrow> vi\<lparr>vgVoteTallys := (vgVoteTallys vi)(hash \<mapsto> Mark tally vote)\<rparr>
     | None \<Rightarrow> vi\<lparr>vgVoteTallys := (vgVoteTallys vi)(hash \<mapsto>
           \<lparr>tyTicketsPerBlock = uint (vgMaxVotesPerBlock vi), tyMarks = [vote]\<rparr>)\<rparr>)"

fun statusLoop :: "bool list \<Rightarrow> int \<Rightarrow> int \<Rightarrow> int list \<Rightarrow> int \<times> int \<times> int list" where
  "statusLoop [] up down votes = (up, down, votes)"
| "statusLoop (affirmed # marks) up down votes =
     (if affirmed then statusLoop marks (up + 1) down (votes @ [VoteAffirm])
      else statusLoop marks up (down + 1) (votes @ [VoteReject]))"

definition Status :: "VoteTally \<Rightarrow> int list \<times> int" where
  "Status tally = (let (up, down, votes) = statusLoop (tyMarks tally) 0 0 [];
       votes' = votes @ replicate (nat (tyTicketsPerBlock tally) - length votes) VoteMissing;
       threshold = tyTicketsPerBlock tally div 2
     in (votes', if threshold < up then VoteAffirm else if threshold < down then VoteReject else 0))"

definition BlockStatus :: "VotingInfo \<Rightarrow> string \<Rightarrow> int list \<times> int" where
  "BlockStatus vi hash = (case vgVoteTallys vi hash of
     Some tally \<Rightarrow> Status tally
   | None \<Rightarrow> (replicate (unat (vgMaxVotesPerBlock vi)) VoteMissing, VoteMissing))"

definition Affirmations :: "VoteTally \<Rightarrow> int" where
  "Affirmations tally = foldl (\<lambda>c affirmed. if affirmed then c + 1 else c) 0 (tyMarks tally)"

definition VoteCount :: "VoteTally \<Rightarrow> int" where
  "VoteCount tally = int (length (tyMarks tally))"

subsection \<open>Transactions and the inventory\<close>

record MempoolInput =
  inTxId :: string
  inIndex :: "32 word"
  inOutdex :: "32 word"

record ('f, 'c) MempoolTx =
  mpTxID :: string
  mpFees :: 'f
  mpFeeRate :: 'f
  mpVinCount :: int
  mpVoutCount :: int
  mpVin :: "MempoolInput list"
  mpCoinbase :: bool
  mpHash :: string
  mpTime :: int
  mpSize :: "32 word"
  mpTotalOut :: 'f
  mpType :: string
  mpVoteInfo :: "'c VoteInfo option"

record 'f LikelyMineable =
  lmTotal :: 'f
  lmSize :: "32 word"
  lmFormattedSize :: string
  lmRegularTotal :: 'f
  lmTicketTotal :: 'f
  lmVoteTotal :: 'f
  lmRevokeTotal :: 'f
  lmCount :: int

text \<open>\<open>MempoolInfo\<close> with the embedded \<open>MempoolShort\<close>.\<close>

record ('f, 'c) MempoolInfo =
  miLastBlockHeight :: int
  miLastBlockHash :: string
  miLastBlockTime :: int
  miFormattedBlockTime :: string
  miTime :: int
  miTotalOut :: 'f
  miTotalSize :: "32 word"
  miNumTickets :: int
  miNumVotes :: int
  miNumRegular :: int
  miNumRevokes :: int
  miNumAll :: int
  miLikelyMineable :: "'f LikelyMineable"
  miLatestTransactions :: "('f, 'c) MempoolTx list"
  miFormattedTotalSize :: string
  miTicketIndexes :: BlockValidatorIndex
  miVotingInfo :: VotingInfo
  miInvRegular :: "string set"
  miInvStake :: "string set"
  miTransactions :: "('f, 'c) MempoolTx list"
  miTickets :: "('f, 'c) MempoolTx list"
  miVotes :: "('f, 'c) MempoolTx list"
  miRevocations :: "('f, 'c) MempoolTx list"
  miIdent :: "64 word"

record 'f amountEnv =
  newAmount :: "'f \<Rightarrow> 64 word"
  toCoin :: "64 word \<Rightarrow> 'f"
  humanBytes :: "64 word \<Rightarrow> string"
  formatTime :: "int \<Rightarrow> string"

text \<open>\<open>uint64\<close> of an \<open>int32\<close> size.\<close>

definition sizeBytes :: "32 word \<Rightarrow> 64 word" where
  "sizeBytes w = word_of_int (sint w)"

fun getTxFromList :: "string \<Rightarrow> ('f, 'c) MempoolTx list \<Rightarrow> ('f, 'c) MempoolTx option" where
  "getTxFromList txid [] = None"
| "getTxFromList txid (tx # txns) = (if mpTxID tx = txid then Some tx else getTxFromList txid txns)"

definition Tx :: "('f, 'c) MempoolInfo \<Rightarrow> string \<Rightarrow> ('f, 'c) MempoolTx option" where
  "Tx mpi txid =
     (if txid \<in> miInvRegular mpi then getTxFromList txid (miTransactions mpi)
      else if txid \<in> miInvStake mpi then
        (case getTxFromList txid (miTickets mpi) of
           Some tx \<Rightarrow> Some tx
         | None \<Rightarrow> (case getTxFromList txid (miVotes mpi) of
             Some tx \<Rightarrow> Some tx
           | None \<Rightarrow> getTxFromList txid (miRevocations mpi)))
      else None)"

subsection \<open>The trimmed inventory\<close>

text \<open>\<open>TrimmedTxInfo\<close> with the fields of \<open>TxBasic\<close> that are set here.\<close>

record ('f, 'c) TrimmedTxInfo =
  trTxID :: string
  trFormattedSize :: string
  trTotal :: 'f
  trFee :: "64 word"
  trFeeRate :: "64 word"
  trVoteInfo :: "'c VoteInfo option"
  trCoinbase :: bool
  trFees :: 'f
  trVinCount :: int
  trVoutCount :: int
  trVoteValid :: bool

record ('f, 'c) TrimmedMempoolInfo =
  tmTransactions :: "('f, 'c) TrimmedTxInfo list"
  tmTickets :: "('f, 'c) TrimmedTxInfo list"
  tmVotes :: "('f, 'c) TrimmedTxInfo list"
  tmRevocations :: "('f, 'c) TrimmedTxInfo list"
  tmTotal :: 'f
  tmTime :: int
  tmFees :: 'f

definition TrimMempoolTx :: "'f amountEnv \<Rightarrow> ('f, 'c) MempoolTx list \<Rightarrow> ('f, 'c) TrimmedTxInfo list" where
  "TrimMempoolTx E txs = map (\<lambda>tx. let fee = newAmount E (mpFees tx) in
     \<lparr>trTxID = mpTxID tx, trFormattedSize = humanBytes E (sizeBytes (mpSize tx)),
      trTotal = mpTotalOut tx, trFee = fee,
      trFeeRate = (if 0 < sint (mpSize tx)
         then word_of_int (sgn (sint fee) * (abs (sint fee) div sint (mpSize tx))) else 0),
      trVoteInfo = mpVoteInfo tx, trCoinbase = mpCoinbase tx, trFees = mpFees tx,
      trVinCount = mpVinCount tx, trVoutCount = mpVoutCount tx,
      trVoteValid = (case mpVoteInfo tx of None \<Rightarrow> False | Some vi \<Rightarrow> valValidity (viValidation vi))\<rparr>) txs"

definition FilterRegularTx :: "('f, 'c) TrimmedTxInfo list \<Rightarrow> ('f, 'c) TrimmedTxInfo list" where
  "FilterRegularTx txs = filter (\<lambda>tx. \<not> trCoinbase tx) txs"

fun uniqueVotes :: "string set \<Rightarrow> ('f, 'c) TrimmedTxInfo list \<Rightarrow> ('f, 'c) TrimmedTxInfo list" where
  "uniqueVotes seen [] = []"
| "uniqueVotes seen (tx # txs) = (case trVoteInfo tx of
     None \<Rightarrow> uniqueVotes seen txs
   | Some vi \<Rightarrow>
       if viForLastBlock vi \<and> trTxID tx \<notin> seen
       then tx # uniqueVotes (insert (trTxID tx) seen) txs else uniqueVotes seen txs)"

definition FilterUniqueLastBlockVotes :: "('f, 'c) TrimmedTxInfo list \<Rightarrow> ('f, 'c) TrimmedTxInfo list" where
  "FilterUniqueLastBlockVotes txs = uniqueVotes {} txs"

definition totalFee :: "('f, 'c) TrimmedTxInfo list \<Rightarrow> 64 word" where
  "totalFee txs = foldl (\<lambda>sum tx. sum + trFee tx) 0 txs"

definition Trim :: "'f amountEnv \<Rightarrow> ('f, 'c) MempoolInfo \<Rightarrow> ('f, 'c) TrimmedMempoolInfo" where
  "Trim E mpi =
     (let regular = FilterRegularTx (TrimMempoolTx E (miTransactions mpi));
          tickets = TrimMempoolTx E (miTickets mpi);
          votes = FilterUniqueLastBlockVotes (TrimMempoolTx E (miVotes mpi));
          revs = TrimMempoolTx E (miRevocations mpi)
      in \<lparr>tmTransactions = regular, tmTickets = tickets, tmVotes = votes, tmRevocations = revs,
          tmTotal = miTotalOut mpi, tmTime = miLastBlockTime mpi,
          tmFees = toCoin E (totalFee regular + totalFee revs + totalFee tickets + totalFee votes)\<rparr>)"

text \<open>The copies of \<open>DeepCopy\<close> are equal values; the copy of the inventory does not copy the
  identifier, which stays zero.\<close>

definition DeepCopy :: "('f, 'c) MempoolInfo \<Rightarrow> ('f, 'c) MempoolInfo" where
  "DeepCopy mpi = mpi\<lparr>miIdent := 0\<rparr>"

subsection \<open>The consensus of a tally\<close>

lemma statusLoop_spec:
  "statusLoop marks up down votes =
     (up + int (length (filter id marks)), down + int (length (filter Not marks)),
      votes @ map (\<lambda>m. if m then VoteAffirm else VoteReject) marks)"
  by (induction marks arbitrary: up down votes) auto

lemma Affirmations_filter: "Affirmations tally = int (length (filter id (tyMarks tally)))"
proof -
  have "foldl (\<lambda>c affirmed. if affirmed then c + 1 else c) n marks = n + int (length (filter id marks))"
    for n :: int and marks
    by (induction marks arbitrary: n) auto
  then show ?thesis by (simp add: Affirmations_def)
qed

text \<open>
  The status of a block: one entry per vote received and then missing votes up to the number of
  tickets; affirmed (rejected) exactly if more than half of the tickets voted for (against) it,
  with at most that many votes. An odd number of tickets that all voted is never undecided.
\<close>

lemma Status_spec:
  assumes "Status tally = (votes, consensus)" and "0 \<le> tyTicketsPerBlock tally"
    and "VoteCount tally \<le> tyTicketsPerBlock tally"
  shows "int (length votes) = tyTicketsPerBlock tally
    \<and> consensus \<in> {VoteAffirm, VoteReject, VoteMissing}
    \<and> (consensus = VoteAffirm \<longleftrightarrow> tyTicketsPerBlock tally < 2 * Affirmations tally)
    \<and> (consensus = VoteReject \<longleftrightarrow>
         tyTicketsPerBlock tally < 2 * (VoteCount tally - Affirmations tally))"
proof -
  let ?up = "length (filter id (tyMarks tally))" and ?down = "length (filter Not (tyMarks tally))"
  have sum: "?up + ?down = length (tyMarks tally)"
    using sum_length_filter_compl[of id "tyMarks tally"] by (simp add: comp_def)
  have v: "votes = map (\<lambda>m. if m then VoteAffirm else VoteReject) (tyMarks tally) @
      replicate (nat (tyTicketsPerBlock tally) - length (tyMarks tally)) VoteMissing"
    and c: "consensus = (if tyTicketsPerBlock tally div 2 < int ?up then VoteAffirm
      else if tyTicketsPerBlock tally div 2 < int ?down then VoteReject else 0)"
    using assms(1) by (auto simp: Status_def statusLoop_spec Let_def)
  define u where "u = int ?up"
  define d where "d = int ?down"
  define T where "T = tyTicketsPerBlock tally"
  have n: "u + d \<le> T" "VoteCount tally = u + d" "0 \<le> u" "0 \<le> d"
    using assms(3) sum by (simp_all add: VoteCount_def u_def d_def T_def)
  have "int (length votes) = T" using assms(2,3) by (simp add: v VoteCount_def T_def)
  moreover have half: "(T div 2 < x) = (T < 2 * x)" for x by presburger
  moreover have "consensus = (if T < 2 * u then VoteAffirm else if T < 2 * d then VoteReject else VoteMissing)"
    unfolding c u_def[symmetric] d_def[symmetric] T_def[symmetric] half by (simp add: VoteMissing_def)
  moreover have "\<not> (T < 2 * u \<and> T < 2 * d)" using n by linarith
  moreover have "Affirmations tally = u" "VoteCount tally - Affirmations tally = d"
    using n by (simp_all add: Affirmations_filter u_def)
  ultimately show ?thesis unfolding T_def[symmetric]
    by (simp add: VoteAffirm_def VoteReject_def VoteMissing_def)
qed

subsection \<open>Looking up transactions\<close>

lemma getTxFromList_Some: "getTxFromList txid txs = Some t \<Longrightarrow> t \<in> set txs \<and> mpTxID t = txid"
  by (induction txs) (auto split: if_splits)

lemma getTxFromList_None: "getTxFromList txid txs = None \<longleftrightarrow> txid \<notin> mpTxID ` set txs"
  by (induction txs) auto

lemma uniqueVotes_distinct:
  "distinct (map trTxID (uniqueVotes seen txs)) \<and> set (map trTxID (uniqueVotes seen txs)) \<inter> seen = {}"
proof (induction txs arbitrary: seen)
  case (Cons t txs)
  show ?case
    using Cons[of seen] Cons[of "insert (trTxID t) seen"] by (cases "trVoteInfo t") auto
qed simp

end
