(* ===== verification/MempoolMonitor.thy ===== *)
theory MempoolMonitor
  imports MempoolTypes TxAmounts
begin

text \<open>
  The mempool monitor (\<open>mempool/monitor.go\<close>) and its collector (\<open>mempool/collector.go\<close>): the
  inventory is built from all transactions (\<open>ParseTxns\<close>), and kept up to date as transactions
  arrive (\<open>TxHandler\<close>).

  The RPC client, the decoder of transactions, the script extractor, the vote reader and the two
  sorting functions of Go (which are not stable) are the record \<open>monitorEnv\<close>. A Go map the source
  ranges over is the list of its entries, in any order. The messages to the hub are results: the
  addresses of the address messages, and the transaction of the last message. Log messages, mutexes
  and the timeouts of the sends are left out.
\<close>

subsection \<open>The environment\<close>

record BlockID =
  bidHash :: Hash
  bidHeight :: int
  bidTime :: int

type_synonym ('f, 'c) mtxn = "('f, 'c VoteChoice) MempoolTx"
type_synonym ('f, 'c) minventory = "('f, 'c VoteChoice) MempoolInfo"

record ('f, 'c, 'x) monitorEnv =
  meAmounts :: "'f amountEnv"
  meSortTime :: "('f, 'c) mtxn list \<Rightarrow> ('f, 'c) mtxn list"
  meSortHeight :: "('f, 'c) mtxn list \<Rightarrow> ('f, 'c) mtxn list"
  meString :: "Hash \<Rightarrow> string"
  meFromHex :: "string \<Rightarrow> 'x MsgTx option"
  meExtract :: extractor
  meClient :: verboseGetter
  meVotes :: "'x voteReader"
  meDeployments :: "32 word \<Rightarrow> 'c Deployment list"
  meIsCoinBase :: "'x MsgTx \<Rightarrow> bool"
  meTicketsPerBlock :: "16 word"

definition NumLatestMempoolTxns :: nat where
  "NumLatestMempoolTxns = 5"

text \<open>The two orders: later transactions first; votes on higher blocks first, then by ticket index,
  where a missing vote is a nil dereference.\<close>

definition timeLess :: "('f, 'c) MempoolTx \<Rightarrow> ('f, 'c) MempoolTx \<Rightarrow> bool" where
  "timeLess a b \<longleftrightarrow> mpTime a > mpTime b"

definition heightLess :: "('f, 'c) MempoolTx \<Rightarrow> ('f, 'c) MempoolTx \<Rightarrow> bool option" where
  "heightLess a b = (case (mpVoteInfo a, mpVoteInfo b) of
     (Some va, Some vb) \<Rightarrow> Some (
       if valHeight (viValidation va) = valHeight (viValidation vb)
       then viMempoolTicketIndex va < viMempoolTicketIndex vb
       else valHeight (viValidation va) > valHeight (viValidation vb))
   | _ \<Rightarrow> None)"

fun sliceIsSorted :: "('f, 'c) MempoolTx list \<Rightarrow> bool" where
  "sliceIsSorted [] = True"
| "sliceIsSorted [a] = True"
| "sliceIsSorted (a # b # xs) = (\<not> timeLess b a \<and> sliceIsSorted (b # xs))"

subsection \<open>Votes and transactions\<close>

text \<open>The vote information of a transaction, nil when it is no vote or its choices cannot be read.\<close>

definition voteInfoOf :: "('f, 'c, 'x) monitorEnv \<Rightarrow> string \<Rightarrow> 'x MsgTx \<Rightarrow> 'c VoteChoice VoteInfo option go" where
  "voteInfoOf env blockhash msgTx =
     (if \<not> vrIsSSGen (meVotes env) msgTx then Ret None
      else (case SSGenVoteChoices (meVotes env) (meDeployments env) msgTx of
          Panic \<Rightarrow> Panic
        | Ret None \<Rightarrow> Ret None
        | Ret (Some (validation, version, bits, choices)) \<Rightarrow>
            (case go_index (mtTxIn msgTx) 1 of
               None \<Rightarrow> Panic
             | Some txIn \<Rightarrow>
                 (let vi = \<lparr>viValidation = \<lparr>valHash = meString env (bvHash validation),
                                            valHeight = bvHeight validation,
                                            valValidity = bvValidity validation\<rparr>,
                            viVersion = version, viBits = bits, viChoices = choices,
                            viTicketSpent = meString env (opHash (tiPrevOut txIn)),
                            viMempoolTicketIndex = 0, viForLastBlock = False\<rparr>
                  in Ret (Some (vi\<lparr>viForLastBlock := VotesOnBlock vi blockhash\<rparr>))))))"

fun mempoolInputs :: "(Hash \<Rightarrow> string) \<Rightarrow> nat \<Rightarrow> TxIn list \<Rightarrow> MempoolInput list" where
  "mempoolInputs hs i [] = []"
| "mempoolInputs hs i (t # ts) =
     \<lparr>inTxId = hs (opHash (tiPrevOut t)), inIndex = of_nat i, inOutdex = opIndex (tiPrevOut t)\<rparr>
     # mempoolInputs hs (i + 1) ts"

definition MsgTxMempoolInputs :: "(Hash \<Rightarrow> string) \<Rightarrow> 'x MsgTx \<Rightarrow> MempoolInput list" where
  "MsgTxMempoolInputs hs msgTx = mempoolInputs hs 0 (mtTxIn msgTx)"

subsection \<open>Collecting the transactions of the mempool\<close>

text \<open>An entry of the verbose mempool of the node.\<close>

record 'f mempoolResult =
  mrHash :: string
  mrFee :: 'f
  mrSize :: "32 word"
  mrTime :: int
  mrHeight :: int

record ('f, 'c, 'x) txnsState =
  tsTxs :: "('f, 'c) mtxn list"
  tsAddrMap :: "'x MempoolAddressStore"
  tsTxnsStore :: "'x TxnsStore"

text \<open>
  One entry of the mempool: skipped when its hash, its transaction or its bytes cannot be had.
  \<open>parseHash\<close> is \<open>NewHashFromStr\<close>, \<open>outs\<close> are the values of the outputs of the raw transaction.
\<close>

definition collectTx ::
  "('f::{plus,zero}, 'c, 'x) monitorEnv \<Rightarrow> (string \<Rightarrow> Hash option) \<Rightarrow> (Hash \<Rightarrow> (string \<times> 'f list) option)
   \<Rightarrow> string \<Rightarrow> 'f mempoolResult \<Rightarrow> ('f, 'c, 'x) txnsState \<Rightarrow> ('f, 'c, 'x) txnsState go" where
  "collectTx env parseHash getTx blockhash r st =
     (case parseHash (mrHash r) of
        None \<Rightarrow> Ret st
      | Some hash \<Rightarrow> (case getTx hash of
          None \<Rightarrow> Ret st
        | Some (hex, outs) \<Rightarrow> (case meFromHex env hex of
            None \<Rightarrow> Ret st
          | Some msgTx \<Rightarrow>
     (case TxOutpointsByAddr (meExtract env) (Some (tsAddrMap st)) msgTx of
        Panic \<Rightarrow> Panic
      | Ret (_, _, store1) \<Rightarrow>
     (case TxPrevOutsByAddr (meString env) (meFromHex env) (meExtract env) (Some store1)
             (Some (tsTxnsStore st)) msgTx (meClient env) of
        Panic \<Rightarrow> Panic
      | Ret ps \<Rightarrow>
     (case voteInfoOf env blockhash msgTx of
        Panic \<Rightarrow> Panic
      | Ret voteInfo \<Rightarrow>
          let (_, feeRate) = TxFeeRate msgTx;
              tx = \<lparr>mpTxID = meString env (mtHash msgTx), mpFees = mrFee r,
                    mpFeeRate = toCoin (meAmounts env) feeRate,
                    mpVinCount = int (length (mtTxIn msgTx)),
                    mpVoutCount = int (length (mtTxOut msgTx)),
                    mpVin = MsgTxMempoolInputs (meString env) msgTx,
                    mpCoinbase = meIsCoinBase env msgTx, mpHash = mrHash r, mpTime = mrTime r,
                    mpSize = mrSize r, mpTotalOut = foldl (+) 0 outs,
                    mpType = DetermineTxTypeString msgTx, mpVoteInfo = voteInfo\<rparr>
          in Ret \<lparr>tsTxs = tsTxs st @ [tx], tsAddrMap = psStore ps,
                  tsTxnsStore = (psTxns ps)(mtHash msgTx \<mapsto>
                    \<lparr>twTx = msgTx, twBlockHeight = 0, twBlockHash = [], twMemPoolTime = mrTime r\<rparr>)\<rparr>))))))"

fun collectLoop ::
  "('f::{plus,zero}, 'c, 'x) monitorEnv \<Rightarrow> (string \<Rightarrow> Hash option) \<Rightarrow> (Hash \<Rightarrow> (string \<times> 'f list) option)
   \<Rightarrow> string \<Rightarrow> 'f mempoolResult list \<Rightarrow> ('f, 'c, 'x) txnsState \<Rightarrow> ('f, 'c, 'x) txnsState go" where
  "collectLoop env parseHash getTx blockhash [] st = Ret st"
| "collectLoop env parseHash getTx blockhash (r # rs) st =
     (case collectTx env parseHash getTx blockhash r st of
        Panic \<Rightarrow> Panic
      | Ret st' \<Rightarrow> collectLoop env parseHash getTx blockhash rs st')"

definition mempoolTxns ::
  "('f::{plus,zero}, 'c, 'x) monitorEnv \<Rightarrow> (string \<Rightarrow> Hash option) \<Rightarrow> (Hash \<Rightarrow> (string \<times> 'f list) option)
   \<Rightarrow> string + 'f mempoolResult list \<Rightarrow> string + Hash \<Rightarrow> (string + ('f, 'c, 'x) txnsState) go" where
  "mempoolTxns env parseHash getTx mempooltxs best = (case mempooltxs of
     Inl e \<Rightarrow> Ret (Inl e)
   | Inr rs \<Rightarrow> (case best of
       Inl e \<Rightarrow> Ret (Inl e)
     | Inr blockHash \<Rightarrow>
         (case collectLoop env parseHash getTx (meString env blockHash) rs
                 \<lparr>tsTxs = [], tsAddrMap = Map.empty, tsTxnsStore = Map.empty\<rparr> of
            Panic \<Rightarrow> Panic | Ret st \<Rightarrow> Ret (Inr st))))"

subsection \<open>The inventory of all transactions\<close>

record ('f, 'c) parseState =
  psLatestTime :: int
  psTotalOut :: "64 word"
  psRegularTotal :: "64 word"
  psTicketTotal :: "64 word"
  psVoteTotal :: "64 word"
  psRevTotal :: "64 word"
  psLikelyTotal :: "64 word"
  psTotalSize :: "32 word"
  psLikelySize :: "32 word"
  psNumLikely :: int
  psTickets :: "('f, 'c) mtxn list"
  psVotes :: "('f, 'c) mtxn list"
  psRevs :: "('f, 'c) mtxn list"
  psRegular :: "('f, 'c) mtxn list"
  psInvRegular :: "string set"
  psInvStake :: "string set"
  psVotingInfo :: VotingInfo
  psInds :: BlockValidatorIndex

definition parseStart :: "16 word \<Rightarrow> ('f, 'c) parseState" where
  "parseStart votesPerBlock = \<lparr>psLatestTime = 0, psTotalOut = 0, psRegularTotal = 0,
     psTicketTotal = 0, psVoteTotal = 0, psRevTotal = 0, psLikelyTotal = 0, psTotalSize = 0,
     psLikelySize = 0, psNumLikely = 0, psTickets = [], psVotes = [], psRevs = [], psRegular = [],
     psInvRegular = {}, psInvStake = {}, psVotingInfo = NewVotingInfo votesPerBlock,
     psInds = Map.empty\<rparr>"

text \<open>The totals at the end of an iteration.\<close>

definition parseTotals :: "bool \<Rightarrow> 64 word \<Rightarrow> ('f, 'c) mtxn \<Rightarrow> ('f, 'c) parseState \<Rightarrow> ('f, 'c) parseState" where
  "parseTotals likelyMineable out tx st =
     (let st1 = (if likelyMineable
          then st\<lparr>psLikelyTotal := psLikelyTotal st + out, psLikelySize := psLikelySize st + mpSize tx,
                  psNumLikely := psNumLikely st + 1\<rparr>
          else st)
      in st1\<lparr>psTotalOut := psTotalOut st1 + out, psTotalSize := psTotalSize st1 + mpSize tx,
             psLatestTime := (if psLatestTime st1 < mpTime tx then mpTime tx else psLatestTime st1)\<rparr>)"

text \<open>What a vote on the last block, with a ticket that has not voted yet, adds; whether it did.\<close>

definition countVote :: "'c VoteInfo \<Rightarrow> VotingInfo \<Rightarrow> bool \<times> VotingInfo" where
  "countVote vi voting =
     (if viForLastBlock vi \<and> viTicketSpent vi \<notin> vgVotedTickets voting
      then (True, Tally (voting\<lparr>vgVotedTickets := insert (viTicketSpent vi) (vgVotedTickets voting),
                               vgTicketsVoted := vgTicketsVoted voting + 1\<rparr>) vi)
      else (False, voting))"

text \<open>One iteration: the transaction as it is after it (its vote may be changed), and the state.\<close>

definition parseStep :: "'f amountEnv \<Rightarrow> string \<Rightarrow> ('f, 'c) mtxn \<Rightarrow> ('f, 'c) parseState
    \<Rightarrow> ('f, 'c) mtxn \<times> ('f, 'c) parseState" where
  "parseStep E blockhash tx st =
     (let out = newAmount E (mpTotalOut tx) in
      if mpType tx = ''Ticket'' then
        (if mpHash tx \<in> psInvStake st then (tx, st)
         else (tx, parseTotals True out tx
                 (st\<lparr>psTicketTotal := psTicketTotal st + out,
                     psInvStake := insert (mpHash tx) (psInvStake st),
                     psTickets := psTickets st @ [tx]\<rparr>)))
      else if mpType tx = ''Vote'' then
        (if mpHash tx \<in> psInvStake st then (tx, st)
         else (case mpVoteInfo tx of
             None \<Rightarrow> (tx, st\<lparr>psInvStake := insert (mpHash tx) (psInvStake st),
                             psVotes := psVotes st @ [tx]\<rparr>)
           | Some vi0 \<Rightarrow>
               (let (vi1, inds) = SetTicketIndex vi0 (psInds st);
                    vi = vi1\<lparr>viForLastBlock := VotesOnBlock vi1 blockhash\<rparr>;
                    tx' = tx\<lparr>mpVoteInfo := Some vi\<rparr>;
                    (counted, voting) = countVote vi (psVotingInfo st)
                in (tx', parseTotals counted out tx'
                     (st\<lparr>psInvStake := insert (mpHash tx) (psInvStake st),
                         psVotes := psVotes st @ [tx'], psInds := inds, psVotingInfo := voting,
                         psVoteTotal := (if counted then psVoteTotal st + out else psVoteTotal st)\<rparr>)))))
      else if mpType tx = ''Revocation'' then
        (if mpHash tx \<in> psInvStake st then (tx, st)
         else (tx, parseTotals True out tx
                 (st\<lparr>psRevTotal := psRevTotal st + out,
                     psInvStake := insert (mpHash tx) (psInvStake st),
                     psRevs := psRevs st @ [tx]\<rparr>)))
      else
        (if mpHash tx \<in> psInvRegular st then (tx, st)
         else (tx, parseTotals True out tx
                 (st\<lparr>psRegularTotal := psRegularTotal st + out,
                     psInvRegular := insert (mpHash tx) (psInvRegular st),
                     psRegular := psRegular st @ [tx]\<rparr>))))"

fun parseLoop :: "'f amountEnv \<Rightarrow> string \<Rightarrow> ('f, 'c) mtxn list \<Rightarrow> ('f, 'c) parseState
    \<Rightarrow> ('f, 'c) mtxn list \<times> ('f, 'c) parseState" where
  "parseLoop E blockhash [] st = ([], st)"
| "parseLoop E blockhash (tx # txs) st =
     (let (tx', st1) = parseStep E blockhash tx st; (txs', st2) = parseLoop E blockhash txs st1
      in (tx' # txs', st2))"

text \<open>\<open>None\<close> is the nil dereference of the comparison, when there are votes to compare.\<close>

definition sortVotes :: "('f, 'c, 'x) monitorEnv \<Rightarrow> ('f, 'c) mtxn list \<Rightarrow> ('f, 'c) mtxn list option" where
  "sortVotes env votes =
     (if length votes < 2 then Some votes
      else if list_ex (\<lambda>tx. mpVoteInfo tx = None) votes then None
      else Some (meSortHeight env votes))"

text \<open>The result has the transactions as they are after the loop, for the caller's slice.\<close>

definition ParseTxns :: "('f, 'c, 'x) monitorEnv \<Rightarrow> ('f, 'c) mtxn list \<Rightarrow> BlockID
    \<Rightarrow> (('f, 'c) minventory \<times> ('f, 'c) mtxn list) go" where
  "ParseTxns env txs0 lastBlock =
     (let txs = (if sliceIsSorted txs0 then txs0 else meSortTime env txs0);
          E = meAmounts env;
          blockhash = meString env (bidHash lastBlock);
          (txs', st) = parseLoop E blockhash txs (parseStart (meTicketsPerBlock env))
      in case sortVotes env (psVotes st) of
           None \<Rightarrow> Panic
         | Some votes \<Rightarrow> Ret (
     \<lparr>miLastBlockHeight = bidHeight lastBlock, miLastBlockHash = blockhash,
      miLastBlockTime = bidTime lastBlock, miFormattedBlockTime = formatTime E (bidTime lastBlock),
      miTime = psLatestTime st, miTotalOut = toCoin E (psTotalOut st), miTotalSize = psTotalSize st,
      miNumTickets = int (length (psTickets st)), miNumVotes = int (length votes),
      miNumRegular = int (length (psRegular st)), miNumRevokes = int (length (psRevs st)),
      miNumAll = int (length txs'),
      miLikelyMineable = \<lparr>lmTotal = toCoin E (psLikelyTotal st), lmSize = psLikelySize st,
        lmFormattedSize = humanBytes E (sizeBytes (psLikelySize st)),
        lmRegularTotal = toCoin E (psRegularTotal st), lmTicketTotal = toCoin E (psTicketTotal st),
        lmVoteTotal = toCoin E (psVoteTotal st), lmRevokeTotal = toCoin E (psRevTotal st),
        lmCount = psNumLikely st\<rparr>,
      miLatestTransactions = take NumLatestMempoolTxns txs',
      miFormattedTotalSize = humanBytes E (sizeBytes (psTotalSize st)),
      miTicketIndexes = psInds st, miVotingInfo = psVotingInfo st,
      miInvRegular = psInvRegular st, miInvStake = psInvStake st,
      miTransactions = psRegular st, miTickets = psTickets st, miVotes = votes,
      miRevocations = psRevs st, miIdent = 0\<rparr>, txs'))"

subsection \<open>The monitor\<close>

record mpoolCounters =
  mcCurrentHeight :: "32 word"
  mcNumTicketPurchasesInMempool :: "32 word"
  mcNumTicketsSinceStatsReport :: "32 word"
  mcLastCollectTime :: int

record ('f, 'c, 'x) MempoolMonitor =
  mmMpoolInfo :: mpoolCounters
  mmInventory :: "('f, 'c) minventory option"
  mmAddrMap :: "'x MempoolAddressStore option"
  mmTxnsStore :: "'x TxnsStore option"
  mmLastBlock :: BlockID

record rawTx =
  rtHex :: string
  rtTime :: int

datatype ('f, 'c) handled =
    OldTx
  | DecodeFailed
  | DuplicateTx
  | FutureVote "string set"
  | NewTx "string set" "('f, 'c) mtxn"

text \<open>Storing the input values in the decoded transaction.\<close>

fun setValuesIn :: "TxIn list \<Rightarrow> 64 word list \<Rightarrow> TxIn list option" where
  "setValuesIn [] vals = Some []"
| "setValuesIn (t # ts) [] = None"
| "setValuesIn (t # ts) (v # vs) = map_option ((#) (t\<lparr>tiValueIn := v\<rparr>)) (setValuesIn ts vs)"

text \<open>The transaction of the inventory.\<close>

definition newMempoolTx :: "('f, 'c, 'x) monitorEnv \<Rightarrow> rawTx \<Rightarrow> 'x MsgTx \<Rightarrow> 'c VoteChoice VoteInfo option
    \<Rightarrow> ('f, 'c) mtxn" where
  "newMempoolTx env raw msgTx voteInfo =
     (let (fee, feeRate) = TxFeeRate msgTx; E = meAmounts env; hash = meString env (mtHash msgTx)
      in \<lparr>mpTxID = hash, mpFees = toCoin E fee, mpFeeRate = toCoin E feeRate,
          mpVinCount = int (length (mtTxIn msgTx)), mpVoutCount = int (length (mtTxOut msgTx)),
          mpVin = MsgTxMempoolInputs (meString env) msgTx, mpCoinbase = meIsCoinBase env msgTx,
          mpHash = hash, mpTime = rtTime raw, mpSize = of_nat (length (rtHex raw) div 2),
          mpTotalOut = toCoin E (TotalOutFromMsgTx msgTx), mpType = DetermineTxTypeString msgTx,
          mpVoteInfo = voteInfo\<rparr>)"

text \<open>The switch on the type of the transaction.\<close>

datatype ('f, 'c) switched =
  NilVote | Future | Switched "('f, 'c) mtxn" bool "('f, 'c) minventory"

definition lmUpdate :: "('f LikelyMineable \<Rightarrow> 'f LikelyMineable) \<Rightarrow> ('f, 'c) minventory \<Rightarrow> ('f, 'c) minventory" where
  "lmUpdate g invn = invn\<lparr>miLikelyMineable := g (miLikelyMineable invn)\<rparr>"

definition switchTx :: "int \<Rightarrow> ('f::plus, 'c) mtxn \<Rightarrow> ('f, 'c) minventory \<Rightarrow> ('f, 'c) switched" where
  "switchTx lastHeight tx invn =
     (if mpType tx = ''Ticket'' then
        Switched tx True (lmUpdate (\<lambda>lm. lm\<lparr>lmTicketTotal := lmTicketTotal lm + mpTotalOut tx\<rparr>)
          (invn\<lparr>miInvStake := insert (mpHash tx) (miInvStake invn), miTickets := tx # miTickets invn,
               miNumTickets := miNumTickets invn + 1\<rparr>))
      else if mpType tx = ''Vote'' then
        (case mpVoteInfo tx of
           None \<Rightarrow> NilVote
         | Some vi0 \<Rightarrow>
             if valHeight (viValidation vi0) > lastHeight then Future
             else (let (vi, inds) = SetTicketIndex vi0 (miTicketIndexes invn);
                       tx' = tx\<lparr>mpVoteInfo := Some vi\<rparr>;
                       (counted, voting) = countVote vi (miVotingInfo invn);
                       invn1 = invn\<lparr>miInvStake := insert (mpHash tx) (miInvStake invn),
                                  miVotes := tx' # miVotes invn, miNumVotes := miNumVotes invn + 1,
                                  miTicketIndexes := inds, miVotingInfo := voting\<rparr>
                   in Switched tx' counted
                        (if counted
                         then lmUpdate (\<lambda>lm. lm\<lparr>lmVoteTotal := lmVoteTotal lm + mpTotalOut tx\<rparr>) invn1
                         else invn1)))
      else if mpType tx = ''Regular'' then
        Switched tx True (lmUpdate (\<lambda>lm. lm\<lparr>lmRegularTotal := lmRegularTotal lm + mpTotalOut tx\<rparr>)
          (invn\<lparr>miInvRegular := insert (mpHash tx) (miInvRegular invn),
               miTransactions := tx # miTransactions invn, miNumRegular := miNumRegular invn + 1\<rparr>))
      else if mpType tx = ''Revocation'' then
        Switched tx True (lmUpdate (\<lambda>lm. lm\<lparr>lmRevokeTotal := lmRevokeTotal lm + mpTotalOut tx\<rparr>)
          (invn\<lparr>miInvStake := insert (mpHash tx) (miInvStake invn),
               miRevocations := tx # miRevocations invn, miNumRevokes := miNumRevokes invn + 1\<rparr>))
      else Switched tx True invn)"

definition latestWith :: "('f, 'c) mtxn \<Rightarrow> ('f, 'c) mtxn list \<Rightarrow> ('f, 'c) mtxn list" where
  "latestWith tx latest =
     (if NumLatestMempoolTxns \<le> length latest then tx # take (length latest - 1) latest
      else tx # latest)"

definition storeTotals :: "'f amountEnv \<Rightarrow> bool \<Rightarrow> ('f::plus, 'c) mtxn \<Rightarrow> ('f, 'c) minventory \<Rightarrow> ('f, 'c) minventory" where
  "storeTotals E likelyMineable tx invn =
     (let invn1 = invn\<lparr>miLatestTransactions := latestWith tx (miLatestTransactions invn),
                     miNumAll := miNumAll invn + 1, miTotalOut := miTotalOut invn + mpTotalOut tx,
                     miTotalSize := miTotalSize invn + mpSize tx\<rparr>;
          invn2 = (if likelyMineable then lmUpdate (\<lambda>lm. let size = lmSize lm + mpSize tx in
                    lm\<lparr>lmSize := size, lmFormattedSize := humanBytes E (sizeBytes size),
                       lmTotal := lmTotal lm + mpTotalOut tx, lmCount := lmCount lm + 1\<rparr>) invn1
                  else invn1)
      in invn2\<lparr>miFormattedTotalSize := humanBytes E (sizeBytes (miTotalSize invn2))\<rparr>)"

text \<open>The addresses that a transaction touches, and the stores after it.\<close>

definition indexTx :: "('f, 'c, 'x) monitorEnv \<Rightarrow> 'x MsgTx \<Rightarrow> 'x MempoolAddressStore \<Rightarrow> 'x TxnsStore
    \<Rightarrow> (string set \<times> 64 word list \<times> 'x MempoolAddressStore \<times> 'x TxnsStore) go" where
  "indexTx env msgTx store txns = (case TxOutpointsByAddr (meExtract env) (Some store) msgTx of
     Panic \<Rightarrow> Panic
   | Ret (_, addressesOut, store1) \<Rightarrow>
       (case TxPrevOutsByAddr (meString env) (meFromHex env) (meExtract env) (Some store1)
               (Some txns) msgTx (meClient env) of
          Panic \<Rightarrow> Panic
        | Ret ps \<Rightarrow> Ret (dom addressesOut \<union> dom (psAddrs ps), psValsIn ps, psStore ps, psTxns ps)))"

definition TxHandler :: "('f::plus, 'c, 'x) monitorEnv \<Rightarrow> rawTx \<Rightarrow> ('f, 'c, 'x) MempoolMonitor
    \<Rightarrow> (('f, 'c, 'x) MempoolMonitor \<times> ('f, 'c) handled) go" where
  "TxHandler env raw p =
     (if rtTime raw < bidTime (mmLastBlock p) then Ret (p, OldTx)
      else (case meFromHex env (rtHex raw) of
        None \<Rightarrow> Ret (p, DecodeFailed)
      | Some msgTx \<Rightarrow> (case mmInventory p of
          None \<Rightarrow> Panic
        | Some invn \<Rightarrow>
     (let hash = meString env (mtHash msgTx); txType = DetermineTxTypeString msgTx in
      if hash \<in> (if txType = ''Regular'' then miInvRegular invn else miInvStake invn)
      then Ret (p, DuplicateTx)
      else (case indexTx env msgTx (case mmAddrMap p of None \<Rightarrow> Map.empty | Some s \<Rightarrow> s)
                   (case mmTxnsStore p of None \<Rightarrow> Map.empty | Some t \<Rightarrow> t) of
          Panic \<Rightarrow> Panic
        | Ret (addrs, valsIn, store, txns) \<Rightarrow>
      (case voteInfoOf env (meString env (bidHash (mmLastBlock p))) msgTx of
          Panic \<Rightarrow> Panic
        | Ret voteInfo \<Rightarrow>
      (case setValuesIn (mtTxIn msgTx) valsIn of
          None \<Rightarrow> Panic
        | Some txIns \<Rightarrow>
      (let msgTx' = msgTx\<lparr>mtTxIn := txIns\<rparr>;
           invn1 = invn\<lparr>miIdent := miIdent invn + 1\<rparr>;
           p1 = p\<lparr>mmAddrMap := Some store, mmInventory := Some invn1,
                  mmTxnsStore := Some (txns(mtHash msgTx \<mapsto> \<lparr>twTx = msgTx', twBlockHeight = 0,
                                         twBlockHash = [], twMemPoolTime = rtTime raw\<rparr>))\<rparr>
       in (case switchTx (bidHeight (mmLastBlock p)) (newMempoolTx env raw msgTx' voteInfo) invn1 of
             NilVote \<Rightarrow> Panic
           | Future \<Rightarrow> Ret (p1, FutureVote addrs)
           | Switched tx likely invn2 \<Rightarrow>
               Ret (p1\<lparr>mmInventory := Some (storeTotals (meAmounts env) likely tx invn2)\<rparr>,
                    NewTx addrs tx))))))))))"

text \<open>What the collector returns, as far as the monitor reads it.\<close>

record ('f, 'x) collected =
  coLatestBlock :: BlockID
  coTime :: int
  coFeeNumber :: "32 word"
  coAddrOuts :: "'x MempoolAddressStore"
  coTxnsStore :: "'x TxnsStore"

text \<open>
  \<open>Refresh\<close>, with the result of \<open>Collect\<close>: the monitor, and the transactions with the number of
  new tickets, or the error. The slice is sorted before it is parsed.
\<close>

definition Refresh :: "('f, 'c, 'x) monitorEnv \<Rightarrow> string + ('f, 'x) collected \<times> ('f, 'c) mtxn list
    \<Rightarrow> ('f, 'c, 'x) MempoolMonitor
    \<Rightarrow> (('f, 'c, 'x) MempoolMonitor \<times> (string + ('f, 'c) mtxn list \<times> 32 word)) go" where
  "Refresh env col p = (case col of
     Inl e \<Rightarrow> Ret (p, Inl e)
   | Inr (data, txs) \<Rightarrow>
       (case ParseTxns env (meSortTime env txs) (coLatestBlock data) of
          Panic \<Rightarrow> Panic
        | Ret (invn, txs') \<Rightarrow>
            (let newTickets = mcNumTicketsSinceStatsReport (mmMpoolInfo p);
                 invn' = (case mmInventory p of None \<Rightarrow> invn
                           | Some old \<Rightarrow> invn\<lparr>miIdent := miIdent old + 1\<rparr>)
             in Ret (p\<lparr>mmMpoolInfo := \<lparr>mcCurrentHeight = word_of_int (bidHeight (coLatestBlock data)),
                          mcNumTicketPurchasesInMempool = coFeeNumber data,
                          mcNumTicketsSinceStatsReport = 0, mcLastCollectTime = coTime data\<rparr>,
                       mmLastBlock := coLatestBlock data, mmInventory := Some invn',
                       mmTxnsStore := Some (coTxnsStore data), mmAddrMap := Some (coAddrOuts data)\<rparr>,
                     Inr (txs', newTickets)))))"

text \<open>The copies that each saver gets.\<close>

definition CollectAndStore :: "('f, 'c, 'x) monitorEnv \<Rightarrow> 'saver option list
    \<Rightarrow> string + ('f, 'x) collected \<times> ('f, 'c) mtxn list \<Rightarrow> ('f, 'c, 'x) MempoolMonitor
    \<Rightarrow> (('f, 'c, 'x) MempoolMonitor \<times> (string + ('saver \<times> ('f, 'c) mtxn list \<times> ('f, 'c) minventory) list)) go" where
  "CollectAndStore env savers col p = (case Refresh env col p of
     Panic \<Rightarrow> Panic
   | Ret (p', Inl e) \<Rightarrow> Ret (p', Inl e)
   | Ret (p', Inr (txs, n)) \<Rightarrow> (case mmInventory p' of
       None \<Rightarrow> Ret (p', Inr [])
     | Some invn \<Rightarrow> Ret (p', Inr (map (\<lambda>s. (s, txs, invn)) (List.map_filter id savers)))))"

definition initialMonitor :: "('f, 'c, 'x) MempoolMonitor" where
  "initialMonitor = \<lparr>mmMpoolInfo = \<lparr>mcCurrentHeight = 0, mcNumTicketPurchasesInMempool = 0,
       mcNumTicketsSinceStatsReport = 0, mcLastCollectTime = 0\<rparr>, mmInventory = None,
     mmAddrMap = None, mmTxnsStore = None, mmLastBlock = \<lparr>bidHash = 0, bidHeight = 0, bidTime = 0\<rparr>\<rparr>"

text \<open>The constructor: what the savers get when \<open>initialStore\<close> is set, and the error.\<close>

definition NewMempoolMonitor :: "('f, 'c, 'x) monitorEnv \<Rightarrow> 'saver option list \<Rightarrow> bool
    \<Rightarrow> string + ('f, 'x) collected \<times> ('f, 'c) mtxn list
    \<Rightarrow> (('f, 'c, 'x) MempoolMonitor \<times> (string + ('saver \<times> ('f, 'c) mtxn list \<times> ('f, 'c) minventory) list)) go" where
  "NewMempoolMonitor env savers initialStore col =
     (if initialStore then CollectAndStore env savers col initialMonitor
      else (case Refresh env col initialMonitor of
              Panic \<Rightarrow> Panic
            | Ret (p, Inl e) \<Rightarrow> Ret (p, Inl e)
            | Ret (p, Inr _) \<Rightarrow> Ret (p, Inr [])))"

text \<open>A new block: the data are collected anew, whatever comes of it, and the hub is signalled.\<close>

datatype hubSignal = SigMempoolUpdate

definition BlockHandler :: "('f, 'c, 'x) monitorEnv \<Rightarrow> 'saver option list
    \<Rightarrow> string + ('f, 'x) collected \<times> ('f, 'c) mtxn list \<Rightarrow> ('f, 'c, 'x) MempoolMonitor
    \<Rightarrow> (('f, 'c, 'x) MempoolMonitor \<times> hubSignal) go" where
  "BlockHandler env savers col p = (case CollectAndStore env savers col p of
     Panic \<Rightarrow> Panic | Ret (p', _) \<Rightarrow> Ret (p', SigMempoolUpdate))"

subsection \<open>The unconfirmed transactions of an address\<close>

text \<open>The loop over the outputs, then the one over the previous outputs. A nil pointer that is
  stored is an entry \<open>None\<close>.\<close>

type_synonym 'x nilStore = "(Hash \<times> 'x TxWithBlockData option) list"

fun outHashes :: "'x TxnsStore \<Rightarrow> OutPoint list \<Rightarrow> 'x nilStore \<Rightarrow> 'x nilStore" where
  "outHashes txns [] acc = acc"
| "outHashes txns (op # ops) acc =
     (case map_of acc (opHash op) of
        Some _ \<Rightarrow> outHashes txns ops acc
      | None \<Rightarrow> (case txns (opHash op) of
          None \<Rightarrow> outHashes txns ops acc
        | Some d \<Rightarrow> outHashes txns ops ((opHash op, Some d) # acc)))"

definition addEntry :: "'x TxnsStore \<Rightarrow> Hash \<Rightarrow> 'x nilStore \<Rightarrow> 'x nilStore" where
  "addEntry txns h acc = (case map_of acc h of Some _ \<Rightarrow> acc | None \<Rightarrow> (h, txns h) # acc)"

fun prevHashes :: "'x TxnsStore \<Rightarrow> PrevOut list \<Rightarrow> 'x nilStore \<Rightarrow> 'x nilStore" where
  "prevHashes txns [] acc = acc"
| "prevHashes txns (po # pos) acc =
     prevHashes txns pos (addEntry txns (opHash (poPreviousOutpoint po))
       (addEntry txns (poTxSpending po) acc))"

text \<open>
  The outputs of the address, the transactions and their number; \<open>None\<close> is the error for a store
  that was never made. The stores of the addresses are filled by calls of this function only, so
  the transactions that earlier calls found are an argument, and the result is what later calls
  start from.
\<close>

definition UnconfirmedTxnsForAddress :: "'x nilStore \<Rightarrow> string \<Rightarrow> ('f, 'c, 'x) MempoolMonitor
    \<Rightarrow> (OutPoint list \<times> PrevOut list \<times> 'x nilStore \<times> int) option" where
  "UnconfirmedTxnsForAddress seen address p = (case mmAddrMap p of
     None \<Rightarrow> None
   | Some addrStore \<Rightarrow> (case addrStore address of
       None \<Rightarrow> Some ([], [], [], 0)
     | Some outs \<Rightarrow>
         (let txns = (case mmTxnsStore p of None \<Rightarrow> Map.empty | Some t \<Rightarrow> t);
              store = prevHashes txns (aoPrevOuts outs) (outHashes txns (aoOutpoints outs) seen)
          in Some (aoOutpoints outs, aoPrevOuts outs, store, int (length store)))))"

subsection \<open>Votes, counted once per ticket\<close>

text \<open>
  The votes are abstracted to the set of pairs of the block they vote on and the ticket they
  spend. The two invariants say how the voting information and the ticket indexes follow from it.
\<close>

definition votedFor :: "string \<Rightarrow> (string \<times> string) set \<Rightarrow> string set" where
  "votedFor h K = {t. (h, t) \<in> K}"

definition votingOK :: "string \<Rightarrow> (string \<times> string) set \<Rightarrow> VotingInfo \<Rightarrow> bool" where
  "votingOK tip K v \<longleftrightarrow> vgVotedTickets v = votedFor tip K
     \<and> vgTicketsVoted v = of_nat (card (votedFor tip K))
     \<and> (\<forall>h ty. vgVoteTallys v h = Some ty \<longrightarrow> h = tip \<and> length (tyMarks ty) = card (votedFor tip K))
     \<and> (vgVoteTallys v tip = None \<longleftrightarrow> votedFor tip K = {})"

definition indsOK :: "(string \<times> string) set \<Rightarrow> BlockValidatorIndex \<Rightarrow> bool" where
  "indsOK K inds \<longleftrightarrow> (\<forall>h. votedFor h K = set (map fst (case inds h of None \<Rightarrow> [] | Some l \<Rightarrow> l)))
     \<and> (\<forall>h l. inds h = Some l \<longrightarrow> distinct (map fst l)
          \<and> map snd l = rev (map int [1..<Suc (length l)]))"

definition voteKey :: "'c VoteInfo \<Rightarrow> string \<times> string" where
  "voteKey vi = (valHash (viValidation vi), viTicketSpent vi)"

lemma voteKey_update [simp]:
  "voteKey (vi\<lparr>viMempoolTicketIndex := i\<rparr>) = voteKey vi"
  "voteKey (vi\<lparr>viForLastBlock := b\<rparr>) = voteKey vi"
  by (simp_all add: voteKey_def)

lemma votedFor_insert: "votedFor h (insert k K) = (if fst k = h then insert (snd k) (votedFor h K) else votedFor h K)"
  by (cases k) (auto simp: votedFor_def)

lemma finite_votedFor: "finite K \<Longrightarrow> finite (votedFor h K)"
  by (rule finite_subset[of _ "snd ` K"]) (force simp: votedFor_def)+

lemma countVote_ok:
  assumes "votingOK tip K v" and "finite K" and "viForLastBlock vi = (fst (voteKey vi) = tip)"
    and "countVote vi v = (c, v')"
  shows "votingOK tip (insert (voteKey vi) K) v'"
    and "c = (fst (voteKey vi) = tip \<and> snd (voteKey vi) \<notin> votedFor tip K)"
    and "card (votedFor tip (insert (voteKey vi) K)) = card (votedFor tip K) + (if c then 1 else 0)"
proof -
  have fin: "finite (votedFor tip K)" by (rule finite_votedFor[OF assms(2)])
  have V: "vgVotedTickets v = votedFor tip K"
    "vgTicketsVoted v = of_nat (card (votedFor tip K))"
    "\<And>h ty. vgVoteTallys v h = Some ty \<Longrightarrow> h = tip \<and> length (tyMarks ty) = card (votedFor tip K)"
    "vgVoteTallys v tip = None \<longleftrightarrow> votedFor tip K = {}"
    using assms(1) unfolding votingOK_def by blast+
  show c: "c = (fst (voteKey vi) = tip \<and> snd (voteKey vi) \<notin> votedFor tip K)"
    using assms(3,4) V(1) by (auto simp: countVote_def voteKey_def split: if_splits)
  show card: "card (votedFor tip (insert (voteKey vi) K)) = card (votedFor tip K) + (if c then 1 else 0)"
    using c fin by (auto simp: votedFor_insert insert_absorb)
  show "votingOK tip (insert (voteKey vi) K) v'"
  proof (cases c)
    case False
    have "v' = v" using False assms(4) by (auto simp: countVote_def split: if_splits)
    moreover have eq: "votedFor tip (insert (voteKey vi) K) = votedFor tip K"
      using False c by (auto simp: votedFor_insert)
    have "votingOK tip (insert (voteKey vi) K) v = votingOK tip K v"
      unfolding votingOK_def eq by (rule refl)
    ultimately show ?thesis using assms(1) by blast
  next
    case True
    then have k: "valHash (viValidation vi) = tip" "viTicketSpent vi \<notin> votedFor tip K"
      using c by (auto simp: voteKey_def)
    have ins: "votedFor tip (insert (voteKey vi) K) = insert (viTicketSpent vi) (votedFor tip K)"
      using k by (simp add: votedFor_insert voteKey_def)
    have v': "v' = Tally (v\<lparr>vgVotedTickets := insert (viTicketSpent vi) (vgVotedTickets v),
                 vgTicketsVoted := vgTicketsVoted v + 1\<rparr>) vi"
      using assms(4) True by (auto simp: countVote_def split: if_splits)
    have card': "card (insert (viTicketSpent vi) (votedFor tip K)) = Suc (card (votedFor tip K))"
      using fin k(2) by simp
    have f: "vgVotedTickets v' = insert (viTicketSpent vi) (votedFor tip K)"
      "vgTicketsVoted v' = of_nat (Suc (card (votedFor tip K)))"
      using V(1,2) by (simp_all add: v' Tally_def Let_def add.commute split: option.split)
    show ?thesis
    proof (cases "vgVoteTallys v tip")
      case None
      then have e: "card (votedFor tip K) = 0" using V(4) by simp
      have "vgVoteTallys v' = (vgVoteTallys v)(tip \<mapsto>
          \<lparr>tyTicketsPerBlock = uint (vgMaxVotesPerBlock v), tyMarks = [valValidity (viValidation vi)]\<rparr>)"
        using None k(1) by (simp add: v' Tally_def Let_def)
      moreover have "vgVoteTallys v h = None" for h using V(3)[of h] None by (cases "vgVoteTallys v h") auto
      ultimately show ?thesis unfolding votingOK_def ins f card' by (simp add: e)
    next
      case (Some ty)
      have "vgVoteTallys v' = (vgVoteTallys v)(tip \<mapsto> Mark ty (valValidity (viValidation vi)))"
        using Some k(1) by (simp add: v' Tally_def Let_def)
      moreover have "length (tyMarks ty) = card (votedFor tip K)" using V(3) Some by blast
      moreover have "h = tip" if "vgVoteTallys v h = Some y" for h y using V(3) that by blast
      ultimately show ?thesis unfolding votingOK_def ins f card' by (auto simp: Mark_def split: if_splits)
    qed
  qed
qed

lemma SetTicketIndex_cases:
  assumes "SetTicketIndex vi inds = (vi', inds')"
  obtains (fresh) "inds (fst (voteKey vi)) = None"
      "inds' = inds(fst (voteKey vi) \<mapsto> [(snd (voteKey vi), 1)])" "vi' = vi\<lparr>viMempoolTicketIndex := 1\<rparr>"
    | (known) l i where "inds (fst (voteKey vi)) = Some l" "map_of l (snd (voteKey vi)) = Some i"
      "inds' = inds" "vi' = vi\<lparr>viMempoolTicketIndex := i\<rparr>"
    | (more) l where "inds (fst (voteKey vi)) = Some l" "map_of l (snd (voteKey vi)) = None"
      "inds' = inds(fst (voteKey vi) \<mapsto> (snd (voteKey vi), int (length l) + 1) # l)"
      "vi' = vi\<lparr>viMempoolTicketIndex := int (length l) + 1\<rparr>"
  using assms by (auto simp: SetTicketIndex_def Let_def voteKey_def split: option.splits)

lemma SetTicketIndex_ok:
  assumes "indsOK K inds" and "SetTicketIndex vi inds = (vi', inds')"
  shows "indsOK (insert (voteKey vi) K) inds'"
proof -
  have I: "\<And>g. votedFor g K = set (map fst (case inds g of None \<Rightarrow> [] | Some l \<Rightarrow> l))"
    "\<And>g l. inds g = Some l \<Longrightarrow> distinct (map fst l) \<and> map snd l = rev (map int [1..<Suc (length l)])"
    using assms(1) unfolding indsOK_def by blast+
  obtain h t where key: "voteKey vi = (h, t)" by (cases "voteKey vi")
  from assms(2) show ?thesis
  proof (cases rule: SetTicketIndex_cases)
    case fresh
    then show ?thesis using I by (auto simp: indsOK_def votedFor_insert key)
  next
    case (known l i)
    then have "t \<in> votedFor h K" using I(1)[of h] by (force simp: key dest: map_of_SomeD)
    then show ?thesis using known I by (simp add: indsOK_def votedFor_insert key insert_absorb)
  next
    case (more l)
    then show ?thesis using I
      by (auto simp: indsOK_def votedFor_insert key map_of_eq_None_iff intro: rev_image_eqI)
  qed
qed

lemma SetTicketIndex_fields:
  assumes "SetTicketIndex vi inds = (vi', inds')"
  shows "\<exists>i l. vi' = vi\<lparr>viMempoolTicketIndex := i\<rparr> \<and> inds' (fst (voteKey vi)) = Some l
          \<and> map_of l (snd (voteKey vi)) = Some i"
  using assms by (cases rule: SetTicketIndex_cases) auto

subsection \<open>What an inventory says of the transactions\<close>

definition isTicket :: "('f, 'c) mtxn \<Rightarrow> bool" where "isTicket t \<longleftrightarrow> mpType t = ''Ticket''"
definition isVote :: "('f, 'c) mtxn \<Rightarrow> bool" where "isVote t \<longleftrightarrow> mpType t = ''Vote''"
definition isRevocation :: "('f, 'c) mtxn \<Rightarrow> bool" where "isRevocation t \<longleftrightarrow> mpType t = ''Revocation''"
definition isRegular :: "('f, 'c) mtxn \<Rightarrow> bool" where
  "isRegular t \<longleftrightarrow> \<not> isTicket t \<and> \<not> isVote t \<and> \<not> isRevocation t"

definition keysOf :: "('f, 'c) mtxn list \<Rightarrow> (string \<times> string) set" where
  "keysOf txs = {voteKey vi | vi t. t \<in> set txs \<and> isVote t \<and> mpVoteInfo t = Some vi}"

lemma keysOf_simps [simp]: "keysOf [] = {}"
  "keysOf (t # txs) = (if isVote t then (case mpVoteInfo t of None \<Rightarrow> keysOf txs
     | Some vi \<Rightarrow> insert (voteKey vi) (keysOf txs)) else keysOf txs)"
  "keysOf (txs @ [t]) = (if isVote t then (case mpVoteInfo t of None \<Rightarrow> keysOf txs
     | Some vi \<Rightarrow> insert (voteKey vi) (keysOf txs)) else keysOf txs)"
  by (auto simp: keysOf_def split: option.splits)

lemma finite_keysOf [simp]: "finite (keysOf txs)"
  by (induction txs) (auto split: option.splits)

text \<open>
  The number of votes of the tickets on the tip. \<open>mineable\<close> are the transactions that are no votes,
  and one vote per ticket that voted on the last block.
\<close>

definition mineable :: "string \<Rightarrow> ('f, 'c) mtxn list \<Rightarrow> nat" where
  "mineable tip txs = length (filter (\<lambda>t. \<not> isVote t) txs) + card (votedFor tip (keysOf txs))"

definition uniqueTxs :: "('f, 'c) mtxn list \<Rightarrow> bool" where
  "uniqueTxs txs \<longleftrightarrow> distinct (map mpHash (filter isRegular txs))
     \<and> distinct (map mpHash (filter (\<lambda>t. \<not> isRegular t) txs))
     \<and> (\<forall>t\<in>set txs. isVote t \<longrightarrow> mpVoteInfo t \<noteq> None)"

definition summarizes :: "string \<Rightarrow> ('f, 'c) mtxn list \<Rightarrow> ('f, 'c) minventory \<Rightarrow> bool" where
  "summarizes tip txs v \<longleftrightarrow>
     miInvRegular v = mpHash ` set (filter isRegular txs)
   \<and> miInvStake v = mpHash ` set (filter (\<lambda>t. \<not> isRegular t) txs)
   \<and> miTransactions v = filter isRegular txs \<and> miTickets v = filter isTicket txs
   \<and> miRevocations v = filter isRevocation txs
   \<and> mset (map mpHash (miVotes v)) = mset (map mpHash (filter isVote txs))
   \<and> miNumRegular v = int (length (filter isRegular txs))
   \<and> miNumTickets v = int (length (filter isTicket txs))
   \<and> miNumRevokes v = int (length (filter isRevocation txs))
   \<and> miNumVotes v = int (length (filter isVote txs))
   \<and> miNumAll v = int (length txs)
   \<and> miTotalSize v = sum_list (map mpSize txs)
   \<and> lmCount (miLikelyMineable v) = int (mineable tip txs)
   \<and> map mpHash (miLatestTransactions v) = take NumLatestMempoolTxns (map mpHash txs)
   \<and> votingOK tip (keysOf txs) (miVotingInfo v)
   \<and> indsOK (keysOf txs) (miTicketIndexes v)"

subsection \<open>The loop over all transactions\<close>

definition parseInv :: "string \<Rightarrow> ('f, 'c) mtxn list \<Rightarrow> ('f, 'c) parseState \<Rightarrow> bool" where
  "parseInv tip txs st \<longleftrightarrow>
     psInvRegular st = mpHash ` set (filter isRegular txs)
   \<and> psInvStake st = mpHash ` set (filter (\<lambda>t. \<not> isRegular t) txs)
   \<and> psRegular st = filter isRegular txs \<and> psTickets st = filter isTicket txs
   \<and> psRevs st = filter isRevocation txs
   \<and> map mpHash (psVotes st) = map mpHash (filter isVote txs)
   \<and> (\<forall>t\<in>set (psVotes st). mpVoteInfo t \<noteq> None)
   \<and> psTotalSize st = sum_list (map mpSize txs)
   \<and> psNumLikely st = int (mineable tip txs)
   \<and> votingOK tip (keysOf txs) (psVotingInfo st)
   \<and> indsOK (keysOf txs) (psInds st)"

lemma parseInvD:
  assumes "parseInv tip txs st"
  shows "psInvRegular st = mpHash ` set (filter isRegular txs)"
    and "psInvStake st = mpHash ` set (filter (\<lambda>t. \<not> isRegular t) txs)"
    and "psRegular st = filter isRegular txs" and "psTickets st = filter isTicket txs"
    and "psRevs st = filter isRevocation txs"
    and "map mpHash (psVotes st) = map mpHash (filter isVote txs)"
    and "\<forall>t\<in>set (psVotes st). mpVoteInfo t \<noteq> None"
    and "psTotalSize st = sum_list (map mpSize txs)"
    and "psNumLikely st = int (mineable tip txs)"
    and "votingOK tip (keysOf txs) (psVotingInfo st)"
    and "indsOK (keysOf txs) (psInds st)"
  using assms unfolding parseInv_def by blast+

lemma kinds:
  "isTicket t \<Longrightarrow> \<not> isVote t \<and> \<not> isRevocation t \<and> \<not> isRegular t"
  "isVote t \<Longrightarrow> \<not> isTicket t \<and> \<not> isRevocation t \<and> \<not> isRegular t"
  "isRevocation t \<Longrightarrow> \<not> isVote t \<and> \<not> isTicket t \<and> \<not> isRegular t"
  "isRegular t \<Longrightarrow> \<not> isVote t \<and> \<not> isRevocation t \<and> \<not> isTicket t"
  by (auto simp: isTicket_def isVote_def isRevocation_def isRegular_def)

lemma mineable_snoc:
  "\<not> isVote t \<Longrightarrow> mineable tip (txs @ [t]) = mineable tip txs + 1"
  "\<not> isVote t \<Longrightarrow> mineable tip (t # txs) = mineable tip txs + 1"
  by (simp_all add: mineable_def)

lemma parseTotals_fields:
  "psTotalSize (parseTotals c out t st) = psTotalSize st + mpSize t"
  "psNumLikely (parseTotals c out t st) = psNumLikely st + (if c then 1 else 0)"
  "psInvRegular (parseTotals c out t st) = psInvRegular st"
  "psInvStake (parseTotals c out t st) = psInvStake st"
  "psRegular (parseTotals c out t st) = psRegular st"
  "psTickets (parseTotals c out t st) = psTickets st"
  "psRevs (parseTotals c out t st) = psRevs st"
  "psVotes (parseTotals c out t st) = psVotes st"
  "psVotingInfo (parseTotals c out t st) = psVotingInfo st"
  "psInds (parseTotals c out t st) = psInds st"
  by (simp_all add: parseTotals_def Let_def)

lemma parseStep_inv:
  assumes inv0: "parseInv tip txs st" and tip: "tip \<noteq> []" and u: "uniqueTxs (txs @ [t])"
    and "parseStep E tip t st = (t', st')"
  shows "parseInv tip (txs @ [t]) st' \<and> mpHash t' = mpHash t"
proof -
  note D = parseInvD[OF inv0]
  consider (ticket) "isTicket t" | (vote) "isVote t" | (rev) "isRevocation t" | (reg) "isRegular t"
    by (auto simp: isRegular_def)
  then show ?thesis
  proof cases
    case ticket
    note k = kinds(1)[OF ticket]
    have new: "mpHash t \<notin> psInvStake st" using u k D(2) by (auto simp: uniqueTxs_def)
    have "t' = t" "st' = parseTotals True (newAmount E (mpTotalOut t)) t
        (st\<lparr>psTicketTotal := psTicketTotal st + newAmount E (mpTotalOut t),
            psInvStake := insert (mpHash t) (psInvStake st), psTickets := psTickets st @ [t]\<rparr>)"
      using assms(4) new ticket by (auto simp: parseStep_def isTicket_def Let_def)
    then show ?thesis using D k ticket
      by (simp add: parseInv_def parseTotals_fields mineable_snoc)
  next
    case rev
    note k = kinds(3)[OF rev]
    have new: "mpHash t \<notin> psInvStake st" using u k D(2) by (auto simp: uniqueTxs_def)
    have "t' = t" "st' = parseTotals True (newAmount E (mpTotalOut t)) t
        (st\<lparr>psRevTotal := psRevTotal st + newAmount E (mpTotalOut t),
            psInvStake := insert (mpHash t) (psInvStake st), psRevs := psRevs st @ [t]\<rparr>)"
      using assms(4) new rev by (auto simp: parseStep_def isRevocation_def Let_def)
    then show ?thesis using D k rev
      by (simp add: parseInv_def parseTotals_fields mineable_snoc)
  next
    case reg
    note k = kinds(4)[OF reg]
    have new: "mpHash t \<notin> psInvRegular st" using u reg D(1) by (auto simp: uniqueTxs_def)
    have "t' = t" "st' = parseTotals True (newAmount E (mpTotalOut t)) t
        (st\<lparr>psRegularTotal := psRegularTotal st + newAmount E (mpTotalOut t),
            psInvRegular := insert (mpHash t) (psInvRegular st), psRegular := psRegular st @ [t]\<rparr>)"
      using assms(4) new reg
      by (auto simp: parseStep_def isRegular_def isTicket_def isVote_def isRevocation_def Let_def)
    then show ?thesis using D k reg
      by (simp add: parseInv_def parseTotals_fields mineable_snoc)
  next
    case vote
    note k = kinds(2)[OF vote]
    have new: "mpHash t \<notin> psInvStake st" using u k D(2) by (auto simp: uniqueTxs_def)
    obtain vi0 where vi0: "mpVoteInfo t = Some vi0" using u vote by (auto simp: uniqueTxs_def)
    obtain vi1 inds where s: "SetTicketIndex vi0 (psInds st) = (vi1, inds)" by fastforce
    obtain i where vi1: "vi1 = vi0\<lparr>viMempoolTicketIndex := i\<rparr>" using SetTicketIndex_fields[OF s] by blast
    define vi where "vi = vi1\<lparr>viForLastBlock := VotesOnBlock vi1 tip\<rparr>"
    obtain c voting where cv: "countVote vi (psVotingInfo st) = (c, voting)" by fastforce
    have key: "voteKey vi = voteKey vi0" by (simp add: vi_def vi1)
    have "viForLastBlock vi = (fst (voteKey vi) = tip)"
      using tip by (auto simp: vi_def vi1 voteKey_def VotesOnBlock_def ForBlock_def)
    note C = countVote_ok[OF D(10) _ this cv, simplified]
    have st: "t' = t\<lparr>mpVoteInfo := Some vi\<rparr>" "st' = parseTotals c (newAmount E (mpTotalOut t)) t'
        (st\<lparr>psInvStake := insert (mpHash t) (psInvStake st), psVotes := psVotes st @ [t'],
            psInds := inds, psVotingInfo := voting,
            psVoteTotal := (if c then psVoteTotal st + newAmount E (mpTotalOut t) else psVoteTotal st)\<rparr>)"
      using assms(4) new vote vi0 s cv
      by (auto simp: parseStep_def isVote_def Let_def vi_def)
    have ks: "keysOf (txs @ [t]) = insert (voteKey vi) (keysOf txs)" using vote vi0 key by simp
    have m: "mineable tip (txs @ [t]) = mineable tip txs + (if c then 1 else 0)"
      unfolding mineable_def ks using vote C(3) by simp
    show ?thesis unfolding parseInv_def ks m
      using D C(1) SetTicketIndex_ok[OF D(11) s] key k vote st
      by (simp add: parseTotals_fields)
  qed
qed

lemma parseLoop_inv:
  assumes "parseInv tip txs st" and "tip \<noteq> []" and "uniqueTxs (txs @ ts)"
    and "parseLoop E tip ts st = (ts', st')"
  shows "parseInv tip (txs @ ts) st' \<and> map mpHash ts' = map mpHash ts"
  using assms
proof (induction ts arbitrary: txs st ts' st')
  case Nil
  then show ?case by simp
next
  case (Cons t ts)
  obtain t1 st1 where s: "parseStep E tip t st = (t1, st1)" by fastforce
  obtain ts1 where l: "parseLoop E tip ts st1 = (ts1, st')" "ts' = t1 # ts1"
    using Cons.prems(4) s by (auto split: prod.splits)
  have "uniqueTxs (txs @ [t])" using Cons.prems(3) by (auto simp: uniqueTxs_def)
  from parseStep_inv[OF Cons.prems(1,2) this s]
  have 1: "parseInv tip (txs @ [t]) st1" "mpHash t1 = mpHash t" by auto
  then show ?case using Cons.IH[OF 1(1) Cons.prems(2) _ l(1)] Cons.prems(3) l(2) by simp
qed

lemma parseStart_inv: "parseInv tip [] (parseStart n)"
  by (simp add: parseInv_def parseStart_def mineable_def votingOK_def indsOK_def NewVotingInfo_def
      votedFor_def)

subsection \<open>The two ways to an inventory agree\<close>

text \<open>What the development relies on: the sorting functions permute their argument, and sort it;
  hashes have non-empty strings.\<close>

definition envOK :: "('f, 'c, 'x) monitorEnv \<Rightarrow> bool" where
  "envOK env \<longleftrightarrow> (\<forall>txs. mset (meSortTime env txs) = mset txs \<and> sliceIsSorted (meSortTime env txs))
     \<and> (\<forall>txs. mset (meSortHeight env txs) = mset txs) \<and> (\<forall>h. meString env h \<noteq> [])"

lemma sortVotes_ok:
  assumes "envOK env" and "\<forall>t\<in>set votes. mpVoteInfo t \<noteq> None"
  shows "\<exists>vs. sortVotes env votes = Some vs \<and> mset vs = mset votes"
  using assms by (auto simp: sortVotes_def envOK_def list_ex_iff)

lemma ParseTxns_summarizes:
  assumes "envOK env" and "uniqueTxs txs" and "sliceIsSorted txs"
  shows "\<exists>v ts. ParseTxns env txs b = Ret (v, ts) \<and> summarizes (meString env (bidHash b)) txs v
     \<and> map mpHash ts = map mpHash txs"
proof -
  let ?tip = "meString env (bidHash b)"
  obtain ts st where l: "parseLoop (meAmounts env) ?tip txs (parseStart (meTicketsPerBlock env)) = (ts, st)"
    by fastforce
  have tip: "?tip \<noteq> []" using assms(1) by (simp add: envOK_def)
  have P: "parseInv ?tip txs st" "map mpHash ts = map mpHash txs"
    using parseLoop_inv[OF parseStart_inv tip _ l] assms(2) by simp_all
  note D = parseInvD[OF P(1)]
  obtain vs where vs: "sortVotes env (psVotes st) = Some vs" "mset vs = mset (psVotes st)"
    using sortVotes_ok[OF assms(1) D(7)] by blast
  have len: "length vs = length (psVotes st)" "length (psVotes st) = length (filter isVote txs)"
    "length ts = length txs"
    using vs(2) D(6) P(2) by (metis size_mset, metis length_map, metis length_map)
  have "mset (map mpHash vs) = mset (map mpHash (filter isVote txs))"
    using vs(2) D(6) by (metis mset_map)
  moreover have "map mpHash (take n ts) = take n (map mpHash txs)" for n
    using P(2) by (metis take_map)
  ultimately have "\<exists>v. ParseTxns env txs b = Ret (v, ts) \<and> summarizes ?tip txs v"
    using assms(3) l vs(1) D(1-5,8-11) len
    by (simp add: ParseTxns_def Let_def summarizes_def)
  then show ?thesis using P(2) by blast
qed

lemma storeTotals_fields:
  "miInvRegular (storeTotals E c t v) = miInvRegular v" "miInvStake (storeTotals E c t v) = miInvStake v"
  "miTransactions (storeTotals E c t v) = miTransactions v" "miTickets (storeTotals E c t v) = miTickets v"
  "miRevocations (storeTotals E c t v) = miRevocations v" "miVotes (storeTotals E c t v) = miVotes v"
  "miNumRegular (storeTotals E c t v) = miNumRegular v" "miNumTickets (storeTotals E c t v) = miNumTickets v"
  "miNumRevokes (storeTotals E c t v) = miNumRevokes v" "miNumVotes (storeTotals E c t v) = miNumVotes v"
  "miNumAll (storeTotals E c t v) = miNumAll v + 1"
  "miTotalSize (storeTotals E c t v) = miTotalSize v + mpSize t"
  "lmCount (miLikelyMineable (storeTotals E c t v)) = lmCount (miLikelyMineable v) + (if c then 1 else 0)"
  "miLatestTransactions (storeTotals E c t v) = latestWith t (miLatestTransactions v)"
  "miVotingInfo (storeTotals E c t v) = miVotingInfo v"
  "miTicketIndexes (storeTotals E c t v) = miTicketIndexes v"
  by (simp_all add: storeTotals_def lmUpdate_def Let_def)

lemma lmUpdate_fields [simp]:
  "miInvRegular (lmUpdate g v) = miInvRegular v" "miInvStake (lmUpdate g v) = miInvStake v"
  "miTransactions (lmUpdate g v) = miTransactions v" "miTickets (lmUpdate g v) = miTickets v"
  "miRevocations (lmUpdate g v) = miRevocations v" "miVotes (lmUpdate g v) = miVotes v"
  "miNumRegular (lmUpdate g v) = miNumRegular v" "miNumTickets (lmUpdate g v) = miNumTickets v"
  "miNumRevokes (lmUpdate g v) = miNumRevokes v" "miNumVotes (lmUpdate g v) = miNumVotes v"
  "miNumAll (lmUpdate g v) = miNumAll v" "miTotalSize (lmUpdate g v) = miTotalSize v"
  "miLikelyMineable (lmUpdate g v) = g (miLikelyMineable v)"
  "miLatestTransactions (lmUpdate g v) = miLatestTransactions v"
  "miVotingInfo (lmUpdate g v) = miVotingInfo v" "miTicketIndexes (lmUpdate g v) = miTicketIndexes v"
  by (simp_all add: lmUpdate_def)

lemma latestWith_map:
  assumes "map mpHash latest = take NumLatestMempoolTxns (map mpHash txs)"
  shows "map mpHash (latestWith t latest) = take NumLatestMempoolTxns (map mpHash (t # txs))"
proof -
  have len: "length latest = min NumLatestMempoolTxns (length txs)"
    using assms by (metis length_map length_take min.commute)
  show ?thesis
  proof (cases "NumLatestMempoolTxns \<le> length latest")
    case True
    then have "length latest = NumLatestMempoolTxns" using len by simp
    then show ?thesis using assms
      by (simp add: latestWith_def take_map[symmetric] NumLatestMempoolTxns_def)
  next
    case False
    then have "length txs < NumLatestMempoolTxns" using len by (simp split: if_splits)
    then show ?thesis using assms False by (simp add: latestWith_def)
  qed
qed

lemma switchTx_summarizes:
  assumes S: "summarizes tip txs v" and "mpType t \<in> {''Ticket'', ''Vote'', ''Revocation'', ''Regular''}"
    and "\<And>vi. mpVoteInfo t = Some vi \<Longrightarrow> viForLastBlock vi = (valHash (viValidation vi) = tip)"
    and "switchTx h t v = Switched t' c v'"
  shows "summarizes tip (t' # txs) (storeTotals E c t' v')"
proof -
  have L: "map mpHash (latestWith t'' (miLatestTransactions v)) = take NumLatestMempoolTxns (map mpHash (t'' # txs))"
    for t'' using latestWith_map[of "miLatestTransactions v" txs t''] S by (simp add: summarizes_def)
  consider (ticket) "isTicket t" | (vote) "isVote t" | (rev) "isRevocation t" | (reg) "isRegular t"
    by (auto simp: isRegular_def)
  then show ?thesis
  proof cases
    case ticket
    then have "t' = t" "c" "v' = lmUpdate (\<lambda>lm. lm\<lparr>lmTicketTotal := lmTicketTotal lm + mpTotalOut t\<rparr>)
          (v\<lparr>miInvStake := insert (mpHash t) (miInvStake v), miTickets := t # miTickets v,
               miNumTickets := miNumTickets v + 1\<rparr>)"
      using assms(4) by (auto simp: switchTx_def isTicket_def)
    then show ?thesis using S L[of t] kinds(1)[OF ticket] ticket
      by (simp add: summarizes_def storeTotals_fields mineable_snoc add.commute)
  next
    case rev
    then have "t' = t" "c" "v' = lmUpdate (\<lambda>lm. lm\<lparr>lmRevokeTotal := lmRevokeTotal lm + mpTotalOut t\<rparr>)
          (v\<lparr>miInvStake := insert (mpHash t) (miInvStake v), miRevocations := t # miRevocations v,
               miNumRevokes := miNumRevokes v + 1\<rparr>)"
      using assms(4) by (auto simp: switchTx_def isRevocation_def)
    then show ?thesis using S L[of t] kinds(3)[OF rev] rev
      by (simp add: summarizes_def storeTotals_fields mineable_snoc add.commute)
  next
    case reg
    then have "mpType t = ''Regular''"
      using assms(2) by (auto simp: isRegular_def isTicket_def isVote_def isRevocation_def)
    then have "t' = t" "c" "v' = lmUpdate (\<lambda>lm. lm\<lparr>lmRegularTotal := lmRegularTotal lm + mpTotalOut t\<rparr>)
          (v\<lparr>miInvRegular := insert (mpHash t) (miInvRegular v), miTransactions := t # miTransactions v,
               miNumRegular := miNumRegular v + 1\<rparr>)"
      using assms(4) by (auto simp: switchTx_def)
    then show ?thesis using S L[of t] kinds(4)[OF reg] reg
      by (simp add: summarizes_def storeTotals_fields mineable_snoc add.commute)
  next
    case vote
    then obtain vi0 where vi0: "mpVoteInfo t = Some vi0"
      using assms(4) by (auto simp: switchTx_def isVote_def split: option.splits)
    obtain vi inds where s: "SetTicketIndex vi0 (miTicketIndexes v) = (vi, inds)" by fastforce
    obtain i where vi: "vi = vi0\<lparr>viMempoolTicketIndex := i\<rparr>" using SetTicketIndex_fields[OF s] by blast
    obtain d voting where cv: "countVote vi (miVotingInfo v) = (d, voting)" by fastforce
    have key: "voteKey vi = voteKey vi0" by (simp add: vi)
    have SV: "votingOK tip (keysOf txs) (miVotingInfo v)" "indsOK (keysOf txs) (miTicketIndexes v)"
      using S by (simp_all add: summarizes_def)
    have "viForLastBlock vi = (fst (voteKey vi) = tip)" using assms(3)[OF vi0] by (simp add: voteKey_def vi)
    note C = countVote_ok[OF SV(1) finite_keysOf this cv, unfolded key]
    define v1 where "v1 = v\<lparr>miInvStake := insert (mpHash t) (miInvStake v),
         miVotes := t\<lparr>mpVoteInfo := Some vi\<rparr> # miVotes v, miNumVotes := miNumVotes v + 1,
         miTicketIndexes := inds, miVotingInfo := voting\<rparr>"
    have st: "t' = t\<lparr>mpVoteInfo := Some vi\<rparr>" "c = d"
      "v' = (if d then lmUpdate (\<lambda>lm. lm\<lparr>lmVoteTotal := lmVoteTotal lm + mpTotalOut t\<rparr>) v1 else v1)"
      using assms(4) vote vi0 s cv
      by (auto simp: switchTx_def isVote_def Let_def v1_def split: if_splits)
    have t': "isVote t'" "mpVoteInfo t' = Some vi" using vote st(1) by (simp_all add: isVote_def)
    have m: "mineable tip (t' # txs) = mineable tip txs + (if d then 1 else 0)"
      using C(3) t' key by (simp add: mineable_def)
    have ks: "keysOf (t' # txs) = insert (voteKey vi0) (keysOf txs)" using t' key by simp
    show ?thesis unfolding summarizes_def ks m
      using S C(1) SetTicketIndex_ok[OF SV(2) s] L[of t'] kinds(2)[OF t'(1)] t' st
      by (simp add: summarizes_def storeTotals_fields v1_def add.commute)
  qed
qed

lemma uniqueTxs_mset: "mset txs = mset ts \<Longrightarrow> uniqueTxs txs = uniqueTxs ts"
proof -
  assume m: "mset txs = mset ts"
  have "mset (map mpHash (filter P txs)) = mset (map mpHash (filter P ts))" for P
    using m by simp
  then have "distinct (map mpHash (filter P txs)) = distinct (map mpHash (filter P ts))" for P
    by (rule mset_eq_imp_distinct_iff)
  then show ?thesis using mset_eq_setD[OF m] by (simp add: uniqueTxs_def)
qed

lemma summarizes_ident: "summarizes tip xs (w\<lparr>miIdent := i\<rparr>) = summarizes tip xs w"
  by (simp add: summarizes_def)

lemma Refresh_summarizes:
  assumes "envOK env" and "uniqueTxs txs" and "Refresh env (Inr (data, txs)) p = Ret (p', r)"
  shows "\<exists>v. mmInventory p' = Some v \<and> mmLastBlock p' = coLatestBlock data
    \<and> uniqueTxs (meSortTime env txs)
    \<and> summarizes (meString env (bidHash (coLatestBlock data))) (meSortTime env txs) v"
proof -
  have sorted: "sliceIsSorted (meSortTime env txs)" and m: "mset (meSortTime env txs) = mset txs"
    using assms(1) by (auto simp: envOK_def)
  have u: "uniqueTxs (meSortTime env txs)" using uniqueTxs_mset[OF m] assms(2) by simp
  obtain v ts where v: "ParseTxns env (meSortTime env txs) (coLatestBlock data) = Ret (v, ts)"
    "summarizes (meString env (bidHash (coLatestBlock data))) (meSortTime env txs) v"
    using ParseTxns_summarizes[OF assms(1) u sorted] by blast
  show ?thesis using assms(3) v u
    by (auto simp: Refresh_def Let_def summarizes_ident split: option.splits)
qed

lemma voteInfoOf_VotesOn:
  "voteInfoOf env tip msgTx = Ret (Some vi) \<Longrightarrow> viForLastBlock vi = VotesOnBlock vi tip"
  by (auto simp: voteInfoOf_def VotesOnBlock_def Let_def split: if_splits go.splits option.splits)

lemma voteInfoOf_forLast:
  "voteInfoOf env tip msgTx = Ret (Some vi) \<Longrightarrow> tip \<noteq> [] \<Longrightarrow>
     viForLastBlock vi = (valHash (viValidation vi) = tip)"
  by (drule voteInfoOf_VotesOn) (auto simp: VotesOnBlock_def ForBlock_def)

lemma setValuesIn_length: "setValuesIn ts vs = Some us \<Longrightarrow> length us = length ts"
  by (induction ts vs arbitrary: us rule: setValuesIn.induct) auto

lemma switchTx_kind:
  "switchTx h t v = Switched t' c v' \<Longrightarrow> mpHash t' = mpHash t \<and> mpType t' = mpType t
     \<and> (mpType t = ''Vote'' \<longrightarrow> mpVoteInfo t' \<noteq> None)"
  by (auto simp: switchTx_def Let_def split: if_splits option.splits prod.splits)

lemma TxHandler_cases:
  assumes "TxHandler env raw p = Ret (p', r)" and "mmInventory p = Some v" and "envOK env"
  obtains (same) w where "mmInventory p' = Some (v\<lparr>miIdent := w\<rparr>)" "mmLastBlock p' = mmLastBlock p"
      "\<And>a t. r \<noteq> NewTx a t"
    | (added) addrs t0 t c v' w where "r = NewTx addrs t"
      "mmLastBlock p' = mmLastBlock p"
      "mmInventory p' = Some (storeTotals (meAmounts env) c t v')"
      "switchTx (bidHeight (mmLastBlock p)) t0 (v\<lparr>miIdent := w\<rparr>) = Switched t c v'"
      "mpType t0 \<in> {''Ticket'', ''Vote'', ''Revocation'', ''Regular''}"
      "mpHash t0 \<notin> (if mpType t0 = ''Regular'' then miInvRegular v else miInvStake v)"
      "\<And>vi. mpVoteInfo t0 = Some vi \<Longrightarrow> viForLastBlock vi
         = (valHash (viValidation vi) = meString env (bidHash (mmLastBlock p)))"
proof (cases "rtTime raw < bidTime (mmLastBlock p) \<or> meFromHex env (rtHex raw) = None")
  case True
  then have "p' = p" "\<And>a t. r \<noteq> NewTx a t"
    using assms(1) by (auto simp: TxHandler_def split: if_splits)
  then show thesis using same[of "miIdent v"] assms(2) by simp
next
  case False
  then obtain msgTx where m: "meFromHex env (rtHex raw) = Some msgTx" by auto
  let ?tip = "meString env (bidHash (mmLastBlock p))"
  let ?inv = "if DetermineTxTypeString msgTx = ''Regular'' then miInvRegular v else miInvStake v"
  have tip: "?tip \<noteq> []" using assms(3) by (simp add: envOK_def)
  show thesis
  proof (cases "meString env (mtHash msgTx) \<in> ?inv")
    case True
    then have "p' = p" "r = DuplicateTx"
      using assms(1,2) False m by (auto simp: TxHandler_def Let_def split: if_splits)
    then show thesis using same[of "miIdent v"] assms(2) by simp
  next
    case new: False
    obtain addrs vals store txns vi0 ins where st:
      "indexTx env msgTx (case mmAddrMap p of None \<Rightarrow> Map.empty | Some s \<Rightarrow> s)
         (case mmTxnsStore p of None \<Rightarrow> Map.empty | Some t \<Rightarrow> t) = Ret (addrs, vals, store, txns)"
      "voteInfoOf env ?tip msgTx = Ret vi0" "setValuesIn (mtTxIn msgTx) vals = Some ins"
      using assms(1,2) False m new
      by (auto simp: TxHandler_def Let_def split: if_splits go.splits option.splits)
    define msg' where "msg' = msgTx\<lparr>mtTxIn := ins\<rparr>"
    define t0 where "t0 = newMempoolTx env raw msg' vi0"
    define v1 where "v1 = v\<lparr>miIdent := miIdent v + 1\<rparr>"
    have t0: "mpHash t0 = meString env (mtHash msgTx)" "mpType t0 = DetermineTxTypeString msgTx"
      "mpVoteInfo t0 = vi0"
      by (simp_all add: t0_def newMempoolTx_def msg'_def Let_def DetermineTxTypeString_def split: prod.splits)
    have ty: "mpType t0 \<in> {''Ticket'', ''Vote'', ''Revocation'', ''Regular''}"
      unfolding t0(2) DetermineTxTypeString_def by (cases "mtType msgTx") simp_all
    have fl: "\<And>vi. mpVoteInfo t0 = Some vi \<Longrightarrow> viForLastBlock vi = (valHash (viValidation vi) = ?tip)"
      using voteInfoOf_forLast[OF _ tip] st(2) t0(3) by auto
    define p1 where "p1 = p\<lparr>mmAddrMap := Some store, mmInventory := Some v1,
        mmTxnsStore := Some (txns(mtHash msgTx \<mapsto> \<lparr>twTx = msg', twBlockHeight = 0,
                                         twBlockHash = [], twMemPoolTime = rtTime raw\<rparr>))\<rparr>"
    have eq: "TxHandler env raw p = (case switchTx (bidHeight (mmLastBlock p)) t0 v1 of
             NilVote \<Rightarrow> Panic
           | Future \<Rightarrow> Ret (p1, FutureVote addrs)
           | Switched tx likely v2 \<Rightarrow>
               Ret (p1\<lparr>mmInventory := Some (storeTotals (meAmounts env) likely tx v2)\<rparr>, NewTx addrs tx))"
      using False new unfolding TxHandler_def m assms(2) st option.case go.case prod.case Let_def
        msg'_def[symmetric] v1_def[symmetric] t0_def[symmetric] p1_def[symmetric] by simp
    have p1: "mmLastBlock p1 = mmLastBlock p" "mmInventory p1 = Some v1" by (simp_all add: p1_def)
    show thesis
    proof (cases "switchTx (bidHeight (mmLastBlock p)) t0 v1")
      case NilVote
      then show thesis using assms(1) unfolding eq by simp
    next
      case Future
      then have "p' = p1" "r = FutureVote addrs" using assms(1) unfolding eq by simp_all
      then show thesis using same[of "miIdent v + 1"] p1 by (simp add: v1_def)
    next
      case (Switched t c v')
      then have "mmInventory p' = Some (storeTotals (meAmounts env) c t v')"
        "mmLastBlock p' = mmLastBlock p" "r = NewTx addrs t"
        using assms(1) p1 unfolding eq by auto
      moreover have "mpHash t0 \<notin> (if mpType t0 = ''Regular'' then miInvRegular v else miInvStake v)"
        using new t0 by simp
      ultimately show thesis
        using added[of addrs t c v' t0 "miIdent v + 1"] Switched ty fl unfolding v1_def by blast
    qed
  qed
qed

lemma TxHandler_summarizes:
  assumes "TxHandler env raw p = Ret (p', r)" and "mmInventory p = Some v" and "envOK env"
    and "summarizes (meString env (bidHash (mmLastBlock p))) txs v" and "uniqueTxs txs"
  shows "mmLastBlock p' = mmLastBlock p \<and> (\<exists>v'. mmInventory p' = Some v' \<and>
     (let txs' = (case r of NewTx addrs t \<Rightarrow> t # txs | _ \<Rightarrow> txs)
      in uniqueTxs txs' \<and> summarizes (meString env (bidHash (mmLastBlock p))) txs' v'))"
  using assms(1-3)
proof (cases rule: TxHandler_cases)
  case (same w)
  then have "(case r of NewTx addrs t \<Rightarrow> t # txs | _ \<Rightarrow> txs) = txs" by (cases r) auto
  then show ?thesis using same assms(4,5) by (simp add: summarizes_ident)
next
  case (added addrs t0 t c v' w)
  have S: "summarizes (meString env (bidHash (mmLastBlock p))) (t # txs)
       (storeTotals (meAmounts env) c t v')"
    by (rule switchTx_summarizes[OF _ added(5,7,4)]) (simp_all add: assms(4) summarizes_ident)
  have K: "mpHash t = mpHash t0" "mpType t = mpType t0" "isVote t \<longrightarrow> mpVoteInfo t \<noteq> None"
    using switchTx_kind[OF added(4)] by (auto simp: isVote_def)
  have r: "(mpType t0 = ''Regular'') = isRegular t"
    using added(5) K(2) by (auto simp: isRegular_def isTicket_def isVote_def isRevocation_def)
  have inventories: "miInvRegular v = mpHash ` set (filter isRegular txs)"
    "miInvStake v = mpHash ` set (filter (\<lambda>t. \<not> isRegular t) txs)"
    using assms(4) unfolding summarizes_def by blast+
  have "mpHash t \<notin> (if isRegular t then mpHash ` set (filter isRegular txs)
      else mpHash ` set (filter (\<lambda>t. \<not> isRegular t) txs))"
    using added(6) K(1) inventories unfolding r by (simp split: if_splits)
  then have "uniqueTxs (t # txs)" using assms(5) K(3) by (auto simp: uniqueTxs_def split: if_splits)
  then show ?thesis using added(1-3) S by simp
qed

subsection \<open>Histories of the monitor\<close>

text \<open>
  The monitors that a collection of the mempool and any sequence of new transactions and further
  collections lead to, with the transactions that are in the inventory: those of the last
  collection, sorted, and those accepted since then. A collection has each transaction once, and
  the votes with their choices.
\<close>

inductive monitorReach ::
  "('f::plus, 'c, 'x) monitorEnv \<Rightarrow> ('f, 'c, 'x) MempoolMonitor \<Rightarrow> ('f, 'c) mtxn list \<Rightarrow> bool" for env where
  collect: "uniqueTxs txs \<Longrightarrow> Refresh env (Inr (data, txs)) p = Ret (p', r)
     \<Longrightarrow> p = initialMonitor \<or> monitorReach env p txs0 \<Longrightarrow> monitorReach env p' (meSortTime env txs)"
| collectFailed: "monitorReach env p txs \<Longrightarrow> Refresh env (Inl e) p = Ret (p', r) \<Longrightarrow> monitorReach env p' txs"
| handle: "monitorReach env p txs \<Longrightarrow> TxHandler env raw p = Ret (p', r)
     \<Longrightarrow> monitorReach env p' (case r of NewTx addrs t \<Rightarrow> t # txs | _ \<Rightarrow> txs)"

lemma reach_summarizes:
  assumes "monitorReach env p txs" and "envOK env"
  shows "uniqueTxs txs \<and> (\<exists>v. mmInventory p = Some v
     \<and> summarizes (meString env (bidHash (mmLastBlock p))) txs v)"
  using assms(1)
proof induction
  case (collect txs data p p' r txs0)
  then show ?case using Refresh_summarizes[OF assms(2) collect(1,2)] by auto
next
  case (collectFailed p txs e p' r)
  then show ?case by (auto simp: Refresh_def)
next
  case (handle p txs raw p' r)
  then obtain v where v: "mmInventory p = Some v" "uniqueTxs txs"
    "summarizes (meString env (bidHash (mmLastBlock p))) txs v" by blast
  show ?case using TxHandler_summarizes[OF handle(2) v(1) assms(2) v(3,2)] by (auto simp: Let_def)
qed

text \<open>Two inventories of the same transactions, in whatever order; and two that also list them in the same order, but for the
  votes.\<close>

definition sameContents :: "('f, 'c) minventory \<Rightarrow> ('f, 'c) minventory \<Rightarrow> bool" where
  "sameContents v w \<longleftrightarrow>
     miInvRegular v = miInvRegular w \<and> miInvStake v = miInvStake w
   \<and> mset (miTransactions v) = mset (miTransactions w) \<and> mset (miTickets v) = mset (miTickets w)
   \<and> mset (miRevocations v) = mset (miRevocations w)
   \<and> mset (map mpHash (miVotes v)) = mset (map mpHash (miVotes w))
   \<and> miNumRegular v = miNumRegular w \<and> miNumTickets v = miNumTickets w
   \<and> miNumRevokes v = miNumRevokes w \<and> miNumVotes v = miNumVotes w \<and> miNumAll v = miNumAll w
   \<and> miTotalSize v = miTotalSize w
   \<and> lmCount (miLikelyMineable v) = lmCount (miLikelyMineable w)
   \<and> vgVotedTickets (miVotingInfo v) = vgVotedTickets (miVotingInfo w)
   \<and> vgTicketsVoted (miVotingInfo v) = vgTicketsVoted (miVotingInfo w)"

definition sameLists :: "('f, 'c) minventory \<Rightarrow> ('f, 'c) minventory \<Rightarrow> bool" where
  "sameLists v w \<longleftrightarrow> miTransactions v = miTransactions w \<and> miTickets v = miTickets w \<and> miRevocations v = miRevocations w
   \<and> map mpHash (miLatestTransactions v) = map mpHash (miLatestTransactions w)"

lemma summarizes_same: "summarizes tip txs v \<Longrightarrow> summarizes tip txs w \<Longrightarrow> sameLists v w"
  by (simp add: summarizes_def sameLists_def)

lemma summarizes_contents:
  assumes "mset ts = mset txs" and "summarizes tip txs v" and "summarizes tip ts w"
  shows "sameContents v w"
proof -
  have f: "mset (filter P ts) = mset (filter P txs)" for P using assms(1) by simp
  have "set (filter P ts) = set (filter P txs)" for P using f by (metis mset_eq_setD)
  moreover have "length (filter P ts) = length (filter P txs)" for P using f by (metis size_mset)
  moreover have "length ts = length txs" using assms(1) by (metis size_mset)
  moreover have "keysOf ts = keysOf txs" using mset_eq_setD[OF assms(1)] by (simp add: keysOf_def)
  moreover have "sum_list (map mpSize ts) = sum_list (map mpSize txs)" using assms(1) by (metis mset_map sum_mset_sum_list)
  moreover have "mset (map mpHash (filter isVote ts)) = mset (map mpHash (filter isVote txs))" using f by (metis mset_map)
  ultimately show ?thesis
    using assms(2,3) f by (simp add: summarizes_def sameContents_def votingOK_def mineable_def)
qed

text \<open>\<open>ParseTxns\<close> sorts the transactions first, if they are not sorted.\<close>

lemma ParseTxns_sorts:
  assumes "envOK env" and "uniqueTxs txs" and "us = (if sliceIsSorted txs then txs else meSortTime env txs)"
  shows "\<exists>v ts. ParseTxns env txs b = Ret (v, ts) \<and> summarizes (meString env (bidHash b)) us v
     \<and> map mpHash ts = map mpHash us \<and> mset us = mset txs"
proof -
  have us: "mset us = mset txs" "sliceIsSorted us" using assms(1,3) by (auto simp: envOK_def)
  then have "uniqueTxs us" using uniqueTxs_mset[OF us(1)] assms(2) by simp
  moreover have "ParseTxns env txs b = ParseTxns env us b"
    using us(2) assms(3) by (simp add: ParseTxns_def Let_def)
  ultimately show ?thesis using ParseTxns_summarizes[OF assms(1) _ us(2), of b] us(1) by simp
qed

text \<open>C29: the inventory that is kept up to date transaction by transaction is the one that is built
  from scratch. The mempool is taken to hold the transactions of the last successful collection and those that \<open>TxHandler\<close> has
  reported as new since then (it reports no vote on a block that is not known yet, and nothing that it drops). After any sequence of
  collections and new transactions, in whatever order they come, the inventory has the same sets of
  hashes, the same transactions, tickets and revocations, votes with the same hashes, and the same numbers and sizes as \<open>ParseTxns\<close> gives for
  these transactions, and the same tickets have voted. Each ticket counts once, and the number of votes in the
  tally of the last block is the number of tickets that voted. If the transactions arrived in the order of
  their times, the lists but for the votes, and the latest transactions, are also in the same order. (The sorting functions must sort, and no
  block hash may be printed as the empty string.)\<close>

theorem mempool_incremental:
  assumes "monitorReach env p txs" and "envOK env"
  shows "\<exists>v w ts. mmInventory p = Some v \<and> ParseTxns env txs (mmLastBlock p) = Ret (w, ts)
     \<and> sameContents v w \<and> mset (map mpHash ts) = mset (map mpHash txs)
     \<and> (sliceIsSorted txs \<longrightarrow> sameLists v w \<and> map mpHash ts = map mpHash txs)
     \<and> votingOK (meString env (bidHash (mmLastBlock p))) (keysOf txs) (miVotingInfo v)
     \<and> indsOK (keysOf txs) (miTicketIndexes v)"
proof -
  let ?tip = "meString env (bidHash (mmLastBlock p))"
  define us where "us = (if sliceIsSorted txs then txs else meSortTime env txs)"
  obtain v where v: "mmInventory p = Some v" "uniqueTxs txs" "summarizes ?tip txs v"
    using reach_summarizes[OF assms(1,2)] by blast
  obtain w ts where w: "ParseTxns env txs (mmLastBlock p) = Ret (w, ts)"
    "summarizes ?tip us w" "map mpHash ts = map mpHash us" "mset us = mset txs"
    using ParseTxns_sorts[OF assms(2) v(2) us_def] by blast
  have "sameContents v w" by (rule summarizes_contents[OF w(4) v(3) w(2)])
  moreover have "mset (map mpHash ts) = mset (map mpHash txs)" unfolding w(3) using w(4) by simp
  moreover have "sameLists v w \<and> map mpHash ts = map mpHash txs" if "sliceIsSorted txs"
    using that w(2,3) v(3) summarizes_same by (auto simp: us_def)
  moreover have "votingOK ?tip (keysOf txs) (miVotingInfo v)" "indsOK (keysOf txs) (miTicketIndexes v)"
    using v(3) by (simp_all add: summarizes_def)
  ultimately show ?thesis using v(1) w(1) by blast
qed

text \<open>A vote to apply it to: two votes of one ticket on the last block, and a ticket.\<close>

definition exVoteMsg :: "Hash \<Rightarrow> unit MsgTx" where
  "exVoteMsg h = \<lparr>mtTxIn = [\<lparr>tiPrevOut = \<lparr>opHash = 0, opIndex = 0, opTree = 0\<rparr>, tiValueIn = 0\<rparr>,
       \<lparr>tiPrevOut = \<lparr>opHash = 7, opIndex = 0, opTree = 1\<rparr>, tiValueIn = 0\<rparr>],
     mtTxOut = [], mtHash = h, mtType = TxTypeSSGen, mtSize = 300, mtRest = ()\<rparr>"

definition exMonEnv :: "(int, unit, unit) monitorEnv" where
  "exMonEnv = \<lparr>meAmounts = \<lparr>newAmount = word_of_int, toCoin = sint, humanBytes = (\<lambda>_. []), formatTime = (\<lambda>_. [])\<rparr>,
     meSortTime = sort_key (\<lambda>t. - mpTime t), meSortHeight = id, meString = (\<lambda>h. if h = 5 then ''five'' else ''hash''),
     meFromHex = (\<lambda>s. Some (exVoteMsg (of_nat (length s)))), meExtract = (\<lambda>_ _. None), meClient = (\<lambda>_. None),
     meVotes = \<lparr>vrIsSSGen = (\<lambda>_. True), vrVoteBits = (\<lambda>_. 1), vrBlockVotedOn = (\<lambda>_. (3, 10)),
       vrVersion = (\<lambda>_. 7), vrBlockValid = (\<lambda>b. b = 1)\<rparr>,
     meDeployments = (\<lambda>_. []), meIsCoinBase = (\<lambda>_. False), meTicketsPerBlock = 5\<rparr>"

definition exCollected :: "(int, unit) collected" where
  "exCollected = \<lparr>coLatestBlock = \<lparr>bidHash = 3, bidHeight = 10, bidTime = 100\<rparr>, coTime = 101,
     coFeeNumber = 0, coAddrOuts = Map.empty, coTxnsStore = Map.empty\<rparr>"

lemma sliceIsSorted_iff: "sliceIsSorted xs = sorted (map (\<lambda>t. - mpTime t) xs)"
  by (induction xs rule: sliceIsSorted.induct) (force simp: timeLess_def)+

lemma exMonEnv_ok: "envOK exMonEnv"
  by (simp add: envOK_def exMonEnv_def sliceIsSorted_iff)

definition exVote :: "unit VoteChoice VoteInfo" where
  "exVote = \<lparr>viValidation = \<lparr>valHash = ''hash'', valHeight = 10, valValidity = True\<rparr>,
     viVersion = 7, viBits = 1, viChoices = [], viTicketSpent = ''hash'', viMempoolTicketIndex = 0,
     viForLastBlock = True\<rparr>"

lemma exVote_info: "voteInfoOf exMonEnv ''hash'' (exVoteMsg h) = Ret (Some exVote)"
  by (simp add: voteInfoOf_def exMonEnv_def SSGenVoteChoices_def SSGenVoteBlockValid_def exVoteMsg_def
      go_index_def VotesOnBlock_def ForBlock_def exVote_def Let_def)

lemma exIndex: "indexTx exMonEnv (exVoteMsg h) store txns = Ret ({}, [0, 0], store, txns)"
  by (simp add: indexTx_def TxOutpointsByAddr_def TxPrevOutsByAddr_def exMonEnv_def exVoteMsg_def)

lemma exMon_simps:
  "meFromHex exMonEnv s = Some (exVoteMsg (of_nat (length s)))"
  "mtHash (exVoteMsg h) = h" "DetermineTxTypeString (exVoteMsg h) = ''Vote''"
  "meString exMonEnv 0 = ''hash''" "meString exMonEnv 3 = ''hash''"
  by (simp_all add: exMonEnv_def exVoteMsg_def DetermineTxTypeString_def)

lemma exHandle:
  assumes "mmInventory p = Some v" and "miInvStake v = {}" and "bidHash (mmLastBlock p) = 3"
    and "bidHeight (mmLastBlock p) = 10" and "bidTime (mmLastBlock p) = 100"
  shows "\<exists>p' i t. TxHandler exMonEnv \<lparr>rtHex = [], rtTime = 100\<rparr> p = Ret (p', NewTx {} t)
     \<and> isVote t \<and> mpVoteInfo t = Some (exVote\<lparr>viMempoolTicketIndex := i\<rparr>)"
proof -
  obtain us where us: "setValuesIn (mtTxIn (exVoteMsg 0)) [0, 0] = Some us" by (simp add: exVoteMsg_def)
  define raw where "raw = \<lparr>rtHex = [], rtTime = 100\<rparr>"
  define t0 where "t0 = newMempoolTx exMonEnv raw (exVoteMsg 0\<lparr>mtTxIn := us\<rparr>) (Some exVote)"
  define v1 where "v1 = v\<lparr>miIdent := miIdent v + 1\<rparr>"
  have t0: "mpType t0 = ''Vote''" "mpVoteInfo t0 = Some exVote"
    by (simp_all add: t0_def newMempoolTx_def Let_def DetermineTxTypeString_def exVoteMsg_def split: prod.split)
  obtain vi inds where s: "SetTicketIndex exVote (miTicketIndexes v1) = (vi, inds)" by fastforce
  then obtain i where vi: "vi = exVote\<lparr>viMempoolTicketIndex := i\<rparr>" using SetTicketIndex_fields by blast
  have h: "valHeight (viValidation exVote) = 10" by (simp add: exVote_def)
  obtain c v2 where sw: "switchTx 10 t0 v1 = Switched (t0\<lparr>mpVoteInfo := Some vi\<rparr>) c v2"
    by (cases "countVote vi (miVotingInfo v1)") (simp add: switchTx_def t0 h s Let_def)
  have raw: "rtHex raw = []" "rtTime raw = 100" by (simp_all add: raw_def)
  have "\<exists>p'. TxHandler exMonEnv raw p = Ret (p', NewTx {} (t0\<lparr>mpVoteInfo := Some vi\<rparr>))"
    using assms us sw
    by (simp add: TxHandler_def raw exMon_simps exIndex exVote_info Let_def
        t0_def[symmetric] v1_def[symmetric])
  then show ?thesis unfolding raw_def[symmetric] using t0(1) vi by (auto simp: isVote_def)
qed

theorem mempool_incremental_witness:
  "\<exists>p txs v. monitorReach exMonEnv p txs \<and> length txs = 1 \<and> mmInventory p = Some v
     \<and> votingOK ''hash'' {(''hash'', ''hash'')} (miVotingInfo v)"
proof -
  obtain p0 :: "(int, unit, unit) MempoolMonitor" and r0
    where p0: "Refresh exMonEnv (Inr (exCollected, [])) initialMonitor = Ret (p0, r0)"
    by (simp add: Refresh_def exMonEnv_def ParseTxns_def sortVotes_def initialMonitor_def
        parseStart_def Let_def)
  have sort: "meSortTime exMonEnv [] = []" by (simp add: exMonEnv_def)
  have reach0: "monitorReach exMonEnv p0 []"
    using monitorReach.collect[OF _ p0] unfolding sort by (simp add: uniqueTxs_def)
  have u: "uniqueTxs []" by (simp add: uniqueTxs_def)
  from Refresh_summarizes[OF exMonEnv_ok u p0] obtain v0 where
    v0: "mmInventory p0 = Some v0" "miInvStake v0 = {}" "mmLastBlock p0 = coLatestBlock exCollected"
    by (auto simp: summarizes_def sort)
  have b: "bidHash (mmLastBlock p0) = 3" "bidHeight (mmLastBlock p0) = 10" "bidTime (mmLastBlock p0) = 100"
    by (simp_all add: v0(3) exCollected_def)
  from exHandle[OF v0(1,2) b] obtain p1 i t where
    p1: "TxHandler exMonEnv \<lparr>rtHex = [], rtTime = 100\<rparr> p0 = Ret (p1, NewTx {} t)"
      "isVote t" "mpVoteInfo t = Some (exVote\<lparr>viMempoolTicketIndex := i\<rparr>)" by blast
  have reach1: "monitorReach exMonEnv p1 [t]" using monitorReach.handle[OF reach0 p1(1)] by simp
  have k: "keysOf [t] = {(''hash'', ''hash'')}" using p1(2,3) by (simp add: voteKey_def exVote_def)
  have lb: "mmLastBlock p1 = mmLastBlock p0"
    using TxHandler_cases[OF p1(1) v0(1) exMonEnv_ok] by metis
  from mempool_incremental[OF reach1 exMonEnv_ok] obtain v where
    "mmInventory p1 = Some v" "votingOK ''hash'' {(''hash'', ''hash'')} (miVotingInfo v)"
    unfolding k lb b exMon_simps by auto
  then show ?thesis using reach1 by (intro exI[of _ p1] exI[of _ "[t]"] exI[of _ v]) simp
qed

text \<open>
  A vote whose choices cannot be read has no vote information, and the handler dereferences it: it
  panics, with the locks held, where the collector logs the same transaction and goes on. And the
  number of new tickets since the last report that a collection returns is always zero, since
  nothing counts them.
\<close>

lemma switchTx_nil_vote: "mpType t = ''Vote'' \<Longrightarrow> mpVoteInfo t = None \<Longrightarrow> switchTx h t v = NilVote"
  by (simp add: switchTx_def)

lemma counter_zero:
  "monitorReach env p txs \<Longrightarrow> mcNumTicketsSinceStatsReport (mmMpoolInfo p) = 0"
proof (induction rule: monitorReach.induct)
  case (collect txs data p p' r txs0)
  then show ?case by (auto simp: Refresh_def Let_def split: go.splits)
next
  case (collectFailed p txs e p' r)
  then show ?case by (simp add: Refresh_def)
next
  case (handle p txs raw p' r)
  then show ?case
    by (auto simp: TxHandler_def Let_def split: if_splits option.splits go.splits switched.splits)
qed

text \<open>Missing transactions are stored and counted when an input refers to them.\<close>

lemma prevHashes_counts_missing:
  assumes "txns (poTxSpending po) = None" and "txns (opHash (poPreviousOutpoint po)) = None"
    and "poTxSpending po \<noteq> opHash (poPreviousOutpoint po)"
  shows "prevHashes txns [po] [] = [(opHash (poPreviousOutpoint po), None), (poTxSpending po, None)]"
  using assms by (simp add: addEntry_def)

end
