(* ===== verification/MempoolCache.thy ===== *)
theory MempoolCache
  imports Complex_Main MempoolMonitor
begin

text \<open>
  The fee data of the mempool: what the collector computes from the tickets (\<open>Collect\<close> of
  \<open>mempool/collector.go\<close>, after the RPC calls) and the cache that serves it
  (\<open>mempool/mempoolcache.go\<close>). \<open>'f\<close> is \<open>float64\<close>; the two sorting functions, which are not stable,
  are parameters, and so is the order of the map of tickets. Locks are left out.
\<close>

record 'f TicketDetails =
  tdHash :: string
  tdFee :: 'f
  tdFeeRate :: 'f
  tdSize :: int
  tdHeight :: int

record 'f FeeInfoMempool =
  fmNumber :: "32 word"
  fmMin :: 'f
  fmMax :: 'f
  fmMean :: 'f
  fmMedian :: 'f
  fmStdDev :: 'f

record 'f MinableFeeInfo =
  mfAllFees :: "'f list"
  mfAllFeeRates :: "'f list"
  mfLowestMineableIdx :: int
  mfLowestMineableFee :: 'f
  mfTargetFeeWindow :: "'f list"

record 'f StakeData =
  sdLatestBlock :: BlockID
  sdTime :: int
  sdNumTickets :: "32 word"
  sdNumVotes :: "32 word"
  sdNewTickets :: "32 word"
  sdTicketfees :: "'f FeeInfoMempool"
  sdMinableFees :: "'f MinableFeeInfo"
  sdAllTicketsDetails :: "'f TicketDetails list"
  sdStakeDiff :: 'f

subsection \<open>The fees of the tickets\<close>

record 'f feeEnv =
  feOfInt :: "int \<Rightarrow> 'f"
  feSortFee :: "'f TicketDetails list \<Rightarrow> 'f TicketDetails list"
  feSortRate :: "'f TicketDetails list \<Rightarrow> 'f TicketDetails list"

definition ticketDetails :: "('f::{inverse,times}) feeEnv \<Rightarrow> 'f mempoolResult \<Rightarrow> 'f TicketDetails" where
  "ticketDetails F r = \<lparr>tdHash = mrHash r, tdFee = mrFee r,
     tdFeeRate = mrFee r / feOfInt F (sint (mrSize r)) * feOfInt F 1000,
     tdSize = sint (mrSize r), tdHeight = mrHeight r\<rparr>"

text \<open>The index and the fee rate of the cheapest ticket that may be mined; \<open>None\<close> is the panic of an
  index out of range.\<close>

definition lowestMineable :: "('f::zero) list \<Rightarrow> int \<Rightarrow> (int \<times> 'f) option" where
  "lowestMineable rates nmax = (let n = int (length rates) in
     if nmax \<le> n then map_option (\<lambda>r. (n - nmax, r)) (go_index rates (n - nmax))
     else if n \<noteq> 0 then map_option (\<lambda>r. (0, r)) (go_index rates 0)
     else Some (-1, 0))"

definition feeRad :: int where
  "feeRad = 5"

definition feeWindow :: "'f list \<Rightarrow> int \<Rightarrow> 'f list option" where
  "feeWindow rates idx = (let n = int (length rates) in
     if 0 < n then
       (let lowEnd = (if idx - feeRad < 0 then 0 else idx - feeRad);
            highEnd = (if n < idx + feeRad + 1 then n else idx + feeRad + 1)
        in go_slice rates lowEnd highEnd)
     else Some [])"

definition minableFees :: "('f::{inverse,times,zero}) feeEnv \<Rightarrow> int \<Rightarrow> 'f mempoolResult list
    \<Rightarrow> ('f MinableFeeInfo \<times> 'f TicketDetails list) go" where
  "minableFees F nmax tickets =
     (let byFee = feSortFee F (map (ticketDetails F) tickets);
          allFees = map tdFee byFee;
          byRate = feSortRate F byFee;
          allFeeRates = map tdFeeRate byRate
      in case lowestMineable allFeeRates nmax of
           None \<Rightarrow> Panic
         | Some (idx, fee) \<Rightarrow> (case feeWindow allFeeRates idx of
             None \<Rightarrow> Panic
           | Some window \<Rightarrow> Ret (\<lparr>mfAllFees = allFees, mfAllFeeRates = allFeeRates,
               mfLowestMineableIdx = idx, mfLowestMineableFee = fee, mfTargetFeeWindow = window\<rparr>, byRate)))"

text \<open>What the RPC calls of \<open>Collect\<close> return, in the order in which they are made.\<close>

record 'f collectCalls =
  ccTickets :: "string + 'f mempoolResult list"
  ccVotes :: "string + 'f mempoolResult list"
  ccStakeDiff :: "string + 'f"
  ccBestBlock :: "string + Hash \<times> int"
  ccBlockTime :: "Hash \<Rightarrow> string + int"
  ccFeeInfo :: "string + 'f FeeInfoMempool"
  ccNow :: int

definition Collect :: "('f::{inverse,times,zero,plus}) feeEnv \<Rightarrow> int \<Rightarrow> 'f collectCalls
    \<Rightarrow> (string + ('f, 'c, 'x) txnsState) go
    \<Rightarrow> (string + 'f StakeData \<times> ('f, 'c, 'x) txnsState) go" where
  "Collect F nmax cc txns = (case ccTickets cc of Inl e \<Rightarrow> Ret (Inl e) | Inr tickets \<Rightarrow>
     (case ccVotes cc of Inl e \<Rightarrow> Ret (Inl e) | Inr votes \<Rightarrow>
     (case ccStakeDiff cc of Inl e \<Rightarrow> Ret (Inl e) | Inr diff \<Rightarrow>
     (case ccBestBlock cc of Inl e \<Rightarrow> Ret (Inl e) | Inr (hash, height) \<Rightarrow>
     (case ccBlockTime cc hash of Inl e \<Rightarrow> Ret (Inl e) | Inr blockTime \<Rightarrow>
     (case ccFeeInfo cc of Inl e \<Rightarrow> Ret (Inl e) | Inr feeInfo \<Rightarrow>
     (case txns of Panic \<Rightarrow> Panic | Ret (Inl e) \<Rightarrow> Ret (Inl e) | Ret (Inr allTxns) \<Rightarrow>
     (case minableFees F nmax tickets of Panic \<Rightarrow> Panic | Ret (fees, details) \<Rightarrow>
        Ret (Inr (\<lparr>sdLatestBlock = \<lparr>bidHash = hash, bidHeight = height, bidTime = blockTime\<rparr>,
          sdTime = ccNow cc, sdNumTickets = fmNumber feeInfo, sdNumVotes = of_nat (length votes),
          sdNewTickets = 0, sdTicketfees = feeInfo, sdMinableFees = fees,
          sdAllTicketsDetails = details, sdStakeDiff = diff\<rparr>, allTxns))))))))))"

subsection \<open>The cache\<close>

record ('f, 'c) MempoolDataCache =
  mdHeight :: "32 word"
  mdHash :: string
  mdTimestamp :: int
  mdTxns :: "('f, 'c) mtxn list"
  mdNumTickets :: "32 word"
  mdTicketFeeInfo :: "'f FeeInfoMempool"
  mdAllFees :: "'f list"
  mdAllFeeRates :: "'f list"
  mdLowestMineableByFeeRate :: 'f
  mdAllTicketsDetails :: "'f TicketDetails list"
  mdStakeDiff :: "64 word"

definition StoreMPData :: "('f \<Rightarrow> 64 word) \<Rightarrow> (Hash \<Rightarrow> string) \<Rightarrow> 'f StakeData \<Rightarrow> ('f, 'c) mtxn list
    \<Rightarrow> ('f, 'c) MempoolDataCache" where
  "StoreMPData amount hs sd txsCopy =
     \<lparr>mdHeight = word_of_int (bidHeight (sdLatestBlock sd)), mdHash = hs (bidHash (sdLatestBlock sd)),
      mdTimestamp = sdTime sd, mdTxns = txsCopy, mdNumTickets = sdNumTickets sd,
      mdTicketFeeInfo = sdTicketfees sd, mdAllFees = mfAllFees (sdMinableFees sd),
      mdAllFeeRates = mfAllFeeRates (sdMinableFees sd),
      mdLowestMineableByFeeRate = mfLowestMineableFee (sdMinableFees sd),
      mdAllTicketsDetails = sdAllTicketsDetails sd, mdStakeDiff = amount (sdStakeDiff sd)\<rparr>"

text \<open>The last \<open>N\<close> entries of an ascending slice: none for 0, all for a negative or too large \<open>N\<close>.\<close>

definition lastN :: "int \<Rightarrow> 'a list \<Rightarrow> 'a list option" where
  "lastN N xs = (let n = int (length xs) in
     if N = 0 then Some [] else if N < 0 \<or> n \<le> N then Some xs else go_slice xs (n - N) n)"

definition GetFees :: "('f, 'c) MempoolDataCache \<Rightarrow> int \<Rightarrow> (32 word \<times> int \<times> 'f list) option" where
  "GetFees c N = map_option (\<lambda>fees. (mdHeight c, int (length (mdAllFees c)), fees)) (lastN N (mdAllFees c))"

definition GetFeeRates :: "('f, 'c) MempoolDataCache \<Rightarrow> int \<Rightarrow> (32 word \<times> int \<times> int \<times> 'f list) option" where
  "GetFeeRates c N = map_option (\<lambda>fees. (mdHeight c, mdTimestamp c, int (length (mdAllFeeRates c)), fees))
     (lastN N (mdAllFeeRates c))"

definition GetTicketsDetails :: "('f, 'c) MempoolDataCache \<Rightarrow> int
    \<Rightarrow> (32 word \<times> int \<times> int \<times> 'f TicketDetails list) option" where
  "GetTicketsDetails c N = map_option
     (\<lambda>ds. (mdHeight c, mdTimestamp c, int (length (mdAllTicketsDetails c)), ds))
     (lastN N (mdAllTicketsDetails c))"

definition GetFeeInfoExtra :: "('f, 'c) MempoolDataCache \<Rightarrow> 32 word \<times> int \<times> 'f FeeInfoMempool \<times> 'f" where
  "GetFeeInfoExtra c = (mdHeight c, mdTimestamp c, mdTicketFeeInfo c, mdLowestMineableByFeeRate c)"

fun feeSum :: "('f::plus) list \<Rightarrow> int \<Rightarrow> nat \<Rightarrow> 'f \<Rightarrow> 'f option" where
  "feeSum fees i 0 acc = Some acc"
| "feeSum fees i (Suc k) acc = (case go_index fees (int (length fees) - i - 1) of
     None \<Rightarrow> None | Some f \<Rightarrow> feeSum fees (i + 1) k (acc + f))"

text \<open>The price, the number of tickets and the time.\<close>

definition GetTicketPriceCountTime ::
  "(int \<Rightarrow> 'f) \<Rightarrow> (64 word \<Rightarrow> 'f) \<Rightarrow> int \<Rightarrow> (('f::{plus,zero,inverse}), 'c) MempoolDataCache
   \<Rightarrow> ('f \<times> int \<times> int) option" where
  "GetTicketPriceCountTime ofInt coin feeAvgLength c =
     (let numFees = int (length (mdAllFees c));
          l = (if numFees < feeAvgLength then numFees else feeAvgLength)
      in case feeSum (mdAllFees c) 0 (nat l) 0 of
           None \<Rightarrow> None
         | Some s \<Rightarrow> Some (coin (mdStakeDiff c) + s / ofInt l, numFees, mdTimestamp c))"

subsection \<open>The fees that are served\<close>

lemma lastN_spec:
  "lastN N xs = Some (if N < 0 then xs else drop (length xs - nat N) xs)"
proof (cases "N \<le> 0 \<or> int (length xs) \<le> N")
  case True
  then show ?thesis by (auto simp: lastN_def Let_def)
next
  case False
  then have "nat (int (length xs) - N) = length xs - nat N" by (simp add: nat_diff_distrib')
  then show ?thesis using False by (simp add: lastN_def Let_def go_slice_def)
qed

lemma feeWindow_ok:
  assumes "0 \<le> idx" and "idx < int (length rates)"
  shows "\<exists>w. feeWindow rates idx = Some w \<and> rates ! nat idx \<in> set w \<and> length w \<le> 11"
proof -
  define lo where "lo = (if idx - feeRad < 0 then 0 else idx - feeRad)"
  define hi where "hi = (if int (length rates) < idx + feeRad + 1 then int (length rates) else idx + feeRad + 1)"
  have b: "0 \<le> lo" "lo \<le> idx" "idx < hi" "hi \<le> int (length rates)" "hi - lo \<le> 11"
    using assms by (auto simp: lo_def hi_def feeRad_def)
  let ?w = "take (nat (hi - lo)) (drop (nat lo) rates)"
  have "rates ! nat idx = ?w ! nat (idx - lo)" "nat (idx - lo) < length ?w"
    using b by (simp_all add: nat_diff_distrib')
  then have "rates ! nat idx \<in> set ?w" by (metis nth_mem)
  moreover have "feeWindow rates idx = Some ?w"
    unfolding feeWindow_def Let_def lo_def[symmetric] hi_def[symmetric] go_slice_def using b by simp
  moreover have "length ?w \<le> 11" using b(5) by simp
  ultimately show ?thesis by blast
qed

text \<open>with a positive number of tickets per block the fee computation never indexes out of range:
  the index that is returned is that of the cheapest of the tickets that fit into the next block,
  counted from the dearest, its fee rate is in the window around it, and the window has at most
  eleven entries. The accessors of the cache return the last \<open>N\<close> of the stored slices, which are
  the dearest when the slices are sorted, and never panic.\<close>

theorem minableFees_bounds:
  assumes "0 < nmax" and "\<And>xs. mset (feSortFee F xs) = mset xs" and "\<And>xs. mset (feSortRate F xs) = mset xs"
  shows "(\<exists>m ds. minableFees F nmax tickets = Ret (m, ds) \<and> length (mfAllFees m) = length tickets
      \<and> length (mfAllFeeRates m) = length tickets \<and> length (mfTargetFeeWindow m) \<le> 11
      \<and> (tickets \<noteq> [] \<longrightarrow> mfLowestMineableIdx m = int (length tickets - nat (min nmax (int (length tickets))))
           \<and> mfLowestMineableFee m = mfAllFeeRates m ! nat (mfLowestMineableIdx m)
           \<and> mfLowestMineableFee m \<in> set (mfTargetFeeWindow m)))
    \<and> GetFees c N = Some (mdHeight c, int (length (mdAllFees c)),
        if N < 0 then mdAllFees c else drop (length (mdAllFees c) - nat N) (mdAllFees c))"
proof
  define byFee where "byFee = feSortFee F (map (ticketDetails F) tickets)"
  define byRate where "byRate = feSortRate F byFee"
  define rates where "rates = map tdFeeRate byRate"
  have len: "length byFee = length tickets" "length byRate = length tickets" "length rates = length tickets"
    using assms(2,3) by (simp_all add: byFee_def byRate_def rates_def flip: size_mset)
  show "\<exists>m ds. minableFees F nmax tickets = Ret (m, ds) \<and> length (mfAllFees m) = length tickets
      \<and> length (mfAllFeeRates m) = length tickets \<and> length (mfTargetFeeWindow m) \<le> 11
      \<and> (tickets \<noteq> [] \<longrightarrow> mfLowestMineableIdx m = int (length tickets - nat (min nmax (int (length tickets))))
           \<and> mfLowestMineableFee m = mfAllFeeRates m ! nat (mfLowestMineableIdx m)
           \<and> mfLowestMineableFee m \<in> set (mfTargetFeeWindow m))"
  proof (cases "tickets = []")
    case True
    then have "rates = []" using len by simp
    then have l: "lowestMineable rates nmax = Some (-1, 0)" "feeWindow rates (-1) = Some []"
      using assms(1) by (simp_all add: lowestMineable_def feeWindow_def)
    show ?thesis
      unfolding minableFees_def Let_def byFee_def[symmetric] byRate_def[symmetric] rates_def[symmetric] l
      using True len l(2) by simp
  next
    case False
    define idx where "idx = int (length tickets - nat (min nmax (int (length tickets))))"
    have idx: "0 \<le> idx" "idx < int (length rates)" using assms(1) False len by (auto simp: idx_def)
    have low: "lowestMineable rates nmax = Some (idx, rates ! nat idx)"
      using assms(1) False len idx unfolding idx_def
      by (auto simp: lowestMineable_def Let_def go_index_def nat_diff_distrib' of_nat_diff min_def)
    obtain w where w: "feeWindow rates idx = Some w" "rates ! nat idx \<in> set w" "length w \<le> 11"
      using feeWindow_ok[OF idx] by blast
    have "minableFees F nmax tickets = Ret (\<lparr>mfAllFees = map tdFee byFee, mfAllFeeRates = rates,
        mfLowestMineableIdx = idx, mfLowestMineableFee = rates ! nat idx, mfTargetFeeWindow = w\<rparr>, byRate)"
      unfolding minableFees_def Let_def byFee_def[symmetric] byRate_def[symmetric] rates_def[symmetric]
        low by (simp add: w(1))
    then show ?thesis using len w by (simp add: idx_def)
  qed
  show "GetFees c N = Some (mdHeight c, int (length (mdAllFees c)),
        if N < 0 then mdAllFees c else drop (length (mdAllFees c) - nat N) (mdAllFees c))"
    by (simp add: GetFees_def lastN_spec)
qed

definition exFee :: "rat feeEnv" where
  "exFee = \<lparr>feOfInt = of_int, feSortFee = sort_key tdFee, feSortRate = sort_key tdFeeRate\<rparr>"

definition exTicket :: "rat \<Rightarrow> rat mempoolResult" where
  "exTicket f = \<lparr>mrHash = ''t'', mrFee = f, mrSize = 500, mrTime = 1, mrHeight = 9\<rparr>"

theorem minableFees_bounds_witness:
  "\<exists>m ds. minableFees exFee 1 [exTicket 3, exTicket 2] = Ret (m, ds)
     \<and> mfLowestMineableIdx m = 1 \<and> mfLowestMineableFee m \<in> set (mfTargetFeeWindow m)"
proof -
  have "mset (feSortFee exFee xs) = mset xs" "mset (feSortRate exFee xs) = mset xs" for xs
    by (simp_all add: exFee_def)
  from conjunct1[OF minableFees_bounds[OF _ this, of 1 "[exTicket 3, exTicket 2]"]] obtain m ds where
    "minableFees exFee 1 [exTicket 3, exTicket 2] = Ret (m, ds)" "mfLowestMineableIdx m = 1"
    "mfLowestMineableFee m \<in> set (mfTargetFeeWindow m)" by auto
  then show ?thesis by (intro exI[of _ m] exI[of _ ds]) simp
qed

text \<open>
  Without tickets the average fee is the quotient of zero by zero, which is no number in Go, so the
  price that is served is no number either.
\<close>

lemma price_without_tickets:
  "mdAllFees c = [] \<Longrightarrow> 0 \<le> n \<Longrightarrow>
   GetTicketPriceCountTime ofInt coin n c = Some (coin (mdStakeDiff c) + 0 / ofInt 0, 0, mdTimestamp c)"
  by (simp add: GetTicketPriceCountTime_def Let_def)

end
