(* ===== verification/PubSubTypes.thy ===== *)
theory PubSubTypes
  imports Decimal
begin

text \<open>
  The messages between the websocket hub of the server, its connections and the clients
  (\<open>pubsub/types/pubsub_types.go\<close>): the signals with their event ids, the hub messages and the
  parser of a subscription request. The payload of a message is an interface value in Go; here it is
  one of the three types that are asserted, a nil interface, or something else. A pointer is an
  option. Transactions are a type variable. The check of base58 is a parameter.
\<close>

subsection \<open>Signals\<close>

datatype HubSignal =
    SigSubscribe | SigUnsubscribe | SigDecodeTx | SigGetMempoolTxs | SigSendTx | SigVersion
  | SigNewBlock | SigMempoolUpdate | SigPingAndUserCount | SigNewTx | SigNewTxs | SigAddressTx
  | SigSyncStatus | SigByeNow | SigUnknown | SigOther int

definition Subscriptions :: "string \<rightharpoonup> HubSignal" where
  "Subscriptions = map_of
     [(''newblock'', SigNewBlock), (''mempool'', SigMempoolUpdate), (''ping'', SigPingAndUserCount),
      (''newtxs'', SigNewTxs), (''address'', SigAddressTx), (''blockchainSync'', SigSyncStatus)]"

fun eventIDs :: "HubSignal \<Rightarrow> string option" where
  "eventIDs SigSubscribe = Some ''subscribe''"
| "eventIDs SigUnsubscribe = Some ''unsubscribe''"
| "eventIDs SigDecodeTx = Some ''decodetx''"
| "eventIDs SigGetMempoolTxs = Some ''getmempooltxs''"
| "eventIDs SigSendTx = Some ''sendtx''"
| "eventIDs SigVersion = Some ''getversion''"
| "eventIDs SigNewBlock = Some ''newblock''"
| "eventIDs SigMempoolUpdate = Some ''mempool''"
| "eventIDs SigPingAndUserCount = Some ''ping''"
| "eventIDs SigNewTx = Some ''newtx''"
| "eventIDs SigNewTxs = Some ''newtxs''"
| "eventIDs SigAddressTx = Some ''address''"
| "eventIDs SigSyncStatus = Some ''blockchainSync''"
| "eventIDs SigByeNow = Some ''bye''"
| "eventIDs SigUnknown = Some ''unknown''"
| "eventIDs (SigOther n) = None"

definition signalString :: "HubSignal \<Rightarrow> string" where
  "signalString s = (case eventIDs s of None \<Rightarrow> ''invalid'' | Some str \<Rightarrow> str)"

definition signalIsValid :: "HubSignal \<Rightarrow> bool" where
  "signalIsValid s = (eventIDs s \<noteq> None)"

subsection \<open>Messages\<close>

record AddressMessage =
  amAddress :: string
  amTxHash :: string

definition addressMessageString :: "AddressMessage \<Rightarrow> string" where
  "addressMessageString am = amAddress am @ '':'' @ amTxHash am"

datatype 't payload =
  MsgNil | MsgAddr "AddressMessage option" | MsgTx "'t option" | MsgTxs "'t list" | MsgOther

record 't HubMessage =
  hmSignal :: HubSignal
  hmMsg :: "'t payload"

definition messageIsValid :: "'t HubMessage \<Rightarrow> bool" where
  "messageIsValid m = (if eventIDs (hmSignal m) = None then False
     else if hmSignal m = SigAddressTx then (case hmMsg m of MsgAddr a \<Rightarrow> True | _ \<Rightarrow> False)
     else if hmSignal m = SigNewTx then (case hmMsg m of MsgTx t \<Rightarrow> True | _ \<Rightarrow> False)
     else if hmSignal m = SigNewTxs then (case hmMsg m of MsgTxs ts \<Rightarrow> True | _ \<Rightarrow> False)
     else True)"

text \<open>The text of a message; a nil pointer in a valid message is dereferenced.\<close>

definition messageString :: "('t \<Rightarrow> string) \<Rightarrow> 't HubMessage \<Rightarrow> string go" where
  "messageString txHash m = (if \<not> messageIsValid m then Ret ''invalid''
     else let sigStr = signalString (hmSignal m) in
       if hmSignal m = SigAddressTx then
         (case hmMsg m of MsgAddr (Some am) \<Rightarrow> Ret (sigStr @ '':'' @ addressMessageString am) | _ \<Rightarrow> Panic)
       else if hmSignal m = SigNewTx then
         (case hmMsg m of MsgTx (Some tx) \<Rightarrow> Ret (sigStr @ '':'' @ txHash tx) | _ \<Rightarrow> Panic)
       else if hmSignal m = SigNewTxs then
         (case hmMsg m of MsgTxs txs \<Rightarrow> Ret (sigStr @ '':len='' @ showInt (int (length txs))) | _ \<Rightarrow> Panic)
       else Ret sigStr)"

record RequestMessage =
  rqRequestId :: "64 word"
  rqMessage :: string

record ResponseMessage =
  rmSuccess :: bool
  rmRequestEventId :: string
  rmRequestId :: "64 word"
  rmData :: string

subsection \<open>The parser of a subscription\<close>

text \<open>The text before the first colon, and what follows it.\<close>

definition splitEvent :: "string \<Rightarrow> string \<times> string" where
  "splitEvent event = (takeWhile (\<lambda>c. c \<noteq> CHR '':'') event,
     case dropWhile (\<lambda>c. c \<noteq> CHR '':'') event of [] \<Rightarrow> [] | _ # r \<Rightarrow> r)"

definition ValidateSubscription :: "(string \<Rightarrow> bool) \<Rightarrow> string \<Rightarrow> HubSignal \<times> 't payload \<times> bool" where
  "ValidateSubscription checkDecode event = (let (sig, msgStr) = splitEvent event in
     case Subscriptions sig of
       None \<Rightarrow> (SigUnknown, MsgNil, False)
     | Some sub \<Rightarrow>
         if sub = SigAddressTx then
           (if checkDecode msgStr
            then (sub, MsgAddr (Some \<lparr>amAddress = msgStr, amTxHash = ''''\<rparr>), True)
            else (SigUnknown, MsgNil, False))
         else if msgStr \<noteq> [] then (SigUnknown, MsgNil, False)
         else (sub, MsgNil, True))"

subsection \<open>Facts\<close>

lemma Subscriptions_cases:
  assumes "Subscriptions s = Some sub"
  obtains "s = ''newblock''" "sub = SigNewBlock" | "s = ''mempool''" "sub = SigMempoolUpdate"
  | "s = ''ping''" "sub = SigPingAndUserCount" | "s = ''newtxs''" "sub = SigNewTxs"
  | "s = ''address''" "sub = SigAddressTx" | "s = ''blockchainSync''" "sub = SigSyncStatus"
  using assms by (auto simp: Subscriptions_def split: if_splits)

lemma Subscriptions_eventID: "Subscriptions s = Some sub \<Longrightarrow> eventIDs sub = Some s"
  by (erule Subscriptions_cases) simp_all

text \<open>The signals that a connection can hold a subscription for.\<close>

definition subscribable :: "HubSignal set" where
  "subscribable = {SigNewBlock, SigMempoolUpdate, SigNewTxs, SigAddressTx, SigSyncStatus}"

lemma Subscriptions_range: "Subscriptions s = Some sub \<Longrightarrow> sub \<in> insert SigPingAndUserCount subscribable"
  by (erule Subscriptions_cases) (simp_all add: subscribable_def)

lemma Validate_eq:
  assumes "splitEvent e = (s, r)" and "Subscriptions s = Some sb"
  shows "(ValidateSubscription chk e :: HubSignal \<times> 't payload \<times> bool) =
    (if sb = SigAddressTx then
       (if chk r then (sb, MsgAddr (Some \<lparr>amAddress = r, amTxHash = ''''\<rparr>), True) else (SigUnknown, MsgNil, False))
     else if r \<noteq> [] then (SigUnknown, MsgNil, False) else (sb, MsgNil, True))"
  by (simp add: ValidateSubscription_def assms)

lemma Validate_known:
  assumes "ValidateSubscription chk e = (sub, msg :: 't payload, True)" and "splitEvent e = (s, r)"
  shows "Subscriptions s = Some sub"
proof (cases "Subscriptions s")
  case None
  then show ?thesis using assms by (simp add: ValidateSubscription_def)
next
  case (Some sb)
  then show ?thesis using assms(1) Validate_eq[OF assms(2) Some, of chk, where 't = 't]
    by (simp split: if_splits)
qed

lemma Validate_cases:
  assumes "ValidateSubscription chk e = (sub, msg :: 't payload, True)"
  shows "(sub \<in> subscribable - {SigAddressTx} \<and> msg = MsgNil) \<or> (sub = SigPingAndUserCount \<and> msg = MsgNil)
         \<or> (\<exists>a. sub = SigAddressTx \<and> msg = MsgAddr (Some \<lparr>amAddress = a, amTxHash = ''''\<rparr>) \<and> chk a)"
proof -
  obtain s r where e: "splitEvent e = (s, r)" by force
  have sb: "Subscriptions s = Some sub" using Validate_known[OF assms e] .
  show ?thesis
    using assms Validate_eq[OF e sb, of chk, where 't = 't] Subscriptions_range[OF sb]
    by (cases "sub = SigAddressTx") (auto split: if_splits)
qed

lemma Validate_messageIsValid:
  assumes "ValidateSubscription chk e = (sub, msg :: 't payload, True)" and "sub \<noteq> SigNewTxs"
  shows "messageIsValid \<lparr>hmSignal = sub, hmMsg = msg\<rparr>"
  using Validate_cases[OF assms(1)] assms(2) by (auto simp: messageIsValid_def subscribable_def)

lemma splitEvent_plain: "CHR '':'' \<notin> set e \<Longrightarrow> splitEvent e = (e, [])"
proof -
  assume a: "CHR '':'' \<notin> set e"
  then have t: "takeWhile (\<lambda>c. c \<noteq> CHR '':'') e = e" "dropWhile (\<lambda>c. c \<noteq> CHR '':'') e = []"
    by (auto simp: takeWhile_eq_all_conv dropWhile_eq_Nil_conv)
  show ?thesis by (simp add: splitEvent_def t del: dropWhile_eq_Nil_conv takeWhile_eq_all_conv)
qed

lemma splitEvent_colon:
  "CHR '':'' \<notin> set e \<Longrightarrow> splitEvent (e @ CHR '':'' # r) = (e, r)"
proof -
  assume "CHR '':'' \<notin> set e"
  then have "\<forall>x\<in>set e. x \<noteq> CHR '':''" by auto
  then show ?thesis by (simp add: splitEvent_def takeWhile_append2 dropWhile_append2)
qed

lemma splitEvent_cases:
  assumes "splitEvent e = (s, r)"
  shows "e = s \<and> r = [] \<or> e = s @ CHR '':'' # r"
proof (cases "CHR '':'' \<in> set e")
  case True
  then obtain u v where uv: "e = u @ CHR '':'' # v" "CHR '':'' \<notin> set u" by (meson split_list_first)
  show ?thesis using assms splitEvent_colon[OF uv(2), of v] uv(1) by simp
next
  case False
  then show ?thesis using assms splitEvent_plain[OF False] by simp
qed

text \<open>every signal that can be subscribed to is obtained from its event id, an address signal from the
  event id, a colon and a valid address, and from nothing else but the event id with a colon after it.\<close>

theorem ValidateSubscription_inverts:
  fixes p :: "'t payload"
  assumes "\<not> chk ''''"
  shows "ValidateSubscription chk e = (sub, p, True) \<longleftrightarrow>
    (if sub = SigAddressTx
     then \<exists>a. e = signalString sub @ '':'' @ a \<and> chk a \<and> p = MsgAddr (Some \<lparr>amAddress = a, amTxHash = ''''\<rparr>)
     else sub \<in> insert SigPingAndUserCount subscribable \<and> p = MsgNil
          \<and> (e = signalString sub \<or> e = signalString sub @ '':''))"
proof
  assume v: "ValidateSubscription chk e = (sub, p, True)"
  obtain s r where er: "splitEvent e = (s, r)" by force
  have e_cases: "e = s \<and> r = [] \<or> e = s @ CHR '':'' # r" by (rule splitEvent_cases[OF er])
  have sb: "Subscriptions s = Some sub" using Validate_known[OF v er] .
  have s: "signalString sub = s" using Subscriptions_eventID[OF sb] by (simp add: signalString_def)
  note ve = v[unfolded Validate_eq[OF er sb]]
  show "if sub = SigAddressTx
     then \<exists>a. e = signalString sub @ '':'' @ a \<and> chk a \<and> p = MsgAddr (Some \<lparr>amAddress = a, amTxHash = ''''\<rparr>)
     else sub \<in> insert SigPingAndUserCount subscribable \<and> p = MsgNil
          \<and> (e = signalString sub \<or> e = signalString sub @ '':'')"
  proof (cases "sub = SigAddressTx")
    case True
    then have "chk r" "p = MsgAddr (Some \<lparr>amAddress = r, amTxHash = ''''\<rparr>)"
      using ve by (auto split: if_splits)
    then show ?thesis using e_cases s True assms by auto
  next
    case False
    then have "r = []" "p = MsgNil" using ve by (auto split: if_splits)
    then show ?thesis using e_cases s False Subscriptions_range[OF sb] by auto
  qed
next
  assume r: "if sub = SigAddressTx
     then \<exists>a. e = signalString sub @ '':'' @ a \<and> chk a \<and> p = MsgAddr (Some \<lparr>amAddress = a, amTxHash = ''''\<rparr>)
     else sub \<in> insert SigPingAndUserCount subscribable \<and> p = MsgNil
          \<and> (e = signalString sub \<or> e = signalString sub @ '':'')"
  show "ValidateSubscription chk e = (sub, p, True)"
  proof (cases "sub = SigAddressTx")
    case True
    then obtain a where a: "e = ''address'' @ CHR '':'' # a" "chk a"
        "p = MsgAddr (Some \<lparr>amAddress = a, amTxHash = ''''\<rparr>)" using r by (auto simp: signalString_def)
    have "splitEvent e = (''address'', a)" unfolding a(1) by (rule splitEvent_colon) simp
    then show ?thesis using True a(2,3)
      by (simp add: ValidateSubscription_def Subscriptions_def)
  next
    case False
    then have r': "sub \<in> insert SigPingAndUserCount subscribable" "p = MsgNil"
        "e = signalString sub \<or> e = signalString sub @ '':''" using r by auto
    have "Subscriptions (signalString sub) = Some sub" and nc: "CHR '':'' \<notin> set (signalString sub)"
      using r'(1) False by (auto simp: subscribable_def signalString_def Subscriptions_def)
    moreover have "splitEvent e = (signalString sub, [])"
      using r'(3) splitEvent_plain[OF nc] splitEvent_colon[OF nc, of "[]"] by auto
    ultimately show ?thesis using False r'(2) Validate_eq by fastforce
  qed
qed

theorem ValidateSubscription_inverts_witness:
  "ValidateSubscription (\<lambda>a. a = ''DsX'') ''address:DsX'' =
     (SigAddressTx, MsgAddr (Some \<lparr>amAddress = ''DsX'', amTxHash = ''''\<rparr>) :: nat payload, True)"
  using ValidateSubscription_inverts[of "\<lambda>a. a = ''DsX''" "''address:DsX''" SigAddressTx
      "MsgAddr (Some \<lparr>amAddress = ''DsX'', amTxHash = ''''\<rparr>) :: nat payload"]
  by (simp add: signalString_def)

end
