(* ===== verification/PubSubHub.thy ===== *)
theory PubSubHub
  imports PubSubTypes
begin

text \<open>
  The websocket hub of the publish and subscribe server (\<open>pubsub/websocket.go\<close>) with its connections
  (\<open>pubsub/pubsubhub.go\<close>): subscriptions, the transaction buffer of each client, the cases of the event
  loop \<open>Run\<close>, and the send and receive loops of a connection, one message at a time. Pointers to
  clients and channels are shared in Go; here the hub holds the connections by number, and the
  map of registered clients is the list of its keys. A case of the event loop is one step: the loops of the
  connections run between the cases and not while the hub waits, for at most five seconds, for room in a full channel.
\<close>

subsection \<open>Clients\<close>

record 't client =
  clID :: nat
  clSubs :: "HubSignal set"
  clAddrs :: "string set"
  clKilled :: bool
  clNewTxs :: "'t list"

definition NewTxBufferSize :: nat where
  "NewTxBufferSize = 5"

definition newClient :: "nat \<Rightarrow> 't client" where
  "newClient i = \<lparr>clID = i, clSubs = {}, clAddrs = {}, clKilled = False, clNewTxs = []\<rparr>"

definition isSubscribed :: "'t client \<Rightarrow> 't HubMessage \<Rightarrow> bool go" where
  "isSubscribed c msg =
     (if hmSignal msg \<notin> clSubs c then Ret False
      else if hmSignal msg = SigAddressTx then
        (case hmMsg msg of
           MsgAddr None \<Rightarrow> Panic
         | MsgAddr (Some am) \<Rightarrow> Ret (amAddress am \<in> clAddrs c)
         | _ \<Rightarrow> Ret False)
      else Ret True)"

text \<open>The result with the error, if any.\<close>

definition subscribe :: "'t client \<Rightarrow> 't HubMessage \<Rightarrow> ('t client \<times> bool \<times> string option) go" where
  "subscribe c msg =
     (if hmSignal msg = SigAddressTx then
        (case hmMsg msg of
           MsgAddr None \<Rightarrow> Panic
         | MsgAddr (Some am) \<Rightarrow>
             Ret (c\<lparr>clAddrs := insert (amAddress am) (clAddrs c), clSubs := insert (hmSignal msg) (clSubs c)\<rparr>,
                  True, None)
         | _ \<Rightarrow> Ret (c, False, Some ''msg.Msg not a string (SigAddressTx)''))
      else if hmSignal msg \<in> {SigPingAndUserCount, SigByeNow, SigDecodeTx, SigSendTx, SigSubscribe, SigUnsubscribe}
      then Ret (c, False, None)
      else Ret (c\<lparr>clSubs := insert (hmSignal msg) (clSubs c)\<rparr>, True, None))"

definition unsubscribe :: "'t client \<Rightarrow> 't HubMessage \<Rightarrow> ('t client \<times> string option) go" where
  "unsubscribe c msg =
     (if hmSignal msg = SigAddressTx then
        (case hmMsg msg of
           MsgAddr None \<Rightarrow> Panic
         | MsgAddr (Some am) \<Rightarrow>
             (let addrs = clAddrs c - {amAddress am} in
              Ret (c\<lparr>clAddrs := addrs,
                     clSubs := (if addrs = {} then clSubs c - {SigAddressTx} else clSubs c)\<rparr>, None))
         | _ \<Rightarrow> Ret (c, Some ''msg.Msg not an AddressMessage (SigAddressTx)''))
      else Ret (c\<lparr>clSubs := clSubs c - {hmSignal msg}\<rparr>, None))"

definition unsubscribeAll :: "'t client \<Rightarrow> 't client" where
  "unsubscribeAll c = c\<lparr>clSubs := {}, clAddrs := {}\<rparr>"

text \<open>The client with the transaction in its buffer, and whether the buffer is ready to be sent.\<close>

definition addTx :: "'t \<Rightarrow> 't client \<Rightarrow> 't client \<times> bool" where
  "addTx tx c = (let t = clNewTxs c @ [tx] in (c\<lparr>clNewTxs := t\<rparr>, NewTxBufferSize \<le> length t))"

subsection \<open>Connections and the hub\<close>

text \<open>What the send loop writes to the websocket: the event id and the content of the message. \<open>PEmpty\<close> is a
  message without content.\<close>

datatype ('t, 'b, 'm) pushed =
  PAddr AddressMessage | PBlock 'b | PMempool 'm | PCount int | PTxs "'t list" | PBye | PEmpty

text \<open>What became of a batch of transactions that the send loop took from the buffer.\<close>

datatype taking = Written | NotEncoded | NotSent

text \<open>A connection: the client, the messages in its channel, whether the channel is closed, what was written
  to the websocket, the batches taken from the buffer, and whether the send loop has returned.\<close>

record ('t, 'b, 'm) connection =
  cnClient :: "'t client"
  cnSpoke :: "'t HubMessage list"
  cnClosed :: bool
  cnPushed :: "(string \<times> ('t, 'b, 'm) pushed) list"
  cnTaken :: "('t list \<times> taking) list"
  cnSendDone :: bool

definition tickerSigReset :: int where "tickerSigReset = 1"
definition tickerSigStop :: int where "tickerSigStop = 2"

record ('t, 'b, 'm) WebsocketHub =
  wsClients :: "nat list"
  wsNumClients :: int
  wsTicker :: "int list"
  wsTimeToSend :: bool
  wsReady :: bool
  wsConns :: "nat \<Rightarrow> ('t, 'b, 'm) connection"
  wsNext :: nat

definition newConnection :: "nat \<Rightarrow> ('t, 'b, 'm) connection" where
  "newConnection i = \<lparr>cnClient = newClient i, cnSpoke = [], cnClosed = False, cnPushed = [], cnTaken = [], cnSendDone = False\<rparr>"

definition NewWebsocketHub :: "('t, 'b, 'm) WebsocketHub" where
  "NewWebsocketHub = \<lparr>wsClients = [], wsNumClients = 0, wsTicker = [], wsTimeToSend = False, wsReady = False,
     wsConns = newConnection, wsNext = 0\<rparr>"

definition mapConn :: "nat \<Rightarrow> (('t, 'b, 'm) connection \<Rightarrow> ('t, 'b, 'm) connection)
    \<Rightarrow> ('t, 'b, 'm) WebsocketHub \<Rightarrow> ('t, 'b, 'm) WebsocketHub" where
  "mapConn c f h = h\<lparr>wsConns := (wsConns h)(c := f (wsConns h c))\<rparr>"

definition mapClient :: "nat \<Rightarrow> ('t client \<Rightarrow> 't client)
    \<Rightarrow> ('t, 'b, 'm) WebsocketHub \<Rightarrow> ('t, 'b, 'm) WebsocketHub" where
  "mapClient c f = mapConn c (\<lambda>cn. cn\<lparr>cnClient := f (cnClient cn)\<rparr>)"

definition setNumClients :: "('t, 'b, 'm) WebsocketHub \<Rightarrow> ('t, 'b, 'm) WebsocketHub" where
  "setNumClients h = h\<lparr>wsNumClients := int (length (wsClients h))\<rparr>"

text \<open>A new connection gets the next number; the loop registers it.\<close>

definition NewClientHubSpoke :: "('t, 'b, 'm) WebsocketHub \<Rightarrow> nat \<times> ('t, 'b, 'm) WebsocketHub" where
  "NewClientHubSpoke h = (wsNext h,
     h\<lparr>wsConns := (wsConns h)(wsNext h := newConnection (wsNext h)), wsNext := wsNext h + 1\<rparr>)"

definition registerClient :: "nat \<Rightarrow> ('t, 'b, 'm) WebsocketHub \<Rightarrow> ('t, 'b, 'm) WebsocketHub" where
  "registerClient c h = setNumClients (h\<lparr>wsClients := c # wsClients h\<rparr>)"

text \<open>The channel of a known client is closed, which ends its send loop after the messages in it.\<close>

definition unregisterClient :: "nat \<Rightarrow> ('t, 'b, 'm) WebsocketHub \<Rightarrow> ('t, 'b, 'm) WebsocketHub" where
  "unregisterClient c h =
     (if c \<notin> set (wsClients h) then h
      else mapConn c (\<lambda>cn. cn\<lparr>cnClosed := True\<rparr>)
             (setNumClients (h\<lparr>wsClients := removeAll c (wsClients h)\<rparr>)))"

definition unregisterAllClients :: "('t, 'b, 'm) WebsocketHub \<Rightarrow> ('t, 'b, 'm) WebsocketHub" where
  "unregisterAllClients h = h\<lparr>wsClients := [], wsNumClients := 0,
     wsConns := (\<lambda>c. if c \<in> set (wsClients h) then (wsConns h c)\<lparr>cnClosed := True\<rparr> else wsConns h c)\<rparr>"

subsection \<open>The event loop\<close>

text \<open>The three cases of the \<open>select\<close> in \<open>sendMsg\<close>: which of them runs depends on the connection
  and the time, so it is an argument.\<close>

datatype outcome = Gone | Sent | TimedOut

definition sendMsg :: "outcome \<Rightarrow> nat \<Rightarrow> 't HubMessage \<Rightarrow> ('t, 'b, 'm) WebsocketHub \<Rightarrow> ('t, 'b, 'm) WebsocketHub" where
  "sendMsg res c msg h = (case res of
     Gone \<Rightarrow> unregisterClient c h
   | Sent \<Rightarrow> mapConn c (\<lambda>cn. cn\<lparr>cnSpoke := cnSpoke cn @ [msg]\<rparr>) h
   | TimedOut \<Rightarrow> h)"

fun sendToAll :: "(nat \<Rightarrow> outcome) \<Rightarrow> 't HubMessage \<Rightarrow> nat list \<Rightarrow> ('t, 'b, 'm) WebsocketHub \<Rightarrow> ('t, 'b, 'm) WebsocketHub" where
  "sendToAll res msg [] h = h"
| "sendToAll res msg (c # cs) h = sendToAll res msg cs (sendMsg (res c) c msg h)"

fun sendToSubscribed :: "(nat \<Rightarrow> outcome) \<Rightarrow> 't HubMessage \<Rightarrow> nat list \<Rightarrow> ('t, 'b, 'm) WebsocketHub
    \<Rightarrow> ('t, 'b, 'm) WebsocketHub go" where
  "sendToSubscribed res msg [] h = Ret h"
| "sendToSubscribed res msg (c # cs) h = (case isSubscribed (cnClient (wsConns h c)) msg of
     Panic \<Rightarrow> Panic
   | Ret False \<Rightarrow> sendToSubscribed res msg cs h
   | Ret True \<Rightarrow> sendToSubscribed res msg cs (sendMsg (res c) c msg h))"

text \<open>Every client gets the transaction; the result is that of the client visited last.\<close>

fun addTxToBuffers :: "'t \<Rightarrow> nat list \<Rightarrow> bool \<Rightarrow> ('t, 'b, 'm) WebsocketHub \<Rightarrow> ('t, 'b, 'm) WebsocketHub \<times> bool" where
  "addTxToBuffers tx [] ready h = (h, ready)"
| "addTxToBuffers tx (c # cs) ready h =
     addTxToBuffers tx cs (snd (addTx tx (cnClient (wsConns h c)))) (mapClient c (\<lambda>cl. fst (addTx tx cl)) h)"

definition maybeSendTxns :: "nat list \<Rightarrow> 't \<Rightarrow> ('t, 'b, 'm) WebsocketHub \<Rightarrow> ('t, 'b, 'm) WebsocketHub \<times> bool" where
  "maybeSendTxns order tx h = (let (h', ready) = addTxToBuffers tx order False h in
     if ready then (h'\<lparr>wsTicker := wsTicker h' @ [tickerSigReset]\<rparr>, True) else (h', False))"

definition broadcast :: "(nat \<Rightarrow> outcome) \<Rightarrow> nat list \<Rightarrow> 't HubMessage \<Rightarrow> ('t, 'b, 'm) WebsocketHub \<Rightarrow> ('t, 'b, 'm) WebsocketHub go" where
  "broadcast res order msg h = (case sendToSubscribed res msg order h of
     Panic \<Rightarrow> Panic
   | Ret h' \<Rightarrow> Ret (if hmSignal msg = SigNewTxs then h'\<lparr>wsTimeToSend := False\<rparr> else h'))"

text \<open>
  The case \<open>HubRelay\<close> of the loop. Both loops over the map of clients run in some order, given by
  \<open>order1\<close> and \<open>order2\<close>. The \<open>break\<close> of the case of a new transaction leaves the inner switch only,
  so the message goes on to the second loop unchanged.
\<close>

definition relay :: "(nat \<Rightarrow> outcome) \<Rightarrow> nat list \<Rightarrow> nat list \<Rightarrow> 't HubMessage \<Rightarrow> ('t, 'b, 'm) WebsocketHub
    \<Rightarrow> ('t, 'b, 'm) WebsocketHub go" where
  "relay res order1 order2 msg h =
     (if wsClients h = [] then Ret h
      else if \<not> messageIsValid msg then Ret h
      else case hmSignal msg of
        SigNewBlock \<Rightarrow> broadcast res order2 msg h
      | SigPingAndUserCount \<Rightarrow> Ret (sendToAll res msg order2 h)
      | SigMempoolUpdate \<Rightarrow> broadcast res order2 msg h
      | SigAddressTx \<Rightarrow> (case hmMsg msg of
            MsgAddr (Some am) \<Rightarrow> broadcast res order2 msg h
          | _ \<Rightarrow> Ret h)
      | SigNewTx \<Rightarrow> (case hmMsg msg of
            MsgTx (Some tx) \<Rightarrow>
              (let (h', ready) = maybeSendTxns order1 tx h in
               if \<not> (ready \<or> wsTimeToSend h') then broadcast res order2 msg h'
               else broadcast res order2 \<lparr>hmSignal = SigNewTxs, hmMsg = MsgTxs []\<rparr> h')
          | _ \<Rightarrow> Ret h)
      | SigSyncStatus \<Rightarrow> broadcast res order2 msg h
      | SigByeNow \<Rightarrow> Ret (sendToAll res msg order2 h)
      | _ \<Rightarrow> Ret h)"

text \<open>The goroutine \<open>periodicTxBufferSend\<close>: its ticker, and one signal from its channel.\<close>

definition bufferTick :: "('t, 'b, 'm) WebsocketHub \<Rightarrow> ('t, 'b, 'm) WebsocketHub" where
  "bufferTick h = h\<lparr>wsTimeToSend := True\<rparr>"

definition bufferSignal :: "('t, 'b, 'm) WebsocketHub \<Rightarrow> ('t, 'b, 'm) WebsocketHub" where
  "bufferSignal h = h\<lparr>wsTicker := tl (wsTicker h)\<rparr>"

subsection \<open>The loops of a connection\<close>

text \<open>What the server has to send, and what it asks its data source and the JSON encoder; \<open>None\<close> is the failure
  to encode. The block and the inventory are pointers; \<open>NewPubSubHub\<close> stores an empty inventory, so a nil one comes from a call of
  \<open>StoreMPData\<close> only.\<close>

record ('b, 'm) serverState =
  svBlock :: "'b option"
  svInventory :: "'m option"
  svDecodeRaw :: "string \<Rightarrow> string + string option"
  svSendRaw :: "string \<Rightarrow> string + string"
  svTrimmedMempool :: "'m \<Rightarrow> string option"
  svVersion :: "string option"
  svCheckDecode :: "string \<Rightarrow> bool"

text \<open>One round of \<open>sendLoop\<close> for the first message in the channel: what is to be written, if anything, and the
  client. \<open>enc\<close> says whether \<open>Encode\<close> succeeds; when it fails this is only logged, and the content is empty (the
  buffer of transactions is emptied all the same).\<close>

definition sendRound :: "('b, 'm) serverState \<Rightarrow> bool \<Rightarrow> int \<Rightarrow> 't client \<Rightarrow> 't HubMessage
    \<Rightarrow> ('t client \<times> (string \<times> ('t, 'b, 'm) pushed) option) go" where
  "sendRound sv enc numClients cl sig =
     (if \<not> messageIsValid sig then Ret (cl, None)
      else case (if hmSignal sig \<in> {SigByeNow, SigPingAndUserCount} then Ret True else isSubscribed cl sig) of
        Panic \<Rightarrow> Panic
      | Ret False \<Rightarrow> Ret (cl, None)
      | Ret True \<Rightarrow> (let event = signalString (hmSignal sig); content = (\<lambda>p. if enc then p else PEmpty) in
          case hmSignal sig of
            SigAddressTx \<Rightarrow> (case hmMsg sig of
                MsgAddr (Some am) \<Rightarrow> Ret (cl, Some (event, content (PAddr am)))
              | MsgAddr None \<Rightarrow> Ret (cl, Some (event, PEmpty))
              | _ \<Rightarrow> Ret (cl, None))
          | SigNewBlock \<Rightarrow> Ret (cl, Some (event, case svBlock sv of None \<Rightarrow> PEmpty | Some b \<Rightarrow> content (PBlock b)))
          | SigMempoolUpdate \<Rightarrow> Ret (cl, Some (event, case svInventory sv of None \<Rightarrow> PEmpty | Some m \<Rightarrow> content (PMempool m)))
          | SigPingAndUserCount \<Rightarrow> Ret (cl, Some (event, PCount numClients))
          | SigNewTxs \<Rightarrow>
              (if clNewTxs cl = [] then Ret (cl, None)
               else Ret (cl\<lparr>clNewTxs := []\<rparr>, Some (event, content (PTxs (clNewTxs cl)))))
          | SigByeNow \<Rightarrow> Ret (cl, Some (event, PBye))
          | _ \<Rightarrow> Ret (cl, None)))"

text \<open>The send loop takes one message; \<open>sent\<close> says whether writing to the websocket succeeds. When it fails, the
  loop returns.\<close>

definition sendLoopStep :: "('b, 'm) serverState \<Rightarrow> bool \<Rightarrow> bool \<Rightarrow> nat \<Rightarrow> ('t, 'b, 'm) WebsocketHub
    \<Rightarrow> ('t, 'b, 'm) WebsocketHub go" where
  "sendLoopStep sv enc sent c h = (let cn = wsConns h c in
     case cnSpoke cn of
       [] \<Rightarrow> Ret (if cnClosed cn then mapConn c (\<lambda>cn. cn\<lparr>cnSendDone := True\<rparr>) h else h)
     | sig # rest \<Rightarrow> (case sendRound sv enc (wsNumClients h) (cnClient cn) sig of
         Panic \<Rightarrow> Panic
       | Ret (cl, None) \<Rightarrow> Ret (mapConn c (\<lambda>cn. cn\<lparr>cnClient := cl, cnSpoke := rest\<rparr>) h)
       | Ret (cl, Some p) \<Rightarrow>
           (let batch = (if hmSignal sig = SigNewTxs
                         then [(clNewTxs (cnClient cn), if \<not> sent then NotSent else if enc then Written else NotEncoded)] else [])
            in Ret (mapConn c (\<lambda>cn. cn\<lparr>cnClient := cl, cnSpoke := rest,
                 cnPushed := cnPushed cn @ (if sent then [p] else []), cnTaken := cnTaken cn @ batch,
                 cnSendDone := \<not> sent\<rparr>) h))))"

definition maxPayloadBytes :: nat where
  "maxPayloadBytes = 2 ^ 20"

text \<open>One round of \<open>receiveLoop\<close>. A frame is \<open>None\<close> when it is the JSON value \<open>null\<close>, which sets the pointer to the
  message to nil; else it has the event id, the length of the message, and the request in it if it
  can be unmarshalled. The result has the response, if one is sent.\<close>

definition respond :: "RequestMessage \<Rightarrow> bool \<Rightarrow> string \<Rightarrow> ResponseMessage" where
  "respond req ok d = \<lparr>rmSuccess = ok, rmRequestEventId = rqMessage req, rmRequestId = rqRequestId req, rmData = d\<rparr>"

definition receiveRound :: "('b, 'm) serverState \<Rightarrow> (string \<times> nat \<times> RequestMessage option) option \<Rightarrow> 't client
    \<Rightarrow> ('t client \<times> (string \<times> ResponseMessage) option) go" where
  "receiveRound sv frame cl = (case frame of None \<Rightarrow> Panic | Some (eventId, len, request) \<Rightarrow>
     (let answer = (\<lambda>cl r. Ret (cl, Some (eventId @ ''Resp'', r))) in
      if maxPayloadBytes < len then Ret (cl, None)
      else case request of
        None \<Rightarrow> Ret (cl, None)
      | Some req \<Rightarrow>
          if eventId = ''subscribe'' then
            (case ValidateSubscription (svCheckDecode sv) (rqMessage req) of
               (sig, sigMsg, False) \<Rightarrow> answer cl (respond req False ''error: invalid subscription'')
             | (sig, sigMsg, True) \<Rightarrow> (case subscribe cl \<lparr>hmSignal = sig, hmMsg = sigMsg\<rparr> of
                 Panic \<Rightarrow> Panic
               | Ret (cl', ok, Some err) \<Rightarrow> answer cl' (respond req False (''error: '' @ err))
               | Ret (cl', ok, None) \<Rightarrow>
                   if \<not> ok \<and> sig \<noteq> SigPingAndUserCount
                   then answer cl' (respond req False (''cannot subscribed to '' @ rqMessage req))
                   else answer cl' (respond req True (''subscribed to '' @ rqMessage req))))
          else if eventId = ''unsubscribe'' then
            (case ValidateSubscription (svCheckDecode sv) (rqMessage req) of
               (sig, sigMsg, False) \<Rightarrow> answer cl (respond req False ''error: invalid subscription'')
             | (sig, sigMsg, True) \<Rightarrow> (case unsubscribe cl \<lparr>hmSignal = sig, hmMsg = sigMsg\<rparr> of
                 Panic \<Rightarrow> Panic
               | Ret (cl', Some err) \<Rightarrow> answer cl' (respond req False (''error: '' @ err))
               | Ret (cl', None) \<Rightarrow> answer cl' (respond req True (''unsubscribed from '' @ rqMessage req))))
          else if eventId = ''decodetx'' then
            (case svDecodeRaw sv (rqMessage req) of
               Inl err \<Rightarrow> answer cl (respond req False (''error: '' @ err))
             | Inr None \<Rightarrow> answer cl (respond req False ''error: Could not encode JSON message'')
             | Inr (Some s) \<Rightarrow> answer cl (respond req True s))
          else if eventId = ''sendtx'' then
            (case svSendRaw sv (rqMessage req) of
               Inl err \<Rightarrow> answer cl (respond req False (''error: '' @ err))
             | Inr txid \<Rightarrow> answer cl (respond req True txid))
          else if eventId = ''getmempooltxs'' then
            (case svInventory sv of
               None \<Rightarrow> Panic
             | Some mp \<Rightarrow> (case svTrimmedMempool sv mp of
                 None \<Rightarrow> answer cl (respond req False ''error: Could not encode JSON message'')
               | Some s \<Rightarrow> answer cl (respond req True s)))
          else if eventId = ''version'' then
            (case svVersion sv of
               None \<Rightarrow> answer cl (respond req False ''error: Could not encode JSON message'')
             | Some s \<Rightarrow> answer cl (respond req True s))
          else Ret (cl, None)))"

text \<open>The handler of a connection returns when both loops have ended.\<close>

definition closeConnection :: "nat \<Rightarrow> ('t, 'b, 'm) WebsocketHub \<Rightarrow> ('t, 'b, 'm) WebsocketHub" where
  "closeConnection c = mapClient c (\<lambda>cl. (unsubscribeAll cl)\<lparr>clKilled := True\<rparr>)"

subsection \<open>The invariant\<close>

definition sendable :: "'t HubMessage \<Rightarrow> bool" where
  "sendable m \<longleftrightarrow> messageIsValid m \<and> hmSignal m \<in> {SigPingAndUserCount, SigByeNow} \<union> subscribable \<and>
     (hmSignal m = SigAddressTx \<longrightarrow> (\<exists>am. hmMsg m = MsgAddr (Some am)))"

definition clientOK :: "'t client \<Rightarrow> bool" where
  "clientOK cl \<longleftrightarrow> clSubs cl \<subseteq> subscribable \<and> (SigAddressTx \<in> clSubs cl \<longleftrightarrow> clAddrs cl \<noteq> {}) \<and>
     (clKilled cl \<longrightarrow> clSubs cl = {})"

definition connOK :: "('t, 'b, 'm) connection \<Rightarrow> bool" where
  "connOK cn \<longleftrightarrow> clientOK (cnClient cn) \<and> length (cnSpoke cn) \<le> 16 \<and> (\<forall>m\<in>set (cnSpoke cn). sendable m)"

definition hubOK :: "('t, 'b, 'm) WebsocketHub \<Rightarrow> bool" where
  "hubOK h \<longleftrightarrow> distinct (wsClients h) \<and> wsNumClients h = int (length (wsClients h)) \<and>
     (\<forall>c\<in>set (wsClients h). c < wsNext h) \<and>
     (\<forall>c<wsNext h. cnClosed (wsConns h c) \<longleftrightarrow> c \<notin> set (wsClients h)) \<and> (\<forall>c. connOK (wsConns h c))"

lemma hubOK_conn: "hubOK h \<Longrightarrow> connOK (wsConns h c)"
  by (simp add: hubOK_def)

lemma connOK_client: "connOK cn \<Longrightarrow> clientOK (cnClient cn)"
  by (simp add: connOK_def)

lemma clientOK_newClient [simp]: "clientOK (newClient i)"
  by (simp add: clientOK_def newClient_def)

lemma connOK_newConnection [simp]: "connOK (newConnection i)"
  by (simp add: connOK_def newConnection_def)

lemma mapConn_simps [simp]:
  "wsClients (mapConn c f h) = wsClients h" "wsNumClients (mapConn c f h) = wsNumClients h"
  "wsNext (mapConn c f h) = wsNext h" "wsTimeToSend (mapConn c f h) = wsTimeToSend h"
  "wsTicker (mapConn c f h) = wsTicker h"
  "wsConns (mapConn c f h) d = (if d = c then f (wsConns h c) else wsConns h d)"
  by (simp_all add: mapConn_def)

lemma mapClient_simps [simp]:
  "wsClients (mapClient c f h) = wsClients h" "wsNumClients (mapClient c f h) = wsNumClients h"
  "wsNext (mapClient c f h) = wsNext h" "wsTimeToSend (mapClient c f h) = wsTimeToSend h"
  "wsTicker (mapClient c f h) = wsTicker h"
  "wsConns (mapClient c f h) d =
     (if d = c then (wsConns h c)\<lparr>cnClient := f (cnClient (wsConns h c))\<rparr> else wsConns h d)"
  by (simp_all add: mapClient_def)

lemma hubOK_mapConn:
  assumes "hubOK h" and "connOK (f (wsConns h c))" and "cnClosed (f (wsConns h c)) = cnClosed (wsConns h c)"
  shows "hubOK (mapConn c f h)"
  using assms by (auto simp: hubOK_def)

lemma hubOK_mapClient:
  assumes "hubOK h" and "clientOK (f (cnClient (wsConns h c)))"
  shows "hubOK (mapClient c f h)"
  unfolding mapClient_def
  by (rule hubOK_mapConn) (use assms hubOK_conn[OF assms(1), of c] in \<open>auto simp: connOK_def\<close>)

lemma hubOK_new: "hubOK NewWebsocketHub"
  by (simp add: hubOK_def NewWebsocketHub_def)

lemma hubOK_register: "hubOK h \<Longrightarrow> hubOK (case NewClientHubSpoke h of (c, h') \<Rightarrow> registerClient c h')"
  by (auto simp: hubOK_def NewClientHubSpoke_def registerClient_def setNumClients_def less_Suc_eq newConnection_def
      connOK_newConnection[unfolded newConnection_def])

lemma length_removeAll_distinct: "distinct xs \<Longrightarrow> length (removeAll x xs) = length xs - (if x \<in> set xs then 1 else 0)"
  by (simp add: distinct_remove1_removeAll[symmetric] length_remove1)

lemma hubOK_unregister: "hubOK h \<Longrightarrow> hubOK (unregisterClient c h)"
  by (auto simp: hubOK_def unregisterClient_def setNumClients_def distinct_removeAll connOK_def)

lemma hubOK_flags [simp]:
  "hubOK (h\<lparr>wsTimeToSend := b\<rparr>) = hubOK h" "hubOK (h\<lparr>wsTicker := t\<rparr>) = hubOK h" "hubOK (h\<lparr>wsReady := r\<rparr>) = hubOK h"
  by (simp_all add: hubOK_def)

text \<open>When each case of \<open>sendMsg\<close> can run.\<close>

definition possible :: "outcome \<Rightarrow> ('t, 'b, 'm) connection \<Rightarrow> bool" where
  "possible res cn = (case res of
     Gone \<Rightarrow> clKilled (cnClient cn)
   | Sent \<Rightarrow> length (cnSpoke cn) < 16
   | TimedOut \<Rightarrow> length (cnSpoke cn) = 16 \<and> \<not> clKilled (cnClient cn))"

lemma hubOK_sendMsg:
  assumes "hubOK h" and "sendable m" and "possible res (wsConns h c)"
  shows "hubOK (sendMsg res c m h)"
proof (cases res)
  case Sent
  show ?thesis unfolding sendMsg_def Sent outcome.case
    by (rule hubOK_mapConn)
       (use assms hubOK_conn[OF assms(1), of c] in \<open>auto simp: connOK_def possible_def Sent\<close>)
qed (use assms in \<open>simp_all add: sendMsg_def hubOK_unregister\<close>)

subsection \<open>Delivery\<close>

text \<open>Sending to the clients of a list that satisfy a predicate: what both loops do.\<close>

fun sends :: "(nat \<Rightarrow> bool) \<Rightarrow> (nat \<Rightarrow> outcome) \<Rightarrow> 't HubMessage \<Rightarrow> nat list \<Rightarrow> ('t, 'b, 'm) WebsocketHub \<Rightarrow> ('t, 'b, 'm) WebsocketHub" where
  "sends P res msg [] h = h"
| "sends P res msg (c # cs) h = sends P res msg cs (if P c then sendMsg (res c) c msg h else h)"

lemma sendToAll_sends: "sendToAll res msg cs h = sends (\<lambda>c. True) res msg cs h"
  by (induction cs arbitrary: h) simp_all

text \<open>What sending leaves as it is.\<close>

definition sameClients :: "('t, 'b, 'm) WebsocketHub \<Rightarrow> ('t, 'b, 'm) WebsocketHub \<Rightarrow> bool" where
  "sameClients h h' \<longleftrightarrow> wsNext h' = wsNext h \<and> wsTimeToSend h' = wsTimeToSend h \<and> wsTicker h' = wsTicker h \<and>
     (\<forall>c. cnClient (wsConns h' c) = cnClient (wsConns h c) \<and> cnPushed (wsConns h' c) = cnPushed (wsConns h c) \<and>
          cnTaken (wsConns h' c) = cnTaken (wsConns h c) \<and> cnSendDone (wsConns h' c) = cnSendDone (wsConns h c))"

lemma sameClients_refl [simp]: "sameClients h h"
  by (simp add: sameClients_def)

lemma sameClients_trans: "sameClients h h' \<Longrightarrow> sameClients h' h'' \<Longrightarrow> sameClients h h''"
  by (simp add: sameClients_def)

lemma sendMsg_frame:
  "sameClients h (sendMsg res c m h)"
  "cnSpoke (wsConns (sendMsg res c m h) d) = cnSpoke (wsConns h d) @ (if d = c \<and> res = Sent then [m] else [])"
  "d \<noteq> c \<Longrightarrow> wsConns (sendMsg res c m h) d = wsConns h d"
  by (cases res; simp add: sendMsg_def sameClients_def unregisterClient_def setNumClients_def)+

lemma sendMsg_clients:
  "wsClients (sendMsg res c m h) = filter (\<lambda>d. \<not> (d = c \<and> res = Gone)) (wsClients h)"
proof (cases "res = Gone \<and> c \<in> set (wsClients h)")
  case True
  then show ?thesis
    by (simp add: sendMsg_def unregisterClient_def setNumClients_def removeAll_filter_not_eq eq_commute)
next
  case False
  have "filter (\<lambda>d. \<not> (d = c \<and> res = Gone)) (wsClients h) = wsClients h"
    by (rule filter_True) (use False in auto)
  then show ?thesis using False
    by (cases res) (simp_all add: sendMsg_def unregisterClient_def)
qed

lemma sends_clients:
  "wsClients (sends P res m cs h) = filter (\<lambda>d. \<not> (d \<in> set cs \<and> P d \<and> res d = Gone)) (wsClients h)"
proof (induction cs arbitrary: h)
  case (Cons c cs)
  show ?case
    by (simp add: Cons.IH sendMsg_clients) (auto intro!: filter_cong)
qed simp

lemma sends_spec:
  assumes "hubOK h" and "sendable m \<or> (\<forall>c\<in>set cs. \<not> P c)" and "distinct cs"
    and "\<forall>c\<in>set cs. possible (res c) (wsConns h c)"
  shows "hubOK (sends P res m cs h) \<and> sameClients h (sends P res m cs h) \<and>
    (\<forall>c. cnSpoke (wsConns (sends P res m cs h) c) =
         cnSpoke (wsConns h c) @ (if c \<in> set cs \<and> P c \<and> res c = Sent then [m] else []))"
  using assms
proof (induction cs arbitrary: h)
  case Nil
  then show ?case by simp
next
  case (Cons c cs)
  define h1 where "h1 = (if P c then sendMsg (res c) c m h else h)"
  have ok: "hubOK h1"
    using Cons.prems hubOK_sendMsg[of h m "res c" c] by (auto simp: h1_def)
  have fr: "sameClients h h1"
      "\<And>d. cnSpoke (wsConns h1 d) = cnSpoke (wsConns h d) @ (if d = c \<and> P c \<and> res c = Sent then [m] else [])"
      "\<And>d. d \<noteq> c \<Longrightarrow> wsConns h1 d = wsConns h d"
    by (simp_all add: h1_def sendMsg_frame)
  have "\<forall>d\<in>set cs. possible (res d) (wsConns h1 d)"
    using Cons.prems(3,4) fr(3) by (metis distinct.simps(2) list.set_intros(2))
  from Cons.IH[OF ok _ _ this] Cons.prems(2,3)
  have ih: "hubOK (sends P res m cs h1)" "sameClients h1 (sends P res m cs h1)"
    "\<And>d. cnSpoke (wsConns (sends P res m cs h1) d) =
         cnSpoke (wsConns h1 d) @ (if d \<in> set cs \<and> P d \<and> res d = Sent then [m] else [])"
    by auto
  have eq: "sends P res m (c # cs) h = sends P res m cs h1" by (simp add: h1_def)
  show ?case unfolding eq using ih fr Cons.prems(3) sameClients_trans[OF fr(1) ih(2)] by auto
qed

lemma isSubscribed_Ret:
  "(hmSignal m = SigAddressTx \<Longrightarrow> \<exists>am. hmMsg m = MsgAddr (Some am)) \<Longrightarrow> \<exists>b. isSubscribed cl m = Ret b"
  by (auto simp: isSubscribed_def split: payload.splits option.splits)

lemma sendToSubscribed_sends:
  assumes "hmSignal m = SigAddressTx \<Longrightarrow> \<exists>am. hmMsg m = MsgAddr (Some am)"
  shows "sendToSubscribed res m cs h = Ret (sends (\<lambda>c. isSubscribed (cnClient (wsConns h c)) m = Ret True) res m cs h)"
proof -
  have gen: "(\<forall>c. cnClient (wsConns h' c) = cnClient (wsConns h c)) \<Longrightarrow> sendToSubscribed res m cs h' =
      Ret (sends (\<lambda>c. isSubscribed (cnClient (wsConns h c)) m = Ret True) res m cs h')" for h'
  proof (induction cs arbitrary: h')
    case Nil
    then show ?case by simp
  next
    case (Cons c cs)
    obtain b where b: "isSubscribed (cnClient (wsConns h c)) m = Ret b"
      using isSubscribed_Ret[OF assms] by blast
    have s: "\<forall>d. cnClient (wsConns (sendMsg (res c) c m h') d) = cnClient (wsConns h d)"
      using sendMsg_frame(1)[of h' "res c" c m] Cons.prems by (simp add: sameClients_def)
    show ?case using Cons.IH[OF s] Cons.IH[OF Cons.prems] b Cons.prems by (cases b) simp_all
  qed
  show ?thesis by (rule gen) simp
qed

lemma clientOK_newTxs [simp]: "clientOK (cl\<lparr>clNewTxs := ts\<rparr>) = clientOK cl"
  by (simp add: clientOK_def)

definition buffered :: "'t \<Rightarrow> ('t, 'b, 'm) connection \<Rightarrow> ('t, 'b, 'm) connection" where
  "buffered tx cn = cn\<lparr>cnClient := (cnClient cn)\<lparr>clNewTxs := clNewTxs (cnClient cn) @ [tx]\<rparr>\<rparr>"

lemma addTxToBuffers_spec:
  assumes "hubOK h" and "distinct cs" and "addTxToBuffers tx cs r h = (h', ready)"
  shows "hubOK h' \<and> wsClients h' = wsClients h \<and> wsNext h' = wsNext h \<and> wsTimeToSend h' = wsTimeToSend h \<and>
    (\<forall>c. wsConns h' c = (if c \<in> set cs then buffered tx (wsConns h c) else wsConns h c)) \<and>
    (cs \<noteq> [] \<longrightarrow> (ready \<longleftrightarrow> NewTxBufferSize \<le> length (clNewTxs (cnClient (wsConns h (last cs)))) + 1))"
  using assms
proof (induction cs arbitrary: h r)
  case Nil
  then show ?case by simp
next
  case (Cons c cs)
  define h1 where "h1 = mapClient c (\<lambda>cl. fst (addTx tx cl)) h"
  have ok: "hubOK h1" unfolding h1_def
    by (rule hubOK_mapClient) (use Cons.prems(1) hubOK_conn in \<open>auto simp: addTx_def Let_def connOK_def\<close>)
  have h1: "wsClients h1 = wsClients h" "wsNext h1 = wsNext h" "wsTimeToSend h1 = wsTimeToSend h"
      "\<And>d. wsConns h1 d = (if d = c then buffered tx (wsConns h c) else wsConns h d)"
    by (simp_all add: h1_def buffered_def addTx_def Let_def)
  have d: "distinct cs" "c \<notin> set cs" using Cons.prems(2) by auto
  have run: "addTxToBuffers tx cs (snd (addTx tx (cnClient (wsConns h c)))) h1 = (h', ready)"
    using Cons.prems(3) by (simp add: h1_def)
  note ih = Cons.IH[OF ok d(1) run]
  have "ready \<longleftrightarrow> NewTxBufferSize \<le> length (clNewTxs (cnClient (wsConns h c))) + 1" if "cs = []"
    using run that by (auto simp: addTx_def Let_def)
  moreover have "last cs \<noteq> c" if "cs \<noteq> []" using d(2) that by (metis last_in_set)
  ultimately show ?case using ih h1 d(2) by (auto split: if_splits)
qed

lemma maybeSendTxns_spec:
  assumes "hubOK h" and "distinct cs" and "maybeSendTxns cs tx h = (h', ready)"
  shows "hubOK h' \<and> wsClients h' = wsClients h \<and> wsNext h' = wsNext h \<and> wsTimeToSend h' = wsTimeToSend h \<and>
    (\<forall>c. wsConns h' c = (if c \<in> set cs then buffered tx (wsConns h c) else wsConns h c)) \<and>
    (cs \<noteq> [] \<longrightarrow> (ready \<longleftrightarrow> NewTxBufferSize \<le> length (clNewTxs (cnClient (wsConns h (last cs)))) + 1))"
proof -
  obtain h0 r0 where r: "addTxToBuffers tx cs False h = (h0, r0)" by force
  show ?thesis using addTxToBuffers_spec[OF assms(1,2) r] assms(3)
    by (cases r0) (auto simp: maybeSendTxns_def r)
qed

text \<open>The new transaction in a message.\<close>

definition txOf :: "'t HubMessage \<Rightarrow> 't list" where
  "txOf m = (case (hmSignal m, hmMsg m) of (SigNewTx, MsgTx (Some tx)) \<Rightarrow> [tx] | _ \<Rightarrow> [])"

text \<open>The message that a client gets when one is relayed; \<open>ready\<close> says that transaction buffers are due.\<close>

definition receives :: "bool \<Rightarrow> 't client \<Rightarrow> 't HubMessage \<Rightarrow> 't HubMessage list" where
  "receives ready cl m =
     (if hmSignal m \<in> {SigPingAndUserCount, SigByeNow} then [m]
      else if hmSignal m = SigNewTx then
        (if txOf m \<noteq> [] \<and> ready \<and> SigNewTxs \<in> clSubs cl then [\<lparr>hmSignal = SigNewTxs, hmMsg = MsgTxs []\<rparr>] else [])
      else if hmSignal m \<in> {SigNewBlock, SigMempoolUpdate, SigSyncStatus} \<and> hmSignal m \<in> clSubs cl then [m]
      else if hmSignal m = SigAddressTx \<and>
              (\<exists>am. hmMsg m = MsgAddr (Some am) \<and> amAddress am \<in> clAddrs cl) then [m]
      else [])"

definition due :: "nat list \<Rightarrow> ('t, 'b, 'm) WebsocketHub \<Rightarrow> bool" where
  "due order1 h \<longleftrightarrow> wsTimeToSend h \<or> NewTxBufferSize \<le> length (clNewTxs (cnClient (wsConns h (last order1)))) + 1"

text \<open>The effect of relaying a message on the state.\<close>

definition relayed :: "(nat \<Rightarrow> outcome) \<Rightarrow> nat list \<Rightarrow> 't HubMessage \<Rightarrow> ('t, 'b, 'm) WebsocketHub \<Rightarrow> ('t, 'b, 'm) WebsocketHub \<Rightarrow> bool" where
  "relayed res order1 m h h' \<longleftrightarrow> hubOK h' \<and> wsNext h' = wsNext h \<and>
     wsClients h' = filter (\<lambda>c. \<not> (res c = Gone \<and> receives (due order1 h) (cnClient (wsConns h c)) m \<noteq> [])) (wsClients h) \<and>
     (\<forall>c. cnPushed (wsConns h' c) = cnPushed (wsConns h c) \<and> cnTaken (wsConns h' c) = cnTaken (wsConns h c) \<and>
          cnSendDone (wsConns h' c) = cnSendDone (wsConns h c) \<and>
          cnClient (wsConns h' c) = (cnClient (wsConns h c))\<lparr>clNewTxs :=
            clNewTxs (cnClient (wsConns h c)) @ (if c \<in> set (wsClients h) then txOf m else [])\<rparr> \<and>
          cnSpoke (wsConns h' c) = cnSpoke (wsConns h c) @
            (if c \<in> set (wsClients h) \<and> res c = Sent
             then receives (due order1 h) (cnClient (wsConns h c)) m else []))"

lemma relayed_refl:
  assumes "hubOK h" and "txOf m = []" and "\<And>c. c \<in> set (wsClients h) \<Longrightarrow> receives (due order1 h) (cnClient (wsConns h c)) m = []"
  shows "relayed res order1 m h h"
proof -
  have "filter (\<lambda>c. \<not> (res c = Gone \<and> receives (due order1 h) (cnClient (wsConns h c)) m \<noteq> [])) (wsClients h) = wsClients h"
    by (rule filter_True) (simp add: assms(3))
  then show ?thesis using assms by (simp add: relayed_def)
qed

text \<open>What sending a message to the clients of a predicate does, when these are the clients that receive it.\<close>

lemma sends_relayed:
  assumes "hubOK h" and "sendable out \<or> (\<forall>c\<in>set cs. \<not> P c)" and "distinct cs" and set: "set cs = set (wsClients h)"
    and "\<forall>c\<in>set cs. possible (res c) (wsConns h c)"
    and rcv: "\<And>c. c \<in> set (wsClients h) \<Longrightarrow> receives (due order1 h0) (cnClient (wsConns h0 c)) m = (if P c then [out] else [])"
    and h0: "wsNext h = wsNext h0" "wsClients h = wsClients h0"
      "\<And>c. wsConns h c = (if c \<in> set (wsClients h) then (wsConns h0 c)\<lparr>cnClient := (cnClient (wsConns h0 c))\<lparr>clNewTxs :=
         clNewTxs (cnClient (wsConns h0 c)) @ txOf m\<rparr>\<rparr> else wsConns h0 c)"
  shows "relayed res order1 m h0 (sends P res out cs h)"
proof -
  let ?h = "sends P res out cs h"
  note sp = sends_spec[OF assms(1-3,5)]
  have same: "sameClients h ?h" and ok: "hubOK ?h" using sp by simp_all
  have "wsClients ?h = filter (\<lambda>c. \<not> (res c = Gone \<and> receives (due order1 h0) (cnClient (wsConns h0 c)) m \<noteq> [])) (wsClients h0)"
    unfolding sends_clients h0(2)[symmetric] by (rule filter_cong) (simp_all add: set rcv)
  moreover have "cnSpoke (wsConns ?h c) = cnSpoke (wsConns h0 c) @ (if c \<in> set (wsClients h0) \<and> res c = Sent
      then receives (due order1 h0) (cnClient (wsConns h0 c)) m else [])" for c
  proof -
    have "cnSpoke (wsConns ?h c) = cnSpoke (wsConns h c) @ (if c \<in> set (wsClients h) \<and> P c \<and> res c = Sent then [out] else [])"
      using sp by (simp add: set)
    moreover have "cnSpoke (wsConns h c) = cnSpoke (wsConns h0 c)" using h0(3)[of c] by simp
    ultimately show ?thesis using rcv[of c] h0(2) by simp
  qed
  moreover have "cnPushed (wsConns ?h c) = cnPushed (wsConns h0 c)" "cnTaken (wsConns ?h c) = cnTaken (wsConns h0 c)"
    "cnSendDone (wsConns ?h c) = cnSendDone (wsConns h0 c)" for c
    using same h0(3)[of c] by (simp_all add: sameClients_def)
  moreover have "cnClient (wsConns ?h c) = (cnClient (wsConns h0 c))\<lparr>clNewTxs :=
      clNewTxs (cnClient (wsConns h0 c)) @ (if c \<in> set (wsClients h0) then txOf m else [])\<rparr>" for c
  proof -
    have "cnClient (wsConns ?h c) = cnClient (wsConns h c)" using same by (simp add: sameClients_def)
    then show ?thesis using h0(2) h0(3)[of c] by simp
  qed
  moreover have "wsNext ?h = wsNext h0" using same h0(1) by (simp add: sameClients_def)
  ultimately show ?thesis unfolding relayed_def using ok by blast
qed

lemma relayed_flag [simp]: "relayed res order1 m h (h'\<lparr>wsTimeToSend := b\<rparr>) = relayed res order1 m h h'"
  by (simp add: relayed_def)

lemma clSubs_subscribable: "hubOK h \<Longrightarrow> clSubs (cnClient (wsConns h c)) \<subseteq> subscribable"
  using hubOK_conn[of h c] by (simp add: connOK_def clientOK_def)

lemma address_subscribed:
  "hubOK h \<Longrightarrow> SigAddressTx \<in> clSubs (cnClient (wsConns h c)) \<longleftrightarrow> clAddrs (cnClient (wsConns h c)) \<noteq> {}"
  using hubOK_conn[of h c] by (simp add: connOK_def clientOK_def)

lemma quiet_conns: "txOf m = [] \<Longrightarrow> wsConns h c = (if c \<in> set (wsClients h) then (wsConns h c)\<lparr>cnClient :=
    (cnClient (wsConns h c))\<lparr>clNewTxs := clNewTxs (cnClient (wsConns h c)) @ txOf m\<rparr>\<rparr> else wsConns h c)"
  by simp

lemma broadcast_relayed:
  assumes ok: "hubOK h" and m: "messageIsValid m" "hmSignal m \<in> subscribable - {SigNewTxs}"
      "hmSignal m = SigAddressTx \<Longrightarrow> \<exists>am. hmMsg m = MsgAddr (Some am)"
    and ord: "distinct cs" "set cs = set (wsClients h)" and res: "\<forall>c\<in>set cs. possible (res c) (wsConns h c)"
  shows "\<exists>h'. broadcast res cs m h = Ret h' \<and> relayed res order1 m h h'"
proof -
  let ?P = "\<lambda>c. isSubscribed (cnClient (wsConns h c)) m = Ret True"
  have "sendable m" using m by (auto simp: sendable_def)
  have b: "broadcast res cs m h = Ret (sends ?P res m cs h)"
    using m(2) by (simp add: broadcast_def sendToSubscribed_sends[OF m(3)])
  have r: "receives (due order1 h) (cnClient (wsConns h c)) m = (if ?P c then [m] else [])" for c
  proof (cases "hmSignal m = SigAddressTx")
    case True
    then obtain am where am: "hmMsg m = MsgAddr (Some am)" using m(3) by blast
    then show ?thesis using address_subscribed[OF ok, of c] True
      by (auto simp: receives_def isSubscribed_def)
  next
    case False
    then have "isSubscribed (cnClient (wsConns h c)) m = Ret (hmSignal m \<in> clSubs (cnClient (wsConns h c)))"
      by (simp add: isSubscribed_def)
    moreover have "hmSignal m \<in> {SigNewBlock, SigMempoolUpdate, SigSyncStatus}"
      using m(2) False by (auto simp: subscribable_def)
    ultimately show ?thesis by (auto simp: receives_def)
  qed
  have t: "txOf m = []" using m(2) by (auto simp: txOf_def subscribable_def)
  have "relayed res order1 m h (sends ?P res m cs h)"
    by (rule sends_relayed[OF ok disjI1[OF \<open>sendable m\<close>] ord res r refl refl quiet_conns[OF t]])
  then show ?thesis using b by blast
qed

lemma sendToAll_relayed:
  assumes ok: "hubOK h" and m: "messageIsValid m" "hmSignal m \<in> {SigPingAndUserCount, SigByeNow}"
    and ord: "distinct cs" "set cs = set (wsClients h)" and res: "\<forall>c\<in>set cs. possible (res c) (wsConns h c)"
  shows "relayed res order1 m h (sendToAll res m cs h)"
proof -
  have "sendable m" using m by (auto simp: sendable_def)
  moreover have "txOf m = []" using m(2) by (auto simp: txOf_def)
  moreover have "receives (due order1 h) (cnClient (wsConns h c)) m = (if True then [m] else [])" for c
    using m(2) by (simp add: receives_def)
  ultimately show ?thesis
    unfolding sendToAll_sends by (intro sends_relayed[OF ok _ ord res _ refl refl quiet_conns]) simp_all
qed

lemma possible_buffered [simp]: "possible r (buffered tx cn) = possible r cn"
  by (simp add: possible_def buffered_def split: outcome.splits)

lemma buffered_simps [simp]:
  "cnClient (buffered tx cn) = (cnClient cn)\<lparr>clNewTxs := clNewTxs (cnClient cn) @ [tx]\<rparr>"
  "cnSpoke (buffered tx cn) = cnSpoke cn" "cnPushed (buffered tx cn) = cnPushed cn"
  "cnTaken (buffered tx cn) = cnTaken cn" "cnSendDone (buffered tx cn) = cnSendDone cn"
  by (simp_all add: buffered_def)

lemma newTx_relayed:
  assumes ok: "hubOK h" and ne: "wsClients h \<noteq> []"
    and ord1: "distinct order1" "set order1 = set (wsClients h)"
    and ord2: "distinct order2" "set order2 = set (wsClients h)"
    and res: "\<forall>c\<in>set (wsClients h). possible (res c) (wsConns h c)"
    and m: "hmSignal m = SigNewTx" "hmMsg m = MsgTx (Some tx)"
  shows "\<exists>h'. relay res order1 order2 m h = Ret h' \<and> relayed res order1 m h h'"
proof -
  obtain h1 ready where run: "maybeSendTxns order1 tx h = (h1, ready)" by force
  have "order1 \<noteq> []" using ne ord1(2) by force
  with maybeSendTxns_spec[OF ok ord1(1) run]
  have h1: "hubOK h1" "wsClients h1 = wsClients h" "wsNext h1 = wsNext h" "wsTimeToSend h1 = wsTimeToSend h"
      "\<And>c. wsConns h1 c = (if c \<in> set (wsClients h) then buffered tx (wsConns h c) else wsConns h c)"
      "ready \<or> wsTimeToSend h1 \<longleftrightarrow> due order1 h"
    unfolding ord1(2) by (auto simp: due_def)
  have res1: "\<forall>c\<in>set order2. possible (res c) (wsConns h1 c)" using res h1(5) ord2(2) by simp
  have v: "messageIsValid m" using m by (simp add: messageIsValid_def)
  define out :: "'a HubMessage" where "out = (if due order1 h then \<lparr>hmSignal = SigNewTxs, hmMsg = MsgTxs []\<rparr> else m)"
  have out: "relay res order1 order2 m h = broadcast res order2 out h1"
    using ne v m h1(6) by (auto simp: relay_def run out_def)
  let ?P = "\<lambda>c. isSubscribed (cnClient (wsConns h1 c)) out = Ret True"
  have na: "hmSignal out = SigAddressTx \<Longrightarrow> \<exists>am. hmMsg out = MsgAddr (Some am)" using m by (simp add: out_def split: if_splits)
  have P: "?P c \<longleftrightarrow> due order1 h \<and> SigNewTxs \<in> clSubs (cnClient (wsConns h c))" for c
    using clSubs_subscribable[OF ok, of c] m h1(5)[of c]
    by (auto simp: out_def isSubscribed_def subscribable_def)
  have "sendable out \<or> (\<forall>c\<in>set order2. \<not> ?P c)"
    unfolding P by (cases "due order1 h") (simp_all add: out_def sendable_def messageIsValid_def subscribable_def)
  note s = this
  have tx: "txOf m = [tx]" using m by (simp add: txOf_def)
  have r: "receives (due order1 h) (cnClient (wsConns h c)) m = (if ?P c then [out] else [])" for c
    unfolding P using m tx by (simp add: receives_def out_def)
  have "relayed res order1 m h (sends ?P res out order2 h1)"
    by (rule sends_relayed[OF h1(1) s ord2(1) _ res1 r h1(3,2)]) (simp_all add: h1(2,5) ord2(2) tx buffered_def)
  moreover have "broadcast res order2 out h1 = Ret (if hmSignal out = SigNewTxs
      then (sends ?P res out order2 h1)\<lparr>wsTimeToSend := False\<rparr> else sends ?P res out order2 h1)"
    by (simp add: broadcast_def sendToSubscribed_sends[OF na])
  ultimately show ?thesis using out by simp
qed

lemma relay_relayed:
  assumes ok: "hubOK h" and ne: "wsClients h \<noteq> []" and v: "messageIsValid m"
    and ord1: "distinct order1" "set order1 = set (wsClients h)"
    and ord2: "distinct order2" "set order2 = set (wsClients h)"
    and res: "\<forall>c\<in>set (wsClients h). possible (res c) (wsConns h c)"
  shows "\<exists>h'. relay res order1 order2 m h = Ret h' \<and> relayed res order1 m h h'"
proof -
  have res2: "\<forall>c\<in>set order2. possible (res c) (wsConns h c)" using res ord2(2) by simp
  note bc = broadcast_relayed[OF ok v _ _ ord2 res2] and all = sendToAll_relayed[OF ok v _ ord2 res2]
  have quiet: "txOf m = [] \<Longrightarrow> (\<And>cl. receives (due order1 h) cl m = []) \<Longrightarrow> relayed res order1 m h h"
    using relayed_refl[OF ok] by blast
  show ?thesis
  proof (cases "hmSignal m")
    case SigNewBlock
    then show ?thesis using bc ne v by (simp add: relay_def subscribable_def)
  next
    case SigMempoolUpdate
    then show ?thesis using bc ne v by (simp add: relay_def subscribable_def)
  next
    case SigSyncStatus
    then show ?thesis using bc ne v by (simp add: relay_def subscribable_def)
  next
    case SigPingAndUserCount
    then show ?thesis using all ne v by (simp add: relay_def)
  next
    case SigByeNow
    then show ?thesis using all ne v by (simp add: relay_def)
  next
    case SigAddressTx
    then obtain a where a: "hmMsg m = MsgAddr a" using v by (auto simp: messageIsValid_def split: payload.splits)
    then show ?thesis using SigAddressTx bc ne v quiet
      by (cases a) (simp_all add: relay_def subscribable_def txOf_def receives_def)
  next
    case SigNewTx
    then obtain t where t: "hmMsg m = MsgTx t" using v by (auto simp: messageIsValid_def split: payload.splits)
    show ?thesis
    proof (cases t)
      case (Some tx)
      then show ?thesis using newTx_relayed[OF ok ne ord1 ord2 res SigNewTx] t by blast
    next
      case None
      have "relay res order1 order2 m h = Ret h" using ne v SigNewTx t None by (simp add: relay_def)
      moreover have "relayed res order1 m h h"
        by (rule quiet) (simp_all add: SigNewTx t None txOf_def receives_def)
      ultimately show ?thesis by blast
    qed
  qed (use ne v quiet in \<open>simp_all add: relay_def txOf_def receives_def\<close>)
qed

subsection \<open>Reachable states\<close>

text \<open>The hub with its connections, and for each connection the new transactions relayed while it was registered.\<close>

inductive hubReach :: "('t, 'b, 'm) WebsocketHub \<Rightarrow> (nat \<Rightarrow> 't list) \<Rightarrow> bool" where
  hub_start: "hubReach NewWebsocketHub (\<lambda>c. [])"
| hub_register: "hubReach h hist \<Longrightarrow> hubReach (case NewClientHubSpoke h of (c, h') \<Rightarrow> registerClient c h') hist"
| hub_relay: "hubReach h hist \<Longrightarrow> distinct order1 \<Longrightarrow> set order1 = set (wsClients h)
    \<Longrightarrow> distinct order2 \<Longrightarrow> set order2 = set (wsClients h)
    \<Longrightarrow> \<forall>c\<in>set (wsClients h). possible (res c) (wsConns h c) \<Longrightarrow> relay res order1 order2 m h = Ret h'
    \<Longrightarrow> hubReach h' (\<lambda>c. hist c @ (if c \<in> set (wsClients h) then txOf m else []))"
| hub_unregister: "hubReach h hist \<Longrightarrow> hubReach (unregisterClient c h) hist"
| hub_stop: "hubReach h hist \<Longrightarrow> hubReach (unregisterAllClients h) hist"
| hub_tick: "hubReach h hist \<Longrightarrow> hubReach (bufferTick h) hist"
| hub_signal: "hubReach h hist \<Longrightarrow> hubReach (bufferSignal h) hist"
| hub_send: "hubReach h hist \<Longrightarrow> c < wsNext h \<Longrightarrow> \<not> cnSendDone (wsConns h c)
    \<Longrightarrow> sendLoopStep sv enc sent c h = Ret h' \<Longrightarrow> hubReach h' hist"
| hub_receive: "hubReach (h :: ('t, 'b, 'm) WebsocketHub) hist \<Longrightarrow> c < wsNext h \<Longrightarrow> \<not> clKilled (cnClient (wsConns h c))
    \<Longrightarrow> receiveRound (sv :: ('b, 'm) serverState) frame (cnClient (wsConns h c)) = Ret (cl, r)
    \<Longrightarrow> hubReach (mapClient c (\<lambda>x. cl) h) hist"
| hub_close: "hubReach h hist \<Longrightarrow> c < wsNext h \<Longrightarrow> cnSendDone (wsConns h c) \<Longrightarrow> hubReach (closeConnection c h) hist"

lemma sendRound_spec:
  assumes "clientOK cl" and "sendable sig"
  shows "\<exists>cl' p. sendRound sv enc n cl sig = Ret (cl', p) \<and> clientOK cl' \<and>
    (if hmSignal sig = SigNewTxs
     then cl' = cl\<lparr>clNewTxs := []\<rparr> \<and> p = Some (''newtxs'', if enc then PTxs (clNewTxs cl) else PEmpty) \<or> cl' = cl \<and> p = None
     else cl' = cl \<and> (\<forall>e x. p = Some (e, x) \<longrightarrow> (\<forall>ts. x \<noteq> PTxs ts)))"
proof -
  obtain b where b: "isSubscribed cl sig = Ret b"
    using isSubscribed_Ret[of sig cl] assms(2) by (auto simp: sendable_def)
  show ?thesis
    using assms by (cases "hmSignal sig"; cases b)
      (auto simp: sendRound_def b sendable_def subscribable_def signalString_def Let_def split: option.splits)
qed

text \<open>Requests keep the client well formed and its buffer. Two of them panic.\<close>

definition requestResult :: "'t client \<Rightarrow> 't client \<Rightarrow> bool" where
  "requestResult cl cl' \<longleftrightarrow> clNewTxs cl' = clNewTxs cl \<and> clKilled cl' = clKilled cl \<and>
     (clientOK cl \<and> \<not> clKilled cl \<longrightarrow> clientOK cl')"

lemma requestResult_refl [simp]: "requestResult cl cl"
  by (simp add: requestResult_def)

lemma subscribe_result:
  assumes "ValidateSubscription chk e = (sig, msg :: 't payload, True)"
  shows "\<exists>cl' ok. subscribe cl \<lparr>hmSignal = sig, hmMsg = msg\<rparr> = Ret (cl', ok, None) \<and> requestResult cl cl'"
  using Validate_cases[OF assms]
  by (auto simp: subscribe_def requestResult_def clientOK_def subscribable_def)

lemma unsubscribe_result:
  assumes "ValidateSubscription chk e = (sig, msg :: 't payload, True)"
  shows "\<exists>cl'. unsubscribe cl \<lparr>hmSignal = sig, hmMsg = msg\<rparr> = Ret (cl', None) \<and> requestResult cl cl'"
  using Validate_cases[OF assms]
  by (auto simp: unsubscribe_def requestResult_def clientOK_def subscribable_def Let_def)

definition requestDone :: "'t client \<Rightarrow> ('t client \<times> 'r) go \<Rightarrow> bool" where
  "requestDone cl z \<longleftrightarrow> (\<exists>cl' r. z = Ret (cl', r) \<and> requestResult cl cl')"

lemma requestDone_Ret [simp]: "requestDone cl (Ret (cl', r)) = requestResult cl cl'"
  by (simp add: requestDone_def)

lemma requestDone_if:
  "(b \<Longrightarrow> requestDone cl x) \<Longrightarrow> (\<not> b \<Longrightarrow> requestDone cl y) \<Longrightarrow> requestDone cl (if b then x else y)"
  by simp

definition crashes :: "('b, 'm) serverState \<Rightarrow> (string \<times> nat \<times> RequestMessage option) option \<Rightarrow> bool" where
  "crashes sv frame \<longleftrightarrow> frame = None \<or>
     (\<exists>len req. frame = Some (''getmempooltxs'', len, Some req) \<and> len \<le> maxPayloadBytes \<and> svInventory sv = None)"

lemma receiveRound_done:
  assumes "\<not> crashes sv frame"
  shows "requestDone cl (receiveRound sv frame (cl :: 't client))"
proof -
  obtain eventId len request where f: "frame = Some (eventId, len, request)"
    using assms by (cases frame) (auto simp: crashes_def)
  show ?thesis
  proof (cases request)
    case None
    then show ?thesis by (simp add: receiveRound_def Let_def f)
  next
    case (Some req)
    obtain sig and msg :: "'t payload" and valid
      where v: "ValidateSubscription (svCheckDecode sv) (rqMessage req) = (sig, msg, valid)" using prod_cases3 by blast
    have sub: "\<exists>cl' ok. subscribe cl \<lparr>hmSignal = sig, hmMsg = msg\<rparr> = Ret (cl', ok, None) \<and> requestResult cl cl'"
      and unsub: "\<exists>cl'. unsubscribe cl \<lparr>hmSignal = sig, hmMsg = msg\<rparr> = Ret (cl', None) \<and> requestResult cl cl'"
      if valid using v that subscribe_result[of "svCheckDecode sv" "rqMessage req" sig msg cl]
        unsubscribe_result[of "svCheckDecode sv" "rqMessage req" sig msg cl] by simp_all
    have inv: "len \<le> maxPayloadBytes \<Longrightarrow> eventId = ''getmempooltxs'' \<Longrightarrow> \<exists>i. svInventory sv = Some i"
      using assms by (auto simp: crashes_def f Some)
    show ?thesis unfolding receiveRound_def Let_def f Some option.case prod.case v
    proof (intro requestDone_if, goal_cases)
      case 2
      then show ?case using sub by (cases valid) auto
    next
      case 3
      then show ?case using unsub by (cases valid) auto
    next
      case 6
      then show ?case using inv by (auto split: option.split)
    qed (simp_all split: sum.split option.split)
  qed
qed

lemma receiveRound_spec:
  "receiveRound sv frame (cl :: 't client) = Ret (cl', r) \<Longrightarrow> requestResult cl cl'"
  using receiveRound_done[of sv frame cl]
  by (cases "crashes sv frame") (auto simp: requestDone_def crashes_def receiveRound_def Let_def split: if_splits)

lemma receiveRound_panics: "receiveRound sv frame cl = Panic \<longleftrightarrow> crashes sv frame"
  using receiveRound_done[of sv frame cl]
  by (cases "crashes sv frame") (auto simp: requestDone_def crashes_def receiveRound_def Let_def)

text \<open>The transactions that were written to a connection.\<close>

definition batches :: "(string \<times> ('t, 'b, 'm) pushed) list \<Rightarrow> 't list" where
  "batches ps = concat (map (\<lambda>(e, p). case p of PTxs ts \<Rightarrow> ts | _ \<Rightarrow> []) ps)"

lemma batches_simps [simp]: "batches [] = []" "batches (ps @ [(e, p)]) = batches ps @ (case p of PTxs ts \<Rightarrow> ts | _ \<Rightarrow> [])"
  by (simp_all add: batches_def)

text \<open>The transactions of a connection: those it took from its buffer, with the buffer, are \<open>ts\<close>; the batches that
  were written are those it wrote; one that was not sent is the last, and the loop has returned.\<close>

definition flowOK :: "('t, 'b, 'm) connection \<Rightarrow> 't list \<Rightarrow> bool" where
  "flowOK cn ts \<longleftrightarrow> concat (map fst (cnTaken cn)) @ clNewTxs (cnClient cn) = ts \<and>
     batches (cnPushed cn) = concat (map fst (filter (\<lambda>x. snd x = Written) (cnTaken cn))) \<and>
     NotSent \<notin> snd ` set (butlast (cnTaken cn)) \<and> (NotSent \<in> snd ` set (cnTaken cn) \<longrightarrow> cnSendDone cn)"

lemma flowOK_more:
  assumes "flowOK cn ts" "cnTaken cn' = cnTaken cn" "cnPushed cn' = cnPushed cn" "cnSendDone cn' = cnSendDone cn"
    and "clNewTxs (cnClient cn') = clNewTxs (cnClient cn) @ new"
  shows "flowOK cn' (ts @ new)"
  using assms by (auto simp: flowOK_def)

lemma flowOK_pushed:
  assumes "flowOK cn ts" "\<And>e x us. p = (e, x) \<Longrightarrow> x \<noteq> PTxs us"
  shows "flowOK (cn\<lparr>cnSpoke := rest, cnPushed := cnPushed cn @ (if sent then [p] else []), cnSendDone := cnSendDone cn \<or> \<not> sent\<rparr>) ts"
  using assms by (cases p) (auto simp: flowOK_def split: pushed.splits)

lemma flowOK_taken:
  assumes "flowOK cn ts" "\<not> cnSendDone cn" "cl = (cnClient cn)\<lparr>clNewTxs := []\<rparr>"
    and "p = (e, if enc then PTxs (clNewTxs (cnClient cn)) else PEmpty)"
  shows "flowOK (cn\<lparr>cnClient := cl, cnSpoke := rest, cnPushed := cnPushed cn @ (if sent then [p] else []),
    cnTaken := cnTaken cn @ [(clNewTxs (cnClient cn), if \<not> sent then NotSent else if enc then Written else NotEncoded)],
    cnSendDone := \<not> sent\<rparr>) ts"
  using assms by (auto simp: flowOK_def)

lemma sendLoopStep_spec:
  fixes h :: "('t, 'b, 'm) WebsocketHub"
  assumes "hubOK h"
  shows "\<exists>h'. sendLoopStep sv enc sent c h = Ret h' \<and> hubOK h' \<and> wsNext h' = wsNext h \<and>
    (\<forall>d ts. flowOK (wsConns h d) ts \<and> \<not> cnSendDone (wsConns h c) \<longrightarrow> flowOK (wsConns h' d) ts)"
proof (cases "cnSpoke (wsConns h c)")
  case Nil
  have "hubOK (mapConn c (\<lambda>cn. cn\<lparr>cnSendDone := True\<rparr>) h)"
    by (rule hubOK_mapConn) (use assms hubOK_conn[OF assms, of c] in \<open>auto simp: connOK_def\<close>)
  then show ?thesis using assms by (auto simp: sendLoopStep_def Let_def Nil flowOK_def)
next
  case (Cons sig rest)
  let ?cn = "wsConns h c"
  have c: "clientOK (cnClient ?cn)" "sendable sig" "length rest \<le> 16" "\<forall>m\<in>set rest. sendable m"
    using hubOK_conn[OF assms, of c] by (auto simp: connOK_def Cons)
  obtain cl p where r: "sendRound sv enc (wsNumClients h) (cnClient ?cn) sig = Ret (cl, p)" "clientOK cl"
    "if hmSignal sig = SigNewTxs
     then cl = (cnClient ?cn)\<lparr>clNewTxs := []\<rparr> \<and> p = Some (''newtxs'', if enc then PTxs (clNewTxs (cnClient ?cn)) else PEmpty)
          \<or> cl = cnClient ?cn \<and> p = None
     else cl = cnClient ?cn \<and> (\<forall>e x. p = Some (e, x) \<longrightarrow> (\<forall>ts. x \<noteq> PTxs ts))"
    using sendRound_spec[OF c(1,2), of sv enc "wsNumClients h"] by blast
  show ?thesis
  proof (cases p)
    case None
    have "hubOK (mapConn c (\<lambda>cn. cn\<lparr>cnClient := cl, cnSpoke := rest\<rparr>) h)"
      by (rule hubOK_mapConn) (use assms r(2) c in \<open>auto simp: connOK_def\<close>)
    moreover have "cl = cnClient ?cn" using r(3) None by (simp split: if_splits)
    ultimately show ?thesis using r(1) by (auto simp: sendLoopStep_def Let_def Cons None flowOK_def)
  next
    case (Some q)
    define batch where "batch = (if hmSignal sig = SigNewTxs
      then [(clNewTxs (cnClient ?cn), if \<not> sent then NotSent else if enc then Written else NotEncoded)] else [])"
    define f :: "('t, 'b, 'm) connection \<Rightarrow> ('t, 'b, 'm) connection"
      where "f = (\<lambda>cn. cn\<lparr>cnClient := cl, cnSpoke := rest, cnPushed := cnPushed cn @ (if sent then [q] else []),
        cnTaken := cnTaken cn @ batch, cnSendDone := \<not> sent\<rparr>)"
    have step: "sendLoopStep sv enc sent c h = Ret (mapConn c f h)"
      using r(1) by (simp add: sendLoopStep_def Let_def Cons Some f_def batch_def)
    have "hubOK (mapConn c f h)"
      by (rule hubOK_mapConn) (use assms r(2) c in \<open>auto simp: connOK_def f_def\<close>)
    moreover have "flowOK (f ?cn) ts" if "flowOK ?cn ts" "\<not> cnSendDone ?cn" for ts
    proof (cases "hmSignal sig = SigNewTxs")
      case True
      then have t: "cl = (cnClient ?cn)\<lparr>clNewTxs := []\<rparr>" "q = (''newtxs'', if enc then PTxs (clNewTxs (cnClient ?cn)) else PEmpty)"
        using r(3) Some by simp_all
      have b: "batch = [(clNewTxs (cnClient ?cn), if \<not> sent then NotSent else if enc then Written else NotEncoded)]"
        using True by (simp add: batch_def)
      show ?thesis unfolding f_def b by (rule flowOK_taken[OF that t])
    next
      case False
      then have t: "cl = cnClient ?cn" "\<And>e x us. q = (e, x) \<Longrightarrow> x \<noteq> PTxs us" using r(3) Some by auto
      show ?thesis using flowOK_pushed[OF that(1) t(2), where rest = rest and sent = sent] False that(2)
        by (simp add: f_def t(1) batch_def flowOK_def)
    qed
    ultimately show ?thesis using step by auto
  qed
qed

lemma unregisterClient_conn: "cnClient (wsConns (unregisterClient c h) d) = cnClient (wsConns h d)"
    "cnPushed (wsConns (unregisterClient c h) d) = cnPushed (wsConns h d)"
    "cnTaken (wsConns (unregisterClient c h) d) = cnTaken (wsConns h d)"
    "cnSendDone (wsConns (unregisterClient c h) d) = cnSendDone (wsConns h d)" "wsNext (unregisterClient c h) = wsNext h"
  by (simp_all add: unregisterClient_def setNumClients_def)

text \<open>What holds in every reachable state: the hub is well formed, and the transactions of a connection are
  those relayed since it registered.\<close>

definition hubInv :: "('t, 'b, 'm) WebsocketHub \<Rightarrow> (nat \<Rightarrow> 't list) \<Rightarrow> bool" where
  "hubInv h hist \<longleftrightarrow> hubOK h \<and> (\<forall>c\<ge>wsNext h. hist c = []) \<and>
     (\<forall>c<wsNext h. flowOK (wsConns h c) (hist c))"

lemma relay_idle: "wsClients h = [] \<or> \<not> messageIsValid m \<Longrightarrow> relay res order1 order2 m h = Ret h"
  unfolding relay_def by (cases "wsClients h = []") simp_all

lemma hubInv_relay:
  assumes "hubInv h hist" and "distinct order1" "set order1 = set (wsClients h)"
    and "distinct order2" "set order2 = set (wsClients h)"
    and "\<forall>c\<in>set (wsClients h). possible (res c) (wsConns h c)" and "relay res order1 order2 m h = Ret h'"
  shows "hubInv h' (\<lambda>c. hist c @ (if c \<in> set (wsClients h) then txOf m else []))"
proof (cases "wsClients h = [] \<or> \<not> messageIsValid m")
  case True
  have "txOf m = []" if "\<not> messageIsValid m"
    using that by (auto simp: txOf_def messageIsValid_def split: HubSignal.splits payload.splits option.splits)
  then have "\<forall>c. (if c \<in> set (wsClients h) then txOf m else []) = []" using True by auto
  moreover have "h' = h" using assms(7) relay_idle[OF True] by simp
  ultimately show ?thesis using assms(1) by simp
next
  case False
  have ok: "hubOK h" using assms(1) by (simp add: hubInv_def)
  from relay_relayed[OF ok _ _ assms(2-6), of m] False assms(7)
  have r: "relayed res order1 m h h'" by auto
  have "c < wsNext h" if "c \<in> set (wsClients h)" for c using ok that by (simp add: hubOK_def)
  moreover have "flowOK (wsConns h' c) (hist c @ (if c \<in> set (wsClients h) then txOf m else []))" if "c < wsNext h" for c
  proof (rule flowOK_more)
    show "flowOK (wsConns h c) (hist c)" using assms(1) that by (simp add: hubInv_def)
  qed (use r in \<open>simp_all add: relayed_def\<close>)
  ultimately show ?thesis using r assms(1) by (auto simp: hubInv_def relayed_def not_less[symmetric])
qed

lemma hubReach_inv: "hubReach h hist \<Longrightarrow> hubInv h hist"
proof (induction rule: hubReach.induct)
  case hub_start
  then show ?case using hubOK_new by (simp add: hubInv_def NewWebsocketHub_def)
next
  case (hub_register h hist)
  then have "hubOK (case NewClientHubSpoke h of (c, h') \<Rightarrow> registerClient c h')" by (intro hubOK_register) (simp add: hubInv_def)
  then show ?case using hub_register.IH
    by (auto simp: hubInv_def NewClientHubSpoke_def registerClient_def setNumClients_def newConnection_def newClient_def less_Suc_eq
        flowOK_def)
next
  case (hub_relay h hist order1 order2 res m h')
  then show ?case using hubInv_relay by blast
next
  case (hub_unregister h hist c)
  then show ?case by (simp add: hubInv_def hubOK_unregister unregisterClient_conn flowOK_def)
next
  case (hub_stop h hist)
  then show ?case by (auto simp: hubInv_def unregisterAllClients_def hubOK_def connOK_def flowOK_def)
next
  case (hub_tick h hist)
  then show ?case by (simp add: hubInv_def bufferTick_def)
next
  case (hub_signal h hist)
  then show ?case by (simp add: hubInv_def bufferSignal_def)
next
  case (hub_send h hist c sv enc sent h')
  then show ?case using sendLoopStep_spec[of h sv enc sent c] by (auto simp: hubInv_def)
next
  case (hub_receive h hist c sv frame cl r)
  have q: "requestResult (cnClient (wsConns h c)) cl"
    by (rule receiveRound_spec[OF hub_receive.hyps(4)])
  have ok: "hubOK h" using hub_receive.IH by (simp add: hubInv_def)
  then have "clientOK cl" using q hub_receive.hyps(3) connOK_client[OF hubOK_conn[OF ok]] by (simp add: requestResult_def)
  then have "hubOK (mapClient c (\<lambda>x. cl) h)" using hubOK_mapClient[OF ok] by simp
  then show ?case using hub_receive.IH q by (simp add: hubInv_def requestResult_def flowOK_def)
next
  case (hub_close h hist c)
  have "hubOK (closeConnection c h)" unfolding closeConnection_def
    by (rule hubOK_mapClient) (use hub_close.IH in \<open>auto simp: hubInv_def clientOK_def unsubscribeAll_def\<close>)
  then show ?case using hub_close.IH by (simp add: hubInv_def closeConnection_def unsubscribeAll_def flowOK_def)
qed

subsection \<open>The properties\<close>

text \<open>C32: in every reachable state of the hub the count of clients is right, exactly the registered connections
  have an open channel, no connection is subscribed to anything but the five broadcast signals, it is
  subscribed to address signals iff it watches an address, and no channel holds more than its capacity or a
  message that cannot be sent. No message of the event loop or of a send loop panics; a frame from
  a client panics the receive loop (and so the server) exactly in two cases: it is the JSON value \<open>null\<close>, or it is a request
  \<open>getmempooltxs\<close> within the size limit while the stored inventory is a nil pointer.\<close>

theorem hub_invariant:
  assumes "hubReach (h :: ('t, 'b, 'm) WebsocketHub) hist"
  shows "distinct (wsClients h) \<and> wsNumClients h = int (length (wsClients h)) \<and>
    (\<forall>c<wsNext h. \<not> cnClosed (wsConns h c) \<longleftrightarrow> c \<in> set (wsClients h)) \<and>
    (\<forall>c. clSubs (cnClient (wsConns h c)) \<subseteq> {SigNewBlock, SigMempoolUpdate, SigNewTxs, SigAddressTx, SigSyncStatus} \<and>
         (SigAddressTx \<in> clSubs (cnClient (wsConns h c)) \<longleftrightarrow> clAddrs (cnClient (wsConns h c)) \<noteq> {}) \<and>
         length (cnSpoke (wsConns h c)) \<le> 16 \<and> (\<forall>m\<in>set (cnSpoke (wsConns h c)). sendable m)) \<and>
    (\<forall>res order1 order2 m. distinct order1 \<and> set order1 = set (wsClients h) \<and>
         distinct order2 \<and> set order2 = set (wsClients h) \<and>
         (\<forall>c\<in>set (wsClients h). possible (res c) (wsConns h c)) \<longrightarrow> relay res order1 order2 m h \<noteq> Panic) \<and>
    (\<forall>sv enc sent c. sendLoopStep sv enc sent c h \<noteq> Panic) \<and>
    (\<forall>sv frame c. receiveRound (sv :: ('b, 'm) serverState) frame (cnClient (wsConns h c)) = Panic \<longleftrightarrow>
       frame = None \<or> (\<exists>len req. frame = Some (''getmempooltxs'', len, Some req) \<and> len \<le> maxPayloadBytes \<and> svInventory sv = None))"
proof (intro conjI allI impI)
  have ok: "hubOK h" using hubReach_inv[OF assms] by (simp add: hubInv_def)
  show "distinct (wsClients h)" "wsNumClients h = int (length (wsClients h))"
    using ok by (simp_all add: hubOK_def)
  show "\<not> cnClosed (wsConns h c) \<longleftrightarrow> c \<in> set (wsClients h)" if "c < wsNext h" for c
    using ok that by (simp add: hubOK_def)
  show "clSubs (cnClient (wsConns h c)) \<subseteq> {SigNewBlock, SigMempoolUpdate, SigNewTxs, SigAddressTx, SigSyncStatus}" for c
    using clSubs_subscribable[OF ok] by (simp add: subscribable_def)
  show "SigAddressTx \<in> clSubs (cnClient (wsConns h c)) \<longleftrightarrow> clAddrs (cnClient (wsConns h c)) \<noteq> {}" for c
    by (rule address_subscribed[OF ok])
  show "length (cnSpoke (wsConns h c)) \<le> 16" "\<forall>m\<in>set (cnSpoke (wsConns h c)). sendable m" for c
    using hubOK_conn[OF ok, of c] by (simp_all add: connOK_def)
  show "relay res order1 order2 m h \<noteq> Panic"
    if "distinct order1 \<and> set order1 = set (wsClients h) \<and> distinct order2 \<and> set order2 = set (wsClients h) \<and>
        (\<forall>c\<in>set (wsClients h). possible (res c) (wsConns h c))" for res order1 order2 m
    using relay_relayed[OF ok, of m order1 order2 res] that relay_idle[of h m res order1 order2]
    by (cases "wsClients h = [] \<or> \<not> messageIsValid m") auto
  show "sendLoopStep sv enc sent c h \<noteq> Panic" for sv :: "('b, 'm) serverState" and enc sent c
    using sendLoopStep_spec[OF ok, of sv enc sent c] by auto
  show "receiveRound sv frame (cnClient (wsConns h c)) = Panic \<longleftrightarrow>
       frame = None \<or> (\<exists>len req. frame = Some (''getmempooltxs'', len, Some req) \<and> len \<le> maxPayloadBytes \<and> svInventory sv = None)"
    for sv :: "('b, 'm) serverState" and frame c
    by (simp add: receiveRound_panics crashes_def)
qed

text \<open>C33: where a relayed message goes. It is for all registered connections if it is a ping or the
  goodbye, for those that subscribed to it if it is a block, mempool or sync message, and for those that
  watch the address if it is an address message; a new transaction is put in the buffer of every registered
  connection, and tells those that subscribed to transactions that their buffers are due, if they are: if the ticker
  has fired, or if the buffer of the connection that the first loop visits \<^emph>\<open>last\<close> is full (the comment of the source says, if at
  least one is). A connection that the message is for gets it in its channel, exactly once, if the hub
  can send to it; if the channel stays full until the timer fires it gets nothing; if it is gone it
  is unregistered. No other connection gets anything or is unregistered. (Both loops visit every registered
  connection once, in any order, and each send ends in a way that the state of the channel allows; relaying is one
  step, during which no send or receive loop runs.)\<close>

theorem relay_delivers:
  assumes "hubReach h hist" and "wsClients h \<noteq> []" and "messageIsValid m"
    and "distinct order1" "set order1 = set (wsClients h)"
    and "distinct order2" "set order2 = set (wsClients h)"
    and "\<forall>c\<in>set (wsClients h). possible (res c) (wsConns h c)"
    and "isDue \<longleftrightarrow> wsTimeToSend h \<or> NewTxBufferSize \<le> length (clNewTxs (cnClient (wsConns h (last order1)))) + 1"
  shows "\<exists>h'. relay res order1 order2 m h = Ret h' \<and>
    (\<forall>c. cnSpoke (wsConns h' c) = cnSpoke (wsConns h c) @
           (if c \<in> set (wsClients h) \<and> res c = Sent then receives isDue (cnClient (wsConns h c)) m else []) \<and>
         clNewTxs (cnClient (wsConns h' c)) = clNewTxs (cnClient (wsConns h c)) @
           (if c \<in> set (wsClients h) then txOf m else [])) \<and>
    wsClients h' = filter (\<lambda>c. \<not> (res c = Gone \<and> receives isDue (cnClient (wsConns h c)) m \<noteq> [])) (wsClients h)"
proof -
  have "hubOK h" using hubReach_inv[OF assms(1)] by (simp add: hubInv_def)
  moreover have "due order1 h = isDue" by (simp add: due_def assms(9))
  ultimately show ?thesis using relay_relayed[OF _ assms(2-8)] by (auto simp: relayed_def)
qed

text \<open>C34: the way of the transactions to a connection. At any time, the batches that its send loop has taken from
  its buffer, followed by its buffer, are exactly the transactions that were relayed while it was registered: none is
  duplicated or reordered. What was written to the websocket are, in order, the batches that were encoded
  and sent. The others are lost: one that could not be encoded, and one that could not be sent, which can
  only be the last and ends the send loop. So as long as the loop runs and nothing failed to be
  encoded, what was written with the buffer is everything.\<close>

theorem transactions_conserved:
  assumes "hubReach h hist" and "c < wsNext h" and "cn = wsConns h c"
  shows "concat (map fst (cnTaken cn)) @ clNewTxs (cnClient cn) = hist c \<and>
    batches (cnPushed cn) = concat (map fst (filter (\<lambda>x. snd x = Written) (cnTaken cn))) \<and>
    NotSent \<notin> snd ` set (butlast (cnTaken cn)) \<and> (NotSent \<in> snd ` set (cnTaken cn) \<longrightarrow> cnSendDone cn) \<and>
    (\<not> cnSendDone cn \<and> NotEncoded \<notin> snd ` set (cnTaken cn) \<longrightarrow> batches (cnPushed cn) @ clNewTxs (cnClient cn) = hist c)"
proof -
  have f: "flowOK cn (hist c)" using hubReach_inv[OF assms(1)] assms(2,3) by (simp add: hubInv_def)
  have "filter (\<lambda>x. snd x = Written) (cnTaken cn) = cnTaken cn"
    if "\<not> cnSendDone cn" "NotEncoded \<notin> snd ` set (cnTaken cn)"
  proof (rule filter_True, rule ballI)
    fix x assume "x \<in> set (cnTaken cn)"
    then have "snd x \<noteq> NotEncoded" "snd x \<noteq> NotSent" using that f by (auto simp: flowOK_def image_iff)
    then show "snd x = Written" by (cases "snd x") auto
  qed
  then show ?thesis using f by (auto simp: flowOK_def)
qed

text \<open>A connection whose send loop took no batch keeps every transaction, however many there are.\<close>

lemma unread_buffer_grows:
  assumes "hubReach h hist" and "c < wsNext h" and "cnTaken (wsConns h c) = []"
  shows "clNewTxs (cnClient (wsConns h c)) = hist c"
proof -
  have "flowOK (wsConns h c) (hist c)" using hubReach_inv[OF assms(1)] assms(2) by (simp add: hubInv_def)
  then show ?thesis by (simp add: flowOK_def assms(3))
qed

text \<open>A frame of four letters stops the receive loop of its connection with a nil dereference.\<close>

lemma null_frame_panics: "receiveRound sv None cl = Panic"
  by (simp add: receiveRound_def)

text \<open>Whether buffers are sent is decided by the client that is visited last: five transactions wait for the
  first client, but the second one has only one.\<close>

lemma last_client_decides:
  assumes "length (clNewTxs (cnClient (wsConns h c))) = 4" and "clNewTxs (cnClient (wsConns h d)) = []" and "c \<noteq> d"
  shows "snd (addTxToBuffers tx [c, d] False h) = False" "snd (addTxToBuffers tx [d, c] False h) = True"
  using assms by (simp_all add: addTx_def Let_def NewTxBufferSize_def)

subsection \<open>An example run\<close>

definition exServer :: "(unit, unit) serverState" where
  "exServer = \<lparr>svBlock = None, svInventory = None, svDecodeRaw = (\<lambda>s. Inl s), svSendRaw = (\<lambda>s. Inl s),
     svTrimmedMempool = (\<lambda>m. None), svVersion = Some ''3.2.0'', svCheckDecode = (\<lambda>s. False)\<rparr>"

definition exSubscriber :: "nat client" where
  "exSubscriber = (newClient 0)\<lparr>clSubs := {SigNewTxs}\<rparr>"

definition exHub :: "(nat, unit, unit) WebsocketHub" where
  "exHub = bufferTick (mapClient 0 (\<lambda>x. exSubscriber)
     (case NewClientHubSpoke NewWebsocketHub of (c, h) \<Rightarrow> registerClient c h))"

definition exHubTx :: "(nat, unit, unit) WebsocketHub" where
  "exHubTx = (case relay (\<lambda>c. Sent) [0] [0] \<lparr>hmSignal = SigNewTx, hmMsg = MsgTx (Some 7)\<rparr> exHub of Ret h \<Rightarrow> h | Panic \<Rightarrow> exHub)"

lemma exHub_fields:
  "wsClients exHub = [0]" "wsNext exHub = 1" "wsTimeToSend exHub = True" "wsNumClients exHub = 1"
  "wsConns exHub 0 = (newConnection 0)\<lparr>cnClient := exSubscriber\<rparr>"
  by (simp_all add: exHub_def bufferTick_def NewClientHubSpoke_def registerClient_def setNumClients_def NewWebsocketHub_def)

lemma exHub_reach: "hubReach exHub (\<lambda>c. [])"
proof -
  let ?h = "(case NewClientHubSpoke NewWebsocketHub of (c, h) \<Rightarrow> registerClient c h) :: (nat, unit, unit) WebsocketHub"
  have h: "hubReach ?h (\<lambda>c. [])" by (rule hub_register[OF hub_start])
  have "wsConns ?h 0 = newConnection 0" "wsNext ?h = 1"
    by (simp_all add: NewClientHubSpoke_def registerClient_def setNumClients_def NewWebsocketHub_def)
  moreover have "\<exists>r. receiveRound exServer (Some (''subscribe'', 8, Some \<lparr>rqRequestId = 1, rqMessage = ''newtxs''\<rparr>))
      (newClient 0 :: nat client) = Ret (exSubscriber, r)"
    by (simp add: receiveRound_def Let_def maxPayloadBytes_def ValidateSubscription_def splitEvent_def Subscriptions_def
        subscribe_def exSubscriber_def newClient_def)
  ultimately have "hubReach (mapClient 0 (\<lambda>x. exSubscriber) ?h) (\<lambda>c. [])"
    using hub_receive[OF h, of 0 exServer] by (auto simp: newConnection_def newClient_def)
  then show ?thesis unfolding exHub_def by (rule hub_tick)
qed

lemma exHub_possible: "\<forall>c\<in>set (wsClients exHub). possible Sent (wsConns exHub c)"
  by (simp add: exHub_fields possible_def newConnection_def)

lemma exHub_relay: "relay (\<lambda>c. Sent) [0] [0] \<lparr>hmSignal = SigNewTx, hmMsg = MsgTx (Some 7)\<rparr> exHub = Ret exHubTx"
  using relay_relayed[of exHub "\<lparr>hmSignal = SigNewTx, hmMsg = MsgTx (Some 7)\<rparr>" "[0]" "[0]" "\<lambda>c. Sent"]
    hubReach_inv[OF exHub_reach] exHub_possible
  by (auto simp: exHubTx_def hubInv_def exHub_fields messageIsValid_def)

lemma exHubTx_reach: "hubReach exHubTx (\<lambda>c. if c = 0 then [7] else [])"
  using hub_relay[OF exHub_reach, of "[0]" "[0]" "\<lambda>c. Sent", OF _ _ _ _ exHub_possible exHub_relay]
  by (simp add: exHub_fields txOf_def if_distrib cong: if_cong)

theorem hub_invariant_witness:
  "wsNumClients exHubTx = int (length (wsClients exHubTx)) \<and> length (cnSpoke (wsConns exHubTx 0)) \<le> 16"
proof -
  note inv = hub_invariant[OF exHubTx_reach]
  note conns = conjunct1[OF conjunct2[OF conjunct2[OF conjunct2[OF inv]]]]
  show ?thesis using conjunct1[OF conjunct2[OF inv]] spec[OF conns, of 0] by simp
qed

theorem relay_delivers_witness:
  "\<exists>h'. relay (\<lambda>c. Sent) [0] [0] \<lparr>hmSignal = SigNewTx, hmMsg = MsgTx (Some 7)\<rparr> exHub = Ret h' \<and>
    cnSpoke (wsConns h' 0) = [\<lparr>hmSignal = SigNewTxs, hmMsg = MsgTxs []\<rparr>] \<and> clNewTxs (cnClient (wsConns h' 0)) = [7]"
proof -
  let ?m = "\<lparr>hmSignal = SigNewTx, hmMsg = MsgTx (Some 7)\<rparr> :: nat HubMessage"
  have "receives True (cnClient (wsConns exHub 0)) ?m = [\<lparr>hmSignal = SigNewTxs, hmMsg = MsgTxs []\<rparr>]"
    by (simp add: receives_def exHub_fields exSubscriber_def txOf_def)
  then show ?thesis
    using relay_delivers[OF exHub_reach, of ?m "[0]" "[0]" "\<lambda>c. Sent" True, OF _ _ _ _ _ _ exHub_possible]
    by (auto simp: exHub_fields messageIsValid_def txOf_def exSubscriber_def newClient_def newConnection_def)
qed

theorem transactions_conserved_witness:
  "concat (map fst (cnTaken (wsConns exHubTx 0))) @ clNewTxs (cnClient (wsConns exHubTx 0)) = [7]"
proof -
  have "wsNext exHubTx = 1"
    using hubReach_inv[OF exHub_reach] relay_relayed[of exHub "\<lparr>hmSignal = SigNewTx, hmMsg = MsgTx (Some 7)\<rparr>" "[0]" "[0]" "\<lambda>c. Sent"]
      exHub_relay exHub_possible by (auto simp: relayed_def exHub_fields messageIsValid_def hubInv_def)
  then show ?thesis using transactions_conserved[OF exHubTx_reach, of 0] by simp
qed

end
