(* ===== verification/PubSubClient.thy ===== *)
theory PubSubClient
  imports PubSubHub
begin

text \<open>
  The client of the publish and subscribe server (\<open>pubsub/psclient/client.go\<close>): the decoder of
  the server's messages, the requests with their ids, and one round of the receiver. The JSON codec
  is a record of functions, one to marshal and one to unmarshal per type; nothing is assumed of it but where a property
  says so, since \<open>encoding/json\<close> does not invert itself on every type (fields tagged \<open>json:"-"\<close>). The theory ends with properties of the client and the server together.
\<close>

subsection \<open>Decoding\<close>

record ('j, 't, 'b, 'm) jsonCodec =
  jRequest :: "RequestMessage \<Rightarrow> 'j"
  jResponse :: "ResponseMessage \<Rightarrow> 'j"
  jString :: "string \<Rightarrow> 'j"
  jInt :: "int \<Rightarrow> 'j"
  jAddress :: "AddressMessage \<Rightarrow> 'j"
  jTxs :: "'t list \<Rightarrow> 'j"
  jBlock :: "'b \<Rightarrow> 'j"
  jMempool :: "'m \<Rightarrow> 'j"
  jNull :: 'j
  uRequest :: "'j \<Rightarrow> string + RequestMessage"
  uResponse :: "'j \<Rightarrow> string + ResponseMessage"
  uString :: "'j \<Rightarrow> string + string"
  uInt :: "'j \<Rightarrow> string + int"
  uAddress :: "'j \<Rightarrow> string + AddressMessage"
  uTxs :: "'j \<Rightarrow> string + 't list"
  uBlock :: "'j \<Rightarrow> string + 'b"
  uMempool :: "'j \<Rightarrow> string + 'm"

datatype ('t, 'b, 'm) decoded =
    DResponse ResponseMessage | DString string | DHangUp | DInt int | DAddress AddressMessage
  | DTxs "'t list" | DBlock 'b | DMempool 'm

definition hasSuffix :: "string \<Rightarrow> string \<Rightarrow> bool" where
  "hasSuffix s suf = (length suf \<le> length s \<and> drop (length s - length suf) s = suf)"

fun mapOk :: "('a \<Rightarrow> 'b) \<Rightarrow> string + 'a \<Rightarrow> string + 'b" where
  "mapOk f (Inl e) = Inl e"
| "mapOk f (Inr x) = Inr (f x)"

definition DecodeMsg :: "('j, 't, 'b, 'm) jsonCodec \<Rightarrow> (string \<times> 'j) option \<Rightarrow> string + ('t, 'b, 'm) decoded" where
  "DecodeMsg E msg = (case msg of
     None \<Rightarrow> Inl ''empty message''
   | Some (eventId, content) \<Rightarrow>
       if hasSuffix eventId ''Resp'' then mapOk DResponse (uResponse E content)
       else if eventId = ''message'' then mapOk DString (uString E content)
       else if eventId = ''bye'' then Inr DHangUp
       else if eventId = ''ping'' then mapOk DInt (uInt E content)
       else if eventId = ''address'' then mapOk DAddress (uAddress E content)
       else if eventId = ''newtxs'' then mapOk DTxs (uTxs E content)
       else if eventId = ''newblock'' then mapOk DBlock (uBlock E content)
       else if eventId = ''mempool'' then mapOk DMempool (uMempool E content)
       else Inl ''unrecognized event type'')"

definition DecodeMsgString :: "('j, 't, 'b, 'm) jsonCodec \<Rightarrow> (string \<times> 'j) option \<Rightarrow> string + string" where
  "DecodeMsgString E msg = (case DecodeMsg E msg of
     Inl e \<Rightarrow> Inl e | Inr (DString s) \<Rightarrow> Inr s | Inr _ \<Rightarrow> Inl ''content of Message was not of type string'')"

definition DecodeMsgInt :: "('j, 't, 'b, 'm) jsonCodec \<Rightarrow> (string \<times> 'j) option \<Rightarrow> string + int" where
  "DecodeMsgInt E msg = (case DecodeMsg E msg of
     Inl e \<Rightarrow> Inl e | Inr (DInt i) \<Rightarrow> Inr i | Inr _ \<Rightarrow> Inl ''content of Message was not of type int'')"

definition DecodeResponseMsg :: "('j, 't, 'b, 'm) jsonCodec \<Rightarrow> (string \<times> 'j) option \<Rightarrow> string + ResponseMessage" where
  "DecodeResponseMsg E msg = (case DecodeMsg E msg of
     Inl e \<Rightarrow> Inl e | Inr (DResponse r) \<Rightarrow> Inr r
   | Inr _ \<Rightarrow> Inl ''content of Message was not of type *pstypes.ResponseMessage'')"

definition DecodeMsgTxList :: "('j, 't, 'b, 'm) jsonCodec \<Rightarrow> (string \<times> 'j) option \<Rightarrow> string + 't list" where
  "DecodeMsgTxList E msg = (case DecodeMsg E msg of
     Inl e \<Rightarrow> Inl e | Inr (DTxs ts) \<Rightarrow> Inr ts | Inr _ \<Rightarrow> Inl ''content of Message was not of type *pstypes.TxList'')"

definition DecodeMsgMempool :: "('j, 't, 'b, 'm) jsonCodec \<Rightarrow> (string \<times> 'j) option \<Rightarrow> string + 'm" where
  "DecodeMsgMempool E msg = (case DecodeMsg E msg of
     Inl e \<Rightarrow> Inl e | Inr (DMempool m) \<Rightarrow> Inr m
   | Inr _ \<Rightarrow> Inl ''content of Message was not of type *exptypes.MempoolShort'')"

definition DecodeMsgNewBlock :: "('j, 't, 'b, 'm) jsonCodec \<Rightarrow> (string \<times> 'j) option \<Rightarrow> string + 'b" where
  "DecodeMsgNewBlock E msg = (case DecodeMsg E msg of
     Inl e \<Rightarrow> Inl e | Inr (DBlock b) \<Rightarrow> Inr b
   | Inr _ \<Rightarrow> Inl ''content of Message was not of type *exptypes.WebsocketBlock'')"

definition DecodeMsgNewAddressTx :: "('j, 't, 'b, 'm) jsonCodec \<Rightarrow> (string \<times> 'j) option \<Rightarrow> string + AddressMessage" where
  "DecodeMsgNewAddressTx E msg = (case DecodeMsg E msg of
     Inl e \<Rightarrow> Inl e | Inr (DAddress a) \<Rightarrow> Inr a
   | Inr _ \<Rightarrow> Inl ''content of Message was not of type *pstypes.AddressMessage'')"

subsection \<open>Requests\<close>

text \<open>The ids for which a call waits on its channel; the calls that have returned, with their responses; the
  channel of the receiver, and whether the receiver has returned and closed it.\<close>

record ('t, 'b, 'm) Client =
  pcNextRequestID :: "64 word"
  pcRequests :: "64 word set"
  pcReturned :: "(64 word \<times> ResponseMessage) list"
  pcRecv :: "(string \<times> ('t, 'b, 'm) decoded) list"
  pcDone :: bool

definition NewFromConn :: "('t, 'b, 'm) Client" where
  "NewFromConn = \<lparr>pcNextRequestID = 0, pcRequests = {}, pcReturned = [], pcRecv = [], pcDone = False\<rparr>"

definition newRequestID :: "('t, 'b, 'm) Client \<Rightarrow> 64 word \<times> ('t, 'b, 'm) Client" where
  "newRequestID c = (pcNextRequestID c, c\<lparr>pcNextRequestID := pcNextRequestID c + 1\<rparr>)"

definition newResponseChan :: "('t, 'b, 'm) Client \<Rightarrow> 64 word \<times> ('t, 'b, 'm) Client" where
  "newResponseChan c = (pcNextRequestID c,
     c\<lparr>pcNextRequestID := pcNextRequestID c + 1, pcRequests := insert (pcNextRequestID c) (pcRequests c)\<rparr>)"

definition deleteRequestID :: "64 word \<Rightarrow> ('t, 'b, 'm) Client \<Rightarrow> ('t, 'b, 'm) Client" where
  "deleteRequestID i c = c\<lparr>pcRequests := pcRequests c - {i}\<rparr>"

text \<open>The message of a request, whose event loses its surrounding double quotes.\<close>

definition trimQuotes :: "string \<Rightarrow> string" where
  "trimQuotes s = rev (dropWhile (\<lambda>c. c = CHR 0x22) (rev (dropWhile (\<lambda>c. c = CHR 0x22) s)))"

definition requestMsg :: "string \<Rightarrow> string \<Rightarrow> 64 word \<Rightarrow> string \<times> RequestMessage" where
  "requestMsg eventId event reqID = (eventId, \<lparr>rqRequestId = reqID, rqMessage = trimQuotes event\<rparr>)"

text \<open>
  The calls up to the point where they wait for the response: an error, or the message that was sent. \<open>ok\<close> says whether
  sending succeeds, \<open>name\<close> is how the error calls the message.
\<close>

definition startCall :: "bool \<Rightarrow> string \<Rightarrow> string \<Rightarrow> string \<Rightarrow> ('t, 'b, 'm) Client
    \<Rightarrow> (string + string \<times> RequestMessage) \<times> ('t, 'b, 'm) Client" where
  "startCall ok name eventId event c = (let (reqID, c') = newResponseChan c in
     if \<not> ok then (Inl (''failed to send '' @ name @ '' message''), deleteRequestID reqID c')
     else (Inr (requestMsg eventId event reqID), c'))"

definition Subscribe :: "(string \<Rightarrow> bool) \<Rightarrow> bool \<Rightarrow> string \<Rightarrow> ('t, 'b, 'm) Client
    \<Rightarrow> (string + string \<times> RequestMessage) \<times> ('t, 'b, 'm) Client" where
  "Subscribe chk ok event c = (case ValidateSubscription chk event :: HubSignal \<times> 't payload \<times> bool of
     (_, _, False) \<Rightarrow> (Inl (''invalid subscription '' @ event), c)
   | (_, _, True) \<Rightarrow> startCall ok ''subscribe'' ''subscribe'' event c)"

definition Unsubscribe :: "(string \<Rightarrow> bool) \<Rightarrow> bool \<Rightarrow> string \<Rightarrow> ('t, 'b, 'm) Client
    \<Rightarrow> (string + string \<times> RequestMessage) \<times> ('t, 'b, 'm) Client" where
  "Unsubscribe chk ok event c = (case ValidateSubscription chk event :: HubSignal \<times> 't payload \<times> bool of
     (_, _, False) \<Rightarrow> (Inl (''invalid subscription '' @ event), c)
   | (_, _, True) \<Rightarrow> startCall ok ''unsubscribe'' ''unsubscribe'' event c)"

definition ServerVersion :: "bool \<Rightarrow> ('t, 'b, 'm) Client \<Rightarrow> (string + string \<times> RequestMessage) \<times> ('t, 'b, 'm) Client" where
  "ServerVersion ok c = startCall ok ''unsubscribe'' ''version'' [] c"

text \<open>What \<open>ServerVersion\<close> makes of the response; \<open>uVer\<close> unmarshals a version.\<close>

definition versionResult :: "(string \<Rightarrow> string + 'v) \<Rightarrow> ResponseMessage \<Rightarrow> string + 'v" where
  "versionResult uVer resp =
     (if \<not> rmSuccess resp then Inl ''failed to obtain server version''
      else case uVer (rmData resp) of
        Inl err \<Rightarrow> Inl (''failed to decode server version response: '' @ err)
      | Inr ver \<Rightarrow> Inr ver)"

text \<open>A ping does not wait; its id is deleted at once.\<close>

definition Ping :: "bool \<Rightarrow> ('t, 'b, 'm) Client \<Rightarrow> (string + string \<times> RequestMessage) \<times> ('t, 'b, 'm) Client" where
  "Ping ok c = (let (r, c') = startCall ok ''ping'' ''ping'' [] c in (r, deleteRequestID (pcNextRequestID c) c'))"

text \<open>One round of \<open>receiver\<close>: what \<open>receiveMsg\<close> returned. A response goes to the call that waits for it, which
  returns and deletes its id.\<close>

definition receiverRound :: "('j, 't, 'b, 'm) jsonCodec \<Rightarrow> string + string \<times> 'j \<Rightarrow> ('t, 'b, 'm) Client \<Rightarrow> ('t, 'b, 'm) Client" where
  "receiverRound E received c = (case received of
     Inl err \<Rightarrow> c\<lparr>pcDone := True\<rparr>
   | Inr resp \<Rightarrow> (case DecodeMsg E (Some resp) of
       Inl err \<Rightarrow> c
     | Inr (DResponse m) \<Rightarrow>
         if rmRequestId m \<notin> pcRequests c then c
         else deleteRequestID (rmRequestId m) (c\<lparr>pcReturned := pcReturned c @ [(rmRequestId m, m)]\<rparr>)
     | Inr DHangUp \<Rightarrow> c\<lparr>pcRecv := pcRecv c @ [(fst resp, DHangUp)], pcDone := True\<rparr>
     | Inr d \<Rightarrow> c\<lparr>pcRecv := pcRecv c @ [(fst resp, d)]\<rparr>))"

subsection \<open>Requests and responses\<close>

text \<open>The states of a client after some calls: the number of ids issued so far, and the client.\<close>

inductive clientReach :: "('j, 't, 'b, 'm) jsonCodec \<Rightarrow> nat \<Rightarrow> ('t, 'b, 'm) Client \<Rightarrow> bool" for E where
  cl_start: "clientReach E 0 NewFromConn"
| cl_call: "clientReach E n c \<Longrightarrow> startCall ok name eventId event c = (r, c') \<Longrightarrow> clientReach E (n + 1) c'"
| cl_ping: "clientReach E n c \<Longrightarrow> Ping ok c = (r, c') \<Longrightarrow> clientReach E (n + 1) c'"
| cl_receive: "clientReach E n c \<Longrightarrow> \<not> pcDone c \<Longrightarrow> clientReach E n (receiverRound E received c)"

definition idsBelow :: "nat \<Rightarrow> 64 word set" where
  "idsBelow n = word_of_nat ` {..<n}"

definition clientInv :: "nat \<Rightarrow> ('t, 'b, 'm) Client \<Rightarrow> bool" where
  "clientInv n c \<longleftrightarrow> pcNextRequestID c = word_of_nat n \<and> pcRequests c \<subseteq> idsBelow n \<and>
     fst ` set (pcReturned c) \<subseteq> idsBelow n \<and> pcRequests c \<inter> fst ` set (pcReturned c) = {} \<and>
     distinct (map fst (pcReturned c)) \<and> (\<forall>(i, r)\<in>set (pcReturned c). rmRequestId r = i)"

lemma idsBelow_Suc: "idsBelow (Suc n) = insert (word_of_nat n) (idsBelow n)"
  by (simp add: idsBelow_def lessThan_Suc)

lemma word_of_nat_fresh: "n < 2 ^ 64 \<Longrightarrow> (word_of_nat n :: 64 word) \<notin> idsBelow n"
proof
  assume n: "n < 2 ^ 64" and "(word_of_nat n :: 64 word) \<in> idsBelow n"
  then obtain k where "k < n" "(word_of_nat n :: 64 word) = word_of_nat k" by (auto simp: idsBelow_def)
  then show False using n by (auto simp: word_of_nat_eq_iff take_bit_nat_eq_self)
qed

lemma clientInv_issue:
  assumes "clientInv n c" and "n < 2 ^ 64" and "pcNextRequestID c' = pcNextRequestID c + 1"
    and "pcReturned c' = pcReturned c" and "pcRequests c' \<subseteq> insert (pcNextRequestID c) (pcRequests c)"
  shows "clientInv (Suc n) c'"
proof -
  let ?ret = "fst ` set (pcReturned c)"
  have c: "pcNextRequestID c = word_of_nat n" "pcRequests c \<subseteq> idsBelow n" "?ret \<subseteq> idsBelow n"
      "pcRequests c \<inter> ?ret = {}" "distinct (map fst (pcReturned c))"
      "\<forall>(i, r)\<in>set (pcReturned c). rmRequestId r = i"
    using assms(1) by (simp_all add: clientInv_def)
  have "pcRequests c' \<subseteq> idsBelow (Suc n)" "?ret \<subseteq> idsBelow (Suc n)"
    using order_trans[OF assms(5) insert_mono[OF c(2)]] c(1) order_trans[OF c(3) subset_insertI]
    by (simp_all add: idsBelow_Suc)
  moreover have "pcRequests c' \<inter> ?ret = {}"
  proof -
    have "pcNextRequestID c \<notin> ?ret" using word_of_nat_fresh[OF assms(2)] c(1,3) by (metis subsetD)
    then have "insert (pcNextRequestID c) (pcRequests c) \<inter> ?ret = {}" using c(4) by simp
    then show ?thesis using Int_mono[OF assms(5) order_refl, of ?ret] by (metis subset_empty)
  qed
  moreover have "pcNextRequestID c' = word_of_nat (Suc n)" using assms(3) c(1) by simp
  ultimately show ?thesis unfolding clientInv_def assms(4) using c(5,6) by (intro conjI)
qed

lemma startCall_fields:
  assumes "startCall ok name eventId event c = (r, c')"
  shows "pcNextRequestID c' = pcNextRequestID c + 1" "pcReturned c' = pcReturned c"
    "pcRequests c' \<subseteq> insert (pcNextRequestID c) (pcRequests c)"
  using assms by (auto simp: startCall_def newResponseChan_def deleteRequestID_def Let_def split: if_splits)

lemma startCall_inv:
  assumes "clientInv n c" and "n < 2 ^ 64" and "startCall ok name eventId event c = (r, c')"
  shows "clientInv (Suc n) c'" and "clientInv (Suc n) (deleteRequestID i c')"
proof -
  note f = startCall_fields[OF assms(3)]
  show "clientInv (Suc n) c'" by (rule clientInv_issue[OF assms(1,2) f])
  show "clientInv (Suc n) (deleteRequestID i c')"
    by (rule clientInv_issue[OF assms(1,2)]) (use f in \<open>auto simp: deleteRequestID_def\<close>)
qed

lemma receiverRound_inv:
  assumes "clientInv n c"
  shows "clientInv n (receiverRound E received c)"
  using assms
  by (auto simp: receiverRound_def clientInv_def deleteRequestID_def split: sum.splits decoded.splits)

lemma clientReach_inv: "clientReach E n c \<Longrightarrow> n \<le> 2 ^ 64 \<Longrightarrow> clientInv n c"
proof (induction rule: clientReach.induct)
  case cl_start
  then show ?case by (simp add: clientInv_def NewFromConn_def)
next
  case (cl_call n c ok name eventId event r c')
  then show ?case using startCall_inv(1)[OF _ _ cl_call.hyps(2)] by simp
next
  case (cl_ping n c ok r c')
  obtain r1 c1 where s: "startCall ok ''ping'' ''ping'' [] c = (r1, c1)" by force
  show ?case using startCall_inv(2)[OF _ _ s, of n "pcNextRequestID c"] cl_ping by (auto simp: Ping_def s)
next
  case (cl_receive n c received)
  then show ?case using receiverRound_inv by blast
qed

text \<open>whatever the server sends, every call of the client gets at most one response, it is one to its own
  request id, and no two calls are given the same id (as long as at most \<open>2 ^ 64\<close> ids were issued).\<close>

theorem responses_match_requests:
  assumes "clientReach E n c" and "n \<le> 2 ^ 64"
  shows "distinct (map fst (pcReturned c)) \<and> (\<forall>(i, r)\<in>set (pcReturned c). rmRequestId r = i) \<and>
    pcRequests c \<inter> fst ` set (pcReturned c) = {} \<and>
    (n < 2 ^ 64 \<longrightarrow> pcNextRequestID c \<notin> pcRequests c \<union> fst ` set (pcReturned c))"
proof -
  have i: "clientInv n c" by (rule clientReach_inv[OF assms])
  moreover have "pcNextRequestID c \<notin> pcRequests c \<union> fst ` set (pcReturned c)" if "n < 2 ^ 64"
    using i word_of_nat_fresh[OF that] by (auto simp: clientInv_def)
  ultimately show ?thesis by (simp add: clientInv_def)
qed

text \<open>After the receiver has returned, a waiting call gets no response any more.\<close>

lemma pending_call_stranded:
  assumes "i \<in> pcRequests c" and "i \<noteq> pcNextRequestID c" and "startCall ok name eventId event c = (r, c')"
  shows "i \<in> pcRequests c' \<and> pcReturned c' = pcReturned c"
  using assms by (auto simp: startCall_def newResponseChan_def deleteRequestID_def Let_def split: if_splits)

subsection \<open>The server and the client\<close>

definition encodePushed :: "('j, 't, 'b, 'm) jsonCodec \<Rightarrow> ('t, 'b, 'm) pushed \<Rightarrow> 'j" where
  "encodePushed E p = (case p of
     PAddr am \<Rightarrow> jAddress E am | PBlock b \<Rightarrow> jBlock E b | PMempool m \<Rightarrow> jMempool E m | PCount n \<Rightarrow> jInt E n
   | PTxs ts \<Rightarrow> jTxs E ts | PBye \<Rightarrow> jString E ''The hdfdata server is shutting down. Bye!'' | PEmpty \<Rightarrow> jNull E)"

text \<open>The client's reading of a message that was not empty: the content unmarshalled as the type that was marshalled.\<close>

definition rereadAs :: "('j, 't, 'b, 'm) jsonCodec \<Rightarrow> ('t, 'b, 'm) pushed \<Rightarrow> string + ('t, 'b, 'm) decoded" where
  "rereadAs E p = (case p of
     PAddr am \<Rightarrow> mapOk DAddress (uAddress E (jAddress E am))
   | PBlock b \<Rightarrow> mapOk DBlock (uBlock E (jBlock E b))
   | PMempool m \<Rightarrow> mapOk DMempool (uMempool E (jMempool E m))
   | PCount n \<Rightarrow> mapOk DInt (uInt E (jInt E n))
   | PTxs ts \<Rightarrow> mapOk DTxs (uTxs E (jTxs E ts))
   | _ \<Rightarrow> Inr DHangUp)"

lemma not_Resp [simp]:
  "\<not> hasSuffix ''bye'' ''Resp''" "\<not> hasSuffix ''ping'' ''Resp''" "\<not> hasSuffix ''address'' ''Resp''"
  "\<not> hasSuffix ''newtxs'' ''Resp''" "\<not> hasSuffix ''newblock'' ''Resp''" "\<not> hasSuffix ''mempool'' ''Resp''"
  by (simp_all add: hasSuffix_def)

lemma Resp_suffix [simp]: "hasSuffix (e @ ''Resp'') ''Resp''"
  by (simp add: hasSuffix_def)

lemma DecodeMsg_event:
  "DecodeMsg E (Some (''address'', x)) = mapOk DAddress (uAddress E x)"
  "DecodeMsg E (Some (''newtxs'', x)) = mapOk DTxs (uTxs E x)"
  "DecodeMsg E (Some (''newblock'', x)) = mapOk DBlock (uBlock E x)"
  "DecodeMsg E (Some (''mempool'', x)) = mapOk DMempool (uMempool E x)"
  "DecodeMsg E (Some (''ping'', x)) = mapOk DInt (uInt E x)"
  "DecodeMsg E (Some (''bye'', x)) = Inr DHangUp"
  by (simp_all add: DecodeMsg_def)

definition eventOf :: "('t, 'b, 'm) pushed \<Rightarrow> string set" where
  "eventOf p = (case p of
     PAddr am \<Rightarrow> {''address''} | PBlock b \<Rightarrow> {''newblock''} | PMempool m \<Rightarrow> {''mempool''} | PCount n \<Rightarrow> {''ping''}
   | PTxs ts \<Rightarrow> {''newtxs''} | PBye \<Rightarrow> {''bye''} | PEmpty \<Rightarrow> {''newblock'', ''mempool'', ''address'', ''newtxs''})"

lemma sendRound_event:
  assumes "sendable sig"
  shows "\<exists>cl' q. sendRound sv enc n cl sig = Ret (cl', q) \<and> (\<forall>e p. q = Some (e, p) \<longrightarrow> e \<in> eventOf p)"
proof -
  obtain b where b: "isSubscribed cl sig = Ret b"
    using isSubscribed_Ret[of sig cl] assms by (auto simp: sendable_def)
  show ?thesis
    using assms by (cases "hmSignal sig"; cases b)
      (auto simp: sendRound_def b sendable_def subscribable_def signalString_def Let_def eventOf_def split: option.splits)
qed

text \<open>C36: the server and the client agree on the type of every published message. What the send loop writes for a message of
  the hub, the client, which goes by the event id alone, unmarshals as the very type that the server marshalled, and hands it on
  as a value of that type: address messages, blocks, mempool summaries, user counts and lists of transactions; the
  goodbye is a hang-up. (What of the content survives is up to \<open>encoding/json\<close>.) A message without
  content, which the server writes when it has no data or cannot encode them, is the only exception: its event id
  is that of a block, a mempool summary, an address message or a list of transactions.\<close>

theorem published_decodes:
  assumes "sendable sig" and "sendRound sv enc n cl sig = Ret (cl', Some (event, p))"
  shows "(p \<noteq> PEmpty \<longrightarrow> DecodeMsg E (Some (event, encodePushed E p)) = rereadAs E p) \<and>
    (p = PEmpty \<longrightarrow> event \<in> {''newblock'', ''mempool'', ''address'', ''newtxs''})"
proof -
  have "event \<in> eventOf p" using sendRound_event[OF assms(1), of sv enc n cl] assms(2) by auto
  then show ?thesis
    by (cases p) (simp_all add: eventOf_def DecodeMsg_event encodePushed_def rereadAs_def)
qed

text \<open>C35: a call to subscribe goes through. Let the event be valid and not in double quotes, the request within the size
  limit, and its id not in use by a waiting call; and let this request and this response survive marshalling and unmarshalling. Then the
  server answers the request with success, and the response, decoded by the client, completes this call
  and no other one. The server has then subscribed the connection to the event, but for a ping: there it
  reports success and leaves the connection as it is, since all connections are pinged.\<close>

theorem subscription_takes_effect:
  fixes msg :: "'t payload" and c :: "('t, 'b, 'm) Client" and cl :: "'t client"
  assumes "ValidateSubscription (svCheckDecode sv) event = (sig, msg, True)" and "trimQuotes event = event"
    and "len \<le> maxPayloadBytes" and "pcNextRequestID c \<notin> pcRequests c"
    and "req = \<lparr>rqRequestId = pcNextRequestID c, rqMessage = event\<rparr>" and "uRequest E (jRequest E req) = Inr req"
    and "r = \<lparr>rmSuccess = True, rmRequestEventId = event, rmRequestId = pcNextRequestID c, rmData = ''subscribed to '' @ event\<rparr>"
    and "uResponse E (jResponse E r) = Inr r"
  shows "\<exists>c1 cl' c2. Subscribe (svCheckDecode sv) True event c = (Inr (''subscribe'', req), c1) \<and>
    receiveRound sv (Some (''subscribe'', len, case uRequest E (jRequest E req) of Inr q \<Rightarrow> Some q | Inl e \<Rightarrow> None)) cl
      = Ret (cl', Some (''subscribe'' @ ''Resp'', r)) \<and>
    receiverRound E (Inr (''subscribe'' @ ''Resp'', jResponse E r)) c1 = c2 \<and>
    (if sig = SigPingAndUserCount then cl' = cl else isSubscribed cl' \<lparr>hmSignal = sig, hmMsg = msg\<rparr> = Ret True) \<and>
    pcReturned c2 = pcReturned c @ [(pcNextRequestID c, r)] \<and> pcRequests c2 = pcRequests c"
proof -
  let ?id = "pcNextRequestID c" and ?m = "\<lparr>hmSignal = sig, hmMsg = msg\<rparr>"
  define c1 where "c1 = c\<lparr>pcNextRequestID := ?id + 1, pcRequests := insert ?id (pcRequests c)\<rparr>"
  have call: "Subscribe (svCheckDecode sv) True event c = (Inr (''subscribe'', req), c1)"
    by (simp add: Subscribe_def assms(1,2,5) startCall_def newResponseChan_def requestMsg_def c1_def)
  obtain cl' ok where sub: "subscribe cl ?m = Ret (cl', ok, None)" "ok \<or> sig = SigPingAndUserCount"
    "if sig = SigPingAndUserCount then cl' = cl else isSubscribed cl' ?m = Ret True"
    using Validate_cases[OF assms(1)]
    by (cases "sig = SigPingAndUserCount") (auto simp: subscribe_def isSubscribed_def subscribable_def)
  have srv: "receiveRound sv (Some (''subscribe'', len, Some req)) cl = Ret (cl', Some (''subscribe'' @ ''Resp'', r))"
    using assms(3) sub(2) by (auto simp: receiveRound_def assms(1,5,7) sub(1) respond_def)
  have "rmRequestId r = ?id" by (simp add: assms(7))
  then show ?thesis using call srv sub(3) assms(4,6,8) Resp_suffix[of "''subscribe''"]
    by (auto simp: receiverRound_def DecodeMsg_def deleteRequestID_def c1_def)
qed

subsection \<open>An example\<close>

text \<open>A codec whose JSON values are decoded values or requests.\<close>

definition exCodec :: "((nat, unit, unit) decoded + RequestMessage, nat, unit, unit) jsonCodec" where
  "exCodec = \<lparr>jRequest = Inr, jResponse = (\<lambda>r. Inl (DResponse r)), jString = (\<lambda>s. Inl (DString s)), jInt = (\<lambda>i. Inl (DInt i)),
     jAddress = (\<lambda>a. Inl (DAddress a)), jTxs = (\<lambda>t. Inl (DTxs t)), jBlock = (\<lambda>b. Inl (DBlock b)), jMempool = (\<lambda>m. Inl (DMempool m)),
     jNull = Inl DHangUp, uRequest = (\<lambda>j. case j of Inr r \<Rightarrow> Inr r | _ \<Rightarrow> Inl ''''),
     uResponse = (\<lambda>j. case j of Inl (DResponse r) \<Rightarrow> Inr r | _ \<Rightarrow> Inl ''''), uString = (\<lambda>j. case j of Inl (DString r) \<Rightarrow> Inr r | _ \<Rightarrow> Inl ''''),
     uInt = (\<lambda>j. case j of Inl (DInt r) \<Rightarrow> Inr r | _ \<Rightarrow> Inl ''''), uAddress = (\<lambda>j. case j of Inl (DAddress r) \<Rightarrow> Inr r | _ \<Rightarrow> Inl ''''),
     uTxs = (\<lambda>j. case j of Inl (DTxs r) \<Rightarrow> Inr r | _ \<Rightarrow> Inl ''''), uBlock = (\<lambda>j. case j of Inl (DBlock r) \<Rightarrow> Inr r | _ \<Rightarrow> Inl ''''),
     uMempool = (\<lambda>j. case j of Inl (DMempool r) \<Rightarrow> Inr r | _ \<Rightarrow> Inl '''')\<rparr>"

definition exAnswer :: ResponseMessage where
  "exAnswer = \<lparr>rmSuccess = True, rmRequestEventId = '''', rmRequestId = 0, rmData = ''3.2.0''\<rparr>"

theorem responses_match_requests_witness:
  "pcReturned (receiverRound exCodec (Inr (''versionResp'', Inl (DResponse exAnswer))) (snd (ServerVersion True NewFromConn)))
     = [(0, exAnswer)] \<and>
   distinct (map fst (pcReturned (receiverRound exCodec (Inr (''versionResp'', Inl (DResponse exAnswer))) (snd (ServerVersion True NewFromConn)))))"
proof -
  let ?c = "snd (ServerVersion True NewFromConn) :: (nat, unit, unit) Client"
  let ?d = "receiverRound exCodec (Inr (''versionResp'', Inl (DResponse exAnswer))) ?c"
  have c: "startCall True ''unsubscribe'' ''version'' [] (NewFromConn :: (nat, unit, unit) Client) = (Inr (requestMsg ''version'' [] 0), ?c)"
      "\<not> pcDone ?c" "pcRequests ?c = {0}" "pcReturned ?c = []"
    by (simp_all add: ServerVersion_def startCall_def newResponseChan_def NewFromConn_def)
  have "clientReach exCodec (0 + 1) ?d"
    by (rule cl_receive[OF cl_call[OF cl_start c(1)] c(2)])
  then have "distinct (map fst (pcReturned ?d))"
    using responses_match_requests[of exCodec "0 + 1" ?d] by simp
  moreover have "pcReturned ?d = [(0, exAnswer)]"
    using c(3,4) Resp_suffix[of "''version''"]
    by (simp add: receiverRound_def DecodeMsg_def exCodec_def exAnswer_def deleteRequestID_def)
  ultimately show ?thesis by simp
qed

theorem published_decodes_witness:
  "DecodeMsg exCodec (Some (''newtxs'', encodePushed exCodec (PTxs [7]))) = Inr (DTxs [7])"
proof -
  let ?cl = "exSubscriber\<lparr>clNewTxs := [7]\<rparr>" and ?m = "\<lparr>hmSignal = SigNewTxs, hmMsg = MsgTxs []\<rparr> :: nat HubMessage"
  have r: "sendRound exServer True 1 ?cl ?m = Ret (exSubscriber, Some (''newtxs'', PTxs [7]))"
    by (simp add: sendRound_def messageIsValid_def isSubscribed_def exSubscriber_def signalString_def newClient_def)
  have "sendable ?m" by (simp add: sendable_def messageIsValid_def subscribable_def)
  from published_decodes[OF this r, of exCodec] show ?thesis by (simp add: rereadAs_def exCodec_def)
qed

theorem subscription_takes_effect_witness:
  "\<exists>req r c1 cl' c2. Subscribe (\<lambda>s. False) True ''newtxs'' (NewFromConn :: (nat, unit, unit) Client) = (Inr (''subscribe'', req), c1) \<and>
    receiveRound exServer (Some (''subscribe'', 60, Some req)) (newClient 0 :: nat client) = Ret (cl', Some (''subscribe'' @ ''Resp'', r)) \<and>
    receiverRound exCodec (Inr (''subscribe'' @ ''Resp'', jResponse exCodec r)) c1 = c2 \<and>
    rmSuccess r \<and> pcReturned c2 = [(0, r)]"
proof -
  have f: "svCheckDecode exServer = (\<lambda>s. False)" by (simp add: exServer_def)
  have v: "ValidateSubscription (svCheckDecode exServer) ''newtxs'' = (SigNewTxs, MsgNil :: nat payload, True)"
    by (simp add: ValidateSubscription_def splitEvent_def Subscriptions_def)
  let ?req = "\<lparr>rqRequestId = 0, rqMessage = ''newtxs''\<rparr>"
  let ?r = "\<lparr>rmSuccess = True, rmRequestEventId = ''newtxs'', rmRequestId = 0, rmData = ''subscribed to '' @ ''newtxs''\<rparr>"
  have c: "pcNextRequestID (NewFromConn :: (nat, unit, unit) Client) = 0" "pcRequests (NewFromConn :: (nat, unit, unit) Client) = {}"
    "pcReturned (NewFromConn :: (nat, unit, unit) Client) = []"
    by (simp_all add: NewFromConn_def)
  have u: "uRequest exCodec (jRequest exCodec ?req) = Inr ?req" "uResponse exCodec (jResponse exCodec ?r) = Inr ?r"
    by (simp_all add: exCodec_def)
  have "60 \<le> maxPayloadBytes" "trimQuotes ''newtxs'' = ''newtxs''" by (simp_all add: maxPayloadBytes_def trimQuotes_def)
  note w = subscription_takes_effect[OF v this(2,1), where c = "NewFromConn :: (nat, unit, unit) Client"
      and cl = "newClient 0 :: nat client" and E = exCodec and req = ?req and r = ?r]
  show ?thesis
    using w u unfolding c f by (intro exI[of _ ?req] exI[of _ ?r]) auto
qed

end
