(* ===== verification/ExchangeTypes.thy ===== *)
theory ExchangeTypes
  imports Complex_Main Prelude
begin

text \<open>
  The data of the exchange monitors (\<open>exchanges/exchanges.go\<close>): candlesticks, order books and states, the
  \<open>CommonExchange\<close> that every exchange embeds, and the conversion to and from the messages of the rate server
  (\<open>dcrrates/rateserver/types.go\<close>). \<open>'f\<close> is \<open>float64\<close>. Instants and durations are nanoseconds; the clock is
  read once per operation and passed as \<open>now\<close>. A Go map is an association list, which is also the order in
  which it is visited.
\<close>

subsection \<open>Candlesticks\<close>

type_synonym candlestickKey = string

definition second :: int where "second = 10 ^ 9"
definition minute :: int where "minute = 60 * second"
definition hour :: int where "hour = 60 * minute"

text \<open>The zero \<open>time.Time\<close> is the first instant of the year 1.\<close>

definition zeroTime :: int where "zeroTime = - 62135596800 * second"

definition halfHourKey :: candlestickKey where "halfHourKey = ''30m''"
definition hourKey :: candlestickKey where "hourKey = ''1h''"
definition dayKey :: candlestickKey where "dayKey = ''1d''"
definition monthKey :: candlestickKey where "monthKey = ''1mo''"

definition candlestickDurations :: "candlestickKey \<rightharpoonup> int" where
  "candlestickDurations = [halfHourKey \<mapsto> 30 * minute, hourKey \<mapsto> hour, dayKey \<mapsto> 24 * hour, monthKey \<mapsto> 24 * 30 * hour]"

definition stickDuration :: "candlestickKey \<Rightarrow> int" where
  "stickDuration k = (case candlestickDurations k of None \<Rightarrow> 1 | Some d \<Rightarrow> d)"

record 'f Candlestick =
  csHigh :: 'f
  csLow :: 'f
  csOpen :: 'f
  csClose :: 'f
  csVolume :: 'f
  csStart :: int

type_synonym 'f Candlesticks = "'f Candlestick list"

definition sticksTime :: "'f Candlesticks \<Rightarrow> int" where
  "sticksTime sticks = (if sticks = [] then zeroTime else csStart (last sticks))"

definition needsUpdate :: "int \<Rightarrow> 'f Candlesticks \<Rightarrow> candlestickKey \<Rightarrow> bool" where
  "needsUpdate now sticks bin =
     (if sticks = [] then True else csStart (last sticks) + stickDuration bin * 2 < now)"

subsection \<open>Order books and states\<close>

record 'f DepthPoint =
  dpQuantity :: 'f
  dpPrice :: 'f

record 'f DepthData =
  ddTime :: int
  ddBids :: "'f DepthPoint list"
  ddAsks :: "'f DepthPoint list"

definition depthDataExpiration :: int where "depthDataExpiration = hour"

definition IsFresh :: "int \<Rightarrow> 'f DepthData \<Rightarrow> bool" where
  "IsFresh now depth \<longleftrightarrow> wrap64 (wrap64 (now div second - ddTime depth) * second) < depthDataExpiration"

record 'f ExchangeState =
  xsPrice :: 'f
  xsBaseVolume :: 'f
  xsVolume :: 'f
  xsChange :: 'f
  xsStamp :: int
  xsDepth :: "'f DepthData option"
  xsCandlesticks :: "(candlestickKey \<times> 'f Candlesticks) list option"

definition newState :: "'f::zero ExchangeState" where
  "newState = \<lparr>xsPrice = 0, xsBaseVolume = 0, xsVolume = 0, xsChange = 0, xsStamp = 0, xsDepth = None, xsCandlesticks = None\<rparr>"

definition sticksOf :: "'f ExchangeState \<Rightarrow> candlestickKey \<rightharpoonup> 'f Candlesticks" where
  "sticksOf state = map_of (elems (xsCandlesticks state))"

definition copyState :: "'f ExchangeState \<Rightarrow> 'f ExchangeState" where
  "copyState state = \<lparr>xsPrice = xsPrice state, xsBaseVolume = xsBaseVolume state, xsVolume = xsVolume state,
     xsChange = xsChange state, xsStamp = xsStamp state, xsDepth = xsDepth state,
     xsCandlesticks = map_option (foldl (\<lambda>m (bin, sticks). AList.update bin sticks m) []) (xsCandlesticks state)\<rparr>"

definition stealSticks :: "'f ExchangeState \<Rightarrow> 'f ExchangeState \<Rightarrow> 'f ExchangeState" where
  "stealSticks src state =
     (if elems (xsCandlesticks src) = [] then state
      else state\<lparr>xsCandlesticks := Some (foldl
        (\<lambda>m (bin, sticks). if map_of m bin = None then AList.update bin sticks m else m)
        (elems (xsCandlesticks state)) (elems (xsCandlesticks src)))\<rparr>)"

definition HasCandlesticks :: "'f ExchangeState \<Rightarrow> bool" where
  "HasCandlesticks state \<longleftrightarrow> elems (xsCandlesticks state) \<noteq> []"

definition HasDepth :: "'f ExchangeState \<Rightarrow> bool" where
  "HasDepth state \<longleftrightarrow> xsDepth state \<noteq> None"

fun stringsJoin :: "string \<Rightarrow> string list \<Rightarrow> string" where
  "stringsJoin sep [] = []"
| "stringsJoin sep [s] = s"
| "stringsJoin sep (s # t # ts) = s @ sep @ stringsJoin sep (t # ts)"

definition StickList :: "'f ExchangeState \<Rightarrow> string" where
  "StickList state = stringsJoin '';'' (map fst (elems (xsCandlesticks state)))"

type_synonym 'f ExchangeUpdate = "string \<times> 'f ExchangeState"
type_synonym 'f FiatIndices = "(string \<times> 'f) list"
type_synonym 'f IndexUpdate = "string \<times> 'f FiatIndices"

subsection \<open>The exchange\<close>

record 'f wsOrder =
  woPrice :: 'f
  woVolume :: 'f

type_synonym 'f wsOrders = "(int \<times> 'f wsOrder) list"

text \<open>
  The fields of \<open>wsSync\<close> have the prefix \<open>ws\<close>; \<open>xcFeed\<close> says whether a websocket or SignalR connection is open, and
  the two lists hold what was sent on the channels to the bot.
\<close>

record 'f CommonExchange =
  xcToken :: string
  xcCurrentState :: "'f ExchangeState"
  xcLastUpdate :: int
  xcLastFail :: int
  xcLastRequest :: int
  wsErrCount :: int
  wsInit :: int
  wsUpdate :: int
  wsFail :: int
  xcFeed :: bool
  xcBuys :: "'f wsOrders"
  xcAsks :: "'f wsOrders"
  xcExchangeChan :: "'f ExchangeUpdate list"
  xcIndexChan :: "'f IndexUpdate list"

definition newCommonExchange :: "string \<Rightarrow> 'f::zero CommonExchange" where
  "newCommonExchange token = \<lparr>xcToken = token, xcCurrentState = newState, xcLastUpdate = zeroTime, xcLastFail = zeroTime,
     xcLastRequest = zeroTime, wsErrCount = 0, wsInit = zeroTime, wsUpdate = zeroTime, wsFail = zeroTime,
     xcFeed = False, xcBuys = [], xcAsks = [], xcExchangeChan = [], xcIndexChan = []\<rparr>"

definition Hurry :: "int \<Rightarrow> ('f, 'z) CommonExchange_scheme \<Rightarrow> ('f, 'z) CommonExchange_scheme" where
  "Hurry d xc = xc\<lparr>xcLastRequest := xcLastRequest xc - d\<rparr>"

definition xcIsFailed :: "('f, 'z) CommonExchange_scheme \<Rightarrow> bool" where
  "xcIsFailed xc \<longleftrightarrow> xcLastUpdate xc < xcLastFail xc"

definition LogRequest :: "int \<Rightarrow> ('f, 'z) CommonExchange_scheme \<Rightarrow> ('f, 'z) CommonExchange_scheme" where
  "LogRequest now xc = xc\<lparr>xcLastRequest := now\<rparr>"

definition setLastFail :: "int \<Rightarrow> ('f, 'z) CommonExchange_scheme \<Rightarrow> ('f, 'z) CommonExchange_scheme" where
  "setLastFail t xc = xc\<lparr>xcLastFail := t\<rparr>"

definition xcUpdate :: "int \<Rightarrow> 'f ExchangeState \<Rightarrow> bool \<Rightarrow> ('f, 'z) CommonExchange_scheme \<Rightarrow> ('f, 'z) CommonExchange_scheme" where
  "xcUpdate now state send xc =
     (let state' = stealSticks (xcCurrentState xc) state;
          xc' = xc\<lparr>xcLastUpdate := now, xcCurrentState := state'\<rparr>
      in if \<not> send then xc' else xc'\<lparr>xcExchangeChan := xcExchangeChan xc' @ [(xcToken xc', state')]\<rparr>)"

definition Update :: "int \<Rightarrow> 'f ExchangeState \<Rightarrow> ('f, 'z) CommonExchange_scheme \<Rightarrow> ('f, 'z) CommonExchange_scheme" where
  "Update now state = xcUpdate now state True"

definition SilentUpdate :: "int \<Rightarrow> 'f ExchangeState \<Rightarrow> ('f, 'z) CommonExchange_scheme \<Rightarrow> ('f, 'z) CommonExchange_scheme" where
  "SilentUpdate now state = xcUpdate now state False"

definition UpdateIndices :: "int \<Rightarrow> 'f FiatIndices \<Rightarrow> ('f, 'z) CommonExchange_scheme \<Rightarrow> ('f, 'z) CommonExchange_scheme" where
  "UpdateIndices now indices xc =
     xc\<lparr>xcLastUpdate := now, xcIndexChan := xcIndexChan xc @ [(xcToken xc, indices)]\<rparr>"

subsection \<open>The websocket of an exchange\<close>

definition wsListening :: "('f, 'z) CommonExchange_scheme \<Rightarrow> bool" where
  "wsListening xc \<longleftrightarrow> wsFail xc < wsInit xc"

definition wsFailed :: "('f, 'z) CommonExchange_scheme \<Rightarrow> bool" where
  "wsFailed xc \<longleftrightarrow> wsInit xc < wsFail xc"

definition setWsFail :: "int \<Rightarrow> ('f, 'z) CommonExchange_scheme \<Rightarrow> ('f, 'z) CommonExchange_scheme" where
  "setWsFail now xc = xc\<lparr>xcFeed := False, wsErrCount := wsErrCount xc + 1, wsFail := now\<rparr>"

definition wsInitialized :: "int \<Rightarrow> ('f, 'z) CommonExchange_scheme \<Rightarrow> ('f, 'z) CommonExchange_scheme" where
  "wsInitialized now xc = xc\<lparr>wsInit := now, wsUpdate := now\<rparr>"

definition wsUpdated :: "int \<Rightarrow> ('f, 'z) CommonExchange_scheme \<Rightarrow> ('f, 'z) CommonExchange_scheme" where
  "wsUpdated now xc = xc\<lparr>wsUpdate := now, wsErrCount := 0\<rparr>"

text \<open>The connections: \<open>ok\<close> says whether the dial succeeds. A SignalR connection is closed before, a websocket after
  the dial of the new one.\<close>

definition connectWebsocket :: "bool \<Rightarrow> ('f, 'z) CommonExchange_scheme \<Rightarrow> bool \<times> ('f, 'z) CommonExchange_scheme" where
  "connectWebsocket ok xc = (if \<not> ok then (False, xc) else (True, xc\<lparr>xcFeed := True\<rparr>))"

definition connectSignalr :: "bool \<Rightarrow> ('f, 'z) CommonExchange_scheme \<Rightarrow> bool \<times> ('f, 'z) CommonExchange_scheme" where
  "connectSignalr ok xc = (ok, xc\<lparr>xcFeed := ok\<rparr>)"

definition wsOrderBinKeys :: "'f wsOrders \<Rightarrow> int list" where
  "wsOrderBinKeys book = map fst book"

definition depthOf :: "'f wsOrders \<Rightarrow> int list \<Rightarrow> 'f DepthPoint list" where
  "depthOf book keys = map (\<lambda>bin. case map_of book bin of
      Some pt \<Rightarrow> \<lparr>dpQuantity = woVolume pt, dpPrice = woPrice pt\<rparr>) keys"

definition wsDepthSnapshot :: "int \<Rightarrow> ('f, 'z) CommonExchange_scheme \<Rightarrow> 'f DepthData" where
  "wsDepthSnapshot now xc =
     (let askKeys = sort (wsOrderBinKeys (xcAsks xc)); buyKeys = rev (sort (wsOrderBinKeys (xcBuys xc)))
      in \<lparr>ddTime = now div second, ddBids = depthOf (xcBuys xc) buyKeys, ddAsks = depthOf (xcAsks xc) askKeys\<rparr>)"

text \<open>The delay before a new connection is tried after a failure.\<close>

definition retryDelay :: "int \<Rightarrow> int" where
  "retryDelay errCount = (if errCount < 5 then 0 else if errCount < 20 then 10 * minute else 60 * minute)"

text \<open>The results \<open>tryHttp\<close>, \<open>initializing\<close> and \<open>depth\<close>.\<close>

definition wsDepthStatus :: "int \<Rightarrow> (('f, 'z) CommonExchange_scheme \<Rightarrow> ('f, 'z) CommonExchange_scheme)
    \<Rightarrow> ('f, 'z) CommonExchange_scheme \<Rightarrow> (bool \<times> bool \<times> 'f DepthData option) \<times> ('f, 'z) CommonExchange_scheme" where
  "wsDepthStatus now connector xc =
     (if \<not> wsListening xc then
        if wsFailed xc then
          ((True, False, None),
           if wsFail xc + retryDelay (wsErrCount xc) < now then connector xc else xc)
        else ((False, True, None), connector xc)
      else ((False, False, Some (wsDepthSnapshot now xc)), xc))"

subsection \<open>The messages of the rate server\<close>

text \<open>
  The points and sticks of a message have the same fields as those of the program and use their records; the start
  of a stick is in seconds there.
\<close>

record 'f ExchangeRateUpdate =
  ruToken :: string
  ruPrice :: 'f
  ruBaseVolume :: 'f
  ruVolume :: 'f
  ruChange :: 'f
  ruStamp :: int
  ruIndices :: "(string \<times> 'f) list"
  ruDepth :: "'f DepthData option"
  ruCandlesticks :: "(string \<times> 'f Candlesticks) list option"

definition copyPoint :: "'f DepthPoint \<Rightarrow> 'f DepthPoint" where
  "copyPoint pt = \<lparr>dpQuantity = dpQuantity pt, dpPrice = dpPrice pt\<rparr>"

definition stickFromProto :: "'f Candlestick \<Rightarrow> 'f Candlestick" where
  "stickFromProto stick = \<lparr>csHigh = csHigh stick, csLow = csLow stick, csOpen = csOpen stick, csClose = csClose stick,
     csVolume = csVolume stick, csStart = csStart stick * second\<rparr>"

definition stickToProto :: "'f Candlestick \<Rightarrow> 'f Candlestick" where
  "stickToProto stick = \<lparr>csHigh = csHigh stick, csLow = csLow stick, csOpen = csOpen stick, csClose = csClose stick,
     csVolume = csVolume stick, csStart = csStart stick div second\<rparr>"

definition exchangeStateFromProto :: "'f ExchangeRateUpdate \<Rightarrow> 'f ExchangeState" where
  "exchangeStateFromProto p =
     \<lparr>xsPrice = ruPrice p, xsBaseVolume = ruBaseVolume p, xsVolume = ruVolume p, xsChange = ruChange p, xsStamp = ruStamp p,
      xsDepth = map_option (\<lambda>d. \<lparr>ddTime = ddTime d, ddBids = map copyPoint (ddBids d), ddAsks = map copyPoint (ddAsks d)\<rparr>)
        (ruDepth p),
      xsCandlesticks = map_option (foldl (\<lambda>m (bin, sticks). AList.update bin (map stickFromProto sticks) m) [])
        (ruCandlesticks p)\<rparr>"

definition makeExchangeRateUpdate :: "'f ExchangeUpdate \<Rightarrow> 'f ExchangeRateUpdate" where
  "makeExchangeRateUpdate update = (let state = snd update in
     \<lparr>ruToken = fst update, ruPrice = xsPrice state, ruBaseVolume = xsBaseVolume state, ruVolume = xsVolume state,
      ruChange = xsChange state, ruStamp = xsStamp state, ruIndices = [],
      ruDepth = map_option (\<lambda>d. \<lparr>ddTime = ddTime d, ddBids = map copyPoint (ddBids d), ddAsks = map copyPoint (ddAsks d)\<rparr>)
        (xsDepth state),
      ruCandlesticks = map_option (map (\<lambda>(bin, sticks). (bin, map stickToProto sticks))) (xsCandlesticks state)\<rparr>)"

subsection \<open>Facts about the maps\<close>

text \<open>Inserting the entries of a map one after the other gives its entries.\<close>

lemma foldl_update_append:
  assumes "distinct (map fst m @ map fst es)"
  shows "foldl (\<lambda>m (k, v). AList.update k (f v) m) m es = m @ map (\<lambda>(k, v). (k, f v)) es"
  using assms
proof (induction es arbitrary: m)
  case (Cons e es)
  obtain k v where e: "e = (k, v)" by force
  have "map_of m k = None" using Cons.prems e by (simp add: map_of_eq_None_iff)
  then show ?case using Cons e by (simp add: update_new)
qed simp

definition stateOK :: "'f ExchangeState \<Rightarrow> bool" where
  "stateOK state \<longleftrightarrow> distinct (map fst (elems (xsCandlesticks state)))"

lemma copyState_same: "stateOK state \<Longrightarrow> copyState state = state"
proof -
  assume "stateOK state"
  then have "map_option (foldl (\<lambda>m (bin, sticks). AList.update bin sticks m) []) (xsCandlesticks state) = xsCandlesticks state"
    using foldl_update_append[of "[]" _ "\<lambda>v. v"] by (cases "xsCandlesticks state") (auto simp: stateOK_def)
  then show ?thesis by (simp add: copyState_def)
qed

lemma steal_map_of:
  "map_of (foldl (\<lambda>m (bin, sticks). if map_of m bin = None then AList.update bin sticks m else m) m es) k =
   (case map_of m k of Some s \<Rightarrow> Some s | None \<Rightarrow> map_of es k)"
proof (induction es arbitrary: m)
  case (Cons e es)
  obtain b s where e: "e = (b, s)" by force
  show ?case by (auto simp: e Cons.IH update_conv split: option.splits)
qed (simp split: option.split)

lemma steal_keys:
  "distinct (map fst m) \<Longrightarrow>
   distinct (map fst (foldl (\<lambda>m (bin, sticks). if map_of m bin = None then AList.update bin sticks m else m) m es))"
  by (induction es arbitrary: m) (auto simp: distinct_update)

text \<open>The sticks that an exchange had are kept, unless the new state brings its own.\<close>

lemma sticksOf_steal:
  "sticksOf (stealSticks src state) bin = (case sticksOf state bin of Some s \<Rightarrow> Some s | None \<Rightarrow> sticksOf src bin)"
  by (auto simp: stealSticks_def sticksOf_def steal_map_of split: option.split)

lemma stateOK_steal: "stateOK state \<Longrightarrow> stateOK (stealSticks src state)"
  by (simp add: stateOK_def stealSticks_def steal_keys)

lemma stealSticks_fields [simp]:
  "xsPrice (stealSticks src state) = xsPrice state" "xsDepth (stealSticks src state) = xsDepth state"
  "xsVolume (stealSticks src state) = xsVolume state" "xsStamp (stealSticks src state) = xsStamp state"
  by (simp_all add: stealSticks_def)

subsection \<open>The round trip through the rate server\<close>

lemma copyPoint_same [simp]: "copyPoint pt = pt"
  by (simp add: copyPoint_def)

lemma stick_round: "csStart stick mod second = 0 \<Longrightarrow> stickFromProto (stickToProto stick) = stick"
  by (simp add: stickFromProto_def stickToProto_def mod_0_imp_dvd)

lemma sticks_round:
  "(\<And>s. s \<in> set sticks \<Longrightarrow> csStart s mod second = 0) \<Longrightarrow> map (stickFromProto \<circ> stickToProto) sticks = sticks"
  by (induction sticks) (auto simp: stick_round)

text \<open>the state of an exchange survives the way from one exchange bot to another through the rate server: what
  the client makes of the message that the server makes of a state is the same state, if its sticks start at full
  seconds.\<close>

theorem rate_server_roundtrip:
  assumes "stateOK state" and "\<forall>(bin, sticks)\<in>set (elems (xsCandlesticks state)). \<forall>s\<in>set sticks. csStart s mod second = 0"
  shows "exchangeStateFromProto (makeExchangeRateUpdate (token, state)) = state"
proof -
  have "map_option (foldl (\<lambda>m (bin, sticks). AList.update bin (map stickFromProto sticks) m) [])
      (map_option (map (\<lambda>(bin, sticks). (bin, map stickToProto sticks))) (xsCandlesticks state)) = xsCandlesticks state"
  proof (cases "xsCandlesticks state")
    case (Some es)
    have "distinct (map fst [] @ map fst (map (\<lambda>(bin, sticks). (bin, map stickToProto sticks)) es))"
      using assms(1) Some by (simp add: stateOK_def case_prod_unfold comp_def)
    then have "foldl (\<lambda>m (bin, sticks). AList.update bin (map stickFromProto sticks) m) []
        (map (\<lambda>(bin, sticks). (bin, map stickToProto sticks)) es) = map (\<lambda>(bin, sticks). (bin, map (stickFromProto \<circ> stickToProto) sticks)) es"
      by (subst foldl_update_append) (simp_all add: case_prod_unfold)
    also have "\<dots> = es"
      using assms(2) Some by (intro map_idI) (force simp: sticks_round)
    finally show ?thesis using Some by simp
  qed simp
  moreover have "map_option (\<lambda>d. \<lparr>ddTime = ddTime d, ddBids = map copyPoint (ddBids d), ddAsks = map copyPoint (ddAsks d)\<rparr>)
      (map_option (\<lambda>d. \<lparr>ddTime = ddTime d, ddBids = map copyPoint (ddBids d), ddAsks = map copyPoint (ddAsks d)\<rparr>) (xsDepth state))
      = xsDepth state"
    by (cases "xsDepth state") (simp_all add: copyPoint_same[abs_def] map_idI)
  ultimately show ?thesis
    by (simp add: exchangeStateFromProto_def makeExchangeRateUpdate_def)
qed

definition exState :: "int ExchangeState" where
  "exState = newState\<lparr>xsPrice := 7, xsCandlesticks :=
     Some [(hourKey, [\<lparr>csHigh = 3, csLow = 1, csOpen = 2, csClose = 2, csVolume = 9, csStart = 3600 * second\<rparr>]), (dayKey, [])]\<rparr>"

lemma exState_OK: "stateOK exState"
  by (simp add: stateOK_def exState_def hourKey_def dayKey_def)

theorem rate_server_roundtrip_witness:
  "exchangeStateFromProto (makeExchangeRateUpdate (''binance'', exState)) = exState"
  using rate_server_roundtrip[OF exState_OK, of "''binance''"] by (simp add: exState_def)

subsection \<open>Snapshots of the order book\<close>

text \<open>A book whose orders are filed under the key of their price.\<close>

definition bookOK :: "('f \<Rightarrow> int) \<Rightarrow> 'f wsOrders \<Rightarrow> bool" where
  "bookOK key book \<longleftrightarrow> distinct (map fst book) \<and> (\<forall>(k, w)\<in>set book. k = key (woPrice w))"

lemma depthOf_book:
  assumes "bookOK key book" and "set keys = fst ` set book" and "distinct keys"
  shows "map (key \<circ> dpPrice) (depthOf book keys) = keys"
    and "set (depthOf book keys) = (\<lambda>(k, w). \<lparr>dpQuantity = woVolume w, dpPrice = woPrice w\<rparr>) ` set book"
proof -
  have m: "map_of book k = Some w \<longleftrightarrow> (k, w) \<in> set book" for k w
    using assms(1) by (simp add: bookOK_def map_of_eq_Some_iff)
  have ex: "\<exists>w. map_of book k = Some w \<and> key (woPrice w) = k" if "k \<in> set keys" for k
    using that assms(1,2) m by (fastforce simp: bookOK_def)
  show "map (key \<circ> dpPrice) (depthOf book keys) = keys"
    unfolding depthOf_def list.map_comp by (rule map_idI) (use ex in fastforce)
  show "set (depthOf book keys) = (\<lambda>(k, w). \<lparr>dpQuantity = woVolume w, dpPrice = woPrice w\<rparr>) ` set book"
  proof (intro set_eqI iffI)
    fix pt assume "pt \<in> set (depthOf book keys)"
    then obtain k where k: "k \<in> set keys" "pt = (case map_of book k of Some w \<Rightarrow> \<lparr>dpQuantity = woVolume w, dpPrice = woPrice w\<rparr>)"
      by (auto simp: depthOf_def)
    from ex[OF k(1)] obtain w where w: "map_of book k = Some w" by blast
    then have "(k, w) \<in> set book" using m by simp
    then show "pt \<in> (\<lambda>(k, w). \<lparr>dpQuantity = woVolume w, dpPrice = woPrice w\<rparr>) ` set book"
      using k(2) w by force
  next
    fix pt assume "pt \<in> (\<lambda>(k, w). \<lparr>dpQuantity = woVolume w, dpPrice = woPrice w\<rparr>) ` set book"
    then obtain k w where w: "(k, w) \<in> set book" "pt = \<lparr>dpQuantity = woVolume w, dpPrice = woPrice w\<rparr>" by auto
    then have "k \<in> set keys" "map_of book k = Some w" using assms(2) m by force+
    then show "pt \<in> set (depthOf book keys)" using w(2) by (force simp: depthOf_def)
  qed
qed

text \<open>The snapshot has the asks in ascending and the bids in descending order of their keys, and exactly the
  orders of the books.\<close>

lemma wsDepthSnapshot_sorted:
  fixes xc :: "('f, 'z) CommonExchange_scheme"
  assumes "bookOK key (xcAsks xc)" and "bookOK key (xcBuys xc)"
  shows "sorted_wrt (<) (map (key \<circ> dpPrice) (ddAsks (wsDepthSnapshot now xc)))"
    and "sorted_wrt (>) (map (key \<circ> dpPrice) (ddBids (wsDepthSnapshot now xc)))"
    and "set (ddAsks (wsDepthSnapshot now xc)) = (\<lambda>(k, w). \<lparr>dpQuantity = woVolume w, dpPrice = woPrice w\<rparr>) ` set (xcAsks xc)"
    and "set (ddBids (wsDepthSnapshot now xc)) = (\<lambda>(k, w). \<lparr>dpQuantity = woVolume w, dpPrice = woPrice w\<rparr>) ` set (xcBuys xc)"
proof -
  have d: "distinct (map fst (xcAsks xc))" "distinct (map fst (xcBuys xc))" using assms by (simp_all add: bookOK_def)
  have a: "sorted_wrt (<) (sort (map fst (xcAsks xc)))" and b: "sorted_wrt (<) (sort (map fst (xcBuys xc)))"
    using d by (simp_all add: strict_sorted_iff)
  note asks = depthOf_book[OF assms(1), of "sort (map fst (xcAsks xc))"]
  note bids = depthOf_book[OF assms(2), of "rev (sort (map fst (xcBuys xc)))"]
  show "sorted_wrt (<) (map (key \<circ> dpPrice) (ddAsks (wsDepthSnapshot now xc)))"
    using a asks(1) d(1) by (simp add: wsDepthSnapshot_def wsOrderBinKeys_def)
  show "sorted_wrt (>) (map (key \<circ> dpPrice) (ddBids (wsDepthSnapshot now xc)))"
    using b bids(1) d(2) by (simp add: wsDepthSnapshot_def wsOrderBinKeys_def sorted_wrt_rev)
  show "set (ddAsks (wsDepthSnapshot now xc)) = (\<lambda>(k, w). \<lparr>dpQuantity = woVolume w, dpPrice = woPrice w\<rparr>) ` set (xcAsks xc)"
    using asks(2) d(1) by (simp add: wsDepthSnapshot_def wsOrderBinKeys_def)
  show "set (ddBids (wsDepthSnapshot now xc)) = (\<lambda>(k, w). \<lparr>dpQuantity = woVolume w, dpPrice = woPrice w\<rparr>) ` set (xcBuys xc)"
    using bids(2) d(2) by (simp add: wsDepthSnapshot_def wsOrderBinKeys_def)
qed

text \<open>An order put under the key of its price, and a removed order, keep the book well formed.\<close>

lemma set_update_subset: "set (AList.update k v m) \<subseteq> insert (k, v) (set m)"
  by (induction m) auto

lemma set_update_distinct:
  "distinct (map fst m) \<Longrightarrow> (k', v') \<in> set (AList.update k v m) \<Longrightarrow> (k', v') = (k, v) \<or> (k', v') \<in> set m"
  using set_update_subset[of k v m] by auto

lemma bookOK_update [inv_intros]: "bookOK key book \<Longrightarrow> k = key (woPrice w) \<Longrightarrow> bookOK key (AList.update k w book)"
  unfolding bookOK_def using set_update_distinct[of book _ _ k w] by (fastforce simp: distinct_update)

lemma bookOK_delete [inv_intros]: "bookOK key book \<Longrightarrow> bookOK key (AList.delete k book)"
  by (auto simp: bookOK_def delete_filter distinct_map intro: inj_on_subset)

lemma bookOK_Nil [simp]: "bookOK key []"
  by (simp add: bookOK_def)

subsection \<open>Failures of the websocket\<close>

text \<open>At most one of the two holds, and neither before the first connection.\<close>

lemma listening_failed: "\<not> (wsListening xc \<and> wsFailed xc)"
  by (simp add: wsListening_def wsFailed_def)

text \<open>While the websocket counts as failed, the depth is fetched over HTTP, and a new connection is tried no earlier
  than the delay after the last failure.\<close>

lemma wsDepthStatus_failed:
  assumes "wsFailed xc"
  shows "wsDepthStatus now connector xc = ((True, False, None),
    if wsFail xc + retryDelay (wsErrCount xc) < now then connector xc else xc)"
  using assms listening_failed[of xc] by (simp add: wsDepthStatus_def)

end
