(* ===== verification/BittrexFeed.thy ===== *)
theory BittrexFeed
  imports ExchangeTypes "HOL-Library.Multiset"
begin

text \<open>
  The order book of Bittrex (\<open>exchanges/exchanges.go\<close>), which is kept up to date over SignalR: a full order book with
  a nonce, and updates with consecutive nonces that may arrive in any order. \<open>processOrderbookUpdate\<close> and
  \<open>processQueue\<close> call each other; both are one \<open>partial_function\<close> on the updates that are still to be
  processed. \<open>sort.Slice\<close> may order updates with the same nonce either way; here they keep their order. The
  elements of the lists of a message are taken to be present (a JSON null there is a nil dereference).
\<close>

subsection \<open>Messages\<close>

text \<open>What the program uses of \<open>float64\<close> besides the operators: \<open>strconv.ParseFloat\<close>, \<open>int64(math.Round(x))\<close>, the
  conversion to an integer, and the comparison with 0.\<close>

record 'f floatEnv =
  feParse :: "string \<Rightarrow> 'f option"
  feRound :: "'f \<Rightarrow> int"
  feTrunc :: "'f \<Rightarrow> int"
  feIsZero :: "'f \<Rightarrow> bool"
  fe1e8 :: 'f
  fe1e3 :: 'f

definition eightPtKey :: "'f::times floatEnv \<Rightarrow> 'f \<Rightarrow> int" where
  "eightPtKey E rate = feRound E (rate * fe1e8 E)"

record 'f BittrexWsOrder =
  boQuantity :: 'f
  boRate :: 'f
  boType :: int

record 'f BittrexWsFill =
  bfOrderType :: string
  bfRate :: 'f
  bfQuantity :: 'f
  bfTimeStamp :: string

record 'f BittrexOrderbookUpdate =
  buNonce :: int
  buMarketName :: string
  buBuys :: "'f BittrexWsOrder list"
  buSells :: "'f BittrexWsOrder list"
  buFills :: "'f BittrexWsFill list"

record 'f BittrexExchange = "'f CommonExchange" +
  bxMarketName :: string
  bxQueue :: "'f BittrexOrderbookUpdate list"
  bxObRequested :: bool
  bxOrderSeq :: int
  bxSent :: "string list"

definition BittrexOrderAdd :: int where "BittrexOrderAdd = 0"
definition BittrexOrderRemove :: int where "BittrexOrderRemove = 1"
definition BittrexOrderUpdate :: int where "BittrexOrderUpdate = 2"
definition maxBittrexQueueSize :: nat where "maxBittrexQueueSize = 50"
definition updateMsgKey :: string where "updateMsgKey = ''updateExchangeState''"

definition NewBittrex :: "'f::zero BittrexExchange" where
  "NewBittrex = CommonExchange.extend (newCommonExchange ''bittrex'')
     \<lparr>bxMarketName = ''BTC-HDF'', bxQueue = [], bxObRequested = False, bxOrderSeq = 0, bxSent = []\<rparr>"

subsection \<open>Updates\<close>

text \<open>The book after an update at a single rate, and whether it failed.\<close>

definition orderbookPoint :: "'f::times floatEnv \<Rightarrow> 'f BittrexWsOrder \<Rightarrow> 'f wsOrders \<Rightarrow> 'f wsOrders \<times> bool" where
  "orderbookPoint E order book = (let k = eightPtKey E (boRate order) in
     if boType order = BittrexOrderAdd \<or> boType order = BittrexOrderUpdate
     then (AList.update k \<lparr>woPrice = boRate order, woVolume = boQuantity order\<rparr> book, False)
     else if boType order = BittrexOrderRemove
     then (if map_of book k = None then (book, True) else (AList.delete k book, False))
     else (book, True))"

definition processAsk :: "'f::times floatEnv \<Rightarrow> int \<Rightarrow> 'f BittrexExchange \<Rightarrow> 'f BittrexWsOrder \<Rightarrow> 'f BittrexExchange" where
  "processAsk E now bx order = (let (book, failed) = orderbookPoint E order (xcAsks bx) in
     if failed then setWsFail now (bx\<lparr>xcAsks := book\<rparr>) else bx\<lparr>xcAsks := book\<rparr>)"

definition processBuy :: "'f::times floatEnv \<Rightarrow> int \<Rightarrow> 'f BittrexExchange \<Rightarrow> 'f BittrexWsOrder \<Rightarrow> 'f BittrexExchange" where
  "processBuy E now bx order = (let (book, failed) = orderbookPoint E order (xcBuys bx) in
     if failed then setWsFail now (bx\<lparr>xcBuys := book\<rparr>) else bx\<lparr>xcBuys := book\<rparr>)"

definition translateBittrexOrderbook :: "'f::times floatEnv \<Rightarrow> 'f BittrexWsOrder list \<Rightarrow> 'f wsOrders" where
  "translateBittrexOrderbook E orders =
     foldl (\<lambda>book order. AList.update (eightPtKey E (boRate order)) \<lparr>woPrice = boRate order, woVolume = boQuantity order\<rparr> book)
       [] orders"

definition queueOrderbookUpdate :: "int \<Rightarrow> 'f BittrexOrderbookUpdate \<Rightarrow> 'f BittrexExchange \<Rightarrow> int \<times> 'f BittrexExchange" where
  "queueOrderbookUpdate now update bx = (let queue = sort_key buNonce (bxQueue bx @ [update]) in
     if maxBittrexQueueSize < length queue then (- 1, (setWsFail now bx)\<lparr>bxQueue := []\<rparr>)
     else (buNonce (hd queue), bx\<lparr>bxQueue := queue\<rparr>))"

text \<open>The part of \<open>processOrderbookUpdate\<close> for an update that is next in sequence.\<close>

definition applyUpdate :: "'f::times floatEnv \<Rightarrow> int \<Rightarrow> 'f BittrexOrderbookUpdate \<Rightarrow> 'f BittrexExchange \<Rightarrow> 'f BittrexExchange" where
  "applyUpdate E now update bx =
     foldl (processBuy E now) (foldl (processAsk E now) (bx\<lparr>bxOrderSeq := bxOrderSeq bx + 1\<rparr>) (buSells update)) (buBuys update)"

text \<open>The loop of \<open>processQueue\<close> with the body of \<open>processOrderbookUpdate\<close>, which may run the loop again.\<close>

partial_function (option) processUpdates :: "'f::times floatEnv \<Rightarrow> int \<Rightarrow> 'f BittrexOrderbookUpdate list
    \<Rightarrow> 'f BittrexExchange \<Rightarrow> 'f BittrexExchange option" where
  "processUpdates E now updates bx = (case updates of
     [] \<Rightarrow> Some bx
   | update # rest \<Rightarrow> Option.bind
       (if buNonce update \<le> bxOrderSeq bx then Some bx
        else if buNonce update \<noteq> bxOrderSeq bx + 1 then
          (case queueOrderbookUpdate now update bx of (nextNonce, bx') \<Rightarrow>
             if nextNonce \<le> bxOrderSeq bx' + 1
             then processUpdates E now (bxQueue bx') (bx'\<lparr>bxQueue := []\<rparr>)
             else Some bx')
        else Some (applyUpdate E now update bx))
       (\<lambda>bx. processUpdates E now rest bx))"

definition processOrderbookUpdate :: "'f::times floatEnv \<Rightarrow> int \<Rightarrow> 'f BittrexOrderbookUpdate \<Rightarrow> 'f BittrexExchange
    \<Rightarrow> 'f BittrexExchange option" where
  "processOrderbookUpdate E now update bx = processUpdates E now [update] bx"

definition processQueue :: "'f::times floatEnv \<Rightarrow> int \<Rightarrow> 'f BittrexExchange \<Rightarrow> 'f BittrexExchange option" where
  "processQueue E now bx = processUpdates E now (bxQueue bx) (bx\<lparr>bxQueue := []\<rparr>)"

text \<open>The state with which \<open>processFullOrderbook\<close> updates: that of the last price, with the depth of the books.\<close>

definition withDepth :: "int \<Rightarrow> ('f::zero, 'z) CommonExchange_scheme \<Rightarrow> 'f ExchangeState" where
  "withDepth now xc = (let state = xcCurrentState xc in
     \<lparr>xsPrice = xsPrice state, xsBaseVolume = xsBaseVolume state, xsVolume = xsVolume state, xsChange = xsChange state,
      xsStamp = 0, xsDepth = Some (wsDepthSnapshot now xc), xsCandlesticks = xsCandlesticks state\<rparr>)"

definition processFullOrderbook :: "'f::{times,zero} floatEnv \<Rightarrow> int \<Rightarrow> 'f BittrexOrderbookUpdate \<Rightarrow> 'f BittrexExchange
    \<Rightarrow> 'f BittrexExchange option" where
  "processFullOrderbook E now book bx =
     map_option (\<lambda>bx. let bx' = bx\<lparr>bxQueue := []\<rparr> in wsInitialized now (Update now (withDepth now bx') bx'))
       (processQueue E now (bx\<lparr>xcBuys := translateBittrexOrderbook E (buBuys book),
          xcAsks := translateBittrexOrderbook E (buSells book), bxOrderSeq := buNonce book\<rparr>))"

definition requestOrderbook :: "'f BittrexExchange \<Rightarrow> 'f BittrexExchange" where
  "requestOrderbook bx = bx\<lparr>bxObRequested := True, bxSent := bxSent bx @ [''QueryExchangeState'']\<rparr>"

definition processNextUpdate :: "'f::times floatEnv \<Rightarrow> int \<Rightarrow> 'f BittrexOrderbookUpdate \<Rightarrow> 'f BittrexExchange
    \<Rightarrow> 'f BittrexExchange option" where
  "processNextUpdate E now update bx =
     (if bxOrderSeq bx = 0 then
        Some (snd (queueOrderbookUpdate now update (if \<not> bxObRequested bx then requestOrderbook bx else bx)))
      else processOrderbookUpdate E now update bx)"

text \<open>A decoded part of a message: it may fail to be encoded again, or to be decoded.\<close>

datatype 'u reencoded = MarshalError | UnmarshalError | Decoded 'u

record 'f signalrMessage =
  smI :: string
  smR :: "'f BittrexOrderbookUpdate reencoded"
  smM :: "(string \<times> 'f BittrexOrderbookUpdate reencoded list) list"

text \<open>The loop over the arguments of one hub message: the state, and whether the handler returns early.\<close>

fun argsLoop :: "'f::times floatEnv \<Rightarrow> int \<Rightarrow> 'f BittrexOrderbookUpdate reencoded list \<Rightarrow> 'f BittrexExchange
    \<Rightarrow> ('f BittrexExchange \<times> bool) option" where
  "argsLoop E now [] bx = Some (bx, False)"
| "argsLoop E now (MarshalError # args) bx = Some (bx, True)"
| "argsLoop E now (UnmarshalError # args) bx = Some (setWsFail now bx, True)"
| "argsLoop E now (Decoded update # args) bx = Option.bind (processNextUpdate E now update bx) (argsLoop E now args)"

fun hubLoop :: "'f::times floatEnv \<Rightarrow> int \<Rightarrow> (string \<times> 'f BittrexOrderbookUpdate reencoded list) list
    \<Rightarrow> 'f BittrexExchange \<Rightarrow> 'f BittrexExchange option" where
  "hubLoop E now [] bx = Some bx"
| "hubLoop E now ((m, args) # msgs) bx = Option.bind (argsLoop E now args bx)
     (\<lambda>(bx, returned). if returned then Some bx
        else hubLoop E now msgs (if args \<noteq> [] then wsUpdated now bx else bx))"

definition msgHandler :: "'f::{times,zero} floatEnv \<Rightarrow> int \<Rightarrow> 'f signalrMessage \<Rightarrow> 'f BittrexExchange \<Rightarrow> 'f BittrexExchange option" where
  "msgHandler E now msg bx =
     (if smI msg = ''1'' then (case smR msg of
         MarshalError \<Rightarrow> Some bx
       | UnmarshalError \<Rightarrow> Some (setWsFail now bx)
       | Decoded book \<Rightarrow>
           if buNonce book = 0 then Some (setWsFail now bx)
           else Option.bind (processFullOrderbook E now book bx) (hubLoop E now (smM msg)))
      else hubLoop E now (smM msg) bx)"

definition connectWs :: "int \<Rightarrow> bool \<Rightarrow> 'f BittrexExchange \<Rightarrow> 'f BittrexExchange" where
  "connectWs now ok bx = (let bx' = (snd (connectSignalr ok bx))\<lparr>bxQueue := [], bxOrderSeq := 0\<rparr> in
     if \<not> ok then setWsFail now bx'
     else bx'\<lparr>bxObRequested := False, bxSent := bxSent bx' @ [''SubscribeToExchangeDeltas'']\<rparr>)"

subsection \<open>What an update changes\<close>

lemma processAsk_fields [simp]:
  "bxQueue (processAsk E now bx order) = bxQueue bx" "bxOrderSeq (processAsk E now bx order) = bxOrderSeq bx"
  by (auto simp: processAsk_def Let_def setWsFail_def split: prod.split)

lemma processBuy_fields [simp]:
  "bxQueue (processBuy E now bx order) = bxQueue bx" "bxOrderSeq (processBuy E now bx order) = bxOrderSeq bx"
  by (auto simp: processBuy_def Let_def setWsFail_def split: prod.split)

lemma foldl_asks [simp]:
  "bxQueue (foldl (processAsk E now) bx orders) = bxQueue bx"
  "bxOrderSeq (foldl (processAsk E now) bx orders) = bxOrderSeq bx"
  by (induction orders arbitrary: bx) auto

lemma foldl_buys [simp]:
  "bxQueue (foldl (processBuy E now) bx orders) = bxQueue bx"
  "bxOrderSeq (foldl (processBuy E now) bx orders) = bxOrderSeq bx"
  by (induction orders arbitrary: bx) auto

lemma applyUpdate_fields [simp]:
  "bxQueue (applyUpdate E now u bx) = bxQueue bx" "bxOrderSeq (applyUpdate E now u bx) = bxOrderSeq bx + 1"
  by (simp_all add: applyUpdate_def)

text \<open>The queue plays no part in applying an update.\<close>

lemma processAsk_queue: "processAsk E now (bx\<lparr>bxQueue := q\<rparr>) order = (processAsk E now bx order)\<lparr>bxQueue := q\<rparr>"
  by (auto simp: processAsk_def Let_def setWsFail_def split: prod.split)

lemma processBuy_queue: "processBuy E now (bx\<lparr>bxQueue := q\<rparr>) order = (processBuy E now bx order)\<lparr>bxQueue := q\<rparr>"
  by (auto simp: processBuy_def Let_def setWsFail_def split: prod.split)

lemma foldl_queue:
  "foldl (processAsk E now) (bx\<lparr>bxQueue := q\<rparr>) orders = (foldl (processAsk E now) bx orders)\<lparr>bxQueue := q\<rparr>"
  "foldl (processBuy E now) (bx\<lparr>bxQueue := q\<rparr>) orders = (foldl (processBuy E now) bx orders)\<lparr>bxQueue := q\<rparr>"
  by (induction orders arbitrary: bx) (simp_all add: processAsk_queue processBuy_queue)

lemma applyUpdate_queue: "applyUpdate E now u (bx\<lparr>bxQueue := q\<rparr>) = (applyUpdate E now u bx)\<lparr>bxQueue := q\<rparr>"
proof -
  have eq: "bx\<lparr>bxQueue := q\<rparr>\<lparr>bxOrderSeq := bxOrderSeq (bx\<lparr>bxQueue := q\<rparr>) + 1\<rparr> = bx\<lparr>bxOrderSeq := bxOrderSeq bx + 1\<rparr>\<lparr>bxQueue := q\<rparr>"
    by simp
  show ?thesis unfolding applyUpdate_def eq foldl_queue ..
qed

lemma replay_queue:
  "foldl (\<lambda>bx u. applyUpdate E now u bx) (bx\<lparr>bxQueue := q\<rparr>) us = (foldl (\<lambda>bx u. applyUpdate E now u bx) bx us)\<lparr>bxQueue := q\<rparr>"
  by (induction us arbitrary: bx) (simp_all add: applyUpdate_queue)

subsection \<open>The loop ends\<close>

definition nonces :: "'f BittrexOrderbookUpdate list \<Rightarrow> int list" where
  "nonces us = map buNonce us"

definition queueSorted :: "'f BittrexExchange \<Rightarrow> bool" where
  "queueSorted bx \<longleftrightarrow> sorted (nonces (bxQueue bx))"

text \<open>While the loop runs over sorted updates, the queue is empty or waits for an update that is missing.\<close>

definition waiting :: "'f BittrexOrderbookUpdate list \<Rightarrow> 'f BittrexExchange \<Rightarrow> bool" where
  "waiting us bx \<longleftrightarrow> sorted (nonces (bxQueue bx @ us)) \<and>
     (bxQueue bx \<noteq> [] \<longrightarrow> bxOrderSeq bx + 1 < buNonce (hd (bxQueue bx)))"

lemma waiting_Cons_out:
  assumes "waiting (u # us) bx" and "\<not> buNonce u \<le> bxOrderSeq bx" and "buNonce u \<noteq> bxOrderSeq bx + 1"
  shows "sort_key buNonce (bxQueue bx @ [u]) = bxQueue bx @ [u]"
    and "bxOrderSeq bx + 1 < buNonce (hd (bxQueue bx @ [u]))"
    and "waiting us (bx\<lparr>bxQueue := bxQueue bx @ [u]\<rparr>)"
proof -
  have "sorted (map buNonce (bxQueue bx @ [u]))"
    using assms(1) by (simp add: waiting_def nonces_def sorted_append)
  then show "sort_key buNonce (bxQueue bx @ [u]) = bxQueue bx @ [u]" by (rule sort_key_id_if_sorted)
  show h: "bxOrderSeq bx + 1 < buNonce (hd (bxQueue bx @ [u]))"
    using assms by (cases "bxQueue bx") (auto simp: waiting_def)
  then show "waiting us (bx\<lparr>bxQueue := bxQueue bx @ [u]\<rparr>)"
    using assms(1) by (simp add: waiting_def)
qed

lemma waiting_next:
  assumes "waiting (u # us) bx" and "buNonce u \<le> bxOrderSeq bx + 1"
  shows "bxQueue bx = []"
proof (rule ccontr)
  assume q: "bxQueue bx \<noteq> []"
  then have "buNonce (hd (bxQueue bx)) \<le> buNonce u"
    using assms(1) by (cases "bxQueue bx") (auto simp: waiting_def nonces_def)
  then show False using assms q by (simp add: waiting_def)
qed

lemma setWsFail_fields [simp]:
  "bxQueue (setWsFail now bx) = bxQueue bx" "bxOrderSeq (setWsFail now bx) = bxOrderSeq bx"
  by (simp_all add: setWsFail_def)

lemma waiting_tl: "waiting (u # us) bx \<Longrightarrow> bxQueue bx = [] \<Longrightarrow> bxQueue bx' = [] \<Longrightarrow> waiting us bx'"
  by (simp add: waiting_def nonces_def)

lemma processUpdates_Nil [simp]: "processUpdates E now [] bx = Some bx"
  by (simp add: processUpdates.simps)

lemma processUpdates_total:
  "waiting us bx \<Longrightarrow> \<exists>bx'. processUpdates E now us bx = Some bx' \<and> queueSorted bx'"
proof (induction us arbitrary: bx)
  case Nil
  then show ?case by (simp add: waiting_def queueSorted_def)
next
  case (Cons u us)
  show ?case
  proof (cases "buNonce u \<le> bxOrderSeq bx + 1")
    case True
    have q: "bxQueue bx = []" by (rule waiting_next[OF Cons.prems True])
    have "waiting us bx" "waiting us (applyUpdate E now u bx)"
      using waiting_tl[OF Cons.prems q] q by simp_all
    then show ?thesis using True Cons.IH by (subst processUpdates.simps) auto
  next
    case False
    note out = waiting_Cons_out[OF Cons.prems]
    show ?thesis
    proof (cases "maxBittrexQueueSize < length (bxQueue bx @ [u])")
      case True
      let ?bx = "(setWsFail now bx)\<lparr>bxQueue := []\<rparr>"
      have "queueOrderbookUpdate now u bx = (- 1, ?bx)"
        using True by (simp add: queueOrderbookUpdate_def Let_def)
      moreover have "waiting us ?bx" using Cons.prems by (simp add: waiting_def nonces_def sorted_append)
      ultimately show ?thesis using False Cons.IH[of ?bx] by (subst processUpdates.simps) auto
    next
      case small: False
      let ?bx = "bx\<lparr>bxQueue := bxQueue bx @ [u]\<rparr>"
      have "queueOrderbookUpdate now u bx = (buNonce (hd (bxQueue bx @ [u])), ?bx)"
        using small out(1) False by (simp add: queueOrderbookUpdate_def Let_def)
      then show ?thesis using False out(2,3) Cons.IH[of ?bx] by (subst processUpdates.simps) auto
    qed
  qed
qed


lemma sorted_sort_queue: "sorted (nonces (sort_key buNonce us))"
  by (simp add: nonces_def)

text \<open>An update that is queued goes on with the whole queue, which waits for nothing.\<close>

lemma queueOrderbookUpdate_sorted: "queueSorted (snd (queueOrderbookUpdate now u bx))"
  by (simp add: queueOrderbookUpdate_def Let_def queueSorted_def sorted_sort_queue) (simp add: nonces_def)

lemma waiting_start: "queueSorted bx \<Longrightarrow> waiting (bxQueue bx) (bx\<lparr>bxQueue := []\<rparr>)"
  by (simp add: waiting_def queueSorted_def)

lemma processOrderbookUpdate_total:
  assumes "queueSorted bx"
  shows "\<exists>bx'. processOrderbookUpdate E now u bx = Some bx' \<and> queueSorted bx'"
proof -
  obtain n bx1 where q: "queueOrderbookUpdate now u bx = (n, bx1)" by force
  then have "queueSorted bx1" using queueOrderbookUpdate_sorted[of now u bx] by simp
  then obtain bx2 where "processUpdates E now (bxQueue bx1) (bx1\<lparr>bxQueue := []\<rparr>) = Some bx2" "queueSorted bx2"
    using processUpdates_total[OF waiting_start] by blast
  moreover have "queueSorted (applyUpdate E now u bx)" using assms by (simp add: queueSorted_def)
  ultimately show ?thesis
    using assms \<open>queueSorted bx1\<close> unfolding processOrderbookUpdate_def by (subst processUpdates.simps) (simp add: q)
qed

lemma processQueue_total:
  "queueSorted bx \<Longrightarrow> \<exists>bx'. processQueue E now bx = Some bx' \<and> queueSorted bx'"
  using processUpdates_total[OF waiting_start] by (simp add: processQueue_def)

lemma queueSorted_fields [simp]:
  "queueSorted (setWsFail now bx) = queueSorted bx" "queueSorted (wsUpdated now bx) = queueSorted bx"
  "queueSorted (wsInitialized now bx) = queueSorted bx" "queueSorted (Update now st bx) = queueSorted bx"
  by (simp_all add: queueSorted_def setWsFail_def wsUpdated_def wsInitialized_def Update_def xcUpdate_def Let_def)

lemma processNextUpdate_total:
  assumes "queueSorted bx"
  shows "\<exists>bx'. processNextUpdate E now u bx = Some bx' \<and> queueSorted bx'"
  using processOrderbookUpdate_total[OF assms] by (simp add: processNextUpdate_def queueOrderbookUpdate_sorted)

lemma argsLoop_total:
  "queueSorted bx \<Longrightarrow> \<exists>bx' r. argsLoop E now args bx = Some (bx', r) \<and> queueSorted bx'"
proof (induction args arbitrary: bx)
  case (Cons a args)
  show ?case
  proof (cases a)
    case (Decoded u)
    obtain bx1 where "processNextUpdate E now u bx = Some bx1" "queueSorted bx1"
      using processNextUpdate_total[OF Cons.prems] by blast
    then show ?thesis using Decoded Cons.IH by simp
  qed (use Cons.prems in auto)
qed auto

lemma hubLoop_total:
  "queueSorted bx \<Longrightarrow> \<exists>bx'. hubLoop E now msgs bx = Some bx' \<and> queueSorted bx'"
proof (induction msgs arbitrary: bx)
  case (Cons m msgs)
  obtain k args where m: "m = (k, args)" by force
  obtain bx1 r where "argsLoop E now args bx = Some (bx1, r)" "queueSorted bx1"
    using argsLoop_total[OF Cons.prems] by blast
  then show ?case using m Cons.IH[of bx1] Cons.IH[of "wsUpdated now bx1"] by simp
qed simp

lemma processFullOrderbook_total:
  assumes "queueSorted bx"
  shows "\<exists>bx'. processFullOrderbook E now book bx = Some bx' \<and> bxQueue bx' = []"
proof -
  let ?bx = "bx\<lparr>xcBuys := translateBittrexOrderbook E (buBuys book), xcAsks := translateBittrexOrderbook E (buSells book),
      bxOrderSeq := buNonce book\<rparr>"
  have "queueSorted ?bx" using assms by (simp add: queueSorted_def)
  then show ?thesis using processQueue_total[of ?bx E now]
    by (auto simp: processFullOrderbook_def Let_def wsInitialized_def Update_def xcUpdate_def)
qed

lemma msgHandler_total:
  assumes "queueSorted bx"
  shows "\<exists>bx'. msgHandler E now msg bx = Some bx' \<and> queueSorted bx'"
proof -
  have full: "\<exists>bx'. Option.bind (processFullOrderbook E now book bx) (hubLoop E now (smM msg)) = Some bx' \<and> queueSorted bx'" for book
  proof -
    obtain bx1 where "processFullOrderbook E now book bx = Some bx1" "bxQueue bx1 = []"
      using processFullOrderbook_total[OF assms] by blast
    then show ?thesis using hubLoop_total[of bx1] by (simp add: queueSorted_def nonces_def)
  qed
  show ?thesis using assms full hubLoop_total[OF assms] by (auto simp: msgHandler_def split: reencoded.split)
qed

text \<open>The states of the feed that some messages and connections lead to.\<close>

inductive bittrexReach :: "'f::{times,zero} floatEnv \<Rightarrow> 'f BittrexExchange \<Rightarrow> bool" for E where
  br_start: "bittrexReach E NewBittrex"
| br_connect: "bittrexReach E bx \<Longrightarrow> bittrexReach E (connectWs now ok bx)"
| br_message: "bittrexReach E bx \<Longrightarrow> msgHandler E now msg bx = Some bx' \<Longrightarrow> bittrexReach E bx'"

lemma bittrexReach_sorted: "bittrexReach E bx \<Longrightarrow> queueSorted bx"
proof (induction rule: bittrexReach.induct)
  case br_start
  then show ?case by (simp add: queueSorted_def nonces_def NewBittrex_def CommonExchange.defs)
next
  case (br_connect bx now ok)
  then show ?case by (simp add: connectWs_def Let_def queueSorted_def nonces_def)
next
  case (br_message bx now msg bx')
  then show ?case using msgHandler_total[of bx E now msg] by auto
qed

text \<open>every message of the Bittrex feed is processed: although the processing of an update and of the queue of
  updates call each other, the handler returns for any message in any reachable state.\<close>

theorem msgHandler_returns:
  assumes "bittrexReach E bx"
  shows "\<exists>bx'. msgHandler E now msg bx = Some bx' \<and> sorted (map buNonce (bxQueue bx'))"
  using msgHandler_total[OF bittrexReach_sorted[OF assms]] by (simp add: queueSorted_def nonces_def)

subsection \<open>Updates in any order\<close>

text \<open>Applying updates that come in sequence.\<close>

definition replay :: "'f::times floatEnv \<Rightarrow> int \<Rightarrow> 'f BittrexOrderbookUpdate list \<Rightarrow> 'f BittrexExchange \<Rightarrow> 'f BittrexExchange" where
  "replay E now us bx = foldl (\<lambda>bx u. applyUpdate E now u bx) bx us"

lemma replay_fields [simp]:
  "bxQueue (replay E now us bx) = bxQueue bx" "bxOrderSeq (replay E now us bx) = bxOrderSeq bx + int (length us)"
  by (induction us arbitrary: bx) (simp_all add: replay_def)

lemma replay_set_queue: "replay E now us (bx\<lparr>bxQueue := q\<rparr>) = (replay E now us bx)\<lparr>bxQueue := q\<rparr>"
  by (simp add: replay_def replay_queue)

lemma replay_simps [simp]: "replay E now [] bx = bx" "replay E now (u # us) bx = replay E now us (applyUpdate E now u bx)"
  "replay E now (us @ vs) bx = replay E now vs (replay E now us bx)"
  by (simp_all add: replay_def)

text \<open>Behind a gap all updates are queued.\<close>

lemma processUpdates_gap:
  assumes "waiting us bx" and "bxQueue bx \<noteq> []" and "length (bxQueue bx) + length us \<le> maxBittrexQueueSize"
  shows "processUpdates E now us bx = Some (bx\<lparr>bxQueue := bxQueue bx @ us\<rparr>)"
  using assms
proof (induction us arbitrary: bx)
  case (Cons u us)
  have gap: "\<not> buNonce u \<le> bxOrderSeq bx" "buNonce u \<noteq> bxOrderSeq bx + 1"
    using waiting_next[OF Cons.prems(1)] Cons.prems(2) by auto
  note out = waiting_Cons_out[OF Cons.prems(1) gap]
  let ?bx = "bx\<lparr>bxQueue := bxQueue bx @ [u]\<rparr>"
  have "queueOrderbookUpdate now u bx = (buNonce (hd (bxQueue bx @ [u])), ?bx)"
    using Cons.prems(3) out(1) by (simp add: queueOrderbookUpdate_def Let_def)
  then have "processUpdates E now (u # us) bx = processUpdates E now us ?bx"
    using gap out(2) by (subst processUpdates.simps) simp
  also have "\<dots> = Some (?bx\<lparr>bxQueue := bxQueue ?bx @ us\<rparr>)"
    using Cons.prems(3) out(3) by (intro Cons.IH) simp_all
  finally show ?case by simp
qed simp

text \<open>Sorted updates are applied up to the first gap; the others are queued.\<close>

lemma processUpdates_sorted:
  assumes "bxQueue bx = []" and "sorted (nonces us)" and "distinct (nonces us)" and "\<forall>u\<in>set us. bxOrderSeq bx < buNonce u"
    and "length us \<le> maxBittrexQueueSize"
  shows "\<exists>vs ws. us = vs @ ws \<and> nonces vs = [bxOrderSeq bx + 1..bxOrderSeq bx + int (length vs)] \<and>
    (ws \<noteq> [] \<longrightarrow> bxOrderSeq bx + int (length vs) + 1 < buNonce (hd ws)) \<and>
    processUpdates E now us bx = Some ((replay E now vs bx)\<lparr>bxQueue := ws\<rparr>)"
  using assms
proof (induction us arbitrary: bx)
  case Nil
  have "bx = bx\<lparr>bxQueue := []\<rparr>" using Nil.prems(1) by simp
  then show ?case using Nil.prems(1) by (simp add: nonces_def)
next
  case (Cons u us)
  show ?case
  proof (cases "buNonce u = bxOrderSeq bx + 1")
    case True
    have "\<forall>v\<in>set us. bxOrderSeq (applyUpdate E now u bx) < buNonce v"
    proof
      fix v assume "v \<in> set us"
      then have "buNonce u \<le> buNonce v" "buNonce u \<noteq> buNonce v" using Cons.prems(2,3) by (auto simp: nonces_def)
      then show "bxOrderSeq (applyUpdate E now u bx) < buNonce v" using True by simp
    qed
    then obtain vs ws where vw: "us = vs @ ws" "nonces vs = [bxOrderSeq bx + 1 + 1..bxOrderSeq bx + 1 + int (length vs)]"
        "ws \<noteq> [] \<longrightarrow> bxOrderSeq bx + 1 + int (length vs) + 1 < buNonce (hd ws)"
        "processUpdates E now us (applyUpdate E now u bx) = Some ((replay E now vs (applyUpdate E now u bx))\<lparr>bxQueue := ws\<rparr>)"
      using Cons.IH[of "applyUpdate E now u bx"] Cons.prems by (auto simp: nonces_def)
    have "processUpdates E now (u # us) bx = processUpdates E now us (applyUpdate E now u bx)"
      using True by (subst processUpdates.simps) simp
    moreover have "nonces (u # vs) = [bxOrderSeq bx + 1..bxOrderSeq bx + int (length (u # vs))]"
    proof -
      have "[bxOrderSeq bx + 1..bxOrderSeq bx + int (length (u # vs))]
          = (bxOrderSeq bx + 1) # [bxOrderSeq bx + 1 + 1..bxOrderSeq bx + int (length (u # vs))]"
        by (subst upto_rec1) simp_all
      then show ?thesis using True vw(2) by (simp add: nonces_def add.assoc)
    qed
    ultimately show ?thesis using vw(1,3,4) by (intro exI[of _ "u # vs"] exI[of _ ws]) (simp add: algebra_simps)
  next
    case False
    have gap: "\<not> buNonce u \<le> bxOrderSeq bx" "buNonce u \<noteq> bxOrderSeq bx + 1" using Cons.prems(4) False by auto
    have w: "waiting (u # us) bx" using Cons.prems(1,2) by (simp add: waiting_def)
    note out = waiting_Cons_out[OF w gap]
    let ?bx = "bx\<lparr>bxQueue := bxQueue bx @ [u]\<rparr>"
    have "queueOrderbookUpdate now u bx = (buNonce (hd (bxQueue bx @ [u])), ?bx)"
      using Cons.prems(1,5) out(1) by (simp add: queueOrderbookUpdate_def Let_def maxBittrexQueueSize_def)
    then have "processUpdates E now (u # us) bx = processUpdates E now us ?bx"
      using gap out(2) by (subst processUpdates.simps) simp
    also have "\<dots> = Some (?bx\<lparr>bxQueue := bxQueue ?bx @ us\<rparr>)"
      using Cons.prems(1,5) out(3) by (intro processUpdates_gap) simp_all
    finally show ?thesis using gap Cons.prems(1) by (intro exI[of _ "[]"] exI[of _ "u # us"]) (simp add: nonces_def)
  qed
qed

text \<open>
  What holds after some updates have arrived, all with different nonces above that of the order book: those up to the
  current nonce are applied in sequence, and the others are queued.
\<close>

definition inStep :: "'f::times floatEnv \<Rightarrow> int \<Rightarrow> 'f BittrexExchange \<Rightarrow> 'f BittrexOrderbookUpdate list \<Rightarrow> 'f BittrexExchange \<Rightarrow> bool" where
  "inStep E now bx0 us bx \<longleftrightarrow> (\<exists>vs. nonces vs = [bxOrderSeq bx0 + 1..bxOrderSeq bx] \<and>
     set vs \<union> set (bxQueue bx) = set us \<and> length vs + length (bxQueue bx) = length us \<and>
     (\<forall>q\<in>set (bxQueue bx). bxOrderSeq bx < buNonce q) \<and> queueSorted bx \<and> distinct (nonces (bxQueue bx)) \<and>
     bx = (replay E now vs bx0)\<lparr>bxQueue := bxQueue bx\<rparr>)"


lemma inStep_start: "bxQueue bx = [] \<Longrightarrow> inStep E now bx [] bx"
  by (intro inStep_def[THEN iffD2] exI[of _ "[]"]) (simp add: nonces_def queueSorted_def)

lemma upto_snoc: "a \<le> b + 1 \<Longrightarrow> [a..b + 1] = [a..b] @ [b + 1::int]"
  by (rule upto_rec2[of a "b + 1", simplified])

lemma upto_join: "a \<le> b + 1 \<Longrightarrow> b \<le> c \<Longrightarrow> [a..c] = [a..b] @ [b + 1..c::int]"
proof (cases "a \<le> b")
  case False
  moreover assume "a \<le> b + 1"
  ultimately have "a = b + 1" by simp
  then show ?thesis by simp
qed (use upto_split2[of a b c] in simp)

lemma set_update_queue: "bx = r\<lparr>bxQueue := bxQueue bx\<rparr> \<Longrightarrow> bx\<lparr>bxQueue := q\<rparr> = r\<lparr>bxQueue := q\<rparr>"
  by (metis BittrexExchange.update_convs(2) BittrexExchange.surjective)

lemma inStep_step:
  assumes "inStep E now bx0 us bx" and "buNonce u \<notin> set (nonces us)" and "bxOrderSeq bx0 < buNonce u"
    and "length us < maxBittrexQueueSize"
  shows "\<exists>bx'. processOrderbookUpdate E now u bx = Some bx' \<and> inStep E now bx0 (us @ [u]) bx' \<and>
    (buNonce u \<noteq> bxOrderSeq bx + 1 \<and> bxQueue bx' \<noteq> [] \<longrightarrow> bxOrderSeq bx' + 1 < buNonce (hd (bxQueue bx')))"
proof -
  obtain vs where vs: "nonces vs = [bxOrderSeq bx0 + 1..bxOrderSeq bx]" "set vs \<union> set (bxQueue bx) = set us"
      "length vs + length (bxQueue bx) = length us" "\<forall>q\<in>set (bxQueue bx). bxOrderSeq bx < buNonce q"
      "queueSorted bx" "distinct (nonces (bxQueue bx))" "bx = (replay E now vs bx0)\<lparr>bxQueue := bxQueue bx\<rparr>"
    using assms(1) by (auto simp: inStep_def)
  have sq: "bxOrderSeq bx = bxOrderSeq bx0 + int (length vs)" using arg_cong[OF vs(7), of bxOrderSeq] by simp
  have vn: "set (nonces vs) \<subseteq> set (nonces us)" using vs(2) by (auto simp: nonces_def)
  have gt: "bxOrderSeq bx < buNonce u"
  proof (rule ccontr)
    assume "\<not> ?thesis"
    then have "buNonce u \<in> set (nonces vs)" using vs(1) assms(3) by simp
    then show False using vn assms(2) by blast
  qed
  have uq: "buNonce u \<notin> set (nonces (bxQueue bx))" using vs(2) assms(2) by (auto simp: nonces_def)
  show ?thesis
  proof (cases "buNonce u = bxOrderSeq bx + 1")
    case True
    let ?bx = "applyUpdate E now u bx"
    have "processOrderbookUpdate E now u bx = Some ?bx"
      unfolding processOrderbookUpdate_def using True by (subst processUpdates.simps) simp
    moreover have "inStep E now bx0 (us @ [u]) ?bx"
    proof (unfold inStep_def, intro exI[of _ "vs @ [u]"] conjI)
      show "nonces (vs @ [u]) = [bxOrderSeq bx0 + 1..bxOrderSeq ?bx]"
        using vs(1) True sq by (simp add: nonces_def upto_snoc)
      show "\<forall>q\<in>set (bxQueue ?bx). bxOrderSeq ?bx < buNonce q"
      proof
        fix q assume "q \<in> set (bxQueue ?bx)"
        then have "bxOrderSeq bx < buNonce q" "buNonce q \<in> set (nonces (bxQueue bx))" using vs(4) by (simp_all add: nonces_def)
        then have "buNonce q \<noteq> buNonce u" using uq by metis
        then show "bxOrderSeq ?bx < buNonce q" using True \<open>bxOrderSeq bx < buNonce q\<close> by simp
      qed
      show "?bx = (replay E now (vs @ [u]) bx0)\<lparr>bxQueue := bxQueue ?bx\<rparr>"
        using arg_cong[OF vs(7), of "applyUpdate E now u"] by (simp add: applyUpdate_queue)
    qed (use vs in \<open>auto simp: queueSorted_def\<close>)
    ultimately show ?thesis using True by blast
  next
    case False
    define q where "q = sort_key buNonce (bxQueue bx @ [u])"
    have q: "set q = insert u (set (bxQueue bx))" "length q = length (bxQueue bx) + 1" "sorted (nonces q)" "distinct (nonces q)" "q \<noteq> []"
    proof -
      have "mset q = mset (bxQueue bx @ [u])" by (simp add: q_def)
      then have m: "mset (nonces q) = mset (nonces (bxQueue bx @ [u]))" by (simp add: nonces_def)
      have "distinct (nonces (bxQueue bx @ [u]))" using vs(6) uq by (simp add: nonces_def)
      then show "distinct (nonces q)" using m mset_eq_imp_distinct_iff by blast
    qed (simp_all add: q_def sorted_sort_queue, metis append_is_Nil_conv length_0_conv length_sort not_Cons_self2)
    have qgt: "\<forall>x\<in>set q. bxOrderSeq bx < buNonce x" using q(1) gt vs(4) by auto
    have len: "length q \<le> maxBittrexQueueSize" using q(2) vs(3) assms(4) by simp
    have queue: "queueOrderbookUpdate now u bx = (buNonce (hd q), bx\<lparr>bxQueue := q\<rparr>)"
      using len by (simp add: queueOrderbookUpdate_def Let_def q_def)
    show ?thesis
    proof (cases "buNonce (hd q) \<le> bxOrderSeq bx + 1")
      case True
      obtain vs' ws where vw: "q = vs' @ ws" "nonces vs' = [bxOrderSeq bx + 1..bxOrderSeq bx + int (length vs')]"
          "ws \<noteq> [] \<longrightarrow> bxOrderSeq bx + int (length vs') + 1 < buNonce (hd ws)"
          "processUpdates E now q (bx\<lparr>bxQueue := []\<rparr>) = Some ((replay E now vs' (bx\<lparr>bxQueue := []\<rparr>))\<lparr>bxQueue := ws\<rparr>)"
        using processUpdates_sorted[of "bx\<lparr>bxQueue := []\<rparr>" q E now] q(3,4) qgt len by auto
      let ?bx = "(replay E now vs' bx)\<lparr>bxQueue := ws\<rparr>"
      have "processOrderbookUpdate E now u bx = Some ?bx"
        unfolding processOrderbookUpdate_def using True False gt vw(4)
        by (subst processUpdates.simps) (simp add: queue replay_set_queue)
      moreover have "inStep E now bx0 (us @ [u]) ?bx"
      proof (unfold inStep_def, intro exI[of _ "vs @ vs'"] conjI)
        have "[bxOrderSeq bx0 + 1..bxOrderSeq bx + int (length vs')]
            = [bxOrderSeq bx0 + 1..bxOrderSeq bx] @ [bxOrderSeq bx + 1..bxOrderSeq bx + int (length vs')]"
          using sq by (intro upto_join) auto
        then show "nonces (vs @ vs') = [bxOrderSeq bx0 + 1..bxOrderSeq ?bx]"
          using vs(1) vw(2) by (simp add: nonces_def)
        show "set (vs @ vs') \<union> set (bxQueue ?bx) = set (us @ [u])" using vs(2) q(1) vw(1) by auto
        show "length (vs @ vs') + length (bxQueue ?bx) = length (us @ [u])" using vs(3) q(2) vw(1) by simp
        show "\<forall>x\<in>set (bxQueue ?bx). bxOrderSeq ?bx < buNonce x"
        proof
          fix x assume x: "x \<in> set (bxQueue ?bx)"
          have "sorted (nonces ws)" using q(3) vw(1) by (simp add: nonces_def sorted_append)
          then have "buNonce (hd ws) \<le> buNonce x" using x by (cases ws) (auto simp: nonces_def)
          moreover have "ws \<noteq> []" using x by auto
          ultimately show "bxOrderSeq ?bx < buNonce x" using vw(3) by simp
        qed
        show "queueSorted ?bx" "distinct (nonces (bxQueue ?bx))"
          using q(3,4) vw(1) by (simp_all add: queueSorted_def nonces_def sorted_append)
        show "?bx = (replay E now (vs @ vs') bx0)\<lparr>bxQueue := bxQueue ?bx\<rparr>"
          using arg_cong[OF vs(7), of "replay E now vs'"] by (simp add: replay_set_queue)
      qed
      ultimately show ?thesis using vw(3) by simp
    next
      case hdgt: False
      let ?bx = "bx\<lparr>bxQueue := q\<rparr>"
      have "processOrderbookUpdate E now u bx = Some ?bx"
        unfolding processOrderbookUpdate_def using hdgt False gt by (subst processUpdates.simps) (simp add: queue)
      moreover have "inStep E now bx0 (us @ [u]) ?bx"
      proof (unfold inStep_def, intro exI[of _ vs] conjI)
        show "?bx = (replay E now vs bx0)\<lparr>bxQueue := bxQueue ?bx\<rparr>" using set_update_queue[OF vs(7)] by simp
        show "set vs \<union> set (bxQueue ?bx) = set (us @ [u])" using vs(2) q(1) by auto
      qed (use vs(1,3) q qgt in \<open>simp_all add: queueSorted_def\<close>)
      ultimately show ?thesis using hdgt by simp
    qed
  qed
qed

text \<open>Updates that arrive through the handler after the order book.\<close>

lemma argsLoop_snoc:
  assumes "argsLoop E now as b = Some (bx1, False)" and "processNextUpdate E now u bx1 = Some bx2"
  shows "argsLoop E now (as @ [Decoded u]) b = Some (bx2, False)"
  using assms
proof (induction as arbitrary: b)
  case (Cons a as)
  then show ?case by (cases a) (auto split: Option.bind_splits)
qed simp

lemma inStep_positive: "inStep E now bx0 us bx \<Longrightarrow> 0 < bxOrderSeq bx0 \<Longrightarrow> 0 < bxOrderSeq bx"
proof -
  assume "inStep E now bx0 us bx" "0 < bxOrderSeq bx0"
  then obtain vs where "bx = (replay E now vs bx0)\<lparr>bxQueue := bxQueue bx\<rparr>" by (auto simp: inStep_def)
  from arg_cong[OF this, of bxOrderSeq] show ?thesis using \<open>0 < bxOrderSeq bx0\<close> by simp
qed

lemma inStep_all:
  assumes "bxQueue bx0 = []" and "0 < bxOrderSeq bx0" and "distinct (nonces us)" and "\<forall>u\<in>set us. bxOrderSeq bx0 < buNonce u"
    and "length us \<le> maxBittrexQueueSize"
  shows "\<exists>bx. argsLoop E now (map Decoded us) bx0 = Some (bx, False) \<and> inStep E now bx0 us bx"
  using assms(3-5)
proof (induction us rule: rev_induct)
  case Nil
  then show ?case using inStep_start[OF assms(1)] by simp
next
  case (snoc u us)
  obtain bx where bx: "argsLoop E now (map Decoded us) bx0 = Some (bx, False)" "inStep E now bx0 us bx"
    using snoc by (auto simp: nonces_def)
  have n: "processNextUpdate E now u bx = processOrderbookUpdate E now u bx"
    using inStep_positive[OF bx(2) assms(2)] by (simp add: processNextUpdate_def)
  obtain bx' where "processOrderbookUpdate E now u bx = Some bx'" "inStep E now bx0 (us @ [u]) bx'"
    using inStep_step[OF bx(2), of u] snoc.prems by (auto simp: nonces_def)
  then show ?case using argsLoop_snoc[OF bx(1)] n by auto
qed

lemma argsLoop_sequence:
  assumes "0 < bxOrderSeq bx" and "nonces vs = [bxOrderSeq bx + 1..bxOrderSeq bx + int (length vs)]"
  shows "argsLoop E now (map Decoded vs) bx = Some (replay E now vs bx, False)"
  using assms
proof (induction vs arbitrary: bx)
  case (Cons v vs)
  have "[bxOrderSeq bx + 1..bxOrderSeq bx + int (length (v # vs))]
      = (bxOrderSeq bx + 1) # [bxOrderSeq bx + 1 + 1..bxOrderSeq bx + int (length (v # vs))]"
    by (subst upto_rec1) simp_all
  then have v: "buNonce v = bxOrderSeq bx + 1" "nonces vs = [bxOrderSeq bx + 1 + 1..bxOrderSeq bx + 1 + int (length vs)]"
    using Cons.prems(2) by (simp_all add: nonces_def add.assoc)
  have "processNextUpdate E now v bx = Some (applyUpdate E now v bx)"
    unfolding processNextUpdate_def processOrderbookUpdate_def using Cons.prems(1) v(1)
    by (subst processUpdates.simps) simp
  then show ?case using Cons.IH[of "applyUpdate E now v bx"] Cons.prems(1) v(2) by simp
qed simp

text \<open>C37: the order in which updates of the Bittrex order book arrive does not matter. When all updates up to some
  nonce have arrived in any order, at most as many as the queue holds, then the next one leads to the state
  in which all of them were applied in the order of their nonces, with nothing queued.\<close>

theorem bittrex_any_order:
  assumes "bxQueue bx = []" and "0 < bxOrderSeq bx"
    and "distinct (map buNonce us)" and "buNonce ` set us = {bxOrderSeq bx + 1..bxOrderSeq bx + int (length us)}"
    and "buNonce u = bxOrderSeq bx + int (length us) + 1" and "length us < maxBittrexQueueSize"
  shows "argsLoop E now (map Decoded (us @ [u])) bx = argsLoop E now (map Decoded (sort_key buNonce (us @ [u]))) bx \<and>
    (\<exists>bx'. argsLoop E now (map Decoded (us @ [u])) bx = Some (bx', False) \<and> bxOrderSeq bx' = buNonce u \<and> bxQueue bx' = [])"
proof -
  have above: "\<forall>v\<in>set (us @ [u]). bxOrderSeq bx < buNonce v" and u: "buNonce u \<notin> set (nonces us)"
  proof -
    have "bxOrderSeq bx < buNonce v" if "v \<in> set us" for v
    proof -
      have "buNonce v \<in> buNonce ` set us" using that by (rule imageI)
      then show ?thesis unfolding assms(4) by simp
    qed
    then show "\<forall>v\<in>set (us @ [u]). bxOrderSeq bx < buNonce v" using assms(5) by auto
    show "buNonce u \<notin> set (nonces us)" using assms(4,5) by (simp add: nonces_def)
  qed
  obtain bx1 where bx1: "argsLoop E now (map Decoded us) bx = Some (bx1, False)" "inStep E now bx us bx1"
    using inStep_all[OF assms(1,2), of us E now] assms(3,6) above by (auto simp: nonces_def)
  obtain bx2 where bx2: "processOrderbookUpdate E now u bx1 = Some bx2" "inStep E now bx (us @ [u]) bx2"
      "buNonce u \<noteq> bxOrderSeq bx1 + 1 \<and> bxQueue bx2 \<noteq> [] \<longrightarrow> bxOrderSeq bx2 + 1 < buNonce (hd (bxQueue bx2))"
    using inStep_step[OF bx1(2) u] above assms(6) by auto
  have loop: "argsLoop E now (map Decoded (us @ [u])) bx = Some (bx2, False)"
    using argsLoop_snoc[OF bx1(1), of u bx2] bx2(1) inStep_positive[OF bx1(2) assms(2)] by (simp add: processNextUpdate_def)
  obtain vs where vs: "nonces vs = [bxOrderSeq bx + 1..bxOrderSeq bx2]" "set vs \<union> set (bxQueue bx2) = set (us @ [u])"
      "length vs + length (bxQueue bx2) = length (us @ [u])" "\<forall>q\<in>set (bxQueue bx2). bxOrderSeq bx2 < buNonce q"
      "queueSorted bx2" "bx2 = (replay E now vs bx)\<lparr>bxQueue := bxQueue bx2\<rparr>"
    using bx2(2) by (auto simp: inStep_def)
  have all: "buNonce ` set (us @ [u]) = {bxOrderSeq bx + 1..bxOrderSeq bx + int (length us) + 1}"
    using assms(4,5) by auto
  have empty: "bxQueue bx2 = []"
  proof (rule ccontr)
    assume ne: "bxQueue bx2 \<noteq> []"
    have up: "bxOrderSeq bx2 < bxOrderSeq bx + int (length us) + 1"
    proof -
      have "hd (bxQueue bx2) \<in> set (bxQueue bx2)" using ne by simp
      then have "hd (bxQueue bx2) \<in> set (us @ [u])" using vs(2) by blast
      then have "buNonce (hd (bxQueue bx2)) \<in> buNonce ` set (us @ [u])" by (rule imageI)
      then have "buNonce (hd (bxQueue bx2)) \<le> bxOrderSeq bx + int (length us) + 1" unfolding all by simp
      moreover have "bxOrderSeq bx2 < buNonce (hd (bxQueue bx2))" using vs(4) ne by simp
      ultimately show ?thesis by simp
    qed
    have lo: "bxOrderSeq bx \<le> bxOrderSeq bx2" using arg_cong[OF vs(6), of bxOrderSeq] by simp
    show False
    proof (cases "buNonce u = bxOrderSeq bx1 + 1")
      case True
      have "bx2 = applyUpdate E now u bx1"
        using bx2(1) True unfolding processOrderbookUpdate_def by (subst (asm) processUpdates.simps) simp
      then show False using up True assms(5) by simp
    next
      case False
      have "bxOrderSeq bx2 + 1 \<in> buNonce ` set (us @ [u])" using all up lo by simp
      then obtain v where v: "v \<in> set (us @ [u])" "buNonce v = bxOrderSeq bx2 + 1" by (metis imageE)
      have "v \<notin> set vs"
      proof
        assume "v \<in> set vs"
        then have "buNonce v \<in> set (nonces vs)" by (simp add: nonces_def)
        then show False using vs(1) v(2) by simp
      qed
      then have "v \<in> set (bxQueue bx2)" using v(1) vs(2) by blast
      then have "buNonce (hd (bxQueue bx2)) \<le> buNonce v"
        using vs(5) by (cases "bxQueue bx2") (auto simp: queueSorted_def nonces_def)
      then show False using bx2(3) False ne v(2) by simp
    qed
  qed
  have r: "bx2 = replay E now vs bx"
  proof -
    have "bx = bx\<lparr>bxQueue := []\<rparr>" using assms(1) by simp
    then have "replay E now vs bx = (replay E now vs bx)\<lparr>bxQueue := []\<rparr>" using replay_set_queue[of E now vs "[]" bx] by simp
    then show ?thesis using vs(6) empty by simp
  qed
  have len: "length vs = length us + 1" using vs(3) empty by simp
  have seq: "bxOrderSeq bx2 = bxOrderSeq bx + int (length vs)" using r by simp
  have "vs = sort_key buNonce (us @ [u])"
  proof (rule map_sorted_distinct_set_unique[of buNonce])
    have d: "distinct (map buNonce (us @ [u]))" using assms(3) u by (simp add: nonces_def)
    show "inj_on buNonce (set vs \<union> set (sort_key buNonce (us @ [u])))" using vs(2) empty d by (auto simp: distinct_map)
    show "sorted (map buNonce vs)" "distinct (map buNonce vs)" using vs(1) by (simp_all add: nonces_def)
    have "mset (map buNonce (sort_key buNonce (us @ [u]))) = mset (map buNonce (us @ [u]))"
      by (simp only: mset_map mset_sort)
    then show "distinct (map buNonce (sort_key buNonce (us @ [u])))" using d mset_eq_imp_distinct_iff by blast
  qed (use vs(2) empty in simp_all)
  moreover have "argsLoop E now (map Decoded vs) bx = Some (replay E now vs bx, False)"
    using argsLoop_sequence[OF assms(2)] vs(1) seq by simp
  ultimately show ?thesis using loop r empty seq len assms(5) by simp
qed

text \<open>An update that is next in sequence does not look at the queue, where the one after it may be waiting.\<close>

lemma in_sequence_leaves_queue:
  "buNonce u = bxOrderSeq bx + 1 \<Longrightarrow> processOrderbookUpdate E now u bx = Some (applyUpdate E now u bx)
     \<and> bxQueue (applyUpdate E now u bx) = bxQueue bx"
  unfolding processOrderbookUpdate_def by (subst processUpdates.simps) simp

text \<open>An update that was queued before the order book came, and is not yet next, is thrown away.\<close>

lemma full_orderbook_drops:
  assumes "bxQueue bx = [u]" and "buNonce book + 1 < buNonce u"
  shows "\<exists>bx'. processFullOrderbook E now book bx = Some bx' \<and> bxOrderSeq bx' = buNonce book \<and> bxQueue bx' = []"
proof -
  let ?bx = "bx\<lparr>xcBuys := translateBittrexOrderbook E (buBuys book), xcAsks := translateBittrexOrderbook E (buSells book),
      bxOrderSeq := buNonce book\<rparr>"
  have "queueOrderbookUpdate now u (?bx\<lparr>bxQueue := []\<rparr>) = (buNonce u, ?bx\<lparr>bxQueue := [u]\<rparr>)"
    by (simp add: queueOrderbookUpdate_def maxBittrexQueueSize_def)
  then have "processQueue E now ?bx = Some (?bx\<lparr>bxQueue := [u]\<rparr>)"
    using assms unfolding processQueue_def by (subst processUpdates.simps) simp
  then show ?thesis by (simp add: processFullOrderbook_def Let_def wsInitialized_def Update_def xcUpdate_def)
qed

subsection \<open>The books\<close>

definition booksOK :: "'f::times floatEnv \<Rightarrow> ('f, 'z) CommonExchange_scheme \<Rightarrow> bool" where
  "booksOK E xc \<longleftrightarrow> bookOK (eightPtKey E) (xcAsks xc) \<and> bookOK (eightPtKey E) (xcBuys xc)"

lemma booksOK_fields [simp]:
  "booksOK E (setWsFail now xc) = booksOK E xc" "booksOK E (wsUpdated now xc) = booksOK E xc"
  "booksOK E (wsInitialized now xc) = booksOK E xc" "booksOK E (Update now st xc) = booksOK E xc"
  by (simp_all add: booksOK_def setWsFail_def wsUpdated_def wsInitialized_def Update_def xcUpdate_def Let_def)

lemma orderbookPoint_OK: "bookOK (eightPtKey E) book \<Longrightarrow> bookOK (eightPtKey E) (fst (orderbookPoint E order book))"
  by (simp add: orderbookPoint_def Let_def bookOK_update bookOK_delete)

lemma processAsk_OK: "booksOK E bx \<Longrightarrow> booksOK E (processAsk E now bx order)"
  using orderbookPoint_OK[of E "xcAsks bx" order]
  by (auto simp: processAsk_def booksOK_def setWsFail_def Let_def split: prod.split)

lemma processBuy_OK: "booksOK E bx \<Longrightarrow> booksOK E (processBuy E now bx order)"
  using orderbookPoint_OK[of E "xcBuys bx" order]
  by (auto simp: processBuy_def booksOK_def setWsFail_def Let_def split: prod.split)

lemma foldl_OK:
  "booksOK E bx \<Longrightarrow> booksOK E (foldl (processAsk E now) bx orders)"
  "booksOK E bx \<Longrightarrow> booksOK E (foldl (processBuy E now) bx orders)"
  by (induction orders arbitrary: bx) (auto simp: processAsk_OK processBuy_OK)

lemma applyUpdate_OK: "booksOK E bx \<Longrightarrow> booksOK E (applyUpdate E now u bx)"
  unfolding applyUpdate_def by (intro foldl_OK) (simp add: booksOK_def)

lemma queueOrderbookUpdate_OK: "booksOK E (snd (queueOrderbookUpdate now u bx)) = booksOK E bx"
  by (simp add: queueOrderbookUpdate_def Let_def) (simp add: booksOK_def setWsFail_def)

lemma processUpdates_OK:
  "processUpdates E now us bx = Some bx' \<Longrightarrow> booksOK E bx \<longrightarrow> booksOK E bx'"
proof (induction E now us bx bx' rule: processUpdates.raw_induct[rotated 1, consumes 1])
  case (1 f E now us bx bx')
  show ?case
  proof (cases us)
    case Nil
    then show ?thesis using 1(2) by simp
  next
    case (Cons u rest)
    obtain n bx1 where q: "queueOrderbookUpdate now u bx = (n, bx1)" by force
    then have k: "booksOK E bx1 = booksOK E bx" using queueOrderbookUpdate_OK[of E now u bx] by simp
    have e: "booksOK E (bx1\<lparr>bxQueue := []\<rparr>) = booksOK E bx1" by (simp add: booksOK_def)
    show ?thesis
      using 1(2) k e applyUpdate_OK[of E bx now u]
      by (auto simp: Cons q split: Option.bind_splits if_splits dest!: 1(1))
  qed
qed

lemma processOrderbookUpdate_OK: "processOrderbookUpdate E now u bx = Some bx' \<Longrightarrow> booksOK E bx \<Longrightarrow> booksOK E bx'"
  using processUpdates_OK unfolding processOrderbookUpdate_def by blast

lemma processNextUpdate_OK:
  assumes "processNextUpdate E now u bx = Some bx'" and "booksOK E bx"
  shows "booksOK E bx'"
proof -
  have "booksOK E (requestOrderbook bx)" using assms(2) by (simp add: requestOrderbook_def booksOK_def)
  then show ?thesis using assms processOrderbookUpdate_OK[of E now u bx bx']
    by (auto simp: processNextUpdate_def queueOrderbookUpdate_OK split: if_splits)
qed

lemma argsLoop_OK: "argsLoop E now args bx = Some (bx', r) \<Longrightarrow> booksOK E bx \<Longrightarrow> booksOK E bx'"
  by (induction E now args bx rule: argsLoop.induct) (auto split: Option.bind_splits dest: processNextUpdate_OK)

lemma hubLoop_OK: "hubLoop E now msgs bx = Some bx' \<Longrightarrow> booksOK E bx \<Longrightarrow> booksOK E bx'"
  by (induction E now msgs bx rule: hubLoop.induct)
     (auto split: Option.bind_splits if_splits prod.splits dest: argsLoop_OK)

lemma translate_OK: "bookOK (eightPtKey E) (translateBittrexOrderbook E orders)"
proof -
  have "bookOK (eightPtKey E) book \<Longrightarrow> bookOK (eightPtKey E) (foldl (\<lambda>book order. AList.update (eightPtKey E (boRate order))
      \<lparr>woPrice = boRate order, woVolume = boQuantity order\<rparr> book) book orders)" for book
    by (induction orders arbitrary: book) (auto simp: bookOK_update)
  then show ?thesis by (simp add: translateBittrexOrderbook_def)
qed

lemma processFullOrderbook_OK:
  assumes "processFullOrderbook E now book bx = Some bx'"
  shows "booksOK E bx'"
proof -
  let ?bx = "bx\<lparr>xcBuys := translateBittrexOrderbook E (buBuys book), xcAsks := translateBittrexOrderbook E (buSells book),
      bxOrderSeq := buNonce book\<rparr>"
  obtain bx1 where bx1: "processQueue E now ?bx = Some bx1"
      "bx' = wsInitialized now (Update now (withDepth now (bx1\<lparr>bxQueue := []\<rparr>)) (bx1\<lparr>bxQueue := []\<rparr>))"
    using assms by (auto simp: processFullOrderbook_def Let_def)
  have "booksOK E (?bx\<lparr>bxQueue := []\<rparr>)" by (simp add: booksOK_def translate_OK)
  then have "booksOK E bx1" using processUpdates_OK bx1(1) unfolding processQueue_def by blast
  then show ?thesis by (simp add: bx1(2)) (simp add: booksOK_def)
qed

lemma msgHandler_OK:
  assumes "msgHandler E now msg bx = Some bx'" and "booksOK E bx"
  shows "booksOK E bx'"
  using assms processFullOrderbook_OK hubLoop_OK
  by (fastforce simp: msgHandler_def split: if_splits reencoded.splits Option.bind_splits)

lemma bittrexReach_books: "bittrexReach E bx \<Longrightarrow> booksOK E bx"
proof (induction rule: bittrexReach.induct)
  case br_start
  then show ?case by (simp add: booksOK_def NewBittrex_def CommonExchange.defs newCommonExchange_def)
next
  case (br_connect bx now ok)
  then show ?case by (simp add: connectWs_def connectSignalr_def Let_def) (simp add: booksOK_def)
next
  case (br_message bx now msg bx')
  then show ?case using msgHandler_OK by blast
qed

subsection \<open>An example\<close>

definition exFloats :: "int floatEnv" where
  "exFloats = \<lparr>feParse = (\<lambda>s. if s = [] then None else Some (int (length s))), feRound = (\<lambda>x. x), feTrunc = (\<lambda>x. x),
     feIsZero = (\<lambda>x. x = 0), fe1e8 = 100, fe1e3 = 1000\<rparr>"

definition exUpdate :: "int \<Rightarrow> int \<Rightarrow> int BittrexOrderbookUpdate" where
  "exUpdate n vol = \<lparr>buNonce = n, buMarketName = ''BTC-HDF'', buBuys = [],
     buSells = [\<lparr>boQuantity = vol, boRate = 5, boType = 0\<rparr>], buFills = []\<rparr>"

definition exBittrex :: "int BittrexExchange" where
  "exBittrex = NewBittrex\<lparr>bxOrderSeq := 7\<rparr>"

theorem bittrex_any_order_witness:
  "\<exists>bx'. argsLoop exFloats 0 (map Decoded [exUpdate 9 1, exUpdate 8 2, exUpdate 10 3]) exBittrex = Some (bx', False) \<and>
     bxOrderSeq bx' = 10 \<and> bxQueue bx' = []"
proof -
  have q: "bxQueue exBittrex = []" "bxOrderSeq exBittrex = 7"
    by (simp_all add: exBittrex_def NewBittrex_def CommonExchange.defs)
  have "{8..9} = {8, 9::int}" by auto
  then show ?thesis
    using bittrex_any_order[of exBittrex "[exUpdate 9 1, exUpdate 8 2]" "exUpdate 10 3" exFloats 0]
    by (auto simp: q exUpdate_def maxBittrexQueueSize_def)
qed

theorem msgHandler_returns_witness:
  "\<exists>bx'. msgHandler exFloats 0 \<lparr>smI = [], smR = MarshalError, smM = [(updateMsgKey, [Decoded (exUpdate 9 1)])]\<rparr> NewBittrex = Some bx'
     \<and> sorted (map buNonce (bxQueue bx'))"
  by (rule msgHandler_returns[OF br_start])

end
