(* ===== verification/PoloniexFeed.thy ===== *)
theory PoloniexFeed
  imports BittrexFeed "HOL-Library.Signed_Division"
begin

text \<open>
  The order book of Poloniex (\<open>exchanges/exchanges.go\<close>), which is kept over a websocket: a message with the full
  order book and then batches of updates with consecutive sequence ids. A message is a JSON value that has
  been decoded without a schema, so every part of it is checked when it is used. The texts of errors are without
  the values that the code formats into them.
\<close>

subsection \<open>Decoded JSON\<close>

datatype 'f json = JNull | JBool bool | JNum 'f | JStr string | JArr "'f json list" | JObj "(string \<times> 'f json) list"

record 'f PoloniexExchange = "'f CommonExchange" +
  pxCurrencyPair :: string
  pxOrderSeq :: int
  pxSubscribed :: nat

definition NewPoloniex :: "'f::zero PoloniexExchange" where
  "NewPoloniex = CommonExchange.extend (newCommonExchange ''poloniex'')
     \<lparr>pxCurrencyPair = ''BTC_DCR'', pxOrderSeq = 0, pxSubscribed = 0\<rparr>"

definition poloniexHeartbeatCode :: int where "poloniexHeartbeatCode = 1010"
definition poloniexInitialOrderbookKey :: string where "poloniexInitialOrderbookKey = ''i''"
definition poloniexOrderUpdateKey :: string where "poloniexOrderUpdateKey = ''o''"
definition poloniexTradeUpdateKey :: string where "poloniexTradeUpdateKey = ''t''"
definition poloniexAskDirection :: int where "poloniexAskDirection = 0"
definition poloniexBuyDirection :: int where "poloniexBuyDirection = 1"

subsection \<open>The full order book\<close>

text \<open>The orders after the loop, which ends early with an error.\<close>

fun parseOrderMap :: "'f::times floatEnv \<Rightarrow> (string \<times> 'f json) list \<Rightarrow> 'f wsOrders \<Rightarrow> string option \<times> 'f wsOrders" where
  "parseOrderMap E [] orders = (None, orders)"
| "parseOrderMap E ((p, v) # book) orders = (case feParse E p of
     None \<Rightarrow> (Some ''Failed to parse float from poloniex orderbook price'', orders)
   | Some price \<Rightarrow> (case v of
       JStr vStr \<Rightarrow> (case feParse E vStr of
           None \<Rightarrow> (Some ''Failed to parse float from poloniex orderbook volume string'', orders)
         | Some volume \<Rightarrow> parseOrderMap E book
             (AList.update (eightPtKey E price) \<lparr>woPrice = price, woVolume = volume\<rparr> orders))
     | _ \<Rightarrow> (Some ''Failed to cast poloniex orderbook volume to string'', orders)))"

definition asArr :: "'f json \<Rightarrow> 'f json list option" where
  "asArr j = (case j of JArr js \<Rightarrow> Some js | _ \<Rightarrow> None)"

definition asObj :: "'f json \<Rightarrow> (string \<times> 'f json) list option" where
  "asObj j = (case j of JObj m \<Rightarrow> Some m | _ \<Rightarrow> None)"

text \<open>The two maps of the order book in the response, if it has the expected form.\<close>

definition orderMaps :: "'f json list \<Rightarrow> ((string \<times> 'f json) list \<times> (string \<times> 'f json) list) option" where
  "orderMaps responseList = Option.bind (asArr (hd responseList)) (\<lambda>subList.
     if length subList < 2 then None
     else Option.bind (asObj (subList ! 1)) (\<lambda>d.
       Option.bind (Option.bind (map_of d ''orderBook'') asArr) (\<lambda>orderBook.
         if length orderBook < 2 then None
         else Option.bind (asObj (orderBook ! 0)) (\<lambda>asks.
           Option.bind (asObj (orderBook ! 1)) (\<lambda>buys. Some (asks, buys))))))"

definition processWsOrderbook :: "'f::times floatEnv \<Rightarrow> int \<Rightarrow> int \<Rightarrow> 'f json list \<Rightarrow> 'f PoloniexExchange \<Rightarrow> 'f PoloniexExchange" where
  "processWsOrderbook E now sequenceID responseList px = (case orderMaps responseList of
     None \<Rightarrow> setWsFail now px
   | Some (asks, buys) \<Rightarrow>
       (let px1 = px\<lparr>pxOrderSeq := sequenceID\<rparr>; (err, newAsks) = parseOrderMap E asks (xcAsks px1);
            px2 = px1\<lparr>xcAsks := newAsks\<rparr>
        in if err \<noteq> None then setWsFail now px2
           else let (err, newBuys) = parseOrderMap E buys (xcBuys px2); px3 = px2\<lparr>xcBuys := newBuys\<rparr>
                in if err \<noteq> None then setWsFail now px3 else wsInitialized now px3))"

subsection \<open>Updates\<close>

definition mergePoloniexDepthUpdates :: "'f floatEnv \<Rightarrow> 'f wsOrders \<Rightarrow> 'f wsOrders \<Rightarrow> 'f wsOrders" where
  "mergePoloniexDepthUpdates E target source =
     foldl (\<lambda>t (bin, pt). if feIsZero E (woVolume pt) then AList.delete bin t else AList.update bin pt t) target source"

definition accumulateOrders :: "'f floatEnv \<Rightarrow> int \<Rightarrow> int \<Rightarrow> 'f wsOrders \<Rightarrow> 'f wsOrders \<Rightarrow> 'f PoloniexExchange \<Rightarrow> 'f PoloniexExchange" where
  "accumulateOrders E now sequenceID asks buys px = (let px1 = px\<lparr>pxOrderSeq := pxOrderSeq px + 1\<rparr> in
     if sequenceID \<noteq> pxOrderSeq px1 then setWsFail now px1
     else px1\<lparr>xcAsks := mergePoloniexDepthUpdates E (xcAsks px1) asks, xcBuys := mergePoloniexDepthUpdates E (xcBuys px1) buys\<rparr>)"

definition firstCode :: "'f json list \<Rightarrow> string" where
  "firstCode responseList = (case hd responseList of
     JArr firstElement \<Rightarrow> (case firstElement of JStr updateType # _ \<Rightarrow> updateType | _ \<Rightarrow> [])
   | _ \<Rightarrow> [])"

text \<open>The order (nil with an error), the direction and the error. The caller has checked that there are four parameters.\<close>

definition processPoloniexOrderbookUpdate :: "'f floatEnv \<Rightarrow> 'f json list \<Rightarrow> 'f wsOrder option \<times> int \<times> string option" where
  "processPoloniexOrderbookUpdate E updateParams = (case updateParams ! 1 of
     JNum floatDir \<Rightarrow> (let direction = feTrunc E floatDir in
       case updateParams ! 2 of
         JStr priceStr \<Rightarrow> (case feParse E priceStr of
             None \<Rightarrow> (None, - 1, Some ''failed to convert poloniex orderbook update price to float'')
           | Some price \<Rightarrow> (case updateParams ! 3 of
               JStr volStr \<Rightarrow> (case feParse E volStr of
                   None \<Rightarrow> (None, - 1, Some ''failed to convert poloniex orderbook update volume to float'')
                 | Some volume \<Rightarrow> (Some \<lparr>woPrice = price, woVolume = volume\<rparr>, direction, None))
             | _ \<Rightarrow> (None, - 1, Some ''failed to type convert poloniex orderbook update volume'')))
       | _ \<Rightarrow> (None, - 1, Some ''failed to type convert poloniex orderbook update price''))
   | _ \<Rightarrow> (None, - 1, Some ''failed to type convert poloniex orderbook update direction''))"

definition processTrade :: "'f floatEnv \<Rightarrow> 'f json list \<Rightarrow> 'f wsOrder option \<times> int \<times> string option" where
  "processTrade E tradeParams =
     (if length tradeParams \<noteq> 6 then (None, - 1, Some ''Not enough parameters in poloniex trade notification'')
      else case tradeParams ! 2 of
        JNum floatDir \<Rightarrow> (let direction = (feTrunc E floatDir + 1) smod 2 in
          case tradeParams ! 3 of
            JStr priceStr \<Rightarrow> (case feParse E priceStr of
                None \<Rightarrow> (None, - 1, Some ''failed to convert poloniex orderbook update price to float'')
              | Some price \<Rightarrow> (case tradeParams ! 4 of
                  JStr volStr \<Rightarrow> (case feParse E volStr of
                      None \<Rightarrow> (None, - 1, Some ''failed to convert poloniex orderbook update volume to float'')
                    | Some volume \<Rightarrow> (Some \<lparr>woPrice = price, woVolume = volume\<rparr>, direction, None))
                | _ \<Rightarrow> (None, - 1, Some ''failed to type convert poloniex orderbook update volume'')))
          | _ \<Rightarrow> (None, - 1, Some ''failed to type convert poloniex orderbook update price''))
      | _ \<Rightarrow> (None, - 1, Some ''failed to type convert poloniex orderbook update direction''))"

subsection \<open>Messages\<close>

text \<open>An order is filed by its direction; \<open>None\<close> is the early return, and a nil order is dereferenced.\<close>

record 'f batch =
  btAsks :: "'f wsOrders"
  btBids :: "'f wsOrders"
  btCount :: int

definition fileOrder :: "'f::times floatEnv \<Rightarrow> 'f wsOrder option \<Rightarrow> int \<Rightarrow> 'f batch \<Rightarrow> 'f batch option go" where
  "fileOrder E order direction b =
     (if direction = poloniexAskDirection then (case order of
        None \<Rightarrow> Panic
      | Some w \<Rightarrow> Ret (Some (b\<lparr>btAsks := AList.update (eightPtKey E (woPrice w)) w (btAsks b), btCount := btCount b + 1\<rparr>)))
      else if direction = poloniexBuyDirection then (case order of
        None \<Rightarrow> Panic
      | Some w \<Rightarrow> Ret (Some (b\<lparr>btBids := AList.update (eightPtKey E (woPrice w)) w (btBids b), btCount := btCount b + 1\<rparr>)))
      else Ret None)"

text \<open>The loop over the updates of a message.\<close>

fun updatesLoop :: "'f::times floatEnv \<Rightarrow> int \<Rightarrow> 'f json list \<Rightarrow> 'f batch \<Rightarrow> 'f PoloniexExchange
    \<Rightarrow> ('f PoloniexExchange \<times> 'f batch option) go" where
  "updatesLoop E now [] b px = Ret (px, Some b)"
| "updatesLoop E now (update # updates) b px = (case asArr update of
     None \<Rightarrow> Ret (setWsFail now px, None)
   | Some updateParams \<Rightarrow>
       if length updateParams < 4 then Ret (setWsFail now px, None)
       else (case updateParams ! 0 of
         JStr updateType \<Rightarrow>
           if updateType = poloniexTradeUpdateKey then updatesLoop E now updates b px
           else (case (if updateType = poloniexOrderUpdateKey then processPoloniexOrderbookUpdate E updateParams
                       else (None, 0, None)) of (order, direction, err) \<Rightarrow>
             let px' = (if err \<noteq> None then setWsFail now px else px) in
             case fileOrder E order direction b of
               Panic \<Rightarrow> Panic
             | Ret None \<Rightarrow> Ret (setWsFail now px', None)
             | Ret (Some b') \<Rightarrow> updatesLoop E now updates b' px')
       | _ \<Rightarrow> Ret (setWsFail now px, None)))"

text \<open>A message that was not a JSON list is \<open>None\<close>.\<close>

definition processWsMessage :: "'f::{times,zero} floatEnv \<Rightarrow> int \<Rightarrow> 'f json list option \<Rightarrow> 'f PoloniexExchange
    \<Rightarrow> 'f PoloniexExchange go" where
  "processWsMessage E now raw px = (case raw of
     None \<Rightarrow> Ret (setWsFail now px)
   | Some [code] \<Rightarrow> (case code of
       JNum c \<Rightarrow> Ret (if feTrunc E c = poloniexHeartbeatCode then px else setWsFail now px)
     | _ \<Rightarrow> Ret (setWsFail now px))
   | Some [channel, rawSeq, JArr responseList] \<Rightarrow>
       if responseList = [] then Ret (setWsFail now px)
       else (case rawSeq of
         JNum s \<Rightarrow> (let code = firstCode responseList; seq = feTrunc E s in
           if code = poloniexInitialOrderbookKey then
             (let px' = processWsOrderbook E now seq responseList px in Ret (Update now (withDepth now px') px'))
           else if code \<noteq> poloniexOrderUpdateKey \<and> code \<noteq> poloniexTradeUpdateKey then Ret (setWsFail now px)
           else (case updatesLoop E now responseList \<lparr>btAsks = [], btBids = [], btCount = 0\<rparr> px of
               Panic \<Rightarrow> Panic
             | Ret (px', None) \<Rightarrow> Ret px'
             | Ret (px', Some b) \<Rightarrow>
                 (let px2 = accumulateOrders E now seq (btAsks b) (btBids b) px'
                  in Ret (if 0 < btCount b then wsUpdated now px2 else px2))))
       | _ \<Rightarrow> Ret (setWsFail now px))
   | Some _ \<Rightarrow> Ret (setWsFail now px))"

text \<open>A failed dial is only logged.\<close>

definition poloniexConnectWs :: "bool \<Rightarrow> 'f PoloniexExchange \<Rightarrow> 'f PoloniexExchange" where
  "poloniexConnectWs ok px = (let (connected, px') = connectWebsocket ok px in
     if \<not> connected then px' else px'\<lparr>pxSubscribed := pxSubscribed px' + 1\<rparr>)"

subsection \<open>A batch is its updates one after the other\<close>

text \<open>What one update means: an order at a price, or its removal.\<close>

definition applyOrder :: "'f::times floatEnv \<Rightarrow> 'f wsOrders \<Rightarrow> 'f wsOrder \<Rightarrow> 'f wsOrders" where
  "applyOrder E book w = (let k = eightPtKey E (woPrice w) in
     if feIsZero E (woVolume w) then AList.delete k book else AList.update k w book)"

definition fileOrders :: "'f::times floatEnv \<Rightarrow> 'f wsOrders \<Rightarrow> 'f wsOrder list \<Rightarrow> 'f wsOrders" where
  "fileOrders E = foldl (\<lambda>m w. AList.update (eightPtKey E (woPrice w)) w m)"

lemma merge_map_of:
  assumes "distinct (map fst source)"
  shows "map_of (mergePoloniexDepthUpdates E target source) k =
    (case map_of source k of None \<Rightarrow> map_of target k | Some w \<Rightarrow> if feIsZero E (woVolume w) then None else Some w)"
  using assms
proof (induction source arbitrary: target)
  case (Cons s source)
  obtain bin pt where s: "s = (bin, pt)" by force
  let ?t = "if feIsZero E (woVolume pt) then AList.delete bin target else AList.update bin pt target"
  have "map_of source bin = None" using Cons.prems s by (simp add: map_of_eq_None_iff)
  moreover have "mergePoloniexDepthUpdates E target (s # source) = mergePoloniexDepthUpdates E ?t source"
    by (simp add: mergePoloniexDepthUpdates_def s)
  ultimately show ?case
    using Cons by (auto simp: s update_conv AList.delete_conv split: option.split)
qed (simp add: mergePoloniexDepthUpdates_def)

lemma fileOrders_distinct: "distinct (map fst m) \<Longrightarrow> distinct (map fst (fileOrders E m ws))"
  by (induction ws arbitrary: m) (simp_all add: fileOrders_def distinct_update)

lemma batch_sequential:
  "map_of (mergePoloniexDepthUpdates E target (fileOrders E [] ws)) = map_of (foldl (applyOrder E) target ws)"
proof (induction ws rule: rev_induct)
  case Nil
  then show ?case by (simp add: fileOrders_def mergePoloniexDepthUpdates_def)
next
  case (snoc w ws)
  have d: "distinct (map fst (fileOrders E [] vs))" for vs by (simp add: fileOrders_distinct)
  have f: "fileOrders E [] (ws @ [w]) = AList.update (eightPtKey E (woPrice w)) w (fileOrders E [] ws)"
    by (simp add: fileOrders_def)
  show ?case
  proof
    fix k
    have "map_of (foldl (applyOrder E) target ws) k = (case map_of (fileOrders E [] ws) k of
        None \<Rightarrow> map_of target k | Some w \<Rightarrow> if feIsZero E (woVolume w) then None else Some w)"
      using snoc merge_map_of[OF d] by metis
    then show "map_of (mergePoloniexDepthUpdates E target (fileOrders E [] (ws @ [w]))) k
        = map_of (foldl (applyOrder E) target (ws @ [w])) k"
      unfolding merge_map_of[OF d[of "ws @ [w]"]] unfolding f by (auto simp: update_conv AList.delete_conv applyOrder_def Let_def)
  qed
qed

text \<open>An update as Poloniex sends it, with the order it stands for.\<close>

type_synonym 'f orderMsg = "int \<times> 'f \<times> string \<times> string"

definition orderJson :: "'f \<Rightarrow> string \<Rightarrow> string \<Rightarrow> 'f json" where
  "orderJson d p v = JArr [JStr ''o'', JNum d, JStr p, JStr v]"

definition stands :: "'f floatEnv \<Rightarrow> int \<times> 'f wsOrder \<Rightarrow> 'f json \<Rightarrow> bool" where
  "stands E dw j \<longleftrightarrow> (\<exists>d p v. j = orderJson d p v \<and> feTrunc E d = fst dw \<and> fst dw \<in> {0, 1} \<and>
     feParse E p = Some (woPrice (snd dw)) \<and> feParse E v = Some (woVolume (snd dw)))"

definition asksIn :: "(int \<times> 'f wsOrder) list \<Rightarrow> 'f wsOrder list" where
  "asksIn dws = map snd (filter (\<lambda>dw. fst dw = 0) dws)"

definition buysIn :: "(int \<times> 'f wsOrder) list \<Rightarrow> 'f wsOrder list" where
  "buysIn dws = map snd (filter (\<lambda>dw. fst dw = 1) dws)"

lemma updatesLoop_stands:
  assumes "list_all2 (stands E) dws js"
  shows "updatesLoop E now js b px = Ret (px, Some \<lparr>btAsks = fileOrders E (btAsks b) (asksIn dws),
    btBids = fileOrders E (btBids b) (buysIn dws), btCount = btCount b + int (length dws)\<rparr>)"
  using assms
proof (induction dws js arbitrary: b rule: list_all2_induct)
  case Nil
  then show ?case by (simp add: asksIn_def buysIn_def fileOrders_def)
next
  case (Cons dw dws j js)
  obtain d p v where j: "j = orderJson d p v" "feTrunc E d = fst dw" "fst dw \<in> {0, 1}"
      "feParse E p = Some (woPrice (snd dw))" "feParse E v = Some (woVolume (snd dw))"
    using Cons.hyps(1) by (auto simp: stands_def)
  have up: "processPoloniexOrderbookUpdate E [JStr ''o'', JNum d, JStr p, JStr v] = (Some (snd dw), fst dw, None)"
    using j by (simp add: processPoloniexOrderbookUpdate_def numeral_2_eq_2 numeral_3_eq_3)
  show ?case using j(3)
    by (auto simp: j(1) orderJson_def asArr_def poloniexTradeUpdateKey_def poloniexOrderUpdateKey_def up fileOrder_def
        poloniexAskDirection_def poloniexBuyDirection_def Cons.IH asksIn_def buysIn_def fileOrders_def)
qed

text \<open>a batch of Poloniex order book updates with the next sequence id is taken as if its updates had been applied to
  the books one after the other, although they are first collected by price; it counts as an update of the
  websocket and forgets earlier errors.\<close>

theorem poloniex_batch:
  assumes "list_all2 (stands E) dws js" and "dws \<noteq> []" and "feTrunc E s = pxOrderSeq px + 1"
  shows "\<exists>px'. processWsMessage E now (Some [channel, JNum s, JArr js]) px = Ret px' \<and>
    pxOrderSeq px' = pxOrderSeq px + 1 \<and>
    map_of (xcAsks px') = map_of (foldl (applyOrder E) (xcAsks px) (asksIn dws)) \<and>
    map_of (xcBuys px') = map_of (foldl (applyOrder E) (xcBuys px) (buysIn dws)) \<and>
    wsUpdate px' = now \<and> wsErrCount px' = 0"
proof -
  obtain j js' where js: "js = j # js'" using assms(1,2) by (cases js) auto
  then have ne: "js \<noteq> []" by simp
  have "\<exists>dw. stands E dw j" using js assms(1) by (auto simp: list_all2_Cons2)
  then have code: "firstCode js = ''o''" by (auto simp: js firstCode_def stands_def orderJson_def)
  have loop: "updatesLoop E now js \<lparr>btAsks = [], btBids = [], btCount = 0\<rparr> px = Ret (px, Some \<lparr>btAsks = fileOrders E [] (asksIn dws),
      btBids = fileOrders E [] (buysIn dws), btCount = int (length dws)\<rparr>)"
    using updatesLoop_stands[OF assms(1)] by simp
  show ?thesis
    using assms(2,3) ne
    by (simp add: processWsMessage_def code loop poloniexInitialOrderbookKey_def poloniexOrderUpdateKey_def Let_def
        accumulateOrders_def wsUpdated_def batch_sequential)
qed

text \<open>An element of another type, other than the first, makes the handler dereference a nil order.\<close>

lemma unknown_type_panics:
  assumes "stands E dw j" and "t \<noteq> ''o''" and "t \<noteq> ''t''"
  shows "processWsMessage E now (Some [channel, JNum s, JArr [j, JArr (JStr t # [a, b, c])]]) px = Panic"
proof -
  obtain d p v where j: "j = orderJson d p v" "feTrunc E d = fst dw" "fst dw \<in> {0, 1}"
      "feParse E p = Some (woPrice (snd dw))" "feParse E v = Some (woVolume (snd dw))"
    using assms(1) by (auto simp: stands_def)
  have up: "processPoloniexOrderbookUpdate E [JStr ''o'', JNum d, JStr p, JStr v] = (Some (snd dw), fst dw, None)"
    using j by (simp add: processPoloniexOrderbookUpdate_def numeral_2_eq_2 numeral_3_eq_3)
  show ?thesis using j(3) assms(2,3)
    by (auto simp: processWsMessage_def firstCode_def poloniexInitialOrderbookKey_def poloniexOrderUpdateKey_def poloniexTradeUpdateKey_def
        Let_def j(1) orderJson_def asArr_def up fileOrder_def poloniexAskDirection_def poloniexBuyDirection_def)
qed

text \<open>A batch with a wrong sequence id is a failure, but the error is not counted: the update that follows it resets
  the counter, from which the delay of the next connection is computed.\<close>

lemma sequence_failure_forgotten:
  assumes "list_all2 (stands E) dws js" and "dws \<noteq> []" and "feTrunc E s \<noteq> pxOrderSeq px + 1"
  shows "\<exists>px'. processWsMessage E now (Some [channel, JNum s, JArr js]) px = Ret px' \<and> wsFail px' = now \<and> wsErrCount px' = 0"
proof -
  obtain j js' where js: "js = j # js'" using assms(1,2) by (cases js) auto
  then have ne: "js \<noteq> []" by simp
  have "\<exists>dw. stands E dw j" using js assms(1) by (auto simp: list_all2_Cons2)
  then have code: "firstCode js = ''o''" by (auto simp: js firstCode_def stands_def orderJson_def)
  have loop: "updatesLoop E now js \<lparr>btAsks = [], btBids = [], btCount = 0\<rparr> px = Ret (px, Some \<lparr>btAsks = fileOrders E [] (asksIn dws),
      btBids = fileOrders E [] (buysIn dws), btCount = int (length dws)\<rparr>)"
    using updatesLoop_stands[OF assms(1)] by simp
  show ?thesis
    using assms(2,3) ne
    by (simp add: processWsMessage_def code loop poloniexInitialOrderbookKey_def poloniexOrderUpdateKey_def Let_def
        accumulateOrders_def wsUpdated_def setWsFail_def)
qed

text \<open>The full order book is added to what the books held before: an old order at a price that is no longer there stays.\<close>

lemma parseOrderMap_keeps:
  "parseOrderMap E book orders = (err, orders') \<Longrightarrow> k \<in> fst ` set orders \<Longrightarrow> k \<in> fst ` set orders'"
proof (induction E book orders arbitrary: orders' rule: parseOrderMap.induct)
  case (2 E p v book orders)
  have "k \<in> fst ` set (AList.update a w orders)" for a w
    using 2(3) by (simp add: dom_update)
  then show ?case using 2 by (auto split: option.splits json.splits)
qed simp

subsection \<open>The books\<close>

lemma booksOK_seq [simp]: "booksOK E (px\<lparr>pxOrderSeq := n\<rparr>) = booksOK E px"
  by (simp add: booksOK_def)

lemma parseOrderMap_OK: "bookOK (eightPtKey E) orders \<Longrightarrow> bookOK (eightPtKey E) (snd (parseOrderMap E book orders))"
  by (induction E book orders rule: parseOrderMap.induct) (auto simp: bookOK_update split: option.split json.split)

lemma processWsOrderbook_OK: "booksOK E px \<Longrightarrow> booksOK E (processWsOrderbook E now seq rs px)"
proof -
  assume "booksOK E px"
  then have "bookOK (eightPtKey E) (snd (parseOrderMap E a (xcAsks px)))" "bookOK (eightPtKey E) (snd (parseOrderMap E a (xcBuys px)))"
      "bookOK (eightPtKey E) (xcAsks px)" "bookOK (eightPtKey E) (xcBuys px)" for a
    by (simp_all add: booksOK_def parseOrderMap_OK)
  then show ?thesis
    by (auto simp: processWsOrderbook_def Let_def case_prod_unfold split: option.split) (simp_all add: booksOK_def)
qed

lemma merge_OK:
  assumes "bookOK key target" and "bookOK key source"
  shows "bookOK key (mergePoloniexDepthUpdates E target source)"
proof -
  have "bookOK key target \<Longrightarrow> \<forall>(k, w)\<in>set source. k = key (woPrice w) \<Longrightarrow> bookOK key (mergePoloniexDepthUpdates E target source)"
  proof (induction source arbitrary: target)
    case (Cons s source)
    then show ?case
      by (cases s) (auto simp: mergePoloniexDepthUpdates_def bookOK_update bookOK_delete)
  qed (simp add: mergePoloniexDepthUpdates_def)
  then show ?thesis using assms by (simp add: bookOK_def)
qed

definition batchOK :: "'f::times floatEnv \<Rightarrow> 'f batch \<Rightarrow> bool" where
  "batchOK E b \<longleftrightarrow> bookOK (eightPtKey E) (btAsks b) \<and> bookOK (eightPtKey E) (btBids b)"

lemma fileOrder_OK: "fileOrder E order d b = Ret (Some b') \<Longrightarrow> batchOK E b \<Longrightarrow> batchOK E b'"
  by (auto simp: fileOrder_def batchOK_def bookOK_update split: if_splits option.splits)

lemma updatesLoop_OK:
  "updatesLoop E now js b px = Ret (px', r) \<Longrightarrow> booksOK E px \<Longrightarrow> batchOK E b \<Longrightarrow>
   booksOK E px' \<and> (\<forall>b'. r = Some b' \<longrightarrow> batchOK E b')"
proof (induction js arbitrary: b px)
  case (Cons j js)
  show ?case
  proof (cases "asArr j")
    case None
    then show ?thesis using Cons.prems by auto
  next
    case (Some ps)
    show ?thesis
    proof (cases "length ps < 4")
      case True
      then show ?thesis using Cons.prems Some by auto
    next
      case False
      show ?thesis
      proof (cases "ps ! 0")
        case (JStr t)
        obtain order d err where od: "(if t = poloniexOrderUpdateKey then processPoloniexOrderbookUpdate E ps else (None, 0, None)) = (order, d, err)"
          using prod_cases3 by blast
        show ?thesis
        proof (cases "t = poloniexTradeUpdateKey")
          case True
          then have "updatesLoop E now js b px = Ret (px', r)" using Cons.prems(1) Some False JStr by simp
          then show ?thesis by (rule Cons.IH[OF _ Cons.prems(2,3)])
        next
          case nt: False
          show ?thesis using Cons Some False JStr nt fileOrder_OK[of E order d b]
            by (auto simp: od Let_def split: go.splits option.splits if_splits)
        qed
      qed (use Cons.prems Some False in auto)
    qed
  qed
qed auto

lemma accumulateOrders_OK:
  assumes "booksOK E px" and "bookOK (eightPtKey E) asks" and "bookOK (eightPtKey E) buys"
  shows "booksOK E (accumulateOrders E now seq asks buys px)"
proof -
  have "bookOK (eightPtKey E) (mergePoloniexDepthUpdates E (xcAsks px) asks)"
      "bookOK (eightPtKey E) (mergePoloniexDepthUpdates E (xcBuys px) buys)"
    using assms by (simp_all add: booksOK_def merge_OK)
  then show ?thesis using assms(1) by (simp add: accumulateOrders_def Let_def) (simp add: booksOK_def)
qed

lemma other_message:
  assumes "\<nexists>c. msg = [c]" and "\<nexists>a q rs. msg = [a, q, JArr rs]"
  shows "processWsMessage E now (Some msg) px = Ret (setWsFail now px)"
proof -
  consider "msg = []" | a b where "msg = [a, b]" | a b x where "msg = [a, b, x]" | a b x y r where "msg = a # b # x # y # r"
    using assms(1) by (metis list.exhaust)
  then show ?thesis
  proof cases
    case (3 a b x)
    then show ?thesis using assms(2) by (cases x) (simp_all add: processWsMessage_def)
  next
    case (4 a b x y r)
    then show ?thesis by (cases x) (simp_all add: processWsMessage_def)
  qed (simp_all add: processWsMessage_def)
qed

lemma poloniexMessage_OK:
  assumes "processWsMessage E now raw px = Ret px'" and "booksOK E px"
  shows "booksOK E px'"
proof -
  have batch: "booksOK E px2" if "(case updatesLoop E now rs \<lparr>btAsks = [], btBids = [], btCount = 0\<rparr> px of
        Panic \<Rightarrow> Panic
      | Ret (px', None) \<Rightarrow> Ret px'
      | Ret (px', Some b) \<Rightarrow> (let px2 = accumulateOrders E now seq (btAsks b) (btBids b) px'
                           in Ret (if 0 < btCount b then wsUpdated now px2 else px2))) = Ret px2" for rs seq px2
  proof (cases "updatesLoop E now rs \<lparr>btAsks = [], btBids = [], btCount = 0\<rparr> px")
    case (Ret z)
    obtain px1 r where z: "z = (px1, r)" by force
    have "booksOK E px1 \<and> (\<forall>b'. r = Some b' \<longrightarrow> batchOK E b')"
    proof (rule updatesLoop_OK)
      show "updatesLoop E now rs \<lparr>btAsks = [], btBids = [], btCount = 0\<rparr> px = Ret (px1, r)" using Ret z by simp
    qed (use assms(2) in \<open>simp_all add: batchOK_def\<close>)
    then show ?thesis using that Ret z
      by (auto simp: Let_def batchOK_def accumulateOrders_OK split: option.splits)
  qed (use that in simp)
  have full: "booksOK E (Update now (withDepth now (processWsOrderbook E now seq rs px)) (processWsOrderbook E now seq rs px))" for seq rs
    using processWsOrderbook_OK[OF assms(2)] by simp
  show ?thesis
  proof (cases raw)
    case None
    then show ?thesis using assms by (auto simp: processWsMessage_def)
  next
    case (Some msg)
    then consider "\<exists>c. msg = [c]" | "\<exists>a q rs. msg = [a, q, JArr rs]" | "processWsMessage E now raw px = Ret (setWsFail now px)"
      using other_message Some by metis
    then show ?thesis
    proof cases
      case 1
      then show ?thesis using assms Some by (auto simp: processWsMessage_def split: json.splits if_splits)
    next
      case 2
      then obtain a q rs where m: "msg = [a, q, JArr rs]" by blast
      show ?thesis
      proof (cases q)
        case (JNum n)
        then show ?thesis using assms Some m full batch
          by (auto simp: processWsMessage_def Let_def split: if_splits)
      qed (use assms Some m in \<open>auto simp: processWsMessage_def split: if_splits\<close>)
    qed (use assms in auto)
  qed
qed

inductive poloniexReach :: "'f::{times,zero} floatEnv \<Rightarrow> 'f PoloniexExchange \<Rightarrow> bool" for E where
  pr_start: "poloniexReach E NewPoloniex"
| pr_connect: "poloniexReach E px \<Longrightarrow> poloniexReach E (poloniexConnectWs ok px)"
| pr_message: "poloniexReach E px \<Longrightarrow> processWsMessage E now raw px = Ret px' \<Longrightarrow> poloniexReach E px'"

lemma poloniexReach_books: "poloniexReach E px \<Longrightarrow> booksOK E px"
proof (induction rule: poloniexReach.induct)
  case pr_start
  then show ?case by (simp add: booksOK_def NewPoloniex_def CommonExchange.defs newCommonExchange_def)
next
  case (pr_connect px ok)
  then show ?case by (auto simp: poloniexConnectWs_def connectWebsocket_def booksOK_def)
next
  case (pr_message px now raw px')
  then show ?case using poloniexMessage_OK by blast
qed

text \<open>the depth that both feeds publish is a proper order book at any time: the prices of the asks are strictly
  ascending and those of the bids strictly descending, compared at eight decimals, and its points are exactly the
  orders of the books.\<close>

theorem depth_snapshot_sorted:
  assumes "bittrexReach E bx" and "poloniexReach E px"
  shows "sorted_wrt (<) (map (eightPtKey E \<circ> dpPrice) (ddAsks (wsDepthSnapshot now bx))) \<and>
    sorted_wrt (>) (map (eightPtKey E \<circ> dpPrice) (ddBids (wsDepthSnapshot now bx))) \<and>
    sorted_wrt (<) (map (eightPtKey E \<circ> dpPrice) (ddAsks (wsDepthSnapshot now px))) \<and>
    sorted_wrt (>) (map (eightPtKey E \<circ> dpPrice) (ddBids (wsDepthSnapshot now px))) \<and>
    set (ddAsks (wsDepthSnapshot now bx)) = (\<lambda>(k, w). \<lparr>dpQuantity = woVolume w, dpPrice = woPrice w\<rparr>) ` set (xcAsks bx) \<and>
    set (ddBids (wsDepthSnapshot now px)) = (\<lambda>(k, w). \<lparr>dpQuantity = woVolume w, dpPrice = woPrice w\<rparr>) ` set (xcBuys px)"
proof -
  have b: "bookOK (eightPtKey E) (xcAsks bx)" "bookOK (eightPtKey E) (xcBuys bx)"
    using bittrexReach_books[OF assms(1)] by (simp_all add: booksOK_def)
  have p: "bookOK (eightPtKey E) (xcAsks px)" "bookOK (eightPtKey E) (xcBuys px)"
    using poloniexReach_books[OF assms(2)] by (simp_all add: booksOK_def)
  show ?thesis
    by (intro conjI wsDepthSnapshot_sorted(1,2)[OF b] wsDepthSnapshot_sorted(1,2)[OF p]
        wsDepthSnapshot_sorted(3)[OF b] wsDepthSnapshot_sorted(4)[OF p])
qed

subsection \<open>An example\<close>

definition exBatch :: "(int \<times> int wsOrder) list" where
  "exBatch = [(0, \<lparr>woPrice = 2, woVolume = 3\<rparr>), (1, \<lparr>woPrice = 1, woVolume = 1\<rparr>)]"

definition exBatchJson :: "int json list" where
  "exBatchJson = [orderJson 0 ''ab'' ''abc'', orderJson 1 ''a'' ''a'']"

lemma exBatch_stands: "list_all2 (stands exFloats) exBatch exBatchJson"
  by (simp add: exBatch_def exBatchJson_def stands_def orderJson_def exFloats_def)

theorem poloniex_batch_witness:
  "\<exists>px'. processWsMessage exFloats 5 (Some [JNum 162, JNum 1, JArr exBatchJson]) NewPoloniex = Ret px' \<and>
     pxOrderSeq px' = 1 \<and> map_of (xcAsks px') = [200 \<mapsto> \<lparr>woPrice = 2, woVolume = 3\<rparr>] \<and> wsUpdate px' = 5"
proof -
  have s: "feTrunc exFloats 1 = 1" "pxOrderSeq (NewPoloniex :: int PoloniexExchange) = 0"
      "xcAsks (NewPoloniex :: int PoloniexExchange) = []"
    by (simp_all add: exFloats_def NewPoloniex_def CommonExchange.defs newCommonExchange_def)
  show ?thesis
    using poloniex_batch[OF exBatch_stands, where s = 1 and px = NewPoloniex and channel = "JNum 162" and now = 5]
    by (auto simp: s exBatch_def asksIn_def applyOrder_def eightPtKey_def exFloats_def Let_def)
qed

theorem depth_snapshot_sorted_witness:
  "sorted_wrt (<) (map (eightPtKey exFloats \<circ> dpPrice) (ddAsks (wsDepthSnapshot 5 (NewBittrex :: int BittrexExchange))))"
  using depth_snapshot_sorted[OF br_start pr_start, of exFloats 5] by blast

end
