(* ===== verification/ExchangeRefresh.thy ===== *)
theory ExchangeRefresh
  imports PoloniexFeed
begin

text \<open>
  The refresh cycle of the seven exchanges (\<open>exchanges/exchanges.go\<close>): the responses of their HTTP interfaces, the
  translation of these, and the methods \<open>Refresh\<close>. A request is an argument: the error, if any, and the response that
  was decoded, which is the zero value when nothing was. The bins of the candlestick requests come in the order in
  which the map is visited. Parsing of time stamps is an argument too.
\<close>

subsection \<open>What the exchanges share\<close>

type_synonym 'r fetched = "string option \<times> 'r"

text \<open>The loop over the candlestick requests; \<open>get\<close> is the request with its translation, which may fail.\<close>

definition refreshSticks :: "int \<Rightarrow> (candlestickKey \<Rightarrow> 'f Candlesticks option) \<Rightarrow> 'f ExchangeState \<Rightarrow> candlestickKey list
    \<Rightarrow> (candlestickKey \<times> 'f Candlesticks) list" where
  "refreshSticks now get state bins = foldl (\<lambda>m bin.
     (let old = sticksOf state bin in
      if old = None \<or> needsUpdate now (the old) bin then
        (case get bin of
           None \<Rightarrow> m
         | Some sticks \<Rightarrow> if old = None \<or> sticksTime (the old) < sticksTime sticks then AList.update bin sticks m else m)
      else m)) [] bins"

definition asFloatStr :: "'f floatEnv \<Rightarrow> 'f json \<Rightarrow> 'f option" where
  "asFloatStr E j = (case j of JStr s \<Rightarrow> feParse E s | _ \<Rightarrow> None)"

subsection \<open>Coinbase and Coindesk\<close>

record CoinbaseResponse =
  cbCurrency :: string
  cbRates :: "(string \<times> string) list"

fun ratesLoop :: "'f floatEnv \<Rightarrow> int \<Rightarrow> (string \<times> string) list \<Rightarrow> 'f FiatIndices \<Rightarrow> 'f CommonExchange
    \<Rightarrow> 'f FiatIndices \<times> 'f CommonExchange" where
  "ratesLoop E now [] indices xc = (indices, xc)"
| "ratesLoop E now ((code, floatStr) # rates) indices xc = (case feParse E floatStr of
     None \<Rightarrow> ratesLoop E now rates indices (setLastFail now xc)
   | Some price \<Rightarrow> ratesLoop E now rates (AList.update code price indices) xc)"

definition refreshCoinbase :: "'f floatEnv \<Rightarrow> int \<Rightarrow> CoinbaseResponse fetched \<Rightarrow> 'f CommonExchange \<Rightarrow> 'f CommonExchange" where
  "refreshCoinbase E now resp xc = (let xc = LogRequest now xc in case resp of
     (Some err, _) \<Rightarrow> setLastFail now xc
   | (None, response) \<Rightarrow> (let (indices, xc) = ratesLoop E now (cbRates response) [] xc in UpdateIndices now indices xc))"

record CoindeskResponseTime =
  ctUpdated :: string
  ctUpdatedIso :: int
  ctUpdateduk :: string

record 'f CoindeskResponseBpi =
  cpCode :: string
  cpSymbol :: string
  cpRate :: string
  cpDescription :: string
  cpRateFloat :: 'f

record 'f CoindeskResponse =
  cdTime :: CoindeskResponseTime
  cdDisclaimer :: string
  cdChartName :: string
  cdBpi :: "(string \<times> 'f CoindeskResponseBpi) list"

definition refreshCoindesk :: "int \<Rightarrow> 'f CoindeskResponse fetched \<Rightarrow> 'f CommonExchange \<Rightarrow> 'f CommonExchange" where
  "refreshCoindesk now resp xc = (let xc = LogRequest now xc in case resp of
     (Some err, _) \<Rightarrow> setLastFail now xc
   | (None, response) \<Rightarrow>
       UpdateIndices now (foldl (\<lambda>m (code, bpi). AList.update code (cpRateFloat bpi) m) [] (cdBpi response)) xc)"

subsection \<open>Binance\<close>

record BinancePriceResponse =
  bpSymbol :: string
  bpPriceChange :: string
  bpPriceChangePercent :: string
  bpWeightedAvgPrice :: string
  bpPrevClosePrice :: string
  bpLastPrice :: string
  bpLastQty :: string
  bpBidPrice :: string
  bpBidQty :: string
  bpAskPrice :: string
  bpAskQty :: string
  bpOpenPrice :: string
  bpHighPrice :: string
  bpLowPrice :: string
  bpVolume :: string
  bpQuoteVolume :: string
  bpOpenTime :: int
  bpCloseTime :: int
  bpFirstID :: int
  bpLastID :: int
  bpCount :: int

type_synonym 'f BinanceCandlestickResponse = "'f json list list"

definition binanceStick :: "'f::inverse floatEnv \<Rightarrow> 'f json list \<Rightarrow> 'f Candlestick option" where
  "binanceStick E rawStick =
     (if length rawStick < 6 then None
      else case rawStick ! 0 of
        JNum unixMs \<Rightarrow>
          Option.bind (asFloatStr E (rawStick ! 1)) (\<lambda>open.
          Option.bind (asFloatStr E (rawStick ! 2)) (\<lambda>high.
          Option.bind (asFloatStr E (rawStick ! 3)) (\<lambda>low.
          Option.bind (asFloatStr E (rawStick ! 4)) (\<lambda>close.
          Option.bind (asFloatStr E (rawStick ! 5)) (\<lambda>volume.
            Some \<lparr>csHigh = high, csLow = low, csOpen = open, csClose = close, csVolume = volume,
                  csStart = feTrunc E (unixMs / fe1e3 E) * second\<rparr>)))))
      | _ \<Rightarrow> None)"

text \<open>A stick that cannot be decoded empties the result.\<close>

fun translateBinanceSticks :: "'f::inverse floatEnv \<Rightarrow> 'f BinanceCandlestickResponse \<Rightarrow> 'f Candlesticks \<Rightarrow> 'f Candlesticks" where
  "translateBinanceSticks E [] sticks = sticks"
| "translateBinanceSticks E (rawStick # r) sticks = (case binanceStick E rawStick of
     None \<Rightarrow> [] | Some stick \<Rightarrow> translateBinanceSticks E r (sticks @ [stick]))"

record BinanceDepthResponse =
  bdUpdateID :: int
  bdBids :: "(string \<times> string) list"
  bdAsks :: "(string \<times> string) list"

fun parseBinanceDepthPoints :: "'f floatEnv \<Rightarrow> (string \<times> string) list \<Rightarrow> 'f DepthPoint list \<Rightarrow> 'f DepthPoint list \<times> string option" where
  "parseBinanceDepthPoints E [] outPts = (outPts, None)"
| "parseBinanceDepthPoints E ((p, q) # pts) outPts = (case feParse E p of
     None \<Rightarrow> (outPts, Some ''Unable to parse Binance depth point price'')
   | Some price \<Rightarrow> (case feParse E q of
       None \<Rightarrow> (outPts, Some ''Unable to parse Binance depth point quantity'')
     | Some quantity \<Rightarrow> parseBinanceDepthPoints E pts (outPts @ [\<lparr>dpQuantity = quantity, dpPrice = price\<rparr>])))"

definition translateBinanceDepth :: "'f floatEnv \<Rightarrow> int \<Rightarrow> BinanceDepthResponse \<Rightarrow> 'f DepthData option" where
  "translateBinanceDepth E now r = (case parseBinanceDepthPoints E (bdAsks r) [] of
     (asks, Some err) \<Rightarrow> None
   | (asks, None) \<Rightarrow> (case parseBinanceDepthPoints E (bdBids r) [] of
       (bids, Some err) \<Rightarrow> None
     | (bids, None) \<Rightarrow> Some \<lparr>ddTime = now div second, ddBids = bids, ddAsks = asks\<rparr>))"

definition refreshBinance :: "'f::inverse floatEnv \<Rightarrow> int \<Rightarrow> BinancePriceResponse fetched \<Rightarrow> BinanceDepthResponse fetched
    \<Rightarrow> (candlestickKey \<Rightarrow> 'f BinanceCandlestickResponse fetched) \<Rightarrow> candlestickKey list \<Rightarrow> 'f CommonExchange \<Rightarrow> 'f CommonExchange" where
  "refreshBinance E now priceResp depthResp stickResp bins xc = (let xc = LogRequest now xc in case priceResp of
     (Some err, _) \<Rightarrow> setLastFail now xc
   | (None, r) \<Rightarrow> (case Option.bind (feParse E (bpLastPrice r)) (\<lambda>price.
         Option.bind (feParse E (bpQuoteVolume r)) (\<lambda>baseVolume.
         Option.bind (feParse E (bpVolume r)) (\<lambda>dcrVolume.
         Option.bind (feParse E (bpPriceChange r)) (\<lambda>priceChange.
           Some (price, baseVolume, dcrVolume, priceChange))))) of
       None \<Rightarrow> setLastFail now xc
     | Some (price, baseVolume, dcrVolume, priceChange) \<Rightarrow>
         Update now \<lparr>xsPrice = price, xsBaseVolume = baseVolume, xsVolume = dcrVolume, xsChange = priceChange,
           xsStamp = bpCloseTime r sdiv 1000, xsDepth = translateBinanceDepth E now (snd depthResp),
           xsCandlesticks = Some (refreshSticks now (\<lambda>bin. case stickResp bin of
               (Some err, _) \<Rightarrow> None | (None, response) \<Rightarrow> Some (translateBinanceSticks E response []))
             (xcCurrentState xc) bins)\<rparr> xc))"

subsection \<open>Bittrex\<close>

record 'f BittrexResponseResult =
  brMarketName :: string
  brHigh :: 'f
  brLow :: 'f
  brVolume :: 'f
  brLast :: 'f
  brBaseVolume :: 'f
  brTimeStamp :: string
  brBid :: 'f
  brAsk :: 'f
  brOpenBuyOrders :: int
  brOpenSellOrders :: int
  brPrevDay :: 'f
  brCreated :: string

record 'f BittrexPriceResponse =
  btpSuccess :: bool
  btpMessage :: string
  btpResult :: "'f BittrexResponseResult list"

record 'f BittrexDepthPoint =
  btdQuantity :: 'f
  btdRate :: 'f

definition makePts :: "'f BittrexDepthPoint list \<Rightarrow> 'f DepthPoint list" where
  "makePts pts = map (\<lambda>pt. \<lparr>dpQuantity = btdQuantity pt, dpPrice = btdRate pt\<rparr>) pts"

record 'f BittrexDepthResponse =
  btdSuccess :: bool
  btdMessage :: string
  btdBuy :: "'f BittrexDepthPoint list"
  btdSell :: "'f BittrexDepthPoint list"

definition translateBittrexDepth :: "int \<Rightarrow> 'f BittrexDepthResponse \<Rightarrow> 'f DepthData option" where
  "translateBittrexDepth now r = (if \<not> btdSuccess r then None
     else Some \<lparr>ddTime = now div second, ddBids = makePts (btdBuy r), ddAsks = makePts (btdSell r)\<rparr>)"

record 'f BittrexCandlestick =
  bcOpen :: 'f
  bcHigh :: 'f
  bcLow :: 'f
  bcClose :: 'f
  bcVolume :: 'f
  bcTime :: string
  bcBaseVolume :: 'f

fun translateBittrexSticks :: "(string \<Rightarrow> int option) \<Rightarrow> 'f BittrexCandlestick list \<Rightarrow> 'f Candlesticks \<Rightarrow> 'f Candlesticks" where
  "translateBittrexSticks parseTime [] sticks = sticks"
| "translateBittrexSticks parseTime (stick # rawSticks) sticks = (case parseTime (bcTime stick @ ''Z'') of
     None \<Rightarrow> sticks
   | Some t \<Rightarrow> translateBittrexSticks parseTime rawSticks (sticks @ [\<lparr>csHigh = bcHigh stick, csLow = bcLow stick,
       csOpen = bcOpen stick, csClose = bcClose stick, csVolume = bcVolume stick, csStart = t\<rparr>]))"

record 'f BittrexCandlestickResponse =
  bcsSuccess :: bool
  bcsMessage :: string
  bcsResult :: "'f BittrexCandlestick list"
  bcsExplanation :: "string option"

text \<open>The loss of a websocket connection is noticed when its last update is too old.\<close>

definition checkLost :: "int \<Rightarrow> bool \<Rightarrow> ('f, 'z) CommonExchange_scheme \<Rightarrow> ('f, 'z) CommonExchange_scheme" where
  "checkLost now wsStarting xc =
     (if \<not> wsStarting \<and> depthDataExpiration < now - wsUpdate xc \<and> \<not> wsFailed xc then setWsFail now xc else xc)"

definition refreshBittrex :: "(string \<Rightarrow> int option) \<Rightarrow> int \<Rightarrow> bool \<Rightarrow> ('f::minus) BittrexPriceResponse fetched
    \<Rightarrow> 'f BittrexDepthResponse fetched \<Rightarrow> (candlestickKey \<Rightarrow> 'f BittrexCandlestickResponse fetched) \<Rightarrow> candlestickKey list
    \<Rightarrow> 'f BittrexExchange \<Rightarrow> 'f BittrexExchange" where
  "refreshBittrex parseTime now dialOk priceResp depthResp stickResp bins bx = (let bx = LogRequest now bx in case priceResp of
     (Some err, _) \<Rightarrow> setLastFail now bx
   | (None, r) \<Rightarrow>
       if \<not> btpSuccess r then setLastFail now bx
       else case btpResult r of
         [] \<Rightarrow> setLastFail now bx
       | result # _ \<Rightarrow>
           if brMarketName result \<noteq> bxMarketName bx then setLastFail now bx
           else (case wsDepthStatus now (connectWs now dialOk) bx of ((tryHttp, wsStarting, depth), bx1) \<Rightarrow>
             let depth = (if tryHttp then translateBittrexDepth now (snd depthResp) else depth);
                 bx2 = checkLost now wsStarting bx1;
                 update = \<lparr>xsPrice = brLast result, xsBaseVolume = brBaseVolume result, xsVolume = brVolume result,
                   xsChange = brLast result - brPrevDay result, xsStamp = 0, xsDepth = depth,
                   xsCandlesticks = Some (refreshSticks now (\<lambda>bin. case stickResp bin of
                       (Some err, _) \<Rightarrow> None
                     | (None, response) \<Rightarrow> Some (translateBittrexSticks parseTime (bcsResult response) []))
                     (xcCurrentState bx2) bins)\<rparr>
             in if wsStarting then SilentUpdate now update bx2 else Update now update bx2))"

subsection \<open>DragonEx\<close>

record DragonExPriceResponseData =
  dxClosePrice :: string
  dxCurrentVolume :: string
  dxMaxPrice :: string
  dxMinPrice :: string
  dxOpenPrice :: string
  dxPriceBase :: string
  dxPriceChange :: string
  dxPriceChangeRate :: string
  dxTimestamp :: int
  dxTotalAmount :: string
  dxTotalVolume :: string
  dxUsdtVolume :: string
  dxSymbolID :: int

record 'd DragonExResponse =
  dxOk :: bool
  dxCode :: int
  dxMsg :: string
  dxData :: 'd

record DragonExDepthPt =
  dxPrice :: string
  dxVolume :: string

fun translateDragonDepth :: "'f floatEnv \<Rightarrow> DragonExDepthPt list \<Rightarrow> 'f DepthPoint list \<Rightarrow> 'f DepthPoint list" where
  "translateDragonDepth E [] outPts = outPts"
| "translateDragonDepth E (pt # pts) outPts = (case feParse E (dxPrice pt) of
     None \<Rightarrow> []
   | Some price \<Rightarrow> (case feParse E (dxVolume pt) of
       None \<Rightarrow> []
     | Some volume \<Rightarrow> translateDragonDepth E pts (outPts @ [\<lparr>dpQuantity = volume, dpPrice = price\<rparr>])))"

fun columnIndex :: "string list \<Rightarrow> string \<Rightarrow> nat option" where
  "columnIndex [] dxKey = None"
| "columnIndex (key # keys) dxKey = (if key = dxKey then Some 0 else map_option Suc (columnIndex keys dxKey))"

definition getFloat :: "'f floatEnv \<Rightarrow> 'f json list \<Rightarrow> nat \<Rightarrow> 'f option" where
  "getFloat E xs idx = (if length xs < idx + 1 then None else asFloatStr E (xs ! idx))"

record 'f DragonExCandlestickData =
  dxColumns :: "string list"
  dxLists :: "'f json list list"

definition dragonColumn :: "'f floatEnv \<Rightarrow> 'f DragonExCandlestickData \<Rightarrow> 'f json list \<Rightarrow> string \<Rightarrow> 'f option" where
  "dragonColumn E data pt key = Option.bind (columnIndex (dxColumns data) key) (getFloat E pt)"

definition dragonStick :: "'f floatEnv \<Rightarrow> 'f DragonExCandlestickData \<Rightarrow> 'f json list \<Rightarrow> 'f Candlestick option" where
  "dragonStick E data pt =
     Option.bind (dragonColumn E data pt ''max_price'') (\<lambda>high.
     Option.bind (dragonColumn E data pt ''min_price'') (\<lambda>low.
     Option.bind (dragonColumn E data pt ''open_price'') (\<lambda>open.
     Option.bind (dragonColumn E data pt ''close_price'') (\<lambda>close.
     Option.bind (dragonColumn E data pt ''volume'') (\<lambda>volume.
     Option.bind (columnIndex (dxColumns data) ''timestamp'') (\<lambda>idx.
       if length pt < idx + 1 then None
       else case pt ! idx of
         JNum unixFloat \<Rightarrow> Some \<lparr>csHigh = high, csLow = low, csOpen = open, csClose = close, csVolume = volume,
           csStart = feTrunc E unixFloat * second\<rparr>
       | _ \<Rightarrow> None))))))"

fun dragonSticksLoop :: "'f floatEnv \<Rightarrow> 'f DragonExCandlestickData \<Rightarrow> 'f json list list \<Rightarrow> 'f Candlesticks \<Rightarrow> 'f Candlesticks" where
  "dragonSticksLoop E data [] sticks = sticks"
| "dragonSticksLoop E data (pt # pts) sticks = (case dragonStick E data pt of
     None \<Rightarrow> [] | Some stick \<Rightarrow> dragonSticksLoop E data pts (sticks @ [stick]))"

definition translateDragonSticks :: "'f floatEnv \<Rightarrow> 'f DragonExCandlestickData \<Rightarrow> 'f Candlesticks" where
  "translateDragonSticks E data = dragonSticksLoop E data (dxLists data) []"

definition getDragonExDepthData :: "'d DragonExResponse fetched \<Rightarrow> string option" where
  "getDragonExDepthData resp = (case resp of
     (Some err, _) \<Rightarrow> Some (''DragonEx buy order book response error: '' @ err)
   | (None, response) \<Rightarrow>
       if \<not> dxOk response then Some (''DragonEx depth response server error with message: '' @ dxMsg response) else None)"

definition refreshDragonEx :: "('f::times) floatEnv \<Rightarrow> int \<Rightarrow> DragonExPriceResponseData list DragonExResponse fetched
    \<Rightarrow> DragonExDepthPt list DragonExResponse fetched \<Rightarrow> DragonExDepthPt list DragonExResponse fetched
    \<Rightarrow> (candlestickKey \<Rightarrow> 'f DragonExCandlestickData DragonExResponse fetched) \<Rightarrow> candlestickKey list
    \<Rightarrow> 'f CommonExchange \<Rightarrow> 'f CommonExchange" where
  "refreshDragonEx E now priceResp sellResp buyResp stickResp bins xc = (let xc = LogRequest now xc in case priceResp of
     (Some err, _) \<Rightarrow> setLastFail now xc
   | (None, response) \<Rightarrow>
       if \<not> dxOk response then setLastFail now xc
       else case dxData response of
         [] \<Rightarrow> setLastFail now xc
       | data # _ \<Rightarrow>
           if dxSymbolID data \<noteq> 1520101 then setLastFail now xc
           else (case Option.bind (feParse E (dxClosePrice data)) (\<lambda>price.
               Option.bind (feParse E (dxTotalVolume data)) (\<lambda>volume.
               Option.bind (feParse E (dxPriceChange data)) (\<lambda>priceChange. Some (price, volume, priceChange)))) of
             None \<Rightarrow> setLastFail now xc
           | Some (price, volume, priceChange) \<Rightarrow>
               Update now \<lparr>xsPrice = price, xsBaseVolume = volume * price, xsVolume = volume, xsChange = priceChange,
                 xsStamp = dxTimestamp data,
                 xsDepth = (if getDragonExDepthData sellResp = None \<and> getDragonExDepthData buyResp = None
                   then Some \<lparr>ddTime = now div second, ddBids = translateDragonDepth E (dxData (snd buyResp)) [],
                              ddAsks = translateDragonDepth E (dxData (snd sellResp)) []\<rparr> else None),
                 xsCandlesticks = Some (refreshSticks now (\<lambda>bin. case stickResp bin of
                     (Some err, _) \<Rightarrow> None | (None, response) \<Rightarrow> Some (translateDragonSticks E (dxData response)))
                   (xcCurrentState xc) bins)\<rparr> xc))"

subsection \<open>Huobi\<close>

record 'f HuobiPriceTick =
  hpAmount :: 'f
  hpOpen :: 'f
  hpClose :: 'f
  hpHigh :: 'f
  hpID :: int
  hpCount :: int
  hpLow :: 'f
  hpVersion :: int
  hpAsk :: "'f list"
  hpVol :: 'f
  hpBid :: "'f list"

record 'd HuobiResponse =
  hrStatus :: string
  hrCh :: string
  hrTs :: int
  hrTick :: 'd

type_synonym 'f HuobiDepthPts = "('f \<times> 'f) list"

definition translateHuobiPts :: "'f HuobiDepthPts \<Rightarrow> 'f DepthPoint list" where
  "translateHuobiPts pts = map (\<lambda>(price, volume). \<lparr>dpQuantity = volume, dpPrice = price\<rparr>) pts"

record 'f HuobiDepthTick =
  hdID :: int
  hdTs :: int
  hdBids :: "'f HuobiDepthPts"
  hdAsks :: "'f HuobiDepthPts"

record 'f HuobiCandlestickPt =
  hcID :: int
  hcOpen :: 'f
  hcClose :: 'f
  hcLow :: 'f
  hcHigh :: 'f
  hcAmount :: 'f
  hcVol :: 'f
  hcCount :: int

definition translateHuobiSticks :: "'f HuobiCandlestickPt list \<Rightarrow> 'f Candlesticks" where
  "translateHuobiSticks pts = map (\<lambda>pt. \<lparr>csHigh = hcHigh pt, csLow = hcLow pt, csOpen = hcOpen pt, csClose = hcClose pt,
     csVolume = hcVol pt, csStart = hcID pt * second\<rparr>) (rev pts)"

definition refreshHuobi :: "int \<Rightarrow> ('f::{minus,inverse}) HuobiPriceTick HuobiResponse fetched \<Rightarrow> 'f HuobiDepthTick HuobiResponse fetched
    \<Rightarrow> (candlestickKey \<Rightarrow> 'f HuobiCandlestickPt list HuobiResponse fetched) \<Rightarrow> candlestickKey list
    \<Rightarrow> 'f CommonExchange \<Rightarrow> 'f CommonExchange" where
  "refreshHuobi now priceResp depthResp stickResp bins xc = (let xc = LogRequest now xc in case priceResp of
     (Some err, _) \<Rightarrow> setLastFail now xc
   | (None, r) \<Rightarrow>
       if hrStatus r \<noteq> ''ok'' then setLastFail now xc
       else (let tick = hrTick r; baseVolume = hpVol tick in
         Update now \<lparr>xsPrice = hpClose tick, xsBaseVolume = baseVolume, xsVolume = baseVolume / hpClose tick,
           xsChange = hpClose tick - hpOpen tick, xsStamp = hrTs r sdiv 1000,
           xsDepth = (case depthResp of
               (Some err, _) \<Rightarrow> None
             | (None, d) \<Rightarrow> if hrStatus d \<noteq> ''ok'' then None
                 else Some \<lparr>ddTime = hrTs d sdiv 1000, ddBids = translateHuobiPts (hdBids (hrTick d)),
                            ddAsks = translateHuobiPts (hdAsks (hrTick d))\<rparr>),
           xsCandlesticks = Some (refreshSticks now (\<lambda>bin. case stickResp bin of
               (Some err, _) \<Rightarrow> None
             | (None, response) \<Rightarrow> if hrStatus response \<noteq> ''ok'' then None else Some (translateHuobiSticks (hrTick response)))
             (xcCurrentState xc) bins)\<rparr> xc))"

subsection \<open>Poloniex\<close>

record PoloniexPair =
  ppID :: int
  ppLast :: string
  ppLowestAsk :: string
  ppHighestBid :: string
  ppPercentChange :: string
  ppBaseVolume :: string
  ppQuoteVolume :: string
  ppIsFrozen :: string
  ppHigh24hr :: string
  ppLow24hr :: string

type_synonym 'f PoloniexDepthPt = "'f json \<times> 'f json"

definition poloniexPrice :: "'f floatEnv \<Rightarrow> 'f PoloniexDepthPt \<Rightarrow> 'f option" where
  "poloniexPrice E pt = asFloatStr E (fst pt)"

definition poloniexVolume :: "'f PoloniexDepthPt \<Rightarrow> 'f option" where
  "poloniexVolume pt = (case snd pt of JNum volume \<Rightarrow> Some volume | _ \<Rightarrow> None)"

fun translatePoloniexPts :: "'f floatEnv \<Rightarrow> 'f PoloniexDepthPt list \<Rightarrow> 'f DepthPoint list \<Rightarrow> 'f DepthPoint list option" where
  "translatePoloniexPts E [] outPts = Some outPts"
| "translatePoloniexPts E (pt # pts) outPts = (case poloniexPrice E pt of
     None \<Rightarrow> None
   | Some price \<Rightarrow> (case poloniexVolume pt of
       None \<Rightarrow> None
     | Some volume \<Rightarrow> translatePoloniexPts E pts (outPts @ [\<lparr>dpQuantity = volume, dpPrice = price\<rparr>])))"

record 'f PoloniexDepthResponse =
  pdAsks :: "'f PoloniexDepthPt list"
  pdBids :: "'f PoloniexDepthPt list"
  pdIsFrozen :: string
  pdSeq :: int

definition translatePoloniexDepth :: "'f floatEnv \<Rightarrow> int \<Rightarrow> 'f PoloniexDepthResponse \<Rightarrow> 'f DepthData option" where
  "translatePoloniexDepth E now r = Option.bind (translatePoloniexPts E (pdAsks r) []) (\<lambda>asks.
     Option.bind (translatePoloniexPts E (pdBids r) []) (\<lambda>bids.
       Some \<lparr>ddTime = now div second, ddBids = bids, ddAsks = asks\<rparr>))"

record 'f PoloniexCandlestickPt =
  pcDate :: int
  pcHigh :: 'f
  pcLow :: 'f
  pcOpen :: 'f
  pcClose :: 'f
  pcVolume :: 'f
  pcQuoteVolume :: 'f
  pcWeightedAverage :: 'f

definition translatePoloniexSticks :: "'f PoloniexCandlestickPt list \<Rightarrow> 'f Candlesticks" where
  "translatePoloniexSticks r = map (\<lambda>stick. \<lparr>csHigh = pcHigh stick, csLow = pcLow stick, csOpen = pcOpen stick,
     csClose = pcClose stick, csVolume = pcQuoteVolume stick, csStart = pcDate stick * second\<rparr>) r"

text \<open>The pair of the market may be a nil pointer.\<close>

definition refreshPoloniex :: "('f::{one,plus,minus,inverse}) floatEnv \<Rightarrow> int \<Rightarrow> bool \<Rightarrow> (string \<times> PoloniexPair option) list fetched
    \<Rightarrow> 'f PoloniexDepthResponse fetched \<Rightarrow> (candlestickKey \<Rightarrow> 'f PoloniexCandlestickPt list fetched) \<Rightarrow> candlestickKey list
    \<Rightarrow> 'f PoloniexExchange \<Rightarrow> 'f PoloniexExchange go" where
  "refreshPoloniex E now dialOk priceResp depthResp stickResp bins px = (let px = LogRequest now px in case priceResp of
     (Some err, _) \<Rightarrow> Ret (setLastFail now px)
   | (None, response) \<Rightarrow> (case map_of response (pxCurrencyPair px) of
       None \<Rightarrow> Ret (setLastFail now px)
     | Some None \<Rightarrow> Panic
     | Some (Some market) \<Rightarrow> (case Option.bind (feParse E (ppLast market)) (\<lambda>price.
           Option.bind (feParse E (ppBaseVolume market)) (\<lambda>baseVolume.
           Option.bind (feParse E (ppQuoteVolume market)) (\<lambda>volume.
           Option.bind (feParse E (ppPercentChange market)) (\<lambda>percentChange. Some (price, baseVolume, volume, percentChange))))) of
         None \<Rightarrow> Ret (setLastFail now px)
       | Some (price, baseVolume, volume, percentChange) \<Rightarrow>
           (case wsDepthStatus now (poloniexConnectWs dialOk) px of ((tryHttp, wsStarting, depth), px1) \<Rightarrow>
             let depth = (if tryHttp then translatePoloniexDepth E now (snd depthResp) else depth);
                 px2 = checkLost now wsStarting px1;
                 update = \<lparr>xsPrice = price, xsBaseVolume = baseVolume, xsVolume = volume,
                   xsChange = price - price / (1 + percentChange), xsStamp = 0, xsDepth = depth,
                   xsCandlesticks = Some (refreshSticks now (\<lambda>bin. case stickResp bin of
                       (Some err, _) \<Rightarrow> None | (None, response) \<Rightarrow> Some (translatePoloniexSticks response))
                     (xcCurrentState px2) bins)\<rparr>
             in Ret (if wsStarting then SilentUpdate now update px2 else Update now update px2)))))"

subsection \<open>Candlesticks never get older\<close>

definition notOlder :: "(candlestickKey \<rightharpoonup> 'f Candlesticks) \<Rightarrow> (candlestickKey \<rightharpoonup> 'f Candlesticks) \<Rightarrow> bool" where
  "notOlder old new \<longleftrightarrow> (\<forall>bin s. old bin = Some s \<longrightarrow> (\<exists>s'. new bin = Some s' \<and> sticksTime s \<le> sticksTime s'))"

lemma notOlder_refl [simp]: "notOlder m m"
  by (simp add: notOlder_def)

text \<open>What is fetched is newer than what it replaces.\<close>

lemma refreshSticks_newer:
  "map_of (refreshSticks now get state bins) bin = Some s' \<Longrightarrow> sticksOf state bin = Some s \<Longrightarrow> sticksTime s < sticksTime s'"
proof -
  have "map_of (foldl (\<lambda>m bin. (let old = sticksOf state bin in
      if old = None \<or> needsUpdate now (the old) bin then
        (case get bin of
           None \<Rightarrow> m
         | Some sticks \<Rightarrow> if old = None \<or> sticksTime (the old) < sticksTime sticks then AList.update bin sticks m else m)
      else m)) m bins) bin = Some s' \<Longrightarrow> sticksOf state bin = Some s
      \<Longrightarrow> (\<And>t. map_of m bin = Some t \<Longrightarrow> sticksTime s < sticksTime t) \<Longrightarrow> sticksTime s < sticksTime s'" for m
  proof (induction bins arbitrary: m)
    case (Cons b bins)
    show ?case
      by (rule Cons.IH[OF Cons.prems(1)[unfolded foldl_Cons] Cons.prems(2)])
         (use Cons.prems(2,3) in \<open>auto simp: Let_def update_conv split: if_splits option.splits\<close>)
  qed auto
  from this[of "[]"] show "map_of (refreshSticks now get state bins) bin = Some s' \<Longrightarrow> sticksOf state bin = Some s
      \<Longrightarrow> sticksTime s < sticksTime s'"
    by (simp add: refreshSticks_def)
qed

lemma xcUpdate_state [simp]: "xcCurrentState (xcUpdate now state send xc) = stealSticks (xcCurrentState xc) state"
  by (simp add: xcUpdate_def Let_def)

lemma Update_state [simp]:
  "xcCurrentState (Update now state xc) = stealSticks (xcCurrentState xc) state"
  "xcCurrentState (SilentUpdate now state xc) = stealSticks (xcCurrentState xc) state"
  by (simp_all add: Update_def SilentUpdate_def)

lemma refreshed_notOlder:
  assumes "xsCandlesticks update = Some (refreshSticks now get state bins)" and "sticksOf state = sticksOf old"
  shows "notOlder (sticksOf old) (sticksOf (stealSticks old update))"
proof (unfold notOlder_def, intro allI impI)
  fix bin s assume old: "sticksOf old bin = Some s"
  have u: "sticksOf update bin = map_of (refreshSticks now get state bins) bin" by (simp add: sticksOf_def assms(1))
  show "\<exists>s'. sticksOf (stealSticks old update) bin = Some s' \<and> sticksTime s \<le> sticksTime s'"
  proof (cases "sticksOf update bin")
    case None
    then show ?thesis using old by (simp add: sticksOf_steal)
  next
    case (Some s')
    then have "sticksTime s < sticksTime s'"
      using refreshSticks_newer[of now get state bins bin s' s] u assms(2) old by simp
    then show ?thesis using Some by (simp add: sticksOf_steal)
  qed
qed

lemma same_state [simp]:
  "xcCurrentState (LogRequest now xc) = xcCurrentState xc" "xcCurrentState (setLastFail now xc) = xcCurrentState xc"
  "xcCurrentState (setWsFail now xc) = xcCurrentState xc" "xcCurrentState (checkLost now b xc) = xcCurrentState xc"
  "xcCurrentState (connectWs now ok bx) = xcCurrentState bx" "xcCurrentState (poloniexConnectWs ok px) = xcCurrentState px"
  by (simp_all add: LogRequest_def setLastFail_def setWsFail_def checkLost_def connectWs_def connectSignalr_def
      poloniexConnectWs_def connectWebsocket_def Let_def)

lemma wsDepthStatus_state:
  assumes "\<And>xc. xcCurrentState (connector xc) = xcCurrentState xc"
  shows "xcCurrentState (snd (wsDepthStatus now connector xc)) = xcCurrentState xc"
  using assms by (simp add: wsDepthStatus_def)

text \<open>candlesticks are historical data and are never lost: whatever an exchange answers, and whichever of its
  requests fail, after a refresh it has sticks for every bin that it had before, and none of them end earlier.\<close>

theorem candlesticks_never_older:
  "notOlder (sticksOf (xcCurrentState xc)) (sticksOf (xcCurrentState (refreshBinance E now r1 d1 s1 bins xc))) \<and>
   notOlder (sticksOf (xcCurrentState bx)) (sticksOf (xcCurrentState (refreshBittrex parseTime now ok r2 d2 s2 bins bx))) \<and>
   notOlder (sticksOf (xcCurrentState xc)) (sticksOf (xcCurrentState (refreshDragonEx E now r3 sell buy s3 bins xc))) \<and>
   notOlder (sticksOf (xcCurrentState xc)) (sticksOf (xcCurrentState (refreshHuobi now r4 d4 s4 bins xc))) \<and>
   (case refreshPoloniex E now ok r5 d5 s5 bins px of
      Panic \<Rightarrow> True
    | Ret px' \<Rightarrow> notOlder (sticksOf (xcCurrentState px)) (sticksOf (xcCurrentState px')))"
proof (intro conjI)
  note steal = refreshed_notOlder[OF _ refl]
  show "notOlder (sticksOf (xcCurrentState xc)) (sticksOf (xcCurrentState (refreshBinance E now r1 d1 s1 bins xc)))"
    unfolding refreshBinance_def Let_def by (auto intro!: steal split: prod.split option.split)
  show "notOlder (sticksOf (xcCurrentState xc)) (sticksOf (xcCurrentState (refreshDragonEx E now r3 sell buy s3 bins xc)))"
    unfolding refreshDragonEx_def Let_def by (auto intro!: steal split: prod.split option.split list.split)
  show "notOlder (sticksOf (xcCurrentState xc)) (sticksOf (xcCurrentState (refreshHuobi now r4 d4 s4 bins xc)))"
    unfolding refreshHuobi_def Let_def by (auto intro!: steal split: prod.split option.split)
  have b: "xcCurrentState bx1 = xcCurrentState bx" if "wsDepthStatus now (connectWs now ok) (LogRequest now bx) = (z, bx1)" for z bx1
    using wsDepthStatus_state[of "connectWs now ok" now "LogRequest now bx"] that by simp
  show "notOlder (sticksOf (xcCurrentState bx)) (sticksOf (xcCurrentState (refreshBittrex parseTime now ok r2 d2 s2 bins bx)))"
    unfolding refreshBittrex_def Let_def using b by (auto intro!: steal split: prod.split option.split list.split)
  have p: "xcCurrentState px1 = xcCurrentState px" if "wsDepthStatus now (poloniexConnectWs ok) (LogRequest now px) = (z, px1)" for z px1
    using wsDepthStatus_state[of "poloniexConnectWs ok" now "LogRequest now px"] that by simp
  show "case refreshPoloniex E now ok r5 d5 s5 bins px of
      Panic \<Rightarrow> True
    | Ret px' \<Rightarrow> notOlder (sticksOf (xcCurrentState px)) (sticksOf (xcCurrentState px'))"
    unfolding refreshPoloniex_def Let_def using p by (auto intro!: steal split: prod.split option.split)
qed

subsection \<open>Behaviour of the websocket exchanges\<close>

text \<open>When the first connection of Poloniex cannot be made, nothing records the failure: the exchange counts as
  initializing for ever, and no refresh is announced to the bot.\<close>

lemma poloniex_stays_silent:
  assumes "wsInit px = zeroTime" and "wsFail px = zeroTime"
    and "refreshPoloniex E now False r d s bins px = Ret px'"
  shows "xcExchangeChan px' = xcExchangeChan px \<and> wsInit px' = zeroTime \<and> wsFail px' = zeroTime"
proof -
  have st: "wsDepthStatus now (poloniexConnectWs False) (LogRequest now px) = ((False, True, None), LogRequest now px)"
    using assms(1,2) by (simp add: wsDepthStatus_def wsListening_def wsFailed_def LogRequest_def poloniexConnectWs_def
        connectWebsocket_def)
  have c: "checkLost now True q = q" for q :: "'a PoloniexExchange" by (simp add: checkLost_def)
  show ?thesis
    using assms unfolding refreshPoloniex_def Let_def st
    by (auto simp: c SilentUpdate_def xcUpdate_def LogRequest_def setLastFail_def Let_def split: prod.splits option.splits)
qed

text \<open>A failed request for the order book of Binance, which leaves the response empty, publishes an empty order book.\<close>

lemma binance_empty_depth:
  assumes "bdAsks (snd depthResp) = []" and "bdBids (snd depthResp) = []"
  shows "translateBinanceDepth E now (snd depthResp) = Some \<lparr>ddTime = now div second, ddBids = [], ddAsks = []\<rparr>"
  by (simp add: translateBinanceDepth_def assms)

end
