(* ===== verification/ExchangeBot.thy ===== *)
theory ExchangeBot
  imports ExchangeRefresh "HOL-Library.Char_ord" "HOL-Library.List_Lexorder"
begin

text \<open>
  The exchange bot (\<open>exchanges/bot.go\<close>), which collects the states of the exchanges, computes an average price, and
  caches the charts that it encodes, with a version for each. Of an exchange, the bot sees the interface: the times of
  its last update and of its last request. \<open>enc\<close> is the JSON encoder. A float sum is taken in the order in which the
  map is visited, which is that of the association list.
\<close>

subsection \<open>State\<close>

record 'f ExchangeBotState =
  ebBtcIndex :: string
  ebBtcPrice :: 'f
  ebPrice :: 'f
  ebVolume :: 'f
  ebDcrBtc :: "(string \<times> 'f ExchangeState) list"
  ebFiatIndices :: "(string \<times> 'f ExchangeState) list"

definition copyStates :: "(string \<times> 'f ExchangeState) list \<Rightarrow> (string \<times> 'f ExchangeState) list" where
  "copyStates m = foldl (\<lambda>c (k, v). AList.update k v c) [] m"

definition copyBotState :: "'f ExchangeBotState \<Rightarrow> 'f ExchangeBotState" where
  "copyBotState state = state\<lparr>ebDcrBtc := copyStates (ebDcrBtc state), ebFiatIndices := copyStates (ebFiatIndices state)\<rparr>"

definition BtcToFiat :: "'f::times ExchangeBotState \<Rightarrow> 'f \<Rightarrow> 'f" where
  "BtcToFiat state btc = ebBtcPrice state * btc"

definition FiatToBtc :: "'f::{one,uminus,inverse} floatEnv \<Rightarrow> 'f ExchangeBotState \<Rightarrow> 'f \<Rightarrow> 'f" where
  "FiatToBtc E state fiat = (if feIsZero E (ebBtcPrice state) then - 1 else fiat / ebBtcPrice state)"

record 'f agBookPt =
  agPrice :: 'f
  agVolumes :: "'f list"

record 'f aggregateOrderbook =
  aoBtcIndex :: string
  aoPrice :: 'f
  aoTokens :: "string list"
  aoUpdateTimes :: "int list"
  aoTime :: int
  aoBids :: "'f agBookPt list"
  aoAsks :: "'f agBookPt list"
  aoExpiration :: int

record 'f candlestickResponse =
  crBtcIndex :: string
  crPrice :: 'f
  crSticks :: "'f Candlesticks"
  crExpiration :: int

record 'f depthResponse =
  drBtcIndex :: string
  drPrice :: 'f
  drData :: "'f DepthData"
  drExpiration :: int

datatype 'f encodable = EState "'f ExchangeBotState" | ESticks "'f candlestickResponse" | EDepth "'f depthResponse"
  | EAggregate "'f aggregateOrderbook"

record 'j versionedChart =
  vcChartID :: string
  vcDataID :: int
  vcChart :: 'j

record exchangeTimes =
  etLastUpdate :: int
  etLastTry :: int

record ('f, 'j) ExchangeBot =
  botExchanges :: "(string \<times> exchangeTimes) list"
  botVersionedCharts :: "(string \<times> 'j versionedChart) list"
  botChartVersions :: "(string \<times> int) list"
  botBtcIndex :: string
  botIndexMap :: "(string \<times> 'f FiatIndices) list"
  botCurrentState :: "'f ExchangeBotState"
  botStateCopy :: "'f ExchangeBotState option"
  botStateBytes :: "'j option"
  botDataExpiry :: int
  botRequestExpiry :: int
  botFailed :: bool
  botUpdateChans :: "'f ExchangeUpdate list list"
  botIndexChans :: "'f IndexUpdate list list"

definition aggregatedOrderbookKey :: string where "aggregatedOrderbookKey = ''aggregated''"
definition orderbookKey :: string where "orderbookKey = ''depth''"
definition minTick :: int where "minTick = 5 * second"

definition genCacheID :: "string list \<Rightarrow> string" where
  "genCacheID parts = stringsJoin ''-'' parts"

subsection \<open>Construction\<close>

record ExchangeBotConfig =
  cfDisabled :: "string list"
  cfDataExpiry :: string
  cfRequestExpiry :: string
  cfBtcIndex :: string

definition BtcIndices :: "string list" where
  "BtcIndices = [''coinbase'', ''coindesk'']"

definition DcrExchanges :: "string list" where
  "DcrExchanges = [''binance'', ''bittrex'', ''dragonex'', ''huobi'', ''poloniex'']"

definition IsBtcIndex :: "string \<Rightarrow> bool" where "IsBtcIndex token \<longleftrightarrow> token \<in> set BtcIndices"
definition IsDcrExchange :: "string \<Rightarrow> bool" where "IsDcrExchange token \<longleftrightarrow> token \<in> set DcrExchanges"
definition Tokens :: "string list" where "Tokens = BtcIndices @ DcrExchanges"

definition buildExchanges :: "ExchangeBotConfig \<Rightarrow> (string \<Rightarrow> exchangeTimes option) \<Rightarrow> string list \<Rightarrow> (string \<times> exchangeTimes) list" where
  "buildExchanges config constructor tokens = foldl (\<lambda>m token.
     if token \<in> set (cfDisabled config) then m
     else case constructor token of None \<Rightarrow> m | Some xc \<Rightarrow> AList.update token xc m) [] tokens"

text \<open>The part of \<open>NewExchangeBot\<close> without the address of a master bot; \<open>parseDuration\<close> is \<open>time.ParseDuration\<close>, and
  \<open>constructor\<close> says whether an exchange can be made.\<close>

definition NewExchangeBot :: "(string \<Rightarrow> int option) \<Rightarrow> (string \<Rightarrow> exchangeTimes option) \<Rightarrow> ExchangeBotConfig
    \<Rightarrow> string + ('f::zero, 'j) ExchangeBot" where
  "NewExchangeBot parseDuration constructor cfg =
     (let config = cfg\<lparr>cfDataExpiry := (if cfDataExpiry cfg = [] then ''5m'' else cfDataExpiry cfg),
            cfRequestExpiry := (if cfRequestExpiry cfg = [] then ''60m'' else cfRequestExpiry cfg)\<rparr>
      in case parseDuration (cfDataExpiry config) of
        None \<Rightarrow> Inl (''Unable to parse data expiration from '' @ cfDataExpiry config)
      | Some dataExpiry \<Rightarrow> (case parseDuration (cfRequestExpiry config) of
          None \<Rightarrow> Inl (''Unable to parse request expiration from '' @ cfRequestExpiry config)
        | Some requestExpiry \<Rightarrow>
            if requestExpiry < dataExpiry then Inl ''Request expiration must be longer than data expiration''
            else if dataExpiry < minute then Inl ''Expiration must be at least one minute''
            else let index = (if cfBtcIndex config = [] then ''USD'' else cfBtcIndex config);
                indexExchanges = buildExchanges config constructor BtcIndices;
                dcrExchanges = buildExchanges config constructor DcrExchanges
              in if dcrExchanges = [] then Inl ''no HDF-BTC exchanges were initialized''
                 else if indexExchanges = [] then Inl ''no BTC-fiat exchanges were initialized''
                 else Inr \<lparr>botExchanges = indexExchanges @ dcrExchanges, botVersionedCharts = [], botChartVersions = [],
                   botBtcIndex = index, botIndexMap = [],
                   botCurrentState = \<lparr>ebBtcIndex = index, ebBtcPrice = 0, ebPrice = 0, ebVolume = 0, ebDcrBtc = [], ebFiatIndices = []\<rparr>,
                   botStateCopy = None, botStateBytes = None, botDataExpiry = dataExpiry, botRequestExpiry = requestExpiry,
                   botFailed = False, botUpdateChans = [], botIndexChans = []\<rparr>))"

text \<open>The tokens sent to a master bot: the slice is made with the length of the map, and appended to.\<close>

definition subscribedExchanges :: "('f, 'j) ExchangeBot \<Rightarrow> string list" where
  "subscribedExchanges xb = replicate (length (botExchanges xb)) [] @ map fst (botExchanges xb)"

subsection \<open>Updates\<close>

definition chanCap :: nat where "chanCap = 16"

definition UpdateChannels :: "('f, 'j) ExchangeBot \<Rightarrow> ('f, 'j) ExchangeBot" where
  "UpdateChannels xb = xb\<lparr>botUpdateChans := botUpdateChans xb @ [[]], botIndexChans := botIndexChans xb @ [[]]\<rparr>"

definition signalExchangeUpdate :: "'f ExchangeUpdate \<Rightarrow> ('f, 'j) ExchangeBot \<Rightarrow> ('f, 'j) ExchangeBot" where
  "signalExchangeUpdate update xb =
     xb\<lparr>botUpdateChans := map (\<lambda>ch. if length ch < chanCap then ch @ [update] else ch) (botUpdateChans xb)\<rparr>"

definition signalIndexUpdate :: "'f IndexUpdate \<Rightarrow> ('f, 'j) ExchangeBot \<Rightarrow> ('f, 'j) ExchangeBot" where
  "signalIndexUpdate update xb =
     xb\<lparr>botIndexChans := map (\<lambda>ch. if length ch < chanCap then ch @ [update] else ch) (botIndexChans xb)\<rparr>"

definition incrementChart :: "string \<Rightarrow> ('f, 'j) ExchangeBot \<Rightarrow> ('f, 'j) ExchangeBot" where
  "incrementChart chartId xb = xb\<lparr>botChartVersions := AList.update chartId
     (case map_of (botChartVersions xb) chartId of Some v \<Rightarrow> v + 1 | None \<Rightarrow> 0) (botChartVersions xb)\<rparr>"

definition cachedChartVersion :: "string \<Rightarrow> ('f, 'j) ExchangeBot \<Rightarrow> int" where
  "cachedChartVersion chartId xb = (case map_of (botChartVersions xb) chartId of None \<Rightarrow> - 1 | Some cid \<Rightarrow> cid)"

text \<open>The sums of prices and volumes, and the exchanges that are out of date. The exchange of a token that is not known is
  a nil dereference.\<close>

fun stateLoop :: "(string \<rightharpoonup> exchangeTimes) \<Rightarrow> int \<Rightarrow> bool \<Rightarrow> (string \<times> 'f ExchangeState) list \<Rightarrow> 'f::{one,plus,times} \<Rightarrow> 'f
    \<Rightarrow> string list \<Rightarrow> ('f \<times> 'f \<times> string list) go" where
  "stateLoop exch oldestValid volumeAveraged [] priceAccumulator volSum deletions = Ret (priceAccumulator, volSum, deletions)"
| "stateLoop exch oldestValid volumeAveraged ((token, state) # states) priceAccumulator volSum deletions =
     (case exch token of
        None \<Rightarrow> Panic
      | Some xc \<Rightarrow>
          if etLastUpdate xc < oldestValid
          then stateLoop exch oldestValid volumeAveraged states priceAccumulator volSum (deletions @ [token])
          else let volume = (if volumeAveraged then xsVolume state else 1)
               in stateLoop exch oldestValid volumeAveraged states (priceAccumulator + volume * xsPrice state)
                    (volSum + volume) deletions)"

definition processState :: "'f::{zero,one,plus,times,inverse} floatEnv \<Rightarrow> int \<Rightarrow> ('f, 'j) ExchangeBot \<Rightarrow> bool
    \<Rightarrow> (string \<times> 'f ExchangeState) list \<Rightarrow> ('f \<times> 'f \<times> (string \<times> 'f ExchangeState) list) go" where
  "processState E now xb volumeAveraged states =
     (case stateLoop (map_of (botExchanges xb)) (now - botRequestExpiry xb) volumeAveraged states 0 0 [] of
        Panic \<Rightarrow> Panic
      | Ret (priceAccumulator, volSum, deletions) \<Rightarrow>
          let states' = foldl (\<lambda>m token. AList.delete token m) states deletions
          in Ret (if feIsZero E volSum then (0, 0, states') else (priceAccumulator / volSum, volSum, states')))"

text \<open>The result is whether the state could be encoded.\<close>

definition updateState :: "'f::{zero,one,plus,times,inverse} floatEnv \<Rightarrow> ('f encodable \<Rightarrow> 'j option) \<Rightarrow> int \<Rightarrow> ('f, 'j) ExchangeBot
    \<Rightarrow> (bool \<times> ('f, 'j) ExchangeBot) go" where
  "updateState E enc now xb = (case processState E now xb True (ebDcrBtc (botCurrentState xb)) of
     Panic \<Rightarrow> Panic
   | Ret (dcrPrice, volume, dcrBtc) \<Rightarrow>
       (case processState E now xb False (ebFiatIndices (botCurrentState xb)) of
          Panic \<Rightarrow> Panic
        | Ret (btcPrice, _, fiat) \<Rightarrow>
            let state = (botCurrentState xb)\<lparr>ebDcrBtc := dcrBtc, ebFiatIndices := fiat\<rparr>;
                failed = (feIsZero E dcrPrice \<or> feIsZero E btcPrice);
                state' = (if failed then state
                  else state\<lparr>ebPrice := dcrPrice * btcPrice, ebBtcPrice := btcPrice, ebVolume := volume\<rparr>);
                xb' = xb\<lparr>botFailed := failed, botCurrentState := state'\<rparr>
            in case enc (EState state') of
                 None \<Rightarrow> Ret (False, xb')
               | Some bytes \<Rightarrow> Ret (True, xb'\<lparr>botStateBytes := Some bytes, botStateCopy := Some (copyBotState state')\<rparr>)))"

definition chartsOf :: "string \<Rightarrow> 'f ExchangeState \<Rightarrow> string list" where
  "chartsOf token state = map (\<lambda>(bin, sticks). genCacheID [token, bin]) (elems (xsCandlesticks state)) @
     (if xsDepth state = None then [] else [genCacheID [token, orderbookKey], genCacheID [aggregatedOrderbookKey, orderbookKey]])"

definition updateExchange :: "'f::{zero,one,plus,times,inverse} floatEnv \<Rightarrow> ('f encodable \<Rightarrow> 'j option) \<Rightarrow> int \<Rightarrow> 'f ExchangeUpdate
    \<Rightarrow> ('f, 'j) ExchangeBot \<Rightarrow> (bool \<times> ('f, 'j) ExchangeBot) go" where
  "updateExchange E enc now update xb =
     (let (token, state) = update;
          bot1 = foldl (\<lambda>xb chartId. incrementChart chartId xb) xb (chartsOf token state)
      in updateState E enc now (bot1\<lparr>botCurrentState :=
           (botCurrentState bot1)\<lparr>ebDcrBtc := AList.update token state (ebDcrBtc (botCurrentState bot1))\<rparr>\<rparr>))"

definition updateIndices :: "'f::{zero,one,plus,times,inverse} floatEnv \<Rightarrow> ('f encodable \<Rightarrow> 'j option) \<Rightarrow> int \<Rightarrow> 'f IndexUpdate
    \<Rightarrow> ('f, 'j) ExchangeBot \<Rightarrow> (bool \<times> ('f, 'j) ExchangeBot) go" where
  "updateIndices E enc now update xb =
     (let (token, indices) = update; bot1 = xb\<lparr>botIndexMap := AList.update token indices (botIndexMap xb)\<rparr> in
      case map_of indices (botBtcIndex xb) of
        Some price \<Rightarrow> updateState E enc now (bot1\<lparr>botCurrentState := (botCurrentState bot1)\<lparr>ebFiatIndices :=
          AList.update token (newState\<lparr>xsPrice := price, xsStamp := now div second\<rparr>) (ebFiatIndices (botCurrentState bot1))\<rparr>\<rparr>)
      | None \<Rightarrow> Ret (True, bot1))"

text \<open>The cases of the loop in \<open>Start\<close>.\<close>

definition onExchangeUpdate :: "'f::{zero,one,plus,times,inverse} floatEnv \<Rightarrow> ('f encodable \<Rightarrow> 'j option) \<Rightarrow> int \<Rightarrow> 'f ExchangeUpdate
    \<Rightarrow> ('f, 'j) ExchangeBot \<Rightarrow> ('f, 'j) ExchangeBot go" where
  "onExchangeUpdate E enc now update xb = (case updateExchange E enc now update xb of
     Panic \<Rightarrow> Panic | Ret (ok, xb') \<Rightarrow> Ret (if \<not> ok then xb' else signalExchangeUpdate update xb'))"

definition onIndexUpdate :: "'f::{zero,one,plus,times,inverse} floatEnv \<Rightarrow> ('f encodable \<Rightarrow> 'j option) \<Rightarrow> int \<Rightarrow> 'f IndexUpdate
    \<Rightarrow> ('f, 'j) ExchangeBot \<Rightarrow> ('f, 'j) ExchangeBot go" where
  "onIndexUpdate E enc now update xb = (case updateIndices E enc now update xb of
     Panic \<Rightarrow> Panic | Ret (ok, xb') \<Rightarrow> Ret (if \<not> ok then xb' else signalIndexUpdate update xb'))"

text \<open>The delay to the next cycle, and the exchanges that a cycle refreshes.\<close>

definition nextTick :: "int \<Rightarrow> ('f, 'j) ExchangeBot \<Rightarrow> int" where
  "nextTick now xb =
     (let tOldest = foldl (\<lambda>t (token, xc). if etLastTry xc < t then etLastTry xc else t) now (botExchanges xb);
          tilNext = botDataExpiry xb - (now - tOldest)
      in if tilNext < minTick then minTick else tilNext)"

definition Cycle :: "int \<Rightarrow> ('f, 'j) ExchangeBot \<Rightarrow> string list" where
  "Cycle now xb = map fst (filter (\<lambda>(token, xc). botDataExpiry xb < now - etLastTry xc) (botExchanges xb))"

subsection \<open>Readers\<close>

definition Conversion :: "('f::times, 'j) ExchangeBot option \<Rightarrow> 'f \<Rightarrow> ('f \<times> string) option" where
  "Conversion xb dcrVal = (case xb of
     None \<Rightarrow> None
   | Some b \<Rightarrow> map_option (\<lambda>xcState. (ebPrice xcState * dcrVal, ebBtcIndex xcState)) (botStateCopy b))"

definition Indices :: "string \<Rightarrow> ('f, 'j) ExchangeBot \<Rightarrow> 'f FiatIndices" where
  "Indices token xb = (case map_of (botIndexMap xb) token of
     None \<Rightarrow> [] | Some indices \<Rightarrow> foldl (\<lambda>m (code, price). AList.update code price m) [] indices)"

definition AvailableIndices :: "('f, 'j) ExchangeBot \<Rightarrow> string list" where
  "AvailableIndices xb = sort (foldl (\<lambda>indices (token, fiat). foldl (\<lambda>indices (symbol, price).
     if symbol \<in> set indices then indices else indices @ [symbol]) indices fiat) [] (botIndexMap xb))"

text \<open>The state in another currency. Processing the states deletes those that are out of date from the maps of the bot.\<close>

definition ConvertedState :: "'f::{zero,one,plus,times,inverse} floatEnv \<Rightarrow> int \<Rightarrow> string \<Rightarrow> ('f, 'j) ExchangeBot
    \<Rightarrow> ('f ExchangeBotState option \<times> ('f, 'j) ExchangeBot) go" where
  "ConvertedState E now code xb =
     (let fiatIndices = foldl (\<lambda>m (token, indices). (case map_of indices code of
            None \<Rightarrow> m | Some price \<Rightarrow> AList.update token (newState\<lparr>xsPrice := price\<rparr>) m)) [] (botIndexMap xb)
      in case processState E now xb True (ebDcrBtc (botCurrentState xb)) of
        Panic \<Rightarrow> Panic
      | Ret (dcrPrice, volume, dcrBtc) \<Rightarrow>
          let bot1 = xb\<lparr>botCurrentState := (botCurrentState xb)\<lparr>ebDcrBtc := dcrBtc\<rparr>\<rparr> in
          (case processState E now bot1 False fiatIndices of
             Panic \<Rightarrow> Panic
           | Ret (btcPrice, _, fiat) \<Rightarrow>
               if feIsZero E dcrPrice \<or> feIsZero E btcPrice then Ret (None, bot1\<lparr>botFailed := True\<rparr>)
               else Ret (Some (copyBotState \<lparr>ebBtcIndex = code, ebBtcPrice = 0, ebPrice = dcrPrice * btcPrice,
                   ebVolume = volume * btcPrice, ebDcrBtc = dcrBtc, ebFiatIndices = fiat\<rparr>), bot1)))"

subsection \<open>Charts\<close>

text \<open>The cached chart if its version is the current one, and the current version.\<close>

definition fetchFromCache :: "string \<Rightarrow> ('f, 'j) ExchangeBot \<Rightarrow> 'j option \<times> int" where
  "fetchFromCache chartID xb = (let bestVersion = cachedChartVersion chartID xb in
     (case map_of (botVersionedCharts xb) chartID of
        Some cache \<Rightarrow> if vcDataID cache = bestVersion then Some (vcChart cache) else None
      | None \<Rightarrow> None, bestVersion))"

definition storeChart :: "string \<Rightarrow> int \<Rightarrow> 'j \<Rightarrow> ('f, 'j) ExchangeBot \<Rightarrow> ('f, 'j) ExchangeBot" where
  "storeChart chartID version chart xb = xb\<lparr>botVersionedCharts := AList.update chartID
     \<lparr>vcChartID = chartID, vcDataID = version, vcChart = chart\<rparr> (botVersionedCharts xb)\<rparr>"

text \<open>The part of \<open>QuickSticks\<close> after a miss, with the version that was read before the lock was given up and taken
  again.\<close>

definition encodeSticks :: "('f encodable \<Rightarrow> 'j option) \<Rightarrow> string \<Rightarrow> string \<Rightarrow> int \<Rightarrow> ('f, 'j) ExchangeBot
    \<Rightarrow> (string + 'j) \<times> ('f, 'j) ExchangeBot" where
  "encodeSticks enc token rawBin bestVersion xb = (case map_of (ebDcrBtc (botCurrentState xb)) token of
     None \<Rightarrow> (Inl (''Failed to find HDF exchange state for '' @ token), xb)
   | Some state \<Rightarrow> (case xsCandlesticks state of
       None \<Rightarrow> (Inl (''Failed to find candlesticks for '' @ token), xb)
     | Some sticksMap \<Rightarrow> (case map_of sticksMap rawBin of
         None \<Rightarrow> (Inl (''Failed to find candlesticks for '' @ token @ '' and bin '' @ rawBin), xb)
       | Some sticks \<Rightarrow>
           if sticks = [] then (Inl (''Empty candlesticks for '' @ token @ '' and bin '' @ rawBin), xb)
           else (case enc (ESticks \<lparr>crBtcIndex = botBtcIndex xb, crPrice = ebPrice (botCurrentState xb), crSticks = sticks,
               crExpiration = (csStart (last sticks) + 2 * stickDuration rawBin) div second\<rparr>) of
             None \<Rightarrow> (Inl (''JSON encode error for '' @ token @ '' and bin '' @ rawBin), xb)
           | Some chart \<Rightarrow> (Inr chart, storeChart (genCacheID [token, rawBin]) bestVersion chart xb)))))"

definition QuickSticks :: "('f encodable \<Rightarrow> 'j option) \<Rightarrow> string \<Rightarrow> string \<Rightarrow> ('f, 'j) ExchangeBot
    \<Rightarrow> (string + 'j) \<times> ('f, 'j) ExchangeBot" where
  "QuickSticks enc token rawBin xb = (case fetchFromCache (genCacheID [token, rawBin]) xb of
     (Some data, _) \<Rightarrow> (Inr data, xb)
   | (None, bestVersion) \<Rightarrow> encodeSticks enc token rawBin bestVersion xb)"

definition mapifyDepthPoints :: "'f::{times,zero} floatEnv \<Rightarrow> 'f DepthPoint list \<Rightarrow> nat \<Rightarrow> nat \<Rightarrow> (int \<times> 'f agBookPt) list
    \<Rightarrow> (int \<times> 'f agBookPt) list" where
  "mapifyDepthPoints E source xcIndex ptCount target = foldl (\<lambda>target pt.
     (let k = eightPtKey E (dpPrice pt);
          old = (case map_of target k of
            Some b \<Rightarrow> b | None \<Rightarrow> \<lparr>agPrice = dpPrice pt, agVolumes = replicate ptCount 0\<rparr>)
      in AList.update k (old\<lparr>agVolumes := (agVolumes old)[xcIndex := dpQuantity pt]\<rparr>) target)) target source"

definition unmapAgOrders :: "(int \<times> 'f agBookPt) list \<Rightarrow> bool \<Rightarrow> 'f agBookPt list" where
  "unmapAgOrders book reverse = (let keys = sort (map fst book) in
     map (\<lambda>k. the (map_of book k)) (if reverse then rev keys else keys))"

text \<open>The loop over the exchanges that have depth data, in the order of their tokens.\<close>

fun aggLoop :: "'f::{times,zero} floatEnv \<Rightarrow> nat \<Rightarrow> nat \<Rightarrow> 'f DepthData list \<Rightarrow> (int \<times> 'f agBookPt) list
    \<Rightarrow> (int \<times> 'f agBookPt) list \<Rightarrow> (int \<times> 'f agBookPt) list \<times> (int \<times> 'f agBookPt) list" where
  "aggLoop E i numXc [] bids asks = (bids, asks)"
| "aggLoop E i numXc (depth # depths) bids asks =
     aggLoop E (i + 1) numXc depths (mapifyDepthPoints E (ddBids depth) i numXc bids) (mapifyDepthPoints E (ddAsks depth) i numXc asks)"

definition aggOrderbook :: "'f::{times,zero} floatEnv \<Rightarrow> int \<Rightarrow> ('f, 'j) ExchangeBot \<Rightarrow> 'f aggregateOrderbook option" where
  "aggOrderbook E now xb = (case botStateCopy xb of
     None \<Rightarrow> None
   | Some state \<Rightarrow>
       let tokens = sort (map fst (filter (\<lambda>(token, xcState). HasDepth xcState) (ebDcrBtc state)));
           depths = map (\<lambda>token. the (xsDepth (the (map_of (ebDcrBtc state) token)))) tokens;
           (bids, asks) = aggLoop E 0 (length tokens) depths [] [];
           oldestUpdate = foldl (\<lambda>t depth. if ddTime depth < t then ddTime depth else t) (now div second) depths;
           newestTime = foldl (\<lambda>t depth. if t < ddTime depth then ddTime depth else t) 0 depths
       in Some \<lparr>aoBtcIndex = botBtcIndex xb, aoPrice = ebPrice state, aoTokens = tokens, aoUpdateTimes = map ddTime depths,
            aoTime = newestTime, aoBids = unmapAgOrders bids True, aoAsks = unmapAgOrders asks False,
            aoExpiration = oldestUpdate + botRequestExpiry xb div second\<rparr>)"

definition encodeDepth :: "'f::{times,zero} floatEnv \<Rightarrow> ('f encodable \<Rightarrow> 'j option) \<Rightarrow> int \<Rightarrow> string \<Rightarrow> int \<Rightarrow> ('f, 'j) ExchangeBot
    \<Rightarrow> (string + 'j) \<times> ('f, 'j) ExchangeBot" where
  "encodeDepth E enc now token bestVersion xb =
     (case (if token = aggregatedOrderbookKey then
              (case aggOrderbook E now xb of
                 None \<Rightarrow> Inl (''Failed to find depth for '' @ token)
               | Some agDepth \<Rightarrow> Inr (EAggregate agDepth))
            else (case map_of (ebDcrBtc (botCurrentState xb)) token of
                 None \<Rightarrow> Inl (''Failed to find HDF exchange state for '' @ token)
               | Some xcState \<Rightarrow> (case xsDepth xcState of
                   None \<Rightarrow> Inl (''Failed to find depth for '' @ token)
                 | Some depth \<Rightarrow> Inr (EDepth \<lparr>drBtcIndex = botBtcIndex xb, drPrice = ebPrice (botCurrentState xb), drData = depth,
                     drExpiration = ddTime depth + botRequestExpiry xb div second\<rparr>)))) of
        Inl err \<Rightarrow> (Inl err, xb)
      | Inr thing \<Rightarrow> (case enc thing of
          None \<Rightarrow> (Inl (''JSON encode error for '' @ token @ '' depth chart''), xb)
        | Some chart \<Rightarrow> (Inr chart, storeChart (genCacheID [token, orderbookKey]) bestVersion chart xb)))"

definition QuickDepth :: "'f::{times,zero} floatEnv \<Rightarrow> ('f encodable \<Rightarrow> 'j option) \<Rightarrow> int \<Rightarrow> string \<Rightarrow> ('f, 'j) ExchangeBot
    \<Rightarrow> (string + 'j) \<times> ('f, 'j) ExchangeBot" where
  "QuickDepth E enc now token xb = (case fetchFromCache (genCacheID [token, orderbookKey]) xb of
     (Some data, _) \<Rightarrow> (Inr data, xb)
   | (None, bestVersion) \<Rightarrow> encodeDepth E enc now token bestVersion xb)"

subsection \<open>The average price\<close>

definition freshAt :: "(string \<rightharpoonup> exchangeTimes) \<Rightarrow> int \<Rightarrow> string \<Rightarrow> bool" where
  "freshAt exch oldestValid token \<longleftrightarrow> (case exch token of None \<Rightarrow> False | Some xc \<Rightarrow> oldestValid \<le> etLastUpdate xc)"

lemma stateLoop_deletions:
  "stateLoop exch t va states p v dels = Ret (p', v', dels') \<Longrightarrow>
   dels' = dels @ map fst (filter (\<lambda>(token, st). \<not> freshAt exch t token) states) \<and> (\<forall>(token, st)\<in>set states. exch token \<noteq> None)"
proof (induction exch t va states p v dels rule: stateLoop.induct)
  case (2 exch t va token st states p v dels)
  then show ?case by (cases "exch token") (auto simp: freshAt_def Let_def split: if_splits)
qed simp

lemma foldl_delete: "foldl (\<lambda>m token. AList.delete token m) states dels = filter (\<lambda>(token, st). token \<notin> set dels) states"
  by (induction dels arbitrary: states) (auto simp: delete_filter case_prod_unfold intro!: filter_cong)

text \<open>Exactly the states of the exchanges that are up to date remain.\<close>

lemma processState_states:
  assumes "processState E now xb va states = Ret (p, v, states')"
  shows "states' = filter (\<lambda>(token, st). freshAt (map_of (botExchanges xb)) (now - botRequestExpiry xb) token) states"
proof -
  let ?f = "freshAt (map_of (botExchanges xb)) (now - botRequestExpiry xb)"
  obtain p1 v1 dels where l: "stateLoop (map_of (botExchanges xb)) (now - botRequestExpiry xb) va states 0 0 [] = Ret (p1, v1, dels)"
    using assms by (auto simp: processState_def split: go.splits)
  then have "dels = map fst (filter (\<lambda>(token, st). \<not> ?f token) states)"
    using stateLoop_deletions by fastforce
  then have "filter (\<lambda>(token, st). token \<notin> set dels) states = filter (\<lambda>(token, st). ?f token) states"
    by (auto simp: case_prod_unfold intro!: filter_cong)
  then show ?thesis using assms l by (simp add: processState_def foldl_delete Let_def split: if_splits)
qed

definition weightOf :: "bool \<Rightarrow> string \<times> 'f::one ExchangeState \<Rightarrow> 'f" where
  "weightOf volumeAveraged a = (if volumeAveraged then xsVolume (snd a) else 1)"

lemma stateLoop_sums:
  fixes p v :: real
  shows "stateLoop exch t va states p v dels = Ret (p', v', dels') \<Longrightarrow>
    v' = v + (\<Sum>a\<leftarrow>filter (\<lambda>a. freshAt exch t (fst a)) states. weightOf va a) \<and>
    p' = p + (\<Sum>a\<leftarrow>filter (\<lambda>a. freshAt exch t (fst a)) states. weightOf va a * xsPrice (snd a))"
proof (induction states arbitrary: p v dels)
  case (Cons a states)
  obtain token st where a: "a = (token, st)" by force
  show ?case
  proof (cases "exch token")
    case (Some xc)
    show ?thesis
    proof (cases "etLastUpdate xc < t")
      case True
      then have "stateLoop exch t va states p v (dels @ [token]) = Ret (p', v', dels')" using Cons.prems a Some by simp
      then show ?thesis using Cons.IH True Some a by (simp add: freshAt_def)
    next
      case False
      then have l: "stateLoop exch t va states (p + weightOf va a * xsPrice st) (v + weightOf va a) dels = Ret (p', v', dels')"
        using Cons.prems a Some by (simp add: weightOf_def Let_def split: if_splits)
      have "freshAt exch t token" using False Some by (simp add: freshAt_def)
      then show ?thesis using Cons.IH[OF l] a by (simp add: add.assoc)
    qed
  qed (use Cons.prems a in simp)
qed simp

lemma weighted_between:
  fixes w x :: "'a \<Rightarrow> real"
  assumes "\<forall>a\<in>set xs. 0 \<le> w a \<and> lo \<le> x a \<and> x a \<le> hi"
  shows "lo * (\<Sum>a\<leftarrow>xs. w a) \<le> (\<Sum>a\<leftarrow>xs. w a * x a) \<and> (\<Sum>a\<leftarrow>xs. w a * x a) \<le> hi * (\<Sum>a\<leftarrow>xs. w a)"
  using assms
proof (induction xs)
  case (Cons a xs)
  have "w a * lo \<le> w a * x a" "w a * x a \<le> w a * hi"
    using Cons.prems by (auto intro: mult_left_mono)
  moreover have "lo * (\<Sum>a\<leftarrow>xs. w a) \<le> (\<Sum>a\<leftarrow>xs. w a * x a) \<and> (\<Sum>a\<leftarrow>xs. w a * x a) \<le> hi * (\<Sum>a\<leftarrow>xs. w a)"
    using Cons.IH Cons.prems by simp
  ultimately show ?case by (simp add: distrib_left mult.commute)
qed simp

text \<open>C39: in exact arithmetic, and where \<open>processState\<close> returns (it panics on a state whose exchange it does not have), the price of the bot is the average of the prices of the exchanges that are up to date,
  weighted by their volumes (unweighted, where the volumes are not to be used): the sum of the weights times the prices, divided by the
  sum of the weights, which is the volume that is returned; price and volume are zero if that sum is. So, if no volume is
  negative, the price lies between the lowest and the highest of them. Exactly the exchanges that are out of date are dropped.\<close>

theorem average_price:
  fixes E :: "real floatEnv"
  assumes "processState E now xb volumeAveraged states = Ret (price, volume, states')"
    and "\<And>x. feIsZero E x \<longleftrightarrow> x = 0"
    and "\<And>st. w st = (if volumeAveraged then xsVolume st else 1)"
  shows "states' = filter (\<lambda>(token, st). case map_of (botExchanges xb) token of
        None \<Rightarrow> False | Some xc \<Rightarrow> now - botRequestExpiry xb \<le> etLastUpdate xc) states \<and>
    volume = (\<Sum>(token, st)\<leftarrow>states'. w st) \<and>
    price = (if volume = 0 then 0 else (\<Sum>(token, st)\<leftarrow>states'. w st * xsPrice st) / (\<Sum>(token, st)\<leftarrow>states'. w st)) \<and>
    (volume \<noteq> 0 \<and> (\<forall>(token, st)\<in>set states'. 0 \<le> w st \<and> lo \<le> xsPrice st \<and> xsPrice st \<le> hi) \<longrightarrow> lo \<le> price \<and> price \<le> hi)"
proof -
  let ?f = "freshAt (map_of (botExchanges xb)) (now - botRequestExpiry xb)"
  have st: "states' = filter (\<lambda>a. ?f (fst a)) states"
    using processState_states[OF assms(1)] by (simp add: case_prod_unfold)
  have w: "weightOf volumeAveraged a = w (snd a)" for a :: "string \<times> real ExchangeState"
    by (simp add: weightOf_def assms(3))
  obtain p v dels where l: "stateLoop (map_of (botExchanges xb)) (now - botRequestExpiry xb) volumeAveraged states 0 0 [] = Ret (p, v, dels)"
    using assms(1) by (auto simp: processState_def split: go.splits)
  have pv: "volume = v" "price = (if v = 0 then 0 else p / v)"
    using assms(1,2) l by (auto simp: processState_def Let_def split: if_splits)
  have v: "v = (\<Sum>a\<leftarrow>states'. w (snd a))" and p: "p = (\<Sum>a\<leftarrow>states'. w (snd a) * xsPrice (snd a))"
    using stateLoop_sums[OF l] by (simp_all add: st w)
  have "lo \<le> price \<and> price \<le> hi"
    if "volume \<noteq> 0" "\<forall>(token, st)\<in>set states'. 0 \<le> w st \<and> lo \<le> xsPrice st \<and> xsPrice st \<le> hi"
  proof -
    have bounds: "\<forall>a\<in>set states'. 0 \<le> w (snd a) \<and> lo \<le> xsPrice (snd a) \<and> xsPrice (snd a) \<le> hi"
      using that(2) by auto
    then have "0 \<le> v" unfolding v by (intro sum_list_nonneg) auto
    then have "0 < v" using that(1) pv(1) by simp
    then show ?thesis
      using weighted_between[OF bounds] by (simp add: pv(2) v[symmetric] p[symmetric] pos_le_divide_eq pos_divide_le_eq)
  qed
  moreover have "states' = filter (\<lambda>(token, st). case map_of (botExchanges xb) token of
        None \<Rightarrow> False | Some xc \<Rightarrow> now - botRequestExpiry xb \<le> etLastUpdate xc) states"
    using st by (simp add: freshAt_def case_prod_unfold)
  ultimately show ?thesis by (simp add: pv v p case_prod_unfold)
qed

text \<open>Three exchanges, of which the third has not been updated for two hours.\<close>

definition exReal :: "real floatEnv" where
  "exReal = \<lparr>feParse = \<lambda>s. None, feRound = round, feTrunc = \<lambda>x. \<lfloor>x\<rfloor>, feIsZero = \<lambda>x. x = 0, fe1e8 = 10 ^ 8, fe1e3 = 10 ^ 3\<rparr>"

definition exPriced :: "real \<Rightarrow> real \<Rightarrow> real ExchangeState" where
  "exPriced price volume = newState\<lparr>xsPrice := price, xsVolume := volume\<rparr>"

definition exBot :: "(real, string) ExchangeBot" where
  "exBot = \<lparr>botExchanges = [(''binance'', \<lparr>etLastUpdate = 9000 * second, etLastTry = 0\<rparr>),
       (''huobi'', \<lparr>etLastUpdate = 8000 * second, etLastTry = 0\<rparr>), (''poloniex'', \<lparr>etLastUpdate = 2000 * second, etLastTry = 0\<rparr>)],
     botVersionedCharts = [], botChartVersions = [], botBtcIndex = ''USD'', botIndexMap = [],
     botCurrentState = \<lparr>ebBtcIndex = ''USD'', ebBtcPrice = 0, ebPrice = 0, ebVolume = 0, ebDcrBtc = [], ebFiatIndices = []\<rparr>,
     botStateCopy = None, botStateBytes = None, botDataExpiry = 20 * minute, botRequestExpiry = 60 * minute, botFailed = False,
     botUpdateChans = [], botIndexChans = []\<rparr>"

lemma exBot_price: "processState exReal (9200 * second) exBot True
    [(''binance'', exPriced 2 1), (''huobi'', exPriced 4 3), (''poloniex'', exPriced 9 100)] =
  Ret (7 / 2, 4, [(''binance'', exPriced 2 1), (''huobi'', exPriced 4 3)])"
  by (simp add: processState_def exBot_def exReal_def exPriced_def minute_def second_def)

theorem average_price_witness:
  "4 = (\<Sum>(token, st)\<leftarrow>[(''binance'', exPriced 2 1), (''huobi'', exPriced 4 3)]. xsVolume st) \<and>
   (7 / 2 :: real) = (\<Sum>(token, st)\<leftarrow>[(''binance'', exPriced 2 1), (''huobi'', exPriced 4 3)]. xsVolume st * xsPrice st) / 4 \<and>
   2 \<le> (7 / 2 :: real) \<and> (7 / 2 :: real) \<le> 4"
  using conjunct2[OF average_price[OF exBot_price, of xsVolume 2 4]] by (simp add: exReal_def exPriced_def)

end
