(* ===== verification/ExchangeCharts.thy ===== *)
theory ExchangeCharts
  imports ExchangeBot
begin

text \<open>
  The charts that the exchange bot caches (\<open>exchanges/bot.go\<close>): every id has a version, an update of an exchange
  increments the versions of the charts it brings data for, and a reader that finds no chart of the current version
  encodes one. The theory shows that a chart handed out is one of the data that the bot has.
\<close>

subsection \<open>Versions and ids of charts\<close>

lemma genCacheID_pair: "genCacheID [t, b] = t @ CHR ''-'' # b"
  by (simp add: genCacheID_def)

lemma token_no_dash: "IsDcrExchange t \<or> t = aggregatedOrderbookKey \<Longrightarrow> CHR ''-'' \<notin> set t"
  by (auto simp: IsDcrExchange_def DcrExchanges_def aggregatedOrderbookKey_def)

lemma genCacheID_inj:
  assumes "IsDcrExchange t \<or> t = aggregatedOrderbookKey" and "IsDcrExchange t' \<or> t' = aggregatedOrderbookKey"
  shows "genCacheID [t, b] = genCacheID [t', b'] \<longleftrightarrow> t = t' \<and> b = b'"
proof -
  have tw: "takeWhile (\<lambda>c. c \<noteq> CHR ''-'') (u @ CHR ''-'' # v) = u" if "CHR ''-'' \<notin> set u" for u v
    using that by (subst takeWhile_append2) auto
  have "t = t'" if "genCacheID [t, b] = genCacheID [t', b']"
    using tw[OF token_no_dash[OF assms(1)], of b] tw[OF token_no_dash[OF assms(2)], of b'] that by (simp add: genCacheID_pair)
  then show ?thesis by (auto simp: genCacheID_pair)
qed

lemma cached_increment: "cachedChartVersion i (incrementChart j xb) = cachedChartVersion i xb + (if i = j then 1 else 0)"
  by (auto simp: cachedChartVersion_def incrementChart_def update_conv split: option.split)

lemma incrementChart_fields [simp]:
  "botCurrentState (incrementChart j xb) = botCurrentState xb" "botVersionedCharts (incrementChart j xb) = botVersionedCharts xb"
  "botBtcIndex (incrementChart j xb) = botBtcIndex xb" "botRequestExpiry (incrementChart j xb) = botRequestExpiry xb"
  "botExchanges (incrementChart j xb) = botExchanges xb"
  by (simp_all add: incrementChart_def)

lemma increments_fields [simp]:
  "botCurrentState (foldl (\<lambda>xb i. incrementChart i xb) xb is) = botCurrentState xb"
  "botVersionedCharts (foldl (\<lambda>xb i. incrementChart i xb) xb is) = botVersionedCharts xb"
  "botBtcIndex (foldl (\<lambda>xb i. incrementChart i xb) xb is) = botBtcIndex xb"
  "botRequestExpiry (foldl (\<lambda>xb i. incrementChart i xb) xb is) = botRequestExpiry xb"
  by (induction "is" arbitrary: xb) simp_all

lemma cached_increments:
  "cachedChartVersion i (foldl (\<lambda>xb i. incrementChart i xb) xb is) = cachedChartVersion i xb + int (count_list is i)"
  by (induction "is" arbitrary: xb) (auto simp: cached_increment)

text \<open>The version of a chart depends on the versions only.\<close>

lemma cached_cong: "botChartVersions xb = botChartVersions xb' \<Longrightarrow> cachedChartVersion i xb = cachedChartVersion i xb'"
  by (simp add: cachedChartVersion_def)

subsection \<open>The cached charts\<close>

text \<open>
  The runs of the bot. The second component collects the versions that a reader has found stale in the cache and has not
  stored a chart for yet: between the two it holds no lock. The updates are those of the bot's own exchanges, with sticks
  for the bins of the program.
\<close>

definition validUpdate :: "'f ExchangeUpdate \<Rightarrow> bool" where
  "validUpdate update \<longleftrightarrow> IsDcrExchange (fst update) \<and>
     set (map fst (elems (xsCandlesticks (snd update)))) \<subseteq> {halfHourKey, hourKey, dayKey, monthKey}"

inductive botReach :: "'f::{zero,one,plus,times,inverse} floatEnv \<Rightarrow> ('f encodable \<Rightarrow> 'j option) \<Rightarrow> ('f, 'j) ExchangeBot
    \<Rightarrow> (string \<times> int) set \<Rightarrow> bool" for E enc where
  start: "NewExchangeBot parseDuration constructor cfg = Inr xb \<Longrightarrow> botReach E enc xb {}"
| clock: "botReach E enc xb P \<Longrightarrow> botReach E enc (xb\<lparr>botExchanges := xcs\<rparr>) P"
| channels: "botReach E enc xb P \<Longrightarrow> botReach E enc (UpdateChannels xb) P"
| exchange: "botReach E enc xb P \<Longrightarrow> validUpdate update \<Longrightarrow> onExchangeUpdate E enc now update xb = Ret xb' \<Longrightarrow>
    botReach E enc xb' P"
| index: "botReach E enc xb P \<Longrightarrow> onIndexUpdate E enc now indices xb = Ret xb' \<Longrightarrow> botReach E enc xb' P"
| converted: "botReach E enc xb P \<Longrightarrow> ConvertedState E now code xb = Ret (r, xb') \<Longrightarrow> botReach E enc xb' P"
| fetch: "botReach E enc xb P \<Longrightarrow> fetchFromCache chartID xb = (data, version) \<Longrightarrow>
    botReach E enc xb (insert (chartID, version) P)"
| sticks: "botReach E enc xb P \<Longrightarrow> (genCacheID [token, bin], version) \<in> P \<Longrightarrow>
    encodeSticks enc token bin version xb = (r', xb') \<Longrightarrow> botReach E enc xb' P"
| depth: "botReach E enc xb P \<Longrightarrow> (genCacheID [token, orderbookKey], version) \<in> P \<Longrightarrow>
    encodeDepth E enc now token version xb = (r', xb') \<Longrightarrow> botReach E enc xb' P"

definition dcrState :: "('f, 'j) ExchangeBot \<Rightarrow> string \<rightharpoonup> 'f ExchangeState" where
  "dcrState xb = map_of (ebDcrBtc (botCurrentState xb))"

definition sticksAt :: "('f, 'j) ExchangeBot \<Rightarrow> string \<Rightarrow> string \<rightharpoonup> 'f Candlesticks" where
  "sticksAt xb token bin = (case dcrState xb token of None \<Rightarrow> None | Some st \<Rightarrow> sticksOf st bin)"

definition depthAt :: "('f, 'j) ExchangeBot \<Rightarrow> string \<rightharpoonup> 'f DepthData" where
  "depthAt xb token = (case dcrState xb token of None \<Rightarrow> None | Some st \<Rightarrow> xsDepth st)"

definition encodesSticks :: "('f encodable \<Rightarrow> 'j option) \<Rightarrow> ('f, 'j) ExchangeBot \<Rightarrow> string \<Rightarrow> 'f Candlesticks \<Rightarrow> 'j \<Rightarrow> bool" where
  "encodesSticks enc xb bin sticks chart \<longleftrightarrow> (\<exists>price. enc (ESticks \<lparr>crBtcIndex = botBtcIndex xb, crPrice = price, crSticks = sticks,
     crExpiration = (csStart (last sticks) + 2 * stickDuration bin) div second\<rparr>) = Some chart)"

definition encodesDepth :: "('f encodable \<Rightarrow> 'j option) \<Rightarrow> ('f, 'j) ExchangeBot \<Rightarrow> 'f DepthData \<Rightarrow> 'j \<Rightarrow> bool" where
  "encodesDepth enc xb depth chart \<longleftrightarrow> (\<exists>price. enc (EDepth \<lparr>drBtcIndex = botBtcIndex xb, drPrice = price, drData = depth,
     drExpiration = ddTime depth + botRequestExpiry xb div second\<rparr>) = Some chart)"

text \<open>The chart stored under an id, when its version is the current one.\<close>

definition currentChart :: "('f, 'j) ExchangeBot \<Rightarrow> string \<rightharpoonup> 'j" where
  "currentChart xb chartID = fst (fetchFromCache chartID xb)"

definition versionsOK :: "('f, 'j) ExchangeBot \<Rightarrow> (string \<times> int) set \<Rightarrow> bool" where
  "versionsOK xb P \<longleftrightarrow> (\<forall>i c. map_of (botVersionedCharts xb) i = Some c \<longrightarrow> vcDataID c \<le> cachedChartVersion i xb) \<and>
     (\<forall>(i, v)\<in>P. v \<le> cachedChartVersion i xb)"

definition tokensOK :: "('f, 'j) ExchangeBot \<Rightarrow> bool" where
  "tokensOK xb \<longleftrightarrow> (\<forall>t st. dcrState xb t = Some st \<longrightarrow> IsDcrExchange t \<and> sticksOf st orderbookKey = None)"

definition chartsOK :: "('f encodable \<Rightarrow> 'j option) \<Rightarrow> ('f, 'j) ExchangeBot \<Rightarrow> bool" where
  "chartsOK enc xb \<longleftrightarrow>
     (\<forall>t b s c. currentChart xb (genCacheID [t, b]) = Some c \<longrightarrow> sticksAt xb t b = Some s \<longrightarrow> encodesSticks enc xb b s c) \<and>
     (\<forall>t d c. currentChart xb (genCacheID [t, orderbookKey]) = Some c \<longrightarrow> depthAt xb t = Some d \<longrightarrow> encodesDepth enc xb d c)"

definition chartInv :: "('f encodable \<Rightarrow> 'j option) \<Rightarrow> ('f, 'j) ExchangeBot \<Rightarrow> (string \<times> int) set \<Rightarrow> bool" where
  "chartInv enc xb P \<longleftrightarrow> versionsOK xb P \<and> tokensOK xb \<and> chartsOK enc xb"

lemma currentChart_Some: "currentChart xb i = Some c \<longleftrightarrow>
  (\<exists>v. map_of (botVersionedCharts xb) i = Some v \<and> vcDataID v = cachedChartVersion i xb \<and> vcChart v = c)"
  by (auto simp: currentChart_def fetchFromCache_def Let_def split: option.splits if_splits)

text \<open>Operations that touch no version and no chart, and at most drop states, keep the invariant.\<close>

definition chartFrame :: "('f, 'j) ExchangeBot \<Rightarrow> ('f, 'j) ExchangeBot \<Rightarrow> bool" where
  "chartFrame xb xb' \<longleftrightarrow> botChartVersions xb' = botChartVersions xb \<and> botVersionedCharts xb' = botVersionedCharts xb \<and>
     botBtcIndex xb' = botBtcIndex xb \<and> botRequestExpiry xb' = botRequestExpiry xb \<and> dcrState xb' \<subseteq>\<^sub>m dcrState xb"

lemma chartFrame_keeps:
  assumes f: "chartFrame xb xb'" and i: "chartInv enc xb P"
  shows "chartInv enc xb' P"
proof -
  have c: "cachedChartVersion i xb' = cachedChartVersion i xb" for i using f by (auto simp: chartFrame_def intro: cached_cong)
  have cc: "currentChart xb' i = currentChart xb i" for i
    using f c by (simp add: currentChart_def fetchFromCache_def chartFrame_def)
  have d: "dcrState xb' t = Some st \<Longrightarrow> dcrState xb t = Some st" for t st
    using f unfolding chartFrame_def map_le_def by (metis domI)
  have s: "sticksAt xb' t b = Some x \<Longrightarrow> sticksAt xb t b = Some x" for t b x
    by (auto simp: sticksAt_def d split: option.splits)
  have e: "depthAt xb' t = Some x \<Longrightarrow> depthAt xb t = Some x" for t x
    by (auto simp: depthAt_def d split: option.splits)
  have "versionsOK xb' P" using i f c by (auto simp: chartInv_def versionsOK_def chartFrame_def)
  moreover have "tokensOK xb'" using i d by (auto simp: chartInv_def tokensOK_def)
  moreover have "chartsOK enc xb'"
    using i s e f by (fastforce simp: chartInv_def chartsOK_def cc encodesSticks_def encodesDepth_def chartFrame_def)
  ultimately show ?thesis by (simp add: chartInv_def)
qed

lemma map_of_filter_key: "map_of (filter (\<lambda>(k, v). f k) m) k = (if f k then map_of m k else None)"
  by (induction m) auto

lemma processState_sub:
  "processState E now xb va states = Ret (p, v, states') \<Longrightarrow> map_of states' \<subseteq>\<^sub>m map_of states"
  using processState_states[of E now xb va states p v states'] by (auto simp: map_le_def map_of_filter_key split: if_splits)

lemma updateState_frame: "updateState E enc now xb = Ret (ok, xb') \<Longrightarrow> chartFrame xb xb'"
  by (auto simp: updateState_def chartFrame_def dcrState_def Let_def dest!: processState_sub split: go.splits option.splits)

lemma ConvertedState_frame: "ConvertedState E now code xb = Ret (r, xb') \<Longrightarrow> chartFrame xb xb'"
  by (auto simp: ConvertedState_def chartFrame_def dcrState_def Let_def dest!: processState_sub split: go.splits if_splits)

lemma chartFrame_trans: "chartFrame xb xb' \<Longrightarrow> chartFrame xb' xb'' \<Longrightarrow> chartFrame xb xb''"
  by (auto simp: chartFrame_def intro: map_le_trans)

lemma frame_simple [simp]:
  "chartFrame xb (signalExchangeUpdate u xb)" "chartFrame xb (signalIndexUpdate w xb)" "chartFrame xb (UpdateChannels xb)"
  "chartFrame xb (xb\<lparr>botExchanges := ts\<rparr>)" "chartFrame xb (xb\<lparr>botIndexMap := im\<rparr>)"
  by (simp_all add: chartFrame_def dcrState_def signalExchangeUpdate_def signalIndexUpdate_def UpdateChannels_def)

text \<open>An update of an exchange increments the version of every chart of which it brings the data.\<close>

definition recordUpdate :: "'f ExchangeUpdate \<Rightarrow> ('f, 'j) ExchangeBot \<Rightarrow> ('f, 'j) ExchangeBot" where
  "recordUpdate update xb = (let bot1 = foldl (\<lambda>xb chartId. incrementChart chartId xb) xb (chartsOf (fst update) (snd update))
     in bot1\<lparr>botCurrentState := (botCurrentState bot1)\<lparr>ebDcrBtc :=
          AList.update (fst update) (snd update) (ebDcrBtc (botCurrentState bot1))\<rparr>\<rparr>)"

lemma updateExchange_record: "updateExchange E enc now update xb = updateState E enc now (recordUpdate update xb)"
  by (simp add: updateExchange_def recordUpdate_def case_prod_unfold Let_def)

lemma recordUpdate_fields [simp]:
  "botVersionedCharts (recordUpdate u xb) = botVersionedCharts xb" "botBtcIndex (recordUpdate u xb) = botBtcIndex xb"
  "botRequestExpiry (recordUpdate u xb) = botRequestExpiry xb" "dcrState (recordUpdate u xb) = (dcrState xb)(fst u \<mapsto> snd u)"
  by (simp_all add: recordUpdate_def dcrState_def Let_def update_conv')

lemma recordUpdate_encodes [simp]:
  "encodesSticks enc (recordUpdate u xb) = encodesSticks enc xb" "encodesDepth enc (recordUpdate u xb) = encodesDepth enc xb"
  by (simp_all add: encodesSticks_def encodesDepth_def fun_eq_iff)

lemma recordUpdate_version:
  "cachedChartVersion i (recordUpdate u xb) = cachedChartVersion i xb + int (count_list (chartsOf (fst u) (snd u)) i)"
proof -
  have "cachedChartVersion i (recordUpdate u xb) =
      cachedChartVersion i (foldl (\<lambda>xb i. incrementChart i xb) xb (chartsOf (fst u) (snd u)))"
    by (rule cached_cong) (simp add: recordUpdate_def Let_def)
  then show ?thesis by (simp add: cached_increments)
qed

lemma recordUpdate_current:
  assumes "versionsOK xb P" and "currentChart (recordUpdate u xb) i = Some c"
  shows "currentChart xb i = Some c \<and> i \<notin> set (chartsOf (fst u) (snd u))"
proof -
  obtain v where v: "map_of (botVersionedCharts xb) i = Some v" "vcDataID v = cachedChartVersion i (recordUpdate u xb)" "vcChart v = c"
    using assms(2) by (auto simp: currentChart_Some)
  moreover have "vcDataID v \<le> cachedChartVersion i xb" using assms(1) v(1) unfolding versionsOK_def by blast
  ultimately have z: "count_list (chartsOf (fst u) (snd u)) i = 0" using v(2) by (simp add: recordUpdate_version)
  then have "vcDataID v = cachedChartVersion i xb" using v(2) by (simp add: recordUpdate_version)
  then show ?thesis using v z by (auto simp: currentChart_Some count_list_0_iff)
qed

lemma recordUpdate_versions: "versionsOK xb P \<Longrightarrow> versionsOK (recordUpdate u xb) P"
  by (fastforce simp: versionsOK_def recordUpdate_version)

lemma recordUpdate_tokens: "tokensOK xb \<Longrightarrow> validUpdate u \<Longrightarrow> tokensOK (recordUpdate u xb)"
  by (auto simp: tokensOK_def validUpdate_def sticksOf_def orderbookKey_def halfHourKey_def hourKey_def dayKey_def monthKey_def
      map_of_eq_None_iff)

lemma sticks_in_charts: "sticksOf st b = Some s \<Longrightarrow> genCacheID [t, b] \<in> set (chartsOf t st)"
  by (force simp: chartsOf_def sticksOf_def dest: map_of_SomeD)

lemma depth_in_charts: "xsDepth st = Some d \<Longrightarrow> genCacheID [t, orderbookKey] \<in> set (chartsOf t st)"
  by (simp add: chartsOf_def)

lemma recordUpdate_charts:
  assumes v: "versionsOK xb P" and i: "chartsOK enc xb"
  shows "chartsOK enc (recordUpdate u xb)"
proof -
  have st: "sticksAt (recordUpdate u xb) t b = (if t = fst u then sticksOf (snd u) b else sticksAt xb t b)"
    and dp: "depthAt (recordUpdate u xb) t = (if t = fst u then xsDepth (snd u) else depthAt xb t)" for t b
    by (simp_all add: sticksAt_def depthAt_def)
  have "encodesSticks enc (recordUpdate u xb) b s c"
    if h: "currentChart (recordUpdate u xb) (genCacheID [t, b]) = Some c" "sticksAt (recordUpdate u xb) t b = Some s" for t b s c
  proof -
    note old = recordUpdate_current[OF v h(1)]
    have "t \<noteq> fst u" using old h(2) sticks_in_charts[of "snd u" b s t] by (auto simp: st split: if_splits)
    then have "sticksAt xb t b = Some s" using h(2) by (simp add: st)
    then show ?thesis using i old unfolding chartsOK_def by fastforce
  qed
  moreover have "encodesDepth enc (recordUpdate u xb) d c"
    if h: "currentChart (recordUpdate u xb) (genCacheID [t, orderbookKey]) = Some c" "depthAt (recordUpdate u xb) t = Some d" for t d c
  proof -
    note old = recordUpdate_current[OF v h(1)]
    have "t \<noteq> fst u" using old h(2) depth_in_charts[of "snd u" d t] by (auto simp: dp split: if_splits)
    then have "depthAt xb t = Some d" using h(2) by (simp add: dp)
    then show ?thesis using i old unfolding chartsOK_def by fastforce
  qed
  ultimately show ?thesis by (simp add: chartsOK_def)
qed

lemma recordUpdate_keeps: "chartInv enc xb P \<Longrightarrow> validUpdate u \<Longrightarrow> chartInv enc (recordUpdate u xb) P"
  by (auto simp: chartInv_def intro: recordUpdate_versions recordUpdate_tokens recordUpdate_charts)

text \<open>A chart is stored with a version that was read before, when it encodes what the state has now.\<close>

lemma storeChart_fields [simp]:
  "cachedChartVersion i (storeChart j v c xb) = cachedChartVersion i xb" "dcrState (storeChart j v c xb) = dcrState xb"
  "botBtcIndex (storeChart j v c xb) = botBtcIndex xb" "botRequestExpiry (storeChart j v c xb) = botRequestExpiry xb"
  by (simp_all add: storeChart_def cachedChartVersion_def dcrState_def)

lemma storeChart_encodes [simp]:
  "encodesSticks enc (storeChart j v c xb) = encodesSticks enc xb" "encodesDepth enc (storeChart j v c xb) = encodesDepth enc xb"
  by (simp_all add: encodesSticks_def encodesDepth_def fun_eq_iff)

lemma storeChart_current:
  "currentChart (storeChart j v c xb) i =
    (if i = j then (if v = cachedChartVersion i xb then Some c else None) else currentChart xb i)"
  by (simp add: currentChart_def fetchFromCache_def Let_def storeChart_def update_conv' cachedChartVersion_def)

lemma storeChart_versions: "versionsOK xb P \<Longrightarrow> (j, v) \<in> P \<Longrightarrow> versionsOK (storeChart j v c xb) P"
  by (auto simp: versionsOK_def) (auto simp: storeChart_def update_conv' split: if_splits)

lemma storeChart_keeps:
  assumes i: "chartInv enc xb P" and p: "(genCacheID [t, b], v) \<in> P"
    and tok: "IsDcrExchange t \<or> t = aggregatedOrderbookKey"
    and s: "\<And>s. sticksAt xb t b = Some s \<Longrightarrow> encodesSticks enc xb b s c"
    and d: "\<And>d. b = orderbookKey \<Longrightarrow> depthAt xb t = Some d \<Longrightarrow> encodesDepth enc xb d c"
  shows "chartInv enc (storeChart (genCacheID [t, b]) v c xb) P"
proof -
  let ?xb = "storeChart (genCacheID [t, b]) v c xb"
  have known: "IsDcrExchange t'" if "sticksAt xb t' b' = Some s \<or> depthAt xb t' = Some d'" for t' b' s d'
    using i that by (auto simp: chartInv_def tokensOK_def sticksAt_def depthAt_def split: option.splits)
  have same: "sticksAt ?xb = sticksAt xb" "depthAt ?xb = depthAt xb" by (simp_all add: sticksAt_def depthAt_def fun_eq_iff)
  have "encodesSticks enc ?xb b' s' c'"
    if h: "currentChart ?xb (genCacheID [t', b']) = Some c'" "sticksAt ?xb t' b' = Some s'" for t' b' s' c'
  proof -
    have "genCacheID [t', b'] = genCacheID [t, b] \<longleftrightarrow> t' = t \<and> b' = b"
      using genCacheID_inj[of t' t b' b] known[of t' b' s'] tok h(2) same by auto
    then show ?thesis
      using h i s[of s'] by (auto simp: storeChart_current chartInv_def chartsOK_def same split: if_splits)
  qed
  moreover have "encodesDepth enc ?xb d' c'"
    if h: "currentChart ?xb (genCacheID [t', orderbookKey]) = Some c'" "depthAt ?xb t' = Some d'" for t' d' c'
  proof -
    have "genCacheID [t', orderbookKey] = genCacheID [t, b] \<longleftrightarrow> t' = t \<and> b = orderbookKey"
      using genCacheID_inj[of t' t orderbookKey b] known[of t' _ _ d'] tok h(2) same by auto
    then show ?thesis
      using h i d[of d'] by (auto simp: storeChart_current chartInv_def chartsOK_def same split: if_splits)
  qed
  ultimately show ?thesis
    using i p storeChart_versions[of xb P "genCacheID [t, b]" v c] by (auto simp: chartInv_def chartsOK_def tokensOK_def)
qed

lemma encodeSticks_keeps:
  assumes i: "chartInv enc xb P" and p: "(genCacheID [t, b], v) \<in> P" and e: "encodeSticks enc t b v xb = (r, xb')"
  shows "chartInv enc xb' P"
proof (cases r)
  case Inl
  then have "xb' = xb" using e by (auto simp: encodeSticks_def split: option.splits if_splits)
  then show ?thesis using i by simp
next
  case (Inr chart)
  then obtain s where s: "sticksAt xb t b = Some s" "encodesSticks enc xb b s chart" "xb' = storeChart (genCacheID [t, b]) v chart xb"
    using e by (fastforce simp: encodeSticks_def sticksAt_def dcrState_def sticksOf_def encodesSticks_def split: option.splits if_splits)
  have "IsDcrExchange t" "b \<noteq> orderbookKey"
    using i s(1) by (auto simp: chartInv_def tokensOK_def sticksAt_def split: option.splits)
  then show ?thesis unfolding s(3) using s by (intro storeChart_keeps i p) auto
qed

lemma aggregated_unknown: "tokensOK xb \<Longrightarrow> sticksAt xb aggregatedOrderbookKey b = None \<and> depthAt xb aggregatedOrderbookKey = None"
  by (cases "dcrState xb aggregatedOrderbookKey")
    (auto simp: tokensOK_def sticksAt_def depthAt_def IsDcrExchange_def DcrExchanges_def aggregatedOrderbookKey_def)

lemma no_depth_sticks: "tokensOK xb \<Longrightarrow> sticksAt xb t orderbookKey = None"
  by (cases "dcrState xb t") (auto simp: tokensOK_def sticksAt_def)

lemma encodeDepth_keeps:
  assumes i: "chartInv enc xb P" and p: "(genCacheID [t, orderbookKey], v) \<in> P" and e: "encodeDepth E enc now t v xb = (r, xb')"
  shows "chartInv enc xb' P"
proof (cases r)
  case Inl
  then have "xb' = xb" using e by (auto simp: encodeDepth_def split: option.splits if_splits sum.splits)
  then show ?thesis using i by simp
next
  case (Inr chart)
  have tok: "tokensOK xb" using i by (simp add: chartInv_def)
  have x: "xb' = storeChart (genCacheID [t, orderbookKey]) v chart xb"
    using e Inr by (auto simp: encodeDepth_def split: option.splits if_splits sum.splits)
  show ?thesis
  proof (cases "t = aggregatedOrderbookKey")
    case True
    then show ?thesis unfolding x using aggregated_unknown[OF tok] by (intro storeChart_keeps i p) auto
  next
    case False
    then obtain d where d: "depthAt xb t = Some d" "encodesDepth enc xb d chart"
      using e Inr by (fastforce simp: encodeDepth_def depthAt_def dcrState_def encodesDepth_def split: option.splits sum.splits)
    then have "IsDcrExchange t" using tok by (auto simp: tokensOK_def depthAt_def split: option.splits)
    then show ?thesis unfolding x using d no_depth_sticks[OF tok, of t] by (intro storeChart_keeps i p) auto
  qed
qed

lemma exchange_keeps:
  assumes "chartInv enc xb P" and "validUpdate u" and "onExchangeUpdate E enc now u xb = Ret xb'"
  shows "chartInv enc xb' P"
proof -
  obtain ok x1 where x1: "updateState E enc now (recordUpdate u xb) = Ret (ok, x1)" "xb' = (if ok then signalExchangeUpdate u x1 else x1)"
    using assms(3) by (auto simp: onExchangeUpdate_def updateExchange_record split: go.splits)
  have "chartInv enc x1 P" using recordUpdate_keeps[OF assms(1,2)] updateState_frame[OF x1(1)] chartFrame_keeps by blast
  then show ?thesis using x1(2) by (auto intro: chartFrame_keeps frame_simple)
qed

lemma index_frame:
  assumes "onIndexUpdate E enc now u xb = Ret xb'"
  shows "chartFrame xb xb'"
proof -
  obtain ok x1 where x1: "updateIndices E enc now u xb = Ret (ok, x1)" "xb' = (if ok then signalIndexUpdate u x1 else x1)"
    using assms by (auto simp: onIndexUpdate_def split: go.splits)
  have "chartFrame xb x1"
  proof (cases "map_of (snd u) (botBtcIndex xb)")
    case None
    then show ?thesis using x1(1) by (auto simp: updateIndices_def case_prod_unfold Let_def)
  next
    case (Some price)
    define x0 where "x0 = xb\<lparr>botIndexMap := AList.update (fst u) (snd u) (botIndexMap xb), botCurrentState := (botCurrentState xb)
      \<lparr>ebFiatIndices := AList.update (fst u) (newState\<lparr>xsPrice := price, xsStamp := now div second\<rparr>) (ebFiatIndices (botCurrentState xb))\<rparr>\<rparr>"
    have "updateState E enc now x0 = Ret (ok, x1)" using x1(1) Some by (simp add: updateIndices_def case_prod_unfold Let_def x0_def)
    moreover have "chartFrame xb x0" by (simp add: chartFrame_def x0_def dcrState_def)
    ultimately show ?thesis using updateState_frame chartFrame_trans by blast
  qed
  then show ?thesis using x1(2) frame_simple(2)[of x1 u] by (auto intro: chartFrame_trans)
qed

lemma start_inv:
  assumes "NewExchangeBot pd con cfg = Inr xb"
  shows "chartInv enc xb {}"
proof -
  have "botVersionedCharts xb = []" "ebDcrBtc (botCurrentState xb) = []"
    using assms by (auto simp: NewExchangeBot_def Let_def split: option.splits if_splits)
  then show ?thesis by (simp add: chartInv_def versionsOK_def tokensOK_def chartsOK_def dcrState_def sticksAt_def depthAt_def)
qed

lemma fetch_keeps: "chartInv enc xb P \<Longrightarrow> fetchFromCache i xb = (data, v) \<Longrightarrow> chartInv enc xb (insert (i, v) P)"
  by (auto simp: chartInv_def versionsOK_def fetchFromCache_def Let_def)

lemma botReach_inv: "botReach E enc xb P \<Longrightarrow> chartInv enc xb P"
proof (induction rule: botReach.induct)
  case (start pd con cfg xb)
  then show ?case by (rule start_inv)
next
  case (index xb P now indices xb')
  then show ?case using index_frame chartFrame_keeps by blast
next
  case (converted xb P now code r xb')
  then show ?case using ConvertedState_frame chartFrame_keeps by blast
qed (auto intro: chartFrame_keeps[OF frame_simple(3)] chartFrame_keeps[OF frame_simple(4)] exchange_keeps fetch_keeps
      encodeSticks_keeps encodeDepth_keeps)

text \<open>The two sources of an answer: the cache, and an encoding of the current state.\<close>

lemma QuickSticks_cases:
  assumes "fst (QuickSticks enc t b xb) = Inr data" and "sticksAt xb t b = Some s"
  shows "currentChart xb (genCacheID [t, b]) = Some data \<or> encodesSticks enc xb b s data"
proof (cases "fetchFromCache (genCacheID [t, b]) xb")
  case (Pair cached v)
  then show ?thesis using assms
    by (cases cached) (fastforce simp: QuickSticks_def currentChart_def encodeSticks_def sticksAt_def dcrState_def sticksOf_def
        encodesSticks_def split: option.splits if_splits)+
qed

lemma QuickDepth_cases:
  assumes "fst (QuickDepth E enc now t xb) = Inr data" and "depthAt xb t = Some d"
  shows "currentChart xb (genCacheID [t, orderbookKey]) = Some data \<or> t = aggregatedOrderbookKey \<or> encodesDepth enc xb d data"
proof (cases "t = aggregatedOrderbookKey")
  case False
  obtain cached v where f: "fetchFromCache (genCacheID [t, orderbookKey]) xb = (cached, v)" by force
  show ?thesis
  proof (cases cached)
    case None
    obtain st where st: "dcrState xb t = Some st" "xsDepth st = Some d" using assms(2) by (auto simp: depthAt_def split: option.splits)
    then show ?thesis using assms(1) False None f
      by (auto simp: QuickDepth_def encodeDepth_def dcrState_def encodesDepth_def split: option.splits)
  next
    case (Some chart)
    then show ?thesis using assms(1) f by (simp add: QuickDepth_def currentChart_def)
  qed
qed simp

text \<open>C38: the cached charts of an exchange are those of the data the bot has of it, as long as it has any. In every run,
  with readers interleaved between their look at the cache and their encoding of a chart: if the current state of
  the exchange has sticks for the bin, what \<open>QuickSticks\<close> returns encodes these sticks, and if it has an order book,
  what \<open>QuickDepth\<close> returns for the exchange encodes this book, from the cache or not; only the price in it can be an older
  one. No cached chart has a version above the current one. (Nothing is said of an exchange that was dropped, or whose
  last update had no such data: its last chart stays in the cache and is handed out.)\<close>

theorem cached_charts_current:
  assumes "botReach E enc xb P"
  shows "(fst (QuickSticks enc token bin xb) = Inr data \<longrightarrow> sticksAt xb token bin = Some s \<longrightarrow>
      (\<exists>price. enc (ESticks \<lparr>crBtcIndex = botBtcIndex xb, crPrice = price, crSticks = s,
        crExpiration = (csStart (last s) + 2 * stickDuration bin) div second\<rparr>) = Some data)) \<and>
    (fst (QuickDepth E enc now token xb) = Inr data \<longrightarrow> depthAt xb token = Some d \<longrightarrow>
      (\<exists>price. enc (EDepth \<lparr>drBtcIndex = botBtcIndex xb, drPrice = price, drData = d,
        drExpiration = ddTime d + botRequestExpiry xb div second\<rparr>) = Some data)) \<and>
    (map_of (botVersionedCharts xb) i = Some c \<longrightarrow> vcDataID c \<le> cachedChartVersion i xb)"
proof -
  note inv = botReach_inv[OF assms]
  have charts: "chartsOK enc xb" and tok: "tokensOK xb" and ver: "versionsOK xb P" using inv by (simp_all add: chartInv_def)
  have "encodesSticks enc xb bin s data" if h: "fst (QuickSticks enc token bin xb) = Inr data" "sticksAt xb token bin = Some s"
    using QuickSticks_cases[OF h] charts h(2) by (auto simp: chartsOK_def)
  moreover have "encodesDepth enc xb d data" if h: "fst (QuickDepth E enc now token xb) = Inr data" "depthAt xb token = Some d"
    using QuickDepth_cases[OF h] charts tok h(2) by (auto simp: chartsOK_def aggregated_unknown)
  moreover have "vcDataID c \<le> cachedChartVersion i xb" if "map_of (botVersionedCharts xb) i = Some c"
    using ver that by (simp add: versionsOK_def)
  ultimately show ?thesis by (simp add: encodesSticks_def encodesDepth_def)
qed

text \<open>An update that brings neither sticks nor an order book leaves the cached charts of the exchange current, so that they
  are handed out although the state has no such data any more.\<close>

lemma outdated_chart_stays:
  assumes "updateExchange E enc now (token, st) xb = Ret (ok, xb')" and "xsCandlesticks st = None" "xsDepth st = None"
    and "currentChart xb (genCacheID [token, orderbookKey]) = Some data"
  shows "fst (QuickDepth E enc now token xb') = Inr data"
proof -
  have f: "chartFrame (recordUpdate (token, st) xb) xb'"
    using assms(1) updateState_frame by (fastforce simp: updateExchange_def recordUpdate_def Let_def)
  have "chartsOf token st = []" using assms(2,3) by (simp add: chartsOf_def)
  then have "botChartVersions (recordUpdate (token, st) xb) = botChartVersions xb"
    "botVersionedCharts (recordUpdate (token, st) xb) = botVersionedCharts xb"
    by (simp_all add: recordUpdate_def)
  then have "fetchFromCache i xb' = fetchFromCache i xb" for i
    using f by (simp add: fetchFromCache_def cachedChartVersion_def chartFrame_def)
  then show ?thesis using assms(4) by (auto simp: QuickDepth_def currentChart_def split: prod.splits)
qed

text \<open>A run: an update of Binance with one stick, a reader that encodes the chart, and one that takes it from the cache.\<close>

definition exStick :: "real Candlestick" where
  "exStick = \<lparr>csHigh = 1, csLow = 1, csOpen = 1, csClose = 1, csVolume = 1, csStart = 5\<rparr>"

definition exTick :: "real ExchangeUpdate" where
  "exTick = (''binance'', newState\<lparr>xsCandlesticks := Some [(''1h'', [exStick])]\<rparr>)"

definition exEnc :: "real encodable \<Rightarrow> nat option" where
  "exEnc e = (case e of ESticks r \<Rightarrow> Some (length (crSticks r)) | _ \<Rightarrow> Some 0)"

definition exBot0 :: "(real, nat) ExchangeBot" where
  "exBot0 = \<lparr>botExchanges = [(''coinbase'', \<lparr>etLastUpdate = 0, etLastTry = 0\<rparr>), (''binance'', \<lparr>etLastUpdate = 0, etLastTry = 0\<rparr>)],
     botVersionedCharts = [], botChartVersions = [], botBtcIndex = ''USD'', botIndexMap = [],
     botCurrentState = \<lparr>ebBtcIndex = ''USD'', ebBtcPrice = 0, ebPrice = 0, ebVolume = 0, ebDcrBtc = [], ebFiatIndices = []\<rparr>,
     botStateCopy = None, botStateBytes = None, botDataExpiry = 20 * minute, botRequestExpiry = 20 * minute, botFailed = False,
     botUpdateChans = [], botIndexChans = []\<rparr>"

lemma exBot0_new: "NewExchangeBot (\<lambda>s. Some (20 * minute))
    (\<lambda>t. if t \<in> {''binance'', ''coinbase''} then Some \<lparr>etLastUpdate = 0, etLastTry = 0\<rparr> else None)
    \<lparr>cfDisabled = [], cfDataExpiry = [], cfRequestExpiry = [], cfBtcIndex = []\<rparr> = Inr exBot0"
  by (simp add: NewExchangeBot_def buildExchanges_def BtcIndices_def DcrExchanges_def exBot0_def minute_def second_def Let_def)

definition exUpdated :: "(real, nat) ExchangeBot" where
  "exUpdated = (case onExchangeUpdate exReal exEnc 0 exTick exBot0 of Ret xb \<Rightarrow> xb)"

definition exCached :: "(real, nat) ExchangeBot" where
  "exCached = snd (encodeSticks exEnc ''binance'' ''1h'' 0 exUpdated)"

lemmas exRun = exUpdated_def exCached_def exTick_def exBot0_def onExchangeUpdate_def updateExchange_def updateState_def
  processState_def exReal_def exEnc_def chartsOf_def newState_def incrementChart_def signalExchangeUpdate_def
  minute_def second_def genCacheID_def Let_def

lemma exUpdated_run: "onExchangeUpdate exReal exEnc 0 exTick exBot0 = Ret exUpdated"
  by (simp add: exRun)

lemma exUpdated_fetch: "fetchFromCache (genCacheID [''binance'', ''1h'']) exUpdated = (None, 0)"
  by (simp add: exRun fetchFromCache_def cachedChartVersion_def)

lemma exCached_reach: "botReach exReal exEnc exCached {(genCacheID [''binance'', ''1h''], 0)}"
proof -
  have "botReach exReal exEnc exUpdated {}"
    by (rule botReach.exchange[OF botReach.start[OF exBot0_new] _ exUpdated_run])
      (simp add: validUpdate_def exTick_def IsDcrExchange_def DcrExchanges_def hourKey_def)
  then have "botReach exReal exEnc exUpdated {(genCacheID [''binance'', ''1h''], 0)}"
    using botReach.fetch exUpdated_fetch by fastforce
  then show ?thesis unfolding exCached_def by (rule botReach.sticks) (auto intro: prod.collapse[symmetric])
qed

lemma exCached_fetch: "fetchFromCache (genCacheID [''binance'', ''1h'']) exCached = (Some 1, 0)"
  by (simp add: exRun fetchFromCache_def cachedChartVersion_def encodeSticks_def storeChart_def)

theorem cached_charts_current_witness:
  "\<exists>price. exEnc (ESticks \<lparr>crBtcIndex = botBtcIndex exCached, crPrice = price, crSticks = [exStick],
     crExpiration = (csStart (last [exStick]) + 2 * stickDuration ''1h'') div second\<rparr>) = Some 1"
proof -
  have "fst (QuickSticks exEnc ''binance'' ''1h'' exCached) = Inr 1" by (simp add: QuickSticks_def exCached_fetch)
  moreover have "sticksAt exCached ''binance'' ''1h'' = Some [exStick]"
    by (simp add: exRun encodeSticks_def storeChart_def sticksAt_def dcrState_def sticksOf_def)
  ultimately show ?thesis
    using cached_charts_current[OF exCached_reach, of "''binance''" "''1h''" 1 "[exStick]"] by blast
qed

end
