(* ===== verification/ExchangeDepth.thy ===== *)
theory ExchangeDepth
  imports ExchangeBot
begin

text \<open>
  The order book that the exchange bot aggregates over its exchanges (\<open>aggOrderbook\<close> in \<open>exchanges/bot.go\<close>):
  the price levels of all exchanges, each with the volume of every exchange at it.
\<close>

subsection \<open>The aggregated order book\<close>

text \<open>The quantity of the last point with a key, if there is one.\<close>

definition quantityAt :: "'f::times floatEnv \<Rightarrow> int \<Rightarrow> 'f DepthPoint list \<Rightarrow> 'f option" where
  "quantityAt E k pts = map_option dpQuantity (find (\<lambda>pt. eightPtKey E (dpPrice pt) = k) (rev pts))"

lemma find_append: "find P (xs @ ys) = (case find P xs of Some x \<Rightarrow> Some x | None \<Rightarrow> find P ys)"
  by (induction xs) auto

lemma quantityAt_Nil [simp]: "quantityAt E k [] = None"
  by (simp add: quantityAt_def)

lemma quantityAt_snoc [simp]:
  "quantityAt E k (pts @ [pt]) = (if eightPtKey E (dpPrice pt) = k then Some (dpQuantity pt) else quantityAt E k pts)"
  by (simp add: quantityAt_def)

text \<open>One side of the loop, the volume of an exchange at a key, and the invariant of the map.\<close>

fun aggSide :: "('f DepthData \<Rightarrow> 'f DepthPoint list) \<Rightarrow> 'f::{times,zero} floatEnv \<Rightarrow> nat \<Rightarrow> nat \<Rightarrow> 'f DepthData list
    \<Rightarrow> (int \<times> 'f agBookPt) list \<Rightarrow> (int \<times> 'f agBookPt) list" where
  "aggSide side E i n [] book = book"
| "aggSide side E i n (d # ds) book = aggSide side E (i + 1) n ds (mapifyDepthPoints E (side d) i n book)"

lemma aggLoop_sides: "aggLoop E i n ds bids asks = (aggSide ddBids E i n ds bids, aggSide ddAsks E i n ds asks)"
  by (induction ds arbitrary: i bids asks) auto

definition aggVolume :: "(int \<times> 'f::zero agBookPt) list \<Rightarrow> int \<Rightarrow> nat \<Rightarrow> 'f" where
  "aggVolume book k j = (case map_of book k of None \<Rightarrow> 0 | Some b \<Rightarrow> agVolumes b ! j)"

definition aggOK :: "'f::times floatEnv \<Rightarrow> nat \<Rightarrow> (int \<times> 'f agBookPt) list \<Rightarrow> bool" where
  "aggOK E n book \<longleftrightarrow> distinct (map fst book) \<and>
     (\<forall>k b. map_of book k = Some b \<longrightarrow> eightPtKey E (agPrice b) = k \<and> length (agVolumes b) = n)"

lemma mapify_snoc: "mapifyDepthPoints E (pts @ [pt]) i n book = mapifyDepthPoints E [pt] i n (mapifyDepthPoints E pts i n book)"
  by (simp add: mapifyDepthPoints_def)

lemma mapify_Nil [simp]: "mapifyDepthPoints E [] i n book = book"
  by (simp add: mapifyDepthPoints_def)

lemma mapify_one:
  assumes "aggOK E n book"
  shows "aggOK E n (mapifyDepthPoints E [pt] i n book)"
    and "set (map fst (mapifyDepthPoints E [pt] i n book)) = insert (eightPtKey E (dpPrice pt)) (set (map fst book))"
    and "i < n \<Longrightarrow> j < n \<Longrightarrow> aggVolume (mapifyDepthPoints E [pt] i n book) k j =
      (if j = i \<and> k = eightPtKey E (dpPrice pt) then dpQuantity pt else aggVolume book k j)"
  using assms
  by (auto simp: mapifyDepthPoints_def aggOK_def aggVolume_def Let_def update_conv' distinct_update dom_update nth_list_update
      split: option.splits)

lemma mapify_all:
  assumes "aggOK E n book"
  shows "aggOK E n (mapifyDepthPoints E pts i n book) \<and>
    set (map fst (mapifyDepthPoints E pts i n book)) = set (map fst book) \<union> (eightPtKey E \<circ> dpPrice) ` set pts \<and>
    (i < n \<longrightarrow> j < n \<longrightarrow> aggVolume (mapifyDepthPoints E pts i n book) k j =
      (if j = i then (case quantityAt E k pts of Some q \<Rightarrow> q | None \<Rightarrow> aggVolume book k j) else aggVolume book k j))"
proof (induction pts rule: rev_induct)
  case (snoc pt pts)
  have "aggOK E n (mapifyDepthPoints E pts i n book)" using snoc by blast
  note one = mapify_one[OF this, where pt = pt and i = i]
  show ?case unfolding mapify_snoc[of E pts pt] using snoc one(1,2) one(3)[of j k] by (auto simp: comp_def)
qed (use assms in simp)

lemma aggSide_all:
  assumes "aggOK E n book" and "i + length ds \<le> n"
  shows "aggOK E n (aggSide side E i n ds book) \<and>
    set (map fst (aggSide side E i n ds book)) = set (map fst book) \<union> (\<Union>d\<in>set ds. (eightPtKey E \<circ> dpPrice) ` set (side d)) \<and>
    (j < n \<longrightarrow> aggVolume (aggSide side E i n ds book) k j =
      (if i \<le> j \<and> j < i + length ds then (case quantityAt E k (side (ds ! (j - i))) of Some q \<Rightarrow> q | None \<Rightarrow> aggVolume book k j)
       else aggVolume book k j))"
  using assms
proof (induction ds arbitrary: i book)
  case (Cons d ds)
  note m = mapify_all[OF Cons.prems(1), of "side d" i]
  have "aggOK E n (mapifyDepthPoints E (side d) i n book)" using m by blast
  note ih = Cons.IH[OF this, of "i + 1"]
  have v: "aggVolume (mapifyDepthPoints E (side d) i n book) k j =
      (if j = i then (case quantityAt E k (side d) of Some q \<Rightarrow> q | None \<Rightarrow> aggVolume book k j) else aggVolume book k j)" if "j < n"
    using m[of j k] that Cons.prems(2) by simp
  have nth: "(d # ds) ! (j - i) = (if j = i then d else ds ! (j - (i + 1)))" if "i \<le> j"
    using that by (auto simp: nth_Cons split: nat.split) (metis Suc_diff_Suc diff_is_0_eq le_antisym less_le_not_le diff_Suc_1 diff_Suc_eq_diff_pred)
  have vol: "j < n \<longrightarrow> aggVolume (aggSide side E i n (d # ds) book) k j =
      (if i \<le> j \<and> j < i + length (d # ds)
       then (case quantityAt E k (side ((d # ds) ! (j - i))) of Some q \<Rightarrow> q | None \<Rightarrow> aggVolume book k j) else aggVolume book k j)"
  proof (cases "j < n")
    case True
    show ?thesis using ih Cons.prems(2) v[OF True] nth by (auto split: option.split)
  qed simp
  have "aggOK E n (aggSide side E i n (d # ds) book)" using ih Cons.prems(2) by simp
  moreover have "set (map fst (aggSide side E i n (d # ds) book)) =
      set (map fst book) \<union> (\<Union>d\<in>set (d # ds). (eightPtKey E \<circ> dpPrice) ` set (side d))"
    using ih Cons.prems(2) m by (auto simp: comp_def)
  ultimately show ?case using vol by blast
qed auto

lemma aggVolume_Nil [simp]: "aggVolume [] k j = 0"
  by (simp add: aggVolume_def)

lemma aggSide_book:
  fixes ds :: "'f::{times,zero} DepthData list" and E side
  defines "book \<equiv> aggSide side E 0 (length ds) ds []"
  shows "distinct (map fst book)"
    and "set (map fst book) = (\<Union>d\<in>set ds. (eightPtKey E \<circ> dpPrice) ` set (side d))"
    and "map_of book k = Some b \<Longrightarrow> eightPtKey E (agPrice b) = k \<and> agVolumes b =
      map (\<lambda>d. case quantityAt E k (side d) of Some q \<Rightarrow> q | None \<Rightarrow> 0) ds"
proof -
  have e: "aggOK E (length ds) []" by (simp add: aggOK_def)
  note all = aggSide_all[OF e, of 0 ds side, simplified, folded book_def]
  show "distinct (map fst book)" and "set (map fst book) = (\<Union>d\<in>set ds. (eightPtKey E \<circ> dpPrice) ` set (side d))"
    using all by (auto simp: aggOK_def)
  show "eightPtKey E (agPrice b) = k \<and> agVolumes b = map (\<lambda>d. case quantityAt E k (side d) of Some q \<Rightarrow> q | None \<Rightarrow> 0) ds"
    if b: "map_of book k = Some b"
  proof -
    have "eightPtKey E (agPrice b) = k" "length (agVolumes b) = length ds" using all b by (auto simp: aggOK_def)
    moreover have "agVolumes b ! j = (case quantityAt E k (side (ds ! j)) of Some q \<Rightarrow> q | None \<Rightarrow> 0)" if "j < length ds" for j
      using all[of j k] that b by (simp add: aggVolume_def split: option.split)
    ultimately show ?thesis by (auto intro!: nth_equalityI)
  qed
qed

text \<open>The sides of the order book that is made of a map.\<close>

lemma unmapAgOrders_spec:
  assumes d: "distinct (map fst book)" and k: "\<And>k b. map_of book k = Some b \<Longrightarrow> key b = k"
  shows "sorted_wrt (if reverse then (>) else (<)) (map key (unmapAgOrders book reverse))"
    and "set (unmapAgOrders book reverse) = snd ` set book"
proof -
  let ?ks = "if reverse then rev (sort (map fst book)) else sort (map fst book)"
  have u: "unmapAgOrders book reverse = map (\<lambda>k. the (map_of book k)) ?ks" by (simp add: unmapAgOrders_def Let_def)
  have the: "map_of book x = Some (the (map_of book x))" if "x \<in> set (map fst book)" for x
    using that d by (auto simp: map_of_eq_Some_iff)
  have "map key (unmapAgOrders book reverse) = map (\<lambda>x. x) ?ks" unfolding u map_map
    by (rule map_cong[OF refl]) (use the k in \<open>fastforce split: if_splits\<close>)
  moreover have "sorted_wrt (<) (sort (map fst book))" using d by (simp add: strict_sorted_iff)
  ultimately show "sorted_wrt (if reverse then (>) else (<)) (map key (unmapAgOrders book reverse))"
    by (simp add: sorted_wrt_rev)
  have "set (unmapAgOrders book reverse) = (\<lambda>x. the (map_of book x)) ` fst ` set book" by (auto simp: u)
  also have "\<dots> = snd ` set book" unfolding image_image
    by (rule image_cong[OF refl]) (use d in \<open>auto simp: map_of_is_SomeI\<close>)
  finally show "set (unmapAgOrders book reverse) = snd ` set book" .
qed

text \<open>The order books of the exchanges, in the order of the tokens.\<close>

definition booksOf :: "'f ExchangeBotState \<Rightarrow> string list \<Rightarrow> 'f DepthData list" where
  "booksOf state tokens = map (\<lambda>token. the (xsDepth (the (map_of (ebDcrBtc state) token)))) tokens"

definition sideOK :: "'f::{times,zero} floatEnv \<Rightarrow> ('f DepthData \<Rightarrow> 'f DepthPoint list) \<Rightarrow> 'f DepthData list \<Rightarrow> 'f agBookPt list \<Rightarrow> bool" where
  "sideOK E side ds pts \<longleftrightarrow>
     (eightPtKey E \<circ> agPrice) ` set pts = (\<Union>d\<in>set ds. (eightPtKey E \<circ> dpPrice) ` set (side d)) \<and>
     (\<forall>pt\<in>set pts. agVolumes pt = map (\<lambda>d. case quantityAt E (eightPtKey E (agPrice pt)) (side d) of Some q \<Rightarrow> q | None \<Rightarrow> 0) ds)"

lemma aggSide_sideOK:
  fixes ds :: "'f::{times,zero} DepthData list" and E side
  defines "book \<equiv> aggSide side E 0 (length ds) ds []"
  shows "sideOK E side ds (unmapAgOrders book reverse)"
    and "sorted_wrt (if reverse then (>) else (<)) (map (eightPtKey E \<circ> agPrice) (unmapAgOrders book reverse))"
proof -
  note book = aggSide_book[of side E ds, folded book_def]
  have key: "map_of book k = Some b \<Longrightarrow> (eightPtKey E \<circ> agPrice) b = k" for k b using book(3) by simp
  note un = unmapAgOrders_spec[where key = "eightPtKey E \<circ> agPrice" and reverse = reverse, OF book(1) key]
  show "sorted_wrt (if reverse then (>) else (<)) (map (eightPtKey E \<circ> agPrice) (unmapAgOrders book reverse))" by (rule un(1))
  have pt: "eightPtKey E (agPrice b) = k \<and> agVolumes b = map (\<lambda>d. case quantityAt E k (side d) of Some q \<Rightarrow> q | None \<Rightarrow> 0) ds"
    if "(k, b) \<in> set book" for k b using that book(1,3) by simp
  have "(eightPtKey E \<circ> agPrice) ` set (unmapAgOrders book reverse) = set (map fst book)"
    by (simp only: un(2) set_map image_image) (rule image_cong[OF refl], use pt in auto)
  moreover have "agVolumes b = map (\<lambda>d. case quantityAt E (eightPtKey E (agPrice b)) (side d) of Some q \<Rightarrow> q | None \<Rightarrow> 0) ds"
    if "b \<in> set (unmapAgOrders book reverse)" for b
  proof -
    have "b \<in> snd ` set book" using that un(2) by simp
    then obtain k where "(k, b) \<in> set book" by force
    then show ?thesis using pt[of k b] by simp
  qed
  ultimately show "sideOK E side ds (unmapAgOrders book reverse)" unfolding sideOK_def book(2)[symmetric] by blast
qed

text \<open>C40: the aggregated order book holds, on each side, exactly the prices that occur in the order books of the
  exchanges with depth data (prices are told apart at eight decimals), once each, bids from the highest, asks from the
  lowest. Each has one volume per exchange, in the alphabetical order of the tokens: the quantity of the exchange's last
  point at that price, or zero where the exchange has none.\<close>

theorem aggregate_book:
  assumes "botStateCopy xb = Some state" and "aggOrderbook E now xb = Some ob"
  shows "aoTokens ob = sort (map fst (filter (\<lambda>(token, st). HasDepth st) (ebDcrBtc state))) \<and>
    sideOK E ddBids (booksOf state (aoTokens ob)) (aoBids ob) \<and> sideOK E ddAsks (booksOf state (aoTokens ob)) (aoAsks ob) \<and>
    sorted_wrt (>) (map (eightPtKey E \<circ> agPrice) (aoBids ob)) \<and> sorted_wrt (<) (map (eightPtKey E \<circ> agPrice) (aoAsks ob))"
proof -
  define tokens where "tokens = sort (map fst (filter (\<lambda>(token, st). HasDepth st) (ebDcrBtc state)))"
  define ds where "ds = booksOf state tokens"
  have l: "length tokens = length ds" by (simp add: ds_def booksOf_def)
  have "aoTokens ob = tokens \<and> aoBids ob = unmapAgOrders (aggSide ddBids E 0 (length ds) ds []) True \<and>
      aoAsks ob = unmapAgOrders (aggSide ddAsks E 0 (length ds) ds []) False"
    using assms by (auto simp: aggOrderbook_def aggLoop_sides Let_def tokens_def[symmetric] booksOf_def[symmetric] ds_def[symmetric] l)
  then show ?thesis
    using aggSide_sideOK[where E = E and side = ddBids and ds = ds and reverse = True]
      aggSide_sideOK[where E = E and side = ddAsks and ds = ds and reverse = False] by (simp add: tokens_def[symmetric] ds_def)
qed

text \<open>Two exchanges that share a bid; the second lists a price twice.\<close>

definition exDeep :: "int DepthPoint list \<Rightarrow> int DepthPoint list \<Rightarrow> int ExchangeState" where
  "exDeep bids asks = newState\<lparr>xsDepth := Some \<lparr>ddTime = 7, ddBids = bids, ddAsks = asks\<rparr>\<rparr>"

definition exPt :: "int \<Rightarrow> int \<Rightarrow> int DepthPoint" where
  "exPt quantity price = \<lparr>dpQuantity = quantity, dpPrice = price\<rparr>"

definition exDepthState :: "int ExchangeBotState" where
  "exDepthState = \<lparr>ebBtcIndex = ''USD'', ebBtcPrice = 1, ebPrice = 1, ebVolume = 1,
     ebDcrBtc = [(''huobi'', exDeep [exPt 5 3, exPt 6 2, exPt 8 2] [exPt 1 4]), (''dragonex'', newState),
       (''binance'', exDeep [exPt 7 3] [exPt 2 5])], ebFiatIndices = []\<rparr>"

definition exDeepBot :: "(int, string) ExchangeBot" where
  "exDeepBot = \<lparr>botExchanges = [], botVersionedCharts = [], botChartVersions = [], botBtcIndex = ''USD'', botIndexMap = [],
     botCurrentState = exDepthState, botStateCopy = Some exDepthState, botStateBytes = None, botDataExpiry = 20 * minute,
     botRequestExpiry = 60 * minute, botFailed = False, botUpdateChans = [], botIndexChans = []\<rparr>"

lemma exDeepBot_book: "aggOrderbook exFloats 0 exDeepBot = Some
  \<lparr>aoBtcIndex = ''USD'', aoPrice = 1, aoTokens = [''binance'', ''huobi''], aoUpdateTimes = [7, 7], aoTime = 7,
   aoBids = [\<lparr>agPrice = 3, agVolumes = [7, 5]\<rparr>, \<lparr>agPrice = 2, agVolumes = [0, 8]\<rparr>],
   aoAsks = [\<lparr>agPrice = 4, agVolumes = [0, 1]\<rparr>, \<lparr>agPrice = 5, agVolumes = [2, 0]\<rparr>], aoExpiration = 3600\<rparr>"
  by (simp add: aggOrderbook_def exDeepBot_def exDepthState_def exDeep_def exPt_def newState_def HasDepth_def mapifyDepthPoints_def
      unmapAgOrders_def eightPtKey_def exFloats_def Let_def minute_def second_def)

theorem aggregate_book_witness:
  "sideOK exFloats ddBids (booksOf exDepthState [''binance'', ''huobi''])
     [\<lparr>agPrice = 3, agVolumes = [7, 5]\<rparr>, \<lparr>agPrice = 2, agVolumes = [0, 8]\<rparr>]"
proof -
  have "botStateCopy exDeepBot = Some exDepthState" by (simp add: exDeepBot_def)
  from aggregate_book[OF this exDeepBot_book] show ?thesis by (elim conjE) (simp only: aggregateOrderbook.select_convs)
qed

end
