(* ===== verification/PgTables.thy ===== *)
theory PgTables
  imports Prelude
begin

text \<open>
  The tables of the PostgreSQL backend (\<open>db/dcrpg/internal/*.go\<close>), and the SQL statements that the
  reorganization and rewind code runs on them.

  A table is the list of its rows, a row a record of the columns (the columns that no statement of the
  model reads are left out: the \<open>FLOAT8\<close> amounts, scripts' request counts and the like). A statement is
  written out over the rows: \<open>UPDATE ... SET ... WHERE\<close> is \<open>updateWhere\<close>, \<open>DELETE ... WHERE\<close> is
  \<open>deleteWhere\<close>, \<open>SELECT ... WHERE\<close> is \<open>filter\<close>, a sub-query is the list of its results, and
  \<open>RowsAffected\<close> is \<open>countWhere\<close>. Where SQL leaves the order of a result open it is the order of the
  table. A statement does not fail in itself (the connection, the timeouts and the constraints of the
  schema are not modelled); what the code makes of an empty or unexpected result is.

  Row ids are natural numbers, heights, times and amounts integers, and hashes the strings that the
  text columns hold.
\<close>

subsection \<open>Statements over a table\<close>

definition updateWhere :: "('r \<Rightarrow> bool) \<Rightarrow> ('r \<Rightarrow> 'r) \<Rightarrow> 'r list \<Rightarrow> 'r list" where
  "updateWhere P f rows = map (\<lambda>r. if P r then f r else r) rows"

definition deleteWhere :: "('r \<Rightarrow> bool) \<Rightarrow> 'r list \<Rightarrow> 'r list" where
  "deleteWhere P rows = filter (\<lambda>r. \<not> P r) rows"

definition countWhere :: "('r \<Rightarrow> bool) \<Rightarrow> 'r list \<Rightarrow> nat" where
  "countWhere P rows = length (filter P rows)"

text \<open>\<open>QueryRow(...).Scan\<close>: the first row of the result, \<open>None\<close> being \<open>sql.ErrNoRows\<close>.\<close>

definition queryRow :: "'r list \<Rightarrow> 'r option" where
  "queryRow rows = (case rows of [] \<Rightarrow> None | r # _ \<Rightarrow> Some r)"

text \<open>\<open>ORDER BY key DESC LIMIT 1\<close>: the first of the rows whose key is greatest.\<close>

fun topRow :: "('r \<Rightarrow> int) \<Rightarrow> 'r list \<Rightarrow> 'r option" where
  "topRow key [] = None"
| "topRow key (r # rs) =
     (case topRow key rs of None \<Rightarrow> Some r | Some m \<Rightarrow> Some (if key r < key m then m else r))"

lemma set_updateWhere:
  "r \<in> set (updateWhere P f rows) \<longleftrightarrow> (\<exists>q\<in>set rows. r = (if P q then f q else q))"
  by (auto simp: updateWhere_def)

lemma updateWhereE:
  assumes "r \<in> set (updateWhere P f rows)"
  obtains "r \<in> set rows" "\<not> P r" | q where "q \<in> set rows" "P q" "r = f q"
  using assms by (auto simp: updateWhere_def split: if_splits)

lemma updateWhere_Nil [simp]: "updateWhere P f [] = []"
  by (simp add: updateWhere_def)

lemma updateWhere_False [simp]: "updateWhere (\<lambda>_. False) f rows = rows"
  by (simp add: updateWhere_def)

lemma length_updateWhere [simp]: "length (updateWhere P f rows) = length rows"
  by (simp add: updateWhere_def)

lemma set_deleteWhere [simp]: "set (deleteWhere P rows) = {r \<in> set rows. \<not> P r}"
  by (simp add: deleteWhere_def)

lemma deleteWhere_deleteWhere: "deleteWhere P (deleteWhere Q rows) = deleteWhere (\<lambda>r. P r \<or> Q r) rows"
  by (auto simp: deleteWhere_def intro: filter_cong)

lemma updateWhere_cong: "(\<And>r. r \<in> set rows \<Longrightarrow> P r = Q r) \<Longrightarrow> updateWhere P f rows = updateWhere Q f rows"
  by (simp add: updateWhere_def)

lemma map_updateWhere:
  "(\<And>r. g (f r) = g r) \<Longrightarrow> map g (updateWhere P f rows) = map g rows"
  by (simp add: updateWhere_def)

lemma queryRow_None: "queryRow rows = None \<longleftrightarrow> rows = []"
  by (simp add: queryRow_def split: list.splits)

lemma topRow_None: "topRow key rows = None \<longleftrightarrow> rows = []"
  by (cases rows) (auto split: option.splits)

lemma topRow_Some:
  "topRow key rows = Some m \<Longrightarrow> m \<in> set rows \<and> (\<forall>r\<in>set rows. key r \<le> key m)"
  by (induction rows arbitrary: m) (force split: option.splits if_splits simp: topRow_None)+

text \<open>
  An update that writes constants into a row is idempotent, so updates of the same kind over several
  predicates are one update over their disjunction. The locale states that contract once; the tables
  below provide the updates.
\<close>

locale row_update =
  fixes f :: "'r \<Rightarrow> 'r"
  assumes idem: "f (f r) = f r"
begin

lemma twice: "updateWhere P f (updateWhere Q f rows) = updateWhere (\<lambda>r. P r \<or> Q r) f rows"
  by (simp add: updateWhere_def idem)

end

text \<open>A table whose rows belong to a block and carry a chain flag.\<close>

locale block_rows = row_update f for f :: "'r \<Rightarrow> 'r" +
  fixes blk :: "'r \<Rightarrow> string" and flag :: "'r \<Rightarrow> bool" and b :: bool
  assumes blk_f: "blk (f r) = blk r" and flag_f: "flag (f r) = b"
begin

lemma flagged:
  "r \<in> set (updateWhere (\<lambda>r. blk r \<in> H) f rows) \<Longrightarrow> blk r \<in> H \<Longrightarrow> flag r = b"
  by (auto simp: updateWhere_def flag_f blk_f split: if_splits)

lemma untouched:
  "blk r \<notin> H \<Longrightarrow> r \<in> set (updateWhere (\<lambda>r. blk r \<in> H) f rows) \<longleftrightarrow> r \<in> set rows"
  by (auto simp: updateWhere_def blk_f split: if_splits)

end

subsection \<open>The tables\<close>

record BlocksRow =
  blk_id :: nat
  blk_hash :: string
  blk_height :: int
  blk_size :: int
  blk_is_valid :: bool
  blk_is_mainchain :: bool
  blk_time :: int
  blk_voters :: int
  blk_sbits :: int
  blk_txDbIDs :: "nat list"
  blk_stxDbIDs :: "nat list"
  blk_previous_hash :: string
  blk_chainwork :: string
  blk_winners :: "string list"

record BlockChainRow =
  bc_block_db_id :: nat
  bc_prev_hash :: string
  bc_this_hash :: string
  bc_next_hash :: string

record TransactionsRow =
  tx_id :: nat
  tx_block_hash :: string
  tx_block_height :: int
  tx_block_time :: int
  tx_tx_type :: int
  tx_tree :: int
  tx_tx_hash :: string
  tx_block_index :: int
  tx_fees :: int
  tx_mix_count :: int
  tx_mix_denom :: int
  tx_vin_db_ids :: "nat list"
  tx_vout_db_ids :: "nat list"
  tx_is_valid :: bool
  tx_is_mainchain :: bool

record VinsRow =
  vin_id :: nat
  vin_tx_hash :: string
  vin_tx_index :: int
  vin_tx_tree :: int
  vin_is_valid :: bool
  vin_is_mainchain :: bool
  vin_block_time :: int
  vin_prev_tx_hash :: string
  vin_prev_tx_index :: int
  vin_prev_tx_tree :: int
  vin_value_in :: int
  vin_tx_type :: int

record VoutsRow =
  vout_id :: nat
  vout_tx_hash :: string
  vout_tx_index :: int
  vout_tx_tree :: int
  vout_value :: int
  vout_version :: int
  vout_pkscript :: "8 word list"
  vout_script_type :: string
  vout_script_addresses :: "string list"
  vout_mixed :: bool
  vout_spend_tx_row_id :: "nat option"

record AddressesRow =
  addr_id :: nat
  addr_address :: string
  addr_tx_hash :: string
  addr_valid_mainchain :: bool
  addr_matching_tx_hash :: string
  addr_value :: int
  addr_block_time :: int
  addr_is_funding :: bool
  addr_tx_vin_vout_index :: int
  addr_tx_vin_vout_row_id :: nat
  addr_tx_type :: int

record TicketsRow =
  tkt_id :: nat
  tkt_tx_hash :: string
  tkt_block_hash :: string
  tkt_block_height :: int
  tkt_purchase_tx_db_id :: nat
  tkt_stakesubmission_address :: string
  tkt_is_multisig :: bool
  tkt_is_split :: bool
  tkt_num_inputs :: int
  tkt_spend_type :: int
  tkt_pool_status :: int
  tkt_is_mainchain :: bool
  tkt_spend_height :: "int option"
  tkt_spend_tx_db_id :: "nat option"

record VotesRow =
  vote_id :: nat
  vote_height :: int
  vote_tx_hash :: string
  vote_block_hash :: string
  vote_candidate_block_hash :: string
  vote_version :: int
  vote_vote_bits :: int
  vote_block_valid :: bool
  vote_ticket_hash :: string
  vote_ticket_tx_db_id :: nat
  vote_is_mainchain :: bool
  vote_block_time :: int

record MissesRow =
  miss_id :: nat
  miss_height :: int
  miss_block_hash :: string
  miss_candidate_block_hash :: string
  miss_ticket_hash :: string

record StatsRow =
  st_blocks_id :: nat
  st_height :: int
  st_pool_size :: int
  st_pool_val :: int

record MetaRow =
  meta_best_block_height :: int
  meta_best_block_hash :: string
  meta_ibd_complete :: bool

text \<open>The \<open>SERIAL\<close> counters that give the row ids.\<close>

record Serials =
  sq_blocks :: nat
  sq_transactions :: nat
  sq_vins :: nat
  sq_vouts :: nat
  sq_addresses :: nat
  sq_tickets :: nat
  sq_votes :: nat
  sq_misses :: nat

record PgDB =
  blocks :: "BlocksRow list"
  block_chain :: "BlockChainRow list"
  transactions :: "TransactionsRow list"
  vins :: "VinsRow list"
  vouts :: "VoutsRow list"
  addresses :: "AddressesRow list"
  tickets :: "TicketsRow list"
  votes :: "VotesRow list"
  misses :: "MissesRow list"
  stats :: "StatsRow list"
  meta :: "MetaRow list"
  serials :: Serials

subsection \<open>blocks and block_chain\<close>

definition RetrieveBestBlockHeight :: "PgDB \<Rightarrow> (int \<times> string \<times> nat) option" where
  "RetrieveBestBlockHeight db =
     map_option (\<lambda>r. (blk_height r, blk_hash r, blk_id r)) (topRow blk_height (filter blk_is_mainchain (blocks db)))"

definition RetrieveBestBlock :: "PgDB \<Rightarrow> int \<times> string" where
  "RetrieveBestBlock db =
     (case RetrieveBestBlockHeight db of Some (h, hash, _) \<Rightarrow> (h, hash) | None \<Rightarrow> (- 1, []))"

definition RetrieveBestBlockHeightAny :: "PgDB \<Rightarrow> (int \<times> string \<times> nat) option" where
  "RetrieveBestBlockHeightAny db =
     map_option (\<lambda>r. (blk_height r, blk_hash r, blk_id r)) (topRow blk_height (blocks db))"

definition RetrieveBlockHash :: "PgDB \<Rightarrow> int \<Rightarrow> string option" where
  "RetrieveBlockHash db idx =
     map_option blk_hash (queryRow (filter (\<lambda>r. blk_height r = idx \<and> blk_is_mainchain r) (blocks db)))"

definition RetrieveBlockHeight :: "PgDB \<Rightarrow> string \<Rightarrow> int option" where
  "RetrieveBlockHeight db hash = map_option blk_height (queryRow (filter (\<lambda>r. blk_hash r = hash) (blocks db)))"

definition RetrieveBlockFlags :: "PgDB \<Rightarrow> string \<Rightarrow> (bool \<times> bool) option" where
  "RetrieveBlockFlags db hash =
     map_option (\<lambda>r. (blk_is_valid r, blk_is_mainchain r)) (queryRow (filter (\<lambda>r. blk_hash r = hash) (blocks db)))"

definition RetrievePreviousHashByBlockHash :: "PgDB \<Rightarrow> string \<Rightarrow> string option" where
  "RetrievePreviousHashByBlockHash db hash =
     map_option blk_previous_hash (queryRow (filter (\<lambda>r. blk_hash r = hash) (blocks db)))"

definition RetrieveBlockChainDbID :: "PgDB \<Rightarrow> string \<Rightarrow> nat option" where
  "RetrieveBlockChainDbID db hash =
     map_option bc_block_db_id (queryRow (filter (\<lambda>r. bc_this_hash r = hash) (block_chain db)))"

text \<open>\<open>UPDATE blocks SET is_mainchain = $2 WHERE hash = $1 RETURNING previous_hash\<close>.\<close>

definition SetMainchainByBlockHash :: "PgDB \<Rightarrow> string \<Rightarrow> bool \<Rightarrow> PgDB \<times> string option" where
  "SetMainchainByBlockHash db hash isMainchain =
     (db\<lparr>blocks := updateWhere (\<lambda>r. blk_hash r = hash) (blk_is_mainchain_update (\<lambda>_. isMainchain)) (blocks db)\<rparr>,
      map_option blk_previous_hash (queryRow (filter (\<lambda>r. blk_hash r = hash) (blocks db))))"

text \<open>The three updates of \<open>next_hash\<close>: \<open>True\<close> when exactly one row was updated, else the error.\<close>

definition UpdateBlockNext :: "PgDB \<Rightarrow> nat \<Rightarrow> string \<Rightarrow> PgDB \<times> bool" where
  "UpdateBlockNext db blockDbID nxt =
     (db\<lparr>block_chain := updateWhere (\<lambda>r. bc_block_db_id r = blockDbID) (bc_next_hash_update (\<lambda>_. nxt)) (block_chain db)\<rparr>,
      countWhere (\<lambda>r. bc_block_db_id r = blockDbID) (block_chain db) = 1)"

definition UpdateBlockNextByHash :: "PgDB \<Rightarrow> string \<Rightarrow> string \<Rightarrow> PgDB \<times> bool" where
  "UpdateBlockNextByHash db this nxt =
     (db\<lparr>block_chain := updateWhere (\<lambda>r. bc_this_hash r = this) (bc_next_hash_update (\<lambda>_. nxt)) (block_chain db)\<rparr>,
      countWhere (\<lambda>r. bc_this_hash r = this) (block_chain db) = 1)"

definition UpdateBlockNextByNextHash :: "PgDB \<Rightarrow> string \<Rightarrow> string \<Rightarrow> PgDB \<times> bool" where
  "UpdateBlockNextByNextHash db currentNext newNext =
     (db\<lparr>block_chain := updateWhere (\<lambda>r. bc_next_hash r = currentNext) (bc_next_hash_update (\<lambda>_. newNext)) (block_chain db)\<rparr>,
      countWhere (\<lambda>r. bc_next_hash r = currentNext) (block_chain db) = 1)"

definition UpdateLastBlockValid :: "PgDB \<Rightarrow> nat \<Rightarrow> bool \<Rightarrow> PgDB \<times> bool" where
  "UpdateLastBlockValid db blockDbID isValid =
     (db\<lparr>blocks := updateWhere (\<lambda>r. blk_id r = blockDbID) (blk_is_valid_update (\<lambda>_. isValid)) (blocks db)\<rparr>,
      countWhere (\<lambda>r. blk_id r = blockDbID) (blocks db) = 1)"

subsection \<open>transactions, votes and tickets\<close>

text \<open>\<open>UPDATE transactions SET is_mainchain=$1 WHERE block_hash=$2 RETURNING id\<close>.\<close>

definition UpdateTransactionsMainchain :: "PgDB \<Rightarrow> string \<Rightarrow> bool \<Rightarrow> PgDB \<times> nat \<times> nat list" where
  "UpdateTransactionsMainchain db blockHash isMainchain =
     (let ids = map tx_id (filter (\<lambda>r. tx_block_hash r = blockHash) (transactions db))
      in (db\<lparr>transactions := updateWhere (\<lambda>r. tx_block_hash r = blockHash) (tx_is_mainchain_update (\<lambda>_. isMainchain)) (transactions db)\<rparr>,
          length ids, ids))"

text \<open>
  \<open>UpdateTransactionsValid\<close>: the statement has no \<open>RETURNING\<close> clause, so its result has no rows
  whatever it updates.
\<close>

definition UpdateTransactionsValid :: "PgDB \<Rightarrow> string \<Rightarrow> bool \<Rightarrow> PgDB \<times> nat \<times> nat list" where
  "UpdateTransactionsValid db blockHash isValid =
     (db\<lparr>transactions := updateWhere (\<lambda>r. tx_block_hash r = blockHash \<and> tx_tree r = 0) (tx_is_valid_update (\<lambda>_. isValid)) (transactions db)\<rparr>,
      0, [])"

definition RetrieveTxnsVinsVoutsByBlock :: "PgDB \<Rightarrow> string \<Rightarrow> bool \<Rightarrow> nat list list \<times> nat list list \<times> bool list" where
  "RetrieveTxnsVinsVoutsByBlock db blockHash onlyRegular =
     (let rows = filter (\<lambda>r. tx_block_hash r = blockHash \<and> (onlyRegular \<longrightarrow> tx_tree r = 0)) (transactions db)
      in (map tx_vin_db_ids rows, map tx_vout_db_ids rows, map tx_is_mainchain rows))"

definition RetrieveTxsByBlockHash :: "PgDB \<Rightarrow> string \<Rightarrow> (nat \<times> string \<times> int \<times> int \<times> int) list" where
  "RetrieveTxsByBlockHash db blockHash =
     map (\<lambda>r. (tx_id r, tx_tx_hash r, tx_block_index r, tx_tree r, tx_block_time r))
       (filter (\<lambda>r. tx_block_hash r = blockHash) (transactions db))"

definition UpdateVotesMainchain :: "PgDB \<Rightarrow> string \<Rightarrow> bool \<Rightarrow> PgDB \<times> nat" where
  "UpdateVotesMainchain db blockHash isMainchain =
     (db\<lparr>votes := updateWhere (\<lambda>r. vote_block_hash r = blockHash) (vote_is_mainchain_update (\<lambda>_. isMainchain)) (votes db)\<rparr>,
      countWhere (\<lambda>r. vote_block_hash r = blockHash) (votes db))"

definition UpdateTicketsMainchain :: "PgDB \<Rightarrow> string \<Rightarrow> bool \<Rightarrow> PgDB \<times> nat" where
  "UpdateTicketsMainchain db blockHash isMainchain =
     (db\<lparr>tickets := updateWhere (\<lambda>r. tkt_block_hash r = blockHash) (tkt_is_mainchain_update (\<lambda>_. isMainchain)) (tickets db)\<rparr>,
      countWhere (\<lambda>r. tkt_block_hash r = blockHash) (tickets db))"

subsection \<open>vins, vouts and addresses\<close>

text \<open>\<open>UPDATE vouts SET spend_tx_row_id = NULL FROM transactions WHERE ... AND transactions.id=spend_tx_row_id\<close>.\<close>

definition clearVoutSpends :: "(TransactionsRow \<Rightarrow> bool) \<Rightarrow> PgDB \<Rightarrow> PgDB" where
  "clearVoutSpends P db =
     (let ids = map tx_id (filter P (transactions db))
      in db\<lparr>vouts := updateWhere (\<lambda>v. vout_spend_tx_row_id v \<in> Some ` set ids) (vout_spend_tx_row_id_update (\<lambda>_. None)) (vouts db)\<rparr>)"

definition clearVoutRegularSpendTxRowIDs :: "PgDB \<Rightarrow> string \<Rightarrow> PgDB" where
  "clearVoutRegularSpendTxRowIDs db invalidatedBlockHash =
     clearVoutSpends (\<lambda>r. tx_tree r = 0 \<and> tx_block_hash r = invalidatedBlockHash) db"

definition clearVoutAllSpendTxRowIDs :: "PgDB \<Rightarrow> string \<Rightarrow> PgDB" where
  "clearVoutAllSpendTxRowIDs db transactionsBlockHash = clearVoutSpends (\<lambda>r. tx_block_hash r = transactionsBlockHash) db"

text \<open>\<open>UPDATE vins SET is_mainchain = $2 WHERE id = $1\<close>, for every vin of a transaction.\<close>

fun setVinsMainchainOneTxn :: "PgDB \<Rightarrow> nat list \<Rightarrow> bool \<Rightarrow> PgDB \<times> nat" where
  "setVinsMainchainOneTxn db [] isMainchain = (db, 0)"
| "setVinsMainchainOneTxn db (vinDbID # ids) isMainchain =
     (let c = countWhere (\<lambda>r. vin_id r = vinDbID) (vins db);
          db1 = db\<lparr>vins := updateWhere (\<lambda>r. vin_id r = vinDbID) (vin_is_mainchain_update (\<lambda>_. isMainchain)) (vins db)\<rparr>;
          (db2, n) = setVinsMainchainOneTxn db1 ids isMainchain
      in (db2, c + n))"

fun setVinsMainchainForMany :: "PgDB \<Rightarrow> (nat list \<times> bool) list \<Rightarrow> PgDB \<times> nat" where
  "setVinsMainchainForMany db [] = (db, 0)"
| "setVinsMainchainForMany db ((vs, isMainchain) # txs) =
     (let (db1, c) = setVinsMainchainOneTxn db vs isMainchain; (db2, n) = setVinsMainchainForMany db1 txs
      in (db2, c + n))"

definition SetVinsMainchainByBlock :: "PgDB \<Rightarrow> string \<Rightarrow> PgDB \<times> nat \<times> nat list list \<times> nat list list" where
  "SetVinsMainchainByBlock db blockHash =
     (let (vinDbIDsBlk, voutDbIDsBlk, areMainchain) = RetrieveTxnsVinsVoutsByBlock db blockHash False;
          (db', n) = setVinsMainchainForMany db (zip vinDbIDsBlk areMainchain)
      in (db', n, vinDbIDsBlk, voutDbIDsBlk))"

text \<open>
  \<open>UPDATE addresses SET valid_mainchain=$1 WHERE is_funding = b AND tx_vin_vout_row_id=$2\<close>, for every
  row id of every transaction.
\<close>

fun setAddrMainchain :: "PgDB \<Rightarrow> bool \<Rightarrow> bool \<Rightarrow> nat list \<Rightarrow> PgDB \<times> nat" where
  "setAddrMainchain db isFunding isValidMainchain [] = (db, 0)"
| "setAddrMainchain db isFunding isValidMainchain (i # ids) =
     (let hit = (\<lambda>r. addr_is_funding r = isFunding \<and> addr_tx_vin_vout_row_id r = i);
          c = countWhere hit (addresses db);
          db1 = db\<lparr>addresses := updateWhere hit (addr_valid_mainchain_update (\<lambda>_. isValidMainchain)) (addresses db)\<rparr>;
          (db2, n) = setAddrMainchain db1 isFunding isValidMainchain ids
      in (db2, c + n))"

definition UpdateAddressesMainchainByIDs :: "PgDB \<Rightarrow> nat list list \<Rightarrow> nat list list \<Rightarrow> bool \<Rightarrow> PgDB \<times> nat \<times> nat" where
  "UpdateAddressesMainchainByIDs db vinsBlk voutsBlk isValidMainchain =
     (let (db1, nSpending) = setAddrMainchain db False isValidMainchain (concat vinsBlk);
          (db2, nFunding) = setAddrMainchain db1 True isValidMainchain (concat voutsBlk)
      in (db2, nSpending, nFunding))"

subsection \<open>meta\<close>

definition DBBestBlock :: "PgDB \<Rightarrow> string \<times> int" where
  "DBBestBlock db = (case queryRow (meta db) of
       Some m \<Rightarrow> (meta_best_block_hash m, meta_best_block_height m) | None \<Rightarrow> ([], - 1))"

text \<open>\<open>SetDBBestBlock\<close>: \<open>True\<close> when the \<open>meta\<close> table has its one row.\<close>

definition SetDBBestBlock :: "PgDB \<Rightarrow> string \<Rightarrow> int \<Rightarrow> PgDB \<times> bool" where
  "SetDBBestBlock db hash height =
     (db\<lparr>meta := map (\<lambda>m. m\<lparr>meta_best_block_height := height, meta_best_block_hash := hash\<rparr>) (meta db)\<rparr>, length (meta db) = 1)"

end
