(* ===== verification/PgReorg.thy ===== *)
theory PgReorg
  imports PgTables
begin

text \<open>
  Moving the tip of the main chain to a side chain (\<open>TipToSideChain\<close> of \<open>db/dcrpg/pgblockchain.go\<close>).

  \<open>ChainDB\<close> is what the storing code keeps besides the database: the best block, the row ids of the last
  blocks, the UTXO and ticket id caches and the mode flags. \<open>TipToSideChain\<close> is a loop that only ends
  when it reaches the given block, so it is a partial function whose value \<open>None\<close> is not returning.
\<close>

record UTXOData =
  ux_Addresses :: "string list"
  ux_Value :: int
  ux_Mixed :: bool
  ux_VoutDbID :: int

type_synonym utxoStore = "(string \<times> (int \<times> UTXOData) list) list"

record ChainDB =
  pg :: PgDB
  bestHeight :: int
  bestHash :: string
  lastBlock :: "(string \<times> nat) list"
  dupChecks :: bool
  InBatchSync :: bool
  InReorg :: bool
  utxoCache :: utxoStore
  ticketIds :: "(string \<times> nat) list"
  mixSetDiffs :: "(int \<times> int) list"

text \<open>\<open>BlockHeight\<close>: the height is 0 when there is no such block.\<close>

definition BlockHeightPg :: "PgDB \<Rightarrow> string \<Rightarrow> int" where
  "BlockHeightPg db hash = (case RetrieveBlockHeight db hash of Some h \<Rightarrow> h | None \<Rightarrow> 0)"

subsection \<open>One block\<close>

text \<open>
  The seven updates for the tip block. A statement that finds no row of the block is only logged; the
  previous hash is then the empty string.
\<close>

definition tipBlock :: "PgDB \<Rightarrow> string \<Rightarrow> PgDB \<times> string" where
  "tipBlock db tipHash =
     (let (db1, prev) = SetMainchainByBlockHash db tipHash False;
          (db2, _, _) = UpdateTransactionsMainchain db1 tipHash False;
          db3 = clearVoutAllSpendTxRowIDs db2 tipHash;
          (db4, _, vinDbIDsBlk, voutDbIDsBlk) = SetVinsMainchainByBlock db3 tipHash;
          (db5, _, _) = UpdateAddressesMainchainByIDs db4 vinDbIDsBlk voutDbIDsBlk False;
          (db6, _) = UpdateVotesMainchain db5 tipHash False;
          (db7, _) = UpdateTicketsMainchain db6 tipHash False
      in (db7, case prev of Some p \<Rightarrow> p | None \<Rightarrow> []))"

definition tipStep :: "ChainDB \<Rightarrow> string \<Rightarrow> ChainDB \<times> string" where
  "tipStep pgb tipHash =
     (let (db', prev) = tipBlock (pg pgb) tipHash
      in (pgb\<lparr>pg := db', bestHeight := BlockHeightPg db' prev, bestHash := prev\<rparr>, prev))"

text \<open>The result is the tip reached, the number of blocks moved, and the new state.\<close>

partial_function (option) tipLoop :: "string \<Rightarrow> ChainDB \<Rightarrow> string \<Rightarrow> nat \<Rightarrow> (string \<times> nat \<times> ChainDB) option" where
  "tipLoop mainRoot pgb tipHash blocksMoved =
     (if tipHash = mainRoot then Some (tipHash, blocksMoved, pgb)
      else (case tipStep pgb tipHash of (pgb', prev) \<Rightarrow> tipLoop mainRoot pgb' prev (blocksMoved + 1)))"

definition TipToSideChain :: "ChainDB \<Rightarrow> string \<Rightarrow> (string \<times> nat \<times> ChainDB) option" where
  "TipToSideChain pgb mainRoot = tipLoop mainRoot pgb (bestHash pgb) 0"

subsection \<open>What the updates of a set of blocks amount to\<close>

text \<open>
  The specification: the state in which the blocks \<open>H\<close> and everything recorded in them are off the main
  chain, and no output is spent by one of their transactions.
\<close>

definition txIDsOf :: "string set \<Rightarrow> PgDB \<Rightarrow> nat set" where
  "txIDsOf H db = {tx_id t | t. t \<in> set (transactions db) \<and> tx_block_hash t \<in> H}"

definition vinIDsOf :: "string set \<Rightarrow> PgDB \<Rightarrow> nat set" where
  "vinIDsOf H db = (\<Union>t\<in>{t \<in> set (transactions db). tx_block_hash t \<in> H}. set (tx_vin_db_ids t))"

definition voutIDsOf :: "string set \<Rightarrow> PgDB \<Rightarrow> nat set" where
  "voutIDsOf H db = (\<Union>t\<in>{t \<in> set (transactions db). tx_block_hash t \<in> H}. set (tx_vout_db_ids t))"

definition offMain :: "string set \<Rightarrow> PgDB \<Rightarrow> PgDB" where
  "offMain H db = db\<lparr>
     blocks := updateWhere (\<lambda>r. blk_hash r \<in> H) (blk_is_mainchain_update (\<lambda>_. False)) (blocks db),
     transactions := updateWhere (\<lambda>r. tx_block_hash r \<in> H) (tx_is_mainchain_update (\<lambda>_. False)) (transactions db),
     vins := updateWhere (\<lambda>r. vin_id r \<in> vinIDsOf H db) (vin_is_mainchain_update (\<lambda>_. False)) (vins db),
     vouts := updateWhere (\<lambda>r. vout_spend_tx_row_id r \<in> Some ` txIDsOf H db) (vout_spend_tx_row_id_update (\<lambda>_. None)) (vouts db),
     addresses := updateWhere (\<lambda>r. addr_tx_vin_vout_row_id r \<in> (if addr_is_funding r then voutIDsOf H db else vinIDsOf H db))
       (addr_valid_mainchain_update (\<lambda>_. False)) (addresses db),
     tickets := updateWhere (\<lambda>r. tkt_block_hash r \<in> H) (tkt_is_mainchain_update (\<lambda>_. False)) (tickets db),
     votes := updateWhere (\<lambda>r. vote_block_hash r \<in> H) (vote_is_mainchain_update (\<lambda>_. False)) (votes db)\<rparr>"

text \<open>The hash the loop goes on with.\<close>

definition prevOf :: "PgDB \<Rightarrow> string \<Rightarrow> string" where
  "prevOf db hash = (case RetrievePreviousHashByBlockHash db hash of Some p \<Rightarrow> p | None \<Rightarrow> [])"

subsection \<open>The updates are idempotent\<close>

interpretation blkOff: block_rows "blk_is_mainchain_update (\<lambda>_. False)" blk_hash blk_is_mainchain False
  by unfold_locales simp_all

interpretation txOff: block_rows "tx_is_mainchain_update (\<lambda>_. False)" tx_block_hash tx_is_mainchain False
  by unfold_locales simp_all

interpretation voteOff: block_rows "vote_is_mainchain_update (\<lambda>_. False)" vote_block_hash vote_is_mainchain False
  by unfold_locales simp_all

interpretation tktOff: block_rows "tkt_is_mainchain_update (\<lambda>_. False)" tkt_block_hash tkt_is_mainchain False
  by unfold_locales simp_all

interpretation vinOff: row_update "vin_is_mainchain_update (\<lambda>_. b)" for b
  by unfold_locales simp

interpretation addrOff: row_update "addr_valid_mainchain_update (\<lambda>_. b)" for b
  by unfold_locales simp

interpretation voutReset: row_update "vout_spend_tx_row_id_update (\<lambda>_. None)"
  by unfold_locales simp

text \<open>The sets of row ids only depend on the columns that no flag update writes.\<close>

definition txKeys :: "PgDB \<Rightarrow> (nat \<times> string \<times> nat list \<times> nat list) list" where
  "txKeys db = map (\<lambda>t. (tx_id t, tx_block_hash t, tx_vin_db_ids t, tx_vout_db_ids t)) (transactions db)"

lemma ids_by_keys:
  "txIDsOf H db = fst ` {k \<in> set (txKeys db). fst (snd k) \<in> H}"
  "vinIDsOf H db = (\<Union>k\<in>{k \<in> set (txKeys db). fst (snd k) \<in> H}. set (fst (snd (snd k))))"
  "voutIDsOf H db = (\<Union>k\<in>{k \<in> set (txKeys db). fst (snd k) \<in> H}. set (snd (snd (snd k))))"
  by (force simp: txIDsOf_def vinIDsOf_def voutIDsOf_def txKeys_def)+

lemma txIDsOf_list: "txIDsOf H db = set (map tx_id (filter (\<lambda>t. tx_block_hash t \<in> H) (transactions db)))"
  by (auto simp: txIDsOf_def)

lemma vinIDsOf_list: "vinIDsOf H db = set (concat (map tx_vin_db_ids (filter (\<lambda>t. tx_block_hash t \<in> H) (transactions db))))"
  by (auto simp: vinIDsOf_def)

lemma voutIDsOf_list: "voutIDsOf H db = set (concat (map tx_vout_db_ids (filter (\<lambda>t. tx_block_hash t \<in> H) (transactions db))))"
  by (auto simp: voutIDsOf_def)

lemma txKeys_update [simp]:
  "map (\<lambda>t. (tx_id t, tx_block_hash t, tx_vin_db_ids t, tx_vout_db_ids t)) (updateWhere P (tx_is_mainchain_update (\<lambda>_. b)) rows) =
   map (\<lambda>t. (tx_id t, tx_block_hash t, tx_vin_db_ids t, tx_vout_db_ids t)) rows"
  by (rule map_updateWhere) simp

lemma setVinsMainchainOneTxn_eq:
  "fst (setVinsMainchainOneTxn db ids b) =
     db\<lparr>vins := updateWhere (\<lambda>r. vin_id r \<in> set ids) (vin_is_mainchain_update (\<lambda>_. b)) (vins db)\<rparr>"
proof (induction ids arbitrary: db)
  case (Cons i ids)
  show ?case
    by (simp add: Cons.IH vinOff.twice case_prod_unfold disj_commute)
qed simp

lemma setVinsMainchainForMany_eq:
  "fst (setVinsMainchainForMany db (map (\<lambda>vs. (vs, b)) vss)) =
     db\<lparr>vins := updateWhere (\<lambda>r. \<exists>vs\<in>set vss. vin_id r \<in> set vs) (vin_is_mainchain_update (\<lambda>_. b)) (vins db)\<rparr>"
proof (induction vss arbitrary: db)
  case (Cons vs vss)
  show ?case
    by (simp add: case_prod_unfold setVinsMainchainOneTxn_eq Cons.IH vinOff.twice disj_commute)
qed simp

lemma setAddrMainchain_eq:
  "fst (setAddrMainchain db isFunding b ids) =
     db\<lparr>addresses := updateWhere (\<lambda>r. addr_is_funding r = isFunding \<and> addr_tx_vin_vout_row_id r \<in> set ids)
          (addr_valid_mainchain_update (\<lambda>_. b)) (addresses db)\<rparr>"
proof (induction ids arbitrary: db)
  case (Cons i ids)
  show ?case
    by (rule PgDB.equality)
      (auto simp: Let_def Cons.IH addrOff.twice case_prod_unfold intro!: updateWhere_cong)
qed simp

lemma UpdateAddressesMainchainByIDs_eq:
  "fst (UpdateAddressesMainchainByIDs db vinsBlk voutsBlk b) =
     db\<lparr>addresses := updateWhere (\<lambda>r. addr_tx_vin_vout_row_id r \<in> (if addr_is_funding r then \<Union> (set ` set voutsBlk) else \<Union> (set ` set vinsBlk)))
          (addr_valid_mainchain_update (\<lambda>_. b)) (addresses db)\<rparr>"
  by (rule PgDB.equality)
    (auto simp: UpdateAddressesMainchainByIDs_def case_prod_unfold setAddrMainchain_eq addrOff.twice intro!: updateWhere_cong)

text \<open>The transactions of a block after they were flagged: all of them off the main chain.\<close>

lemma flagged_txs:
  "filter (\<lambda>r. tx_block_hash r = h) (updateWhere (\<lambda>r. tx_block_hash r = h) (tx_is_mainchain_update (\<lambda>_. b)) rows) =
     map (tx_is_mainchain_update (\<lambda>_. b)) (filter (\<lambda>r. tx_block_hash r = h) rows)"
  by (induction rows) (simp_all add: updateWhere_def)

lemma zip_map_const: "zip (map f xs) (map (\<lambda>_. b) xs) = map (\<lambda>v. (v, b)) (map f xs)"
  by (induction xs) simp_all

lemma SetVinsMainchainByBlock_off:
  assumes "\<forall>t\<in>set (transactions db). tx_block_hash t = h \<longrightarrow> tx_is_mainchain t = b"
  shows "fst (SetVinsMainchainByBlock db h) =
     db\<lparr>vins := updateWhere (\<lambda>r. vin_id r \<in> vinIDsOf {h} db) (vin_is_mainchain_update (\<lambda>_. b)) (vins db)\<rparr>"
    and "fst (snd (snd (SetVinsMainchainByBlock db h))) = map tx_vin_db_ids (filter (\<lambda>r. tx_block_hash r = h) (transactions db))"
    and "snd (snd (snd (SetVinsMainchainByBlock db h))) = map tx_vout_db_ids (filter (\<lambda>r. tx_block_hash r = h) (transactions db))"
proof -
  let ?rows = "filter (\<lambda>r. tx_block_hash r = h) (transactions db)"
  have "map tx_is_mainchain ?rows = map (\<lambda>_. b) ?rows"
    using assms by auto
  then have z: "zip (map tx_vin_db_ids ?rows) (map tx_is_mainchain ?rows) = map (\<lambda>v. (v, b)) (map tx_vin_db_ids ?rows)"
    by (simp only: zip_map_const)
  have "fst (SetVinsMainchainByBlock db h) = fst (setVinsMainchainForMany db (map (\<lambda>v. (v, b)) (map tx_vin_db_ids ?rows)))"
    by (simp only: SetVinsMainchainByBlock_def RetrieveTxnsVinsVoutsByBlock_def case_prod_unfold Let_def fst_conv snd_conv
        simp_thms z)
  then show "fst (SetVinsMainchainByBlock db h) =
     db\<lparr>vins := updateWhere (\<lambda>r. vin_id r \<in> vinIDsOf {h} db) (vin_is_mainchain_update (\<lambda>_. b)) (vins db)\<rparr>"
    unfolding setVinsMainchainForMany_eq
    by (intro PgDB.equality) (auto simp: vinIDsOf_def intro!: updateWhere_cong)
  show "fst (snd (snd (SetVinsMainchainByBlock db h))) = map tx_vin_db_ids ?rows"
    and "snd (snd (snd (SetVinsMainchainByBlock db h))) = map tx_vout_db_ids ?rows"
    by (simp_all add: SetVinsMainchainByBlock_def RetrieveTxnsVinsVoutsByBlock_def case_prod_unfold Let_def)
qed

lemma tipBlock_eq: "tipBlock db h = (offMain {h} db, prevOf db h)"
proof -
  let ?db1 = "fst (SetMainchainByBlockHash db h False)"
  let ?db2 = "fst (UpdateTransactionsMainchain ?db1 h False)"
  let ?db3 = "clearVoutAllSpendTxRowIDs ?db2 h"
  have tr: "transactions ?db3 = updateWhere (\<lambda>r. tx_block_hash r = h) (tx_is_mainchain_update (\<lambda>_. False)) (transactions db)"
    by (simp add: clearVoutAllSpendTxRowIDs_def clearVoutSpends_def UpdateTransactionsMainchain_def Let_def
        SetMainchainByBlockHash_def)
  have flags: "\<forall>t\<in>set (transactions ?db3). tx_block_hash t = h \<longrightarrow> tx_is_mainchain t = False"
    using txOff.flagged[where H = "{h}" and rows = "transactions db"] unfolding tr by simp
  have "txKeys ?db3 = txKeys db"
    unfolding txKeys_def tr by simp
  then have ids: "vinIDsOf {h} ?db3 = vinIDsOf {h} db" "voutIDsOf {h} ?db3 = voutIDsOf {h} db"
    by (simp_all add: ids_by_keys)
  note sv = SetVinsMainchainByBlock_off[OF flags, unfolded ids]
  have un: "\<Union> (set ` set (map tx_vin_db_ids (filter (\<lambda>r. tx_block_hash r = h) (transactions ?db3)))) = vinIDsOf {h} db"
    "\<Union> (set ` set (map tx_vout_db_ids (filter (\<lambda>r. tx_block_hash r = h) (transactions ?db3)))) = voutIDsOf {h} db"
    unfolding ids[symmetric] by (auto simp: vinIDsOf_def voutIDsOf_def)
  have "txKeys ?db2 = txKeys db"
    by (simp add: txKeys_def UpdateTransactionsMainchain_def SetMainchainByBlockHash_def Let_def)
  then have "txIDsOf {h} ?db2 = txIDsOf {h} db"
    by (simp add: ids_by_keys)
  moreover have "set (map tx_id (filter (\<lambda>r. tx_block_hash r = h) (transactions ?db2))) = txIDsOf {h} ?db2"
    by (auto simp: txIDsOf_def)
  ultimately have db3: "?db3 = db\<lparr>
     blocks := updateWhere (\<lambda>r. blk_hash r = h) (blk_is_mainchain_update (\<lambda>_. False)) (blocks db),
     transactions := updateWhere (\<lambda>r. tx_block_hash r = h) (tx_is_mainchain_update (\<lambda>_. False)) (transactions db),
     vouts := updateWhere (\<lambda>r. vout_spend_tx_row_id r \<in> Some ` txIDsOf {h} db) (vout_spend_tx_row_id_update (\<lambda>_. None)) (vouts db)\<rparr>"
    by (simp only: clearVoutAllSpendTxRowIDs_def clearVoutSpends_def Let_def)
      (simp add: UpdateTransactionsMainchain_def SetMainchainByBlockHash_def Let_def)
  show ?thesis
    by (simp only: tipBlock_def Let_def case_prod_unfold sv UpdateAddressesMainchainByIDs_eq un prod.inject,
        simp only: db3, intro conjI PgDB.equality)
      (simp_all add: offMain_def UpdateVotesMainchain_def UpdateTicketsMainchain_def prevOf_def RetrievePreviousHashByBlockHash_def
        SetMainchainByBlockHash_def)
qed

subsection \<open>Several blocks\<close>

lemma txKeys_offMain [simp]: "txKeys (offMain H db) = txKeys db"
  by (simp add: txKeys_def offMain_def)

lemma ids_offMain [simp]:
  "txIDsOf H (offMain K db) = txIDsOf H db" "vinIDsOf H (offMain K db) = vinIDsOf H db"
  "voutIDsOf H (offMain K db) = voutIDsOf H db"
  by (simp_all add: ids_by_keys)

lemma ids_Un:
  "txIDsOf (H \<union> K) db = txIDsOf H db \<union> txIDsOf K db" "vinIDsOf (H \<union> K) db = vinIDsOf H db \<union> vinIDsOf K db"
  "voutIDsOf (H \<union> K) db = voutIDsOf H db \<union> voutIDsOf K db"
  by (auto simp: txIDsOf_def vinIDsOf_def voutIDsOf_def)

lemma offMain_offMain: "offMain H (offMain K db) = offMain (H \<union> K) db"
  by (rule PgDB.equality; simp add: offMain_def[of H "offMain K db"] ids_Un)
    (auto simp: offMain_def blkOff.twice txOff.twice voteOff.twice tktOff.twice vinOff.twice addrOff.twice voutReset.twice ids_Un
      intro!: updateWhere_cong)

lemma offMain_empty [simp]: "offMain {} db = db"
  by (rule PgDB.equality) (simp_all add: offMain_def txIDsOf_def vinIDsOf_def voutIDsOf_def)

lemma filter_blocks_offMain:
  "filter (\<lambda>r. blk_hash r = h) (blocks (offMain H db)) =
   map (\<lambda>r. if blk_hash r \<in> H then r\<lparr>blk_is_mainchain := False\<rparr> else r) (filter (\<lambda>r. blk_hash r = h) (blocks db))"
  by (simp add: offMain_def updateWhere_def filter_map o_def cong: if_cong)

lemma prevOf_offMain [simp]: "prevOf (offMain H db) h = prevOf db h"
  by (simp add: prevOf_def RetrievePreviousHashByBlockHash_def filter_blocks_offMain queryRow_def split: list.splits)

lemma BlockHeight_offMain [simp]: "BlockHeightPg (offMain H db) h = BlockHeightPg db h"
  by (simp add: BlockHeightPg_def RetrieveBlockHeight_def filter_blocks_offMain queryRow_def split: list.splits)

text \<open>The hashes from \<open>tip\<close> down, \<open>n\<close> of them.\<close>

definition chainOf :: "PgDB \<Rightarrow> string \<Rightarrow> nat \<Rightarrow> string set" where
  "chainOf db tip n = {(prevOf db ^^ k) tip | k. k < n}"

lemma chainOf_Suc: "chainOf db tip (Suc n) = insert tip (chainOf db (prevOf db tip) n)"
proof (intro equalityI subsetI)
  fix h
  assume "h \<in> chainOf db tip (Suc n)"
  then obtain k where "k < Suc n" "h = (prevOf db ^^ k) tip"
    by (auto simp: chainOf_def)
  then show "h \<in> insert tip (chainOf db (prevOf db tip) n)"
    by (cases k) (auto simp: chainOf_def funpow_Suc_right simp del: funpow.simps(2))
next
  fix h
  assume "h \<in> insert tip (chainOf db (prevOf db tip) n)"
  then consider "h = tip" | k where "k < n" "h = (prevOf db ^^ Suc k) tip"
    by (auto simp: chainOf_def funpow_Suc_right simp del: funpow.simps(2))
  then show "h \<in> chainOf db tip (Suc n)"
  proof cases
    case 1
    then have "h = (prevOf db ^^ 0) tip"
      by simp
    then show ?thesis
      unfolding chainOf_def by blast
  next
    case (2 k)
    then show ?thesis
      unfolding chainOf_def by (metis (mono_tags, lifting) Suc_less_eq mem_Collect_eq)
  qed
qed

lemma chainOf_0 [simp]: "chainOf db tip 0 = {}"
  by (simp add: chainOf_def)

lemma chainOf_offMain [simp]: "chainOf (offMain H db) tip n = chainOf db tip n"
proof -
  have "prevOf (offMain H db) = prevOf db"
    by (rule ext) simp
  then show ?thesis
    by (simp add: chainOf_def)
qed

lemma tipStep_eq:
  "tipStep pgb h =
     (pgb\<lparr>pg := offMain {h} (pg pgb), bestHeight := BlockHeightPg (pg pgb) (prevOf (pg pgb) h), bestHash := prevOf (pg pgb) h\<rparr>,
      prevOf (pg pgb) h)"
  by (simp add: tipStep_def tipBlock_eq)

text \<open>The state the loop ends in after \<open>n\<close> blocks.\<close>

definition movedTo :: "ChainDB \<Rightarrow> string \<Rightarrow> nat \<Rightarrow> string \<Rightarrow> ChainDB" where
  "movedTo pgb tip n root =
     (if n = 0 then pgb
      else pgb\<lparr>pg := offMain (chainOf (pg pgb) tip n) (pg pgb), bestHeight := BlockHeightPg (pg pgb) root, bestHash := root\<rparr>)"

lemma tipLoop_reaches:
  "(prevOf (pg pgb) ^^ n) tip = root \<Longrightarrow> (\<forall>k<n. (prevOf (pg pgb) ^^ k) tip \<noteq> root)
   \<Longrightarrow> tipLoop root pgb tip m = Some (root, m + n, movedTo pgb tip n root)"
proof (induction n arbitrary: pgb tip m)
  case 0
  then show ?case
    by (subst tipLoop.simps) (simp add: movedTo_def)
next
  case (Suc n)
  let ?p = "prevOf (pg pgb) tip"
  let ?pgb = "fst (tipStep pgb tip)"
  have pg': "pg ?pgb = offMain {tip} (pg pgb)" "prevOf (pg ?pgb) = prevOf (pg pgb)"
    by (simp_all add: tipStep_eq fun_eq_iff)
  have "tip \<noteq> root"
    using Suc.prems(2) by (metis funpow_0 zero_less_Suc)
  then have "tipLoop root pgb tip m = tipLoop root ?pgb ?p (m + 1)"
    by (subst tipLoop.simps) (simp add: tipStep_eq)
  moreover have "(prevOf (pg ?pgb) ^^ n) ?p = root" "\<forall>k<n. (prevOf (pg ?pgb) ^^ k) ?p \<noteq> root"
    using Suc.prems(1) Suc.prems(2)[rule_format, OF Suc_mono] unfolding pg'(2) funpow_Suc_right o_def by simp_all
  ultimately have "tipLoop root pgb tip m = Some (root, m + 1 + n, movedTo ?pgb ?p n root)"
    using Suc.IH by simp
  moreover have "movedTo ?pgb ?p n root = movedTo pgb tip (Suc n) root"
    using Suc.prems(1)
    by (auto simp: movedTo_def tipStep_eq offMain_offMain chainOf_Suc)
  ultimately show ?case
    by simp
qed

lemma tipLoop_returns:
  "tipLoop root pgb tip m = Some r \<Longrightarrow> \<exists>n. (prevOf (pg pgb) ^^ n) tip = root"
proof (induction arbitrary: r rule: tipLoop.raw_induct[rotated 1, consumes 1])
  case (1 tipLoop root pgb tip m r)
  show ?case
  proof (cases "tip = root")
    case True
    then have "(prevOf (pg pgb) ^^ 0) tip = root"
      by simp
    then show ?thesis
      by blast
  next
    case False
    let ?pgb = "fst (tipStep pgb tip)"
    have "prevOf (pg ?pgb) = prevOf (pg pgb)"
      by (simp add: tipStep_eq fun_eq_iff)
    moreover have "tipLoop root ?pgb (prevOf (pg pgb) tip) (m + 1) = Some r"
      using 1(2) False by (simp add: tipStep_eq)
    ultimately obtain n where "(prevOf (pg pgb) ^^ n) (prevOf (pg pgb) tip) = root"
      using 1(1) by metis
    then have "(prevOf (pg pgb) ^^ Suc n) tip = root"
      by (simp only: funpow_Suc_right o_def)
    then show ?thesis
      by blast
  qed
qed

subsection \<open>The main chain\<close>

definition ancestors :: "PgDB \<Rightarrow> string \<Rightarrow> string set" where
  "ancestors db tip = {h. \<exists>n. h = (prevOf db ^^ n) tip}"

text \<open>
  The invariant of the tables: hashes identify blocks, and a block is higher than its parent; the blocks
  flagged as main chain are the best block and its ancestors; transactions, votes and tickets carry the
  flag of their block; an output is only recorded as spent by a main chain transaction.
\<close>

definition blocksOk :: "PgDB \<Rightarrow> bool" where
  "blocksOk db \<longleftrightarrow> distinct (map blk_hash (blocks db)) \<and> [] \<notin> blk_hash ` set (blocks db) \<and>
     (\<forall>b\<in>set (blocks db). \<forall>p\<in>set (blocks db). blk_hash p = blk_previous_hash b \<longrightarrow> blk_height p < blk_height b)"

definition flagsOk :: "PgDB \<Rightarrow> bool" where
  "flagsOk db \<longleftrightarrow> (\<forall>b\<in>set (blocks db).
     (\<forall>t\<in>set (transactions db). tx_block_hash t = blk_hash b \<longrightarrow> tx_is_mainchain t = blk_is_mainchain b) \<and>
     (\<forall>v\<in>set (votes db). vote_block_hash v = blk_hash b \<longrightarrow> vote_is_mainchain v = blk_is_mainchain b) \<and>
     (\<forall>k\<in>set (tickets db). tkt_block_hash k = blk_hash b \<longrightarrow> tkt_is_mainchain k = blk_is_mainchain b))"

definition spendsOk :: "PgDB \<Rightarrow> bool" where
  "spendsOk db \<longleftrightarrow> (\<forall>v\<in>set (vouts db). \<forall>i. vout_spend_tx_row_id v = Some i \<longrightarrow>
     (\<exists>t\<in>set (transactions db). tx_id t = i \<and> tx_is_mainchain t))"

definition mainIs :: "PgDB \<Rightarrow> string \<Rightarrow> bool" where
  "mainIs db tip \<longleftrightarrow> (\<forall>b\<in>set (blocks db). blk_is_mainchain b \<longleftrightarrow> blk_hash b \<in> ancestors db tip)"

definition chainInv :: "ChainDB \<Rightarrow> bool" where
  "chainInv pgb \<longleftrightarrow> blocksOk (pg pgb) \<and> flagsOk (pg pgb) \<and> spendsOk (pg pgb) \<and> mainIs (pg pgb) (bestHash pgb)"

lemma filter_hash_unique:
  "distinct (map blk_hash rows) \<Longrightarrow> b \<in> set rows \<Longrightarrow> filter (\<lambda>r. blk_hash r = blk_hash b) rows = [b]"
proof (induction rows)
  case (Cons r rows)
  have "filter (\<lambda>r. blk_hash r = blk_hash b) rows = []" if "blk_hash r = blk_hash b"
    using Cons.prems(1) that by (auto simp: filter_empty_conv) (metis image_eqI)
  moreover have "r = b" if "blk_hash r = blk_hash b"
    using Cons.prems that by (auto dest: imageI[where f = blk_hash])
  ultimately show ?case
    using Cons by (cases "blk_hash r = blk_hash b") auto
qed simp

lemma prevOf_block:
  "blocksOk db \<Longrightarrow> b \<in> set (blocks db) \<Longrightarrow> prevOf db (blk_hash b) = blk_previous_hash b"
  by (simp add: prevOf_def RetrievePreviousHashByBlockHash_def blocksOk_def filter_hash_unique queryRow_def)

lemma prevOf_none: "h \<notin> blk_hash ` set (blocks db) \<Longrightarrow> prevOf db h = []"
  by (auto simp: prevOf_def RetrievePreviousHashByBlockHash_def queryRow_def filter_empty_conv split: list.splits)
    (metis (mono_tags, lifting) filter_eq_ConsD image_eqI list.set_intros(1) mem_Collect_eq set_filter)

lemma prevOf_end: "blocksOk db \<Longrightarrow> (prevOf db ^^ n) [] = []"
  by (induction n) (auto simp: prevOf_none blocksOk_def)

lemma ancestor_lower:
  assumes "blocksOk db" "b \<in> set (blocks db)" "a \<in> set (blocks db)" "blk_hash a = (prevOf db ^^ n) (blk_hash b)" "0 < n"
  shows "blk_height a < blk_height b"
  using assms(2-)
proof (induction n arbitrary: b)
  case (Suc n)
  let ?p = "blk_previous_hash b"
  have a: "blk_hash a = (prevOf db ^^ n) ?p"
    using Suc.prems assms(1) by (simp only: funpow_Suc_right o_def prevOf_block)
  show ?case
  proof (cases "?p \<in> blk_hash ` set (blocks db)")
    case True
    then obtain p where p: "p \<in> set (blocks db)" "blk_hash p = ?p"
      by auto
    then have "blk_height p < blk_height b"
      using assms(1) Suc.prems(1) by (simp add: blocksOk_def)
    moreover have "blk_height a \<le> blk_height p"
    proof (cases n)
      case 0
      have "inj_on blk_hash (set (blocks db))"
        using assms(1) by (simp add: blocksOk_def distinct_map)
      then have "a = p"
        using a p Suc.prems(2) 0 by (simp add: inj_on_def)
      then show ?thesis
        by simp
    next
      case (Suc m)
      then show ?thesis
        using Suc.IH[OF p(1) Suc.prems(2)] a p(2) by simp
    qed
    ultimately show ?thesis
      by simp
  next
    case False
    then have "(prevOf db ^^ n) ?p = [] \<or> n = 0"
      by (cases n) (simp_all only: funpow_Suc_right o_def prevOf_none prevOf_end[OF assms(1)] simp_thms)
    moreover have "blk_hash a \<in> blk_hash ` set (blocks db)"
      using Suc.prems(2) by blast
    ultimately show ?thesis
      using False a assms(1) by (auto simp: blocksOk_def)
  qed
qed simp

lemma ancestors_split:
  "(prevOf db ^^ n) tip = root \<Longrightarrow> ancestors db tip = chainOf db tip n \<union> ancestors db root"
proof (intro equalityI subsetI)
  fix h
  assume root: "(prevOf db ^^ n) tip = root" and "h \<in> ancestors db tip"
  then obtain k where k: "h = (prevOf db ^^ k) tip"
    by (auto simp: ancestors_def)
  show "h \<in> chainOf db tip n \<union> ancestors db root"
  proof (cases "k < n")
    case False
    then have "h = (prevOf db ^^ (k - n)) root"
      unfolding k root[symmetric] by (metis comp_apply funpow_add le_add_diff_inverse2 not_less)
    then show ?thesis
      by (auto simp: ancestors_def)
  qed (auto simp: k chainOf_def)
next
  fix h
  assume "(prevOf db ^^ n) tip = root" "h \<in> chainOf db tip n \<union> ancestors db root"
  then show "h \<in> ancestors db tip"
    by (auto simp: ancestors_def chainOf_def) (metis comp_apply funpow_add)
qed

text \<open>A block that the loop moved is not below the block it ended at.\<close>

lemma moved_not_below:
  assumes "blocksOk db" "(prevOf db ^^ n) tip = root" "b \<in> set (blocks db)" "blk_hash b \<in> chainOf db tip n"
  shows "blk_hash b \<notin> ancestors db root"
proof
  assume "blk_hash b \<in> ancestors db root"
  then obtain j where j: "blk_hash b = (prevOf db ^^ j) root"
    by (auto simp: ancestors_def)
  obtain k where k: "k < n" "blk_hash b = (prevOf db ^^ k) tip"
    using assms(4) by (auto simp: chainOf_def)
  have "root = (prevOf db ^^ (n - k)) (blk_hash b)"
    unfolding k(2) assms(2)[symmetric] using k(1) by (metis comp_apply funpow_add le_add_diff_inverse2 less_imp_le)
  then have "blk_hash b = (prevOf db ^^ (j + (n - k))) (blk_hash b)"
    using j by (simp add: funpow_add)
  then show False
    using ancestor_lower[OF assms(1,3,3)] k(1) by fastforce
qed

lemma blocks_offMain: "b' \<in> set (blocks (offMain H db)) \<Longrightarrow>
   \<exists>b\<in>set (blocks db). b' = (if blk_hash b \<in> H then b\<lparr>blk_is_mainchain := False\<rparr> else b)"
  by (auto simp: offMain_def elim!: updateWhereE)

lemma map_blocks_offMain:
  "map blk_hash (blocks (offMain H db)) = map blk_hash (blocks db)"
  by (simp add: offMain_def map_updateWhere)

lemma blocksOk_offMain: "blocksOk db \<Longrightarrow> blocksOk (offMain H db)"
  unfolding blocksOk_def map_blocks_offMain image_set
  by (auto dest!: blocks_offMain split: if_splits)

lemma flagsOk_offMain: "flagsOk db \<Longrightarrow> flagsOk (offMain H db)"
  unfolding flagsOk_def offMain_def by (auto elim!: updateWhereE)

lemma spendsOk_offMain:
  assumes "spendsOk db"
  shows "spendsOk (offMain H db)"
  unfolding spendsOk_def
proof (intro ballI allI impI)
  fix v i
  assume "v \<in> set (vouts (offMain H db))" "vout_spend_tx_row_id v = Some i"
  then have v: "v \<in> set (vouts db)" "vout_spend_tx_row_id v = Some i" "i \<notin> txIDsOf H db"
    by (auto simp: offMain_def elim!: updateWhereE)
  then obtain t where t: "t \<in> set (transactions db)" "tx_id t = i" "tx_is_mainchain t"
    using assms by (auto simp: spendsOk_def)
  then have "t \<in> set (transactions (offMain H db))"
    using v(3) txOff.untouched[of t H] by (auto simp: offMain_def txIDsOf_def)
  then show "\<exists>t\<in>set (transactions (offMain H db)). tx_id t = i \<and> tx_is_mainchain t"
    using t by blast
qed

lemma ancestors_offMain: "ancestors (offMain H db) tip = ancestors db tip"
proof -
  have "prevOf (offMain H db) = prevOf db"
    by (rule ext) simp
  then show ?thesis
    by (simp add: ancestors_def)
qed

lemma mainIs_moved:
  assumes "blocksOk db" "mainIs db tip" "(prevOf db ^^ n) tip = root"
  shows "mainIs (offMain (chainOf db tip n) db) root"
  unfolding mainIs_def ancestors_offMain
proof
  fix b'
  assume "b' \<in> set (blocks (offMain (chainOf db tip n) db))"
  then obtain b where b: "b \<in> set (blocks db)"
    "b' = (if blk_hash b \<in> chainOf db tip n then b\<lparr>blk_is_mainchain := False\<rparr> else b)"
    using blocks_offMain by blast
  show "blk_is_mainchain b' \<longleftrightarrow> blk_hash b' \<in> ancestors db root"
    using b assms(2) moved_not_below[OF assms(1,3) b(1)] by (simp add: mainIs_def ancestors_split[OF assms(3)])
qed

lemma TipToSideChain_reaches:
  assumes "(prevOf (pg pgb) ^^ n) (bestHash pgb) = root" "\<forall>k<n. (prevOf (pg pgb) ^^ k) (bestHash pgb) \<noteq> root"
  shows "TipToSideChain pgb root = Some (root, n, movedTo pgb (bestHash pgb) n root)"
  using tipLoop_reaches[OF assms] by (simp add: TipToSideChain_def)

lemma first_reach:
  fixes f :: "'a \<Rightarrow> 'a"
  assumes "(f ^^ n) a = b"
  obtains m where "(f ^^ m) a = b" "\<forall>k<m. (f ^^ k) a \<noteq> b"
  using assms LeastI[of "\<lambda>n. (f ^^ n) a = b"] not_less_Least[of _ "\<lambda>n. (f ^^ n) a = b"] by blast

subsection \<open>What the reorganization guarantees\<close>

text \<open>C7: \<open>TipToSideChain\<close> returns if, and only if, the given block is the tip or one of its ancestors in
  the \<open>blocks\<close> table. Otherwise the loop never ends: a block that is not in the table is only logged, and
  the loop goes on from the empty hash.\<close>

theorem TipToSideChain_returns:
  "TipToSideChain pgb mainRoot \<noteq> None \<longleftrightarrow> mainRoot \<in> ancestors (pg pgb) (bestHash pgb)"
proof
  assume "TipToSideChain pgb mainRoot \<noteq> None"
  then obtain n where "(prevOf (pg pgb) ^^ n) (bestHash pgb) = mainRoot"
    using tipLoop_returns[of mainRoot pgb "bestHash pgb" 0] by (auto simp: TipToSideChain_def)
  then show "mainRoot \<in> ancestors (pg pgb) (bestHash pgb)"
    by (auto simp: ancestors_def)
next
  assume "mainRoot \<in> ancestors (pg pgb) (bestHash pgb)"
  then obtain n where "(prevOf (pg pgb) ^^ n) (bestHash pgb) = mainRoot"
    by (auto simp: ancestors_def)
  then obtain m where "(prevOf (pg pgb) ^^ m) (bestHash pgb) = mainRoot" "\<forall>k<m. (prevOf (pg pgb) ^^ k) (bestHash pgb) \<noteq> mainRoot"
    by (rule first_reach)
  then show "TipToSideChain pgb mainRoot \<noteq> None"
    by (simp add: TipToSideChain_reaches)
qed

text \<open>C5: When \<open>TipToSideChain\<close> returns, the best block is the given block, the database is the one it
  started with except that the blocks above the given one, their transactions, inputs, address rows,
  votes and tickets are off the main chain and no output is spent by one of those transactions, and the
  number it returns is the number of these blocks.\<close>

theorem TipToSideChain_moves:
  assumes "TipToSideChain pgb mainRoot = Some (hash, moved, pgb')"
  shows "hash = mainRoot \<and> bestHash pgb' = mainRoot \<and> (prevOf (pg pgb) ^^ moved) (bestHash pgb) = mainRoot \<and>
    mainRoot \<notin> chainOf (pg pgb) (bestHash pgb) moved \<and>
    pg pgb' = offMain (chainOf (pg pgb) (bestHash pgb) moved) (pg pgb)"
proof -
  have "mainRoot \<in> ancestors (pg pgb) (bestHash pgb)"
    using assms tipLoop_returns[of mainRoot pgb "bestHash pgb" 0] by (auto simp: ancestors_def TipToSideChain_def)
  then obtain n where "(prevOf (pg pgb) ^^ n) (bestHash pgb) = mainRoot"
    by (auto simp: ancestors_def)
  then obtain m where m: "(prevOf (pg pgb) ^^ m) (bestHash pgb) = mainRoot" "\<forall>k<m. (prevOf (pg pgb) ^^ k) (bestHash pgb) \<noteq> mainRoot"
    by (rule first_reach)
  then have "hash = mainRoot" "moved = m" "pgb' = movedTo pgb (bestHash pgb) m mainRoot"
    using TipToSideChain_reaches[OF m] assms by auto
  then show ?thesis
    using m by (cases m) (auto simp: movedTo_def chainOf_def)
qed

text \<open>C6: The reorganization keeps the invariant of the chain tables: the blocks flagged as main chain are
  again exactly the best block and its ancestors, the flags of transactions, votes and tickets agree with
  their block's, and outputs are only spent by main chain transactions.\<close>

theorem TipToSideChain_invariant:
  assumes "chainInv pgb" "TipToSideChain pgb mainRoot = Some (hash, moved, pgb')"
  shows "chainInv pgb'"
proof -
  have "mainRoot \<in> ancestors (pg pgb) (bestHash pgb)"
    using assms tipLoop_returns[of mainRoot pgb "bestHash pgb" 0] by (auto simp: ancestors_def TipToSideChain_def)
  then obtain n where "(prevOf (pg pgb) ^^ n) (bestHash pgb) = mainRoot"
    by (auto simp: ancestors_def)
  then obtain m where m: "(prevOf (pg pgb) ^^ m) (bestHash pgb) = mainRoot" "\<forall>k<m. (prevOf (pg pgb) ^^ k) (bestHash pgb) \<noteq> mainRoot"
    by (rule first_reach)
  then have pgb': "pgb' = movedTo pgb (bestHash pgb) m mainRoot"
    using TipToSideChain_reaches[OF m] assms(2) by auto
  show ?thesis
    using assms(1) m(1) unfolding pgb' chainInv_def movedTo_def
    by (auto intro: blocksOk_offMain flagsOk_offMain spendsOk_offMain mainIs_moved)
qed

subsection \<open>A concrete chain\<close>

definition pgBlock :: "nat \<Rightarrow> string \<Rightarrow> int \<Rightarrow> string \<Rightarrow> nat list \<Rightarrow> BlocksRow" where
  "pgBlock i h height prev txs = \<lparr>blk_id = i, blk_hash = h, blk_height = height, blk_size = 0, blk_is_valid = True,
     blk_is_mainchain = True, blk_time = 10 * height, blk_voters = 5, blk_sbits = 0, blk_txDbIDs = txs, blk_stxDbIDs = [],
     blk_previous_hash = prev, blk_chainwork = [], blk_winners = []\<rparr>"

definition pgTx :: "nat \<Rightarrow> string \<Rightarrow> int \<Rightarrow> string \<Rightarrow> nat list \<Rightarrow> nat list \<Rightarrow> TransactionsRow" where
  "pgTx i blk height hash vinIds voutIds = \<lparr>tx_id = i, tx_block_hash = blk, tx_block_height = height, tx_block_time = 10 * height,
     tx_tx_type = 0, tx_tree = 0, tx_tx_hash = hash, tx_block_index = 0, tx_fees = 0, tx_mix_count = 0, tx_mix_denom = 0,
     tx_vin_db_ids = vinIds, tx_vout_db_ids = voutIds, tx_is_valid = True, tx_is_mainchain = True\<rparr>"

definition pgVin :: "nat \<Rightarrow> string \<Rightarrow> string \<Rightarrow> VinsRow" where
  "pgVin i hash prev = \<lparr>vin_id = i, vin_tx_hash = hash, vin_tx_index = 0, vin_tx_tree = 0, vin_is_valid = True,
     vin_is_mainchain = True, vin_block_time = 20, vin_prev_tx_hash = prev, vin_prev_tx_index = 0, vin_prev_tx_tree = 0,
     vin_value_in = 5, vin_tx_type = 0\<rparr>"

definition pgVout :: "nat \<Rightarrow> string \<Rightarrow> nat option \<Rightarrow> VoutsRow" where
  "pgVout i hash spend = \<lparr>vout_id = i, vout_tx_hash = hash, vout_tx_index = 0, vout_tx_tree = 0, vout_value = 5,
     vout_version = 0, vout_pkscript = [], vout_script_type = ''pubkeyhash'', vout_script_addresses = [''Ds1''],
     vout_mixed = False, vout_spend_tx_row_id = spend\<rparr>"

definition pgAddr :: "nat \<Rightarrow> string \<Rightarrow> bool \<Rightarrow> nat \<Rightarrow> AddressesRow" where
  "pgAddr i hash funding row = \<lparr>addr_id = i, addr_address = ''Ds1'', addr_tx_hash = hash, addr_valid_mainchain = True,
     addr_matching_tx_hash = [], addr_value = 5, addr_block_time = 20, addr_is_funding = funding, addr_tx_vin_vout_index = 0,
     addr_tx_vin_vout_row_id = row, addr_tx_type = 0\<rparr>"

definition pgSerials :: Serials where
  "pgSerials = \<lparr>sq_blocks = 4, sq_transactions = 4, sq_vins = 4, sq_vouts = 4, sq_addresses = 4, sq_tickets = 1, sq_votes = 1,
     sq_misses = 1\<rparr>"

text \<open>Three blocks; a transaction of the last one spends the output of the second one.\<close>

definition pgEx :: PgDB where
  "pgEx = \<lparr>blocks = [pgBlock 1 ''g'' 0 ''0'' [], pgBlock 2 ''a'' 1 ''g'' [1], pgBlock 3 ''b'' 2 ''a'' [2]],
     block_chain = [\<lparr>bc_block_db_id = 1, bc_prev_hash = ''0'', bc_this_hash = ''g'', bc_next_hash = ''a''\<rparr>,
                    \<lparr>bc_block_db_id = 2, bc_prev_hash = ''g'', bc_this_hash = ''a'', bc_next_hash = ''b''\<rparr>,
                    \<lparr>bc_block_db_id = 3, bc_prev_hash = ''a'', bc_this_hash = ''b'', bc_next_hash = []\<rparr>],
     transactions = [pgTx 1 ''a'' 1 ''t1'' [1] [1], pgTx 2 ''b'' 2 ''t2'' [2] [2]],
     vins = [pgVin 1 ''t1'' ''0'', pgVin 2 ''t2'' ''t1''],
     vouts = [pgVout 1 ''t1'' (Some 2), pgVout 2 ''t2'' None],
     addresses = [pgAddr 1 ''t1'' True 1, pgAddr 2 ''t2'' True 2, pgAddr 3 ''t2'' False 2],
     tickets = [], votes = [], misses = [], stats = [],
     meta = [\<lparr>meta_best_block_height = 2, meta_best_block_hash = ''b'', meta_ibd_complete = True\<rparr>],
     serials = pgSerials\<rparr>"

definition pgExChain :: ChainDB where
  "pgExChain = \<lparr>pg = pgEx, bestHeight = 2, bestHash = ''b'', lastBlock = [], dupChecks = True, InBatchSync = False,
     InReorg = True, utxoCache = [], ticketIds = [], mixSetDiffs = []\<rparr>"

lemma pgEx_prev:
  "prevOf pgEx ''b'' = ''a''" "prevOf pgEx ''a'' = ''g''" "prevOf pgEx ''g'' = ''0''"
  by (simp_all add: prevOf_def RetrievePreviousHashByBlockHash_def pgEx_def pgBlock_def queryRow_def)

lemma pgEx_chain: "''b'' \<in> ancestors pgEx ''b''" "''a'' \<in> ancestors pgEx ''b''" "''g'' \<in> ancestors pgEx ''b''"
proof -
  have "(prevOf pgEx ^^ 0) ''b'' = ''b''" "(prevOf pgEx ^^ 1) ''b'' = ''a''" "(prevOf pgEx ^^ 2) ''b'' = ''g''"
    by (simp_all add: pgEx_prev numeral_2_eq_2)
  then show "''b'' \<in> ancestors pgEx ''b''" "''a'' \<in> ancestors pgEx ''b''" "''g'' \<in> ancestors pgEx ''b''"
    unfolding ancestors_def by (metis (mono_tags, lifting) mem_Collect_eq)+
qed

lemma pgExChain_inv: "chainInv pgExChain"
proof -
  have "blocksOk pgEx" "flagsOk pgEx" "spendsOk pgEx"
    by (auto simp: blocksOk_def flagsOk_def spendsOk_def pgEx_def pgBlock_def pgTx_def pgVout_def)
  moreover have "mainIs pgEx ''b''"
    using pgEx_chain unfolding mainIs_def by (auto simp: pgEx_def pgBlock_def)
  ultimately show ?thesis
    by (simp add: chainInv_def pgExChain_def)
qed

lemma pgExChain_moves: "TipToSideChain pgExChain ''g'' = Some (''g'', 2, movedTo pgExChain ''b'' 2 ''g'')"
proof -
  have "(prevOf pgEx ^^ 2) ''b'' = ''g''" "\<forall>k<2. (prevOf pgEx ^^ k) ''b'' \<noteq> ''g''"
    by (simp_all add: pgEx_prev numeral_2_eq_2 less_Suc_eq)
  then show ?thesis
    using TipToSideChain_reaches[where pgb = pgExChain and n = 2 and root = "''g''"] by (simp add: pgExChain_def)
qed

lemma TipToSideChain_moves_witness:
  "\<exists>pgb'. TipToSideChain pgExChain ''g'' = Some (''g'', 2, pgb') \<and> bestHash pgb' = ''g'' \<and>
     map blk_is_mainchain (blocks (pg pgb')) = [True, False, False] \<and>
     map vout_spend_tx_row_id (vouts (pg pgb')) = [None, None]"
proof -
  have c: "chainOf pgEx ''b'' 2 = {''b'', ''a''}"
    by (simp add: numeral_2_eq_2 chainOf_Suc pgEx_prev)
  have "pg (movedTo pgExChain ''b'' 2 ''g'') = offMain {''b'', ''a''} pgEx \<and> bestHash (movedTo pgExChain ''b'' 2 ''g'') = ''g''"
    using TipToSideChain_moves[OF pgExChain_moves] c by (simp add: pgExChain_def)
  moreover have "map blk_is_mainchain (blocks (offMain {''b'', ''a''} pgEx)) = [True, False, False]"
    "map vout_spend_tx_row_id (vouts (offMain {''b'', ''a''} pgEx)) = [None, None]"
    by (simp_all add: offMain_def updateWhere_def pgEx_def pgBlock_def pgVout_def txIDsOf_list pgTx_def)
  ultimately show ?thesis
    using pgExChain_moves by auto
qed

lemma TipToSideChain_invariant_witness:
  "\<exists>pgb'. TipToSideChain pgExChain ''g'' = Some (''g'', 2, pgb') \<and> chainInv pgExChain \<and> chainInv pgb'"
  using TipToSideChain_invariant[OF pgExChain_inv pgExChain_moves] pgExChain_moves pgExChain_inv by blast

end
