(* ===== verification/PgRewind.thy ===== *)
theory PgRewind
  imports PgReorg SqlArrays
begin

text \<open>
  Removing the data of blocks (\<open>db/dcrpg/rewind.go\<close> and the statements of \<open>internal/rewind.go\<close>).

  \<open>DeleteBlockData\<close> runs in one database transaction that it commits on every path of the model, since
  a statement cannot fail here and the update of a \<open>next_hash\<close> that does not hit exactly one row is only
  logged. The numbers of rows it removed are a \<open>DeletionSummary\<close> without its timings.
\<close>

subsection \<open>The rows of a block\<close>

text \<open>The sub-query shared by the deletions: the transactions whose id the block's row lists.\<close>

definition txnsForBlockHash :: "PgDB \<Rightarrow> string \<Rightarrow> nat list" where
  "txnsForBlockHash db hash =
     map tx_id (filter (\<lambda>t. \<exists>b\<in>set (blocks db). blk_hash b = hash \<and> tx_id t \<in> set (blk_txDbIDs b @ blk_stxDbIDs b))
       (transactions db))"

definition vinsForBlockHash :: "PgDB \<Rightarrow> string \<Rightarrow> nat list" where
  "vinsForBlockHash db hash =
     map vin_id (filter (\<lambda>v. \<exists>t\<in>set (transactions db). vin_id v \<in> set (tx_vin_db_ids t) \<and>
       tx_id t \<in> set (txnsForBlockHash db hash)) (vins db))"

definition voutsForBlockHash :: "PgDB \<Rightarrow> string \<Rightarrow> nat list" where
  "voutsForBlockHash db hash =
     map vout_id (filter (\<lambda>v. \<exists>t\<in>set (transactions db). vout_id v \<in> set (tx_vout_db_ids t) \<and>
       tx_id t \<in> set (txnsForBlockHash db hash)) (vouts db))"

definition addressesForBlockHash :: "PgDB \<Rightarrow> string \<Rightarrow> nat list" where
  "addressesForBlockHash db hash =
     map addr_id (filter (\<lambda>a. \<exists>t\<in>set (transactions db).
       (\<not> addr_is_funding a \<and> addr_tx_vin_vout_row_id a \<in> set (tx_vin_db_ids t) \<or>
        addr_is_funding a \<and> addr_tx_vin_vout_row_id a \<in> set (tx_vout_db_ids t)) \<and>
       tx_id t \<in> set (txnsForBlockHash db hash)) (addresses db))"

subsection \<open>Deletions\<close>

definition deleteVinsForBlockSubQry :: "PgDB \<Rightarrow> string \<Rightarrow> PgDB \<times> nat" where
  "deleteVinsForBlockSubQry db hash =
     (let hit = (\<lambda>r. vin_id r \<in> set (vinsForBlockHash db hash))
      in (db\<lparr>vins := deleteWhere hit (vins db)\<rparr>, countWhere hit (vins db)))"

definition deleteVoutsForBlockSubQry :: "PgDB \<Rightarrow> string \<Rightarrow> PgDB \<times> nat" where
  "deleteVoutsForBlockSubQry db hash =
     (let hit = (\<lambda>r. vout_id r \<in> set (voutsForBlockHash db hash))
      in (db\<lparr>vouts := deleteWhere hit (vouts db)\<rparr>, countWhere hit (vouts db)))"

definition deleteAddressesForBlockSubQry :: "PgDB \<Rightarrow> string \<Rightarrow> PgDB \<times> nat" where
  "deleteAddressesForBlockSubQry db hash =
     (let hit = (\<lambda>r. addr_id r \<in> set (addressesForBlockHash db hash))
      in (db\<lparr>addresses := deleteWhere hit (addresses db)\<rparr>, countWhere hit (addresses db)))"

definition deleteTransactionsForBlock :: "PgDB \<Rightarrow> string \<Rightarrow> PgDB \<times> nat list" where
  "deleteTransactionsForBlock db hash =
     (db\<lparr>transactions := deleteWhere (\<lambda>r. tx_block_hash r = hash) (transactions db)\<rparr>,
      map tx_id (filter (\<lambda>r. tx_block_hash r = hash) (transactions db)))"

text \<open>\<open>UPDATE vouts SET spend_tx_row_id = NULL WHERE id = ANY($1)\<close>: the ids are those of \<open>vouts\<close>.\<close>

definition resetSpendingForVoutsByTxRowID :: "PgDB \<Rightarrow> nat list \<Rightarrow> PgDB \<times> nat" where
  "resetSpendingForVoutsByTxRowID db spendingTxRowIDs =
     (db\<lparr>vouts := updateWhere (\<lambda>r. vout_id r \<in> set spendingTxRowIDs) (vout_spend_tx_row_id_update (\<lambda>_. None)) (vouts db)\<rparr>,
      countWhere (\<lambda>r. vout_id r \<in> set spendingTxRowIDs) (vouts db))"

definition deleteTicketsForBlock :: "PgDB \<Rightarrow> string \<Rightarrow> PgDB \<times> nat" where
  "deleteTicketsForBlock db hash =
     (db\<lparr>tickets := deleteWhere (\<lambda>r. tkt_block_hash r = hash) (tickets db)\<rparr>,
      countWhere (\<lambda>r. tkt_block_hash r = hash) (tickets db))"

definition deleteVotesForBlock :: "PgDB \<Rightarrow> string \<Rightarrow> PgDB \<times> nat" where
  "deleteVotesForBlock db hash =
     (db\<lparr>votes := deleteWhere (\<lambda>r. vote_block_hash r = hash) (votes db)\<rparr>,
      countWhere (\<lambda>r. vote_block_hash r = hash) (votes db))"

definition deleteMissesForBlock :: "PgDB \<Rightarrow> string \<Rightarrow> PgDB \<times> nat" where
  "deleteMissesForBlock db hash =
     (db\<lparr>misses := deleteWhere (\<lambda>r. miss_block_hash r = hash) (misses db)\<rparr>,
      countWhere (\<lambda>r. miss_block_hash r = hash) (misses db))"

text \<open>\<open>DELETE FROM blocks\<close>; the rows of \<open>stats\<close> that refer to the block go with it (\<open>ON DELETE CASCADE\<close>).\<close>

definition deleteBlock :: "PgDB \<Rightarrow> string \<Rightarrow> PgDB \<times> nat" where
  "deleteBlock db hash =
     (db\<lparr>stats := deleteWhere (\<lambda>s. \<exists>b\<in>set (blocks db). blk_hash b = hash \<and> blk_id b = st_blocks_id s) (stats db),
         blocks := deleteWhere (\<lambda>r. blk_hash r = hash) (blocks db)\<rparr>,
      countWhere (\<lambda>r. blk_hash r = hash) (blocks db))"

text \<open>
  \<open>deleteBlockFromChain\<close>: \<open>True\<close> when the update of the neighbour's \<open>next_hash\<close> hit exactly one row. When
  no row is deleted, the error of the query is replaced by that of the other update.
\<close>

definition deleteBlockFromChain :: "PgDB \<Rightarrow> string \<Rightarrow> PgDB \<times> bool" where
  "deleteBlockFromChain db hash =
     (let db' = db\<lparr>block_chain := deleteWhere (\<lambda>r. bc_this_hash r = hash) (block_chain db)\<rparr>
      in case map_option bc_prev_hash (queryRow (filter (\<lambda>r. bc_this_hash r = hash) (block_chain db))) of
           None \<Rightarrow> UpdateBlockNextByNextHash db' hash []
         | Some prevHash \<Rightarrow> UpdateBlockNextByHash db' prevHash [])"

definition DeleteBlockData :: "PgDB \<Rightarrow> string \<Rightarrow> PgDB \<times> DeletionSummary" where
  "DeleteBlockData db hash =
     (let (db1, nVins) = deleteVinsForBlockSubQry db hash;
          (db2, nVouts) = deleteVoutsForBlockSubQry db1 hash;
          (db3, nAddrs) = deleteAddressesForBlockSubQry db2 hash;
          (db4, txIDsRemoved) = deleteTransactionsForBlock db3 hash;
          (db5, voutsReset) = resetSpendingForVoutsByTxRowID db4 txIDsRemoved;
          (db6, nTickets) = deleteTicketsForBlock db5 hash;
          (db7, nVotes) = deleteVotesForBlock db6 hash;
          (db8, nMisses) = deleteMissesForBlock db7 hash;
          (db9, nBlocks) = deleteBlock db8 hash;
          (db10, oneRow) = deleteBlockFromChain db9 hash
      in (db10, \<lparr>dsBlocks = word_of_nat nBlocks, dsVins = word_of_nat nVins, dsVouts = word_of_nat nVouts,
                 dsAddresses = word_of_nat nAddrs, dsTransactions = word_of_nat (length txIDsRemoved),
                 dsTickets = word_of_nat nTickets, dsVotes = word_of_nat nVotes, dsMisses = word_of_nat nMisses\<rparr>))"

text \<open>
  \<open>DeleteBestBlock\<close>: the summary, the new best block, and whether the \<open>meta\<close> table took it. What was
  deleted stays deleted when it did not.
\<close>

definition DeleteBestBlock :: "PgDB \<Rightarrow> DeletionSummary \<times> int \<times> string \<times> bool \<times> PgDB" where
  "DeleteBestBlock db =
     (let (_, hash) = RetrieveBestBlock db;
          (db1, res) = DeleteBlockData db hash;
          (height', hash') = RetrieveBestBlock db1;
          (db2, ok) = SetDBBestBlock db1 hash' height'
      in (res, height', hash', ok, db2))"

text \<open>
  The loop of \<open>DeleteBlocks\<close>, which stops at an error and when no block is left. The error of the last
  iteration is its \<open>ok\<close>; the summary of a failed iteration is dropped.
\<close>

fun deleteBlocksLoop :: "nat \<Rightarrow> PgDB \<Rightarrow> DeletionSummary list \<Rightarrow> int \<Rightarrow> string \<Rightarrow> DeletionSummary list \<times> int \<times> string \<times> bool \<times> PgDB" where
  "deleteBlocksLoop 0 db res height hash = (res, height, hash, True, db)"
| "deleteBlocksLoop (Suc n) db res _ _ =
     (let (resi, height, hash, ok, db') = DeleteBestBlock db
      in if \<not> ok then (res, height, hash, False, db')
         else if hash = [] then (res @ [resi], height, hash, True, db')
         else deleteBlocksLoop n db' (res @ [resi]) height hash)"

definition DeleteBlocks :: "int \<Rightarrow> PgDB \<Rightarrow> DeletionSummary list \<times> int \<times> string \<times> bool \<times> PgDB" where
  "DeleteBlocks N db =
     (if N < 1 then (case RetrieveBestBlock db of (height, hash) \<Rightarrow> ([], height, hash, True, db))
      else deleteBlocksLoop (nat N) db [] 0 [])"

subsection \<open>What a deletion leaves\<close>

text \<open>
  The block rows list the ids of their own transactions, and no others. Row ids identify the address
  rows.
\<close>

definition linksOk :: "PgDB \<Rightarrow> bool" where
  "linksOk db \<longleftrightarrow> distinct (map addr_id (addresses db)) \<and>
     (\<forall>t\<in>set (transactions db). \<exists>b\<in>set (blocks db). blk_hash b = tx_block_hash t) \<and>
     (\<forall>b\<in>set (blocks db). \<forall>t\<in>set (transactions db).
        tx_id t \<in> set (blk_txDbIDs b @ blk_stxDbIDs b) \<longleftrightarrow> tx_block_hash t = blk_hash b)"

lemma linked_tx:
  assumes "linksOk db" "t \<in> set (transactions db)"
  shows "(\<exists>b\<in>set (blocks db). blk_hash b = hash \<and> tx_id t \<in> set (blk_txDbIDs b @ blk_stxDbIDs b)) \<longleftrightarrow> tx_block_hash t = hash"
proof
  assume "\<exists>b\<in>set (blocks db). blk_hash b = hash \<and> tx_id t \<in> set (blk_txDbIDs b @ blk_stxDbIDs b)"
  then obtain b where "b \<in> set (blocks db)" "blk_hash b = hash" "tx_id t \<in> set (blk_txDbIDs b @ blk_stxDbIDs b)"
    by (elim bexE conjE)
  then show "tx_block_hash t = hash"
    using assms unfolding linksOk_def by blast
next
  assume "tx_block_hash t = hash"
  moreover obtain b where "b \<in> set (blocks db)" "blk_hash b = tx_block_hash t"
    using assms unfolding linksOk_def by blast
  ultimately show "\<exists>b\<in>set (blocks db). blk_hash b = hash \<and> tx_id t \<in> set (blk_txDbIDs b @ blk_stxDbIDs b)"
    using assms unfolding linksOk_def by metis
qed

lemma txnsForBlockHash_eq:
  "linksOk db \<Longrightarrow> txnsForBlockHash db hash = map tx_id (filter (\<lambda>t. tx_block_hash t = hash) (transactions db))"
  unfolding txnsForBlockHash_def by (rule arg_cong[where f = "map tx_id"], rule filter_cong[OF refl], rule linked_tx)

lemma tx_of_block:
  assumes "linksOk db" "t \<in> set (transactions db)"
  shows "tx_id t \<in> set (txnsForBlockHash db hash) \<longleftrightarrow> tx_block_hash t = hash"
proof -
  have "tx_block_hash t = hash" if "u \<in> set (transactions db)" "tx_block_hash u = hash" "tx_id u = tx_id t" for u
    using linked_tx[OF assms(1) that(1), of hash] linked_tx[OF assms, of hash] that(2,3) by simp
  then show ?thesis
    using assms unfolding txnsForBlockHash_eq[OF assms(1)] by auto
qed

lemma vinsForBlockHash_hit:
  assumes "linksOk db" "r \<in> set (vins db)"
  shows "vin_id r \<in> set (vinsForBlockHash db hash) \<longleftrightarrow> vin_id r \<in> vinIDsOf {hash} db"
  using assms(2) tx_of_block[OF assms(1), of _ hash] by (auto simp: vinsForBlockHash_def vinIDsOf_def)

lemma voutsForBlockHash_hit:
  assumes "linksOk db" "r \<in> set (vouts db)"
  shows "vout_id r \<in> set (voutsForBlockHash db hash) \<longleftrightarrow> vout_id r \<in> voutIDsOf {hash} db"
  using assms(2) tx_of_block[OF assms(1), of _ hash] by (auto simp: voutsForBlockHash_def voutIDsOf_def)

definition addrOf :: "string \<Rightarrow> PgDB \<Rightarrow> AddressesRow \<Rightarrow> bool" where
  "addrOf hash db a \<longleftrightarrow> addr_tx_vin_vout_row_id a \<in> (if addr_is_funding a then voutIDsOf {hash} db else vinIDsOf {hash} db)"

lemma addressesForBlockHash_hit:
  assumes "linksOk db" "r \<in> set (addresses db)"
  shows "addr_id r \<in> set (addressesForBlockHash db hash) \<longleftrightarrow> addrOf hash db r"
proof -
  have "inj_on addr_id (set (addresses db))"
    using assms(1) by (simp add: linksOk_def distinct_map)
  then have "addr_id r \<in> addr_id ` {a \<in> set (addresses db). P a} \<longleftrightarrow> P r" for P
    using assms(2) by (auto dest: inj_onD)
  then show ?thesis
    using tx_of_block[OF assms(1), of _ hash]
    by (auto simp: addressesForBlockHash_def addrOf_def vinIDsOf_def voutIDsOf_def)
qed

lemma deleteWhere_cong: "(\<And>r. r \<in> set rows \<Longrightarrow> P r = Q r) \<Longrightarrow> deleteWhere P rows = deleteWhere Q rows"
  unfolding deleteWhere_def by (rule filter_cong) simp_all

text \<open>The specification of a deletion.\<close>

definition withoutBlock :: "string \<Rightarrow> PgDB \<Rightarrow> PgDB" where
  "withoutBlock hash db = fst (deleteBlockFromChain (db\<lparr>
     blocks := deleteWhere (\<lambda>r. blk_hash r = hash) (blocks db),
     transactions := deleteWhere (\<lambda>r. tx_block_hash r = hash) (transactions db),
     vins := deleteWhere (\<lambda>r. vin_id r \<in> vinIDsOf {hash} db) (vins db),
     vouts := updateWhere (\<lambda>r. vout_id r \<in> txIDsOf {hash} db) (vout_spend_tx_row_id_update (\<lambda>_. None))
       (deleteWhere (\<lambda>r. vout_id r \<in> voutIDsOf {hash} db) (vouts db)),
     addresses := deleteWhere (addrOf hash db) (addresses db),
     tickets := deleteWhere (\<lambda>r. tkt_block_hash r = hash) (tickets db),
     votes := deleteWhere (\<lambda>r. vote_block_hash r = hash) (votes db),
     misses := deleteWhere (\<lambda>r. miss_block_hash r = hash) (misses db),
     stats := deleteWhere (\<lambda>s. \<exists>b\<in>set (blocks db). blk_hash b = hash \<and> blk_id b = st_blocks_id s) (stats db)\<rparr>) hash)"

lemma forBlock_vins [simp]:
  "txnsForBlockHash (db\<lparr>vins := v\<rparr>) = txnsForBlockHash db" "voutsForBlockHash (db\<lparr>vins := v\<rparr>) = voutsForBlockHash db"
  "addressesForBlockHash (db\<lparr>vins := v\<rparr>) = addressesForBlockHash db"
  by (simp_all add: fun_eq_iff txnsForBlockHash_def voutsForBlockHash_def addressesForBlockHash_def)

lemma forBlock_vouts [simp]:
  "txnsForBlockHash (db\<lparr>vouts := v\<rparr>) = txnsForBlockHash db" "addressesForBlockHash (db\<lparr>vouts := v\<rparr>) = addressesForBlockHash db"
  by (simp_all add: fun_eq_iff txnsForBlockHash_def addressesForBlockHash_def)

lemma DeleteBlockData_eq:
  assumes "linksOk db"
  shows "fst (DeleteBlockData db hash) = withoutBlock hash db"
proof -
  have ids: "set (map tx_id (filter (\<lambda>r. tx_block_hash r = hash) (transactions db))) = txIDsOf {hash} db"
    by (auto simp: txIDsOf_def)
  have v: "deleteWhere (\<lambda>r. vin_id r \<in> set (vinsForBlockHash db hash)) (vins db) = deleteWhere (\<lambda>r. vin_id r \<in> vinIDsOf {hash} db) (vins db)"
    by (rule deleteWhere_cong) (rule vinsForBlockHash_hit[OF assms])
  have o: "deleteWhere (\<lambda>r. vout_id r \<in> set (voutsForBlockHash db hash)) (vouts db) = deleteWhere (\<lambda>r. vout_id r \<in> voutIDsOf {hash} db) (vouts db)"
    by (rule deleteWhere_cong) (rule voutsForBlockHash_hit[OF assms])
  have a: "deleteWhere (\<lambda>r. addr_id r \<in> set (addressesForBlockHash db hash)) (addresses db) = deleteWhere (addrOf hash db) (addresses db)"
    by (rule deleteWhere_cong) (rule addressesForBlockHash_hit[OF assms])
  show ?thesis
    unfolding DeleteBlockData_def withoutBlock_def Let_def case_prod_unfold fst_conv
    by (rule arg_cong[where f = "\<lambda>d. fst (deleteBlockFromChain d hash)"], rule PgDB.equality)
      (simp_all add: deleteVinsForBlockSubQry_def deleteVoutsForBlockSubQry_def deleteAddressesForBlockSubQry_def
        deleteTransactionsForBlock_def resetSpendingForVoutsByTxRowID_def deleteTicketsForBlock_def deleteVotesForBlock_def
        deleteMissesForBlock_def deleteBlock_def Let_def v o a ids del: set_map set_filter)
qed

subsection \<open>The tables after a deletion\<close>

lemma deleteBlockFromChain_tables [simp]:
  "blocks (fst (deleteBlockFromChain db hash)) = blocks db" "transactions (fst (deleteBlockFromChain db hash)) = transactions db"
  "vins (fst (deleteBlockFromChain db hash)) = vins db" "vouts (fst (deleteBlockFromChain db hash)) = vouts db"
  "addresses (fst (deleteBlockFromChain db hash)) = addresses db" "tickets (fst (deleteBlockFromChain db hash)) = tickets db"
  "votes (fst (deleteBlockFromChain db hash)) = votes db" "misses (fst (deleteBlockFromChain db hash)) = misses db"
  "stats (fst (deleteBlockFromChain db hash)) = stats db" "serials (fst (deleteBlockFromChain db hash)) = serials db" "meta (fst (deleteBlockFromChain db hash)) = meta db"
  by (simp_all add: deleteBlockFromChain_def Let_def UpdateBlockNextByNextHash_def UpdateBlockNextByHash_def split: option.splits)

lemma deleteBlockFromChain_chain:
  "block_chain (fst (deleteBlockFromChain db hash)) = updateWhere
     (case queryRow (filter (\<lambda>r. bc_this_hash r = hash) (block_chain db)) of
        Some b \<Rightarrow> \<lambda>r. bc_this_hash r = bc_prev_hash b | None \<Rightarrow> \<lambda>r. bc_next_hash r = hash)
     (bc_next_hash_update (\<lambda>_. [])) (deleteWhere (\<lambda>r. bc_this_hash r = hash) (block_chain db))"
  by (simp add: deleteBlockFromChain_def Let_def UpdateBlockNextByNextHash_def UpdateBlockNextByHash_def split: option.splits)

lemma withoutBlock_tables:
  "blocks (withoutBlock hash db) = deleteWhere (\<lambda>r. blk_hash r = hash) (blocks db)"
  "transactions (withoutBlock hash db) = deleteWhere (\<lambda>r. tx_block_hash r = hash) (transactions db)"
  "addresses (withoutBlock hash db) = deleteWhere (addrOf hash db) (addresses db)"
  "tickets (withoutBlock hash db) = deleteWhere (\<lambda>r. tkt_block_hash r = hash) (tickets db)"
  "votes (withoutBlock hash db) = deleteWhere (\<lambda>r. vote_block_hash r = hash) (votes db)"
  "misses (withoutBlock hash db) = deleteWhere (\<lambda>r. miss_block_hash r = hash) (misses db)"
  "meta (withoutBlock hash db) = meta db" "serials (withoutBlock hash db) = serials db"
  "vins (withoutBlock hash db) = deleteWhere (\<lambda>r. vin_id r \<in> vinIDsOf {hash} db) (vins db)"
  "vouts (withoutBlock hash db) = updateWhere (\<lambda>r. vout_id r \<in> txIDsOf {hash} db) (vout_spend_tx_row_id_update (\<lambda>_. None))
     (deleteWhere (\<lambda>r. vout_id r \<in> voutIDsOf {hash} db) (vouts db))"
  "stats (withoutBlock hash db) = deleteWhere (\<lambda>s. \<exists>b\<in>set (blocks db). blk_hash b = hash \<and> blk_id b = st_blocks_id s) (stats db)"
  "block_chain (withoutBlock hash db) = updateWhere
     (case queryRow (filter (\<lambda>r. bc_this_hash r = hash) (block_chain db)) of
        Some b \<Rightarrow> \<lambda>r. bc_this_hash r = bc_prev_hash b | None \<Rightarrow> \<lambda>r. bc_next_hash r = hash)
     (bc_next_hash_update (\<lambda>_. [])) (deleteWhere (\<lambda>r. bc_this_hash r = hash) (block_chain db))"
  by (simp_all add: withoutBlock_def deleteBlockFromChain_chain)

lemma linksOk_withoutBlock: "linksOk db \<Longrightarrow> linksOk (withoutBlock hash db)"
  unfolding linksOk_def withoutBlock_tables by (auto simp: deleteWhere_def distinct_map_filter) metis

lemma blocksOk_withoutBlock: "blocksOk db \<Longrightarrow> blocksOk (withoutBlock hash db)"
  unfolding blocksOk_def withoutBlock_tables by (auto simp: deleteWhere_def distinct_map_filter)

lemma hash_rows_withoutBlock:
  "filter (\<lambda>r. blk_hash r = h) (blocks (withoutBlock hash db)) = (if h = hash then [] else filter (\<lambda>r. blk_hash r = h) (blocks db))"
  by (auto simp: withoutBlock_tables deleteWhere_def filter_empty_conv intro: filter_cong)

lemma prevOf_withoutBlock: "prevOf (withoutBlock hash db) h = (if h = hash then [] else prevOf db h)"
  by (simp add: prevOf_def RetrievePreviousHashByBlockHash_def hash_rows_withoutBlock queryRow_def)

lemma BlockHeight_withoutBlock: "h \<noteq> hash \<Longrightarrow> BlockHeightPg (withoutBlock hash db) h = BlockHeightPg db h"
  by (simp add: BlockHeightPg_def RetrieveBlockHeight_def hash_rows_withoutBlock)

text \<open>Below the deleted tip, the chain is what it was.\<close>

lemma chain_withoutBlock:
  assumes "blocksOk db" "tip \<in> blk_hash ` set (blocks db)"
  shows "(prevOf (withoutBlock tip db) ^^ k) (prevOf db tip) = (prevOf db ^^ k) (prevOf db tip)"
    and "(prevOf db ^^ k) (prevOf db tip) \<noteq> tip"
proof -
  obtain b where b: "b \<in> set (blocks db)" "blk_hash b = tip"
    using assms(2) by auto
  have ne: "(prevOf db ^^ j) (prevOf db tip) \<noteq> tip" for j
  proof
    assume "(prevOf db ^^ j) (prevOf db tip) = tip"
    then have "blk_hash b = (prevOf db ^^ Suc j) (blk_hash b)"
      by (simp only: funpow_Suc_right o_def b(2))
    then show False
      using ancestor_lower[OF assms(1) b(1) b(1)] by blast
  qed
  then show "(prevOf db ^^ k) (prevOf db tip) \<noteq> tip" .
  show "(prevOf (withoutBlock tip db) ^^ k) (prevOf db tip) = (prevOf db ^^ k) (prevOf db tip)"
    by (induction k) (simp_all add: prevOf_withoutBlock ne)
qed

lemma ancestors_Suc: "ancestors db tip = insert tip (ancestors db (prevOf db tip))"
  using ancestors_split[where db = db and n = 1 and tip = tip and root = "prevOf db tip"] by (simp add: chainOf_Suc)

lemma mainIs_withoutBlock:
  assumes "blocksOk db" "mainIs db tip" "tip \<in> blk_hash ` set (blocks db)"
  shows "mainIs (withoutBlock tip db) (prevOf db tip)"
proof -
  have "ancestors (withoutBlock tip db) (prevOf db tip) = ancestors db (prevOf db tip)"
    by (simp add: ancestors_def chain_withoutBlock[OF assms(1,3)])
  then show ?thesis
    using assms(2) unfolding mainIs_def withoutBlock_tables ancestors_Suc[of db tip] by auto
qed

text \<open>The best block of the \<open>blocks\<close> table is the tip of the main chain.\<close>

lemma BlockHeight_row: "blocksOk db \<Longrightarrow> b \<in> set (blocks db) \<Longrightarrow> BlockHeightPg db (blk_hash b) = blk_height b"
  by (simp add: BlockHeightPg_def RetrieveBlockHeight_def blocksOk_def filter_hash_unique queryRow_def)

lemma RetrieveBestBlock_tip:
  assumes "blocksOk db" "mainIs db tip" "tip \<in> blk_hash ` set (blocks db)"
  shows "RetrieveBestBlock db = (BlockHeightPg db tip, tip)"
proof -
  obtain b where b: "b \<in> set (blocks db)" "blk_hash b = tip"
    using assms(3) by auto
  let ?main = "filter blk_is_mainchain (blocks db)"
  have "tip \<in> ancestors db tip"
    by (subst ancestors_Suc) simp
  then have bm: "b \<in> set ?main"
    using b assms(2) by (auto simp: mainIs_def)
  then obtain m where m: "topRow blk_height ?main = Some m"
    by (metis empty_iff list.set(1) not_None_eq topRow_None)
  then have max: "m \<in> set ?main" "blk_height b \<le> blk_height m"
    using topRow_Some[OF m] bm by blast+
  then obtain n where n: "blk_hash m = (prevOf db ^^ n) (blk_hash b)"
    using assms(2) b by (auto simp: mainIs_def ancestors_def)
  have "n = 0"
    using ancestor_lower[OF assms(1) b(1) _ n] max by fastforce
  then have "blk_hash m = tip"
    using n b by simp
  moreover have "blk_height m = BlockHeightPg db tip"
    using BlockHeight_row[OF assms(1), of m] max \<open>blk_hash m = tip\<close> by simp
  ultimately show ?thesis
    by (simp add: RetrieveBestBlock_def RetrieveBestBlockHeight_def m)
qed

subsection \<open>Deleting the best blocks\<close>

text \<open>Every block has rows in \<open>block_chain\<close>, and they name its predecessor.\<close>

definition chainLinked :: "PgDB \<Rightarrow> bool" where
  "chainLinked db \<longleftrightarrow> (\<forall>b\<in>set (blocks db). blk_hash b \<in> bc_this_hash ` set (block_chain db) \<and>
     (\<forall>r\<in>set (block_chain db). bc_this_hash r = blk_hash b \<longrightarrow> bc_prev_hash r = blk_previous_hash b))"

lemma this_hash_update [simp]:
  "bc_this_hash ` set (updateWhere Q (bc_next_hash_update (\<lambda>_. h)) rows) = bc_this_hash ` set rows"
proof -
  have "bc_this_hash (if Q r then bc_next_hash_update (\<lambda>_. h) r else r) = bc_this_hash r" for r
    by simp
  then show ?thesis by (simp only: updateWhere_def set_map image_image)
qed

lemma chainLinked_withoutBlock:
  "chainLinked db \<Longrightarrow> chainLinked (withoutBlock hash db)"
  unfolding chainLinked_def withoutBlock_tables this_hash_update
  by (auto elim!: updateWhereE)

lemma block_chain_withoutBlock:
  assumes "blocksOk db" "chainLinked db" "tip \<in> blk_hash ` set (blocks db)"
  shows "block_chain (withoutBlock tip db) = updateWhere (\<lambda>r. bc_this_hash r = prevOf db tip) (bc_next_hash_update (\<lambda>_. []))
    (deleteWhere (\<lambda>r. bc_this_hash r = tip) (block_chain db))"
proof -
  obtain b where b: "b \<in> set (blocks db)" "blk_hash b = tip"
    using assms(3) by auto
  then have "filter (\<lambda>r. bc_this_hash r = tip) (block_chain db) \<noteq> []"
    using assms(2) unfolding chainLinked_def filter_empty_conv by (metis imageE)
  then obtain r rs where q: "filter (\<lambda>r. bc_this_hash r = tip) (block_chain db) = r # rs"
    by (cases "filter (\<lambda>r. bc_this_hash r = tip) (block_chain db)") auto
  then have "r \<in> set (filter (\<lambda>r. bc_this_hash r = tip) (block_chain db))"
    by simp
  then have "r \<in> set (block_chain db)" "bc_this_hash r = tip"
    by simp_all
  then have "bc_prev_hash r = blk_previous_hash b"
    using assms(2) b(1) unfolding chainLinked_def b(2)[symmetric] by blast
  also have "\<dots> = prevOf db tip"
    using prevOf_block[OF assms(1) b(1)] b(2) by simp
  finally show ?thesis
    by (simp add: withoutBlock_tables q queryRow_def)
qed

text \<open>What the deletion of the best blocks needs of the database, whose tip is \<open>tip\<close>.\<close>

definition rewindOk :: "PgDB \<Rightarrow> string \<Rightarrow> bool" where
  "rewindOk db tip \<longleftrightarrow> linksOk db \<and> blocksOk db \<and> chainLinked db \<and> mainIs db tip \<and> length (meta db) = 1"

text \<open>The specification of a rewind: the database without the blocks \<open>C\<close>, with the best block \<open>root\<close>.\<close>

definition rewound :: "string set \<Rightarrow> string \<Rightarrow> int \<Rightarrow> PgDB \<Rightarrow> PgDB" where
  "rewound C root height db = db\<lparr>
     blocks := deleteWhere (\<lambda>r. blk_hash r \<in> C) (blocks db),
     block_chain := updateWhere (\<lambda>r. bc_this_hash r = root) (bc_next_hash_update (\<lambda>_. []))
       (deleteWhere (\<lambda>r. bc_this_hash r \<in> C) (block_chain db)),
     transactions := deleteWhere (\<lambda>r. tx_block_hash r \<in> C) (transactions db),
     vins := deleteWhere (\<lambda>r. vin_id r \<in> vinIDsOf C db) (vins db),
     vouts := updateWhere (\<lambda>r. vout_id r \<in> txIDsOf C db) (vout_spend_tx_row_id_update (\<lambda>_. None))
       (deleteWhere (\<lambda>r. vout_id r \<in> voutIDsOf C db) (vouts db)),
     addresses := deleteWhere (\<lambda>a. addr_tx_vin_vout_row_id a \<in> (if addr_is_funding a then voutIDsOf C db else vinIDsOf C db))
       (addresses db),
     tickets := deleteWhere (\<lambda>r. tkt_block_hash r \<in> C) (tickets db),
     votes := deleteWhere (\<lambda>r. vote_block_hash r \<in> C) (votes db),
     misses := deleteWhere (\<lambda>r. miss_block_hash r \<in> C) (misses db),
     stats := deleteWhere (\<lambda>s. \<exists>b\<in>set (blocks db). blk_hash b \<in> C \<and> blk_id b = st_blocks_id s) (stats db),
     meta := map (\<lambda>m. m\<lparr>meta_best_block_height := height, meta_best_block_hash := root\<rparr>) (meta db)\<rparr>"

lemma rewound_block:
  assumes "blocksOk db" "chainLinked db" "tip \<in> blk_hash ` set (blocks db)"
  shows "fst (SetDBBestBlock (withoutBlock tip db) (prevOf db tip) h) = rewound {tip} (prevOf db tip) h db"
proof -
  have "addrOf tip db = (\<lambda>a. addr_tx_vin_vout_row_id a \<in> (if addr_is_funding a then voutIDsOf {tip} db else vinIDsOf {tip} db))"
    by (simp add: fun_eq_iff addrOf_def)
  moreover note tables = withoutBlock_tables(1-11) block_chain_withoutBlock[OF assms]
  ultimately show ?thesis
    by (intro PgDB.equality) (simp_all add: SetDBBestBlock_def rewound_def tables del: if_split_mem2)
qed

lemma ids_rewound:
  "txIDsOf H (rewound C root h db) = txIDsOf (H - C) db" "vinIDsOf H (rewound C root h db) = vinIDsOf (H - C) db"
  "voutIDsOf H (rewound C root h db) = voutIDsOf (H - C) db"
  by (auto simp: rewound_def txIDsOf_def vinIDsOf_def voutIDsOf_def)

lemma deleteWhere_updateWhere:
  "(\<And>r. P (f r) = P r) \<Longrightarrow> deleteWhere P (updateWhere Q f rows) = updateWhere Q f (deleteWhere P rows)"
  by (induction rows) (auto simp: deleteWhere_def updateWhere_def)

lemma updateWhere_deleted: "(\<And>r. Q r \<Longrightarrow> P r) \<Longrightarrow> updateWhere Q f (deleteWhere P rows) = deleteWhere P rows"
  by (induction rows) (auto simp: deleteWhere_def updateWhere_def)

lemma ids_insert:
  "txIDsOf (insert tip C) db = txIDsOf (C - {tip}) db \<union> txIDsOf {tip} db"
  "vinIDsOf (insert tip C) db = vinIDsOf (C - {tip}) db \<union> vinIDsOf {tip} db"
  "voutIDsOf (insert tip C) db = voutIDsOf (C - {tip}) db \<union> voutIDsOf {tip} db"
  by (auto simp: txIDsOf_def vinIDsOf_def voutIDsOf_def)

lemma rewound_spends:
  "updateWhere (\<lambda>r. vout_id r \<in> I) (vout_spend_tx_row_id_update (\<lambda>_. None)) (deleteWhere (\<lambda>r. vout_id r \<in> J)
     (updateWhere (\<lambda>r. vout_id r \<in> I') (vout_spend_tx_row_id_update (\<lambda>_. None)) (deleteWhere (\<lambda>r. vout_id r \<in> J') rows))) =
   updateWhere (\<lambda>r. vout_id r \<in> I \<union> I') (vout_spend_tx_row_id_update (\<lambda>_. None)) (deleteWhere (\<lambda>r. vout_id r \<in> J \<union> J') rows)"
  by (simp add: deleteWhere_updateWhere voutReset.twice deleteWhere_deleteWhere)

lemma rewound_rewound:
  assumes "p \<in> C"
  shows "rewound C root h (rewound {tip} p h' db) = rewound (insert tip C) root h db" (is "?l = ?r")
proof -
  have "updateWhere (\<lambda>r. bc_this_hash r = p) f (deleteWhere (\<lambda>r. bc_this_hash r = tip \<or> bc_this_hash r \<in> C) rows)
      = deleteWhere (\<lambda>r. bc_this_hash r = tip \<or> bc_this_hash r \<in> C) rows" for f and rows :: "BlockChainRow list"
    using assms by (intro updateWhere_deleted) auto
  then have bc: "block_chain ?l = block_chain ?r"
    by (simp add: rewound_def deleteWhere_updateWhere deleteWhere_deleteWhere disj_commute)
  have vs: "vouts ?l = vouts ?r"
    unfolding rewound_def[of C] rewound_def[of "insert tip C"] ids_rewound ids_insert[of tip C] by (simp add: rewound_def rewound_spends)
  have vi: "vins ?l = vins ?r"
    unfolding rewound_def[of C] rewound_def[of "insert tip C"] ids_rewound ids_insert[of tip C]
    by (simp add: rewound_def deleteWhere_deleteWhere)
  have ad: "addresses ?l = addresses ?r"
    unfolding rewound_def[of C] rewound_def[of "insert tip C"] ids_rewound ids_insert[of tip C]
    by (simp add: rewound_def deleteWhere_deleteWhere)
  have st: "stats ?l = stats ?r"
    by (auto simp: rewound_def deleteWhere_deleteWhere intro!: deleteWhere_cong)
  have "blocks ?l = blocks ?r" "transactions ?l = transactions ?r" "tickets ?l = tickets ?r" "votes ?l = votes ?r"
    "misses ?l = misses ?r" "meta ?l = meta ?r" "serials ?l = serials ?r"
    by (auto simp: rewound_def deleteWhere_deleteWhere intro!: deleteWhere_cong)
  with bc vs vi ad st show ?thesis by (intro PgDB.equality) simp_all
qed

lemma SetDBBestBlock_tables [simp]:
  "blocks (fst (SetDBBestBlock db h i)) = blocks db" "block_chain (fst (SetDBBestBlock db h i)) = block_chain db" "transactions (fst (SetDBBestBlock db h i)) = transactions db"
  "addresses (fst (SetDBBestBlock db h i)) = addresses db" "tickets (fst (SetDBBestBlock db h i)) = tickets db"
  "votes (fst (SetDBBestBlock db h i)) = votes db" "misses (fst (SetDBBestBlock db h i)) = misses db"
  "length (meta (fst (SetDBBestBlock db h i))) = length (meta db)" "snd (SetDBBestBlock db h i) \<longleftrightarrow> length (meta db) = 1"
  by (simp_all add: SetDBBestBlock_def)

lemma chain_SetDBBestBlock [simp]:
  "prevOf (fst (SetDBBestBlock db h i)) = prevOf db" "linksOk (fst (SetDBBestBlock db h i)) = linksOk db"
  "blocksOk (fst (SetDBBestBlock db h i)) = blocksOk db" "BlockHeightPg (fst (SetDBBestBlock db h i)) = BlockHeightPg db"
  "RetrieveBestBlock (fst (SetDBBestBlock db h i)) = RetrieveBestBlock db"
  "chainLinked (fst (SetDBBestBlock db h i)) = chainLinked db"
  by (simp_all add: fun_eq_iff prevOf_def RetrievePreviousHashByBlockHash_def linksOk_def blocksOk_def BlockHeightPg_def
      RetrieveBlockHeight_def RetrieveBestBlock_def RetrieveBestBlockHeight_def chainLinked_def)

lemma mainIs_SetDBBestBlock [simp]: "mainIs (fst (SetDBBestBlock db h i)) tip = mainIs db tip"
  by (simp add: mainIs_def ancestors_def)

lemma DBBestBlock_set: "length (meta db) = 1 \<Longrightarrow> DBBestBlock (fst (SetDBBestBlock db hash height)) = (hash, height)"
  by (auto simp: DBBestBlock_def SetDBBestBlock_def queryRow_def length_Suc_conv)

lemma DeleteBestBlock_eq:
  assumes "rewindOk db tip" "tip \<in> blk_hash ` set (blocks db)" "prevOf db tip \<in> blk_hash ` set (blocks db)"
  shows "DeleteBestBlock db =
    (snd (DeleteBlockData db tip), BlockHeightPg db (prevOf db tip), prevOf db tip, True,
     fst (SetDBBestBlock (withoutBlock tip db) (prevOf db tip) (BlockHeightPg db (prevOf db tip))))"
proof -
  let ?p = "prevOf db tip"
  have inv: "linksOk db" "blocksOk db" "mainIs db tip" "length (meta db) = 1"
    using assms(1) by (simp_all add: rewindOk_def)
  have "?p \<noteq> tip"
    using chain_withoutBlock(2)[OF inv(2) assms(2), of 0] by simp
  then have "?p \<in> blk_hash ` set (blocks (withoutBlock tip db))"
    using assms(3) by (auto simp: withoutBlock_tables)
  then have "RetrieveBestBlock (withoutBlock tip db) = (BlockHeightPg db ?p, ?p)"
    using RetrieveBestBlock_tip[OF blocksOk_withoutBlock[OF inv(2)] mainIs_withoutBlock[OF inv(2,3) assms(2)]]
      BlockHeight_withoutBlock[OF \<open>?p \<noteq> tip\<close>] by simp
  then show ?thesis
    using RetrieveBestBlock_tip[OF inv(2,3) assms(2)] DeleteBlockData_eq[OF inv(1), of tip] inv(4)
    by (simp add: DeleteBestBlock_def Let_def case_prod_unfold withoutBlock_tables)
qed

lemma chainOf_cong:
  "(\<And>k. k < n \<Longrightarrow> (prevOf db ^^ k) a = (prevOf db' ^^ k) a) \<Longrightarrow> chainOf db a n = chainOf db' a n"
  by (auto simp: chainOf_def) metis

lemma deleteBlocksLoop_chain:
  assumes "rewindOk db tip" "\<forall>k\<le>n. (prevOf db ^^ k) tip \<in> blk_hash ` set (blocks db)" "0 < n"
  shows "\<exists>ds db'. deleteBlocksLoop n db res h0 s0 =
      (res @ ds, BlockHeightPg db ((prevOf db ^^ n) tip), (prevOf db ^^ n) tip, True, db') \<and> length ds = n \<and>
    rewindOk db' ((prevOf db ^^ n) tip) \<and>
    db' = rewound (chainOf db tip n) ((prevOf db ^^ n) tip) (BlockHeightPg db ((prevOf db ^^ n) tip)) db"
  using assms
proof (induction n arbitrary: db tip res h0 s0)
  case (Suc n)
  let ?p = "prevOf db tip"
  let ?w = "withoutBlock tip db"
  let ?d = "fst (SetDBBestBlock ?w ?p (BlockHeightPg db ?p))"
  let ?s = "snd (DeleteBlockData db tip)"
  have inv: "linksOk db" "blocksOk db" "chainLinked db" "mainIs db tip" "length (meta db) = 1"
    using Suc.prems(1) by (simp_all add: rewindOk_def)
  have tip: "tip \<in> blk_hash ` set (blocks db)" and p: "?p \<in> blk_hash ` set (blocks db)"
    using Suc.prems(2)[rule_format, of 0] Suc.prems(2)[rule_format, of 1] by simp_all
  have ch: "(prevOf ?d ^^ k) ?p = (prevOf db ^^ Suc k) tip" for k
    using chain_withoutBlock(1)[OF inv(2) tip, of k] by (simp only: chain_SetDBBestBlock funpow_Suc_right o_def)
  have "(prevOf db ^^ Suc k) tip \<noteq> tip" for k
    using chain_withoutBlock(2)[OF inv(2) tip, of k] by (simp only: funpow_Suc_right o_def not_False_eq_True)
  note ne = this
  have "?p \<noteq> []"
    using p inv(2) by (metis blocksOk_def)
  then have loop: "deleteBlocksLoop (Suc n) db res h0 s0 = deleteBlocksLoop n ?d (res @ [?s]) (BlockHeightPg db ?p) ?p"
    using DeleteBestBlock_eq[OF Suc.prems(1) tip p] by simp
  have rw: "rewindOk ?d ?p"
    using inv mainIs_withoutBlock[OF inv(2,4) tip]
    by (simp add: rewindOk_def linksOk_withoutBlock blocksOk_withoutBlock chainLinked_withoutBlock withoutBlock_tables)
  have co: "chainOf ?d ?p n = chainOf db ?p n"
    by (rule chainOf_cong) (simp only: ch funpow_Suc_right o_def)
  have bh: "BlockHeightPg ?d ((prevOf db ^^ Suc k) tip) = BlockHeightPg db ((prevOf db ^^ Suc k) tip)" for k
    using BlockHeight_withoutBlock[OF ne] by simp
  have d: "?d = rewound {tip} ?p (BlockHeightPg db ?p) db"
    by (rule rewound_block[OF inv(2,3) tip])
  show ?case
  proof (cases "n = 0")
    case True
    then show ?thesis
      using loop rw d by (simp add: chainOf_Suc)
  next
    case False
    have "blocks ?d = deleteWhere (\<lambda>r. blk_hash r = tip) (blocks db)"
      by (simp add: withoutBlock_tables)
    then have "\<forall>k\<le>n. (prevOf ?d ^^ k) ?p \<in> blk_hash ` set (blocks ?d)"
      using Suc.prems(2)[rule_format, of "Suc _"] ne unfolding ch by (auto simp del: funpow.simps(2))
    from Suc.IH[OF rw this, of "res @ [?s]" "BlockHeightPg db ?p" ?p] False
    obtain ds db' where IH: "deleteBlocksLoop n ?d (res @ [?s]) (BlockHeightPg db ?p) ?p =
        ((res @ [?s]) @ ds, BlockHeightPg db ((prevOf db ^^ Suc n) tip), (prevOf db ^^ Suc n) tip, True, db')" "length ds = n"
      "rewindOk db' ((prevOf db ^^ Suc n) tip)"
      "db' = rewound (chainOf db ?p n) ((prevOf db ^^ Suc n) tip) (BlockHeightPg db ((prevOf db ^^ Suc n) tip)) ?d"
      unfolding ch bh co by blast
    have "?p \<in> chainOf db ?p n"
      using False unfolding chainOf_def by (intro CollectI exI[of _ 0]) simp
    then have "db' = rewound (chainOf db tip (Suc n)) ((prevOf db ^^ Suc n) tip) (BlockHeightPg db ((prevOf db ^^ Suc n) tip)) db"
      unfolding IH(4) d chainOf_Suc by (rule rewound_rewound)
    then show ?thesis
      unfolding loop IH(1) using IH(2,3) by (intro exI[of _ "?s # ds"] exI[of _ db']) simp
  qed
qed simp

subsection \<open>What a rewind guarantees\<close>

lemma countWhere_deleted: "countWhere P rows = length rows - length (deleteWhere P rows)"
  using sum_length_filter_compl[of P rows] by (simp add: countWhere_def deleteWhere_def)

text \<open>The summary that \<open>DeleteBlockData\<close> returns counts, for every table, the rows that are gone.\<close>

theorem DeleteBlockData_counts:
  "case DeleteBlockData db hash of (db', res) \<Rightarrow>
     dsBlocks res = word_of_nat (length (blocks db) - length (blocks db')) \<and>
     dsVins res = word_of_nat (length (vins db) - length (vins db')) \<and>
     dsVouts res = word_of_nat (length (vouts db) - length (vouts db')) \<and>
     dsAddresses res = word_of_nat (length (addresses db) - length (addresses db')) \<and>
     dsTransactions res = word_of_nat (length (transactions db) - length (transactions db')) \<and>
     dsTickets res = word_of_nat (length (tickets db) - length (tickets db')) \<and>
     dsVotes res = word_of_nat (length (votes db) - length (votes db')) \<and>
     dsMisses res = word_of_nat (length (misses db) - length (misses db'))"
  unfolding DeleteBlockData_def Let_def case_prod_unfold
  by (simp add: deleteVinsForBlockSubQry_def deleteVoutsForBlockSubQry_def deleteAddressesForBlockSubQry_def
      deleteTransactionsForBlock_def resetSpendingForVoutsByTxRowID_def deleteTicketsForBlock_def deleteVotesForBlock_def
      deleteMissesForBlock_def deleteBlock_def Let_def countWhere_deleted[symmetric])
    (simp add: countWhere_def flip: countWhere_deleted)

text \<open>C9: what \<open>DeleteBlockData\<close> leaves, table by table. If the block rows list the ids of their own
  transactions, it removes the block's rows of \<open>blocks\<close>, \<open>block_chain\<close>, \<open>transactions\<close>, \<open>tickets\<close>, \<open>votes\<close> and
  \<open>misses\<close>; the inputs and outputs that its transactions list (also where a transaction of another
  block lists them too), the address rows of those inputs and outputs, and the rows of \<open>stats\<close> that refer to the
  block. All other rows stay and are unchanged, but for two columns: \<open>next_hash\<close> is cleared in the row of the predecessor that
  the deleted row of \<open>block_chain\<close> names (without such a row, in the rows whose next block is the deleted one), and
  the spending transaction is cleared in the outputs whose row id equals the row id of a deleted
  transaction, which are not the outputs that the deleted transactions spent.\<close>

theorem DeleteBlockData_removes:
  assumes "linksOk db" "DeleteBlockData db hash = (db', res)"
  shows "blocks db' = filter (\<lambda>r. blk_hash r \<noteq> hash) (blocks db) \<and>
    block_chain db' =
      map (\<lambda>r. if (case queryRow (filter (\<lambda>r. bc_this_hash r = hash) (block_chain db)) of
                    Some d \<Rightarrow> bc_this_hash r = bc_prev_hash d | None \<Rightarrow> bc_next_hash r = hash)
                then r\<lparr>bc_next_hash := []\<rparr> else r)
        (filter (\<lambda>r. bc_this_hash r \<noteq> hash) (block_chain db)) \<and>
    transactions db' = filter (\<lambda>r. tx_block_hash r \<noteq> hash) (transactions db) \<and>
    vins db' = filter (\<lambda>r. vin_id r \<notin> vinIDsOf {hash} db) (vins db) \<and>
    vouts db' =
      map (\<lambda>r. if vout_id r \<in> txIDsOf {hash} db then r\<lparr>vout_spend_tx_row_id := None\<rparr> else r)
        (filter (\<lambda>r. vout_id r \<notin> voutIDsOf {hash} db) (vouts db)) \<and>
    addresses db' =
      filter (\<lambda>a. addr_tx_vin_vout_row_id a \<notin> (if addr_is_funding a then voutIDsOf {hash} db else vinIDsOf {hash} db))
        (addresses db) \<and>
    tickets db' = filter (\<lambda>r. tkt_block_hash r \<noteq> hash) (tickets db) \<and>
    votes db' = filter (\<lambda>r. vote_block_hash r \<noteq> hash) (votes db) \<and>
    misses db' = filter (\<lambda>r. miss_block_hash r \<noteq> hash) (misses db) \<and>
    stats db' = filter (\<lambda>s. st_blocks_id s \<notin> blk_id ` {b \<in> set (blocks db). blk_hash b = hash}) (stats db) \<and>
    meta db' = meta db \<and> serials db' = serials db \<and> linksOk db'"
proof -
  have db': "db' = withoutBlock hash db"
    using DeleteBlockData_eq[OF assms(1), of hash] assms(2) by simp
  have "stats db' = filter (\<lambda>s. st_blocks_id s \<notin> blk_id ` {b \<in> set (blocks db). blk_hash b = hash}) (stats db)"
    unfolding db' withoutBlock_tables deleteWhere_def by (rule filter_cong) (auto simp: image_iff)
  moreover have "block_chain db' =
      map (\<lambda>r. if (case queryRow (filter (\<lambda>r. bc_this_hash r = hash) (block_chain db)) of
                    Some d \<Rightarrow> bc_this_hash r = bc_prev_hash d | None \<Rightarrow> bc_next_hash r = hash)
                then r\<lparr>bc_next_hash := []\<rparr> else r)
        (filter (\<lambda>r. bc_this_hash r \<noteq> hash) (block_chain db))"
    unfolding db' withoutBlock_tables deleteWhere_def updateWhere_def by (simp split: option.splits)
  moreover have "addresses db' =
      filter (\<lambda>a. addr_tx_vin_vout_row_id a \<notin> (if addr_is_funding a then voutIDsOf {hash} db else vinIDsOf {hash} db))
        (addresses db)"
    unfolding db' withoutBlock_tables deleteWhere_def addrOf_def by (rule refl)
  ultimately show ?thesis
    using linksOk_withoutBlock[OF assms(1), of hash]
    by (simp add: db' withoutBlock_tables deleteWhere_def updateWhere_def cong: if_cong)
qed

text \<open>C8: \<open>DeleteBlocks\<close> with a positive count \<open>N\<close>, on a database whose main chain has \<open>N\<close> blocks above
  another one, returns without error the summaries of \<open>N\<close> deletions and the block \<open>N\<close> below the tip as the
  best block, which is also what the \<open>meta\<close> table records, and the database can be rewound again. Let
  \<open>C\<close> be the \<open>N\<close> best blocks. Gone are their rows of \<open>blocks\<close>, \<open>block_chain\<close>, \<open>transactions\<close>, \<open>tickets\<close>,
  \<open>votes\<close>, \<open>misses\<close> and \<open>stats\<close>, the inputs and outputs that their transactions list (also where a transaction of a
  side chain block lists them too), and the address rows of these. All other rows stay, side
  chains included, and are unchanged but for \<open>next_hash\<close> of the new best block, which is cleared, and
  the spending transaction of the outputs whose row id is that of a deleted transaction.\<close>

theorem DeleteBlocks_rewinds:
  assumes "rewindOk db tip" "\<forall>k\<le>nat N. (prevOf db ^^ k) tip \<in> blk_hash ` set (blocks db)" "1 \<le> N"
    and "DeleteBlocks N db = (res, height, hash, ok, db')" and "C = chainOf db tip (nat N)"
  shows "ok \<and> length res = nat N \<and> hash = (prevOf db ^^ nat N) tip \<and> height = BlockHeightPg db hash \<and>
    DBBestBlock db' = (hash, height) \<and> rewindOk db' hash \<and>
    blocks db' = filter (\<lambda>r. blk_hash r \<notin> C) (blocks db) \<and>
    block_chain db' = map (\<lambda>r. if bc_this_hash r = hash then r\<lparr>bc_next_hash := []\<rparr> else r)
      (filter (\<lambda>r. bc_this_hash r \<notin> C) (block_chain db)) \<and>
    transactions db' = filter (\<lambda>r. tx_block_hash r \<notin> C) (transactions db) \<and>
    vins db' = filter (\<lambda>r. vin_id r \<notin> vinIDsOf C db) (vins db) \<and>
    vouts db' = map (\<lambda>r. if vout_id r \<in> txIDsOf C db then r\<lparr>vout_spend_tx_row_id := None\<rparr> else r)
      (filter (\<lambda>r. vout_id r \<notin> voutIDsOf C db) (vouts db)) \<and>
    addresses db' = filter (\<lambda>a. addr_tx_vin_vout_row_id a \<notin> (if addr_is_funding a then voutIDsOf C db else vinIDsOf C db))
      (addresses db) \<and>
    tickets db' = filter (\<lambda>r. tkt_block_hash r \<notin> C) (tickets db) \<and>
    votes db' = filter (\<lambda>r. vote_block_hash r \<notin> C) (votes db) \<and>
    misses db' = filter (\<lambda>r. miss_block_hash r \<notin> C) (misses db) \<and>
    stats db' = filter (\<lambda>s. st_blocks_id s \<notin> blk_id ` {b \<in> set (blocks db). blk_hash b \<in> C}) (stats db)"
proof -
  have "DeleteBlocks N db = deleteBlocksLoop (nat N) db [] 0 []" "0 < nat N"
    using assms(3) by (simp_all add: DeleteBlocks_def)
  then have r: "ok" "length res = nat N" "hash = (prevOf db ^^ nat N) tip" "height = BlockHeightPg db hash" "rewindOk db' hash"
    and db': "db' = rewound C hash height db"
    using deleteBlocksLoop_chain[OF assms(1,2), of "[]" 0 "[]"] assms(4,5) by auto
  have "length (meta db) = 1"
    using assms(1) by (simp add: rewindOk_def)
  then have "DBBestBlock db' = (hash, height)"
    by (auto simp: db' rewound_def DBBestBlock_def queryRow_def length_Suc_conv)
  moreover have "stats db' = filter (\<lambda>s. st_blocks_id s \<notin> blk_id ` {b \<in> set (blocks db). blk_hash b \<in> C}) (stats db)"
    unfolding db' rewound_def deleteWhere_def by (simp, rule filter_cong) (auto simp: image_iff)
  ultimately show ?thesis
    using r by (simp add: db' rewound_def deleteWhere_def updateWhere_def cong: if_cong)
qed

text \<open>A rewind does not clear the spends of the transactions it deletes: the statement that should
  takes the transaction ids for ids of outputs. After the last block of the example is deleted, the
  output of the block before it is still recorded as spent by a transaction that is gone.\<close>

theorem rewind_leaves_spends:
  "spendsOk pgEx \<and> linksOk pgEx \<and>
   (case DeleteBlockData pgEx ''b'' of (db', _) \<Rightarrow>
      map vout_spend_tx_row_id (vouts db') = [Some 2] \<and> map tx_id (transactions db') = [1])"
proof -
  have "spendsOk pgEx" "linksOk pgEx"
    by (auto simp: spendsOk_def linksOk_def pgEx_def pgBlock_def pgTx_def pgVout_def pgAddr_def)
  moreover have "voutIDsOf {''b''} pgEx = {2}" "txIDsOf {''b''} pgEx = {2}"
    by (simp_all add: voutIDsOf_list txIDsOf_list pgEx_def pgTx_def)
  then have "map vout_spend_tx_row_id (vouts (withoutBlock ''b'' pgEx)) = [Some 2]"
    by (simp add: withoutBlock_def) (simp add: pgEx_def updateWhere_def deleteWhere_def pgVout_def)
  moreover have "map tx_id (transactions (withoutBlock ''b'' pgEx)) = [1]"
    by (simp add: withoutBlock_tables pgEx_def deleteWhere_def pgTx_def)
  ultimately show ?thesis
    using DeleteBlockData_eq[of pgEx "''b''"] by (simp add: case_prod_unfold)
qed

lemma pgEx_rewindOk: "rewindOk pgEx ''b''"
proof -
  have "linksOk pgEx"
    by (auto simp: linksOk_def pgEx_def pgBlock_def pgTx_def pgAddr_def)
  then show ?thesis
    using pgExChain_inv by (simp add: rewindOk_def chainInv_def chainLinked_def pgExChain_def pgEx_def pgBlock_def)
qed

lemma DeleteBlockData_removes_witness:
  "\<exists>db' res. DeleteBlockData pgEx ''b'' = (db', res) \<and> map blk_hash (blocks db') = [''g'', ''a''] \<and> linksOk db'"
proof -
  have l: "linksOk pgEx"
    using pgEx_rewindOk by (simp add: rewindOk_def)
  obtain db' res where d: "DeleteBlockData pgEx ''b'' = (db', res)"
    by fastforce
  show ?thesis
    using DeleteBlockData_removes[OF l d] d by (simp add: pgEx_def pgBlock_def)
qed

lemma DeleteBlocks_rewinds_witness:
  "\<exists>res db'. DeleteBlocks 2 pgEx = (res, 0, ''g'', True, db') \<and> map blk_hash (blocks db') = [''g'']"
proof -
  have "\<forall>k\<le>nat 2. (prevOf pgEx ^^ k) ''b'' \<in> blk_hash ` set (blocks pgEx)"
  proof (intro allI impI)
    fix k :: nat
    assume "k \<le> nat 2"
    then consider "k = 0" | "k = Suc 0" | "k = Suc (Suc 0)"
      by linarith
    then have "(prevOf pgEx ^^ k) ''b'' \<in> {''b'', ''a'', ''g''}"
      by cases (simp_all add: pgEx_prev)
    then show "(prevOf pgEx ^^ k) ''b'' \<in> blk_hash ` set (blocks pgEx)"
      by (simp add: pgEx_def pgBlock_def) blast
  qed
  moreover obtain res height hash ok db' where d: "DeleteBlocks 2 pgEx = (res, height, hash, ok, db')"
    by (metis prod_cases5)
  moreover have "(prevOf pgEx ^^ nat 2) ''b'' = ''g''" "chainOf pgEx ''b'' (nat 2) = {''b'', ''a''}"
    by (simp_all add: numeral_2_eq_2 chainOf_Suc pgEx_prev)
  moreover have "BlockHeightPg pgEx ''g'' = 0"
    by (simp add: BlockHeightPg_def RetrieveBlockHeight_def pgEx_def pgBlock_def queryRow_def)
  moreover have "map blk_hash (filter (\<lambda>r. blk_hash r \<notin> {''b'', ''a''}) (blocks pgEx)) = [''g'']"
    by (simp add: pgEx_def pgBlock_def)
  ultimately show ?thesis
    using DeleteBlocks_rewinds[OF pgEx_rewindOk _ _ d refl] by auto
qed

end
