(* ===== verification/PgApproval.thy ===== *)
theory PgApproval
  imports PgReorg
begin

text \<open>
  What storing a block does to the block before it (\<open>UpdateLastBlock\<close> of \<open>db/dcrpg/pgblockchain.go\<close>): the
  link to the new block, and, when the votes of the new block disapprove it, the flags of its
  regular transactions in every table. The statements are separate, so what was updated before an error
  stays updated.
\<close>

text \<open>What is read of the header of the new block.\<close>

record BlockHeaderPg =
  hdHash :: string
  hdPrevBlock :: string
  hdVoteBits :: "16 word"

datatype lastError = LocateErr | BlockNextErr | BlockValidErr | LastVinsErr

definition zeroHashStr :: string where
  "zeroHashStr = replicate 64 CHR ''0''"

subsection \<open>The updates\<close>

text \<open>
  \<open>UpdateLastVins\<close>: \<open>UPDATE vins SET is_valid = $1, is_mainchain = $2 WHERE tx_hash = $3 AND block_time = $4\<close>
  for every transaction of the block; \<open>False\<close> when one of the updates hits no row.
\<close>

definition isInputOf :: "string \<Rightarrow> int \<Rightarrow> VinsRow \<Rightarrow> bool" where
  "isInputOf txHash blockTime r \<longleftrightarrow> vin_tx_hash r = txHash \<and> vin_block_time r = blockTime"

fun updateVinsLoop :: "PgDB \<Rightarrow> (nat \<times> string \<times> int \<times> int \<times> int) list \<Rightarrow> bool \<Rightarrow> bool \<Rightarrow> PgDB \<times> bool" where
  "updateVinsLoop db [] isValid isMainchain = (db, True)"
| "updateVinsLoop db ((_, txHash, _, tree, blockTime) # txs) isValid isMainchain =
     (let thisValid = isValid \<or> tree = 1;
          db' = db\<lparr>vins := updateWhere (isInputOf txHash blockTime)
                  (\<lambda>r. r\<lparr>vin_is_valid := thisValid, vin_is_mainchain := isMainchain\<rparr>) (vins db)\<rparr>
      in if countWhere (isInputOf txHash blockTime) (vins db) < 1 then (db', False)
         else updateVinsLoop db' txs isValid isMainchain)"

definition UpdateLastVins :: "PgDB \<Rightarrow> string \<Rightarrow> bool \<Rightarrow> bool \<Rightarrow> PgDB \<times> bool" where
  "UpdateLastVins db blockHash isValid isMainchain =
     updateVinsLoop db (RetrieveTxsByBlockHash db blockHash) isValid isMainchain"

definition UpdateLastAddressesValid :: "PgDB \<Rightarrow> string \<Rightarrow> bool \<Rightarrow> PgDB" where
  "UpdateLastAddressesValid db blockHash isValid =
     (let (vinDbIDsBlk, voutDbIDsBlk, _) = RetrieveTxnsVinsVoutsByBlock db blockHash True
      in fst (UpdateAddressesMainchainByIDs db vinDbIDsBlk voutDbIDsBlk isValid))"

text \<open>The part of \<open>UpdateLastBlock\<close> that runs when the block before is disapproved.\<close>

definition invalidateLast :: "PgDB \<Rightarrow> string \<Rightarrow> nat \<Rightarrow> bool \<Rightarrow> PgDB \<times> lastError option" where
  "invalidateLast db lastBlockHash lastBlockDbID isMainchain =
     (let (db1, ok1) = UpdateLastBlockValid db lastBlockDbID False
      in if \<not> ok1 then (db1, Some BlockValidErr)
         else let db2 = clearVoutRegularSpendTxRowIDs db1 lastBlockHash;
                  (db3, ok3) = UpdateLastVins db2 lastBlockHash False isMainchain
              in if \<not> ok3 then (db3, Some LastVinsErr)
                 else let (db4, _, _) = UpdateTransactionsValid db3 lastBlockHash False
                      in (UpdateLastAddressesValid db4 lastBlockHash False, None))"

definition linkAndVote :: "PgDB \<Rightarrow> BlockHeaderPg \<Rightarrow> nat \<Rightarrow> bool \<Rightarrow> PgDB \<times> lastError option" where
  "linkAndVote db hdr lastBlockDbID isMainchain =
     (let (db1, ok) = UpdateBlockNext db lastBlockDbID (hdHash hdr)
      in if \<not> ok then (db1, Some BlockNextErr)
         else if and (hdVoteBits hdr) 1 \<noteq> 0 then (db1, None)
         else invalidateLast db1 (hdPrevBlock hdr) lastBlockDbID isMainchain)"

definition UpdateLastBlock :: "ChainDB \<Rightarrow> BlockHeaderPg \<Rightarrow> bool \<Rightarrow> PgDB \<times> lastError option" where
  "UpdateLastBlock pgb hdr isMainchain =
     (let db = pg pgb; lastBlockHash = hdPrevBlock hdr
      in if lastBlockHash = zeroHashStr then (db, None)
         else if \<not> isMainchain \<and>
             (case RetrieveBlockFlags db lastBlockHash of None \<Rightarrow> True | Some (_, lastIsMainchain) \<Rightarrow> lastIsMainchain)
           then (db, None)
         else case map_of (lastBlock pgb) lastBlockHash of
             Some i \<Rightarrow> linkAndVote db hdr i isMainchain
           | None \<Rightarrow>
               (case RetrieveBlockChainDbID db lastBlockHash of
                  None \<Rightarrow> (db, Some LocateErr)
                | Some i \<Rightarrow> linkAndVote db hdr i isMainchain))"

subsection \<open>The inputs of the block\<close>

type_synonym txInfo = "nat \<times> string \<times> int \<times> int \<times> int"

text \<open>What one transaction of the list does to a row of \<open>vins\<close>.\<close>

definition vinStep :: "bool \<Rightarrow> bool \<Rightarrow> txInfo \<Rightarrow> VinsRow \<Rightarrow> VinsRow" where
  "vinStep isValid isMainchain t r = (case t of (_, txHash, _, tree, blockTime) \<Rightarrow>
     if isInputOf txHash blockTime r then r\<lparr>vin_is_valid := isValid \<or> tree = 1, vin_is_mainchain := isMainchain\<rparr> else r)"

definition hasInput :: "PgDB \<Rightarrow> txInfo \<Rightarrow> bool" where
  "hasInput db t \<longleftrightarrow> (case t of (_, txHash, _, _, blockTime) \<Rightarrow> \<exists>v\<in>set (vins db). isInputOf txHash blockTime v)"

lemma isInputOf_vinStep [simp]: "isInputOf h b (vinStep v m t r) = isInputOf h b r"
  by (auto simp: vinStep_def isInputOf_def split: prod.splits)

lemma hasInput_map: "hasInput (db\<lparr>vins := map (vinStep v m t) (vins db)\<rparr>) u = hasInput db u"
  by (auto simp: hasInput_def split: prod.splits)

lemma updateVins_map:
  "updateWhere (isInputOf h b) (\<lambda>r. r\<lparr>vin_is_valid := v \<or> tree = 1, vin_is_mainchain := m\<rparr>) rows = map (vinStep v m (i, h, j, tree, b)) rows"
  by (simp add: updateWhere_def vinStep_def)

lemma countWhere_pos: "countWhere P rows < 1 \<longleftrightarrow> \<not> (\<exists>r\<in>set rows. P r)"
  by (auto simp: countWhere_def filter_empty_conv)

lemma countWhere_zero: "countWhere P rows = 0 \<longleftrightarrow> \<not> (\<exists>r\<in>set rows. P r)" "0 < countWhere P rows \<longleftrightarrow> (\<exists>r\<in>set rows. P r)"
  by (auto simp: countWhere_def filter_empty_conv)

lemma updateVinsLoop_fst:
  "\<exists>rows. fst (updateVinsLoop db txs v m) = db\<lparr>vins := rows\<rparr>"
proof (induction txs arbitrary: db)
  case Nil
  have "db = db\<lparr>vins := vins db\<rparr>"
    by simp
  then show ?case
    by (metis fst_conv updateVinsLoop.simps(1))
next
  case (Cons t txs)
  obtain i h j tree b where t: "t = (i, h, j, tree, b)"
    by (metis prod_cases5)
  let ?db = "db\<lparr>vins := updateWhere (isInputOf h b) (\<lambda>r. r\<lparr>vin_is_valid := v \<or> tree = 1, vin_is_mainchain := m\<rparr>) (vins db)\<rparr>"
  obtain rows where "fst (updateVinsLoop ?db txs v m) = ?db\<lparr>vins := rows\<rparr>"
    using Cons.IH by blast
  then have "fst (updateVinsLoop ?db txs v m) = db\<lparr>vins := rows\<rparr>"
    by simp
  then show ?case
    unfolding t by (auto simp: Let_def)
qed

lemma updateVinsLoop_ok: "snd (updateVinsLoop db txs v m) \<longleftrightarrow> (\<forall>t\<in>set txs. hasInput db t)"
proof (induction txs arbitrary: db)
  case (Cons t txs)
  obtain i h j tree b where t: "t = (i, h, j, tree, b)"
    by (metis prod_cases5)
  show ?case
    by (simp add: t Let_def countWhere_zero updateVins_map[where i = i and j = j] Cons.IH hasInput_map)
      (simp add: hasInput_def)
qed simp

lemma updateVinsLoop_vins:
  "\<forall>t\<in>set txs. hasInput db t \<Longrightarrow> vins (fst (updateVinsLoop db txs v m)) = map (fold (vinStep v m) txs) (vins db)"
proof (induction txs arbitrary: db)
  case (Cons t txs)
  obtain i h j tree b where t: "t = (i, h, j, tree, b)"
    by (metis prod_cases5)
  have hit: "\<not> countWhere (isInputOf h b) (vins db) < 1"
    using Cons.prems unfolding countWhere_pos by (simp add: t hasInput_def)
  have "\<forall>u\<in>set txs. hasInput (db\<lparr>vins := map (vinStep v m t) (vins db)\<rparr>) u"
    using Cons.prems by (simp add: hasInput_map)
  from Cons.IH[OF this] hit show ?case
    by (simp add: t Let_def updateVins_map[where i = i and j = j])
qed (simp add: id_def)

text \<open>When the hashes are distinct, at most one transaction of the list touches a row.\<close>

definition inputFlags :: "bool \<Rightarrow> bool \<Rightarrow> txInfo list \<Rightarrow> VinsRow \<Rightarrow> VinsRow" where
  "inputFlags v m txs r = (case find (\<lambda>(_, h, _, _, b). isInputOf h b r) txs of None \<Rightarrow> r | Some t \<Rightarrow> vinStep v m t r)"

lemma fold_vinStep_other:
  "\<forall>(_, h, _, _, _)\<in>set txs. h \<noteq> vin_tx_hash r \<Longrightarrow> fold (vinStep v m) txs r = r"
  by (induction txs) (auto simp: vinStep_def isInputOf_def split: prod.splits)

lemma fold_vinStep:
  "distinct (map (fst \<circ> snd) txs) \<Longrightarrow> fold (vinStep v m) txs r = inputFlags v m txs r"
proof (induction txs arbitrary: r)
  case (Cons t txs)
  obtain i h j tree b where t: "t = (i, h, j, tree, b)"
    by (metis prod_cases5)
  show ?case
  proof (cases "isInputOf h b r")
    case True
    then have "vin_tx_hash (vinStep v m t r) = h"
      by (simp add: t vinStep_def isInputOf_def)
    moreover have "\<forall>(_, h', _, _, _)\<in>set txs. h' \<noteq> h"
      using Cons.prems by (force simp: t)
    ultimately have "fold (vinStep v m) txs (vinStep v m t r) = vinStep v m t r"
      by (intro fold_vinStep_other) auto
    then show ?thesis
      using True by (simp add: inputFlags_def t)
  next
    case False
    then have "vinStep v m t r = r"
      by (simp add: t vinStep_def)
    then show ?thesis
      using False Cons by (simp add: inputFlags_def t)
  qed
qed (simp add: inputFlags_def)

subsection \<open>A disapproved block\<close>

text \<open>The row of the block before: from the cache of row ids, or from \<open>block_chain\<close>.\<close>

definition lastRowID :: "ChainDB \<Rightarrow> string \<Rightarrow> nat option" where
  "lastRowID pgb h = (case map_of (lastBlock pgb) h of Some i \<Rightarrow> Some i | None \<Rightarrow> RetrieveBlockChainDbID (pg pgb) h)"

definition regularTxs :: "string \<Rightarrow> PgDB \<Rightarrow> TransactionsRow list" where
  "regularTxs h db = filter (\<lambda>t. tx_block_hash t = h \<and> tx_tree t = 0) (transactions db)"

text \<open>The specification: the block and its regular transactions are invalid in every table.\<close>

definition disapproved :: "string \<Rightarrow> nat \<Rightarrow> PgDB \<Rightarrow> PgDB" where
  "disapproved h i db = db\<lparr>
     blocks := updateWhere (\<lambda>r. blk_id r = i) (blk_is_valid_update (\<lambda>_. False)) (blocks db),
     transactions := updateWhere (\<lambda>r. tx_block_hash r = h \<and> tx_tree r = 0) (tx_is_valid_update (\<lambda>_. False)) (transactions db),
     vins := map (inputFlags False True (RetrieveTxsByBlockHash db h)) (vins db),
     vouts := updateWhere (\<lambda>v. vout_spend_tx_row_id v \<in> Some ` tx_id ` set (regularTxs h db))
       (vout_spend_tx_row_id_update (\<lambda>_. None)) (vouts db),
     addresses := updateWhere (\<lambda>r. \<exists>t\<in>set (regularTxs h db).
         addr_tx_vin_vout_row_id r \<in> set (if addr_is_funding r then tx_vout_db_ids t else tx_vin_db_ids t))
       (addr_valid_mainchain_update (\<lambda>_. False)) (addresses db)\<rparr>"

definition linkedPg :: "nat \<Rightarrow> string \<Rightarrow> PgDB \<Rightarrow> PgDB" where
  "linkedPg i nxt db = db\<lparr>block_chain := updateWhere (\<lambda>r. bc_block_db_id r = i) (bc_next_hash_update (\<lambda>_. nxt)) (block_chain db)\<rparr>"

lemma regular_invalidated:
  "filter (\<lambda>r. tx_block_hash r = h \<and> tx_tree r = 0)
     (updateWhere (\<lambda>r. tx_block_hash r = h \<and> tx_tree r = 0) (tx_is_valid_update (\<lambda>_. b)) rows) =
   map (tx_is_valid_update (\<lambda>_. b)) (filter (\<lambda>r. tx_block_hash r = h \<and> tx_tree r = 0) rows)"
  by (induction rows) (simp_all add: updateWhere_def)

lemma UpdateLastAddressesValid_eq:
  "UpdateLastAddressesValid db h b = db\<lparr>addresses := updateWhere (\<lambda>r. \<exists>t\<in>set (regularTxs h db).
       addr_tx_vin_vout_row_id r \<in> set (if addr_is_funding r then tx_vout_db_ids t else tx_vin_db_ids t))
     (addr_valid_mainchain_update (\<lambda>_. b)) (addresses db)\<rparr>"
  unfolding UpdateLastAddressesValid_def RetrieveTxnsVinsVoutsByBlock_def Let_def prod.case UpdateAddressesMainchainByIDs_eq
  by (rule PgDB.equality) (auto simp: regularTxs_def intro!: updateWhere_cong)

lemma invalidateLast_eq:
  assumes "countWhere (\<lambda>r. blk_id r = i) (blocks db) = 1"
    and "distinct (map tx_tx_hash (filter (\<lambda>t. tx_block_hash t = h) (transactions db)))"
  shows "snd (invalidateLast db h i True) = (if \<forall>t\<in>set (RetrieveTxsByBlockHash db h). hasInput db t then None else Some LastVinsErr)"
    and "\<forall>t\<in>set (RetrieveTxsByBlockHash db h). hasInput db t \<Longrightarrow> fst (invalidateLast db h i True) = disapproved h i db"
proof -
  let ?txs = "RetrieveTxsByBlockHash db h"
  let ?db2 = "clearVoutRegularSpendTxRowIDs (fst (UpdateLastBlockValid db i False)) h"
  have vins2: "vins ?db2 = vins db" and tx2: "transactions ?db2 = transactions db"
    by (simp_all add: clearVoutRegularSpendTxRowIDs_def clearVoutSpends_def UpdateLastBlockValid_def Let_def)
  then have txs2: "RetrieveTxsByBlockHash ?db2 h = ?txs" and hi: "hasInput ?db2 = hasInput db"
    by (simp_all add: RetrieveTxsByBlockHash_def hasInput_def fun_eq_iff)
  have ok1: "snd (UpdateLastBlockValid db i False)"
    using assms(1) by (simp add: UpdateLastBlockValid_def)
  have ok3: "snd (UpdateLastVins ?db2 h False True) \<longleftrightarrow> (\<forall>t\<in>set ?txs. hasInput db t)"
    unfolding UpdateLastVins_def txs2 updateVinsLoop_ok hi ..
  show "snd (invalidateLast db h i True) = (if \<forall>t\<in>set ?txs. hasInput db t then None else Some LastVinsErr)"
    using ok1 ok3 by (simp add: invalidateLast_def Let_def case_prod_unfold)
  assume ins: "\<forall>t\<in>set ?txs. hasInput db t"
  have dist: "distinct (map (fst \<circ> snd) ?txs)"
    using assms(2) by (simp add: RetrieveTxsByBlockHash_def o_def)
  have v3: "vins (fst (UpdateLastVins ?db2 h False True)) = map (inputFlags False True ?txs) (vins db)"
    using updateVinsLoop_vins[of ?txs ?db2 False True] ins fold_vinStep[OF dist]
    unfolding UpdateLastVins_def txs2 hi vins2 by simp
  obtain rows where r: "fst (UpdateLastVins ?db2 h False True) = ?db2\<lparr>vins := rows\<rparr>"
    using updateVinsLoop_fst unfolding UpdateLastVins_def by blast
  then have db3: "fst (UpdateLastVins ?db2 h False True) = ?db2\<lparr>vins := map (inputFlags False True ?txs) (vins db)\<rparr>"
    using v3 by simp
  have reg: "set (regularTxs h (fst (UpdateTransactionsValid d h False))) = tx_is_valid_update (\<lambda>_. False) ` set (regularTxs h d)" for d
    by (simp add: regularTxs_def UpdateTransactionsValid_def regular_invalidated)
  have "fst (invalidateLast db h i True) = UpdateLastAddressesValid (fst (UpdateTransactionsValid (?db2\<lparr>vins := map (inputFlags False True ?txs) (vins db)\<rparr>) h False)) h False"
    using ok1 ok3 ins db3 by (simp add: invalidateLast_def Let_def case_prod_unfold)
  also have "\<dots> = disapproved h i db"
    unfolding UpdateLastAddressesValid_eq reg
    by (rule PgDB.equality)
      (auto simp: disapproved_def UpdateTransactionsValid_def clearVoutRegularSpendTxRowIDs_def clearVoutSpends_def
        UpdateLastBlockValid_def regularTxs_def Let_def intro!: updateWhere_cong)
  finally show "fst (invalidateLast db h i True) = disapproved h i db" .
qed

lemma UpdateLastBlock_main:
  "hdPrevBlock hdr \<noteq> zeroHashStr \<Longrightarrow> lastRowID pgb (hdPrevBlock hdr) = Some i
   \<Longrightarrow> UpdateLastBlock pgb hdr True = linkAndVote (pg pgb) hdr i True"
  by (auto simp: UpdateLastBlock_def lastRowID_def Let_def split: option.splits)

subsection \<open>Inserting inputs\<close>

text \<open>The columns of \<open>dbtypes.VinTxProperty\<close> that are stored.\<close>

record VinTxProperty =
  vpTxID :: string
  vpTxIndex :: int
  vpTxTree :: int
  vpPrevTxHash :: string
  vpPrevTxIndex :: int
  vpPrevTxTree :: int
  vpValueIn :: int
  vpIsValid :: bool
  vpIsMainchain :: bool
  vpTime :: int
  vpTxType :: int

datatype insertMode = InsertOnly | Upsert | InsertOrIgnore

definition MakeVinInsertStatement :: "bool \<Rightarrow> bool \<Rightarrow> insertMode" where
  "MakeVinInsertStatement checked updateOnConflict =
     (if \<not> checked then InsertOnly else if updateOnConflict then Upsert else InsertOrIgnore)"

text \<open>The columns of the unique index on \<open>vins\<close>.\<close>

definition sameVin :: "VinTxProperty \<Rightarrow> VinsRow \<Rightarrow> bool" where
  "sameVin v r \<longleftrightarrow> vin_tx_hash r = vpTxID v \<and> vin_tx_index r = vpTxIndex v \<and> vin_tx_tree r = vpTxTree v"

definition newVin :: "nat \<Rightarrow> VinTxProperty \<Rightarrow> VinsRow" where
  "newVin i v = \<lparr>vin_id = i, vin_tx_hash = vpTxID v, vin_tx_index = vpTxIndex v, vin_tx_tree = vpTxTree v,
     vin_is_valid = vpIsValid v, vin_is_mainchain = vpIsMainchain v, vin_block_time = vpTime v,
     vin_prev_tx_hash = vpPrevTxHash v, vin_prev_tx_index = vpPrevTxIndex v, vin_prev_tx_tree = vpPrevTxTree v,
     vin_value_in = vpValueIn v, vin_tx_type = vpTxType v\<rparr>"

text \<open>The \<open>ON CONFLICT ... DO UPDATE\<close> of \<open>UpsertVinRow\<close>.\<close>

definition setVin :: "VinTxProperty \<Rightarrow> VinsRow \<Rightarrow> VinsRow" where
  "setVin v r = r\<lparr>vin_is_valid := vpIsValid v, vin_is_mainchain := vpIsMainchain v, vin_block_time := vpTime v,
     vin_prev_tx_hash := vpPrevTxHash v, vin_prev_tx_index := vpPrevTxIndex v, vin_prev_tx_tree := vpPrevTxTree v\<rparr>"

text \<open>
  One insert, with the row id it returns. The sequence of the ids moves on also when the row exists. An
  unchecked insert runs before there is a unique index.
\<close>

definition InsertVin :: "PgDB \<Rightarrow> VinTxProperty \<Rightarrow> bool \<Rightarrow> bool \<Rightarrow> PgDB \<times> nat" where
  "InsertVin db v checked doUpsert =
     (let i = sq_vins (serials db);
          db1 = db\<lparr>serials := (serials db)\<lparr>sq_vins := i + 1\<rparr>\<rparr>;
          ins = db1\<lparr>vins := vins db1 @ [newVin i v]\<rparr>
      in case MakeVinInsertStatement checked doUpsert of
           InsertOnly \<Rightarrow> (ins, i)
         | Upsert \<Rightarrow> (case queryRow (filter (sameVin v) (vins db)) of
               None \<Rightarrow> (ins, i)
             | Some r \<Rightarrow> (db1\<lparr>vins := updateWhere (sameVin v) (setVin v) (vins db)\<rparr>, vin_id r))
         | InsertOrIgnore \<Rightarrow> (case queryRow (filter (sameVin v) (vins db)) of
               None \<Rightarrow> (ins, i)
             | Some r \<Rightarrow> (db1, vin_id r)))"

fun InsertVinsStmt :: "PgDB \<Rightarrow> VinTxProperty list \<Rightarrow> bool \<Rightarrow> bool \<Rightarrow> PgDB \<times> nat list" where
  "InsertVinsStmt db [] checked doUpsert = (db, [])"
| "InsertVinsStmt db (v # vs) checked doUpsert =
     (let (db1, i) = InsertVin db v checked doUpsert; (db2, ids) = InsertVinsStmt db1 vs checked doUpsert
      in (db2, i # ids))"

lemma InsertVin_frame [simp]:
  "transactions (fst (InsertVin db v c u)) = transactions db" "blocks (fst (InsertVin db v c u)) = blocks db"
  "block_chain (fst (InsertVin db v c u)) = block_chain db"
  by (auto simp: InsertVin_def Let_def split: insertMode.splits option.splits)

lemma InsertVinsStmt_frame [simp]:
  "transactions (fst (InsertVinsStmt db vs c u)) = transactions db" "blocks (fst (InsertVinsStmt db vs c u)) = blocks db"
  "block_chain (fst (InsertVinsStmt db vs c u)) = block_chain db"
  by (induction vs arbitrary: db) (simp_all add: Let_def case_prod_unfold)

lemma InsertVin_upsert:
  "r \<in> set (vins (fst (InsertVin db v True True))) \<Longrightarrow>
     (sameVin v r \<and> vin_block_time r = vpTime v) \<or> (r \<in> set (vins db) \<and> \<not> sameVin v r)"
  by (auto simp: InsertVin_def Let_def MakeVinInsertStatement_def queryRow_def sameVin_def newVin_def setVin_def
      filter_empty_conv split: list.splits elim!: updateWhereE)

text \<open>After a transaction is stored again by upserts, its rows have the time of the new block.\<close>

lemma InsertVinsStmt_time:
  assumes "\<forall>v\<in>set vs. vpTxID v = h \<and> vpTime v = T"
    and "r \<in> set (vins (fst (InsertVinsStmt db vs True True)))" "vin_tx_hash r = h"
  shows "vin_block_time r = T \<or> (r \<in> set (vins db) \<and> (\<forall>v\<in>set vs. \<not> sameVin v r))"
  using assms
proof (induction vs arbitrary: db)
  case (Cons v vs)
  let ?db = "fst (InsertVin db v True True)"
  have "vin_block_time r = T \<or> (r \<in> set (vins ?db) \<and> (\<forall>v\<in>set vs. \<not> sameVin v r))"
    using Cons.IH[of ?db] Cons.prems by (simp add: Let_def case_prod_unfold)
  then show ?case
    using InsertVin_upsert[of r db v] Cons.prems(1) by auto
qed simp

subsection \<open>What approval and disapproval do\<close>

text \<open>The row of the block before is found, once in each table, and the block has each transaction once.\<close>

definition lastFound :: "ChainDB \<Rightarrow> BlockHeaderPg \<Rightarrow> nat \<Rightarrow> bool" where
  "lastFound pgb hdr i \<longleftrightarrow> hdPrevBlock hdr \<noteq> zeroHashStr \<and> lastRowID pgb (hdPrevBlock hdr) = Some i \<and>
     countWhere (\<lambda>r. bc_block_db_id r = i) (block_chain (pg pgb)) = 1 \<and> countWhere (\<lambda>r. blk_id r = i) (blocks (pg pgb)) = 1 \<and>
     distinct (map tx_tx_hash (filter (\<lambda>t. tx_block_hash t = hdPrevBlock hdr) (transactions (pg pgb))))"

lemma linkedPg_tables [simp]:
  "blocks (linkedPg i n db) = blocks db" "transactions (linkedPg i n db) = transactions db" "vins (linkedPg i n db) = vins db"
  "RetrieveTxsByBlockHash (linkedPg i n db) = RetrieveTxsByBlockHash db" "hasInput (linkedPg i n db) = hasInput db"
  by (simp_all add: linkedPg_def RetrieveTxsByBlockHash_def hasInput_def fun_eq_iff)

lemma UpdateLastBlock_linked:
  assumes "lastFound pgb hdr i"
  shows "UpdateLastBlock pgb hdr True =
    (if and (hdVoteBits hdr) 1 \<noteq> 0 then (linkedPg i (hdHash hdr) (pg pgb), None)
     else invalidateLast (linkedPg i (hdHash hdr) (pg pgb)) (hdPrevBlock hdr) i True)"
  using assms
  by (simp add: lastFound_def UpdateLastBlock_main linkAndVote_def UpdateBlockNext_def linkedPg_def Let_def)

lemma invalidateLast_error:
  assumes "countWhere (\<lambda>r. blk_id r = i) (blocks db) = 1" "t \<in> set (RetrieveTxsByBlockHash db h)" "\<not> hasInput db t"
  shows "snd (invalidateLast db h i True) = Some LastVinsErr \<and> transactions (fst (invalidateLast db h i True)) = transactions db"
proof -
  let ?db2 = "clearVoutRegularSpendTxRowIDs (fst (UpdateLastBlockValid db i False)) h"
  have tx2: "transactions ?db2 = transactions db" "vins ?db2 = vins db"
    by (simp_all add: clearVoutRegularSpendTxRowIDs_def clearVoutSpends_def UpdateLastBlockValid_def Let_def)
  then have "t \<in> set (RetrieveTxsByBlockHash ?db2 h)" "\<not> hasInput ?db2 t"
    using assms(2,3) by (simp_all add: RetrieveTxsByBlockHash_def hasInput_def)
  then have "\<not> snd (UpdateLastVins ?db2 h False True)"
    unfolding UpdateLastVins_def updateVinsLoop_ok by blast
  moreover obtain rows where "fst (UpdateLastVins ?db2 h False True) = ?db2\<lparr>vins := rows\<rparr>"
    using updateVinsLoop_fst unfolding UpdateLastVins_def by blast
  moreover have "snd (UpdateLastBlockValid db i False)"
    using assms(1) by (simp add: UpdateLastBlockValid_def)
  ultimately show ?thesis
    by (simp add: invalidateLast_def Let_def case_prod_unfold tx2)
qed

text \<open>C10: For a block of the main chain whose predecessor is found, \<open>UpdateLastBlock\<close> links the predecessor to
  it; if the first vote bit is set it does nothing else, and otherwise the predecessor, and its
  regular transactions with their inputs, address rows and spends, become invalid in every table while its
  stake transactions stay valid, provided that every transaction of the predecessor still has
  an input row with the time of the predecessor. If one has not, it fails, and the transactions keep their flag.\<close>

theorem UpdateLastBlock_disapproves:
  assumes "lastFound pgb hdr i"
  shows "case UpdateLastBlock pgb hdr True of (db', err) \<Rightarrow>
    (and (hdVoteBits hdr) 1 \<noteq> 0 \<longrightarrow> err = None \<and> db' = linkedPg i (hdHash hdr) (pg pgb)) \<and>
    (and (hdVoteBits hdr) 1 = 0 \<longrightarrow>
       (if \<forall>t\<in>set (RetrieveTxsByBlockHash (pg pgb) (hdPrevBlock hdr)). hasInput (pg pgb) t
        then err = None \<and> db' = disapproved (hdPrevBlock hdr) i (linkedPg i (hdHash hdr) (pg pgb))
        else err = Some LastVinsErr \<and> transactions db' = transactions (pg pgb)))"
proof -
  let ?l = "linkedPg i (hdHash hdr) (pg pgb)"
  have row: "countWhere (\<lambda>r. blk_id r = i) (blocks ?l) = 1"
    "distinct (map tx_tx_hash (filter (\<lambda>t. tx_block_hash t = hdPrevBlock hdr) (transactions ?l)))"
    using assms by (simp_all add: lastFound_def)
  show ?thesis
    using invalidateLast_eq[OF row] invalidateLast_error[OF row(1)] unfolding UpdateLastBlock_linked[OF assms]
    by (auto simp: case_prod_unfold)
qed

text \<open>C11: If the disapproving block contains a transaction of its predecessor again, storing it gives the
  input rows of that transaction, which both blocks share, the time of the new block; \<open>UpdateLastBlock\<close> then
  finds no input row of the predecessor's transaction and fails, leaving the predecessor's transactions
  valid.\<close>

theorem remined_block_fails:
  assumes "lastFound pgb hdr i" "and (hdVoteBits hdr) 1 = 0"
    and "t \<in> set (transactions (pg pgb))" "tx_block_hash t = hdPrevBlock hdr"
    and "\<forall>v\<in>set vs. vpTxID v = tx_tx_hash t \<and> vpTime v = T" "T \<noteq> tx_block_time t"
    and "\<forall>r\<in>set (vins (pg pgb)). vin_tx_hash r = tx_tx_hash t \<longrightarrow> (\<exists>v\<in>set vs. sameVin v r)"
  shows "case UpdateLastBlock (pgb\<lparr>pg := fst (InsertVinsStmt (pg pgb) vs True True)\<rparr>) hdr True of (db', err) \<Rightarrow>
    err = Some LastVinsErr \<and> transactions db' = transactions (pg pgb)"
proof -
  let ?db = "fst (InsertVinsStmt (pg pgb) vs True True)"
  let ?pgb = "pgb\<lparr>pg := ?db\<rparr>"
  let ?l = "linkedPg i (hdHash hdr) ?db"
  let ?t = "(tx_id t, tx_tx_hash t, tx_block_index t, tx_tree t, tx_block_time t)"
  have lf: "lastFound ?pgb hdr i"
    using assms(1) by (auto simp: lastFound_def lastRowID_def RetrieveBlockChainDbID_def split: option.splits)
  have "?t \<in> set (RetrieveTxsByBlockHash ?l (hdPrevBlock hdr))"
    using assms(3,4) by (force simp: RetrieveTxsByBlockHash_def)
  moreover have "\<not> hasInput ?l ?t"
    using InsertVinsStmt_time[OF assms(5), of _ "pg pgb"] assms(6,7) unfolding hasInput_def isInputOf_def linkedPg_tables prod.case
    by blast
  moreover have "countWhere (\<lambda>r. blk_id r = i) (blocks ?l) = 1"
    using lf by (simp add: lastFound_def)
  ultimately have "snd (invalidateLast ?l (hdPrevBlock hdr) i True) = Some LastVinsErr \<and>
      transactions (fst (invalidateLast ?l (hdPrevBlock hdr) i True)) = transactions ?l"
    by (intro invalidateLast_error)
  then show ?thesis
    using assms(2) unfolding UpdateLastBlock_linked[OF lf] by (simp add: case_prod_unfold)
qed

subsection \<open>A concrete disapproval\<close>

definition pgHeader :: "16 word \<Rightarrow> BlockHeaderPg" where
  "pgHeader bits = \<lparr>hdHash = ''c'', hdPrevBlock = ''b'', hdVoteBits = bits\<rparr>"

definition pgAgain :: VinTxProperty where
  "pgAgain = \<lparr>vpTxID = ''t2'', vpTxIndex = 0, vpTxTree = 0, vpPrevTxHash = ''t1'', vpPrevTxIndex = 0, vpPrevTxTree = 0,
     vpValueIn = 5, vpIsValid = True, vpIsMainchain = True, vpTime = 30, vpTxType = 0\<rparr>"

lemma pgEx_lastFound: "lastFound pgExChain (pgHeader bits) 3"
  by (simp add: lastFound_def pgHeader_def zeroHashStr_def numeral_eq_Suc lastRowID_def pgExChain_def pgEx_def
      RetrieveBlockChainDbID_def queryRow_def countWhere_def pgBlock_def pgTx_def)

lemma UpdateLastBlock_disapproves_witness:
  "case UpdateLastBlock pgExChain (pgHeader 0) True of (db', err) \<Rightarrow>
     err = None \<and> map blk_is_valid (blocks db') = [True, True, False] \<and> map tx_is_valid (transactions db') = [True, False]"
proof -
  have "\<forall>t\<in>set (RetrieveTxsByBlockHash pgEx ''b''). hasInput pgEx t"
    by (simp add: RetrieveTxsByBlockHash_def hasInput_def isInputOf_def pgEx_def pgTx_def pgVin_def)
  moreover have "map blk_is_valid (blocks (disapproved ''b'' 3 (linkedPg 3 ''c'' pgEx))) = [True, True, False]"
    "map tx_is_valid (transactions (disapproved ''b'' 3 (linkedPg 3 ''c'' pgEx))) = [True, False]"
    by (simp_all add: disapproved_def linkedPg_def updateWhere_def pgEx_def pgBlock_def pgTx_def)
  ultimately show ?thesis
    using UpdateLastBlock_disapproves[OF pgEx_lastFound[of 0]]
    by (auto simp: case_prod_unfold pgHeader_def pgExChain_def)
qed

lemma remined_block_fails_witness:
  "case UpdateLastBlock (pgExChain\<lparr>pg := fst (InsertVinsStmt pgEx [pgAgain] True True)\<rparr>) (pgHeader 0) True of (db', err) \<Rightarrow>
     err = Some LastVinsErr \<and> map tx_is_valid (transactions db') = [True, True]"
proof -
  have "pgTx 2 ''b'' 2 ''t2'' [2] [2] \<in> set (transactions (pg pgExChain))"
    by (simp add: pgExChain_def pgEx_def)
  moreover have "\<forall>r\<in>set (vins (pg pgExChain)). vin_tx_hash r = ''t2'' \<longrightarrow> (\<exists>v\<in>set [pgAgain]. sameVin v r)"
    by (simp add: pgExChain_def pgEx_def pgVin_def sameVin_def pgAgain_def)
  moreover have "map tx_is_valid (transactions pgEx) = [True, True]" "pg pgExChain = pgEx"
    by (simp_all add: pgEx_def pgTx_def pgExChain_def)
  ultimately show ?thesis
    using remined_block_fails[where pgb = pgExChain and hdr = "pgHeader 0" and i = 3 and t = "pgTx 2 ''b'' 2 ''t2'' [2] [2]"
        and vs = "[pgAgain]" and T = 30] pgEx_lastFound
    by (auto simp: pgHeader_def pgTx_def pgAgain_def case_prod_unfold)
qed

end
