(* ===== verification/Spec2Isabelle.thy ===== *)
theory Spec2Isabelle
  imports TicketPool DbEnums AddressRows AddressCache Charts ChartMakers ApiCache Notifier BlockGate Prefetcher
    TxHelpers TxAmounts StakeChain Semver SqlArrays AgendaTracker MempoolCache PubSubClient ExchangeCharts
    ExchangeDepth PgRewind PgApproval
begin

text \<open>
  Verification of the core of hdfdata, a block explorer back end for a proof-of-work and
  proof-of-stake chain.

  \<^bold>\<open>The program.\<close> hdfdata follows a full node through RPC. Notifications of the node
  (\<open>notification\<close>) start the collectors, which hand each new block to the stake database (\<open>stakedb\<close>),
  to PostgreSQL (\<open>db/dcrpg\<close>), to the caches (\<open>db/cache\<close>, \<open>api/types\<close>) and to the web site and the
  websocket server (\<open>explorer\<close>, \<open>pubsub\<close>); the mempool monitor (\<open>mempool\<close>) does the same for unconfirmed
  transactions. Two HTTP APIs and the web site answer from the database and the caches. What is
  modelled are the components that hold state of their own and decide something, and the libraries
  they compute with.

  \<^bold>\<open>Blocks and stake.\<close>

  \<^item> \<open>Prelude\<close>: Go's indexing and slicing with panics as values (\<open>go_index\<close>, \<open>go_slice\<close>, the type
    \<open>go\<close>), integer width, hashes, first occurrences in a list, and the locale \<open>reversible\<close> of a log
    whose steps can be undone.
  \<^item> \<open>TicketPool\<close> (\<open>stakedb/ticketpool.go\<close>): the record \<open>TicketPool\<close> has the fields of the Go struct;
    the pool map is the set of its keys. The operations have the names of the methods and return
    their result or error with the state that the code leaves. The specification is \<open>poolAt\<close>, the replay of
    the first diffs; \<open>tpReach\<close> is the set of the reachable states.
  \<^item> \<open>StakeDb\<close> (\<open>stakedb/stakedb.go\<close>): the pool information cache, the live ticket cache, \<open>ConnectBlock\<close>,
    \<open>DisconnectBlock\<close> and \<open>Rewind\<close>, the waiters for heights, and the recovery of both constructors. \<open>StakeChain\<close>
    (\<open>stakedb/chainmonitor.go\<close>): the handlers of connected blocks and of reorganizations; \<open>represents\<close>
    relates a database to the chain it has connected.
  \<^item> \<open>WaitingRoom\<close> and \<open>BlockGate\<close> (\<open>rpcutils/blockgate.go\<close>): waiting for a height or a hash as a locale
    that both the block gate and the stake database interpret, and the gate with its cache, its
    queue and its waiters. \<open>Prefetcher\<close> (\<open>rpcutils/prefetcher.go\<close>): the prefetching client, its goroutines
    as the step relation \<open>pfStep\<close>. \<open>ChainRpc\<close> (\<open>rpcutils/rpcclient.go\<close>): the common ancestor, side chains and
    fetching of blocks.
  \<^item> \<open>Notifier\<close> (\<open>notification/notifier.go\<close>): the queue of notifications, \<open>processBlock\<close>, \<open>signalReorg\<close>,
    \<open>processTx\<close> and \<open>superQueue\<close>; a call of a handler is recorded by its name and arguments.
  \<^item> \<open>TxHelpers\<close> and \<open>TxAmounts\<close> (\<open>txhelpers\<close>): the outpoints of an address, stake transactions, transaction
    types; fees, mixes, votes and subsidies.

  \<^bold>\<open>Caches and data.\<close>

  \<^item> \<open>DbEnums\<close> and \<open>AddressRows\<close> (\<open>db/dbtypes/types.go\<close>): the enumerations with the locale \<open>printed\<close> of a
    printer with a parser that inverts it; the three row types with the slicing, counting and merging
    functions. The locale \<open>paging\<close> is the contract of a function that delivers a page of the rows that a
    predicate selects; the specification of merging is \<open>mergeAll\<close>, one row for each distinct hash.
    \<open>SqlArrays\<close> (\<open>db/dbtypes/internal/arrays.go\<close>): the parser of SQL arrays.
  \<^item> \<open>AddressCache\<close> (\<open>db/cache/addresscache.go\<close>): \<open>CacheLock\<close>, \<open>AddressCacheItem\<close> and \<open>AddressCache\<close>
    have the fields of the Go structs; the map from addresses to items is an association list.
    \<open>acReach\<close> and \<open>lockReach\<close> are the reachable states.
  \<^item> \<open>Charts\<close> and \<open>ChartMakers\<close> (\<open>db/cache/charts.go\<close>): what changes the data (\<open>Lengthen\<close>,
    \<open>ReorgHandler\<close>, the cache file, \<open>Update\<close>), and what reads them (the derived series, the fifteen chart
    makers, and \<open>Chart\<close> with its cache of encoded charts). The locale \<open>lengther\<close> is the Go interface.
  \<^item> \<open>BlockQueue\<close> and \<open>ApiCache\<close> (\<open>api/types/apicache.go\<close>): the priority queue with the heap functions of
    \<open>container/heap\<close>, and the cache with its Store, Get and Remove methods.
  \<^item> \<open>MempoolTypes\<close>, \<open>MempoolMonitor\<close> and \<open>MempoolCache\<close> (\<open>mempool\<close>, the mempool part of
    \<open>explorer/types\<close>): the inventory with its votes, the monitor that keeps it up to date one
    transaction at a time, and the fees of the tickets.
  \<^item> \<open>AgendaTracker\<close> (\<open>gov/agendas\<close>): the vote tracker with its ring of block versions, and the agenda
    database. \<open>Decimal\<close> and \<open>Semver\<close> (\<open>semver\<close>): decimal numbers as \<open>strconv\<close> has them, and versions.

  \<^bold>\<open>The chain database.\<close>

  \<^item> \<open>PgTables\<close> (\<open>db/dcrpg/internal\<close>, \<open>db/dcrpg/queries.go\<close>): the tables of PostgreSQL as lists of row records,
    and the SQL statements as maps and filters over them. The locales \<open>row_update\<close> and \<open>block_rows\<close> are the
    contract of an update that writes constants into the rows of some blocks. \<open>PgReorg\<close>
    (\<open>db/dcrpg/pgblockchain.go\<close>): \<open>TipToSideChain\<close>; the specification is \<open>offMain\<close>, all rows of a set of blocks off
    the main chain, and \<open>chainInv\<close> is the invariant of the tables. \<open>PgRewind\<close> (\<open>db/dcrpg/rewind.go\<close>): the deletion of
    a block and of the best blocks. \<open>PgApproval\<close>: \<open>UpdateLastBlock\<close>, which links a block to its predecessor and
    invalidates that one when its votes say so; the specification is \<open>disapproved\<close>.

  \<^bold>\<open>Publishing.\<close>

  \<^item> \<open>PubSubTypes\<close>, \<open>PubSubHub\<close> and \<open>PubSubClient\<close> (\<open>pubsub\<close>): the signals and messages; the hub with its
    clients, one case of its event loop at a time, and the send and receive loops of a connection, one
    message at a time (\<open>hubReach\<close> are the reachable states); the client with its pending requests.

  \<^bold>\<open>Exchanges.\<close>

  \<^item> \<open>ExchangeTypes\<close> (\<open>exchanges/exchanges.go\<close>): sticks, order books and states, the record \<open>CommonExchange\<close> that
    every exchange extends, with the status of its websocket, and the messages of the rate server.
    \<open>BittrexFeed\<close> and \<open>PoloniexFeed\<close>: the two order books that are kept over a websocket, one message at a
    time (\<open>bittrexReach\<close>, \<open>poloniexReach\<close>); a decoded message is a value of \<open>json\<close>. \<open>ExchangeRefresh\<close>: the
    responses of the seven exchanges, their translation, and one definition per method \<open>Refresh\<close>.
  \<^item> \<open>ExchangeBot\<close> (\<open>exchanges/bot.go\<close>): the bot that collects the states and computes the price.
    \<open>ExchangeCharts\<close>: its cached charts with their versions, for readers that interleave (\<open>botReach\<close>).
    \<open>ExchangeDepth\<close>: the order book aggregated over the exchanges.
\<close>

text \<open>
  \<^bold>\<open>Conventions.\<close> Integers that hold only lengths, heights and positions are unbounded; amounts,
  time stamps, database keys and sums are words of their Go width and wrap. Where a Go \<open>int\<close>
  expression can wrap and the source does not exclude it (offset plus count of a page) the model
  wraps with \<open>wrap64\<close>. An index or slice out of range, a division by zero and a nil dereference
  are values (\<open>None\<close>, or \<open>Panic\<close>); properties say which operations cannot panic and under what
  condition. Errors are values of one datatype per component, or strings. Mutexes serialize the operations and
  are not modelled; a method body between its lock and its unlock is one step. Goroutines that
  interleave are step relations: the prefetcher, the waiters, the address cache lock, the hub with its
  connections.

  \<^bold>\<open>Loops.\<close> Loops over a slice are structural recursions on the list. Loops whose end depends on the
  state or on the answers of the node are \<open>partial_function (option)\<close>: the eviction loops of the address
  cache, \<open>rollBack\<close> and \<open>trimDown\<close> of the recovery of the stake database, \<open>sideChainLoop\<close>, \<open>rciLoop\<close> of the agenda
  tracker, \<open>arrayLoop\<close> of the array parser, \<open>ultimateLoop\<close> of the subsidies, \<open>processUpdates\<close> of the Bittrex feed, \<open>tipLoop\<close> of the chain database. Where a property is about one of
  them, that it returns is proved and not assumed. No definition takes fuel.

  \<^bold>\<open>Parameters.\<close> What is not in the source is an argument. The node is a record of functions
  (\<open>BlockFetcher\<close>, \<open>voteDataSource\<close>, \<open>monitorEnv\<close>), the packages \<open>stake\<close> and \<open>database\<close> are \<open>stakeEnv\<close>, what the
  websocket server asks of its data source is \<open>serverState\<close>, and JSON is \<open>jsonCodec\<close> or a marshaller. The hash
  parser and printer of \<open>chainhash\<close>, the store of the ticket pool database, the clock, the order of map
  iteration, and floating point arithmetic (a type with the operations that are used, \<open>floatEnv\<close> for the
  exchanges) are arguments too, as are the answers of the exchanges and the results of selects that
  depend on time. Properties state what they need of a parameter as hypotheses.

  \<^bold>\<open>What is shown.\<close> Invariants of all reachable states: of the ticket pool, the address cache, the queue
  and the cache of the API, the block gate, the notifier, and the hub. Refinements: merging of rows
  against its specification; a reorganization switches the stake database from one chain to the
  other; the vote tracker represents the window of the last blocks. Equivalences: a chart with and without
  the cache, for readers that interleave with changes of the data, as long as the identifier of the cached
  chart is the current one; prefetching and plain fetching from a node that may change, up to what the node
  answered when the block was fetched; the inventory of the mempool kept one transaction at a time and the one
  that is parsed from the whole mempool, with the same contents, and with the same lists where the transactions
  arrive in the order of their times. Liveness: waiters are signalled, the stake database recovers at
  start-up. Round trips: connecting and disconnecting, the cache file of the charts, arrays,
  the messages of the rate server. Of the exchanges also that the order in which updates of an order book
  arrive does not matter, that sticks are never lost, that the price is the average weighted with the volumes,
  and that a cached chart is one of the current data while the exchange is up to date. Of the chain database,
  that a reorganization moves exactly the blocks above the common
  ancestor off the main chain, keeps the tables consistent and returns just when the ancestor is one, and what
  a rewind leaves in every table (the spending information of outputs included, which is not reset as the
  comments say); a disapproved block becomes invalid in all tables, unless
  the disapproving block contains one of its transactions again. For the publish and subscribe server also
  whom a message reaches, which frames of a client make it panic, where every transaction handed to a
  connection is (buffered, written, or in a batch that could not be encoded or sent), and that responses match
  requests. The theorem of
  this theory puts the parts together for a reorganization, from the notification to the components.
  Some lemmas record behaviour that the comments of the source do not describe: pages of merged rows that
  overlap, rows that a successful store loses, a row capacity that is exceeded, buffers that are never
  sent.

  \<^bold>\<open>What is not modelled.\<close> Of the database layer, most of storing blocks, the synchronization, the indexes and
  schema upgrades, and the many queries of the web site; a failing connection, time limits and the
  constraints of the schema are not modelled either. The HTTP handlers of both APIs and the pages of the explorer pass what the
  database returns to JSON and templates. Politeia and the chain parameters' wiring call other services.
  In the modelled files, opening and migrating database files, gob and file I/O, websocket I/O,
  connecting to the node, HTTP requests and the dialing of the exchanges and of the master bot, the
  SQL scanner and valuer methods, functions that compute only with
  floating point numbers, and log output are left out. \<open>main.go\<close> and \<open>cmd\<close> configure and start the parts.
\<close>

subsection \<open>A reorganization, from the notification to the components\<close>

text \<open>What \<open>signalReorg\<close> tells the handlers about two branches over a common block.\<close>

definition reorgOf :: "BranchTips \<Rightarrow> Hash \<Rightarrow> Hash list \<Rightarrow> Hash list \<Rightarrow> ReorgData" where
  "reorgOf d a newChain oldChain =
     \<lparr>rdCommonAncestor = a, rdOldChainHead = btOldChainHead d, rdOldChainHeight = btOldChainHeight d,
      rdOldChain = oldChain, rdNewChainHead = btNewChainHead d, rdNewChainHeight = btNewChainHeight d,
      rdNewChain = newChain\<rparr>"

lemma signalReorg_fork:
  assumes "consistentNode (ntNode nt)" and "forkOf (ntNode nt) a newChain oldChain"
    and "length newChain \<le> maxAncestorChainLength" and "length oldChain \<le> maxAncestorChainLength"
    and "btNewChainHead d = last newChain" and "btOldChainHead d = last oldChain" and "\<And>i. done i"
  shows "signalReorg done d nt = SetPreviousBlock (last newChain) (word_of_int (btNewChainHeight d))
    (nt\<lparr>ntCalls := ntCalls nt @ map (\<lambda>h. ReorgCall h (reorgOf d a newChain oldChain)) (concat (ntReorg nt))\<rparr>)"
proof -
  have "CommonAncestor (Some (ntNode nt)) (last newChain) (last oldChain) = (Some a, newChain, oldChain, None)"
    using ancestorLoop_finds[OF assms(1,2), of 0 "[]" "[]"] assms(3,4) by (simp add: CommonAncestor_def)
  then show ?thesis
    by (simp add: signalReorg_def assms(5,6) runGroups_done[OF assms(7)] reorgOf_def)
qed

text \<open>C1: a reorganization reaches the components consistently. The node is consistent, the two branches
  are within the limit of \<open>CommonAncestor\<close>, every registered handler returns in time, and the stake
  database represents the old chain, can undo the old branch (the node still has its blocks) and can
  connect the new one. Then the notifier, told only the two tips, finds the fork and calls every registered handler
  with the same data, and remembers the new tip; with this data the stake database comes to represent
  the new chain; and \<open>ReorgHandler\<close> of the charts, whatever data sets they hold, leaves of every block
  data set exactly the values it had for the blocks up to the common ancestor.\<close>

theorem reorganization_switches_components:
  assumes node: "consistentNode (ntNode nt)"
    and fork: "forkOf (ntNode nt) (sbHash (last c)) (map sbHash new) (map sbHash old)"
      "length new \<le> maxAncestorChainLength" "length old \<le> maxAncestorChainLength"
    and tips: "btNewChainHead d = sbHash (last new)" "btOldChainHead d = sbHash (last old)"
      "btNewChainHeight d = int (length c + length new) - 1"
    and db: "represents env nodeOf fileOf (c @ old) db" "c \<noteq> []"
      "undoable env nodeOf fileOf c old" "extendable env nodeOf fileOf c new"
    and prompt: "\<And>i. done i"
  shows "\<exists>r db'. ntCalls (signalReorg done d nt) = ntCalls nt @ map (\<lambda>h. ReorgCall h r) (concat (ntReorg nt)) \<and>
    ntPreviousHash (signalReorg done d nt) = sbHash (last new) \<and>
    monitorReorgHandler env r db = Ret (None, db') \<and> represents env nodeOf fileOf (c @ new) db' \<and>
    zoomLists (Blocks (ReorgHandler (rdNewChainHeight r) (rdNewChain r) charts))
      = map (take (length c)) (zoomLists (Blocks charts))"
proof -
  let ?r = "reorgOf d (sbHash (last c)) (map sbHash new) (map sbHash old)"
  have ne: "new \<noteq> []" "old \<noteq> []" using fork(1) by (auto simp: forkOf_def)
  have s: "signalReorg done d nt = SetPreviousBlock (sbHash (last new)) (word_of_int (btNewChainHeight d))
      (nt\<lparr>ntCalls := ntCalls nt @ map (\<lambda>h. ReorgCall h ?r) (concat (ntReorg nt))\<rparr>)"
    using signalReorg_fork[OF node fork(1) _ _ _ _ prompt, of d] fork(2,3) tips(1,2) ne by (simp add: last_map)
  obtain h db' where sw: "switchToSideChain env ?r db = Ret (h, Some (sbHash (last new)), None, db')"
    "represents env nodeOf fileOf (c @ new) db'"
    using switch_ok[OF db(1,2) ne(1) db(3,4), of ?r] tips(3) by (auto simp: reorgOf_def)
  have "nat (btNewChainHeight d - int (length new) + 1) = length c" using tips(3) by simp
  then have "zoomLists (Blocks (ReorgHandler (rdNewChainHeight ?r) (rdNewChain ?r) charts))
      = map (take (length c)) (zoomLists (Blocks charts))"
    by (simp add: ReorgHandler_def Let_def reorgOf_def)
  then show ?thesis
    using sw by (intro exI[of _ ?r] exI[of _ db']) (simp add: s monitorReorgHandler_def)
qed

definition exFork :: "unit BlockFetcher" where
  "exFork = \<lparr>fGetBestBlock = Inr (4, 2),
     fGetBlock = (\<lambda>h. if h = 1 then Inr \<lparr>mbHeight = 0, mbPrevBlock = 0, mbBlockHash = 1, mbRest = ()\<rparr>
       else if h = 2 \<or> h = 3 then Inr \<lparr>mbHeight = 1, mbPrevBlock = 1, mbBlockHash = h, mbRest = ()\<rparr>
       else if h = 4 then Inr \<lparr>mbHeight = 2, mbPrevBlock = 3, mbBlockHash = 4, mbRest = ()\<rparr> else Inl []),
     fGetBlockHash = (\<lambda>i. Inl []), fGetBlockHeaderVerbose = (\<lambda>h. Inl [])\<rparr>"

lemma exFork_parent:
  "parentOf exFork h = (if h = 1 then Some 0 else if h = 2 \<or> h = 3 then Some 1 else if h = 4 then Some 3 else None)"
  by (simp add: parentOf_def exFork_def)

lemma exFork_height:
  "heightOf exFork h = (if h = 1 then 0 else if h = 2 \<or> h = 3 then 1 else if h = 4 then 2 else 0)"
  by (simp add: heightOf_def exFork_def)

theorem reorganization_switches_components_witness:
  "\<exists>r db'. ntCalls (signalReorg (\<lambda>i. True) \<lparr>btOldChainHead = 2, btOldChainHeight = 1, btNewChainHead = 4, btNewChainHeight = 2\<rparr>
      ((NewNotifier exFork)\<lparr>ntReorg := [[''stakedb''], [''charts'']]\<rparr>))
      = [ReorgCall ''stakedb'' r, ReorgCall ''charts'' r] \<and>
    monitorReorgHandler StakeChain.exEnv r exDb = Ret (None, db') \<and>
    represents StakeChain.exEnv length (map sbHash) [exG, exB, exC] db' \<and>
    zoomLists (Blocks (ReorgHandler (rdNewChainHeight r) (rdNewChain r) (exCharts [100, 200, 300] [5, 6, 7])))
      = map (take 1) (zoomLists (exZoom [100, 200, 300] [5, 6, 7]))"
proof -
  let ?nt = "(NewNotifier exFork)\<lparr>ntReorg := [[''stakedb''], [''charts'']]\<rparr>"
    and ?d = "\<lparr>btOldChainHead = 2, btOldChainHeight = 1, btNewChainHead = 4, btNewChainHeight = 2\<rparr> :: BranchTips"
  have nt: "ntNode ?nt = exFork" by (simp add: NewNotifier_def)
  have "consistentNode (ntNode ?nt)"
    unfolding nt consistentNode_def exFork_parent exFork_height by (auto split: if_splits)
  moreover have "forkOf (ntNode ?nt) (sbHash (last [exG])) (map sbHash [exB, exC]) (map sbHash [exA])"
    unfolding nt forkOf_def by (simp add: exFork_parent ex_fields)
  ultimately show ?thesis
    using reorganization_switches_components[of ?nt "[exG]" "[exB, exC]" "[exA]" ?d StakeChain.exEnv length "map sbHash" exDb
        "\<lambda>i. True" "exCharts [100, 200, 300] [5, 6, 7]"] exDb_represents ex_ConnectBlock(1,2)
    by (simp add: ex_fields maxAncestorChainLength_def NewNotifier_def) blast
qed

end
